(* ===== verification/Prelude.thy ===== *)
theory Prelude
  imports Main "HOL-Library.Word" "HOL-Library.Multiset"
begin

text \<open>
  Shared vocabulary of the development: the machine integers and byte buffers the Go code
  works on, the big-endian and little-endian accessors of \<^verbatim>\<open>encoding/binary\<close>, Go's
  \<^verbatim>\<open>copy\<close> and \<^verbatim>\<open>clear\<close> on slices, results that carry an error value, the backing
  device with the \<^verbatim>\<open>ReadAt\<close>/\<^verbatim>\<open>WriteAt\<close> contract of an \<^verbatim>\<open>os.File\<close>, and the
  interfaces (locales) that several components share: fixed-size record codecs and
  strict record orders.
\<close>

unbundle bit_operations_syntax

section \<open>Types\<close>

type_synonym byte = "8 word"
type_synonym u16 = "16 word"
type_synonym u32 = "32 word"
type_synonym u64 = "64 word"
type_synonym int64 = "64 word"
type_synonym bytes = "byte list"

text \<open>
  Error values. Each sentinel or class of message the Go code distinguishes with
  \<^verbatim>\<open>errors.Is\<close> or by its own branch has a constructor; \<open>Panic\<close> is a Go run-time panic
  (index or slice bounds out of range), kept as a value so that its absence can be proved, and
  \<open>OutOfFuel\<close> stands for a loop that has not ended within the rounds the model was given.
\<close>

datatype error =
    ErrIO
  | ErrBadMagic
  | ErrGeometry
  | ErrOutOfBounds
  | ErrTooLarge
  | ErrBlockOutOfRange
  | ErrForkTooSmall
  | ErrInlineSize
  | ErrFormat
  | ErrBtree
  | ErrCycle
  | ErrLoopLimit
  | ErrNotFound
  | ErrNotExist
  | ErrSymlinkLoop
  | ErrNotRegular
  | ErrNotDir
  | ErrNotSymlink
  | ErrExists
  | ErrInvalidPath
  | ErrNoSpace
  | ErrInobtFull
  | ErrRefcountFull
  | ErrCrossAG
  | ErrQuotaIDRange
  | ErrLabelTooLong
  | ErrUnaligned
  | ErrTooSmall
  | ErrShrink
  | ErrPartialAG
  | ErrPartTable
  | ErrNoReflink
  | ErrInvalidArg
  | ErrDirOverflow
  | EOF
  | Panic
  | OutOfFuel

type_synonym 'a res = "error + 'a"

text \<open>Sequencing of fallible computations: Go's \<^verbatim>\<open>if err != nil { return err }\<close>.\<close>

definition bindR :: "'a res \<Rightarrow> ('a \<Rightarrow> 'b res) \<Rightarrow> 'b res" where
  "bindR r f = (case r of Inl e \<Rightarrow> Inl e | Inr x \<Rightarrow> f x)"

named_theorems go_simps \<open>evaluation of the Go primitives\<close>
named_theorems buf_simps \<open>reading a byte buffer after writing it\<close>

lemma bindR_Inl [simp, go_simps]: "bindR (Inl e) f = Inl e"
  and bindR_Inr [simp, go_simps]: "bindR (Inr x) f = f x"
  by (simp_all add: bindR_def)

lemma bindR_eq_Inr: "bindR r f = Inr y \<longleftrightarrow> (\<exists>x. r = Inr x \<and> f x = Inr y)"
  by (cases r) simp_all

lemma bindR_eq_Inl: "bindR r f = Inl e \<longleftrightarrow> r = Inl e \<or> (\<exists>x. r = Inr x \<and> f x = Inl e)"
  by (cases r) simp_all

lemma bindR_cong [fundef_cong]:
  "r = r' \<Longrightarrow> (\<And>x. r' = Inr x \<Longrightarrow> f x = f' x) \<Longrightarrow> bindR r f = bindR r' f'"
  by (cases r') simp_all

section \<open>Byte buffers\<close>

text \<open>\<open>window off n buf\<close> is \<^verbatim>\<open>buf[off:off+n]\<close> where that is in range.\<close>

definition window :: "nat \<Rightarrow> nat \<Rightarrow> 'a list \<Rightarrow> 'a list" where
  "window off n buf = take n (drop off buf)"

text \<open>
  \<open>patch off bs buf\<close> is \<^verbatim>\<open>copy(buf[off:], bs)\<close>: as many bytes as fit, the length kept.
  The \<^verbatim>\<open>PutUint\<close> functions are the same write of a fixed number of bytes; they are used
  at offsets where those bytes fit.
\<close>

definition patch :: "nat \<Rightarrow> 'a list \<Rightarrow> 'a list \<Rightarrow> 'a list" where
  "patch off bs buf = take off buf @ take (length buf - off) bs @ drop (off + length bs) buf"

text \<open>\<open>zero_range off n buf\<close> is \<^verbatim>\<open>clear(buf[off:off+n])\<close>.\<close>

definition zero_range :: "nat \<Rightarrow> nat \<Rightarrow> bytes \<Rightarrow> bytes" where
  "zero_range off n buf = patch off (replicate n 0) buf"

definition be_word :: "bytes \<Rightarrow> 'a::len word" where
  "be_word bs = word_rcat bs"

definition be_bytes :: "nat \<Rightarrow> 'a::len word \<Rightarrow> bytes" where
  "be_bytes n w = map (\<lambda>i. ucast (drop_bit (8 * (n - 1 - i)) w)) [0..<n]"

definition be16 :: "bytes \<Rightarrow> nat \<Rightarrow> u16" where
  "be16 buf off = be_word (window off 2 buf)"

definition be32 :: "bytes \<Rightarrow> nat \<Rightarrow> u32" where
  "be32 buf off = be_word (window off 4 buf)"

definition be64 :: "bytes \<Rightarrow> nat \<Rightarrow> u64" where
  "be64 buf off = be_word (window off 8 buf)"

definition le32 :: "bytes \<Rightarrow> nat \<Rightarrow> u32" where
  "le32 buf off = be_word (rev (window off 4 buf))"

definition byte_at :: "bytes \<Rightarrow> nat \<Rightarrow> byte" where
  "byte_at buf off = (if off < length buf then buf ! off else 0)"

definition put16 :: "nat \<Rightarrow> u16 \<Rightarrow> bytes \<Rightarrow> bytes" where
  "put16 off v buf = patch off (be_bytes 2 v) buf"

definition put32 :: "nat \<Rightarrow> u32 \<Rightarrow> bytes \<Rightarrow> bytes" where
  "put32 off v buf = patch off (be_bytes 4 v) buf"

definition put64 :: "nat \<Rightarrow> u64 \<Rightarrow> bytes \<Rightarrow> bytes" where
  "put64 off v buf = patch off (be_bytes 8 v) buf"

definition putle32 :: "nat \<Rightarrow> u32 \<Rightarrow> bytes \<Rightarrow> bytes" where
  "putle32 off v buf = patch off (rev (be_bytes 4 v)) buf"

definition put8 :: "nat \<Rightarrow> byte \<Rightarrow> bytes \<Rightarrow> bytes" where
  "put8 off v buf = patch off [v] buf"

subsection \<open>Laws of slices and patches\<close>

lemma length_window [simp]: "length (window off n buf) = min n (length buf - off)"
  by (simp add: window_def)

lemma nth_window: "i < n \<Longrightarrow> off + i < length buf \<Longrightarrow> window off n buf ! i = buf ! (off + i)"
  by (simp add: window_def)

lemma window_0: "window 0 n buf = take n buf"
  by (simp add: window_def)

lemma window_full: "length buf = n \<Longrightarrow> window 0 n buf = buf"
  by (simp add: window_def)

lemma length_patch [simp, buf_simps]: "length (patch off bs buf) = length buf"
  by (auto simp: patch_def min_def)

lemma patch_beyond: "length buf \<le> off \<Longrightarrow> patch off bs buf = buf"
  by (simp add: patch_def)

lemma nth_patch:
  assumes "i < length buf"
  shows "patch off bs buf ! i =
    (if off \<le> i \<and> i < off + length bs then bs ! (i - off) else buf ! i)"
  using assms by (auto simp: patch_def nth_append min_def)

lemma window_patch_same [buf_simps]:
  "off + length bs \<le> length buf \<Longrightarrow> n = length bs \<Longrightarrow> window off n (patch off bs buf) = bs"
  by (simp add: window_def patch_def)

lemma window_patch_before [buf_simps]:
  "off' + n \<le> off \<Longrightarrow> window off' n (patch off bs buf) = window off' n buf"
  by (rule nth_equalityI) (auto simp: nth_window nth_patch)

lemma window_patch_after [buf_simps]:
  "off + length bs \<le> off' \<Longrightarrow>
    window off' n (patch off bs buf) = window off' n buf"
  by (rule nth_equalityI) (auto simp: nth_window nth_patch)

lemma window_append1: "off + n \<le> length xs \<Longrightarrow> window off n (xs @ ys) = window off n xs"
  by (simp add: window_def)

lemma window_append2: "length xs \<le> off \<Longrightarrow> window off n (xs @ ys) = window (off - length xs) n ys"
  by (simp add: window_def)

lemma window_slice: "i + n \<le> m \<Longrightarrow> window i n (window off m buf) = window (off + i) n buf"
  by (simp add: window_def drop_take add.commute min_def)

lemma window_drop: "window i n (drop k buf) = window (k + i) n buf"
  by (simp add: window_def add.commute)

lemma length_zero_range [simp, buf_simps]:
  "length (zero_range off n buf) = length buf"
  by (simp add: zero_range_def)

subsection \<open>Big-endian encoding\<close>

lemma length_be_bytes [simp, buf_simps]: "length (be_bytes n w) = n"
  by (simp add: be_bytes_def)

lemma bit_be_word:
  "bit (be_word bs :: 'a::len word) k \<longleftrightarrow>
    k < LENGTH('a) \<and> k div 8 < length bs \<and> bit (rev bs ! (k div 8)) (k mod 8)"
  using bit_horner_sum_uint_exp_iff [of "rev bs" k]
  by (simp add: be_word_def word_rcat_def bit_word_of_int_iff)

lemma be_word_be_bytes:
  assumes "LENGTH('a::len) \<le> 8 * n"
  shows "be_word (be_bytes n (w :: 'a word)) = w"
proof (rule bit_word_eqI)
  fix k assume k: "k < LENGTH('a)"
  with assms have "k div 8 < n" by auto
  moreover have "8 * (k div 8) + k mod 8 = k" by simp
  moreover have "k mod 8 < 8" by simp
  ultimately show "bit (be_word (be_bytes n w) :: 'a word) k = bit w k"
    using k
    by (simp add: bit_be_word be_bytes_def rev_nth bit_simps)
qed

lemma be_bytes_be_word:
  assumes "length bs = n" and "8 * n \<le> LENGTH('a::len)"
  shows "be_bytes n (be_word bs :: 'a word) = bs"
proof (rule nth_equalityI)
  show "length (be_bytes n (be_word bs :: 'a word)) = length bs" using assms by simp
next
  fix i assume "i < length (be_bytes n (be_word bs :: 'a word))"
  then have i: "i < n" by simp
  show "be_bytes n (be_word bs :: 'a word) ! i = bs ! i"
  proof (rule bit_word_eqI)
    fix k assume "k < LENGTH(8)"
    then have k: "k < 8" by simp
    let ?p = "8 * (n - 1 - i) + k"
    have d: "?p div 8 = n - 1 - i" and m: "?p mod 8 = k" using k by simp_all
    have "?p < LENGTH('a)" using assms i k by auto
    then show "bit (be_bytes n (be_word bs :: 'a word) ! i) k = bit (bs ! i) k"
      using i k assms d m
      by (simp add: be_bytes_def bit_simps bit_be_word rev_nth add.commute)
  qed
qed

lemmas be_roundtrips [simp, buf_simps] =
  be_word_be_bytes [where 'a = 16 and n = 2, simplified]
  be_word_be_bytes [where 'a = 32 and n = 4, simplified]
  be_word_be_bytes [where 'a = 64 and n = 8, simplified]

subsection \<open>Reading a field after writing one\<close>

lemmas get_defs = be16_def be32_def be64_def le32_def
lemmas put_defs = put16_def put32_def put64_def putle32_def put8_def

lemma length_put [simp, buf_simps]:
  "length (put8 off a buf) = length buf"
  "length (put16 off b buf) = length buf"
  "length (put32 off c buf) = length buf"
  "length (put64 off d buf) = length buf"
  "length (putle32 off c buf) = length buf"
  by (simp_all add: put_defs)

lemma get_put_same [simp, buf_simps]:
  "off + 2 \<le> length buf \<Longrightarrow> be16 (put16 off b buf) off = b"
  "off + 4 \<le> length buf \<Longrightarrow> be32 (put32 off c buf) off = c"
  "off + 8 \<le> length buf \<Longrightarrow> be64 (put64 off d buf) off = d"
  "off + 4 \<le> length buf \<Longrightarrow> le32 (putle32 off c buf) off = c"
  by (simp_all add: get_defs put_defs window_patch_same)

lemma byte_put_same [simp, buf_simps]:
  "off < length buf \<Longrightarrow> byte_at (put8 off a buf) off = a"
  by (simp add: byte_at_def put8_def nth_patch)

text \<open>
  A window read at a place that no put touches: one rule per put, each with its width
  written out, so that the simplifier decides the distance on numerals.
\<close>

lemma window_put_frame [buf_simps]:
  "off' + n \<le> off \<or> off + 1 \<le> off' \<Longrightarrow>
     window off' n (put8 off a buf) = window off' n buf"
  "off' + n \<le> off \<or> off + 2 \<le> off' \<Longrightarrow>
     window off' n (put16 off b buf) = window off' n buf"
  "off' + n \<le> off \<or> off + 4 \<le> off' \<Longrightarrow>
     window off' n (put32 off c buf) = window off' n buf"
  "off' + n \<le> off \<or> off + 8 \<le> off' \<Longrightarrow>
     window off' n (put64 off d buf) = window off' n buf"
  "off' + n \<le> off \<or> off + 4 \<le> off' \<Longrightarrow>
     window off' n (putle32 off c buf) = window off' n buf"
  "off' + n \<le> off \<or> off + length bs \<le> off' \<Longrightarrow>
     window off' n (patch off bs buf) = window off' n buf"
  by (auto simp: put_defs window_patch_before window_patch_after)

text \<open>A single byte as a window of length one, so that the frame rules serve bytes too.\<close>

lemma byte_at_window: "byte_at buf off = (case window off 1 buf of [] \<Rightarrow> 0 | x # _ \<Rightarrow> x)"
  by (cases "drop off buf") (auto simp: byte_at_def window_def nth_via_drop)

section \<open>Word facts\<close>

lemma unat_lt:
  "unat (b :: byte) < 256" "unat (h :: u16) < 65536" "unat (w :: u32) < 4294967296"
  "unat (v :: u64) < 18446744073709551616"
  using unsigned_less [of b, where 'a = nat] unsigned_less [of h, where 'a = nat]
    unsigned_less [of w, where 'a = nat] unsigned_less [of v, where 'a = nat] by simp_all

lemma unat_exp: "k < LENGTH('a) \<Longrightarrow> unat (2 ^ k :: 'a::len word) = 2 ^ k"
  using unat_of_nat [of "2 ^ k", where 'a = 'a] by simp

lemma low_mask: "x AND (2 ^ l - 1) = take_bit l (x :: 'a::len word)"
  "x AND (push_bit l 1 - 1) = take_bit l (x :: 'a::len word)"
  by (simp_all add: take_bit_eq_mask mask_eq_exp_minus_1 push_bit_of_1)

lemma not_bit_above: "unat (w :: 'a::len word) < 2 ^ l \<Longrightarrow> l \<le> k \<Longrightarrow> \<not> bit w k"
proof
  assume "unat w < 2 ^ l" and "l \<le> k" and "bit w k"
  from \<open>bit w k\<close> have "bit (unat w) k" by (simp add: bit_unsigned_iff)
  then have "unat w div 2 ^ k \<noteq> 0" by (metis bit_iff_odd even_zero)
  moreover have "unat w < 2 ^ k"
    using \<open>unat w < 2 ^ l\<close> power_increasing [OF \<open>l \<le> k\<close>, of "2 :: nat"] by linarith
  ultimately show False by simp
qed

lemma ucast32_64 [simp]: "ucast (ucast (x :: u32) :: u64) = x"
  by (rule bit_word_eqI) (simp add: bit_simps)

lemma unat_ucast_up [simp]:
  "unat (ucast (x :: u32) :: u64) = unat x" "unat (ucast (y :: u16) :: u64) = unat y"
  "unat (ucast (z :: byte) :: u64) = unat z" "unat (ucast (y :: u16) :: u32) = unat y"
  "unat (ucast (z :: byte) :: u32) = unat z"
  using unat_lt(1) [of z] unat_lt(2) [of y] unat_lt(3) [of x]
  by (simp_all add: unsigned_ucast_eq take_bit_nat_eq_self)

text \<open>
  The packed number \<open>(hi << l) | lo\<close> splits back into its parts; block numbers and inode
  numbers pack this way.
\<close>

lemma pack_high:
  fixes hi lo :: u32
  assumes "unat lo < 2 ^ l" and "l \<le> 32 \<or> unat hi < 2 ^ (64 - l)"
  shows "drop_bit l (push_bit l (ucast hi) OR ucast lo :: u64) = ucast hi"
proof (rule bit_word_eqI)
  fix n assume n: "n < LENGTH(64)"
  have lo: "\<not> bit lo (l + n)" using assms(1) by (rule not_bit_above) simp
  have "\<not> bit hi n" if "\<not> l + n < 64"
  proof (cases "l \<le> 32")
    case True
    with that show ?thesis by (simp add: impossible_bit)
  next
    case False
    with assms(2) have "unat hi < 2 ^ (64 - l)" by simp
    then show ?thesis by (rule not_bit_above) (use that in simp)
  qed
  with n lo show "bit (drop_bit l (push_bit l (ucast hi) OR ucast lo :: u64)) n = bit (ucast hi :: u64) n"
    by (auto simp: bit_simps)
qed

lemma pack_low:
  fixes hi lo :: u32
  assumes "unat lo < 2 ^ l"
  shows "take_bit l (push_bit l (ucast hi) OR ucast lo :: u64) = ucast lo"
proof (rule bit_word_eqI)
  fix n assume "n < LENGTH(64)"
  then show "bit (take_bit l (push_bit l (ucast hi) OR ucast lo :: u64)) n = bit (ucast lo :: u64) n"
    using not_bit_above [OF assms, of n] by (auto simp: bit_simps not_le [symmetric])
qed

text \<open>The rounding-up division \<open>(a + b - 1) / b\<close> the code uses for block counts.\<close>

lemma ceil_div:
  fixes a b :: nat
  assumes "0 < b"
  shows "(a + b - 1) div b = a div b + (if a mod b = 0 then 0 else 1)"
proof (cases "a mod b = 0")
  case True
  then have "a + b - 1 = (b - 1) + a div b * b" using assms div_mult_mod_eq [of a b] by linarith
  also have "\<dots> div b = a div b" using assms by (subst div_mult_self1) simp_all
  finally show ?thesis using True by simp
next
  case False
  then have "a + b - 1 = (a mod b - 1) + Suc (a div b) * b"
    using div_mult_mod_eq [of a b] by simp
  also have "\<dots> div b = Suc (a div b)"
    using assms by (subst div_mult_self1) (simp_all add: less_imp_diff_less)
  finally show ?thesis using False by simp
qed

section \<open>Interfaces shared by several components\<close>

text \<open>
  A fixed-size record codec: the on-disk arrays of bmbt records, free-space records,
  refcount records and directory hash entries are all runs of records of one size, read
  with \<^verbatim>\<open>dec(buf[off+i*size:])\<close> and written record by record. \<open>ok\<close> names the values
  the encoding can represent.
\<close>

locale record_codec =
  fixes enc :: "'a \<Rightarrow> bytes" and dec :: "bytes \<Rightarrow> 'a" and rsize :: nat and ok :: "'a \<Rightarrow> bool"
  assumes enc_length: "length (enc x) = rsize"
    and dec_enc: "ok x \<Longrightarrow> dec (enc x @ rest) = x"
    and rsize_pos: "0 < rsize"
begin

lemma length_concat_enc: "length (concat (map enc xs)) = length xs * rsize"
  by (induction xs) (simp_all add: enc_length)

lemma drop_concat_enc:
  "drop (i * rsize) (concat (map enc xs) @ rest) = concat (map enc (drop i xs)) @ drop (i * rsize - length xs * rsize) rest"
proof (induction xs arbitrary: i)
  case Nil
  then show ?case by simp
next
  case (Cons x xs)
  then show ?case by (cases i) (simp_all add: enc_length)
qed

text \<open>The i-th record of an encoded array is the i-th value.\<close>

lemma dec_nth_array:
  assumes "i < length xs" and "ok (xs ! i)"
  shows "dec (drop (i * rsize) (concat (map enc xs) @ rest)) = xs ! i"
proof -
  have "drop i xs = xs ! i # drop (Suc i) xs"
    using assms(1) by (simp add: Cons_nth_drop_Suc)
  then show ?thesis
    using assms(2) by (simp add: drop_concat_enc dec_enc del: drop_append)
qed

text \<open>Decoding the whole array, wherever it starts in a buffer, gives the values back.\<close>

lemma dec_array:
  assumes "\<forall>x\<in>set xs. ok x"
  shows "map (\<lambda>i. dec (drop (length pre + i * rsize) (pre @ concat (map enc xs) @ rest))) [0..<length xs] = xs"
proof (rule nth_equalityI)
  fix i assume "i < length (map (\<lambda>i. dec (drop (length pre + i * rsize) (pre @ concat (map enc xs) @ rest))) [0..<length xs])"
  then have "i < length xs" by simp
  moreover have "drop (length pre + i * rsize) (pre @ concat (map enc xs) @ rest) =
      drop (i * rsize) (concat (map enc xs) @ rest)"
    by (simp del: append_assoc add: drop_append)
  ultimately show "map (\<lambda>i. dec (drop (length pre + i * rsize) (pre @ concat (map enc xs) @ rest))) [0..<length xs] ! i = xs ! i"
    using assms by (simp add: dec_nth_array del: drop_append)
qed simp

end

text \<open>
  A strict total order on records, as the free-space trees use it for descent and for leaf
  insertion. \<open>insert_at\<close> is the position the insertion loops compute: the first record the
  new one sorts before, or the end.
\<close>

locale record_order =
  fixes less :: "'a \<Rightarrow> 'a \<Rightarrow> bool"
  assumes less_irrefl: "\<not> less x x"
    and less_trans: "less x y \<Longrightarrow> less y z \<Longrightarrow> less x z"
    and less_negtrans: "\<not> less x y \<Longrightarrow> \<not> less y z \<Longrightarrow> \<not> less x z"
begin

lemma less_asym: "less x y \<Longrightarrow> \<not> less y x"
  using less_irrefl less_trans by blast

text \<open>Sorted: no record is followed by one that sorts before it.\<close>

lemma sorted_insert:
  assumes "sorted_wrt (\<lambda>a b. \<not> less b a) xs"
  shows "sorted_wrt (\<lambda>a b. \<not> less b a) (takeWhile (\<lambda>y. \<not> less x y) xs @ x # dropWhile (\<lambda>y. \<not> less x y) xs)"
  using assms
proof (induction xs)
  case Nil
  then show ?case by simp
next
  case (Cons y ys)
  show ?case
  proof (cases "less x y")
    case True
    then have "\<forall>b\<in>set ys. \<not> less b x"
      using Cons.prems less_trans by fastforce
    with True Cons.prems show ?thesis by (auto dest: less_asym)
  next
    case False
    let ?zs = "takeWhile (\<lambda>y. \<not> less x y) ys @ x # dropWhile (\<lambda>y. \<not> less x y) ys"
    have "set ?zs = insert x (set ys)"
      by (metis Un_insert_right list.set(2) set_append takeWhile_dropWhile_id)
    with False Cons show ?thesis by simp
  qed
qed

lemma sorted_strict_insert:
  assumes "sorted_wrt less xs" and "\<forall>y\<in>set xs. less x y \<or> less y x"
  shows "sorted_wrt less (takeWhile (\<lambda>y. \<not> less x y) xs @ x # dropWhile (\<lambda>y. \<not> less x y) xs)"
  using assms
proof (induction xs)
  case Nil
  then show ?case by simp
next
  case (Cons y ys)
  show ?case
  proof (cases "less x y")
    case True
    with Cons.prems show ?thesis by (auto intro: less_trans)
  next
    case False
    with Cons.prems have "less y x" by auto
    let ?zs = "takeWhile (\<lambda>y. \<not> less x y) ys @ x # dropWhile (\<lambda>y. \<not> less x y) ys"
    have "set ?zs = insert x (set ys)"
      by (metis Un_insert_right list.set(2) set_append takeWhile_dropWhile_id)
    with False \<open>less y x\<close> Cons show ?thesis by simp
  qed
qed

end

end
