(* ===== verification/Device.thy ===== *)
theory Device
  imports Prelude
begin

text \<open>
  The backing device (fs.go, \<^verbatim>\<open>osFileBackend\<close>, and crc.go, \<^verbatim>\<open>readBytes\<close>): a sized array of
  bytes with the \<^verbatim>\<open>ReadAt\<close> and \<^verbatim>\<open>WriteAt\<close> behaviour of a regular file opened with
  \<^verbatim>\<open>os.OpenFile\<close>. A read at a negative offset, or one that does not find all the bytes it
  asks for, is an error; a write at a negative offset is an error; a write past the end
  extends the file and the gap reads as zeros. Hardware faults and full disks are not part of
  the model. Offsets are Go \<^verbatim>\<open>int64\<close> values: 64-bit words read as two's complement.

  A mutating operation is a function from the state to a result and the new state, the state
  being the device or a record that holds it: writes made before a failure stay made.
\<close>

record dev =
  dsize :: nat
  dbytes :: "nat \<Rightarrow> byte"

definition ReadAt :: "dev \<Rightarrow> int64 \<Rightarrow> nat \<Rightarrow> bytes res" where
  "ReadAt d off n =
     (if sint off < 0 then Inl ErrIO
      else if n = 0 then Inr []
      else if dsize d < nat (sint off) + n then Inl ErrIO
      else Inr (map (dbytes d) [nat (sint off)..<nat (sint off) + n]))"

definition WriteAt :: "dev \<Rightarrow> int64 \<Rightarrow> bytes \<Rightarrow> dev res" where
  "WriteAt d off bs =
     (if sint off < 0 then Inl ErrIO
      else if bs = [] then Inr d
      else let o' = nat (sint off) in
        Inr (d\<lparr>dsize := max (dsize d) (o' + length bs),
               dbytes := (\<lambda>i. if o' \<le> i \<and> i < o' + length bs then bs ! (i - o')
                              else if i < dsize d then dbytes d i else 0)\<rparr>))"

text \<open>\<^verbatim>\<open>Truncate\<close> of an \<^verbatim>\<open>os.File\<close>: cuts or extends with zeros.\<close>

definition Truncate :: "dev \<Rightarrow> int64 \<Rightarrow> dev res" where
  "Truncate d n =
     (if sint n < 0 then Inl ErrIO
      else Inr (d\<lparr>dsize := nat (sint n),
                  dbytes := (\<lambda>i. if i < dsize d \<and> i < nat (sint n) then dbytes d i else 0)\<rparr>))"

definition readBytes :: "dev \<Rightarrow> int64 \<Rightarrow> nat \<Rightarrow> bytes res" where
  "readBytes d off n = ReadAt d off n"

section \<open>Operations that change the device\<close>

type_synonym ('s, 'a) st = "'s \<Rightarrow> 'a res \<times> 's"
type_synonym 'a io = "(dev, 'a) st"

definition retIO :: "'a \<Rightarrow> ('s, 'a) st" where
  "retIO x = (\<lambda>d. (Inr x, d))"

definition failIO :: "error \<Rightarrow> ('s, 'a) st" where
  "failIO e = (\<lambda>d. (Inl e, d))"

definition bindIO :: "('s, 'a) st \<Rightarrow> ('a \<Rightarrow> ('s, 'b) st) \<Rightarrow> ('s, 'b) st" where
  "bindIO m f = (\<lambda>d. case m d of (Inl e, d') \<Rightarrow> (Inl e, d') | (Inr x, d') \<Rightarrow> f x d')"

text \<open>A read of the current device, and a write to it.\<close>

definition readIO :: "('s \<Rightarrow> 'a res) \<Rightarrow> ('s, 'a) st" where
  "readIO f = (\<lambda>d. (f d, d))"

definition writeIO :: "int64 \<Rightarrow> bytes \<Rightarrow> unit io" where
  "writeIO off bs = (\<lambda>d. case WriteAt d off bs of Inl e \<Rightarrow> (Inl e, d) | Inr d' \<Rightarrow> (Inr (), d'))"

text \<open>A Go \<^verbatim>\<open>for range\<close> loop whose body may fail.\<close>

fun forIO :: "'a list \<Rightarrow> ('a \<Rightarrow> ('s, unit) st) \<Rightarrow> ('s, unit) st" where
  "forIO [] f = retIO ()"
| "forIO (x # xs) f = bindIO (f x) (\<lambda>_. forIO xs f)"

text \<open>A computation that may fail and touches no state.\<close>

definition liftIO :: "'a res \<Rightarrow> ('s, 'a) st" where
  "liftIO r = (\<lambda>d. (r, d))"

lemma bindIO_cong [fundef_cong]:
  assumes "m = m'" and "\<And>d x d'. m' d = (Inr x, d') \<Longrightarrow> f x = g x"
  shows "bindIO m f = bindIO m' g"
proof
  fix d
  show "bindIO m f d = bindIO m' g d"
    using assms by (auto simp: bindIO_def split: prod.splits sum.splits)
qed

lemma io_simps [simp, go_simps]:
  "liftIO r d = (r, d)"
  "retIO x d = (Inr x, d)"
  "failIO e d = (Inl e, d)"
  "readIO f d = (f d, d)"
  by (simp_all add: liftIO_def retIO_def failIO_def readIO_def)

lemma bindIO_apply [go_simps]:
  "bindIO m f d = (case m d of (Inl e, d') \<Rightarrow> (Inl e, d') | (Inr x, d') \<Rightarrow> f x d')"
  by (simp add: bindIO_def)

lemma bindIO_Inr: "m d = (Inr x, d') \<Longrightarrow> bindIO m f d = f x d'"
  and bindIO_Inl: "m d = (Inl e, d') \<Longrightarrow> bindIO m f d = (Inl e, d')"
  by (simp_all add: bindIO_def)

lemma bindIO_eq_Inr:
  "bindIO m f d = (Inr y, d'') \<longleftrightarrow> (\<exists>x d'. m d = (Inr x, d') \<and> f x d' = (Inr y, d''))"
  by (auto simp: bindIO_def split: prod.splits sum.splits)

section \<open>The device interface and its laws\<close>

text \<open>A sequence of writes, stopping at the first failure, and adjacency of its pieces.\<close>

fun write_seq :: "('d \<Rightarrow> int64 \<Rightarrow> bytes \<Rightarrow> 'd res) \<Rightarrow> 'd \<Rightarrow> (int64 \<times> bytes) list \<Rightarrow> 'd res" where
  "write_seq wr d [] = Inr d"
| "write_seq wr d ((off, bs) # ws) = bindR (wr d off bs) (\<lambda>d'. write_seq wr d' ws)"

fun adjacent :: "int \<Rightarrow> (int64 \<times> bytes) list \<Rightarrow> bool" where
  "adjacent p [] = True"
| "adjacent p ((off, bs) # ws) = (sint off = p \<and> adjacent (p + int (length bs)) ws)"

text \<open>
  What the filesystem code relies on: a successful write is read back, leaves every disjoint
  range as it was, and never shrinks the device.
\<close>

locale byte_store =
  fixes rd :: "'d \<Rightarrow> int64 \<Rightarrow> nat \<Rightarrow> bytes res"
    and wr :: "'d \<Rightarrow> int64 \<Rightarrow> bytes \<Rightarrow> 'd res"
  assumes rd_length: "rd d off n = Inr xs \<Longrightarrow> length xs = n"
    and wr_ok: "0 \<le> sint off \<Longrightarrow> \<exists>d'. wr d off bs = Inr d'"
    and wr_neg: "sint off < 0 \<Longrightarrow> wr d off bs = Inl ErrIO"
    and rd_wr_same: "wr d off bs = Inr d' \<Longrightarrow> rd d' off (length bs) = Inr bs"
    and rd_wr_frame: "wr d off bs = Inr d' \<Longrightarrow> rd d off' n = Inr xs \<Longrightarrow>
      sint off' + int n \<le> sint off \<or> sint off + int (length bs) \<le> sint off' \<Longrightarrow>
      rd d' off' n = Inr xs"
    and rd_append: "rd d off n = Inr xs \<Longrightarrow> rd d off' m = Inr ys \<Longrightarrow>
      sint off' = sint off + int n \<Longrightarrow> rd d off (n + m) = Inr (xs @ ys)"
begin

text \<open>Two adjacent writes are one: the pieces read back as their concatenation.\<close>

lemma rd_two_writes:
  assumes w1: "wr d off bs = Inr d1" and w2: "wr d1 off' cs = Inr d2"
    and adj: "sint off' = sint off + int (length bs)"
  shows "rd d2 off (length bs + length cs) = Inr (bs @ cs)"
proof -
  have "rd d2 off (length bs) = Inr bs"
    using rd_wr_frame [OF w2 rd_wr_same [OF w1]] adj by simp
  then show ?thesis
    using rd_wr_same [OF w2] adj by (rule rd_append)
qed

text \<open>A run of adjacent writes leaves every range outside the run as it was.\<close>

lemma rd_writes_frame:
  assumes "write_seq wr d ws = Inr d'" and "rd d off' n = Inr xs" and "adjacent p ws"
    and "sint off' + int n \<le> p \<or> p + int (length (concat (map snd ws))) \<le> sint off'"
  shows "rd d' off' n = Inr xs"
  using assms
proof (induction ws arbitrary: d p)
  case Nil
  then show ?case by simp
next
  case (Cons w ws)
  obtain o' b where w: "w = (o', b)" by (cases w)
  from Cons.prems(1) w obtain d1 where d1: "wr d o' b = Inr d1" "write_seq wr d1 ws = Inr d'"
    by (auto simp: bindR_eq_Inr)
  have "rd d1 off' n = Inr xs"
    using d1(1) Cons.prems(2) by (rule rd_wr_frame) (use Cons.prems(3,4) w in auto)
  with d1(2) show ?case
    by (rule Cons.IH) (use Cons.prems(3,4) w in auto)
qed

text \<open>A run of adjacent writes reads back as the concatenation of its pieces.\<close>

lemma rd_writes_same:
  assumes "write_seq wr d ws = Inr d'" and "adjacent (sint off) ws" and "ws \<noteq> []"
  shows "rd d' off (length (concat (map snd ws))) = Inr (concat (map snd ws))"
  using assms
proof (induction ws arbitrary: d off)
  case Nil
  then show ?case by simp
next
  case (Cons w ws)
  obtain o' b where w: "w = (o', b)" by (cases w)
  from Cons.prems(1) w obtain d1 where d1: "wr d o' b = Inr d1" "write_seq wr d1 ws = Inr d'"
    by (auto simp: bindR_eq_Inr)
  from Cons.prems(2) w have o': "o' = off" and adj: "adjacent (sint off + int (length b)) ws"
    by (auto dest: signed_word_eqI)
  have b: "rd d' off (length b) = Inr b"
    using rd_writes_frame [OF d1(2) rd_wr_same [OF d1(1)] adj] o' by simp
  show ?case
  proof (cases ws)
    case Nil
    with b w show ?thesis by simp
  next
    case (Cons w' ws')
    then have first: "sint (fst w') = sint off + int (length b)"
      using adj by (cases w') simp
    have "rd d' (fst w') (length (concat (map snd ws))) = Inr (concat (map snd ws))"
      by (rule Cons.IH [OF d1(2)]) (use adj first Cons in simp_all)
    from rd_append [OF b this first] w show ?thesis by simp
  qed
qed

end

lemma sint_less_upper: "sint (off :: int64) < 2 ^ 63"
  using sint_lt [of off] by simp

interpretation file_store: byte_store ReadAt WriteAt
proof unfold_locales
  fix d off n xs assume "ReadAt d off n = Inr xs"
  then show "length xs = n" by (auto simp: ReadAt_def split: if_splits)
next
  fix d and off :: int64 and bs assume "0 \<le> sint off"
  then show "\<exists>d'. WriteAt d off bs = Inr d'" by (simp add: WriteAt_def Let_def)
next
  fix d and off :: int64 and bs assume "sint off < 0"
  then show "WriteAt d off bs = Inl ErrIO" by (simp add: WriteAt_def)
next
  fix d off bs d' assume "WriteAt d off bs = Inr d'"
  then show "ReadAt d' off (length bs) = Inr bs"
    by (auto simp: WriteAt_def ReadAt_def Let_def intro!: nth_equalityI split: if_splits)
next
  fix d off bs d' off' n xs
  assume w: "WriteAt d off bs = Inr d'" and r: "ReadAt d off' n = Inr xs"
    and dis: "sint off' + int n \<le> sint off \<or> sint off + int (length bs) \<le> sint off'"
  show "ReadAt d' off' n = Inr xs"
  proof (cases "bs = [] \<or> n = 0")
    case True
    with w r show ?thesis by (auto simp: WriteAt_def ReadAt_def Let_def split: if_splits)
  next
    case False
    with w r have "0 \<le> sint off" and "0 \<le> sint off'" and fit: "nat (sint off') + n \<le> dsize d"
      by (auto simp: WriteAt_def ReadAt_def split: if_splits)
    with dis have "nat (sint off') + n \<le> nat (sint off) \<or> nat (sint off) + length bs \<le> nat (sint off')"
      by linarith
    then have "map (dbytes d') [nat (sint off')..<nat (sint off') + n] =
        map (dbytes d) [nat (sint off')..<nat (sint off') + n]"
      using w False fit by (auto simp: WriteAt_def Let_def split: if_splits)
    moreover have "nat (sint off') + n \<le> dsize d'"
      using w False fit by (auto simp: WriteAt_def Let_def split: if_splits)
    ultimately show ?thesis
      using r False fit by (auto simp: ReadAt_def split: if_splits)
  qed
next
  fix d off n xs off' m ys
  assume "ReadAt d off n = Inr xs" and "ReadAt d off' m = Inr ys"
    and "sint off' = sint off + int n"
  moreover have "[a..<a + (n + m)] = [a..<a + n] @ [a + n..<a + (n + m)]" for a
    using upt_add_eq_append [of a "a + n" m] by (simp add: add.assoc)
  ultimately show "ReadAt d off (n + m) = Inr (xs @ ys)"
    by (auto simp: ReadAt_def nat_add_distrib add.assoc split: if_splits)
qed

end
