(* ===== verification/Crc.thy ===== *)
theory Crc
  imports Device
begin

text \<open>
  Metadata checksums (crc.go): CRC32c as \<^verbatim>\<open>hash/crc32\<close> computes it for the Castagnoli
  table (reflected polynomial 0x82F63B78, initial value and final inversion all ones), and the
  two functions that stamp and check the little-endian checksum field of a metadata buffer.
\<close>

definition castagnoli :: u32 where
  "castagnoli = 0x82F63B78"

definition crc_shift :: "u32 \<Rightarrow> u32" where
  "crc_shift c = (if bit c 0 then drop_bit 1 c XOR castagnoli else drop_bit 1 c)"

definition crc_byte :: "u32 \<Rightarrow> byte \<Rightarrow> u32" where
  "crc_byte c b = (crc_shift ^^ 8) (c XOR ucast b)"

definition crc32_checksum :: "bytes \<Rightarrow> u32" where
  "crc32_checksum bs = NOT (foldl crc_byte (NOT 0) bs)"

text \<open>
  \<^verbatim>\<open>updateCRC\<close> zeroes the field, hashes \<open>buf[:len]\<close> and stores the result; every caller
  passes a field that lies inside the buffer and a length of at most the buffer's.
\<close>

definition updateCRC :: "bytes \<Rightarrow> nat \<Rightarrow> nat \<Rightarrow> bytes" where
  "updateCRC buf crcOff len =
     (let buf0 = putle32 crcOff 0 buf;
          crc = crc32_checksum (take len buf0)
      in putle32 crcOff crc buf0)"

definition verifyCRC :: "bytes \<Rightarrow> nat \<Rightarrow> nat \<Rightarrow> bool" where
  "verifyCRC buf crcOff len =
     (let stored = le32 buf crcOff in
      if crcOff + 4 \<le> len then stored = crc32_checksum (putle32 crcOff 0 (take len buf))
      else stored = crc32_checksum (take len buf))"

section \<open>Stamping\<close>

lemma length_updateCRC [simp, buf_simps]:
  "length (updateCRC buf crcOff len) = length buf"
  by (simp add: updateCRC_def Let_def)

lemma patch_patch_same:
  "off + length bs \<le> length buf \<Longrightarrow> length cs = length bs \<Longrightarrow>
    patch off cs (patch off bs buf) = patch off cs buf"
  by (rule nth_equalityI) (auto simp: nth_patch)

lemma take_patch: "off + length bs \<le> n \<Longrightarrow> n \<le> length buf \<Longrightarrow>
    take n (patch off bs buf) = patch off bs (take n buf)"
  by (rule nth_equalityI) (auto simp: nth_patch)

lemma updateCRC_putle32:
  assumes "crcOff + 4 \<le> length buf"
  shows "updateCRC buf crcOff len =
    putle32 crcOff (crc32_checksum (take len (putle32 crcOff 0 buf))) buf"
  using assms by (simp add: updateCRC_def Let_def putle32_def patch_patch_same)

text \<open>The stamp touches the four bytes of the field and nothing else.\<close>

lemma window_updateCRC [buf_simps]:
  "off + n \<le> crcOff \<or> crcOff + 4 \<le> off \<Longrightarrow> window off n (updateCRC buf crcOff len) = window off n buf"
  by (simp add: updateCRC_def Let_def window_put_frame)

lemma updateCRC_stamped:
  assumes "crcOff + 4 \<le> len" and "len \<le> length buf"
  shows "verifyCRC (updateCRC buf crcOff len) crcOff len"
  using assms
  by (simp add: verifyCRC_def Let_def updateCRC_putle32 putle32_def take_patch patch_patch_same
      le32_def window_patch_same)

section \<open>Detection\<close>

lemma inj_crc_shift: "inj crc_shift"
proof (rule injI)
  fix a b assume eq: "crc_shift a = crc_shift b"
  have top: "bit (crc_shift c) 31 = bit c 0" for c
    by (simp add: crc_shift_def castagnoli_def bit_simps impossible_bit)
  have low: "bit a 0 = bit b 0" using top [of a] top [of b] eq by simp
  then have "drop_bit 1 a = drop_bit 1 b"
    using eq by (auto simp: crc_shift_def dest: arg_cong [where f = "\<lambda>x. x XOR castagnoli"]
        simp: xor.assoc split: if_splits)
  show "a = b"
  proof (rule bit_word_eqI)
    fix n assume "n < LENGTH(32)"
    show "bit a n = bit b n"
    proof (cases n)
      case 0
      with low show ?thesis by simp
    next
      case (Suc m)
      have "bit (drop_bit 1 a) m = bit (drop_bit 1 b) m"
        using \<open>drop_bit 1 a = drop_bit 1 b\<close> by simp
      with Suc show ?thesis by (simp add: bit_simps)
    qed
  qed
qed

lemma xor_cancel: "(c :: u32) XOR a = c XOR b \<longleftrightarrow> a = b"
  by (metis xor.assoc xor.left_neutral xor_self_eq)

lemma inj_ucast_byte: "(ucast (a :: byte) :: u32) = ucast b \<longleftrightarrow> a = b"
proof
  assume eq: "(ucast a :: u32) = ucast b"
  show "a = b"
  proof (rule bit_word_eqI)
    fix n assume "n < LENGTH(8)"
    then show "bit a n = bit b n"
      using arg_cong [OF eq, of "\<lambda>w. bit w n"] by (simp add: bit_simps)
  qed
qed simp

lemma crc_byte_eq_iff:
  "crc_byte c b = crc_byte c' b' \<longleftrightarrow> c XOR ucast b = c' XOR ucast b'"
  using inj_fn [OF inj_crc_shift, of 8] by (simp add: crc_byte_def inj_eq)

lemma foldl_crc_inj: "foldl crc_byte c bs = foldl crc_byte c' bs \<longleftrightarrow> c = c'"
proof (induction bs arbitrary: c c')
  case (Cons b bs)
  then show ?case
    using xor_cancel [of "ucast b" c c'] by (simp add: crc_byte_eq_iff xor.commute)
qed simp

text \<open>Two buffers that differ in one byte have different checksums.\<close>

lemma crc32_single_byte:
  assumes "i < length bs" and "b \<noteq> bs ! i"
  shows "crc32_checksum (bs[i := b]) \<noteq> crc32_checksum bs"
proof -
  let ?p = "take i bs" and ?s = "drop (Suc i) bs" and ?c = "foldl crc_byte (NOT 0) (take i bs)"
  have bs: "bs = ?p @ bs ! i # ?s" and bs': "bs[i := b] = ?p @ b # ?s"
    using assms(1) by (simp_all add: id_take_nth_drop upd_conv_take_nth_drop)
  have "foldl crc_byte (NOT 0) (bs[i := b]) = foldl crc_byte (crc_byte ?c b) ?s"
    by (subst bs') simp
  moreover have "foldl crc_byte (NOT 0) bs = foldl crc_byte (crc_byte ?c (bs ! i)) ?s"
    by (subst bs) simp
  ultimately show ?thesis
    using assms(2)
    by (simp add: crc32_checksum_def foldl_crc_inj crc_byte_eq_iff xor_cancel inj_ucast_byte
        bit.compl_eq_compl_iff)
qed

text \<open>
  C34. Stamping a metadata buffer with \<^verbatim>\<open>updateCRC\<close> makes \<^verbatim>\<open>verifyCRC\<close> accept it, and any
  later change of a single covered byte outside the checksum field makes it refuse the buffer.
\<close>

theorem updateCRC_verified_and_tamper_evident:
  assumes "crcOff + 4 \<le> len" and "len \<le> length buf"
    and "i < len" and "i < crcOff \<or> crcOff + 4 \<le> i"
    and "b \<noteq> updateCRC buf crcOff len ! i"
  shows "verifyCRC (updateCRC buf crcOff len) crcOff len \<and>
    \<not> verifyCRC ((updateCRC buf crcOff len)[i := b]) crcOff len"
proof -
  let ?u = "updateCRC buf crcOff len"
  have u: "length ?u = length buf" using assms by simp
  have ok: "verifyCRC ?u crcOff len" using assms by (simp add: updateCRC_stamped)
  let ?z = "putle32 crcOff 0 (take len ?u)"
  have upd: "putle32 crcOff 0 (take len (?u[i := b])) = ?z[i := b]"
    by (rule nth_equalityI)
      (use assms u in \<open>auto simp: putle32_def nth_patch take_update_swap nth_list_update\<close>)
  have zi: "?z ! i = ?u ! i" and zl: "i < length ?z"
    using assms u by (auto simp: putle32_def nth_patch)
  have "crc32_checksum (?z[i := b]) \<noteq> crc32_checksum ?z"
    by (rule crc32_single_byte) (use assms zi zl in auto)
  moreover have "le32 (?u[i := b]) crcOff = le32 ?u crcOff"
    unfolding le32_def
    by (rule arg_cong [where f = "\<lambda>x. be_word (rev x)"], rule nth_equalityI)
      (use assms u in \<open>auto simp: nth_window nth_list_update\<close>)
  ultimately show ?thesis
    using ok assms upd by (simp add: verifyCRC_def Let_def)
qed

theorem updateCRC_verified_and_tamper_evident_witness:
  "verifyCRC (updateCRC (replicate 8 7) 0 8) 0 8 \<and>
    \<not> verifyCRC ((updateCRC (replicate 8 7) 0 8)[5 := 9]) 0 8"
proof -
  have "updateCRC (replicate 8 7) 0 8 ! 5 = 7"
    by (simp add: updateCRC_putle32 putle32_def nth_patch)
  then show ?thesis
    using updateCRC_verified_and_tamper_evident [of 0 8 "replicate 8 7" 5 9] by simp
qed

end
