(* ===== verification/Superblock.thy ===== *)
theory Superblock
  imports Crc
begin

text \<open>
  The superblock (superblock.go and xfs.go): the in-memory record, its parser and geometry
  validation, and the block-number arithmetic every other component uses. A filesystem block
  number on disk (\<^verbatim>\<open>fsbno\<close>) is packed as \<open>(agno << agblklog) | agbno\<close>; it is a flat block
  index only when \<^verbatim>\<open>sb_agblocks\<close> is a power of two.
\<close>

section \<open>Constants and the record\<close>

definition magicSB :: u32 where "magicSB = 0x58465342"
definition magicAGF :: u32 where "magicAGF = 0x58414746"
definition magicAGI :: u32 where "magicAGI = 0x58414749"
definition magicAGFL :: u32 where "magicAGFL = 0x5841464C"
definition magicInode :: u16 where "magicInode = 0x494E"

text \<open>512-byte sectors per block, as the writers of v5 block headers assume it.\<close>

definition fmtDaddrPerBlock :: u64 where "fmtDaddrPerBlock = 8"

record superblock =
  blockSize :: u32
  sectorSize :: u32
  agBlocks :: u32
  agCount :: u32
  dBlocks :: u64
  rootIno :: u64
  inodeSize :: u16
  inopBlock :: u16
  inopBLog :: byte
  agBlkLog :: byte
  dirBlkLog :: byte
  hasCRC :: bool
  hasFType :: bool
  hasReflink :: bool
  features2 :: u32
  quotaFlags :: u16
  uQuotino :: u64
  gQuotino :: u64
  pQuotino :: u64
  sbUuid :: bytes
  sbLabel :: bytes
  maxRead :: int64

text \<open>
  \<^verbatim>\<open>bits.OnesCount\<close> and \<^verbatim>\<open>bits.Len\<close>: the number of set bits, and the number of bits
  needed to write the value (0 for 0).
\<close>

definition onesCount :: "'a::len word \<Rightarrow> nat" where
  "onesCount w = length (filter (bit w) [0..<LENGTH('a)])"

definition bitLen :: "'a::len word \<Rightarrow> nat" where
  "bitLen w = length (dropWhile (\<lambda>i. \<not> bit w i) (rev [0..<LENGTH('a)]))"

text \<open>\<^verbatim>\<open>strings.TrimRight\<close> with the cut set NUL, space, tab, newline, carriage return.\<close>

definition trimLabel :: "bytes \<Rightarrow> bytes" where
  "trimLabel bs = rev (dropWhile (\<lambda>b. b = 0 \<or> b = 32 \<or> b = 9 \<or> b = 10 \<or> b = 13) (rev bs))"

section \<open>Parsing and validation\<close>

definition validateGeometry :: "superblock \<Rightarrow> unit res" where
  "validateGeometry sb =
     (if agBlocks sb = 0 \<or> agCount sb = 0 then Inl ErrGeometry
      else if blockSize sb < 512 \<or> blockSize sb > 65536 \<or> onesCount (blockSize sb) \<noteq> 1
        then Inl ErrGeometry
      else if blockSize sb < sectorSize sb then Inl ErrGeometry
      else if inodeSize sb < 256 \<or> inodeSize sb > 2048 \<or> onesCount (inodeSize sb) \<noteq> 1
          \<or> unat (inodeSize sb) < 176 then Inl ErrGeometry
      else if inopBlock sb = 0 \<or> onesCount (inopBlock sb) \<noteq> 1 then Inl ErrGeometry
      else if unat (inopBLog sb) \<ge> 16 \<or> push_bit (unat (inopBLog sb)) 1 \<noteq> inopBlock sb
        then Inl ErrGeometry
      else if agBlkLog sb \<noteq> of_nat (bitLen (agBlocks sb - 1)) then Inl ErrGeometry
      else if unat (agBlkLog sb) + unat (inopBLog sb) \<ge> 64 then Inl ErrGeometry
      else if dirBlkLog sb \<ge> 32 then Inl ErrGeometry
      else Inr ())"

definition parseSuperblock :: "bytes \<Rightarrow> superblock" where
  "parseSuperblock buf =
     (let version = be16 buf 100 AND 0x000F;
          crc = (version = 5);
          sect = ucast (be16 buf 102) :: u32
      in \<lparr>blockSize = be32 buf 4,
          sectorSize = (if sect = 0 then 512 else sect),
          agBlocks = be32 buf 84,
          agCount = be32 buf 88,
          dBlocks = be64 buf 8,
          rootIno = be64 buf 56,
          inodeSize = be16 buf 104,
          inopBlock = be16 buf 106,
          inopBLog = byte_at buf 123,
          agBlkLog = byte_at buf 124,
          dirBlkLog = byte_at buf 192,
          hasCRC = crc,
          hasFType = (if crc then be32 buf 216 AND 1 \<noteq> 0 else be32 buf 200 AND 0x200 \<noteq> 0),
          hasReflink = (crc \<and> be32 buf 212 AND 4 \<noteq> 0),
          features2 = be32 buf 200,
          quotaFlags = (if crc then be16 buf 176 else 0),
          uQuotino = (if crc then be64 buf 160 else 0),
          gQuotino = (if crc then be64 buf 168 else 0),
          pQuotino = (if crc then be64 buf 232 else 0),
          sbUuid = window 32 16 buf,
          sbLabel = trimLabel (window 108 12 buf),
          maxRead = 0\<rparr>)"

definition readSuperblock :: "dev \<Rightarrow> int64 \<Rightarrow> superblock res" where
  "readSuperblock d partOff =
     bindR (readBytes d partOff 512) (\<lambda>buf.
     if be32 buf 0 \<noteq> magicSB then Inl ErrBadMagic
     else let sb = parseSuperblock buf in
       bindR (validateGeometry sb) (\<lambda>_. Inr sb))"

section \<open>Block arithmetic\<close>

definition agByteOffset :: "superblock \<Rightarrow> u32 \<Rightarrow> int64" where
  "agByteOffset sb ag = ucast ag * ucast (agBlocks sb) * ucast (blockSize sb)"

definition agLength :: "superblock \<Rightarrow> u32 \<Rightarrow> u32" where
  "agLength sb ag =
     (if dBlocks sb = 0 then agBlocks sb
      else let full = dBlocks sb div ucast (agBlocks sb) in
        if ucast ag < full then agBlocks sb
        else ucast (dBlocks sb - full * ucast (agBlocks sb)))"

definition fsbToPhysBlock :: "superblock \<Rightarrow> u64 \<Rightarrow> u64" where
  "fsbToPhysBlock sb fsbno =
     (let agno = drop_bit (unat (agBlkLog sb)) fsbno;
          agbno = fsbno AND (push_bit (unat (agBlkLog sb)) 1 - 1)
      in agno * ucast (agBlocks sb) + agbno)"

definition fsbToAgAgbno :: "superblock \<Rightarrow> u64 \<Rightarrow> u32 \<times> u32" where
  "fsbToAgAgbno sb fsbno =
     (ucast (drop_bit (unat (agBlkLog sb)) fsbno),
      ucast (fsbno AND (push_bit (unat (agBlkLog sb)) 1 - 1)))"

definition agAbsBlock :: "superblock \<Rightarrow> u32 \<Rightarrow> u32 \<Rightarrow> u64" where
  "agAbsBlock sb ag agRel = push_bit (unat (agBlkLog sb)) (ucast ag) OR ucast agRel"

definition sectSize :: "superblock \<Rightarrow> int64" where
  "sectSize sb = (if sectorSize sb = 0 then 512 else ucast (sectorSize sb))"

definition agFByteOffset :: "superblock \<Rightarrow> int64 \<Rightarrow> u32 \<Rightarrow> int64" where
  "agFByteOffset sb partOff ag = partOff + agByteOffset sb ag + sectSize sb"

definition agIByteOffset :: "superblock \<Rightarrow> int64 \<Rightarrow> u32 \<Rightarrow> int64" where
  "agIByteOffset sb partOff ag = partOff + agByteOffset sb ag + 2 * sectSize sb"

definition agFLByteOffset :: "superblock \<Rightarrow> int64 \<Rightarrow> u32 \<Rightarrow> int64" where
  "agFLByteOffset sb partOff ag = partOff + agByteOffset sb ag + 3 * sectSize sb"

definition dirFSBlocks :: "superblock \<Rightarrow> u32" where
  "dirFSBlocks sb = push_bit (unat (dirBlkLog sb)) 1"

section \<open>Bit counting\<close>

lemma bitLen_bound: "unat (w :: 'a::len word) < 2 ^ bitLen w"
proof -
  let ?n = "bitLen w"
  have n: "?n \<le> LENGTH('a)"
    unfolding bitLen_def using length_dropWhile_le [of _ "rev [0..<LENGTH('a)]"] by simp
  have high: "\<not> bit w k" if k: "?n \<le> k" for k
  proof (cases "k < LENGTH('a)")
    case False
    then show ?thesis by (simp add: impossible_bit)
  next
    case True
    let ?xs = "rev [0..<LENGTH('a)]"
    let ?i = "LENGTH('a) - 1 - k"
    have "length (takeWhile (\<lambda>i. \<not> bit w i) ?xs) + ?n = LENGTH('a)"
      unfolding bitLen_def by (metis length_append length_rev length_upt minus_nat.diff_0 takeWhile_dropWhile_id)
    with k True have i: "?i < length (takeWhile (\<lambda>i. \<not> bit w i) ?xs)" by linarith
    then have "takeWhile (\<lambda>i. \<not> bit w i) ?xs ! ?i = ?xs ! ?i" by (rule takeWhile_nth)
    moreover have "?xs ! ?i = k" using True by (simp add: rev_nth)
    ultimately show ?thesis
      using i nth_mem set_takeWhileD by metis
  qed
  have "take_bit ?n w = w"
    by (rule bit_word_eqI) (use high in \<open>auto simp: bit_simps not_le [symmetric]\<close>)
  then have "unat w = take_bit ?n (unat w)"
    by (metis unsigned_take_bit_eq)
  then show ?thesis by (metis take_bit_nat_less_exp)
qed

lemma bitLen_least:
  assumes "w \<noteq> (0 :: 'a::len word)"
  shows "2 ^ (bitLen w - 1) \<le> unat w"
proof -
  let ?xs = "rev [0..<LENGTH('a)]" and ?P = "\<lambda>i. \<not> bit w i"
  have "dropWhile ?P ?xs \<noteq> []"
  proof
    assume "dropWhile ?P ?xs = []"
    then have "\<forall>k<LENGTH('a). \<not> bit w k" by (simp add: dropWhile_eq_Nil_conv)
    then have "w = 0" by (intro bit_word_eqI) simp
    with assms show False by contradiction
  qed
  then have h: "bit w (hd (dropWhile ?P ?xs))" using hd_dropWhile [of ?P ?xs] by simp
  have len: "length (takeWhile ?P ?xs) + bitLen w = LENGTH('a)"
    unfolding bitLen_def by (metis length_append length_rev length_upt minus_nat.diff_0 takeWhile_dropWhile_id)
  have "bitLen w > 0" using \<open>dropWhile ?P ?xs \<noteq> []\<close> by (simp add: bitLen_def)
  have "hd (dropWhile ?P ?xs) = ?xs ! length (takeWhile ?P ?xs)"
    using \<open>dropWhile ?P ?xs \<noteq> []\<close> by (simp add: dropWhile_eq_drop hd_drop_conv_nth)
  also have "\<dots> = bitLen w - 1"
    using len \<open>bitLen w > 0\<close> by (simp add: rev_nth)
  finally have "bit w (bitLen w - 1)" using h by simp
  then have "bit (unat w) (bitLen w - 1)" by (simp add: bit_unsigned_iff)
  then have "unat w div 2 ^ (bitLen w - 1) \<noteq> 0"
    by (metis bit_iff_odd even_zero)
  then show ?thesis by (metis div_less not_le)
qed

lemma onesCount_one:
  assumes "onesCount (w :: 'a::len word) = 1"
  shows "\<exists>k<LENGTH('a). unat w = 2 ^ k"
proof -
  obtain k where k: "filter (bit w) [0..<LENGTH('a)] = [k]"
    using assms by (auto simp: onesCount_def length_Suc_conv)
  have "n \<in> set (filter (bit w) [0..<LENGTH('a)]) \<longleftrightarrow> n = k" for n
    by (simp only: k) simp
  then have bits: "n < LENGTH('a) \<and> bit w n \<longleftrightarrow> n = k" for n
    by auto
  then have "k < LENGTH('a)" by blast
  moreover have "w = 2 ^ k"
    by (rule bit_word_eqI) (use bits in \<open>auto simp: bit_exp_iff\<close>)
  ultimately show ?thesis by (auto simp: unat_exp)
qed

section \<open>Geometry that passed validation\<close>

lemma validated_geometry:
  assumes "validateGeometry sb = Inr ()"
  shows "(\<exists>k\<in>{9..16}. unat (blockSize sb) = 2 ^ k) \<and> (\<exists>k\<in>{8..11}. unat (inodeSize sb) = 2 ^ k) \<and>
    unat (inopBlock sb) = 2 ^ unat (inopBLog sb) \<and>
    sectorSize sb \<le> blockSize sb \<and> 0 < unat (agBlocks sb) \<and> 0 < unat (agCount sb) \<and>
    unat (agBlocks sb) \<le> 2 ^ unat (agBlkLog sb) \<and>
    (1 < unat (agBlocks sb) \<longrightarrow> 2 ^ unat (agBlkLog sb) < 2 * unat (agBlocks sb)) \<and>
    unat (agBlkLog sb) \<le> 32 \<and> unat (agBlkLog sb) + unat (inopBLog sb) < 64"
proof -
  have g: "agBlocks sb \<noteq> 0" "agCount sb \<noteq> 0" "512 \<le> blockSize sb" "blockSize sb \<le> 65536"
    "onesCount (blockSize sb) = 1" "sectorSize sb \<le> blockSize sb" "256 \<le> inodeSize sb"
    "inodeSize sb \<le> 2048" "onesCount (inodeSize sb) = 1" "unat (inopBLog sb) < 16"
    "push_bit (unat (inopBLog sb)) 1 = inopBlock sb"
    "agBlkLog sb = of_nat (bitLen (agBlocks sb - 1))"
    "unat (agBlkLog sb) + unat (inopBLog sb) < 64"
    using assms by (auto simp: validateGeometry_def not_less not_le split: if_splits)
  obtain k where k: "unat (blockSize sb) = 2 ^ k" using onesCount_one [OF g(5)] by blast
  have "2 ^ 9 \<le> (2 :: nat) ^ k" "(2 :: nat) ^ k \<le> 2 ^ 16"
    using g(3,4) k by (simp_all add: word_le_nat_alt)
  then have k': "k \<in> {9..16}" by (simp only: power_increasing_iff atLeastAtMost_iff rel_simps)
  obtain j where j: "unat (inodeSize sb) = 2 ^ j" using onesCount_one [OF g(9)] by blast
  have "2 ^ 8 \<le> (2 :: nat) ^ j" "(2 :: nat) ^ j \<le> 2 ^ 11"
    using g(7,8) j by (simp_all add: word_le_nat_alt)
  then have j': "j \<in> {8..11}" by (simp only: power_increasing_iff atLeastAtMost_iff rel_simps)
  have inop: "unat (inopBlock sb) = 2 ^ unat (inopBLog sb)"
    using g(10,11) by (simp add: push_bit_of_1 unat_exp flip: g(11))
  have len: "bitLen (agBlocks sb - 1) \<le> 32"
    unfolding bitLen_def using length_dropWhile_le [of _ "rev [0..<32]"] by simp
  then have log: "unat (agBlkLog sb) = bitLen (agBlocks sb - 1)"
    using g(12) by (simp add: unat_of_nat)
  have pred: "unat (agBlocks sb - 1) = unat (agBlocks sb) - 1"
    using g(1) by (simp add: unat_minus_one)
  have pos: "0 < unat (agBlocks sb)" using g(1) by (simp add: word_neq_0_conv word_less_nat_alt)
  have upper: "unat (agBlocks sb) \<le> 2 ^ unat (agBlkLog sb)"
    using bitLen_bound [of "agBlocks sb - 1"] pred pos log by simp
  have lower: "2 ^ unat (agBlkLog sb) < 2 * unat (agBlocks sb)" if "1 < unat (agBlocks sb)"
  proof -
    have ne: "agBlocks sb - 1 \<noteq> 0" using pred that by (metis unat_0 diff_is_0_eq not_le)
    then have "2 ^ (bitLen (agBlocks sb - 1) - 1) \<le> unat (agBlocks sb) - 1"
      using bitLen_least pred by metis
    moreover have "2 ^ bitLen (agBlocks sb - 1) \<le> 2 * (2 :: nat) ^ (bitLen (agBlocks sb - 1) - 1)"
      by (cases "bitLen (agBlocks sb - 1)") simp_all
    ultimately show ?thesis using that log by simp
  qed
  show ?thesis
    using k k' j j' inop g pos upper lower len log
    by (auto simp: word_neq_0_conv word_less_nat_alt)
qed

text \<open>
  C33. What \<^verbatim>\<open>validateGeometry\<close> guarantees to the rest of the program: block and inode sizes
  are powers of two in their ranges, the inode size covers the 176-byte core, the
  inodes-per-block logarithm is exact, \<^verbatim>\<open>agblklog\<close> is the least exponent whose power
  reaches \<^verbatim>\<open>sb_agblocks\<close>, and the inode-number shift stays below 64.
\<close>

theorem validateGeometry_sound:
  assumes "validateGeometry sb = Inr ()"
  shows "(\<exists>k\<in>{9..16}. unat (blockSize sb) = 2 ^ k) \<and> (\<exists>k\<in>{8..11}. unat (inodeSize sb) = 2 ^ k) \<and>
    unat (inopBlock sb) = 2 ^ unat (inopBLog sb) \<and>
    sectorSize sb \<le> blockSize sb \<and> 0 < unat (agBlocks sb) \<and> 0 < unat (agCount sb) \<and>
    unat (agBlocks sb) \<le> 2 ^ unat (agBlkLog sb) \<and>
    (1 < unat (agBlocks sb) \<longrightarrow> 2 ^ unat (agBlkLog sb) < 2 * unat (agBlocks sb)) \<and>
    unat (agBlkLog sb) \<le> 32 \<and> unat (agBlkLog sb) + unat (inopBLog sb) < 64"
  using assms by (rule validated_geometry)

text \<open>A geometry as mkfs.xfs chooses it: 4 KiB blocks and a group size that is no power of two.\<close>

definition sb_example :: superblock where
  "sb_example = \<lparr>blockSize = 4096, sectorSize = 512, agBlocks = 6400, agCount = 4,
     dBlocks = 25000, rootIno = 128, inodeSize = 512, inopBlock = 8, inopBLog = 3,
     agBlkLog = 13, dirBlkLog = 0, hasCRC = True, hasFType = True, hasReflink = True,
     features2 = 0, quotaFlags = 0, uQuotino = 0, gQuotino = 0, pQuotino = 0,
     sbUuid = replicate 16 0, sbLabel = [], maxRead = 0\<rparr>"

lemma sb_example_sel [simp]:
  "blockSize sb_example = 4096" "sectorSize sb_example = 512" "agBlocks sb_example = 6400"
  "agCount sb_example = 4" "dBlocks sb_example = 25000" "inodeSize sb_example = 512"
  "inopBlock sb_example = 8" "inopBLog sb_example = 3" "agBlkLog sb_example = 13"
  "dirBlkLog sb_example = 0" "hasCRC sb_example" "hasFType sb_example" "hasReflink sb_example"
  "maxRead sb_example = 0" "sbUuid sb_example = replicate 16 0" "rootIno sb_example = 128"
  by (simp_all add: sb_example_def)

lemma sb_example_valid [simp]: "validateGeometry sb_example = Inr ()"
  by code_simp

theorem validateGeometry_sound_witness:
  "validateGeometry sb_example = Inr () \<and> 6400 \<le> (2 :: nat) ^ 13 \<and> (2 :: nat) ^ 13 < 2 * 6400"
  using validateGeometry_sound [OF sb_example_valid] by simp

section \<open>Packing and unpacking block numbers\<close>

lemma geometry_log:
  assumes "validateGeometry sb = Inr ()" and "rel < agBlocks sb"
  shows "unat (agBlkLog sb) \<le> 32" and "unat rel < 2 ^ unat (agBlkLog sb)"
  using validated_geometry [OF assms(1)] assms(2) by (auto simp: word_less_nat_alt)

lemma unat_ag_rel:
  fixes a b c :: u32
  shows "unat (ucast a * ucast b + ucast c :: u64) = unat a * unat b + unat c"
proof -
  have a: "unat a \<le> 2 ^ 32 - 1" and b: "unat b \<le> 2 ^ 32 - 1" and c: "unat c \<le> 2 ^ 32 - 1"
    using unat_lt(3) [of a] unat_lt(3) [of b] unat_lt(3) [of c] by simp_all
  have "unat a * unat b \<le> (2 ^ 32 - 1) * (2 ^ 32 - 1)" using a b by (rule mult_le_mono)
  with c have "unat a * unat b + unat c < 2 ^ 64" by simp
  then show ?thesis by (simp add: unat_word_ariths)
qed

lemma agAbsBlock_split:
  assumes "validateGeometry sb = Inr ()" and "rel < agBlocks sb"
  shows "drop_bit (unat (agBlkLog sb)) (agAbsBlock sb ag rel) = ucast ag"
    and "take_bit (unat (agBlkLog sb)) (agAbsBlock sb ag rel) = ucast rel"
  unfolding agAbsBlock_def
  by (rule pack_high [OF geometry_log(2) [OF assms] disjI1 [OF geometry_log(1) [OF assms]]])
    (rule pack_low [OF geometry_log(2) [OF assms]])

lemma agAbsBlock_phys:
  assumes "validateGeometry sb = Inr ()" and "rel < agBlocks sb"
  shows "unat (fsbToPhysBlock sb (agAbsBlock sb ag rel)) = unat ag * unat (agBlocks sb) + unat rel"
proof -
  note split = agAbsBlock_split [OF assms]
  have "fsbToPhysBlock sb (agAbsBlock sb ag rel) = ucast ag * ucast (agBlocks sb) + ucast rel"
    unfolding fsbToPhysBlock_def Let_def low_mask split ..
  then show ?thesis by (simp add: unat_ag_rel)
qed

lemma fsbToAgAgbno_pack:
  assumes "validateGeometry sb = Inr ()" and "rel < agBlocks sb"
  shows "fsbToAgAgbno sb (agAbsBlock sb ag rel) = (ag, rel)"
  using agAbsBlock_split [OF assms] unfolding fsbToAgAgbno_def low_mask by simp

text \<open>
  Block numbers survive packing on every validated geometry, also when the group size is
  not a power of two: an AG-relative block packed by \<^verbatim>\<open>agAbsBlock\<close> is unpacked exactly by
  \<^verbatim>\<open>fsbToAgAgbno\<close>, and \<^verbatim>\<open>fsbToPhysBlock\<close> gives the flat index
  \<open>ag * agblocks + agbno\<close> without overflow.
\<close>

theorem fsb_pack_unpack:
  assumes "validateGeometry sb = Inr ()" and "rel < agBlocks sb"
  shows "fsbToAgAgbno sb (agAbsBlock sb ag rel) = (ag, rel) \<and>
    unat (fsbToPhysBlock sb (agAbsBlock sb ag rel)) = unat ag * unat (agBlocks sb) + unat rel"
  using agAbsBlock_phys [OF assms] fsbToAgAgbno_pack [OF assms] by simp

theorem fsb_pack_unpack_witness:
  "fsbToAgAgbno sb_example (agAbsBlock sb_example 3 6399) = (3, 6399) \<and>
    unat (fsbToPhysBlock sb_example (agAbsBlock sb_example 3 6399)) = 25599"
  using fsb_pack_unpack [OF sb_example_valid, of 6399 3] by simp

section \<open>Sizes of the allocation groups\<close>

lemma unat_agLength:
  assumes "agBlocks sb \<noteq> 0" and "dBlocks sb \<noteq> 0"
  shows "unat (agLength sb ag) =
    (if unat ag < unat (dBlocks sb) div unat (agBlocks sb) then unat (agBlocks sb)
     else unat (dBlocks sb) mod unat (agBlocks sb))"
proof -
  let ?D = "dBlocks sb" and ?A = "ucast (agBlocks sb) :: u64"
  have "?D - ?D div ?A * ?A = ?D mod ?A" by (simp add: minus_div_mult_eq_mod)
  moreover have "unat (?D mod ?A) = unat ?D mod unat (agBlocks sb)" by (simp add: unat_mod)
  moreover have "unat ?D mod unat (agBlocks sb) < 2 ^ 32"
  proof -
    have "0 < unat (agBlocks sb)" using assms(1) by (simp add: word_neq_0_conv word_less_nat_alt)
    then have "unat ?D mod unat (agBlocks sb) < unat (agBlocks sb)" by simp
    then show ?thesis using unat_lt(3) [of "agBlocks sb"] by simp
  qed
  ultimately have "unat (ucast (?D - ?D div ?A * ?A) :: u32) = unat ?D mod unat (agBlocks sb)"
    by (simp add: unsigned_ucast_eq take_bit_nat_eq_self)
  then show ?thesis
    using assms(2) by (simp add: agLength_def Let_def word_less_nat_alt unat_div)
qed

text \<open>
  The lengths \<^verbatim>\<open>agLength\<close> reports for the groups of a filesystem add up to
  \<^verbatim>\<open>sb_dblocks\<close>, also when the last group is partial.
\<close>

theorem agLength_tiles_dblocks:
  assumes "agBlocks sb \<noteq> 0" and "dBlocks sb \<noteq> 0"
    and "unat (agCount sb) = (unat (dBlocks sb) + unat (agBlocks sb) - 1) div unat (agBlocks sb)"
  shows "(\<Sum>ag<unat (agCount sb). unat (agLength sb (of_nat ag))) = unat (dBlocks sb)"
proof -
  let ?D = "unat (dBlocks sb)" and ?A = "unat (agBlocks sb)"
  let ?f = "\<lambda>ag. if ag < ?D div ?A then ?A else ?D mod ?A"
  have A: "0 < ?A" using assms(1) by (simp add: word_neq_0_conv word_less_nat_alt)
  have small: "ag < 2 ^ 32" if "ag < unat (agCount sb)" for ag
    using that unat_lt(3) [of "agCount sb"] by simp
  have "(\<Sum>ag<unat (agCount sb). unat (agLength sb (of_nat ag))) = (\<Sum>ag<unat (agCount sb). ?f ag)"
    by (rule sum.cong) (use small assms in \<open>auto simp: unat_agLength unat_of_nat\<close>)
  also have "\<dots> = ?D"
  proof (cases "?D mod ?A = 0")
    case True
    have "(?D + ?A - 1) div ?A = ?D div ?A"
      using ceil_div [OF A, of ?D] True by simp
    then have "(\<Sum>ag<unat (agCount sb). ?f ag) = ?D div ?A * ?A"
      using assms(3) by simp
    with True show ?thesis by (metis mod_0_imp_dvd dvd_div_mult_self)
  next
    case False
    have "(?D + ?A - 1) div ?A = Suc (?D div ?A)"
      using ceil_div [OF A, of ?D] False by simp
    then have "(\<Sum>ag<unat (agCount sb). ?f ag) = ?D div ?A * ?A + ?D mod ?A"
      using assms(3) by simp
    then show ?thesis by (simp add: div_mult_mod_eq)
  qed
  finally show ?thesis .
qed

theorem agLength_tiles_dblocks_witness:
  "(\<Sum>ag<4. unat (agLength sb_example (of_nat ag))) = 25000"
  using agLength_tiles_dblocks [of sb_example] by simp

end
