(* ===== verification/Extent.thy ===== *)
theory Extent
  imports Superblock
begin

text \<open>
  Extent records (extent.go) and the validation of extent lists read from an image
  (limits.go, \<^verbatim>\<open>validateExtents\<close>). A bmbt record packs a file offset of 54 bits, a packed
  filesystem block number of 52 bits, a length of 21 bits and the unwritten flag into
  16 bytes.
\<close>

record extent =
  eStartOff :: u64
  eStartBlock :: u64
  eCount :: u32
  eUnwritten :: bool

definition decodeExtent :: "bytes \<Rightarrow> extent" where
  "decodeExtent rec =
     (let r0 = be64 rec 0; r1 = be64 rec 8 in
      \<lparr>eStartOff = drop_bit 9 r0 AND (push_bit 54 1 - 1),
       eStartBlock = push_bit 43 (r0 AND 0x1FF) OR drop_bit 21 r1,
       eCount = ucast (r1 AND 0x1FFFFF),
       eUnwritten = (drop_bit 63 r0 \<noteq> 0)\<rparr>)"

definition encodeExtent :: "extent \<Rightarrow> bytes" where
  "encodeExtent e =
     (let flag = (if eUnwritten e then 1 else 0) :: u64;
          r0 = push_bit 63 flag OR push_bit 9 (eStartOff e AND (push_bit 54 1 - 1))
                 OR drop_bit 43 (eStartBlock e);
          r1 = push_bit 21 (eStartBlock e AND (push_bit 43 1 - 1)) OR ucast (eCount e) AND 0x1FFFFF
      in be_bytes 8 r0 @ be_bytes 8 r1)"

text \<open>The values a record can hold.\<close>

definition extent_ok :: "extent \<Rightarrow> bool" where
  "extent_ok e \<longleftrightarrow> unat (eStartOff e) < 2 ^ 54 \<and> unat (eStartBlock e) < 2 ^ 52 \<and> unat (eCount e) < 2 ^ 21"

section \<open>Validation of extent lists\<close>

text \<open>
  \<^verbatim>\<open>checkRuns\<close>: one pass decides whether the records are already in order (records of length
  zero are skipped); only then is a sorted copy checked for overlap. \<^verbatim>\<open>sort.Slice\<close> may order
  records with equal starts either way; two such records of positive length are refused in
  either order, so the stable sort used here gives the same answer.
\<close>

fun runsOrdered :: "(extent \<Rightarrow> u64) \<Rightarrow> u64 option \<Rightarrow> extent list \<Rightarrow> bool" where
  "runsOrdered start prevEnd [] = True"
| "runsOrdered start prevEnd (e # es) =
     (if eCount e = 0 then runsOrdered start prevEnd es
      else (case prevEnd of
              Some p \<Rightarrow> (if start e < p then False else runsOrdered start (Some (start e + ucast (eCount e))) es)
            | None \<Rightarrow> runsOrdered start (Some (start e + ucast (eCount e))) es))"

fun overlapsNext :: "(extent \<Rightarrow> u64) \<Rightarrow> extent list \<Rightarrow> bool" where
  "overlapsNext start (a # b # es) = (start b < start a + ucast (eCount a) \<or> overlapsNext start (b # es))"
| "overlapsNext start es = False"

definition checkRuns :: "extent list \<Rightarrow> (extent \<Rightarrow> u64) \<Rightarrow> unit res" where
  "checkRuns exts start =
     (if runsOrdered start None exts then Inr ()
      else if overlapsNext start (sort_key start (filter (\<lambda>e. eCount e \<noteq> 0) exts)) then Inl ErrOutOfBounds
      else Inr ())"

definition validateExtents :: "extent list \<Rightarrow> unit res" where
  "validateExtents exts =
     (if length exts < 2 then Inr ()
      else bindR (checkRuns exts eStartOff) (\<lambda>_. checkRuns exts eStartBlock))"

section \<open>Encoding round trips\<close>

lemma length_encodeExtent [simp]: "length (encodeExtent e) = 16"
  by (simp add: encodeExtent_def Let_def)

lemma mask_9: "(0x1FF :: u64) = mask 9" and mask_21: "(0x1FFFFF :: u64) = mask 21"
  by (simp_all add: mask_eq_exp_minus_1)

lemma be64_append:
  "length a = 8 \<Longrightarrow> be64 (a @ b) 0 = be_word a"
  "length a = 8 \<Longrightarrow> length b = 8 \<Longrightarrow> be64 ((a @ b) @ c) 8 = be_word b"
  by (simp_all add: be64_def window_def)

text \<open>The two words of a record, field by field.\<close>

lemma r0_bits:
  fixes f so sb :: u64
  assumes "\<And>k. bit f k \<longleftrightarrow> k = 0 \<and> u" and "\<And>k. 54 \<le> k \<Longrightarrow> \<not> bit so k"
    and "\<And>k. 52 \<le> k \<Longrightarrow> \<not> bit sb k" and "k < 64"
  shows "bit (push_bit 63 f OR push_bit 9 (take_bit 54 so) OR drop_bit 43 sb) k \<longleftrightarrow>
    (if k < 9 then bit sb (43 + k) else if k < 63 then bit so (k - 9) else u)"
proof -
  have "bit (push_bit 63 f) k \<longleftrightarrow> k = 63 \<and> u" 
    using assms(1) [of "k - 63"] assms(4) unfolding bit_push_bit_iff by auto
  moreover have "bit (push_bit 9 (take_bit 54 so)) k \<longleftrightarrow> 9 \<le> k \<and> k < 63 \<and> bit so (k - 9)"
    using assms(4) by (auto simp: bit_push_bit_iff bit_take_bit_iff)
  moreover have "bit (drop_bit 43 sb) k \<longleftrightarrow> k < 9 \<and> bit sb (43 + k)"
    using assms(3) [of "43 + k"] by (cases "k < 9") (simp_all add: bit_drop_bit_eq)
  ultimately show ?thesis using assms(4) by (auto simp: bit_or_iff)
qed

lemma r1_bits:
  fixes sb :: u64 and ct :: u32
  assumes "\<And>k. 21 \<le> k \<Longrightarrow> \<not> bit ct k" and "k < 64"
  shows "bit (push_bit 21 (take_bit 43 sb) OR ucast ct AND mask 21) k \<longleftrightarrow>
    (if k < 21 then bit ct k else bit sb (k - 21))"
proof -
  have "bit (push_bit 21 (take_bit 43 sb)) k \<longleftrightarrow> 21 \<le> k \<and> bit sb (k - 21)"
    using assms(2) by (auto simp: bit_push_bit_iff bit_take_bit_iff)
  moreover have "bit (ucast ct AND mask 21 :: u64) k \<longleftrightarrow> k < 21 \<and> bit ct k"
    using assms(2) by (auto simp: bit_and_iff bit_mask_iff bit_unsigned_iff)
  ultimately show ?thesis by (auto simp: bit_or_iff)
qed

lemma drop_63_eq_0: "drop_bit 63 (w :: u64) = 0 \<longleftrightarrow> \<not> bit w 63"
proof
  assume "drop_bit 63 w = 0"
  then have "\<not> bit (drop_bit 63 w) 0" by simp
  then show "\<not> bit w 63" unfolding bit_drop_bit_eq by simp
next
  assume top: "\<not> bit w 63"
  show "drop_bit 63 w = 0"
  proof (rule bit_word_eqI)
    fix k :: nat
    show "bit (drop_bit 63 w) k = bit 0 k"
      using top impossible_bit [of "63 + k" w] by (cases k) (auto simp: bit_drop_bit_eq)
  qed
qed

lemma decode_words:
  fixes r0 r1 so sb :: u64 and ct :: u32
  assumes r0: "\<And>k. k < 64 \<Longrightarrow> bit r0 k \<longleftrightarrow> (if k < 9 then bit sb (43 + k) else if k < 63 then bit so (k - 9) else u)"
    and r1: "\<And>k. k < 64 \<Longrightarrow> bit r1 k \<longleftrightarrow> (if k < 21 then bit ct k else bit sb (k - 21))"
    and so: "\<And>k. 54 \<le> k \<Longrightarrow> \<not> bit so k" and sb: "\<And>k. 52 \<le> k \<Longrightarrow> \<not> bit sb k"
    and ct: "\<And>k. 21 \<le> k \<Longrightarrow> \<not> bit ct k"
  shows "take_bit 54 (drop_bit 9 r0) = so" (is ?A)
    and "push_bit 43 (r0 AND mask 9) OR drop_bit 21 r1 = sb" (is ?B)
    and "(ucast (r1 AND mask 21) :: u32) = ct" (is ?C)
    and "drop_bit 63 r0 \<noteq> 0 \<longleftrightarrow> u" (is ?D)
proof -
  show ?A
  proof (rule bit_word_eqI)
    fix k assume "k < LENGTH(64)"
    show "bit (take_bit 54 (drop_bit 9 r0)) k = bit so k"
      using so [of k] r0 [of "9 + k"] by (cases "k < 54") (simp_all add: bit_take_bit_iff bit_drop_bit_eq)
  qed
  show ?B
  proof (rule bit_word_eqI)
    fix k assume k: "k < LENGTH(64)"
    have "bit (push_bit 43 (r0 AND mask 9)) k \<longleftrightarrow> 43 \<le> k \<and> k < 52 \<and> bit r0 (k - 43)"
      using k by (auto simp: bit_push_bit_iff bit_and_iff bit_mask_iff)
    also have "\<dots> \<longleftrightarrow> 43 \<le> k \<and> k < 52 \<and> bit sb k"
      using r0 [of "k - 43"] k by auto
    finally have hi: "bit (push_bit 43 (r0 AND mask 9)) k \<longleftrightarrow> 43 \<le> k \<and> k < 52 \<and> bit sb k" .
    have lo: "bit (drop_bit 21 r1) k \<longleftrightarrow> k < 43 \<and> bit sb k"
      using r1 [of "21 + k"] by (cases "k < 43") (simp_all add: bit_drop_bit_eq impossible_bit)
    show "bit (push_bit 43 (r0 AND mask 9) OR drop_bit 21 r1) k = bit sb k"
      unfolding bit_or_iff hi lo using sb [of k] by (cases "k < 43"; cases "k < 52") auto
  qed
  show ?C
  proof (rule bit_word_eqI)
    fix k assume k: "k < LENGTH(32)"
    then show "bit (ucast (r1 AND mask 21) :: u32) k = bit ct k"
      using r1 [of k] ct [of k]
      by (cases "k < 21") (simp_all add: bit_unsigned_iff bit_and_iff bit_mask_iff)
  qed
  show ?D using r0 [of 63] by (simp add: drop_63_eq_0)
qed

lemma decode_encode:
  assumes "extent_ok e"
  shows "decodeExtent (encodeExtent e @ rest) = e"
proof -
  define f :: u64 where "f = (if eUnwritten e then 1 else 0)"
  define r0 where "r0 = push_bit 63 f OR push_bit 9 (take_bit 54 (eStartOff e)) OR drop_bit 43 (eStartBlock e)"
  define r1 :: u64 where "r1 = push_bit 21 (take_bit 43 (eStartBlock e)) OR ucast (eCount e) AND mask 21"
  have e: "encodeExtent e = be_bytes 8 r0 @ be_bytes 8 r1"
    unfolding encodeExtent_def Let_def low_mask mask_21 f_def r0_def r1_def ..
  have enc: "be64 (encodeExtent e @ rest) 0 = r0" "be64 (encodeExtent e @ rest) 8 = r1"
    unfolding e by (simp_all add: be64_append(1)) (metis append_assoc be64_append(2) length_be_bytes be_roundtrips(3))
  have above: "\<And>k. 54 \<le> k \<Longrightarrow> \<not> bit (eStartOff e) k" "\<And>k. 52 \<le> k \<Longrightarrow> \<not> bit (eStartBlock e) k"
    "\<And>k. 21 \<le> k \<Longrightarrow> \<not> bit (eCount e) k"
    using assms not_bit_above unfolding extent_ok_def by blast+
  have f: "\<And>k. bit f k \<longleftrightarrow> k = 0 \<and> eUnwritten e" by (simp add: f_def bit_1_iff)
  have b0: "bit r0 k \<longleftrightarrow> (if k < 9 then bit (eStartBlock e) (43 + k)
      else if k < 63 then bit (eStartOff e) (k - 9) else eUnwritten e)" if "k < 64" for k
    unfolding r0_def using f above(1,2) that by (rule r0_bits)
  have b1: "bit r1 k \<longleftrightarrow> (if k < 21 then bit (eCount e) k else bit (eStartBlock e) (k - 21))" if "k < 64" for k
    unfolding r1_def using above(3) that by (rule r1_bits)
  have dec: "take_bit 54 (drop_bit 9 r0) = eStartOff e"
    "push_bit 43 (r0 AND mask 9) OR drop_bit 21 r1 = eStartBlock e"
    "(ucast (r1 AND mask 21) :: u32) = eCount e" "drop_bit 63 r0 \<noteq> 0 \<longleftrightarrow> eUnwritten e"
    using decode_words [of r0 "eStartBlock e" "eStartOff e" "eUnwritten e" r1 "eCount e", OF b0 b1 above]
    by blast+
  show ?thesis
    unfolding decodeExtent_def Let_def low_mask mask_9 mask_21 enc dec by simp
qed

lemma encode_decode:
  assumes "length rec = 16"
  shows "encodeExtent (decodeExtent rec) = rec"
proof -
  define r0 r1 where "r0 = be64 rec 0" and "r1 = be64 rec 8"
  define f :: u64 where "f = (if drop_bit 63 r0 \<noteq> 0 then 1 else 0)"
  define so sb where "so = take_bit 54 (drop_bit 9 r0)" and "sb = push_bit 43 (r0 AND mask 9) OR drop_bit 21 r1"
  define ct :: u32 where "ct = ucast (r1 AND mask 21)"
  have f: "\<And>k. bit f k \<longleftrightarrow> k = 0 \<and> bit r0 63" by (simp add: f_def bit_1_iff drop_63_eq_0)
  have so: "bit so k \<longleftrightarrow> k < 54 \<and> bit r0 (9 + k)" for k
    by (simp add: so_def bit_take_bit_iff bit_drop_bit_eq)
  have sb: "bit sb k \<longleftrightarrow> (if k < 43 then bit r1 (21 + k) else k < 52 \<and> bit r0 (k - 43))" for k
  proof -
    have "bit (push_bit 43 (r0 AND mask 9)) k \<longleftrightarrow> 43 \<le> k \<and> k < 52 \<and> bit r0 (k - 43)"
      by (auto simp: bit_push_bit_iff bit_and_iff bit_mask_iff)
    moreover have "bit (drop_bit 21 r1) k \<longleftrightarrow> k < 43 \<and> bit r1 (21 + k)"
      by (cases "k < 43") (simp_all add: bit_drop_bit_eq impossible_bit)
    ultimately show ?thesis unfolding sb_def bit_or_iff by auto
  qed
  have ct: "bit ct k \<longleftrightarrow> k < 21 \<and> bit r1 k" for k
    unfolding ct_def bit_unsigned_iff bit_and_iff bit_mask_iff by auto
  have "push_bit 63 f OR push_bit 9 (take_bit 54 so) OR drop_bit 43 sb = r0"
  proof (rule bit_word_eqI)
    fix k assume "k < LENGTH(64)"
    then have k: "k < 64" by simp
    have "bit (push_bit 63 f OR push_bit 9 (take_bit 54 so) OR drop_bit 43 sb) k \<longleftrightarrow>
        (if k < 9 then bit sb (43 + k) else if k < 63 then bit so (k - 9) else bit r0 63)"
      by (rule r0_bits [OF f]) (use so sb k in auto)
    also have "\<dots> \<longleftrightarrow> bit r0 k"
      using k by (cases "k = 63") (auto simp: so sb)
    finally show "bit (push_bit 63 f OR push_bit 9 (take_bit 54 so) OR drop_bit 43 sb) k = bit r0 k" .
  qed
  moreover have "push_bit 21 (take_bit 43 sb) OR ucast ct AND mask 21 = r1"
  proof (rule bit_word_eqI)
    fix k assume "k < LENGTH(64)"
    then have k: "k < 64" by simp
    have "bit (push_bit 21 (take_bit 43 sb) OR ucast ct AND mask 21) k \<longleftrightarrow>
        (if k < 21 then bit ct k else bit sb (k - 21))"
      by (rule r1_bits) (use ct k in auto)
    also have "\<dots> \<longleftrightarrow> bit r1 k" using k by (auto simp: ct sb)
    finally show "bit (push_bit 21 (take_bit 43 sb) OR ucast ct AND mask 21) k = bit r1 k" .
  qed
  moreover have "decodeExtent rec = \<lparr>eStartOff = so, eStartBlock = sb, eCount = ct, eUnwritten = (drop_bit 63 r0 \<noteq> 0)\<rparr>"
    unfolding decodeExtent_def Let_def low_mask mask_9 mask_21 so_def sb_def ct_def r0_def r1_def ..
  ultimately have "encodeExtent (decodeExtent rec) = be_bytes 8 r0 @ be_bytes 8 r1"
    unfolding encodeExtent_def Let_def low_mask mask_21 f_def by simp
  also have "\<dots> = window 0 8 rec @ window 8 8 rec"
    using assms unfolding r0_def r1_def be64_def by (simp add: be_bytes_be_word)
  also have "\<dots> = rec" using assms append_take_drop_id [of 8 rec] by (simp add: window_def)
  finally show ?thesis .
qed

interpretation bmbt_rec: record_codec encodeExtent decodeExtent 16 extent_ok
  by unfold_locales (simp_all add: decode_encode)

text \<open>
  C31. A bmbt record survives both directions: every extent whose fields fit the record is
  decoded as it was encoded, also in front of further bytes, and encoding a decoded record
  gives the same 16 bytes.
\<close>

theorem extent_roundtrip:
  "(extent_ok e \<longrightarrow> decodeExtent (encodeExtent e @ rest) = e) \<and>
   (length rec = 16 \<longrightarrow> encodeExtent (decodeExtent rec) = rec)"
  using decode_encode encode_decode by blast

theorem extent_roundtrip_witness:
  "decodeExtent (encodeExtent \<lparr>eStartOff = 5, eStartBlock = 0xFFFFFFFFFFFFF, eCount = 0x1FFFFF, eUnwritten = True\<rparr> @ [7])
     = \<lparr>eStartOff = 5, eStartBlock = 0xFFFFFFFFFFFFF, eCount = 0x1FFFFF, eUnwritten = True\<rparr> \<and>
   encodeExtent (decodeExtent (replicate 16 0xA5)) = replicate 16 0xA5"
  using extent_roundtrip [of "\<lparr>eStartOff = 5, eStartBlock = 0xFFFFFFFFFFFFF, eCount = 0x1FFFFF, eUnwritten = True\<rparr>" "[7]" "replicate 16 0xA5"]
  by (simp add: extent_ok_def)

section \<open>What validation of an extent list establishes\<close>

text \<open>Two runs are apart when one ends at or before the start of the other.\<close>

definition before :: "(extent \<Rightarrow> u64) \<Rightarrow> extent \<Rightarrow> extent \<Rightarrow> bool" where
  "before start a b \<longleftrightarrow> unat (start a) + unat (eCount a) \<le> unat (start b)"

definition apart :: "(extent \<Rightarrow> u64) \<Rightarrow> extent \<Rightarrow> extent \<Rightarrow> bool" where
  "apart start a b \<longleftrightarrow> before start a b \<or> before start b a"

definition run_fits :: "(extent \<Rightarrow> u64) \<Rightarrow> extent \<Rightarrow> bool" where
  "run_fits start e \<longleftrightarrow> unat (start e) + unat (eCount e) < 2 ^ 64"

lemma before_trans: "before start a b \<Longrightarrow> before start b c \<Longrightarrow> before start a c"
  by (simp add: before_def)

lemma less_run_end:
  "run_fits start a \<Longrightarrow> x < start a + ucast (eCount a) \<longleftrightarrow> unat x < unat (start a) + unat (eCount a)"
  by (simp add: run_fits_def word_less_nat_alt unat_word_ariths)

lemma runsOrdered_filter:
  "runsOrdered start p es = runsOrdered start p (filter (\<lambda>e. eCount e \<noteq> 0) es)"
  by (induction es arbitrary: p) (auto split: option.splits)

lemma runsOrdered_before:
  assumes "\<forall>e\<in>set (a # es). run_fits start e \<and> eCount e \<noteq> 0"
    and "runsOrdered start (Some (start a + ucast (eCount a))) es"
  shows "sorted_wrt (before start) (a # es)"
  using assms
proof (induction es arbitrary: a)
  case Nil
  then show ?case by simp
next
  case (Cons b es)
  then have "before start a b"
    by (auto simp: before_def less_run_end not_less split: if_splits)
  moreover from Cons have "sorted_wrt (before start) (b # es)" by (auto split: if_splits)
  ultimately show ?case using before_trans by auto
qed

lemma overlapsNext_before:
  "\<forall>e\<in>set es. run_fits start e \<Longrightarrow> \<not> overlapsNext start es \<longleftrightarrow> sorted_wrt (before start) es"
proof (induction start es rule: overlapsNext.induct)
  case (1 start a b es)
  then have "\<not> start b < start a + ucast (eCount a) \<longleftrightarrow> before start a b"
    by (simp add: less_run_end before_def not_less)
  moreover have "transp (before start)" by (rule transpI) (rule before_trans)
  ultimately show ?case using 1 by (auto simp del: sorted_wrt.simps(2) simp: sorted_wrt2)
qed simp_all

lemma sorted_wrt_sym_perm:
  assumes "mset xs = mset ys" and "sorted_wrt R xs" and "\<And>a b. R a b \<Longrightarrow> R b a"
  shows "sorted_wrt R ys"
  using assms
proof (induction xs arbitrary: ys)
  case Nil
  then show ?case by simp
next
  case (Cons x xs)
  then obtain l r where ys: "ys = l @ x # r"
    by (metis in_set_conv_decomp list.set_intros(1) set_mset_mset)
  with Cons.prems have m: "mset xs = mset (l @ r)" by simp
  then have "set xs = set l \<union> set r" by (metis set_append set_mset_mset)
  moreover have "sorted_wrt R (l @ r)" using Cons.IH [OF m] Cons.prems by simp
  ultimately show ?case
    using Cons.prems unfolding ys by (auto simp: sorted_wrt_append)
qed

lemma sort_apart_before:
  assumes "\<forall>e\<in>set es. eCount e \<noteq> 0" and "sorted_wrt (apart start) es" and "sorted (map start es)"
  shows "sorted_wrt (before start) es"
  using assms
proof (induction es)
  case Nil
  then show ?case by simp
next
  case (Cons a es)
  have "before start a b" if "b \<in> set es" for b
  proof -
    from Cons.prems that have "apart start a b" "start a \<le> start b" "0 < unat (eCount b)"
      by (auto simp: word_neq_0_conv word_less_nat_alt)
    then show ?thesis by (auto simp: apart_def before_def word_le_nat_alt)
  qed
  with Cons show ?case by simp
qed

lemma checkRuns_iff:
  assumes "\<forall>e\<in>set es. run_fits start e"
  shows "checkRuns es start = Inr () \<longleftrightarrow> sorted_wrt (apart start) (filter (\<lambda>e. eCount e \<noteq> 0) es)"
proof -
  let ?ys = "filter (\<lambda>e. eCount e \<noteq> 0) es" and ?zs = "sort_key start (filter (\<lambda>e. eCount e \<noteq> 0) es)"
  have mono: "sorted_wrt (apart start) xs" if "sorted_wrt (before start) xs" for xs
    using that by (rule sorted_wrt_mono_rel [rotated]) (simp add: apart_def)
  have sym: "apart start b a" if "apart start a b" for a b using that by (auto simp: apart_def)
  have ordered: "sorted_wrt (apart start) ?ys" if "runsOrdered start None es"
  proof (cases ?ys)
    case (Cons a as)
    from that have "runsOrdered start None ?ys" by (simp flip: runsOrdered_filter)
    moreover have "eCount a \<noteq> 0" using Cons by (auto simp: filter_eq_Cons_iff)
    ultimately have "runsOrdered start (Some (start a + ucast (eCount a))) as" unfolding Cons by simp
    moreover have "\<forall>e\<in>set (a # as). run_fits start e \<and> eCount e \<noteq> 0"
      unfolding Cons [symmetric] using assms by simp
    ultimately show ?thesis unfolding Cons by (intro mono runsOrdered_before)
  qed simp
  have "\<not> overlapsNext start ?zs \<longleftrightarrow> sorted_wrt (before start) ?zs"
    using assms by (intro overlapsNext_before) auto
  also have "\<dots> \<longleftrightarrow> sorted_wrt (apart start) ?zs"
    using mono sort_apart_before [of ?zs start] by auto
  also have "\<dots> \<longleftrightarrow> sorted_wrt (apart start) ?ys"
    using sorted_wrt_sym_perm [of ?zs ?ys, OF _ _ sym] sorted_wrt_sym_perm [of ?ys ?zs, OF _ _ sym] by auto
  finally show ?thesis using ordered by (auto simp: checkRuns_def)
qed

lemma validateExtents_apart:
  assumes "\<forall>e\<in>set exts. run_fits eStartOff e \<and> run_fits eStartBlock e"
  shows "validateExtents exts = Inr () \<longleftrightarrow>
    sorted_wrt (\<lambda>a b. apart eStartOff a b \<and> apart eStartBlock a b) (filter (\<lambda>e. eCount e \<noteq> 0) exts)"
proof (cases "length exts < 2")
  case True
  then have "length (filter (\<lambda>e. eCount e \<noteq> 0) exts) < 2"
    using length_filter_le [of "\<lambda>e. eCount e \<noteq> 0" exts] by linarith
  then have "sorted_wrt (\<lambda>a b. apart eStartOff a b \<and> apart eStartBlock a b) (filter (\<lambda>e. eCount e \<noteq> 0) exts)"
    by (simp add: sorted_wrt_iff_nth_less)
  with True show ?thesis by (simp add: validateExtents_def)
next
  case False
  have "validateExtents exts = Inr () \<longleftrightarrow> checkRuns exts eStartOff = Inr () \<and> checkRuns exts eStartBlock = Inr ()"
    using False by (simp add: validateExtents_def bindR_eq_Inr)
  then show ?thesis
    using assms by (auto simp: checkRuns_iff sorted_wrt_iff_nth_less)
qed

text \<open>
  C32. \<^verbatim>\<open>validateExtents\<close> accepts an extent list exactly when no two of its non-empty
  records claim the same file offset and no two claim the same disk block: the fast path
  for ordered lists and the sorting path decide the same thing.
\<close>

theorem validateExtents_iff_disjoint:
  assumes "\<forall>e\<in>set exts. run_fits eStartOff e \<and> run_fits eStartBlock e"
  shows "validateExtents exts = Inr () \<longleftrightarrow>
    sorted_wrt (\<lambda>a b. apart eStartOff a b \<and> apart eStartBlock a b) (filter (\<lambda>e. eCount e \<noteq> 0) exts)"
  using assms by (rule validateExtents_apart)

text \<open>Two runs of a file, out of order on disk and in the list.\<close>

definition exts_example :: "extent list" where
  "exts_example = [\<lparr>eStartOff = 8, eStartBlock = 100, eCount = 8, eUnwritten = False\<rparr>,
                   \<lparr>eStartOff = 0, eStartBlock = 200, eCount = 8, eUnwritten = False\<rparr>]"

theorem validateExtents_iff_disjoint_witness:
  "validateExtents exts_example = Inr () \<and>
   validateExtents (exts_example @ [\<lparr>eStartOff = 20, eStartBlock = 107, eCount = 1, eUnwritten = False\<rparr>]) \<noteq> Inr ()"
  using validateExtents_iff_disjoint [of exts_example]
    validateExtents_iff_disjoint [of "exts_example @ [\<lparr>eStartOff = 20, eStartBlock = 107, eCount = 1, eUnwritten = False\<rparr>]"]
  by (simp add: exts_example_def run_fits_def apart_def before_def)

end
