(* ===== verification/Blocks.thy ===== *)
theory Blocks
  imports Extent
begin

text \<open>
  Block-level access (fs.go: \<^verbatim>\<open>blockByteOffset\<close>, \<^verbatim>\<open>readRawBlock\<close>, \<^verbatim>\<open>writeRawBlock\<close>).
  Block numbers come from the image; the read side refuses a number whose byte offset leaves
  \<^verbatim>\<open>int64\<close>, the write side computes the same offset without the check.
\<close>

text \<open>Go's division of \<^verbatim>\<open>int64\<close> values truncates toward zero.\<close>

definition quo64 :: "int64 \<Rightarrow> int64 \<Rightarrow> int64" where
  "quo64 a b = word_of_int (sgn (sint a) * sgn (sint b) * (\<bar>sint a\<bar> div \<bar>sint b\<bar>))"

definition blockByteOffset :: "int64 \<Rightarrow> superblock \<Rightarrow> u64 \<Rightarrow> int64 res" where
  "blockByteOffset partOff sb fsbno =
     (let bs = ucast (blockSize sb) :: int64;
          phys = fsbToPhysBlock sb fsbno
      in if sint bs \<le> 0 \<or> phys > quo64 (0x7FFFFFFFFFFFFFFF - partOff) bs then Inl ErrBlockOutOfRange
         else Inr (partOff + phys * bs))"

definition readRawBlock :: "dev \<Rightarrow> int64 \<Rightarrow> superblock \<Rightarrow> u64 \<Rightarrow> bytes res" where
  "readRawBlock f partOff sb blockNum =
     bindR (blockByteOffset partOff sb blockNum) (\<lambda>off. ReadAt f off (unat (blockSize sb)))"

definition writeRawBlock :: "int64 \<Rightarrow> superblock \<Rightarrow> u64 \<Rightarrow> bytes \<Rightarrow> unit io" where
  "writeRawBlock partOff sb blockNum data =
     writeIO (partOff + fsbToPhysBlock sb blockNum * ucast (blockSize sb)) data"

section \<open>Offsets without wrap-around\<close>

lemma sint_unat: "unat (w :: int64) < 2 ^ 63 \<Longrightarrow> sint w = int (unat w)"
proof -
  assume "unat w < 2 ^ 63"
  then have "uint w < 2 ^ 63" by (metis of_nat_less_numeral_power_cancel_iff of_nat_unat)
  then have "signed_take_bit 63 (uint w) = uint w"
    using uint_ge_0 [of w] by (intro signed_take_bit_int_eq_self) linarith+
  then have "sint w = uint w" by (simp add: sint_uint)
  then show ?thesis by simp
qed

lemma sint_less_unat: "unat (a :: int64) < 2 ^ 63 \<Longrightarrow> unat (b :: int64) < 2 ^ 63 \<Longrightarrow> sint a < sint b \<longleftrightarrow> unat a < unat b"
  and sint_le_unat: "unat (a :: int64) < 2 ^ 63 \<Longrightarrow> unat (b :: int64) < 2 ^ 63 \<Longrightarrow> sint a \<le> sint b \<longleftrightarrow> unat a \<le> unat b"
  by (simp_all only: sint_unat of_nat_less_iff of_nat_le_iff)

lemma unat_sint: "0 \<le> sint (w :: int64) \<longleftrightarrow> unat w < 2 ^ 63"
proof
  assume "0 \<le> sint w"
  then have top: "\<not> bit w 63" using bit_last_iff [of w] by simp
  have "take_bit 63 w = w"
  proof (rule bit_word_eqI)
    fix k assume "k < LENGTH(64)"
    then show "bit (take_bit 63 w) k = bit w k"
      using top by (cases "k = 63") (simp_all add: bit_take_bit_iff)
  qed
  then have "unat w = take_bit 63 (unat w)" by (metis unsigned_take_bit_eq)
  then show "unat w < 2 ^ 63" by (metis take_bit_nat_less_exp)
qed (simp add: sint_unat)

lemma unat_add_small: "unat (x :: u64) + unat y < 2 ^ 64 \<Longrightarrow> unat (x + y) = unat x + unat y"
  and unat_mult_small: "unat (x :: u64) * unat y < 2 ^ 64 \<Longrightarrow> unat (x * y) = unat x * unat y"
  by (simp_all add: unat_word_ariths)

lemma unat_of_nat_small: "k < 2 ^ 64 \<Longrightarrow> unat (of_nat k :: u64) = k"
  by (simp only: unat_of_nat) simp

lemma unat_word_of_nat_less:
  assumes "n < 2 ^ 64"
  shows "unat (word_of_int (int n) :: u64) = n"
proof -
  have "(word_of_int (int n) :: u64) = of_nat n" by simp
  then show ?thesis using assms by (simp only: unat_of_nat) simp
qed

lemma unat_quo64:
  assumes "unat a < 2 ^ 63" and "unat b < 2 ^ 63"
  shows "unat (quo64 a b) = unat a div unat b"
proof -
  have "sgn (int m) * sgn (int n) * (\<bar>int m\<bar> div \<bar>int n\<bar>) = int (m div n)" for m n :: nat
    by (cases "m = 0"; cases "n = 0") (simp_all add: zdiv_int)
  then have "sgn (sint a) * sgn (sint b) * (\<bar>sint a\<bar> div \<bar>sint b\<bar>) = int (unat a div unat b)"
    unfolding sint_unat [OF assms(1)] sint_unat [OF assms(2)] .
  moreover have "unat a div unat b < 2 ^ 64"
    by (rule le_less_trans [OF div_le_dividend]) (use unat_lt(4) [of a] in simp)
  ultimately show ?thesis unfolding quo64_def by (simp only: unat_word_of_nat_less)
qed

lemma blockByteOffset_exact:
  assumes "blockByteOffset partOff sb b = Inr off" and "0 \<le> sint partOff"
  shows "sint off = sint partOff + int (unat (fsbToPhysBlock sb b) * unat (blockSize sb))"
    and "unat off = unat partOff + unat (fsbToPhysBlock sb b) * unat (blockSize sb)"
    and "unat partOff + unat (fsbToPhysBlock sb b) * unat (blockSize sb) < 2 ^ 63"
proof -
  let ?bs = "ucast (blockSize sb) :: int64" and ?phys = "fsbToPhysBlock sb b"
  let ?t = "0x7FFFFFFFFFFFFFFF - partOff"
  have p: "unat partOff < 2 ^ 63" using assms(2) by (simp add: unat_sint)
  have t: "unat ?t = 2 ^ 63 - 1 - unat partOff"
    using p by (simp add: unat_sub_if' )
  have bs: "unat ?bs < 2 ^ 63" using unat_lt(3) [of "blockSize sb"] by simp
  from assms(1) have le: "unat ?phys \<le> (2 ^ 63 - 1 - unat partOff) div unat (blockSize sb)"
    and off: "off = partOff + ?phys * ?bs"
    using unat_quo64 [of ?t ?bs] bs t
    by (auto simp: blockByteOffset_def Let_def word_le_nat_alt not_less split: if_splits)
  have "unat ?phys * unat (blockSize sb) \<le> (2 ^ 63 - 1 - unat partOff) div unat (blockSize sb) * unat (blockSize sb)"
    using le by (rule mult_le_mono1)
  also have "\<dots> \<le> 2 ^ 63 - 1 - unat partOff" by simp
  finally have fit: "unat ?phys * unat (blockSize sb) \<le> 2 ^ 63 - 1 - unat partOff" .
  then show *: "unat partOff + unat ?phys * unat (blockSize sb) < 2 ^ 63" using p by simp
  then show u: "unat off = unat partOff + unat ?phys * unat (blockSize sb)"
    unfolding off by (simp add: unat_word_ariths)
  show "sint off = sint partOff + int (unat ?phys * unat (blockSize sb))"
    using * p by (simp add: sint_unat u)
qed

lemma blockByteOffset_ok:
  assumes "0 \<le> sint partOff" and "blockSize sb \<noteq> 0"
    and "unat partOff + unat (fsbToPhysBlock sb b) * unat (blockSize sb) < 2 ^ 63"
  shows "blockByteOffset partOff sb b = Inr (partOff + fsbToPhysBlock sb b * ucast (blockSize sb))"
proof -
  let ?bs = "ucast (blockSize sb) :: int64" and ?phys = "fsbToPhysBlock sb b"
  let ?t = "0x7FFFFFFFFFFFFFFF - partOff"
  have p: "unat partOff < 2 ^ 63" using assms(1) by (simp add: unat_sint)
  have t: "unat ?t = 2 ^ 63 - 1 - unat partOff" using p by (simp add: unat_sub_if')
  have pos: "0 < unat (blockSize sb)" using assms(2) by (simp add: word_neq_0_conv word_less_nat_alt)
  have bs: "unat ?bs < 2 ^ 63" using unat_lt(3) [of "blockSize sb"] by simp
  have "unat ?phys \<le> (2 ^ 63 - 1 - unat partOff) div unat (blockSize sb)"
    using assms(3) pos by (simp add: less_eq_div_iff_mult_less_eq)
  then have "\<not> quo64 ?t ?bs < ?phys"
    using unat_quo64 [of ?t ?bs] t bs by (simp add: word_less_nat_alt)
  moreover have "\<not> sint ?bs \<le> 0" unfolding sint_unat [OF bs] using pos by (simp only: unat_ucast_up)
  ultimately show ?thesis by (simp add: blockByteOffset_def Let_def)
qed

text \<open>
  A block offset the read side accepts is the exact, non-negative byte position of the
  block (nothing wrapped), every block whose position fits \<^verbatim>\<open>int64\<close> is accepted, and every
  other one is refused with \<^verbatim>\<open>ErrBlockOutOfRange\<close>.
\<close>

theorem blockByteOffset_bounds:
  assumes "0 \<le> sint partOff" and "blockSize sb \<noteq> 0"
  shows "if unat partOff + unat (fsbToPhysBlock sb b) * unat (blockSize sb) < 2 ^ 63
    then \<exists>off. blockByteOffset partOff sb b = Inr off \<and>
      sint off = sint partOff + int (unat (fsbToPhysBlock sb b) * unat (blockSize sb))
    else blockByteOffset partOff sb b = Inl ErrBlockOutOfRange"
proof (cases "unat partOff + unat (fsbToPhysBlock sb b) * unat (blockSize sb) < 2 ^ 63")
  case True
  then show ?thesis
    using blockByteOffset_ok [OF assms True] blockByteOffset_exact(1) [OF _ assms(1)] by auto
next
  case False
  then have "blockByteOffset partOff sb b \<noteq> Inr off" for off
    using blockByteOffset_exact(3) [OF _ assms(1)] by blast
  then show ?thesis
    using False unfolding blockByteOffset_def Let_def by (metis (full_types))
qed

theorem blockByteOffset_bounds_witness:
  "\<exists>off. blockByteOffset 1048576 sb_example (agAbsBlock sb_example 1 7) = Inr off \<and> sint off = 1048576 + 6407 * 4096"
proof -
  have "fsbToPhysBlock sb_example (agAbsBlock sb_example 1 7) = 6407" by (simp add: fsbToPhysBlock_def agAbsBlock_def Let_def)
  then show ?thesis
    using blockByteOffset_bounds [of 1048576 sb_example "agAbsBlock sb_example 1 7"] by simp
qed

section \<open>Reading back a written block\<close>

text \<open>
  A block whose byte range lies below \<open>2 ^ 63\<close>, as every block of an image that
  \<^verbatim>\<open>checkGeometryFitsDevice\<close> accepted does.
\<close>

definition addressable :: "int64 \<Rightarrow> superblock \<Rightarrow> u64 \<Rightarrow> bool" where
  "addressable partOff sb b \<longleftrightarrow> 0 \<le> sint partOff \<and> blockSize sb \<noteq> 0 \<and>
     unat partOff + unat (fsbToPhysBlock sb b) * unat (blockSize sb) < 2 ^ 63"

lemma readRawBlock_addressable:
  assumes "addressable partOff sb b"
  shows "readRawBlock f partOff sb b =
    ReadAt f (partOff + fsbToPhysBlock sb b * ucast (blockSize sb)) (unat (blockSize sb))"
  using assms by (simp add: addressable_def readRawBlock_def blockByteOffset_ok)

lemma addressable_sint:
  assumes "addressable partOff sb b"
  shows "sint (partOff + fsbToPhysBlock sb b * ucast (blockSize sb)) =
    sint partOff + int (unat (fsbToPhysBlock sb b) * unat (blockSize sb))"
  using assms blockByteOffset_exact(1) [OF blockByteOffset_ok] unfolding addressable_def by blast

lemma writeRawBlock_Inr:
  assumes "addressable partOff sb b"
  shows "\<exists>d'. writeRawBlock partOff sb b data d = (Inr (), d')"
proof -
  let ?off = "partOff + fsbToPhysBlock sb b * ucast (blockSize sb)"
  have "0 \<le> sint ?off" using assms addressable_sint [OF assms] by (simp add: addressable_def)
  then obtain d' where "WriteAt d ?off data = Inr d'" using file_store.wr_ok by blast
  then show ?thesis by (simp add: writeRawBlock_def writeIO_def)
qed

lemma writeRawBlock_WriteAt:
  "writeRawBlock partOff sb b data d = (Inr (), d') \<longleftrightarrow>
    WriteAt d (partOff + fsbToPhysBlock sb b * ucast (blockSize sb)) data = Inr d'"
  by (auto simp: writeRawBlock_def writeIO_def split: sum.splits)

lemma read_written_block:
  assumes "addressable partOff sb b" and "length data = unat (blockSize sb)"
    and "writeRawBlock partOff sb b data d = (Inr (), d')"
  shows "readRawBlock d' partOff sb b = Inr data"
  using assms file_store.rd_wr_same
  by (metis readRawBlock_addressable writeRawBlock_WriteAt)

lemma read_other_block:
  assumes "addressable partOff sb b" and "addressable partOff sb c"
    and "fsbToPhysBlock sb b \<noteq> fsbToPhysBlock sb c" and "length data = unat (blockSize sb)"
    and w: "writeRawBlock partOff sb b data d = (Inr (), d')"
    and r: "readRawBlock d partOff sb c = Inr old"
  shows "readRawBlock d' partOff sb c = Inr old"
proof -
  let ?B = "unat (blockSize sb)" and ?pb = "unat (fsbToPhysBlock sb b)" and ?pc = "unat (fsbToPhysBlock sb c)"
  have "?pb \<noteq> ?pc" using assms(3) by (simp add: word_unat_eq_iff)
  then have "?pc * ?B + ?B \<le> ?pb * ?B \<or> ?pb * ?B + ?B \<le> ?pc * ?B"
    by (metis Suc_leI add.commute linorder_neq_iff mult_Suc mult_le_mono1)
  then have apart: "int (?pc * ?B) + int ?B \<le> int (?pb * ?B) \<or> int (?pb * ?B) + int ?B \<le> int (?pc * ?B)"
    by linarith
  note sints = addressable_sint [OF assms(1)] addressable_sint [OF assms(2)]
  show ?thesis
    using file_store.rd_wr_frame [OF w [unfolded writeRawBlock_WriteAt] r [unfolded readRawBlock_addressable [OF assms(2)]]]
      apart sints assms(4) readRawBlock_addressable [OF assms(2)] by simp
qed

end
