(* ===== verification/Inode.thy ===== *)
theory Inode
  imports Blocks
begin

text \<open>
  Inodes (inode.go): the in-memory record with its raw buffer, inode-number arithmetic,
  reading and writing an inode slot, the field setters, and the initialisation of a fresh
  version-3 inode. The clock is an argument of the operations that stamp times.
\<close>

section \<open>The record and its raw buffer\<close>

definition inodeFmtLocal :: byte where "inodeFmtLocal = 1"
definition inodeFmtExtents :: byte where "inodeFmtExtents = 2"
definition inodeFmtBtree :: byte where "inodeFmtBtree = 3"

record inode =
  iNum :: u64
  iMode :: u16
  iFormat :: byte
  iSize :: u64
  iNBlocks :: u64
  iNExts :: u32
  iForkOff :: byte
  iRaw :: bytes

definition isRegular :: "inode \<Rightarrow> bool" where
  "isRegular inode = (iMode inode AND 0xF000 = 0x8000)"

definition isDir :: "inode \<Rightarrow> bool" where
  "isDir inode = (iMode inode AND 0xF000 = 0x4000)"

definition isSymlink :: "inode \<Rightarrow> bool" where
  "isSymlink inode = (iMode inode AND 0xF000 = 0xA000)"

definition dataFork :: "inode \<Rightarrow> bytes" where
  "dataFork inode = drop 176 (iRaw inode)"

text \<open>
  Timestamps, as nanoseconds since the Unix epoch (\<^verbatim>\<open>time.Unix(sec, nsec)\<close> is the instant
  \<open>sec * 10 ^ 9 + nsec\<close>).
\<close>

definition decodeInodeTime :: "bytes \<Rightarrow> nat \<Rightarrow> bool \<Rightarrow> int" where
  "decodeInodeTime raw off bigtime =
     (if bigtime
      then let total = be64 raw off;
               sec = sint (total div 1000000000) - 2147483648;
               nsec = sint (total mod 1000000000)
           in sec * 1000000000 + nsec
      else let sec = sint (be32 raw off);
               nsec = sint (be32 raw (off + 4))
           in sec * 1000000000 + nsec)"

definition inodeHasBigtime :: "bytes \<Rightarrow> bool" where
  "inodeHasBigtime raw \<longleftrightarrow> byte_at raw 4 \<ge> 3 \<and> be64 raw 120 AND 8 \<noteq> 0"

section \<open>Inode numbers\<close>

definition inoShift :: "superblock \<Rightarrow> nat" where
  "inoShift sb = unat (agBlkLog sb) + unat (inopBLog sb)"

definition inodeByteOff :: "superblock \<Rightarrow> int64 \<Rightarrow> u64 \<Rightarrow> int64" where
  "inodeByteOff sb partOff ino =
     (let ag = drop_bit (inoShift sb) ino;
          agRel = ino AND (push_bit (inoShift sb) 1 - 1);
          agBlock = drop_bit (unat (inopBLog sb)) agRel;
          blkOff = agRel AND (push_bit (unat (inopBLog sb)) 1 - 1)
      in partOff + ag * ucast (agBlocks sb) * ucast (blockSize sb) + agBlock * ucast (blockSize sb)
           + blkOff * ucast (inodeSize sb))"

definition inoAG :: "superblock \<Rightarrow> u64 \<Rightarrow> u32" where
  "inoAG sb ino = ucast (drop_bit (inoShift sb) ino)"

definition inoAGRel :: "superblock \<Rightarrow> u64 \<Rightarrow> u32" where
  "inoAGRel sb ino = ucast (ino AND (push_bit (inoShift sb) 1 - 1))"

definition inoFromAGRel :: "superblock \<Rightarrow> u32 \<Rightarrow> u32 \<Rightarrow> u64" where
  "inoFromAGRel sb ag agRel = push_bit (inoShift sb) (ucast ag) OR ucast agRel"

section \<open>Reading and writing an inode\<close>

text \<open>
  \<^verbatim>\<open>readInode\<close> after the read of the slot. Its callers hold a superblock that passed
  \<^verbatim>\<open>validateGeometry\<close>, so the buffer has at least 256 bytes and no field access is out of range.
\<close>

definition inodeNrext64 :: "bytes \<Rightarrow> bool" where
  "inodeNrext64 buf \<longleftrightarrow> byte_at buf 4 \<ge> 3 \<and> be64 buf 120 AND 0x10 \<noteq> 0"

definition parseInode :: "u64 \<Rightarrow> bytes \<Rightarrow> inode res" where
  "parseInode ino buf =
     (if be16 buf 0 \<noteq> magicInode then Inl ErrBadMagic
      else Inr \<lparr>iNum = ino, iMode = be16 buf 2, iFormat = byte_at buf 5, iSize = be64 buf 56,
                iNBlocks = be64 buf 64,
                iNExts = (if inodeNrext64 buf then ucast (be64 buf 24) else be32 buf 76),
                iForkOff = byte_at buf 82, iRaw = buf\<rparr>)"

definition readInode :: "dev \<Rightarrow> int64 \<Rightarrow> superblock \<Rightarrow> u64 \<Rightarrow> inode res" where
  "readInode r partOff sb ino =
     bindR (readBytes r (inodeByteOff sb partOff ino) (unat (inodeSize sb))) (parseInode ino)"

text \<open>
  \<^verbatim>\<open>writeInode\<close> stamps the checksum into the caller's buffer; the inode with that buffer is
  the result.
\<close>

definition stampInode :: "superblock \<Rightarrow> inode \<Rightarrow> inode" where
  "stampInode sb inode =
     (if hasCRC sb then inode\<lparr>iRaw := updateCRC (iRaw inode) 100 (unat (inodeSize sb))\<rparr> else inode)"

definition writeInode :: "int64 \<Rightarrow> superblock \<Rightarrow> inode \<Rightarrow> inode io" where
  "writeInode partOff sb inode =
     (let inode' = stampInode sb inode in
      bindIO (writeIO (inodeByteOff sb partOff (iNum inode')) (iRaw inode')) (\<lambda>_. retIO inode'))"

definition zeroInode :: "inode \<Rightarrow> inode" where
  "zeroInode inode = inode\<lparr>iRaw := put16 2 0 (iRaw inode)\<rparr>"

definition setInodeSize :: "inode \<Rightarrow> u64 \<Rightarrow> inode" where
  "setInodeSize inode sz = inode\<lparr>iRaw := put64 56 sz (iRaw inode), iSize := sz\<rparr>"

definition setInodeNBlocks :: "inode \<Rightarrow> u64 \<Rightarrow> inode" where
  "setInodeNBlocks inode n = inode\<lparr>iRaw := put64 64 n (iRaw inode), iNBlocks := n\<rparr>"

definition setInodeNExtents :: "inode \<Rightarrow> u32 \<Rightarrow> inode" where
  "setInodeNExtents inode n = inode\<lparr>iRaw := put32 76 n (iRaw inode), iNExts := n\<rparr>"

definition setInodeFormat :: "inode \<Rightarrow> byte \<Rightarrow> inode" where
  "setInodeFormat inode f = inode\<lparr>iRaw := put8 5 f (iRaw inode), iFormat := f\<rparr>"

text \<open>\<open>now\<close> is the clock reading: seconds and nanoseconds, each cut to 32 bits.\<close>

definition stampLegacy :: "nat \<Rightarrow> u32 \<times> u32 \<Rightarrow> bytes \<Rightarrow> bytes" where
  "stampLegacy off now buf = put32 (off + 4) (snd now) (put32 off (fst now) buf)"

definition initInodeV3 :: "bytes \<Rightarrow> u64 \<Rightarrow> u16 \<Rightarrow> u32 \<Rightarrow> bytes \<Rightarrow> u32 \<times> u32 \<Rightarrow> bytes" where
  "initInodeV3 buf ino mode nlink uuid now =
     (let b = replicate (length buf) 0;
          b = put16 0 magicInode b;
          b = put16 2 mode b;
          b = put8 4 3 b;
          b = put8 5 inodeFmtLocal b;
          b = put32 16 nlink b;
          b = stampLegacy 32 now b;
          b = stampLegacy 40 now b;
          b = stampLegacy 48 now b;
          b = stampLegacy 144 now b;
          b = put64 152 ino b;
          b = put32 96 0xFFFFFFFF b;
          b = put8 83 inodeFmtExtents b
      in patch 160 (take 16 uuid) b)"

section \<open>Inode numbers pack and unpack\<close>

lemma unat_drop_bit: "unat (drop_bit k (w :: 'a::len word)) = unat w div 2 ^ k"
  using unat_drop_bit_eq [of k w] by (simp only: drop_bit_eq_div [of k "unat w"])

lemma unat_take_bit: "unat (take_bit k (w :: 'a::len word)) = unat w mod 2 ^ k"
  using unsigned_take_bit_eq [of k w, where 'a = nat] by (simp only: take_bit_eq_mod [of k "unat w"])

text \<open>
  An inode number built from a group and a group-relative number by \<^verbatim>\<open>inoFromAGRel\<close> is
  split back into both by \<^verbatim>\<open>inoAG\<close> and \<^verbatim>\<open>inoAGRel\<close>, and every inode number whose group and
  relative parts fit 32 bits is rebuilt from its parts.
\<close>

theorem inode_number_roundtrip:
  assumes "inoShift sb \<le> 32"
  shows "(unat agRel < 2 ^ inoShift sb \<longrightarrow>
      inoAG sb (inoFromAGRel sb ag agRel) = ag \<and> inoAGRel sb (inoFromAGRel sb ag agRel) = agRel) \<and>
    (unat ino < 2 ^ (32 + inoShift sb) \<longrightarrow> inoFromAGRel sb (inoAG sb ino) (inoAGRel sb ino) = ino)"
proof (intro conjI impI)
  assume lo: "unat agRel < 2 ^ inoShift sb"
  show "inoAG sb (inoFromAGRel sb ag agRel) = ag"
    unfolding inoAG_def inoFromAGRel_def pack_high [OF lo disjI1 [OF assms]] by simp
  show "inoAGRel sb (inoFromAGRel sb ag agRel) = agRel"
    unfolding inoAGRel_def inoFromAGRel_def low_mask pack_low [OF lo] by simp
next
  assume "unat ino < 2 ^ (32 + inoShift sb)"
  then have hi: "\<not> bit ino k" if "32 + inoShift sb \<le> k" for k
    using not_bit_above that by blast
  show "inoFromAGRel sb (inoAG sb ino) (inoAGRel sb ino) = ino"
  proof (rule bit_word_eqI)
    fix k assume "k < LENGTH(64)"
    then show "bit (inoFromAGRel sb (inoAG sb ino) (inoAGRel sb ino)) k = bit ino k"
      unfolding inoFromAGRel_def inoAG_def inoAGRel_def low_mask
      using assms hi [of k]
      by (cases "k < inoShift sb"; cases "k < 32 + inoShift sb"; simp add: bit_or_iff bit_push_bit_iff bit_unsigned_iff bit_drop_bit_eq bit_take_bit_iff; linarith?)
  qed
qed

theorem inode_number_roundtrip_witness:
  "inoAG sb_example (inoFromAGRel sb_example 3 4711) = 3 \<and> inoAGRel sb_example (inoFromAGRel sb_example 3 4711) = 4711 \<and>
   inoFromAGRel sb_example (inoAG sb_example 131200) (inoAGRel sb_example 131200) = 131200"
  using inode_number_roundtrip [of sb_example 4711 3 131200] by (simp add: inoShift_def)

section \<open>Inode slots\<close>

text \<open>
  Where an inode lives: its group, the block inside the group and the slot inside the block.
  \<open>ino_in_range\<close> holds of the numbers whose group and block exist.
\<close>

definition ino_ag :: "superblock \<Rightarrow> u64 \<Rightarrow> nat" where
  "ino_ag sb ino = unat ino div 2 ^ inoShift sb"

definition ino_block :: "superblock \<Rightarrow> u64 \<Rightarrow> nat" where
  "ino_block sb ino = unat ino mod 2 ^ inoShift sb div 2 ^ unat (inopBLog sb)"

definition ino_slot :: "superblock \<Rightarrow> u64 \<Rightarrow> nat" where
  "ino_slot sb ino = unat ino mod 2 ^ inoShift sb mod 2 ^ unat (inopBLog sb)"

definition ino_in_range :: "superblock \<Rightarrow> u64 \<Rightarrow> bool" where
  "ino_in_range sb ino \<longleftrightarrow> ino_ag sb ino < unat (agCount sb) \<and> ino_block sb ino < unat (agBlocks sb)"

text \<open>
  The image lies below \<open>2 ^ 63\<close> and a block has room for the inodes it is said to hold
  (\<^verbatim>\<open>validateGeometry\<close> does not compare \<^verbatim>\<open>sb_inopblock\<close> with the block size).
\<close>

definition inodes_fit :: "superblock \<Rightarrow> int64 \<Rightarrow> bool" where
  "inodes_fit sb partOff \<longleftrightarrow> 0 \<le> sint partOff \<and>
     unat partOff + unat (agCount sb) * unat (agBlocks sb) * unat (blockSize sb) < 2 ^ 63 \<and>
     2 ^ unat (inopBLog sb) * unat (inodeSize sb) \<le> unat (blockSize sb)"

definition ino_pos :: "superblock \<Rightarrow> u64 \<Rightarrow> nat" where
  "ino_pos sb ino = (ino_ag sb ino * unat (agBlocks sb) + ino_block sb ino) * unat (blockSize sb)
     + ino_slot sb ino * unat (inodeSize sb)"

lemma flat_index_less:
  fixes a n b m :: nat
  assumes "a < n" and "b < m"
  shows "a * m + b < n * m"
proof -
  have "a * m + b < Suc a * m" using assms(2) by simp
  also have "\<dots> \<le> n * m" using assms(1) by (intro mult_le_mono1) simp
  finally show ?thesis .
qed

lemma ino_slot_room:
  assumes "inodes_fit sb partOff"
  shows "ino_slot sb ino * unat (inodeSize sb) + unat (inodeSize sb) \<le> unat (blockSize sb)"
proof -
  have "Suc (ino_slot sb ino) \<le> 2 ^ unat (inopBLog sb)" by (simp add: ino_slot_def Suc_le_eq)
  then have "Suc (ino_slot sb ino) * unat (inodeSize sb) \<le> 2 ^ unat (inopBLog sb) * unat (inodeSize sb)"
    by (rule mult_le_mono1)
  with assms show ?thesis by (simp add: inodes_fit_def)
qed

lemma ino_pos_bound:
  assumes "inodes_fit sb partOff" and "ino_in_range sb ino"
  shows "unat partOff + ino_pos sb ino + unat (inodeSize sb) < 2 ^ 63"
proof -
  let ?F = "ino_ag sb ino * unat (agBlocks sb) + ino_block sb ino" and ?B = "unat (blockSize sb)"
  have "?F < unat (agCount sb) * unat (agBlocks sb)"
    using assms(2) unfolding ino_in_range_def by (blast intro: flat_index_less)
  then have "Suc ?F * ?B \<le> unat (agCount sb) * unat (agBlocks sb) * ?B"
    by (intro mult_le_mono1) simp
  moreover have "ino_pos sb ino + unat (inodeSize sb) \<le> Suc ?F * ?B"
    using ino_slot_room [OF assms(1), of ino] by (simp add: ino_pos_def)
  ultimately show ?thesis using assms(1) unfolding inodes_fit_def by linarith
qed

lemma inodeByteOff_exact:
  assumes "inodes_fit sb partOff" and "ino_in_range sb ino"
  shows "unat (inodeByteOff sb partOff ino) = unat partOff + ino_pos sb ino"
proof -
  let ?n = "inodeByteOff sb partOff ino"
  have "?n = of_nat (unat partOff + ino_pos sb ino)"
    unfolding inodeByteOff_def Let_def low_mask ino_pos_def ino_ag_def ino_block_def ino_slot_def
    by (simp add: of_nat_add of_nat_mult algebra_simps flip: unat_drop_bit unat_take_bit)
  moreover have "unat partOff + ino_pos sb ino < 2 ^ 64"
    using ino_pos_bound [OF assms] by simp
  ultimately show ?thesis by (simp only: unat_of_nat) simp
qed

lemma inodeByteOff_sint:
  assumes "inodes_fit sb partOff" and "ino_in_range sb ino"
  shows "sint (inodeByteOff sb partOff ino) = int (unat partOff + ino_pos sb ino)"
  using inodeByteOff_exact [OF assms] ino_pos_bound [OF assms] sint_unat [of "inodeByteOff sb partOff ino"] by simp

lemma ino_pos_apart:
  assumes "inodes_fit sb partOff" and "ino_in_range sb i" and "ino_in_range sb j" and "i \<noteq> j"
  shows "ino_pos sb i + unat (inodeSize sb) \<le> ino_pos sb j \<or> ino_pos sb j + unat (inodeSize sb) \<le> ino_pos sb i"
proof -
  let ?F = "\<lambda>i. ino_ag sb i * unat (agBlocks sb) + ino_block sb i" and ?B = "unat (blockSize sb)"
  have lt: "ino_pos sb i + unat (inodeSize sb) \<le> ino_pos sb j" if "?F i < ?F j" for i j
  proof -
    have "Suc (?F i) * ?B \<le> ?F j * ?B" using that by (intro mult_le_mono1) simp
    then show ?thesis using ino_slot_room [OF assms(1), of i] by (simp add: ino_pos_def)
  qed
  have slot: "ino_pos sb i + unat (inodeSize sb) \<le> ino_pos sb j"
    if "?F i = ?F j" "ino_slot sb i < ino_slot sb j" for i j
  proof -
    have "Suc (ino_slot sb i) * unat (inodeSize sb) \<le> ino_slot sb j * unat (inodeSize sb)"
      using that(2) by (intro mult_le_mono1) simp
    then show ?thesis using that(1) by (simp add: ino_pos_def)
  qed
  have "ino_slot sb i \<noteq> ino_slot sb j" if F: "?F i = ?F j"
  proof
    assume sl: "ino_slot sb i = ino_slot sb j"
    have "ino_ag sb i = ?F i div unat (agBlocks sb)" "ino_ag sb j = ?F j div unat (agBlocks sb)"
      using assms(2,3) by (simp_all add: ino_in_range_def)
    then have ag: "ino_ag sb i = ino_ag sb j" by (simp only: F)
    then have bl: "ino_block sb i = ino_block sb j" using F by simp
    have "unat i mod 2 ^ inoShift sb = unat j mod 2 ^ inoShift sb"
      using bl sl unfolding ino_block_def ino_slot_def by (metis div_mult_mod_eq)
    then have "unat i = unat j" using ag unfolding ino_ag_def by (metis div_mult_mod_eq)
    then show False using assms(4) by (simp add: word_unat_eq_iff)
  qed
  then show ?thesis using lt slot by (metis linorder_neqE_nat)
qed

lemma read_after_write_inode:
  assumes "WriteAt d (inodeByteOff sb partOff i) raw = Inr d'" and "length raw = unat (inodeSize sb)"
  shows "readInode d' partOff sb i = parseInode i raw"
  using file_store.rd_wr_same [OF assms(1)] assms(2) by (simp add: readInode_def readBytes_def)

lemma read_other_inode:
  assumes "inodes_fit sb partOff" and "ino_in_range sb i" and "ino_in_range sb j" and "i \<noteq> j"
    and w: "WriteAt d (inodeByteOff sb partOff i) raw = Inr d'" and "length raw = unat (inodeSize sb)"
    and r: "ReadAt d (inodeByteOff sb partOff j) (unat (inodeSize sb)) = Inr xs"
  shows "ReadAt d' (inodeByteOff sb partOff j) (unat (inodeSize sb)) = Inr xs"
proof (rule file_store.rd_wr_frame [OF w r])
  have "int (ino_pos sb i) + int (unat (inodeSize sb)) \<le> int (ino_pos sb j) \<or>
      int (ino_pos sb j) + int (unat (inodeSize sb)) \<le> int (ino_pos sb i)"
    using ino_pos_apart [OF assms(1-4)] by linarith
  then show "sint (inodeByteOff sb partOff j) + int (unat (inodeSize sb)) \<le> sint (inodeByteOff sb partOff i) \<or>
      sint (inodeByteOff sb partOff i) + int (length raw) \<le> sint (inodeByteOff sb partOff j)"
    unfolding inodeByteOff_sint [OF assms(1,2)] inodeByteOff_sint [OF assms(1,3)] assms(6) by linarith
qed

section \<open>The raw buffer and the parsed fields agree\<close>

definition inode_wf :: "superblock \<Rightarrow> inode \<Rightarrow> bool" where
  "inode_wf sb inode \<longleftrightarrow> 176 \<le> unat (inodeSize sb) \<and> length (iRaw inode) = unat (inodeSize sb) \<and>
     parseInode (iNum inode) (iRaw inode) = Inr inode"

lemmas field_frame = get_defs byte_at_window inodeNrext64_def

lemma inodeNrext64_frame:
  "176 \<le> length raw \<Longrightarrow> inodeNrext64 (put64 56 v raw) = inodeNrext64 raw"
  "176 \<le> length raw \<Longrightarrow> inodeNrext64 (put64 64 v raw) = inodeNrext64 raw"
  "176 \<le> length raw \<Longrightarrow> inodeNrext64 (put32 76 n raw) = inodeNrext64 raw"
  "176 \<le> length raw \<Longrightarrow> inodeNrext64 (put8 5 f raw) = inodeNrext64 raw"
  "176 \<le> length raw \<Longrightarrow> inodeNrext64 (updateCRC raw 100 len) = inodeNrext64 raw"
  by (simp_all add: field_frame window_put_frame window_updateCRC)

lemma parse_put_size:
  "176 \<le> length raw \<Longrightarrow> parseInode i raw = Inr inode \<Longrightarrow>
    parseInode i (put64 56 v raw) = Inr (inode\<lparr>iRaw := put64 56 v raw, iSize := v\<rparr>)"
  by (auto simp: parseInode_def inodeNrext64_frame field_frame put_defs buf_simps split: if_splits)

lemma parse_put_nblocks:
  "176 \<le> length raw \<Longrightarrow> parseInode i raw = Inr inode \<Longrightarrow>
    parseInode i (put64 64 v raw) = Inr (inode\<lparr>iRaw := put64 64 v raw, iNBlocks := v\<rparr>)"
  by (auto simp: parseInode_def inodeNrext64_frame field_frame put_defs buf_simps split: if_splits)

lemma parse_put_nextents:
  "176 \<le> length raw \<Longrightarrow> parseInode i raw = Inr inode \<Longrightarrow>
    parseInode i (put32 76 n raw) =
      Inr (inode\<lparr>iRaw := put32 76 n raw, iNExts := (if inodeNrext64 raw then iNExts inode else n)\<rparr>)"
  by (auto simp: parseInode_def inodeNrext64_frame field_frame put_defs buf_simps split: if_splits)

lemma parse_put_format:
  "176 \<le> length raw \<Longrightarrow> parseInode i raw = Inr inode \<Longrightarrow>
    parseInode i (put8 5 f raw) = Inr (inode\<lparr>iRaw := put8 5 f raw, iFormat := f\<rparr>)"
  by (auto simp: parseInode_def inodeNrext64_frame field_frame put_defs buf_simps split: if_splits)

lemma parse_updateCRC:
  "176 \<le> length raw \<Longrightarrow> parseInode i raw = Inr inode \<Longrightarrow>
    parseInode i (updateCRC raw 100 len) = Inr (inode\<lparr>iRaw := updateCRC raw 100 len\<rparr>)"
  by (auto simp: parseInode_def inodeNrext64_frame field_frame buf_simps split: if_splits)

lemma parse_iNum: "parseInode i raw = Inr inode \<Longrightarrow> iNum inode = i \<and> iRaw inode = raw"
  by (auto simp: parseInode_def split: if_splits)

lemma inode_wf_setters:
  assumes "inode_wf sb inode"
  shows "inode_wf sb (setInodeSize inode v)" and "inode_wf sb (setInodeNBlocks inode v)"
    and "inode_wf sb (setInodeFormat inode f)"
    and "inode_wf sb (setInodeNExtents inode n) \<longleftrightarrow> \<not> inodeNrext64 (iRaw inode) \<or> iNExts inode = n"
  using assms
  by (auto simp: inode_wf_def setInodeSize_def setInodeNBlocks_def setInodeFormat_def setInodeNExtents_def
      parse_put_size parse_put_nblocks parse_put_format parse_put_nextents intro!: inode.equality
      dest: arg_cong [where f = iNExts])

lemma stampInode_wf:
  assumes "inode_wf sb inode"
  shows "inode_wf sb (stampInode sb inode)"
  using assms by (auto simp: inode_wf_def stampInode_def parse_updateCRC)

text \<open>
  C30. The setters keep the parsed fields and the raw buffer in agreement, so what
  \<^verbatim>\<open>writeInode\<close> stores is what a later \<^verbatim>\<open>readInode\<close> parses. The exception is
  \<^verbatim>\<open>setInodeNExtents\<close>: it stores the count in the legacy field only, and on an inode
  with the NREXT64 flag, whose count is read from \<^verbatim>\<open>di_big_nextents\<close>, the new count is lost
  unless it equals the old one.
\<close>

theorem inode_setters_agree:
  assumes "inode_wf sb inode"
  shows "inode_wf sb (setInodeSize inode v) \<and> inode_wf sb (setInodeNBlocks inode v) \<and>
    inode_wf sb (setInodeFormat inode f) \<and>
    (inode_wf sb (setInodeNExtents inode n) \<longleftrightarrow> \<not> inodeNrext64 (iRaw inode) \<or> iNExts inode = n)"
  using inode_wf_setters [OF assms] by blast

section \<open>Fresh inodes\<close>

lemma length_stampLegacy [simp, buf_simps]:
  "length (stampLegacy off now b) = length b"
  by (simp add: stampLegacy_def)

lemma window_stampLegacy [buf_simps]:
  "off' + n \<le> off \<or> off + 8 \<le> off' \<Longrightarrow>
    window off' n (stampLegacy off now b) = window off' n b"
  by (auto simp: stampLegacy_def window_put_frame)

lemma initInodeV3_fields:
  assumes "176 \<le> length buf" and "length uuid = 16"
  shows "length (initInodeV3 buf ino mode nlink uuid now) = length buf"
    and "parseInode ino (initInodeV3 buf ino mode nlink uuid now) =
      Inr \<lparr>iNum = ino, iMode = mode, iFormat = inodeFmtLocal, iSize = 0, iNBlocks = 0, iNExts = 0,
           iForkOff = 0, iRaw = initInodeV3 buf ino mode nlink uuid now\<rparr>"
proof -
  let ?z = "replicate (length buf) (0 :: byte)"
  have z: "window o' n ?z = replicate (min n (length buf - o')) 0" for o' n by (simp add: window_def min_def)
  have w0: "be_word (replicate 8 (0 :: byte)) = (0 :: u64)" "be_word (replicate 4 (0 :: byte)) = (0 :: u32)"
    by code_simp+
  show "length (initInodeV3 buf ino mode nlink uuid now) = length buf"
    using assms by (simp add: initInodeV3_def Let_def)
  show "parseInode ino (initInodeV3 buf ino mode nlink uuid now) =
      Inr \<lparr>iNum = ino, iMode = mode, iFormat = inodeFmtLocal, iSize = 0, iNBlocks = 0, iNExts = 0,
           iForkOff = 0, iRaw = initInodeV3 buf ino mode nlink uuid now\<rparr>"
    using assms w0
    by (simp add: parseInode_def initInodeV3_def Let_def field_frame put_defs buf_simps z)
qed

text \<open>A fresh regular file as \<^verbatim>\<open>initInodeV3\<close> makes it.\<close>

definition inode_example :: inode where
  "inode_example =
     (let raw = initInodeV3 (replicate 512 0) 131 0x81A4 1 (replicate 16 0) (0, 0)
      in \<lparr>iNum = 131, iMode = 0x81A4, iFormat = inodeFmtLocal, iSize = 0, iNBlocks = 0, iNExts = 0,
          iForkOff = 0, iRaw = raw\<rparr>)"

lemma inode_example_wf: "inode_wf sb_example inode_example"
  using initInodeV3_fields [of "replicate 512 0" "replicate 16 0"]
  by (simp add: inode_wf_def inode_example_def Let_def)

lemma inode_example_legacy: "\<not> inodeNrext64 (iRaw inode_example)"
proof -
  have "be_word (replicate 8 (0 :: byte)) = (0 :: u64)" by code_simp
  moreover have "window o' n (replicate 512 (0 :: byte)) = replicate (min n (512 - o')) 0" for o' n
    by (simp add: window_def min_def)
  ultimately show ?thesis
    by (simp add: inode_example_def initInodeV3_def Let_def field_frame buf_simps)
qed

theorem inode_setters_agree_witness:
  "inode_wf sb_example (setInodeSize inode_example 9000) \<and> inode_wf sb_example (setInodeNExtents inode_example 3)"
  using inode_setters_agree [OF inode_example_wf, of 9000 2 3] inode_example_legacy by simp

section \<open>Writing an inode\<close>

lemma writeInode_result:
  assumes "inodes_fit sb partOff" and "ino_in_range sb (iNum inode)"
  shows "\<exists>d'. writeInode partOff sb inode d = (Inr (stampInode sb inode), d') \<and>
    WriteAt d (inodeByteOff sb partOff (iNum inode)) (iRaw (stampInode sb inode)) = Inr d'"
proof -
  have n: "iNum (stampInode sb inode) = iNum inode" by (simp add: stampInode_def)
  have "0 \<le> sint (inodeByteOff sb partOff (iNum inode))"
    unfolding inodeByteOff_sint [OF assms] by simp
  then obtain d' where "WriteAt d (inodeByteOff sb partOff (iNum inode)) (iRaw (stampInode sb inode)) = Inr d'"
    using file_store.wr_ok by blast
  then show ?thesis by (simp add: writeInode_def Let_def n writeIO_def bindIO_def)
qed

text \<open>
  C29. \<^verbatim>\<open>writeInode\<close> succeeds on every inode of the image; reading the number back gives the
  inode with all its fields and, on a v5 filesystem, a buffer that carries a valid checksum;
  and every other inode of the image reads as before, also when both share a block.
\<close>

theorem writeInode_readInode:
  assumes "inodes_fit sb partOff" and "ino_in_range sb (iNum inode)" and "inode_wf sb inode"
  shows "\<exists>d' inode'. writeInode partOff sb inode d = (Inr inode', d') \<and>
    readInode d' partOff sb (iNum inode) = Inr inode' \<and> inode'\<lparr>iRaw := iRaw inode\<rparr> = inode \<and>
    (hasCRC sb \<longrightarrow> verifyCRC (iRaw inode') 100 (unat (inodeSize sb))) \<and>
    (\<forall>j other. ino_in_range sb j \<and> j \<noteq> iNum inode \<and> readInode d partOff sb j = Inr other \<longrightarrow>
       readInode d' partOff sb j = Inr other)"
proof -
  let ?in = "stampInode sb inode"
  obtain d' where w: "writeInode partOff sb inode d = (Inr ?in, d')"
    and wr: "WriteAt d (inodeByteOff sb partOff (iNum inode)) (iRaw ?in) = Inr d'"
    using writeInode_result [OF assms(1,2)] by blast
  have wf: "inode_wf sb ?in" using assms(3) by (rule stampInode_wf)
  have num: "iNum ?in = iNum inode" by (simp add: stampInode_def)
  have len: "length (iRaw ?in) = unat (inodeSize sb)" using wf by (simp add: inode_wf_def)
  have "readInode d' partOff sb (iNum inode) = Inr ?in"
    using read_after_write_inode [OF wr len] wf by (simp add: inode_wf_def num)
  moreover have "?in\<lparr>iRaw := iRaw inode\<rparr> = inode" by (simp add: stampInode_def)
  moreover have "hasCRC sb \<longrightarrow> verifyCRC (iRaw ?in) 100 (unat (inodeSize sb))"
    using assms(3) by (simp add: stampInode_def inode_wf_def updateCRC_stamped)
  moreover have "readInode d' partOff sb j = Inr other"
    if "ino_in_range sb j" "j \<noteq> iNum inode" "readInode d partOff sb j = Inr other" for j other
    using read_other_inode [OF assms(1,2) that(1) that(2) [symmetric] wr len] that(3)
    by (auto simp: readInode_def readBytes_def bindR_eq_Inr)
  ultimately show ?thesis using w by blast
qed

theorem writeInode_readInode_witness:
  "\<exists>d' inode'. writeInode 0 sb_example inode_example \<lparr>dsize = 0, dbytes = \<lambda>_. 0\<rparr> = (Inr inode', d') \<and>
    readInode d' 0 sb_example 131 = Inr inode' \<and> verifyCRC (iRaw inode') 100 512"
proof -
  have "inodes_fit sb_example 0" by (simp add: inodes_fit_def)
  moreover have "ino_in_range sb_example (iNum inode_example)"
    by (simp add: ino_in_range_def ino_ag_def ino_block_def inoShift_def inode_example_def Let_def)
  ultimately show ?thesis
    using writeInode_readInode [OF _ _ inode_example_wf, of 0 "\<lparr>dsize = 0, dbytes = \<lambda>_. 0\<rparr>"]
    by (auto simp: inode_example_def Let_def)
qed

end
