(* ===== verification/SfDir.thy ===== *)
theory SfDir
  imports Inode
begin

text \<open>
  Short-form directories (dir.go: \<^verbatim>\<open>sfLookup\<close>, \<^verbatim>\<open>sfReadDir\<close>, \<^verbatim>\<open>addEntryToSFDir\<close>; delete.go:
  \<^verbatim>\<open>removeSFEntry\<close>): a directory stored inline in the data fork of its inode, as a header
  (entry count, count of 8-byte inode numbers, parent) followed by entries of varying length.
\<close>

record DirEntry =
  deInode :: u64
  deName :: bytes
  deType :: byte

section \<open>The operations\<close>

fun sfLookupLoop :: "bytes \<Rightarrow> bytes \<Rightarrow> bool \<Rightarrow> bool \<Rightarrow> nat \<Rightarrow> nat \<Rightarrow> u64 res" where
  "sfLookupLoop fork name ft i8 0 off = Inl ErrNotFound"
| "sfLookupLoop fork name ft i8 (Suc n) off =
     (if length fork \<le> off + 3 then Inl ErrNotFound
      else let namelen = unat (byte_at fork off); o1 = off + 3 in
        if length fork < o1 + namelen then Inl ErrNotFound
        else let nm = window o1 namelen fork;
                 o2 = o1 + namelen;
                 o3 = (if ft then o2 + 1 else o2);
                 inoSize = (if i8 then 8 else 4)
             in if length fork < o3 + inoSize then Inl ErrNotFound
                else let ino = (if i8 then be64 fork o3 else ucast (be32 fork o3)) in
                  if nm = name then Inr ino else sfLookupLoop fork name ft i8 n (o3 + inoSize))"

definition sfParentSize :: "bool \<Rightarrow> nat" where
  "sfParentSize i8 = (if i8 then 8 else 4)"

definition sfLookup :: "bytes \<Rightarrow> bytes \<Rightarrow> bool \<Rightarrow> u64 res" where
  "sfLookup fork name ft =
     (if length fork < 6 then Inl ErrNotFound
      else let n = unat (byte_at fork 0); i8 = (byte_at fork 1 > 0)
           in sfLookupLoop fork name ft i8 n (2 + sfParentSize i8))"

fun sfReadLoop :: "bytes \<Rightarrow> bool \<Rightarrow> bool \<Rightarrow> nat \<Rightarrow> nat \<Rightarrow> DirEntry list" where
  "sfReadLoop fork ft i8 0 off = []"
| "sfReadLoop fork ft i8 (Suc n) off =
     (if length fork \<le> off + 3 then []
      else let namelen = unat (byte_at fork off); o1 = off + 3 in
        if length fork < o1 + namelen then []
        else let nm = window o1 namelen fork; o2 = o1 + namelen in
          if ft \<and> length fork \<le> o2 then []
          else let t = (if ft then byte_at fork o2 else 0);
                   o3 = (if ft then o2 + 1 else o2);
                   inoSize = (if i8 then 8 else 4)
               in if length fork < o3 + inoSize then []
                  else \<lparr>deInode = (if i8 then be64 fork o3 else ucast (be32 fork o3)), deName = nm, deType = t\<rparr>
                         # sfReadLoop fork ft i8 n (o3 + inoSize))"

definition sfReadDir :: "bytes \<Rightarrow> bool \<Rightarrow> DirEntry list" where
  "sfReadDir fork ft =
     (if length fork < 6 then []
      else let n = unat (byte_at fork 0); i8 = (byte_at fork 1 > 0)
           in sfReadLoop fork ft i8 n (2 + sfParentSize i8))"

definition dirDataHdrSize :: "bool \<Rightarrow> nat" where
  "dirDataHdrSize crc = (if crc then 64 else 16)"

text \<open>\<^verbatim>\<open>(sz + 7) &^ 7\<close> on a non-negative \<^verbatim>\<open>int\<close>: round up to a multiple of eight.\<close>

definition dir2DataEntSize :: "nat \<Rightarrow> bool \<Rightarrow> nat" where
  "dir2DataEntSize namelen ft =
     (let sz = 8 + 1 + namelen + 2 + (if ft then 1 else 0) in (sz + 7) div 8 * 8)"

text \<open>The sizing loop of \<^verbatim>\<open>addEntryToSFDir\<close>: end of the entries, and the data-block offset so far.\<close>

fun sfSizeLoop :: "bytes \<Rightarrow> bool \<Rightarrow> bool \<Rightarrow> nat \<Rightarrow> nat \<Rightarrow> nat \<Rightarrow> (nat \<times> nat) option" where
  "sfSizeLoop fork ft i8 0 pos dataOff = Some (pos, dataOff)"
| "sfSizeLoop fork ft i8 (Suc n) pos dataOff =
     (if length fork \<le> pos then None
      else let nl = unat (byte_at fork pos)
           in sfSizeLoop fork ft i8 n (pos + 3 + nl + (if ft then 1 else 0) + (if i8 then 8 else 4))
                (dataOff + dir2DataEntSize nl ft))"

text \<open>
  \<^verbatim>\<open>addEntryToSFDir\<close> returns false when the entry does not fit; the writes of the last part
  are within the fork or panic (a fork offset beyond the inode). \<open>ErrDirOverflow\<close> stands for
  the result false, after which callers switch to a block directory.
\<close>

definition sfPutEntry :: "bytes \<Rightarrow> nat \<Rightarrow> bytes \<Rightarrow> u16 \<Rightarrow> bool \<Rightarrow> byte \<Rightarrow> u32 \<Rightarrow> bytes" where
  "sfPutEntry fork pos name dataOff ft ftype ino =
     (let f = put8 pos (of_nat (length name)) fork;
          f = put16 (pos + 1) dataOff f;
          f = patch (pos + 3) name f;
          p = pos + 3 + length name;
          f = (if ft then put8 p ftype f else f);
          p = (if ft then p + 1 else p)
      in put32 p ino f)"

definition addEntryToSFDir :: "inode \<Rightarrow> u64 \<Rightarrow> bytes \<Rightarrow> byte \<Rightarrow> superblock \<Rightarrow> inode res" where
  "addEntryToSFDir inode childIno name ftype sb =
     (let fork = dataFork inode in
      if length fork < 2 then Inl ErrDirOverflow
      else
        let n = unat (byte_at fork 0);
            i8 = (byte_at fork 1 > 0);
            inoSize = (if childIno > 0xFFFFFFFF then 8 else 4);
            extra = 1 + 2 + length name + inoSize + (if hasFType sb then 1 else 0);
            dataOff = dirDataHdrSize (hasCRC sb) + dir2DataEntSize 1 (hasFType sb) + dir2DataEntSize 2 (hasFType sb)
        in case sfSizeLoop fork (hasFType sb) i8 n (2 + sfParentSize i8) dataOff of
             None \<Rightarrow> Inl ErrDirOverflow
           | Some (sfSize, dataOff) \<Rightarrow>
               let forkCap = (if iForkOff inode \<noteq> 0 then unat (iForkOff inode) * 8 else unat (inodeSize sb) - 176) in
               if forkCap < sfSize + extra then Inl ErrDirOverflow
               else if inoSize = 8 then Inl ErrDirOverflow
               else if length fork < sfSize + extra then Inl Panic
               else let f = sfPutEntry fork sfSize name (of_nat dataOff) (hasFType sb) ftype (ucast childIno);
                        f = put8 0 (of_nat (n + 1)) f
                    in Inr (setInodeSize (inode\<lparr>iRaw := take 176 (iRaw inode) @ f\<rparr>) (of_nat (sfSize + extra))))"

text \<open>
  \<^verbatim>\<open>removeSFEntry\<close> before its final \<^verbatim>\<open>writeInode\<close>. A matching entry whose inode number runs past
  the fork is not checked for; \<^verbatim>\<open>fork[entEnd:]\<close> panics then.
\<close>

fun sfRemoveLoop :: "bytes \<Rightarrow> bytes \<Rightarrow> bool \<Rightarrow> bool \<Rightarrow> nat \<Rightarrow> nat \<Rightarrow> (nat \<times> nat) res" where
  "sfRemoveLoop fork name ft i8 0 off = Inl ErrNotFound"
| "sfRemoveLoop fork name ft i8 (Suc n) off =
     (if length fork \<le> off + 3 then Inl ErrNotFound
      else let namelen = unat (byte_at fork off); o1 = off + 3 in
        if length fork < o1 + namelen then Inl ErrNotFound
        else let nm = window o1 namelen fork;
                 o3 = o1 + namelen + (if ft then 1 else 0) + (if i8 then 8 else 4)
             in if nm = name then (if length fork < o3 then Inl Panic else Inr (off, o3))
                else sfRemoveLoop fork name ft i8 n o3)"

definition removeSFEntry :: "inode \<Rightarrow> bytes \<Rightarrow> superblock \<Rightarrow> inode res" where
  "removeSFEntry inode name sb =
     (let fork = dataFork inode in
      if length fork < 2 then Inl ErrNotFound
      else
        let n = unat (byte_at fork 0); i8 = (byte_at fork 1 > 0) in
        bindR (sfRemoveLoop fork name (hasFType sb) i8 n (2 + sfParentSize i8)) (\<lambda>(entStart, entEnd).
          let entLen = entEnd - entStart;
              f = patch entStart (drop entEnd fork) fork;
              f = zero_range (length f - entLen) entLen f;
              f = put8 0 (of_nat (n - 1)) f
          in Inr (setInodeSize (inode\<lparr>iRaw := take 176 (iRaw inode) @ f\<rparr>) (iSize inode - of_nat entLen))))"

section \<open>Lookup finds the first entry of the listing\<close>

lemma sfLookupLoop_find:
  "sfLookupLoop fork name ft i8 n off =
    (case find (\<lambda>e. deName e = name) (sfReadLoop fork ft i8 n off) of
       Some e \<Rightarrow> Inr (deInode e) | None \<Rightarrow> Inl ErrNotFound)"
  by (induction n arbitrary: off) (auto simp: Let_def)

lemma sfLookup_find:
  "sfLookup fork name ft =
    (case find (\<lambda>e. deName e = name) (sfReadDir fork ft) of
       Some e \<Rightarrow> Inr (deInode e) | None \<Rightarrow> Inl ErrNotFound)"
  by (simp add: sfLookup_def sfReadDir_def Let_def sfLookupLoop_find)

text \<open>
  On any fork, well formed or not, looking a name up in a short-form directory gives the
  inode of the first entry with that name in the directory's listing, and \<^verbatim>\<open>ErrNotFound\<close> exactly
  when the listing has none.
\<close>

theorem sfLookup_is_first_listed:
  "sfLookup fork name ft =
    (case find (\<lambda>e. deName e = name) (sfReadDir fork ft) of
       Some e \<Rightarrow> Inr (deInode e) | None \<Rightarrow> Inl ErrNotFound)"
  by (rule sfLookup_find)

section \<open>Moving entries\<close>

text \<open>The end of the first \<open>n\<close> entries; every entry takes at least seven bytes.\<close>

definition sfNext :: "bytes \<Rightarrow> bool \<Rightarrow> bool \<Rightarrow> nat \<Rightarrow> nat" where
  "sfNext fork ft i8 off = off + 3 + unat (byte_at fork off) + (if ft then 1 else 0) + (if i8 then 8 else 4)"

fun sfEnd :: "bytes \<Rightarrow> bool \<Rightarrow> bool \<Rightarrow> nat \<Rightarrow> nat \<Rightarrow> nat" where
  "sfEnd fork ft i8 0 off = off"
| "sfEnd fork ft i8 (Suc n) off = sfEnd fork ft i8 n (sfNext fork ft i8 off)"

lemma sfReadLoop_Suc:
  "sfReadLoop fork ft i8 (Suc n) off =
    (if sfNext fork ft i8 off \<le> length fork
     then \<lparr>deInode = (if i8 then be64 fork (sfNext fork ft i8 off - 8) else ucast (be32 fork (sfNext fork ft i8 off - 4))),
            deName = window (off + 3) (unat (byte_at fork off)) fork,
            deType = (if ft then byte_at fork (off + 3 + unat (byte_at fork off)) else 0)\<rparr>
          # sfReadLoop fork ft i8 n (sfNext fork ft i8 off)
     else [])"
  by (auto simp: Let_def sfNext_def ac_simps)

lemma sfReadLoop_length: "length (sfReadLoop fork ft i8 n off) \<le> n"
  by (induction n arbitrary: off) (auto simp: sfReadLoop_Suc simp del: sfReadLoop.simps(2))

lemma sfNext_gt: "off + 7 \<le> sfNext fork ft i8 off"
  by (simp add: sfNext_def)

lemma sfEnd_ge: "off \<le> sfEnd fork ft i8 n off"
proof (induction n arbitrary: off)
  case (Suc n)
  from Suc [of "sfNext fork ft i8 off"] sfNext_gt [of off fork ft i8] show ?case by simp
qed simp

lemma sfEnd_add: "sfEnd fork ft i8 (n + m) off = sfEnd fork ft i8 m (sfEnd fork ft i8 n off)"
  by (induction n arbitrary: off) simp_all

lemma sfReadLoop_complete:
  assumes "length (sfReadLoop fork ft i8 n off) = n" and "off \<le> length fork"
  shows "sfEnd fork ft i8 n off \<le> length fork"
  using assms
  by (induction n arbitrary: off) (auto simp: sfReadLoop_Suc simp del: sfReadLoop.simps(2) split: if_splits)

lemma sfReadLoop_add:
  assumes "length (sfReadLoop fork ft i8 n off) = n"
  shows "sfReadLoop fork ft i8 (n + m) off = sfReadLoop fork ft i8 n off @ sfReadLoop fork ft i8 m (sfEnd fork ft i8 n off)"
  using assms
  by (induction n arbitrary: off) (auto simp: sfReadLoop_Suc simp del: sfReadLoop.simps(2) split: if_splits)

text \<open>Two buffers that hold the same bytes at two places hold the same entries there.\<close>

definition same_bytes :: "bytes \<Rightarrow> nat \<Rightarrow> bytes \<Rightarrow> nat \<Rightarrow> nat \<Rightarrow> bool" where
  "same_bytes a i b j n \<longleftrightarrow> i + n \<le> length a \<and> j + n \<le> length b \<and> window i n a = window j n b"

lemma same_bytes_sub:
  assumes "same_bytes a i b j n" and "k + m \<le> n"
  shows "same_bytes a (i + k) b (j + k) m"
proof -
  have "window k m (window i n a) = window k m (window j n b)" using assms by (simp add: same_bytes_def)
  then have "window (i + k) m a = window (j + k) m b" using assms(2) by (simp add: window_slice)
  then show ?thesis using assms by (simp add: same_bytes_def)
qed

lemma same_bytes_byte:
  assumes "same_bytes a i b j n" and "k < n"
  shows "byte_at a (i + k) = byte_at b (j + k)"
  using same_bytes_sub [OF assms(1), of k 1] assms(2) by (simp add: byte_at_window same_bytes_def)

lemma sfReadLoop_moved:
  assumes "length (sfReadLoop a ft i8 n i) = n" and "same_bytes a i b j (sfEnd a ft i8 n i - i)"
  shows "sfReadLoop b ft i8 n j = sfReadLoop a ft i8 n i \<and> sfEnd b ft i8 n j + i = sfEnd a ft i8 n i + j"
  using assms
proof (induction n arbitrary: i j)
  case 0
  then show ?case by simp
next
  case (Suc n)
  let ?x = "sfNext a ft i8 i" and ?y = "sfNext b ft i8 j"
  define L where "L = sfEnd a ft i8 (Suc n) i - i"
  have sm: "same_bytes a i b j L" using Suc.prems(2) by (simp add: L_def)
  have xe: "?x \<le> sfEnd a ft i8 (Suc n) i" using sfEnd_ge [of ?x] by simp
  have x7: "i + 7 \<le> ?x" by (rule sfNext_gt)
  have L: "?x - i \<le> L" using xe by (simp add: L_def)
  have len: "byte_at a i = byte_at b j" using same_bytes_byte [OF sm, of 0] L x7 by simp
  then have xy: "?y - j = ?x - i" and y: "?y = j + (?x - i)" by (simp_all add: sfNext_def)
  have fit: "?x \<le> length a" "length (sfReadLoop a ft i8 n ?x) = n"
    using Suc.prems(1) by (auto simp: sfReadLoop_Suc simp del: sfReadLoop.simps(2) split: if_splits)
  have fit': "?y \<le> length b" using sm L by (simp add: same_bytes_def y)
  let ?nl = "unat (byte_at a i)"
  have win: "window (i + k) m a = window (j + k) m b" if "k + m \<le> ?x - i" for k m
    using same_bytes_sub [OF sm, of k m] that L by (simp add: same_bytes_def)
  have nm: "window (i + 3) ?nl a = window (j + 3) ?nl b" by (rule win) (simp add: sfNext_def)
  have t: "ft \<Longrightarrow> byte_at a (i + 3 + ?nl) = byte_at b (j + 3 + ?nl)"
    using win [of "3 + ?nl" 1] by (simp add: byte_at_window sfNext_def add.assoc)
  have "window (?x - 8) 8 a = window (?y - 8) 8 b" if i8
  proof -
    have "i + 11 \<le> ?x" using that by (simp add: sfNext_def)
    then have "i + (?x - i - 8) = ?x - 8" "j + (?x - i - 8) = ?y - 8" "?x - i - 8 + 8 \<le> ?x - i" using y by simp_all
    then show ?thesis using win [of "?x - i - 8" 8] by simp
  qed
  moreover have "window (?x - 4) 4 a = window (?y - 4) 4 b"
    using win [of "?x - i - 4" 4] y x7 by simp
  ultimately have ino: "(if i8 then be64 a (?x - 8) else ucast (be32 a (?x - 4))) = (if i8 then be64 b (?y - 8) else ucast (be32 b (?y - 4)))"
    by (cases i8) (simp_all add: get_defs)
  have "same_bytes a ?x b ?y (sfEnd a ft i8 n ?x - ?x)"
    using same_bytes_sub [OF sm, of "?x - i" "sfEnd a ft i8 n ?x - ?x"] xe x7 y by (simp add: L_def)
  from Suc.IH [OF fit(2) this]
  have IH: "sfReadLoop b ft i8 n ?y = sfReadLoop a ft i8 n ?x" "sfEnd b ft i8 n ?y + ?x = sfEnd a ft i8 n ?x + ?y"
    by simp_all
  have "sfReadLoop b ft i8 (Suc n) j = sfReadLoop a ft i8 (Suc n) i"
    unfolding sfReadLoop_Suc using fit fit' len nm t ino IH(1) by simp
  moreover have "sfEnd b ft i8 (Suc n) j + i = sfEnd a ft i8 (Suc n) i + j"
    using IH(2) y x7 by simp
  ultimately show ?case by simp
qed

section \<open>Adding an entry\<close>

lemma sfSizeLoop_end:
  assumes "length (sfReadLoop fork ft i8 n off) = n"
  shows "\<exists>d. sfSizeLoop fork ft i8 n off dataOff = Some (sfEnd fork ft i8 n off, d)"
  using assms
proof (induction n arbitrary: off dataOff)
  case (Suc n)
  have "sfNext fork ft i8 off \<le> length fork" "length (sfReadLoop fork ft i8 n (sfNext fork ft i8 off)) = n"
    using Suc.prems by (auto simp: sfReadLoop_Suc simp del: sfReadLoop.simps(2) split: if_splits)
  then show ?case
    using Suc.IH [of "sfNext fork ft i8 off"] sfNext_gt [of off fork ft i8] by (simp add: Let_def sfNext_def add.assoc)
qed simp

text \<open>A directory all of whose entries can be read, with 4-byte inode numbers.\<close>

definition sf_wf :: "bytes \<Rightarrow> bool \<Rightarrow> bool" where
  "sf_wf fork ft \<longleftrightarrow> 6 \<le> length fork \<and> byte_at fork 1 = 0 \<and> length (sfReadDir fork ft) = unat (byte_at fork 0)"

lemma sf_wf_read:
  assumes "sf_wf fork ft"
  shows "sfReadDir fork ft = sfReadLoop fork ft False (unat (byte_at fork 0)) 6"
    and "length (sfReadLoop fork ft False (unat (byte_at fork 0)) 6) = unat (byte_at fork 0)"
    and "sfEnd fork ft False (unat (byte_at fork 0)) 6 \<le> length fork"
proof -
  show a: "sfReadDir fork ft = sfReadLoop fork ft False (unat (byte_at fork 0)) 6"
    using assms by (simp add: sf_wf_def sfReadDir_def sfParentSize_def)
  with assms show b: "length (sfReadLoop fork ft False (unat (byte_at fork 0)) 6) = unat (byte_at fork 0)"
    by (simp add: sf_wf_def)
  show "sfEnd fork ft False (unat (byte_at fork 0)) 6 \<le> length fork"
    using sfReadLoop_complete [OF b] assms by (simp add: sf_wf_def)
qed

lemma length_sfPutEntry [simp]: "length (sfPutEntry fork pos name dataOff ft ftype ino) = length fork"
  by (simp add: sfPutEntry_def Let_def)

lemma window_sfPutEntry: "o' + n \<le> pos \<Longrightarrow> window o' n (sfPutEntry fork pos name dataOff ft ftype ino) = window o' n fork"
  by (simp add: sfPutEntry_def Let_def window_put_frame)

lemma sfPutEntry_read:
  assumes "pos + 3 + length name + (if ft then 1 else 0) + 4 \<le> length fork" and "length name < 256" and "0 < pos"
    and f_def: "f = put8 0 c (sfPutEntry fork pos name dataOff ft ftype ino)"
  shows "sfReadLoop f ft False (Suc 0) pos = [\<lparr>deInode = ucast ino, deName = name, deType = (if ft then ftype else 0)\<rparr>]"
    and "sfNext f ft False pos = pos + 3 + length name + (if ft then 1 else 0) + 4"
proof -
  have nl: "unat (of_nat (length name) :: byte) = length name" using assms(2) by (simp add: unat_of_nat)
  have len: "length f = length fork" by (simp add: f_def)
  have b: "byte_at f pos = of_nat (length name)"
    using assms unfolding f_def sfPutEntry_def byte_at_window by (simp add: Let_def buf_simps put8_def)
  show nx: "sfNext f ft False pos = pos + 3 + length name + (if ft then 1 else 0) + 4"
    by (simp add: sfNext_def b nl)
  have w: "window (pos + 3) (length name) f = name"
    using assms unfolding f_def sfPutEntry_def by (simp add: Let_def buf_simps)
  have t: "ft \<Longrightarrow> byte_at f (pos + 3 + length name) = ftype"
    using assms unfolding f_def sfPutEntry_def byte_at_window by (simp add: Let_def buf_simps put8_def)
  have i: "be32 f (pos + 3 + length name + (if ft then 1 else 0)) = ino"
    using assms unfolding f_def sfPutEntry_def be32_def by (cases ft) (simp_all add: Let_def buf_simps put32_def)
  show "sfReadLoop f ft False (Suc 0) pos = [\<lparr>deInode = ucast ino, deName = name, deType = (if ft then ftype else 0)\<rparr>]"
    unfolding sfReadLoop_Suc nx using assms(1) len b nl w t i by (auto simp: ac_simps)
qed

lemma sf_add:
  assumes wf: "sf_wf fork ft" and e: "e = sfEnd fork ft False (unat (byte_at fork 0)) 6"
    and room: "e + 3 + length name + (if ft then 1 else 0) + 4 \<le> length fork" and nl: "length name < 256"
    and cnt: "unat (byte_at fork 0) < 255"
    and f_def: "f = put8 0 (of_nat (unat (byte_at fork 0) + 1)) (sfPutEntry fork e name dataOff ft ftype ino)"
  shows "sfReadDir f ft = sfReadDir fork ft @ [\<lparr>deInode = ucast ino, deName = name, deType = (if ft then ftype else 0)\<rparr>]"
    and "sf_wf f ft"
    and "sfEnd f ft False (unat (byte_at f 0)) 6 = e + 3 + length name + (if ft then 1 else 0) + 4"
proof -
  let ?n = "unat (byte_at fork 0)"
  note r = sf_wf_read [OF wf]
  have e6: "6 \<le> e" unfolding e by (rule sfEnd_ge)
  have len: "length f = length fork" by (simp add: f_def)
  have c: "unat (byte_at f 0) = ?n + 1"
  proof -
    have "byte_at f 0 = of_nat (?n + 1)"
      unfolding f_def by (rule byte_put_same) (use wf in \<open>auto simp: sf_wf_def\<close>)
    then show ?thesis using cnt by (simp add: unat_of_nat del: of_nat_add of_nat_Suc)
  qed
  have i8: "byte_at f 1 = 0"
    using wf e6 unfolding f_def byte_at_window sf_wf_def by (simp add: window_put_frame window_sfPutEntry)
  have "same_bytes fork 6 f 6 (e - 6)"
    using e6 room unfolding same_bytes_def f_def by (simp add: window_put_frame window_sfPutEntry)
  with r(2) have moved: "sfReadLoop f ft False ?n 6 = sfReadLoop fork ft False ?n 6" "sfEnd f ft False ?n 6 = e"
    using sfReadLoop_moved [of fork ft False ?n 6 f 6] e by simp_all
  have "sfReadLoop f ft False (?n + Suc 0) 6 = sfReadLoop fork ft False ?n 6 @ sfReadLoop f ft False (Suc 0) e"
    using sfReadLoop_add [of f ft False ?n 6 "Suc 0"] moved r(2) by simp
  moreover have "sfReadLoop f ft False (Suc 0) e = [\<lparr>deInode = ucast ino, deName = name, deType = (if ft then ftype else 0)\<rparr>]"
    by (rule sfPutEntry_read(1) [OF _ nl _ f_def]) (use room e6 in auto)
  ultimately show g: "sfReadDir f ft = sfReadDir fork ft @ [\<lparr>deInode = ucast ino, deName = name, deType = (if ft then ftype else 0)\<rparr>]"
    using wf len c i8 r(1) by (simp add: sfReadDir_def sfParentSize_def sf_wf_def del: sfReadLoop.simps)
  show "sf_wf f ft" using wf len c i8 g by (simp add: sf_wf_def)
  have "sfEnd f ft False (?n + 1) 6 = sfNext f ft False e"
    using sfEnd_add [of f ft False ?n "Suc 0" 6] moved(2) by simp
  also have "\<dots> = e + 3 + length name + (if ft then 1 else 0) + 4"
    by (rule sfPutEntry_read(2) [OF _ nl _ f_def]) (use room e6 in auto)
  finally show "sfEnd f ft False (unat (byte_at f 0)) 6 = e + 3 + length name + (if ft then 1 else 0) + 4"
    using c by simp
qed

lemma dataFork_setInodeSize:
  "176 \<le> length (iRaw inode) \<Longrightarrow> dataFork (setInodeSize inode v) = dataFork inode"
proof -
  assume "176 \<le> length (iRaw inode)"
  have "drop 176 buf = window 176 (length buf - 176) buf" for buf :: bytes by (simp add: window_def)
  then show ?thesis by (simp add: dataFork_def setInodeSize_def window_put_frame)
qed

lemma dataFork_replaced:
  "176 \<le> length (iRaw inode) \<Longrightarrow> dataFork (setInodeSize (inode\<lparr>iRaw := take 176 (iRaw inode) @ f\<rparr>) v) = f"
  by (subst dataFork_setInodeSize) (simp_all add: dataFork_def)

lemma sf_append:
  assumes "sf_wf (dataFork inode) (hasFType sb)" and "176 \<le> length (iRaw inode)" and "length name < 256"
    and "unat (byte_at (dataFork inode) 0) < 255"
    and "addEntryToSFDir inode childIno name ftype sb = Inr inode'"
  shows "sfReadDir (dataFork inode') (hasFType sb) = sfReadDir (dataFork inode) (hasFType sb) @
      [\<lparr>deInode = childIno, deName = name, deType = (if hasFType sb then ftype else 0)\<rparr>] \<and>
    sf_wf (dataFork inode') (hasFType sb) \<and>
    unat (iSize inode') = sfEnd (dataFork inode') (hasFType sb) False (unat (byte_at (dataFork inode') 0)) 6"
proof -
  let ?fork = "dataFork inode" and ?ft = "hasFType sb"
  let ?n = "unat (byte_at ?fork 0)" and ?d0 = "dirDataHdrSize (hasCRC sb) + dir2DataEntSize 1 ?ft + dir2DataEntSize 2 ?ft"
  define e where "e = sfEnd ?fork ?ft False ?n 6"
  obtain d where size: "sfSizeLoop ?fork ?ft False ?n 6 ?d0 = Some (e, d)"
    using sfSizeLoop_end [OF sf_wf_read(2) [OF assms(1)]] e_def by blast
  define X where "X = e + (1 + 2 + length name + 4 + (if ?ft then 1 else 0))"
  define f where "f = put8 0 (of_nat (?n + 1)) (sfPutEntry ?fork e name (of_nat d) ?ft ftype (ucast childIno))"
  have i8: "byte_at ?fork 1 = 0" "6 \<le> length ?fork" using assms(1) by (simp_all add: sf_wf_def)
  have ino: "\<not> childIno > 0xFFFFFFFF" and room: "X \<le> length ?fork"
    and res: "inode' = setInodeSize (inode\<lparr>iRaw := take 176 (iRaw inode) @ f\<rparr>) (of_nat X)"
    using assms(5) i8 size unfolding addEntryToSFDir_def
    by (auto simp: Let_def sfParentSize_def X_def f_def split: if_splits)
  have fork': "dataFork inode' = f" unfolding res by (rule dataFork_replaced [OF assms(2)])
  have u: "(ucast (ucast childIno :: u32) :: u64) = childIno"
  proof -
    have "unat childIno < 2 ^ 32" using ino by (simp add: word_less_nat_alt)
    then show ?thesis by (simp add: word_unat_eq_iff unsigned_ucast_eq unat_take_bit)
  qed
  have R: "e + 3 + length name + (if ?ft then 1 else 0) + 4 \<le> length ?fork" using room by (simp add: X_def)
  note add = sf_add [OF assms(1) e_def R assms(3,4) f_def]
  have "X \<le> max (unat (iForkOff inode) * 8) (unat (inodeSize sb))"
    using assms(5) i8 size ino unfolding addEntryToSFDir_def
    by (auto simp: Let_def sfParentSize_def X_def split: if_splits)
  then have "X < 2 ^ 64" using unat_lt(1) [of "iForkOff inode"] unat_lt(2) [of "inodeSize sb"] by simp
  then have "unat (iSize inode') = X" unfolding res by (simp add: setInodeSize_def unat_of_nat_small del: of_nat_add)
  moreover have "X = e + 3 + length name + (if ?ft then 1 else 0) + 4" by (simp add: X_def)
  ultimately show ?thesis unfolding fork' using add u by simp
qed

text \<open>
  A successful \<^verbatim>\<open>addEntryToSFDir\<close> on a readable directory appends exactly the new entry
  to the listing: the old entries keep their order, names, types and inodes, the directory
  stays readable, and \<^verbatim>\<open>di_size\<close> becomes the new end of the entries.
\<close>

theorem addEntryToSFDir_appends:
  assumes "sf_wf (dataFork inode) (hasFType sb)" and "176 \<le> length (iRaw inode)" and "length name < 256"
    and "unat (byte_at (dataFork inode) 0) < 255"
    and "addEntryToSFDir inode childIno name ftype sb = Inr inode'"
  shows "sfReadDir (dataFork inode') (hasFType sb) = sfReadDir (dataFork inode) (hasFType sb) @
      [\<lparr>deInode = childIno, deName = name, deType = (if hasFType sb then ftype else 0)\<rparr>] \<and>
    sf_wf (dataFork inode') (hasFType sb) \<and>
    unat (iSize inode') = sfEnd (dataFork inode') (hasFType sb) False (unat (byte_at (dataFork inode') 0)) 6"
  using sf_append [OF assms] .

text \<open>An empty directory whose parent is inode 128.\<close>

definition dir_example :: inode where
  "dir_example = inode_example\<lparr>iMode := 0x41ED, iSize := 6,
     iRaw := replicate 176 0 @ [0, 0, 0, 0, 0, 128] @ replicate 330 0\<rparr>"

lemma dir_example_fork: "dataFork dir_example = [0, 0, 0, 0, 0, 128] @ replicate 330 0"
  by (simp add: dir_example_def dataFork_def)

lemma dir_example_wf: "sf_wf (dataFork dir_example) True"
  by (simp add: dir_example_fork sf_wf_def sfReadDir_def byte_at_def)

lemma dir_example_add:
  "\<exists>inode'. addEntryToSFDir dir_example 131 [97, 98] 1 sb_example = Inr inode'"
  unfolding addEntryToSFDir_def
  by (simp add: Let_def dir_example_fork byte_at_def) (simp add: dir_example_def inode_example_def Let_def sfParentSize_def)

theorem addEntryToSFDir_appends_witness:
  "\<exists>inode'. addEntryToSFDir dir_example 131 [97, 98] 1 sb_example = Inr inode' \<and>
    sfReadDir (dataFork inode') True = [\<lparr>deInode = 131, deName = [97, 98], deType = 1\<rparr>]"
proof -
  obtain inode' where a: "addEntryToSFDir dir_example 131 [97, 98] 1 sb_example = Inr inode'"
    using dir_example_add by blast
  have "sfReadDir (dataFork dir_example) True = []"
    by (simp add: dir_example_fork sfReadDir_def byte_at_def)
  moreover have "176 \<le> length (iRaw dir_example)" by (simp add: dir_example_def)
  moreover have "byte_at (dataFork dir_example) 0 = 0" by (simp add: dir_example_fork byte_at_def)
  ultimately show ?thesis
    using addEntryToSFDir_appends [of dir_example sb_example "[97, 98]" 131 1 inode'] a dir_example_wf by simp
qed

section \<open>Removing an entry\<close>

lemma sfReadLoop_prefix:
  assumes "length (sfReadLoop fork ft i8 (k + m) off) = k + m"
  shows "length (sfReadLoop fork ft i8 k off) = k" and "length (sfReadLoop fork ft i8 m (sfEnd fork ft i8 k off)) = m"
  using assms
  by (induction k arbitrary: off) (auto simp: sfReadLoop_Suc simp del: sfReadLoop.simps(2) split: if_splits)

lemma sfRemoveLoop_spec:
  assumes "length (sfReadLoop fork ft i8 n off) = n"
  shows "case sfRemoveLoop fork name ft i8 n off of
      Inr (s, e) \<Rightarrow> \<exists>k<n. s = sfEnd fork ft i8 k off \<and> e = sfEnd fork ft i8 (Suc k) off \<and>
        deName (sfReadLoop fork ft i8 n off ! k) = name \<and> (\<forall>x\<in>set (take k (sfReadLoop fork ft i8 n off)). deName x \<noteq> name)
    | Inl err \<Rightarrow> err = ErrNotFound \<and> (\<forall>x\<in>set (sfReadLoop fork ft i8 n off). deName x \<noteq> name)"
  using assms
proof (induction n arbitrary: off)
  case 0
  then show ?case by simp
next
  case (Suc n)
  let ?x = "sfNext fork ft i8 off"
  have fit: "?x \<le> length fork" "length (sfReadLoop fork ft i8 n ?x) = n"
    using Suc.prems by (auto simp: sfReadLoop_Suc simp del: sfReadLoop.simps(2) split: if_splits)
  have guard: "\<not> length fork \<le> off + 3" "\<not> length fork < off + 3 + unat (byte_at fork off)"
    using fit(1) by (cases ft; cases i8; simp add: sfNext_def)+
  let ?nm = "window (off + 3) (unat (byte_at fork off)) fork"
  have step: "sfRemoveLoop fork name ft i8 (Suc n) off =
      (if ?nm = name then Inr (off, ?x) else sfRemoveLoop fork name ft i8 n ?x)"
    using guard fit(1) by (auto simp: Let_def sfNext_def)
  show ?case
  proof (cases "?nm = name")
    case True
    then show ?thesis
      unfolding step using fit(1) by (auto simp: sfReadLoop_Suc simp del: sfReadLoop.simps(2) intro!: exI [of _ 0])
  next
    case False
    from Suc.IH [OF fit(2)] show ?thesis
    proof (cases "sfRemoveLoop fork name ft i8 n ?x")
      case (Inl err)
      with Suc.IH [OF fit(2)] False show ?thesis
        unfolding step using fit(1) by (simp add: sfReadLoop_Suc del: sfReadLoop.simps(2))
    next
      case (Inr r)
      obtain s e where [simp]: "r = (s, e)" by fastforce
      from Suc.IH [OF fit(2)] Inr obtain k where "k < n" "s = sfEnd fork ft i8 k ?x" "e = sfEnd fork ft i8 (Suc k) ?x"
        "deName (sfReadLoop fork ft i8 n ?x ! k) = name" "\<forall>x\<in>set (take k (sfReadLoop fork ft i8 n ?x)). deName x \<noteq> name"
        by auto
      with False show ?thesis
        unfolding step using fit(1) Inr by (auto simp: sfReadLoop_Suc simp del: sfReadLoop.simps(2) intro!: exI [of _ "Suc k"])
    qed
  qed
qed

lemma sf_remove:
  assumes wf: "sf_wf fork ft" and k: "k < unat (byte_at fork 0)"
    and s: "s = sfEnd fork ft False k 6" and e: "e = sfEnd fork ft False (Suc k) 6"
    and f_def: "f = put8 0 (of_nat (unat (byte_at fork 0) - 1)) (zero_range (length fork - (e - s)) (e - s) (patch s (drop e fork) fork))"
  shows "sfReadDir f ft = take k (sfReadDir fork ft) @ drop (Suc k) (sfReadDir fork ft)" and "sf_wf f ft"
proof -
  let ?n = "unat (byte_at fork 0)" and ?m = "unat (byte_at fork 0) - Suc k"
  note r = sf_wf_read [OF wf]
  have nk: "?n = k + (Suc 0 + ?m)" "?n = Suc k + ?m" using k by simp_all
  have s6: "6 \<le> s" unfolding s by (rule sfEnd_ge)
  have se: "e = sfNext fork ft False s" unfolding e s using sfEnd_add [of fork ft False k "Suc 0" 6] by simp
  then have es: "s + 7 \<le> e" using sfNext_gt by simp
  have E: "sfEnd fork ft False ?m e = sfEnd fork ft False ?n 6" unfolding e using sfEnd_add [of fork ft False "Suc k" ?m 6] nk(2) by simp
  have eE: "e \<le> sfEnd fork ft False ?n 6" unfolding E [symmetric] by (rule sfEnd_ge)
  have len: "length f = length fork" by (simp add: f_def)
  have c: "unat (byte_at f 0) = ?n - 1"
  proof -
    have "byte_at f 0 = of_nat (?n - 1)"
      unfolding f_def by (rule byte_put_same) (use wf in \<open>auto simp: sf_wf_def\<close>)
    then show ?thesis using unat_lt(1) [of "byte_at fork 0"] by (simp add: unat_of_nat)
  qed
  let ?g = "patch s (drop e fork) fork"
  have frame: "window o' m f = window o' m ?g" if "0 < o'" "o' + m \<le> length fork - (e - s)" for o' m
    using that unfolding f_def zero_range_def by (simp add: window_put_frame)
  have i8: "byte_at f 1 = 0"
    using frame [of 1 1] wf s6 es r(3) eE by (simp add: byte_at_window sf_wf_def window_patch_before)
  have first: "same_bytes fork 6 f 6 (s - 6)"
    using frame [of 6 "s - 6"] s6 es eE r(3) len by (simp add: same_bytes_def window_patch_before)
  have tail: "same_bytes fork e f s (length fork - e)"
  proof -
    have le: "e \<le> length fork" using eE r(3) by simp
    have "window s (length fork - e) ?g = drop e fork"
      by (rule window_patch_same) (use es le in simp_all)
    moreover have "window e (length fork - e) fork = drop e fork" by (simp add: window_def)
    ultimately show ?thesis using frame [of s "length fork - e"] s6 es le len by (simp add: same_bytes_def)
  qed
  have lens: "length (sfReadLoop fork ft False k 6) = k" "length (sfReadLoop fork ft False ?m e) = ?m"
    using sfReadLoop_prefix [of fork ft False k "Suc 0 + ?m" 6] sfReadLoop_prefix [of fork ft False "Suc k" ?m 6] r(2) nk e by simp_all
  have mv1: "sfReadLoop f ft False k 6 = sfReadLoop fork ft False k 6" "sfEnd f ft False k 6 = s"
    using sfReadLoop_moved [OF lens(1), of f 6] first s by simp_all
  have mv2: "sfReadLoop f ft False ?m s = sfReadLoop fork ft False ?m e"
    using sfReadLoop_moved [OF lens(2), of f s] same_bytes_sub [OF tail, of 0 "sfEnd fork ft False ?m e - e"] E r(3) by simp
  have all: "sfReadLoop fork ft False ?n 6 = sfReadLoop fork ft False k 6 @ sfReadLoop fork ft False (Suc 0 + ?m) s"
    using sfReadLoop_add [OF lens(1), of "Suc 0 + ?m"] nk(1) s by simp
  have "length (sfReadLoop fork ft False (Suc 0) s) = Suc 0" "sfEnd fork ft False (Suc 0) s = e"
    using sfReadLoop_prefix [of fork ft False "k" "Suc 0 + ?m" 6] sfReadLoop_prefix(1) [of fork ft False "Suc 0" ?m s] r(2) nk s se by simp_all
  then have mid: "sfReadLoop fork ft False (Suc 0 + ?m) s = sfReadLoop fork ft False (Suc 0) s @ sfReadLoop fork ft False ?m e"
    using sfReadLoop_add [of fork ft False "Suc 0" s ?m] by simp
  have "sfReadLoop f ft False (k + ?m) 6 = sfReadLoop fork ft False k 6 @ sfReadLoop fork ft False ?m e"
    using sfReadLoop_add [of f ft False k 6 ?m] mv1 mv2 lens(1) by simp
  moreover have "?n - 1 = k + ?m" using k by simp
  ultimately show g: "sfReadDir f ft = take k (sfReadDir fork ft) @ drop (Suc k) (sfReadDir fork ft)"
    using wf len c i8 r(1) all mid lens(1) \<open>length (sfReadLoop fork ft False (Suc 0) s) = Suc 0\<close>
    by (simp add: sfReadDir_def sfParentSize_def sf_wf_def del: sfReadLoop.simps)
  show "sf_wf f ft" using wf len c i8 g k r by (simp add: sf_wf_def)
qed

lemma sf_removed:
  assumes "sf_wf (dataFork inode) (hasFType sb)" and "176 \<le> length (iRaw inode)"
  shows "case removeSFEntry inode name sb of
      Inl err \<Rightarrow> err = ErrNotFound \<and> (\<forall>x\<in>set (sfReadDir (dataFork inode) (hasFType sb)). deName x \<noteq> name)
    | Inr inode' \<Rightarrow> \<exists>xs x ys. sfReadDir (dataFork inode) (hasFType sb) = xs @ x # ys \<and> deName x = name \<and>
        (\<forall>y\<in>set xs. deName y \<noteq> name) \<and> sfReadDir (dataFork inode') (hasFType sb) = xs @ ys \<and>
        sf_wf (dataFork inode') (hasFType sb)"
proof -
  let ?fork = "dataFork inode" and ?ft = "hasFType sb" and ?n = "unat (byte_at (dataFork inode) 0)"
  note r = sf_wf_read [OF assms(1)]
  have i8: "byte_at ?fork 1 = 0" "\<not> length ?fork < 2" using assms(1) by (auto simp: sf_wf_def)
  have spec: "case sfRemoveLoop ?fork name ?ft False ?n 6 of
      Inr (s, e) \<Rightarrow> \<exists>k<?n. s = sfEnd ?fork ?ft False k 6 \<and> e = sfEnd ?fork ?ft False (Suc k) 6 \<and>
        deName (sfReadDir ?fork ?ft ! k) = name \<and> (\<forall>x\<in>set (take k (sfReadDir ?fork ?ft)). deName x \<noteq> name)
    | Inl err \<Rightarrow> err = ErrNotFound \<and> (\<forall>x\<in>set (sfReadDir ?fork ?ft). deName x \<noteq> name)"
    unfolding r(1) by (rule sfRemoveLoop_spec [OF r(2)])
  show ?thesis
  proof (cases "sfRemoveLoop ?fork name ?ft False ?n 6")
    case (Inl err)
    with spec i8 show ?thesis by (simp add: removeSFEntry_def Let_def sfParentSize_def)
  next
    case (Inr p)
    obtain s e where p: "p = (s, e)" by fastforce
    with spec Inr obtain k where k: "k < ?n" "s = sfEnd ?fork ?ft False k 6" "e = sfEnd ?fork ?ft False (Suc k) 6"
      "deName (sfReadDir ?fork ?ft ! k) = name" "\<forall>x\<in>set (take k (sfReadDir ?fork ?ft)). deName x \<noteq> name"
      by auto
    define f where "f = put8 0 (of_nat (?n - 1)) (zero_range (length ?fork - (e - s)) (e - s) (patch s (drop e ?fork) ?fork))"
    have res: "removeSFEntry inode name sb =
        Inr (setInodeSize (inode\<lparr>iRaw := take 176 (iRaw inode) @ f\<rparr>) (iSize inode - of_nat (e - s)))"
      using i8 Inr p by (simp add: removeSFEntry_def Let_def sfParentSize_def f_def)
    note rem = sf_remove [OF assms(1) k(1,2,3) f_def]
    have "k < length (sfReadDir ?fork ?ft)" using k(1) r by simp
    then have "sfReadDir ?fork ?ft = take k (sfReadDir ?fork ?ft) @ sfReadDir ?fork ?ft ! k # drop (Suc k) (sfReadDir ?fork ?ft)"
      by (rule id_take_nth_drop)
    then show ?thesis
      unfolding res using k(4,5) rem dataFork_replaced [OF assms(2)] by auto
  qed
qed

text \<open>
  \<^verbatim>\<open>removeSFEntry\<close> on a readable directory removes exactly the first entry with the given
  name and keeps every other entry in order; a name that is not listed gives \<^verbatim>\<open>ErrNotFound\<close>.
  It never panics there.
\<close>

theorem removeSFEntry_removes_first:
  assumes "sf_wf (dataFork inode) (hasFType sb)" and "176 \<le> length (iRaw inode)"
  shows "case removeSFEntry inode name sb of
      Inl err \<Rightarrow> err = ErrNotFound \<and> (\<forall>x\<in>set (sfReadDir (dataFork inode) (hasFType sb)). deName x \<noteq> name)
    | Inr inode' \<Rightarrow> \<exists>xs x ys. sfReadDir (dataFork inode) (hasFType sb) = xs @ x # ys \<and> deName x = name \<and>
        (\<forall>y\<in>set xs. deName y \<noteq> name) \<and> sfReadDir (dataFork inode') (hasFType sb) = xs @ ys \<and>
        sf_wf (dataFork inode') (hasFType sb)"
  by (rule sf_removed [OF assms])

theorem removeSFEntry_removes_first_witness:
  "removeSFEntry dir_example [97, 98] sb_example = Inl ErrNotFound"
proof -
  have "sfReadDir (dataFork dir_example) True = []"
    by (simp add: dir_example_fork sfReadDir_def byte_at_def)
  moreover have "176 \<le> length (iRaw dir_example)" by (simp add: dir_example_def)
  ultimately show ?thesis
    using removeSFEntry_removes_first [of dir_example sb_example "[97, 98]"] dir_example_wf by (auto split: sum.splits)
qed

end
