(* ===== verification/BlockDir.thy ===== *)
theory BlockDir
  imports SfDir
begin

text \<open>
  Directory data blocks (dir.go: the scanning loops, \<^verbatim>\<open>writeDirEntry\<close>, \<^verbatim>\<open>markSlotFree\<close>,
  \<^verbatim>\<open>findFreeSlot\<close>, \<^verbatim>\<open>xfsDirHash\<close>; delete.go: \<^verbatim>\<open>findEntryInBlock\<close>; write.go:
  \<^verbatim>\<open>buildBlockDirBlock\<close>, \<^verbatim>\<open>blockDirParent\<close>; leafdir.go: the packing of entries into several
  blocks and the hash index). A block holds a header, entries aligned to eight bytes, one free
  region, and, in block form, an array of (hash, address) pairs and a tail.
\<close>

record dirEnt =
  entName :: bytes
  entIno :: u64
  entType :: byte

record leafEnt =
  leHash :: u32
  leAddr :: u32

definition magicDir3Block :: u32 where "magicDir3Block = 0x58444233"
definition magicDir3Data :: u32 where "magicDir3Data = 0x58444433"
definition magicDir2Block :: u32 where "magicDir2Block = 0x58443242"
definition magicDir2Data :: u32 where "magicDir2Data = 0x58443244"
definition magicDir3Leaf1 :: u16 where "magicDir3Leaf1 = 0x3df1"
definition magicDir3Free :: u32 where "magicDir3Free = 0x58444633"
definition dirFreeTag :: u16 where "dirFreeTag = 0xFFFF"

section \<open>Names and sizes\<close>

definition rotl32 :: "u32 \<Rightarrow> nat \<Rightarrow> u32" where
  "rotl32 w k = push_bit k w OR drop_bit (32 - k) w"

fun xfsDirHashLoop :: "u32 \<Rightarrow> bytes \<Rightarrow> u32" where
  "xfsDirHashLoop h (a # b # c # d # rest) =
     xfsDirHashLoop (push_bit 21 (ucast a) XOR push_bit 14 (ucast b) XOR push_bit 7 (ucast c) XOR ucast d XOR rotl32 h 28) rest"
| "xfsDirHashLoop h [a, b, c] = push_bit 14 (ucast a) XOR push_bit 7 (ucast b) XOR ucast c XOR rotl32 h 21"
| "xfsDirHashLoop h [a, b] = push_bit 7 (ucast a) XOR ucast b XOR rotl32 h 14"
| "xfsDirHashLoop h [a] = ucast a XOR rotl32 h 7"
| "xfsDirHashLoop h [] = h"

definition xfsDirHash :: "bytes \<Rightarrow> u32" where
  "xfsDirHash name = xfsDirHashLoop 0 name"

definition dirEntrySize :: "nat \<Rightarrow> bool \<Rightarrow> nat" where
  "dirEntrySize namelen ft = (let base = 8 + 1 + namelen + 2 + (if ft then 1 else 0) in (base + 7) div 8 * 8)"

lemma dirEntrySize_bounds:
  "9 + namelen + (if ft then 1 else 0) + 2 \<le> dirEntrySize namelen ft" "16 \<le> dirEntrySize namelen ft"
  "8 dvd dirEntrySize namelen ft" "dirEntrySize namelen ft \<le> 9 + namelen + (if ft then 1 else 0) + 9"
  by (auto simp: dirEntrySize_def Let_def)

section \<open>Scanning a block\<close>

text \<open>Each of the loops advances by at least eight bytes per round.\<close>

function searchLoop :: "bytes \<Rightarrow> bytes \<Rightarrow> bool \<Rightarrow> nat \<Rightarrow> u64 option" where
  "searchLoop blk name ft off =
     (if \<not> off + 8 < length blk then None
      else if be16 blk off = dirFreeTag
        then let len = unat (be16 blk (off + 2)) in
             if len < 8 then None else searchLoop blk name ft (off + len)
      else if length blk < off + 10 then None
      else let ino = be64 blk off in
        if ino = 0 then searchLoop blk name ft (off + 8)
        else let namelen = unat (byte_at blk (off + 8)); nameEnd = off + 9 + namelen in
          if length blk < nameEnd then None
          else if window (off + 9) namelen blk = name then Some ino
          else searchLoop blk name ft (off + dirEntrySize namelen ft))"
  by pat_completeness auto
termination
  by (relation "measure (\<lambda>(blk, name, ft, off). length blk - off)") (auto simp: dirEntrySize_def Let_def)

declare searchLoop.simps [simp del]

definition searchDirBlock :: "bytes \<Rightarrow> bytes \<Rightarrow> bool \<Rightarrow> bool \<Rightarrow> u64 option" where
  "searchDirBlock blk name ft crc =
     (if length blk \<le> dirDataHdrSize crc then None else searchLoop blk name ft (dirDataHdrSize crc))"

function parseLoop :: "bytes \<Rightarrow> bool \<Rightarrow> nat \<Rightarrow> DirEntry list" where
  "parseLoop blk ft off =
     (if length blk < off + 10 then []
      else if be16 blk off = dirFreeTag
        then let len = unat (be16 blk (off + 2)) in
             if len < 8 then [] else parseLoop blk ft (off + len)
      else let ino = be64 blk off in
        if ino = 0 then parseLoop blk ft (off + 8)
        else let namelen = unat (byte_at blk (off + 8)); nameEnd = off + 9 + namelen in
          if namelen = 0 then []
          else if length blk < nameEnd then []
          else if ft \<and> length blk \<le> nameEnd then []
          else let nm = window (off + 9) namelen blk;
                   t = (if ft then byte_at blk nameEnd else 0);
                   rest = parseLoop blk ft (off + dirEntrySize namelen ft)
               in if nm = [46] \<or> nm = [46, 46] then rest else \<lparr>deInode = ino, deName = nm, deType = t\<rparr> # rest)"
  by pat_completeness auto
termination
  by (relation "measure (\<lambda>(blk, ft, off). length blk - off)") (auto simp: dirEntrySize_def Let_def)

declare parseLoop.simps [simp del]

definition parseDirBlock :: "bytes \<Rightarrow> bool \<Rightarrow> bool \<Rightarrow> DirEntry list" where
  "parseDirBlock blk ft crc =
     (if length blk \<le> dirDataHdrSize crc then [] else parseLoop blk ft (dirDataHdrSize crc))"

function findEntryLoop :: "bytes \<Rightarrow> bytes \<Rightarrow> bool \<Rightarrow> nat \<Rightarrow> (nat \<times> nat) option" where
  "findEntryLoop blk name ft off =
     (if length blk < off + 10 then None
      else if be16 blk off = dirFreeTag
        then let len = unat (be16 blk (off + 2)) in
             if len < 8 then None else findEntryLoop blk name ft (off + len)
      else let ino = be64 blk off in
        if ino = 0 then findEntryLoop blk name ft (off + 8)
        else let namelen = unat (byte_at blk (off + 8)); nameEnd = off + 9 + namelen in
          if namelen = 0 then None
          else if length blk < nameEnd then None
          else if window (off + 9) namelen blk = name then Some (off, dirEntrySize namelen ft)
          else findEntryLoop blk name ft (off + dirEntrySize namelen ft))"
  by pat_completeness auto
termination
  by (relation "measure (\<lambda>(blk, name, ft, off). length blk - off)") (auto simp: dirEntrySize_def Let_def)

declare findEntryLoop.simps [simp del]

definition findEntryInBlock :: "bytes \<Rightarrow> bytes \<Rightarrow> bool \<Rightarrow> bool \<Rightarrow> (nat \<times> nat) option" where
  "findEntryInBlock blk name ft crc = findEntryLoop blk name ft (dirDataHdrSize crc)"

text \<open>\<^verbatim>\<open>blockDirParent\<close>: the inode of the first entry named \<open>..\<close>, or 0.\<close>

function parentLoop :: "bytes \<Rightarrow> bool \<Rightarrow> nat \<Rightarrow> u64" where
  "parentLoop blk ft off =
     (if length blk < off + 10 then 0
      else if be16 blk off = dirFreeTag
        then let len = unat (be16 blk (off + 2)) in
             if len < 8 then 0 else parentLoop blk ft (off + len)
      else let ino = be64 blk off in
        if ino = 0 then parentLoop blk ft (off + 8)
        else let namelen = unat (byte_at blk (off + 8)) in
          if namelen = 0 then 0
          else if off + 9 + namelen \<le> length blk \<and> window (off + 9) namelen blk = [46, 46] then ino
          else parentLoop blk ft (off + dirEntrySize namelen ft))"
  by pat_completeness auto
termination
  by (relation "measure (\<lambda>(blk, ft, off). length blk - off)") (auto simp: dirEntrySize_def Let_def)

declare parentLoop.simps [simp del]

definition blockDirParent :: "bytes \<Rightarrow> bool \<Rightarrow> bool \<Rightarrow> u64" where
  "blockDirParent blk ft crc = parentLoop blk ft (dirDataHdrSize crc)"

text \<open>
  \<^verbatim>\<open>findFreeSlot\<close> only checks that four bytes are left before it reads eight: at the end of a
  block whose entries are not aligned the read is out of range.
\<close>

function freeSlotLoop :: "bytes \<Rightarrow> nat \<Rightarrow> bool \<Rightarrow> nat \<Rightarrow> nat option res" where
  "freeSlotLoop blk need ft off =
     (if length blk < off + 4 then Inr None
      else if be16 blk off = dirFreeTag
        then let len = unat (be16 blk (off + 2)) in
             if len < 8 then Inr None
             else if len \<ge> need then Inr (Some off)
             else freeSlotLoop blk need ft (off + len)
      else if length blk < off + 8 then Inl Panic
      else if be64 blk off = 0 then freeSlotLoop blk need ft (off + 8)
      else if length blk < off + 9 then Inr None
      else let namelen = unat (byte_at blk (off + 8)) in
        if namelen = 0 then Inr None
        else freeSlotLoop blk need ft (off + dirEntrySize namelen ft))"
  by pat_completeness auto
termination
  by (relation "measure (\<lambda>(blk, need, ft, off). length blk - off)") (auto simp: dirEntrySize_def Let_def)

declare freeSlotLoop.simps [simp del]

definition findFreeSlot :: "bytes \<Rightarrow> nat \<Rightarrow> bool \<Rightarrow> bool \<Rightarrow> nat option res" where
  "findFreeSlot blk need ft crc = freeSlotLoop blk need ft (dirDataHdrSize crc)"

section \<open>Writing entries\<close>

text \<open>The caller ensures that the slot is large enough; the size is \<open>dirEntrySize\<close> of the name.\<close>

definition writeDirEntry :: "bytes \<Rightarrow> nat \<Rightarrow> u64 \<Rightarrow> bytes \<Rightarrow> byte \<Rightarrow> bool \<Rightarrow> bytes" where
  "writeDirEntry blk offset ino name ftype ft =
     (let namelen = length name;
          b = put64 offset ino blk;
          b = put8 (offset + 8) (of_nat namelen) b;
          b = patch (offset + 9) name b;
          b = (if ft then put8 (offset + 9 + namelen) ftype b else b);
          sz = dirEntrySize namelen ft
      in put16 (offset + sz - 2) (of_nat offset) b)"

definition markSlotFree :: "bytes \<Rightarrow> nat \<Rightarrow> nat \<Rightarrow> bytes" where
  "markSlotFree blk offset len =
     (let b = zero_range offset len blk;
          b = put16 offset dirFreeTag b;
          b = put16 (offset + 2) (of_nat len) b
      in put16 (offset + len - 2) (of_nat offset) b)"

text \<open>The entry loop of \<^verbatim>\<open>buildBlockDirBlock\<close>: the block, the end of the data, the index.\<close>

fun placeEntries :: "bytes \<Rightarrow> nat \<Rightarrow> nat \<Rightarrow> bool \<Rightarrow> dirEnt list \<Rightarrow> (bytes \<times> nat \<times> leafEnt list) res" where
  "placeEntries blk off leafStart ft [] = Inr (blk, off, [])"
| "placeEntries blk off leafStart ft (e # es) =
     (let sz = dirEntrySize (length (entName e)) ft in
      if leafStart < off + sz then Inl ErrDirOverflow
      else let b = writeDirEntry blk off (entIno e) (entName e) (entType e) ft in
        bindR (placeEntries b (off + sz) leafStart ft es) (\<lambda>(b', end', ls).
          Inr (b', end', \<lparr>leHash = xfsDirHash (entName e), leAddr = drop_bit 3 (of_nat off)\<rparr> # ls)))"

text \<open>The order by hash, ties by address, as one number.\<close>

definition leafKey :: "leafEnt \<Rightarrow> int" where
  "leafKey l = uint (leHash l) * 2 ^ 32 + uint (leAddr l)"

fun putLeaves :: "nat \<Rightarrow> leafEnt list \<Rightarrow> bytes \<Rightarrow> bytes" where
  "putLeaves p [] blk = blk"
| "putLeaves p (l # ls) blk = putLeaves (p + 8) ls (put32 (p + 4) (leAddr l) (put32 p (leHash l) blk))"

definition dirBlockHeader :: "superblock \<Rightarrow> nat \<Rightarrow> u32 \<Rightarrow> u32 \<Rightarrow> u64 \<Rightarrow> u64 \<Rightarrow> bytes" where
  "dirBlockHeader sb blkSize magic3 magic2 absBlock ownerIno =
     (let b = replicate blkSize 0 in
      if hasCRC sb
      then put64 40 ownerIno (patch 24 (take 16 (sbUuid sb))
             (put64 8 (fsbToPhysBlock sb absBlock * fmtDaddrPerBlock) (put32 0 magic3 b)))
      else put32 0 magic2 b)"

definition dotEntries :: "u64 \<Rightarrow> u64 \<Rightarrow> dirEnt list" where
  "dotEntries ownerIno parentIno =
     [\<lparr>entName = [46], entIno = ownerIno, entType = 2\<rparr>, \<lparr>entName = [46, 46], entIno = parentIno, entType = 2\<rparr>]"

definition buildBlockDirBlock :: "superblock \<Rightarrow> nat \<Rightarrow> u64 \<Rightarrow> u64 \<Rightarrow> u64 \<Rightarrow> dirEnt list \<Rightarrow> bytes res" where
  "buildBlockDirBlock sb blkSize absBlock ownerIno parentIno entries =
     (let b0 = dirBlockHeader sb blkSize magicDir3Block magicDir2Block absBlock ownerIno;
          all = dotEntries ownerIno parentIno @ entries;
          n = length all;
          tailOff = blkSize - 8;
          leafStart = tailOff - n * 8
      in bindR (placeEntries b0 (dirDataHdrSize (hasCRC sb)) leafStart (hasFType sb) all) (\<lambda>(b, endData, leaves).
         let freeLen = leafStart - endData;
             bfOff = (if hasCRC sb then 48 else 4);
             b = (if leafStart > endData
                  then put16 (bfOff + 2) (of_nat freeLen) (put16 bfOff (of_nat endData)
                         (put16 (endData + freeLen - 2) (of_nat endData)
                            (put16 (endData + 2) (of_nat freeLen) (put16 endData 0xFFFF b))))
                  else b);
             b = putLeaves leafStart (sort_key leafKey leaves) b;
             b = put32 tailOff (of_nat n) b;
             b = put32 (tailOff + 4) 0 b
         in Inr (if hasCRC sb then updateCRC b 4 blkSize else b)))"

section \<open>Packing entries into several blocks\<close>

record placedEnt =
  plEnt :: dirEnt
  plBlk :: nat
  plOff :: nat

fun packLoop :: "nat \<Rightarrow> nat \<Rightarrow> bool \<Rightarrow> nat \<Rightarrow> nat \<Rightarrow> dirEnt list \<Rightarrow> placedEnt list \<times> nat list \<times> nat" where
  "packLoop blkSize hdr ft curBlk off [] = ([], [off], curBlk + 1)"
| "packLoop blkSize hdr ft curBlk off (e # es) =
     (let sz = dirEntrySize (length (entName e)) ft in
      if blkSize < off + sz
      then let (ps, ends, d) = packLoop blkSize hdr ft (curBlk + 1) (hdr + sz) es
           in (\<lparr>plEnt = e, plBlk = curBlk + 1, plOff = hdr\<rparr> # ps, off # ends, d)
      else let (ps, ends, d) = packLoop blkSize hdr ft curBlk (off + sz) es
           in (\<lparr>plEnt = e, plBlk = curBlk, plOff = off\<rparr> # ps, ends, d))"

definition packDirEntries :: "superblock \<Rightarrow> inode \<Rightarrow> u64 \<Rightarrow> dirEnt list \<Rightarrow> placedEnt list \<times> nat list \<times> nat" where
  "packDirEntries sb inode parentIno entries =
     (let hdr = dirDataHdrSize (hasCRC sb)
      in packLoop (unat (blockSize sb)) hdr (hasFType sb) 0 hdr (dotEntries (iNum inode) parentIno @ entries))"

definition trailingZeros :: "'a::len word \<Rightarrow> nat" where
  "trailingZeros w = length (takeWhile (\<lambda>i. \<not> bit w i) [0..<LENGTH('a)])"

definition leafEntries :: "superblock \<Rightarrow> placedEnt list \<Rightarrow> leafEnt list" where
  "leafEntries sb placed =
     (let shift = trailingZeros (blockSize sb) - 3
      in sort_key leafKey (map (\<lambda>p. \<lparr>leHash = xfsDirHash (entName (plEnt p)),
           leAddr = ucast (push_bit shift (of_nat (plBlk p)) OR drop_bit 3 (of_nat (plOff p)) :: u64)\<rparr>) placed))"

text \<open>One data block of \<^verbatim>\<open>writeDataRegion\<close>: header, free region, the entries placed in it, checksum.\<close>

definition dataBlock :: "superblock \<Rightarrow> inode \<Rightarrow> u64 \<Rightarrow> nat \<Rightarrow> dirEnt list \<Rightarrow> nat list \<Rightarrow> nat \<Rightarrow> bytes" where
  "dataBlock sb inode absB blockEnd ents offs blkSize =
     (let b = dirBlockHeader sb blkSize magicDir3Data magicDir2Data absB (iNum inode);
          free = blkSize - blockEnd;
          b = (if free > 0
               then put16 50 (of_nat free) (put16 48 (of_nat blockEnd) (put16 (blockEnd + free - 2) (of_nat blockEnd)
                      (put16 (blockEnd + 2) (of_nat free) (put16 blockEnd 0xFFFF b))))
               else b);
          b = fold (\<lambda>(e, off) b. writeDirEntry b off (entIno e) (entName e) (entType e) (hasFType sb)) (zip ents offs) b
      in if hasCRC sb then updateCRC b 4 blkSize else b)"

definition dataRegion :: "superblock \<Rightarrow> inode \<Rightarrow> u64 \<Rightarrow> nat \<Rightarrow> placedEnt list \<Rightarrow> nat list \<Rightarrow> bytes" where
  "dataRegion sb inode dataStart D placed blockEnd =
     concat (map (\<lambda>b. let ps = filter (\<lambda>p. plBlk p = b) placed
                      in dataBlock sb inode (dataStart + of_nat b) (blockEnd ! b) (map plEnt ps) (map plOff ps) (unat (blockSize sb)))
               [0..<D])"

text \<open>The index block of leaf form.\<close>

definition leaf1Block :: "superblock \<Rightarrow> inode \<Rightarrow> u64 \<Rightarrow> nat \<Rightarrow> nat list \<Rightarrow> leafEnt list \<Rightarrow> bytes" where
  "leaf1Block sb inode leafBlock D blockEnd lents =
     (let blkSize = unat (blockSize sb);
          b = put16 8 magicDir3Leaf1 (replicate blkSize 0);
          b = put64 16 (fsbToPhysBlock sb leafBlock * fmtDaddrPerBlock) b;
          b = patch 32 (take 16 (sbUuid sb)) b;
          b = put64 48 (iNum inode) b;
          b = put16 56 (of_nat (length lents)) b;
          b = putLeaves 64 lents b;
          b = put32 (blkSize - 4) (of_nat D) b;
          bestsOff = blkSize - 4 - D * 2;
          b = fold (\<lambda>i b. put16 (bestsOff + i * 2) (of_nat (blkSize - blockEnd ! i)) b) [0..<D] b
      in if hasCRC sb then updateCRC b 12 blkSize else b)"

text \<open>One free-index block of node form, covering data blocks \<open>first, first + 1, ...\<close>.\<close>

definition freeIndexBlock :: "superblock \<Rightarrow> inode \<Rightarrow> u64 \<Rightarrow> nat \<Rightarrow> nat \<Rightarrow> nat list \<Rightarrow> bytes" where
  "freeIndexBlock sb inode absB first n blockEnd =
     (let blkSize = unat (blockSize sb);
          b = put32 0 magicDir3Free (replicate blkSize 0);
          b = put64 8 (fsbToPhysBlock sb absB * fmtDaddrPerBlock) b;
          b = patch 24 (take 16 (sbUuid sb)) b;
          b = put64 40 (iNum inode) b;
          b = put32 48 (of_nat first) b;
          b = put32 52 (of_nat n) b;
          b = put32 56 (of_nat n) b;
          b = fold (\<lambda>i b. put16 (64 + i * 2) (of_nat (blkSize - blockEnd ! (first + i))) b) [0..<n] b
      in if hasCRC sb then updateCRC b 4 blkSize else b)"

definition freeIndexRegion :: "superblock \<Rightarrow> inode \<Rightarrow> u64 \<Rightarrow> nat \<Rightarrow> nat \<Rightarrow> nat \<Rightarrow> nat list \<Rightarrow> bytes" where
  "freeIndexRegion sb inode freeStart D F bestsPerFree blockEnd =
     concat (map (\<lambda>fi. let first = fi * bestsPerFree;
                           n = (if first + bestsPerFree > D then D - first else bestsPerFree)
                       in freeIndexBlock sb inode (freeStart + of_nat fi) first n blockEnd) [0..<F])"

section \<open>Entries in a block\<close>

definition entry_at :: "bytes \<Rightarrow> bool \<Rightarrow> nat \<Rightarrow> dirEnt \<Rightarrow> bool" where
  "entry_at blk ft off e \<longleftrightarrow> be64 blk off = entIno e \<and> byte_at blk (off + 8) = of_nat (length (entName e)) \<and>
     window (off + 9) (length (entName e)) blk = entName e \<and>
     (ft \<longrightarrow> byte_at blk (off + 9 + length (entName e)) = entType e)"

definition entSize :: "bool \<Rightarrow> dirEnt \<Rightarrow> nat" where
  "entSize ft e = dirEntrySize (length (entName e)) ft"

fun entries_at :: "bytes \<Rightarrow> bool \<Rightarrow> nat \<Rightarrow> dirEnt list \<Rightarrow> bool" where
  "entries_at blk ft off [] = True"
| "entries_at blk ft off (e # es) = (entry_at blk ft off e \<and> entries_at blk ft (off + entSize ft e) es)"

definition entsSize :: "bool \<Rightarrow> dirEnt list \<Rightarrow> nat" where
  "entsSize ft es = (\<Sum>e\<leftarrow>es. entSize ft e)"

lemma entsSize_simps [simp]: "entsSize ft [] = 0" "entsSize ft (e # es) = entSize ft e + entsSize ft es"
  by (simp_all add: entsSize_def)

lemma entSize_bounds:
  "9 + length (entName e) + (if ft then 1 else 0) + 2 \<le> entSize ft e" "16 \<le> entSize ft e" "8 dvd entSize ft e"
  unfolding entSize_def by (rule dirEntrySize_bounds)+

lemma entry_at_moved:
  assumes "same_bytes a off b off (entSize ft e)" and "entry_at a ft off e"
  shows "entry_at b ft off e"
proof -
  let ?n = "length (entName e)"
  note sz = entSize_bounds(1) [of e ft] entSize_bounds(2) [of ft e]
  have "window off 8 a = window off 8 b" "window (off + 8) 1 a = window (off + 8) 1 b"
    "window (off + 9) ?n a = window (off + 9) ?n b"
    using same_bytes_sub [OF assms(1), of 0 8] same_bytes_sub [OF assms(1), of 8 1] same_bytes_sub [OF assms(1), of 9 ?n] sz
    by (simp_all add: same_bytes_def)
  moreover have "ft \<Longrightarrow> window (off + 9 + ?n) 1 a = window (off + 9 + ?n) 1 b"
    using same_bytes_sub [OF assms(1), of "9 + ?n" 1] sz by (simp add: same_bytes_def add.assoc)
  ultimately show ?thesis
    using assms(2) by (simp add: entry_at_def be64_def byte_at_window)
qed

lemma entries_at_moved:
  assumes "same_bytes a off b off (entsSize ft es)" and "entries_at a ft off es"
  shows "entries_at b ft off es"
  using assms
proof (induction es arbitrary: off)
  case (Cons e es)
  have "same_bytes a off b off (entSize ft e)" using same_bytes_sub [OF Cons.prems(1), of 0 "entSize ft e"] by simp
  moreover have "same_bytes a (off + entSize ft e) b (off + entSize ft e) (entsSize ft es)"
    using same_bytes_sub [OF Cons.prems(1), of "entSize ft e" "entsSize ft es"] by simp
  ultimately show ?case using Cons entry_at_moved by auto
qed simp

lemma length_writeDirEntry [simp]: "length (writeDirEntry blk off ino name t ft) = length blk"
  by (simp add: writeDirEntry_def Let_def)

lemma writeDirEntry_cases:
  obtains q where "q + 2 = off + dirEntrySize (length name) ft" "off + 9 + length name + (if ft then 1 else 0) \<le> q"
    "writeDirEntry blk off ino name t ft =
      put16 q (of_nat off) ((if ft then put8 (off + 9 + length name) t else (\<lambda>b. b))
        (patch (off + 9) name (put8 (off + 8) (of_nat (length name)) (put64 off ino blk))))"
proof -
  let ?q = "off + dirEntrySize (length name) ft - 2"
  have "?q + 2 = off + dirEntrySize (length name) ft" "off + 9 + length name + (if ft then 1 else 0) \<le> ?q"
    using dirEntrySize_bounds(1) [of "length name" ft] dirEntrySize_bounds(2) [of "length name" ft] by (auto split: if_splits)
  then show ?thesis by (rule that) (simp add: writeDirEntry_def Let_def)
qed

lemma window_writeDirEntry:
  assumes "o' + n \<le> off \<or> off + dirEntrySize (length name) ft \<le> o'"
  shows "window o' n (writeDirEntry blk off ino name t ft) = window o' n blk"
proof -
  obtain q where q: "q + 2 = off + dirEntrySize (length name) ft" "off + 9 + length name + (if ft then 1 else 0) \<le> q"
    "writeDirEntry blk off ino name t ft =
      put16 q (of_nat off) ((if ft then put8 (off + 9 + length name) t else (\<lambda>b. b))
        (patch (off + 9) name (put8 (off + 8) (of_nat (length name)) (put64 off ino blk))))"
    by (rule writeDirEntry_cases)
  have sz: "off + 9 + length name + 2 \<le> off + dirEntrySize (length name) ft" using q(1,2) by (simp split: if_splits)
  show ?thesis
    unfolding q(3) using assms q(1,2) by (cases ft) (auto simp: window_put_frame)
qed

lemma entry_at_written:
  assumes "off + entSize ft e \<le> length blk"
  shows "entry_at (writeDirEntry blk off (entIno e) (entName e) (entType e) ft) ft off e"
proof -
  let ?n = "length (entName e)" and ?b = "writeDirEntry blk off (entIno e) (entName e) (entType e) ft"
  obtain q where q: "q + 2 = off + dirEntrySize ?n ft" "off + 9 + ?n + (if ft then 1 else 0) \<le> q"
    "?b = put16 q (of_nat off) ((if ft then put8 (off + 9 + ?n) (entType e) else (\<lambda>b. b))
        (patch (off + 9) (entName e) (put8 (off + 8) (of_nat ?n) (put64 off (entIno e) blk))))"
    by (rule writeDirEntry_cases)
  have len: "q + 2 \<le> length blk" using assms q(1) by (simp add: entSize_def)
  have a: "window off 8 ?b = be_bytes 8 (entIno e)" "window (off + 8) 1 ?b = [of_nat ?n]" "window (off + 9) ?n ?b = entName e"
    unfolding q(3) using q(2) len by (cases ft; simp add: window_put_frame window_patch_same put64_def put8_def)+
  have b: "ft \<Longrightarrow> window (off + 9 + ?n) 1 ?b = [entType e]"
    unfolding q(3) using q(2) len by (simp add: window_put_frame window_patch_same put8_def)
  show ?thesis
    using a b by (simp add: entry_at_def be64_def byte_at_window)
qed

lemma placeEntries_spec:
  assumes "placeEntries blk off leafStart ft es = Inr (b, en, ls)" and "leafStart \<le> length blk" and "off \<le> leafStart"
  shows "length b = length blk \<and> en = off + entsSize ft es \<and> en \<le> leafStart \<and>
    (\<forall>o' n. o' + n \<le> off \<or> en \<le> o' \<longrightarrow> window o' n b = window o' n blk) \<and> entries_at b ft off es \<and>
    map leHash ls = map (\<lambda>e. xfsDirHash (entName e)) es"
  using assms
proof (induction es arbitrary: blk off b en ls)
  case (Cons e es)
  let ?sz = "entSize ft e" and ?w = "writeDirEntry blk off (entIno e) (entName e) (entType e) ft"
  from Cons.prems obtain ls' where r: "placeEntries ?w (off + ?sz) leafStart ft es = Inr (b, en, ls')"
    and fit: "off + ?sz \<le> leafStart" and ls: "ls = \<lparr>leHash = xfsDirHash (entName e), leAddr = drop_bit 3 (of_nat off)\<rparr> # ls'"
    by (auto simp: Let_def bindR_eq_Inr entSize_def split: if_splits)
  have IH: "length b = length ?w" "en = off + ?sz + entsSize ft es" "en \<le> leafStart"
    "\<forall>o' n. o' + n \<le> off + ?sz \<or> en \<le> o' \<longrightarrow> window o' n b = window o' n ?w" "entries_at b ft (off + ?sz) es"
    "map leHash ls' = map (\<lambda>e. xfsDirHash (entName e)) es"
    using Cons.IH [OF r] Cons.prems(2) fit by simp_all
  have "same_bytes ?w off b off ?sz"
    using IH(1,4) fit Cons.prems(2) by (simp add: same_bytes_def)
  then have "entry_at b ft off e" by (rule entry_at_moved) (use entry_at_written fit Cons.prems(2) in simp)
  moreover have "window o' n b = window o' n blk" if "o' + n \<le> off \<or> en \<le> o'" for o' n
  proof -
    have "window o' n b = window o' n ?w" using IH(2,4) that by (metis trans_le_add1)
    also have "\<dots> = window o' n blk"
      by (rule window_writeDirEntry) (use that IH(2) in \<open>auto simp: entSize_def\<close>)
    finally show ?thesis .
  qed
  ultimately show ?case using IH ls by simp
qed simp

lemma entries_at_append:
  "entries_at blk ft off (xs @ ys) \<longleftrightarrow> entries_at blk ft off xs \<and> entries_at blk ft (off + entsSize ft xs) ys"
  by (induction xs arbitrary: off) (auto simp: add.assoc)

section \<open>Walking over entries\<close>

text \<open>An entry the scanning loops recognise: a name of 1 to 255 bytes, an inode number that is not
  0 and does not begin with the free tag.\<close>

definition ent_ok :: "dirEnt \<Rightarrow> bool" where
  "ent_ok e \<longleftrightarrow> entName e \<noteq> [] \<and> length (entName e) < 256 \<and> entIno e \<noteq> 0 \<and> unat (entIno e) < 0xFFFF * 2 ^ 48"

lemma be16_be64:
  assumes "off + 8 \<le> length blk"
  shows "be16 blk off = ucast (drop_bit 48 (be64 blk off))"
proof (rule bit_word_eqI)
  fix k assume "k < LENGTH(16)"
  then have k: "k < 16" by simp
  then have d: "k div 8 < 2" by simp
  have e: "(48 + k) div 8 = 6 + k div 8" "(48 + k) mod 8 = k mod 8"
    using div_add [of 8 48 k] by (simp_all add: mod_add_left_eq [of 48 8 k, symmetric])
  have l: "length (window off 2 blk) = 2" "length (window off 8 blk) = 8" using assms by simp_all
  have r2: "rev (window off 2 blk) ! (k div 8) = blk ! (off + (1 - k div 8))"
    using assms d l by (simp add: rev_nth nth_window)
  have r8: "rev (window off 8 blk) ! (6 + k div 8) = blk ! (off + (1 - k div 8))"
    using assms d l by (simp add: rev_nth nth_window)
  have "bit (be16 blk off) k \<longleftrightarrow> bit (blk ! (off + (1 - k div 8))) (k mod 8)"
    unfolding be16_def bit_be_word r2 using k d l by simp
  moreover have "bit (ucast (drop_bit 48 (be64 blk off)) :: u16) k \<longleftrightarrow> bit (be64 blk off) (48 + k)"
    using k by (simp add: bit_unsigned_iff bit_drop_bit_eq)
  moreover have "bit (be64 blk off) (48 + k) \<longleftrightarrow> bit (blk ! (off + (1 - k div 8))) (k mod 8)"
    unfolding be64_def bit_be_word e r8 using k d l by simp
  ultimately show "bit (be16 blk off) k = bit (ucast (drop_bit 48 (be64 blk off)) :: u16) k" by simp
qed

lemma ent_not_free:
  assumes "ent_ok e" and "entry_at blk ft off e" and "off + 8 \<le> length blk"
  shows "be16 blk off \<noteq> dirFreeTag"
proof
  assume "be16 blk off = dirFreeTag"
  then have "ucast (drop_bit 48 (entIno e)) = dirFreeTag"
    using assms(2,3) by (simp add: be16_be64 entry_at_def)
  then have "unat (ucast (drop_bit 48 (entIno e)) :: u16) = 0xFFFF" by (simp add: dirFreeTag_def)
  moreover have "unat (ucast (drop_bit 48 (entIno e)) :: u16) \<le> unat (drop_bit 48 (entIno e))"
    by (simp add: unsigned_ucast_eq)
  moreover have "unat (drop_bit 48 (entIno e)) = unat (entIno e) div 2 ^ 48" by (rule unat_drop_bit)
  moreover have "unat (entIno e) div 2 ^ 48 < 0xFFFF"
    using assms(1) by (simp add: ent_ok_def less_mult_imp_div_less)
  ultimately show False by linarith
qed

text \<open>What the loops see at an entry.\<close>

lemma entry_seen:
  assumes "ent_ok e" and "entry_at blk ft off e" and "off + entSize ft e \<le> length blk"
  shows "off + 10 \<le> length blk" "off + 8 < length blk" "be16 blk off \<noteq> dirFreeTag" "be64 blk off = entIno e" "entIno e \<noteq> 0"
    "unat (byte_at blk (off + 8)) = length (entName e)" "window (off + 9) (length (entName e)) blk = entName e"
    "off + 9 + length (entName e) + (if ft then 1 else 0) \<le> length blk" "entName e \<noteq> []"
    "ft \<Longrightarrow> byte_at blk (off + 9 + length (entName e)) = entType e"
proof -
  note sz = entSize_bounds(1) [of e ft] entSize_bounds(2) [of ft e]
  show "off + 10 \<le> length blk" "off + 8 < length blk" using assms(3) sz by simp_all
  then show "be16 blk off \<noteq> dirFreeTag" using ent_not_free [OF assms(1,2)] by simp
  show "off + 9 + length (entName e) + (if ft then 1 else 0) \<le> length blk" using assms(3) sz by simp
qed (use assms in \<open>simp_all add: ent_ok_def entry_at_def unat_of_nat\<close>)

definition is_dot :: "bytes \<Rightarrow> bool" where
  "is_dot nm \<longleftrightarrow> nm = [46] \<or> nm = [46, 46]"

definition listed :: "bool \<Rightarrow> dirEnt \<Rightarrow> DirEntry" where
  "listed ft e = \<lparr>deInode = entIno e, deName = entName e, deType = (if ft then entType e else 0)\<rparr>"

lemma parseLoop_entries:
  assumes "\<forall>e\<in>set es. ent_ok e" and "entries_at blk ft off es" and "off + entsSize ft es \<le> length blk"
  shows "parseLoop blk ft off = map (listed ft) (filter (\<lambda>e. \<not> is_dot (entName e)) es) @ parseLoop blk ft (off + entsSize ft es)"
  using assms
proof (induction es arbitrary: off)
  case (Cons e es)
  have e: "ent_ok e" "entry_at blk ft off e" "off + entSize ft e \<le> length blk" using Cons.prems by simp_all
  note seen = entry_seen [OF e]
  have IH: "parseLoop blk ft (off + entSize ft e) =
      map (listed ft) (filter (\<lambda>e. \<not> is_dot (entName e)) es) @ parseLoop blk ft (off + entSize ft e + entsSize ft es)"
    by (rule Cons.IH) (use Cons.prems in \<open>simp_all add: add.assoc\<close>)
  have f: "\<not> (ft \<and> length blk \<le> off + 9 + length (entName e))" "\<not> length blk < off + 9 + length (entName e)"
    "\<not> length blk < off + 10"
    using seen(1,8) by (auto split: if_splits)
  define rest where "rest = parseLoop blk ft (off + entSize ft e)"
  have "parseLoop blk ft off = (if is_dot (entName e) then [] else [listed ft e]) @ rest"
    unfolding parseLoop.simps [of blk ft off] Let_def seen(4,6,7) rest_def entSize_def
    using f seen(3,5,9,10) by (cases ft) (simp_all add: is_dot_def listed_def)
  then show ?case using IH by (simp add: rest_def add.assoc)
qed simp

lemma searchLoop_entries:
  assumes "\<forall>e\<in>set es. ent_ok e" and "entries_at blk ft off es" and "off + entsSize ft es \<le> length blk"
  shows "searchLoop blk name ft off = (case find (\<lambda>e. entName e = name) es of
    Some e \<Rightarrow> Some (entIno e) | None \<Rightarrow> searchLoop blk name ft (off + entsSize ft es))"
  using assms
proof (induction es arbitrary: off)
  case (Cons e es)
  have e: "ent_ok e" "entry_at blk ft off e" "off + entSize ft e \<le> length blk" using Cons.prems by simp_all
  note seen = entry_seen [OF e]
  have "searchLoop blk name ft off =
      (if entName e = name then Some (entIno e) else searchLoop blk name ft (off + entSize ft e))"
    using seen by (subst searchLoop.simps) (simp add: Let_def entSize_def)
  moreover have "searchLoop blk name ft (off + entSize ft e) = (case find (\<lambda>e. entName e = name) es of
      Some e \<Rightarrow> Some (entIno e) | None \<Rightarrow> searchLoop blk name ft (off + entSize ft e + entsSize ft es))"
    by (rule Cons.IH) (use Cons.prems in \<open>simp_all add: add.assoc\<close>)
  ultimately show ?case by (simp add: add.assoc split: option.splits)
qed simp

lemma findEntryLoop_entries:
  assumes "\<forall>e\<in>set es. ent_ok e" and "entries_at blk ft off es" and "off + entsSize ft es \<le> length blk"
    and "name \<in> entName ` set es"
  shows "\<exists>xs e ys. es = xs @ e # ys \<and> entName e = name \<and>
    findEntryLoop blk name ft off = Some (off + entsSize ft xs, entSize ft e)"
  using assms
proof (induction es arbitrary: off)
  case (Cons e es)
  have e: "ent_ok e" "entry_at blk ft off e" "off + entSize ft e \<le> length blk" using Cons.prems by simp_all
  note seen = entry_seen [OF e]
  have step: "findEntryLoop blk name ft off =
      (if entName e = name then Some (off, entSize ft e) else findEntryLoop blk name ft (off + entSize ft e))"
    using seen by (subst findEntryLoop.simps) (simp add: Let_def entSize_def)
  show ?case
  proof (cases "entName e = name")
    case True
    then have "e # es = [] @ e # es \<and> entName e = name \<and> findEntryLoop blk name ft off = Some (off + entsSize ft [], entSize ft e)"
      using step by simp
    then show ?thesis by blast
  next
    case False
    obtain xs e' ys where "es = xs @ e' # ys" "entName e' = name"
      "findEntryLoop blk name ft (off + entSize ft e) = Some (off + entSize ft e + entsSize ft xs, entSize ft e')"
      using Cons.IH [of "off + entSize ft e"] Cons.prems False by (auto simp: add.assoc)
    then have "e # es = (e # xs) @ e' # ys \<and> entName e' = name \<and>
        findEntryLoop blk name ft off = Some (off + entsSize ft (e # xs), entSize ft e')"
      using step False by (simp add: add.assoc)
    then show ?thesis by blast
  qed
qed simp

lemma parentLoop_entries:
  assumes "ent_ok e" "ent_ok e'" and "entries_at blk ft off [e, e']" and "off + entsSize ft [e, e'] \<le> length blk"
    and "entName e = [46]" and "entName e' = [46, 46]"
  shows "parentLoop blk ft off = entIno e'"
proof -
  have a: "entry_at blk ft off e" "off + entSize ft e \<le> length blk" and b: "entry_at blk ft (off + entSize ft e) e'"
    "off + entSize ft e + entSize ft e' \<le> length blk"
    using assms by simp_all
  note s1 = entry_seen [OF assms(1) a] and s2 = entry_seen [OF assms(2) b]
  have "parentLoop blk ft off = parentLoop blk ft (off + entSize ft e)"
    using s1 assms(5) by (subst parentLoop.simps) (simp add: Let_def entSize_def)
  also have "\<dots> = entIno e'"
    using s2 assms(6) by (subst parentLoop.simps) (simp add: Let_def)
  finally show ?thesis .
qed

section \<open>The index at the end of a block\<close>

lemma length_putLeaves [simp]: "length (putLeaves p ls b) = length b"
  by (induction p ls b rule: putLeaves.induct) simp_all

lemma window_putLeaves:
  "o' + n \<le> p \<or> p + 8 * length ls \<le> o' \<Longrightarrow> window o' n (putLeaves p ls b) = window o' n b"
  by (induction p ls b rule: putLeaves.induct) (auto simp: window_put_frame)

lemma putLeaves_nth:
  assumes "i < length ls" and "p + 8 * length ls \<le> length b"
  shows "window (p + 8 * i) 4 (putLeaves p ls b) = be_bytes 4 (leHash (ls ! i))"
    and "window (p + 8 * i + 4) 4 (putLeaves p ls b) = be_bytes 4 (leAddr (ls ! i))"
  using assms
proof (induction p ls b arbitrary: i rule: putLeaves.induct)
  case (2 p l ls b)
  {
    case 1
    then show ?case
      using "2.IH"(1) [of "i - 1"]
      by (cases i) (simp_all add: window_putLeaves window_put_frame window_patch_same put32_def add.assoc)
  next
    case 2
    then show ?case
      using "2.IH"(2) [of "i - 1"]
      by (cases i) (simp_all add: window_putLeaves window_put_frame window_patch_same put32_def add.assoc)
  }
qed simp_all

text \<open>Hashes of \<open>.\<close> and \<open>..\<close>.\<close>

lemma dot_hashes: "xfsDirHash [46] = 0x2e" "xfsDirHash [46, 46] = 0x172e"
  by code_simp+

text \<open>In a sorted list with two keys of at most \<open>K\<close>, the first two keys are at most \<open>K\<close>.\<close>

lemma sorted_first_two:
  fixes xs :: "'a::linorder list"
  assumes "sorted xs" and "2 \<le> length (filter (\<lambda>x. x \<le> K) xs)"
  shows "xs ! 0 \<le> K" and "xs ! 1 \<le> K" and "2 \<le> length xs"
proof -
  show len: "2 \<le> length xs" using assms(2) length_filter_le by (rule le_trans)
  then obtain a b ys where xs: "xs = a # b # ys" by (metis Suc_le_length_iff numeral_2_eq_2)
  have "\<not> K < b"
  proof
    assume "K < b"
    then have "filter (\<lambda>x. x \<le> K) (b # ys) = []" using assms(1) xs by (auto simp: filter_empty_conv)
    then have "length (filter (\<lambda>x. x \<le> K) xs) \<le> 1" unfolding xs by (auto simp del: filter.simps simp: filter.simps(2) [of _ a])
    with assms(2) show False by simp
  qed
  with assms(1) xs show "xs ! 0 \<le> K" "xs ! 1 \<le> K" by auto
qed

section \<open>Block-form directories are read back\<close>

lemma placeEntries_room:
  "placeEntries blk off leafStart ft (e # es) = Inr r \<Longrightarrow> off + 16 \<le> leafStart"
  using dirEntrySize_bounds(2) [of "length (entName e)" ft] by (simp add: Let_def split: if_splits)

lemma placeEntries_addr:
  assumes "placeEntries blk off leafStart ft es = Inr (b, en, ls)" and "8 \<le> off" and "leafStart \<le> 2 ^ 32"
  shows "\<forall>l\<in>set ls. leAddr l \<noteq> 0"
  using assms
proof (induction es arbitrary: blk off b en ls)
  case (Cons e es)
  let ?sz = "dirEntrySize (length (entName e)) ft" and ?w = "writeDirEntry blk off (entIno e) (entName e) (entType e) ft"
  from Cons.prems obtain ls' where r: "placeEntries ?w (off + ?sz) leafStart ft es = Inr (b, en, ls')"
    and ls: "ls = \<lparr>leHash = xfsDirHash (entName e), leAddr = drop_bit 3 (of_nat off)\<rparr> # ls'" and "off + ?sz \<le> leafStart"
    by (auto simp: Let_def bindR_eq_Inr split: if_splits)
  then have "off < 2 ^ 32" using dirEntrySize_bounds(2) [of "length (entName e)" ft] Cons.prems(3) by simp
  then have "unat (drop_bit 3 (of_nat off :: u32)) = off div 8"
    unfolding unat_drop_bit by (simp add: unat_of_nat)
  then have "drop_bit 3 (of_nat off :: u32) \<noteq> 0" using Cons.prems(2) by (metis div_greater_zero_iff gr0I unat_0 zero_less_numeral less_numeral_extra(3))
  moreover have "\<forall>l\<in>set ls'. leAddr l \<noteq> 0" using Cons.IH [OF r] Cons.prems by simp
  ultimately show ?case using ls by simp
qed simp

lemma first_leaves:
  assumes "map leHash ls = 0x2e # 0x172e # hs"
  shows "unat (leHash (sort_key leafKey ls ! 0)) \<le> 0x172e" and "unat (leHash (sort_key leafKey ls ! 1)) \<le> 0x172e"
proof -
  obtain a b ys where ls: "ls = a # b # ys" and h: "leHash a = 0x2e" "leHash b = 0x172e"
    using assms by (auto simp: map_eq_Cons_conv)
  define K :: int where "K = 0x172e * 2 ^ 32 + (2 ^ 32 - 1)"
  define sl where "sl = sort_key leafKey ls"
  have "leafKey a \<le> K" "leafKey b \<le> K"
    using h uint_lt2p [of "leAddr a"] uint_lt2p [of "leAddr b"] by (simp_all add: leafKey_def K_def)
  then have two: "2 \<le> length (filter (\<lambda>x. x \<le> K) (map leafKey ls))" unfolding ls by simp
  have m: "mset (map leafKey sl) = mset (map leafKey ls)" by (simp add: sl_def)
  have "mset (filter (\<lambda>x. x \<le> K) (map leafKey sl)) = mset (filter (\<lambda>x. x \<le> K) (map leafKey ls))"
    unfolding mset_filter m ..
  then have two: "2 \<le> length (filter (\<lambda>x. x \<le> K) (map leafKey sl))" using two mset_eq_length by metis
  have le: "unat (leHash l) \<le> 0x172e" if "leafKey l \<le> K" for l
  proof (rule ccontr)
    assume "\<not> unat (leHash l) \<le> 0x172e"
    then have "0x172f \<le> int (unat (leHash l))" by linarith
    then have "0x172f \<le> uint (leHash l)" by simp
    moreover have "0 \<le> uint (leAddr l)" by simp
    moreover have "uint (leHash l) * 4294967296 + uint (leAddr l) \<le> 25490630901759"
      using that by (simp add: leafKey_def K_def)
    ultimately show False by linarith
  qed
  have len: "2 \<le> length sl" by (simp add: ls sl_def)
  have so: "sorted (map leafKey sl)" by (simp add: sl_def)
  note f2 = sorted_first_two [OF so two]
  have "map leafKey sl ! 0 = leafKey (sl ! 0)" "map leafKey sl ! 1 = leafKey (sl ! 1)" using len by (auto intro!: nth_map)
  then have "leafKey (sl ! 0) \<le> K" "leafKey (sl ! 1) \<le> K" using f2(1,2) by simp_all
  then show "unat (leHash (sort_key leafKey ls ! 0)) \<le> 0x172e" "unat (leHash (sort_key leafKey ls ! 1)) \<le> 0x172e"
    using le unfolding sl_def by blast+
qed

lemma small_hash_bytes:
  assumes "unat (h :: u32) \<le> 0x172e"
  shows "be_bytes 4 h = [0, 0, ucast (drop_bit 8 h), ucast h]"
proof -
  have "\<not> bit h k" if "13 \<le> k" for k
    by (rule not_bit_above [of _ 13]) (use assms that in simp_all)
  then have "drop_bit 16 h = 0" "drop_bit 24 h = 0" by (auto intro!: bit_word_eqI simp: bit_drop_bit_eq)
  moreover have "[0..<4] = [0, 1, 2, 3 :: nat]" by code_simp
  ultimately show ?thesis by (simp add: be_bytes_def)
qed

text \<open>A scan that reaches the index stops: the second hash has a zero first byte.\<close>

lemma parseLoop_index:
  fixes h0 h1 a0 :: u32
  assumes h: "unat h0 \<le> 0x172e" "unat h1 \<le> 0x172e" and a: "a0 \<noteq> 0"
    and w: "window off 4 blk = be_bytes 4 h0" "window (off + 4) 4 blk = be_bytes 4 a0" "window (off + 8) 4 blk = be_bytes 4 h1"
    and len: "off + 12 \<le> length blk"
  shows "parseLoop blk ft off = []"
proof -
  have "window off 2 blk = window 0 2 (window off 4 blk)" by (simp add: window_slice)
  then have "be16 blk off = 0" unfolding be16_def w(1) small_hash_bytes [OF h(1)] by (simp add: window_def) code_simp
  moreover have "be64 blk off \<noteq> 0"
  proof
    assume z: "be64 blk off = 0"
    have "be_bytes 8 (be64 blk off) = window off 8 blk"
      unfolding be64_def by (rule be_bytes_be_word) (use len in simp_all)
    moreover have "window 4 4 (window off 8 blk) = window (off + 4) 4 blk" by (simp add: window_slice)
    ultimately have "be_bytes 4 a0 = window 4 4 (be_bytes 8 (0 :: u64))" using z w(2) by simp
    also have "\<dots> = be_bytes 4 (0 :: u32)" by code_simp
    finally have "a0 = 0" by (metis be_roundtrips(2))
    with a show False by contradiction
  qed
  moreover have "byte_at blk (off + 8) = 0"
  proof -
    have "window (off + 8) 1 blk = window 0 1 (window (off + 8) 4 blk)" by (simp add: window_slice)
    then show ?thesis unfolding byte_at_window w(3) small_hash_bytes [OF h(2)] by (simp add: window_def)
  qed
  ultimately show ?thesis by (subst parseLoop.simps) (simp add: Let_def dirFreeTag_def)
qed

text \<open>Everything \<^verbatim>\<open>buildBlockDirBlock\<close> does after the entries are placed.\<close>

definition finishBlock :: "bool \<Rightarrow> nat \<Rightarrow> nat \<Rightarrow> nat \<Rightarrow> nat \<Rightarrow> nat \<Rightarrow> leafEnt list \<Rightarrow> bytes \<Rightarrow> bytes" where
  "finishBlock crc blkSize leafStart tailOff endData n leaves b =
     (let freeLen = leafStart - endData;
          bfOff = (if crc then 48 else 4);
          b = (if leafStart > endData
               then put16 (bfOff + 2) (of_nat freeLen) (put16 bfOff (of_nat endData)
                      (put16 (endData + freeLen - 2) (of_nat endData)
                         (put16 (endData + 2) (of_nat freeLen) (put16 endData 0xFFFF b))))
               else b);
          b = putLeaves leafStart leaves b;
          b = put32 tailOff (of_nat n) b;
          b = put32 (tailOff + 4) 0 b
      in if crc then updateCRC b 4 blkSize else b)"

lemma buildBlockDirBlock_eq:
  "buildBlockDirBlock sb blkSize absBlock ownerIno parentIno entries =
     (let n = length (dotEntries ownerIno parentIno @ entries); tailOff = blkSize - 8; leafStart = tailOff - n * 8
      in bindR (placeEntries (dirBlockHeader sb blkSize magicDir3Block magicDir2Block absBlock ownerIno)
           (dirDataHdrSize (hasCRC sb)) leafStart (hasFType sb) (dotEntries ownerIno parentIno @ entries))
         (\<lambda>(b, endData, leaves). Inr (finishBlock (hasCRC sb) blkSize leafStart tailOff endData n (sort_key leafKey leaves) b)))"
  unfolding buildBlockDirBlock_def finishBlock_def Let_def ..

lemma length_finishBlock [simp]: "length (finishBlock crc blkSize ls te en n leaves b) = length b"
  by (simp add: finishBlock_def Let_def)

lemma finishBlock_frame:
  assumes "dirDataHdrSize crc \<le> o'" and "o' + k \<le> en" and "en + 8 \<le> ls \<or> en = ls" and "ls \<le> te"
  shows "window o' k (finishBlock crc blkSize ls te en n leaves b) = window o' k b"
proof (cases "en = ls")
  case False
  then obtain q where q: "ls = q + 2" using assms(3) by (metis add.commute add_leE le_Suc_ex numeral_Bit0)
  have e: "en + (q + 2 - en) - 2 = q" "en + 6 \<le> q" using assms(3) False q by simp_all
  show ?thesis
    unfolding finishBlock_def q e(1) Let_def using e assms q
    by (auto simp: window_put_frame window_putLeaves window_updateCRC dirDataHdrSize_def simp del: of_nat_diff split: if_splits)
qed (use assms in \<open>auto simp: finishBlock_def Let_def window_put_frame window_putLeaves window_updateCRC dirDataHdrSize_def split: if_splits\<close>)

lemma finishBlock_free:
  assumes "dirDataHdrSize crc \<le> en" and "en + 8 \<le> ls" and "ls \<le> te" and "ls \<le> length b"
  shows "be16 (finishBlock crc blkSize ls te en n leaves b) en = 0xFFFF"
    and "be16 (finishBlock crc blkSize ls te en n leaves b) (en + 2) = of_nat (ls - en)"
proof -
  obtain q where q: "ls = q + 2" using assms(2) by (metis add.commute add_leE le_Suc_ex numeral_Bit0)
  have e: "en + (q + 2 - en) - 2 = q" "en + 6 \<le> q" "4 \<le> en" "crc \<longrightarrow> 64 \<le> en" "\<not> crc \<longrightarrow> 16 \<le> en"
    using assms(1,2) q by (simp_all add: dirDataHdrSize_def split: if_splits)
  show "be16 (finishBlock crc blkSize ls te en n leaves b) en = 0xFFFF"
    "be16 (finishBlock crc blkSize ls te en n leaves b) (en + 2) = of_nat (ls - en)"
    unfolding finishBlock_def q e(1) Let_def be16_def using e assms(3,4) q
    by (auto simp: window_put_frame window_putLeaves window_updateCRC put16_def window_patch_same simp del: of_nat_diff)
qed

lemma finishBlock_leaves:
  assumes "dirDataHdrSize crc \<le> en" and "en \<le> ls" and "ls + 8 * length leaves = te" and "te \<le> length b" and "i < length leaves"
  shows "window (ls + 8 * i) 4 (finishBlock crc blkSize ls te en n leaves b) = be_bytes 4 (leHash (leaves ! i))"
    and "window (ls + 8 * i + 4) 4 (finishBlock crc blkSize ls te en n leaves b) = be_bytes 4 (leAddr (leaves ! i))"
proof -
  have i: "ls + 8 * i + 8 \<le> te" using assms(3,5) by simp
  have h: "8 \<le> ls" using assms(1,2) by (simp add: dirDataHdrSize_def split: if_splits)
  show "window (ls + 8 * i) 4 (finishBlock crc blkSize ls te en n leaves b) = be_bytes 4 (leHash (leaves ! i))"
    "window (ls + 8 * i + 4) 4 (finishBlock crc blkSize ls te en n leaves b) = be_bytes 4 (leAddr (leaves ! i))"
    using i h assms(3,4,5)
    by (simp_all add: finishBlock_def Let_def window_put_frame window_updateCRC putLeaves_nth)
qed

lemma parseLoop_free:
  assumes "be16 blk off = 0xFFFF" and "be16 blk (off + 2) = of_nat len" and "8 \<le> len" and "len < 65536" and "off + 10 \<le> length blk"
  shows "parseLoop blk ft off = parseLoop blk ft (off + len)"
  using assms by (subst parseLoop.simps) (simp add: Let_def dirFreeTag_def unat_of_nat)

lemma length_dirBlockHeader [simp]: "length (dirBlockHeader sb blkSize m3 m2 absB ino) = blkSize"
  by (simp add: dirBlockHeader_def Let_def)

lemma entsSize_dvd: "8 dvd entsSize ft es"
  by (induction es) (simp_all add: entSize_bounds(3))

text \<open>A scan that reaches the end of the entries of a finished block stops there.\<close>

lemma finishBlock_stops:
  assumes blk: "blk = finishBlock crc blkSize ls te en n (sort_key leafKey leaves) p"
    and hs: "map leHash leaves = 0x2e # 0x172e # hs" and ad: "\<forall>l\<in>set leaves. leAddr l \<noteq> 0"
    and hdr: "dirDataHdrSize crc \<le> en" and gap: "en + 8 \<le> ls \<or> en = ls"
    and tot: "ls + 8 * length leaves = te" "te + 8 = blkSize" "length p = blkSize" "blkSize \<le> 65536"
  shows "parseLoop blk ft en = []"
proof -
  let ?sl = "sort_key leafKey leaves"
  have nl: "2 \<le> length leaves" using arg_cong [OF hs, of length] by simp
  then have ne: "leaves \<noteq> []" by auto
  have lb: "length blk = blkSize" by (simp add: blk tot)
  have stop: "parseLoop blk ft ls = []"
  proof (rule parseLoop_index)
    show "unat (leHash (?sl ! 0)) \<le> 0x172e" "unat (leHash (?sl ! 1)) \<le> 0x172e" by (rule first_leaves [OF hs])+
    have "?sl ! 0 \<in> set ?sl" by (rule nth_mem) (use nl in auto)
    then show "leAddr (?sl ! 0) \<noteq> 0" using ad by simp
    note lv = finishBlock_leaves [of crc en ls ?sl te p _ blkSize n, folded blk]
    show "window ls 4 blk = be_bytes 4 (leHash (?sl ! 0))" "window (ls + 4) 4 blk = be_bytes 4 (leAddr (?sl ! 0))"
      "window (ls + 8) 4 blk = be_bytes 4 (leHash (?sl ! 1))"
      using lv [of 0] lv [of 1] tot nl ne hdr gap by auto
    show "ls + 12 \<le> length blk" using tot nl lb by simp
  qed
  show ?thesis
  proof (cases "en = ls")
    case False
    then have g: "en + 8 \<le> ls" using gap by simp
    have "parseLoop blk ft en = parseLoop blk ft (en + (ls - en))"
      by (rule parseLoop_free)
        (use g hdr tot lb finishBlock_free [of crc en ls te p blkSize n ?sl, folded blk] in simp_all)
    with g stop show ?thesis by simp
  qed (use stop in simp)
qed

text \<open>The entries lie in the finished block one after the other, from the end of the header on.\<close>

lemma buildBlockDirBlock_shape:
  assumes b: "buildBlockDirBlock sb blkSize absBlock ownerIno parentIno entries = Inr blk"
    and sz: "8 dvd blkSize" "blkSize \<le> 65536" and hdr: "hdr = dirDataHdrSize (hasCRC sb)"
    and al: "al = dotEntries ownerIno parentIno @ entries"
  shows "length blk = blkSize" "entries_at blk (hasFType sb) hdr al" "hdr + entsSize (hasFType sb) al \<le> length blk"
    "parseLoop blk (hasFType sb) (hdr + entsSize (hasFType sb) al) = []" "hdr < length blk"
proof -
  let ?ft = "hasFType sb"
  obtain en p leaves n ls te b0 where pl: "placeEntries b0 hdr ls ?ft al = Inr (p, en, leaves)" and len0: "length b0 = blkSize"
    and n: "n = length al" and te: "te = blkSize - 8" and ls: "ls = te - n * 8"
    and blk: "blk = finishBlock (hasCRC sb) blkSize ls te en n (sort_key leafKey leaves) p"
    using b length_dirBlockHeader by (force simp: buildBlockDirBlock_eq Let_def bindR_eq_Inr hdr al)
  have h8: "8 \<le> hdr" "8 dvd hdr" unfolding hdr by (simp_all add: dirDataHdrSize_def)
  have room: "hdr + 16 \<le> ls" using pl unfolding al dotEntries_def append_Cons by (rule placeEntries_room)
  have "ls \<le> length b0" "hdr \<le> ls" using room len0 ls te by simp_all
  note spec = placeEntries_spec [OF pl this, unfolded len0]
  have sp: "length p = blkSize" "en = hdr + entsSize ?ft al" "en \<le> ls" "entries_at p ?ft hdr al"
    "map leHash leaves = map (\<lambda>e. xfsDirHash (entName e)) al"
    using spec by blast+
  have tot: "ls + 8 * length leaves = te" "te + 8 = blkSize"
    using room ls te n arg_cong [OF sp(5), of length] by simp_all
  have "8 dvd ls" using tot sz(1) by presburger
  moreover have "8 dvd en" unfolding sp(2) using h8(2) entsSize_dvd by (rule dvd_add)
  ultimately have gap: "en + 8 \<le> ls \<or> en = ls" using sp(3) by presburger
  have "same_bytes p hdr blk hdr (entsSize ?ft al)"
    unfolding same_bytes_def blk using sp gap tot by (simp add: finishBlock_frame hdr)
  then show "entries_at blk ?ft hdr al" using sp(4) by (rule entries_at_moved)
  show lb: "length blk = blkSize" by (simp add: blk sp(1))
  show "hdr + entsSize ?ft al \<le> length blk" "hdr < length blk" using sp(2,3) tot lb room by simp_all
  have hs: "map leHash leaves = 0x2e # 0x172e # map (\<lambda>e. xfsDirHash (entName e)) entries"
    unfolding sp(5) al by (simp add: dotEntries_def dot_hashes)
  have "\<forall>l\<in>set leaves. leAddr l \<noteq> 0" using placeEntries_addr [OF pl h8(1)] tot sz(2) by simp
  from finishBlock_stops [OF blk hs this _ gap tot sp(1) sz(2)]
  show "parseLoop blk ?ft (hdr + entsSize ?ft al) = []" using sp(2) hdr by simp
qed

lemma block_dir_readback:
  assumes b: "buildBlockDirBlock sb blkSize absBlock ownerIno parentIno entries = Inr blk"
    and ok: "\<forall>e\<in>set (dotEntries ownerIno parentIno @ entries). ent_ok e"
    and nd: "\<forall>e\<in>set entries. \<not> is_dot (entName e)"
    and sz: "8 dvd blkSize" "blkSize \<le> 65536"
  shows "length blk = blkSize
    \<and> parseDirBlock blk (hasFType sb) (hasCRC sb) = map (listed (hasFType sb)) entries
    \<and> blockDirParent blk (hasFType sb) (hasCRC sb) = parentIno
    \<and> (find (\<lambda>e. entName e = name) entries = Some e \<and> \<not> is_dot name \<longrightarrow>
         searchDirBlock blk name (hasFType sb) (hasCRC sb) = Some (entIno e))"
proof -
  let ?crc = "hasCRC sb" and ?ft = "hasFType sb" and ?all = "dotEntries ownerIno parentIno @ entries"
  define hdr where "hdr = dirDataHdrSize ?crc"
  note sh = buildBlockDirBlock_shape [OF b sz hdr_def refl]
  have "filter (\<lambda>e. \<not> is_dot (entName e)) ?all = entries"
    using nd by (simp add: dotEntries_def is_dot_def)
  then have "parseDirBlock blk ?ft ?crc = map (listed ?ft) entries"
    using parseLoop_entries [OF ok sh(2,3), unfolded sh(4)] sh(5)
    by (simp add: parseDirBlock_def hdr_def del: filter_append)
  moreover have "blockDirParent blk ?ft ?crc = parentIno"
  proof -
    have "parentLoop blk ?ft hdr = entIno (dotEntries ownerIno parentIno ! 1)"
      by (rule parentLoop_entries [of "dotEntries ownerIno parentIno ! 0"])
        (use sh ok in \<open>simp_all add: dotEntries_def\<close>)
    then show ?thesis by (simp add: blockDirParent_def hdr_def dotEntries_def)
  qed
  moreover have "searchDirBlock blk name ?ft ?crc = Some (entIno e)"
    if "find (\<lambda>e. entName e = name) entries = Some e" "\<not> is_dot name"
    using searchLoop_entries [OF ok sh(2,3), of name] that sh(5)
    by (auto simp: searchDirBlock_def hdr_def is_dot_def dotEntries_def)
  ultimately show ?thesis using sh(1) by blast
qed

text \<open>
  C35. A directory written in block form lists exactly the entries it was built from, in order;
  its parent is read back, and every name in it resolves to the inode of its first entry.
\<close>

theorem buildBlockDirBlock_parse:
  assumes b: "buildBlockDirBlock sb blkSize absBlock ownerIno parentIno entries = Inr blk"
    and ok: "\<forall>e\<in>set (dotEntries ownerIno parentIno @ entries). ent_ok e"
    and nd: "\<forall>e\<in>set entries. \<not> is_dot (entName e)"
    and sz: "8 dvd blkSize" "blkSize \<le> 65536"
  shows "length blk = blkSize
    \<and> parseDirBlock blk (hasFType sb) (hasCRC sb) = map (listed (hasFType sb)) entries
    \<and> blockDirParent blk (hasFType sb) (hasCRC sb) = parentIno
    \<and> (find (\<lambda>e. entName e = name) entries = Some e \<and> \<not> is_dot name \<longrightarrow>
         searchDirBlock blk name (hasFType sb) (hasCRC sb) = Some (entIno e))"
  using block_dir_readback [OF assms] .

definition sb_v4 :: superblock where
  "sb_v4 = sb_example\<lparr>hasCRC := False, hasFType := False\<rparr>"

definition two_entries :: "dirEnt list" where
  "two_entries = [\<lparr>entName = [98], entIno = 131, entType = 1\<rparr>,
     \<lparr>entName = [108, 98, 99, 103, 102, 109, 117, 111, 103], entIno = 132, entType = 1\<rparr>]"

lemma placeEntries_total:
  "off + entsSize ft es \<le> leafStart \<Longrightarrow> \<exists>r. placeEntries blk off leafStart ft es = Inr r"
proof (induction es arbitrary: blk off)
  case (Cons e es)
  then have "off + dirEntrySize (length (entName e)) ft \<le> leafStart" by (simp add: entSize_def)
  moreover obtain r where "placeEntries (writeDirEntry blk off (entIno e) (entName e) (entType e) ft)
      (off + dirEntrySize (length (entName e)) ft) leafStart ft es = Inr r"
    using Cons.IH [of "off + entSize ft e"] Cons.prems by (fastforce simp: entSize_def add.assoc)
  ultimately show ?case by (cases r) (simp add: Let_def)
qed simp

text \<open>Building succeeds whenever entries, index and tail fit.\<close>

lemma buildBlockDirBlock_total:
  assumes "dirDataHdrSize (hasCRC sb) + entsSize (hasFType sb) (dotEntries ownerIno parentIno @ entries)
    + 8 * length (dotEntries ownerIno parentIno @ entries) + 8 \<le> blkSize"
  shows "\<exists>blk. buildBlockDirBlock sb blkSize absBlock ownerIno parentIno entries = Inr blk"
proof -
  let ?all = "dotEntries ownerIno parentIno @ entries"
  have "dirDataHdrSize (hasCRC sb) + entsSize (hasFType sb) ?all \<le> blkSize - 8 - length ?all * 8" using assms by simp
  from placeEntries_total [OF this] obtain r where
    "placeEntries (dirBlockHeader sb blkSize magicDir3Block magicDir2Block absBlock ownerIno)
      (dirDataHdrSize (hasCRC sb)) (blkSize - 8 - length ?all * 8) (hasFType sb) ?all = Inr r"
    by blast
  then show ?thesis unfolding buildBlockDirBlock_eq Let_def by (cases r) simp
qed

theorem buildBlockDirBlock_parse_witness:
  "\<exists>blk. buildBlockDirBlock sb_v4 128 8 128 128 two_entries = Inr blk \<and>
     parseDirBlock blk False False = map (listed False) two_entries"
proof -
  obtain blk where "buildBlockDirBlock sb_v4 128 8 128 128 two_entries = Inr blk"
    using buildBlockDirBlock_total [of sb_v4 128 128 two_entries 128 8]
    by (auto simp: sb_v4_def two_entries_def dotEntries_def dirDataHdrSize_def entSize_def dirEntrySize_def)
  moreover from buildBlockDirBlock_parse [OF this] have "parseDirBlock blk False False = map (listed False) two_entries"
    by (simp add: sb_v4_def two_entries_def dotEntries_def ent_ok_def is_dot_def)
  ultimately show ?thesis by blast
qed

text \<open>
  The lookup scan does not stop at the index. In the directory of the two files \<open>b\<close> and
  \<open>lbcgfmuog\<close>, the absent name \<open>x\<close> resolves: the scan takes the leaf entry of \<open>..\<close> for a directory
  entry with a name of one byte. The block is evaluated in two steps, up to the entries and from there on.
\<close>

definition two_leaves :: "leafEnt list" where
  "two_leaves = [\<lparr>leHash = 0x2e, leAddr = 2\<rparr>, \<lparr>leHash = 0x172e, leAddr = 4\<rparr>,
     \<lparr>leHash = 0x62, leAddr = 6\<rparr>, \<lparr>leHash = 0x178f8d9, leAddr = 8\<rparr>]"

definition two_placed :: bytes where
  "two_placed =
     [88, 68, 50, 66, 0, 0, 0, 0, 0, 0, 0, 0, 0, 0, 0, 0, 0, 0, 0, 0, 0, 0, 0, 128, 1, 46, 0, 0, 0, 0, 0,
     16, 0, 0, 0, 0, 0, 0, 0, 128, 2, 46, 46, 0, 0, 0, 0, 32, 0, 0, 0, 0, 0, 0, 0, 131, 1, 98, 0, 0, 0,
     0, 0, 48, 0, 0, 0, 0, 0, 0, 0, 132, 9, 108, 98, 99, 103, 102, 109, 117, 111, 103, 0, 0, 0, 0, 0, 64,
     0, 0, 0, 0, 0, 0, 0, 0, 0, 0, 0, 0, 0, 0, 0, 0, 0, 0, 0, 0, 0, 0, 0, 0, 0, 0, 0, 0, 0, 0, 0, 0, 0,
     0, 0, 0, 0, 0, 0, 0]"

definition two_block :: bytes where
  "two_block =
     [88, 68, 50, 66, 0, 0, 0, 0, 0, 0, 0, 0, 0, 0, 0, 0, 0, 0, 0, 0, 0, 0, 0, 128, 1, 46, 0, 0, 0, 0, 0,
     16, 0, 0, 0, 0, 0, 0, 0, 128, 2, 46, 46, 0, 0, 0, 0, 32, 0, 0, 0, 0, 0, 0, 0, 131, 1, 98, 0, 0, 0,
     0, 0, 48, 0, 0, 0, 0, 0, 0, 0, 132, 9, 108, 98, 99, 103, 102, 109, 117, 111, 103, 0, 0, 0, 0, 0, 64,
     0, 0, 0, 46, 0, 0, 0, 2, 0, 0, 0, 98, 0, 0, 0, 6, 0, 0, 23, 46, 0, 0, 0, 4, 1, 120, 248, 217, 0, 0,
     0, 8, 0, 0, 0, 4, 0, 0, 0, 0]"

lemma two_entries_placed:
  "placeEntries (dirBlockHeader sb_v4 128 magicDir3Block magicDir2Block 8 128) 16 88 False (dotEntries 128 128 @ two_entries)
     = Inr (two_placed, 88, two_leaves)"
  by code_simp

lemma two_entries_finished: "finishBlock False 128 88 120 88 4 (sort_key leafKey two_leaves) two_placed = two_block"
  by code_simp

lemma searchDirBlock_reads_index:
  "buildBlockDirBlock sb_v4 128 8 128 128 two_entries = Inr two_block \<and> [120] \<notin> entName ` set two_entries \<and>
     searchDirBlock two_block [120] False False = Some 0x172e00000004"
proof (intro conjI)
  have "hasCRC sb_v4 = False" "hasFType sb_v4 = False" "length (dotEntries 128 128 @ two_entries) = 4"
    "dirDataHdrSize False = 16" by (simp_all add: sb_v4_def dotEntries_def two_entries_def dirDataHdrSize_def)
  then show "buildBlockDirBlock sb_v4 128 8 128 128 two_entries = Inr two_block"
    unfolding buildBlockDirBlock_eq Let_def using two_entries_placed two_entries_finished by simp
  show "searchDirBlock two_block [120] False False = Some 0x172e00000004" by code_simp
qed (simp add: two_entries_def)

end
