(* ===== verification/Read.thy ===== *)
theory Read
  imports Inode
begin

text \<open>
  Reading file content (limits.go, read.go, openfile.go): the ceilings on allocations sized
  from the image, the extent lists of the three fork formats, whole-file and symlink reads,
  and positional reads of an open file.

  \<^verbatim>\<open>safeio\<close> is a separate module. What the code uses of it is a parameter of the model, the
  record \<open>safeio\<close>; the behaviour it documents is stated as hypotheses (\<open>makes_bytes\<close>,
  \<open>guards_loops\<close>). The walk over the leaves of an extent tree ends only because the guard
  stops it, so it is a partial function into \<open>option\<close>, and that it returns is proved.
\<close>

record ('g, 'v) safeio =
  MakeBytes :: "int64 \<Rightarrow> int64 \<Rightarrow> bytes res"
  NewLoopGuard :: "nat \<Rightarrow> 'g"
  GuardNext :: "'g \<Rightarrow> 'g res"
  NewVisitSet :: 'v
  VisitCheck :: "'v \<Rightarrow> u64 \<Rightarrow> 'v res"

section \<open>Ceilings\<close>

definition DefaultMaxReadSize :: int64 where
  "DefaultMaxReadSize = push_bit 30 1"

definition maxReadLimit :: "superblock \<Rightarrow> int64" where
  "maxReadLimit sb = (if sint (maxRead sb) > 0 then maxRead sb else DefaultMaxReadSize)"

definition SetMaxReadSize :: "superblock \<Rightarrow> int64 \<Rightarrow> superblock" where
  "SetMaxReadSize sb n = sb\<lparr>maxRead := (if sint n < 0 then 0 else n)\<rparr>"

definition declaredBytes :: "superblock \<Rightarrow> int64 \<times> bool" where
  "declaredBytes sb =
     (if dBlocks sb = 0 \<or> blockSize sb = 0 then (0, False)
      else if dBlocks sb > 0x7FFFFFFFFFFFFFFF div ucast (blockSize sb) then (0x7FFFFFFFFFFFFFFF, True)
      else (dBlocks sb * ucast (blockSize sb), True))"

definition inodeMaxBytes :: "superblock \<Rightarrow> inode \<Rightarrow> int64" where
  "inodeMaxBytes sb inode =
     (let blocks = (if iNBlocks inode > push_bit 48 1 then push_bit 48 1 else iNBlocks inode)
      in (blocks + 1) * ucast (blockSize sb))"

definition fileCeiling :: "superblock \<Rightarrow> inode \<Rightarrow> int64" where
  "fileCeiling sb inode =
     (let m = inodeMaxBytes sb inode;
          (d, ok) = declaredBytes sb;
          m = (if ok \<and> sint d < sint m then d else m);
          lim = maxReadLimit sb
      in if sint lim < sint m then lim else m)"

definition checkGeometryFitsDevice :: "superblock \<Rightarrow> int64 \<Rightarrow> unit res" where
  "checkGeometryFitsDevice sb devBytes =
     (if sint devBytes \<le> 0 \<or> agCount sb = 0 then Inr ()
      else let lastAG = ucast (agCount sb - 1) * ucast (agBlocks sb) :: u64 in
        if lastAG > devBytes div ucast (blockSize sb) then Inl ErrOutOfBounds else Inr ())"

section \<open>Extent lists of a fork\<close>

definition inlineExtents :: "inode \<Rightarrow> extent list res" where
  "inlineExtents inode =
     (let fork = dataFork inode; nExts = unat (iNExts inode) in
      if length fork < nExts * 16 then Inl ErrForkTooSmall
      else let exts = map (\<lambda>i. decodeExtent (drop (i * 16) fork)) [0..<nExts] in
        bindR (validateExtents exts) (\<lambda>_. Inr exts))"

definition btreeHdrSize :: "bool \<Rightarrow> nat" where
  "btreeHdrSize crc = (if crc then 56 else 16)"

definition btreeLeafExtents :: "bytes \<Rightarrow> nat \<Rightarrow> extent list" where
  "btreeLeafExtents data n = map (\<lambda>i. decodeExtent (drop (i * 16) data)) [0..<min n (length data div 16)]"

text \<open>The descent along the leftmost pointers; \<open>lvl\<close> counts the levels still above the leaves.\<close>

fun btreeDescend :: "('g, 'v) safeio \<Rightarrow> dev \<Rightarrow> int64 \<Rightarrow> superblock \<Rightarrow> 'g \<Rightarrow> 'v \<Rightarrow> nat \<Rightarrow> u64 \<Rightarrow> u64 res" where
  "btreeDescend sio r partOff sb descend seen 0 ptr = Inr ptr"
| "btreeDescend sio r partOff sb descend seen (Suc lvl) ptr =
     bindR (GuardNext sio descend) (\<lambda>descend'.
     bindR (VisitCheck sio seen ptr) (\<lambda>seen'.
     bindR (readRawBlock r partOff sb ptr) (\<lambda>blk.
       let hdrSize = btreeHdrSize (hasCRC sb) in
       if length blk < hdrSize + 8 then Inl ErrBtree
       else let nr = unat (be16 blk 6); ptrStart = hdrSize + nr * 16 in
         if length blk < ptrStart + 8 then Inl ErrBtree
         else btreeDescend sio r partOff sb descend' seen' lvl (be64 blk ptrStart))))"

partial_function (option) btreeLeafWalk ::
  "('g, 'v) safeio \<Rightarrow> dev \<Rightarrow> int64 \<Rightarrow> superblock \<Rightarrow> 'g \<Rightarrow> 'v \<Rightarrow> u64 \<Rightarrow> extent list \<Rightarrow> extent list res option" where
  "btreeLeafWalk sio r partOff sb walk seen ptr exts =
     (case GuardNext sio walk of Inl e \<Rightarrow> Some (Inl e) | Inr walk' \<Rightarrow>
     (case VisitCheck sio seen ptr of Inl e \<Rightarrow> Some (Inl e) | Inr seen' \<Rightarrow>
     (case readRawBlock r partOff sb ptr of Inl e \<Rightarrow> Some (Inl e) | Inr blk \<Rightarrow>
       if length blk < btreeHdrSize (hasCRC sb) + 8 then Some (Inl ErrBtree)
       else if be32 blk 12 = 0xFFFFFFFF
         then Some (Inr (exts @ btreeLeafExtents (drop (btreeHdrSize (hasCRC sb)) blk) (unat (be16 blk 6))))
         else btreeLeafWalk sio r partOff sb walk' seen' (ucast (be32 blk 12))
                (exts @ btreeLeafExtents (drop (btreeHdrSize (hasCRC sb)) blk) (unat (be16 blk 6))))))"

definition btreeExtentsUnchecked ::
  "('g, 'v) safeio \<Rightarrow> dev \<Rightarrow> int64 \<Rightarrow> superblock \<Rightarrow> inode \<Rightarrow> extent list res option" where
  "btreeExtentsUnchecked sio r partOff sb inode =
     (let fork = dataFork inode in
      if length fork < 4 then Some (Inl ErrBtree)
      else let level = unat (be16 fork 0); numrecs = unat (be16 fork 2) in
        if level = 0 then Some (Inr (btreeLeafExtents (drop 4 fork) numrecs))
        else let ptrOff = 4 + numrecs * 16 in
          if length fork < ptrOff + numrecs * 8 then Some (Inl ErrBtree)
          else if length fork < ptrOff + 8 then Some (Inl Panic)
          else (case btreeDescend sio r partOff sb (NewLoopGuard sio level) (NewVisitSet sio) (level - 1) (be64 fork ptrOff) of
                  Inl e \<Rightarrow> Some (Inl e)
                | Inr ptr \<Rightarrow> btreeLeafWalk sio r partOff sb (NewLoopGuard sio 65536) (NewVisitSet sio) ptr []))"

definition btreeExtents ::
  "('g, 'v) safeio \<Rightarrow> dev \<Rightarrow> int64 \<Rightarrow> superblock \<Rightarrow> inode \<Rightarrow> extent list res option" where
  "btreeExtents sio r partOff sb inode =
     (case btreeExtentsUnchecked sio r partOff sb inode of
        None \<Rightarrow> None
      | Some res \<Rightarrow> Some (bindR res (\<lambda>exts. bindR (validateExtents exts) (\<lambda>_. Inr exts))))"

section \<open>Whole-file reads\<close>

fun readExtentsLoop :: "dev \<Rightarrow> int64 \<Rightarrow> superblock \<Rightarrow> u64 \<Rightarrow> bytes \<Rightarrow> extent list \<Rightarrow> bytes res" where
  "readExtentsLoop r partOff sb sz out [] = Inr out"
| "readExtentsLoop r partOff sb sz out (e # es) =
     (let byteStart = eStartOff e * ucast (blockSize sb) in
      if byteStart \<ge> sz then readExtentsLoop r partOff sb sz out es
      else let byteEnd = byteStart + ucast (eCount e) * ucast (blockSize sb);
               byteEnd = (if byteEnd > sz then sz else byteEnd) in
        bindR (blockByteOffset partOff sb (eStartBlock e)) (\<lambda>physOff.
        bindR (ReadAt r physOff (unat (byteEnd - byteStart))) (\<lambda>data.
          readExtentsLoop r partOff sb sz (patch (unat byteStart) data out) es)))"

definition readExtents ::
  "('g, 'v) safeio \<Rightarrow> dev \<Rightarrow> int64 \<Rightarrow> superblock \<Rightarrow> extent list \<Rightarrow> u64 \<Rightarrow> inode \<Rightarrow> bytes res" where
  "readExtents sio r partOff sb exts sz inode =
     bindR (MakeBytes sio sz (fileCeiling sb inode)) (\<lambda>out. readExtentsLoop r partOff sb sz out exts)"

definition readInline :: "inode \<Rightarrow> bytes res" where
  "readInline inode =
     (if length (dataFork inode) < unat (iSize inode) then Inl ErrInlineSize
      else Inr (take (unat (iSize inode)) (dataFork inode)))"

definition readFileData ::
  "('g, 'v) safeio \<Rightarrow> dev \<Rightarrow> int64 \<Rightarrow> superblock \<Rightarrow> inode \<Rightarrow> bytes res option" where
  "readFileData sio r partOff sb inode =
     (if iFormat inode = inodeFmtLocal then Some (readInline inode)
      else if iFormat inode = inodeFmtExtents
        then Some (bindR (inlineExtents inode) (\<lambda>exts. readExtents sio r partOff sb exts (iSize inode) inode))
      else if iFormat inode = inodeFmtBtree
        then map_option (\<lambda>res. bindR res (\<lambda>exts. readExtents sio r partOff sb exts (iSize inode) inode))
               (btreeExtents sio r partOff sb inode)
      else Some (Inl ErrFormat))"

section \<open>Remote symlinks\<close>

text \<open>The bytes a block contributes: its header, when it has one, is dropped.\<close>

definition symlinkPayload :: "bytes \<Rightarrow> bytes" where
  "symlinkPayload blk =
     (let hdr = (if 4 \<le> length blk \<and> take 4 blk = [0x58, 0x53, 0x4C, 0x4D] then 56 else 0) in drop hdr blk)"

fun symlinkBlocks :: "dev \<Rightarrow> int64 \<Rightarrow> superblock \<Rightarrow> nat \<Rightarrow> bytes \<Rightarrow> u64 list \<Rightarrow> (bytes \<times> nat) res" where
  "symlinkBlocks r partOff sb remaining out [] = Inr (out, remaining)"
| "symlinkBlocks r partOff sb remaining out (b # bs) =
     (if remaining = 0 then Inr (out, remaining)
      else bindR (readRawBlock r partOff sb b) (\<lambda>blk.
        let payload = take remaining (symlinkPayload blk)
        in symlinkBlocks r partOff sb (remaining - length payload) (out @ payload) bs))"

text \<open>The blocks of an extent list, in order: \<open>e.startBlock + b\<close> for \<open>b < e.count\<close>.\<close>

definition extentBlocks :: "extent \<Rightarrow> u64 list" where
  "extentBlocks e = map (\<lambda>b. eStartBlock e + of_nat b) [0..<unat (eCount e)]"

definition readSymlinkRemote ::
  "('g, 'v) safeio \<Rightarrow> dev \<Rightarrow> int64 \<Rightarrow> superblock \<Rightarrow> inode \<Rightarrow> extent list \<Rightarrow> bytes res" where
  "readSymlinkRemote sio r partOff sb inode exts =
     bindR (MakeBytes sio (iSize inode) (fileCeiling sb inode)) (\<lambda>_.
     bindR (symlinkBlocks r partOff sb (unat (iSize inode)) [] (concat (map extentBlocks exts))) (\<lambda>(out, _). Inr out))"

definition readSymlinkTarget ::
  "('g, 'v) safeio \<Rightarrow> dev \<Rightarrow> int64 \<Rightarrow> superblock \<Rightarrow> inode \<Rightarrow> bytes res option" where
  "readSymlinkTarget sio r partOff sb inode =
     (if iFormat inode = inodeFmtLocal then Some (readInline inode)
      else if iFormat inode = inodeFmtExtents
        then Some (bindR (inlineExtents inode) (readSymlinkRemote sio r partOff sb inode))
      else if iFormat inode = inodeFmtBtree
        then map_option (\<lambda>res. bindR res (readSymlinkRemote sio r partOff sb inode)) (btreeExtents sio r partOff sb inode)
      else Some (Inl ErrFormat))"

section \<open>Positional reads\<close>

record xfsFile =
  xSize :: int64
  xInline :: bytes
  xExts :: "extent list"

text \<open>
  \<^verbatim>\<open>OpenFile\<close> after the path lookup and the regular-file check. \<^verbatim>\<open>append([]byte(nil), b...)\<close>
  is nil exactly when \<open>b\<close> is empty, so the nil test of \<^verbatim>\<open>ReadAt\<close> is a test for the empty list.
\<close>

definition openInode ::
  "('g, 'v) safeio \<Rightarrow> dev \<Rightarrow> int64 \<Rightarrow> superblock \<Rightarrow> inode \<Rightarrow> xfsFile res option" where
  "openInode sio r partOff sb inode =
     (let sz = (if iSize inode > push_bit 62 1 then push_bit 62 1 else iSize inode);
          file = (\<lambda>inline exts. \<lparr>xSize = sz, xInline = inline, xExts = sort_key eStartOff exts\<rparr>)
      in if iFormat inode = inodeFmtLocal then Some (bindR (readInline inode) (\<lambda>bs. Inr (file bs [])))
         else if iFormat inode = inodeFmtExtents then Some (bindR (inlineExtents inode) (\<lambda>exts. Inr (file [] exts)))
         else if iFormat inode = inodeFmtBtree
           then map_option (\<lambda>res. bindR res (\<lambda>exts. Inr (file [] exts))) (btreeExtents sio r partOff sb inode)
         else Some (Inl ErrFormat))"

definition smax :: "int64 \<Rightarrow> int64 \<Rightarrow> int64" where
  "smax a b = (if sint a < sint b then b else a)"

definition smin :: "int64 \<Rightarrow> int64 \<Rightarrow> int64" where
  "smin a b = (if sint b < sint a then b else a)"

fun fileReadExtents :: "dev \<Rightarrow> int64 \<Rightarrow> superblock \<Rightarrow> int64 \<Rightarrow> int64 \<Rightarrow> bytes \<Rightarrow> extent list \<Rightarrow> bytes res" where
  "fileReadExtents r partOff sb off hi dst [] = Inr dst"
| "fileReadExtents r partOff sb off hi dst (e # es) =
     (let bs = ucast (blockSize sb) :: int64 in
      if eStartOff e > hi div bs + 1 then Inr dst
      else let eStart = eStartOff e * bs;
               eEnd = eStart + ucast (eCount e) * bs;
               lo = smax eStart off;
               top = smin eEnd hi
           in if sint top \<le> sint lo then fileReadExtents r partOff sb off hi dst es
              else bindR (blockByteOffset partOff sb (eStartBlock e)) (\<lambda>phys.
                   bindR (ReadAt r (phys + (lo - eStart)) (unat (top - lo))) (\<lambda>data.
                     fileReadExtents r partOff sb off hi (patch (unat (lo - off)) data dst) es)))"

text \<open>
  \<^verbatim>\<open>xfsFile.ReadAt\<close> with a buffer of \<open>n\<close> bytes: the bytes read, and whether \<^verbatim>\<open>io.EOF\<close> came
  with them.
\<close>

definition fileReadAt :: "dev \<Rightarrow> int64 \<Rightarrow> superblock \<Rightarrow> xfsFile \<Rightarrow> nat \<Rightarrow> int64 \<Rightarrow> (bytes \<times> bool) res" where
  "fileReadAt r partOff sb f n off =
     (if sint off < 0 then Inl ErrInvalidArg
      else if sint off \<ge> sint (xSize f) then Inr ([], True)
      else let want = of_nat n :: int64;
               want = (if sint (off + want) > sint (xSize f) then xSize f - off else want);
               dst = replicate (unat want) 0;
               eof = sint want < int n
           in if xInline f \<noteq> []
              then Inr (patch 0 (drop (unat (smin off (of_nat (length (xInline f))))) (xInline f)) dst, eof)
              else bindR (fileReadExtents r partOff sb off (off + want) dst (xExts f)) (\<lambda>dst. Inr (dst, eof)))"

section \<open>What safeio promises\<close>

fun guardSteps :: "('g, 'v) safeio \<Rightarrow> 'g \<Rightarrow> nat \<Rightarrow> 'g res" where
  "guardSteps sio g 0 = Inr g"
| "guardSteps sio g (Suc k) = bindR (GuardNext sio g) (\<lambda>g'. guardSteps sio g' k)"

text \<open>A loop guard made for \<open>k\<close> rounds refuses the round after them.\<close>

definition guards_loops :: "('g, 'v) safeio \<Rightarrow> bool" where
  "guards_loops sio \<longleftrightarrow> (\<forall>k. \<exists>e. guardSteps sio (NewLoopGuard sio k) (Suc k) = Inl e)"

text \<open>
  \<^verbatim>\<open>MakeBytes\<close> returns a zeroed buffer of the size asked for when that size is within the
  limit, and an error otherwise.
\<close>

definition makes_bytes :: "('g, 'v) safeio \<Rightarrow> bool" where
  "makes_bytes sio \<longleftrightarrow> (\<forall>n lim. MakeBytes sio n lim =
     (if 0 \<le> sint n \<and> sint n \<le> sint lim then Inr (replicate (nat (sint n)) 0) else Inl ErrTooLarge))"

text \<open>A counter and a list of visited numbers keep both promises.\<close>

definition safeio_ref :: "(nat, u64 list) safeio" where
  "safeio_ref = \<lparr>MakeBytes = (\<lambda>n lim. if 0 \<le> sint n \<and> sint n \<le> sint lim then Inr (replicate (nat (sint n)) 0) else Inl ErrTooLarge),
     NewLoopGuard = (\<lambda>k. k), GuardNext = (\<lambda>g. case g of 0 \<Rightarrow> Inl ErrLoopLimit | Suc g' \<Rightarrow> Inr g'),
     NewVisitSet = [], VisitCheck = (\<lambda>v k. if k \<in> set v then Inl ErrCycle else Inr (k # v))\<rparr>"

lemma safeio_ref_guards: "guards_loops safeio_ref"
proof -
  have "guardSteps safeio_ref k (Suc k) = Inl ErrLoopLimit" for k
    by (induction k) (simp_all add: safeio_ref_def)
  moreover have "NewLoopGuard safeio_ref k = k" for k by (simp add: safeio_ref_def)
  ultimately show ?thesis unfolding guards_loops_def by metis
qed

lemma safeio_ref_bytes: "makes_bytes safeio_ref"
  by (simp add: makes_bytes_def safeio_ref_def)

section \<open>Every read returns\<close>

lemma btreeLeafWalk_returns:
  assumes "guardSteps sio walk k = Inl e"
  shows "\<exists>res. btreeLeafWalk sio r partOff sb walk seen ptr exts = Some res"
  using assms
proof (induction k arbitrary: walk seen ptr exts)
  case 0
  then show ?case by simp
next
  case (Suc k)
  show ?case
  proof (cases "GuardNext sio walk")
    case (Inl e')
    then show ?thesis by (subst btreeLeafWalk.simps) simp
  next
    case (Inr walk')
    with Suc.prems have "guardSteps sio walk' k = Inl e" by simp
    from Suc.IH [OF this] Inr show ?thesis
      by (subst btreeLeafWalk.simps) (auto split: sum.splits)
  qed
qed

lemma btreeExtents_returns:
  assumes "guards_loops sio"
  shows "\<exists>res. btreeExtents sio r partOff sb inode = Some res"
proof -
  obtain e where g: "guardSteps sio (NewLoopGuard sio 65536) (Suc 65536) = Inl e"
    using assms unfolding guards_loops_def by blast
  have "\<exists>res. btreeLeafWalk sio r partOff sb (NewLoopGuard sio 65536) seen ptr exts = Some res" for seen ptr exts
    using g by (rule btreeLeafWalk_returns)
  then have "\<exists>res. btreeExtentsUnchecked sio r partOff sb inode = Some res"
    by (auto simp: btreeExtentsUnchecked_def Let_def split: sum.splits)
  then show ?thesis by (auto simp: btreeExtents_def)
qed

text \<open>
  C37. Reading a file, reading a symlink target and opening a file return on every image,
  whatever the extent tree on disk looks like, cyclic sibling chains included: the guard bounds
  the walk.
\<close>

theorem reads_return:
  assumes "guards_loops sio"
  shows "(\<exists>res. readFileData sio r partOff sb inode = Some res) \<and>
    (\<exists>res. readSymlinkTarget sio r partOff sb inode = Some res) \<and>
    (\<exists>res. openInode sio r partOff sb inode = Some res)"
  using btreeExtents_returns [OF assms, of r partOff sb inode]
  by (auto simp: readFileData_def readSymlinkTarget_def openInode_def Let_def)

theorem reads_return_witness:
  "\<exists>res. readFileData safeio_ref \<lparr>dsize = 0, dbytes = \<lambda>_. 0\<rparr> 0 sb_example inode_example = Some res"
  using reads_return [OF safeio_ref_guards, of "\<lparr>dsize = 0, dbytes = \<lambda>_. 0\<rparr>" 0 sb_example inode_example] by blast

section \<open>Allocations stay below the ceiling\<close>

text \<open>
  The per-inode ceiling \<^verbatim>\<open>inodeMaxBytes\<close> is exact and positive for every block size up to
  16 KiB. For 32 KiB blocks the cap on the block count is too high to keep the product within
  \<^verbatim>\<open>int64\<close>: a forged count makes the ceiling negative, and every size is then refused.
\<close>

theorem inodeMaxBytes_range:
  assumes "blockSize sb \<noteq> 0"
  shows "(unat (blockSize sb) \<le> 16384 \<longrightarrow>
      sint (inodeMaxBytes sb inode) = (min (int (unat (iNBlocks inode))) (2 ^ 48) + 1) * int (unat (blockSize sb))) \<and>
    (blockSize sb = 32768 \<and> 2 ^ 48 \<le> unat (iNBlocks inode) \<longrightarrow> sint (inodeMaxBytes sb inode) < 0)"
proof -
  let ?n = "min (unat (iNBlocks inode)) (2 ^ 48)" and ?B = "unat (blockSize sb)"
  define b :: u64 where "b = (if iNBlocks inode > push_bit 48 1 then push_bit 48 1 else iNBlocks inode)"
  have m: "inodeMaxBytes sb inode = (b + 1) * ucast (blockSize sb)" by (simp add: inodeMaxBytes_def b_def)
  have b: "unat b = ?n" by (auto simp: b_def word_less_nat_alt)
  then have b1: "unat (b + 1) = ?n + 1" by (subst unat_add_small) simp_all
  have exact: "sint (inodeMaxBytes sb inode) = int ((?n + 1) * ?B)" if "?B \<le> 16384"
  proof -
    have le: "(?n + 1) * ?B \<le> (2 ^ 48 + 1) * 16384" using that by (intro mult_le_mono) simp_all
    then have "unat (inodeMaxBytes sb inode) = (?n + 1) * ?B"
      unfolding m by (subst unat_mult_small) (simp_all only: b1 unat_ucast_up, simp)
    then show ?thesis using sint_unat [of "inodeMaxBytes sb inode"] le by simp
  qed
  have "sint (inodeMaxBytes sb inode) < 0" if "blockSize sb = 32768" "2 ^ 48 \<le> unat (iNBlocks inode)"
  proof -
    have "b = 2 ^ 48" using b that(2) by (simp add: word_unat_eq_iff)
    then have "inodeMaxBytes sb inode = (2 ^ 48 + 1) * 32768" unfolding m that(1) by simp
    then show ?thesis by simp
  qed
  moreover have "int ((?n + 1) * ?B) = (min (int (unat (iNBlocks inode))) (2 ^ 48) + 1) * int ?B"
    by (simp only: of_nat_mult of_nat_add of_nat_min of_nat_1 of_nat_power of_nat_numeral)
  ultimately show ?thesis using exact by simp
qed

theorem inodeMaxBytes_range_witness:
  "sint (inodeMaxBytes sb_example (inode_example\<lparr>iNBlocks := 7\<rparr>)) = 8 * 4096 \<and>
   sint (inodeMaxBytes (sb_example\<lparr>blockSize := 32768\<rparr>) (inode_example\<lparr>iNBlocks := 0x1000000000000\<rparr>)) < 0"
  using inodeMaxBytes_range [of sb_example "inode_example\<lparr>iNBlocks := 7\<rparr>"]
    inodeMaxBytes_range [of "sb_example\<lparr>blockSize := 32768\<rparr>" "inode_example\<lparr>iNBlocks := 0x1000000000000\<rparr>"]
  by simp

lemma maxReadLimit_pos: "0 < sint (maxReadLimit sb)"
proof -
  have "0 < sint DefaultMaxReadSize" by code_simp
  then show ?thesis by (simp add: maxReadLimit_def)
qed

lemma fileCeiling_le: "sint (fileCeiling sb inode) \<le> sint (maxReadLimit sb)"
  by (auto simp: fileCeiling_def Let_def split: prod.splits)

lemma length_readExtentsLoop:
  "readExtentsLoop r partOff sb sz out exts = Inr out' \<Longrightarrow> length out' = length out"
  by (induction exts arbitrary: out) (auto simp: Let_def bindR_eq_Inr split: if_splits)

lemma length_symlinkBlocks:
  "symlinkBlocks r partOff sb remaining out bs = Inr (out', rem') \<Longrightarrow> length out' + rem' = length out + remaining"
  by (induction bs arbitrary: remaining out) (auto simp: Let_def bindR_eq_Inr split: if_splits)

text \<open>
  C38. What a read materialises is bounded, whatever sizes and counts the image declares. What
  is returned is as long as \<^verbatim>\<open>di_size\<close> says for a file and no longer for a symlink. With its content
  in blocks it is at most the file's ceiling (\<^verbatim>\<open>fileCeiling\<close>), which is at most \<^verbatim>\<open>MaxReadSize\<close>; a
  file that opens and whose size exceeds \<^verbatim>\<open>MaxReadSize\<close> is refused with \<^verbatim>\<open>ErrTooLarge\<close>. Content
  inside the inode is bounded by the inode alone: \<^verbatim>\<open>MaxReadSize\<close> is not consulted for it, although
  the documentation of \<^verbatim>\<open>SetMaxReadSize\<close> has no such exception.
\<close>

theorem reads_bounded:
  assumes "makes_bytes sio"
  shows "(readFileData sio r partOff sb inode = Some (Inr data) \<longrightarrow> length data = unat (iSize inode) \<and>
      (if iFormat inode = inodeFmtLocal then length data \<le> length (dataFork inode)
       else int (length data) \<le> sint (fileCeiling sb inode) \<and> int (length data) \<le> sint (maxReadLimit sb))) \<and>
    (readSymlinkTarget sio r partOff sb inode = Some (Inr target) \<longrightarrow> length target \<le> unat (iSize inode) \<and>
      (if iFormat inode = inodeFmtLocal then length target \<le> length (dataFork inode)
       else int (length target) \<le> sint (fileCeiling sb inode) \<and> int (length target) \<le> sint (maxReadLimit sb))) \<and>
    (openInode sio r partOff sb inode = Some (Inr f) \<and> iFormat inode \<noteq> inodeFmtLocal \<and> sint (maxReadLimit sb) < int (unat (iSize inode)) \<longrightarrow>
      readFileData sio r partOff sb inode = Some (Inl ErrTooLarge))"
proof -
  have pos: "sint (iSize inode) = int (unat (iSize inode))" if "0 \<le> sint (iSize inode)"
    using that by (simp add: unat_sint sint_unat)
  have mk: "length out = unat (iSize inode) \<and> int (unat (iSize inode)) \<le> sint (fileCeiling sb inode)"
    if "MakeBytes sio (iSize inode) (fileCeiling sb inode) = Inr out" for out
    using that assms pos by (auto simp: makes_bytes_def split: if_splits)
  have whole: "length data = unat (iSize inode) \<and> int (length data) \<le> sint (fileCeiling sb inode) \<and> int (length data) \<le> sint (maxReadLimit sb)"
    if "readExtents sio r partOff sb exts (iSize inode) inode = Inr data" for exts
    using that mk fileCeiling_le [of sb inode] by (fastforce simp: readExtents_def bindR_eq_Inr dest: length_readExtentsLoop)
  have link: "length target \<le> unat (iSize inode) \<and> int (length target) \<le> sint (fileCeiling sb inode) \<and> int (length target) \<le> sint (maxReadLimit sb)"
    if "readSymlinkRemote sio r partOff sb inode exts = Inr target" for exts
  proof -
    from that obtain out rem' where "MakeBytes sio (iSize inode) (fileCeiling sb inode) = Inr out"
      "symlinkBlocks r partOff sb (unat (iSize inode)) [] (concat (map extentBlocks exts)) = Inr (target, rem')"
      by (auto simp: readSymlinkRemote_def bindR_eq_Inr)
    then have "length target \<le> unat (iSize inode)" "int (unat (iSize inode)) \<le> sint (fileCeiling sb inode)"
      using mk length_symlinkBlocks by fastforce+
    then show ?thesis using fileCeiling_le [of sb inode] by linarith
  qed
  have large: "readExtents sio r partOff sb exts (iSize inode) inode = Inl ErrTooLarge" if "sint (maxReadLimit sb) < int (unat (iSize inode))" for exts
    using that assms pos fileCeiling_le [of sb inode] by (auto simp: readExtents_def makes_bytes_def)
  show ?thesis
    using whole link large
    by (auto simp: readFileData_def readSymlinkTarget_def readInline_def openInode_def Let_def bindR_eq_Inr split: if_splits)
qed

text \<open>The read limit plays no part for content inside the inode.\<close>

lemma inline_ignores_limit:
  assumes "iFormat inode = inodeFmtLocal" and "unat (iSize inode) \<le> length (dataFork inode)"
  shows "readFileData sio r partOff (sb\<lparr>maxRead := n\<rparr>) inode = Some (Inr (take (unat (iSize inode)) (dataFork inode)))"
  using assms by (simp add: readFileData_def readInline_def)

text \<open>Neither reader looks at the flag of an unwritten extent.\<close>

lemma unwritten_ignored:
  "readExtentsLoop r partOff sb sz out (map (\<lambda>e. e\<lparr>eUnwritten := u\<rparr>) exts) = readExtentsLoop r partOff sb sz out exts"
  "fileReadExtents r partOff sb off hi dst (map (\<lambda>e. e\<lparr>eUnwritten := u\<rparr>) exts) = fileReadExtents r partOff sb off hi dst exts"
proof -
  show "readExtentsLoop r partOff sb sz out (map (\<lambda>e. e\<lparr>eUnwritten := u\<rparr>) exts) = readExtentsLoop r partOff sb sz out exts"
    by (induction exts arbitrary: out) (simp_all add: Let_def)
  show "fileReadExtents r partOff sb off hi dst (map (\<lambda>e. e\<lparr>eUnwritten := u\<rparr>) exts) = fileReadExtents r partOff sb off hi dst exts"
    by (induction exts arbitrary: dst) (simp_all add: Let_def)
qed

section \<open>Which byte of the image a file byte is\<close>

text \<open>
  \<open>maps_byte sb e i\<close>: the extent maps byte \<open>i\<close> of the file; \<open>image_byte\<close> is the byte of the
  device it maps it to. \<open>no_wrap\<close>: the extent ends below \<open>2 ^ 63\<close> bytes of file offset.
\<close>

definition maps_byte :: "superblock \<Rightarrow> extent \<Rightarrow> nat \<Rightarrow> bool" where
  "maps_byte sb e i \<longleftrightarrow> unat (eStartOff e) * unat (blockSize sb) \<le> i \<and>
     i < (unat (eStartOff e) + unat (eCount e)) * unat (blockSize sb)"

definition image_byte :: "dev \<Rightarrow> int64 \<Rightarrow> superblock \<Rightarrow> extent \<Rightarrow> nat \<Rightarrow> byte" where
  "image_byte d partOff sb e i =
     dbytes d (unat partOff + unat (fsbToPhysBlock sb (eStartBlock e)) * unat (blockSize sb)
               + (i - unat (eStartOff e) * unat (blockSize sb)))"

definition no_wrap :: "superblock \<Rightarrow> extent \<Rightarrow> bool" where
  "no_wrap sb e \<longleftrightarrow> (unat (eStartOff e) + unat (eCount e)) * unat (blockSize sb) < 2 ^ 63"

definition separate :: "superblock \<Rightarrow> extent \<Rightarrow> extent \<Rightarrow> bool" where
  "separate sb a b \<longleftrightarrow> (\<forall>i. \<not> (maps_byte sb a i \<and> maps_byte sb b i))"

definition filled :: "superblock \<Rightarrow> dev \<Rightarrow> int64 \<Rightarrow> extent list \<Rightarrow> nat \<Rightarrow> bytes \<Rightarrow> bytes \<Rightarrow> bool" where
  "filled sb d partOff es base old new \<longleftrightarrow> length new = length old \<and>
     (\<forall>j<length old. (\<forall>e\<in>set es. maps_byte sb e (base + j) \<longrightarrow> new ! j = image_byte d partOff sb e (base + j)) \<and>
        ((\<forall>e\<in>set es. \<not> maps_byte sb e (base + j)) \<longrightarrow> new ! j = old ! j))"

text \<open>The part of an extent below the file size can be read from the device.\<close>

definition readable :: "dev \<Rightarrow> int64 \<Rightarrow> superblock \<Rightarrow> nat \<Rightarrow> extent \<Rightarrow> bool" where
  "readable d partOff sb sz e \<longleftrightarrow> (unat (eStartOff e) * unat (blockSize sb) < sz \<longrightarrow>
     addressable partOff sb (eStartBlock e) \<and>
     (eCount e \<noteq> 0 \<longrightarrow> unat partOff + unat (fsbToPhysBlock sb (eStartBlock e)) * unat (blockSize sb)
       + (min ((unat (eStartOff e) + unat (eCount e)) * unat (blockSize sb)) sz - unat (eStartOff e) * unat (blockSize sb)) \<le> dsize d))"

lemma ReadAt_bytes:
  assumes "ReadAt d off n = Inr xs" and "unat off < 2 ^ 63"
  shows "length xs = n" and "\<And>j. j < n \<Longrightarrow> xs ! j = dbytes d (unat off + j)" and "n = 0 \<or> unat off + n \<le> dsize d"
  using assms by (auto simp: ReadAt_def sint_unat split: if_splits)

lemma ReadAt_ok:
  assumes "unat off < 2 ^ 63" and "unat off + n \<le> dsize d"
  shows "ReadAt d off n = Inr (map (dbytes d) [unat off..<unat off + n])"
  using assms by (auto simp: ReadAt_def sint_unat)

lemma extent_words:
  assumes "no_wrap sb e"
  shows "unat (eStartOff e * ucast (blockSize sb)) = unat (eStartOff e) * unat (blockSize sb)"
    and "unat (eStartOff e * ucast (blockSize sb) + ucast (eCount e) * ucast (blockSize sb)) =
      (unat (eStartOff e) + unat (eCount e)) * unat (blockSize sb)"
proof -
  let ?x = "eStartOff e * ucast (blockSize sb)" and ?y = "ucast (eCount e) * ucast (blockSize sb) :: u64"
  have lt: "unat (eStartOff e) * unat (blockSize sb) + unat (eCount e) * unat (blockSize sb) < 2 ^ 63"
    using assms by (simp only: no_wrap_def add_mult_distrib)
  show x: "unat ?x = unat (eStartOff e) * unat (blockSize sb)"
    by (subst unat_mult_small) (use lt in simp_all)
  have y: "unat ?y = unat (eCount e) * unat (blockSize sb)"
    by (subst unat_mult_small) (use lt in simp_all)
  show "unat (?x + ?y) = (unat (eStartOff e) + unat (eCount e)) * unat (blockSize sb)"
    by (subst unat_add_small) (use lt in \<open>simp_all add: x y add_mult_distrib\<close>)
qed

text \<open>
  One step of either loop: patching the bytes of one extent into the buffer, then filling the
  rest from extents that are separate from it.
\<close>

lemma filled_step:
  assumes rest: "filled sb d partOff es base (patch k data buf) new"
    and sep: "\<forall>e'\<in>set es. separate sb e e'"
    and k: "k + length data \<le> length buf"
    and inside: "\<And>j. j < length buf \<Longrightarrow> maps_byte sb e (base + j) \<longleftrightarrow> k \<le> j \<and> j < k + length data"
    and data: "\<And>j. j < length data \<Longrightarrow> data ! j = image_byte d partOff sb e (base + k + j)"
  shows "filled sb d partOff (e # es) base buf new"
  unfolding filled_def
proof (intro conjI allI impI ballI)
  show len: "length new = length buf" using rest by (simp add: filled_def)
  fix j assume j: "j < length buf"
  have r: "(\<forall>e\<in>set es. maps_byte sb e (base + j) \<longrightarrow> new ! j = image_byte d partOff sb e (base + j))"
    "(\<forall>e\<in>set es. \<not> maps_byte sb e (base + j)) \<Longrightarrow> new ! j = patch k data buf ! j"
    using rest j by (simp_all add: filled_def)
  have p: "patch k data buf ! j = (if k \<le> j \<and> j < k + length data then data ! (j - k) else buf ! j)"
    using j by (rule nth_patch)
  {
    fix e' assume e': "e' \<in> set (e # es)" and m: "maps_byte sb e' (base + j)"
    show "new ! j = image_byte d partOff sb e' (base + j)"
    proof (cases "e' \<in> set es")
      case True
      with r m show ?thesis by simp
    next
      case False
      with e' have [simp]: "e' = e" by simp
      have "\<forall>e\<in>set es. \<not> maps_byte sb e (base + j)" using sep m by (auto simp: separate_def)
      moreover have "k \<le> j" "j < k + length data" using inside [OF j] m by simp_all
      ultimately show ?thesis using r(2) p data [of "j - k"] by simp
    qed
  next
    assume n: "\<forall>e\<in>set (e # es). \<not> maps_byte sb e (base + j)"
    then have "\<not> (k \<le> j \<and> j < k + length data)" using inside [OF j] by simp
    then show "new ! j = buf ! j" using n r(2) p by auto
  }
qed

lemma filled_skip:
  assumes "filled sb d partOff es base buf new" and "\<And>j. j < length buf \<Longrightarrow> \<not> maps_byte sb e (base + j)"
  shows "filled sb d partOff (e # es) base buf new"
  using assms by (simp add: filled_def)

section \<open>The content of a file\<close>

lemma readExtentsLoop_step:
  assumes wrap: "no_wrap sb e" and part: "0 \<le> sint partOff" and len: "length out = unat sz"
    and read: "readExtentsLoop d partOff sb sz out (e # es) = Inr out'"
    and start: "unat (eStartOff e) * unat (blockSize sb) < unat sz"
  obtains data where "readExtentsLoop d partOff sb sz (patch (unat (eStartOff e) * unat (blockSize sb)) data out) es = Inr out'"
    "length data = min ((unat (eStartOff e) + unat (eCount e)) * unat (blockSize sb)) (unat sz) - unat (eStartOff e) * unat (blockSize sb)"
    "\<And>j. j < length data \<Longrightarrow> data ! j = image_byte d partOff sb e (unat (eStartOff e) * unat (blockSize sb) + j)"
    "readable d partOff sb (unat sz) e"
proof -
  let ?B = "unat (blockSize sb)" and ?bs = "ucast (blockSize sb) :: u64"
  define b0 b1 where "b0 = eStartOff e * ?bs" and "b1 = b0 + ucast (eCount e) * ?bs"
  define b2 where "b2 = (if b1 > sz then sz else b1)"
  note w = extent_words [OF wrap, folded b0_def, folded b1_def]
  have "\<not> sz \<le> b0" using start w(1) by (simp add: word_le_nat_alt)
  then obtain off data where off: "blockByteOffset partOff sb (eStartBlock e) = Inr off"
    and rd: "ReadAt d off (unat (b2 - b0)) = Inr data"
    and rest: "readExtentsLoop d partOff sb sz (patch (unat b0) data out) es = Inr out'"
    using read unfolding readExtentsLoop.simps Let_def b0_def [symmetric] b1_def [symmetric] b2_def [symmetric]
    by (auto simp: bindR_eq_Inr)
  note pos = blockByteOffset_exact(2,3) [OF off part]
  have "unat b2 = min (unat b1) (unat sz)" by (simp add: b2_def word_less_nat_alt min_def)
  moreover have le: "unat b0 \<le> unat b1" using w by (simp add: add_mult_distrib)
  ultimately have n: "unat (b2 - b0) = min ((unat (eStartOff e) + unat (eCount e)) * ?B) (unat sz) - unat (eStartOff e) * ?B"
    using w start by (simp add: unat_sub_if')
  have "blockSize sb \<noteq> 0" using off by (auto simp: blockByteOffset_def Let_def split: if_splits)
  then have addr: "addressable partOff sb (eStartBlock e)" using part pos by (simp add: addressable_def)
  have "unat off < 2 ^ 63" using pos by simp
  note bytes = ReadAt_bytes [OF rd this]
  have "0 < unat (b2 - b0)" if "eCount e \<noteq> 0"
  proof -
    have "0 < unat (eCount e) * ?B" using that \<open>blockSize sb \<noteq> 0\<close> by (simp add: unat_gt_0)
    then show ?thesis unfolding n using start by (simp add: add_mult_distrib)
  qed
  then have "readable d partOff sb (unat sz) e"
    unfolding readable_def n [symmetric] pos(1) [symmetric] using addr bytes(3) by auto
  moreover have "data ! j = image_byte d partOff sb e (unat (eStartOff e) * ?B + j)" if "j < length data" for j
    using bytes(1,2) that pos(1) by (simp add: image_byte_def)
  moreover have "length data = min ((unat (eStartOff e) + unat (eCount e)) * ?B) (unat sz) - unat (eStartOff e) * ?B"
    using bytes(1) n by simp
  ultimately show ?thesis using that rest unfolding w(1) by blast
qed

lemma readExtentsLoop_filled:
  assumes "\<forall>e\<in>set es. no_wrap sb e" and "sorted_wrt (separate sb) es" and "0 \<le> sint partOff"
    and "length out = unat sz" and "readExtentsLoop d partOff sb sz out es = Inr out'"
  shows "filled sb d partOff es 0 out out' \<and> (\<forall>e\<in>set es. readable d partOff sb (unat sz) e)"
  using assms
proof (induction es arbitrary: out)
  case Nil
  then show ?case by (simp add: filled_def)
next
  case (Cons e es)
  let ?B = "unat (blockSize sb)"
  have wrap: "no_wrap sb e" using Cons.prems by simp
  show ?case
  proof (cases "unat (eStartOff e) * ?B < unat sz")
    case False
    then have "sz \<le> eStartOff e * ucast (blockSize sb)"
      using extent_words(1) [OF wrap] by (simp add: word_le_nat_alt)
    then have "readExtentsLoop d partOff sb sz out es = Inr out'" using Cons.prems(5) by simp
    then have "filled sb d partOff es 0 out out' \<and> (\<forall>e\<in>set es. readable d partOff sb (unat sz) e)"
      using Cons.IH Cons.prems by simp
    moreover have "\<not> maps_byte sb e j" if "j < length out" for j
      using False that Cons.prems(4) by (simp add: maps_byte_def)
    moreover have "readable d partOff sb (unat sz) e" using False by (simp add: readable_def)
    ultimately show ?thesis using filled_skip [of sb d partOff es 0 out out' e] by simp
  next
    case True
    obtain data where rest: "readExtentsLoop d partOff sb sz (patch (unat (eStartOff e) * ?B) data out) es = Inr out'"
      and data: "length data = min ((unat (eStartOff e) + unat (eCount e)) * ?B) (unat sz) - unat (eStartOff e) * ?B"
      "\<And>j. j < length data \<Longrightarrow> data ! j = image_byte d partOff sb e (unat (eStartOff e) * ?B + j)"
      and ok: "readable d partOff sb (unat sz) e"
      using readExtentsLoop_step [OF wrap Cons.prems(3,4,5) True] by metis
    have IH: "filled sb d partOff es 0 (patch (unat (eStartOff e) * ?B) data out) out'"
      "\<forall>e\<in>set es. readable d partOff sb (unat sz) e"
      using Cons.IH [OF _ _ _ _ rest] Cons.prems by simp_all
    have "filled sb d partOff (e # es) 0 out out'"
    proof (rule filled_step [OF IH(1)])
      show "\<forall>e'\<in>set es. separate sb e e'" using Cons.prems(2) by simp
      show "unat (eStartOff e) * ?B + length data \<le> length out" using data(1) True Cons.prems(4) by simp
      show "maps_byte sb e (0 + j) \<longleftrightarrow> unat (eStartOff e) * ?B \<le> j \<and> j < unat (eStartOff e) * ?B + length data"
        if "j < length out" for j
        using that data(1) True Cons.prems(4) by (auto simp: maps_byte_def add_mult_distrib)
      show "data ! j = image_byte d partOff sb e (0 + unat (eStartOff e) * ?B + j)" if "j < length data" for j
        using data(2) [OF that] by simp
    qed
    with IH ok show ?thesis by simp
  qed
qed

section \<open>Positional reads\<close>

lemma smax_unat: "unat a < 2 ^ 63 \<Longrightarrow> unat b < 2 ^ 63 \<Longrightarrow> unat (smax a b) = max (unat a) (unat b)"
  and smin_unat: "unat a < 2 ^ 63 \<Longrightarrow> unat b < 2 ^ 63 \<Longrightarrow> unat (smin a b) = min (unat a) (unat b)"
  by (simp_all add: smax_def smin_def sint_less_unat max_def min_def)

lemma fileReadExtents_step:
  assumes wrap: "no_wrap sb e" and part: "0 \<le> sint partOff" and dev: "dsize d < 2 ^ 63"
    and ok: "readable d partOff sb sz e" and win: "unat off \<le> unat hi" "unat hi \<le> sz" "unat hi < 2 ^ 62"
    and near: "\<not> eStartOff e > hi div ucast (blockSize sb) + 1" and B: "blockSize sb \<noteq> 0"
  defines "lo \<equiv> max (unat (eStartOff e) * unat (blockSize sb)) (unat off)"
    and "tp \<equiv> min ((unat (eStartOff e) + unat (eCount e)) * unat (blockSize sb)) (unat hi)"
  shows "if tp \<le> lo then fileReadExtents d partOff sb off hi dst (e # es) = fileReadExtents d partOff sb off hi dst es
    else \<exists>data. fileReadExtents d partOff sb off hi dst (e # es) =
        fileReadExtents d partOff sb off hi (patch (lo - unat off) data dst) es \<and>
      length data = tp - lo \<and> (\<forall>j<length data. data ! j = image_byte d partOff sb e (lo + j))"
proof -
  let ?B = "unat (blockSize sb)" and ?bs = "ucast (blockSize sb) :: u64"
  define b0 b1 where "b0 = eStartOff e * ?bs" and "b1 = b0 + ucast (eCount e) * ?bs"
  note w = extent_words [OF wrap, folded b0_def, folded b1_def]
  have small: "unat b0 < 2 ^ 63" "unat b1 < 2 ^ 63" "unat off < 2 ^ 63" "unat hi < 2 ^ 63"
    using w wrap win by (simp_all add: no_wrap_def add_mult_distrib)
  have lo: "unat (smax b0 off) = lo" and tp: "unat (smin b1 hi) = tp"
    using small w by (simp_all add: smax_unat smin_unat lo_def tp_def)
  have lt: "lo < 2 ^ 63" "tp < 2 ^ 63" using small w by (simp_all add: lo_def tp_def)
  have cmp: "sint (smin b1 hi) \<le> sint (smax b0 off) \<longleftrightarrow> tp \<le> lo"
    using lo tp lt sint_le_unat [of "smin b1 hi" "smax b0 off"] by simp
  note unf = fileReadExtents.simps(2) Let_def b0_def [symmetric] b1_def [symmetric]
  show ?thesis
  proof (cases "tp \<le> lo")
    case True
    then show ?thesis unfolding unf using near cmp by simp
  next
    case False
    then have "unat b0 < sz" using win w by (simp add: lo_def tp_def)
    then have addr: "addressable partOff sb (eStartBlock e)" using ok w by (simp add: readable_def)
    define q where "q = partOff + fsbToPhysBlock sb (eStartBlock e) * ?bs"
    have off: "blockByteOffset partOff sb (eStartBlock e) = Inr q"
      using addr by (simp add: addressable_def blockByteOffset_ok q_def)
    note pos = blockByteOffset_exact(2,3) [OF off part]
    have c: "eCount e \<noteq> 0" using False by (auto simp: lo_def tp_def)
    have fit: "unat q + (min (unat b1) sz - unat b0) \<le> dsize d"
      using ok c \<open>unat b0 < sz\<close> unfolding readable_def pos(1) w by simp
    have d0: "unat (smax b0 off - b0) = lo - unat b0" using lo w by (simp add: unat_sub_if' lo_def)
    have n: "unat (smin b1 hi - smax b0 off) = tp - lo" using False lo tp by (simp add: unat_sub_if')
    have "lo - unat b0 + (tp - lo) \<le> min (unat b1) sz - unat b0"
      using False win w by (simp add: lo_def tp_def)
    then have room: "unat q + (lo - unat b0) + (tp - lo) \<le> dsize d" using fit by linarith
    have at: "unat (q + (smax b0 off - b0)) = unat q + (lo - unat b0)"
      by (subst unat_add_small) (use d0 room dev in simp_all)
    define data where "data = map (dbytes d) [unat q + (lo - unat b0)..<unat q + (lo - unat b0) + (tp - lo)]"
    have rd: "ReadAt d (q + (smax b0 off - b0)) (unat (smin b1 hi - smax b0 off)) = Inr data"
      unfolding data_def n at [symmetric] by (rule ReadAt_ok) (use at room dev in simp_all)
    have "unat (smax b0 off - off) = lo - unat off" using lo by (simp add: unat_sub_if' lo_def)
    then have "fileReadExtents d partOff sb off hi dst (e # es) =
        fileReadExtents d partOff sb off hi (patch (lo - unat off) data dst) es"
      unfolding unf using near cmp False off rd by simp
    moreover have "data ! j = image_byte d partOff sb e (lo + j)" if "j < length data" for j
      using that pos(1) w by (simp add: data_def image_byte_def lo_def add.assoc)
    ultimately show ?thesis using False by (auto simp: data_def)
  qed
qed

lemma fileReadExtents_filled:
  assumes "\<forall>e\<in>set es. no_wrap sb e \<and> readable d partOff sb sz e" and "sorted_wrt (separate sb) es"
    and "sorted (map eStartOff es)" and "0 \<le> sint partOff" and "dsize d < 2 ^ 63" and "blockSize sb \<noteq> 0"
    and win: "unat off \<le> unat hi" "unat hi \<le> sz" "unat hi < 2 ^ 62" and "length dst = unat hi - unat off"
  shows "\<exists>dst'. fileReadExtents d partOff sb off hi dst es = Inr dst' \<and> filled sb d partOff es (unat off) dst dst'"
  using assms(1-6,10)
proof (induction es arbitrary: dst)
  case Nil
  then show ?case by (simp add: filled_def)
next
  case (Cons e es)
  let ?B = "unat (blockSize sb)" and ?q = "hi div ucast (blockSize sb) :: u64"
  let ?lo = "max (unat (eStartOff e) * ?B) (unat off)" and ?tp = "min ((unat (eStartOff e) + unat (eCount e)) * ?B) (unat hi)"
  have B: "0 < ?B" using Cons.prems(6) by (simp add: unat_gt_0)
  have q: "unat (?q + 1) = unat hi div ?B + 1"
  proof -
    have "unat hi div ?B < 2 ^ 62" using win(3) by (rule le_less_trans [OF div_le_dividend])
    then have "unat ?q + unat (1 :: u64) < 2 ^ 64" by (simp add: unat_div)
    then show ?thesis by (subst unat_add_small) (simp_all add: unat_div)
  qed
  show ?case
  proof (cases "eStartOff e > ?q + 1")
    case True
    have far: "\<not> maps_byte sb e' (unat off + j)" if "e' \<in> set (e # es)" "j < length dst" for e' j
    proof -
      have "unat hi div ?B + 1 < unat (eStartOff e')"
        using True that(1) Cons.prems(3) q by (auto simp: word_less_nat_alt word_le_nat_alt)
      then have "(unat hi div ?B + 1) * ?B \<le> unat (eStartOff e') * ?B" by (intro mult_le_mono1) simp
      moreover have "unat hi < (unat hi div ?B + 1) * ?B"
        using B by (metis Suc_eq_plus1 dividend_less_div_times mult.commute mult_Suc_right add.commute)
      ultimately have "unat hi < unat (eStartOff e') * ?B" by linarith
      then show ?thesis using that(2) Cons.prems(7) win(1) unfolding maps_byte_def by linarith
    qed
    then have "filled sb d partOff (e # es) (unat off) dst dst" by (auto simp: filled_def)
    with True show ?thesis by (simp add: Let_def)
  next
    case False
    note step = fileReadExtents_step [OF _ Cons.prems(4,5) _ win False Cons.prems(6), of dst es]
    have e: "no_wrap sb e" "readable d partOff sb sz e" using Cons.prems(1) by simp_all
    have in_win: "maps_byte sb e (unat off + j) \<longleftrightarrow> ?lo \<le> unat off + j \<and> unat off + j < ?tp" if "j < length dst" for j
      using that Cons.prems(7) win(1) by (auto simp: maps_byte_def)
    show ?thesis
    proof (cases "?tp \<le> ?lo")
      case True
      with step e have eq: "fileReadExtents d partOff sb off hi dst (e # es) = fileReadExtents d partOff sb off hi dst es"
        by simp
      obtain dst' where IH: "fileReadExtents d partOff sb off hi dst es = Inr dst'" "filled sb d partOff es (unat off) dst dst'"
        using Cons.IH [of dst] Cons.prems by auto
      have "filled sb d partOff (e # es) (unat off) dst dst'"
        using IH(2) by (rule filled_skip) (use in_win True in auto)
      with eq IH show ?thesis by simp
    next
      case tp: False
      with step e obtain data where eq: "fileReadExtents d partOff sb off hi dst (e # es) =
            fileReadExtents d partOff sb off hi (patch (?lo - unat off) data dst) es"
        and data: "length data = ?tp - ?lo" "\<forall>j<length data. data ! j = image_byte d partOff sb e (?lo + j)"
        by auto
      obtain dst' where IH: "fileReadExtents d partOff sb off hi (patch (?lo - unat off) data dst) es = Inr dst'"
        "filled sb d partOff es (unat off) (patch (?lo - unat off) data dst) dst'"
        using Cons.IH [of "patch (?lo - unat off) data dst"] Cons.prems by auto
      have lo: "unat off + (?lo - unat off) = ?lo" by simp
      have "filled sb d partOff (e # es) (unat off) dst dst'"
      proof (rule filled_step [OF IH(2)])
        show "\<forall>e'\<in>set es. separate sb e e'" using Cons.prems(2) by simp
        show "?lo - unat off + length data \<le> length dst"
          using data(1) tp Cons.prems(7) min.cobounded2 [of "(unat (eStartOff e) + unat (eCount e)) * ?B" "unat hi"]
          by linarith
        show "maps_byte sb e (unat off + j) \<longleftrightarrow> ?lo - unat off \<le> j \<and> j < ?lo - unat off + length data"
          if "j < length dst" for j
          unfolding in_win [OF that] data(1) using tp by (simp only: le_diff_conv) linarith
        show "data ! j = image_byte d partOff sb e (unat off + (?lo - unat off) + j)" if "j < length data" for j
          using data(2) that unfolding lo by simp
      qed
      with eq IH show ?thesis by simp
    qed
  qed
qed

section \<open>Validated extent lists\<close>

lemma unat_less_exp:
  assumes "\<And>k. l \<le> k \<Longrightarrow> \<not> bit (w :: 'a::len word) k"
  shows "unat w < 2 ^ l"
proof -
  have "take_bit l w = w" by (rule bit_word_eqI) (use assms in \<open>auto simp: bit_take_bit_iff not_le [symmetric]\<close>)
  then have "unat w = unat w mod 2 ^ l" by (metis unat_take_bit)
  then show ?thesis by (metis mod_less_divisor zero_less_numeral zero_less_power)
qed

lemma extent_ok_decode: "extent_ok (decodeExtent rec)"
proof -
  let ?r0 = "be64 rec 0" and ?r1 = "be64 rec 8"
  have "unat (take_bit 54 (drop_bit 9 ?r0)) < 2 ^ 54" by (rule unat_less_exp) (simp add: bit_take_bit_iff)
  moreover have "unat (push_bit 43 (?r0 AND mask 9) OR drop_bit 21 ?r1) < 2 ^ 52"
    by (rule unat_less_exp) (auto simp: bit_or_iff bit_push_bit_iff bit_and_iff bit_mask_iff bit_drop_bit_eq impossible_bit)
  moreover have "unat (ucast (?r1 AND mask 21) :: u32) < 2 ^ 21"
    by (rule unat_less_exp) (auto simp: bit_unsigned_iff bit_and_iff bit_mask_iff)
  ultimately show ?thesis unfolding extent_ok_def decodeExtent_def Let_def low_mask mask_9 mask_21 by simp
qed

lemma extent_ok_fits: "extent_ok e \<Longrightarrow> run_fits eStartOff e \<and> run_fits eStartBlock e"
  by (simp add: extent_ok_def run_fits_def)

lemma apart_separate:
  assumes "apart eStartOff a b"
  shows "separate sb a b"
proof -
  have *: False if "before eStartOff x y" "maps_byte sb x i" "maps_byte sb y i" for x y i
  proof -
    have "(unat (eStartOff x) + unat (eCount x)) * unat (blockSize sb) \<le> unat (eStartOff y) * unat (blockSize sb)"
      using that(1) unfolding before_def by (rule mult_le_mono1)
    with that show False by (simp add: maps_byte_def)
  qed
  show ?thesis using assms * unfolding separate_def apart_def by blast
qed

lemma validated_separate:
  assumes "validateExtents exts = Inr ()" and "\<forall>e\<in>set exts. extent_ok e"
  shows "sorted_wrt (separate sb) exts"
proof -
  have "sorted_wrt (\<lambda>a b. apart eStartOff a b \<and> apart eStartBlock a b) (filter (\<lambda>e. eCount e \<noteq> 0) exts)"
    using validateExtents_apart [of exts] assms extent_ok_fits by blast
  then show ?thesis
  proof (induction exts)
    case (Cons e es)
    have empty: "separate sb x y" if "eCount x = 0 \<or> eCount y = 0" for x y
      using that by (auto simp: separate_def maps_byte_def)
    have "separate sb e x" if "x \<in> set es" for x
      using Cons.prems that empty apart_separate by (cases "eCount e = 0 \<or> eCount x = 0") auto
    with Cons show ?case by (auto split: if_splits)
  qed simp
qed

lemma separate_sym: "separate sb a b \<Longrightarrow> separate sb b a"
  by (auto simp: separate_def)

lemma btreeLeafExtents_ok: "e \<in> set (btreeLeafExtents data n) \<Longrightarrow> extent_ok e"
  by (auto simp: btreeLeafExtents_def extent_ok_decode)

lemma btreeLeafWalk_ok:
  fixes sio :: "('g, 'v) safeio"
  assumes "btreeLeafWalk sio r partOff sb walk seen ptr exts = Some (Inr out)" and "\<forall>e\<in>set exts. extent_ok e"
  shows "\<forall>e\<in>set out. extent_ok e"
proof -
  let ?P = "\<lambda>exts (res :: extent list res). (\<forall>e\<in>set exts. extent_ok e) \<longrightarrow> (\<forall>out. res = Inr out \<longrightarrow> (\<forall>e\<in>set out. extent_ok e))"
  have "?P exts (Inr out)"
  proof (rule btreeLeafWalk.raw_induct [where P =
      "\<lambda>(sio :: ('g, 'v) safeio) r partOff sb walk seen ptr exts res. ?P exts res"])
    show "btreeLeafWalk sio r partOff sb walk seen ptr exts = Some (Inr out)" by (rule assms(1))
    fix rec :: "('g, 'v) safeio \<Rightarrow> dev \<Rightarrow> int64 \<Rightarrow> superblock \<Rightarrow> 'g \<Rightarrow> 'v \<Rightarrow> u64 \<Rightarrow> extent list \<Rightarrow> extent list res option"
    fix sio r partOff sb walk seen ptr exts y
    assume IH: "\<And>sio r partOff sb walk seen ptr exts y. rec sio r partOff sb walk seen ptr exts = Some y \<Longrightarrow> ?P exts y"
      and step: "(case GuardNext sio walk of Inl e \<Rightarrow> Some (Inl e) | Inr walk' \<Rightarrow>
        (case VisitCheck sio seen ptr of Inl e \<Rightarrow> Some (Inl e) | Inr seen' \<Rightarrow>
        (case readRawBlock r partOff sb ptr of Inl e \<Rightarrow> Some (Inl e) | Inr blk \<Rightarrow>
          if length blk < btreeHdrSize (hasCRC sb) + 8 then Some (Inl ErrBtree)
          else if be32 blk 12 = 0xFFFFFFFF
            then Some (Inr (exts @ btreeLeafExtents (drop (btreeHdrSize (hasCRC sb)) blk) (unat (be16 blk 6))))
            else rec sio r partOff sb walk' seen' (ucast (be32 blk 12))
                   (exts @ btreeLeafExtents (drop (btreeHdrSize (hasCRC sb)) blk) (unat (be16 blk 6)))))) = Some y"
    show "?P exts y"
      using step by (auto split: sum.splits if_splits dest!: IH simp: btreeLeafExtents_ok)
  qed
  with assms(2) show ?thesis by blast
qed

lemma fork_extents:
  assumes "iFormat inode = inodeFmtExtents \<and> inlineExtents inode = Inr exts \<or>
    btreeExtents sio r partOff sb inode = Some (Inr exts)"
  shows "\<forall>e\<in>set exts. extent_ok e" and "sorted_wrt (separate sb) exts"
proof -
  have "validateExtents exts = Inr () \<and> (\<forall>e\<in>set exts. extent_ok e)"
    using assms
  proof
    assume "iFormat inode = inodeFmtExtents \<and> inlineExtents inode = Inr exts"
    then show ?thesis
      by (auto simp: inlineExtents_def Let_def bindR_eq_Inr extent_ok_decode split: if_splits)
  next
    assume "btreeExtents sio r partOff sb inode = Some (Inr exts)"
    then have u: "btreeExtentsUnchecked sio r partOff sb inode = Some (Inr exts)" and v: "validateExtents exts = Inr ()"
      by (auto simp: btreeExtents_def bindR_eq_Inr split: option.splits)
    have walk: "btreeLeafWalk sio r partOff sb g seen ptr [] = Some (Inr exts) \<Longrightarrow> \<forall>e\<in>set exts. extent_ok e" for g seen ptr
      by (erule btreeLeafWalk_ok) simp
    have "\<forall>e\<in>set exts. extent_ok e"
      using u by (auto simp: btreeExtentsUnchecked_def Let_def btreeLeafExtents_ok split: if_splits sum.splits dest!: walk)
    with v show ?thesis by simp
  qed
  then show "\<forall>e\<in>set exts. extent_ok e" and "sorted_wrt (separate sb) exts"
    using validated_separate by blast+
qed

section \<open>ReadFile and ReadAt agree with the extent map\<close>

lemma open_extents:
  assumes "readFileData sio d partOff sb inode = Some (Inr data)" and "openInode sio d partOff sb inode = Some (Inr f)"
    and "iFormat inode \<noteq> inodeFmtLocal"
  obtains exts where "readExtents sio d partOff sb exts (iSize inode) inode = Inr data"
    "\<forall>e\<in>set exts. extent_ok e" "sorted_wrt (separate sb) exts"
    "xExts f = sort_key eStartOff exts" "xInline f = []"
    "xSize f = (if iSize inode > push_bit 62 1 then push_bit 62 1 else iSize inode)"
proof -
  obtain exts where e: "iFormat inode = inodeFmtExtents \<and> inlineExtents inode = Inr exts \<or> btreeExtents sio d partOff sb inode = Some (Inr exts)"
    and r: "readExtents sio d partOff sb exts (iSize inode) inode = Inr data"
    and f: "f = \<lparr>xSize = (if iSize inode > push_bit 62 1 then push_bit 62 1 else iSize inode), xInline = [], xExts = sort_key eStartOff exts\<rparr>"
    using assms by (auto simp: readFileData_def openInode_def Let_def bindR_eq_Inr simp del: push_bit_of_1 split: if_splits)
  show ?thesis using that [OF r fork_extents [OF e]] f by simp
qed

lemma readExtents_filled:
  assumes "makes_bytes sio" and "readExtents sio d partOff sb exts (iSize inode) inode = Inr data"
    and "sorted_wrt (separate sb) exts" and "\<forall>e\<in>set exts. no_wrap sb e" and "0 \<le> sint partOff"
  shows "length data = unat (iSize inode)" and "filled sb d partOff exts 0 (replicate (length data) 0) data"
    and "\<forall>e\<in>set exts. readable d partOff sb (length data) e"
proof -
  obtain out where out: "out = replicate (unat (iSize inode)) 0" and loop: "readExtentsLoop d partOff sb (iSize inode) out exts = Inr data"
  proof -
    from assms(1,2) have "0 \<le> sint (iSize inode)"
      "readExtentsLoop d partOff sb (iSize inode) (replicate (nat (sint (iSize inode))) 0) exts = Inr data"
      by (auto simp: readExtents_def makes_bytes_def bindR_eq_Inr split: if_splits)
    moreover from this(1) have "nat (sint (iSize inode)) = unat (iSize inode)"
      using unat_sint [of "iSize inode"] sint_unat [of "iSize inode"] by simp
    ultimately show ?thesis using that by simp
  qed
  show len: "length data = unat (iSize inode)" using length_readExtentsLoop [OF loop] out by simp
  show "filled sb d partOff exts 0 (replicate (length data) 0) data" "\<forall>e\<in>set exts. readable d partOff sb (length data) e"
    using readExtentsLoop_filled [OF assms(4,3,5) _ loop] len out by simp_all
qed

text \<open>
  C39. A whole-file read of a block-mapped file returns, for every byte, the byte of the image
  that the written extent which maps it assigns to it, and zero where no extent maps it (holes and the tail of the
  last block beyond the mapped range). One case departs from the documentation: an extent flagged unwritten is
  read like any other, so its bytes are whatever its blocks hold and not the zeros that openfile.go and the README promise.
\<close>

theorem readFileData_content:
  assumes "makes_bytes sio" and "0 \<le> sint partOff" and "iFormat inode \<noteq> inodeFmtLocal"
    and "readFileData sio d partOff sb inode = Some (Inr data)" and "openInode sio d partOff sb inode = Some (Inr f)"
    and "\<forall>e\<in>set (xExts f). no_wrap sb e" and "i < length data"
  shows "(\<forall>e\<in>set (xExts f). maps_byte sb e i \<and> \<not> eUnwritten e \<longrightarrow> data ! i = image_byte d partOff sb e i) \<and>
    ((\<forall>e\<in>set (xExts f). \<not> maps_byte sb e i) \<longrightarrow> data ! i = 0) \<and>
    (\<forall>e\<in>set (xExts f). maps_byte sb e i \<and> eUnwritten e \<longrightarrow> data ! i = image_byte d partOff sb e i)"
proof -
  obtain exts where e: "readExtents sio d partOff sb exts (iSize inode) inode = Inr data"
    "sorted_wrt (separate sb) exts" "xExts f = sort_key eStartOff exts"
    using open_extents [OF assms(4,5,3)] by metis
  have "filled sb d partOff exts 0 (replicate (length data) 0) data"
    using readExtents_filled(2) [OF assms(1) e(1,2) _ assms(2)] assms(6) e(3) by simp
  then show ?thesis using assms(7) e(3) by (auto simp: filled_def)
qed

lemma fileReadAt_window:
  assumes sz: "unat (xSize f) < 2 ^ 62" and off: "0 \<le> sint off" "unat off < unat (xSize f)" and n: "n < 2 ^ 62"
  defines "w \<equiv> min n (unat (xSize f) - unat off)"
  shows "fileReadAt d partOff sb f n off =
    (if xInline f \<noteq> []
     then Inr (patch 0 (drop (unat (smin off (of_nat (length (xInline f))))) (xInline f)) (replicate w 0), unat (xSize f) < unat off + n)
     else bindR (fileReadExtents d partOff sb off (of_nat (unat off + w)) (replicate w 0) (xExts f))
            (\<lambda>dst. Inr (dst, unat (xSize f) < unat off + n)))"
proof -
  let ?want = "of_nat n :: int64"
  define want where "want = (if sint (off + ?want) > sint (xSize f) then xSize f - off else ?want)"
  have nn: "unat ?want = n" using n by (simp add: unat_of_nat)
  have s: "unat (off + ?want) = unat off + n" by (subst unat_add_small) (use nn off sz n in simp_all)
  have cmp: "sint (off + ?want) > sint (xSize f) \<longleftrightarrow> unat (xSize f) < unat off + n"
    using sint_less_unat [of "xSize f" "off + ?want"] s sz off n by simp
  have w: "unat want = w"
    unfolding want_def cmp using nn off by (auto simp: w_def unat_sub_if')
  have "sint want = int w" using sint_unat [of want] w n by (simp add: w_def)
  then have eof: "sint want < int n \<longleftrightarrow> unat (xSize f) < unat off + n" using off by (auto simp: w_def)
  have "unat (off + want) = unat off + w" by (subst unat_add_small) (use w off sz in \<open>simp_all add: w_def\<close>)
  moreover have "off + want = of_nat (unat (off + want))" by simp
  ultimately have hi: "off + want = of_nat (unat off + w)" by simp
  have first: "\<not> sint off < 0" "\<not> sint (xSize f) \<le> sint off"
    using off sz sint_le_unat [of "xSize f" off] by simp_all
  show ?thesis
    unfolding fileReadAt_def Let_def want_def [symmetric] using first w eof hi by simp
qed

lemma openInode_local:
  assumes "openInode sio d partOff sb inode = Some (Inr f)" and "iFormat inode = inodeFmtLocal"
    and "readFileData sio d partOff sb inode = Some (Inr data)" and "length data < 2 ^ 62"
  shows "unat (xSize f) = length data" and "xInline f = data" and "xExts f = []"
proof -
  have i: "readInline inode = Inr data" using assms(2,3) by (simp add: readFileData_def)
  then have len: "length data = unat (iSize inode)" by (auto simp: readInline_def split: if_splits)
  have "\<not> iSize inode > push_bit 62 1" using len assms(4) by (simp add: word_less_nat_alt)
  then show "unat (xSize f) = length data" and "xInline f = data" and "xExts f = []"
    using assms(1,2) i len by (auto simp: openInode_def Let_def)
qed

lemma windows_eq:
  assumes "filled sb d partOff exts 0 (replicate (length data) 0) data"
    and "filled sb d partOff exts' k (replicate w 0) dst" and "set exts' = set exts" and "k + w \<le> length data"
  shows "dst = window k w data"
proof (rule nth_equalityI)
  show "length dst = length (window k w data)" using assms(2,4) by (simp add: filled_def)
  fix j assume "j < length dst"
  then have j: "j < w" using assms(2) by (simp add: filled_def)
  have "dst ! j = data ! (k + j)"
    using assms(1,2,3) j assms(4) unfolding filled_def by (cases "\<exists>e\<in>set exts. maps_byte sb e (k + j)") auto
  then show "dst ! j = window k w data ! j" using j assms(4) by (simp add: nth_window)
qed

text \<open>
  C40. A positional read of an open file returns exactly the bytes the whole-file read has at
  that place, with \<^verbatim>\<open>io.EOF\<close> exactly when the window runs past the end of the file; it does
  not fail on a file that can be read whole.
\<close>

theorem fileReadAt_is_window:
  assumes "makes_bytes sio" and "0 \<le> sint partOff" and "dsize d < 2 ^ 63" and "blockSize sb \<noteq> 0"
    and "readFileData sio d partOff sb inode = Some (Inr data)" and "openInode sio d partOff sb inode = Some (Inr f)"
    and "\<forall>e\<in>set (xExts f). no_wrap sb e" and "length data < 2 ^ 62" and "0 \<le> sint off" and "n < 2 ^ 62"
  shows "fileReadAt d partOff sb f n off =
    Inr (window (unat off) n data, length data \<le> unat off \<or> length data < unat off + n)"
proof -
  have size: "unat (xSize f) = length data"
  proof (cases "iFormat inode = inodeFmtLocal")
    case True
    then show ?thesis using openInode_local assms by blast
  next
    case False
    then obtain exts where e: "readExtents sio d partOff sb exts (iSize inode) inode = Inr data"
      "sorted_wrt (separate sb) exts" "xExts f = sort_key eStartOff exts"
      "xSize f = (if iSize inode > push_bit 62 1 then push_bit 62 1 else iSize inode)"
      using open_extents [OF assms(5,6)] by metis
    have len: "length data = unat (iSize inode)" using readExtents_filled(1) [OF assms(1) e(1,2) _ assms(2)] assms(7) e(3) by simp
    then have "\<not> iSize inode > push_bit 62 1" using assms(8) by (simp add: word_less_nat_alt)
    then show ?thesis using e(4) len by simp
  qed
  show ?thesis
  proof (cases "unat off < length data")
    case False
    have "sint (xSize f) \<le> sint off"
      using False size assms(8,9) sint_le_unat [of "xSize f" off] unat_sint [of off] by simp
    then show ?thesis using False assms(9) by (simp add: fileReadAt_def window_def)
  next
    case True
    let ?w = "min n (length data - unat off)"
    have win: "window (unat off) ?w data = window (unat off) n data" by (simp add: window_def min_def)
    note at = fileReadAt_window [of f off n d partOff sb, unfolded size, OF assms(8,9) True assms(10)]
    show ?thesis
    proof (cases "iFormat inode = inodeFmtLocal")
      case True
      note loc = openInode_local [OF assms(6) True assms(5,8)]
      have "data \<noteq> []" using \<open>unat off < length data\<close> by auto
      have "unat (smin off (of_nat (length data)) :: int64) = unat off"
        using \<open>unat off < length data\<close> assms(8) smin_unat [of off "of_nat (length data)"] by (simp add: unat_of_nat)
      then have "fileReadAt d partOff sb f n off = Inr (patch 0 (drop (unat off) data) (replicate ?w 0), length data < unat off + n)"
        unfolding at loc(2) using \<open>data \<noteq> []\<close> by simp
      also have "patch 0 (drop (unat off) data) (replicate ?w 0) = window (unat off) n data"
        by (simp add: patch_def window_def min_def)
      finally show ?thesis using \<open>unat off < length data\<close> by auto
    next
      case False
      then obtain exts where e: "readExtents sio d partOff sb exts (iSize inode) inode = Inr data"
        "\<forall>e\<in>set exts. extent_ok e" "sorted_wrt (separate sb) exts" "xExts f = sort_key eStartOff exts" "xInline f = []"
        using open_extents [OF assms(5,6)] by metis
      have wrap: "\<forall>e\<in>set exts. no_wrap sb e" using assms(7) e(4) by simp
      note fl = readExtents_filled [OF assms(1) e(1,3) wrap assms(2)]
      have hi: "unat (of_nat (unat off + ?w) :: int64) = unat off + ?w"
        by (rule unat_of_nat_small) (use True assms(8) in simp)
      have le: "unat off + ?w \<le> length data" using True by linarith
      have sep: "sorted_wrt (separate sb) (xExts f)"
        unfolding e(4) using sorted_wrt_sym_perm [OF _ e(3) separate_sym, of "sort_key eStartOff exts"] by simp
      obtain dst where dst: "fileReadExtents d partOff sb off (of_nat (unat off + ?w)) (replicate ?w 0) (xExts f) = Inr dst"
        "filled sb d partOff (xExts f) (unat off) (replicate ?w 0) dst"
        using fileReadExtents_filled [of "xExts f" sb d partOff "length data" off "of_nat (unat off + ?w)" "replicate ?w 0",
            OF _ sep _ assms(2,3,4)] hi le True assms(7,8) fl(3) e(4) by auto
      have "dst = window (unat off) n data"
        using windows_eq [OF fl(2) dst(2)] win le e(4) by simp
      then show ?thesis unfolding at using e(5) dst(1) True by auto
    qed
  qed
qed

text \<open>
  A file of three bytes in one block, on an image whose byte \<open>i\<close> is \<open>i\<close> modulo 256.
\<close>

definition sb_small :: superblock where
  "sb_small = sb_example\<lparr>blockSize := 512, agBlocks := 64, agBlkLog := 6, dBlocks := 64, agCount := 1, inopBlock := 1, inopBLog := 0\<rparr>"

definition dev_small :: dev where
  "dev_small = \<lparr>dsize = 4096, dbytes = of_nat\<rparr>"

definition ext_small :: extent where
  "ext_small = \<lparr>eStartOff = 0, eStartBlock = 3, eCount = 1, eUnwritten = False\<rparr>"

definition inode_small :: inode where
  "inode_small = \<lparr>iNum = 128, iMode = 0x81A4, iFormat = inodeFmtExtents, iSize = 3, iNBlocks = 1, iNExts = 1, iForkOff = 0,
     iRaw = replicate 176 0 @ encodeExtent ext_small @ replicate 320 0\<rparr>"

lemma inode_small_exts: "inlineExtents inode_small = Inr [ext_small]"
proof -
  have "decodeExtent (encodeExtent ext_small @ replicate 320 0) = ext_small"
    by (rule decode_encode) (simp add: extent_ok_def ext_small_def)
  then show ?thesis
    by (simp add: inlineExtents_def inode_small_def dataFork_def Let_def validateExtents_def)
qed

lemma inode_small_reads:
  "readFileData safeio_ref dev_small 0 sb_small inode_small = Some (Inr [0, 1, 2])"
  "openInode safeio_ref dev_small 0 sb_small inode_small = Some (Inr \<lparr>xSize = 3, xInline = [], xExts = [ext_small]\<rparr>)"
proof -
  have sb: "blockSize sb_small = 512" "agBlocks sb_small = 64" "agBlkLog sb_small = 6" "dBlocks sb_small = 64"
    "maxRead sb_small = 0"
    by (simp_all add: sb_small_def)
  have f: "iFormat inode_small = 2" "iSize inode_small = 3" "iNBlocks inode_small = 1"
    by (simp_all add: inode_small_def inodeFmtExtents_def)
  have "3 \<le> sint (fileCeiling sb_small inode_small)"
    by (simp add: fileCeiling_def declaredBytes_def inodeMaxBytes_def maxReadLimit_def DefaultMaxReadSize_def Let_def sb f)
  then have "MakeBytes safeio_ref 3 (fileCeiling sb_small inode_small) = Inr [0, 0, 0]"
    by (simp add: safeio_ref_def numeral_3_eq_3)
  moreover have "readExtentsLoop dev_small 0 sb_small 3 [0, 0, 0] [ext_small] = Inr [0, 1, 2]"
    by code_simp
  ultimately show "readFileData safeio_ref dev_small 0 sb_small inode_small = Some (Inr [0, 1, 2])"
    by (simp add: readFileData_def inodeFmtLocal_def inodeFmtExtents_def f inode_small_exts readExtents_def)
  show "openInode safeio_ref dev_small 0 sb_small inode_small = Some (Inr \<lparr>xSize = 3, xInline = [], xExts = [ext_small]\<rparr>)"
    by (simp add: openInode_def Let_def inodeFmtLocal_def inodeFmtExtents_def f inode_small_exts)
qed

lemma ext_small_no_wrap: "no_wrap sb_small ext_small"
  by (simp add: no_wrap_def sb_small_def ext_small_def)

theorem readFileData_content_witness:
  "readFileData safeio_ref dev_small 0 sb_small inode_small = Some (Inr [0, 1, 2]) \<and> maps_byte sb_small ext_small 2 \<and>
    [0, 1, 2] ! 2 = image_byte dev_small 0 sb_small ext_small 2"
proof -
  have "iFormat inode_small \<noteq> inodeFmtLocal" by (simp add: inode_small_def inodeFmtLocal_def inodeFmtExtents_def)
  then show ?thesis
    using readFileData_content [OF safeio_ref_bytes _ _ inode_small_reads, of 2] ext_small_no_wrap inode_small_reads(1)
    by (simp add: maps_byte_def sb_small_def ext_small_def)
qed

theorem reads_bounded_witness:
  "readFileData safeio_ref dev_small 0 sb_small inode_small = Some (Inr [0, 1, 2]) \<and> int (length [0, 1, 2 :: byte]) \<le> sint (fileCeiling sb_small inode_small) \<and>
   readFileData safeio_ref dev_small 0 (sb_small\<lparr>maxRead := 2\<rparr>) inode_small = Some (Inl ErrTooLarge)"
proof -
  have f: "iFormat inode_small \<noteq> inodeFmtLocal" "unat (iSize inode_small) = 3" "sint (maxReadLimit (sb_small\<lparr>maxRead := 2\<rparr>)) = 2"
    by (simp_all add: inode_small_def inodeFmtLocal_def inodeFmtExtents_def maxReadLimit_def)
  have o: "openInode safeio_ref dev_small 0 (sb_small\<lparr>maxRead := 2\<rparr>) inode_small = Some (Inr \<lparr>xSize = 3, xInline = [], xExts = [ext_small]\<rparr>)"
    using inode_small_reads(2) by (simp add: openInode_def inode_small_def inodeFmtLocal_def inodeFmtExtents_def)
  show ?thesis
    using reads_bounded [OF safeio_ref_bytes, of dev_small 0 sb_small inode_small "[0, 1, 2]"] inode_small_reads(1)
      reads_bounded [OF safeio_ref_bytes, of dev_small 0 "sb_small\<lparr>maxRead := 2\<rparr>" inode_small] o f by simp
qed

theorem fileReadAt_is_window_witness:
  "fileReadAt dev_small 0 sb_small \<lparr>xSize = 3, xInline = [], xExts = [ext_small]\<rparr> 5 1 = Inr ([1, 2], True)"
  using fileReadAt_is_window [OF safeio_ref_bytes _ _ _ inode_small_reads, of 1 5] ext_small_no_wrap
  by (simp add: dev_small_def sb_small_def window_def)

end
