(* ===== verification/Lookup.thy ===== *)
theory Lookup
  imports BlockDir Read
begin

text \<open>
  Path resolution (dir.go: \<^verbatim>\<open>pathLookup\<close>, \<^verbatim>\<open>pathLookupResolve\<close>, \<^verbatim>\<open>lookupInDir\<close>,
  \<^verbatim>\<open>blockDirLookup\<close>, \<^verbatim>\<open>dirExtents\<close>, \<^verbatim>\<open>readDir\<close>, \<^verbatim>\<open>blockReadDir\<close>; extended_stat.go:
  \<^verbatim>\<open>lstatLookup\<close>) and what it uses of Go's \<^verbatim>\<open>path\<close> and \<^verbatim>\<open>strings\<close> packages. A Go string is
  its list of bytes.

  Errors are compared with \<^verbatim>\<open>errors.Is\<close>: a wrapped error is the error it wraps.
  \<^verbatim>\<open>notExistIfMissing\<close> wraps \<^verbatim>\<open>ErrNotFound\<close> together with \<^verbatim>\<open>fs.ErrNotExist\<close>; the constructor
  \<open>ErrNotExist\<close> is that pair, and the bare \<open>ErrNotFound\<close> is an error that does not satisfy
  \<^verbatim>\<open>fs.ErrNotExist\<close>.
\<close>

section \<open>Paths\<close>

fun splitSlash :: "bytes \<Rightarrow> bytes list" where
  "splitSlash [] = [[]]"
| "splitSlash (c # cs) = (if c = 47 then [] # splitSlash cs
     else case splitSlash cs of w # ws \<Rightarrow> (c # w) # ws | [] \<Rightarrow> [[c]])"

fun joinSlash :: "bytes list \<Rightarrow> bytes" where
  "joinSlash [] = []"
| "joinSlash [w] = w"
| "joinSlash (w # v # ws) = w @ 47 # joinSlash (v # ws)"

text \<open>
  \<^verbatim>\<open>path.Clean\<close>: empty and \<^verbatim>\<open>.\<close> elements go, \<^verbatim>\<open>..\<close> removes the element before it, or goes at the
  root, or stays at the front of a relative path. \<open>acc\<close> is the result so far, reversed.
\<close>

fun cleanParts :: "bool \<Rightarrow> bytes list \<Rightarrow> bytes list \<Rightarrow> bytes list" where
  "cleanParts rooted acc [] = rev acc"
| "cleanParts rooted acc (c # cs) =
     (if c = [] \<or> c = [46] then cleanParts rooted acc cs
      else if c = [46, 46]
        then (case acc of
                a # as \<Rightarrow> if a \<noteq> [46, 46] then cleanParts rooted as cs else cleanParts rooted (c # acc) cs
              | [] \<Rightarrow> if rooted then cleanParts rooted [] cs else cleanParts rooted [c] cs)
      else cleanParts rooted (c # acc) cs)"

definition isRooted :: "bytes \<Rightarrow> bool" where
  "isRooted p \<longleftrightarrow> take 1 p = [47]"

definition pathClean :: "bytes \<Rightarrow> bytes" where
  "pathClean p =
     (let body = joinSlash (cleanParts (isRooted p) [] (splitSlash p))
      in if isRooted p then 47 # body else if body = [] then [46] else body)"

definition trimPrefix :: "bytes \<Rightarrow> bytes" where
  "trimPrefix p = (if isRooted p then drop 1 p else p)"

definition trimSuffix :: "bytes \<Rightarrow> bytes" where
  "trimSuffix p = (if p \<noteq> [] \<and> last p = 47 then butlast p else p)"

text \<open>\<^verbatim>\<open>path.Split\<close>: the directory part keeps its slash.\<close>

definition pathSplit :: "bytes \<Rightarrow> bytes \<times> bytes" where
  "pathSplit p = (let name = rev (takeWhile (\<lambda>c. c \<noteq> 47) (rev p)) in (take (length p - length name) p, name))"

text \<open>The parent path and the last element, as every operation that names an entry takes them.\<close>

definition splitParent :: "bytes \<Rightarrow> bytes \<times> bytes" where
  "splitParent p = (let (dir, name) = pathSplit p; dir = trimSuffix dir in (if dir = [] then [47] else dir, name))"

section \<open>Directories\<close>

text \<open>A walk that has not returned is \<open>OutOfFuel\<close>; \<open>pathLookup_returns\<close> shows it does not happen.\<close>

definition returned :: "'a res option \<Rightarrow> 'a res" where
  "returned r = (case r of None \<Rightarrow> Inl OutOfFuel | Some x \<Rightarrow> x)"

definition dirLeafByteOffset :: u64 where
  "dirLeafByteOffset = 0x800000000"

definition dirExtents :: "('g, 'v) safeio \<Rightarrow> dev \<Rightarrow> int64 \<Rightarrow> superblock \<Rightarrow> inode \<Rightarrow> extent list res" where
  "dirExtents sio r partOff sb inode =
     (if iFormat inode = inodeFmtExtents then inlineExtents inode
      else if iFormat inode = inodeFmtBtree then returned (btreeExtents sio r partOff sb inode)
      else Inl ErrFormat)"

text \<open>The data blocks of a directory: those of the extents below the leaf offset.\<close>

definition dirDataBlocks :: "superblock \<Rightarrow> extent list \<Rightarrow> u64 list" where
  "dirDataBlocks sb exts =
     concat (map extentBlocks (filter (\<lambda>e. eStartOff e < dirLeafByteOffset div ucast (blockSize sb)) exts))"

fun searchBlocks :: "dev \<Rightarrow> int64 \<Rightarrow> superblock \<Rightarrow> bytes \<Rightarrow> u64 list \<Rightarrow> u64 res" where
  "searchBlocks r partOff sb name [] = Inl ErrNotFound"
| "searchBlocks r partOff sb name (b # bs) =
     bindR (readRawBlock r partOff sb b) (\<lambda>blk.
       case searchDirBlock blk name (hasFType sb) (hasCRC sb) of
         Some ino \<Rightarrow> Inr ino
       | None \<Rightarrow> searchBlocks r partOff sb name bs)"

definition blockDirLookup :: "('g, 'v) safeio \<Rightarrow> dev \<Rightarrow> int64 \<Rightarrow> superblock \<Rightarrow> inode \<Rightarrow> bytes \<Rightarrow> u64 res" where
  "blockDirLookup sio r partOff sb inode name =
     bindR (dirExtents sio r partOff sb inode) (\<lambda>exts. searchBlocks r partOff sb name (dirDataBlocks sb exts))"

definition lookupInDir :: "('g, 'v) safeio \<Rightarrow> dev \<Rightarrow> int64 \<Rightarrow> superblock \<Rightarrow> inode \<Rightarrow> bytes \<Rightarrow> u64 res" where
  "lookupInDir sio r partOff sb inode name =
     (if iFormat inode = inodeFmtLocal then sfLookup (dataFork inode) name (hasFType sb)
      else if iFormat inode = inodeFmtExtents \<or> iFormat inode = inodeFmtBtree
        then blockDirLookup sio r partOff sb inode name
      else Inl ErrFormat)"

fun readBlocks :: "dev \<Rightarrow> int64 \<Rightarrow> superblock \<Rightarrow> u64 list \<Rightarrow> DirEntry list res" where
  "readBlocks r partOff sb [] = Inr []"
| "readBlocks r partOff sb (b # bs) =
     bindR (readRawBlock r partOff sb b) (\<lambda>blk.
     bindR (readBlocks r partOff sb bs) (\<lambda>rest. Inr (parseDirBlock blk (hasFType sb) (hasCRC sb) @ rest)))"

definition blockReadDir :: "('g, 'v) safeio \<Rightarrow> dev \<Rightarrow> int64 \<Rightarrow> superblock \<Rightarrow> inode \<Rightarrow> DirEntry list res" where
  "blockReadDir sio r partOff sb inode =
     bindR (dirExtents sio r partOff sb inode) (\<lambda>exts. readBlocks r partOff sb (dirDataBlocks sb exts))"

definition readDir :: "('g, 'v) safeio \<Rightarrow> dev \<Rightarrow> int64 \<Rightarrow> superblock \<Rightarrow> inode \<Rightarrow> DirEntry list res" where
  "readDir sio r partOff sb inode =
     (if iFormat inode = inodeFmtLocal then Inr (sfReadDir (dataFork inode) (hasFType sb))
      else if iFormat inode = inodeFmtExtents \<or> iFormat inode = inodeFmtBtree
        then blockReadDir sio r partOff sb inode
      else Inl ErrFormat)"

section \<open>Resolution\<close>

definition maxSymlinkDepth :: nat where
  "maxSymlinkDepth = 40"

definition notExistIfMissing :: "error \<Rightarrow> error" where
  "notExistIfMissing e = (if e = ErrNotFound then ErrNotExist else e)"

text \<open>The loop over the elements of a path; \<open>resolve\<close> is the resolution of a symlink's target.\<close>

primrec walkNames ::
  "('g, 'v) safeio \<Rightarrow> dev \<Rightarrow> int64 \<Rightarrow> superblock \<Rightarrow> (bytes \<Rightarrow> inode res) \<Rightarrow> inode \<Rightarrow> bytes list \<Rightarrow> inode res" where
  "walkNames sio r partOff sb resolve cur [] = Inr cur"
| "walkNames sio r partOff sb resolve cur (name # names) =
     (case lookupInDir sio r partOff sb cur name of
        Inl e \<Rightarrow> Inl (notExistIfMissing e)
      | Inr childIno \<Rightarrow>
          bindR (readInode r partOff sb childIno) (\<lambda>child.
            if isSymlink child
            then bindR (returned (readSymlinkTarget sio r partOff sb child)) (\<lambda>target.
                 bindR (resolve target) (\<lambda>cur. walkNames sio r partOff sb resolve cur names))
            else walkNames sio r partOff sb resolve child names))"

text \<open>Resolution with \<open>k\<close> levels of symlinks left: the depth test is the case without any.\<close>

primrec resolveWithin :: "nat \<Rightarrow> ('g, 'v) safeio \<Rightarrow> dev \<Rightarrow> int64 \<Rightarrow> superblock \<Rightarrow> bytes \<Rightarrow> inode res" where
  "resolveWithin 0 sio r partOff sb p = Inl ErrSymlinkLoop"
| "resolveWithin (Suc k) sio r partOff sb p =
     (let p = pathClean p in
      bindR (readInode r partOff sb (rootIno sb)) (\<lambda>root.
        if p = [47] \<or> p = [46] then Inr root
        else walkNames sio r partOff sb (resolveWithin k sio r partOff sb) root (splitSlash (trimPrefix p))))"

definition pathLookupResolve :: "('g, 'v) safeio \<Rightarrow> dev \<Rightarrow> int64 \<Rightarrow> superblock \<Rightarrow> bytes \<Rightarrow> nat \<Rightarrow> inode res" where
  "pathLookupResolve sio r partOff sb p depth = resolveWithin (maxSymlinkDepth - depth) sio r partOff sb p"

definition pathLookup :: "('g, 'v) safeio \<Rightarrow> dev \<Rightarrow> int64 \<Rightarrow> superblock \<Rightarrow> bytes \<Rightarrow> inode res" where
  "pathLookup sio r partOff sb p = pathLookupResolve sio r partOff sb p 0"

text \<open>The lookup that does not follow the last element.\<close>

definition lstatLookup :: "('g, 'v) safeio \<Rightarrow> dev \<Rightarrow> int64 \<Rightarrow> superblock \<Rightarrow> bytes \<Rightarrow> inode res" where
  "lstatLookup sio r partOff sb p =
     (let p = pathClean p in
      if p = [47] \<or> p = [46] then pathLookup sio r partOff sb p
      else let (parentPath, name) = splitParent p in
        bindR (pathLookup sio r partOff sb parentPath) (\<lambda>parentIn.
        if \<not> isDir parentIn then Inl ErrNotDir
        else bindR (lookupInDir sio r partOff sb parentIn name) (readInode r partOff sb)))"


section \<open>Cleaned paths\<close>

lemma splitSlash_not_Nil [simp]: "splitSlash p \<noteq> []"
  by (cases p) (auto split: list.splits)

lemma splitSlash_no_slash: "w \<in> set (splitSlash p) \<Longrightarrow> 47 \<notin> set w"
  by (induction p arbitrary: w) (auto split: list.splits if_splits)

lemma splitSlash_word: "47 \<notin> set w \<Longrightarrow> splitSlash w = [w]"
  by (induction w) auto

lemma splitSlash_append: "47 \<notin> set w \<Longrightarrow> splitSlash (w @ 47 # p) = w # splitSlash p"
  by (induction w) auto

lemma splitSlash_join: "ws \<noteq> [] \<Longrightarrow> \<forall>w\<in>set ws. 47 \<notin> set w \<Longrightarrow> splitSlash (joinSlash ws) = ws"
  by (induction ws rule: joinSlash.induct) (simp_all add: splitSlash_word splitSlash_append)

text \<open>
  What a cleaned path consists of: no empty element, no \<^verbatim>\<open>.\<close>, and \<^verbatim>\<open>..\<close> only at the front of a
  relative path.
\<close>

definition cleanWords :: "bool \<Rightarrow> bytes list \<Rightarrow> bool" where
  "cleanWords rooted ws \<longleftrightarrow> (\<forall>w\<in>set ws. w \<noteq> [] \<and> w \<noteq> [46] \<and> 47 \<notin> set w) \<and>
     (\<forall>us vs. ws = us @ [46, 46] # vs \<longrightarrow> \<not> rooted \<and> set us \<subseteq> {[46, 46]})"

lemma cleanWords_Nil [simp]: "cleanWords rooted []"
  by (simp add: cleanWords_def)

lemma cleanWords_prefix:
  assumes "cleanWords rooted (us @ vs)"
  shows "cleanWords rooted us"
  unfolding cleanWords_def
proof (intro conjI allI impI)
  show "\<forall>v\<in>set us. v \<noteq> [] \<and> v \<noteq> [46] \<and> 47 \<notin> set v"
    using assms by (auto simp: cleanWords_def)
next
  fix as bs assume "us = as @ [46, 46] # bs"
  then have "us @ vs = as @ [46, 46] # (bs @ vs)" by simp
  then show "\<not> rooted" and "set as \<subseteq> {[46, 46]}"
    using assms unfolding cleanWords_def by blast+
qed

lemma cleanWords_snoc:
  assumes "cleanWords rooted ws" and "w \<noteq> []" and "w \<noteq> [46]" and "47 \<notin> set w" and "w \<noteq> [46, 46]"
  shows "cleanWords rooted (ws @ [w])"
  unfolding cleanWords_def
proof (intro conjI allI impI)
  show "\<forall>v\<in>set (ws @ [w]). v \<noteq> [] \<and> v \<noteq> [46] \<and> 47 \<notin> set v"
    using assms by (auto simp: cleanWords_def)
next
  fix us vs assume eq: "ws @ [w] = us @ [46, 46] # vs"
  with assms(5) obtain vs' where "vs = vs' @ [w]" "ws = us @ [46, 46] # vs'"
    by (cases vs rule: rev_cases) auto
  with assms(1) show "\<not> rooted" and "set us \<subseteq> {[46, 46]}" by (auto simp: cleanWords_def)
qed

lemma cleanWords_dots:
  assumes "cleanWords rooted ws" and "\<not> rooted" and "ws = [] \<or> last ws = [46, 46]"
  shows "cleanWords rooted (ws @ [[46, 46]])"
proof -
  have all: "set ws \<subseteq> {[46, 46]}"
  proof (cases ws rule: rev_cases)
    case (snoc us w)
    with assms(1,3) have "set us \<subseteq> {[46, 46]}" and "w = [46, 46]" by (auto simp: cleanWords_def)
    with snoc show ?thesis by simp
  qed simp
  have "set us \<subseteq> {[46, 46]}" if "ws @ [[46, 46]] = us @ [46, 46] # vs" for us vs
  proof -
    have "set us \<subseteq> set (ws @ [[46, 46]])" unfolding that by auto
    with all show ?thesis by auto
  qed
  then show ?thesis using assms(1,2) by (auto simp: cleanWords_def)
qed

lemma cleanWords_cleanParts:
  "cleanWords rooted (rev acc) \<Longrightarrow> \<forall>c\<in>set cs. 47 \<notin> set c \<Longrightarrow> cleanWords rooted (cleanParts rooted acc cs)"
proof (induction rooted acc cs rule: cleanParts.induct)
  case (2 rooted acc c cs)
  consider "c = [] \<or> c = [46]" | a as where "c = [46, 46]" "acc = a # as" "a \<noteq> [46, 46]"
    | "c = [46, 46]" "acc = [] \<and> \<not> rooted \<or> acc \<noteq> [] \<and> hd acc = [46, 46]" | "c = [46, 46]" "acc = []" "rooted"
    | "c \<noteq> []" "c \<noteq> [46]" "c \<noteq> [46, 46]"
    by (cases acc) auto
  then show ?case
  proof cases
    case 1
    with 2 show ?thesis by auto
  next
    case (2 a as)
    with "2.prems" have "cleanWords rooted (rev as)" by (auto intro: cleanWords_prefix)
    with 2 "2.prems"(2) show ?thesis by (simp add: "2.IH")
  next
    case 3
    then have nr: "\<not> rooted" using "2.prems"(1) by (cases acc) (auto simp: cleanWords_def)
    have "rev acc = [] \<or> last (rev acc) = [46, 46]" using 3 by (auto simp: last_rev)
    with nr "2.prems"(1) have "cleanWords rooted (rev (c # acc))" using cleanWords_dots 3(1) by simp
    with 3 nr "2.IH"(3,5) "2.prems" show ?thesis by (cases acc) auto
  next
    case 4
    with 2 show ?thesis by simp
  next
    case 5
    with "2.prems" have "cleanWords rooted (rev (c # acc))" by (simp add: cleanWords_snoc)
    with 5 2 show ?thesis by simp
  qed
qed simp

lemma cleanParts_clean: "cleanWords rooted (rev acc @ ws) \<Longrightarrow> cleanParts rooted acc ws = rev acc @ ws"
proof (induction ws arbitrary: acc)
  case (Cons w ws)
  have IH: "cleanParts rooted (w # acc) ws = rev acc @ w # ws" using Cons by simp
  have w: "w \<noteq> []" "w \<noteq> [46]" using Cons.prems by (auto simp: cleanWords_def)
  have "w = [46, 46] \<Longrightarrow> \<not> rooted \<and> set acc \<subseteq> {[46, 46]}"
    using Cons.prems unfolding cleanWords_def by (metis set_rev)
  with IH w show ?case by (cases acc) auto
qed simp

text \<open>The elements of a path.\<close>

definition components :: "bytes \<Rightarrow> bytes list" where
  "components p = cleanParts (isRooted p) [] (splitSlash p)"

lemma components_clean: "cleanWords (isRooted p) (components p)"
  unfolding components_def by (rule cleanWords_cleanParts) (auto dest: splitSlash_no_slash)

lemma pathClean_components:
  "pathClean p = (if isRooted p then 47 # joinSlash (components p)
     else if joinSlash (components p) = [] then [46] else joinSlash (components p))"
  by (simp add: pathClean_def components_def Let_def)

lemma isRooted_Cons [simp]: "isRooted (c # p) \<longleftrightarrow> c = 47"
  by (simp add: isRooted_def)

lemma joinSlash_Nil: "\<forall>w\<in>set ws. w \<noteq> [] \<Longrightarrow> joinSlash ws = [] \<longleftrightarrow> ws = []"
  by (cases ws rule: joinSlash.cases) auto

lemma joinSlash_not_rooted: "cleanWords b ws \<Longrightarrow> \<not> isRooted (joinSlash ws)"
proof (cases ws)
  case (Cons w us)
  moreover assume "cleanWords b ws"
  ultimately obtain c cs where "w = c # cs" "c \<noteq> 47" by (cases w) (auto simp: cleanWords_def)
  with Cons show ?thesis by (cases us) (auto simp: isRooted_def)
qed (simp add: isRooted_def)

lemma trimPrefix_clean:
  assumes "components p \<noteq> []"
  shows "pathClean p \<noteq> [47]" "pathClean p \<noteq> [46]" "splitSlash (trimPrefix (pathClean p)) = components p"
    "isRooted (pathClean p) = isRooted p"
proof -
  let ?ws = "components p"
  note cl = components_clean [of p]
  have words: "\<forall>w\<in>set ?ws. w \<noteq> [] \<and> w \<noteq> [46] \<and> 47 \<notin> set w" using cl by (simp add: cleanWords_def)
  have ne: "joinSlash ?ws \<noteq> []" using joinSlash_Nil assms words by blast
  have dot: "joinSlash ?ws \<noteq> [46]"
  proof
    assume "joinSlash ?ws = [46]"
    then have "?ws = [[46]]" using splitSlash_join [OF assms] words by simp
    with words show False by simp
  qed
  have pc: "pathClean p = (if isRooted p then 47 # joinSlash ?ws else joinSlash ?ws)"
    using ne by (simp add: pathClean_components)
  show "pathClean p \<noteq> [47]" "pathClean p \<noteq> [46]"
    using pc ne dot joinSlash_not_rooted [OF cl] by (auto simp: isRooted_def)
  show r: "isRooted (pathClean p) = isRooted p"
    using pc joinSlash_not_rooted [OF cl] by (auto simp: isRooted_def)
  show "splitSlash (trimPrefix (pathClean p)) = components p"
    using splitSlash_join [OF assms] words pc joinSlash_not_rooted [OF cl] by (auto simp: trimPrefix_def r)
qed

lemma pathClean_empty: "components p = [] \<Longrightarrow> pathClean p = (if isRooted p then [47] else [46])"
  by (simp add: pathClean_def components_def)

lemma components_pathClean: "components (pathClean p) = components p"
proof (cases "components p = []")
  case True
  then show ?thesis by (simp add: pathClean_empty components_def isRooted_def)
next
  case False
  note t = trimPrefix_clean [OF False]
  show ?thesis
  proof (cases "isRooted p")
    case True
    then obtain q where q: "pathClean p = 47 # q" using t(4) by (cases "pathClean p") (auto simp: isRooted_def)
    then have "splitSlash q = components p" using t(3) by (simp add: trimPrefix_def isRooted_def)
    then show ?thesis using q cleanParts_clean [of True "[]"] components_clean [of p] True
      by (simp add: components_def isRooted_def)
  next
    case False
    then show ?thesis using t(3,4) cleanParts_clean [of False "[]"] components_clean [of p]
      by (simp add: components_def trimPrefix_def)
  qed
qed

lemma joinSlash_snoc: "joinSlash (us @ [w]) = (if us = [] then w else joinSlash us @ 47 # w)"
  by (induction us rule: joinSlash.induct) simp_all

lemma pathSplit_snoc: "47 \<notin> set w \<Longrightarrow> pathSplit (pre @ 47 # w) = (pre @ [47], w)"
proof -
  assume w: "47 \<notin> set w"
  have "takeWhile (\<lambda>c. c \<noteq> 47) (rev (pre @ 47 # w)) = rev w"
    using w by (simp add: takeWhile_append)
  then show ?thesis by (simp add: pathSplit_def)
qed

lemma pathSplit_word: "47 \<notin> set w \<Longrightarrow> pathSplit w = ([], w)"
proof -
  assume "47 \<notin> set w"
  then have "takeWhile (\<lambda>c. c \<noteq> 47) (rev w) = rev w" by (subst takeWhile_eq_all_conv) auto
  then show ?thesis unfolding pathSplit_def Let_def by (simp del: takeWhile_eq_all_conv)
qed

lemma splitParent_clean:
  assumes "components p \<noteq> []"
  shows "snd (splitParent (pathClean p)) = last (components p)"
    "components (fst (splitParent (pathClean p))) = butlast (components p)"
proof -
  obtain us w where ws: "components p = us @ [w]" using assms by (cases "components p" rule: rev_cases) auto
  note cl = components_clean [of p, unfolded ws]
  have w: "47 \<notin> set w" "w \<noteq> []" using cl by (auto simp: cleanWords_def)
  have us: "cleanWords (isRooted p) us" "\<forall>u\<in>set us. u \<noteq> [] \<and> 47 \<notin> set u"
    using cleanWords_prefix [OF cl] cl by (simp, auto simp: cleanWords_def)
  have jne: "joinSlash (us @ [w]) \<noteq> []" using w by (simp add: joinSlash_snoc)
  have pc: "pathClean p = (if isRooted p then [47] else []) @ joinSlash (us @ [w])"
    using jne by (simp add: pathClean_components ws)
  define par where "par = (if isRooted p then 47 # joinSlash us else if us = [] then [47] else joinSlash us)"
  have root: "components [47] = []" by (simp add: components_def isRooted_def)
  have par: "components par = us"
  proof (cases "us = []")
    case True
    then show ?thesis by (simp add: par_def root)
  next
    case False
    have "splitSlash (joinSlash us) = us" using splitSlash_join [OF False] us(2) by simp
    then show ?thesis
      using False us(1) cleanParts_clean [of "isRooted p" "[]" us] joinSlash_not_rooted [OF us(1)]
      by (cases "isRooted p") (simp_all add: par_def components_def isRooted_def)
  qed
  have tr: "trimSuffix (q @ [47]) = q" for q by (simp add: trimSuffix_def)
  have "splitParent (pathClean p) = (par, w)"
  proof (cases "us = []")
    case True
    then show ?thesis
      using pathSplit_word [OF w(1)] pathSplit_snoc [OF w(1), of "[]"] tr [of "[]"]
      by (cases "isRooted p") (simp_all add: splitParent_def pc par_def trimSuffix_def)
  next
    case False
    then have ne: "joinSlash us \<noteq> []" using joinSlash_Nil us(2) by blast
    define pre where "pre = (if isRooted p then [47] else []) @ joinSlash us"
    have "pathClean p = pre @ 47 # w" using False by (simp add: pc pre_def joinSlash_snoc)
    moreover have "par = pre" and "pre \<noteq> []" using False ne by (simp_all add: pre_def par_def)
    ultimately show ?thesis using pathSplit_snoc [OF w(1), of pre] tr [of pre] by (simp add: splitParent_def)
  qed
  then show "snd (splitParent (pathClean p)) = last (components p)"
    "components (fst (splitParent (pathClean p))) = butlast (components p)"
    using ws par by simp_all
qed

section \<open>Resolution is a walk over the elements\<close>

lemma resolveWithin_Suc:
  "resolveWithin (Suc k) sio r partOff sb p =
     bindR (readInode r partOff sb (rootIno sb)) (\<lambda>root.
       walkNames sio r partOff sb (resolveWithin k sio r partOff sb) root (components p))"
proof (cases "components p = []")
  case True
  then show ?thesis by (simp add: pathClean_empty)
next
  case False
  then show ?thesis using trimPrefix_clean [OF False] by (simp add: Let_def)
qed

declare resolveWithin.simps(2) [simp del]

lemma walkNames_append:
  "walkNames sio r partOff sb res cur (ns @ ms) =
     bindR (walkNames sio r partOff sb res cur ns) (\<lambda>c. walkNames sio r partOff sb res c ms)"
proof (induction ns arbitrary: cur)
  case (Cons n ns)
  show ?case
    by (cases "lookupInDir sio r partOff sb cur n")
      (auto simp: Cons bindR_def split: sum.splits)
qed simp

lemma readInode_errors: "readInode r partOff sb ino = Inl e \<Longrightarrow> e = ErrIO \<or> e = ErrBadMagic"
  by (auto simp: readInode_def bindR_eq_Inl parseInode_def readBytes_def ReadAt_def split: if_splits)

lemma pathLookup_walk:
  "pathLookup sio r partOff sb p =
     bindR (readInode r partOff sb (rootIno sb)) (\<lambda>root.
       walkNames sio r partOff sb (resolveWithin 39 sio r partOff sb) root (components p))"
  using resolveWithin_Suc [of 39 sio r partOff sb p]
  by (simp add: pathLookup_def pathLookupResolve_def maxSymlinkDepth_def)

text \<open>
  A name that its directory lacks: \<^verbatim>\<open>pathLookup\<close> marks the error as \<^verbatim>\<open>fs.ErrNotExist\<close>, and
  \<^verbatim>\<open>lstatLookup\<close> returns it bare.
\<close>

lemma lookups_at_parent:
  assumes "components p \<noteq> []" and "splitParent (pathClean p) = (par, nm)"
  shows "pathLookup sio r partOff sb p = bindR (pathLookup sio r partOff sb par) (\<lambda>dir. walkNames sio r partOff sb (resolveWithin 39 sio r partOff sb) dir [nm])"
    "lstatLookup sio r partOff sb p = bindR (pathLookup sio r partOff sb par) (\<lambda>dir. if \<not> isDir dir then Inl ErrNotDir
       else bindR (lookupInDir sio r partOff sb dir nm) (readInode r partOff sb))"
proof -
  have "components p = components par @ [nm]" using splitParent_clean [OF assms(1)] assms by simp
  then show "pathLookup sio r partOff sb p = bindR (pathLookup sio r partOff sb par) (\<lambda>dir. walkNames sio r partOff sb (resolveWithin 39 sio r partOff sb) dir [nm])"
    by (cases "readInode r partOff sb (rootIno sb)") (simp_all add: pathLookup_walk walkNames_append)
  show "lstatLookup sio r partOff sb p = bindR (pathLookup sio r partOff sb par) (\<lambda>dir. if \<not> isDir dir then Inl ErrNotDir
       else bindR (lookupInDir sio r partOff sb dir nm) (readInode r partOff sb))"
    using trimPrefix_clean(1,2) [OF assms(1)] assms(2) by (simp add: lstatLookup_def)
qed

lemma lstatLookup_missing:
  assumes "components p \<noteq> []" and "splitParent (pathClean p) = (par, nm)" and "pathLookup sio r partOff sb par = Inr dir" "isDir dir"
    and "lookupInDir sio r partOff sb dir nm = Inl ErrNotFound"
  shows "lstatLookup sio r partOff sb p = Inl ErrNotFound" "pathLookup sio r partOff sb p = Inl ErrNotExist"
  using assms(3-5) lookups_at_parent [OF assms(1,2), of sio r partOff sb] by (simp_all add: notExistIfMissing_def)


section \<open>Resolution as a machine\<close>

text \<open>
  What a path means on an image, as a machine without recursion. Its state is the inode it has come
  to and the elements still to be looked up. An element that names a symlink is replaced by the elements of the target, and the walk starts again
  at the root, whether the target is absolute or not. Each element carries the number of symlinks it is nested in; those
  of a target are one deeper than the link, and a link as deep as the limit is not followed.
\<close>

definition nested :: "nat \<Rightarrow> bytes list \<Rightarrow> (bytes \<times> nat) list" where
  "nested k names = map (\<lambda>n. (n, k)) names"

inductive namei :: "('g, 'v) safeio \<Rightarrow> dev \<Rightarrow> int64 \<Rightarrow> superblock \<Rightarrow> inode \<times> (bytes \<times> nat) list \<Rightarrow> inode \<times> (bytes \<times> nat) list \<Rightarrow> bool"
  for sio r partOff sb where
  enter: "lookupInDir sio r partOff sb cur name = Inr ino \<Longrightarrow> readInode r partOff sb ino = Inr child \<Longrightarrow> \<not> isSymlink child \<Longrightarrow>
    namei sio r partOff sb (cur, (name, k) # todo) (child, todo)"
| expand: "lookupInDir sio r partOff sb cur name = Inr ino \<Longrightarrow> readInode r partOff sb ino = Inr link \<Longrightarrow> isSymlink link \<Longrightarrow>
    readSymlinkTarget sio r partOff sb link = Some (Inr target) \<Longrightarrow> Suc k < maxSymlinkDepth \<Longrightarrow> readInode r partOff sb (rootIno sb) = Inr root \<Longrightarrow>
    namei sio r partOff sb (cur, (name, k) # todo) (root, nested (Suc k) (components target) @ todo)"

inductive_simps namei_done [simp]: "namei sio r partOff sb (cur, []) st"
inductive_cases namei_elem: "namei sio r partOff sb (cur, (name, k) # todo) st"

text \<open>Why the machine stops in front of an element.\<close>

definition gives_up :: "('g, 'v) safeio \<Rightarrow> dev \<Rightarrow> int64 \<Rightarrow> superblock \<Rightarrow> inode \<Rightarrow> bytes \<Rightarrow> nat \<Rightarrow> error \<Rightarrow> bool" where
  "gives_up sio r partOff sb cur name k e \<longleftrightarrow>
     (case lookupInDir sio r partOff sb cur name of
        Inl e' \<Rightarrow> e = notExistIfMissing e'
      | Inr ino \<Rightarrow> (case readInode r partOff sb ino of
          Inl e' \<Rightarrow> e = e'
        | Inr child \<Rightarrow> isSymlink child \<and> (case returned (readSymlinkTarget sio r partOff sb child) of
            Inl e' \<Rightarrow> e = e'
          | Inr target \<Rightarrow> maxSymlinkDepth \<le> Suc k \<and> e = ErrSymlinkLoop)))"

text \<open>The machine started on a path comes to ask \<open>dir\<close> for \<open>name\<close>, nested in \<open>k\<close> symlinks.\<close>

definition asks :: "('g, 'v) safeio \<Rightarrow> dev \<Rightarrow> int64 \<Rightarrow> superblock \<Rightarrow> bytes \<Rightarrow> inode \<Rightarrow> bytes \<Rightarrow> nat \<Rightarrow> bool" where
  "asks sio r partOff sb p dir name k \<longleftrightarrow> (\<exists>root todo. readInode r partOff sb (rootIno sb) = Inr root \<and>
     (namei sio r partOff sb)\<^sup>*\<^sup>* (root, nested 0 (components p)) (dir, (name, k) # todo))"

lemma returned_Inr: "returned x = Inr y \<longleftrightarrow> x = Some (Inr y)"
  by (auto simp: returned_def split: option.splits)

lemma namei_deterministic: "namei sio r partOff sb st x \<Longrightarrow> namei sio r partOff sb st y \<Longrightarrow> x = y"
  by (erule namei.cases; erule namei.cases) simp_all

lemma gives_up_stuck:
  assumes "gives_up sio r partOff sb cur name k e"
  shows "\<not> namei sio r partOff sb (cur, (name, k) # todo) st"
  using assms by (auto simp: gives_up_def returned_def elim!: namei_elem split: sum.splits)

lemma namei_ends_once:
  assumes "(namei sio r partOff sb)\<^sup>*\<^sup>* st x" and "(namei sio r partOff sb)\<^sup>*\<^sup>* st y"
    and "\<And>z. \<not> namei sio r partOff sb x z" "\<And>z. \<not> namei sio r partOff sb y z"
  shows "x = y"
  using assms(1,2)
proof (induction rule: converse_rtranclp_induct)
  case base
  then show ?case using assms(3) by (metis converse_rtranclpE)
next
  case (step st mid)
  show ?case
  proof (cases "y = st")
    case True
    then show ?thesis using step.hyps(1) assms(4) by blast
  next
    case False
    then show ?thesis using step.IH step.hyps(1) step.prems namei_deterministic by (metis converse_rtranclpE)
  qed
qed

text \<open>What the recursive walk returns is where the machine ends; \<open>n\<close> levels of recursion are left at level \<open>k\<close>.\<close>

definition ends :: "('g, 'v) safeio \<Rightarrow> dev \<Rightarrow> int64 \<Rightarrow> superblock \<Rightarrow> inode res \<Rightarrow> inode \<times> (bytes \<times> nat) list \<Rightarrow> (bytes \<times> nat) list \<Rightarrow> bool" where
  "ends sio r partOff sb x st todo \<longleftrightarrow>
     (case x of
        Inr i \<Rightarrow> (namei sio r partOff sb)\<^sup>*\<^sup>* st (i, todo)
      | Inl e \<Rightarrow> \<exists>dir name k todo'. (namei sio r partOff sb)\<^sup>*\<^sup>* st (dir, (name, k) # todo') \<and> gives_up sio r partOff sb dir name k e)"

lemma ends_step: "namei sio r partOff sb st mid \<Longrightarrow> ends sio r partOff sb x mid todo \<Longrightarrow> ends sio r partOff sb x st todo"
  unfolding ends_def by (cases x) (simp_all, blast intro: converse_rtranclp_into_rtranclp)+

lemma ends_here: "gives_up sio r partOff sb cur name k e \<Longrightarrow> ends sio r partOff sb (Inl e) (cur, (name, k) # todo) rest"
  unfolding ends_def by auto

lemma ends_bind:
  assumes "ends sio r partOff sb x st todo" and "\<And>i. x = Inr i \<Longrightarrow> ends sio r partOff sb (f i) (i, todo) rest"
  shows "ends sio r partOff sb (bindR x f) st rest"
proof (cases x)
  case (Inl e)
  then show ?thesis using assms(1) by (simp add: ends_def)
next
  case (Inr i)
  then have st: "(namei sio r partOff sb)\<^sup>*\<^sup>* st (i, todo)" and f: "ends sio r partOff sb (f i) (i, todo) rest" using assms by (simp_all add: ends_def)
  show ?thesis using Inr f rtranclp_trans [OF st] by (cases "f i") (simp_all add: ends_def, blast+)
qed

lemma walkNames_ends:
  assumes "readInode r partOff sb (rootIno sb) = Inr root" and "n + k = 39"
  shows "ends sio r partOff sb (walkNames sio r partOff sb (resolveWithin n sio r partOff sb) cur names) (cur, nested k names @ todo) todo"
  using assms(2)
proof (induction n arbitrary: cur names k todo)
  have walk: "ends sio r partOff sb (walkNames sio r partOff sb (resolveWithin n sio r partOff sb) cur names) (cur, nested k names @ todo) todo"
    if link: "\<And>t i cur name ino child todo. lookupInDir sio r partOff sb cur name = Inr ino \<Longrightarrow> readInode r partOff sb ino = Inr child \<Longrightarrow>
      isSymlink child \<Longrightarrow> readSymlinkTarget sio r partOff sb child = Some (Inr t) \<Longrightarrow>
      ends sio r partOff sb (resolveWithin n sio r partOff sb t) (cur, (name, k) # todo) todo" for n k cur names todo
  proof (induction names arbitrary: cur)
    case Nil
    show ?case by (simp add: ends_def nested_def)
  next
    case (Cons name names)
    have l: "nested k (name # names) @ todo = (name, k) # nested k names @ todo" by (simp add: nested_def)
    show ?case
    proof (cases "lookupInDir sio r partOff sb cur name")
      case (Inl e)
      then show ?thesis unfolding l by (simp add: ends_here gives_up_def)
    next
      case ino: (Inr ino)
      show ?thesis
      proof (cases "readInode r partOff sb ino")
        case (Inl e)
        then show ?thesis unfolding l using ino by (simp add: ends_here gives_up_def)
      next
        case child: (Inr child)
        show ?thesis
        proof (cases "isSymlink child")
          case False
          then show ?thesis unfolding l using ino child ends_step [OF enter [OF ino child False] Cons.IH] by simp
        next
          case True
          show ?thesis
          proof (cases "returned (readSymlinkTarget sio r partOff sb child)")
            case (Inl e)
            then show ?thesis unfolding l using ino child True by (simp add: ends_here gives_up_def)
          next
            case (Inr t)
            then have "ends sio r partOff sb (resolveWithin n sio r partOff sb t) (cur, (name, k) # nested k names @ todo) (nested k names @ todo)"
              using link [OF ino child True] by (simp add: returned_Inr)
            from ends_bind [OF this Cons.IH] show ?thesis unfolding l using ino child True Inr by simp
          qed
        qed
      qed
    qed
  qed
  {
    case 0
    show ?case
      by (rule walk) (use 0 in \<open>auto intro!: ends_here simp: gives_up_def returned_def maxSymlinkDepth_def\<close>)
  next
    case (Suc n)
    show ?case
    proof (rule walk)
      fix t i cur name ino child todo
      assume l: "lookupInDir sio r partOff sb cur name = Inr ino" "readInode r partOff sb ino = Inr child" "isSymlink child"
        "readSymlinkTarget sio r partOff sb child = Some (Inr t)"
      have "Suc k < maxSymlinkDepth" using Suc.prems by (simp add: maxSymlinkDepth_def)
      from ends_step [OF expand [OF l this assms(1)] Suc.IH] Suc.prems
      show "ends sio r partOff sb (resolveWithin (Suc n) sio r partOff sb t) (cur, (name, k) # todo) todo"
        by (simp add: resolveWithin_Suc assms(1))
    qed
  }
qed

lemma walk_machine:
  assumes "readInode r partOff sb (rootIno sb) = Inr root"
  shows "walkNames sio r partOff sb (resolveWithin 39 sio r partOff sb) root names = Inr i \<longleftrightarrow>
      (namei sio r partOff sb)\<^sup>*\<^sup>* (root, nested 0 names) (i, [])" (is "?w = _ \<longleftrightarrow> ?m")
    and "walkNames sio r partOff sb (resolveWithin 39 sio r partOff sb) root names = Inl e \<longleftrightarrow>
      (\<exists>dir name k todo. (namei sio r partOff sb)\<^sup>*\<^sup>* (root, nested 0 names) (dir, (name, k) # todo) \<and> gives_up sio r partOff sb dir name k e)" (is "_ \<longleftrightarrow> ?g")
proof -
  have e: "ends sio r partOff sb ?w (root, nested 0 names) []" using walkNames_ends [OF assms, of 39 0 sio root names "[]"] by simp
  have once: False if "(namei sio r partOff sb)\<^sup>*\<^sup>* (root, nested 0 names) (i, [])" "(namei sio r partOff sb)\<^sup>*\<^sup>* (root, nested 0 names) (dir, (name, k) # todo)"
    "gives_up sio r partOff sb dir name k e" for i dir name k todo e
  proof -
    have "(i, []) = (dir, (name, k) # todo)" by (rule namei_ends_once [OF that(1,2) _ gives_up_stuck [OF that(3)]]) simp
    then show False by simp
  qed
  have same: "e = e'" if "(namei sio r partOff sb)\<^sup>*\<^sup>* (root, nested 0 names) (dir, (name, k) # todo)" "gives_up sio r partOff sb dir name k e"
    "(namei sio r partOff sb)\<^sup>*\<^sup>* (root, nested 0 names) (dir', (name', k') # todo')" "gives_up sio r partOff sb dir' name' k' e'" for dir name k todo e dir' name' k' todo' e'
  proof -
    have "(dir, (name, k) # todo) = (dir', (name', k') # todo')"
      by (rule namei_ends_once [OF that(1,3) gives_up_stuck [OF that(2)] gives_up_stuck [OF that(4)]])
    then show ?thesis using that(2,4) by (auto simp: gives_up_def split: sum.splits)
  qed
  show "?w = Inr i \<longleftrightarrow> ?m"
  proof (cases ?w)
    case (Inl e')
    then obtain dir name k todo where "(namei sio r partOff sb)\<^sup>*\<^sup>* (root, nested 0 names) (dir, (name, k) # todo)" "gives_up sio r partOff sb dir name k e'"
      using e by (auto simp: ends_def)
    then have "\<not> ?m" using once by blast
    then show ?thesis using Inl by simp
  next
    case (Inr j)
    then have j: "(namei sio r partOff sb)\<^sup>*\<^sup>* (root, nested 0 names) (j, [])" using e by (simp add: ends_def)
    have "?m \<longleftrightarrow> i = j"
    proof
      assume ?m
      have "(i, []) = (j, [] :: (bytes \<times> nat) list)" by (rule namei_ends_once [OF \<open>?m\<close> j]) simp_all
      then show "i = j" by simp
    qed (use j in simp)
    then show ?thesis using Inr by auto
  qed
  show "?w = Inl e \<longleftrightarrow> ?g"
  proof (cases ?w)
    case (Inl e')
    then obtain dir name k todo where g: "(namei sio r partOff sb)\<^sup>*\<^sup>* (root, nested 0 names) (dir, (name, k) # todo)" "gives_up sio r partOff sb dir name k e'"
      using e by (auto simp: ends_def)
    then have "?g \<longleftrightarrow> e = e'" using same [OF g] by blast
    then show ?thesis using Inl by auto
  next
    case (Inr j)
    then have "(namei sio r partOff sb)\<^sup>*\<^sup>* (root, nested 0 names) (j, [])" using e by (simp add: ends_def)
    then have "\<not> ?g" using once by blast
    then show ?thesis using Inr by simp
  qed
qed

text \<open>
  C23. \<^verbatim>\<open>pathLookup\<close>, which calls itself for the target of every symlink, returns an inode exactly when the machine that
  rewrites the path instead comes to its end there. So it finds at most one. The limit of 40 (\<^verbatim>\<open>maxSymlinkDepth\<close>) bounds how deep
  symlinks nest, not how many are followed one after the other (\<open>many_links_followed\<close>), and a relative
  target is looked up from the root.
\<close>

theorem pathLookup_iff_namei:
  "pathLookup sio r partOff sb p = Inr i \<longleftrightarrow>
     (\<exists>root. readInode r partOff sb (rootIno sb) = Inr root \<and> (namei sio r partOff sb)\<^sup>*\<^sup>* (root, nested 0 (components p)) (i, []))"
  by (auto simp: pathLookup_walk bindR_eq_Inr walk_machine(1))

lemma many_links_followed:
  assumes "readInode r partOff sb (rootIno sb) = Inr root" and "lookupInDir sio r partOff sb root name = Inr ino" "readInode r partOff sb ino = Inr link"
    and "isSymlink link" "readSymlinkTarget sio r partOff sb link = Some (Inr [47])" and "components p = replicate n name"
  shows "pathLookup sio r partOff sb p = Inr root"
proof -
  have "components [47] = []" by code_simp
  then have "resolveWithin 39 sio r partOff sb [47] = Inr root" using resolveWithin_Suc [of 38 sio r partOff sb "[47]"] assms(1) by simp
  then have "walkNames sio r partOff sb (resolveWithin 39 sio r partOff sb) root (replicate n name) = Inr root"
    using assms(2-5) by (induction n) (simp_all add: returned_def)
  then show ?thesis using assms(1,6) by (simp add: pathLookup_walk)
qed

section \<open>Errors\<close>

text \<open>The error kinds safeio documents for each call.\<close>

definition reports_errors :: "('g, 'v) safeio \<Rightarrow> bool" where
  "reports_errors sio \<longleftrightarrow> (\<forall>n lim e. MakeBytes sio n lim = Inl e \<longrightarrow> e = ErrTooLarge) \<and>
     (\<forall>g e. GuardNext sio g = Inl e \<longrightarrow> e = ErrLoopLimit) \<and> (\<forall>v k e. VisitCheck sio v k = Inl e \<longrightarrow> e = ErrCycle)"

lemma safeio_ref_reports: "reports_errors safeio_ref"
  by (auto simp: reports_errors_def safeio_ref_def split: nat.splits if_splits)

text \<open>The errors a read can end with: none of them is a verdict about a name.\<close>

definition read_error :: "error \<Rightarrow> bool" where
  "read_error e \<longleftrightarrow> e \<notin> {ErrNotFound, ErrNotExist, ErrSymlinkLoop, OutOfFuel}"

lemma readRawBlock_errors: "readRawBlock r partOff sb b = Inl e \<Longrightarrow> read_error e"
  by (auto simp: read_error_def readRawBlock_def blockByteOffset_def Let_def ReadAt_def split: if_splits)

lemma validateExtents_errors: "validateExtents exts = Inl e \<Longrightarrow> read_error e"
  by (auto simp: read_error_def validateExtents_def checkRuns_def Let_def bindR_eq_Inl split: if_splits)

lemma read_error_kinds [simp]:
  "read_error ErrBtree" "read_error ErrForkTooSmall" "read_error ErrInlineSize" "read_error ErrFormat" "read_error Panic"
  "read_error ErrLoopLimit" "read_error ErrCycle" "read_error ErrTooLarge"
  by (simp_all add: read_error_def)

lemma safeio_errors:
  assumes "reports_errors sio"
  shows "GuardNext sio g = Inl e \<Longrightarrow> read_error e" "VisitCheck sio v k = Inl e \<Longrightarrow> read_error e"
    "MakeBytes sio n lim = Inl e \<Longrightarrow> read_error e"
  using assms unfolding reports_errors_def by (metis read_error_kinds)+

lemma btreeDescend_errors:
  "reports_errors sio \<Longrightarrow> btreeDescend sio r partOff sb g v lvl ptr = Inl e \<Longrightarrow> read_error e"
proof (induction lvl arbitrary: g v ptr)
  case (Suc lvl)
  then show ?case
    by (auto simp: bindR_eq_Inl Let_def dest: readRawBlock_errors safeio_errors split: if_splits)
qed simp

lemma btreeLeafWalk_errors:
  fixes sio :: "('g, 'v) safeio"
  assumes "reports_errors sio" and "btreeLeafWalk sio r partOff sb walk seen ptr exts = Some (Inl e)"
  shows "read_error e"
proof -
  have "reports_errors sio \<longrightarrow> (\<forall>e'. Inl e = (Inl e' :: extent list res) \<longrightarrow> read_error e')"
  proof (rule btreeLeafWalk.raw_induct [where P =
      "\<lambda>(sio :: ('g, 'v) safeio) r partOff sb walk seen ptr exts res. reports_errors sio \<longrightarrow> (\<forall>e'. res = Inl e' \<longrightarrow> read_error e')"])
    show "btreeLeafWalk sio r partOff sb walk seen ptr exts = Some (Inl e)" by (rule assms(2))
  next
    fix f :: "('g, 'v) safeio \<Rightarrow> dev \<Rightarrow> int64 \<Rightarrow> superblock \<Rightarrow> 'g \<Rightarrow> 'v \<Rightarrow> u64 \<Rightarrow> extent list \<Rightarrow> extent list res option"
    fix sio r partOff sb walk seen ptr exts y
    assume IH: "\<And>(sio :: ('g, 'v) safeio) r partOff sb walk seen ptr exts y.
        f sio r partOff sb walk seen ptr exts = Some y \<Longrightarrow> reports_errors sio \<longrightarrow> (\<forall>e'. y = Inl e' \<longrightarrow> read_error e')"
    show "(case GuardNext sio walk of Inl e \<Rightarrow> Some (Inl e) | Inr walk' \<Rightarrow>
        (case VisitCheck sio seen ptr of Inl e \<Rightarrow> Some (Inl e) | Inr seen' \<Rightarrow>
        (case readRawBlock r partOff sb ptr of Inl e \<Rightarrow> Some (Inl e) | Inr blk \<Rightarrow>
          if length blk < btreeHdrSize (hasCRC sb) + 8 then Some (Inl ErrBtree)
          else if be32 blk 12 = 0xFFFFFFFF
            then Some (Inr (exts @ btreeLeafExtents (drop (btreeHdrSize (hasCRC sb)) blk) (unat (be16 blk 6))))
            else f sio r partOff sb walk' seen' (ucast (be32 blk 12))
                   (exts @ btreeLeafExtents (drop (btreeHdrSize (hasCRC sb)) blk) (unat (be16 blk 6)))))) = Some y \<Longrightarrow>
      reports_errors sio \<longrightarrow> (\<forall>e'. y = Inl e' \<longrightarrow> read_error e')"
      by (auto dest: readRawBlock_errors safeio_errors IH split: sum.splits if_splits)
  qed
  with assms(1) show ?thesis by blast
qed

lemma btreeExtents_errors:
  assumes "guards_loops sio" and "reports_errors sio" and "returned (btreeExtents sio r partOff sb inode) = Inl e"
  shows "read_error e"
proof -
  obtain res where res: "btreeExtents sio r partOff sb inode = Some res"
    using btreeExtents_returns [OF assms(1)] by blast
  then obtain raw where raw: "btreeExtentsUnchecked sio r partOff sb inode = Some raw"
    and "res = bindR raw (\<lambda>exts. bindR (validateExtents exts) (\<lambda>_. Inr exts))"
    by (auto simp: btreeExtents_def split: option.splits)
  with assms(3) res consider "raw = Inl e" | "read_error e"
    by (auto simp: returned_def bindR_eq_Inl dest: validateExtents_errors)
  then show ?thesis
  proof cases
    case 1
    with raw assms(2) show ?thesis
      by (auto simp: btreeExtentsUnchecked_def Let_def dest: btreeDescend_errors btreeLeafWalk_errors split: if_splits sum.splits)
  qed
qed

lemma inlineExtents_errors: "inlineExtents inode = Inl e \<Longrightarrow> read_error e"
  by (auto simp: inlineExtents_def Let_def bindR_eq_Inl dest: validateExtents_errors split: if_splits)

lemma symlinkBlocks_errors: "symlinkBlocks r partOff sb n out bs = Inl e \<Longrightarrow> read_error e"
  by (induction bs arbitrary: n out) (auto simp: bindR_eq_Inl Let_def dest: readRawBlock_errors split: if_splits)

lemma readSymlinkRemote_errors:
  "reports_errors sio \<Longrightarrow> readSymlinkRemote sio r partOff sb inode exts = Inl e \<Longrightarrow> read_error e"
  by (auto simp: readSymlinkRemote_def bindR_eq_Inl dest: symlinkBlocks_errors safeio_errors)

lemma symlinkTarget_errors:
  assumes "guards_loops sio" and "reports_errors sio" and "returned (readSymlinkTarget sio r partOff sb inode) = Inl e"
  shows "read_error e"
proof (cases "iFormat inode = inodeFmtBtree")
  case True
  obtain res where res: "btreeExtents sio r partOff sb inode = Some res"
    using btreeExtents_returns [OF assms(1)] by blast
  with True assms(3) have "bindR res (readSymlinkRemote sio r partOff sb inode) = Inl e"
    by (simp add: readSymlinkTarget_def returned_def inodeFmtLocal_def inodeFmtExtents_def inodeFmtBtree_def)
  then show ?thesis
    using btreeExtents_errors [OF assms(1,2), of r partOff sb inode e] res readSymlinkRemote_errors [OF assms(2)]
    by (auto simp: bindR_eq_Inl returned_def)
next
  case False
  with assms(3) show ?thesis
    by (auto simp: readSymlinkTarget_def returned_def readInline_def bindR_eq_Inl
      dest: inlineExtents_errors readSymlinkRemote_errors [OF assms(2)] split: if_splits)
qed

lemma lookupInDir_errors:
  assumes "guards_loops sio" and "reports_errors sio" and "lookupInDir sio r partOff sb dir name = Inl e"
  shows "e = ErrNotFound \<or> read_error e"
proof -
  have sf: "sfLookupLoop fork name ft i8 n off = Inl e \<Longrightarrow> e = ErrNotFound" for fork name ft i8 n off
    by (induction fork name ft i8 n off rule: sfLookupLoop.induct) (auto simp: Let_def split: if_splits)
  have blocks: "searchBlocks r partOff sb name bs = Inl e \<Longrightarrow> e = ErrNotFound \<or> read_error e" for bs
    by (induction bs) (auto simp: bindR_eq_Inl dest: readRawBlock_errors split: option.splits)
  show ?thesis
    using assms(3)
    by (auto simp: lookupInDir_def sfLookup_def Let_def blockDirLookup_def dirExtents_def bindR_eq_Inl
      dest: sf blocks inlineExtents_errors btreeExtents_errors [OF assms(1,2)] split: if_splits)
qed

lemma gives_up_errors:
  assumes "guards_loops sio" and "reports_errors sio" and "gives_up sio r partOff sb dir name k e"
  shows "e = ErrNotExist \<and> lookupInDir sio r partOff sb dir name = Inl ErrNotFound \<or> read_error e \<or> e = ErrSymlinkLoop \<and> maxSymlinkDepth \<le> Suc k \<and>
    (\<exists>ino link target. lookupInDir sio r partOff sb dir name = Inr ino \<and> readInode r partOff sb ino = Inr link \<and> isSymlink link \<and>
       readSymlinkTarget sio r partOff sb link = Some (Inr target))"
proof (cases "lookupInDir sio r partOff sb dir name")
  case (Inl e')
  then show ?thesis using assms(3) lookupInDir_errors [OF assms(1,2) Inl] by (auto simp: gives_up_def notExistIfMissing_def split: if_splits)
next
  case ino: (Inr ino)
  show ?thesis
  proof (cases "readInode r partOff sb ino")
    case (Inl e')
    then show ?thesis using assms(3) ino readInode_errors [OF Inl] by (auto simp: gives_up_def read_error_def)
  next
    case (Inr child)
    then show ?thesis using assms(3) ino symlinkTarget_errors [OF assms(1,2)] by (auto simp: gives_up_def returned_Inr split: sum.splits)
  qed
qed

text \<open>
  C25. What the errors of \<^verbatim>\<open>pathLookup\<close> mean for the path that was asked for. It returns \<^verbatim>\<open>fs.ErrNotExist\<close>
  exactly when the lookup of this path comes to ask some directory (the code does not check that it is one) for an element
  that the directory lacks, and
  \<^verbatim>\<open>ErrSymlinkLoop\<close> exactly when it comes to a symlink nested in 39 others; every other error is one of
  reading the image. In particular the lookup always returns, a bare \<^verbatim>\<open>ErrNotFound\<close> never leaves it, and an image that cannot be read is never
  reported as a missing path.
\<close>

theorem pathLookup_errors:
  assumes "guards_loops sio" and "reports_errors sio"
  shows "(pathLookup sio r partOff sb p = Inl ErrNotExist \<longleftrightarrow>
      (\<exists>dir name k. asks sio r partOff sb p dir name k \<and> lookupInDir sio r partOff sb dir name = Inl ErrNotFound)) \<and>
    (pathLookup sio r partOff sb p = Inl ErrSymlinkLoop \<longleftrightarrow>
      (\<exists>dir name k ino link target. asks sio r partOff sb p dir name k \<and> maxSymlinkDepth \<le> Suc k \<and> lookupInDir sio r partOff sb dir name = Inr ino \<and>
         readInode r partOff sb ino = Inr link \<and> isSymlink link \<and> readSymlinkTarget sio r partOff sb link = Some (Inr target))) \<and>
    (\<forall>e. pathLookup sio r partOff sb p = Inl e \<longrightarrow> e = ErrNotExist \<or> e = ErrSymlinkLoop \<or> read_error e)"
proof (cases "readInode r partOff sb (rootIno sb)")
  case (Inl e)
  then show ?thesis using readInode_errors [OF Inl] by (auto simp: pathLookup_walk asks_def read_error_def)
next
  case (Inr root)
  have m: "pathLookup sio r partOff sb p = Inl e \<longleftrightarrow> (\<exists>dir name k. asks sio r partOff sb p dir name k \<and> gives_up sio r partOff sb dir name k e)" for e
    using walk_machine(2) [OF Inr, of sio "components p" e] by (auto simp: pathLookup_walk asks_def Inr)
  note g = gives_up_errors [OF assms, where r = r and partOff = partOff and sb = sb]
  have "\<not> read_error ErrNotExist" "\<not> read_error ErrSymlinkLoop" by (simp_all add: read_error_def)
  moreover have "gives_up sio r partOff sb dir name k ErrNotExist" if "lookupInDir sio r partOff sb dir name = Inl ErrNotFound" for dir name k
    using that by (simp add: gives_up_def notExistIfMissing_def)
  moreover have "gives_up sio r partOff sb dir name k ErrSymlinkLoop" if "maxSymlinkDepth \<le> Suc k" "lookupInDir sio r partOff sb dir name = Inr ino"
    "readInode r partOff sb ino = Inr link" "isSymlink link" "readSymlinkTarget sio r partOff sb link = Some (Inr target)" for dir name k ino link target
    using that by (simp add: gives_up_def returned_def)
  ultimately show ?thesis unfolding m by (intro conjI) (blast dest: g)+
qed

section \<open>Cycles of symlinks\<close>

text \<open>With fewer levels left, a lookup that succeeds finds the same inode or gives up at the limit.\<close>

lemma walkNames_fewer:
  assumes "walkNames sio r partOff sb res cur names = Inr i" and "\<And>t c. res t = Inr c \<Longrightarrow> res' t \<in> {Inr c, Inl ErrSymlinkLoop}"
  shows "walkNames sio r partOff sb res' cur names \<in> {Inr i, Inl ErrSymlinkLoop}"
  using assms(1)
proof (induction names arbitrary: cur)
  case (Cons name names)
  then obtain ino child where c: "lookupInDir sio r partOff sb cur name = Inr ino" "readInode r partOff sb ino = Inr child"
    by (auto simp: bindR_eq_Inr split: sum.splits)
  show ?case
  proof (cases "isSymlink child")
    case True
    with Cons.prems c obtain t c' where t: "returned (readSymlinkTarget sio r partOff sb child) = Inr t" "res t = Inr c'"
      and w: "walkNames sio r partOff sb res c' names = Inr i"
      by (auto simp: bindR_eq_Inr)
    from assms(2) [OF t(2)] Cons.IH [OF w] c t(1) True show ?thesis by auto
  next
    case False
    with Cons c show ?thesis by simp
  qed
qed simp

lemma resolveWithin_fewer:
  "resolveWithin m sio r partOff sb p = Inr i \<Longrightarrow> k \<le> m \<Longrightarrow> resolveWithin k sio r partOff sb p \<in> {Inr i, Inl ErrSymlinkLoop}"
proof (induction k arbitrary: m p i)
  case (Suc k)
  then obtain m' where m: "m = Suc m'" "k \<le> m'" by (cases m) auto
  with Suc.prems obtain root where root: "readInode r partOff sb (rootIno sb) = Inr root"
    and w: "walkNames sio r partOff sb (resolveWithin m' sio r partOff sb) root (components p) = Inr i"
    by (auto simp: resolveWithin_Suc bindR_eq_Inr)
  from walkNames_fewer [OF w, of "resolveWithin k sio r partOff sb"] Suc.IH [OF _ m(2)] show ?case by (simp add: resolveWithin_Suc root)
qed simp

text \<open>The path leads through a symlink with that target: the elements before it resolve to the directory that holds the link.\<close>

definition links_to :: "('g, 'v) safeio \<Rightarrow> dev \<Rightarrow> int64 \<Rightarrow> superblock \<Rightarrow> bytes \<Rightarrow> bytes \<Rightarrow> bool" where
  "links_to sio r partOff sb p t \<longleftrightarrow> (\<exists>root before name after dir ino link. readInode r partOff sb (rootIno sb) = Inr root \<and>
     components p = before @ name # after \<and> (namei sio r partOff sb)\<^sup>*\<^sup>* (root, nested 0 before) (dir, []) \<and>
     lookupInDir sio r partOff sb dir name = Inr ino \<and>
     readInode r partOff sb ino = Inr link \<and> isSymlink link \<and> readSymlinkTarget sio r partOff sb link = Some (Inr t))"

text \<open>
  C26. A cycle of symlinks, of any length and anywhere in the tree, is refused: if every path of a set leads, at
  some element of it, through a symlink whose target is a path of the set, the lookup of each ends with \<^verbatim>\<open>ErrSymlinkLoop\<close>.
  The elements before the link may lead through directories and through further symlinks.
\<close>

theorem symlink_cycle_refused:
  assumes "\<forall>q\<in>S. \<exists>t\<in>S. links_to sio r partOff sb q t" and "p \<in> S"
  shows "pathLookup sio r partOff sb p = Inl ErrSymlinkLoop"
proof -
  have "q \<in> S \<Longrightarrow> k \<le> 40 \<Longrightarrow> resolveWithin k sio r partOff sb q = Inl ErrSymlinkLoop" for k q
  proof (induction k arbitrary: q)
    case (Suc k)
    then obtain t where t: "t \<in> S" "links_to sio r partOff sb q t" using assms(1) by blast
    then obtain root before name after dir ino link where l: "readInode r partOff sb (rootIno sb) = Inr root" "components q = before @ name # after"
      "(namei sio r partOff sb)\<^sup>*\<^sup>* (root, nested 0 before) (dir, [])" "lookupInDir sio r partOff sb dir name = Inr ino"
      "readInode r partOff sb ino = Inr link" "isSymlink link" "readSymlinkTarget sio r partOff sb link = Some (Inr t)"
      unfolding links_to_def by blast
    have "walkNames sio r partOff sb (resolveWithin 39 sio r partOff sb) root before = Inr dir" using walk_machine(1) [OF l(1)] l(3) by blast
    then have "walkNames sio r partOff sb (resolveWithin k sio r partOff sb) root before \<in> {Inr dir, Inl ErrSymlinkLoop}"
      by (rule walkNames_fewer) (use resolveWithin_fewer Suc.prems(2) in simp)
    then show ?case using l Suc.IH [OF t(1)] Suc.prems(2) by (auto simp: resolveWithin_Suc walkNames_append returned_def)
  qed simp
  with assms(2) show ?thesis by (simp add: pathLookup_def pathLookupResolve_def maxSymlinkDepth_def)
qed

text \<open>The lookup of a name reads the fork of whatever inode it is given: the file type plays no part.\<close>

lemma lookupInDir_ignores_mode:
  "lookupInDir sio r partOff sb (inode\<lparr>iMode := m\<rparr>) name = lookupInDir sio r partOff sb inode name"
  by (simp add: lookupInDir_def blockDirLookup_def dirExtents_def btreeExtents_def btreeExtentsUnchecked_def
    inlineExtents_def dataFork_def)

section \<open>A directory with a symlink to itself\<close>

text \<open>A device that holds exactly the given bytes.\<close>

definition dev_of :: "bytes \<Rightarrow> dev" where
  "dev_of bs = \<lparr>dsize = length bs, dbytes = (\<lambda>i. if i < length bs then bs ! i else 0)\<rparr>"

lemma ReadAt_dev_of:
  assumes "sint off = int a" and "a + n \<le> length bs" and "0 < n"
  shows "ReadAt (dev_of bs) off n = Inr (window a n bs)"
  using assms by (auto simp: ReadAt_def dev_of_def window_def intro!: nth_equalityI)

text \<open>Two inodes of 256 bytes: the root, with one entry \<^verbatim>\<open>a\<close>, and \<^verbatim>\<open>a\<close>, a symlink to \<^verbatim>\<open>a\<close>.\<close>

definition loop_root :: bytes where
  "loop_root = [0x49, 0x4E, 0x41, 0xED, 3, 1] @ replicate 170 0 @
     [1, 0, 0, 0, 0, 0, 1, 0, 96, 97, 7, 0, 0, 0, 1] @ replicate 65 0"

definition loop_link :: bytes where
  "loop_link = [0x49, 0x4E, 0xA1, 0xFF, 3, 1] @ replicate 57 0 @ [1] @ replicate 112 0 @ [97] @ replicate 79 0"

definition sb_loop :: superblock where
  "sb_loop = sb_example\<lparr>blockSize := 512, agBlocks := 64, agBlkLog := 6, dBlocks := 64, agCount := 1,
     inodeSize := 256, inopBlock := 2, inopBLog := 1, rootIno := 0\<rparr>"

definition loop_dev :: dev where
  "loop_dev = dev_of (loop_root @ loop_link)"

lemma loop_read:
  "readInode loop_dev 0 sb_loop 0 = Inr \<lparr>iNum = 0, iMode = 0x41ED, iFormat = 1, iSize = 0, iNBlocks = 0, iNExts = 0, iForkOff = 0, iRaw = loop_root\<rparr>"
  "readInode loop_dev 0 sb_loop 1 = Inr \<lparr>iNum = 1, iMode = 0xA1FF, iFormat = 1, iSize = 1, iNBlocks = 0, iNExts = 0, iForkOff = 0, iRaw = loop_link\<rparr>"
proof -
  have len: "length loop_root = 256" "length loop_link = 256" by (simp_all add: loop_root_def loop_link_def)
  have "inodeByteOff sb_loop 0 0 = 0" "inodeByteOff sb_loop 0 1 = 256" by code_simp+
  then have "readBytes loop_dev (inodeByteOff sb_loop 0 0) (unat (inodeSize sb_loop)) = Inr loop_root"
    "readBytes loop_dev (inodeByteOff sb_loop 0 1) (unat (inodeSize sb_loop)) = Inr loop_link"
    using ReadAt_dev_of [of 0 0 256 "loop_root @ loop_link"] ReadAt_dev_of [of 256 256 256 "loop_root @ loop_link"] len
    by (simp_all add: readBytes_def loop_dev_def sb_loop_def window_def)
  moreover have "parseInode 0 loop_root = Inr \<lparr>iNum = 0, iMode = 0x41ED, iFormat = 1, iSize = 0, iNBlocks = 0, iNExts = 0, iForkOff = 0, iRaw = loop_root\<rparr>"
    by code_simp
  moreover have "parseInode 1 loop_link = Inr \<lparr>iNum = 1, iMode = 0xA1FF, iFormat = 1, iSize = 1, iNBlocks = 0, iNExts = 0, iForkOff = 0, iRaw = loop_link\<rparr>"
    by code_simp
  ultimately show
    "readInode loop_dev 0 sb_loop 0 = Inr \<lparr>iNum = 0, iMode = 0x41ED, iFormat = 1, iSize = 0, iNBlocks = 0, iNExts = 0, iForkOff = 0, iRaw = loop_root\<rparr>"
    "readInode loop_dev 0 sb_loop 1 = Inr \<lparr>iNum = 1, iMode = 0xA1FF, iFormat = 1, iSize = 1, iNBlocks = 0, iNExts = 0, iForkOff = 0, iRaw = loop_link\<rparr>"
    by (simp_all only: readInode_def bindR_Inr)
qed

lemma loop_lookup:
  "lookupInDir safeio_ref loop_dev 0 sb_loop \<lparr>iNum = 0, iMode = 0x41ED, iFormat = 1, iSize = 0, iNBlocks = 0, iNExts = 0, iForkOff = 0, iRaw = loop_root\<rparr> name =
     (if name = [97] then Inr 1 else Inl ErrNotFound)"
proof -
  have "dataFork \<lparr>iNum = 0, iMode = 0x41ED, iFormat = 1, iSize = 0, iNBlocks = 0, iNExts = 0, iForkOff = 0, iRaw = loop_root\<rparr> =
      [1, 0, 0, 0, 0, 0, 1, 0, 96, 97, 7, 0, 0, 0, 1] @ replicate 65 0"
    by (simp add: dataFork_def loop_root_def)
  then show ?thesis
    by (simp add: lookupInDir_def inodeFmtLocal_def sfLookup_def byte_at_def sfParentSize_def sb_loop_def window_def be32_def be_word_def word_rcat_def
      numeral_eq_Suc Let_def)
qed

lemma loop_target:
  "readSymlinkTarget safeio_ref loop_dev 0 sb_loop \<lparr>iNum = 1, iMode = 0xA1FF, iFormat = 1, iSize = 1, iNBlocks = 0, iNExts = 0, iForkOff = 0, iRaw = loop_link\<rparr> = Some (Inr [97])"
  by (simp add: readSymlinkTarget_def inodeFmtLocal_def readInline_def dataFork_def loop_link_def)

lemma loop_components: "components [47, 97] = [[97]]" "components [97] = [[97]]" "components [47] = []" "components [98] = [[98]]"
  by code_simp+

lemma loop_rootIno [simp]: "rootIno sb_loop = 0"
  by (simp add: sb_loop_def)

lemma loop_path:
  "pathLookup safeio_ref loop_dev 0 sb_loop [47] =
     Inr \<lparr>iNum = 0, iMode = 0x41ED, iFormat = 1, iSize = 0, iNBlocks = 0, iNExts = 0, iForkOff = 0, iRaw = loop_root\<rparr>"
  "pathLookup safeio_ref loop_dev 0 sb_loop [98] = Inl ErrNotExist"
  by (simp_all add: pathLookup_walk loop_components notExistIfMissing_def loop_read loop_lookup)


section \<open>Symlinks in a subdirectory\<close>

text \<open>
  Four inodes: the root, with a directory \<^verbatim>\<open>d\<close> and a symlink \<^verbatim>\<open>r\<close> to \<^verbatim>\<open>/\<close>, and in \<^verbatim>\<open>d\<close> a symlink
  \<^verbatim>\<open>a\<close> to \<^verbatim>\<open>/d/a\<close>.
\<close>

definition dir_raw :: "bytes \<Rightarrow> bytes" where
  "dir_raw fork = [0x49, 0x4E, 0x41, 0xED, 3, 1] @ replicate 170 0 @ fork @ replicate (80 - length fork) 0"

definition link_raw :: "bytes \<Rightarrow> bytes" where
  "link_raw t = [0x49, 0x4E, 0xA1, 0xFF, 3, 1] @ replicate 57 0 @ [of_nat (length t)] @ replicate 112 0 @ t @ replicate (80 - length t) 0"

definition dir_ino :: "u64 \<Rightarrow> bytes \<Rightarrow> inode" where
  "dir_ino n fork = \<lparr>iNum = n, iMode = 0x41ED, iFormat = 1, iSize = 0, iNBlocks = 0, iNExts = 0, iForkOff = 0, iRaw = dir_raw fork\<rparr>"

definition link_ino :: "u64 \<Rightarrow> bytes \<Rightarrow> inode" where
  "link_ino n t = \<lparr>iNum = n, iMode = 0xA1FF, iFormat = 1, iSize = of_nat (length t), iNBlocks = 0, iNExts = 0, iForkOff = 0, iRaw = link_raw t\<rparr>"

definition tree_root :: bytes where
  "tree_root = [2, 0, 0, 0, 0, 0, 1, 0, 96, 100, 2, 0, 0, 0, 1, 1, 0, 112, 114, 7, 0, 0, 0, 3]"

definition tree_sub :: bytes where
  "tree_sub = [1, 0, 0, 0, 0, 0, 1, 0, 96, 97, 7, 0, 0, 0, 2]"

definition tree_dev :: dev where
  "tree_dev = dev_of (dir_raw tree_root @ dir_raw tree_sub @ link_raw [47, 100, 47, 97] @ link_raw [47])"

lemma tree_read:
  "readInode tree_dev 0 sb_loop 0 = Inr (dir_ino 0 tree_root)" "readInode tree_dev 0 sb_loop 1 = Inr (dir_ino 1 tree_sub)"
  "readInode tree_dev 0 sb_loop 2 = Inr (link_ino 2 [47, 100, 47, 97])" "readInode tree_dev 0 sb_loop 3 = Inr (link_ino 3 [47])"
proof -
  let ?bs = "dir_raw tree_root @ dir_raw tree_sub @ link_raw [47, 100, 47, 97] @ link_raw [47]"
  have len: "length (dir_raw tree_root) = 256" "length (dir_raw tree_sub) = 256" "length (link_raw [47, 100, 47, 97]) = 256" "length (link_raw [47]) = 256"
    by (simp_all add: dir_raw_def link_raw_def tree_root_def tree_sub_def)
  have off: "inodeByteOff sb_loop 0 0 = 0" "inodeByteOff sb_loop 0 1 = 256" "inodeByteOff sb_loop 0 2 = 512" "inodeByteOff sb_loop 0 3 = 768" by code_simp+
  have rd: "readBytes tree_dev 0 256 = Inr (dir_raw tree_root)" "readBytes tree_dev 256 256 = Inr (dir_raw tree_sub)"
    "readBytes tree_dev 512 256 = Inr (link_raw [47, 100, 47, 97])" "readBytes tree_dev 768 256 = Inr (link_raw [47])"
    using ReadAt_dev_of [of 0 0 256 ?bs] ReadAt_dev_of [of 256 256 256 ?bs] ReadAt_dev_of [of 512 512 256 ?bs] ReadAt_dev_of [of 768 768 256 ?bs] len
    by (simp_all add: readBytes_def tree_dev_def window_def)
  have pa: "parseInode 0 (dir_raw tree_root) = Inr (dir_ino 0 tree_root)" "parseInode 1 (dir_raw tree_sub) = Inr (dir_ino 1 tree_sub)"
    "parseInode 2 (link_raw [47, 100, 47, 97]) = Inr (link_ino 2 [47, 100, 47, 97])" "parseInode 3 (link_raw [47]) = Inr (link_ino 3 [47])"
    by code_simp+
  have sz: "unat (inodeSize sb_loop) = 256" by (simp add: sb_loop_def)
  show "readInode tree_dev 0 sb_loop 0 = Inr (dir_ino 0 tree_root)" "readInode tree_dev 0 sb_loop 1 = Inr (dir_ino 1 tree_sub)"
    "readInode tree_dev 0 sb_loop 2 = Inr (link_ino 2 [47, 100, 47, 97])" "readInode tree_dev 0 sb_loop 3 = Inr (link_ino 3 [47])"
    by (simp_all only: readInode_def off sz rd pa bindR_Inr)
qed

lemma tree_lookup:
  "lookupInDir safeio_ref tree_dev 0 sb_loop (dir_ino 0 tree_root) [100] = Inr 1"
  "lookupInDir safeio_ref tree_dev 0 sb_loop (dir_ino 0 tree_root) [114] = Inr 3"
  "lookupInDir safeio_ref tree_dev 0 sb_loop (dir_ino 1 tree_sub) [97] = Inr 2"
  "lookupInDir safeio_ref tree_dev 0 sb_loop (dir_ino 1 tree_sub) [98] = Inl ErrNotFound"
proof -
  have l: "lookupInDir safeio_ref tree_dev 0 sb_loop (dir_ino n fork) name = sfLookup (dataFork (dir_ino n fork)) name True" for n fork name
    by (simp add: lookupInDir_def dir_ino_def inodeFmtLocal_def sb_loop_def)
  show "lookupInDir safeio_ref tree_dev 0 sb_loop (dir_ino 0 tree_root) [100] = Inr 1"
    "lookupInDir safeio_ref tree_dev 0 sb_loop (dir_ino 0 tree_root) [114] = Inr 3"
    "lookupInDir safeio_ref tree_dev 0 sb_loop (dir_ino 1 tree_sub) [97] = Inr 2"
    "lookupInDir safeio_ref tree_dev 0 sb_loop (dir_ino 1 tree_sub) [98] = Inl ErrNotFound"
    unfolding l by code_simp+
qed

lemma tree_target:
  "readSymlinkTarget safeio_ref tree_dev 0 sb_loop (link_ino 2 [47, 100, 47, 97]) = Some (Inr [47, 100, 47, 97])"
  "readSymlinkTarget safeio_ref tree_dev 0 sb_loop (link_ino 3 [47]) = Some (Inr [47])"
  by (simp_all add: readSymlinkTarget_def inodeFmtLocal_def readInline_def dataFork_def link_ino_def link_raw_def)

lemma tree_types: "\<not> isSymlink (dir_ino n fork)" "isSymlink (link_ino n t)"
  by (simp_all add: isSymlink_def dir_ino_def link_ino_def)

lemma tree_components: "components [47, 100, 47, 97] = [[100], [97]]" "components [47, 100, 47, 98] = [[100], [98]]"
  by code_simp+

lemma tree_enters: "namei safeio_ref tree_dev 0 sb_loop (dir_ino 0 tree_root, ([100], k) # todo) (dir_ino 1 tree_sub, todo)"
  by (rule enter [where ino = 1 and child = "dir_ino 1 tree_sub"]) (simp_all add: tree_lookup tree_read tree_types)

theorem symlink_cycle_refused_witness:
  "pathLookup safeio_ref tree_dev 0 sb_loop [47, 100, 47, 97] = Inl ErrSymlinkLoop"
proof -
  have "(namei safeio_ref tree_dev 0 sb_loop)\<^sup>*\<^sup>* (dir_ino 0 tree_root, nested 0 [[100]]) (dir_ino 1 tree_sub, [])"
    using tree_enters [of 0 "[]"] by (simp add: nested_def r_into_rtranclp)
  then have "links_to safeio_ref tree_dev 0 sb_loop [47, 100, 47, 97] [47, 100, 47, 97]"
    unfolding links_to_def tree_components
    by (intro exI [of _ "dir_ino 0 tree_root"] exI [of _ "[[100]]"] exI [of _ "[97]"] exI [of _ "[]"] exI [of _ "dir_ino 1 tree_sub"] exI [of _ 2] exI)
      (auto simp: tree_lookup tree_read tree_types tree_target)
  then show ?thesis
    using symlink_cycle_refused [of "{[47, 100, 47, 97]}" safeio_ref tree_dev 0 sb_loop "[47, 100, 47, 97]"] by simp
qed

text \<open>The missing name is found out in the directory that the path leads to.\<close>

theorem pathLookup_errors_witness:
  "pathLookup safeio_ref tree_dev 0 sb_loop [47, 100, 47, 98] = Inl ErrNotExist"
proof -
  have "(namei safeio_ref tree_dev 0 sb_loop)\<^sup>*\<^sup>* (dir_ino 0 tree_root, nested 0 [[100], [98]]) (dir_ino 1 tree_sub, ([98], 0) # [])"
    using tree_enters [of 0 "[([98], 0)]"] by (simp add: nested_def r_into_rtranclp)
  then have "asks safeio_ref tree_dev 0 sb_loop [47, 100, 47, 98] (dir_ino 1 tree_sub) [98] 0"
    unfolding asks_def tree_components using tree_read(1) by auto
  moreover have "lookupInDir safeio_ref tree_dev 0 sb_loop (dir_ino 1 tree_sub) [98] = Inl ErrNotFound" by (simp add: tree_lookup)
  ultimately show ?thesis
    using pathLookup_errors [OF safeio_ref_guards safeio_ref_reports, of tree_dev 0 sb_loop "[47, 100, 47, 98]"] by blast
qed

text \<open>A path through a symlink to the root and into the directory; 41 symlinks in a row are followed.\<close>

theorem pathLookup_iff_namei_witness:
  "pathLookup safeio_ref tree_dev 0 sb_loop [47, 114, 47, 100] = Inr (dir_ino 1 tree_sub) \<and>
   pathLookup safeio_ref tree_dev 0 sb_loop (concat (replicate 41 [47, 114])) = Inr (dir_ino 0 tree_root)"
proof -
  have c: "components [47, 114, 47, 100] = [[114], [100]]" "components [47] = []" "components (concat (replicate 41 [47, 114])) = replicate 41 [114]" by code_simp+
  have "namei safeio_ref tree_dev 0 sb_loop (dir_ino 0 tree_root, ([114], 0) # [([100], 0)]) (dir_ino 0 tree_root, nested (Suc 0) (components [47]) @ [([100], 0)])"
    by (rule expand [where ino = 3 and link = "link_ino 3 [47]" and target = "[47]"]) (simp_all add: tree_lookup tree_read tree_types tree_target maxSymlinkDepth_def)
  then have "(namei safeio_ref tree_dev 0 sb_loop)\<^sup>*\<^sup>* (dir_ino 0 tree_root, nested 0 [[114], [100]]) (dir_ino 1 tree_sub, [])"
    using tree_enters [of 0 "[]"] by (simp add: c nested_def converse_rtranclp_into_rtranclp)
  then have "pathLookup safeio_ref tree_dev 0 sb_loop [47, 114, 47, 100] = Inr (dir_ino 1 tree_sub)"
    using pathLookup_iff_namei [of safeio_ref tree_dev 0 sb_loop "[47, 114, 47, 100]"] tree_read(1) by (simp add: c)
  moreover have "pathLookup safeio_ref tree_dev 0 sb_loop (concat (replicate 41 [47, 114])) = Inr (dir_ino 0 tree_root)"
    by (rule many_links_followed [OF _ tree_lookup(2) tree_read(4) tree_types(2) tree_target(2) c(3)]) (simp add: tree_read)
  ultimately show ?thesis by simp
qed

end
