(* ===== verification/ShortBTree.thy ===== *)
theory ShortBTree
  imports Read
begin

text \<open>
  Short-form B-tree blocks (alloc.go, alloc_btree.go, alloc_btree_delete.go): the free-space
  trees and the inode tree of an allocation group use blocks with a header (magic, level, record
  count, siblings, and on v5 images self address, uuid, owner and checksum) followed by an array
  of fixed-size records in a leaf, or by an array of keys and, at the place where the largest
  key array would end, an array of child pointers in an inner node.

  First the slice operations of Go with their bounds checks, then the edits of one block, then
  what each edit does to the array it changes, with the array read as a list of slots.
\<close>

section \<open>Slices with bounds checks\<close>

definition u16At :: "bytes \<Rightarrow> nat \<Rightarrow> u16 res" where
  "u16At b off = (if off + 2 \<le> length b then Inr (be16 b off) else Inl Panic)"

definition u32At :: "bytes \<Rightarrow> nat \<Rightarrow> u32 res" where
  "u32At b off = (if off + 4 \<le> length b then Inr (be32 b off) else Inl Panic)"

definition u64At :: "bytes \<Rightarrow> nat \<Rightarrow> u64 res" where
  "u64At b off = (if off + 8 \<le> length b then Inr (be64 b off) else Inl Panic)"

definition setU16 :: "nat \<Rightarrow> u16 \<Rightarrow> bytes \<Rightarrow> bytes res" where
  "setU16 off v b = (if off + 2 \<le> length b then Inr (put16 off v b) else Inl Panic)"

definition setU32 :: "nat \<Rightarrow> u32 \<Rightarrow> bytes \<Rightarrow> bytes res" where
  "setU32 off v b = (if off + 4 \<le> length b then Inr (put32 off v b) else Inl Panic)"

definition setU64 :: "nat \<Rightarrow> u64 \<Rightarrow> bytes \<Rightarrow> bytes res" where
  "setU64 off v b = (if off + 8 \<le> length b then Inr (put64 off v b) else Inl Panic)"

text \<open>\<^verbatim>\<open>b[lo:hi]\<close>, \<^verbatim>\<open>copy(b[off:], src)\<close>, \<^verbatim>\<open>copy(b[dst:], b[lo:hi])\<close> and \<^verbatim>\<open>clear(b[lo:hi])\<close>.\<close>

definition sliceOf :: "nat \<Rightarrow> nat \<Rightarrow> bytes \<Rightarrow> bytes res" where
  "sliceOf lo hi b = (if lo \<le> hi \<and> hi \<le> length b then Inr (window lo (hi - lo) b) else Inl Panic)"

definition copyTo :: "nat \<Rightarrow> bytes \<Rightarrow> bytes \<Rightarrow> bytes res" where
  "copyTo off src b = (if off \<le> length b then Inr (patch off src b) else Inl Panic)"

definition moveBytes :: "nat \<Rightarrow> nat \<Rightarrow> nat \<Rightarrow> bytes \<Rightarrow> bytes res" where
  "moveBytes dst lo hi b = bindR (sliceOf lo hi b) (\<lambda>src. copyTo dst src b)"

definition clearAt :: "nat \<Rightarrow> nat \<Rightarrow> bytes \<Rightarrow> bytes res" where
  "clearAt lo hi b = bindR (sliceOf lo hi b) (\<lambda>src. Inr (patch lo (replicate (length src) 0) b))"

section \<open>Layout\<close>

definition btreeCRCOff :: nat where "btreeCRCOff = 52"
definition inobtRecSize :: nat where "inobtRecSize = 16"
definition inobtKeySize :: nat where "inobtKeySize = 4"
definition inobtPtrSize :: nat where "inobtPtrSize = 4"
definition allocRecSize :: nat where "allocRecSize = 8"
definition allocKeySize :: nat where "allocKeySize = 8"
definition allocPtrSize :: nat where "allocPtrSize = 4"
definition magicIAB3 :: u32 where "magicIAB3 = 0x49414233"
definition nullAgBlock :: u32 where "nullAgBlock = 0xFFFFFFFF"

lemmas layout_sizes = inobtRecSize_def inobtKeySize_def inobtPtrSize_def allocRecSize_def
  allocKeySize_def allocPtrSize_def

definition agBTreeHdrSize :: "superblock \<Rightarrow> nat" where
  "agBTreeHdrSize sb = btreeHdrSize (hasCRC sb)"

definition inobtMaxInternal :: "nat \<Rightarrow> nat \<Rightarrow> nat" where
  "inobtMaxInternal blockLen hdrSize = (blockLen - hdrSize) div (inobtKeySize + inobtPtrSize)"

definition allocMaxInternal :: "nat \<Rightarrow> nat \<Rightarrow> nat" where
  "allocMaxInternal blockLen hdrSize = (blockLen - hdrSize) div (allocKeySize + allocPtrSize)"

definition allocMaxLeaf :: "nat \<Rightarrow> nat \<Rightarrow> nat" where
  "allocMaxLeaf blockLen hdrSize = (blockLen - hdrSize) div allocRecSize"

definition allocMinLeaf :: "nat \<Rightarrow> nat \<Rightarrow> nat" where
  "allocMinLeaf blockLen hdrSize = allocMaxLeaf blockLen hdrSize div 2"

definition allocMinInternal :: "nat \<Rightarrow> nat \<Rightarrow> nat" where
  "allocMinInternal blockLen hdrSize = allocMaxInternal blockLen hdrSize div 2"

definition readAGBlock :: "dev \<Rightarrow> int64 \<Rightarrow> superblock \<Rightarrow> u32 \<Rightarrow> u32 \<Rightarrow> bytes res" where
  "readAGBlock r partOff sb ag agRel = readRawBlock r partOff sb (agAbsBlock sb ag agRel)"

definition writeAGBTree :: "int64 \<Rightarrow> superblock \<Rightarrow> u32 \<Rightarrow> u32 \<Rightarrow> bytes \<Rightarrow> unit io" where
  "writeAGBTree partOff sb ag agRel blk =
     (let blk = (if hasCRC sb then updateCRC blk btreeCRCOff (length blk) else blk)
      in writeRawBlock partOff sb (agAbsBlock sb ag agRel) blk)"

text \<open>A fresh block: \<^verbatim>\<open>newAllocBlock\<close>, and \<^verbatim>\<open>newInobtBlock\<close> with its fixed magic.\<close>

definition newAllocBlock :: "superblock \<Rightarrow> u32 \<Rightarrow> u32 \<Rightarrow> nat \<Rightarrow> nat \<Rightarrow> u32 \<Rightarrow> bytes" where
  "newAllocBlock sb ag agRel level numrecs magic =
     (let b = replicate (unat (blockSize sb)) 0;
          b = put32 0 magic b;
          b = put16 4 (of_nat level) b;
          b = put16 6 (of_nat numrecs) b;
          b = put32 8 0xFFFFFFFF b;
          b = put32 12 0xFFFFFFFF b;
          b = put64 16 (fsbToPhysBlock sb (agAbsBlock sb ag agRel) * fmtDaddrPerBlock) b;
          b = patch 32 (take 16 (sbUuid sb)) b
      in put32 48 ag b)"

definition newInobtBlock :: "superblock \<Rightarrow> u32 \<Rightarrow> u32 \<Rightarrow> nat \<Rightarrow> nat \<Rightarrow> bytes" where
  "newInobtBlock sb ag agRel level numrecs = newAllocBlock sb ag agRel level numrecs magicIAB3"

section \<open>Order of the free-space records\<close>

definition allocLess :: "bool \<Rightarrow> u32 \<Rightarrow> u32 \<Rightarrow> u32 \<Rightarrow> u32 \<Rightarrow> bool" where
  "allocLess bnoSort aStart aCount bStart bCount =
     (if bnoSort then aStart < bStart
      else if aCount \<noteq> bCount then aCount < bCount
      else aStart < bStart)"

text \<open>The first slot whose record the new one sorts before, or the end.\<close>

fun insertPos :: "bytes \<Rightarrow> nat \<Rightarrow> bool \<Rightarrow> u32 \<Rightarrow> u32 \<Rightarrow> nat \<Rightarrow> nat \<Rightarrow> nat res" where
  "insertPos blk hdr bnoSort s c i 0 = Inr i"
| "insertPos blk hdr bnoSort s c i (Suc k) =
     bindR (u32At blk (hdr + i * allocRecSize)) (\<lambda>exStart.
     bindR (u32At blk (hdr + i * allocRecSize + 4)) (\<lambda>exCount.
       if allocLess bnoSort s c exStart exCount then Inr i else insertPos blk hdr bnoSort s c (i + 1) k))"

text \<open>The last child whose key is not greater than the record; the first child if there is none.\<close>

fun childFor :: "bytes \<Rightarrow> nat \<Rightarrow> bool \<Rightarrow> u32 \<Rightarrow> u32 \<Rightarrow> nat \<Rightarrow> nat \<Rightarrow> nat \<Rightarrow> nat res" where
  "childFor blk hdr bnoSort s c child i 0 = Inr child"
| "childFor blk hdr bnoSort s c child i (Suc k) =
     bindR (u32At blk (hdr + i * allocKeySize)) (\<lambda>kStart.
     bindR (u32At blk (hdr + i * allocKeySize + 4)) (\<lambda>kCount.
       if \<not> allocLess bnoSort s c kStart kCount then childFor blk hdr bnoSort s c i (i + 1) k else Inr child))"

section \<open>Edits of one block\<close>

text \<open>Making room for a record in an array and storing it there, with the count.\<close>

definition insertSlot :: "nat \<Rightarrow> nat \<Rightarrow> nat \<Rightarrow> nat \<Rightarrow> bytes \<Rightarrow> bytes \<Rightarrow> bytes res" where
  "insertSlot base rsz numrecs insertAt rec blk =
     bindR (moveBytes (base + (insertAt + 1) * rsz) (base + insertAt * rsz) (base + numrecs * rsz) blk)
       (copyTo (base + insertAt * rsz) rec)"

definition insertRecord :: "nat \<Rightarrow> nat \<Rightarrow> nat \<Rightarrow> nat \<Rightarrow> bytes \<Rightarrow> bytes \<Rightarrow> bytes res" where
  "insertRecord hdr rsz numrecs insertAt rec blk =
     bindR (insertSlot hdr rsz numrecs insertAt rec blk) (setU16 6 (of_nat (numrecs + 1)))"

definition insertKeyPtr :: "nat \<Rightarrow> nat \<Rightarrow> nat \<Rightarrow> nat \<Rightarrow> nat \<Rightarrow> bytes \<Rightarrow> u32 \<Rightarrow> bytes \<Rightarrow> bytes res" where
  "insertKeyPtr hdr ptrBase ksz numrecs insertAt key ptr blk =
     bindR (insertSlot hdr ksz numrecs insertAt key blk) (\<lambda>b.
     bindR (insertSlot ptrBase 4 numrecs insertAt (be_bytes 4 ptr) b) (setU16 6 (of_nat (numrecs + 1))))"

text \<open>Removing an array element: the rest moves down, the last slot is cleared.\<close>

definition removeSlot :: "nat \<Rightarrow> nat \<Rightarrow> nat \<Rightarrow> nat \<Rightarrow> bytes \<Rightarrow> bytes res" where
  "removeSlot base rsz numrecs idx blk =
     bindR (moveBytes (base + idx * rsz) (base + idx * rsz + rsz) (base + numrecs * rsz) blk)
       (clearAt (base + (numrecs - 1) * rsz) (base + numrecs * rsz))"

definition allocRemoveRecAt :: "bytes \<Rightarrow> nat \<Rightarrow> nat \<Rightarrow> nat \<Rightarrow> bytes res" where
  "allocRemoveRecAt blk hdrSize idx recSize =
     bindR (u16At blk 6) (\<lambda>nr. let numrecs = unat nr in
       bindR (removeSlot hdrSize recSize numrecs idx blk) (setU16 6 (of_nat numrecs - 1)))"

definition allocRemoveKeyPtrAt :: "bytes \<Rightarrow> nat \<Rightarrow> nat \<Rightarrow> nat \<Rightarrow> bytes res" where
  "allocRemoveKeyPtrAt blk hdrSize idx maxInternal =
     bindR (u16At blk 6) (\<lambda>nr. let numrecs = unat nr; ptrBase = hdrSize + maxInternal * allocKeySize in
       bindR (removeSlot hdrSize allocKeySize numrecs idx blk) (removeSlot ptrBase allocPtrSize numrecs idx))"

text \<open>Exchanging two neighbours, and the two loops that put a changed record back in order.\<close>

definition swapRecs :: "nat \<Rightarrow> nat \<Rightarrow> bytes \<Rightarrow> bytes res" where
  "swapRecs a b blk =
     bindR (sliceOf a (a + 8) blk) (\<lambda>tmp. bindR (sliceOf b (b + 8) blk) (\<lambda>oth.
       bindR (copyTo a oth blk) (copyTo b tmp)))"

fun allocCntBubbleLeft :: "bytes \<Rightarrow> nat \<Rightarrow> nat \<Rightarrow> bytes res" where
  "allocCntBubbleLeft leaf hdrSize 0 = Inr leaf"
| "allocCntBubbleLeft leaf hdrSize (Suc i) =
     (let cur = hdrSize + Suc i * allocRecSize; prev = hdrSize + i * allocRecSize in
      bindR (u32At leaf cur) (\<lambda>cs. bindR (u32At leaf (cur + 4)) (\<lambda>cc.
      bindR (u32At leaf prev) (\<lambda>ps. bindR (u32At leaf (prev + 4)) (\<lambda>pc.
        if \<not> allocLess False cs cc ps pc then Inr leaf
        else bindR (swapRecs cur prev leaf) (\<lambda>l. allocCntBubbleLeft l hdrSize i))))))"

text \<open>The loop of \<^verbatim>\<open>bnoUpdateRecord\<close>; \<open>k\<close> counts the records to the right of the changed one.\<close>

fun bnoBubbleRight :: "bytes \<Rightarrow> nat \<Rightarrow> nat \<Rightarrow> nat \<Rightarrow> bytes res" where
  "bnoBubbleRight leaf hdrSize i 0 = Inr leaf"
| "bnoBubbleRight leaf hdrSize i (Suc k) =
     (let cur = hdrSize + i * allocRecSize; nxt = cur + allocRecSize in
      bindR (u32At leaf cur) (\<lambda>curStart. bindR (u32At leaf nxt) (\<lambda>nxtStart.
        if curStart \<le> nxtStart then Inr leaf
        else bindR (swapRecs cur nxt leaf) (\<lambda>l. bnoBubbleRight l hdrSize (i + 1) k))))"

text \<open>The records of an array, a run of records stored one after the other, cleared slots.\<close>

fun readSlots :: "nat \<Rightarrow> nat \<Rightarrow> nat \<Rightarrow> bytes \<Rightarrow> bytes list res" where
  "readSlots off rsz 0 blk = Inr []"
| "readSlots off rsz (Suc k) blk =
     (if length blk < off then Inl Panic
      else bindR (readSlots (off + rsz) rsz k blk) (\<lambda>rs.
        Inr (take rsz (window off rsz blk @ replicate rsz 0) # rs)))"

fun writeSlots :: "nat \<Rightarrow> nat \<Rightarrow> bytes list \<Rightarrow> bytes \<Rightarrow> bytes res" where
  "writeSlots off rsz [] blk = Inr blk"
| "writeSlots off rsz (r # rs) blk = bindR (copyTo off r blk) (writeSlots (off + rsz) rsz rs)"

fun clearSlots :: "nat \<Rightarrow> nat \<Rightarrow> nat \<Rightarrow> bytes \<Rightarrow> bytes res" where
  "clearSlots off rsz 0 blk = Inr blk"
| "clearSlots off rsz (Suc k) blk = bindR (clearAt off (off + rsz) blk) (clearSlots (off + rsz) rsz k)"

text \<open>
  The two halves of a full leaf: the left block keeps the lower half and points right to the new
  block, the fresh right block takes the upper half between it and the old right sibling.
\<close>

definition splitSlots :: "nat \<Rightarrow> nat \<Rightarrow> bytes \<Rightarrow> nat \<Rightarrow> bytes \<Rightarrow> bytes list res" where
  "splitSlots base rsz blk insertAt rec =
     bindR (u16At blk 6) (\<lambda>nr. bindR (readSlots base rsz (unat nr) blk) (\<lambda>rs.
       Inr (take insertAt rs @ rec # drop insertAt rs)))"

definition leftHalf :: "nat \<Rightarrow> nat \<Rightarrow> u32 \<Rightarrow> bytes \<Rightarrow> bytes list \<Rightarrow> bytes res" where
  "leftHalf base rsz rightRel blk rs =
     (let half = length rs div 2 in
      bindR (setU32 12 rightRel blk) (\<lambda>b.
      bindR (setU16 6 (of_nat half) b) (\<lambda>b.
      bindR (writeSlots base rsz (take half rs) b)
        (clearSlots (base + half * rsz) rsz (length rs - 1 - half)))))"

definition rightHalf :: "nat \<Rightarrow> nat \<Rightarrow> u32 \<Rightarrow> u32 \<Rightarrow> bytes \<Rightarrow> bytes list \<Rightarrow> bytes res" where
  "rightHalf base rsz selfRel oldRight fresh rs =
     bindR (setU32 8 selfRel fresh) (\<lambda>b.
     bindR (setU32 12 oldRight b)
       (writeSlots base rsz (drop (length rs div 2) rs)))"

section \<open>Arrays as lists of slots\<close>

lemmas slice_defs = u16At_def u32At_def u64At_def setU16_def setU32_def setU64_def

definition slots :: "bytes \<Rightarrow> nat \<Rightarrow> nat \<Rightarrow> nat \<Rightarrow> bytes list" where
  "slots b base rsz n = map (\<lambda>i. window (base + i * rsz) rsz b) [0..<n]"

lemma length_slots [simp]: "length (slots b base rsz n) = n"
  by (simp add: slots_def)

lemma nth_slots [simp]: "i < n \<Longrightarrow> slots b base rsz n ! i = window (base + i * rsz) rsz b"
  by (simp add: slots_def)

text \<open>An edit that leaves everything but \<open>[lo, hi)\<close> as it was.\<close>

definition edits :: "nat \<Rightarrow> nat \<Rightarrow> bytes \<Rightarrow> bytes \<Rightarrow> bool" where
  "edits lo hi b b' \<longleftrightarrow> length b' = length b \<and> (\<forall>off n. off + n \<le> lo \<or> hi \<le> off \<longrightarrow> window off n b' = window off n b)"

lemma edits_refl [simp, intro]: "edits lo hi b b"
  by (simp add: edits_def)

lemma edits_mono: "edits lo hi b b' \<Longrightarrow> lo' \<le> lo \<Longrightarrow> hi \<le> hi' \<Longrightarrow> edits lo' hi' b b'"
  by (auto simp: edits_def)

lemma edits_trans: "edits lo hi a b \<Longrightarrow> edits lo hi b c \<Longrightarrow> edits lo hi a c"
  by (auto simp: edits_def)

lemma edits_length: "edits lo hi b b' \<Longrightarrow> length b' = length b"
  and edits_window: "edits lo hi b b' \<Longrightarrow> off + n \<le> lo \<or> hi \<le> off \<Longrightarrow> window off n b' = window off n b"
  by (auto simp: edits_def)

lemma edits_slots:
  assumes "edits lo hi b b'" and "base + n * rsz \<le> lo \<or> hi \<le> base"
  shows "slots b' base rsz n = slots b base rsz n"
proof (rule nth_equalityI)
  fix i assume "i < length (slots b' base rsz n)"
  then have i: "Suc i \<le> n" "i < n" by simp_all
  then have "base + i * rsz + rsz \<le> base + n * rsz" using mult_le_mono1 [OF i(1), of rsz] by simp
  then show "slots b' base rsz n ! i = slots b base rsz n ! i"
    using i(2) assms(2) edits_window [OF assms(1), of "base + i * rsz" rsz] by auto
qed simp

lemma edits_patch: "edits off (off + length bs) b (patch off bs b)"
  by (auto simp: edits_def window_put_frame)

lemma edits_put: "edits off (off + 2) b (put16 off v b)" "edits off (off + 4) b (put32 off w b)" "edits off (off + 8) b (put64 off x b)"
  by (auto simp: edits_def window_put_frame)

lemma edits_updateCRC: "edits crcOff (crcOff + 4) b (updateCRC b crcOff n)"
  by (auto simp: edits_def window_updateCRC)

lemma window_patch_inside:
  assumes "off \<le> p" and "p + n \<le> off + length bs" and "off + length bs \<le> length b"
  shows "window p n (patch off bs b) = window (p - off) n bs"
proof -
  have "window (p - off) n (window off (length bs) (patch off bs b)) = window p n (patch off bs b)"
    using assms(1,2) by (subst window_slice) simp_all
  then show ?thesis using assms(3) by (simp add: window_patch_same)
qed

lemma less_gap:
  assumes "(i :: nat) < n"
  obtains m where "n = i + 1 + m"
  using assms less_iff_Suc_add [of i n] by auto

text \<open>Inserting into an array.\<close>

lemma insertSlot_spec:
  assumes fit: "base + (n + 1) * rsz \<le> length b" and i: "i \<le> n" and r: "length rec = rsz"
  obtains b' where "insertSlot base rsz n i rec b = Inr b'" "edits (base + i * rsz) (base + (n + 1) * rsz) b b'"
    "slots b' base rsz (n + 1) = take i (slots b base rsz n) @ rec # drop i (slots b base rsz n)"
proof -
  obtain m where n: "n = i + m" using i by (metis le_Suc_ex)
  let ?src = "window (base + i * rsz) (m * rsz) b"
  let ?b1 = "patch (base + (i + 1) * rsz) ?src b"
  let ?b2 = "patch (base + i * rsz) rec ?b1"
  have ar: "n * rsz = i * rsz + m * rsz" "(n + 1) * rsz = i * rsz + m * rsz + rsz" "(i + 1) * rsz = i * rsz + rsz"
    by (simp_all add: n algebra_simps)
  have fit': "base + (i * rsz + m * rsz + rsz) \<le> length b" using fit unfolding ar .
  have len: "length ?src = m * rsz" using fit' by simp
  have e: "insertSlot base rsz n i rec b = Inr ?b2"
    unfolding insertSlot_def moveBytes_def sliceOf_def copyTo_def ar using fit' by simp
  have ed1: "edits (base + i * rsz) (base + (n + 1) * rsz) b ?b1"
    by (rule edits_mono [OF edits_patch]) (use len in \<open>simp_all add: ar\<close>)
  have ed2: "edits (base + i * rsz) (base + (n + 1) * rsz) ?b1 ?b2"
    by (rule edits_mono [OF edits_patch]) (use r in \<open>simp_all add: ar\<close>)
  have "slots ?b2 base rsz (n + 1) = take i (slots b base rsz n) @ rec # drop i (slots b base rsz n)"
  proof (rule nth_equalityI)
    fix j assume "j < length (slots ?b2 base rsz (n + 1))"
    then have j: "j < n + 1" by simp
    consider "j < i" | "j = i" | "i < j" by linarith
    then show "slots ?b2 base rsz (n + 1) ! j = (take i (slots b base rsz n) @ rec # drop i (slots b base rsz n)) ! j"
    proof cases
      case 1
      then have "base + j * rsz + rsz \<le> base + i * rsz" using mult_le_mono1 [of "Suc j" i rsz] by simp
      then have "window (base + j * rsz) rsz ?b2 = window (base + j * rsz) rsz b"
        using edits_window [OF edits_trans [OF ed1 ed2]] by simp
      then show ?thesis using 1 i j by (simp add: nth_append)
    next
      case 2
      then show ?thesis using i j fit' r by (simp add: nth_append window_patch_same)
    next
      case 3
      then obtain k where k: "j = i + 1 + k" by (rule less_gap)
      then have kn: "k < m" using j n by simp
      have kr: "k * rsz + rsz \<le> m * rsz" using mult_le_mono1 [of "Suc k" m rsz] kn by simp
      have jr: "j * rsz = i * rsz + rsz + k * rsz" by (simp add: k algebra_simps)
      have "window (base + j * rsz) rsz ?b2 = window (base + j * rsz) rsz ?b1"
        using r by (simp add: window_put_frame jr)
      also have "\<dots> = window (k * rsz) rsz ?src"
        using window_patch_inside [of "base + (i + 1) * rsz" "base + j * rsz" rsz ?src b] kr fit' len
        by (simp add: jr ar)
      also have "\<dots> = window (base + (i + k) * rsz) rsz b"
        using kr by (subst window_slice) (simp_all add: algebra_simps)
      finally show ?thesis using k kn j n by (simp add: nth_append)
    qed
  qed (use i in simp)
  with e edits_trans [OF ed1 ed2] show ?thesis by (rule that)
qed

text \<open>Removing from an array.\<close>

lemma removeSlot_spec:
  assumes fit: "base + n * rsz \<le> length b" and i: "i < n"
  obtains b' where "removeSlot base rsz n i b = Inr b'" "edits (base + i * rsz) (base + n * rsz) b b'"
    "slots b' base rsz (n - 1) = take i (slots b base rsz n) @ drop (i + 1) (slots b base rsz n)"
    "window (base + (n - 1) * rsz) rsz b' = replicate rsz 0"
proof -
  obtain m where n: "n = i + 1 + m" using i by (rule less_gap)
  let ?src = "window (base + i * rsz + rsz) (m * rsz) b"
  let ?b1 = "patch (base + i * rsz) ?src b"
  let ?b2 = "patch (base + (i + m) * rsz) (replicate rsz 0) ?b1"
  have ar: "n * rsz = i * rsz + rsz + m * rsz" "(n - 1) * rsz = i * rsz + m * rsz" "(i + m) * rsz = i * rsz + m * rsz"
    by (simp_all add: n algebra_simps)
  have fit': "base + (i * rsz + rsz + m * rsz) \<le> length b" using fit unfolding ar .
  have len: "length ?src = m * rsz" using fit' by simp
  have e: "removeSlot base rsz n i b = Inr ?b2"
    unfolding removeSlot_def moveBytes_def sliceOf_def copyTo_def clearAt_def ar using fit' by simp
  have ed1: "edits (base + i * rsz) (base + n * rsz) b ?b1"
    by (rule edits_mono [OF edits_patch]) (use len in \<open>simp_all add: ar\<close>)
  have ed2: "edits (base + i * rsz) (base + n * rsz) ?b1 ?b2"
    by (rule edits_mono [OF edits_patch]) (simp_all add: ar)
  have sl: "slots ?b2 base rsz (n - 1) = take i (slots b base rsz n) @ drop (i + 1) (slots b base rsz n)"
  proof (rule nth_equalityI)
    fix j assume "j < length (slots ?b2 base rsz (n - 1))"
    then have j: "j < i + m" using n by simp
    then have jl: "j * rsz + rsz \<le> (i + m) * rsz" using mult_le_mono1 [of "Suc j" "i + m" rsz] by simp
    then have b1: "window (base + j * rsz) rsz ?b2 = window (base + j * rsz) rsz ?b1"
      by (simp add: window_put_frame)
    show "slots ?b2 base rsz (n - 1) ! j = (take i (slots b base rsz n) @ drop (i + 1) (slots b base rsz n)) ! j"
    proof (cases "j < i")
      case True
      then have "base + j * rsz + rsz \<le> base + i * rsz" using mult_le_mono1 [of "Suc j" i rsz] by simp
      then show ?thesis using b1 True j n edits_window [OF ed1] by (simp add: nth_append)
    next
      case False
      then obtain k where k: "j = i + k" by (metis le_Suc_ex not_less)
      have kr: "k * rsz + rsz \<le> m * rsz" using mult_le_mono1 [of "Suc k" m rsz] j k by simp
      have "window (base + j * rsz) rsz ?b1 = window (k * rsz) rsz ?src"
        using window_patch_inside [of "base + i * rsz" "base + j * rsz" rsz ?src b] k kr fit' len
        by (simp add: algebra_simps)
      also have "\<dots> = window (base + (i + 1 + k) * rsz) rsz b"
        using kr by (subst window_slice) (simp_all add: algebra_simps)
      finally show ?thesis using b1 k j n by (simp add: nth_append)
    qed
  qed (use n in simp)
  have "window (base + (n - 1) * rsz) rsz ?b2 = replicate rsz 0"
    using window_patch_same [of "base + (i + m) * rsz" "replicate rsz 0" ?b1] fit' n by (simp add: algebra_simps)
  with e edits_trans [OF ed1 ed2] sl show ?thesis by (rule that)
qed

text \<open>Reading, storing and clearing runs of slots.\<close>

lemma slots_Suc: "slots b base rsz (Suc n) = window base rsz b # slots b (base + rsz) rsz n"
  by (rule nth_equalityI) (auto simp: nth_Cons add.assoc split: nat.splits)

lemma readSlots_spec:
  "off + n * rsz \<le> length b \<Longrightarrow> readSlots off rsz n b = Inr (slots b off rsz n)"
proof (induction n arbitrary: off)
  case (Suc n)
  then have "readSlots (off + rsz) rsz n b = Inr (slots b (off + rsz) rsz n)" by (simp add: add.assoc)
  then show ?case using Suc.prems by (simp add: slots_Suc)
qed (simp add: slots_def)

lemma writeSlots_spec:
  assumes "off + length rs * rsz \<le> length b" and "\<forall>r\<in>set rs. length r = rsz"
  obtains b' where "writeSlots off rsz rs b = Inr b'" "edits off (off + length rs * rsz) b b'" "slots b' off rsz (length rs) = rs"
  using assms
proof (induction rs arbitrary: off b thesis)
  case Nil
  then show ?case by (simp add: slots_def)
next
  case (Cons r rs)
  let ?b1 = "patch off r b"
  have l: "off + rsz + length rs * rsz \<le> length ?b1" "\<forall>r\<in>set rs. length r = rsz" "length r = rsz"
    using Cons.prems(2,3) by simp_all
  obtain b' where b': "writeSlots (off + rsz) rsz rs ?b1 = Inr b'" "edits (off + rsz) (off + rsz + length rs * rsz) ?b1 b'"
    "slots b' (off + rsz) rsz (length rs) = rs"
    using Cons.IH [OF _ l(1,2)] by blast
  have e: "writeSlots off rsz (r # rs) b = Inr b'" using l b'(1) by (simp add: copyTo_def)
  have "edits off (off + rsz) b ?b1" using edits_patch [of off r b] l(3) by simp
  then have ed: "edits off (off + length (r # rs) * rsz) b b'"
    by (rule edits_trans [OF edits_mono edits_mono [OF b'(2)]]) simp_all
  have "window off rsz b' = r"
    using edits_window [OF b'(2), of off rsz] window_patch_same [of off r b] l by simp
  then show ?case using Cons.prems(1) [OF e ed] b'(3) by (simp add: slots_Suc)
qed

lemma clearSlots_spec:
  assumes "off + n * rsz \<le> length b"
  obtains b' where "clearSlots off rsz n b = Inr b'" "edits off (off + n * rsz) b b'"
  using assms
proof (induction n arbitrary: off b thesis)
  case (Suc n)
  let ?b1 = "patch off (replicate rsz 0) b"
  have l: "off + rsz + n * rsz \<le> length ?b1" using Suc.prems by simp
  obtain b' where b': "clearSlots (off + rsz) rsz n ?b1 = Inr b'" "edits (off + rsz) (off + rsz + n * rsz) ?b1 b'"
    using Suc.IH [OF _ l] by blast
  have e: "clearSlots off rsz (Suc n) b = Inr b'" using l b'(1) by (simp add: clearAt_def sliceOf_def)
  have "edits off (off + rsz) b ?b1" using edits_patch [of off "replicate rsz 0" b] by simp
  then have "edits off (off + Suc n * rsz) b b'"
    by (rule edits_trans [OF edits_mono edits_mono [OF b'(2)]]) simp_all
  with e show ?case by (rule Suc.prems(1))
qed simp

section \<open>Free-space records\<close>

type_synonym arec = "u32 \<times> u32"

definition decRec :: "bytes \<Rightarrow> arec" where
  "decRec r = (be32 r 0, be32 r 4)"

definition encRec :: "arec \<Rightarrow> bytes" where
  "encRec r = be_bytes 4 (fst r) @ be_bytes 4 (snd r)"

lemma length_encRec [simp]: "length (encRec r) = 8"
  by (simp add: encRec_def)

lemma decRec_encRec [simp]: "decRec (encRec r) = r"
  by (simp add: decRec_def encRec_def be32_def window_append1 window_append2 window_full)

interpretation free_rec: record_codec encRec decRec 8 "\<lambda>_. True"
proof unfold_locales
  fix x rest
  have "window 0 4 (encRec x @ rest) = window 0 4 (encRec x)" "window 4 4 (encRec x @ rest) = window 4 4 (encRec x)"
    by (simp_all add: window_append1)
  then have "decRec (encRec x @ rest) = decRec (encRec x)" unfolding decRec_def be32_def by simp
  then show "decRec (encRec x @ rest) = x" by simp
qed simp_all

definition recsOf :: "bytes \<Rightarrow> nat \<Rightarrow> nat \<Rightarrow> arec list" where
  "recsOf b hdr n = map decRec (slots b hdr 8 n)"

lemma length_recsOf [simp]: "length (recsOf b hdr n) = n"
  by (simp add: recsOf_def)

lemma nth_recsOf: "i < n \<Longrightarrow> recsOf b hdr n ! i = (be32 b (hdr + i * 8), be32 b (hdr + i * 8 + 4))"
  by (simp add: recsOf_def decRec_def be32_def window_slice)

definition recLess :: "bool \<Rightarrow> arec \<Rightarrow> arec \<Rightarrow> bool" where
  "recLess bnoSort a b = allocLess bnoSort (fst a) (snd a) (fst b) (snd b)"

interpretation alloc_order: record_order "recLess bnoSort" for bnoSort
  by unfold_locales (auto simp: recLess_def allocLess_def split: if_splits)

lemma insertPos_spec:
  assumes "hdr + (i + k) * 8 \<le> length b"
  shows "insertPos b hdr bnoSort s c i k = Inr (i + length (takeWhile (\<lambda>r. \<not> recLess bnoSort (s, c) r) (drop i (recsOf b hdr (i + k)))))"
  using assms
proof (induction k arbitrary: i)
  case (Suc k)
  have d: "drop i (recsOf b hdr (i + Suc k)) = recsOf b hdr (i + Suc k) ! i # drop (Suc i) (recsOf b hdr (i + Suc k))"
    by (rule Cons_nth_drop_Suc [symmetric]) simp
  have u: "u32At b (hdr + i * allocRecSize) = Inr (be32 b (hdr + i * 8))"
    "u32At b (hdr + i * allocRecSize + 4) = Inr (be32 b (hdr + i * 8 + 4))"
    using Suc.prems by (simp_all add: u32At_def allocRecSize_def)
  show ?case
    using Suc.IH [of "Suc i"] Suc.prems unfolding insertPos.simps u d
    by (simp add: nth_recsOf recLess_def)
qed simp

lemma childFor_spec:
  assumes "hdr + (i + k) * 8 \<le> length b"
  shows "childFor b hdr bnoSort s c child i k = Inr (let m = length (takeWhile (\<lambda>r. \<not> recLess bnoSort (s, c) r)
    (drop i (recsOf b hdr (i + k)))) in if m = 0 then child else i + m - 1)"
  using assms
proof (induction k arbitrary: i child)
  case (Suc k)
  have d: "drop i (recsOf b hdr (i + Suc k)) = recsOf b hdr (i + Suc k) ! i # drop (Suc i) (recsOf b hdr (i + Suc k))"
    by (rule Cons_nth_drop_Suc [symmetric]) simp
  have u: "u32At b (hdr + i * allocKeySize) = Inr (be32 b (hdr + i * 8))"
    "u32At b (hdr + i * allocKeySize + 4) = Inr (be32 b (hdr + i * 8 + 4))"
    using Suc.prems by (simp_all add: u32At_def allocKeySize_def)
  show ?case
    using Suc.IH [of "Suc i" i] Suc.prems unfolding childFor.simps u d
    by (simp add: nth_recsOf recLess_def Let_def)
qed simp

section \<open>Leaf edits on the list of records\<close>

text \<open>The header but for the record count is as it was.\<close>

definition keeps_hdr :: "nat \<Rightarrow> bytes \<Rightarrow> bytes \<Rightarrow> bool" where
  "keeps_hdr hdr b b' \<longleftrightarrow> length b' = length b \<and>
     (\<forall>off n. off + n \<le> 6 \<or> 8 \<le> off \<and> off + n \<le> hdr \<longrightarrow> window off n b' = window off n b)"

lemma keeps_hdr_edits: "edits lo hi b b' \<Longrightarrow> hdr \<le> lo \<Longrightarrow> 8 \<le> hdr \<Longrightarrow> keeps_hdr hdr b b'"
  by (auto simp: edits_def keeps_hdr_def)

lemma keeps_hdr_trans: "keeps_hdr hdr a b \<Longrightarrow> keeps_hdr hdr b c \<Longrightarrow> keeps_hdr hdr a c"
  by (auto simp: keeps_hdr_def)

lemma keeps_hdr_refl [simp, intro]: "keeps_hdr hdr a a"
  by (simp add: keeps_hdr_def)

lemma keeps_hdr_count: "keeps_hdr hdr b (put16 6 v b)"
  by (auto simp: keeps_hdr_def window_put_frame)

lemma keeps_hdr_fields:
  assumes "keeps_hdr hdr b b'" and "16 \<le> hdr"
  shows "length b' = length b" "be32 b' 0 = be32 b 0" "be16 b' 4 = be16 b 4" "be32 b' 8 = be32 b 8" "be32 b' 12 = be32 b 12"
  using assms by (auto simp: keeps_hdr_def be32_def be16_def)

lemma recsOf_edits:
  assumes "edits lo hi b b'" and "hdr + n * 8 \<le> lo \<or> hi \<le> hdr"
  shows "recsOf b' hdr n = recsOf b hdr n"
  using edits_slots [OF assms] by (simp add: recsOf_def)

definition count_of :: "bytes \<Rightarrow> nat" where
  "count_of b = unat (be16 b 6)"

lemma count_of_less: "count_of b < 65536"
  using unat_lt(2) [of "be16 b 6"] by (simp add: count_of_def)

lemma count_of_edits: "edits lo hi b b' \<Longrightarrow> 8 \<le> lo \<Longrightarrow> count_of b' = count_of b"
  by (auto simp: count_of_def be16_def edits_def)

lemma set_count:
  assumes "8 \<le> length b" and "n < 65536" and "8 \<le> hdr"
  shows "setU16 6 (of_nat n) b = Inr (put16 6 (of_nat n) b)" "count_of (put16 6 (of_nat n) b) = n"
    "recsOf (put16 6 (of_nat n) b) hdr m = recsOf b hdr m" "slots (put16 6 (of_nat n) b) hdr rsz m = slots b hdr rsz m"
proof -
  show "setU16 6 (of_nat n) b = Inr (put16 6 (of_nat n) b)" using assms(1) by (simp add: setU16_def)
  show "count_of (put16 6 (of_nat n) b) = n" using assms(1,2) by (simp add: count_of_def unat_of_nat)
  have e: "edits 6 (6 + 2) b (put16 6 (of_nat n) b)" by (rule edits_put)
  show "recsOf (put16 6 (of_nat n) b) hdr m = recsOf b hdr m" by (rule recsOf_edits [OF e]) (use assms(3) in simp)
  show "slots (put16 6 (of_nat n) b) hdr rsz m = slots b hdr rsz m" by (rule edits_slots [OF e]) (use assms(3) in simp)
qed

lemma insertRecord_slots:
  assumes fit: "hdr + (n + 1) * rsz \<le> length b" and i: "i \<le> n" and hdr: "16 \<le> hdr" and n: "n + 1 < 65536" and r: "length rec = rsz"
  obtains b' where "insertRecord hdr rsz n i rec b = Inr b'" "keeps_hdr hdr b b'" "count_of b' = n + 1"
    "slots b' hdr rsz (n + 1) = take i (slots b hdr rsz n) @ rec # drop i (slots b hdr rsz n)"
proof -
  obtain b1 where b1: "insertSlot hdr rsz n i rec b = Inr b1" "edits (hdr + i * rsz) (hdr + (n + 1) * rsz) b b1"
    "slots b1 hdr rsz (n + 1) = take i (slots b hdr rsz n) @ rec # drop i (slots b hdr rsz n)"
    by (rule insertSlot_spec [OF fit i r])
  have l: "8 \<le> length b1" "8 \<le> hdr" using edits_length [OF b1(2)] fit hdr by simp_all
  note sc = set_count [OF l(1) n l(2)]
  have "insertRecord hdr rsz n i rec b = Inr (put16 6 (of_nat (n + 1)) b1)"
    unfolding insertRecord_def b1(1) using sc(1) by simp
  moreover have "keeps_hdr hdr b (put16 6 (of_nat (n + 1)) b1)"
    by (rule keeps_hdr_trans [OF keeps_hdr_edits [OF b1(2)] keeps_hdr_count]) (use hdr in simp_all)
  ultimately show ?thesis by (rule that) (use b1(3) sc(2,4) in simp_all)
qed

lemma insertRecord_spec:
  assumes fit: "hdr + (n + 1) * 8 \<le> length b" and i: "i \<le> n" and hdr: "16 \<le> hdr" and n: "n + 1 < 65536"
  obtains b' where "insertRecord hdr 8 n i (encRec r) b = Inr b'" "keeps_hdr hdr b b'" "count_of b' = n + 1"
    "recsOf b' hdr (n + 1) = take i (recsOf b hdr n) @ r # drop i (recsOf b hdr n)"
  by (rule insertRecord_slots [OF fit i hdr n, of "encRec r"], simp)
    (rule that, assumption+, simp add: recsOf_def take_map drop_map)

lemma allocRemoveRecAt_slots:
  assumes fit: "hdr + count_of b * rsz \<le> length b" and i: "i < count_of b" and hdr: "16 \<le> hdr"
  obtains b' where "allocRemoveRecAt b hdr i rsz = Inr b'" "keeps_hdr hdr b b'" "count_of b' = count_of b - 1"
    "slots b' hdr rsz (count_of b - 1) = take i (slots b hdr rsz (count_of b)) @ drop (i + 1) (slots b hdr rsz (count_of b))"
proof -
  let ?n = "count_of b"
  obtain b1 where b1: "removeSlot hdr rsz ?n i b = Inr b1" "edits (hdr + i * rsz) (hdr + ?n * rsz) b b1"
    "slots b1 hdr rsz (?n - 1) = take i (slots b hdr rsz ?n) @ drop (i + 1) (slots b hdr rsz ?n)"
    by (rule removeSlot_spec [OF fit i])
  have l: "8 \<le> length b1" "8 \<le> hdr" "?n - 1 < 65536" using edits_length [OF b1(2)] fit hdr count_of_less [of b] by simp_all
  note sc = set_count [OF l(1,3,2)]
  have w: "be16 b 6 - 1 = of_nat (?n - 1)" using i by (simp add: of_nat_diff count_of_def)
  have "allocRemoveRecAt b hdr i rsz = Inr (put16 6 (of_nat (?n - 1)) b1)"
    unfolding allocRemoveRecAt_def Let_def u16At_def using fit hdr b1(1) sc(1) w
    by (simp add: count_of_def [symmetric])
  moreover have "keeps_hdr hdr b (put16 6 (of_nat (?n - 1)) b1)"
    by (rule keeps_hdr_trans [OF keeps_hdr_edits [OF b1(2)] keeps_hdr_count]) (use hdr in simp_all)
  ultimately show ?thesis by (rule that) (use b1(3) sc(2,4) in simp_all)
qed

lemma allocRemoveRecAt_spec:
  assumes fit: "hdr + count_of b * 8 \<le> length b" and i: "i < count_of b" and hdr: "16 \<le> hdr"
  obtains b' where "allocRemoveRecAt b hdr i 8 = Inr b'" "keeps_hdr hdr b b'" "count_of b' = count_of b - 1"
    "recsOf b' hdr (count_of b - 1) = take i (recsOf b hdr (count_of b)) @ drop (i + 1) (recsOf b hdr (count_of b))"
  by (rule allocRemoveRecAt_slots [OF fit i hdr]) (rule that, assumption+, simp add: recsOf_def take_map drop_map)

text \<open>Exchanging neighbours, in either direction.\<close>

lemma swapRecs_spec:
  assumes fit: "hdr + n * 8 \<le> length b" and i: "i + 1 < n" and ab: "(x, y) = (i, i + 1) \<or> (x, y) = (i + 1, i)"
  obtains b' where "swapRecs (hdr + x * 8) (hdr + y * 8) b = Inr b'" "edits hdr (hdr + n * 8) b b'"
    "recsOf b' hdr n = (recsOf b hdr n)[i := recsOf b hdr n ! (i + 1), i + 1 := recsOf b hdr n ! i]"
proof -
  let ?a = "hdr + x * 8" and ?b = "hdr + y * 8"
  let ?b1 = "patch ?a (window ?b 8 b) b" and ?b2 = "patch ?b (window ?a 8 b) (patch ?a (window ?b 8 b) b)"
  have xy: "x < n" "y < n" "x \<noteq> y" "?a + 8 \<le> length b" "?b + 8 \<le> length b" "?a + 8 \<le> ?b \<or> ?b + 8 \<le> ?a"
    using ab i fit by auto
  have e: "swapRecs ?a ?b b = Inr ?b2" using xy by (simp add: swapRecs_def sliceOf_def copyTo_def)
  have ed1: "edits hdr (hdr + n * 8) b ?b1" by (rule edits_mono [OF edits_patch]) (use xy in simp_all)
  have ed2: "edits hdr (hdr + n * 8) ?b1 ?b2" by (rule edits_mono [OF edits_patch]) (use xy in simp_all)
  have sl: "slots ?b2 hdr 8 n ! j = (if j = x then window ?b 8 b else if j = y then window ?a 8 b else window (hdr + j * 8) 8 b)"
    if "j < n" for j
  proof -
    have "hdr + j * 8 + 8 \<le> ?a \<or> ?a + 8 \<le> hdr + j * 8" if "j \<noteq> x" using that by auto
    moreover have "hdr + j * 8 + 8 \<le> ?b \<or> ?b + 8 \<le> hdr + j * 8" if "j \<noteq> y" using that by auto
    ultimately show ?thesis using that xy
      by (auto simp: window_put_frame window_patch_same [where bs = "window ?a 8 b", simplified]
          window_patch_same [where bs = "window ?b 8 b", simplified])
  qed
  have "recsOf ?b2 hdr n = (recsOf b hdr n)[i := recsOf b hdr n ! (i + 1), i + 1 := recsOf b hdr n ! i]"
    using sl ab i unfolding recsOf_def by (intro nth_equalityI) (auto simp: nth_list_update)
  with e edits_trans [OF ed1 ed2] show ?thesis by (rule that)
qed

lemma takeWhile_tail: "\<not> P y \<Longrightarrow> takeWhile P (xs @ [y]) = takeWhile P xs"
  and dropWhile_tail: "\<not> P y \<Longrightarrow> dropWhile P (xs @ [y]) = dropWhile P xs @ [y]"
  by (induction xs) simp_all

lemma swap_split:
  "(ys @ [y] @ r # zs)[length ys := r, length ys + 1 := y] = ys @ r # y # zs"
  by (simp add: list_update_append nth_append)

text \<open>
  A record whose count has shrunk moves left to its place among the sorted records before it.
\<close>

lemma allocCntBubbleLeft_spec:
  assumes "hdr + n * 8 \<le> length b" and "recsOf b hdr n = ys @ r # zs" and "length ys = i"
    and "sorted_wrt (\<lambda>a b. \<not> recLess False b a) ys"
  obtains b' where "allocCntBubbleLeft b hdr i = Inr b'" "edits hdr (hdr + n * 8) b b'"
    "recsOf b' hdr n = takeWhile (\<lambda>y. \<not> recLess False r y) ys @ r # dropWhile (\<lambda>y. \<not> recLess False r y) ys @ zs"
  using assms
proof (induction i arbitrary: b ys zs thesis)
  case 0
  then show ?case by auto
next
  case (Suc i)
  obtain ys' y where ys: "ys = ys' @ [y]" using Suc.prems(4) by (cases ys rule: rev_cases) auto
  have i: "length ys' = i" "Suc i < n"
    using Suc.prems(4) ys arg_cong [OF Suc.prems(3), of length] by simp_all
  have recs: "recsOf b hdr n ! i = y" "recsOf b hdr n ! Suc i = r"
    unfolding Suc.prems(3) ys i(1) [symmetric] by (simp_all add: nth_append)
  have u: "u32At b (hdr + Suc i * allocRecSize) = Inr (fst r)" "u32At b (hdr + Suc i * allocRecSize + 4) = Inr (snd r)"
    "u32At b (hdr + i * allocRecSize) = Inr (fst y)" "u32At b (hdr + i * allocRecSize + 4) = Inr (snd y)"
    using Suc.prems(2) i(2) nth_recsOf [of i n b hdr] nth_recsOf [of "Suc i" n b hdr] unfolding recs
    by (auto simp: u32At_def allocRecSize_def)
  show ?case
  proof (cases "recLess False r y")
    case False
    have "\<forall>x\<in>set ys. \<not> recLess False r x"
      using Suc.prems(5) False alloc_order.less_negtrans unfolding ys by (auto simp: sorted_wrt_append)
    then have t: "takeWhile (\<lambda>y. \<not> recLess False r y) ys = ys" "dropWhile (\<lambda>y. \<not> recLess False r y) ys = []"
      by (simp_all add: dropWhile_eq_Nil_conv)
    have "allocCntBubbleLeft b hdr (Suc i) = Inr b"
      using False u by (simp add: Let_def recLess_def)
    then show ?thesis by (rule Suc.prems(1)) (simp_all add: Suc.prems(3) t)
  next
    case True
    obtain b1 where b1: "swapRecs (hdr + (i + 1) * 8) (hdr + i * 8) b = Inr b1" "edits hdr (hdr + n * 8) b b1"
      "recsOf b1 hdr n = (recsOf b hdr n)[i := recsOf b hdr n ! (i + 1), i + 1 := recsOf b hdr n ! i]"
      by (rule swapRecs_spec [OF Suc.prems(2), of i "i + 1" i]) (use i in simp_all)
    have r1: "recsOf b1 hdr n = ys' @ r # (y # zs)"
      using b1(3) recs swap_split [of ys' y r zs] i(1) by (simp add: Suc.prems(3) ys)
    have len: "hdr + n * 8 \<le> length b1" using Suc.prems(2) edits_length [OF b1(2)] by simp
    obtain b' where b': "allocCntBubbleLeft b1 hdr i = Inr b'" "edits hdr (hdr + n * 8) b1 b'"
      "recsOf b' hdr n = takeWhile (\<lambda>y. \<not> recLess False r y) ys' @ r # dropWhile (\<lambda>y. \<not> recLess False r y) ys' @ y # zs"
      using Suc.IH [OF _ len r1 i(1)] Suc.prems(5) unfolding ys by (auto simp: sorted_wrt_append)
    have "allocCntBubbleLeft b hdr (Suc i) = Inr b'"
      using True u b1(1) b'(1) by (simp add: Let_def recLess_def allocRecSize_def)
    moreover have "takeWhile (\<lambda>y. \<not> recLess False r y) ys = takeWhile (\<lambda>y. \<not> recLess False r y) ys'"
      "dropWhile (\<lambda>y. \<not> recLess False r y) ys = dropWhile (\<lambda>y. \<not> recLess False r y) ys' @ [y]"
      using True by (simp_all add: ys takeWhile_tail dropWhile_tail)
    ultimately show ?thesis
      using Suc.prems(1) edits_trans [OF b1(2) b'(2)] b'(3) by simp
  qed
qed

text \<open>A record whose start has grown moves right past the records that start before it.\<close>

lemma bnoBubbleRight_spec:
  assumes "hdr + n * 8 \<le> length b" and "recsOf b hdr n = ys @ r # zs" and "length ys = i" and "length zs = k"
  obtains b' where "bnoBubbleRight b hdr i k = Inr b'" "edits hdr (hdr + n * 8) b b'"
    "recsOf b' hdr n = ys @ takeWhile (\<lambda>z. fst z < fst r) zs @ r # dropWhile (\<lambda>z. fst z < fst r) zs"
  using assms
proof (induction k arbitrary: b i ys zs thesis)
  case 0
  then show ?case by auto
next
  case (Suc k)
  obtain z zs' where zs: "zs = z # zs'" using Suc.prems(5) by (cases zs) auto
  have i: "i + 1 < n" using arg_cong [OF Suc.prems(3), of length] Suc.prems(4) zs by simp
  have recs: "recsOf b hdr n ! i = r" "recsOf b hdr n ! (i + 1) = z"
    unfolding Suc.prems(3) zs using Suc.prems(4) by (auto simp: nth_append)
  have u: "u32At b (hdr + i * allocRecSize) = Inr (fst r)" "u32At b (hdr + i * allocRecSize + allocRecSize) = Inr (fst z)"
    using Suc.prems(2) i nth_recsOf [of i n b hdr] nth_recsOf [of "i + 1" n b hdr] unfolding recs
    by (auto simp: u32At_def allocRecSize_def add.assoc add.commute add.left_commute)
  show ?case
  proof (cases "fst r \<le> fst z")
    case True
    then have "bnoBubbleRight b hdr i (Suc k) = Inr b" using u by (simp add: Let_def)
    then show ?thesis by (rule Suc.prems(1)) (use True in \<open>auto simp: Suc.prems(3) zs\<close>)
  next
    case False
    obtain b1 where b1: "swapRecs (hdr + i * 8) (hdr + (i + 1) * 8) b = Inr b1" "edits hdr (hdr + n * 8) b b1"
      "recsOf b1 hdr n = (recsOf b hdr n)[i := recsOf b hdr n ! (i + 1), i + 1 := recsOf b hdr n ! i]"
      by (rule swapRecs_spec [OF Suc.prems(2), of i i "i + 1"]) (use i in simp_all)
    have r1: "recsOf b1 hdr n = (ys @ [z]) @ r # zs'"
      using b1(3) recs swap_split [of ys r z zs'] Suc.prems(4) by (simp add: Suc.prems(3) zs)
    have len: "hdr + n * 8 \<le> length b1" using Suc.prems(2) edits_length [OF b1(2)] by simp
    obtain b' where b': "bnoBubbleRight b1 hdr (i + 1) k = Inr b'" "edits hdr (hdr + n * 8) b1 b'"
      "recsOf b' hdr n = (ys @ [z]) @ takeWhile (\<lambda>z. fst z < fst r) zs' @ r # dropWhile (\<lambda>z. fst z < fst r) zs'"
      using Suc.IH [OF _ len r1, of "i + 1"] Suc.prems(4,5) zs by auto
    have "bnoBubbleRight b hdr i (Suc k) = Inr b'"
      using False u b1(1) b'(1) by (simp add: Let_def allocRecSize_def add.commute add.left_commute)
    moreover have "fst z < fst r" using False by simp
    ultimately show ?thesis
      using Suc.prems(1) [OF _ edits_trans [OF b1(2) b'(2)]] b'(3) zs by simp
  qed
qed

section \<open>Halves of a split block\<close>

lemma splitSlots_spec:
  assumes "base + count_of b * rsz \<le> length b" and "8 \<le> base"
  shows "splitSlots base rsz b i rec = Inr (take i (slots b base rsz (count_of b)) @ rec # drop i (slots b base rsz (count_of b)))"
  using readSlots_spec [OF assms(1)] assms by (simp add: splitSlots_def u16At_def count_of_def)

lemma leftHalf_spec:
  assumes fit: "base + (length rs - 1) * rsz \<le> length b" and hdr: "16 \<le> base" and rs: "2 \<le> length rs" "length rs < 65536"
    and sz: "\<forall>r\<in>set rs. length r = rsz"
  obtains b' where "leftHalf base rsz rightRel b rs = Inr b'" "length b' = length b" "count_of b' = length rs div 2"
    "slots b' base rsz (length rs div 2) = take (length rs div 2) rs" "be32 b' 12 = rightRel"
    "be32 b' 0 = be32 b 0" "be16 b' 4 = be16 b 4" "be32 b' 8 = be32 b 8"
proof -
  let ?h = "length rs div 2" and ?n = "length rs - 1"
  let ?b1 = "put32 12 rightRel b"
  let ?b2 = "put16 6 (of_nat ?h) ?b1"
  have h: "?h \<le> ?n" "?h < 65536" using rs by auto
  have hr: "?h * rsz + (?n - ?h) * rsz = ?n * rsz" using h(1) by (metis add_mult_distrib le_add_diff_inverse)
  have len: "16 \<le> length b" using fit hdr by simp
  have f3: "base + length (take ?h rs) * rsz \<le> length ?b2" using fit hr rs by simp
  obtain b3 where b3: "writeSlots base rsz (take ?h rs) ?b2 = Inr b3" "edits base (base + length (take ?h rs) * rsz) ?b2 b3"
    "slots b3 base rsz (length (take ?h rs)) = take ?h rs"
    by (rule writeSlots_spec [OF f3]) (use sz in \<open>auto dest: in_set_takeD\<close>)
  have l3: "length b3 = length b" using edits_length [OF b3(2)] by simp
  have f4: "base + ?h * rsz + (?n - ?h) * rsz \<le> length b3" using fit hr l3 by simp
  obtain b4 where b4: "clearSlots (base + ?h * rsz) rsz (?n - ?h) b3 = Inr b4"
    "edits (base + ?h * rsz) (base + ?h * rsz + (?n - ?h) * rsz) b3 b4"
    by (rule clearSlots_spec [OF f4])
  have ed: "edits base (base + ?n * rsz) ?b2 b4"
    by (rule edits_trans [OF edits_mono [OF b3(2)] edits_mono [OF b4(2)]]) (use hr rs h(1) in simp_all)
  have "leftHalf base rsz rightRel b rs = Inr b4"
    unfolding leftHalf_def Let_def using len b3(1) b4(1) by (simp add: setU32_def setU16_def)
  moreover have "length b4 = length b" using edits_length [OF ed] by simp
  moreover have "count_of b4 = ?h"
    using count_of_edits [OF ed] set_count(2) [of ?b1 ?h base] h(2) hdr len by simp
  moreover have "slots b4 base rsz ?h = take ?h rs"
    using edits_slots [OF b4(2), of base ?h rsz] b3(3) rs by simp
  moreover have "be32 b4 12 = rightRel" "be32 b4 0 = be32 b 0" "be16 b4 4 = be16 b 4" "be32 b4 8 = be32 b 8"
    using edits_window [OF ed] hdr len by (simp_all add: be32_def be16_def window_put_frame put32_def window_patch_same)
  ultimately show ?thesis by (rule that)
qed

lemma rightHalf_spec:
  assumes fit: "base + (length rs - length rs div 2) * rsz \<le> length b" and hdr: "16 \<le> base"
    and sz: "\<forall>r\<in>set rs. length r = rsz"
  obtains b' where "rightHalf base rsz selfRel oldRight b rs = Inr b'" "length b' = length b" "count_of b' = count_of b"
    "slots b' base rsz (length rs - length rs div 2) = drop (length rs div 2) rs" "be32 b' 12 = oldRight" "be32 b' 8 = selfRel"
    "be32 b' 0 = be32 b 0" "be16 b' 4 = be16 b 4"
proof -
  let ?rs = "drop (length rs div 2) rs"
  let ?b2 = "put32 12 oldRight (put32 8 selfRel b)"
  have len: "16 \<le> length b" using fit hdr by simp
  have "base + length ?rs * rsz \<le> length ?b2" using fit by simp
  then obtain b3 where b3: "writeSlots base rsz ?rs ?b2 = Inr b3" "edits base (base + length ?rs * rsz) ?b2 b3"
    "slots b3 base rsz (length ?rs) = ?rs"
    by (rule writeSlots_spec) (use sz in \<open>auto dest: in_set_dropD\<close>)
  have "rightHalf base rsz selfRel oldRight b rs = Inr b3"
    using len b3(1) by (simp add: rightHalf_def setU32_def)
  moreover have "length b3 = length b" using edits_length [OF b3(2)] by simp
  moreover have "count_of b3 = count_of b" "be32 b3 12 = oldRight" "be32 b3 8 = selfRel" "be32 b3 0 = be32 b 0" "be16 b3 4 = be16 b 4"
    using edits_window [OF b3(2)] hdr len
    by (simp_all add: count_of_def be32_def be16_def window_put_frame put32_def window_patch_same)
  moreover have "slots b3 base rsz (length rs - length rs div 2) = ?rs" using b3(3) by simp
  ultimately show ?thesis using that by blast
qed

end
