(* ===== verification/AgHeader.thy ===== *)
theory AgHeader
  imports ShortBTree
begin

text \<open>
  The headers of an allocation group (alloc.go: \<^verbatim>\<open>agfBlock\<close>, \<^verbatim>\<open>writeAGF\<close>, \<^verbatim>\<open>agiBlock\<close>,
  \<^verbatim>\<open>writeAGI\<close>, \<^verbatim>\<open>syncSuperblockCounts\<close>; alloc_btree.go: \<^verbatim>\<open>allocBumpBtreeBlocks\<close> and its
  read-modify-write form). The AGF is the second sector of a group and holds the roots, depths and
  counters of the free-space trees; the AGI is the third and holds those of the inode tree.
\<close>

definition agfOffBnoRoot :: nat where "agfOffBnoRoot = 16"
definition agfOffCntRoot :: nat where "agfOffCntRoot = 20"
definition agfOffBnoLevel :: nat where "agfOffBnoLevel = 28"
definition agfOffCntLevel :: nat where "agfOffCntLevel = 32"
definition agfOffFLCount :: nat where "agfOffFLCount = 48"
definition agfOffFreeBlks :: nat where "agfOffFreeBlks = 52"
definition agfOffLongest :: nat where "agfOffLongest = 56"
definition agfOffBtreeBlks :: nat where "agfOffBtreeBlks = 60"
definition agfOffRefcntRoot :: nat where "agfOffRefcntRoot = 88"
definition agfOffRefcntLevel :: nat where "agfOffRefcntLevel = 92"
definition agfOffCRC :: nat where "agfOffCRC = 216"
definition agiOffCount :: nat where "agiOffCount = 16"
definition agiOffRoot :: nat where "agiOffRoot = 20"
definition agiOffLevel :: nat where "agiOffLevel = 24"
definition agiOffFreeCount :: nat where "agiOffFreeCount = 28"
definition agiOffNewIno :: nat where "agiOffNewIno = 32"
definition agiOffCRC :: nat where "agiOffCRC = 312"
definition sbOffIcount :: nat where "sbOffIcount = 128"
definition sbOffIfree :: nat where "sbOffIfree = 136"
definition sbOffFdblocks :: nat where "sbOffFdblocks = 144"
definition sbOffCRC :: nat where "sbOffCRC = 224"
definition sbCRCLen :: nat where "sbCRCLen = 512"

lemmas agf_offs = agfOffBnoRoot_def agfOffCntRoot_def agfOffBnoLevel_def agfOffCntLevel_def agfOffFLCount_def
  agfOffFreeBlks_def agfOffLongest_def agfOffBtreeBlks_def agfOffRefcntRoot_def agfOffRefcntLevel_def agfOffCRC_def
lemmas agi_offs = agiOffCount_def agiOffRoot_def agiOffLevel_def agiOffFreeCount_def agiOffNewIno_def agiOffCRC_def
lemmas sb_offs = sbOffIcount_def sbOffIfree_def sbOffFdblocks_def sbOffCRC_def sbCRCLen_def

definition readHeader :: "dev \<Rightarrow> superblock \<Rightarrow> int64 \<Rightarrow> u32 \<Rightarrow> bytes res" where
  "readHeader r sb off magic =
     bindR (readBytes r off (unat (sectSize sb))) (\<lambda>buf.
     bindR (u32At buf 0) (\<lambda>m. if m \<noteq> magic then Inl ErrBadMagic else Inr buf))"

definition agfBlock :: "dev \<Rightarrow> int64 \<Rightarrow> superblock \<Rightarrow> u32 \<Rightarrow> bytes res" where
  "agfBlock r partOff sb ag = readHeader r sb (agFByteOffset sb partOff ag) magicAGF"

definition agiBlock :: "dev \<Rightarrow> int64 \<Rightarrow> superblock \<Rightarrow> u32 \<Rightarrow> bytes res" where
  "agiBlock r partOff sb ag = readHeader r sb (agIByteOffset sb partOff ag) magicAGI"

definition writeHeader :: "superblock \<Rightarrow> nat \<Rightarrow> int64 \<Rightarrow> bytes \<Rightarrow> unit io" where
  "writeHeader sb crcOff off buf =
     (if hasCRC sb
      then if length buf < 512 then failIO Panic else writeIO off (updateCRC buf crcOff 512)
      else writeIO off buf)"

definition writeAGF :: "int64 \<Rightarrow> superblock \<Rightarrow> u32 \<Rightarrow> bytes \<Rightarrow> unit io" where
  "writeAGF partOff sb ag buf = writeHeader sb agfOffCRC (agFByteOffset sb partOff ag) buf"

definition writeAGI :: "int64 \<Rightarrow> superblock \<Rightarrow> u32 \<Rightarrow> bytes \<Rightarrow> unit io" where
  "writeAGI partOff sb ag buf = writeHeader sb agiOffCRC (agIByteOffset sb partOff ag) buf"

text \<open>\<^verbatim>\<open>allocBumpBtreeBlocks\<close>: the field is read as \<^verbatim>\<open>int32\<close>, which is the same sum modulo \<open>2 ^ 32\<close>.\<close>

definition allocBumpBtreeBlocks :: "bytes \<Rightarrow> u32 \<Rightarrow> bytes res" where
  "allocBumpBtreeBlocks agf delta =
     bindR (u32At agf agfOffBtreeBlks) (\<lambda>cur. setU32 agfOffBtreeBlks (cur + delta) agf)"

definition allocBumpAGFBtreeBlocks :: "int64 \<Rightarrow> superblock \<Rightarrow> u32 \<Rightarrow> u32 \<Rightarrow> unit io" where
  "allocBumpAGFBtreeBlocks partOff sb ag delta =
     bindIO (readIO (\<lambda>d. agfBlock d partOff sb ag)) (\<lambda>agf.
     bindIO (liftIO (allocBumpBtreeBlocks agf delta)) (writeAGF partOff sb ag))"

text \<open>The per-group counters that make up the filesystem-wide ones.\<close>

definition groupCounts :: "dev \<Rightarrow> int64 \<Rightarrow> superblock \<Rightarrow> u32 \<Rightarrow> (u64 \<times> u64 \<times> u64) res" where
  "groupCounts d partOff sb ag =
     bindR (agfBlock d partOff sb ag) (\<lambda>agf.
     bindR (agiBlock d partOff sb ag) (\<lambda>agi.
     bindR (u32At agf agfOffFreeBlks) (\<lambda>free. bindR (u32At agf agfOffFLCount) (\<lambda>fl. bindR (u32At agf agfOffBtreeBlks) (\<lambda>bt.
     bindR (u32At agi agiOffCount) (\<lambda>cnt. bindR (u32At agi agiOffFreeCount) (\<lambda>ifr.
       Inr (ucast cnt, ucast ifr, ucast free + ucast fl + ucast bt))))))))"

fun sumCounts :: "dev \<Rightarrow> int64 \<Rightarrow> superblock \<Rightarrow> nat \<Rightarrow> nat \<Rightarrow> u64 \<times> u64 \<times> u64 \<Rightarrow> (u64 \<times> u64 \<times> u64) res" where
  "sumCounts d partOff sb ag 0 acc = Inr acc"
| "sumCounts d partOff sb ag (Suc k) (ic, fr, fd) =
     bindR (groupCounts d partOff sb (of_nat ag)) (\<lambda>(c, f, b). sumCounts d partOff sb (ag + 1) k (ic + c, fr + f, fd + b))"

definition syncSuperblockCounts :: "int64 \<Rightarrow> superblock \<Rightarrow> unit io" where
  "syncSuperblockCounts partOff sb =
     bindIO (readIO (\<lambda>d. sumCounts d partOff sb 0 (unat (agCount sb)) (0, 0, 0))) (\<lambda>(icount, ifree, fdblocks).
     bindIO (readIO (\<lambda>d. readBytes d partOff 512)) (\<lambda>buf.
       let b = put64 sbOffFdblocks fdblocks (put64 sbOffIfree ifree (put64 sbOffIcount icount buf))
       in writeIO partOff (if hasCRC sb then updateCRC b sbOffCRC sbCRCLen else b)))"

section \<open>Headers are read back\<close>

lemma readBytes_length: "readBytes d off n = Inr buf \<Longrightarrow> length buf = n"
  by (simp add: readBytes_def file_store.rd_length)

lemma readHeader_Inr:
  "readHeader d sb off magic = Inr buf \<longleftrightarrow>
    readBytes d off (unat (sectSize sb)) = Inr buf \<and> 4 \<le> length buf \<and> be32 buf 0 = magic"
  by (auto simp: readHeader_def bindR_eq_Inr u32At_def split: if_splits)

text \<open>The size of a group header on an image whose sectors have at least 512 bytes.\<close>

definition sector_ok :: "superblock \<Rightarrow> bool" where
  "sector_ok sb \<longleftrightarrow> sectorSize sb = 0 \<or> 512 \<le> sectorSize sb"

lemma sectSize_ge: "sector_ok sb \<Longrightarrow> 512 \<le> unat (sectSize sb)"
  by (auto simp: sector_ok_def sectSize_def word_le_nat_alt)

definition stampHeader :: "superblock \<Rightarrow> nat \<Rightarrow> bytes \<Rightarrow> bytes" where
  "stampHeader sb crcOff buf = (if hasCRC sb then updateCRC buf crcOff 512 else buf)"

lemma length_stampHeader [simp]: "length (stampHeader sb crcOff buf) = length buf"
  by (simp add: stampHeader_def)

lemma window_stampHeader: "off + n \<le> crcOff \<or> crcOff + 4 \<le> off \<Longrightarrow> window off n (stampHeader sb crcOff buf) = window off n buf"
  by (simp add: stampHeader_def window_updateCRC)

lemma writeHeader_Inr:
  assumes "sector_ok sb" and "length buf = unat (sectSize sb)" and "0 \<le> sint off"
  obtains d' where "writeHeader sb crcOff off buf d = (Inr (), d')" "WriteAt d off (stampHeader sb crcOff buf) = Inr d'"
proof -
  obtain d' where "WriteAt d off (stampHeader sb crcOff buf) = Inr d'" using file_store.wr_ok [OF assms(3)] by blast
  moreover from this have "writeHeader sb crcOff off buf d = (Inr (), d')"
    using assms(2) sectSize_ge [OF assms(1)] by (cases "hasCRC sb") (simp_all add: writeHeader_def writeIO_def stampHeader_def)
  ultimately show ?thesis using that by blast
qed

lemma writeHeader_read:
  assumes "WriteAt d off (stampHeader sb crcOff buf) = Inr d'" and "length buf = unat (sectSize sb)" and "4 \<le> crcOff"
    and "sector_ok sb" and "be32 buf 0 = magic"
  shows "readHeader d' sb off magic = Inr (stampHeader sb crcOff buf)"
proof -
  have "ReadAt d' off (unat (sectSize sb)) = Inr (stampHeader sb crcOff buf)"
    using file_store.rd_wr_same [OF assms(1)] assms(2) by simp
  moreover have "be32 (stampHeader sb crcOff buf) 0 = be32 buf 0"
    using assms(3) by (simp add: be32_def window_stampHeader)
  ultimately show ?thesis
    using assms(2,5) sectSize_ge [OF assms(4)] by (simp add: readHeader_Inr readBytes_def)
qed

text \<open>
  The superblock check does not bound the sector size from below: with one-byte sectors every
  read of a group header that finds its byte panics.
\<close>

lemma agfBlock_panics:
  assumes "sectorSize sb \<noteq> 0" and "sectorSize sb < 4" and "readBytes d (agFByteOffset sb partOff ag) (unat (sectSize sb)) = Inr buf"
  shows "agfBlock d partOff sb ag = Inl Panic"
proof -
  have "length buf < 4" using readBytes_length [OF assms(3)] assms(1,2) by (simp add: sectSize_def word_less_nat_alt)
  then show ?thesis using assms(3) by (simp add: agfBlock_def readHeader_def u32At_def)
qed

section \<open>The counters of the superblock\<close>

definition group_sums :: "dev \<Rightarrow> int64 \<Rightarrow> superblock \<Rightarrow> u32 list \<Rightarrow> (u64 \<times> u64 \<times> u64) \<Rightarrow> bool" where
  "group_sums d partOff sb ags t \<longleftrightarrow> (\<exists>cs. map (groupCounts d partOff sb) ags = map Inr cs \<and>
     t = (sum_list (map fst cs), sum_list (map (fst \<circ> snd) cs), sum_list (map (snd \<circ> snd) cs)))"

lemma sumCounts_spec:
  assumes "sumCounts d partOff sb ag k (ic, fr, fd) = Inr t"
  shows "\<exists>c f b. group_sums d partOff sb (map of_nat [ag..<ag + k]) (c, f, b) \<and> t = (ic + c, fr + f, fd + b)"
  using assms
proof (induction k arbitrary: ag ic fr fd)
  case 0
  then show ?case by (simp add: group_sums_def)
next
  case (Suc k)
  from Suc.prems obtain c f b where g: "groupCounts d partOff sb (of_nat ag) = Inr (c, f, b)"
    and r: "sumCounts d partOff sb (ag + 1) k (ic + c, fr + f, fd + b) = Inr t"
    by (auto simp: bindR_eq_Inr)
  from Suc.IH [OF r] obtain c' f' b' where
    "group_sums d partOff sb (map of_nat [ag + 1..<ag + 1 + k]) (c', f', b')" "t = (ic + c + c', fr + f + f', fd + b + b')"
    by blast
  then obtain cs where cs: "map (groupCounts d partOff sb) (map of_nat [ag + 1..<ag + 1 + k]) = map Inr cs"
    "(c', f', b') = (sum_list (map fst cs), sum_list (map (fst \<circ> snd) cs), sum_list (map (snd \<circ> snd) cs))"
    and t: "t = (ic + c + c', fr + f + f', fd + b + b')"
    by (auto simp: group_sums_def)
  have u: "[ag..<ag + Suc k] = ag # [ag + 1..<ag + 1 + k]" by (simp add: upt_conv_Cons)
  have "group_sums d partOff sb (map of_nat [ag..<ag + Suc k]) (c + c', f + f', b + b')"
    unfolding group_sums_def u by (rule exI [of _ "(c, f, b) # cs"]) (use cs g in simp)
  then show ?case using t by (auto simp: add.assoc)
qed


section \<open>A small image\<close>

text \<open>
  One group of 64 blocks of 512 bytes: the headers in the first blocks, the by-block leaf in
  block 4 and the by-size leaf in block 5, each with the one free run of the blocks 8 to 15, and the
  inode leaf in block 6 with the one chunk of the inodes 64 to 127, the first three of them in use,
  and the empty reference-count tree in block 7.
\<close>

definition sb_group :: superblock where
  "sb_group = sb_example\<lparr>blockSize := 512, agBlocks := 64, agCount := 1, dBlocks := 64, inodeSize := 256, inopBlock := 2, inopBLog := 1,
     agBlkLog := 6, rootIno := 64, hasCRC := False, hasFType := False, hasReflink := False\<rparr>"

lemma sb_group_sel [simp]:
  "blockSize sb_group = 512" "sectorSize sb_group = 512" "agBlocks sb_group = 64" "agCount sb_group = 1" "agBlkLog sb_group = 6"
  "hasCRC sb_group = False" "inodeSize sb_group = 256" "inopBLog sb_group = 1" "inopBlock sb_group = 2"
  by (simp_all add: sb_group_def)

lemma sb_group_valid [simp]: "validateGeometry sb_group = Inr ()"
  by code_simp

definition small_bytes :: "(nat \<times> byte) list" where
  "small_bytes =
    [(512, 88), (513, 65), (514, 71), (515, 70), (531, 4), (535, 5), (543, 1), (547, 1), (567, 8), (571, 8), (603, 7), (607, 1), (1024,
     88), (1025, 65), (1026, 71), (1027, 73), (1043, 64), (1047, 6), (1051, 1), (1055, 61), (2055, 1), (2056, 255),
     (2057, 255), (2058, 255), (2059, 255), (2060, 255), (2061, 255), (2062, 255), (2063, 255), (2067, 8), (2071,
     8), (2567, 1), (2568, 255), (2569, 255), (2570, 255), (2571, 255), (2572, 255), (2573, 255), (2574, 255),
     (2575, 255), (2579, 8), (2583, 8), (3079, 1), (3080, 255), (3081, 255), (3082, 255), (3083, 255), (3084, 255),
     (3085, 255), (3086, 255), (3087, 255), (3091, 64), (3095, 61), (3096, 255), (3097, 255), (3098, 255), (3099,
     255), (3100, 255), (3101, 255), (3102, 255), (3103, 248), (3584, 82), (3585, 51), (3586, 70), (3587, 67)]"

definition small_dev :: dev where
  "small_dev = \<lparr>dsize = 32768, dbytes = (\<lambda>i. case map_of small_bytes i of None \<Rightarrow> 0 | Some b \<Rightarrow> b)\<rparr>"

definition small_part :: "nat \<Rightarrow> nat \<Rightarrow> bytes" where
  "small_part a n = map (dbytes small_dev) [a..<a + n]"

lemma length_small_part [simp]: "length (small_part a n) = n"
  by (simp add: small_part_def)

lemma window_map_upt: "off + n \<le> b - a \<Longrightarrow> window off n (map f [a..<b]) = map f [a + off..<a + off + n]"
  by (rule nth_equalityI) (simp_all add: nth_window add.assoc)

lemma small_read:
  assumes "sint off = int a" and "a + n \<le> 32768" and "0 < n"
  shows "readBytes small_dev off n = Inr (small_part a n)"
  using assms by (simp add: readBytes_def ReadAt_def small_part_def) (simp add: small_dev_def)

lemma window_small_part: "off + k \<le> n \<Longrightarrow> window off k (small_part a n) = small_part (a + off) k"
  by (simp add: small_part_def window_map_upt)

lemma be32_small_part: "off + 4 \<le> n \<Longrightarrow> be32 (small_part a n) off = be_word (map (dbytes small_dev) [a + off, a + off + 1, a + off + 2, a + off + 3])"
  unfolding be32_def by (subst window_small_part) (simp_all add: small_part_def upt_conv_Cons numeral_3_eq_3)

lemma small_magic: "be32 (small_part 512 512) 0 = magicAGF" "be32 (small_part 1024 512) 0 = magicAGI"
  by (simp add: be32_small_part small_dev_def small_bytes_def be_word_def, code_simp)+

lemma small_offsets: "agFByteOffset sb_group 0 0 = 512" "agIByteOffset sb_group 0 0 = 1024" "unat (sectSize sb_group) = 512"
  by (simp_all add: agFByteOffset_def agIByteOffset_def sectSize_def agByteOffset_def)

lemma small_headers:
  "agfBlock small_dev 0 sb_group 0 = Inr (small_part 512 512)"
  "agiBlock small_dev 0 sb_group 0 = Inr (small_part 1024 512)"
  using small_read [of 512 512 512] small_read [of 1024 1024 512] small_magic
  by (simp_all add: agfBlock_def agiBlock_def readHeader_Inr small_offsets)

lemma small_counters:
  "be32 (small_part 512 512) 52 = 8" "be32 (small_part 512 512) 48 = 0" "be32 (small_part 512 512) 60 = 0"
  "be32 (small_part 1024 512) 16 = 64" "be32 (small_part 1024 512) 28 = 61"
  by (simp add: be32_small_part small_dev_def small_bytes_def be_word_def, code_simp)+

lemma small_groupCounts: "groupCounts small_dev 0 sb_group 0 = Inr (64, 61, 8)"
  by (simp add: groupCounts_def small_headers u32At_def agf_offs agi_offs small_counters)

lemma small_sums:
  assumes "group_sums small_dev 0 sb_group [0] (c, f, b)"
  shows "c = 64 \<and> f = 61 \<and> b = 8"
proof -
  obtain cs where "[groupCounts small_dev 0 sb_group 0] = map Inr cs" "(c, f, b) = (sum_list (map fst cs), sum_list (map (fst \<circ> snd) cs), sum_list (map (snd \<circ> snd) cs))"
    using assms unfolding group_sums_def by fastforce
  then show ?thesis unfolding small_groupCounts by (cases cs) auto
qed


end
