(* ===== verification/FreeTree.thy ===== *)
theory FreeTree
  imports AgHeader
begin

text \<open>
  The free-space B-trees of an allocation group (alloc.go, alloc_btree.go,
  alloc_btree_delete.go): finding records, inserting with splits, deleting with rebalancing.

  The allocator keeps package-level state beside the device: the nesting depth of operations,
  the queue of tree blocks that merges have emptied, the flag that a drain of this queue is under
  way, the depth of split reserves, and the hook from which splits take their blocks. All of it is
  the record \<open>alloc\<close>. Loops over blocks carry fuel; a loop that uses it up answers \<open>OutOfFuel\<close>.
\<close>

record allocSplitReserve =
  runStart :: u64
  resN :: u32
  resUsed :: u32

datatype metaHook = MetaBlock | FromReserve | FromQueue metaHook

record alloc =
  disk :: dev
  opDepth :: nat
  draining :: bool
  mergedQ :: "(u32 \<times> u32) list"
  reserveDepth :: nat
  reserve :: allocSplitReserve
  metaHook :: metaHook

type_synonym 'a aio = "(alloc, 'a) st"

definition onDisk :: "'a io \<Rightarrow> 'a aio" where
  "onDisk m = (\<lambda>s. case m (disk s) of (r, d) \<Rightarrow> (r, s\<lparr>disk := d\<rparr>))"

definition agRead :: "int64 \<Rightarrow> superblock \<Rightarrow> u32 \<Rightarrow> u32 \<Rightarrow> bytes aio" where
  "agRead partOff sb ag rel = readIO (\<lambda>s. readAGBlock (disk s) partOff sb ag rel)"

definition agWrite :: "int64 \<Rightarrow> superblock \<Rightarrow> u32 \<Rightarrow> u32 \<Rightarrow> bytes \<Rightarrow> unit aio" where
  "agWrite partOff sb ag rel blk = onDisk (writeAGBTree partOff sb ag rel blk)"

definition getAGF :: "int64 \<Rightarrow> superblock \<Rightarrow> u32 \<Rightarrow> bytes aio" where
  "getAGF partOff sb ag = readIO (\<lambda>s. agfBlock (disk s) partOff sb ag)"

definition putAGF :: "int64 \<Rightarrow> superblock \<Rightarrow> u32 \<Rightarrow> bytes \<Rightarrow> unit aio" where
  "putAGF partOff sb ag buf = onDisk (writeAGF partOff sb ag buf)"

definition allocBTreeMaxSteps :: nat where
  "allocBTreeMaxSteps = 2 ^ 20"

section \<open>Finding records\<close>

text \<open>The first record of a leaf with enough blocks; the scan stops at the end of the block.\<close>

fun firstFit :: "bytes \<Rightarrow> nat \<Rightarrow> u32 \<Rightarrow> nat \<Rightarrow> nat \<Rightarrow> nat option" where
  "firstFit blk hdr need i 0 = None"
| "firstFit blk hdr need i (Suc k) =
     (let off = hdr + i * allocRecSize in
      if length blk < off + 8 then None
      else if be32 blk (off + 4) \<ge> need then Some i
      else firstFit blk hdr need (i + 1) k)"

fun cntFindLoop ::
  "('g, 'v) safeio \<Rightarrow> dev \<Rightarrow> int64 \<Rightarrow> superblock \<Rightarrow> u32 \<Rightarrow> u32 \<Rightarrow> nat \<Rightarrow> 'g \<Rightarrow> 'v \<Rightarrow> nat \<Rightarrow> u32 \<Rightarrow> (u32 \<times> bytes \<times> nat) res" where
  "cntFindLoop sio d partOff sb ag need 0 guard seen prevLvl agRel = Inl OutOfFuel"
| "cntFindLoop sio d partOff sb ag need (Suc fuel) guard seen prevLvl agRel =
     bindR (GuardNext sio guard) (\<lambda>guard.
     bindR (VisitCheck sio seen (ucast agRel)) (\<lambda>seen.
     bindR (readAGBlock d partOff sb ag agRel) (\<lambda>blk.
       let hdrSize = agBTreeHdrSize sb in
       if length blk < hdrSize then Inl ErrBtree
       else bindR (u16At blk 4) (\<lambda>lvl. bindR (u16At blk 6) (\<lambda>nr.
         let numrecs = unat nr in
         if lvl = 0 then
           (case firstFit blk hdrSize need 0 numrecs of
              Some i \<Rightarrow> Inr (agRel, blk, i)
            | None \<Rightarrow> bindR (u32At blk 12) (\<lambda>rsib.
                if rsib = nullAgBlock then Inl ErrNoSpace
                else cntFindLoop sio d partOff sb ag need fuel guard seen prevLvl rsib))
         else if unat lvl \<ge> prevLvl then Inl ErrBtree
         else if numrecs = 0 then Inl ErrBtree
         else let lastPtr = hdrSize + allocMaxInternal (length blk) hdrSize * allocKeySize + (numrecs - 1) * allocPtrSize in
           if length blk < lastPtr + 4 then Inl ErrBtree
           else cntFindLoop sio d partOff sb ag need fuel guard seen (unat lvl) (be32 blk lastPtr))))))"

definition cntFindBlock ::
  "('g, 'v) safeio \<Rightarrow> nat \<Rightarrow> dev \<Rightarrow> int64 \<Rightarrow> superblock \<Rightarrow> u32 \<Rightarrow> u32 \<Rightarrow> u32 \<Rightarrow> (u32 \<times> bytes \<times> nat) res" where
  "cntFindBlock sio fuel d partOff sb ag rootRel need =
     cntFindLoop sio d partOff sb ag need fuel (NewLoopGuard sio allocBTreeMaxSteps) (NewVisitSet sio) (2 ^ 30) rootRel"

fun maxCount :: "bytes \<Rightarrow> nat \<Rightarrow> nat \<Rightarrow> nat \<Rightarrow> u32 \<Rightarrow> u32" where
  "maxCount blk hdr i 0 longest = longest"
| "maxCount blk hdr i (Suc k) longest =
     (let off = hdr + i * allocRecSize in
      if length blk < off + 8 then longest
      else maxCount blk hdr (i + 1) k (if be32 blk (off + 4) > longest then be32 blk (off + 4) else longest))"

fun longestDescend ::
  "('g, 'v) safeio \<Rightarrow> dev \<Rightarrow> int64 \<Rightarrow> superblock \<Rightarrow> u32 \<Rightarrow> 'g \<Rightarrow> 'v \<Rightarrow> nat \<Rightarrow> u32 \<Rightarrow> u32 res" where
  "longestDescend sio d partOff sb ag guard seen 0 agRel = Inr agRel"
| "longestDescend sio d partOff sb ag guard seen (Suc k) agRel =
     bindR (GuardNext sio guard) (\<lambda>guard.
     bindR (VisitCheck sio seen (ucast agRel)) (\<lambda>seen.
     bindR (readAGBlock d partOff sb ag agRel) (\<lambda>blk.
       let hdrSize = agBTreeHdrSize sb in
       if length blk < hdrSize then Inl ErrBtree
       else let ptrOff = hdrSize + allocMaxInternal (length blk) hdrSize * allocKeySize in
         if length blk < ptrOff + allocPtrSize then Inl ErrBtree
         else longestDescend sio d partOff sb ag guard seen k (be32 blk ptrOff))))"

fun longestWalk ::
  "('g, 'v) safeio \<Rightarrow> dev \<Rightarrow> int64 \<Rightarrow> superblock \<Rightarrow> u32 \<Rightarrow> nat \<Rightarrow> 'g \<Rightarrow> 'v \<Rightarrow> u32 \<Rightarrow> u32 \<Rightarrow> u32 res" where
  "longestWalk sio d partOff sb ag 0 guard seen agRel longest = Inl OutOfFuel"
| "longestWalk sio d partOff sb ag (Suc fuel) guard seen agRel longest =
     bindR (GuardNext sio guard) (\<lambda>guard.
     bindR (VisitCheck sio seen (ucast agRel)) (\<lambda>seen.
     bindR (readAGBlock d partOff sb ag agRel) (\<lambda>blk.
       let hdrSize = agBTreeHdrSize sb in
       if length blk < hdrSize then Inl ErrBtree
       else bindR (u16At blk 6) (\<lambda>nr. bindR (u32At blk 12) (\<lambda>rsib.
         let longest = maxCount blk hdrSize 0 (unat nr) longest in
         if rsib = nullAgBlock then Inr longest
         else longestWalk sio d partOff sb ag fuel guard seen rsib longest)))))"

definition agfRecomputeLongest ::
  "('g, 'v) safeio \<Rightarrow> nat \<Rightarrow> dev \<Rightarrow> int64 \<Rightarrow> superblock \<Rightarrow> u32 \<Rightarrow> u32 \<Rightarrow> nat \<Rightarrow> u32 res" where
  "agfRecomputeLongest sio fuel d partOff sb ag rootRel level =
     bindR (longestDescend sio d partOff sb ag (NewLoopGuard sio allocBTreeMaxSteps) (NewVisitSet sio) (level - 1) rootRel)
       (\<lambda>agRel. longestWalk sio d partOff sb ag fuel (NewLoopGuard sio allocBTreeMaxSteps) (NewVisitSet sio) agRel 0)"

text \<open>\<^verbatim>\<open>bnoFindRecord\<close> walks without a guard and reads without checks of its own.\<close>

fun startPos :: "bytes \<Rightarrow> nat \<Rightarrow> u32 \<Rightarrow> nat \<Rightarrow> nat \<Rightarrow> nat option res" where
  "startPos blk hdr start i 0 = Inr None"
| "startPos blk hdr start i (Suc k) =
     bindR (u32At blk (hdr + i * allocRecSize)) (\<lambda>s.
       if s = start then Inr (Some i) else startPos blk hdr start (i + 1) k)"

fun bnoChild :: "bytes \<Rightarrow> nat \<Rightarrow> u32 \<Rightarrow> nat \<Rightarrow> nat \<Rightarrow> nat \<Rightarrow> nat res" where
  "bnoChild blk hdr start child i 0 = Inr child"
| "bnoChild blk hdr start child i (Suc k) =
     bindR (u32At blk (hdr + i * allocKeySize)) (\<lambda>key.
       if key \<le> start then bnoChild blk hdr start i (i + 1) k else Inr child)"

fun bnoFindRecord :: "nat \<Rightarrow> dev \<Rightarrow> int64 \<Rightarrow> superblock \<Rightarrow> u32 \<Rightarrow> u32 \<Rightarrow> u32 \<Rightarrow> (u32 \<times> bytes \<times> nat) res" where
  "bnoFindRecord 0 d partOff sb ag agRel start = Inl OutOfFuel"
| "bnoFindRecord (Suc fuel) d partOff sb ag agRel start =
     bindR (readAGBlock d partOff sb ag agRel) (\<lambda>blk.
     bindR (u16At blk 4) (\<lambda>lvl. bindR (u16At blk 6) (\<lambda>nr.
       let hdrSize = agBTreeHdrSize sb; numrecs = unat nr in
       if lvl = 0 then
         bindR (startPos blk hdrSize start 0 numrecs) (\<lambda>pos. case pos of
           Some i \<Rightarrow> Inr (agRel, blk, i) | None \<Rightarrow> Inl ErrNotFound)
       else bindR (bnoChild blk hdrSize start 0 0 numrecs) (\<lambda>child.
         bindR (u32At blk (hdrSize + allocMaxInternal (length blk) hdrSize * allocKeySize + child * allocPtrSize)) (\<lambda>rel.
           bnoFindRecord fuel d partOff sb ag rel start)))))"

definition bnoUpdateRecord :: "nat \<Rightarrow> int64 \<Rightarrow> superblock \<Rightarrow> u32 \<Rightarrow> u32 \<Rightarrow> u32 \<Rightarrow> u32 \<Rightarrow> u32 \<Rightarrow> unit aio" where
  "bnoUpdateRecord fuel partOff sb ag rootRel oldStart newStart newCount =
     bindIO (readIO (\<lambda>s. bnoFindRecord fuel (disk s) partOff sb ag rootRel oldStart)) (\<lambda>(leafRel, leaf, recIdx).
       let hdrSize = agBTreeHdrSize sb; off = hdrSize + recIdx * allocRecSize in
       bindIO (liftIO (bindR (setU32 off newStart leaf) (\<lambda>l. bindR (setU32 (off + 4) newCount l) (\<lambda>l.
         bindR (u16At l 6) (\<lambda>nr. bnoBubbleRight l hdrSize recIdx (unat nr - 1 - recIdx))))))
         (agWrite partOff sb ag leafRel))"

section \<open>Insertion\<close>

datatype allocSplit = NoSplit | Split u32 u32 u32

text \<open>Both halves of a split hang in the sibling chain: the block after them must point back.\<close>

definition fixSibling :: "int64 \<Rightarrow> superblock \<Rightarrow> u32 \<Rightarrow> u32 \<Rightarrow> u32 \<Rightarrow> unit aio" where
  "fixSibling partOff sb ag oldRight rightRel =
     (if oldRight = nullAgBlock then retIO ()
      else bindIO (agRead partOff sb ag oldRight) (\<lambda>sib.
        bindIO (liftIO (setU32 8 rightRel sib)) (agWrite partOff sb ag oldRight)))"

definition allocSplitLeaf :: "u64 aio \<Rightarrow> int64 \<Rightarrow> superblock \<Rightarrow> u32 \<Rightarrow> u32 \<Rightarrow> bool \<Rightarrow> u32 \<Rightarrow> u32 \<Rightarrow> allocSplit aio" where
  "allocSplitLeaf metaAlloc partOff sb ag selfRel bnoSort agStartRel nBlocks =
     bindIO metaAlloc (\<lambda>rightAbs.
       let rightRel = snd (fsbToAgAgbno sb rightAbs); hdrSize = agBTreeHdrSize sb in
       bindIO (agRead partOff sb ag selfRel) (\<lambda>leaf.
       bindIO (liftIO (u16At leaf 6)) (\<lambda>nr.
       bindIO (liftIO (insertPos leaf hdrSize bnoSort agStartRel nBlocks 0 (unat nr))) (\<lambda>insertAt.
       bindIO (liftIO (splitSlots hdrSize allocRecSize leaf insertAt (encRec (agStartRel, nBlocks)))) (\<lambda>recs.
       let total = length recs; half = total div 2 in
       bindIO (liftIO (u32At leaf 0)) (\<lambda>magic.
       bindIO (liftIO (u32At leaf 12)) (\<lambda>oldRight.
       bindIO (liftIO (leftHalf hdrSize allocRecSize rightRel leaf recs)) (\<lambda>left.
       bindIO (agWrite partOff sb ag selfRel left) (\<lambda>_.
       bindIO (liftIO (rightHalf hdrSize allocRecSize selfRel oldRight (newAllocBlock sb ag rightRel 0 (total - half) magic) recs)) (\<lambda>right.
       bindIO (agWrite partOff sb ag rightRel right) (\<lambda>_.
       bindIO (fixSibling partOff sb ag oldRight rightRel) (\<lambda>_.
       bindIO (onDisk (allocBumpAGFBtreeBlocks partOff sb ag 1)) (\<lambda>_.
         retIO (Split (fst (decRec (recs ! half))) (snd (decRec (recs ! half))) rightRel))))))))))))))"

text \<open>Loading and storing key and pointer arrays, where every access is checked.\<close>

definition copyExact :: "nat \<Rightarrow> bytes \<Rightarrow> bytes \<Rightarrow> bytes res" where
  "copyExact off src b = (if off + length src \<le> length b then Inr (patch off src b) else Inl Panic)"

fun loadSlots :: "nat \<Rightarrow> nat \<Rightarrow> nat \<Rightarrow> bytes \<Rightarrow> bytes list res" where
  "loadSlots off rsz 0 blk = Inr []"
| "loadSlots off rsz (Suc k) blk =
     bindR (sliceOf off (off + rsz) blk) (\<lambda>r. bindR (loadSlots (off + rsz) rsz k blk) (\<lambda>rs. Inr (r # rs)))"

fun storeSlots :: "nat \<Rightarrow> nat \<Rightarrow> bytes list \<Rightarrow> bytes \<Rightarrow> bytes res" where
  "storeSlots off rsz [] blk = Inr blk"
| "storeSlots off rsz (r # rs) blk = bindR (copyExact off r blk) (storeSlots (off + rsz) rsz rs)"

definition allocSplitNode :: "u64 aio \<Rightarrow> int64 \<Rightarrow> superblock \<Rightarrow> u32 \<Rightarrow> u32 \<Rightarrow> bytes \<Rightarrow> nat \<Rightarrow> u32 \<Rightarrow> u32 \<Rightarrow> u32 \<Rightarrow> allocSplit aio" where
  "allocSplitNode metaAlloc partOff sb ag selfRel node insertAt newKeyStart newKeyCount newPtr =
     (let hdrSize = agBTreeHdrSize sb; ptrBase = hdrSize + allocMaxInternal (length node) hdrSize * allocKeySize in
      bindIO (liftIO (u16At node 6)) (\<lambda>nr.
      bindIO (liftIO (loadSlots hdrSize allocKeySize (unat nr) node)) (\<lambda>ks.
      bindIO (liftIO (loadSlots ptrBase allocPtrSize (unat nr) node)) (\<lambda>ps.
      let keys = take insertAt ks @ encRec (newKeyStart, newKeyCount) # drop insertAt ks;
          ptrs = take insertAt ps @ be_bytes 4 newPtr # drop insertAt ps;
          total = length keys; half = total div 2 in
      bindIO metaAlloc (\<lambda>rightAbs.
      let rightRel = snd (fsbToAgAgbno sb rightAbs) in
      bindIO (liftIO (u32At node 0)) (\<lambda>magic.
      bindIO (liftIO (u16At node 4)) (\<lambda>blockLevel.
      bindIO (liftIO (u32At node 12)) (\<lambda>oldRight.
      bindIO (liftIO (bindR (leftHalf hdrSize allocKeySize rightRel node keys) (\<lambda>l. leftHalf ptrBase allocPtrSize rightRel l ptrs))) (\<lambda>left.
      bindIO (agWrite partOff sb ag selfRel left) (\<lambda>_.
      bindIO (liftIO (bindR (rightHalf hdrSize allocKeySize selfRel oldRight (newAllocBlock sb ag rightRel (unat blockLevel) (total - half) magic) keys)
                (\<lambda>r. rightHalf ptrBase allocPtrSize selfRel oldRight r ptrs))) (\<lambda>right.
      bindIO (agWrite partOff sb ag rightRel right) (\<lambda>_.
      bindIO (fixSibling partOff sb ag oldRight rightRel) (\<lambda>_.
      bindIO (onDisk (allocBumpAGFBtreeBlocks partOff sb ag 1)) (\<lambda>_.
        retIO (Split (fst (decRec (keys ! half))) (snd (decRec (keys ! half))) rightRel)))))))))))))))"

fun allocInsertInto :: "u64 aio \<Rightarrow> nat \<Rightarrow> int64 \<Rightarrow> superblock \<Rightarrow> u32 \<Rightarrow> u32 \<Rightarrow> u32 \<Rightarrow> u32 \<Rightarrow> bool \<Rightarrow> allocSplit aio" where
  "allocInsertInto metaAlloc 0 partOff sb ag selfRel agStartRel nBlocks bnoSort = failIO OutOfFuel"
| "allocInsertInto metaAlloc (Suc fuel) partOff sb ag selfRel agStartRel nBlocks bnoSort =
     (let hdrSize = agBTreeHdrSize sb in
      bindIO (agRead partOff sb ag selfRel) (\<lambda>blk.
      bindIO (liftIO (u16At blk 4)) (\<lambda>lvl.
      bindIO (liftIO (u16At blk 6)) (\<lambda>nr.
      let numrecs = unat nr in
      if lvl = 0 then
        bindIO (liftIO (insertPos blk hdrSize bnoSort agStartRel nBlocks 0 numrecs)) (\<lambda>insertAt.
        if numrecs < allocMaxLeaf (length blk) hdrSize then
          bindIO (liftIO (insertRecord hdrSize allocRecSize numrecs insertAt (encRec (agStartRel, nBlocks)) blk)) (\<lambda>b.
          bindIO (agWrite partOff sb ag selfRel b) (\<lambda>_. retIO NoSplit))
        else allocSplitLeaf metaAlloc partOff sb ag selfRel bnoSort agStartRel nBlocks)
      else
        let maxInternal = allocMaxInternal (length blk) hdrSize; ptrBase = hdrSize + maxInternal * allocKeySize in
        bindIO (liftIO (childFor blk hdrSize bnoSort agStartRel nBlocks 0 0 numrecs)) (\<lambda>child.
        bindIO (liftIO (u32At blk (ptrBase + child * allocPtrSize))) (\<lambda>childRel.
        bindIO (allocInsertInto metaAlloc fuel partOff sb ag childRel agStartRel nBlocks bnoSort) (\<lambda>res.
        case res of
          NoSplit \<Rightarrow> retIO NoSplit
        | Split ks kc rightRel \<Rightarrow>
            if numrecs < maxInternal then
              bindIO (liftIO (insertKeyPtr hdrSize ptrBase allocKeySize numrecs (child + 1) (encRec (ks, kc)) rightRel blk)) (\<lambda>b.
              bindIO (agWrite partOff sb ag selfRel b) (\<lambda>_. retIO NoSplit))
            else allocSplitNode metaAlloc partOff sb ag selfRel blk (child + 1) ks kc rightRel)))))))"

text \<open>Root and depth of one tree in the AGF.\<close>

definition setRoot :: "bool \<Rightarrow> u32 \<Rightarrow> u32 \<Rightarrow> bytes \<Rightarrow> bytes res" where
  "setRoot bnoSort rootRel level agf =
     (if bnoSort then bindR (setU32 agfOffBnoRoot rootRel agf) (setU32 agfOffBnoLevel level)
      else bindR (setU32 agfOffCntRoot rootRel agf) (setU32 agfOffCntLevel level))"

definition newRootBlock :: "superblock \<Rightarrow> u32 \<Rightarrow> u32 \<Rightarrow> bytes \<Rightarrow> u32 \<Rightarrow> u32 \<Rightarrow> u32 \<Rightarrow> u32 \<Rightarrow> bytes res" where
  "newRootBlock sb ag newRootRel oldRoot rootRel rightKeyStart rightKeyCount rightRel =
     (let hdrSize = agBTreeHdrSize sb in
      bindR (u16At oldRoot 4) (\<lambda>lvl. bindR (u32At oldRoot 0) (\<lambda>magic.
      bindR (u32At oldRoot hdrSize) (\<lambda>leftStart. bindR (u32At oldRoot (hdrSize + 4)) (\<lambda>leftCount.
      let root = newAllocBlock sb ag newRootRel (unat lvl + 1) 2 magic;
          ptrBase = hdrSize + allocMaxInternal (length root) hdrSize * allocKeySize in
      bindR (storeSlots hdrSize allocKeySize [encRec (leftStart, leftCount), encRec (rightKeyStart, rightKeyCount)] root)
        (storeSlots ptrBase allocPtrSize [be_bytes 4 rootRel, be_bytes 4 rightRel]))))))"

definition allocInsertRecord :: "u64 aio \<Rightarrow> nat \<Rightarrow> int64 \<Rightarrow> superblock \<Rightarrow> u32 \<Rightarrow> u32 \<Rightarrow> u32 \<Rightarrow> u32 \<Rightarrow> u32 \<Rightarrow> bool \<Rightarrow> unit aio" where
  "allocInsertRecord metaAlloc fuel partOff sb ag rootRel level agStartRel nBlocks bnoSort =
     bindIO (allocInsertInto metaAlloc fuel partOff sb ag rootRel agStartRel nBlocks bnoSort) (\<lambda>res.
     case res of
       NoSplit \<Rightarrow> retIO ()
     | Split ks kc rightRel \<Rightarrow>
         bindIO metaAlloc (\<lambda>newRootAbs.
         let newRootRel = snd (fsbToAgAgbno sb newRootAbs) in
         bindIO (agRead partOff sb ag rootRel) (\<lambda>oldRoot.
         bindIO (liftIO (newRootBlock sb ag newRootRel oldRoot rootRel ks kc rightRel)) (\<lambda>root.
         bindIO (agWrite partOff sb ag newRootRel root) (\<lambda>_.
         bindIO (getAGF partOff sb ag) (\<lambda>agf.
         bindIO (liftIO (bindR (setRoot bnoSort newRootRel (level + 1) agf) (\<lambda>a. allocBumpBtreeBlocks a 1)))
           (putAGF partOff sb ag)))))))"

definition bnoInsertRecord :: "u64 aio \<Rightarrow> nat \<Rightarrow> int64 \<Rightarrow> superblock \<Rightarrow> u32 \<Rightarrow> u32 \<Rightarrow> u32 \<Rightarrow> u32 \<Rightarrow> u32 \<Rightarrow> unit aio" where
  "bnoInsertRecord metaAlloc fuel partOff sb ag rootRel level agStartRel nBlocks =
     allocInsertRecord metaAlloc fuel partOff sb ag rootRel level agStartRel nBlocks True"

definition cntInsertRecord :: "u64 aio \<Rightarrow> nat \<Rightarrow> int64 \<Rightarrow> superblock \<Rightarrow> u32 \<Rightarrow> u32 \<Rightarrow> u32 \<Rightarrow> u32 \<Rightarrow> u32 \<Rightarrow> unit aio" where
  "cntInsertRecord metaAlloc fuel partOff sb ag rootRel level agStartRel nBlocks =
     allocInsertRecord metaAlloc fuel partOff sb ag rootRel level agStartRel nBlocks False"

end
