(* ===== verification/FreeDelete.thy ===== *)
theory FreeDelete
  imports FreeTree
begin

text \<open>
  Deletion from the free-space B-trees (alloc_btree_delete.go): the descent records its path, the
  record is removed from the leaf, underfull blocks borrow from a sibling or merge with one, the
  keys along the path are refreshed, and a root with a single child is dropped. The emptied
  blocks are returned; the callers queue them for a later free.
\<close>

record allocPathNode =
  pnRel :: u32
  pnBlk :: bytes
  pnChild :: nat

text \<open>The descent; the path is kept with the block reached last at its head.\<close>

fun deletePath ::
  "nat \<Rightarrow> dev \<Rightarrow> int64 \<Rightarrow> superblock \<Rightarrow> u32 \<Rightarrow> u32 \<Rightarrow> u32 \<Rightarrow> u32 \<Rightarrow> bool \<Rightarrow> allocPathNode list \<Rightarrow> allocPathNode list res" where
  "deletePath 0 d partOff sb ag curRel agStartRel nBlocks bnoSort path = Inl OutOfFuel"
| "deletePath (Suc fuel) d partOff sb ag curRel agStartRel nBlocks bnoSort path =
     bindR (readAGBlock d partOff sb ag curRel) (\<lambda>blk.
     bindR (u16At blk 4) (\<lambda>lvl. bindR (u16At blk 6) (\<lambda>nr.
       let hdrSize = agBTreeHdrSize sb in
       if lvl = 0 then Inr (\<lparr>pnRel = curRel, pnBlk = blk, pnChild = 0\<rparr> # path)
       else let ptrBase = hdrSize + allocMaxInternal (length blk) hdrSize * allocKeySize in
         bindR (childFor blk hdrSize bnoSort agStartRel nBlocks 0 0 (unat nr)) (\<lambda>child.
         bindR (u32At blk (ptrBase + child * allocPtrSize)) (\<lambda>rel.
           deletePath fuel d partOff sb ag rel agStartRel nBlocks bnoSort
             (\<lparr>pnRel = curRel, pnBlk = blk, pnChild = child\<rparr> # path))))))"

fun recordPos :: "bytes \<Rightarrow> nat \<Rightarrow> bool \<Rightarrow> u32 \<Rightarrow> u32 \<Rightarrow> nat \<Rightarrow> nat \<Rightarrow> nat option res" where
  "recordPos blk hdr bnoSort start cnt i 0 = Inr None"
| "recordPos blk hdr bnoSort start cnt i (Suc k) =
     bindR (u32At blk (hdr + i * allocRecSize)) (\<lambda>s. bindR (u32At blk (hdr + i * allocRecSize + 4)) (\<lambda>c.
       if s = start \<and> (bnoSort \<or> c = cnt) then Inr (Some i)
       else recordPos blk hdr bnoSort start cnt (i + 1) k))"

section \<open>Rebalancing\<close>

definition childPtr :: "nat \<Rightarrow> bytes \<Rightarrow> nat \<Rightarrow> u32 res" where
  "childPtr hdrSize blk i = u32At blk (hdrSize + allocMaxInternal (length blk) hdrSize * allocKeySize + i * allocPtrSize)"

text \<open>The pointer before a child; for child 0 the code reads the four bytes before the array.\<close>

definition prevChildPtr :: "nat \<Rightarrow> bytes \<Rightarrow> nat \<Rightarrow> u32 res" where
  "prevChildPtr hdrSize blk ci =
     u32At blk (hdrSize + allocMaxInternal (length blk) hdrSize * allocKeySize + ci * allocPtrSize - allocPtrSize)"

definition firstKey :: "nat \<Rightarrow> bytes \<Rightarrow> (u32 \<times> u32) res" where
  "firstKey hdrSize blk = bindR (u32At blk hdrSize) (\<lambda>s. bindR (u32At blk (hdrSize + 4)) (\<lambda>c. Inr (s, c)))"

definition minRecsOf :: "bool \<Rightarrow> bytes \<Rightarrow> nat \<Rightarrow> nat" where
  "minRecsOf isLeaf blk hdrSize =
     (if isLeaf then allocMinLeaf (length blk) hdrSize else allocMinInternal (length blk) hdrSize)"

text \<open>
  The in-memory part of \<^verbatim>\<open>tryRshift\<close> and \<^verbatim>\<open>tryLshift\<close>: the node and its sibling after one record
  (or key and pointer) has moved, \<open>None\<close> when the sibling cannot spare one.
\<close>

definition shiftFromRight :: "nat \<Rightarrow> bool \<Rightarrow> bytes \<Rightarrow> bytes \<Rightarrow> (bytes \<times> bytes) option res" where
  "shiftFromRight hdrSize isLeaf node right =
     bindR (u16At right 6) (\<lambda>rn. let rNum = unat rn in
     if rNum < minRecsOf isLeaf right hdrSize + 1 then Inr None
     else bindR (u16At node 6) (\<lambda>nn. let nNum = unat nn in
     bindR (if isLeaf then
         bindR (sliceOf hdrSize (hdrSize + allocRecSize) right) (\<lambda>r.
         bindR (copyExact (hdrSize + nNum * allocRecSize) r node) (\<lambda>node.
         bindR (allocRemoveRecAt right hdrSize 0 allocRecSize) (\<lambda>right. Inr (node, right))))
       else
         let nPtrBase = hdrSize + allocMaxInternal (length node) hdrSize * allocKeySize;
             rMaxN = allocMaxInternal (length right) hdrSize;
             rPtrBase = hdrSize + rMaxN * allocKeySize in
         bindR (sliceOf hdrSize (hdrSize + allocKeySize) right) (\<lambda>k.
         bindR (copyExact (hdrSize + nNum * allocKeySize) k node) (\<lambda>node.
         bindR (u32At right rPtrBase) (\<lambda>p.
         bindR (setU32 (nPtrBase + nNum * allocPtrSize) p node) (\<lambda>node.
         bindR (allocRemoveKeyPtrAt right hdrSize 0 rMaxN) (\<lambda>right. Inr (node, right)))))))
       (\<lambda>(node, right).
         bindR (setU16 6 (of_nat (nNum + 1)) node) (\<lambda>node.
         bindR (setU16 6 (of_nat (rNum - 1)) right) (\<lambda>right. Inr (Some (node, right)))))))"

definition shiftFromLeft :: "nat \<Rightarrow> bool \<Rightarrow> bytes \<Rightarrow> bytes \<Rightarrow> (bytes \<times> bytes) option res" where
  "shiftFromLeft hdrSize isLeaf node left =
     bindR (u16At left 6) (\<lambda>ln. let lNum = unat ln in
     if lNum < minRecsOf isLeaf left hdrSize + 1 then Inr None
     else bindR (u16At node 6) (\<lambda>nn. let nNum = unat nn in
     bindR (if isLeaf then
         let src = hdrSize + (lNum - 1) * allocRecSize in
         bindR (moveBytes (hdrSize + allocRecSize) hdrSize (hdrSize + nNum * allocRecSize) node) (\<lambda>node.
         bindR (sliceOf src (src + allocRecSize) left) (\<lambda>r.
         bindR (copyExact hdrSize r node) (\<lambda>node.
         bindR (clearAt src (src + allocRecSize) left) (\<lambda>left. Inr (node, left)))))
       else
         let nPtrBase = hdrSize + allocMaxInternal (length node) hdrSize * allocKeySize;
             lPtrBase = hdrSize + allocMaxInternal (length left) hdrSize * allocKeySize;
             kSrc = hdrSize + (lNum - 1) * allocKeySize; pSrc = lPtrBase + (lNum - 1) * allocPtrSize in
         bindR (moveBytes (hdrSize + allocKeySize) hdrSize (hdrSize + nNum * allocKeySize) node) (\<lambda>node.
         bindR (moveBytes (nPtrBase + allocPtrSize) nPtrBase (nPtrBase + nNum * allocPtrSize) node) (\<lambda>node.
         bindR (sliceOf kSrc (kSrc + allocKeySize) left) (\<lambda>k.
         bindR (copyExact hdrSize k node) (\<lambda>node.
         bindR (u32At left pSrc) (\<lambda>p.
         bindR (setU32 nPtrBase p node) (\<lambda>node.
         bindR (clearAt kSrc (kSrc + allocKeySize) left) (\<lambda>left.
         bindR (setU32 pSrc 0 left) (\<lambda>left. Inr (node, left))))))))))
       (\<lambda>(node, left).
         bindR (setU16 6 (of_nat (nNum + 1)) node) (\<lambda>node.
         bindR (setU16 6 (of_nat (lNum - 1)) left) (\<lambda>left. Inr (Some (node, left)))))))"

definition tryRshift :: "int64 \<Rightarrow> superblock \<Rightarrow> u32 \<Rightarrow> bytes \<Rightarrow> u32 \<Rightarrow> bool \<Rightarrow> bytes option aio" where
  "tryRshift partOff sb ag node rightRel isLeaf =
     bindIO (agRead partOff sb ag rightRel) (\<lambda>right.
     bindIO (liftIO (shiftFromRight (agBTreeHdrSize sb) isLeaf node right)) (\<lambda>r. case r of
       None \<Rightarrow> retIO None
     | Some (node, right) \<Rightarrow> bindIO (agWrite partOff sb ag rightRel right) (\<lambda>_. retIO (Some node))))"

definition tryLshift :: "int64 \<Rightarrow> superblock \<Rightarrow> u32 \<Rightarrow> bytes \<Rightarrow> u32 \<Rightarrow> bool \<Rightarrow> bytes option aio" where
  "tryLshift partOff sb ag node leftRel isLeaf =
     bindIO (agRead partOff sb ag leftRel) (\<lambda>left.
     bindIO (liftIO (shiftFromLeft (agBTreeHdrSize sb) isLeaf node left)) (\<lambda>r. case r of
       None \<Rightarrow> retIO None
     | Some (node, left) \<Rightarrow> bindIO (agWrite partOff sb ag leftRel left) (\<lambda>_. retIO (Some node))))"

text \<open>The joined block, its record count and its right neighbour taken over from the right one.\<close>

definition joinBlocks :: "nat \<Rightarrow> bool \<Rightarrow> bytes \<Rightarrow> bytes \<Rightarrow> bytes res" where
  "joinBlocks hdrSize isLeaf left right =
     bindR (u16At left 6) (\<lambda>ln. bindR (u16At right 6) (\<lambda>rn. let lNum = unat ln; rNum = unat rn in
     bindR (if isLeaf then
         bindR (loadSlots hdrSize allocRecSize rNum right) (\<lambda>rs. storeSlots (hdrSize + lNum * allocRecSize) allocRecSize rs left)
       else
         let lPtrBase = hdrSize + allocMaxInternal (length left) hdrSize * allocKeySize;
             rPtrBase = hdrSize + allocMaxInternal (length right) hdrSize * allocKeySize in
         bindR (loadSlots hdrSize allocKeySize rNum right) (\<lambda>ks.
         bindR (storeSlots (hdrSize + lNum * allocKeySize) allocKeySize ks left) (\<lambda>left.
         bindR (loadSlots rPtrBase allocPtrSize rNum right) (\<lambda>ps. storeSlots (lPtrBase + lNum * allocPtrSize) allocPtrSize ps left))))
       (\<lambda>left.
         bindR (setU16 6 (of_nat (lNum + rNum)) left) (\<lambda>left.
         bindR (u32At right 12) (\<lambda>rRsib. setU32 12 rRsib left)))))"

definition mergeBlocks :: "int64 \<Rightarrow> superblock \<Rightarrow> u32 \<Rightarrow> u32 \<Rightarrow> bytes \<Rightarrow> u32 \<Rightarrow> bool \<Rightarrow> unit aio" where
  "mergeBlocks partOff sb ag leftRel left rightRel isLeaf =
     bindIO (agRead partOff sb ag rightRel) (\<lambda>right.
     bindIO (liftIO (joinBlocks (agBTreeHdrSize sb) isLeaf left right)) (\<lambda>left.
     bindIO (agWrite partOff sb ag leftRel left) (\<lambda>_.
     bindIO (liftIO (u32At right 12)) (\<lambda>rRsib. fixSibling partOff sb ag rRsib leftRel))))"

definition refreshParentKey :: "int64 \<Rightarrow> superblock \<Rightarrow> u32 \<Rightarrow> u32 \<Rightarrow> bytes \<Rightarrow> nat \<Rightarrow> u32 \<Rightarrow> unit aio" where
  "refreshParentKey partOff sb ag parentRel parent ci childRel =
     (let hdrSize = agBTreeHdrSize sb in
      bindIO (agRead partOff sb ag childRel) (\<lambda>child.
      bindIO (liftIO (bindR (firstKey hdrSize child) (\<lambda>(kStart, kCount).
        bindR (setU32 (hdrSize + ci * allocKeySize) kStart parent) (setU32 (hdrSize + ci * allocKeySize + 4) kCount))))
        (agWrite partOff sb ag parentRel)))"

text \<open>
  \<^verbatim>\<open>fixupFrom\<close> on a path given from the block at hand up to the root; the result is the list of the
  blocks that merges emptied.
\<close>

fun fixupFrom :: "int64 \<Rightarrow> superblock \<Rightarrow> u32 \<Rightarrow> bool \<Rightarrow> allocPathNode list \<Rightarrow> u32 list aio" where
  "fixupFrom partOff sb ag suppressMerge [] = retIO []"
| "fixupFrom partOff sb ag suppressMerge [node] =
     bindIO (agWrite partOff sb ag (pnRel node) (pnBlk node)) (\<lambda>_. retIO [])"
| "fixupFrom partOff sb ag suppressMerge (node # parent # rest) =
     (let hdrSize = agBTreeHdrSize sb; blk = pnBlk node; rel = pnRel node in
      bindIO (liftIO (u16At blk 6)) (\<lambda>nr.
      bindIO (liftIO (u16At blk 4)) (\<lambda>lvl.
      let isLeaf = (lvl = 0) in
      if minRecsOf isLeaf blk hdrSize \<le> unat nr \<or> suppressMerge then
        bindIO (agWrite partOff sb ag rel blk) (\<lambda>_. retIO [])
      else
        let ci = pnChild parent in
        bindIO (liftIO (u16At (pnBlk parent) 6)) (\<lambda>pn.
        let hasRight = ci + 2 \<le> unat pn in
        bindIO (if hasRight then bindIO (liftIO (childPtr hdrSize (pnBlk parent) (ci + 1))) (\<lambda>rightRel. tryRshift partOff sb ag blk rightRel isLeaf)
                else retIO None) (\<lambda>moved. case moved of
          Some blk' \<Rightarrow>
            bindIO (agWrite partOff sb ag rel blk') (\<lambda>_.
            bindIO (liftIO (childPtr hdrSize (pnBlk parent) (ci + 1))) (\<lambda>rightRel.
            bindIO (refreshParentKey partOff sb ag (pnRel parent) (pnBlk parent) (ci + 1) rightRel) (\<lambda>_. retIO [])))
        | None \<Rightarrow>
          bindIO (if 1 \<le> ci then bindIO (liftIO (childPtr hdrSize (pnBlk parent) (ci - 1))) (\<lambda>leftRel. tryLshift partOff sb ag blk leftRel isLeaf)
                  else retIO None) (\<lambda>moved. case moved of
            Some blk' \<Rightarrow>
              bindIO (agWrite partOff sb ag rel blk') (\<lambda>_.
              bindIO (refreshParentKey partOff sb ag (pnRel parent) (pnBlk parent) ci rel) (\<lambda>_. retIO []))
          | None \<Rightarrow>
            bindIO (agWrite partOff sb ag rel blk) (\<lambda>_.
            bindIO (if hasRight then
                bindIO (liftIO (childPtr hdrSize (pnBlk parent) (ci + 1))) (\<lambda>rightRel.
                bindIO (mergeBlocks partOff sb ag rel blk rightRel isLeaf) (\<lambda>_. retIO (ci + 1, rightRel)))
              else
                bindIO (liftIO (prevChildPtr hdrSize (pnBlk parent) ci)) (\<lambda>leftRel.
                bindIO (agRead partOff sb ag leftRel) (\<lambda>leftBlk.
                bindIO (mergeBlocks partOff sb ag leftRel leftBlk rel isLeaf) (\<lambda>_. retIO (ci, rel))))) (\<lambda>(gone, freed).
            bindIO (liftIO (bindR (allocRemoveKeyPtrAt (pnBlk parent) hdrSize gone (allocMaxInternal (length (pnBlk parent)) hdrSize)) (\<lambda>p.
              setU16 6 (pn - 1) p))) (\<lambda>pblk.
            bindIO (fixupFrom partOff sb ag suppressMerge (parent\<lparr>pnBlk := pblk\<rparr> # rest)) (\<lambda>more.
              retIO (freed # more)))))))))))"

text \<open>
  \<^verbatim>\<open>refreshKeysAlongPath\<close> and the last loop of \<^verbatim>\<open>allocCntRefreshLeafKey\<close>: the key of the child
  that was followed becomes the first key of that child. The first clamps the child index to the
  records the parent still has.
\<close>

definition refreshKeyAt :: "int64 \<Rightarrow> superblock \<Rightarrow> u32 \<Rightarrow> bytes \<Rightarrow> u32 \<Rightarrow> nat \<Rightarrow> unit aio" where
  "refreshKeyAt partOff sb ag parent parentRel ci =
     (let hdrSize = agBTreeHdrSize sb in
      bindIO (liftIO (childPtr hdrSize parent ci)) (\<lambda>childRel.
      bindIO (agRead partOff sb ag childRel) (\<lambda>child.
      bindIO (liftIO (firstKey hdrSize child)) (\<lambda>(kStart, kCount).
      bindIO (liftIO (u32At parent (hdrSize + ci * allocKeySize))) (\<lambda>cur0.
      bindIO (liftIO (u32At parent (hdrSize + ci * allocKeySize + 4))) (\<lambda>cur1.
        if cur0 = kStart \<and> cur1 = kCount then retIO ()
        else bindIO (liftIO (bindR (setU32 (hdrSize + ci * allocKeySize) kStart parent) (setU32 (hdrSize + ci * allocKeySize + 4) kCount)))
               (agWrite partOff sb ag parentRel)))))))"

definition refreshClamped :: "int64 \<Rightarrow> superblock \<Rightarrow> u32 \<Rightarrow> allocPathNode \<Rightarrow> unit aio" where
  "refreshClamped partOff sb ag n =
     bindIO (agRead partOff sb ag (pnRel n)) (\<lambda>parent.
     bindIO (liftIO (u16At parent 6)) (\<lambda>pn.
       if pn = 0 then retIO ()
       else refreshKeyAt partOff sb ag parent (pnRel n) (if unat pn \<le> pnChild n then unat pn - 1 else pnChild n)))"

definition refreshKeysAlongPath :: "int64 \<Rightarrow> superblock \<Rightarrow> u32 \<Rightarrow> allocPathNode list \<Rightarrow> unit aio" where
  "refreshKeysAlongPath partOff sb ag path = forIO (tl path) (refreshClamped partOff sb ag)"

text \<open>The root is dropped while it is an inner block with one child.\<close>

fun collapseRoot :: "nat \<Rightarrow> int64 \<Rightarrow> superblock \<Rightarrow> u32 \<Rightarrow> u32 \<Rightarrow> u32 \<Rightarrow> (u32 \<times> u32 \<times> u32 list) aio" where
  "collapseRoot 0 partOff sb ag rootRel level = failIO OutOfFuel"
| "collapseRoot (Suc fuel) partOff sb ag rootRel level =
     (let hdrSize = agBTreeHdrSize sb in
      bindIO (agRead partOff sb ag rootRel) (\<lambda>rootBlk.
      bindIO (liftIO (u16At rootBlk 4)) (\<lambda>lvl.
      bindIO (liftIO (u16At rootBlk 6)) (\<lambda>num.
      if lvl = 0 \<or> num \<noteq> 1 then retIO (rootRel, level, [])
      else
        bindIO (liftIO (childPtr hdrSize rootBlk 0)) (\<lambda>onlyChild.
        bindIO (agRead partOff sb ag onlyChild) (\<lambda>childBlk.
        bindIO (liftIO (bindR (setU32 8 nullAgBlock childBlk) (setU32 12 nullAgBlock))) (\<lambda>childBlk.
        bindIO (agWrite partOff sb ag onlyChild childBlk) (\<lambda>_.
        bindIO (collapseRoot fuel partOff sb ag onlyChild (level - 1)) (\<lambda>(r, l, freed).
          retIO (r, l, rootRel # freed))))))))))"

text \<open>Merging is off while the queue is drained and when no free run has two blocks.\<close>

definition suppressMerges :: "int64 \<Rightarrow> superblock \<Rightarrow> u32 \<Rightarrow> bool aio" where
  "suppressMerges partOff sb ag = (\<lambda>s.
     if draining s then (Inr True, s)
     else case agfBlock (disk s) partOff sb ag of
       Inl e \<Rightarrow> (if e = Panic then Inl Panic else Inr False, s)
     | Inr agf \<Rightarrow> (bindR (u32At agf agfOffLongest) (\<lambda>l. Inr (l < 2)), s))"

definition allocDeleteRecordCollect ::
  "nat \<Rightarrow> int64 \<Rightarrow> superblock \<Rightarrow> u32 \<Rightarrow> u32 \<Rightarrow> u32 \<Rightarrow> u32 \<Rightarrow> u32 \<Rightarrow> bool \<Rightarrow> u32 list aio" where
  "allocDeleteRecordCollect fuel partOff sb ag rootRel level agStartRel nBlocks bnoSort =
     (let hdrSize = agBTreeHdrSize sb in
      bindIO (suppressMerges partOff sb ag) (\<lambda>suppressMerge.
      bindIO (readIO (\<lambda>s. deletePath fuel (disk s) partOff sb ag rootRel agStartRel nBlocks bnoSort [])) (\<lambda>path.
      let leaf = hd path in
      bindIO (liftIO (u16At (pnBlk leaf) 6)) (\<lambda>nr.
      bindIO (liftIO (recordPos (pnBlk leaf) hdrSize bnoSort agStartRel nBlocks 0 (unat nr))) (\<lambda>pos. case pos of
        None \<Rightarrow> failIO ErrNotFound
      | Some recIdx \<Rightarrow>
        bindIO (liftIO (allocRemoveRecAt (pnBlk leaf) hdrSize recIdx allocRecSize)) (\<lambda>lblk.
        bindIO (fixupFrom partOff sb ag suppressMerge (leaf\<lparr>pnBlk := lblk\<rparr> # tl path)) (\<lambda>freed.
        bindIO (refreshKeysAlongPath partOff sb ag path) (\<lambda>_.
        bindIO (collapseRoot fuel partOff sb ag rootRel level) (\<lambda>(newRootRel, newLevel, roots).
        let freedBlocks = freed @ roots in
        if newRootRel \<noteq> rootRel \<or> newLevel \<noteq> level \<or> freedBlocks \<noteq> [] then
          bindIO (getAGF partOff sb ag) (\<lambda>agf.
          bindIO (liftIO (bindR (setRoot bnoSort newRootRel newLevel agf) (\<lambda>a. allocBumpBtreeBlocks a (- of_nat (length freedBlocks))))) (\<lambda>agf.
          bindIO (putAGF partOff sb ag agf) (\<lambda>_. retIO freedBlocks)))
        else retIO freedBlocks)))))))))"

section \<open>Separator keys after an edit in place\<close>

text \<open>
  The depth-first search of \<^verbatim>\<open>allocCntRefreshLeafKey\<close> for the path to a leaf: the guard is threaded
  through all calls, the answer is the chain of parents with the child index taken in each.
\<close>

fun searchLeaf :: "('g, 'v) safeio \<Rightarrow> dev \<Rightarrow> int64 \<Rightarrow> superblock \<Rightarrow> u32 \<Rightarrow> u32 \<Rightarrow> nat \<Rightarrow> 'g \<Rightarrow> u32 \<Rightarrow> ((u32 \<times> nat) list option \<times> 'g) res"
  and searchKids :: "('g, 'v) safeio \<Rightarrow> dev \<Rightarrow> int64 \<Rightarrow> superblock \<Rightarrow> u32 \<Rightarrow> u32 \<Rightarrow> nat \<Rightarrow> 'g \<Rightarrow> u32 \<Rightarrow> bytes \<Rightarrow> nat \<Rightarrow> nat \<Rightarrow> ((u32 \<times> nat) list option \<times> 'g) res" where
  "searchLeaf sio d partOff sb ag target 0 guard rel = Inl OutOfFuel"
| "searchLeaf sio d partOff sb ag target (Suc fuel) guard rel =
     bindR (GuardNext sio guard) (\<lambda>guard.
     bindR (readAGBlock d partOff sb ag rel) (\<lambda>blk.
     bindR (u16At blk 4) (\<lambda>lvl.
       if lvl = 0 then Inr (None, guard)
       else bindR (u16At blk 6) (\<lambda>nr. searchKids sio d partOff sb ag target fuel guard rel blk 0 (unat nr)))))"
| "searchKids sio d partOff sb ag target 0 guard rel blk i k = Inl OutOfFuel"
| "searchKids sio d partOff sb ag target (Suc fuel) guard rel blk i 0 = Inr (None, guard)"
| "searchKids sio d partOff sb ag target (Suc fuel) guard rel blk i (Suc k) =
     bindR (childPtr (agBTreeHdrSize sb) blk i) (\<lambda>child.
       if child = target then Inr (Some [(rel, i)], guard)
       else bindR (searchLeaf sio d partOff sb ag target fuel guard child) (\<lambda>(sub, guard). case sub of
         Some path \<Rightarrow> Inr (Some ((rel, i) # path), guard)
       | None \<Rightarrow> searchKids sio d partOff sb ag target fuel guard rel blk (i + 1) k))"

definition allocCntRefreshLeafKey ::
  "('g, 'v) safeio \<Rightarrow> nat \<Rightarrow> int64 \<Rightarrow> superblock \<Rightarrow> u32 \<Rightarrow> u32 \<Rightarrow> nat \<Rightarrow> u32 \<Rightarrow> unit aio" where
  "allocCntRefreshLeafKey sio fuel partOff sb ag rootRel level targetLeafRel =
     (if level \<le> 1 then retIO ()
      else bindIO (readIO (\<lambda>s. searchLeaf sio (disk s) partOff sb ag targetLeafRel fuel (NewLoopGuard sio allocBTreeMaxSteps) rootRel)) (\<lambda>(path, _).
        case path of
          None \<Rightarrow> failIO ErrBtree
        | Some steps \<Rightarrow> forIO (rev steps) (\<lambda>(parentRel, ci).
            bindIO (agRead partOff sb ag parentRel) (\<lambda>parent. refreshKeyAt partOff sb ag parent parentRel ci))))"

end
