(* ===== verification/FreeSpace.thy ===== *)
theory FreeSpace
  imports FreeDelete
begin

text \<open>
  Allocating and freeing blocks (alloc.go: \<^verbatim>\<open>allocBlocks\<close>, \<^verbatim>\<open>freeBlocks\<close>; alloc_btree.go: the split
  reserve; alloc_btree_delete.go: the queue of merged-away blocks and its drain). The two
  operations call each other: a free reserves blocks for splits by allocating, releases what is
  left by freeing, and an outermost operation frees the queued blocks at its end. The model ties
  this knot over fuel: \<open>allocOps (Suc k)\<close> runs on \<open>allocOps k\<close>.
\<close>

type_synonym allocFn = "u32 \<Rightarrow> u32 \<Rightarrow> u64 aio"
type_synonym freeFn = "u64 \<Rightarrow> u32 \<Rightarrow> unit aio"

section \<open>Where split blocks come from\<close>

text \<open>\<^verbatim>\<open>allocSplitReserve.alloc\<close>.\<close>

definition reserveAlloc :: "u64 aio" where
  "reserveAlloc = (\<lambda>s. let r = reserve s in
     if resN r \<le> resUsed r then (Inl ErrNoSpace, s)
     else (Inr (runStart r + ucast (resUsed r)), s\<lparr>reserve := r\<lparr>resUsed := resUsed r + 1\<rparr>\<rparr>))"

definition removeNth :: "nat \<Rightarrow> 'a list \<Rightarrow> 'a list" where
  "removeNth i xs = take i xs @ drop (i + 1) xs"

text \<open>The queued block a draining split takes: one of the same group, else the first.\<close>

definition queueIndex :: "u32 \<Rightarrow> (u32 \<times> u32) list \<Rightarrow> nat option" where
  "queueIndex ag q =
     (let i = length (takeWhile (\<lambda>(a, _). a \<noteq> ag) q) in
      if i < length q then Some i else if q \<noteq> [] then Some 0 else None)"

fun runHook :: "allocFn \<Rightarrow> superblock \<Rightarrow> u32 \<Rightarrow> metaHook \<Rightarrow> u64 aio" where
  "runHook af sb ag MetaBlock = af ag 1"
| "runHook af sb ag FromReserve = reserveAlloc"
| "runHook af sb ag (FromQueue prevHook) = (\<lambda>s. case queueIndex ag (mergedQ s) of
     None \<Rightarrow> runHook af sb ag prevHook s
   | Some i \<Rightarrow> (case mergedQ s ! i of (a, rel) \<Rightarrow>
       (Inr (agAbsBlock sb a rel), s\<lparr>mergedQ := removeNth i (mergedQ s)\<rparr>)))"

definition allocMetaAllocBlock :: "allocFn \<Rightarrow> superblock \<Rightarrow> u32 \<Rightarrow> u64 aio" where
  "allocMetaAllocBlock af sb ag = (\<lambda>s. runHook af sb ag (metaHook s) s)"

section \<open>The queue of merged-away blocks\<close>

definition allocFreeMergedBlocks :: "u32 \<Rightarrow> u32 list \<Rightarrow> unit aio" where
  "allocFreeMergedBlocks ag freed = (\<lambda>s. (Inr (), s\<lparr>mergedQ := mergedQ s @ map (\<lambda>fb. (ag, fb)) freed\<rparr>))"

fun drainLoop :: "('g, 'v) safeio \<Rightarrow> superblock \<Rightarrow> freeFn \<Rightarrow> nat \<Rightarrow> 'g \<Rightarrow> unit aio" where
  "drainLoop sio sb ff 0 guard = (\<lambda>s. if mergedQ s = [] then (Inr (), s) else (Inl OutOfFuel, s))"
| "drainLoop sio sb ff (Suc fuel) guard = (\<lambda>s. case mergedQ s of
     [] \<Rightarrow> (Inr (), s)
   | (ag, rel) # rest \<Rightarrow> (case GuardNext sio guard of
       Inl e \<Rightarrow> (Inl e, s)
     | Inr guard' \<Rightarrow> bindIO (ff (agAbsBlock sb ag rel) 1) (\<lambda>_. drainLoop sio sb ff fuel guard') (s\<lparr>mergedQ := rest\<rparr>)))"

definition allocDrainMergedFrees :: "('g, 'v) safeio \<Rightarrow> superblock \<Rightarrow> freeFn \<Rightarrow> nat \<Rightarrow> unit aio" where
  "allocDrainMergedFrees sio sb ff fuel = (\<lambda>s.
     if draining s then (Inr (), s)
     else let prevHook = metaHook s in
       case drainLoop sio sb ff fuel (NewLoopGuard sio allocBTreeMaxSteps) (s\<lparr>draining := True, metaHook := FromQueue prevHook\<rparr>) of
         (r, s') \<Rightarrow> (r, s'\<lparr>metaHook := prevHook, draining := False\<rparr>))"

text \<open>The depth bookkeeping of \<^verbatim>\<open>allocBlocks\<close>, \<^verbatim>\<open>freeBlocks\<close> and \<^verbatim>\<open>allocDeleteRecord\<close>.\<close>

definition withOp :: "unit aio \<Rightarrow> 'a aio \<Rightarrow> 'a aio" where
  "withOp drain body = (\<lambda>s. case body (s\<lparr>opDepth := opDepth s + 1\<rparr>) of
     (r, s') \<Rightarrow> (let s'' = s'\<lparr>opDepth := opDepth s' - 1\<rparr> in case r of
        Inl e \<Rightarrow> (Inl e, s'')
      | Inr x \<Rightarrow> if opDepth s'' = 0 then bindIO drain (\<lambda>_. retIO x) s'' else (Inr x, s'')))"

definition allocDeleteRecord ::
  "('g, 'v) safeio \<Rightarrow> freeFn \<Rightarrow> nat \<Rightarrow> int64 \<Rightarrow> superblock \<Rightarrow> u32 \<Rightarrow> u32 \<Rightarrow> u32 \<Rightarrow> u32 \<Rightarrow> u32 \<Rightarrow> bool \<Rightarrow> unit aio" where
  "allocDeleteRecord sio ff fuel partOff sb ag rootRel level agStartRel nBlocks bnoSort =
     withOp (allocDrainMergedFrees sio sb ff fuel)
       (bindIO (allocDeleteRecordCollect fuel partOff sb ag rootRel level agStartRel nBlocks bnoSort) (allocFreeMergedBlocks ag))"

definition bnoDeleteRecord ::
  "('g, 'v) safeio \<Rightarrow> freeFn \<Rightarrow> nat \<Rightarrow> int64 \<Rightarrow> superblock \<Rightarrow> u32 \<Rightarrow> u32 \<Rightarrow> u32 \<Rightarrow> u32 \<Rightarrow> unit aio" where
  "bnoDeleteRecord sio ff fuel partOff sb ag rootRel level agStartRel =
     allocDeleteRecord sio ff fuel partOff sb ag rootRel level agStartRel 0 True"

section \<open>Allocation\<close>

text \<open>The last part of both operations: the free count and the longest run in the AGF.\<close>

definition updateCounts ::
  "('g, 'v) safeio \<Rightarrow> nat \<Rightarrow> int64 \<Rightarrow> superblock \<Rightarrow> u32 \<Rightarrow> bytes \<Rightarrow> u32 \<Rightarrow> u32 \<Rightarrow> u32 \<Rightarrow> unit aio" where
  "updateCounts sio fuel partOff sb ag agf delta cntRoot cntLevel =
     bindIO (liftIO (bindR (u32At agf agfOffFreeBlks) (\<lambda>f. setU32 agfOffFreeBlks (f + delta) agf))) (\<lambda>agf.
     bindIO (readIO (\<lambda>s. agfRecomputeLongest sio fuel (disk s) partOff sb ag cntRoot (unat cntLevel))) (\<lambda>longest.
     bindIO (liftIO (setU32 agfOffLongest longest agf)) (putAGF partOff sb ag)))"

text \<open>A run that is used up goes from both trees; what the merges emptied is queued.\<close>

definition consumeWhole ::
  "nat \<Rightarrow> int64 \<Rightarrow> superblock \<Rightarrow> u32 \<Rightarrow> u32 \<Rightarrow> u32 \<Rightarrow> u32 \<Rightarrow> u32 \<Rightarrow> bytes aio" where
  "consumeWhole fuel partOff sb ag cntRoot cntLevel start cnt =
     bindIO (allocDeleteRecordCollect fuel partOff sb ag cntRoot cntLevel start cnt False) (\<lambda>cntFreed.
     bindIO (getAGF partOff sb ag) (\<lambda>agf.
     bindIO (liftIO (u32At agf agfOffBnoRoot)) (\<lambda>bnoRoot.
     bindIO (liftIO (u32At agf agfOffBnoLevel)) (\<lambda>bnoLevel.
     bindIO (allocDeleteRecordCollect fuel partOff sb ag bnoRoot bnoLevel start 0 True) (\<lambda>bnoFreed.
     bindIO (allocFreeMergedBlocks ag (cntFreed @ bnoFreed)) (\<lambda>_. getAGF partOff sb ag))))))"

text \<open>A run that is used in part keeps its record: its start moves, its count shrinks.\<close>

definition consumePart ::
  "('g, 'v) safeio \<Rightarrow> nat \<Rightarrow> int64 \<Rightarrow> superblock \<Rightarrow> u32 \<Rightarrow> u32 \<Rightarrow> u32 \<Rightarrow> u32 \<Rightarrow> u32 \<Rightarrow> bytes \<Rightarrow> nat \<Rightarrow> u32 \<Rightarrow> u32 \<Rightarrow> u32 \<Rightarrow> unit aio" where
  "consumePart sio fuel partOff sb ag cntRoot cntLevel bnoRoot cntLeafRel cntLeaf recIdx start newStart remaining =
     (let hdrSize = agBTreeHdrSize sb; recOff = hdrSize + recIdx * allocRecSize in
      bindIO (liftIO (bindR (setU32 recOff newStart cntLeaf) (\<lambda>l. bindR (setU32 (recOff + 4) remaining l) (\<lambda>l.
        allocCntBubbleLeft l hdrSize recIdx)))) (\<lambda>leaf.
      bindIO (agWrite partOff sb ag cntLeafRel leaf) (\<lambda>_.
      bindIO (allocCntRefreshLeafKey sio fuel partOff sb ag cntRoot (unat cntLevel) cntLeafRel) (\<lambda>_.
        bnoUpdateRecord fuel partOff sb ag bnoRoot start newStart remaining))))"

definition allocBlocksCore ::
  "('g, 'v) safeio \<Rightarrow> nat \<Rightarrow> int64 \<Rightarrow> superblock \<Rightarrow> u32 \<Rightarrow> u32 \<Rightarrow> u64 aio" where
  "allocBlocksCore sio fuel partOff sb ag nBlocks =
     bindIO (getAGF partOff sb ag) (\<lambda>agf.
     bindIO (liftIO (u32At agf agfOffCntRoot)) (\<lambda>cntRoot.
     bindIO (liftIO (u32At agf agfOffCntLevel)) (\<lambda>cntLevel.
     bindIO (liftIO (u32At agf agfOffBnoRoot)) (\<lambda>bnoRoot.
     bindIO (readIO (\<lambda>s. cntFindBlock sio fuel (disk s) partOff sb ag cntRoot nBlocks)) (\<lambda>(cntLeafRel, cntLeaf, recIdx).
     let recOff = agBTreeHdrSize sb + recIdx * allocRecSize in
     bindIO (liftIO (u32At cntLeaf recOff)) (\<lambda>startRel.
     bindIO (liftIO (u32At cntLeaf (recOff + 4))) (\<lambda>cnt.
     if cnt < nBlocks then failIO ErrNoSpace
     else let remaining = cnt - nBlocks in
       bindIO (if remaining = 0
         then bindIO (consumeWhole fuel partOff sb ag cntRoot cntLevel startRel cnt) (\<lambda>agf.
              bindIO (liftIO (u32At agf agfOffCntRoot)) (\<lambda>cntRoot.
              bindIO (liftIO (u32At agf agfOffCntLevel)) (\<lambda>cntLevel. retIO (agf, cntRoot, cntLevel))))
         else bindIO (consumePart sio fuel partOff sb ag cntRoot cntLevel bnoRoot cntLeafRel cntLeaf recIdx startRel (startRel + nBlocks) remaining)
              (\<lambda>_. retIO (agf, cntRoot, cntLevel))) (\<lambda>(agf, cntRoot, cntLevel).
       bindIO (updateCounts sio fuel partOff sb ag agf (- nBlocks) cntRoot cntLevel) (\<lambda>_.
         retIO (agAbsBlock sb ag startRel))))))))))"

section \<open>Freeing\<close>

definition allocReserveSplitBlocks :: "allocFn \<Rightarrow> u32 \<Rightarrow> nat \<Rightarrow> allocSplitReserve aio" where
  "allocReserveSplitBlocks af ag n =
     (if n = 0 then retIO \<lparr>runStart = 0, resN = 0, resUsed = 0\<rparr>
      else bindIO (af ag (of_nat n)) (\<lambda>b. retIO \<lparr>runStart = b, resN = of_nat n, resUsed = 0\<rparr>))"

definition reserveRelease :: "freeFn \<Rightarrow> unit aio" where
  "reserveRelease ff = (\<lambda>s. let r = reserve s; leftover = resN r - resUsed r in
     if leftover = 0 then (Inr (), s) else ff (runStart r + ucast (resUsed r)) leftover s)"

definition fatal :: "error \<Rightarrow> bool" where
  "fatal e \<longleftrightarrow> e = Panic \<or> e = OutOfFuel"

definition allocInsertWithReserve :: "allocFn \<Rightarrow> freeFn \<Rightarrow> u32 \<Rightarrow> u32 \<Rightarrow> unit aio \<Rightarrow> unit aio" where
  "allocInsertWithReserve af ff ag level insertFn = (\<lambda>s.
     if reserveDepth s > 0 \<or> draining s then insertFn s
     else case allocReserveSplitBlocks af ag (unat level + 1) s of
       (Inl e, s1) \<Rightarrow> if fatal e then (Inl e, s1) else insertFn s1
     | (Inr r, s1) \<Rightarrow>
         let prevHook = metaHook s1 in
         (case insertFn (s1\<lparr>metaHook := FromReserve, reserve := r, reserveDepth := reserveDepth s1 + 1\<rparr>) of (res, s2) \<Rightarrow>
         (case reserveRelease ff (s2\<lparr>metaHook := prevHook\<rparr>) of (cres, s3) \<Rightarrow>
           (case res of Inl e \<Rightarrow> Inl e | Inr _ \<Rightarrow> cres, s3\<lparr>reserveDepth := reserveDepth s3 - 1\<rparr>))))"

definition freeBlocksCore ::
  "('g, 'v) safeio \<Rightarrow> allocFn \<Rightarrow> freeFn \<Rightarrow> nat \<Rightarrow> int64 \<Rightarrow> superblock \<Rightarrow> u64 \<Rightarrow> u32 \<Rightarrow> unit aio" where
  "freeBlocksCore sio af ff fuel partOff sb absStartBlock nBlocks =
     (let ag = fst (fsbToAgAgbno sb absStartBlock); agStartRel = snd (fsbToAgAgbno sb absStartBlock);
          metaAlloc = allocMetaAllocBlock af sb ag in
      bindIO (getAGF partOff sb ag) (\<lambda>agf.
      bindIO (liftIO (u32At agf agfOffBnoRoot)) (\<lambda>bnoRoot.
      bindIO (liftIO (u32At agf agfOffBnoLevel)) (\<lambda>bnoLevel.
      bindIO (allocInsertWithReserve af ff ag bnoLevel
        (bnoInsertRecord metaAlloc fuel partOff sb ag bnoRoot bnoLevel agStartRel nBlocks)) (\<lambda>_.
      bindIO (getAGF partOff sb ag) (\<lambda>agf.
      bindIO (liftIO (u32At agf agfOffCntRoot)) (\<lambda>cntRoot.
      bindIO (liftIO (u32At agf agfOffCntLevel)) (\<lambda>cntLevel.
      bindIO (allocInsertWithReserve af ff ag cntLevel
        (cntInsertRecord metaAlloc fuel partOff sb ag cntRoot cntLevel agStartRel nBlocks)) (\<lambda>_.
      bindIO (getAGF partOff sb ag) (\<lambda>agf.
      bindIO (liftIO (u32At agf agfOffCntRoot)) (\<lambda>cntRoot.
      bindIO (liftIO (u32At agf agfOffCntLevel)) (\<lambda>cntLevel.
        updateCounts sio fuel partOff sb ag agf nBlocks cntRoot cntLevel))))))))))))"

section \<open>The two operations\<close>

primrec allocOps :: "nat \<Rightarrow> ('g, 'v) safeio \<Rightarrow> int64 \<Rightarrow> superblock \<Rightarrow> allocFn \<times> freeFn" where
  "allocOps 0 sio partOff sb = ((\<lambda>ag n. failIO OutOfFuel), (\<lambda>b n. failIO OutOfFuel))"
| "allocOps (Suc k) sio partOff sb =
     (let af = fst (allocOps k sio partOff sb); ff = snd (allocOps k sio partOff sb);
          drain = allocDrainMergedFrees sio sb ff k
      in ((\<lambda>ag n. withOp drain (allocBlocksCore sio k partOff sb ag n)),
          (\<lambda>b n. withOp drain (freeBlocksCore sio af ff k partOff sb b n))))"

definition allocBlocks :: "('g, 'v) safeio \<Rightarrow> nat \<Rightarrow> int64 \<Rightarrow> superblock \<Rightarrow> u32 \<Rightarrow> u32 \<Rightarrow> u64 aio" where
  "allocBlocks sio fuel partOff sb ag nBlocks = fst (allocOps fuel sio partOff sb) ag nBlocks"

definition freeBlocks :: "('g, 'v) safeio \<Rightarrow> nat \<Rightarrow> int64 \<Rightarrow> superblock \<Rightarrow> u64 \<Rightarrow> u32 \<Rightarrow> unit aio" where
  "freeBlocks sio fuel partOff sb absStartBlock nBlocks = snd (allocOps fuel sio partOff sb) absStartBlock nBlocks"

text \<open>The state of the package when the program starts.\<close>

definition freshAlloc :: "dev \<Rightarrow> alloc" where
  "freshAlloc d = \<lparr>disk = d, opDepth = 0, draining = False, mergedQ = [], reserveDepth = 0,
     reserve = \<lparr>runStart = 0, resN = 0, resUsed = 0\<rparr>, metaHook = MetaBlock\<rparr>"

end
