(* ===== verification/InodeAlloc.thy ===== *)
theory InodeAlloc
  imports FreeSpace
begin

text \<open>
  Inode allocation (alloc.go): the inode B-tree of a group holds one record per chunk of 64
  inodes, with the number of free inodes and a bit mask of them. \<^verbatim>\<open>allocInode\<close> takes the lowest free
  bit of the first record that has one, \<^verbatim>\<open>freeInode\<close> sets it again, \<^verbatim>\<open>growInobt\<close> adds a chunk when all
  are full, which may split blocks of the tree up to its root.

  The block allocator is the argument \<open>af\<close>, \<open>ff\<close> the function that frees blocks, \<open>now\<close> the clock
  read for each inode that is initialised. Tree walks without a loop guard carry fuel.
\<close>

definition inobtChunkInodes :: u32 where
  "inobtChunkInodes = 64"

section \<open>Searching\<close>

text \<open>The first record of a leaf with a free inode, and the one that covers an inode.\<close>

fun freeRecPos :: "bytes \<Rightarrow> nat \<Rightarrow> nat \<Rightarrow> nat \<Rightarrow> nat option res" where
  "freeRecPos blk hdr i 0 = Inr None"
| "freeRecPos blk hdr i (Suc k) =
     bindR (u32At blk (hdr + i * inobtRecSize + 4)) (\<lambda>fc.
       if 0 < fc then Inr (Some i) else freeRecPos blk hdr (i + 1) k)"

fun coverRecPos :: "bytes \<Rightarrow> nat \<Rightarrow> u32 \<Rightarrow> nat \<Rightarrow> nat \<Rightarrow> nat option res" where
  "coverRecPos blk hdr agRelIno i 0 = Inr None"
| "coverRecPos blk hdr agRelIno i (Suc k) =
     bindR (u32At blk (hdr + i * inobtRecSize)) (\<lambda>startIno.
       if startIno \<le> agRelIno \<and> agRelIno < startIno + 64 then Inr (Some i) else coverRecPos blk hdr agRelIno (i + 1) k)"

fun inobtFindFree :: "nat \<Rightarrow> dev \<Rightarrow> int64 \<Rightarrow> superblock \<Rightarrow> u32 \<Rightarrow> u32 \<Rightarrow> (u32 \<times> bytes \<times> nat) res" where
  "inobtFindFree 0 d partOff sb ag agRel = Inl OutOfFuel"
| "inobtFindFree (Suc fuel) d partOff sb ag agRel =
     (let hdrSize = agBTreeHdrSize sb in
      bindR (readAGBlock d partOff sb ag agRel) (\<lambda>blk.
      bindR (u16At blk 4) (\<lambda>lvl. bindR (u16At blk 6) (\<lambda>nr.
      if lvl = 0 then
        bindR (freeRecPos blk hdrSize 0 (unat nr)) (\<lambda>pos. case pos of
          Some i \<Rightarrow> Inr (agRel, blk, i)
        | None \<Rightarrow> bindR (u32At blk 12) (\<lambda>rsib.
            if rsib = nullAgBlock then Inl ErrInobtFull else inobtFindFree fuel d partOff sb ag rsib))
      else bindR (u32At blk (hdrSize + inobtMaxInternal (length blk) hdrSize * inobtKeySize)) (inobtFindFree fuel d partOff sb ag)))))"

text \<open>The last child whose key is not above the inode; the first child if there is none.\<close>

fun inoChild :: "bytes \<Rightarrow> nat \<Rightarrow> u32 \<Rightarrow> nat \<Rightarrow> nat \<Rightarrow> nat \<Rightarrow> nat res" where
  "inoChild blk hdr ino child i 0 = Inr child"
| "inoChild blk hdr ino child i (Suc k) =
     bindR (u32At blk (hdr + i * inobtKeySize)) (\<lambda>key. if key \<le> ino then inoChild blk hdr ino i (i + 1) k else Inr child)"

fun inobtFindRecord :: "nat \<Rightarrow> dev \<Rightarrow> int64 \<Rightarrow> superblock \<Rightarrow> u32 \<Rightarrow> u32 \<Rightarrow> u32 \<Rightarrow> (u32 \<times> bytes \<times> nat) res" where
  "inobtFindRecord 0 d partOff sb ag agRel agRelIno = Inl OutOfFuel"
| "inobtFindRecord (Suc fuel) d partOff sb ag agRel agRelIno =
     (let hdrSize = agBTreeHdrSize sb in
      bindR (readAGBlock d partOff sb ag agRel) (\<lambda>blk.
      bindR (u16At blk 4) (\<lambda>lvl. bindR (u16At blk 6) (\<lambda>nr.
      if lvl = 0 then
        bindR (coverRecPos blk hdrSize agRelIno 0 (unat nr)) (\<lambda>pos. case pos of
          Some i \<Rightarrow> Inr (agRel, blk, i)
        | None \<Rightarrow> Inl ErrNotFound)
      else bindR (inoChild blk hdrSize agRelIno 0 0 (unat nr)) (\<lambda>child.
        bindR (u32At blk (hdrSize + inobtMaxInternal (length blk) hdrSize * inobtKeySize + child * inobtPtrSize))
          (\<lambda>rel. inobtFindRecord fuel d partOff sb ag rel agRelIno))))))"

section \<open>Inserting the record of a chunk\<close>

datatype inobtSplit = InoWhole | InoSplit u32 u32

text \<open>The slot of a new record: the first larger start, the end, or a duplicate.\<close>

fun chunkPos :: "bytes \<Rightarrow> nat \<Rightarrow> u32 \<Rightarrow> nat \<Rightarrow> nat \<Rightarrow> nat res" where
  "chunkPos blk hdr startIno i 0 = Inr i"
| "chunkPos blk hdr startIno i (Suc k) =
     bindR (u32At blk (hdr + i * inobtRecSize)) (\<lambda>existingStart.
       if startIno < existingStart then Inr i
       else if startIno = existingStart then Inl ErrExists
       else chunkPos blk hdr startIno (i + 1) k)"

definition inobtSplitLeaf :: "u64 aio \<Rightarrow> int64 \<Rightarrow> superblock \<Rightarrow> u32 \<Rightarrow> u32 \<Rightarrow> bytes \<Rightarrow> nat \<Rightarrow> bytes \<Rightarrow> inobtSplit aio" where
  "inobtSplitLeaf af1 partOff sb ag selfRel leaf insertAt rec =
     (let hdrSize = agBTreeHdrSize sb in
      bindIO (liftIO (splitSlots hdrSize inobtRecSize leaf insertAt rec)) (\<lambda>recs.
      let total = length recs; half = total div 2 in
      bindIO af1 (\<lambda>rightAbs.
      let rightRel = snd (fsbToAgAgbno sb rightAbs) in
      bindIO (liftIO (u32At leaf 12)) (\<lambda>oldRight.
      bindIO (liftIO (leftHalf hdrSize inobtRecSize rightRel leaf recs)) (\<lambda>left.
      bindIO (agWrite partOff sb ag selfRel left) (\<lambda>_.
      bindIO (liftIO (rightHalf hdrSize inobtRecSize selfRel oldRight (newInobtBlock sb ag rightRel 0 (total - half)) recs)) (\<lambda>right.
      bindIO (agWrite partOff sb ag rightRel right) (\<lambda>_.
      bindIO (fixSibling partOff sb ag oldRight rightRel) (\<lambda>_.
        retIO (InoSplit (be32 (recs ! half) 0) rightRel))))))))))"

definition inobtSplitNode :: "u64 aio \<Rightarrow> int64 \<Rightarrow> superblock \<Rightarrow> u32 \<Rightarrow> u32 \<Rightarrow> bytes \<Rightarrow> nat \<Rightarrow> u32 \<Rightarrow> u32 \<Rightarrow> inobtSplit aio" where
  "inobtSplitNode af1 partOff sb ag selfRel node insertAt newKey newPtr =
     (let hdrSize = agBTreeHdrSize sb; ptrBase = hdrSize + inobtMaxInternal (length node) hdrSize * inobtKeySize in
      bindIO (liftIO (u16At node 6)) (\<lambda>nr.
      bindIO (liftIO (loadSlots hdrSize inobtKeySize (unat nr) node)) (\<lambda>ks.
      bindIO (liftIO (loadSlots ptrBase inobtPtrSize (unat nr) node)) (\<lambda>ps.
      let keys = take insertAt ks @ be_bytes 4 newKey # drop insertAt ks;
          ptrs = take insertAt ps @ be_bytes 4 newPtr # drop insertAt ps;
          total = length keys; half = total div 2 in
      bindIO af1 (\<lambda>rightAbs.
      let rightRel = snd (fsbToAgAgbno sb rightAbs) in
      bindIO (liftIO (u32At node 12)) (\<lambda>oldRight.
      bindIO (liftIO (bindR (leftHalf hdrSize inobtKeySize rightRel node keys) (\<lambda>l. leftHalf ptrBase inobtPtrSize rightRel l ptrs))) (\<lambda>left.
      bindIO (agWrite partOff sb ag selfRel left) (\<lambda>_.
      bindIO (liftIO (u16At node 4)) (\<lambda>lvl.
      bindIO (liftIO (bindR (rightHalf hdrSize inobtKeySize selfRel oldRight (newInobtBlock sb ag rightRel (unat lvl) (total - half)) keys)
                (\<lambda>r. rightHalf ptrBase inobtPtrSize selfRel oldRight r ptrs))) (\<lambda>right.
      bindIO (agWrite partOff sb ag rightRel right) (\<lambda>_.
      bindIO (fixSibling partOff sb ag oldRight rightRel) (\<lambda>_.
        retIO (InoSplit (be32 (keys ! half) 0) rightRel)))))))))))))"

fun inobtInsertInto :: "u64 aio \<Rightarrow> nat \<Rightarrow> int64 \<Rightarrow> superblock \<Rightarrow> u32 \<Rightarrow> u32 \<Rightarrow> u32 \<Rightarrow> bytes \<Rightarrow> inobtSplit aio" where
  "inobtInsertInto af1 0 partOff sb ag selfRel startIno rec = failIO OutOfFuel"
| "inobtInsertInto af1 (Suc fuel) partOff sb ag selfRel startIno rec =
     (let hdrSize = agBTreeHdrSize sb in
      bindIO (agRead partOff sb ag selfRel) (\<lambda>blk.
      bindIO (liftIO (u16At blk 4)) (\<lambda>lvl.
      bindIO (liftIO (u16At blk 6)) (\<lambda>nr.
      let numrecs = unat nr in
      if lvl = 0 then
        bindIO (liftIO (chunkPos blk hdrSize startIno 0 numrecs)) (\<lambda>insertAt.
        if numrecs < (length blk - hdrSize) div inobtRecSize then
          bindIO (liftIO (insertRecord hdrSize inobtRecSize numrecs insertAt rec blk)) (\<lambda>b.
          bindIO (agWrite partOff sb ag selfRel b) (\<lambda>_. retIO InoWhole))
        else inobtSplitLeaf af1 partOff sb ag selfRel blk insertAt rec)
      else
        bindIO (liftIO (inoChild blk hdrSize startIno 0 0 numrecs)) (\<lambda>child.
        let maxInternal = inobtMaxInternal (length blk) hdrSize; ptrBase = hdrSize + maxInternal * inobtKeySize in
        bindIO (liftIO (u32At blk (ptrBase + child * inobtPtrSize))) (\<lambda>childRel.
        bindIO (inobtInsertInto af1 fuel partOff sb ag childRel startIno rec) (\<lambda>res. case res of
          InoWhole \<Rightarrow> retIO InoWhole
        | InoSplit rightKey rightRel \<Rightarrow>
            if numrecs < maxInternal then
              bindIO (liftIO (insertKeyPtr hdrSize ptrBase inobtKeySize numrecs (child + 1) (be_bytes 4 rightKey) rightRel blk)) (\<lambda>b.
              bindIO (agWrite partOff sb ag selfRel b) (\<lambda>_. retIO InoWhole))
            else inobtSplitNode af1 partOff sb ag selfRel blk (child + 1) rightKey rightRel)))))))"

definition chunkRecord :: "u32 \<Rightarrow> bytes" where
  "chunkRecord startIno = be_bytes 4 startIno @ be_bytes 4 inobtChunkInodes @ be_bytes 8 (0xFFFFFFFFFFFFFFFF :: u64)"

definition inobtRootBlock :: "superblock \<Rightarrow> u32 \<Rightarrow> u32 \<Rightarrow> bytes \<Rightarrow> u32 \<Rightarrow> u32 \<Rightarrow> u32 \<Rightarrow> bytes res" where
  "inobtRootBlock sb ag newRootRel oldRoot rootRel rightKey rightRel =
     (let hdrSize = agBTreeHdrSize sb in
      bindR (u16At oldRoot 4) (\<lambda>lvl. bindR (u32At oldRoot hdrSize) (\<lambda>leftKey.
      let root = newInobtBlock sb ag newRootRel (unat lvl + 1) 2;
          ptrBase = hdrSize + inobtMaxInternal (length root) hdrSize * inobtKeySize in
      bindR (storeSlots hdrSize inobtKeySize [be_bytes 4 leftKey, be_bytes 4 rightKey] root)
        (storeSlots ptrBase inobtPtrSize [be_bytes 4 rootRel, be_bytes 4 rightRel]))))"

text \<open>The result is the AGI buffer, with the new root in it when the root was split.\<close>

definition inobtInsertChunkRecord :: "u64 aio \<Rightarrow> nat \<Rightarrow> int64 \<Rightarrow> superblock \<Rightarrow> u32 \<Rightarrow> bytes \<Rightarrow> u32 \<Rightarrow> u32 \<Rightarrow> u32 \<Rightarrow> bytes aio" where
  "inobtInsertChunkRecord af1 fuel partOff sb ag agi rootRel rootLevel startIno =
     bindIO (inobtInsertInto af1 fuel partOff sb ag rootRel startIno (chunkRecord startIno)) (\<lambda>res. case res of
       InoWhole \<Rightarrow> retIO agi
     | InoSplit rightKey rightRel \<Rightarrow>
         bindIO af1 (\<lambda>newRootAbs.
         let newRootRel = snd (fsbToAgAgbno sb newRootAbs) in
         bindIO (agRead partOff sb ag rootRel) (\<lambda>oldRoot.
         bindIO (liftIO (inobtRootBlock sb ag newRootRel oldRoot rootRel rightKey rightRel)) (\<lambda>root.
         bindIO (agWrite partOff sb ag newRootRel root) (\<lambda>_.
           liftIO (bindR (setU32 agiOffRoot newRootRel agi) (setU32 agiOffLevel (rootLevel + 1))))))))"

section \<open>Growing the tree\<close>

definition getAGI :: "int64 \<Rightarrow> superblock \<Rightarrow> u32 \<Rightarrow> bytes aio" where
  "getAGI partOff sb ag = readIO (\<lambda>s. agiBlock (disk s) partOff sb ag)"

definition putAGI :: "int64 \<Rightarrow> superblock \<Rightarrow> u32 \<Rightarrow> bytes \<Rightarrow> unit aio" where
  "putAGI partOff sb ag buf = onDisk (writeAGI partOff sb ag buf)"

text \<open>
  The blocks of a new chunk, on a chunk boundary of the group: a first run of the right size is
  taken if it happens to lie right, otherwise it is given back and a longer run is cut to fit.
\<close>

definition alignedRun :: "allocFn \<Rightarrow> freeFn \<Rightarrow> superblock \<Rightarrow> u32 \<Rightarrow> u32 \<Rightarrow> (u64 \<times> u32) aio" where
  "alignedRun af ff sb ag perChunk =
     bindIO (af ag perChunk) (\<lambda>probeStart.
     let probeBase = snd (fsbToAgAgbno sb probeStart) in
     if probeBase mod perChunk = 0 then retIO (probeStart, probeBase)
     else
       bindIO (ff probeStart perChunk) (\<lambda>_.
       let wantBlocks = 2 * perChunk - 1 in
       bindIO (af ag wantBlocks) (\<lambda>rawStart.
       let rawBase = snd (fsbToAgAgbno sb rawStart);
           alignedBase = (rawBase + perChunk - 1) div perChunk * perChunk;
           headSlack = alignedBase - rawBase;
           absStart = rawStart + ucast headSlack;
           tailSlack = wantBlocks - headSlack - perChunk in
       bindIO (if headSlack > 0 then ff rawStart headSlack else retIO ()) (\<lambda>_.
       bindIO (if tailSlack > 0 then ff (absStart + ucast perChunk) tailSlack else retIO ()) (\<lambda>_.
         retIO (absStart, alignedBase))))))"

text \<open>One slot of the chunk: a free inode of version 3, written at its place.\<close>

definition freshInode :: "superblock \<Rightarrow> u64 \<Rightarrow> u32 \<times> u32 \<Rightarrow> bytes" where
  "freshInode sb ino now =
     (let b = put8 5 inodeFmtExtents (initInodeV3 (replicate (unat (inodeSize sb)) 0) ino 0 0 (sbUuid sb) now)
      in if hasCRC sb then updateCRC b 100 (unat (inodeSize sb)) else b)"

definition chunkSlotOff :: "int64 \<Rightarrow> superblock \<Rightarrow> u64 \<Rightarrow> u32 \<Rightarrow> int64" where
  "chunkSlotOff partOff sb absStart slot =
     partOff + (absStart + ucast (slot div ucast (inopBlock sb))) * ucast (blockSize sb)
       + ucast (slot mod ucast (inopBlock sb)) * ucast (inodeSize sb)"

definition initSlot :: "int64 \<Rightarrow> superblock \<Rightarrow> u32 \<Rightarrow> u64 \<Rightarrow> u32 \<Rightarrow> (nat \<Rightarrow> u32 \<times> u32) \<Rightarrow> nat \<Rightarrow> unit aio" where
  "initSlot partOff sb ag absStart startIno now slot =
     onDisk (writeIO (chunkSlotOff partOff sb absStart (of_nat slot))
       (freshInode sb (inoFromAGRel sb ag (startIno + of_nat slot)) (now slot)))"

definition growInobt :: "allocFn \<Rightarrow> freeFn \<Rightarrow> nat \<Rightarrow> (nat \<Rightarrow> u32 \<times> u32) \<Rightarrow> int64 \<Rightarrow> superblock \<Rightarrow> u32 \<Rightarrow> unit aio" where
  "growInobt af ff fuel now partOff sb ag =
     (if inopBlock sb = 0 \<or> 64 < inopBlock sb then failIO ErrGeometry
      else let perChunk = inobtChunkInodes div ucast (inopBlock sb) in
        bindIO (alignedRun af ff sb ag perChunk) (\<lambda>(absStart, agBlockBase).
        let startIno = agBlockBase * ucast (inopBlock sb) in
        bindIO (forIO [0..<64] (initSlot partOff sb ag absStart startIno now)) (\<lambda>_.
        bindIO (getAGI partOff sb ag) (\<lambda>agi.
        bindIO (liftIO (u32At agi agiOffRoot)) (\<lambda>inobtRoot.
        bindIO (liftIO (u32At agi agiOffLevel)) (\<lambda>inobtLevel.
        bindIO (inobtInsertChunkRecord (af ag 1) fuel partOff sb ag agi inobtRoot inobtLevel startIno) (\<lambda>agi.
        bindIO (liftIO (bindR (u32At agi agiOffCount) (\<lambda>cnt. bindR (u32At agi agiOffFreeCount) (\<lambda>free.
          bindR (setU32 agiOffCount (cnt + inobtChunkInodes) agi) (setU32 agiOffFreeCount (free + inobtChunkInodes))))))
          (putAGI partOff sb ag))))))))"

section \<open>Taking and freeing an inode\<close>

function bits64 :: "u64 \<Rightarrow> nat" where
  "bits64 v = (if v = 0 then 0 else unat (v AND 1) + bits64 (drop_bit 1 v))"
  by auto
termination
proof (relation "measure unat")
  fix v :: u64 assume "v \<noteq> 0"
  then show "(drop_bit 1 v, v) \<in> measure unat"
    by (simp add: unat_drop_bit word_neq_0_conv word_less_nat_alt)
qed simp

fun lowBit :: "u64 \<Rightarrow> nat \<Rightarrow> nat \<Rightarrow> nat" where
  "lowBit v i 0 = i"
| "lowBit v i (Suc k) = (if drop_bit i v AND 1 = 1 then i else lowBit v (i + 1) k)"

text \<open>The record of the leaf without its lowest free bit, and the inode that bit stands for.\<close>

definition takeBit :: "nat \<Rightarrow> bytes \<Rightarrow> (bytes \<times> u32) res" where
  "takeBit recOff leaf =
     bindR (u32At leaf recOff) (\<lambda>startIno.
     bindR (u64At leaf (recOff + 8)) (\<lambda>irFree.
     if bits64 irFree = 0 then Inl ErrBtree
     else let b = lowBit irFree 0 64 in
       bindR (setU64 (recOff + 8) (irFree AND NOT (push_bit b 1)) leaf) (\<lambda>leaf.
       bindR (u32At leaf (recOff + 4)) (\<lambda>fc.
       bindR (setU32 (recOff + 4) (fc - 1) leaf) (\<lambda>leaf. Inr (leaf, startIno + of_nat b))))))"

definition allocInode :: "allocFn \<Rightarrow> freeFn \<Rightarrow> nat \<Rightarrow> (nat \<Rightarrow> u32 \<times> u32) \<Rightarrow> int64 \<Rightarrow> superblock \<Rightarrow> u32 \<Rightarrow> u64 aio" where
  "allocInode af ff fuel now partOff sb ag =
     (let find = \<lambda>root. readIO (\<lambda>s. inobtFindFree fuel (disk s) partOff sb ag root);
          getRoot = bindIO (getAGI partOff sb ag) (\<lambda>agi. bindIO (liftIO (u32At agi agiOffRoot)) (\<lambda>root. retIO (agi, root))) in
      bindIO getRoot (\<lambda>(agi, root).
      bindIO (\<lambda>s. case find root s of
          (Inl e, s') \<Rightarrow> if e \<noteq> ErrInobtFull then (Inl e, s')
            else bindIO (growInobt af ff fuel now partOff sb ag) (\<lambda>_. bindIO getRoot (\<lambda>(agi, root). bindIO (find root) (\<lambda>r. retIO (agi, r)))) s'
        | (Inr r, s') \<Rightarrow> (Inr (agi, r), s')) (\<lambda>(agi, leafRel, leaf, recIdx).
      bindIO (liftIO (takeBit (agBTreeHdrSize sb + recIdx * inobtRecSize) leaf)) (\<lambda>(leaf, agRelIno).
      bindIO (agWrite partOff sb ag leafRel leaf) (\<lambda>_.
      bindIO (liftIO (bindR (u32At agi agiOffFreeCount) (\<lambda>fc2. bindR (setU32 agiOffFreeCount (fc2 - 1) agi) (setU32 agiOffNewIno agRelIno)))) (\<lambda>agi.
      bindIO (putAGI partOff sb ag agi) (\<lambda>_. retIO (inoFromAGRel sb ag agRelIno))))))))"

definition giveBit :: "nat \<Rightarrow> u32 \<Rightarrow> bytes \<Rightarrow> bytes res" where
  "giveBit recOff agRel leaf =
     bindR (u32At leaf recOff) (\<lambda>startIno.
     bindR (u64At leaf (recOff + 8)) (\<lambda>irFree.
     bindR (setU64 (recOff + 8) (irFree OR push_bit (unat (agRel - startIno)) 1) leaf) (\<lambda>leaf.
     bindR (u32At leaf (recOff + 4)) (\<lambda>fc. setU32 (recOff + 4) (fc + 1) leaf))))"

definition freeInode :: "nat \<Rightarrow> int64 \<Rightarrow> superblock \<Rightarrow> u64 \<Rightarrow> unit aio" where
  "freeInode fuel partOff sb ino =
     (let ag = inoAG sb ino; agRel = inoAGRel sb ino in
      bindIO (getAGI partOff sb ag) (\<lambda>agi.
      bindIO (liftIO (u32At agi agiOffRoot)) (\<lambda>inobtRoot.
      bindIO (readIO (\<lambda>s. inobtFindRecord fuel (disk s) partOff sb ag inobtRoot agRel)) (\<lambda>(leafRel, leaf, recIdx).
      bindIO (liftIO (giveBit (agBTreeHdrSize sb + recIdx * inobtRecSize) agRel leaf)) (\<lambda>leaf.
      bindIO (agWrite partOff sb ag leafRel leaf) (\<lambda>_.
      bindIO (liftIO (bindR (u32At agi agiOffFreeCount) (\<lambda>fc. setU32 agiOffFreeCount (fc + 1) agi))) (putAGI partOff sb ag)))))))"

end
