(* ===== verification/LeafGroup.thy ===== *)
theory LeafGroup
  imports FreeSpace
begin

text \<open>
  Allocation groups whose two free-space trees are a single leaf each, the shape every freshly
  formatted group has: what one operation on the AGF and on the two leaves does to the group, and
  from that what \<^verbatim>\<open>allocBlocks\<close> and \<^verbatim>\<open>freeBlocks\<close> do to the set of free blocks.
\<close>

section \<open>Places on the device\<close>

text \<open>Group \<open>ag\<close> lies below \<open>2 ^ 63\<close>, and so do all offsets computed in it.\<close>

definition group_fits :: "int64 \<Rightarrow> superblock \<Rightarrow> u32 \<Rightarrow> bool" where
  "group_fits partOff sb ag \<longleftrightarrow> validateGeometry sb = Inr () \<and> sector_ok sb \<and> 0 \<le> sint partOff \<and>
     unat partOff + (unat ag + 1) * unat (agBlocks sb) * unat (blockSize sb) + 3 * unat (sectSize sb) < 2 ^ 63"

definition group_base :: "int64 \<Rightarrow> superblock \<Rightarrow> u32 \<Rightarrow> nat" where
  "group_base partOff sb ag = unat partOff + unat ag * unat (agBlocks sb) * unat (blockSize sb)"

lemma group_base_bound:
  assumes "group_fits partOff sb ag"
  shows "group_base partOff sb ag + unat (agBlocks sb) * unat (blockSize sb) + 3 * unat (sectSize sb) < 2 ^ 63"
  using assms by (simp add: group_fits_def group_base_def algebra_simps)

lemma unat_agByteOffset:
  assumes "group_fits partOff sb ag"
  shows "unat (partOff + agByteOffset sb ag) = group_base partOff sb ag"
proof -
  have b: "unat partOff + unat ag * unat (agBlocks sb) * unat (blockSize sb) < 2 ^ 64"
    using group_base_bound [OF assms] by (simp add: group_base_def)
  have m: "unat (ucast ag * ucast (agBlocks sb) :: int64) = unat ag * unat (agBlocks sb)"
    using unat_ag_rel [of ag "agBlocks sb" 0] by simp
  have "unat (agByteOffset sb ag) = unat ag * unat (agBlocks sb) * unat (blockSize sb)"
    unfolding agByteOffset_def using unat_mult_small [of "ucast ag * ucast (agBlocks sb)" "ucast (blockSize sb)"] m b by simp
  then show ?thesis using unat_add_small [of partOff "agByteOffset sb ag"] b by (simp add: group_base_def)
qed

lemma header_offset:
  assumes "group_fits partOff sb ag"
  shows "sint (agFByteOffset sb partOff ag) = int (group_base partOff sb ag + unat (sectSize sb))"
    and "sint (agIByteOffset sb partOff ag) = int (group_base partOff sb ag + 2 * unat (sectSize sb))"
proof -
  note b = group_base_bound [OF assms]
  have "unat (agFByteOffset sb partOff ag) = group_base partOff sb ag + unat (sectSize sb)"
    unfolding agFByteOffset_def using unat_add_small [of "partOff + agByteOffset sb ag" "sectSize sb"] unat_agByteOffset [OF assms] b by simp
  then show "sint (agFByteOffset sb partOff ag) = int (group_base partOff sb ag + unat (sectSize sb))"
    using b by (subst sint_unat) simp_all
  have "unat (2 * sectSize sb) = 2 * unat (sectSize sb)" using unat_mult_small [of 2 "sectSize sb"] b by simp
  then have "unat (agIByteOffset sb partOff ag) = group_base partOff sb ag + 2 * unat (sectSize sb)"
    unfolding agIByteOffset_def using unat_add_small [of "partOff + agByteOffset sb ag" "2 * sectSize sb"] unat_agByteOffset [OF assms] b by simp
  then show "sint (agIByteOffset sb partOff ag) = int (group_base partOff sb ag + 2 * unat (sectSize sb))"
    using b by (subst sint_unat) simp_all
qed

text \<open>A block of the group that is none of its header sectors.\<close>

definition body_block :: "superblock \<Rightarrow> u32 \<Rightarrow> bool" where
  "body_block sb rel \<longleftrightarrow> rel < agBlocks sb \<and> 3 * unat (sectSize sb) \<le> unat rel * unat (blockSize sb)"

lemma block_place:
  assumes "group_fits partOff sb ag" and "rel < agBlocks sb"
  shows "addressable partOff sb (agAbsBlock sb ag rel)"
    and "sint (partOff + fsbToPhysBlock sb (agAbsBlock sb ag rel) * ucast (blockSize sb)) =
      int (group_base partOff sb ag + unat rel * unat (blockSize sb))"
proof -
  have g: "validateGeometry sb = Inr ()" "0 \<le> sint partOff" using assms(1) by (simp_all add: group_fits_def)
  have ph: "unat (fsbToPhysBlock sb (agAbsBlock sb ag rel)) = unat ag * unat (agBlocks sb) + unat rel"
    by (rule agAbsBlock_phys [OF g(1) assms(2)])
  have "unat rel * unat (blockSize sb) \<le> unat (agBlocks sb) * unat (blockSize sb)"
    using assms(2) by (intro mult_le_mono1) (simp add: word_less_nat_alt)
  then have b: "unat partOff + (unat ag * unat (agBlocks sb) + unat rel) * unat (blockSize sb) < 2 ^ 63"
    using group_base_bound [OF assms(1)] unfolding group_base_def add_mult_distrib by linarith
  have bs: "blockSize sb \<noteq> 0" using validated_geometry [OF g(1)] by auto
  show a: "addressable partOff sb (agAbsBlock sb ag rel)"
    using g(2) bs b ph by (simp add: addressable_def)
  have "unat partOff < 2 ^ 63" using b by simp
  then show "sint (partOff + fsbToPhysBlock sb (agAbsBlock sb ag rel) * ucast (blockSize sb)) =
      int (group_base partOff sb ag + unat rel * unat (blockSize sb))"
    unfolding addressable_sint [OF a] ph group_base_def by (simp add: sint_unat algebra_simps)
qed

section \<open>Reading back what was written\<close>

definition stampBlock :: "superblock \<Rightarrow> bytes \<Rightarrow> bytes" where
  "stampBlock sb blk = (if hasCRC sb then updateCRC blk btreeCRCOff (length blk) else blk)"

lemma length_stampBlock [simp]: "length (stampBlock sb blk) = length blk"
  by (simp add: stampBlock_def)

lemma writeAGBTree_stamp: "writeAGBTree partOff sb ag rel blk = writeRawBlock partOff sb (agAbsBlock sb ag rel) (stampBlock sb blk)"
  by (simp add: writeAGBTree_def stampBlock_def)

lemma readAGBlock_length:
  assumes "group_fits partOff sb ag" and "rel < agBlocks sb" and "readAGBlock d partOff sb ag rel = Inr blk"
  shows "length blk = unat (blockSize sb)"
  using assms(3) file_store.rd_length
  unfolding readAGBlock_def readRawBlock_addressable [OF block_place(1) [OF assms(1,2)]] by blast

lemma agWrite_Inr:
  assumes "group_fits partOff sb ag" and "rel < agBlocks sb" and "length blk = unat (blockSize sb)"
  obtains d' where "agWrite partOff sb ag rel blk s = (Inr (), s\<lparr>disk := d'\<rparr>)"
    "readAGBlock d' partOff sb ag rel = Inr (stampBlock sb blk)"
    "\<forall>c old. c < agBlocks sb \<longrightarrow> c \<noteq> rel \<longrightarrow> readAGBlock (disk s) partOff sb ag c = Inr old \<longrightarrow> readAGBlock d' partOff sb ag c = Inr old"
    "\<forall>off n xs. readBytes (disk s) off n = Inr xs \<longrightarrow>
       sint off + int n \<le> int (group_base partOff sb ag + unat rel * unat (blockSize sb)) \<longrightarrow> readBytes d' off n = Inr xs"
proof -
  note pl = block_place [OF assms(1,2)]
  let ?b = "stampBlock sb blk"
  obtain d' where w: "writeRawBlock partOff sb (agAbsBlock sb ag rel) ?b (disk s) = (Inr (), d')"
    using writeRawBlock_Inr [OF pl(1)] by blast
  have "agWrite partOff sb ag rel blk s = (Inr (), s\<lparr>disk := d'\<rparr>)"
    using w by (simp add: agWrite_def onDisk_def writeAGBTree_stamp)
  moreover have "readAGBlock d' partOff sb ag rel = Inr ?b"
    unfolding readAGBlock_def by (rule read_written_block [OF pl(1) _ w]) (simp add: assms(3))
  moreover have "readAGBlock d' partOff sb ag c = Inr old"
    if c: "c < agBlocks sb" "c \<noteq> rel" "readAGBlock (disk s) partOff sb ag c = Inr old" for c old
  proof -
    have g: "validateGeometry sb = Inr ()" using assms(1) by (simp add: group_fits_def)
    have "unat (fsbToPhysBlock sb (agAbsBlock sb ag rel)) \<noteq> unat (fsbToPhysBlock sb (agAbsBlock sb ag c))"
      unfolding agAbsBlock_phys [OF g assms(2)] agAbsBlock_phys [OF g c(1)] using c(2) by (simp add: word_unat_eq_iff)
    then have "fsbToPhysBlock sb (agAbsBlock sb ag rel) \<noteq> fsbToPhysBlock sb (agAbsBlock sb ag c)" by auto
    from read_other_block [OF pl(1) block_place(1) [OF assms(1) c(1)] this _ w] c(3) show ?thesis
      by (simp add: readAGBlock_def assms(3))
  qed
  moreover have "readBytes d' off n = Inr xs"
    if "readBytes (disk s) off n = Inr xs" "sint off + int n \<le> int (group_base partOff sb ag + unat rel * unat (blockSize sb))" for off n xs
    using file_store.rd_wr_frame [OF w [unfolded writeRawBlock_WriteAt], of off n xs] that pl(2) by (simp add: readBytes_def)
  ultimately show ?thesis using that by blast
qed

lemma putAGF_Inr:
  assumes "group_fits partOff sb ag" and "length buf = unat (sectSize sb)" and "be32 buf 0 = magicAGF"
  obtains d' where "putAGF partOff sb ag buf s = (Inr (), s\<lparr>disk := d'\<rparr>)"
    "agfBlock d' partOff sb ag = Inr (stampHeader sb agfOffCRC buf)"
    "\<forall>c old. body_block sb c \<longrightarrow> readAGBlock (disk s) partOff sb ag c = Inr old \<longrightarrow> readAGBlock d' partOff sb ag c = Inr old"
proof -
  note ho = header_offset(1) [OF assms(1)]
  have sec: "sector_ok sb" using assms(1) by (simp add: group_fits_def)
  have "0 \<le> sint (agFByteOffset sb partOff ag)" unfolding ho by simp
  then obtain d' where w: "writeHeader sb agfOffCRC (agFByteOffset sb partOff ag) buf (disk s) = (Inr (), d')"
    "WriteAt (disk s) (agFByteOffset sb partOff ag) (stampHeader sb agfOffCRC buf) = Inr d'"
    by (rule writeHeader_Inr [OF sec assms(2)])
  have "putAGF partOff sb ag buf s = (Inr (), s\<lparr>disk := d'\<rparr>)"
    using w(1) by (simp add: putAGF_def onDisk_def writeAGF_def)
  moreover have "agfBlock d' partOff sb ag = Inr (stampHeader sb agfOffCRC buf)"
    unfolding agfBlock_def by (rule writeHeader_read [OF w(2) assms(2) _ sec assms(3)]) (simp add: agfOffCRC_def)
  moreover have "readAGBlock d' partOff sb ag c = Inr old"
    if c: "body_block sb c" and r: "readAGBlock (disk s) partOff sb ag c = Inr old" for c old
  proof -
    have cl: "c < agBlocks sb" using c by (simp add: body_block_def)
    note pl = block_place [OF assms(1) cl]
    have le: "group_base partOff sb ag + unat (sectSize sb) + length buf \<le> group_base partOff sb ag + unat c * unat (blockSize sb)"
      using c assms(2) by (simp add: body_block_def)
    have "ReadAt d' (partOff + fsbToPhysBlock sb (agAbsBlock sb ag c) * ucast (blockSize sb)) (unat (blockSize sb)) = Inr old"
    proof (rule file_store.rd_wr_frame [OF w(2)])
      show "ReadAt (disk s) (partOff + fsbToPhysBlock sb (agAbsBlock sb ag c) * ucast (blockSize sb)) (unat (blockSize sb)) = Inr old"
        using r by (simp add: readAGBlock_def readRawBlock_addressable [OF pl(1)])
    qed (unfold ho pl(2) length_stampHeader of_nat_add [symmetric] of_nat_le_iff, rule disjI2 [OF le])
    then show ?thesis by (simp add: readAGBlock_def readRawBlock_addressable [OF pl(1)])
  qed
  ultimately show ?thesis using that by blast
qed

section \<open>Groups with single-leaf trees\<close>

definition leaf_ok :: "superblock \<Rightarrow> bytes \<Rightarrow> arec list \<Rightarrow> bool" where
  "leaf_ok sb blk rs \<longleftrightarrow> length blk = unat (blockSize sb) \<and> be16 blk 4 = 0 \<and> be32 blk 12 = nullAgBlock \<and>
     count_of blk = length rs \<and> length rs \<le> allocMaxLeaf (unat (blockSize sb)) (agBTreeHdrSize sb) \<and>
     recsOf blk (agBTreeHdrSize sb) (length rs) = rs"

text \<open>
  The rest of the device: \<open>K\<close> is any condition that writes to the two leaves and to the AGF sector
  do not affect. Operations on the free-space trees keep every such condition.
\<close>

definition tree_write :: "int64 \<Rightarrow> superblock \<Rightarrow> u32 \<Rightarrow> u32 \<Rightarrow> u32 \<Rightarrow> int64 \<Rightarrow> nat \<Rightarrow> bool" where
  "tree_write partOff sb ag bnoRel cntRel off n \<longleftrightarrow>
     (\<exists>rel. (rel = bnoRel \<or> rel = cntRel) \<and> sint off = int (group_base partOff sb ag + unat rel * unat (blockSize sb)) \<and> n = unat (blockSize sb)) \<or>
     off = agFByteOffset sb partOff ag \<and> n = unat (sectSize sb)"

definition unaffected :: "int64 \<Rightarrow> superblock \<Rightarrow> u32 \<Rightarrow> u32 \<Rightarrow> u32 \<Rightarrow> (dev \<Rightarrow> bool) \<Rightarrow> bool" where
  "unaffected partOff sb ag bnoRel cntRel K \<longleftrightarrow>
     (\<forall>d off xs d'. K d \<longrightarrow> WriteAt d off xs = Inr d' \<longrightarrow> tree_write partOff sb ag bnoRel cntRel off (length xs) \<longrightarrow> K d')"

lemma unaffected_True [simp]: "unaffected partOff sb ag bnoRel cntRel (\<lambda>_. True)"
  by (simp add: unaffected_def)

lemma unaffected_conj:
  "unaffected partOff sb ag bnoRel cntRel K \<Longrightarrow> unaffected partOff sb ag bnoRel cntRel L \<Longrightarrow>
    unaffected partOff sb ag bnoRel cntRel (\<lambda>d. K d \<and> L d)"
  unfolding unaffected_def by blast

definition grp :: "(dev \<Rightarrow> bool) \<Rightarrow> int64 \<Rightarrow> superblock \<Rightarrow> u32 \<Rightarrow> u32 \<Rightarrow> u32 \<Rightarrow> dev \<Rightarrow> bytes \<Rightarrow> arec list \<Rightarrow> arec list \<Rightarrow> bool" where
  "grp K partOff sb ag bnoRel cntRel d agf bs cs \<longleftrightarrow> K d \<and> unaffected partOff sb ag bnoRel cntRel K \<and>
     group_fits partOff sb ag \<and> body_block sb bnoRel \<and> body_block sb cntRel \<and> bnoRel \<noteq> cntRel \<and>
     agfBlock d partOff sb ag = Inr agf \<and> be32 agf agfOffBnoRoot = bnoRel \<and> be32 agf agfOffCntRoot = cntRel \<and>
     be32 agf agfOffBnoLevel = 1 \<and> be32 agf agfOffCntLevel = 1 \<and>
     (\<exists>b. readAGBlock d partOff sb ag bnoRel = Inr b \<and> leaf_ok sb b bs) \<and>
     (\<exists>c. readAGBlock d partOff sb ag cntRel = Inr c \<and> leaf_ok sb c cs)"

lemma grp_keeps:
  assumes "grp K partOff sb ag bnoRel cntRel (disk s) agf bs cs"
  shows "rel = bnoRel \<or> rel = cntRel \<Longrightarrow> length blk = unat (blockSize sb) \<Longrightarrow> agWrite partOff sb ag rel blk s = (Inr (), s\<lparr>disk := d'\<rparr>) \<Longrightarrow> K d'"
    "length buf = unat (sectSize sb) \<Longrightarrow> putAGF partOff sb ag buf s = (Inr (), s\<lparr>disk := d'\<rparr>) \<Longrightarrow> K d'"
proof -
  have K: "K (disk s)" and u: "unaffected partOff sb ag bnoRel cntRel K" and f: "group_fits partOff sb ag" "body_block sb bnoRel" "body_block sb cntRel"
    using assms by (simp_all add: grp_def)
  note k = u [unfolded unaffected_def, rule_format, OF K]
  show "K d'" if rel: "rel = bnoRel \<or> rel = cntRel" and len: "length blk = unat (blockSize sb)" and w: "agWrite partOff sb ag rel blk s = (Inr (), s\<lparr>disk := d'\<rparr>)"
  proof -
    have "writeRawBlock partOff sb (agAbsBlock sb ag rel) (stampBlock sb blk) (disk s) = (Inr (), d')"
      using w by (cases s) (auto simp: agWrite_def onDisk_def writeAGBTree_stamp split: prod.splits)
    then have wr: "WriteAt (disk s) (partOff + fsbToPhysBlock sb (agAbsBlock sb ag rel) * ucast (blockSize sb)) (stampBlock sb blk) = Inr d'"
      by (simp add: writeRawBlock_WriteAt)
    have "rel < agBlocks sb" using rel f by (auto simp: body_block_def)
    with rel len have "tree_write partOff sb ag bnoRel cntRel (partOff + fsbToPhysBlock sb (agAbsBlock sb ag rel) * ucast (blockSize sb)) (length (stampBlock sb blk))"
      unfolding tree_write_def by (intro disjI1 exI [of _ rel]) (simp add: block_place(2) [OF f(1)])
    with wr show ?thesis by (rule k)
  qed
  show "K d'" if len: "length buf = unat (sectSize sb)" and w: "putAGF partOff sb ag buf s = (Inr (), s\<lparr>disk := d'\<rparr>)"
  proof -
    have sec: "sector_ok sb" using f(1) by (simp add: group_fits_def)
    have "writeHeader sb agfOffCRC (agFByteOffset sb partOff ag) buf (disk s) = (Inr (), d')"
      using w by (cases s) (auto simp: putAGF_def onDisk_def writeAGF_def split: prod.splits)
    then have "WriteAt (disk s) (agFByteOffset sb partOff ag) (stampHeader sb agfOffCRC buf) = Inr d'"
      using len sectSize_ge [OF sec] by (auto simp: writeHeader_def writeIO_def stampHeader_def split: if_splits sum.splits)
    then show ?thesis by (rule k) (simp add: tree_write_def len)
  qed
qed

lemma hdr_facts:
  assumes "group_fits partOff sb ag"
  shows "16 \<le> agBTreeHdrSize sb" "agBTreeHdrSize sb \<le> 56" "hasCRC sb \<Longrightarrow> agBTreeHdrSize sb = 56" "512 \<le> unat (blockSize sb)"
    "unat (blockSize sb) \<le> 65536" "agBTreeHdrSize sb + allocMaxLeaf (unat (blockSize sb)) (agBTreeHdrSize sb) * 8 \<le> unat (blockSize sb)"
    "allocMaxLeaf (unat (blockSize sb)) (agBTreeHdrSize sb) < 65535"
proof -
  have v: "validateGeometry sb = Inr ()" using assms by (simp add: group_fits_def)
  show h: "16 \<le> agBTreeHdrSize sb" "agBTreeHdrSize sb \<le> 56" "hasCRC sb \<Longrightarrow> agBTreeHdrSize sb = 56"
    by (simp_all add: agBTreeHdrSize_def btreeHdrSize_def)
  show b: "512 \<le> unat (blockSize sb)" "unat (blockSize sb) \<le> 65536"
  proof -
    obtain k where k: "unat (blockSize sb) = 2 ^ k" "9 \<le> k" "k \<le> 16"
      using conjunct1 [OF validated_geometry [OF v]] by auto
    have "(2 :: nat) ^ 9 \<le> 2 ^ k" "(2 :: nat) ^ k \<le> 2 ^ 16" by (rule power_increasing [OF k(2)], simp, rule power_increasing [OF k(3)], simp)
    then show "512 \<le> unat (blockSize sb)" "unat (blockSize sb) \<le> 65536" unfolding k(1) by simp_all
  qed
  have "(unat (blockSize sb) - agBTreeHdrSize sb) div 8 * 8 \<le> unat (blockSize sb) - agBTreeHdrSize sb" by simp
  then show "agBTreeHdrSize sb + allocMaxLeaf (unat (blockSize sb)) (agBTreeHdrSize sb) * 8 \<le> unat (blockSize sb)"
    "allocMaxLeaf (unat (blockSize sb)) (agBTreeHdrSize sb) < 65535"
    using b h(1,2) by (simp_all add: allocMaxLeaf_def allocRecSize_def)
qed

lemma leaf_ok_room:
  assumes "group_fits partOff sb ag" and "leaf_ok sb blk rs"
  shows "agBTreeHdrSize sb + length rs * 8 \<le> length blk" "16 \<le> length blk" "length blk = unat (blockSize sb)" "length rs < 65535"
  using assms(2) hdr_facts [OF assms(1)] by (auto simp: leaf_ok_def)

lemma leaf_ok_stamp:
  assumes "group_fits partOff sb ag" and "leaf_ok sb blk rs"
  shows "leaf_ok sb (stampBlock sb blk) rs"
proof (cases "hasCRC sb")
  case True
  have e: "edits 52 56 blk (stampBlock sb blk)"
    using edits_updateCRC [of 52 blk] True by (simp add: stampBlock_def btreeCRCOff_def)
  have "be16 (stampBlock sb blk) 4 = be16 blk 4" "be32 (stampBlock sb blk) 12 = be32 blk 12" "count_of (stampBlock sb blk) = count_of blk"
    using edits_window [OF e] by (simp_all add: be16_def be32_def count_of_def)
  moreover have "recsOf (stampBlock sb blk) (agBTreeHdrSize sb) n = recsOf blk (agBTreeHdrSize sb) n" for n
    by (rule recsOf_edits [OF e]) (simp add: hdr_facts(3) [OF assms(1) True])
  ultimately show ?thesis using assms(2) by (simp add: leaf_ok_def)
qed (use assms(2) in \<open>simp add: stampBlock_def\<close>)

lemma grp_agf_bytes:
  assumes "grp K partOff sb ag bnoRel cntRel d agf bs cs"
  shows "readBytes d (agFByteOffset sb partOff ag) (unat (sectSize sb)) = Inr agf" "length agf = unat (sectSize sb)"
    "512 \<le> length agf" "be32 agf 0 = magicAGF"
proof -
  have f: "group_fits partOff sb ag" and r: "agfBlock d partOff sb ag = Inr agf" using assms by (simp_all add: grp_def)
  then show "readBytes d (agFByteOffset sb partOff ag) (unat (sectSize sb)) = Inr agf" "be32 agf 0 = magicAGF"
    by (simp_all add: agfBlock_def readHeader_Inr)
  then show "length agf = unat (sectSize sb)" "512 \<le> length agf"
    using readBytes_length f sectSize_ge by (auto simp: group_fits_def)
qed

lemma body_after_agf:
  assumes "group_fits partOff sb ag" and "body_block sb rel"
  shows "sint (agFByteOffset sb partOff ag) + int (unat (sectSize sb)) \<le> int (group_base partOff sb ag + unat rel * unat (blockSize sb))"
proof -
  have "group_base partOff sb ag + unat (sectSize sb) + unat (sectSize sb) \<le> group_base partOff sb ag + unat rel * unat (blockSize sb)"
    using assms(2) by (simp add: body_block_def)
  then show ?thesis unfolding header_offset(1) [OF assms(1)] of_nat_add [symmetric] of_nat_le_iff .
qed

lemma grp_write_bno:
  assumes g: "grp K partOff sb ag bnoRel cntRel (disk s) agf bs cs" and l: "leaf_ok sb blk bs'"
  obtains d' where "agWrite partOff sb ag bnoRel blk s = (Inr (), s\<lparr>disk := d'\<rparr>)" "grp K partOff sb ag bnoRel cntRel d' agf bs' cs"
    "readAGBlock d' partOff sb ag bnoRel = Inr (stampBlock sb blk)"
proof -
  have f: "group_fits partOff sb ag" "body_block sb bnoRel" "body_block sb cntRel" using g by (simp_all add: grp_def)
  have rl: "bnoRel < agBlocks sb" "cntRel < agBlocks sb" "cntRel \<noteq> bnoRel" using g by (auto simp: grp_def body_block_def)
  have len: "length blk = unat (blockSize sb)" using l by (simp add: leaf_ok_def)
  obtain d' where w: "agWrite partOff sb ag bnoRel blk s = (Inr (), s\<lparr>disk := d'\<rparr>)"
    "readAGBlock d' partOff sb ag bnoRel = Inr (stampBlock sb blk)"
    "\<forall>c old. c < agBlocks sb \<longrightarrow> c \<noteq> bnoRel \<longrightarrow> readAGBlock (disk s) partOff sb ag c = Inr old \<longrightarrow> readAGBlock d' partOff sb ag c = Inr old"
    "\<forall>off n xs. readBytes (disk s) off n = Inr xs \<longrightarrow>
       sint off + int n \<le> int (group_base partOff sb ag + unat bnoRel * unat (blockSize sb)) \<longrightarrow> readBytes d' off n = Inr xs"
    by (rule agWrite_Inr [OF f(1) rl(1) len, of s])
  have "K d'" by (rule grp_keeps(1) [OF g _ len w(1)]) simp
  have "readBytes d' (agFByteOffset sb partOff ag) (unat (sectSize sb)) = Inr agf"
    by (rule w(4) [rule_format, OF grp_agf_bytes(1) [OF g] body_after_agf [OF f(1,2)]])
  then have "agfBlock d' partOff sb ag = Inr agf" using grp_agf_bytes [OF g] by (simp add: agfBlock_def readHeader_Inr)
  then have "grp K partOff sb ag bnoRel cntRel d' agf bs' cs"
    using g \<open>K d'\<close> w(2) w(3) [rule_format, OF rl(2,3)] leaf_ok_stamp [OF f(1) l] by (auto simp: grp_def)
  with w(1) show ?thesis using w(2) by (rule that)
qed

lemma grp_write_cnt:
  assumes g: "grp K partOff sb ag bnoRel cntRel (disk s) agf bs cs" and l: "leaf_ok sb blk cs'"
  obtains d' where "agWrite partOff sb ag cntRel blk s = (Inr (), s\<lparr>disk := d'\<rparr>)" "grp K partOff sb ag bnoRel cntRel d' agf bs cs'"
    "readAGBlock d' partOff sb ag cntRel = Inr (stampBlock sb blk)"
proof -
  have f: "group_fits partOff sb ag" "body_block sb bnoRel" "body_block sb cntRel" using g by (simp_all add: grp_def)
  have rl: "cntRel < agBlocks sb" "bnoRel < agBlocks sb" "bnoRel \<noteq> cntRel" using g by (auto simp: grp_def body_block_def)
  have len: "length blk = unat (blockSize sb)" using l by (simp add: leaf_ok_def)
  obtain d' where w: "agWrite partOff sb ag cntRel blk s = (Inr (), s\<lparr>disk := d'\<rparr>)"
    "readAGBlock d' partOff sb ag cntRel = Inr (stampBlock sb blk)"
    "\<forall>c old. c < agBlocks sb \<longrightarrow> c \<noteq> cntRel \<longrightarrow> readAGBlock (disk s) partOff sb ag c = Inr old \<longrightarrow> readAGBlock d' partOff sb ag c = Inr old"
    "\<forall>off n xs. readBytes (disk s) off n = Inr xs \<longrightarrow>
       sint off + int n \<le> int (group_base partOff sb ag + unat cntRel * unat (blockSize sb)) \<longrightarrow> readBytes d' off n = Inr xs"
    by (rule agWrite_Inr [OF f(1) rl(1) len, of s])
  have "K d'" by (rule grp_keeps(1) [OF g _ len w(1)]) simp
  have "readBytes d' (agFByteOffset sb partOff ag) (unat (sectSize sb)) = Inr agf"
    by (rule w(4) [rule_format, OF grp_agf_bytes(1) [OF g] body_after_agf [OF f(1,3)]])
  then have "agfBlock d' partOff sb ag = Inr agf" using grp_agf_bytes [OF g] by (simp add: agfBlock_def readHeader_Inr)
  then have "grp K partOff sb ag bnoRel cntRel d' agf bs cs'"
    using g \<open>K d'\<close> w(2) w(3) [rule_format, OF rl(2,3)] leaf_ok_stamp [OF f(1) l] by (auto simp: grp_def)
  with w(1) show ?thesis using w(2) by (rule that)
qed

text \<open>Counters of the AGF change, roots and depths stay.\<close>

lemma grp_put_agf:
  assumes g: "grp K partOff sb ag bnoRel cntRel (disk s) agf bs cs" and e: "edits 52 64 agf agf'"
  obtains d' where "putAGF partOff sb ag agf' s = (Inr (), s\<lparr>disk := d'\<rparr>)"
    "grp K partOff sb ag bnoRel cntRel d' (stampHeader sb agfOffCRC agf') bs cs"
proof -
  have f: "group_fits partOff sb ag" "body_block sb bnoRel" "body_block sb cntRel" using g by (simp_all add: grp_def)
  have m: "length agf' = unat (sectSize sb)" "be32 agf' 0 = magicAGF"
    using grp_agf_bytes [OF g] edits_length [OF e] edits_window [OF e, of 0 4] by (simp_all add: be32_def)
  obtain d' where w: "putAGF partOff sb ag agf' s = (Inr (), s\<lparr>disk := d'\<rparr>)"
    "agfBlock d' partOff sb ag = Inr (stampHeader sb agfOffCRC agf')"
    "\<forall>c old. body_block sb c \<longrightarrow> readAGBlock (disk s) partOff sb ag c = Inr old \<longrightarrow> readAGBlock d' partOff sb ag c = Inr old"
    by (rule putAGF_Inr [OF f(1) m, of s])
  have "K d'" by (rule grp_keeps(2) [OF g m(1) w(1)])
  have fld: "be32 (stampHeader sb agfOffCRC agf') off = be32 agf off" if "off + 4 \<le> 52" for off
    using that edits_window [OF e, of off 4] by (simp add: be32_def window_stampHeader agfOffCRC_def)
  have fs: "be32 (stampHeader sb agfOffCRC agf') 16 = be32 agf 16" "be32 (stampHeader sb agfOffCRC agf') 20 = be32 agf 20"
    "be32 (stampHeader sb agfOffCRC agf') 28 = be32 agf 28" "be32 (stampHeader sb agfOffCRC agf') 32 = be32 agf 32"
    by (simp_all add: fld)
  have "grp K partOff sb ag bnoRel cntRel d' (stampHeader sb agfOffCRC agf') bs cs"
    using g \<open>K d'\<close> w(2) w(3) [rule_format, OF f(2)] w(3) [rule_format, OF f(3)] unfolding grp_def agfOffBnoRoot_def agfOffCntRoot_def agfOffBnoLevel_def agfOffCntLevel_def fs by blast
  with w(1) show ?thesis by (rule that)
qed

section \<open>Scans of a leaf\<close>

lemma recsOf_step:
  "i < n \<Longrightarrow> drop i (recsOf b hdr n) = (be32 b (hdr + i * 8), be32 b (hdr + i * 8 + 4)) # drop (Suc i) (recsOf b hdr n)"
  by (metis Cons_nth_drop_Suc length_recsOf nth_recsOf)

lemma firstFit_spec:
  assumes "hdr + (i + k) * 8 \<le> length b"
  shows "firstFit b hdr need i k = (let j = i + length (takeWhile (\<lambda>r. snd r < need) (drop i (recsOf b hdr (i + k))))
    in if j < i + k then Some j else None)"
  using assms
proof (induction k arbitrary: i)
  case (Suc k)
  show ?case
    using Suc.IH [of "Suc i"] Suc.prems recsOf_step [of i "i + Suc k" b hdr]
    by (auto simp: Let_def allocRecSize_def not_less)
qed simp

lemma maxCount_spec:
  assumes "hdr + (i + k) * 8 \<le> length b"
  shows "maxCount b hdr i k m = foldl (\<lambda>m r. max m (snd r)) m (drop i (recsOf b hdr (i + k)))"
  using assms
proof (induction k arbitrary: i m)
  case (Suc k)
  show ?case
    using Suc.IH [of "Suc i"] Suc.prems recsOf_step [of i "i + Suc k" b hdr]
    by (auto simp: Let_def allocRecSize_def max_def)
qed simp

lemma recordPos_spec:
  assumes "hdr + (i + k) * 8 \<le> length b"
  shows "recordPos b hdr bnoSort st c i k = Inr (let j = i + length (takeWhile (\<lambda>r. \<not> (fst r = st \<and> (bnoSort \<or> snd r = c))) (drop i (recsOf b hdr (i + k))))
    in if j < i + k then Some j else None)"
  using assms
proof (induction k arbitrary: i)
  case (Suc k)
  show ?case
    using Suc.IH [of "Suc i"] Suc.prems recsOf_step [of i "i + Suc k" b hdr]
    by (auto simp: Let_def allocRecSize_def u32At_def)
qed simp

lemma startPos_spec:
  assumes "hdr + (i + k) * 8 \<le> length b"
  shows "startPos b hdr st i k = Inr (let j = i + length (takeWhile (\<lambda>r. fst r \<noteq> st) (drop i (recsOf b hdr (i + k))))
    in if j < i + k then Some j else None)"
  using assms
proof (induction k arbitrary: i)
  case (Suc k)
  show ?case
    using Suc.IH [of "Suc i"] Suc.prems recsOf_step [of i "i + Suc k" b hdr]
    by (auto simp: Let_def allocRecSize_def u32At_def)
qed simp

lemma leaf_ok_gets:
  assumes "group_fits partOff sb ag" and "leaf_ok sb blk rs"
  shows "u16At blk 4 = Inr 0" "u16At blk 6 = Inr (of_nat (length rs))" "u32At blk 12 = Inr nullAgBlock"
    "unat (of_nat (length rs) :: u16) = length rs" "agBTreeHdrSize sb + length rs * 8 \<le> length blk" "be16 blk 4 = 0"
    "recsOf blk (agBTreeHdrSize sb) (length rs) = rs" "length blk = unat (blockSize sb)" "\<not> length blk < agBTreeHdrSize sb"
proof -
  note r = leaf_ok_room [OF assms]
  have "be16 blk 6 = of_nat (length rs)" using assms(2) by (simp add: leaf_ok_def count_of_def word_unat_eq_iff unat_of_nat)
    (metis count_of_def count_of_less mod_less)
  then show "u16At blk 4 = Inr 0" "u16At blk 6 = Inr (of_nat (length rs))" "u32At blk 12 = Inr nullAgBlock" "be16 blk 4 = 0"
    "recsOf blk (agBTreeHdrSize sb) (length rs) = rs"
    using assms(2) r by (simp_all add: leaf_ok_def u16At_def u32At_def)
  show "unat (of_nat (length rs) :: u16) = length rs" using r(4) by (simp add: unat_of_nat)
qed (use leaf_ok_room [OF assms] in simp_all)

text \<open>What the code relies on in a guard and in a visit set: the first round and the first block pass.\<close>

definition admits_first :: "('g, 'v) safeio \<Rightarrow> bool" where
  "admits_first sio \<longleftrightarrow> (\<forall>k>0. \<exists>g. GuardNext sio (NewLoopGuard sio k) = Inr g) \<and>
     (\<forall>x. \<exists>v. VisitCheck sio (NewVisitSet sio) x = Inr v)"

lemma safeio_ref_admits: "admits_first safeio_ref"
  by (auto simp: admits_first_def safeio_ref_def gr0_conv_Suc)

lemma cntFindBlock_leaf:
  assumes g: "grp K partOff sb ag bnoRel cntRel d agf bs cs" and sio: "admits_first sio"
  shows "\<exists>c. readAGBlock d partOff sb ag cntRel = Inr c \<and> leaf_ok sb c cs \<and>
    cntFindBlock sio (Suc fuel) d partOff sb ag cntRel need =
      (let i = length (takeWhile (\<lambda>r. snd r < need) cs) in if i < length cs then Inr (cntRel, c, i) else Inl ErrNoSpace)"
proof -
  obtain c where c: "readAGBlock d partOff sb ag cntRel = Inr c" "leaf_ok sb c cs" and f: "group_fits partOff sb ag"
    using g by (auto simp: grp_def)
  note lg = leaf_ok_gets [OF f c(2)]
  obtain gd v where gv: "GuardNext sio (NewLoopGuard sio allocBTreeMaxSteps) = Inr gd" "VisitCheck sio (NewVisitSet sio) (ucast cntRel) = Inr v"
    using sio unfolding admits_first_def allocBTreeMaxSteps_def by (metis zero_less_numeral zero_less_power)
  have ff: "firstFit c (agBTreeHdrSize sb) need 0 (length cs) =
      (let i = length (takeWhile (\<lambda>r. snd r < need) cs) in if i < length cs then Some i else None)"
    using firstFit_spec [of "agBTreeHdrSize sb" 0 "length cs" c need] lg(5,7) by simp
  show ?thesis
    by (rule exI [of _ c]) (use c gv lg ff in \<open>auto simp: cntFindBlock_def Let_def\<close>)
qed

lemma agfRecomputeLongest_leaf:
  assumes g: "grp K partOff sb ag bnoRel cntRel d agf bs cs" and sio: "admits_first sio"
  shows "agfRecomputeLongest sio (Suc fuel) d partOff sb ag cntRel 1 = Inr (foldl (\<lambda>m r. max m (snd r)) 0 cs)"
proof -
  obtain c where c: "readAGBlock d partOff sb ag cntRel = Inr c" "leaf_ok sb c cs" and f: "group_fits partOff sb ag"
    using g by (auto simp: grp_def)
  note lg = leaf_ok_gets [OF f c(2)]
  obtain gd v where gv: "GuardNext sio (NewLoopGuard sio allocBTreeMaxSteps) = Inr gd" "VisitCheck sio (NewVisitSet sio) (ucast cntRel) = Inr v"
    using sio unfolding admits_first_def allocBTreeMaxSteps_def by (metis zero_less_numeral zero_less_power)
  have "maxCount c (agBTreeHdrSize sb) 0 (length cs) 0 = foldl (\<lambda>m r. max m (snd r)) 0 cs"
    using maxCount_spec [of "agBTreeHdrSize sb" 0 "length cs" c 0] lg(5,7) by simp
  then show ?thesis
    using c gv lg by (simp add: agfRecomputeLongest_def Let_def)
qed

section \<open>Deleting, updating and inserting in a single leaf\<close>

lemma leaf_ok_edit:
  assumes "group_fits partOff sb ag" and "leaf_ok sb blk rs" and "keeps_hdr (agBTreeHdrSize sb) blk blk'" and "count_of blk' = length rs'"
    and "recsOf blk' (agBTreeHdrSize sb) (length rs') = rs'" and "length rs' \<le> allocMaxLeaf (unat (blockSize sb)) (agBTreeHdrSize sb)"
  shows "leaf_ok sb blk' rs'"
  using assms(2,4,5,6) keeps_hdr_fields [OF assms(3) hdr_facts(1) [OF assms(1)]] by (simp add: leaf_ok_def)

lemma leaf_ok_moved:
  assumes "group_fits partOff sb ag" and "leaf_ok sb b rs" and e: "edits (agBTreeHdrSize sb) hi b b'"
    and r: "recsOf b' (agBTreeHdrSize sb) (length rs) = rs'" and l: "length rs' = length rs"
  shows "leaf_ok sb b' rs'"
proof (rule leaf_ok_edit [OF assms(1,2) keeps_hdr_edits [OF e]])
  have h: "16 \<le> agBTreeHdrSize sb" by (rule hdr_facts(1) [OF assms(1)])
  then show "8 \<le> agBTreeHdrSize sb" by simp
  show "count_of b' = length rs'" using count_of_edits [OF e] h assms(2) l by (simp add: leaf_ok_def)
  show "recsOf b' (agBTreeHdrSize sb) (length rs') = rs'" unfolding l by (rule r)
  show "length rs' \<le> allocMaxLeaf (unat (blockSize sb)) (agBTreeHdrSize sb)" using assms(2) l by (simp add: leaf_ok_def)
qed simp

lemma takeWhile_hit: "\<forall>y\<in>set ys. P y \<Longrightarrow> \<not> P r \<Longrightarrow> takeWhile P (ys @ r # zs) = ys"
  by (simp add: takeWhile_append)

lemma suppressMerges_pure:
  assumes "agfBlock (disk s) partOff sb ag = Inr agf" and "60 \<le> length agf"
  obtains b where "suppressMerges partOff sb ag s = (Inr b, s)"
  using assms by (cases "draining s") (auto simp: suppressMerges_def u32At_def agf_offs)

text \<open>On a tree that is one leaf the whole deletion is the removal of one record from it.\<close>

lemma deleteCollect_leaf:
  assumes f: "group_fits partOff sb ag" and a: "agfBlock (disk s) partOff sb ag = Inr agf" "60 \<le> length agf"
    and b: "readAGBlock (disk s) partOff sb ag rel = Inr b" "leaf_ok sb b (ys @ r # zs)"
    and m: "fst r = st" "bnoSort \<or> snd r = c" "\<forall>y\<in>set ys. \<not> (fst y = st \<and> (bnoSort \<or> snd y = c))"
  obtains blk where "leaf_ok sb blk (ys @ zs)"
    "\<And>s'. agWrite partOff sb ag rel blk s = (Inr (), s') \<Longrightarrow> readAGBlock (disk s') partOff sb ag rel = Inr (stampBlock sb blk) \<Longrightarrow>
      allocDeleteRecordCollect (Suc fuel) partOff sb ag rel level st c bnoSort s = (Inr [], s')"
proof -
  let ?hdr = "agBTreeHdrSize sb" and ?rs = "ys @ r # zs"
  note lg = leaf_ok_gets [OF f b(2)]
  have cnt: "count_of b = length ?rs" using b(2) by (simp add: leaf_ok_def)
  obtain blk where blk: "allocRemoveRecAt b ?hdr (length ys) 8 = Inr blk" "keeps_hdr ?hdr b blk" "count_of blk = count_of b - 1"
    "recsOf blk ?hdr (count_of b - 1) = take (length ys) (recsOf b ?hdr (count_of b)) @ drop (length ys + 1) (recsOf b ?hdr (count_of b))"
    by (rule allocRemoveRecAt_spec [of ?hdr b "length ys"]) (use lg(5) cnt hdr_facts(1) [OF f] in simp_all)
  have ok: "leaf_ok sb blk (ys @ zs)"
    by (rule leaf_ok_edit [OF f b(2) blk(2)]) (use blk(3,4) cnt lg(7) b(2) in \<open>simp_all add: leaf_ok_def\<close>)
  have pos: "recordPos b ?hdr bnoSort st c 0 (length ?rs) = Inr (Some (length ys))"
    using recordPos_spec [of ?hdr 0 "length ?rs" b bnoSort st c] lg(5,7) takeWhile_hit [of ys "\<lambda>r. \<not> (fst r = st \<and> (bnoSort \<or> snd r = c))" r zs] m
    by simp
  obtain sm where sm: "suppressMerges partOff sb ag s = (Inr sm, s)" by (rule suppressMerges_pure [OF a])
  have path: "deletePath (Suc fuel) (disk s) partOff sb ag rel st c bnoSort [] = Inr [\<lparr>pnRel = rel, pnBlk = b, pnChild = 0\<rparr>]"
    using b(1) lg by simp
  have "allocDeleteRecordCollect (Suc fuel) partOff sb ag rel level st c bnoSort s = (Inr [], s')"
    if w: "agWrite partOff sb ag rel blk s = (Inr (), s')" and r: "readAGBlock (disk s') partOff sb ag rel = Inr (stampBlock sb blk)" for s'
  proof -
    note lg' = leaf_ok_gets [OF f leaf_ok_stamp [OF f ok]]
    have "collapseRoot (Suc fuel) partOff sb ag rel level s' = (Inr (rel, level, []), s')"
      using r lg' by (simp add: bindIO_def agRead_def)
    then show ?thesis
      using sm path lg(2,4) pos blk(1) w unfolding allocDeleteRecordCollect_def Let_def
      by (simp add: bindIO_apply allocRecSize_def refreshKeysAlongPath_def)
  qed
  with ok show ?thesis by (rule that)
qed

lemma grp_delete_cnt:
  assumes g: "grp K partOff sb ag bnoRel cntRel (disk s) agf bs (ys @ r # zs)" and m: "\<forall>y\<in>set ys. y \<noteq> r"
  obtains d' where "allocDeleteRecordCollect (Suc fuel) partOff sb ag cntRel level (fst r) (snd r) False s = (Inr [], s\<lparr>disk := d'\<rparr>)"
    "grp K partOff sb ag bnoRel cntRel d' agf bs (ys @ zs)"
proof -
  obtain c where f: "group_fits partOff sb ag" and a: "agfBlock (disk s) partOff sb ag = Inr agf"
    and c: "readAGBlock (disk s) partOff sb ag cntRel = Inr c" "leaf_ok sb c (ys @ r # zs)"
    using g by (auto simp: grp_def)
  have len: "60 \<le> length agf" using grp_agf_bytes(3) [OF g] by simp
  have m': "\<forall>y\<in>set ys. \<not> (fst y = fst r \<and> (False \<or> snd y = snd r))" using m by (auto simp: prod_eq_iff)
  obtain blk where blk: "leaf_ok sb blk (ys @ zs)"
    "\<And>s'. agWrite partOff sb ag cntRel blk s = (Inr (), s') \<Longrightarrow> readAGBlock (disk s') partOff sb ag cntRel = Inr (stampBlock sb blk) \<Longrightarrow>
      allocDeleteRecordCollect (Suc fuel) partOff sb ag cntRel level (fst r) (snd r) False s = (Inr [], s')"
    using deleteCollect_leaf [OF f a len c refl _ m', of fuel level] by blast
  obtain d' where w: "agWrite partOff sb ag cntRel blk s = (Inr (), s\<lparr>disk := d'\<rparr>)" "grp K partOff sb ag bnoRel cntRel d' agf bs (ys @ zs)"
    "readAGBlock d' partOff sb ag cntRel = Inr (stampBlock sb blk)"
    by (rule grp_write_cnt [OF g blk(1)])
  show ?thesis by (rule that [OF blk(2) w(2)]) (use w(1,3) in simp_all)
qed

lemma grp_delete_bno:
  assumes g: "grp K partOff sb ag bnoRel cntRel (disk s) agf (ys @ r # zs) cs" and m: "\<forall>y\<in>set ys. fst y \<noteq> fst r"
  obtains d' where "allocDeleteRecordCollect (Suc fuel) partOff sb ag bnoRel level (fst r) 0 True s = (Inr [], s\<lparr>disk := d'\<rparr>)"
    "grp K partOff sb ag bnoRel cntRel d' agf (ys @ zs) cs"
proof -
  obtain b where f: "group_fits partOff sb ag" and a: "agfBlock (disk s) partOff sb ag = Inr agf"
    and b: "readAGBlock (disk s) partOff sb ag bnoRel = Inr b" "leaf_ok sb b (ys @ r # zs)"
    using g by (auto simp: grp_def)
  have len: "60 \<le> length agf" using grp_agf_bytes(3) [OF g] by simp
  obtain blk where blk: "leaf_ok sb blk (ys @ zs)"
    "\<And>s'. agWrite partOff sb ag bnoRel blk s = (Inr (), s') \<Longrightarrow> readAGBlock (disk s') partOff sb ag bnoRel = Inr (stampBlock sb blk) \<Longrightarrow>
      allocDeleteRecordCollect (Suc fuel) partOff sb ag bnoRel level (fst r) 0 True s = (Inr [], s')"
    using deleteCollect_leaf [OF f a len b refl, of True 0 fuel level] m by auto
  obtain d' where w: "agWrite partOff sb ag bnoRel blk s = (Inr (), s\<lparr>disk := d'\<rparr>)" "grp K partOff sb ag bnoRel cntRel d' agf (ys @ zs) cs"
    "readAGBlock d' partOff sb ag bnoRel = Inr (stampBlock sb blk)"
    by (rule grp_write_bno [OF g blk(1)])
  show ?thesis by (rule that [OF blk(2) w(2)]) (use w(1,3) in simp_all)
qed

text \<open>Overwriting one record.\<close>

lemma recsOf_put:
  assumes "i < n" and "hdr + n * 8 \<le> length b"
  shows "recsOf (put32 (hdr + i * 8 + 4) c (put32 (hdr + i * 8) st b)) hdr n = (recsOf b hdr n)[i := (st, c)]"
    (is "recsOf ?b hdr n = _")
proof (rule nth_equalityI)
  fix j assume "j < length (recsOf ?b hdr n)"
  then have j: "j < n" by simp
  have fit: "hdr + i * 8 + 8 \<le> length b" using assms by simp
  show "recsOf ?b hdr n ! j = (recsOf b hdr n)[i := (st, c)] ! j"
  proof (cases "j = i")
    case True
    then show ?thesis using j fit
      by (simp add: nth_recsOf be32_def window_put_frame put32_def window_patch_same)
  next
    case False
    then have "hdr + j * 8 + 8 \<le> hdr + i * 8 \<or> hdr + i * 8 + 8 \<le> hdr + j * 8" by auto
    then show ?thesis using j False by (auto simp: nth_recsOf be32_def window_put_frame)
  qed
qed simp

lemma put_rec_edits: "edits (hdr + i * 8) (hdr + i * 8 + 8) b (put32 (hdr + i * 8 + 4) c (put32 (hdr + i * 8) st b))"
  by (rule edits_trans [OF edits_mono [OF edits_put(2)] edits_mono [OF edits_put(2)]]) simp_all

lemma put_rec_ok:
  assumes f: "group_fits partOff sb ag" and b: "leaf_ok sb b (ys @ r # zs)" and h: "hdr = agBTreeHdrSize sb" and o: "off = hdr + length ys * allocRecSize"
  obtains b1 where "setU32 off st b = Inr (put32 off st b)" "setU32 (off + 4) c (put32 off st b) = Inr b1"
    "leaf_ok sb b1 (ys @ (st, c) # zs)"
proof -
  note lg = leaf_ok_gets [OF f b]
  let ?b1 = "put32 (off + 4) c (put32 off st b)"
  have off: "off = hdr + length ys * 8" using o by (simp add: allocRecSize_def)
  have fit: "off + 8 \<le> length b" using lg(5) unfolding off h by simp
  have "keeps_hdr hdr b ?b1"
    unfolding off by (rule keeps_hdr_edits [OF put_rec_edits]) (use hdr_facts(1) [OF f] h in simp_all)
  moreover have "recsOf ?b1 hdr (length (ys @ r # zs)) = ys @ (st, c) # zs"
    unfolding off using recsOf_put [of "length ys" "length (ys @ r # zs)" hdr b c st] lg(5,7) h by simp
  moreover have "count_of ?b1 = length (ys @ (st, c) # zs)"
    using count_of_edits [OF put_rec_edits [of hdr "length ys" b c st]] b hdr_facts(1) [OF f] h off by (simp add: leaf_ok_def)
  ultimately have "leaf_ok sb ?b1 (ys @ (st, c) # zs)"
    using b h by (intro leaf_ok_edit [OF f b]) (simp_all add: leaf_ok_def)
  then show ?thesis using fit by (intro that [of ?b1]) (simp_all add: setU32_def)
qed

lemma grp_bno_update:
  assumes g: "grp K partOff sb ag bnoRel cntRel (disk s) agf (ys @ r # zs) cs" and m: "\<forall>y\<in>set ys. fst y \<noteq> fst r"
    and z: "\<forall>z\<in>set zs. newStart \<le> fst z"
  obtains d' where "bnoUpdateRecord (Suc fuel) partOff sb ag bnoRel (fst r) newStart newCount s = (Inr (), s\<lparr>disk := d'\<rparr>)"
    "grp K partOff sb ag bnoRel cntRel d' agf (ys @ (newStart, newCount) # zs) cs"
proof -
  let ?hdr = "agBTreeHdrSize sb" and ?i = "length ys"
  obtain b where f: "group_fits partOff sb ag"
    and b: "readAGBlock (disk s) partOff sb ag bnoRel = Inr b" "leaf_ok sb b (ys @ r # zs)"
    using g by (auto simp: grp_def)
  note lg = leaf_ok_gets [OF f b(2)]
  have "startPos b ?hdr (fst r) 0 (length (ys @ r # zs)) = Inr (Some ?i)"
    using startPos_spec [of ?hdr 0 "length (ys @ r # zs)" b "fst r"] lg(5,7) takeWhile_hit [of ys "\<lambda>y. fst y \<noteq> fst r" r zs] m by simp
  then have fnd: "bnoFindRecord (Suc fuel) (disk s) partOff sb ag bnoRel (fst r) = Inr (bnoRel, b, ?i)"
    using b(1) lg by (simp add: Let_def)
  obtain b1 where b1: "setU32 (?hdr + ?i * allocRecSize) newStart b = Inr (put32 (?hdr + ?i * allocRecSize) newStart b)"
    "setU32 (?hdr + ?i * allocRecSize + 4) newCount (put32 (?hdr + ?i * allocRecSize) newStart b) = Inr b1"
    "leaf_ok sb b1 (ys @ (newStart, newCount) # zs)"
    by (rule put_rec_ok [OF f b(2) refl refl])
  note lg1 = leaf_ok_gets [OF f b1(3)]
  obtain b2 where b2: "bnoBubbleRight b1 ?hdr ?i (length zs) = Inr b2" "edits ?hdr (?hdr + length (ys @ (newStart, newCount) # zs) * 8) b1 b2"
    "recsOf b2 ?hdr (length (ys @ (newStart, newCount) # zs)) = ys @ takeWhile (\<lambda>z. fst z < newStart) zs @ (newStart, newCount) # dropWhile (\<lambda>z. fst z < newStart) zs"
    using bnoBubbleRight_spec [OF lg1(5) lg1(7) refl refl] by auto
  have "takeWhile (\<lambda>z. fst z < newStart) zs = [] \<and> dropWhile (\<lambda>z. fst z < newStart) zs = zs"
    using z by (cases zs) (auto simp: not_less)
  then have tw: "takeWhile (\<lambda>z. fst z < newStart) zs = []" "dropWhile (\<lambda>z. fst z < newStart) zs = zs" by simp_all
  have r2: "recsOf b2 ?hdr (length (ys @ (newStart, newCount) # zs)) = ys @ (newStart, newCount) # zs"
    using b2(3) unfolding tw append_Nil .
  have "leaf_ok sb b2 (ys @ (newStart, newCount) # zs)"
    by (rule leaf_ok_moved [OF f b1(3) b2(2) r2 refl])
  then obtain d' where w: "agWrite partOff sb ag bnoRel b2 s = (Inr (), s\<lparr>disk := d'\<rparr>)"
    "grp K partOff sb ag bnoRel cntRel d' agf (ys @ (newStart, newCount) # zs) cs"
    using grp_write_bno [OF g] by blast
  have "bnoUpdateRecord (Suc fuel) partOff sb ag bnoRel (fst r) newStart newCount s = (Inr (), s\<lparr>disk := d'\<rparr>)"
    using fnd b1 lg1(2,4) b2(1) w(1) unfolding bnoUpdateRecord_def
    by (simp add: bindIO_apply del: bnoFindRecord.simps)
  then show ?thesis using w(2) by (rule that)
qed

text \<open>The partial use of a run: its record shrinks in both leaves.\<close>

lemma grp_consume_part:
  assumes g: "grp K partOff sb ag bnoRel cntRel (disk s) agf (ys @ r # zs) (us @ r # vs)"
    and m: "\<forall>y\<in>set ys. fst y \<noteq> fst r" "\<forall>z\<in>set zs. newStart \<le> fst z" and so: "sorted_wrt (recLess False) us"
    and c: "readAGBlock (disk s) partOff sb ag cntRel = Inr c"
  obtains d' where "consumePart sio (Suc fuel) partOff sb ag cntRel 1 bnoRel cntRel c (length us) (fst r) newStart rm s = (Inr (), s\<lparr>disk := d'\<rparr>)"
    "grp K partOff sb ag bnoRel cntRel d' agf (ys @ (newStart, rm) # zs)
      (takeWhile (\<lambda>y. \<not> recLess False (newStart, rm) y) us @ (newStart, rm) # dropWhile (\<lambda>y. \<not> recLess False (newStart, rm) y) us @ vs)"
proof -
  let ?hdr = "agBTreeHdrSize sb" and ?r = "(newStart, rm)"
  let ?cs = "takeWhile (\<lambda>y. \<not> recLess False ?r y) us @ ?r # dropWhile (\<lambda>y. \<not> recLess False ?r y) us @ vs"
  have f: "group_fits partOff sb ag" and b: "leaf_ok sb c (us @ r # vs)" using g c by (auto simp: grp_def)
  obtain b1 where b1: "setU32 (?hdr + length us * allocRecSize) newStart c = Inr (put32 (?hdr + length us * allocRecSize) newStart c)"
    "setU32 (?hdr + length us * allocRecSize + 4) rm (put32 (?hdr + length us * allocRecSize) newStart c) = Inr b1"
    "leaf_ok sb b1 (us @ ?r # vs)"
    by (rule put_rec_ok [OF f b refl refl])
  note lg1 = leaf_ok_gets [OF f b1(3)]
  have so': "sorted_wrt (\<lambda>a b. \<not> recLess False b a) us"
    by (rule sorted_wrt_mono_rel [OF _ so]) (use alloc_order.less_asym in blast)
  obtain b2 where b2: "allocCntBubbleLeft b1 ?hdr (length us) = Inr b2" "edits ?hdr (?hdr + length (us @ ?r # vs) * 8) b1 b2"
    "recsOf b2 ?hdr (length (us @ ?r # vs)) = ?cs"
    using allocCntBubbleLeft_spec [OF lg1(5) lg1(7) refl so'] by auto
  have len: "length ?cs = length (us @ ?r # vs)"
    using length_append [of "takeWhile (\<lambda>y. \<not> recLess False ?r y) us" "dropWhile (\<lambda>y. \<not> recLess False ?r y) us"] by simp
  have "leaf_ok sb b2 ?cs"
    by (rule leaf_ok_moved [OF f b1(3) b2(2,3) len])
  then obtain d1 where w: "agWrite partOff sb ag cntRel b2 s = (Inr (), s\<lparr>disk := d1\<rparr>)"
    "grp K partOff sb ag bnoRel cntRel d1 agf (ys @ r # zs) ?cs"
    using grp_write_cnt [OF g] by blast
  have g1: "grp K partOff sb ag bnoRel cntRel (disk (s\<lparr>disk := d1\<rparr>)) agf (ys @ r # zs) ?cs" using w(2) by simp
  obtain d' where u: "bnoUpdateRecord (Suc fuel) partOff sb ag bnoRel (fst r) newStart rm (s\<lparr>disk := d1\<rparr>) = (Inr (), s\<lparr>disk := d1\<rparr>\<lparr>disk := d'\<rparr>)"
    "grp K partOff sb ag bnoRel cntRel d' agf (ys @ ?r # zs) ?cs"
    by (rule grp_bno_update [OF g1 m, of fuel rm])
  have "consumePart sio (Suc fuel) partOff sb ag cntRel 1 bnoRel cntRel c (length us) (fst r) newStart rm s = (Inr (), s\<lparr>disk := d'\<rparr>)"
    using b1 b2(1) w(1) u(1) by (simp add: consumePart_def bindIO_apply allocCntRefreshLeafKey_def)
  then show ?thesis using u(2) by (rule that)
qed

text \<open>Insertion into a leaf with room.\<close>

abbreviation ins_rec :: "bool \<Rightarrow> arec \<Rightarrow> arec list \<Rightarrow> arec list" where
  "ins_rec bnoSort r rs \<equiv> takeWhile (\<lambda>y. \<not> recLess bnoSort r y) rs @ r # dropWhile (\<lambda>y. \<not> recLess bnoSort r y) rs"

lemma insertInto_leaf:
  assumes f: "group_fits partOff sb ag" and b: "readAGBlock (disk s) partOff sb ag rel = Inr b" "leaf_ok sb b rs"
    and room: "length rs < allocMaxLeaf (unat (blockSize sb)) (agBTreeHdrSize sb)"
  obtains blk where "leaf_ok sb blk (ins_rec bnoSort (st, c) rs)"
    "\<And>s'. agWrite partOff sb ag rel blk s = (Inr (), s') \<Longrightarrow>
      allocInsertRecord ma (Suc fuel) partOff sb ag rel level st c bnoSort s = (Inr (), s')"
proof -
  let ?hdr = "agBTreeHdrSize sb" and ?tw = "takeWhile (\<lambda>y. \<not> recLess bnoSort (st, c) y) rs"
  note lg = leaf_ok_gets [OF f b(2)]
  have pos: "insertPos b ?hdr bnoSort st c 0 (length rs) = Inr (length ?tw)"
    using insertPos_spec [of ?hdr 0 "length rs" b bnoSort st c] lg(5,7) by simp
  have tl: "length ?tw \<le> length rs" by (rule length_takeWhile_le)
  have fit: "?hdr + (length rs + 1) * 8 \<le> length b" and lt: "length rs + 1 < 65536"
    using hdr_facts(6,7) [OF f] room lg(8) mult_le_mono1 [of "length rs + 1" "allocMaxLeaf (unat (blockSize sb)) ?hdr" 8] by simp_all
  obtain blk where blk: "insertRecord ?hdr 8 (length rs) (length ?tw) (encRec (st, c)) b = Inr blk" "keeps_hdr ?hdr b blk" "count_of blk = length rs + 1"
    "recsOf blk ?hdr (length rs + 1) = take (length ?tw) (recsOf b ?hdr (length rs)) @ (st, c) # drop (length ?tw) (recsOf b ?hdr (length rs))"
    by (rule insertRecord_spec [OF fit tl hdr_facts(1) [OF f] lt])
  have il: "length (ins_rec bnoSort (st, c) rs) = length rs + 1"
    using length_append [of ?tw "dropWhile (\<lambda>y. \<not> recLess bnoSort (st, c) y) rs"] by simp
  have "recsOf blk ?hdr (length (ins_rec bnoSort (st, c) rs)) = ins_rec bnoSort (st, c) rs"
    unfolding il blk(4) lg(7) takeWhile_eq_take [symmetric] dropWhile_eq_drop [symmetric] ..
  then have ok: "leaf_ok sb blk (ins_rec bnoSort (st, c) rs)"
    using il blk(3) room by (intro leaf_ok_edit [OF f b(2) blk(2)]) simp_all
  have "allocInsertRecord ma (Suc fuel) partOff sb ag rel level st c bnoSort s = (Inr (), s')"
    if "agWrite partOff sb ag rel blk s = (Inr (), s')" for s'
    using that b(1) lg pos blk(1) room
    by (simp add: allocInsertRecord_def bindIO_apply Let_def agRead_def allocRecSize_def)
  with ok show ?thesis by (rule that)
qed

lemma grp_insert_bno:
  assumes g: "grp K partOff sb ag bnoRel cntRel (disk s) agf bs cs" and room: "length bs < allocMaxLeaf (unat (blockSize sb)) (agBTreeHdrSize sb)"
  obtains d' where "bnoInsertRecord ma (Suc fuel) partOff sb ag bnoRel level st c s = (Inr (), s\<lparr>disk := d'\<rparr>)"
    "grp K partOff sb ag bnoRel cntRel d' agf (ins_rec True (st, c) bs) cs"
proof -
  obtain b where f: "group_fits partOff sb ag" and b: "readAGBlock (disk s) partOff sb ag bnoRel = Inr b" "leaf_ok sb b bs"
    using g by (auto simp: grp_def)
  obtain blk where blk: "leaf_ok sb blk (ins_rec True (st, c) bs)"
    "\<And>s'. agWrite partOff sb ag bnoRel blk s = (Inr (), s') \<Longrightarrow>
      allocInsertRecord ma (Suc fuel) partOff sb ag bnoRel level st c True s = (Inr (), s')"
    using insertInto_leaf [OF f b room, of True st c ma fuel level] by blast
  obtain d' where w: "agWrite partOff sb ag bnoRel blk s = (Inr (), s\<lparr>disk := d'\<rparr>)"
    "grp K partOff sb ag bnoRel cntRel d' agf (ins_rec True (st, c) bs) cs"
    using grp_write_bno [OF g blk(1)] by blast
  show ?thesis by (rule that [OF _ w(2)]) (simp add: bnoInsertRecord_def blk(2) [OF w(1)])
qed

lemma grp_insert_cnt:
  assumes g: "grp K partOff sb ag bnoRel cntRel (disk s) agf bs cs" and room: "length cs < allocMaxLeaf (unat (blockSize sb)) (agBTreeHdrSize sb)"
  obtains d' where "cntInsertRecord ma (Suc fuel) partOff sb ag cntRel level st c s = (Inr (), s\<lparr>disk := d'\<rparr>)"
    "grp K partOff sb ag bnoRel cntRel d' agf bs (ins_rec False (st, c) cs)"
proof -
  obtain b where f: "group_fits partOff sb ag" and b: "readAGBlock (disk s) partOff sb ag cntRel = Inr b" "leaf_ok sb b cs"
    using g by (auto simp: grp_def)
  obtain blk where blk: "leaf_ok sb blk (ins_rec False (st, c) cs)"
    "\<And>s'. agWrite partOff sb ag cntRel blk s = (Inr (), s') \<Longrightarrow>
      allocInsertRecord ma (Suc fuel) partOff sb ag cntRel level st c False s = (Inr (), s')"
    using insertInto_leaf [OF f b room, of False st c ma fuel level] by blast
  obtain d' where w: "agWrite partOff sb ag cntRel blk s = (Inr (), s\<lparr>disk := d'\<rparr>)"
    "grp K partOff sb ag bnoRel cntRel d' agf bs (ins_rec False (st, c) cs)"
    using grp_write_cnt [OF g blk(1)] by blast
  show ?thesis by (rule that [OF _ w(2)]) (simp add: cntInsertRecord_def blk(2) [OF w(1)])
qed

section \<open>The counters\<close>

definition longest_of :: "arec list \<Rightarrow> u32" where
  "longest_of rs = foldl (\<lambda>m r. max m (snd r)) 0 rs"

text \<open>All of the AGF but free count, longest run and checksum.\<close>

definition same_agf :: "bytes \<Rightarrow> bytes \<Rightarrow> bool" where
  "same_agf a b \<longleftrightarrow> length b = length a \<and>
     (\<forall>off n. off + n \<le> 52 \<or> 60 \<le> off \<and> off + n \<le> 216 \<or> 220 \<le> off \<longrightarrow> window off n b = window off n a)"

lemma same_agf_refl [simp]: "same_agf a a" and same_agf_trans: "same_agf a b \<Longrightarrow> same_agf b c \<Longrightarrow> same_agf a c"
  by (auto simp: same_agf_def)

lemma grp_update_counts:
  assumes g: "grp K partOff sb ag bnoRel cntRel (disk s) agf bs cs" and sio: "admits_first sio"
  obtains d' agf' where "updateCounts sio (Suc fuel) partOff sb ag agf delta cntRel 1 s = (Inr (), s\<lparr>disk := d'\<rparr>)"
    "grp K partOff sb ag bnoRel cntRel d' agf' bs cs" "be32 agf' 52 = be32 agf 52 + delta" "be32 agf' 56 = longest_of cs" "same_agf agf agf'"
proof -
  have len: "512 \<le> length agf" using grp_agf_bytes(3) [OF g] .
  let ?a = "put32 56 (longest_of cs) (put32 52 (be32 agf 52 + delta) agf)"
  have "edits 52 64 agf ?a"
    by (rule edits_trans [OF edits_mono [OF edits_put(2)] edits_mono [OF edits_put(2)]]) simp_all
  then obtain d' where w: "putAGF partOff sb ag ?a s = (Inr (), s\<lparr>disk := d'\<rparr>)"
    "grp K partOff sb ag bnoRel cntRel d' (stampHeader sb agfOffCRC ?a) bs cs"
    using grp_put_agf [OF g] by blast
  have "updateCounts sio (Suc fuel) partOff sb ag agf delta cntRel 1 s = (Inr (), s\<lparr>disk := d'\<rparr>)"
    using w(1) len agfRecomputeLongest_leaf [OF g sio, of fuel]
    by (simp add: updateCounts_def bindIO_apply agf_offs u32At_def setU32_def longest_of_def)
  moreover have "be32 (stampHeader sb agfOffCRC ?a) 52 = be32 agf 52 + delta" "be32 (stampHeader sb agfOffCRC ?a) 56 = longest_of cs"
    using len by (simp_all add: be32_def window_stampHeader agfOffCRC_def window_put_frame put32_def window_patch_same)
  moreover have "same_agf agf (stampHeader sb agfOffCRC ?a)"
    by (auto simp: same_agf_def window_stampHeader agfOffCRC_def window_put_frame)
  ultimately show ?thesis using w(2) that by blast
qed

section \<open>Blocks of the small image\<close>

lemma be16_small_part: "off + 2 \<le> n \<Longrightarrow> be16 (small_part a n) off = be_word (map (dbytes small_dev) [a + off, a + off + 1])"
  unfolding be16_def by (subst window_small_part) (simp_all add: small_part_def upt_conv_Cons)

lemma small_fits: "group_fits 0 sb_group 0"
  by (simp add: group_fits_def sector_ok_def sectSize_def)

lemma small_block:
  assumes "rel < 64"
  shows "readAGBlock small_dev 0 sb_group 0 rel = Inr (small_part (unat rel * 512) 512)"
proof -
  have "rel < agBlocks sb_group" "unat rel < 64" using assms by (simp_all add: word_less_nat_alt)
  note pl = block_place [OF small_fits this(1)]
  have "readBytes small_dev (0 + fsbToPhysBlock sb_group (agAbsBlock sb_group 0 rel) * ucast (blockSize sb_group)) 512 = Inr (small_part (unat rel * 512) 512)"
    by (rule small_read) (use pl(2) \<open>unat rel < 64\<close> in \<open>simp_all add: group_base_def\<close>)
  then show ?thesis unfolding readAGBlock_def readRawBlock_addressable [OF pl(1)] by (simp add: readBytes_def)
qed

end
