(* ===== verification/GroupAlloc.thy ===== *)
theory GroupAlloc
  imports LeafGroup
begin

text \<open>
  The contract of \<^verbatim>\<open>allocBlocks\<close> and \<^verbatim>\<open>freeBlocks\<close> on groups whose free-space trees are single
  leaves: the abstract state is the set of free blocks of the group, an allocation takes a run out of
  it, a free returns one, and the two trees and the counters of the AGF follow.
\<close>

section \<open>Free runs\<close>

definition run_blocks :: "arec \<Rightarrow> nat set" where
  "run_blocks r = {unat (fst r)..<unat (fst r) + unat (snd r)}"

definition free_set :: "arec list \<Rightarrow> nat set" where
  "free_set rs = (\<Union>r\<in>set rs. run_blocks r)"

definition runs_ok :: "nat \<Rightarrow> arec list \<Rightarrow> bool" where
  "runs_ok lim rs \<longleftrightarrow> sorted_wrt (\<lambda>a b. unat (fst a) + unat (snd a) \<le> unat (fst b)) rs \<and>
     (\<forall>r\<in>set rs. 0 < snd r \<and> unat (fst r) + unat (snd r) \<le> lim)"

text \<open>
  Both leaves at rest: the by-block leaf holds disjoint runs in order, the by-size leaf is
  ordered by size and start and holds records of the other; between the two inserts of a free
  it is one record short.
\<close>

definition leaves_ok :: "superblock \<Rightarrow> arec list \<Rightarrow> arec list \<Rightarrow> bool" where
  "leaves_ok sb bs cs \<longleftrightarrow> runs_ok (unat (agBlocks sb)) bs \<and> sorted_wrt (recLess False) cs \<and> set cs \<subseteq> set bs"

text \<open>What is left of a run after its first \<open>n\<close> blocks have been taken.\<close>

definition rest_of :: "u32 \<Rightarrow> arec \<Rightarrow> arec list" where
  "rest_of n r = (if snd r = n then [] else [(fst r + n, snd r - n)])"

lemma rest_blocks:
  assumes "n \<le> snd r" and "unat (fst r) + unat (snd r) < 2 ^ 32"
  shows "free_set (rest_of n r) = run_blocks r - {unat (fst r)..<unat (fst r) + unat n}"
    "snd r \<noteq> n \<Longrightarrow> unat (fst r + n) = unat (fst r) + unat n \<and> unat (snd r - n) = unat (snd r) - unat n \<and> 0 < snd r - n"
proof -
  have le: "unat n \<le> unat (snd r)" using assms(1) by (simp add: word_le_nat_alt)
  have s: "unat (fst r + n) = unat (fst r) + unat n" using le assms(2) by (intro unat_add_lem [THEN iffD1]) simp
  have c: "unat (snd r - n) = unat (snd r) - unat n" using assms(1) by (rule unat_sub)
  show a: "snd r \<noteq> n \<Longrightarrow> unat (fst r + n) = unat (fst r) + unat n \<and> unat (snd r - n) = unat (snd r) - unat n \<and> 0 < snd r - n"
    using s c assms(1) by (auto simp: word_neq_0_conv [symmetric])
  show "free_set (rest_of n r) = run_blocks r - {unat (fst r)..<unat (fst r) + unat n}"
    using s c le by (auto simp: rest_of_def free_set_def run_blocks_def)
qed

lemma runs_ok_append:
  "runs_ok lim (xs @ ys) \<longleftrightarrow> runs_ok lim xs \<and> runs_ok lim ys \<and>
    (\<forall>x\<in>set xs. \<forall>y\<in>set ys. unat (fst x) + unat (snd x) \<le> unat (fst y))"
  by (auto simp: runs_ok_def sorted_wrt_append)

lemma runs_ok_Cons:
  "runs_ok lim (x # ys) \<longleftrightarrow> 0 < snd x \<and> unat (fst x) + unat (snd x) \<le> lim \<and> runs_ok lim ys \<and>
    (\<forall>y\<in>set ys. unat (fst x) + unat (snd x) \<le> unat (fst y))"
  by (auto simp: runs_ok_def)

lemma free_set_simps [simp]:
  "free_set [] = {}" "free_set (r # rs) = run_blocks r \<union> free_set rs" "free_set (xs @ ys) = free_set xs \<union> free_set ys"
  by (auto simp: free_set_def)

lemma free_set_cong: "set xs = set ys \<Longrightarrow> free_set xs = free_set ys"
  by (simp add: free_set_def)

lemma runs_ok_disjoint:
  assumes "runs_ok lim (ys @ r # zs)"
  shows "run_blocks r \<inter> free_set (ys @ zs) = {}"
  using assms by (fastforce simp: runs_ok_append runs_ok_Cons free_set_def run_blocks_def)

lemma runs_ok_take:
  assumes ok: "runs_ok lim (ys @ r # zs)" and n: "n \<le> snd r" and lim: "lim < 2 ^ 32"
  shows "runs_ok lim (ys @ rest_of n r @ zs)"
    and "free_set (ys @ rest_of n r @ zs) = free_set (ys @ r # zs) - {unat (fst r)..<unat (fst r) + unat n}"
proof -
  have b: "unat (fst r) + unat (snd r) < 2 ^ 32" and p: "0 < snd r" using ok lim by (auto simp: runs_ok_append runs_ok_Cons)
  have le: "unat n \<le> unat (snd r)" using n by (simp add: word_le_nat_alt)
  show "runs_ok lim (ys @ rest_of n r @ zs)"
  proof (cases "snd r = n")
    case True
    then show ?thesis using ok by (auto simp: rest_of_def runs_ok_append runs_ok_Cons)
  next
    case False
    have e: "unat (fst r + n) + unat (snd r - n) = unat (fst r) + unat (snd r)" "unat (fst r + n) = unat (fst r) + unat n" "0 < snd r - n"
      using rest_blocks(2) [OF n b False] le by simp_all
    have "runs_ok lim ys" "runs_ok lim zs" "unat (fst r) + unat (snd r) \<le> lim"
      "\<forall>x\<in>set ys. unat (fst x) + unat (snd x) \<le> unat (fst r)" "\<forall>z\<in>set zs. unat (fst r) + unat (snd r) \<le> unat (fst z)"
      "\<forall>x\<in>set ys. \<forall>z\<in>set zs. unat (fst x) + unat (snd x) \<le> unat (fst z)"
      using ok by (auto simp: runs_ok_append runs_ok_Cons)
    then show ?thesis using False e by (auto simp: rest_of_def runs_ok_append runs_ok_Cons intro: le_trans)
  qed
  have "{unat (fst r)..<unat (fst r) + unat n} \<subseteq> run_blocks r" using le by (auto simp: run_blocks_def)
  then show "free_set (ys @ rest_of n r @ zs) = free_set (ys @ r # zs) - {unat (fst r)..<unat (fst r) + unat n}"
    using rest_blocks(1) [OF n b] runs_ok_disjoint [OF ok] by auto
qed

lemma runs_ok_pos: "runs_ok lim rs \<Longrightarrow> r \<in> set rs \<Longrightarrow> 0 < unat (snd r)"
  by (simp add: runs_ok_def word_less_nat_alt)

text \<open>Within one set of disjoint runs a record is known by its start.\<close>

lemma runs_ok_inj:
  assumes "runs_ok lim rs" and "a \<in> set rs" and "b \<in> set rs" and "fst a = fst b"
  shows "a = b"
proof (rule ccontr)
  assume ne: "a \<noteq> b"
  obtain xs ys where s: "rs = xs @ a # ys" using assms(2) by (meson split_list)
  have "b \<in> set xs \<or> b \<in> set ys" using assms(3) s ne by auto
  then show False
    using assms(1,4) runs_ok_pos [OF assms(1,2)] runs_ok_pos [OF assms(1,3)] unfolding s
    by (auto simp: runs_ok_append runs_ok_Cons)
qed

lemma runs_ok_split:
  assumes "runs_ok lim rs" and "r \<in> set rs"
  obtains ys zs where "rs = ys @ r # zs" "\<forall>y\<in>set ys. fst y \<noteq> fst r"
    "\<forall>z\<in>set zs. unat (fst r) + unat (snd r) \<le> unat (fst z)" "unat (fst r) + unat (snd r) \<le> lim"
proof -
  obtain ys zs where s: "rs = ys @ r # zs" using assms(2) by (meson split_list)
  have "fst y \<noteq> fst r" if "y \<in> set ys" for y
    using assms(1) that runs_ok_pos [OF assms(1), of y] unfolding s by (auto simp: runs_ok_append runs_ok_Cons)
  then show ?thesis using assms(1) s that by (auto simp: runs_ok_append runs_ok_Cons)
qed

section \<open>Allocation\<close>

lemma drain_empty: "mergedQ s = [] \<Longrightarrow> allocDrainMergedFrees sio sb ff k s = (Inr (), s)"
  by (cases s; cases k) (simp_all add: allocDrainMergedFrees_def Let_def)

lemma withOp_disk:
  assumes "body (s\<lparr>opDepth := opDepth s + 1\<rparr>) = (Inr x, s')" and "opDepth s' = opDepth s + 1" and "mergedQ s' = []"
  shows "withOp (allocDrainMergedFrees sio sb ff k) body s = (Inr x, s'\<lparr>opDepth := opDepth s\<rparr>)"
  using assms by (simp add: withOp_def Let_def bindIO_apply drain_empty)

text \<open>The run an allocation takes from: of the runs long enough the shortest, then the first.\<close>

definition best_fit :: "arec list \<Rightarrow> u32 \<Rightarrow> arec \<Rightarrow> bool" where
  "best_fit cs n r \<longleftrightarrow> r \<in> set cs \<and> n \<le> snd r \<and> (\<forall>q\<in>set cs. n \<le> snd q \<longrightarrow> q = r \<or> recLess False r q)"

lemma first_fit_best:
  assumes "sorted_wrt (recLess False) cs" and "r \<in> set cs" and "n \<le> snd r"
  obtains us q vs where "cs = us @ q # vs" "length (takeWhile (\<lambda>r. snd r < n) cs) = length us" "best_fit cs n q" "\<forall>y\<in>set us. y \<noteq> q"
proof -
  let ?P = "\<lambda>r. snd r < n"
  have "dropWhile ?P cs \<noteq> []" using assms(2,3) by (auto simp: dropWhile_eq_Nil_conv not_less)
  then obtain q vs where d: "dropWhile ?P cs = q # vs" by (cases "dropWhile ?P cs") auto
  then have q: "n \<le> snd q" using hd_dropWhile [of ?P cs] by (simp add: not_less)
  define us where "us = takeWhile ?P cs"
  have cs: "cs = us @ q # vs" using takeWhile_dropWhile_id [of ?P cs] d by (simp add: us_def)
  have us: "\<forall>y\<in>set us. snd y < n" unfolding us_def by (blast dest: set_takeWhileD)
  have bf: "best_fit cs n q"
    unfolding best_fit_def using assms(1) q us unfolding cs by (fastforce simp: sorted_wrt_append)
  have "\<forall>y\<in>set us. y \<noteq> q" using us q by auto
  then show ?thesis by (intro that [OF cs _ bf]) (simp_all add: us_def)
qed

lemma set_ins_rec: "set (ins_rec b q us) = insert q (set us)"
  using set_append [of "takeWhile (\<lambda>y. \<not> recLess b q y) us" "dropWhile (\<lambda>y. \<not> recLess b q y) us"] by simp

lemma length_ins_rec: "length (ins_rec b q us) = length us + 1"
  using length_append [of "takeWhile (\<lambda>y. \<not> recLess b q y) us" "dropWhile (\<lambda>y. \<not> recLess b q y) us"] by simp

lemma cnt_shrunk:
  assumes so: "sorted_wrt (recLess False) (us @ r # vs)" and ok: "runs_ok lim bs" "set (us @ r # vs) \<subseteq> set bs"
    and n: "0 < n" "n \<le> snd r" "snd r \<noteq> n" and lim: "lim < 2 ^ 32"
  defines "q \<equiv> (fst r + n, snd r - n)"
  shows "sorted_wrt (recLess False) (ins_rec False q us @ vs)"
proof -
  have r: "r \<in> set bs" using ok(2) by simp
  have b: "unat (fst r) + unat (snd r) < 2 ^ 32" using ok(1) r lim by (auto simp: runs_ok_def)
  have e: "unat (fst r + n) = unat (fst r) + unat n" "unat (snd r - n) = unat (snd r) - unat n" "0 < unat n"
    using rest_blocks(2) [OF n(2) b n(3)] n(1) by (simp_all add: word_less_nat_alt)
  have lt: "snd q < snd r" using e n by (simp add: q_def word_less_nat_alt word_le_nat_alt)
  have u: "sorted_wrt (recLess False) us" "sorted_wrt (recLess False) vs" "\<forall>v\<in>set vs. recLess False r v"
    "\<forall>u\<in>set us. \<forall>v\<in>set vs. recLess False u v"
    using so by (auto simp: sorted_wrt_append)
  have "recLess False q y \<or> recLess False y q" if "y \<in> set us" for y
  proof -
    have "fst y \<noteq> fst q"
    proof
      assume f: "fst y = fst q"
      obtain ys zs where s: "bs = ys @ r # zs" by (rule runs_ok_split [OF ok(1) r])
      have "y \<in> set bs" "y \<noteq> r" using ok(2) that so alloc_order.less_irrefl [of False r] by (auto simp: sorted_wrt_append)
      then have "run_blocks y \<subseteq> free_set (ys @ zs)" by (auto simp: s free_set_def)
      moreover have "unat (fst y) \<in> run_blocks y \<inter> run_blocks r"
        using f e n runs_ok_pos [OF ok(1) \<open>y \<in> set bs\<close>] by (simp add: q_def run_blocks_def word_le_nat_alt word_unat_eq_iff)
      ultimately show False using runs_ok_disjoint [of lim ys r zs] ok(1) s by auto
    qed
    then show ?thesis by (auto simp: recLess_def allocLess_def)
  qed
  then have i: "sorted_wrt (recLess False) (ins_rec False q us)" using u(1) by (intro alloc_order.sorted_strict_insert) auto
  have v: "recLess False q v" if "v \<in> set vs" for v
    using u(3) that lt by (auto simp: recLess_def allocLess_def split: if_splits)
  show ?thesis
    unfolding sorted_wrt_append [of _ "ins_rec False q us" vs] set_ins_rec using i u(2,4) v by simp
qed

text \<open>What an allocation does to the two leaves, and that they stay in order.\<close>

definition took :: "u32 \<Rightarrow> arec \<Rightarrow> arec list \<Rightarrow> arec list \<Rightarrow> bool" where
  "took n r xs xs' \<longleftrightarrow> set xs' = set xs - {r} \<union> set (rest_of n r) \<and> length xs' \<le> length xs"

lemma sorted_distinct_split:
  assumes "sorted_wrt (recLess b) (us @ r # vs)"
  shows "r \<notin> set us" "r \<notin> set vs"
  using assms alloc_order.less_irrefl [of b r] by (auto simp: sorted_wrt_append)

lemma take_leaves:
  assumes ok: "leaves_ok sb (ys @ r # zs) (us @ r # vs)" and n: "0 < n" "n \<le> snd r"
  defines "bs' \<equiv> ys @ rest_of n r @ zs" and "cs' \<equiv> if snd r = n then us @ vs else ins_rec False (fst r + n, snd r - n) us @ vs"
  shows "leaves_ok sb bs' cs'" "took n r (ys @ r # zs) bs'" "took n r (us @ r # vs) cs'"
    "free_set bs' = free_set (ys @ r # zs) - {unat (fst r)..<unat (fst r) + unat n}"
proof -
  have ro: "runs_ok (unat (agBlocks sb)) (ys @ r # zs)" and so: "sorted_wrt (recLess False) (us @ r # vs)"
    and sub: "set (us @ r # vs) \<subseteq> set (ys @ r # zs)" using ok by (simp_all add: leaves_ok_def)
  have lim: "unat (agBlocks sb) < 2 ^ 32" using unat_lt(3) [of "agBlocks sb"] by simp
  note tk = runs_ok_take [OF ro n(2) lim]
  have nr: "r \<notin> set ys" "r \<notin> set zs"
    using ro runs_ok_pos [OF ro, of r] by (auto simp: runs_ok_append runs_ok_Cons)
  note nc = sorted_distinct_split [OF so]
  show tb: "took n r (ys @ r # zs) bs'" using nr by (auto simp: took_def bs'_def rest_of_def)
  show tc: "took n r (us @ r # vs) cs'"
    using nc set_ins_rec [of False "(fst r + n, snd r - n)" us] length_ins_rec [of False "(fst r + n, snd r - n)" us]
    by (auto simp: took_def cs'_def rest_of_def)
  have "sorted_wrt (recLess False) cs'"
  proof (cases "snd r = n")
    case True
    then show ?thesis using so by (simp add: cs'_def sorted_wrt_append)
  next
    case False
    then show ?thesis using cnt_shrunk [OF so ro sub n False lim] by (simp only: cs'_def if_False)
  qed
  moreover have "set cs' \<subseteq> set bs'" using tb tc sub by (auto simp: took_def)
  ultimately show "leaves_ok sb bs' cs'" using tk(1) by (simp add: leaves_ok_def bs'_def)
  show "free_set bs' = free_set (ys @ r # zs) - {unat (fst r)..<unat (fst r) + unat n}" using tk(2) by (simp add: bs'_def)
qed

definition agf_step :: "u32 \<Rightarrow> arec list \<Rightarrow> bytes \<Rightarrow> bytes \<Rightarrow> bool" where
  "agf_step delta cs agf agf' \<longleftrightarrow> be32 agf' 52 = be32 agf 52 + delta \<and> be32 agf' 56 = longest_of cs \<and> same_agf agf agf'"

lemma grp_getAGF:
  assumes "grp K partOff sb ag bnoRel cntRel (disk s) agf bs cs"
  shows "getAGF partOff sb ag s = (Inr agf, s)" "u32At agf agfOffBnoRoot = Inr bnoRel" "u32At agf agfOffCntRoot = Inr cntRel"
    "u32At agf agfOffBnoLevel = Inr 1" "u32At agf agfOffCntLevel = Inr 1"
  using assms grp_agf_bytes(3) [OF assms] by (auto simp: getAGF_def grp_def u32At_def agf_offs)

lemma alloc_core:
  assumes g: "grp K partOff sb ag bnoRel cntRel (disk s) agf bs cs" and ok: "leaves_ok sb bs cs" and sio: "admits_first sio"
    and n: "0 < n" and ex: "r0 \<in> set cs" "n \<le> snd r0"
  obtains r d' agf' bs' cs' where "best_fit cs n r"
    "allocBlocksCore sio (Suc fuel) partOff sb ag n s = (Inr (agAbsBlock sb ag (fst r)), s\<lparr>disk := d'\<rparr>)"
    "grp K partOff sb ag bnoRel cntRel d' agf' bs' cs'" "leaves_ok sb bs' cs'" "took n r bs bs'" "took n r cs cs'"
    "free_set bs' = free_set bs - {unat (fst r)..<unat (fst r) + unat n}" "agf_step (- n) cs' agf agf'"
proof -
  have so: "sorted_wrt (recLess False) cs" and ro: "runs_ok (unat (agBlocks sb)) bs" and sub: "set cs \<subseteq> set bs"
    using ok by (simp_all add: leaves_ok_def)
  obtain us r vs where cs: "cs = us @ r # vs" and ix: "length (takeWhile (\<lambda>r. snd r < n) cs) = length us" and bf: "best_fit cs n r"
    and ne: "\<forall>y\<in>set us. y \<noteq> r" by (rule first_fit_best [OF so ex])
  have r: "r \<in> set bs" "n \<le> snd r" using bf sub by (auto simp: best_fit_def)
  obtain ys zs where bs: "bs = ys @ r # zs" and ym: "\<forall>y\<in>set ys. fst y \<noteq> fst r"
    and zm: "\<forall>z\<in>set zs. unat (fst r) + unat (snd r) \<le> unat (fst z)" and lim: "unat (fst r) + unat (snd r) \<le> unat (agBlocks sb)"
    by (rule runs_ok_split [OF ro r(1)])
  let ?cs' = "if snd r = n then us @ vs else ins_rec False (fst r + n, snd r - n) us @ vs"
  let ?bs' = "ys @ rest_of n r @ zs"
  note tl = take_leaves [OF ok [unfolded cs bs] n r(2), folded cs bs]
  obtain c where c: "readAGBlock (disk s) partOff sb ag cntRel = Inr c" "leaf_ok sb c cs"
    and fnd: "cntFindBlock sio (Suc fuel) (disk s) partOff sb ag cntRel n = Inr (cntRel, c, length us)"
    using cntFindBlock_leaf [OF g sio, of fuel n] ix by (auto simp: cs Let_def)
  have f: "group_fits partOff sb ag" using g by (simp add: grp_def)
  note lg = leaf_ok_gets [OF f c(2)]
  have rec: "u32At c (agBTreeHdrSize sb + length us * allocRecSize) = Inr (fst r)"
    "u32At c (agBTreeHdrSize sb + length us * allocRecSize + 4) = Inr (snd r)"
    using lg(5) nth_recsOf [of "length us" "length cs" c "agBTreeHdrSize sb"] lg(7) by (simp_all add: cs u32At_def allocRecSize_def)
  note ga = grp_getAGF [OF g]
  show ?thesis
  proof (cases "snd r = n")
    case True
    obtain d1 where d1: "allocDeleteRecordCollect (Suc fuel) partOff sb ag cntRel 1 (fst r) (snd r) False s = (Inr [], s\<lparr>disk := d1\<rparr>)"
      "grp K partOff sb ag bnoRel cntRel d1 agf bs (us @ vs)"
      by (rule grp_delete_cnt [OF g [unfolded cs] ne])
    have g1: "grp K partOff sb ag bnoRel cntRel (disk (s\<lparr>disk := d1\<rparr>)) agf (ys @ r # zs) (us @ vs)" using d1(2) by (simp add: bs)
    obtain d2 where d2: "allocDeleteRecordCollect (Suc fuel) partOff sb ag bnoRel 1 (fst r) 0 True (s\<lparr>disk := d1\<rparr>) = (Inr [], s\<lparr>disk := d1\<rparr>\<lparr>disk := d2\<rparr>)"
      "grp K partOff sb ag bnoRel cntRel d2 agf (ys @ zs) (us @ vs)"
      by (rule grp_delete_bno [OF g1 ym])
    have g2: "grp K partOff sb ag bnoRel cntRel (disk (s\<lparr>disk := d2\<rparr>)) agf ?bs' ?cs'" using d2(2) True by (simp add: rest_of_def)
    obtain d' agf' where u: "updateCounts sio (Suc fuel) partOff sb ag agf (- n) cntRel 1 (s\<lparr>disk := d2\<rparr>) = (Inr (), s\<lparr>disk := d2\<rparr>\<lparr>disk := d'\<rparr>)"
      "grp K partOff sb ag bnoRel cntRel d' agf' ?bs' ?cs'" "be32 agf' 52 = be32 agf 52 + (- n)" "be32 agf' 56 = longest_of ?cs'" "same_agf agf agf'"
      by (rule grp_update_counts [OF g2 sio])
    have "consumeWhole (Suc fuel) partOff sb ag cntRel 1 (fst r) (snd r) s = (Inr agf, s\<lparr>disk := d2\<rparr>)"
      using d1(1) d2(1) grp_getAGF [OF g1] grp_getAGF [OF g2] by (simp add: consumeWhole_def bindIO_apply allocFreeMergedBlocks_def)
    then have "allocBlocksCore sio (Suc fuel) partOff sb ag n s = (Inr (agAbsBlock sb ag (fst r)), s\<lparr>disk := d'\<rparr>)"
      using ga fnd rec True u(1) by (simp add: allocBlocksCore_def bindIO_apply Let_def)
    then show ?thesis using that [OF bf _ u(2) tl] u(3-5) by (simp add: agf_step_def)
  next
    case False
    have b: "unat (fst r) + unat (snd r) < 2 ^ 32" using lim unat_lt(3) [of "agBlocks sb"] by simp
    have "\<forall>z\<in>set zs. fst r + n \<le> fst z"
      using zm rest_blocks(2) [OF r(2) b False] r(2) by (fastforce simp: word_le_nat_alt)
    then obtain d1 where d1: "consumePart sio (Suc fuel) partOff sb ag cntRel 1 bnoRel cntRel c (length us) (fst r) (fst r + n) (snd r - n) s = (Inr (), s\<lparr>disk := d1\<rparr>)"
      "grp K partOff sb ag bnoRel cntRel d1 agf (ys @ (fst r + n, snd r - n) # zs) ((ins_rec False (fst r + n, snd r - n) us) @ vs)"
      using grp_consume_part [OF g [unfolded cs bs] ym _ _ c(1), of "fst r + n" sio fuel "snd r - n"] so by (auto simp: cs sorted_wrt_append)
    have g2: "grp K partOff sb ag bnoRel cntRel (disk (s\<lparr>disk := d1\<rparr>)) agf ?bs' ?cs'" using d1(2) False by (simp add: rest_of_def)
    obtain d' agf' where u: "updateCounts sio (Suc fuel) partOff sb ag agf (- n) cntRel 1 (s\<lparr>disk := d1\<rparr>) = (Inr (), s\<lparr>disk := d1\<rparr>\<lparr>disk := d'\<rparr>)"
      "grp K partOff sb ag bnoRel cntRel d' agf' ?bs' ?cs'" "be32 agf' 52 = be32 agf 52 + (- n)" "be32 agf' 56 = longest_of ?cs'" "same_agf agf agf'"
      by (rule grp_update_counts [OF g2 sio])
    have "allocBlocksCore sio (Suc fuel) partOff sb ag n s = (Inr (agAbsBlock sb ag (fst r)), s\<lparr>disk := d'\<rparr>)"
      using ga fnd rec False r(2) d1(1) u(1) by (simp add: allocBlocksCore_def bindIO_apply Let_def)
    then show ?thesis using that [OF bf _ u(2) tl] u(3-5) by (simp add: agf_step_def)
  qed
qed

lemma alloc_core_full:
  assumes g: "grp K partOff sb ag bnoRel cntRel (disk s) agf bs cs" and sio: "admits_first sio" and no: "\<forall>r\<in>set cs. snd r < n"
  shows "allocBlocksCore sio (Suc fuel) partOff sb ag n s = (Inl ErrNoSpace, s)"
proof -
  have tw: "takeWhile (\<lambda>r. snd r < n) cs = cs" using no by (simp add: takeWhile_eq_all_conv)
  then have "cntFindBlock sio (Suc fuel) (disk s) partOff sb ag cntRel n = Inl ErrNoSpace"
    using cntFindBlock_leaf [OF g sio, of fuel n] unfolding tw by (auto simp: Let_def)
  then show ?thesis using grp_getAGF [OF g] by (simp add: allocBlocksCore_def bindIO_apply)
qed

lemma alloc_run:
  assumes g: "grp K partOff sb ag bnoRel cntRel (disk s) agf bs cs" and ok: "leaves_ok sb bs cs" and sio: "admits_first sio"
    and q: "mergedQ s = []" and n: "0 < n" and ex: "r0 \<in> set cs" "n \<le> snd r0"
  obtains r d' agf' bs' cs' where "best_fit cs n r"
    "fst (allocOps (Suc (Suc fuel)) sio partOff sb) ag n s = (Inr (agAbsBlock sb ag (fst r)), s\<lparr>disk := d'\<rparr>)"
    "grp K partOff sb ag bnoRel cntRel d' agf' bs' cs'" "leaves_ok sb bs' cs'" "took n r bs bs'" "took n r cs cs'"
    "free_set bs' = free_set bs - {unat (fst r)..<unat (fst r) + unat n}" "agf_step (- n) cs' agf agf'"
proof -
  have g1: "grp K partOff sb ag bnoRel cntRel (disk (s\<lparr>opDepth := opDepth s + 1\<rparr>)) agf bs cs" using g by simp
  obtain r d' agf' bs' cs' where a: "best_fit cs n r"
    "allocBlocksCore sio (Suc fuel) partOff sb ag n (s\<lparr>opDepth := opDepth s + 1\<rparr>) = (Inr (agAbsBlock sb ag (fst r)), s\<lparr>opDepth := opDepth s + 1\<rparr>\<lparr>disk := d'\<rparr>)"
    "grp K partOff sb ag bnoRel cntRel d' agf' bs' cs'" "leaves_ok sb bs' cs'" "took n r bs bs'" "took n r cs cs'"
    "free_set bs' = free_set bs - {unat (fst r)..<unat (fst r) + unat n}" "agf_step (- n) cs' agf agf'"
    by (rule alloc_core [OF g1 ok sio n ex])
  have "fst (allocOps (Suc (Suc fuel)) sio partOff sb) ag n s = (Inr (agAbsBlock sb ag (fst r)), s\<lparr>disk := d'\<rparr>)"
    using withOp_disk [of "allocBlocksCore sio (Suc fuel) partOff sb ag n" s, OF a(2),
        of sio sb "snd (allocOps (Suc fuel) sio partOff sb)" "Suc fuel"] q
    by (subst allocOps.simps) (simp add: Let_def del: allocOps.simps)
  then show ?thesis using that [OF a(1) _ a(3-8)] by simp
qed

lemma alloc_none:
  assumes g: "grp K partOff sb ag bnoRel cntRel (disk s) agf bs cs" and sio: "admits_first sio" and no: "\<forall>r\<in>set cs. snd r < n"
  shows "fst (allocOps (Suc (Suc fuel)) sio partOff sb) ag n s = (Inl ErrNoSpace, s)"
proof -
  have "grp K partOff sb ag bnoRel cntRel (disk (s\<lparr>opDepth := opDepth s + 1\<rparr>)) agf bs cs" using g by simp
  from alloc_core_full [OF this sio no, of fuel] show ?thesis
    by (subst allocOps.simps) (simp add: Let_def withOp_def del: allocOps.simps)
qed

text \<open>A group at rest: both leaves hold the same runs.\<close>

definition group_ok :: "int64 \<Rightarrow> superblock \<Rightarrow> u32 \<Rightarrow> u32 \<Rightarrow> u32 \<Rightarrow> dev \<Rightarrow> bytes \<Rightarrow> arec list \<Rightarrow> arec list \<Rightarrow> bool" where
  "group_ok partOff sb ag bnoRel cntRel d agf bs cs \<longleftrightarrow>
     grp (\<lambda>_. True) partOff sb ag bnoRel cntRel d agf bs cs \<and> leaves_ok sb bs cs \<and> set bs \<subseteq> set cs"

definition group_with :: "(dev \<Rightarrow> bool) \<Rightarrow> int64 \<Rightarrow> superblock \<Rightarrow> u32 \<Rightarrow> u32 \<Rightarrow> u32 \<Rightarrow> dev \<Rightarrow> bytes \<Rightarrow> arec list \<Rightarrow> arec list \<Rightarrow> bool" where
  "group_with K partOff sb ag bnoRel cntRel d agf bs cs \<longleftrightarrow>
     grp K partOff sb ag bnoRel cntRel d agf bs cs \<and> leaves_ok sb bs cs \<and> set bs \<subseteq> set cs"

lemma group_with_True: "group_with (\<lambda>_. True) partOff sb ag bnoRel cntRel d agf bs cs = group_ok partOff sb ag bnoRel cntRel d agf bs cs"
  by (simp add: group_with_def group_ok_def)

lemma group_withI:
  "group_ok partOff sb ag bnoRel cntRel d agf bs cs \<Longrightarrow> K d \<Longrightarrow> unaffected partOff sb ag bnoRel cntRel K \<Longrightarrow>
    group_with K partOff sb ag bnoRel cntRel d agf bs cs"
  by (auto simp: group_ok_def group_with_def grp_def)

lemma group_withD:
  assumes "group_with K partOff sb ag bnoRel cntRel d agf bs cs"
  shows "group_ok partOff sb ag bnoRel cntRel d agf bs cs" "K d"
  using assms by (auto simp: group_ok_def group_with_def grp_def)

lemma took_same: "took n r bs bs' \<Longrightarrow> took n r cs cs' \<Longrightarrow> set bs \<subseteq> set cs \<Longrightarrow> set bs' \<subseteq> set cs'"
  by (auto simp: took_def)

text \<open>
  C7. \<^verbatim>\<open>allocBlocks\<close> on a group with single-leaf trees. If some free run has \<open>n\<close> blocks, the call
  returns the first blocks of the smallest such run (the one with the lowest start among equals):
  they were free, afterwards exactly they are no longer free, both leaves are in order and agree
  again, \<^verbatim>\<open>agf_freeblks\<close> has dropped by \<open>n\<close>, \<^verbatim>\<open>agf_longest\<close> is the longest run left, and
  the rest of the AGF and of the package state is as it was. If there is none, it fails and
  changes nothing.
\<close>

theorem allocBlocks_single_leaf:
  assumes "group_ok partOff sb ag bnoRel cntRel (disk s) agf bs cs" and "admits_first sio" and "mergedQ s = []" and "0 < n"
  shows "if \<exists>r\<in>set bs. n \<le> snd r then
      (\<exists>r d' agf' bs' cs'. allocBlocks sio (Suc (Suc fuel)) partOff sb ag n s = (Inr (agAbsBlock sb ag (fst r)), s\<lparr>disk := d'\<rparr>) \<and>
        best_fit cs n r \<and> group_ok partOff sb ag bnoRel cntRel d' agf' bs' cs' \<and>
        {unat (fst r)..<unat (fst r) + unat n} \<subseteq> free_set bs \<and> free_set bs' = free_set bs - {unat (fst r)..<unat (fst r) + unat n} \<and>
        be32 agf' 52 = be32 agf 52 - n \<and> be32 agf' 56 = longest_of cs' \<and> same_agf agf agf')
    else allocBlocks sio (Suc (Suc fuel)) partOff sb ag n s = (Inl ErrNoSpace, s)"
proof -
  have g: "grp (\<lambda>_. True) partOff sb ag bnoRel cntRel (disk s) agf bs cs" "leaves_ok sb bs cs" and sub: "set bs \<subseteq> set cs"
    using assms(1) by (auto simp: group_ok_def)
  show ?thesis
  proof (cases "\<exists>r\<in>set bs. n \<le> snd r")
    case True
    then obtain r0 where ex: "r0 \<in> set cs" "n \<le> snd r0" using sub by auto
    obtain r d' agf' bs' cs' where a: "best_fit cs n r"
      "fst (allocOps (Suc (Suc fuel)) sio partOff sb) ag n s = (Inr (agAbsBlock sb ag (fst r)), s\<lparr>disk := d'\<rparr>)"
      "grp (\<lambda>_. True) partOff sb ag bnoRel cntRel d' agf' bs' cs'" "leaves_ok sb bs' cs'" "took n r bs bs'" "took n r cs cs'"
      "free_set bs' = free_set bs - {unat (fst r)..<unat (fst r) + unat n}" "agf_step (- n) cs' agf agf'"
      by (rule alloc_run [OF g assms(2-4) ex])
    have "r \<in> set bs" "unat n \<le> unat (snd r)" using a(1) g(2) by (auto simp: best_fit_def leaves_ok_def word_le_nat_alt)
    then have "{unat (fst r)..<unat (fst r) + unat n} \<subseteq> free_set bs" by (fastforce simp: free_set_def run_blocks_def)
    moreover have "group_ok partOff sb ag bnoRel cntRel d' agf' bs' cs'" using a(3,4) took_same [OF a(5,6) sub] by (simp add: group_ok_def)
    ultimately show ?thesis using True a unfolding allocBlocks_def agf_step_def if_P [OF True] by (intro exI [of _ r] exI [of _ d'] exI [of _ agf'] exI [of _ bs'] exI [of _ cs']) simp
  next
    case False
    then have "\<forall>r\<in>set cs. snd r < n" using g(2) by (fastforce simp: leaves_ok_def not_le)
    from alloc_none [OF g(1) assms(2) this] False show ?thesis by (simp add: allocBlocks_def del: allocOps.simps)
  qed
qed

section \<open>Freeing\<close>

lemma runs_ok_insert:
  assumes "runs_ok lim rs" and "0 < snd x" and "unat (fst x) + unat (snd x) \<le> lim" and "run_blocks x \<inter> free_set rs = {}"
  shows "runs_ok lim (ins_rec True x rs)"
  using assms
proof (induction rs)
  case Nil
  then show ?case by (simp add: runs_ok_Cons runs_ok_def)
next
  case (Cons y ys)
  have p: "0 < unat (snd x)" "0 < unat (snd y)" using Cons.prems runs_ok_pos [OF Cons.prems(1), of y] by (simp_all add: word_less_nat_alt)
  have d: "run_blocks x \<inter> run_blocks y = {}" using Cons.prems(4) by auto
  show ?case
  proof (cases "recLess True x y")
    case True
    then have "unat (fst x) < unat (fst y)" by (simp add: recLess_def allocLess_def word_less_nat_alt)
    then have "unat (fst x) + unat (snd x) \<le> unat (fst y)" using d p by (auto simp: run_blocks_def)
    then show ?thesis using True Cons.prems by (auto simp: runs_ok_Cons)
  next
    case False
    then have "unat (fst y) \<le> unat (fst x)" by (simp add: recLess_def allocLess_def word_less_nat_alt)
    moreover have "unat (fst x) \<notin> run_blocks y" using d p by (auto simp: run_blocks_def)
    ultimately have le: "unat (fst y) + unat (snd y) \<le> unat (fst x)" by (simp add: run_blocks_def)
    have "run_blocks x \<inter> free_set ys = {}" using Cons.prems(4) by auto
    then have "runs_ok lim (ins_rec True x ys)" using Cons by (simp add: runs_ok_Cons)
    moreover have "\<forall>z\<in>set (ins_rec True x ys). unat (fst y) + unat (snd y) \<le> unat (fst z)"
      unfolding set_ins_rec using le Cons.prems(1) by (simp add: runs_ok_Cons)
    ultimately show ?thesis using False Cons.prems(1) by (simp add: runs_ok_Cons)
  qed
qed

text \<open>
  One of the two inserts of a free, with \<open>byStart\<close> saying which leaf it goes to, and when it keeps
  the leaves in order: the run goes first into the by-block leaf, then into the other.
\<close>

definition ins_bno :: "bool \<Rightarrow> arec \<Rightarrow> arec list \<Rightarrow> arec list" where
  "ins_bno byStart x bs = (if byStart then ins_rec True x bs else bs)"

definition ins_cnt :: "bool \<Rightarrow> arec \<Rightarrow> arec list \<Rightarrow> arec list" where
  "ins_cnt byStart x cs = (if byStart then cs else ins_rec False x cs)"

definition ins_ok :: "superblock \<Rightarrow> bool \<Rightarrow> arec \<Rightarrow> arec list \<Rightarrow> arec list \<Rightarrow> bool" where
  "ins_ok sb byStart x bs cs \<longleftrightarrow> leaves_ok sb bs cs \<and> 0 < snd x \<and> unat (fst x) + unat (snd x) \<le> unat (agBlocks sb) \<and>
     (if byStart then run_blocks x \<inter> free_set bs = {} else x \<in> set bs \<and> run_blocks x \<inter> free_set cs = {})"

lemma free_set_ins_rec: "free_set (ins_rec b x rs) = run_blocks x \<union> free_set rs"
  using free_set_cong [of "ins_rec b x rs" "x # rs"] set_ins_rec [of b x rs] by simp

lemma set_ins:
  "set (ins_bno byStart x bs) = (if byStart then insert x (set bs) else set bs)"
  "set (ins_cnt byStart x cs) = (if byStart then set cs else insert x (set cs))"
  "length (ins_bno byStart x bs) = (if byStart then length bs + 1 else length bs)"
  "length (ins_cnt byStart x cs) = (if byStart then length cs else length cs + 1)"
  "free_set (ins_bno byStart x bs) = (if byStart then run_blocks x \<union> free_set bs else free_set bs)"
  "free_set (ins_cnt byStart x cs) = (if byStart then free_set cs else run_blocks x \<union> free_set cs)"
  using set_ins_rec free_set_ins_rec length_ins_rec unfolding ins_bno_def ins_cnt_def by (simp_all del: set_append length_append free_set_simps)

lemma cnt_sorted_insert:
  assumes "sorted_wrt (recLess False) cs" and "0 < snd x" and "\<forall>y\<in>set cs. 0 < snd y" and "run_blocks x \<inter> free_set cs = {}"
  shows "sorted_wrt (recLess False) (ins_rec False x cs)"
proof (rule alloc_order.sorted_strict_insert [OF assms(1)], rule ballI)
  fix y assume y: "y \<in> set cs"
  have "unat (fst y) \<in> run_blocks y" "unat (fst x) \<in> run_blocks x" using assms(2,3) y by (auto simp: run_blocks_def word_less_nat_alt)
  then have "fst x \<noteq> fst y" using assms(4) y by (auto simp: free_set_def)
  then show "recLess False x y \<or> recLess False y x" by (auto simp: recLess_def allocLess_def)
qed

lemma ins_ok_leaves:
  assumes "ins_ok sb byStart x bs cs"
  shows "leaves_ok sb (ins_bno byStart x bs) (ins_cnt byStart x cs)"
proof (cases byStart)
  case True
  then have "runs_ok (unat (agBlocks sb)) (ins_rec True x bs)"
    using assms by (intro runs_ok_insert) (simp_all add: ins_ok_def leaves_ok_def)
  then show ?thesis using assms True set_ins(1) [of byStart x bs] by (auto simp: ins_ok_def leaves_ok_def ins_bno_def ins_cnt_def)
next
  case False
  have "\<forall>y\<in>set cs. 0 < snd y" using assms by (auto simp: ins_ok_def leaves_ok_def runs_ok_def)
  then have "sorted_wrt (recLess False) (ins_rec False x cs)"
    using assms False by (intro cnt_sorted_insert) (simp_all add: ins_ok_def leaves_ok_def)
  then show ?thesis using assms False set_ins(2) [of byStart x cs] by (auto simp: ins_ok_def leaves_ok_def ins_bno_def ins_cnt_def)
qed

text \<open>A free while a reserve is out, or while the queue drains: both inserts and the counters.\<close>

lemma free_plain:
  assumes g: "grp K partOff sb ag bnoRel cntRel (disk s) agf bs cs" and sio: "admits_first sio"
    and res: "0 < reserveDepth s \<or> draining s" and st: "st < agBlocks sb"
    and room: "length bs < allocMaxLeaf (unat (blockSize sb)) (agBTreeHdrSize sb)" "length cs < allocMaxLeaf (unat (blockSize sb)) (agBTreeHdrSize sb)"
  obtains d' agf' where "freeBlocksCore sio af ff (Suc fuel) partOff sb (agAbsBlock sb ag st) n s = (Inr (), s\<lparr>disk := d'\<rparr>)"
    "grp K partOff sb ag bnoRel cntRel d' agf' (ins_rec True (st, n) bs) (ins_rec False (st, n) cs)"
    "agf_step n (ins_rec False (st, n) cs) agf agf'"
proof -
  let ?ma = "allocMetaAllocBlock af sb ag"
  have f: "group_fits partOff sb ag" using g by (simp add: grp_def)
  have pk: "fsbToAgAgbno sb (agAbsBlock sb ag st) = (ag, st)"
    using f st by (intro fsbToAgAgbno_pack) (simp_all add: group_fits_def)
  obtain d1 where d1: "bnoInsertRecord ?ma (Suc fuel) partOff sb ag bnoRel 1 st n s = (Inr (), s\<lparr>disk := d1\<rparr>)"
    "grp K partOff sb ag bnoRel cntRel d1 agf (ins_rec True (st, n) bs) cs"
    by (rule grp_insert_bno [OF g room(1)])
  have g1: "grp K partOff sb ag bnoRel cntRel (disk (s\<lparr>disk := d1\<rparr>)) agf (ins_rec True (st, n) bs) cs" using d1(2) by simp
  obtain d2 where d2: "cntInsertRecord ?ma (Suc fuel) partOff sb ag cntRel 1 st n (s\<lparr>disk := d1\<rparr>) = (Inr (), s\<lparr>disk := d1\<rparr>\<lparr>disk := d2\<rparr>)"
    "grp K partOff sb ag bnoRel cntRel d2 agf (ins_rec True (st, n) bs) (ins_rec False (st, n) cs)"
    by (rule grp_insert_cnt [OF g1 room(2)])
  have g2: "grp K partOff sb ag bnoRel cntRel (disk (s\<lparr>disk := d2\<rparr>)) agf (ins_rec True (st, n) bs) (ins_rec False (st, n) cs)" using d2(2) by simp
  obtain d' agf' where u: "updateCounts sio (Suc fuel) partOff sb ag agf n cntRel 1 (s\<lparr>disk := d2\<rparr>) = (Inr (), s\<lparr>disk := d2\<rparr>\<lparr>disk := d'\<rparr>)"
    "grp K partOff sb ag bnoRel cntRel d' agf' (ins_rec True (st, n) bs) (ins_rec False (st, n) cs)"
    "be32 agf' 52 = be32 agf 52 + n" "be32 agf' 56 = longest_of (ins_rec False (st, n) cs)" "same_agf agf agf'"
    by (rule grp_update_counts [OF g2 sio])
  have "allocInsertWithReserve af ff ag 1 (bnoInsertRecord ?ma (Suc fuel) partOff sb ag bnoRel 1 st n) s = (Inr (), s\<lparr>disk := d1\<rparr>)"
    "allocInsertWithReserve af ff ag 1 (cntInsertRecord ?ma (Suc fuel) partOff sb ag cntRel 1 st n) (s\<lparr>disk := d1\<rparr>) = (Inr (), s\<lparr>disk := d2\<rparr>)"
    using res d1(1) d2(1) by (auto simp: allocInsertWithReserve_def)
  then have "freeBlocksCore sio af ff (Suc fuel) partOff sb (agAbsBlock sb ag st) n s = (Inr (), s\<lparr>disk := d'\<rparr>)"
    using grp_getAGF [OF g] grp_getAGF [OF g1] grp_getAGF [OF g2] u(1) by (simp add: freeBlocksCore_def bindIO_apply Let_def pk)
  then show ?thesis using that [OF _ u(2)] u(3-5) by (simp add: agf_step_def)
qed

lemma free_plain_op:
  assumes g: "grp K partOff sb ag bnoRel cntRel (disk s) agf bs cs" and sio: "admits_first sio" and q: "mergedQ s = []"
    and res: "0 < reserveDepth s \<or> draining s" and st: "st < agBlocks sb"
    and room: "length bs < allocMaxLeaf (unat (blockSize sb)) (agBTreeHdrSize sb)" "length cs < allocMaxLeaf (unat (blockSize sb)) (agBTreeHdrSize sb)"
  obtains d' agf' where "snd (allocOps (Suc (Suc fuel)) sio partOff sb) (agAbsBlock sb ag st) n s = (Inr (), s\<lparr>disk := d'\<rparr>)"
    "grp K partOff sb ag bnoRel cntRel d' agf' (ins_rec True (st, n) bs) (ins_rec False (st, n) cs)"
    "agf_step n (ins_rec False (st, n) cs) agf agf'"
proof -
  let ?s = "s\<lparr>opDepth := opDepth s + 1\<rparr>" and ?af = "fst (allocOps (Suc fuel) sio partOff sb)" and ?ff = "snd (allocOps (Suc fuel) sio partOff sb)"
  have g1: "grp K partOff sb ag bnoRel cntRel (disk ?s) agf bs cs" "0 < reserveDepth ?s \<or> draining ?s" using g res by simp_all
  obtain d' agf' where a: "freeBlocksCore sio ?af ?ff (Suc fuel) partOff sb (agAbsBlock sb ag st) n ?s = (Inr (), ?s\<lparr>disk := d'\<rparr>)"
    "grp K partOff sb ag bnoRel cntRel d' agf' (ins_rec True (st, n) bs) (ins_rec False (st, n) cs)"
    "agf_step n (ins_rec False (st, n) cs) agf agf'"
    by (rule free_plain [OF g1(1) sio g1(2) st room])
  have "snd (allocOps (Suc (Suc fuel)) sio partOff sb) (agAbsBlock sb ag st) n s = (Inr (), s\<lparr>disk := d'\<rparr>)"
    using withOp_disk [of "freeBlocksCore sio ?af ?ff (Suc fuel) partOff sb (agAbsBlock sb ag st) n" s, OF a(1), of sio sb ?ff "Suc fuel"] q
    by (subst allocOps.simps) (simp add: Let_def del: allocOps.simps)
  then show ?thesis using a(2,3) by (rule that)
qed

text \<open>One insert with its reserve of two blocks taken before and returned after.\<close>

definition insOp :: "bool \<Rightarrow> u64 aio \<Rightarrow> nat \<Rightarrow> int64 \<Rightarrow> superblock \<Rightarrow> u32 \<Rightarrow> u32 \<Rightarrow> u32 \<Rightarrow> arec \<Rightarrow> unit aio" where
  "insOp byStart ma fuel partOff sb ag bnoRel cntRel x =
     (if byStart then bnoInsertRecord ma fuel partOff sb ag bnoRel 1 (fst x) (snd x)
      else cntInsertRecord ma fuel partOff sb ag cntRel 1 (fst x) (snd x))"

lemma grp_insOp:
  assumes g: "grp K partOff sb ag bnoRel cntRel (disk s) agf bs cs"
    and room: "length (ins_bno byStart x bs) \<le> allocMaxLeaf (unat (blockSize sb)) (agBTreeHdrSize sb)"
      "length (ins_cnt byStart x cs) \<le> allocMaxLeaf (unat (blockSize sb)) (agBTreeHdrSize sb)"
  obtains d' where "insOp byStart ma (Suc fuel) partOff sb ag bnoRel cntRel x s = (Inr (), s\<lparr>disk := d'\<rparr>)"
    "grp K partOff sb ag bnoRel cntRel d' agf (ins_bno byStart x bs) (ins_cnt byStart x cs)"
proof (cases byStart)
  case True
  then have "length bs < allocMaxLeaf (unat (blockSize sb)) (agBTreeHdrSize sb)" using room(1) set_ins(3) [of byStart x bs] by simp
  from grp_insert_bno [OF g this, of ma fuel 1 "fst x" "snd x"] True that show ?thesis
    by (auto simp: insOp_def ins_bno_def ins_cnt_def)
next
  case False
  then have "length cs < allocMaxLeaf (unat (blockSize sb)) (agBTreeHdrSize sb)" using room(2) set_ins(4) [of byStart x cs] by simp
  from grp_insert_cnt [OF g this, of ma fuel 1 "fst x" "snd x"] False that show ?thesis
    by (auto simp: insOp_def ins_bno_def ins_cnt_def)
qed

text \<open>Every run of the first list is left in the second but for at most \<open>k\<close> blocks.\<close>

definition cut_by :: "nat \<Rightarrow> arec list \<Rightarrow> arec list \<Rightarrow> bool" where
  "cut_by k xs ys \<longleftrightarrow> (\<forall>r\<in>set xs. \<exists>r'\<in>set ys. unat (snd r) \<le> unat (snd r') + k)"

lemma cut_by_subset: "set xs \<subseteq> set ys \<Longrightarrow> cut_by k xs ys"
  by (force simp: cut_by_def)

lemma cut_by_trans:
  assumes "cut_by j xs ys" and "cut_by k ys zs"
  shows "cut_by (j + k) xs zs"
  unfolding cut_by_def
proof
  fix x assume "x \<in> set xs"
  then obtain y where "y \<in> set ys" "unat (snd x) \<le> unat (snd y) + j" using assms(1) by (auto simp: cut_by_def)
  moreover from this(1) obtain z where "z \<in> set zs" "unat (snd y) \<le> unat (snd z) + k" using assms(2) by (auto simp: cut_by_def)
  ultimately show "\<exists>z\<in>set zs. unat (snd x) \<le> unat (snd z) + (j + k)" by (intro bexI [of _ z]) linarith
qed

lemma cut_by_mono: "cut_by j xs ys \<Longrightarrow> j \<le> k \<Longrightarrow> cut_by k xs ys"
  using cut_by_trans [OF _ cut_by_subset [of ys ys "k - j"]] by fastforce

lemma took_cut:
  assumes "took n r xs xs'" and "n \<le> snd r" and "set xs' \<subseteq> set ys" and "(fst r, n) \<in> set ys"
  shows "cut_by (unat n) xs ys"
  unfolding cut_by_def
proof
  fix x assume x: "x \<in> set xs"
  show "\<exists>r'\<in>set ys. unat (snd x) \<le> unat (snd r') + unat n"
  proof (cases "x = r")
    case False
    then show ?thesis using x assms(1,3) by (intro bexI [of _ x]) (auto simp: took_def)
  next
    case True
    show ?thesis
    proof (cases "snd r = n")
      case False
      then have "(fst r + n, snd r - n) \<in> set ys" using assms(1,3) by (auto simp: took_def rest_of_def)
      then show ?thesis using True assms(2) by (intro bexI [of _ "(fst r + n, snd r - n)"]) (simp_all add: unat_sub)
    next
      case same: True
      show ?thesis by (rule bexI [OF _ assms(4)]) (simp add: \<open>x = r\<close> same)
    qed
  qed
qed

text \<open>What the leaves are afterwards.\<close>

definition stage_done :: "superblock \<Rightarrow> bool \<Rightarrow> arec \<Rightarrow> arec list \<Rightarrow> arec list \<Rightarrow> arec list \<Rightarrow> arec list \<Rightarrow> bool" where
  "stage_done sb byStart x bs cs bs' cs' \<longleftrightarrow> leaves_ok sb bs' cs' \<and>
     free_set bs' = free_set bs \<union> (if byStart then run_blocks x else {}) \<and>
     length bs' \<le> length bs + (if byStart then 2 else 1) \<and> length cs' \<le> length cs + (if byStart then 1 else 2) \<and>
     (if byStart then set bs \<subseteq> set cs \<longrightarrow> x \<in> set bs' \<and> set bs' \<subseteq> insert x (set cs') \<and> run_blocks x \<inter> free_set cs' = {}
      else set bs \<subseteq> insert x (set cs) \<longrightarrow> set bs' \<subseteq> set cs') \<and> cut_by 2 bs bs'"

lemma stage_plain:
  assumes "ins_ok sb byStart x bs cs"
  shows "stage_done sb byStart x bs cs (ins_bno byStart x bs) (ins_cnt byStart x cs)"
proof -
  have "free_set cs \<subseteq> free_set bs" using assms by (auto simp: ins_ok_def leaves_ok_def free_set_def)
  moreover have "cut_by 2 bs (ins_bno byStart x bs)" by (rule cut_by_subset) (auto simp: set_ins)
  ultimately show ?thesis using ins_ok_leaves [OF assms] assms by (auto simp: stage_done_def set_ins ins_ok_def) blast
qed

lemma took_free:
  assumes "took n r rs rs'" and "r \<in> set rs" and "n \<le> snd r" and "unat (fst r) + unat (snd r) < 2 ^ 32"
  shows "free_set rs' \<subseteq> free_set rs"
proof -
  have "free_set rs' \<subseteq> free_set (rest_of n r) \<union> free_set rs" using assms(1) by (auto simp: took_def free_set_def)
  moreover have "free_set (rest_of n r) \<subseteq> free_set rs" using rest_blocks(1) [OF assms(3,4)] assms(2) by (auto simp: free_set_def)
  ultimately show ?thesis by blast
qed

lemma stage_reserved:
  assumes x: "ins_ok sb byStart x bs cs" and ok: "leaves_ok sb bs1 cs1" and r: "r \<in> set cs" "n \<le> snd r" and n: "0 < n" "n \<le> 2"
    and tk: "took n r bs bs1" "took n r cs cs1"
    and fr: "free_set bs1 = free_set bs - {unat (fst r)..<unat (fst r) + unat n}"
  defines "bs2 \<equiv> ins_rec True (fst r, n) (ins_bno byStart x bs1)" and "cs2 \<equiv> ins_rec False (fst r, n) (ins_cnt byStart x cs1)"
  shows "ins_ok sb byStart x bs1 cs1" and "stage_done sb byStart x bs cs bs2 cs2"
proof -
  have ro: "runs_ok (unat (agBlocks sb)) bs" and rb: "r \<in> set bs" using x r(1) by (auto simp: ins_ok_def leaves_ok_def)
  have le: "unat (fst r) + unat (snd r) \<le> unat (agBlocks sb)" using ro rb by (auto simp: runs_ok_def)
  then have b: "unat (fst r) + unat (snd r) < 2 ^ 32" using unat_lt(3) [of "agBlocks sb"] by simp
  have nle: "unat n \<le> unat (snd r)" using r(2) by (simp add: word_le_nat_alt)
  have rn: "run_blocks (fst r, n) = {unat (fst r)..<unat (fst r) + unat n}" "run_blocks (fst r, n) \<subseteq> run_blocks r"
    using nle by (auto simp: run_blocks_def)
  have fb: "free_set bs1 \<subseteq> free_set bs" and fc: "free_set cs1 \<subseteq> free_set cs"
    using fr took_free [OF tk(2) r b] by auto
  have rc: "run_blocks r \<subseteq> free_set cs" "run_blocks r \<subseteq> free_set bs" using r(1) rb by (auto simp: free_set_def)
  have xr: "x \<noteq> r" if "\<not> byStart"
  proof
    assume "x = r"
    then have "run_blocks x = {}" using x that rc(1) by (auto simp: ins_ok_def)
    then show False using x by (auto simp: ins_ok_def run_blocks_def word_less_nat_alt)
  qed
  show i1: "ins_ok sb byStart x bs1 cs1"
    using x ok fb fc xr tk(1) by (auto simp: ins_ok_def took_def) blast+
  note l1 = ins_ok_leaves [OF i1]
  have xd: "byStart \<Longrightarrow> run_blocks x \<inter> free_set bs = {}" using x by (simp add: ins_ok_def)
  have rr: "run_blocks (fst r, n) \<subseteq> free_set bs" using rn(2) rc(2) by blast
  then have dis: "run_blocks (fst r, n) \<inter> free_set (ins_bno byStart x bs1) = {}"
    using fr xd unfolding rn(1) by (cases byStart) (auto simp: set_ins)
  have "ins_ok sb True (fst r, n) (ins_bno byStart x bs1) (ins_cnt byStart x cs1)"
    using l1 n le nle dis by (simp add: ins_ok_def)
  then have l2: "leaves_ok sb bs2 (ins_cnt byStart x cs1)" using ins_ok_leaves by (fastforce simp: bs2_def ins_bno_def ins_cnt_def)
  have sub: "free_set (ins_cnt byStart x cs1) \<subseteq> free_set (ins_bno byStart x bs1)" using l1 by (auto simp: leaves_ok_def free_set_def)
  have sb2: "set bs2 = insert (fst r, n) (set (ins_bno byStart x bs1))" "set cs2 = insert (fst r, n) (set (ins_cnt byStart x cs1))"
    "free_set bs2 = run_blocks (fst r, n) \<union> free_set (ins_bno byStart x bs1)" "free_set cs2 = run_blocks (fst r, n) \<union> free_set (ins_cnt byStart x cs1)"
    "length bs2 = length (ins_bno byStart x bs1) + 1" "length cs2 = length (ins_cnt byStart x cs1) + 1"
    unfolding bs2_def cs2_def by (rule set_ins_rec free_set_ins_rec length_ins_rec)+
  have "ins_ok sb False (fst r, n) bs2 (ins_cnt byStart x cs1)"
    using l2 n le nle dis sub sb2(1) by (auto simp: ins_ok_def)
  from ins_ok_leaves [OF this] have l3: "leaves_ok sb bs2 cs2" by (simp add: cs2_def ins_bno_def ins_cnt_def)
  have "free_set bs2 = free_set bs \<union> (if byStart then run_blocks x else {})"
    using sb2(3) fr rn rc by (auto simp: set_ins)
  moreover have "length bs2 \<le> length bs + (if byStart then 2 else 1)" "length cs2 \<le> length cs + (if byStart then 1 else 2)"
    using sb2(5,6) tk by (auto simp: set_ins took_def)
  moreover have "if byStart then set bs \<subseteq> set cs \<longrightarrow> x \<in> set bs2 \<and> set bs2 \<subseteq> insert x (set cs2) \<and> run_blocks x \<inter> free_set cs2 = {}
      else set bs \<subseteq> insert x (set cs) \<longrightarrow> set bs2 \<subseteq> set cs2"
  proof (cases byStart)
    case True
    have "free_set cs \<subseteq> free_set bs" using x by (auto simp: ins_ok_def leaves_ok_def free_set_def)
    then have "free_set cs2 \<subseteq> free_set bs" using sb2(4) rr fc True by (auto simp: set_ins)
    moreover have "set bs2 \<subseteq> insert x (set cs2)" if "set bs \<subseteq> set cs"
      using sb2(1,2) tk that True by (auto simp: set_ins took_def)
    ultimately show ?thesis using xd sb2(1) True by (auto simp: set_ins)
  next
    case False
    then show ?thesis using sb2(1,2) tk by (auto simp: set_ins took_def)
  qed
  moreover have "cut_by 2 bs bs2"
  proof -
    have "cut_by (unat n) bs bs2" by (rule took_cut [OF tk(1) r(2)]) (auto simp: sb2(1) set_ins)
    moreover have "unat n \<le> 2" using n(2) by (simp add: word_le_nat_alt)
    ultimately show ?thesis by (rule cut_by_mono)
  qed
  ultimately show "stage_done sb byStart x bs cs bs2 cs2" using l3 by (simp add: stage_done_def)
qed

lemma reserve_insert:
  fixes sb :: superblock
  defines "m \<equiv> allocMaxLeaf (unat (blockSize sb)) (agBTreeHdrSize sb)"
  assumes g: "grp K partOff sb ag bnoRel cntRel (disk s) agf bs cs" and x: "ins_ok sb byStart x bs cs" and sio: "admits_first sio"
    and st: "mergedQ s = []" "reserveDepth s = 0" "\<not> draining s"
    and room: "length bs + (if byStart then 2 else 1) \<le> m" "length cs + (if byStart then 1 else 2) \<le> m"
  obtains d' agf' bs' cs' rv where
    "allocInsertWithReserve (fst (allocOps (Suc (Suc fuel)) sio partOff sb)) (snd (allocOps (Suc (Suc fuel)) sio partOff sb)) ag 1
      (insOp byStart ma (Suc fuel') partOff sb ag bnoRel cntRel x) s = (Inr (), s\<lparr>disk := d', reserve := rv\<rparr>)"
    "grp K partOff sb ag bnoRel cntRel d' agf' bs' cs'" "stage_done sb byStart x bs cs bs' cs'" "be32 agf' 52 = be32 agf 52" "same_agf agf agf'"
proof (cases "\<exists>r\<in>set cs. 2 \<le> snd r")
  case False
  let ?af = "fst (allocOps (Suc (Suc fuel)) sio partOff sb)"
  have "\<forall>r\<in>set cs. snd r < 2" using False by (auto simp: not_le)
  from alloc_none [OF g sio this, of fuel] have af: "?af ag 2 s = (Inl ErrNoSpace, s)" .
  have "length (ins_bno byStart x bs) \<le> m" "length (ins_cnt byStart x cs) \<le> m" using room by (auto simp: set_ins split: if_splits)
  then obtain d' where d': "insOp byStart ma (Suc fuel') partOff sb ag bnoRel cntRel x s = (Inr (), s\<lparr>disk := d'\<rparr>)"
    "grp K partOff sb ag bnoRel cntRel d' agf (ins_bno byStart x bs) (ins_cnt byStart x cs)"
    using grp_insOp [OF g] unfolding m_def by blast
  have "allocInsertWithReserve ?af (snd (allocOps (Suc (Suc fuel)) sio partOff sb)) ag 1
      (insOp byStart ma (Suc fuel') partOff sb ag bnoRel cntRel x) s = (Inr (), s\<lparr>disk := d', reserve := reserve s\<rparr>)"
    using af d'(1) st(2,3) by (simp add: allocInsertWithReserve_def allocReserveSplitBlocks_def bindIO_apply fatal_def del: allocOps.simps)
  then show ?thesis using d'(2) stage_plain [OF x] by (rule that) simp_all
next
  case True
  let ?af = "fst (allocOps (Suc (Suc fuel)) sio partOff sb)" and ?ff = "snd (allocOps (Suc (Suc fuel)) sio partOff sb)"
  have ok: "leaves_ok sb bs cs" using x by (simp add: ins_ok_def)
  obtain r0 where r0: "r0 \<in> set cs" "2 \<le> snd r0" using True by blast
  obtain r d1 agf1 bs1 cs1 where a: "best_fit cs 2 r"
    "?af ag 2 s = (Inr (agAbsBlock sb ag (fst r)), s\<lparr>disk := d1\<rparr>)"
    "grp K partOff sb ag bnoRel cntRel d1 agf1 bs1 cs1" "leaves_ok sb bs1 cs1" "took 2 r bs bs1" "took 2 r cs cs1"
    "free_set bs1 = free_set bs - {unat (fst r)..<unat (fst r) + unat (2 :: u32)}" "agf_step (- 2) cs1 agf agf1"
    by (rule alloc_run [OF g ok sio st(1) _ r0]) simp
  have r: "r \<in> set cs" "2 \<le> snd r" using a(1) by (simp_all add: best_fit_def)
  note sr = stage_reserved [OF x a(4) r _ _ a(5-7), simplified]
  let ?rv = "\<lparr>runStart = agAbsBlock sb ag (fst r), resN = 2, resUsed = 0\<rparr>"
  let ?s1 = "s\<lparr>disk := d1, metaHook := FromReserve, reserve := ?rv, reserveDepth := 1\<rparr>"
  have len: "length bs1 \<le> length bs" "length cs1 \<le> length cs" using a(5,6) by (simp_all add: took_def)
  have rm: "length (ins_bno byStart x bs1) < m" "length (ins_cnt byStart x cs1) < m"
    using room len by (auto simp: set_ins split: if_splits)
  have g1: "grp K partOff sb ag bnoRel cntRel (disk ?s1) agf1 bs1 cs1" using a(3) by simp
  obtain d2 where d2: "insOp byStart ma (Suc fuel') partOff sb ag bnoRel cntRel x ?s1 = (Inr (), ?s1\<lparr>disk := d2\<rparr>)"
    "grp K partOff sb ag bnoRel cntRel d2 agf1 (ins_bno byStart x bs1) (ins_cnt byStart x cs1)"
    using grp_insOp [OF g1 less_imp_le less_imp_le] rm unfolding m_def by blast
  let ?s2 = "s\<lparr>reserve := ?rv, reserveDepth := 1, disk := d2\<rparr>"
  have "r \<in> set bs" using r(1) ok by (auto simp: leaves_ok_def)
  then have "0 < unat (snd r)" "unat (fst r) + unat (snd r) \<le> unat (agBlocks sb)"
    using ok by (auto simp: leaves_ok_def runs_ok_def word_less_nat_alt)
  then have fl: "fst r < agBlocks sb" by (simp add: word_less_nat_alt)
  have g2: "grp K partOff sb ag bnoRel cntRel (disk ?s2) agf1 (ins_bno byStart x bs1) (ins_cnt byStart x cs1)" "mergedQ ?s2 = []"
    "0 < reserveDepth ?s2 \<or> draining ?s2" using d2(2) st(1) by simp_all
  obtain d3 agf3 where d3: "?ff (agAbsBlock sb ag (fst r)) 2 ?s2 = (Inr (), ?s2\<lparr>disk := d3\<rparr>)"
    "grp K partOff sb ag bnoRel cntRel d3 agf3 (ins_rec True (fst r, 2) (ins_bno byStart x bs1)) (ins_rec False (fst r, 2) (ins_cnt byStart x cs1))"
    "agf_step 2 (ins_rec False (fst r, 2) (ins_cnt byStart x cs1)) agf1 agf3"
    by (rule free_plain_op [OF g2(1) sio g2(2,3) fl rm [unfolded m_def]])
  have restored: "s\<lparr>reserve := ?rv, reserveDepth := 0, disk := d3\<rparr> = s\<lparr>disk := d3, reserve := ?rv\<rparr>" using st(2) by (cases s) simp
  have "allocInsertWithReserve ?af ?ff ag 1 (insOp byStart ma (Suc fuel') partOff sb ag bnoRel cntRel x) s =
      (Inr (), s\<lparr>disk := d3, reserve := ?rv\<rparr>)"
    using a(2) d2(1) d3(1) st(2,3) restored
    by (simp add: allocInsertWithReserve_def allocReserveSplitBlocks_def reserveRelease_def bindIO_apply Let_def del: allocOps.simps)
  moreover have "be32 agf3 52 = be32 agf 52" "same_agf agf agf3"
    using a(8) d3(3) by (auto simp: agf_step_def intro: same_agf_trans)
  ultimately show ?thesis using d3(2) sr(2) by (intro that)
qed

text \<open>No operation is under way.\<close>

definition quiet :: "alloc \<Rightarrow> bool" where
  "quiet s \<longleftrightarrow> mergedQ s = [] \<and> reserveDepth s = 0 \<and> \<not> draining s"

definition leaf_slots :: "superblock \<Rightarrow> nat" where
  "leaf_slots sb = allocMaxLeaf (unat (blockSize sb)) (agBTreeHdrSize sb)"

lemma sorted_wrt_distinct: "sorted_wrt (recLess b) rs \<Longrightarrow> distinct rs"
  using alloc_order.less_irrefl by (induction rs) auto

lemma group_ok_length:
  assumes "group_ok partOff sb ag bnoRel cntRel d agf bs cs"
  shows "length cs = length bs"
proof -
  have ro: "runs_ok (unat (agBlocks sb)) bs" and e: "set bs = set cs" and so: "sorted_wrt (recLess False) cs"
    using assms by (auto simp: group_ok_def leaves_ok_def)
  have "distinct bs" using ro
  proof (induction bs)
    case (Cons y ys)
    have "y \<notin> set ys" using Cons.prems runs_ok_pos [OF Cons.prems, of y] by (auto simp: runs_ok_Cons)
    then show ?case using Cons by (simp add: runs_ok_Cons)
  qed simp
  then show ?thesis using distinct_card [of bs] distinct_card [OF sorted_wrt_distinct [OF so]] e by simp
qed

lemma free_run_cut:
  assumes g: "group_with K partOff sb ag bnoRel cntRel (disk s) agf bs cs" and sio: "admits_first sio" and q: "quiet s"
    and x: "0 < n" "unat st + unat n \<le> unat (agBlocks sb)" "run_blocks (st, n) \<inter> free_set bs = {}"
    and room: "length bs + 3 \<le> leaf_slots sb"
  obtains d' rv agf' bs' cs' where
    "freeBlocks sio (Suc (Suc (Suc fuel))) partOff sb (agAbsBlock sb ag st) n s = (Inr (), s\<lparr>disk := d', reserve := rv\<rparr>)"
    "group_with K partOff sb ag bnoRel cntRel d' agf' bs' cs'" "free_set bs' = free_set bs \<union> run_blocks (st, n)" "agf_step n cs' agf agf'"
    "length bs' \<le> length bs + 3" "cut_by 4 bs bs'"
proof -
  let ?x = "(st, n)" and ?s = "s\<lparr>opDepth := opDepth s + 1\<rparr>"
  let ?af = "fst (allocOps (Suc (Suc fuel)) sio partOff sb)" and ?ff = "snd (allocOps (Suc (Suc fuel)) sio partOff sb)"
  let ?ma = "allocMetaAllocBlock ?af sb ag"
  have g0: "grp K partOff sb ag bnoRel cntRel (disk ?s) agf bs cs" and ok: "leaves_ok sb bs cs" and sub: "set bs \<subseteq> set cs"
    using g by (simp_all add: group_with_def)
  have st0: "mergedQ ?s = []" "reserveDepth ?s = 0" "\<not> draining ?s" using q by (simp_all add: quiet_def)
  have lc: "length cs = length bs" by (rule group_ok_length [OF group_withD(1) [OF g]])
  have i1: "ins_ok sb True ?x bs cs" using ok x by (simp add: ins_ok_def)
  obtain d1 agf1 bs1 cs1 rv1 where r1: "allocInsertWithReserve ?af ?ff ag 1 (insOp True ?ma (Suc (Suc fuel)) partOff sb ag bnoRel cntRel ?x) ?s =
      (Inr (), ?s\<lparr>disk := d1, reserve := rv1\<rparr>)" "grp K partOff sb ag bnoRel cntRel d1 agf1 bs1 cs1" "stage_done sb True ?x bs cs bs1 cs1"
    "be32 agf1 52 = be32 agf 52" "same_agf agf agf1"
    by (rule reserve_insert [OF g0 i1 sio st0]) (use room lc in \<open>simp_all add: leaf_slots_def\<close>)
  let ?s1 = "?s\<lparr>disk := d1, reserve := rv1\<rparr>"
  have g1: "grp K partOff sb ag bnoRel cntRel (disk ?s1) agf1 bs1 cs1" using r1(2) by simp
  have sd: "leaves_ok sb bs1 cs1" "free_set bs1 = free_set bs \<union> run_blocks ?x" "length bs1 \<le> length bs + 2" "length cs1 \<le> length cs + 1"
    "?x \<in> set bs1" "set bs1 \<subseteq> insert ?x (set cs1)" "run_blocks ?x \<inter> free_set cs1 = {}"
    using r1(3) sub by (simp_all add: stage_done_def)
  have i2: "ins_ok sb False ?x bs1 cs1" using sd x by (simp add: ins_ok_def)
  have st1: "mergedQ ?s1 = []" "reserveDepth ?s1 = 0" "\<not> draining ?s1" using st0 by simp_all
  obtain d2 agf2 bs2 cs2 rv2 where r2: "allocInsertWithReserve ?af ?ff ag 1 (insOp False ?ma (Suc (Suc fuel)) partOff sb ag bnoRel cntRel ?x) ?s1 =
      (Inr (), ?s1\<lparr>disk := d2, reserve := rv2\<rparr>)" "grp K partOff sb ag bnoRel cntRel d2 agf2 bs2 cs2" "stage_done sb False ?x bs1 cs1 bs2 cs2"
    "be32 agf2 52 = be32 agf1 52" "same_agf agf1 agf2"
    by (rule reserve_insert [OF g1 i2 sio st1]) (use room lc sd(3,4) in \<open>simp_all add: leaf_slots_def\<close>)
  let ?s2 = "?s1\<lparr>disk := d2, reserve := rv2\<rparr>"
  have g2: "grp K partOff sb ag bnoRel cntRel (disk ?s2) agf2 bs2 cs2" using r2(2) by simp
  have se: "leaves_ok sb bs2 cs2" "free_set bs2 = free_set bs1" "set bs2 \<subseteq> set cs2" using r2(3) sd(6) by (simp_all add: stage_done_def)
  obtain d' agf' where u: "updateCounts sio (Suc (Suc fuel)) partOff sb ag agf2 n cntRel 1 ?s2 = (Inr (), ?s2\<lparr>disk := d'\<rparr>)"
    "grp K partOff sb ag bnoRel cntRel d' agf' bs2 cs2" "be32 agf' 52 = be32 agf2 52 + n" "be32 agf' 56 = longest_of cs2" "same_agf agf2 agf'"
    by (rule grp_update_counts [OF g2 sio])
  have pk: "fsbToAgAgbno sb (agAbsBlock sb ag st) = (ag, st)"
    using g0 x(1,2) by (intro fsbToAgAgbno_pack) (simp_all add: grp_def group_fits_def word_less_nat_alt)
  have core: "freeBlocksCore sio ?af ?ff (Suc (Suc fuel)) partOff sb (agAbsBlock sb ag st) n ?s = (Inr (), ?s2\<lparr>disk := d'\<rparr>)"
    using grp_getAGF [OF g0] grp_getAGF [OF g1] grp_getAGF [OF g2] r1(1) r2(1) u(1)
    by (simp add: freeBlocksCore_def bindIO_apply Let_def pk insOp_def del: allocOps.simps)
  have "freeBlocks sio (Suc (Suc (Suc fuel))) partOff sb (agAbsBlock sb ag st) n s = (Inr (), ?s2\<lparr>disk := d', opDepth := opDepth s\<rparr>)"
    using withOp_disk [of "freeBlocksCore sio ?af ?ff (Suc (Suc fuel)) partOff sb (agAbsBlock sb ag st) n" s, OF core, of sio sb ?ff "Suc (Suc fuel)"] q
    unfolding freeBlocks_def by (subst allocOps.simps) (simp add: Let_def quiet_def del: allocOps.simps)
  then have "freeBlocks sio (Suc (Suc (Suc fuel))) partOff sb (agAbsBlock sb ag st) n s = (Inr (), s\<lparr>disk := d', reserve := rv2\<rparr>)"
    by (cases s) simp
  moreover have "group_with K partOff sb ag bnoRel cntRel d' agf' bs2 cs2" using u(2) se by (simp add: group_with_def)
  moreover have "agf_step n cs2 agf agf'"
    using u(3-5) r1(4,5) r2(4,5) by (auto simp: agf_step_def intro: same_agf_trans)
  moreover have "length bs2 \<le> length bs + 3" "cut_by 4 bs bs2"
    using r1(3) r2(3) cut_by_trans [of 2 bs bs1 2 bs2] by (simp_all add: stage_done_def)
  ultimately show ?thesis using se(2) sd(2) by (intro that [of rv2 d' agf' bs2 cs2]) simp_all
qed

lemma free_run:
  assumes g: "group_with K partOff sb ag bnoRel cntRel (disk s) agf bs cs" and sio: "admits_first sio" and q: "quiet s"
    and x: "0 < n" "unat st + unat n \<le> unat (agBlocks sb)" "run_blocks (st, n) \<inter> free_set bs = {}"
    and room: "length bs + 3 \<le> leaf_slots sb"
  obtains d' rv agf' bs' cs' where
    "freeBlocks sio (Suc (Suc (Suc fuel))) partOff sb (agAbsBlock sb ag st) n s = (Inr (), s\<lparr>disk := d', reserve := rv\<rparr>)"
    "group_with K partOff sb ag bnoRel cntRel d' agf' bs' cs'" "free_set bs' = free_set bs \<union> run_blocks (st, n)" "agf_step n cs' agf agf'"
  by (rule free_run_cut [OF assms], rule that)

text \<open>
  C8. \<^verbatim>\<open>freeBlocks\<close> on a group with single-leaf trees, for a run that lies in the group, is not
  free yet and has room in the leaves: the call succeeds although it reserves split blocks from
  the trees it is about to change; exactly the blocks of the run become free, both leaves are in
  order and agree, \<^verbatim>\<open>agf_freeblks\<close> has grown by \<open>n\<close>, \<^verbatim>\<open>agf_longest\<close> is the longest run,
  and the rest of the AGF is as it was.
\<close>

theorem freeBlocks_single_leaf:
  assumes "group_ok partOff sb ag bnoRel cntRel (disk s) agf bs cs" and "admits_first sio" and "quiet s"
    and "0 < n" and "unat st + unat n \<le> unat (agBlocks sb)" and "{unat st..<unat st + unat n} \<inter> free_set bs = {}"
    and "length bs + 3 \<le> leaf_slots sb"
  shows "\<exists>d' rv agf' bs' cs'.
    freeBlocks sio (Suc (Suc (Suc fuel))) partOff sb (agAbsBlock sb ag st) n s = (Inr (), s\<lparr>disk := d', reserve := rv\<rparr>) \<and>
    group_ok partOff sb ag bnoRel cntRel d' agf' bs' cs' \<and> free_set bs' = free_set bs \<union> {unat st..<unat st + unat n} \<and>
    be32 agf' 52 = be32 agf 52 + n \<and> be32 agf' 56 = longest_of cs' \<and> same_agf agf agf'"
proof -
  have rb: "run_blocks (st, n) = {unat st..<unat st + unat n}" by (simp add: run_blocks_def)
  obtain d' rv agf' bs' cs' where
    "freeBlocks sio (Suc (Suc (Suc fuel))) partOff sb (agAbsBlock sb ag st) n s = (Inr (), s\<lparr>disk := d', reserve := rv\<rparr>)"
    "group_ok partOff sb ag bnoRel cntRel d' agf' bs' cs'" "free_set bs' = free_set bs \<union> run_blocks (st, n)" "agf_step n cs' agf agf'"
    by (rule free_run [OF assms(1) [folded group_with_True] assms(2-5) _ assms(7), unfolded group_with_True]) (use assms(6) rb in simp)
  then show ?thesis unfolding agf_step_def rb by blast
qed

section \<open>Histories of allocations and frees\<close>

text \<open>
  A history of one group: \<open>own\<close> is the list of the runs that are out. An owner frees whole runs
  it got; a failed allocation changes nothing that is out.
\<close>

inductive history :: "('g, 'v) safeio \<Rightarrow> nat \<Rightarrow> int64 \<Rightarrow> superblock \<Rightarrow> u32 \<Rightarrow> alloc \<Rightarrow> alloc \<Rightarrow> arec list \<Rightarrow> bool"
  for sio fuel partOff sb ag s0 where
  start: "history sio fuel partOff sb ag s0 s0 []"
| takes: "history sio fuel partOff sb ag s0 s own \<Longrightarrow> 0 < n \<Longrightarrow>
    allocBlocks sio (Suc (Suc (Suc fuel))) partOff sb ag n s = (Inr b, s') \<Longrightarrow>
    history sio fuel partOff sb ag s0 s' ((snd (fsbToAgAgbno sb b), n) # own)"
| refused: "history sio fuel partOff sb ag s0 s own \<Longrightarrow> 0 < n \<Longrightarrow>
    allocBlocks sio (Suc (Suc (Suc fuel))) partOff sb ag n s = (Inl e, s') \<Longrightarrow>
    history sio fuel partOff sb ag s0 s' own"
| gives: "history sio fuel partOff sb ag s0 s (xs @ r # ys) \<Longrightarrow>
    group_ok partOff sb ag bnoRel cntRel (disk s) agf bs cs \<Longrightarrow> length bs + 3 \<le> leaf_slots sb \<Longrightarrow>
    freeBlocks sio (Suc (Suc (Suc fuel))) partOff sb (agAbsBlock sb ag (fst r)) (snd r) s = (res, s') \<Longrightarrow>
    history sio fuel partOff sb ag s0 s' (xs @ ys)"

definition apart :: "arec list \<Rightarrow> bool" where
  "apart rs \<longleftrightarrow> sorted_wrt (\<lambda>a b. run_blocks a \<inter> run_blocks b = {}) rs"

text \<open>The free blocks and the runs that are out make up what was free at the start, without overlap.\<close>

definition partitioned :: "nat \<Rightarrow> nat set \<Rightarrow> arec list \<Rightarrow> nat set \<Rightarrow> bool" where
  "partitioned lim fs own all \<longleftrightarrow> apart own \<and> free_set own \<inter> fs = {} \<and> fs \<union> free_set own = all \<and>
     (\<forall>r\<in>set own. 0 < snd r \<and> unat (fst r) + unat (snd r) \<le> lim)"

lemma partitioned_take:
  assumes "partitioned lim fs own all" and "run_blocks r \<subseteq> fs" and "0 < snd r" and "unat (fst r) + unat (snd r) \<le> lim"
  shows "partitioned lim (fs - run_blocks r) (r # own) all"
proof -
  have "run_blocks r \<inter> run_blocks q = {}" if "q \<in> set own" for q
    using assms(1,2) that by (fastforce simp: partitioned_def free_set_def)
  then show ?thesis using assms by (auto simp: partitioned_def apart_def)
qed

lemma partitioned_give:
  assumes "partitioned lim fs (xs @ r # ys) all"
  shows "partitioned lim (fs \<union> run_blocks r) (xs @ ys) all" "run_blocks r \<inter> fs = {}" "0 < snd r" "unat (fst r) + unat (snd r) \<le> lim"
proof -
  have "run_blocks r \<inter> free_set (xs @ ys) = {}"
    using assms by (fastforce simp: partitioned_def apart_def sorted_wrt_append free_set_def)
  then show "partitioned lim (fs \<union> run_blocks r) (xs @ ys) all"
    using assms by (auto simp: partitioned_def apart_def sorted_wrt_append)
qed (use assms in \<open>auto simp: partitioned_def\<close>)

lemma group_ok_unique:
  assumes "group_ok partOff sb ag bnoRel cntRel d agf bs cs" and "group_ok partOff sb ag bnoRel' cntRel' d agf' bs' cs'"
  shows "bs' = bs"
proof -
  have a: "agf' = agf" "bnoRel' = bnoRel" using assms by (auto simp: group_ok_def grp_def)
  obtain b where "leaf_ok sb b bs" "leaf_ok sb b bs'" using assms a by (auto simp: group_ok_def grp_def)
  then show ?thesis by (simp add: leaf_ok_def)
qed

lemma history_partition:
  assumes "history sio fuel partOff sb ag s0 s own" and "group_ok partOff sb ag bnoRel cntRel (disk s0) agf0 bs0 cs0"
    and sio: "admits_first sio" and "quiet s0"
  shows "\<exists>agf bs cs. group_ok partOff sb ag bnoRel cntRel (disk s) agf bs cs \<and> quiet s \<and>
    partitioned (unat (agBlocks sb)) (free_set bs) own (free_set bs0) \<and>
    be32 agf 52 + sum_list (map snd own) = be32 agf0 52"
  using assms(1)
proof (induction rule: history.induct)
  case start
  then show ?case using assms(2,4) by (auto simp: partitioned_def apart_def)
next
  case (takes s own n b s')
  then obtain agf bs cs where ih: "group_ok partOff sb ag bnoRel cntRel (disk s) agf bs cs" "quiet s"
    "partitioned (unat (agBlocks sb)) (free_set bs) own (free_set bs0)" "be32 agf 52 + sum_list (map snd own) = be32 agf0 52"
    by blast
  have g: "grp (\<lambda>_. True) partOff sb ag bnoRel cntRel (disk s) agf bs cs" and ok: "leaves_ok sb bs cs" and sub: "set bs \<subseteq> set cs" and q: "mergedQ s = []"
    using ih(1,2) by (auto simp: group_ok_def quiet_def)
  have "\<not> (\<forall>r\<in>set cs. snd r < n)"
    using alloc_none [OF g sio, of n "Suc fuel"] takes(3) by (auto simp: allocBlocks_def simp del: allocOps.simps)
  then obtain r0 where r0: "r0 \<in> set cs" "n \<le> snd r0" by (auto simp: not_less)
  obtain r d' agf' bs' cs' where a: "best_fit cs n r"
    "fst (allocOps (Suc (Suc (Suc fuel))) sio partOff sb) ag n s = (Inr (agAbsBlock sb ag (fst r)), s\<lparr>disk := d'\<rparr>)"
    "grp (\<lambda>_. True) partOff sb ag bnoRel cntRel d' agf' bs' cs'" "leaves_ok sb bs' cs'" "took n r bs bs'" "took n r cs cs'"
    "free_set bs' = free_set bs - {unat (fst r)..<unat (fst r) + unat n}" "agf_step (- n) cs' agf agf'"
    by (rule alloc_run [OF g ok sio q takes(2) r0])
  have r: "r \<in> set bs" "n \<le> snd r" using a(1) ok by (auto simp: best_fit_def leaves_ok_def)
  then have lim: "unat (fst r) + unat (snd r) \<le> unat (agBlocks sb)" "unat n \<le> unat (snd r)" "0 < unat n"
    using ok takes(2) by (auto simp: leaves_ok_def runs_ok_def word_le_nat_alt word_less_nat_alt)
  have pk: "fsbToAgAgbno sb (agAbsBlock sb ag (fst r)) = (ag, fst r)"
    using g lim by (intro fsbToAgAgbno_pack) (simp_all add: grp_def group_fits_def word_less_nat_alt)
  have s': "b = agAbsBlock sb ag (fst r)" "s' = s\<lparr>disk := d'\<rparr>" using takes(3) a(2) by (simp_all add: allocBlocks_def del: allocOps.simps)
  have "run_blocks (fst r, n) \<subseteq> free_set bs" using r(1) lim by (fastforce simp: free_set_def run_blocks_def)
  then have "partitioned (unat (agBlocks sb)) (free_set bs - run_blocks (fst r, n)) ((fst r, n) # own) (free_set bs0)"
    using partitioned_take [OF ih(3)] takes(2) lim by simp
  moreover have "free_set bs - run_blocks (fst r, n) = free_set bs'" using a(7) by (simp add: run_blocks_def)
  moreover have "group_ok partOff sb ag bnoRel cntRel (disk s') agf' bs' cs'" using a(3,4) took_same [OF a(5,6) sub] s' by (simp add: group_ok_def)
  moreover have "be32 agf' 52 + sum_list (map snd ((fst r, n) # own)) = be32 agf0 52" using a(8) ih(4) by (simp add: agf_step_def)
  moreover have "quiet s'" using ih(2) s' by (simp add: quiet_def)
  ultimately show ?case unfolding s'(1) pk snd_conv by metis
next
  case (refused s own n e s')
  then obtain agf bs cs where ih: "group_ok partOff sb ag bnoRel cntRel (disk s) agf bs cs" "quiet s"
    "partitioned (unat (agBlocks sb)) (free_set bs) own (free_set bs0)" "be32 agf 52 + sum_list (map snd own) = be32 agf0 52"
    by blast
  have g: "grp (\<lambda>_. True) partOff sb ag bnoRel cntRel (disk s) agf bs cs" and ok: "leaves_ok sb bs cs" and q: "mergedQ s = []"
    using ih(1,2) by (auto simp: group_ok_def quiet_def)
  have "\<forall>r\<in>set cs. snd r < n"
  proof (rule ccontr)
    assume "\<not> (\<forall>r\<in>set cs. snd r < n)"
    then obtain r0 where "r0 \<in> set cs" "n \<le> snd r0" by (auto simp: not_less)
    from alloc_run [OF g ok sio q refused(2) this, of "Suc fuel"] refused(3) show False
      by (auto simp: allocBlocks_def simp del: allocOps.simps)
  qed
  from alloc_none [OF g sio this, of "Suc fuel"] refused(3) have "s' = s" by (simp add: allocBlocks_def del: allocOps.simps)
  with ih show ?case by blast
next
  case (gives s xs r ys bnoRel' cntRel' agf' bs' cs' res s')
  then obtain agf bs cs where ih: "group_ok partOff sb ag bnoRel cntRel (disk s) agf bs cs" "quiet s"
    "partitioned (unat (agBlocks sb)) (free_set bs) (xs @ r # ys) (free_set bs0)" "be32 agf 52 + sum_list (map snd (xs @ r # ys)) = be32 agf0 52"
    by blast
  have "bs' = bs" by (rule group_ok_unique [OF ih(1) gives(2)])
  then have "length bs + 3 \<le> leaf_slots sb" using gives(3) by simp
  note pg = partitioned_give [OF ih(3)]
  obtain d2 rv agf2 bs2 cs2 where f: "freeBlocks sio (Suc (Suc (Suc fuel))) partOff sb (agAbsBlock sb ag (fst r)) (snd r) s = (Inr (), s\<lparr>disk := d2, reserve := rv\<rparr>)"
    "group_ok partOff sb ag bnoRel cntRel d2 agf2 bs2 cs2" "free_set bs2 = free_set bs \<union> run_blocks (fst r, snd r)" "agf_step (snd r) cs2 agf agf2"
    by (rule free_run [OF ih(1) [folded group_with_True] sio ih(2) pg(3,4), unfolded group_with_True]) (use pg(2) \<open>length bs + 3 \<le> leaf_slots sb\<close> in simp_all)
  have "s' = s\<lparr>disk := d2, reserve := rv\<rparr>" using gives f(1) by simp
  moreover from this have "quiet s'" using ih(2) by (simp add: quiet_def)
  moreover have "be32 agf2 52 + sum_list (map snd (xs @ ys)) = be32 agf0 52" using f(4) ih(4) by (simp add: agf_step_def algebra_simps)
  ultimately show ?case using f(2,3) pg(1) by (intro exI [of _ agf2] exI [of _ bs2] exI [of _ cs2]) simp
qed

text \<open>
  C6. No history of allocations and frees on a group with single-leaf trees hands a block out
  twice or loses one: the runs that are out never overlap each other or the free blocks, together
  with the free blocks they are exactly the blocks that were free at the start, \<^verbatim>\<open>agf_freeblks\<close>
  is the old value less the blocks that are out, and the group is in order again.
\<close>

theorem no_block_lost_or_shared:
  assumes "history sio fuel partOff sb ag s0 s own" and "group_ok partOff sb ag bnoRel cntRel (disk s0) agf0 bs0 cs0"
    and "admits_first sio" and "quiet s0"
  shows "\<exists>agf bs cs. group_ok partOff sb ag bnoRel cntRel (disk s) agf bs cs \<and> apart own \<and> free_set own \<inter> free_set bs = {} \<and>
    free_set bs \<union> free_set own = free_set bs0 \<and> be32 agf 52 + sum_list (map snd own) = be32 agf0 52"
  using history_partition [OF assms] unfolding partitioned_def by blast

section \<open>The small image\<close>

lemma small_fields:
  "be32 (small_part 512 512) 16 = 4" "be32 (small_part 512 512) 20 = 5" "be32 (small_part 512 512) 28 = 1" "be32 (small_part 512 512) 32 = 1"
  "be32 (small_part 2048 512) 12 = nullAgBlock" "be32 (small_part 2048 512) 16 = 8" "be32 (small_part 2048 512) 20 = 8"
  "be32 (small_part 2560 512) 12 = nullAgBlock" "be32 (small_part 2560 512) 16 = 8" "be32 (small_part 2560 512) 20 = 8"
  by (simp add: be32_small_part small_dev_def small_bytes_def be_word_def nullAgBlock_def, code_simp)+

lemma small_counts:
  "be16 (small_part 2048 512) 4 = 0" "be16 (small_part 2048 512) 6 = 1" "be16 (small_part 2560 512) 4 = 0" "be16 (small_part 2560 512) 6 = 1"
  by (simp add: be16_small_part small_dev_def small_bytes_def be_word_def, code_simp)+

lemma recsOf_1: "recsOf b hdr (Suc 0) = [(be32 b hdr, be32 b (hdr + 4))]"
  by (rule nth_equalityI) (simp_all add: nth_recsOf)

lemma small_leaf:
  "leaf_ok sb_group (small_part 2048 512) [(8, 8)]" "leaf_ok sb_group (small_part 2560 512) [(8, 8)]"
  by (simp_all add: leaf_ok_def small_fields small_counts count_of_def agBTreeHdrSize_def btreeHdrSize_def allocMaxLeaf_def allocRecSize_def recsOf_1)

lemma small_group: "group_ok 0 sb_group 0 4 5 (disk (freshAlloc small_dev)) (small_part 512 512) [(8, 8)] [(8, 8)]"
  using small_fits small_leaf small_headers(1) small_block [of 4] small_block [of 5]
  by (simp add: group_ok_def grp_def leaves_ok_def runs_ok_def body_block_def sectSize_def agf_offs small_fields freshAlloc_def)

lemma small_quiet: "quiet (freshAlloc small_dev)"
  by (simp add: quiet_def freshAlloc_def)

lemma small_free: "free_set [(8, 8)] = {8..<16}"
  by (simp add: run_blocks_def)

lemma Suc_numerals: "Suc (Suc 0) = 2" "Suc (Suc (Suc 0)) = 3"
  by simp_all

theorem allocBlocks_single_leaf_witness:
  "(\<exists>d' agf' bs' cs'. allocBlocks safeio_ref 2 0 sb_group 0 3 (freshAlloc small_dev) = (Inr (agAbsBlock sb_group 0 8), (freshAlloc small_dev)\<lparr>disk := d'\<rparr>) \<and>
     group_ok 0 sb_group 0 4 5 d' agf' bs' cs' \<and> free_set bs' = {11..<16} \<and> be32 agf' 52 = 5) \<and>
   allocBlocks safeio_ref 2 0 sb_group 0 9 (freshAlloc small_dev) = (Inl ErrNoSpace, freshAlloc small_dev)"
proof
  have q: "mergedQ (freshAlloc small_dev) = []" using small_quiet by (simp add: quiet_def)
  note t = allocBlocks_single_leaf [OF small_group safeio_ref_admits q, where fuel = 0, unfolded Suc_numerals]
  show "allocBlocks safeio_ref 2 0 sb_group 0 9 (freshAlloc small_dev) = (Inl ErrNoSpace, freshAlloc small_dev)"
    using t [of 9] by simp
  have d: "{8..<16} - {8..<11 :: nat} = {11..<16}" by auto
  obtain r d' agf' bs' cs' where a: "allocBlocks safeio_ref 2 0 sb_group 0 3 (freshAlloc small_dev) = (Inr (agAbsBlock sb_group 0 (fst r)), (freshAlloc small_dev)\<lparr>disk := d'\<rparr>)"
    "best_fit [(8, 8)] 3 r" "group_ok 0 sb_group 0 4 5 d' agf' bs' cs'" "free_set bs' = free_set [(8, 8)] - {unat (fst r)..<unat (fst r) + unat (3 :: u32)}"
    "be32 agf' 52 = be32 (small_part 512 512) 52 - 3"
    using t [of 3] by auto
  have "r = (8, 8)" using a(2) by (simp add: best_fit_def)
  then show "\<exists>d' agf' bs' cs'. allocBlocks safeio_ref 2 0 sb_group 0 3 (freshAlloc small_dev) = (Inr (agAbsBlock sb_group 0 8), (freshAlloc small_dev)\<lparr>disk := d'\<rparr>) \<and>
     group_ok 0 sb_group 0 4 5 d' agf' bs' cs' \<and> free_set bs' = {11..<16} \<and> be32 agf' 52 = 5"
    using a d small_free small_counters(1) by (intro exI [of _ d'] exI [of _ agf'] exI [of _ bs'] exI [of _ cs']) simp
qed

theorem freeBlocks_single_leaf_witness:
  "\<exists>d' rv agf' bs' cs'. freeBlocks safeio_ref 3 0 sb_group (agAbsBlock sb_group 0 6) 2 (freshAlloc small_dev) =
       (Inr (), (freshAlloc small_dev)\<lparr>disk := d', reserve := rv\<rparr>) \<and>
     group_ok 0 sb_group 0 4 5 d' agf' bs' cs' \<and> free_set bs' = {6..<16} \<and> be32 agf' 52 = 10"
proof -
  have d: "{8..<16} \<union> {6..<8 :: nat} = {6..<16}" by auto
  have "\<exists>d' rv agf' bs' cs'. freeBlocks safeio_ref (Suc (Suc (Suc 0))) 0 sb_group (agAbsBlock sb_group 0 6) 2 (freshAlloc small_dev) =
       (Inr (), (freshAlloc small_dev)\<lparr>disk := d', reserve := rv\<rparr>) \<and>
     group_ok 0 sb_group 0 4 5 d' agf' bs' cs' \<and> free_set bs' = free_set [(8, 8)] \<union> {unat (6 :: u32)..<unat (6 :: u32) + unat (2 :: u32)} \<and>
     be32 agf' 52 = be32 (small_part 512 512) 52 + 2 \<and> be32 agf' 56 = longest_of cs' \<and> same_agf (small_part 512 512) agf'"
    by (rule freeBlocks_single_leaf [OF small_group safeio_ref_admits small_quiet])
      (simp_all add: run_blocks_def leaf_slots_def allocMaxLeaf_def agBTreeHdrSize_def btreeHdrSize_def allocRecSize_def)
  then show ?thesis unfolding Suc_numerals small_free small_counters(1) using d by auto
qed

text \<open>A history with one allocation and the free of what it got.\<close>

theorem no_block_lost_or_shared_witness:
  "\<exists>s agf bs cs. history safeio_ref 0 0 sb_group 0 (freshAlloc small_dev) s [(8, 3)] \<and>
    group_ok 0 sb_group 0 4 5 (disk s) agf bs cs \<and> free_set bs \<union> {8..<11} = {8..<16} \<and> be32 agf 52 + 3 = 8"
proof -
  have g: "grp (\<lambda>_. True) 0 sb_group 0 4 5 (disk (freshAlloc small_dev)) (small_part 512 512) [(8, 8)] [(8, 8)]" "leaves_ok sb_group [(8, 8)] [(8, 8)]"
    "mergedQ (freshAlloc small_dev) = []" using small_group small_quiet by (simp_all add: group_ok_def quiet_def)
  have n: "(0 :: u32) < 3" "(8, 8) \<in> set [(8, 8)]" "(3 :: u32) \<le> snd (8 :: u32, 8)" by simp_all
  obtain r d' where a: "best_fit [(8, 8)] 3 r"
    "fst (allocOps (Suc (Suc (Suc 0))) safeio_ref 0 sb_group) 0 3 (freshAlloc small_dev) = (Inr (agAbsBlock sb_group 0 (fst r)), (freshAlloc small_dev)\<lparr>disk := d'\<rparr>)"
    by (rule alloc_run [OF g(1,2) safeio_ref_admits g(3) n(1) n(2,3)])
  have "r = (8, 8)" using a(1) by (simp add: best_fit_def)
  then have al: "allocBlocks safeio_ref (Suc (Suc (Suc 0))) 0 sb_group 0 3 (freshAlloc small_dev) = (Inr (agAbsBlock sb_group 0 8), (freshAlloc small_dev)\<lparr>disk := d'\<rparr>)"
    using a(2) by (simp add: allocBlocks_def del: allocOps.simps)
  have "snd (fsbToAgAgbno sb_group (agAbsBlock sb_group 0 8)) = 8" using fsbToAgAgbno_pack [OF sb_group_valid, of 8 0] by simp
  with history.takes [OF history.start _ al] have h: "history safeio_ref 0 0 sb_group 0 (freshAlloc small_dev) ((freshAlloc small_dev)\<lparr>disk := d'\<rparr>) [(8, 3)]"
    by simp
  from no_block_lost_or_shared [OF h small_group safeio_ref_admits small_quiet] h small_counters(1) small_free
  show ?thesis by (fastforce simp: run_blocks_def)
qed

end
