(* ===== verification/Content.thy ===== *)
theory Content
  imports Lookup InodeAlloc GroupAlloc
begin

text \<open>
  Writing the content of an existing file (write.go: \<^verbatim>\<open>overwriteFile\<close>, \<^verbatim>\<open>writeExtentsInPlace\<close>,
  \<^verbatim>\<open>reallocAndWrite\<close>, \<^verbatim>\<open>promoteAndWrite\<close>, \<^verbatim>\<open>writeExtentList\<close>, \<^verbatim>\<open>writeBlocksData\<close>), and that
  what was written is what is read.

  The inode a Go function mutates through its pointer is passed in and returned. The loops that
  try one allocation group after another go on after an error; a panic, and the model's own
  \<open>OutOfFuel\<close>, end them.
\<close>

section \<open>Extent lists and data blocks\<close>

definition writeExtentList :: "inode \<Rightarrow> extent list \<Rightarrow> inode res" where
  "writeExtentList inode exts =
     (if length (dataFork inode) < length exts * 16 then Inl ErrForkTooSmall
      else Inr (inode\<lparr>iRaw := patch 176 (concat (map encodeExtent exts)) (iRaw inode)\<rparr>))"

text \<open>The \<open>k\<close>-th block of the data, filled up with zeros.\<close>

definition padBlock :: "nat \<Rightarrow> nat \<Rightarrow> bytes \<Rightarrow> bytes" where
  "padBlock bs k data = (let c = take bs (drop (k * bs) data) in c @ replicate (bs - length c) 0)"

fun writeChunks :: "nat \<Rightarrow> bytes \<Rightarrow> nat \<Rightarrow> int64 list \<Rightarrow> unit io" where
  "writeChunks bs data k [] = retIO ()"
| "writeChunks bs data k (off # offs) = bindIO (writeIO off (padBlock bs k data)) (\<lambda>_. writeChunks bs data (k + 1) offs)"

text \<open>The byte offsets of a run of blocks, as \<^verbatim>\<open>writeBlocksData\<close> computes them.\<close>

definition runOffsets :: "int64 \<Rightarrow> superblock \<Rightarrow> u64 \<Rightarrow> u32 \<Rightarrow> int64 list" where
  "runOffsets partOff sb absStartBlock nBlocks =
     map (\<lambda>b. partOff + (fsbToPhysBlock sb absStartBlock + of_nat b) * ucast (blockSize sb)) [0..<unat nBlocks]"

definition writeBlocksData :: "int64 \<Rightarrow> superblock \<Rightarrow> u64 \<Rightarrow> u32 \<Rightarrow> bytes \<Rightarrow> unit io" where
  "writeBlocksData partOff sb absStartBlock nBlocks data =
     writeChunks (unat (blockSize sb)) data 0 (runOffsets partOff sb absStartBlock nBlocks)"

definition extentOffsets :: "int64 \<Rightarrow> superblock \<Rightarrow> extent \<Rightarrow> int64 list" where
  "extentOffsets partOff sb e =
     (let physOff = partOff + fsbToPhysBlock sb (eStartBlock e) * ucast (blockSize sb)
      in map (\<lambda>b. physOff + of_nat b * ucast (blockSize sb)) [0..<unat (eCount e)])"

definition putInode :: "int64 \<Rightarrow> superblock \<Rightarrow> inode \<Rightarrow> inode aio" where
  "putInode partOff sb inode = onDisk (writeInode partOff sb inode)"

definition writeExtentsInPlace :: "int64 \<Rightarrow> superblock \<Rightarrow> inode \<Rightarrow> extent list \<Rightarrow> bytes \<Rightarrow> inode aio" where
  "writeExtentsInPlace partOff sb inode exts data =
     bindIO (onDisk (writeChunks (unat (blockSize sb)) data 0 (concat (map (extentOffsets partOff sb) exts)))) (\<lambda>_.
       putInode partOff sb (setInodeSize inode (of_nat (length data))))"

section \<open>Allocating in one group or another\<close>

primrec tryOthers :: "(u32 \<Rightarrow> 'a aio) \<Rightarrow> error \<Rightarrow> u32 list \<Rightarrow> 'a aio" where
  "tryOthers f e [] = failIO e"
| "tryOthers f e (a # as) = (\<lambda>s. case f a s of
     (Inr x, s') \<Rightarrow> (Inr x, s')
   | (Inl e', s') \<Rightarrow> if fatal e' then (Inl e', s') else tryOthers f e' as s')"

definition tryGroups :: "superblock \<Rightarrow> u32 \<Rightarrow> (u32 \<Rightarrow> 'a aio) \<Rightarrow> 'a aio" where
  "tryGroups sb ag f = (\<lambda>s. case f ag s of
     (Inr x, s') \<Rightarrow> (Inr x, s')
   | (Inl e, s') \<Rightarrow> if fatal e then (Inl e, s')
       else tryOthers f e (filter (\<lambda>a. a \<noteq> ag) (map of_nat [0..<unat (agCount sb)])) s')"

text \<open>An error that is replaced by a message of its own, without wrapping the cause.\<close>

definition reportNoSpace :: "'a aio \<Rightarrow> 'a aio" where
  "reportNoSpace m = (\<lambda>s. case m s of
     (Inr x, s') \<Rightarrow> (Inr x, s') | (Inl e, s') \<Rightarrow> (Inl (if fatal e then e else ErrNoSpace), s'))"

definition blocksFor :: "superblock \<Rightarrow> bytes \<Rightarrow> u32" where
  "blocksFor sb data = ucast ((of_nat (length data) + ucast (blockSize sb) - 1) div ucast (blockSize sb) :: u64)"

section \<open>Overwriting\<close>

text \<open>The inode of a file that is one run of blocks.\<close>

definition oneExtentInode :: "inode \<Rightarrow> u64 \<Rightarrow> u32 \<Rightarrow> bytes \<Rightarrow> inode res" where
  "oneExtentInode inode absBlock nBlocks data =
     bindR (writeExtentList inode [\<lparr>eStartOff = 0, eStartBlock = absBlock, eCount = nBlocks, eUnwritten = False\<rparr>]) (\<lambda>inode.
       Inr (setInodeFormat (setInodeNExtents (setInodeNBlocks (setInodeSize inode (of_nat (length data))) (ucast nBlocks)) 1) inodeFmtExtents))"

definition storeRun :: "int64 \<Rightarrow> superblock \<Rightarrow> inode \<Rightarrow> u64 \<Rightarrow> u32 \<Rightarrow> bytes \<Rightarrow> inode aio" where
  "storeRun partOff sb inode absBlock nBlocks data =
     bindIO (liftIO (oneExtentInode inode absBlock nBlocks data)) (\<lambda>inode.
     bindIO (putInode partOff sb inode) (\<lambda>inode.
     bindIO (onDisk (writeBlocksData partOff sb absBlock nBlocks data)) (\<lambda>_. retIO inode)))"

definition freeExtents :: "('g, 'v) safeio \<Rightarrow> nat \<Rightarrow> int64 \<Rightarrow> superblock \<Rightarrow> extent list \<Rightarrow> unit aio" where
  "freeExtents sio fuel partOff sb exts = forIO exts (\<lambda>e. freeBlocks sio fuel partOff sb (eStartBlock e) (eCount e))"

definition reallocAndWrite :: "('g, 'v) safeio \<Rightarrow> nat \<Rightarrow> int64 \<Rightarrow> superblock \<Rightarrow> inode \<Rightarrow> extent list \<Rightarrow> bytes \<Rightarrow> inode aio" where
  "reallocAndWrite sio fuel partOff sb inode oldExts data =
     bindIO (freeExtents sio fuel partOff sb oldExts) (\<lambda>_.
     let nBlocks = blocksFor sb data in
     bindIO (reportNoSpace (tryGroups sb (inoAG sb (iNum inode)) (\<lambda>a. allocBlocks sio fuel partOff sb a nBlocks))) (\<lambda>absBlock.
       storeRun partOff sb inode absBlock nBlocks data))"

definition promoteAndWrite :: "('g, 'v) safeio \<Rightarrow> nat \<Rightarrow> int64 \<Rightarrow> superblock \<Rightarrow> inode \<Rightarrow> bytes \<Rightarrow> inode aio" where
  "promoteAndWrite sio fuel partOff sb inode data =
     (let nBlocks = blocksFor sb data in
      bindIO (allocBlocks sio fuel partOff sb (inoAG sb (iNum inode)) nBlocks) (\<lambda>absBlock.
        storeRun partOff sb inode absBlock nBlocks data))"

text \<open>Inline content: the whole rest of the inode is cleared, then the data copied in.\<close>

definition writeInline :: "inode \<Rightarrow> bytes \<Rightarrow> inode" where
  "writeInline inode data =
     setInodeSize (inode\<lparr>iRaw := patch 176 data (zero_range 176 (length (dataFork inode)) (iRaw inode))\<rparr>) (of_nat (length data))"

definition forkCapacity :: "superblock \<Rightarrow> inode \<Rightarrow> u64" where
  "forkCapacity sb inode = (if iForkOff inode \<noteq> 0 then ucast (iForkOff inode) * 8 else ucast (inodeSize sb) - 176)"

definition rewriteExtents ::
  "('g, 'v) safeio \<Rightarrow> nat \<Rightarrow> int64 \<Rightarrow> superblock \<Rightarrow> inode \<Rightarrow> extent list \<Rightarrow> bytes \<Rightarrow> inode aio" where
  "rewriteExtents sio fuel partOff sb inode exts data =
     (let newBlocks = (of_nat (length data) + ucast (blockSize sb) - 1) div ucast (blockSize sb) :: u64;
          existingBlocks = sum_list (map (\<lambda>e. ucast (eCount e)) exts)
      in if newBlocks \<le> existingBlocks then writeExtentsInPlace partOff sb inode exts data
         else reallocAndWrite sio fuel partOff sb inode exts data)"

text \<open>\<^verbatim>\<open>overwriteFile\<close> after the inode is read and known to be a regular file that is not reflinked.\<close>

definition rewriteInode :: "('g, 'v) safeio \<Rightarrow> nat \<Rightarrow> int64 \<Rightarrow> superblock \<Rightarrow> inode \<Rightarrow> bytes \<Rightarrow> inode aio" where
  "rewriteInode sio fuel partOff sb inode data =
     (if iFormat inode = inodeFmtLocal
      then if of_nat (length data) \<le> forkCapacity sb inode then putInode partOff sb (writeInline inode data)
           else promoteAndWrite sio fuel partOff sb inode data
      else if iFormat inode = inodeFmtExtents
      then bindIO (liftIO (inlineExtents inode)) (\<lambda>exts. rewriteExtents sio fuel partOff sb inode exts data)
      else if iFormat inode = inodeFmtBtree
      then bindIO (readIO (\<lambda>s. returned (btreeExtents sio (disk s) partOff sb inode)))
             (\<lambda>exts. rewriteExtents sio fuel partOff sb inode exts data)
      else failIO ErrFormat)"

section \<open>The blocks of a buffer\<close>

lemma length_padBlock [simp]: "length (padBlock bs k data) = bs"
  by (simp add: padBlock_def Let_def)

lemma padBlock_concat:
  "concat (map (\<lambda>k. padBlock bs k data) [0..<n]) = take (n * bs) data @ replicate (n * bs - length data) 0"
proof (induction n)
  case (Suc n)
  show ?case
  proof (cases "length data \<le> n * bs")
    case True
    then have "padBlock bs n data = replicate bs 0" by (simp add: padBlock_def)
    moreover have "replicate (n * bs - length data) (0 :: byte) @ replicate bs 0 = replicate (Suc n * bs - length data) 0"
      using True by (simp flip: replicate_add)
    ultimately show ?thesis using Suc True by simp
  next
    case False
    have tk: "take (n * bs) data @ take bs (drop (n * bs) data) = take (Suc n * bs) data"
      using take_add [of "n * bs" bs data] by (simp add: add.commute)
    have "bs - min (length data - n * bs) bs = Suc n * bs - length data" using False by (simp add: min_def)
    then have pad: "padBlock bs n data = take bs (drop (n * bs) data) @ replicate (Suc n * bs - length data) 0"
      by (simp add: padBlock_def Let_def min.commute)
    have pre: "concat (map (\<lambda>k. padBlock bs k data) [0..<n]) = take (n * bs) data" using Suc False by simp
    have step: "concat (map (\<lambda>k. padBlock bs k data) [0..<Suc n]) =
        concat (map (\<lambda>k. padBlock bs k data) [0..<n]) @ padBlock bs n data" by simp
    show ?thesis unfolding step pre pad append.assoc [symmetric] tk ..
  qed
qed simp

lemma padBlock_data:
  assumes "length data \<le> n * bs"
  shows "concat (map (\<lambda>k. padBlock bs k data) [0..<n]) = data @ replicate (n * bs - length data) 0"
  using assms by (simp add: padBlock_concat)

lemma writeChunks_seq:
  "writeChunks bs data k offs d = (Inr (), d') \<longleftrightarrow>
     write_seq WriteAt d (zip offs (map (\<lambda>i. padBlock bs i data) [k..<k + length offs])) = Inr d'"
proof (induction offs arbitrary: k d)
  case (Cons off offs)
  have "[k..<k + length (off # offs)] = k # [Suc k..<Suc k + length offs]"
    unfolding list.size(4) add_Suc_right add_Suc by (simp add: upt_rec [of k "Suc (k + length offs)"] del: upt_Suc)
  then show ?case
    using Cons [of "Suc k"] by (auto simp: bindIO_def writeIO_def bindR_eq_Inr split: sum.splits)
qed simp

lemma writeChunks_ok:
  assumes "\<forall>off\<in>set offs. 0 \<le> sint off"
  shows "\<exists>d'. writeChunks bs data k offs d = (Inr (), d')"
  using assms
proof (induction offs arbitrary: k d)
  case (Cons off offs)
  then obtain d1 where "WriteAt d off (padBlock bs k data) = Inr d1" using file_store.wr_ok by fastforce
  with Cons show ?case by (auto simp: bindIO_def writeIO_def)
qed simp

section \<open>A run of blocks\<close>

text \<open>A run of \<open>n\<close> blocks from \<open>b\<close> on lies below \<open>2 ^ 63\<close>.\<close>

definition run_addressable :: "int64 \<Rightarrow> superblock \<Rightarrow> u64 \<Rightarrow> nat \<Rightarrow> bool" where
  "run_addressable partOff sb b n \<longleftrightarrow> 0 \<le> sint partOff \<and> blockSize sb \<noteq> 0 \<and>
     unat partOff + (unat (fsbToPhysBlock sb b) + n) * unat (blockSize sb) < 2 ^ 63"

lemma run_addressable_first: "run_addressable partOff sb b n \<Longrightarrow> addressable partOff sb b"
  unfolding run_addressable_def addressable_def by (auto simp: add_mult_distrib)

lemma run_offset:
  assumes "run_addressable partOff sb b n" and "k \<le> n"
  shows "unat (partOff + (fsbToPhysBlock sb b + of_nat k) * ucast (blockSize sb)) =
    unat partOff + (unat (fsbToPhysBlock sb b) + k) * unat (blockSize sb)"
proof -
  let ?p = "unat (fsbToPhysBlock sb b)" and ?B = "unat (blockSize sb)"
  have B: "0 < ?B" using assms(1) by (simp add: run_addressable_def word_neq_0_conv word_less_nat_alt)
  have "(?p + k) * ?B \<le> (?p + n) * ?B" using assms(2) by simp
  then have b: "unat partOff + (?p + k) * ?B < 2 ^ 63"
    using assms(1) unfolding run_addressable_def by linarith
  have "partOff + (fsbToPhysBlock sb b + of_nat k) * ucast (blockSize sb) = of_nat (unat partOff + (?p + k) * ?B)"
    by (simp add: of_nat_add of_nat_mult)
  then show ?thesis using b by (simp only: unat_of_nat) simp
qed

lemma sint_run_offset:
  assumes "run_addressable partOff sb b n" and "k \<le> n"
  shows "sint (partOff + (fsbToPhysBlock sb b + of_nat k) * ucast (blockSize sb)) =
    int (unat partOff + (unat (fsbToPhysBlock sb b) + k) * unat (blockSize sb))"
proof -
  let ?off = "partOff + (fsbToPhysBlock sb b + of_nat k) * ucast (blockSize sb)"
  have "(unat (fsbToPhysBlock sb b) + k) * unat (blockSize sb) \<le> (unat (fsbToPhysBlock sb b) + n) * unat (blockSize sb)"
    using assms(2) by simp
  then have "unat ?off < 2 ^ 63" using assms(1) unfolding run_offset [OF assms] run_addressable_def by linarith
  then show ?thesis by (simp only: sint_unat run_offset [OF assms])
qed

lemma adjacent_run:
  assumes "\<And>k. k < length ds \<Longrightarrow> sint (offs ! k) = p + int (k * bs)" and "length offs = length ds"
    and "\<forall>d\<in>set ds. length d = bs"
  shows "adjacent p (zip offs ds)"
  using assms
proof (induction ds arbitrary: offs p)
  case (Cons d ds)
  obtain off offs' where o: "offs = off # offs'" using Cons.prems(2) by (cases offs) auto
  have "sint off = p" using Cons.prems(1) [of 0] o by simp
  moreover have "adjacent (p + int bs) (zip offs' ds)"
  proof (rule Cons.IH)
    show "sint (offs' ! k) = p + int bs + int (k * bs)" if "k < length ds" for k
      using Cons.prems(1) [of "Suc k"] that o by simp
  qed (use Cons.prems o in simp_all)
  ultimately show ?case using o Cons.prems(3) by simp
qed simp

lemma map_snd_zip_run: "length offs = length ds \<Longrightarrow> map snd (zip offs ds) = ds"
  by (rule map_snd_zip)

text \<open>Blocks \<open>k\<close> to \<open>k + n - 1\<close> of the data, the last ones filled up with zeros.\<close>

definition blockRange :: "nat \<Rightarrow> nat \<Rightarrow> nat \<Rightarrow> bytes \<Rightarrow> bytes" where
  "blockRange bs k n data = concat (map (\<lambda>i. padBlock bs i data) [k..<k + n])"

lemma length_blockRange [simp]: "length (blockRange bs k n data) = n * bs"
  by (simp add: blockRange_def length_concat comp_def sum_list_triv)

lemma padBlock_shift: "padBlock bs (k + i) data = padBlock bs i (drop (k * bs) data)"
  by (simp add: padBlock_def add_mult_distrib add.commute)

lemma blockRange_eq:
  "blockRange bs k n data = take (n * bs) (drop (k * bs) data) @ replicate (n * bs - (length data - k * bs)) 0"
proof -
  have "[k..<k + n] = map (\<lambda>i. k + i) [0..<n]" by (simp add: map_add_upt add.commute)
  then have "blockRange bs k n data = concat (map (\<lambda>i. padBlock bs i (drop (k * bs) data)) [0..<n])"
    by (simp add: blockRange_def comp_def padBlock_shift)
  then show ?thesis by (simp add: padBlock_concat)
qed

lemma blockRange_data: "length data \<le> n * bs \<Longrightarrow> blockRange bs 0 n data = data @ replicate (n * bs - length data) 0"
  by (simp add: blockRange_eq)

text \<open>A range of the device outside a run of blocks.\<close>

definition off_run :: "int64 \<Rightarrow> superblock \<Rightarrow> u64 \<Rightarrow> nat \<Rightarrow> int64 \<Rightarrow> nat \<Rightarrow> bool" where
  "off_run partOff sb b n off m \<longleftrightarrow>
     sint off + int m \<le> int (unat partOff + unat (fsbToPhysBlock sb b) * unat (blockSize sb)) \<or>
     int (unat partOff + (unat (fsbToPhysBlock sb b) + n) * unat (blockSize sb)) \<le> sint off"

text \<open>
  A run that is written: every range outside it reads as before, and the run reads back as its
  blocks of the data.
\<close>

lemma writeRun_spec:
  assumes run: "run_addressable partOff sb b (unat n)"
  shows "\<exists>d'. writeChunks (unat (blockSize sb)) data k (runOffsets partOff sb b n) d = (Inr (), d') \<and>
    (0 < n \<longrightarrow> ReadAt d' (partOff + fsbToPhysBlock sb b * ucast (blockSize sb)) (unat n * unat (blockSize sb)) =
      Inr (blockRange (unat (blockSize sb)) k (unat n) data)) \<and>
    (\<forall>off m xs. ReadAt d off m = Inr xs \<and> off_run partOff sb b (unat n) off m \<longrightarrow> ReadAt d' off m = Inr xs)"
proof -
  let ?B = "unat (blockSize sb)" and ?p = "unat (fsbToPhysBlock sb b)"
  let ?offs = "runOffsets partOff sb b n" and ?start = "partOff + fsbToPhysBlock sb b * ucast (blockSize sb)"
  define ds where "ds = map (\<lambda>i. padBlock ?B i data) [k..<k + unat n]"
  have len: "length ?offs = unat n" "length ds = unat n" by (simp_all add: runOffsets_def ds_def)
  have off: "sint (?offs ! i) = int (unat partOff + ?p * ?B) + int (i * ?B)" if "i < unat n" for i
    using sint_run_offset [OF run, of i] that by (simp add: runOffsets_def algebra_simps)
  then have "\<forall>o'\<in>set ?offs. 0 \<le> sint o'" using len by (auto simp: in_set_conv_nth)
  then obtain d' where w: "writeChunks ?B data k ?offs d = (Inr (), d')"
    using writeChunks_ok by blast
  then have seq: "write_seq WriteAt d (zip ?offs ds) = Inr d'" by (simp add: writeChunks_seq len ds_def)
  have adj: "adjacent (int (unat partOff + ?p * ?B)) (zip ?offs ds)"
    by (rule adjacent_run [where bs = ?B]) (use off len in \<open>auto simp: ds_def\<close>)
  have cc: "concat (map snd (zip ?offs ds)) = blockRange ?B k (unat n) data"
    using map_snd_zip_run [of ?offs ds] len by (simp add: ds_def blockRange_def)
  have start: "sint ?start = int (unat partOff + ?p * ?B)"
    using sint_run_offset [OF run, of 0] by simp
  have "ReadAt d' ?start (unat n * ?B) = Inr (blockRange ?B k (unat n) data)" if "0 < n"
  proof -
    have "zip ?offs ds \<noteq> []" using that len by (auto simp: word_less_nat_alt zip_eq_Nil_iff)
    then show ?thesis using file_store.rd_writes_same [OF seq, of ?start] adj start cc by simp
  qed
  moreover have "ReadAt d' off m = Inr xs" if r: "ReadAt d off m = Inr xs" and "off_run partOff sb b (unat n) off m" for off m xs
    using file_store.rd_writes_frame [OF seq r adj] that(2) cc by (auto simp: off_run_def algebra_simps)
  ultimately show ?thesis using w by blast
qed

lemma writeBlocksData_spec:
  assumes run: "run_addressable partOff sb b (unat n)" and fits: "length data \<le> unat n * unat (blockSize sb)"
  shows "\<exists>d'. writeBlocksData partOff sb b n data d = (Inr (), d') \<and>
    (0 < n \<longrightarrow> ReadAt d' (partOff + fsbToPhysBlock sb b * ucast (blockSize sb)) (unat n * unat (blockSize sb)) =
      Inr (data @ replicate (unat n * unat (blockSize sb) - length data) 0)) \<and>
    (\<forall>off m xs. ReadAt d off m = Inr xs \<and> off_run partOff sb b (unat n) off m \<longrightarrow> ReadAt d' off m = Inr xs)"
  using writeRun_spec [OF run, of data 0 d] unfolding writeBlocksData_def blockRange_data [OF fits] .

lemma ReadAt_prefix:
  assumes "ReadAt d off n = Inr xs" and "m \<le> n"
  shows "ReadAt d off m = Inr (take m xs)"
  using assms by (auto simp: ReadAt_def take_map split: if_splits)

section \<open>The inode of a file that is one run\<close>

lemma drop_patch_before: "off + length bs \<le> k \<Longrightarrow> drop k (patch off bs buf) = drop k buf"
  by (rule nth_equalityI) (auto simp: nth_patch)

lemma drop_patch_at: "off \<le> length buf \<Longrightarrow> drop off (patch off bs buf) = patch 0 bs (drop off buf)"
  by (simp add: patch_def add.commute)

lemma patch_whole: "length bs \<le> length buf \<Longrightarrow> patch 0 bs buf = bs @ drop (length bs) buf"
  by (simp add: patch_def)

text \<open>The fork is not touched by the setters, nor the core by a write to the fork.\<close>

lemma dataFork_setters [simp]:
  "dataFork (setInodeSize inode v) = dataFork inode" "dataFork (setInodeNBlocks inode v) = dataFork inode"
  "dataFork (setInodeNExtents inode m) = dataFork inode" "dataFork (setInodeFormat inode f) = dataFork inode"
  by (simp_all add: dataFork_def setInodeSize_def setInodeNBlocks_def setInodeNExtents_def setInodeFormat_def put_defs drop_patch_before)

lemma setInode_sel [simp]:
  "iNum (setInodeSize inode v) = iNum inode" "iNum (setInodeNBlocks inode v) = iNum inode"
  "iNum (setInodeNExtents inode m) = iNum inode" "iNum (setInodeFormat inode f) = iNum inode"
  "iSize (setInodeSize inode v) = v" "iSize (setInodeNBlocks inode v) = iSize inode"
  "iSize (setInodeNExtents inode m) = iSize inode" "iSize (setInodeFormat inode f) = iSize inode"
  "iNBlocks (setInodeSize inode v) = iNBlocks inode" "iNBlocks (setInodeNBlocks inode v) = v"
  "iNBlocks (setInodeNExtents inode m) = iNBlocks inode" "iNBlocks (setInodeFormat inode f) = iNBlocks inode"
  "iNExts (setInodeSize inode v) = iNExts inode" "iNExts (setInodeNBlocks inode v) = iNExts inode"
  "iNExts (setInodeNExtents inode m) = m" "iNExts (setInodeFormat inode f) = iNExts inode"
  "iFormat (setInodeSize inode v) = iFormat inode" "iFormat (setInodeNBlocks inode v) = iFormat inode"
  "iFormat (setInodeNExtents inode m) = iFormat inode" "iFormat (setInodeFormat inode f) = f"
  "iMode (setInodeSize inode v) = iMode inode" "iMode (setInodeNBlocks inode v) = iMode inode"
  "iMode (setInodeNExtents inode m) = iMode inode" "iMode (setInodeFormat inode f) = iMode inode"
  by (simp_all add: setInodeSize_def setInodeNBlocks_def setInodeNExtents_def setInodeFormat_def)

lemma stampInode_sel [simp]:
  "iNum (stampInode sb inode) = iNum inode" "iSize (stampInode sb inode) = iSize inode"
  "iNBlocks (stampInode sb inode) = iNBlocks inode" "iNExts (stampInode sb inode) = iNExts inode"
  "iFormat (stampInode sb inode) = iFormat inode" "iMode (stampInode sb inode) = iMode inode"
  by (simp_all add: stampInode_def)

lemma drop_updateCRC: "off + 4 \<le> k \<Longrightarrow> drop k (updateCRC buf off len) = drop k buf"
proof -
  assume "off + 4 \<le> k"
  then have "window k (length buf - k) (updateCRC buf off len) = window k (length buf - k) buf"
    by (simp add: window_updateCRC)
  then show ?thesis by (simp add: window_def)
qed

lemma dataFork_stampInode [simp]: "dataFork (stampInode sb inode) = dataFork inode"
  by (simp add: stampInode_def dataFork_def drop_updateCRC)

lemma inodeNrext64_fork: "176 \<le> off \<Longrightarrow> inodeNrext64 (patch off bs raw) = inodeNrext64 raw"
  by (simp add: field_frame window_patch_before)

lemma parse_fork:
  "176 \<le> off \<Longrightarrow> parseInode i raw = Inr inode \<Longrightarrow>
    parseInode i (patch off bs raw) = Inr (inode\<lparr>iRaw := patch off bs raw\<rparr>)"
  by (auto simp: parseInode_def inodeNrext64_fork get_defs byte_at_window window_patch_before split: if_splits)

lemma inode_wf_fork:
  assumes "inode_wf sb inode" and "176 \<le> off"
  shows "inode_wf sb (inode\<lparr>iRaw := patch off bs (iRaw inode)\<rparr>)"
  using assms by (simp add: inode_wf_def parse_fork)

lemma length_iRaw_setters [simp]:
  "length (iRaw (setInodeSize inode v)) = length (iRaw inode)" "length (iRaw (setInodeNBlocks inode v)) = length (iRaw inode)"
  "length (iRaw (setInodeNExtents inode m)) = length (iRaw inode)" "length (iRaw (setInodeFormat inode f)) = length (iRaw inode)"
  by (simp_all add: setInodeSize_def setInodeNBlocks_def setInodeNExtents_def setInodeFormat_def)

lemma inodeNrext64_setters [simp]:
  "176 \<le> length (iRaw inode) \<Longrightarrow> inodeNrext64 (iRaw (setInodeSize inode v)) = inodeNrext64 (iRaw inode)"
  "176 \<le> length (iRaw inode) \<Longrightarrow> inodeNrext64 (iRaw (setInodeNBlocks inode v)) = inodeNrext64 (iRaw inode)"
  by (simp_all add: setInodeSize_def setInodeNBlocks_def inodeNrext64_frame)

lemma oneExtentInode_spec:
  assumes "inode_wf sb inode" and "\<not> inodeNrext64 (iRaw inode)" and "192 \<le> unat (inodeSize sb)"
    and "unat b < 2 ^ 52" and "unat n < 2 ^ 21"
  shows "\<exists>inode'. oneExtentInode inode b n data = Inr inode' \<and> inode_wf sb inode' \<and> iNum inode' = iNum inode \<and>
    iFormat inode' = inodeFmtExtents \<and> iSize inode' = of_nat (length data) \<and> iNBlocks inode' = ucast n \<and> iMode inode' = iMode inode \<and>
    \<not> inodeNrext64 (iRaw inode') \<and> inlineExtents inode' = Inr [\<lparr>eStartOff = 0, eStartBlock = b, eCount = n, eUnwritten = False\<rparr>]"
proof -
  let ?e = "\<lparr>eStartOff = 0, eStartBlock = b, eCount = n, eUnwritten = False\<rparr>"
  let ?i1 = "inode\<lparr>iRaw := patch 176 (encodeExtent ?e) (iRaw inode)\<rparr>"
  let ?i2 = "setInodeNBlocks (setInodeSize ?i1 (of_nat (length data))) (ucast n)"
  let ?i = "setInodeFormat (setInodeNExtents ?i2 1) inodeFmtExtents"
  have len: "length (iRaw inode) = unat (inodeSize sb)" using assms(1) by (simp add: inode_wf_def)
  have elen: "length (encodeExtent ?e) = 16" by (simp add: encodeExtent_def Let_def)
  have res: "oneExtentInode inode b n data = Inr ?i"
    using len assms(3) by (simp add: oneExtentInode_def writeExtentList_def dataFork_def)
  note fork = inode_wf_fork [OF assms(1), of 176 "encodeExtent ?e", OF order_refl]
  have nr: "\<not> inodeNrext64 (iRaw ?i2)" using assms(2,3) len by (simp add: inodeNrext64_fork)
  then have nr': "\<not> inodeNrext64 (iRaw ?i)" using assms(3) len by (simp add: setInodeNExtents_def setInodeFormat_def inodeNrext64_frame)
  from nr have wf: "inode_wf sb ?i"
    using inode_wf_setters(1) [OF fork] inode_wf_setters(2,3,4) by blast
  have "dataFork ?i = dataFork ?i1" by (simp only: dataFork_setters)
  also have "\<dots> = encodeExtent ?e @ drop 16 (dataFork inode)"
    using len assms(3) elen by (simp add: dataFork_def drop_patch_at patch_whole)
  finally have "dataFork ?i = encodeExtent ?e @ drop 16 (dataFork inode)" .
  moreover have "decodeExtent (encodeExtent ?e @ rest) = ?e" for rest
    by (rule decode_encode) (use assms(4,5) in \<open>simp add: extent_ok_def\<close>)
  ultimately have "inlineExtents ?i = Inr [?e]"
    using elen by (simp add: inlineExtents_def Let_def validateExtents_def)
  with res wf nr' show ?thesis by simp
qed

section \<open>What is written is read\<close>

text \<open>The size is within what a read may return: the configured limit and the size of the image.\<close>

definition within_limits :: "superblock \<Rightarrow> nat \<Rightarrow> bool" where
  "within_limits sb len \<longleftrightarrow> int len \<le> sint (maxReadLimit sb) \<and> (snd (declaredBytes sb) \<longrightarrow> int len \<le> sint (fst (declaredBytes sb)))"

lemma fileCeiling_within:
  assumes "within_limits sb len" and "iNBlocks inode = ucast (n :: u32)" and "unat n < 2 ^ 21" and "len \<le> unat n * unat (blockSize sb)"
  shows "int len \<le> sint (fileCeiling sb inode)"
proof -
  let ?B = "unat (blockSize sb)"
  have B: "?B < 2 ^ 32" using unat_lt(3) [of "blockSize sb"] by simp
  have le: "\<not> iNBlocks inode > push_bit 48 1"
    using assms(2,3) by (simp add: word_less_nat_alt)
  have "(unat n + 1) * ?B < 2 ^ 21 * 2 ^ 32"
    by (rule mult_le_less_imp_less) (use assms(3) B in simp_all)
  then have lt: "(unat n + 1) * ?B < 2 ^ 63" by simp
  have "inodeMaxBytes sb inode = of_nat ((unat n + 1) * ?B)"
    using le assms(2) by (simp add: inodeMaxBytes_def algebra_simps)
  then have "unat (inodeMaxBytes sb inode) = (unat n + 1) * ?B" using lt by (simp only: unat_of_nat) simp
  then have "sint (inodeMaxBytes sb inode) = int ((unat n + 1) * ?B)" using lt sint_unat [of "inodeMaxBytes sb inode"] by simp
  moreover have "len \<le> (unat n + 1) * ?B" using assms(4) by simp
  ultimately have "int len \<le> sint (inodeMaxBytes sb inode)" by (simp only: of_nat_le_iff)
  with assms(1) show ?thesis
    by (auto simp: fileCeiling_def within_limits_def Let_def split: prod.splits)
qed

lemma readExtents_one:
  assumes "makes_bytes sio" and "int (length data) \<le> sint (fileCeiling sb inode)" and "length data \<le> unat n * unat (blockSize sb)"
    and run: "run_addressable partOff sb b (unat n)"
    and rd: "0 < n \<longrightarrow> ReadAt d (partOff + fsbToPhysBlock sb b * ucast (blockSize sb)) (unat n * unat (blockSize sb)) =
      Inr (data @ replicate (unat n * unat (blockSize sb) - length data) 0)"
  shows "readExtents sio d partOff sb [\<lparr>eStartOff = 0, eStartBlock = b, eCount = n, eUnwritten = False\<rparr>]
    (of_nat (length data)) inode = Inr data"
proof -
  let ?B = "unat (blockSize sb)" and ?sz = "of_nat (length data) :: u64"
  have "(unat (fsbToPhysBlock sb b) + unat n) * ?B < 2 ^ 63" using run unfolding run_addressable_def by linarith
  then have nB: "unat n * ?B < 2 ^ 63" by (simp add: add_mult_distrib)
  then have len: "length data < 2 ^ 63" using assms(3) by linarith
  then have sz: "unat ?sz = length data" using unat_of_nat_small [of "length data"] by simp
  then have ssz: "sint ?sz = int (length data)" using len sint_unat [of ?sz] by simp
  have mk: "MakeBytes sio ?sz (fileCeiling sb inode) = Inr (replicate (length data) 0)"
    using assms(1,2) ssz by (simp add: makes_bytes_def)
  show ?thesis
  proof (cases "data = []")
    case True
    then show ?thesis using mk by (simp add: readExtents_def)
  next
    case False
    have n0: "0 < n" using False assms(3) by (auto simp: word_neq_0_conv [symmetric])
    have bE: "unat (ucast n * ucast (blockSize sb) :: u64) = unat n * ?B"
      using nB unat_mult_small [of "ucast n" "ucast (blockSize sb)"] by simp
    have le: "(if ?sz < ucast n * ucast (blockSize sb) then ?sz else ucast n * ucast (blockSize sb)) = ?sz"
      using bE sz assms(3) by (auto simp: word_less_nat_alt word_unat_eq_iff)
    have "ReadAt d (partOff + fsbToPhysBlock sb b * ucast (blockSize sb)) (length data) = Inr data"
      using ReadAt_prefix [OF rd [rule_format, OF n0] assms(3)] by simp
    moreover have "?sz \<noteq> 0" using False sz by auto
    moreover have "blockByteOffset partOff sb b = Inr (partOff + fsbToPhysBlock sb b * ucast (blockSize sb))"
      using run_addressable_first [OF run] unfolding addressable_def by (blast intro: blockByteOffset_ok)
    ultimately show ?thesis
      using mk le sz by (simp add: readExtents_def Let_def patch_whole not_le)
  qed
qed

text \<open>The slot of an inode and a run of blocks have no byte in common.\<close>

definition run_apart :: "superblock \<Rightarrow> u64 \<Rightarrow> u64 \<Rightarrow> nat \<Rightarrow> bool" where
  "run_apart sb ino b n \<longleftrightarrow>
     ino_pos sb ino + unat (inodeSize sb) \<le> unat (fsbToPhysBlock sb b) * unat (blockSize sb) \<or>
     (unat (fsbToPhysBlock sb b) + n) * unat (blockSize sb) \<le> ino_pos sb ino"

lemma slot_off_run:
  assumes "inodes_fit sb partOff" and "ino_in_range sb ino" and "run_apart sb ino b n"
  shows "off_run partOff sb b n (inodeByteOff sb partOff ino) (unat (inodeSize sb))"
proof -
  have "int (ino_pos sb ino) + int (unat (inodeSize sb)) \<le> int (unat (fsbToPhysBlock sb b) * unat (blockSize sb)) \<or>
      int ((unat (fsbToPhysBlock sb b) + n) * unat (blockSize sb)) \<le> int (ino_pos sb ino)"
    using assms(3) unfolding run_apart_def by linarith
  then show ?thesis unfolding off_run_def inodeByteOff_sint [OF assms(1,2)] by linarith
qed

text \<open>A place for a file of that length: representable, addressable, clear of the inode.\<close>

definition good_run :: "int64 \<Rightarrow> superblock \<Rightarrow> u64 \<Rightarrow> u64 \<Rightarrow> u32 \<Rightarrow> nat \<Rightarrow> bool" where
  "good_run partOff sb ino b n len \<longleftrightarrow> unat b < 2 ^ 52 \<and> unat n < 2 ^ 21 \<and> len \<le> unat n * unat (blockSize sb) \<and>
     run_addressable partOff sb b (unat n) \<and> run_apart sb ino b (unat n)"

text \<open>An inode of the image that can take an extent record.\<close>

definition writable :: "int64 \<Rightarrow> superblock \<Rightarrow> inode \<Rightarrow> bool" where
  "writable partOff sb inode \<longleftrightarrow> inodes_fit sb partOff \<and> ino_in_range sb (iNum inode) \<and> inode_wf sb inode \<and>
     192 \<le> unat (inodeSize sb) \<and> \<not> inodeNrext64 (iRaw inode)"

lemma storeRun_reads_back:
  assumes sio: "makes_bytes sio" and w: "writable partOff sb inode"
    and run: "good_run partOff sb (iNum inode) b n (length data)" and lim: "within_limits sb (length data)"
  shows "\<exists>inode' s'. storeRun partOff sb inode b n data s = (Inr inode', s') \<and>
    readInode (disk s') partOff sb (iNum inode) = Inr inode' \<and>
    readFileData sio (disk s') partOff sb inode' = Some (Inr data)"
proof -
  let ?i = "iNum inode"
  have fit: "inodes_fit sb partOff" "ino_in_range sb ?i" using w by (simp_all add: writable_def)
  obtain i1 where i1: "oneExtentInode inode b n data = Inr i1" "inode_wf sb i1" "iNum i1 = ?i" "iFormat i1 = inodeFmtExtents"
    "iSize i1 = of_nat (length data)" "iNBlocks i1 = ucast n"
    "inlineExtents i1 = Inr [\<lparr>eStartOff = 0, eStartBlock = b, eCount = n, eUnwritten = False\<rparr>]"
    using oneExtentInode_spec [of sb inode b n data] w run by (auto simp: writable_def good_run_def)
  let ?i2 = "stampInode sb i1"
  obtain d1 where d1: "writeInode partOff sb i1 (disk s) = (Inr ?i2, d1)"
    "WriteAt (disk s) (inodeByteOff sb partOff ?i) (iRaw ?i2) = Inr d1"
    using writeInode_result [of sb partOff i1 "disk s"] fit i1(3) by auto
  have wf: "inode_wf sb ?i2" by (rule stampInode_wf [OF i1(2)])
  have rd1: "readInode d1 partOff sb ?i = Inr ?i2"
    using read_after_write_inode [OF d1(2)] wf i1(3) by (simp add: inode_wf_def)
  have run': "run_addressable partOff sb b (unat n)" "length data \<le> unat n * unat (blockSize sb)"
    using run by (simp_all add: good_run_def)
  obtain d2 where d2: "writeBlocksData partOff sb b n data d1 = (Inr (), d2)"
    and rd: "0 < n \<longrightarrow> ReadAt d2 (partOff + fsbToPhysBlock sb b * ucast (blockSize sb)) (unat n * unat (blockSize sb)) =
      Inr (data @ replicate (unat n * unat (blockSize sb) - length data) 0)"
    and fr: "\<forall>off m xs. ReadAt d1 off m = Inr xs \<and> off_run partOff sb b (unat n) off m \<longrightarrow> ReadAt d2 off m = Inr xs"
    using writeBlocksData_spec [OF run', of d1] by blast
  have apart: "off_run partOff sb b (unat n) (inodeByteOff sb partOff ?i) (unat (inodeSize sb))"
    using run slot_off_run [OF fit] by (simp add: good_run_def)
  have rd2: "readInode d2 partOff sb ?i = Inr ?i2"
    using rd1 fr apart unfolding readInode_def readBytes_def bindR_eq_Inr by blast
  have "int (length data) \<le> sint (fileCeiling sb ?i2)"
    using fileCeiling_within [OF lim, of ?i2 n] i1(6) run by (simp add: good_run_def)
  then have "readExtents sio d2 partOff sb [\<lparr>eStartOff = 0, eStartBlock = b, eCount = n, eUnwritten = False\<rparr>]
      (of_nat (length data)) ?i2 = Inr data"
    using readExtents_one [OF sio _ run'(2,1)] rd by blast
  moreover have "inlineExtents ?i2 = inlineExtents i1" by (simp add: inlineExtents_def)
  ultimately have "readFileData sio d2 partOff sb ?i2 = Some (Inr data)"
    using i1 by (simp add: readFileData_def inodeFmtExtents_def inodeFmtLocal_def)
  moreover have "storeRun partOff sb inode b n data s = (Inr ?i2, s\<lparr>disk := d2\<rparr>)"
    using i1(1) d1(1) d2 by (simp add: storeRun_def putInode_def onDisk_def bindIO_def)
  ultimately show ?thesis using rd2 by simp
qed

section \<open>Writing in place\<close>

definition ext_run :: "int64 \<Rightarrow> superblock \<Rightarrow> extent \<Rightarrow> bool" where
  "ext_run partOff sb e \<longleftrightarrow> run_addressable partOff sb (eStartBlock e) (unat (eCount e))"

definition ext_start :: "int64 \<Rightarrow> superblock \<Rightarrow> extent \<Rightarrow> int64" where
  "ext_start partOff sb e = partOff + fsbToPhysBlock sb (eStartBlock e) * ucast (blockSize sb)"

text \<open>Two extents without a block of the device in common.\<close>

definition disk_apart :: "superblock \<Rightarrow> extent \<Rightarrow> extent \<Rightarrow> bool" where
  "disk_apart sb a e \<longleftrightarrow> unat (fsbToPhysBlock sb (eStartBlock a)) + unat (eCount a) \<le> unat (fsbToPhysBlock sb (eStartBlock e)) \<or>
     unat (fsbToPhysBlock sb (eStartBlock e)) + unat (eCount e) \<le> unat (fsbToPhysBlock sb (eStartBlock a))"

lemma disk_apart_off_run:
  assumes "disk_apart sb a e" and "ext_run partOff sb a"
  shows "off_run partOff sb (eStartBlock e) (unat (eCount e)) (ext_start partOff sb a) (unat (eCount a) * unat (blockSize sb))"
proof -
  let ?B = "unat (blockSize sb)" and ?pa = "unat (fsbToPhysBlock sb (eStartBlock a))" and ?pe = "unat (fsbToPhysBlock sb (eStartBlock e))"
  have "(?pa + unat (eCount a)) * ?B \<le> ?pe * ?B \<or> (?pe + unat (eCount e)) * ?B \<le> ?pa * ?B"
    using assms(1) unfolding disk_apart_def by (meson mult_le_mono1)
  moreover have "sint (ext_start partOff sb a) = int (unat partOff + ?pa * ?B)"
    using sint_run_offset [OF assms(2) [unfolded ext_run_def], of 0] by (simp add: ext_start_def)
  moreover have "(?pa + unat (eCount a)) * ?B = ?pa * ?B + unat (eCount a) * ?B" by (rule add_mult_distrib)
  ultimately show ?thesis unfolding off_run_def by linarith
qed

lemma extentOffsets_run: "extentOffsets partOff sb e = runOffsets partOff sb (eStartBlock e) (eCount e)"
  by (simp add: extentOffsets_def runOffsets_def algebra_simps)

lemma writeChunks_append:
  "writeChunks bs data k (xs @ ys) d = bindIO (writeChunks bs data k xs) (\<lambda>_. writeChunks bs data (k + length xs) ys) d"
  by (induction xs arbitrary: k d) (auto simp: bindIO_def split: prod.splits sum.splits)

text \<open>The blocks of the data from \<open>k\<close> on are in the extents, one after the other.\<close>

fun stored :: "dev \<Rightarrow> int64 \<Rightarrow> superblock \<Rightarrow> bytes \<Rightarrow> nat \<Rightarrow> extent list \<Rightarrow> bool" where
  "stored d partOff sb data k [] \<longleftrightarrow> True"
| "stored d partOff sb data k (e # es) \<longleftrightarrow>
     (0 < eCount e \<longrightarrow> ReadAt d (ext_start partOff sb e) (unat (eCount e) * unat (blockSize sb)) =
        Inr (blockRange (unat (blockSize sb)) k (unat (eCount e)) data)) \<and>
     stored d partOff sb data (k + unat (eCount e)) es"

lemma stored_frame:
  assumes "stored d partOff sb data k es"
    and "\<And>e xs. e \<in> set es \<Longrightarrow> ReadAt d (ext_start partOff sb e) (unat (eCount e) * unat (blockSize sb)) = Inr xs \<Longrightarrow>
      ReadAt d' (ext_start partOff sb e) (unat (eCount e) * unat (blockSize sb)) = Inr xs"
  shows "stored d' partOff sb data k es"
  using assms by (induction es arbitrary: k) auto

lemma writeExtents_stored:
  assumes "\<forall>e\<in>set es. ext_run partOff sb e" and "sorted_wrt (disk_apart sb) es"
  shows "\<exists>d'. writeChunks (unat (blockSize sb)) data k (concat (map (extentOffsets partOff sb) es)) d = (Inr (), d') \<and>
    stored d' partOff sb data k es \<and>
    (\<forall>off m xs. ReadAt d off m = Inr xs \<and> (\<forall>e\<in>set es. off_run partOff sb (eStartBlock e) (unat (eCount e)) off m) \<longrightarrow>
       ReadAt d' off m = Inr xs)"
  using assms
proof (induction es arbitrary: k d)
  case (Cons e es)
  have run: "run_addressable partOff sb (eStartBlock e) (unat (eCount e))" using Cons.prems(1) by (simp add: ext_run_def)
  from writeRun_spec [OF run] obtain d1 where d1:
    "writeChunks (unat (blockSize sb)) data k (runOffsets partOff sb (eStartBlock e) (eCount e)) d = (Inr (), d1)"
    "0 < eCount e \<longrightarrow> ReadAt d1 (ext_start partOff sb e) (unat (eCount e) * unat (blockSize sb)) =
       Inr (blockRange (unat (blockSize sb)) k (unat (eCount e)) data)"
    "\<forall>off m xs. ReadAt d off m = Inr xs \<and> off_run partOff sb (eStartBlock e) (unat (eCount e)) off m \<longrightarrow> ReadAt d1 off m = Inr xs"
    unfolding ext_start_def by blast
  have "\<forall>e\<in>set es. ext_run partOff sb e" "sorted_wrt (disk_apart sb) es" using Cons.prems by simp_all
  from Cons.IH [OF this, of "k + unat (eCount e)" d1] obtain d2 where d2:
    "writeChunks (unat (blockSize sb)) data (k + unat (eCount e)) (concat (map (extentOffsets partOff sb) es)) d1 = (Inr (), d2)"
    "stored d2 partOff sb data (k + unat (eCount e)) es"
    "\<forall>off m xs. ReadAt d1 off m = Inr xs \<and> (\<forall>e\<in>set es. off_run partOff sb (eStartBlock e) (unat (eCount e)) off m) \<longrightarrow>
       ReadAt d2 off m = Inr xs" by blast
  have "\<forall>e'\<in>set es. off_run partOff sb (eStartBlock e') (unat (eCount e')) (ext_start partOff sb e) (unat (eCount e) * unat (blockSize sb))"
    using Cons.prems by (auto intro: disk_apart_off_run)
  with d1(2) d2(2,3) have "stored d2 partOff sb data k (e # es)" by simp
  moreover have "length (runOffsets partOff sb (eStartBlock e) (eCount e)) = unat (eCount e)" by (simp add: runOffsets_def)
  then have "writeChunks (unat (blockSize sb)) data k (concat (map (extentOffsets partOff sb) (e # es))) d = (Inr (), d2)"
    unfolding list.map concat.simps extentOffsets_run [of partOff sb e] writeChunks_append
    using d1(1) d2(1) by (simp add: bindIO_def)
  ultimately show ?case
    using d1(3) d2(3) by (metis list.set_intros)
qed simp

text \<open>The extents map the file from block \<open>k\<close> on without a hole.\<close>

fun dense :: "nat \<Rightarrow> extent list \<Rightarrow> bool" where
  "dense k [] \<longleftrightarrow> True"
| "dense k (e # es) \<longleftrightarrow> unat (eStartOff e) = k \<and> dense (k + unat (eCount e)) es"

definition total_blocks :: "extent list \<Rightarrow> nat" where
  "total_blocks es = sum_list (map (\<lambda>e. unat (eCount e)) es)"

lemma patch_next:
  assumes "k * B \<le> length data" and "m = min (n * B) (length data - k * B)"
  shows "patch (k * B) (take m (blockRange B k n data)) (take (k * B) data @ replicate (length data - k * B) 0) =
    take ((k + n) * B) data @ replicate (length data - (k + n) * B) 0"
proof -
  have chunk: "take m (blockRange B k n data) = take m (drop (k * B) data)"
    using assms(2) by (auto simp: blockRange_eq min_def)
  have tk: "take (k * B) data @ take m (drop (k * B) data) = take ((k + n) * B) data"
  proof (cases "length data - k * B \<le> n * B")
    case True
    then show ?thesis using assms by (simp add: min_def add_mult_distrib)
  next
    case False
    then have "m = n * B" using assms(2) by simp
    then show ?thesis using take_add [of "k * B" "n * B" data] by (simp add: add_mult_distrib)
  qed
  have "patch (k * B) (take m (drop (k * B) data)) (take (k * B) data @ replicate (length data - k * B) 0) =
      take (k * B) data @ take m (drop (k * B) data) @ replicate (length data - k * B - m) 0"
    using assms by (simp add: patch_def)
  moreover have "length data - k * B - m = length data - (k + n) * B"
    using assms(2) by (auto simp: min_def add_mult_distrib)
  ultimately show ?thesis unfolding chunk append.assoc [symmetric] tk by simp
qed

lemma readExtentsLoop_stored:
  assumes "stored d partOff sb data k es" and "dense k es" and "\<forall>e\<in>set es. ext_run partOff sb e"
    and "(k + total_blocks es) * unat (blockSize sb) < 2 ^ 63" and "length data < 2 ^ 63"
  shows "readExtentsLoop d partOff sb (of_nat (length data)) (take (k * unat (blockSize sb)) data @ replicate (length data - k * unat (blockSize sb)) 0) es =
    Inr (take ((k + total_blocks es) * unat (blockSize sb)) data @ replicate (length data - (k + total_blocks es) * unat (blockSize sb)) 0)"
  using assms(1-4)
proof (induction es arbitrary: k)
  case Nil
  then show ?case by (simp add: total_blocks_def)
next
  case (Cons e es)
  let ?B = "unat (blockSize sb)" and ?n = "unat (eCount e)" and ?sz = "of_nat (length data) :: u64"
  have sz: "unat ?sz = length data" using assms(5) unat_of_nat_small [of "length data"] by simp
  have tot: "k + total_blocks (e # es) = k + ?n + total_blocks es" by (simp add: total_blocks_def)
  have bnd: "(k + ?n) * ?B < 2 ^ 63" "k * ?B < 2 ^ 63"
    using Cons.prems(4) unfolding tot by (simp_all add: add_mult_distrib)
  have so: "unat (eStartOff e) = k" using Cons.prems(2) by simp
  have bStart: "unat (eStartOff e * ucast (blockSize sb)) = k * ?B"
    using bnd(2) so unat_mult_small [of "eStartOff e" "ucast (blockSize sb)"] by simp
  have IH: "readExtentsLoop d partOff sb ?sz (take ((k + ?n) * ?B) data @ replicate (length data - (k + ?n) * ?B) 0) es =
      Inr (take ((k + total_blocks (e # es)) * ?B) data @ replicate (length data - (k + total_blocks (e # es)) * ?B) 0)"
    using Cons unfolding tot by simp
  show ?case
  proof (cases "length data \<le> k * ?B")
    case True
    then have "eStartOff e * ucast (blockSize sb) \<ge> ?sz" using bStart sz by (simp add: word_le_nat_alt)
    moreover have "length data \<le> (k + ?n) * ?B" using True by (simp add: add_mult_distrib)
    ultimately show ?thesis using IH True by (simp add: Let_def)
  next
    case False
    then have lt: "\<not> eStartOff e * ucast (blockSize sb) \<ge> ?sz" using bStart sz by (simp add: word_le_nat_alt)
    have cnt: "unat (ucast (eCount e) * ucast (blockSize sb) :: u64) = ?n * ?B"
      using bnd(1) unat_mult_small [of "ucast (eCount e)" "ucast (blockSize sb)"] by (simp add: add_mult_distrib)
    define bEnd where "bEnd = eStartOff e * ucast (blockSize sb) + ucast (eCount e) * ucast (blockSize sb)"
    have bEnd: "unat bEnd = (k + ?n) * ?B"
      unfolding bEnd_def using bnd(1) bStart cnt unat_add_small [of "eStartOff e * ucast (blockSize sb)" "ucast (eCount e) * ucast (blockSize sb)"]
      by (simp add: add_mult_distrib)
    define m where "m = min (?n * ?B) (length data - k * ?B)"
    have m: "unat ((if ?sz < bEnd then ?sz else bEnd) - eStartOff e * ucast (blockSize sb)) = m"
      using bEnd bStart sz False by (auto simp: m_def word_less_nat_alt unat_sub_if' add_mult_distrib min_def)
    have rd: "ReadAt d (ext_start partOff sb e) m = Inr (take m (blockRange ?B k ?n data))"
    proof (cases "0 < eCount e")
      case True
      then have "ReadAt d (ext_start partOff sb e) (?n * ?B) = Inr (blockRange ?B k ?n data)" using Cons.prems(1) by simp
      then show ?thesis by (rule ReadAt_prefix) (simp add: m_def)
    next
      case False
      then have "m = 0" by (simp add: m_def word_neq_0_conv [symmetric])
      moreover have "0 \<le> sint (ext_start partOff sb e)"
        using sint_run_offset [of partOff sb "eStartBlock e" ?n 0] Cons.prems(3) by (simp add: ext_start_def ext_run_def)
      ultimately show ?thesis by (simp add: ReadAt_def)
    qed
    have off: "blockByteOffset partOff sb (eStartBlock e) = Inr (ext_start partOff sb e)"
      using run_addressable_first [of partOff sb "eStartBlock e" ?n] Cons.prems(3)
      unfolding addressable_def ext_run_def ext_start_def by (auto intro: blockByteOffset_ok)
    show ?thesis
      unfolding readExtentsLoop.simps(2) Let_def lt if_False off bindR_Inr bEnd_def [symmetric] m rd bStart
      using IH patch_next [of k ?B data m ?n] False by (simp add: m_def lt)
  qed
qed

section \<open>Overwriting a file\<close>

lemma putInode_result:
  assumes "inodes_fit sb partOff" and "ino_in_range sb (iNum inode)" and "inode_wf sb inode"
  shows "\<exists>d'. putInode partOff sb inode s = (Inr (stampInode sb inode), s\<lparr>disk := d'\<rparr>) \<and>
    readInode d' partOff sb (iNum inode) = Inr (stampInode sb inode) \<and>
    WriteAt (disk s) (inodeByteOff sb partOff (iNum inode)) (iRaw (stampInode sb inode)) = Inr d'"
proof -
  obtain d' where d': "writeInode partOff sb inode (disk s) = (Inr (stampInode sb inode), d')"
    "WriteAt (disk s) (inodeByteOff sb partOff (iNum inode)) (iRaw (stampInode sb inode)) = Inr d'"
    using writeInode_result [OF assms(1,2)] by blast
  have wf: "inode_wf sb (stampInode sb inode)" using assms(3) by (rule stampInode_wf)
  have "readInode d' partOff sb (iNum inode) = Inr (stampInode sb inode)"
    using read_after_write_inode [OF d'(2)] wf by (simp add: inode_wf_def)
  then show ?thesis using d' by (simp add: putInode_def onDisk_def)
qed

text \<open>The extents of a file that is written in place.\<close>

definition good_extents :: "int64 \<Rightarrow> superblock \<Rightarrow> inode \<Rightarrow> extent list \<Rightarrow> bool" where
  "good_extents partOff sb inode exts \<longleftrightarrow> dense 0 exts \<and> sorted_wrt (disk_apart sb) exts \<and>
     total_blocks exts * unat (blockSize sb) < 2 ^ 63 \<and>
     (\<forall>e\<in>set exts. ext_run partOff sb e \<and> run_apart sb (iNum inode) (eStartBlock e) (unat (eCount e)))"

lemma run_apart_slot:
  assumes "inodes_fit sb partOff" and "ino_in_range sb ino" and "ext_run partOff sb e"
    and "run_apart sb ino (eStartBlock e) (unat (eCount e))"
    and "WriteAt d (inodeByteOff sb partOff ino) raw = Inr d'" and "length raw = unat (inodeSize sb)"
    and "ReadAt d (ext_start partOff sb e) (unat (eCount e) * unat (blockSize sb)) = Inr xs"
  shows "ReadAt d' (ext_start partOff sb e) (unat (eCount e) * unat (blockSize sb)) = Inr xs"
proof (rule file_store.rd_wr_frame [OF assms(5,7)])
  let ?B = "unat (blockSize sb)" and ?p = "unat (fsbToPhysBlock sb (eStartBlock e))"
  have "sint (ext_start partOff sb e) = int (unat partOff + ?p * ?B)"
    using sint_run_offset [OF assms(3) [unfolded ext_run_def], of 0] by (simp add: ext_start_def)
  moreover have "(?p + unat (eCount e)) * ?B = ?p * ?B + unat (eCount e) * ?B" by (rule add_mult_distrib)
  ultimately show "sint (ext_start partOff sb e) + int (unat (eCount e) * ?B) \<le> sint (inodeByteOff sb partOff ino) \<or>
      sint (inodeByteOff sb partOff ino) + int (length raw) \<le> sint (ext_start partOff sb e)"
    using slot_off_run [OF assms(1,2,4)] unfolding off_run_def assms(6) by linarith
qed

lemma writeExtentsInPlace_reads_back:
  assumes sio: "makes_bytes sio" and w: "writable partOff sb inode" and fmt: "iFormat inode = inodeFmtExtents"
    and exts: "inlineExtents inode = Inr exts" "good_extents partOff sb inode exts"
    and fits: "length data \<le> total_blocks exts * unat (blockSize sb)" and lim: "int (length data) \<le> sint (fileCeiling sb inode)"
  shows "\<exists>inode' s'. writeExtentsInPlace partOff sb inode exts data s = (Inr inode', s') \<and>
    readInode (disk s') partOff sb (iNum inode) = Inr inode' \<and> readFileData sio (disk s') partOff sb inode' = Some (Inr data)"
proof -
  let ?i = "setInodeSize inode (of_nat (length data))" and ?B = "unat (blockSize sb)"
  let ?i2 = "stampInode sb ?i"
  have fit: "inodes_fit sb partOff" "ino_in_range sb (iNum inode)" "inode_wf sb inode" using w by (simp_all add: writable_def)
  have runs: "\<forall>e\<in>set exts. ext_run partOff sb e" "sorted_wrt (disk_apart sb) exts" using exts(2) by (simp_all add: good_extents_def)
  from writeExtents_stored [OF this] obtain d1 where d1:
    "writeChunks ?B data 0 (concat (map (extentOffsets partOff sb) exts)) (disk s) = (Inr (), d1)" "stored d1 partOff sb data 0 exts"
    by blast
  have wf: "inode_wf sb ?i" using inode_wf_setters(1) [OF fit(3)] .
  obtain d2 where d2: "putInode partOff sb ?i (s\<lparr>disk := d1\<rparr>) = (Inr ?i2, s\<lparr>disk := d2\<rparr>)"
    "readInode d2 partOff sb (iNum inode) = Inr ?i2" "WriteAt d1 (inodeByteOff sb partOff (iNum inode)) (iRaw ?i2) = Inr d2"
    using putInode_result [OF fit(1) _ wf, of "s\<lparr>disk := d1\<rparr>"] fit(2) by auto
  have "length (iRaw ?i2) = unat (inodeSize sb)" using stampInode_wf [OF wf] by (simp add: inode_wf_def)
  then have st: "stored d2 partOff sb data 0 exts"
    using stored_frame [OF d1(2)] run_apart_slot [OF fit(1,2) _ _ d2(3)] exts(2) by (auto simp: good_extents_def)
  have len: "length data < 2 ^ 63" using fits exts(2) by (simp add: good_extents_def)
  then have sz: "sint (of_nat (length data) :: u64) = int (length data)"
    using sint_unat [of "of_nat (length data)"] unat_of_nat_small [of "length data"] by simp
  have "fileCeiling sb ?i2 = fileCeiling sb inode" by (simp add: fileCeiling_def inodeMaxBytes_def)
  then have "MakeBytes sio (of_nat (length data)) (fileCeiling sb ?i2) = Inr (replicate (length data) 0)"
    using sio lim sz by (simp add: makes_bytes_def)
  moreover have "readExtentsLoop d2 partOff sb (of_nat (length data)) (replicate (length data) 0) exts = Inr data"
    using readExtentsLoop_stored [OF st _ runs(1) _ len] exts(2) fits by (simp add: good_extents_def)
  ultimately have "readExtents sio d2 partOff sb exts (of_nat (length data)) ?i2 = Inr data"
    by (simp add: readExtents_def)
  moreover have "inlineExtents ?i2 = Inr exts" using exts(1) by (simp add: inlineExtents_def)
  ultimately have "readFileData sio d2 partOff sb ?i2 = Some (Inr data)"
    using fmt by (simp add: readFileData_def inodeFmtExtents_def inodeFmtLocal_def)
  moreover have "writeExtentsInPlace partOff sb inode exts data s = (Inr ?i2, s\<lparr>disk := d2\<rparr>)"
    using d1(1) d2(1) by (simp add: writeExtentsInPlace_def onDisk_def bindIO_def)
  ultimately show ?thesis using d2(2) by simp
qed

lemma writeInline_reads_back:
  assumes w: "writable partOff sb inode" and fmt: "iFormat inode = inodeFmtLocal" and fits: "length data \<le> length (dataFork inode)"
  shows "\<exists>inode' s'. putInode partOff sb (writeInline inode data) s = (Inr inode', s') \<and>
    readInode (disk s') partOff sb (iNum inode) = Inr inode' \<and> readFileData sio (disk s') partOff sb inode' = Some (Inr data)"
proof -
  have fit: "inodes_fit sb partOff" "ino_in_range sb (iNum inode)" "inode_wf sb inode" using w by (simp_all add: writable_def)
  let ?i1 = "inode\<lparr>iRaw := patch 176 data (zero_range 176 (length (dataFork inode)) (iRaw inode))\<rparr>"
  let ?i = "writeInline inode data"
  have "inode_wf sb (inode\<lparr>iRaw := zero_range 176 (length (dataFork inode)) (iRaw inode)\<rparr>)"
    unfolding zero_range_def by (rule inode_wf_fork [OF fit(3)]) simp
  from inode_wf_fork [OF this, of 176 data] have "inode_wf sb ?i1" by simp
  then have wf: "inode_wf sb ?i" unfolding writeInline_def by (rule inode_wf_setters(1))
  have num: "iNum ?i = iNum inode" by (simp add: writeInline_def)
  obtain d' where d': "putInode partOff sb ?i s = (Inr (stampInode sb ?i), s\<lparr>disk := d'\<rparr>)"
    "readInode d' partOff sb (iNum inode) = Inr (stampInode sb ?i)"
    using putInode_result [OF fit(1) _ wf, of s] fit(2) num by auto
  have raw: "length (iRaw inode) = unat (inodeSize sb)" "176 \<le> unat (inodeSize sb)" using fit(3) by (simp_all add: inode_wf_def)
  have fork: "length (dataFork inode) < 2 ^ 63"
    using raw unat_lt(2) [of "inodeSize sb"] by (simp add: dataFork_def)
  have "dataFork ?i = patch 0 data (drop 176 (zero_range 176 (length (dataFork inode)) (iRaw inode)))"
    using raw by (simp add: writeInline_def) (simp add: dataFork_def drop_patch_at)
  moreover have "length (drop 176 (zero_range 176 (length (dataFork inode)) (iRaw inode))) = length (dataFork inode)"
    by (simp add: dataFork_def)
  ultimately have "take (length data) (dataFork ?i) = data" "length (dataFork ?i) = length (dataFork inode)"
    using fits by (simp_all add: patch_whole)
  moreover have "unat (iSize ?i) = length data"
    using fits fork unat_of_nat_small [of "length data"] by (simp add: writeInline_def)
  ultimately have "readFileData sio d' partOff sb (stampInode sb ?i) = Some (Inr data)"
    using fmt fits by (simp add: readFileData_def readInline_def writeInline_def)
  then show ?thesis using d' by simp
qed

lemma reportNoSpace_Inr [simp]: "reportNoSpace m s = (Inr x, s') \<longleftrightarrow> m s = (Inr x, s')"
  by (auto simp: reportNoSpace_def split: prod.splits sum.splits)

lemma blocks_cover:
  assumes "(of_nat (length data) + ucast (blockSize sb) - 1) div ucast (blockSize sb) \<le> (sum_list (map (\<lambda>e. ucast (eCount e)) exts) :: u64)"
    and "length data < 2 ^ 63" and "blockSize sb \<noteq> 0"
  shows "length data \<le> total_blocks exts * unat (blockSize sb)"
proof -
  let ?B = "unat (blockSize sb)" and ?tot = "sum_list (map (\<lambda>e. ucast (eCount e)) exts) :: u64"
  have B: "0 < ?B" "?B < 2 ^ 32" using assms(3) unat_lt(3) [of "blockSize sb"] by (simp_all add: word_neq_0_conv word_less_nat_alt)
  have "?tot = of_nat (total_blocks exts)" unfolding total_blocks_def by (induction exts) simp_all
  then have tot: "unat ?tot \<le> total_blocks exts" by (simp add: unat_of_nat)
  have "of_nat (length data) + ucast (blockSize sb) - 1 = (of_nat (length data + ?B - 1) :: u64)"
    using B by (simp add: of_nat_diff)
  then have "unat (of_nat (length data) + ucast (blockSize sb) - 1 :: u64) = length data + ?B - 1"
    using assms(2) B unat_of_nat_small [of "length data + ?B - 1"] by simp
  then have "unat ((of_nat (length data) + ucast (blockSize sb) - 1) div ucast (blockSize sb) :: u64) = (length data + ?B - 1) div ?B"
    by (simp add: unat_div)
  then have "(length data + ?B - 1) div ?B \<le> total_blocks exts" using assms(1) tot by (simp add: word_le_nat_alt)
  then have "(length data + ?B - 1) div ?B * ?B \<le> total_blocks exts * ?B" by (rule mult_le_mono1)
  moreover have "length data + ?B - 1 < ?B + (length data + ?B - 1) div ?B * ?B"
    using B(1) by (rule dividend_less_div_times)
  ultimately show ?thesis using B(1) by linarith
qed

lemma cover_blocks:
  assumes "length data \<le> total_blocks exts * unat (blockSize sb)" and "length data < 2 ^ 63" and "blockSize sb \<noteq> 0" and "total_blocks exts < 2 ^ 63"
  shows "(of_nat (length data) + ucast (blockSize sb) - 1) div ucast (blockSize sb) \<le> (sum_list (map (\<lambda>e. ucast (eCount e)) exts) :: u64)"
proof -
  let ?B = "unat (blockSize sb)" and ?tot = "sum_list (map (\<lambda>e. ucast (eCount e)) exts) :: u64"
  have B: "0 < ?B" "?B < 2 ^ 32" using assms(3) unat_lt(3) [of "blockSize sb"] by (simp_all add: word_neq_0_conv word_less_nat_alt)
  have "?tot = of_nat (total_blocks exts)" unfolding total_blocks_def by (induction exts) simp_all
  then have tot: "unat ?tot = total_blocks exts" using assms(4) unat_of_nat_small [of "total_blocks exts"] by simp
  have "of_nat (length data) + ucast (blockSize sb) - 1 = (of_nat (length data + ?B - 1) :: u64)"
    using B by (simp add: of_nat_diff)
  then have "unat (of_nat (length data) + ucast (blockSize sb) - 1 :: u64) = length data + ?B - 1"
    using assms(2) B unat_of_nat_small [of "length data + ?B - 1"] by simp
  then have q: "unat ((of_nat (length data) + ucast (blockSize sb) - 1) div ucast (blockSize sb) :: u64) = (length data + ?B - 1) div ?B"
    by (simp add: unat_div)
  have "(length data + ?B - 1) div ?B \<le> (total_blocks exts * ?B + (?B - 1)) div ?B" using assms(1) B by (intro div_le_mono) linarith
  also have "\<dots> = total_blocks exts" by (subst div_mult_self3) (use B in simp_all)
  finally show ?thesis using q tot by (simp add: word_le_nat_alt)
qed

section \<open>A file that outgrows its inode\<close>

lemma blocksFor_unat:
  assumes "length data < 2 ^ 48" and "512 \<le> unat (blockSize sb)" and "(length data + unat (blockSize sb) - 1) div unat (blockSize sb) < 2 ^ 32"
  shows "unat (blocksFor sb data) = (length data + unat (blockSize sb) - 1) div unat (blockSize sb)"
proof -
  let ?B = "unat (blockSize sb)"
  have B: "0 < ?B" "?B < 2 ^ 32" using assms(2) unat_lt(3) [of "blockSize sb"] by simp_all
  have "of_nat (length data) + ucast (blockSize sb) - 1 = (of_nat (length data + ?B - 1) :: u64)"
    using B by (simp add: of_nat_diff)
  then have "unat (of_nat (length data) + ucast (blockSize sb) - 1 :: u64) = length data + ?B - 1"
    using assms(1) B unat_of_nat_small [of "length data + ?B - 1"] by simp
  then have "unat ((of_nat (length data) + ucast (blockSize sb) - 1) div ucast (blockSize sb) :: u64) = (length data + ?B - 1) div ?B"
    by (simp add: unat_div)
  then show ?thesis using assms(3) by (simp add: blocksFor_def unsigned_ucast_eq take_bit_nat_eq_self)
qed

lemma agAbsBlock_unat:
  assumes "validateGeometry sb = Inr ()" and "rel < agBlocks sb"
  shows "unat (agAbsBlock sb ag rel) = unat ag * 2 ^ unat (agBlkLog sb) + unat rel"
proof -
  note l = geometry_log [OF assms]
  have "drop_bit (unat (agBlkLog sb)) (agAbsBlock sb ag rel) = ucast ag" "take_bit (unat (agBlkLog sb)) (agAbsBlock sb ag rel) = ucast rel"
    unfolding agAbsBlock_def by (rule pack_high [OF l(2) disjI1 [OF l(1)]], rule pack_low [OF l(2)])
  then have "unat (agAbsBlock sb ag rel) div 2 ^ unat (agBlkLog sb) = unat ag" "unat (agAbsBlock sb ag rel) mod 2 ^ unat (agBlkLog sb) = unat rel"
    using unat_drop_bit [of "unat (agBlkLog sb)" "agAbsBlock sb ag rel"] unat_take_bit [of "unat (agBlkLog sb)" "agAbsBlock sb ag rel"] by simp_all
  then show ?thesis by (metis div_mult_mod_eq)
qed

text \<open>Where the first blocks of a free run of the inode's group are.\<close>

lemma free_run_good:
  assumes fits: "group_fits partOff sb ag" and ino: "ino_in_range sb ino" "inodes_fit sb partOff" "inoAG sb ino = ag"
    and run: "unat (fst r) + unat n \<le> unat (agBlocks sb)" "0 < unat n" and out: "ino_block sb ino \<notin> {unat (fst r)..<unat (fst r) + unat n}"
    and small: "(unat ag + 1) * 2 ^ unat (agBlkLog sb) \<le> 2 ^ 52" "unat n < 2 ^ 21" "len \<le> unat n * unat (blockSize sb)"
  shows "good_run partOff sb ino (agAbsBlock sb ag (fst r)) n len"
proof -
  let ?A = "unat (agBlocks sb)" and ?B = "unat (blockSize sb)" and ?b = "agAbsBlock sb ag (fst r)"
  have v: "validateGeometry sb = Inr ()" using fits by (simp add: group_fits_def)
  have rel: "fst r < agBlocks sb" using run by (simp add: word_less_nat_alt)
  have ph: "unat (fsbToPhysBlock sb ?b) = unat ag * ?A + unat (fst r)" by (rule agAbsBlock_phys [OF v rel])
  note lg = geometry_log [OF v rel]
  have "unat ?b = unat ag * 2 ^ unat (agBlkLog sb) + unat (fst r)" by (rule agAbsBlock_unat [OF v rel])
  also have "\<dots> < (unat ag + 1) * 2 ^ unat (agBlkLog sb)" using lg(2) by simp
  finally have b: "unat ?b < 2 ^ 52" using small(1) by linarith
  have bs: "blockSize sb \<noteq> 0" using validated_geometry [OF v] by auto
  have "unat ag * ?A + unat (fst r) + unat n \<le> (unat ag + 1) * ?A" using run(1) by (simp add: add_mult_distrib)
  then have "(unat ag * ?A + unat (fst r) + unat n) * ?B \<le> (unat ag + 1) * ?A * ?B" by (rule mult_le_mono1)
  then have addr: "run_addressable partOff sb ?b (unat n)"
    using fits bs unfolding run_addressable_def ph group_fits_def by linarith
  have ag: "ino_ag sb ino = unat ag"
  proof -
    have "ino_ag sb ino < 2 ^ 32" using ino(1) unat_lt(3) [of "agCount sb"] by (simp add: ino_in_range_def)
    then show ?thesis using ino(3) unfolding inoAG_def ino_ag_def
      by (auto simp: unsigned_ucast_eq take_bit_nat_eq_self unat_drop_bit)
  qed
  let ?F = "unat ag * ?A + ino_block sb ino" and ?p = "unat ag * ?A + unat (fst r)"
  have "?F + 1 \<le> ?p \<or> ?p + unat n \<le> ?F" using out by auto
  then have "(?F + 1) * ?B \<le> ?p * ?B \<or> (?p + unat n) * ?B \<le> ?F * ?B" by (meson mult_le_mono1)
  moreover have "ino_pos sb ino + unat (inodeSize sb) \<le> (?F + 1) * ?B" "?F * ?B \<le> ino_pos sb ino"
    using ino_slot_room [OF ino(2), of ino] by (simp_all add: ino_pos_def ag add_mult_distrib)
  ultimately have "run_apart sb ino ?b (unat n)" unfolding run_apart_def ph by linarith
  with b addr small show ?thesis by (simp add: good_run_def)
qed

lemma promote_run:
  assumes grp: "group_ok partOff sb (inoAG sb (iNum inode)) bnoRel cntRel (disk s) agf bs cs"
    and sio: "admits_first sio" and q: "mergedQ s = []" and w: "writable partOff sb inode"
    and data: "data \<noteq> []" "(length data + unat (blockSize sb) - 1) div unat (blockSize sb) < 2 ^ 21"
    and room: "\<exists>r\<in>set bs. blocksFor sb data \<le> snd r" and own: "ino_block sb (iNum inode) \<notin> free_set bs"
    and small: "(unat (inoAG sb (iNum inode)) + 1) * 2 ^ unat (agBlkLog sb) \<le> 2 ^ 52"
  shows "\<exists>b d'. allocBlocks sio (Suc (Suc fuel)) partOff sb (inoAG sb (iNum inode)) (blocksFor sb data) s = (Inr b, s\<lparr>disk := d'\<rparr>) \<and>
    good_run partOff sb (iNum inode) b (blocksFor sb data) (length data)"
proof -
  let ?ag = "inoAG sb (iNum inode)" and ?n = "blocksFor sb data" and ?B = "unat (blockSize sb)"
  have g: "grp (\<lambda>_. True) partOff sb ?ag bnoRel cntRel (disk s) agf bs cs" "leaves_ok sb bs cs" "set bs \<subseteq> set cs" and fits: "group_fits partOff sb ?ag"
    using grp by (auto simp: group_ok_def grp_def)
  have B: "512 \<le> ?B" "?B \<le> 65536" using hdr_facts [OF fits] by simp_all
  have "length data + ?B - 1 < ?B + (length data + ?B - 1) div ?B * ?B" using B by (intro dividend_less_div_times) simp
  then have le: "length data \<le> (length data + ?B - 1) div ?B * ?B" using B by linarith
  moreover have "(length data + ?B - 1) div ?B * ?B \<le> 2 ^ 21 * 65536" using data(2) B(2) by (intro mult_le_mono) simp_all
  ultimately have "length data < 2 ^ 48" by simp
  then have n: "unat ?n = (length data + ?B - 1) div ?B" using blocksFor_unat B(1) data(2) by simp
  have "0 < length data" using data(1) by simp
  then have n0: "0 < unat ?n" using n le by (cases "unat ?n") auto
  obtain r0 where r0: "r0 \<in> set cs" "?n \<le> snd r0" using room g(3) by auto
  obtain r d' where r: "best_fit cs ?n r"
    "fst (allocOps (Suc (Suc fuel)) sio partOff sb) ?ag ?n s = (Inr (agAbsBlock sb ?ag (fst r)), s\<lparr>disk := d'\<rparr>)"
    using alloc_run [OF g(1,2) sio q _ r0] n0 by (metis word_less_nat_alt unat_0)
  have rin: "r \<in> set bs" "unat ?n \<le> unat (snd r)" using r(1) g(2) by (auto simp: best_fit_def leaves_ok_def word_le_nat_alt)
  then have "{unat (fst r)..<unat (fst r) + unat ?n} \<subseteq> free_set bs" by (fastforce simp: free_set_def run_blocks_def)
  then have out: "ino_block sb (iNum inode) \<notin> {unat (fst r)..<unat (fst r) + unat ?n}" using own by blast
  have "unat (fst r) + unat ?n \<le> unat (agBlocks sb)" using rin g(2) by (fastforce simp: leaves_ok_def runs_ok_def)
  then have good: "good_run partOff sb (iNum inode) (agAbsBlock sb ?ag (fst r)) ?n (length data)"
    using free_run_good [OF fits _ _ refl _ n0 out small] w data(2) n le by (simp add: writable_def)
  with r(2) show ?thesis by (auto simp: allocBlocks_def simp del: allocOps.simps)
qed

text \<open>
  C21. An inline file that outgrows its inode is stored whenever its group has a free run that is
  long enough: \<^verbatim>\<open>promoteAndWrite\<close> succeeds, and the inode read back from disk yields exactly the
  data. The group has single-leaf free-space trees, the inode's own block is not marked free, and
  the run can be recorded (fewer than \<open>2 ^ 21\<close> blocks, block numbers below \<open>2 ^ 52\<close>).
\<close>

theorem promoteAndWrite_stores:
  assumes grp: "group_ok partOff sb (inoAG sb (iNum inode)) bnoRel cntRel (disk s) agf bs cs"
    and sio: "admits_first sio" "makes_bytes sio" and q: "mergedQ s = []" and w: "writable partOff sb inode"
    and data: "data \<noteq> []" "within_limits sb (length data)" "(length data + unat (blockSize sb) - 1) div unat (blockSize sb) < 2 ^ 21"
    and room: "\<exists>r\<in>set bs. blocksFor sb data \<le> snd r" and own: "ino_block sb (iNum inode) \<notin> free_set bs"
    and small: "(unat (inoAG sb (iNum inode)) + 1) * 2 ^ unat (agBlkLog sb) \<le> 2 ^ 52"
  shows "\<exists>inode' s'. promoteAndWrite sio (Suc (Suc fuel)) partOff sb inode data s = (Inr inode', s') \<and>
    readInode (disk s') partOff sb (iNum inode) = Inr inode' \<and> readFileData sio (disk s') partOff sb inode' = Some (Inr data)"
proof -
  obtain b d' where "allocBlocks sio (Suc (Suc fuel)) partOff sb (inoAG sb (iNum inode)) (blocksFor sb data) s = (Inr b, s\<lparr>disk := d'\<rparr>)"
    and good: "good_run partOff sb (iNum inode) b (blocksFor sb data) (length data)"
    using promote_run [OF grp sio(1) q w data(1,3) room own small] by blast
  with storeRun_reads_back [OF sio(2) w good data(2), of "s\<lparr>disk := d'\<rparr>"] show ?thesis
    by (auto simp: promoteAndWrite_def bindIO_def Let_def)
qed

section \<open>Overwriting\<close>

text \<open>Extents that lie at the given runs of the group, all in use and apart, are freed one after the other.\<close>

definition at_runs :: "superblock \<Rightarrow> u32 \<Rightarrow> arec list \<Rightarrow> extent list \<Rightarrow> bool" where
  "at_runs sb ag rs exts \<longleftrightarrow> map (\<lambda>e. (eStartBlock e, eCount e)) exts = map (\<lambda>r. (agAbsBlock sb ag (fst r), snd r)) rs \<and>
     apart rs \<and> (\<forall>r\<in>set rs. 0 < snd r \<and> unat (fst r) + unat (snd r) \<le> unat (agBlocks sb))"

lemma at_runs_length: "at_runs sb ag rs exts \<Longrightarrow> length exts = length rs"
  unfolding at_runs_def by (drule conjunct1, drule arg_cong [where f = length]) simp

lemma free_extents:
  assumes "group_ok partOff sb ag bnoRel cntRel (disk s) agf bs cs" and sio: "admits_first sio" and "quiet s"
    and "at_runs sb ag rs exts" and "free_set rs \<inter> free_set bs = {}" and "length bs + 3 * length rs \<le> leaf_slots sb"
  shows "\<exists>s' agf' bs' cs'. freeExtents sio (Suc (Suc (Suc fuel))) partOff sb exts s = (Inr (), s') \<and>
    group_ok partOff sb ag bnoRel cntRel (disk s') agf' bs' cs' \<and> quiet s' \<and> free_set bs' = free_set bs \<union> free_set rs \<and> cut_by (4 * length rs) bs bs'"
  using assms(1,3-6)
proof (induction exts arbitrary: s agf bs cs rs)
  case Nil
  then have "rs = []" using at_runs_length [OF Nil.prems(3)] by simp
  then have "freeExtents sio (Suc (Suc (Suc fuel))) partOff sb [] s = (Inr (), s)" "free_set bs = free_set bs \<union> free_set rs" "cut_by (4 * length rs) bs bs"
    by (simp_all add: freeExtents_def retIO_def free_set_def cut_by_subset)
  with Nil.prems(1,2) show ?case by metis
next
  case (Cons e exts)
  obtain r rs' where rs: "rs = r # rs'" using at_runs_length [OF Cons.prems(3)] by (cases rs) simp_all
  have e: "eStartBlock e = agAbsBlock sb ag (fst r)" "eCount e = snd r" "at_runs sb ag rs' exts" "0 < snd r" "unat (fst r) + unat (snd r) \<le> unat (agBlocks sb)"
    and ap: "\<forall>r'\<in>set rs'. run_blocks r \<inter> run_blocks r' = {}"
    using Cons.prems(3) by (simp_all add: rs at_runs_def apart_def)
  have fs: "free_set rs = run_blocks (fst r, snd r) \<union> free_set rs'" by (simp add: rs free_set_def)
  have dis: "run_blocks (fst r, snd r) \<inter> free_set bs = {}" "free_set rs' \<inter> free_set bs = {}" using Cons.prems(4) unfolding fs by blast+
  have ap: "free_set rs' \<inter> run_blocks (fst r, snd r) = {}" using ap by (auto simp: free_set_def)
  have room: "length bs + 3 \<le> leaf_slots sb" using Cons.prems(5) rs by simp
  obtain d1 rv agf1 bs1 cs1 where f: "freeBlocks sio (Suc (Suc (Suc fuel))) partOff sb (agAbsBlock sb ag (fst r)) (snd r) s = (Inr (), s\<lparr>disk := d1, reserve := rv\<rparr>)"
    "group_ok partOff sb ag bnoRel cntRel d1 agf1 bs1 cs1" "free_set bs1 = free_set bs \<union> run_blocks (fst r, snd r)" "length bs1 \<le> length bs + 3" "cut_by 4 bs bs1"
    by (rule free_run_cut [OF Cons.prems(1) [folded group_with_True] sio Cons.prems(2) e(4,5) dis(1) room, unfolded group_with_True])
  let ?s1 = "s\<lparr>disk := d1, reserve := rv\<rparr>"
  have p: "group_ok partOff sb ag bnoRel cntRel (disk ?s1) agf1 bs1 cs1" "quiet ?s1" using f(2) Cons.prems(2) by (simp_all add: quiet_def)
  have p': "free_set rs' \<inter> free_set bs1 = {}" "length bs1 + 3 * length rs' \<le> leaf_slots sb"
    unfolding f(3) using f(4) Cons.prems(5) rs dis(2) ap by (simp_all add: Int_Un_distrib)
  obtain s' agf' bs' cs' where i: "freeExtents sio (Suc (Suc (Suc fuel))) partOff sb exts ?s1 = (Inr (), s')"
    "group_ok partOff sb ag bnoRel cntRel (disk s') agf' bs' cs'" "quiet s'" "free_set bs' = free_set bs1 \<union> free_set rs'" "cut_by (4 * length rs') bs1 bs'"
    using Cons.IH [OF p e(3) p'] by (elim exE conjE)
  have "freeExtents sio (Suc (Suc (Suc fuel))) partOff sb (e # exts) s = (Inr (), s')"
    using f(1) i(1) e(1,2) by (simp add: freeExtents_def bindIO_def)
  moreover have "free_set bs' = free_set bs \<union> free_set rs" using i(4) f(3) fs by blast
  moreover have "cut_by (4 * length rs) bs bs'" using cut_by_trans [OF f(5) i(5)] rs by simp
  ultimately show ?case using i(2,3) by metis
qed

text \<open>
  The content of a file: inline, or in extents that are listed in the inode, without holes, in blocks of the inode's group that
  are in use (\<open>rs\<close> are their runs).
\<close>

definition content_at :: "int64 \<Rightarrow> superblock \<Rightarrow> inode \<Rightarrow> arec list \<Rightarrow> arec list \<Rightarrow> bool" where
  "content_at partOff sb inode bs rs \<longleftrightarrow>
     iFormat inode = inodeFmtLocal \<and> rs = [] \<and> unat (iForkOff inode) * 8 \<le> length (dataFork inode) \<or>
     iFormat inode = inodeFmtExtents \<and> (\<exists>exts. inlineExtents inode = Inr exts \<and> good_extents partOff sb inode exts \<and>
        at_runs sb (inoAG sb (iNum inode)) rs exts) \<and> free_set rs \<inter> free_set bs = {} \<and> ino_block sb (iNum inode) \<notin> free_set rs"

text \<open>The new data fits where the old content is; or there is room for it, the blocks that freeing sets aside included.\<close>

definition fits_there :: "superblock \<Rightarrow> inode \<Rightarrow> arec list \<Rightarrow> bytes \<Rightarrow> bool" where
  "fits_there sb inode rs data \<longleftrightarrow>
     (if iFormat inode = inodeFmtLocal then of_nat (length data) \<le> forkCapacity sb inode
      else length data \<le> sum_list (map (\<lambda>r. unat (snd r)) rs) * unat (blockSize sb))"

definition has_room :: "superblock \<Rightarrow> arec list \<Rightarrow> arec list \<Rightarrow> bytes \<Rightarrow> bool" where
  "has_room sb bs rs data \<longleftrightarrow> (length data + unat (blockSize sb) - 1) div unat (blockSize sb) < 2 ^ 21 \<and>
     (\<exists>r\<in>set bs. unat (blocksFor sb data) + 4 * length rs \<le> unat (snd r)) \<and> length bs + 3 * length rs \<le> leaf_slots sb"

lemma realloc_reads_back:
  assumes grp: "group_ok partOff sb (inoAG sb (iNum inode)) bnoRel cntRel (disk s) agf bs cs"
    and sio: "admits_first sio" "makes_bytes sio" and q: "quiet s" and w: "writable partOff sb inode"
    and data: "data \<noteq> []" "within_limits sb (length data)" "has_room sb bs rs data"
    and runs: "at_runs sb (inoAG sb (iNum inode)) rs exts" "free_set rs \<inter> free_set bs = {}" "ino_block sb (iNum inode) \<notin> free_set rs"
    and own: "ino_block sb (iNum inode) \<notin> free_set bs" and small: "(unat (inoAG sb (iNum inode)) + 1) * 2 ^ unat (agBlkLog sb) \<le> 2 ^ 52"
  shows "\<exists>inode' s'. reallocAndWrite sio (Suc (Suc (Suc fuel))) partOff sb inode exts data s = (Inr inode', s') \<and>
    readInode (disk s') partOff sb (iNum inode) = Inr inode' \<and> readFileData sio (disk s') partOff sb inode' = Some (Inr data)"
proof -
  have hr: "(length data + unat (blockSize sb) - 1) div unat (blockSize sb) < 2 ^ 21" "length bs + 3 * length rs \<le> leaf_slots sb"
    using data(3) by (simp_all add: has_room_def)
  obtain s1 agf1 bs1 cs1 where f: "freeExtents sio (Suc (Suc (Suc fuel))) partOff sb exts s = (Inr (), s1)"
    "group_ok partOff sb (inoAG sb (iNum inode)) bnoRel cntRel (disk s1) agf1 bs1 cs1" "quiet s1" "free_set bs1 = free_set bs \<union> free_set rs" "cut_by (4 * length rs) bs bs1"
    using free_extents [OF grp sio(1) q runs(1,2) hr(2)] by blast
  obtain r where "r \<in> set bs" "unat (blocksFor sb data) + 4 * length rs \<le> unat (snd r)" using data(3) by (auto simp: has_room_def)
  moreover from this(1) f(5) obtain r' where "r' \<in> set bs1" "unat (snd r) \<le> unat (snd r') + 4 * length rs" by (auto simp: cut_by_def)
  ultimately have room: "\<exists>r\<in>set bs1. blocksFor sb data \<le> snd r" by (intro bexI [of _ r']) (simp_all add: word_le_nat_alt)
  have st: "mergedQ s1 = []" "ino_block sb (iNum inode) \<notin> free_set bs1" using f(3,4) own runs(3) by (simp_all add: quiet_def)
  obtain b d' where a: "allocBlocks sio (Suc (Suc (Suc fuel))) partOff sb (inoAG sb (iNum inode)) (blocksFor sb data) s1 = (Inr b, s1\<lparr>disk := d'\<rparr>)"
    and good: "good_run partOff sb (iNum inode) b (blocksFor sb data) (length data)"
    using promote_run [OF f(2) sio(1) st(1) w data(1) hr(1) room st(2) small, of "Suc fuel"] by blast
  from storeRun_reads_back [OF sio(2) w good data(2), of "s1\<lparr>disk := d'\<rparr>"] f(1) a show ?thesis
    by (auto simp: reallocAndWrite_def bindIO_def Let_def reportNoSpace_def tryGroups_def)
qed

text \<open>
  C20. Overwriting a file with its content inline or in extents listed in the inode: \<^verbatim>\<open>overwriteFile\<close>, once the inode is
  read and known to be regular and not reflinked, succeeds, the inode on disk is the one it returned, and
  \<^verbatim>\<open>readFileData\<close> returns exactly the bytes written. This covers the four ways the code can go: inline, promoted to
  blocks, in place, and freed and moved to a new run. Of the image it takes that the old extents leave no hole (with one, data is lost:
  \<open>sparse_file_loses_data\<close>), are in use and lie in the inode's group, that the inode does not have NREXT64, and, unless the data fits
  where the old content was (and within the file's ceiling), that the group, with single-leaf free-space trees, has a free run that is long
  enough. Files whose extents are in a B-tree are not covered.
\<close>

theorem rewriteInode_reads_back:
  assumes grp: "group_ok partOff sb (inoAG sb (iNum inode)) bnoRel cntRel (disk s) agf bs cs"
    and sio: "admits_first sio" "makes_bytes sio" and q: "quiet s" and w: "writable partOff sb inode"
    and content: "content_at partOff sb inode bs rs" and lim: "within_limits sb (length data)"
    and place: "fits_there sb inode rs data \<or> has_room sb bs rs data"
    and own: "ino_block sb (iNum inode) \<notin> free_set bs" and small: "(unat (inoAG sb (iNum inode)) + 1) * 2 ^ unat (agBlkLog sb) \<le> 2 ^ 52"
    and ceil: "iFormat inode = inodeFmtExtents \<and> fits_there sb inode rs data \<longrightarrow> int (length data) \<le> sint (fileCeiling sb inode)"
  shows "\<exists>inode' s'. rewriteInode sio (Suc (Suc (Suc fuel))) partOff sb inode data s = (Inr inode', s') \<and>
    readInode (disk s') partOff sb (iNum inode) = Inr inode' \<and> readFileData sio (disk s') partOff sb inode' = Some (Inr data)"
proof -
  have "group_fits partOff sb (inoAG sb (iNum inode))" using grp by (simp add: group_ok_def grp_def)
  then have bs0: "blockSize sb \<noteq> 0" using hdr_facts by fastforce
  have "int (length data) < 2 ^ 63" using lim sint_lt [of "maxReadLimit sb"] by (simp add: within_limits_def)
  then have len: "length data < 2 ^ 63" by simp
  show ?thesis
  proof (cases "iFormat inode = inodeFmtLocal")
    case True
    show ?thesis
    proof (cases "of_nat (length data) \<le> forkCapacity sb inode")
      case cap: True
      have raw: "length (iRaw inode) = unat (inodeSize sb)" "176 \<le> unat (inodeSize sb)"
        using w by (simp_all add: writable_def inode_wf_def)
      have "unat (forkCapacity sb inode) \<le> length (dataFork inode)"
        using content True raw unat_lt(1) [of "iForkOff inode"]
        by (auto simp: content_at_def forkCapacity_def dataFork_def unat_word_ariths unat_sub_if' word_le_nat_alt inodeFmtLocal_def inodeFmtExtents_def)
      moreover have "unat (of_nat (length data) :: u64) = length data" using len unat_of_nat_small [of "length data"] by simp
      ultimately have "length data \<le> length (dataFork inode)" using cap by (simp add: word_le_nat_alt)
      from writeInline_reads_back [OF w True this, of s sio] True cap show ?thesis by (auto simp: rewriteInode_def)
    next
      case False
      then have "has_room sb bs rs data" "rs = []" "data \<noteq> []" using place content True by (auto simp: fits_there_def content_at_def inodeFmtLocal_def inodeFmtExtents_def)
      then have "(length data + unat (blockSize sb) - 1) div unat (blockSize sb) < 2 ^ 21" "\<exists>r\<in>set bs. blocksFor sb data \<le> snd r"
        by (auto simp: has_room_def word_le_nat_alt)
      from promote_run [OF grp sio(1) _ w \<open>data \<noteq> []\<close> this own small, of "Suc fuel"] q
      obtain b d' where a: "allocBlocks sio (Suc (Suc (Suc fuel))) partOff sb (inoAG sb (iNum inode)) (blocksFor sb data) s = (Inr b, s\<lparr>disk := d'\<rparr>)"
        and good: "good_run partOff sb (iNum inode) b (blocksFor sb data) (length data)" by (auto simp: quiet_def)
      from storeRun_reads_back [OF sio(2) w good lim, of "s\<lparr>disk := d'\<rparr>"] a True False show ?thesis
        by (auto simp: rewriteInode_def promoteAndWrite_def bindIO_def Let_def)
    qed
  next
    case False
    then obtain exts where f: "iFormat inode = inodeFmtExtents" and e: "inlineExtents inode = Inr exts" "good_extents partOff sb inode exts"
      and at: "at_runs sb (inoAG sb (iNum inode)) rs exts" and r: "free_set rs \<inter> free_set bs = {}" "ino_block sb (iNum inode) \<notin> free_set rs"
      using content by (auto simp: content_at_def)
    have "map snd (map (\<lambda>e. (eStartBlock e, eCount e)) exts) = map snd (map (\<lambda>r. (agAbsBlock sb (inoAG sb (iNum inode)) (fst r), snd r)) rs)"
      using at by (simp only: at_runs_def)
    then have "map (\<lambda>c. unat c) (map eCount exts) = map (\<lambda>c. unat c) (map snd rs)" by (simp add: comp_def)
    then have tot: "total_blocks exts = sum_list (map (\<lambda>r. unat (snd r)) rs)" by (simp add: total_blocks_def comp_def)
    have "1 \<le> unat (blockSize sb)" using bs0 by (simp add: Suc_le_eq word_neq_0_conv word_less_nat_alt)
    from mult_le_mono2 [OF this, of "total_blocks exts"] have t63: "total_blocks exts < 2 ^ 63" using e(2) unfolding good_extents_def by linarith
    show ?thesis
    proof (cases "(of_nat (length data) + ucast (blockSize sb) - 1) div ucast (blockSize sb) \<le> (sum_list (map (\<lambda>e. ucast (eCount e)) exts) :: u64)")
      case True
      note le = blocks_cover [OF True len bs0]
      then have "int (length data) \<le> sint (fileCeiling sb inode)" using ceil tot f by (simp add: fits_there_def inodeFmtLocal_def inodeFmtExtents_def)
      from writeExtentsInPlace_reads_back [OF sio(2) w f e le this, of s] True f e(1) show ?thesis
        by (auto simp: rewriteInode_def rewriteExtents_def Let_def bindIO_def inodeFmtExtents_def inodeFmtLocal_def)
    next
      case False
      then have "\<not> length data \<le> total_blocks exts * unat (blockSize sb)" using cover_blocks [OF _ len bs0 t63] by blast
      then have "has_room sb bs rs data" "data \<noteq> []" using place f tot by (auto simp: fits_there_def inodeFmtLocal_def inodeFmtExtents_def)
      from realloc_reads_back [OF grp sio q w this(2) lim this(1) at r own small, of fuel] False f e(1) show ?thesis
        by (auto simp: rewriteInode_def rewriteExtents_def Let_def bindIO_def inodeFmtExtents_def inodeFmtLocal_def)
    qed
  qed
qed

text \<open>An inode of the small image, in a block that is not free.\<close>

definition inode_group :: inode where
  "inode_group =
     (let raw = initInodeV3 (replicate 256 0) 40 0x81A4 1 (replicate 16 0) (0, 0)
      in \<lparr>iNum = 40, iMode = 0x81A4, iFormat = inodeFmtLocal, iSize = 0, iNBlocks = 0, iNExts = 0, iForkOff = 0, iRaw = raw\<rparr>)"

lemma inode_group_writable: "writable 0 sb_group inode_group"
proof -
  have "inode_wf sb_group inode_group"
    using initInodeV3_fields [of "replicate 256 0" "replicate 16 0"] by (simp add: inode_wf_def inode_group_def Let_def)
  moreover have "\<not> inodeNrext64 (iRaw inode_group)"
  proof -
    have "be_word (replicate 8 (0 :: byte)) = (0 :: u64)" by code_simp
    moreover have "window o' n (replicate 256 (0 :: byte)) = replicate (min n (256 - o')) 0" for o' n
      by (simp add: window_def min_def)
    ultimately show ?thesis by (simp add: inode_group_def initInodeV3_def Let_def field_frame buf_simps)
  qed
  ultimately show ?thesis
    by (simp add: writable_def inodes_fit_def ino_in_range_def ino_ag_def ino_block_def inoShift_def) (simp add: inode_group_def Let_def)
qed

definition data_group :: bytes where
  "data_group = replicate 100 7"

lemma inode_group_facts:
  "inoAG sb_group (iNum inode_group) = 0" "ino_block sb_group (iNum inode_group) = 20" "iNum inode_group = 40"
  "blocksFor sb_group data_group = 1" "length data_group = 100" "data_group \<noteq> []"
  by (simp_all add: inoAG_def ino_block_def inoShift_def inode_group_def Let_def blocksFor_def data_group_def)

lemma inode_group_room:
  "group_ok 0 sb_group (inoAG sb_group (iNum inode_group)) 4 5 (disk (freshAlloc small_dev)) (small_part 512 512) [(8, 8)] [(8, 8)]"
  "mergedQ (freshAlloc small_dev) = []"
  "(length data_group + unat (blockSize sb_group) - 1) div unat (blockSize sb_group) < 2 ^ 21"
  "\<exists>r\<in>set [(8, 8) :: arec]. blocksFor sb_group data_group \<le> snd r" "ino_block sb_group (iNum inode_group) \<notin> free_set [(8, 8)]"
  "(unat (inoAG sb_group (iNum inode_group)) + 1) * 2 ^ unat (agBlkLog sb_group) \<le> 2 ^ 52"
  unfolding inode_group_facts(1,2,4,5) small_free using small_group small_quiet by (simp_all add: quiet_def)

lemma group_alloc:
  "\<exists>b d'. allocBlocks safeio_ref 2 0 sb_group (inoAG sb_group (iNum inode_group)) (blocksFor sb_group data_group) (freshAlloc small_dev) =
     (Inr b, (freshAlloc small_dev)\<lparr>disk := d'\<rparr>) \<and> good_run 0 sb_group (iNum inode_group) b (blocksFor sb_group data_group) (length data_group)"
  using promote_run [OF inode_group_room(1) safeio_ref_admits inode_group_room(2) inode_group_writable inode_group_facts(6) inode_group_room(3-6), where fuel = 0]
  unfolding Suc_numerals .

lemma data_group_limits: "within_limits sb_group (length data_group)"
  by (simp add: within_limits_def maxReadLimit_def declaredBytes_def DefaultMaxReadSize_def data_group_def sb_group_def)

theorem promoteAndWrite_stores_witness:
  "\<exists>inode' s'. promoteAndWrite safeio_ref 2 0 sb_group inode_group data_group (freshAlloc small_dev) = (Inr inode', s') \<and>
    readInode (disk s') 0 sb_group 40 = Inr inode' \<and> readFileData safeio_ref (disk s') 0 sb_group inode' = Some (Inr data_group)"
  using promoteAndWrite_stores [OF inode_group_room(1) safeio_ref_admits safeio_ref_bytes inode_group_room(2) inode_group_writable
    inode_group_facts(6) data_group_limits inode_group_room(3-6), where fuel = 0]
  unfolding Suc_numerals inode_group_facts(3) .

text \<open>The same inode once its content is in \<open>n\<close> blocks from block 24 on.\<close>

definition inode_blocks :: "u32 \<Rightarrow> inode" where
  "inode_blocks n = (case oneExtentInode inode_group (agAbsBlock sb_group 0 24) n data_group of Inr i \<Rightarrow> i | Inl _ \<Rightarrow> inode_group)"

lemma inode_blocks_facts:
  assumes "n \<le> 2"
  shows "writable 0 sb_group (inode_blocks n)" "iNum (inode_blocks n) = 40" "iFormat (inode_blocks n) = inodeFmtExtents" "iNBlocks (inode_blocks n) = ucast n"
    "inlineExtents (inode_blocks n) = Inr [\<lparr>eStartOff = 0, eStartBlock = agAbsBlock sb_group 0 24, eCount = n, eUnwritten = False\<rparr>]"
proof -
  have "unat (agAbsBlock sb_group 0 24) < 2 ^ 52" "unat n < 2 ^ 21" using agAbsBlock_unat [of sb_group 24 0] assms by (simp_all add: word_le_nat_alt)
  then obtain i where "oneExtentInode inode_group (agAbsBlock sb_group 0 24) n data_group = Inr i" "inode_wf sb_group i" "iNum i = 40"
    "iFormat i = inodeFmtExtents" "iNBlocks i = ucast n" "\<not> inodeNrext64 (iRaw i)"
    "inlineExtents i = Inr [\<lparr>eStartOff = 0, eStartBlock = agAbsBlock sb_group 0 24, eCount = n, eUnwritten = False\<rparr>]"
    using oneExtentInode_spec [of sb_group inode_group "agAbsBlock sb_group 0 24" n data_group] inode_group_writable inode_group_facts(3)
    by (auto simp: writable_def)
  then show "writable 0 sb_group (inode_blocks n)" "iNum (inode_blocks n) = 40" "iFormat (inode_blocks n) = inodeFmtExtents" "iNBlocks (inode_blocks n) = ucast n"
    "inlineExtents (inode_blocks n) = Inr [\<lparr>eStartOff = 0, eStartBlock = agAbsBlock sb_group 0 24, eCount = n, eUnwritten = False\<rparr>]"
    using inode_group_writable inode_group_facts(3) by (simp_all add: inode_blocks_def writable_def)
qed

lemma inode_blocks_at:
  assumes "n = 1 \<or> n = 2"
  shows "content_at 0 sb_group (inode_blocks n) [(8, 8)] [(24, n)]"
proof -
  let ?b = "agAbsBlock sb_group 0 24"
  have n: "n \<le> 2" "0 < n" "unat n \<le> 2" "0 < unat n" using assms by auto
  have ag: "inoAG sb_group 40 = 0" "ino_block sb_group 40 = 20" using inode_group_facts(1-3) by simp_all
  have "good_run 0 sb_group 40 ?b n 0"
    using free_run_good [of 0 sb_group 0 40 "(24, n)" n 0] inode_blocks_facts(1,2) [OF n(1)] small_group ag n(3,4) by (simp add: writable_def group_ok_def grp_def)
  then have "good_extents 0 sb_group (inode_blocks n) [\<lparr>eStartOff = 0, eStartBlock = ?b, eCount = n, eUnwritten = False\<rparr>]"
    using n(3) by (simp add: good_extents_def good_run_def ext_run_def total_blocks_def inode_blocks_facts(2) [OF n(1)])
  then show ?thesis unfolding content_at_def inode_blocks_facts(2,3,5) [OF n(1)] ag small_free
    using n by (simp add: at_runs_def apart_def free_set_def run_blocks_def)
qed

lemma inode_group_at: "content_at 0 sb_group inode_group [(8, 8)] []"
  by (simp add: content_at_def inode_group_def Let_def)

theorem rewriteInode_reads_back_witness:
  "(\<exists>inode' s'. rewriteInode safeio_ref 3 0 sb_group inode_group [1, 2, 3] (freshAlloc small_dev) = (Inr inode', s') \<and>
      readInode (disk s') 0 sb_group 40 = Inr inode' \<and> readFileData safeio_ref (disk s') 0 sb_group inode' = Some (Inr [1, 2, 3])) \<and>
   (\<exists>inode' s'. rewriteInode safeio_ref 3 0 sb_group inode_group data_group (freshAlloc small_dev) = (Inr inode', s') \<and>
      readInode (disk s') 0 sb_group 40 = Inr inode' \<and> readFileData safeio_ref (disk s') 0 sb_group inode' = Some (Inr data_group)) \<and>
   (\<exists>inode' s'. rewriteInode safeio_ref 3 0 sb_group (inode_blocks 1) (replicate 300 5) (freshAlloc small_dev) = (Inr inode', s') \<and>
      readInode (disk s') 0 sb_group 40 = Inr inode' \<and> readFileData safeio_ref (disk s') 0 sb_group inode' = Some (Inr (replicate 300 5))) \<and>
   (\<exists>inode' s'. rewriteInode safeio_ref 3 0 sb_group (inode_blocks 1) (replicate 600 5) (freshAlloc small_dev) = (Inr inode', s') \<and>
      readInode (disk s') 0 sb_group 40 = Inr inode' \<and> readFileData safeio_ref (disk s') 0 sb_group inode' = Some (Inr (replicate 600 5)))"
proof (intro conjI)
  have lim: "within_limits sb_group n" if "n \<le> 600" for n
    using that by (simp add: within_limits_def maxReadLimit_def declaredBytes_def DefaultMaxReadSize_def sb_group_def)
  note ib = inode_blocks_facts [of 1, simplified] and num = inode_group_facts(3) inode_blocks_facts(2) [of 1, simplified]
  note inline = rewriteInode_reads_back [OF inode_group_room(1) safeio_ref_admits safeio_ref_bytes small_quiet inode_group_writable
    inode_group_at _ _ inode_group_room(5,6), where fuel = 0, unfolded Suc_numerals(2) num]
  note blocks = rewriteInode_reads_back [of 0 sb_group "inode_blocks 1", unfolded num, OF inode_group_room(1) [unfolded num] safeio_ref_admits safeio_ref_bytes
    small_quiet ib(1) inode_blocks_at [of 1, simplified] _ _ inode_group_room(5,6) [unfolded num], where fuel = 0, unfolded Suc_numerals(2)]
  have slots: "leaf_slots sb_group \<ge> 4" by (simp add: leaf_slots_def allocMaxLeaf_def agBTreeHdrSize_def btreeHdrSize_def allocRecSize_def)
  show "\<exists>inode' s'. rewriteInode safeio_ref 3 0 sb_group inode_group [1, 2, 3] (freshAlloc small_dev) = (Inr inode', s') \<and>
      readInode (disk s') 0 sb_group 40 = Inr inode' \<and> readFileData safeio_ref (disk s') 0 sb_group inode' = Some (Inr [1, 2, 3])"
    by (rule inline) (simp_all add: lim fits_there_def forkCapacity_def inode_group_def Let_def inodeFmtLocal_def inodeFmtExtents_def)
  show "\<exists>inode' s'. rewriteInode safeio_ref 3 0 sb_group inode_group data_group (freshAlloc small_dev) = (Inr inode', s') \<and>
      readInode (disk s') 0 sb_group 40 = Inr inode' \<and> readFileData safeio_ref (disk s') 0 sb_group inode' = Some (Inr data_group)"
    by (rule inline) (use slots in \<open>simp_all add: lim has_room_def inode_group_facts(4,5)\<close>, simp add: inode_group_def Let_def inodeFmtLocal_def inodeFmtExtents_def)
  show "\<exists>inode' s'. rewriteInode safeio_ref 3 0 sb_group (inode_blocks 1) (replicate 300 5) (freshAlloc small_dev) = (Inr inode', s') \<and>
      readInode (disk s') 0 sb_group 40 = Inr inode' \<and> readFileData safeio_ref (disk s') 0 sb_group inode' = Some (Inr (replicate 300 5))"
    by (rule blocks) (use fileCeiling_within [OF lim [of 300], of "inode_blocks 1" 1] in
      \<open>simp_all add: lim fits_there_def ib inodeFmtLocal_def inodeFmtExtents_def\<close>)
  show "\<exists>inode' s'. rewriteInode safeio_ref 3 0 sb_group (inode_blocks 1) (replicate 600 5) (freshAlloc small_dev) = (Inr inode', s') \<and>
      readInode (disk s') 0 sb_group 40 = Inr inode' \<and> readFileData safeio_ref (disk s') 0 sb_group inode' = Some (Inr (replicate 600 5))"
    by (rule blocks) (use slots in \<open>simp_all add: lim has_room_def blocksFor_def fits_there_def ib inodeFmtLocal_def inodeFmtExtents_def\<close>)
qed

section \<open>Where the content is not kept\<close>

text \<open>
  Inline content overwrites everything after the inode core: beyond the data all is zero, an
  attribute fork (at eight times the fork offset) included.
\<close>

lemma writeInline_clears_attributes:
  assumes "176 \<le> length (iRaw inode)" and "length data \<le> length (dataFork inode)"
  shows "dataFork (writeInline inode data) = data @ replicate (length (dataFork inode) - length data) 0"
proof -
  have "dataFork (writeInline inode data) = patch 0 data (drop 176 (zero_range 176 (length (dataFork inode)) (iRaw inode)))"
    using assms(1) by (simp add: writeInline_def) (simp add: dataFork_def drop_patch_at)
  moreover have "drop 176 (zero_range 176 (length (dataFork inode)) (iRaw inode)) = replicate (length (dataFork inode)) 0"
    using assms(1) by (simp add: zero_range_def drop_patch_at) (simp add: dataFork_def patch_whole)
  ultimately show ?thesis using assms(2) by (simp add: patch_whole)
qed

text \<open>A run of \<open>2 ^ 21\<close> blocks does not fit the record it is stored in: the count read back is 0.\<close>

lemma long_run_truncated:
  "eCount (decodeExtent (encodeExtent \<lparr>eStartOff = 0, eStartBlock = 8, eCount = 0x200000, eUnwritten = False\<rparr>)) = 0"
  by code_simp

text \<open>
  In-place writes ignore where an extent is in the file. On a file with block 1 missing, the
  second block of new content goes to the extent of block 2 and is read back as zeros.
\<close>

lemma readExtentsLoop_append:
  "readExtentsLoop d partOff sb sz out (xs @ ys) = bindR (readExtentsLoop d partOff sb sz out xs) (\<lambda>o'. readExtentsLoop d partOff sb sz o' ys)"
  by (induction xs arbitrary: out) (auto simp: Let_def bindR_def split: sum.splits)

lemma sparse_file_loses_data:
  assumes "stored d partOff sb data 0 [e, e']" and "ext_run partOff sb e" and "length data = 2 * unat (blockSize sb)" and "0 < blockSize sb"
    and "eStartOff e = 0" "eCount e = 1" "eStartOff e' = 2" "eCount e' = 1"
  shows "readExtentsLoop d partOff sb (of_nat (length data)) (replicate (length data) 0) [e, e'] =
    Inr (take (unat (blockSize sb)) data @ replicate (unat (blockSize sb)) 0)"
proof -
  let ?B = "unat (blockSize sb)" and ?sz = "of_nat (length data) :: u64"
  have B: "0 < ?B" "?B < 2 ^ 32" using assms(4) unat_lt(3) [of "blockSize sb"] by (simp_all add: word_less_nat_alt)
  have len: "length data < 2 ^ 63" using assms(3) B by simp
  have one: "readExtentsLoop d partOff sb ?sz (replicate (length data) 0) [e] = Inr (take ?B data @ replicate ?B 0)"
    using readExtentsLoop_stored [of d partOff sb data 0 "[e]"] assms B len by (simp add: total_blocks_def)
  have "unat ?sz = length data" using len unat_of_nat_small [of "length data"] by simp
  moreover have "unat (2 * ucast (blockSize sb) :: u64) = 2 * ?B" using B unat_mult_small [of 2 "ucast (blockSize sb)"] by simp
  ultimately have "?sz \<le> eStartOff e' * ucast (blockSize sb)" using assms(3,7) by (simp add: word_le_nat_alt)
  then have "readExtentsLoop d partOff sb ?sz out [e'] = Inr out" for out by simp
  then show ?thesis using one readExtentsLoop_append [of d partOff sb ?sz "replicate (length data) 0" "[e]" "[e']"] by simp
qed

end
