(* ===== verification/DirWrite.thy ===== *)
theory DirWrite
  imports Content
begin

text \<open>
  Writing directories (leafdir.go; write.go: \<^verbatim>\<open>addDirEntry\<close>, \<^verbatim>\<open>convertSFToBlock\<close>,
  \<^verbatim>\<open>addEntryToBlockDir\<close>, \<^verbatim>\<open>dirParentIno\<close>; delete.go: \<^verbatim>\<open>removeDirEntry\<close>, \<^verbatim>\<open>removeBlockDirEntry\<close>).
  Every change to a directory that is not short-form rebuilds it from its complete list of
  entries: one block while they fit, then data blocks with a hash index in one leaf block, then an
  index tree of any depth (node form). The inode mutated through its pointer is returned.
\<close>

section \<open>The index tree of node form\<close>

text \<open>A planned index block: a leaf with its entries, or an inner node with its children.\<close>

record plan =
  pnLeaf :: bool
  pnHash :: u32
  pnKids :: "nat list"
  pnChunk :: "leafEnt list"

definition leafPlans :: "nat \<Rightarrow> nat \<Rightarrow> leafEnt list \<Rightarrow> plan list" where
  "leafPlans perLeaf K lents =
     map (\<lambda>j. let chunk = take perLeaf (drop (j * perLeaf) lents)
              in \<lparr>pnLeaf = True, pnHash = leHash (last chunk), pnKids = [], pnChunk = chunk\<rparr>) [0..<K]"

text \<open>\<open>m\<close> groups of \<open>base\<close> children each, the first \<open>extra\<close> of them with one more.\<close>

fun evenGroups :: "nat \<Rightarrow> nat \<Rightarrow> nat \<Rightarrow> 'a list \<Rightarrow> 'a list list" where
  "evenGroups 0 base extra xs = []"
| "evenGroups (Suc m) base extra xs =
     (let cnt = (if 0 < extra then base + 1 else base)
      in take cnt xs # evenGroups m base (extra - 1) (drop cnt xs))"

definition parentCount :: "nat \<Rightarrow> nat \<Rightarrow> nat" where
  "parentCount mx len = (len + mx - 1) div mx"

definition levelGroups :: "nat \<Rightarrow> 'a list \<Rightarrow> 'a list list" where
  "levelGroups mx level = (let m = parentCount mx (length level) in evenGroups m (length level div m) (length level mod m) level)"

lemma length_evenGroups [simp]: "length (evenGroups m base extra xs) = m"
  by (induction m base extra xs rule: evenGroups.induct) (simp_all add: Let_def)

lemma parentCount_less: "2 \<le> mx \<Longrightarrow> 1 < len \<Longrightarrow> parentCount mx len < len"
proof -
  assume mx: "2 \<le> mx" and len: "1 < len"
  have "2 * len \<le> mx * len" using mx by (rule mult_le_mono1)
  moreover have "mx * 2 \<le> mx * len" using len by (intro mult_le_mono2) simp
  moreover have "2 * (mx * len) \<ge> 2 * len + 2 * mx" using calculation by linarith
  ultimately have "len + mx - 1 < mx * len" using mx by linarith
  then show ?thesis unfolding parentCount_def using mx by (simp add: div_less_iff_less_mult mult.commute)
qed

text \<open>
  The levels above the leaves, until one root remains. With fewer than two entries per node the
  loop would not end; blocks of 512 bytes and more hold at least 56.
\<close>

function buildLevels :: "nat \<Rightarrow> plan list \<Rightarrow> nat list list \<Rightarrow> nat list \<Rightarrow> (plan list \<times> nat list list) res" where
  "buildLevels mx nodes levels level =
     (if length level \<le> 1 then Inr (nodes, levels)
      else if mx < 2 then Inl OutOfFuel
      else let groups = levelGroups mx level;
               new = map (\<lambda>cs. \<lparr>pnLeaf = False, pnHash = pnHash (nodes ! last cs), pnKids = cs, pnChunk = []\<rparr>) groups;
               next = [length nodes..<length nodes + length groups]
           in buildLevels mx (nodes @ new) (levels @ [next]) next)"
  by pat_completeness auto
termination
  by (relation "measure (\<lambda>(mx, nodes, levels, level). length level)")
    (auto simp: levelGroups_def Let_def intro: parentCount_less)

declare buildLevels.simps [simp del]

text \<open>The breadth-first order of the blocks from the root on; the fuel is the number of blocks.\<close>

fun bfsOrder :: "nat \<Rightarrow> plan list \<Rightarrow> nat list \<Rightarrow> nat list" where
  "bfsOrder 0 nodes queue = []"
| "bfsOrder (Suc k) nodes [] = []"
| "bfsOrder (Suc k) nodes (x # queue) = x # bfsOrder k nodes (queue @ pnKids (nodes ! x))"

fun posOf :: "nat \<Rightarrow> nat list \<Rightarrow> nat" where
  "posOf x [] = 0"
| "posOf x (y # ys) = (if x = y then 0 else Suc (posOf x ys))"

definition logOf :: "u32 \<Rightarrow> nat list \<Rightarrow> nat \<Rightarrow> u32" where
  "logOf leafLog order idx = (if idx \<in> set order then leafLog + of_nat (posOf idx order) else 0)"

text \<open>The neighbours of a block on its level; 0 where there is none.\<close>

fun neighbours :: "nat option \<Rightarrow> nat list \<Rightarrow> nat \<Rightarrow> (nat option \<times> nat option) option" where
  "neighbours prev [] idx = None"
| "neighbours prev (x # xs) idx =
     (if x = idx then Some (prev, case xs of [] \<Rightarrow> None | y # _ \<Rightarrow> Some y) else neighbours (Some x) xs idx)"

fun siblings :: "nat list list \<Rightarrow> nat \<Rightarrow> nat option \<times> nat option" where
  "siblings [] idx = (None, None)"
| "siblings (lv # lvs) idx = (case neighbours None lv idx of Some r \<Rightarrow> r | None \<Rightarrow> siblings lvs idx)"

definition logOpt :: "u32 \<Rightarrow> nat list \<Rightarrow> nat option \<Rightarrow> u32" where
  "logOpt leafLog order x = (case x of None \<Rightarrow> 0 | Some idx \<Rightarrow> logOf leafLog order idx)"

text \<open>The level field of every block; children are emitted before their parents.\<close>

definition nodeLevels :: "plan list \<Rightarrow> u16 list" where
  "nodeLevels nodes =
     foldl (\<lambda>acc p. acc @ [if pnLeaf p then 0 else if pnLeaf (nodes ! hd (pnKids p)) then 1 else acc ! hd (pnKids p) + 1]) [] nodes"

definition magicDir3LeafN :: u16 where "magicDir3LeafN = 0x3dff"
definition magicDa3Node :: u16 where "magicDa3Node = 0x3ebe"

definition nodeBlock :: "superblock \<Rightarrow> inode \<Rightarrow> u32 \<Rightarrow> plan list \<Rightarrow> nat list list \<Rightarrow> nat list \<Rightarrow> nat \<Rightarrow> bytes" where
  "nodeBlock sb inode leafLog nodes levels order idx =
     (let p = nodes ! idx;
          b = replicate (unat (blockSize sb)) 0;
          b = put32 0 (logOpt leafLog order (snd (siblings levels idx))) b;
          b = put32 4 (logOpt leafLog order (fst (siblings levels idx))) b;
          b = patch 32 (take 16 (sbUuid sb)) b;
          b = put64 48 (iNum inode) b
      in if pnLeaf p
         then putLeaves 64 (pnChunk p) (put16 56 (of_nat (length (pnChunk p))) (put16 8 magicDir3LeafN b))
         else putLeaves 64 (map (\<lambda>c. \<lparr>leHash = pnHash (nodes ! c), leAddr = logOf leafLog order c\<rparr>) (pnKids p))
                (put16 58 (nodeLevels nodes ! idx) (put16 56 (of_nat (length (pnKids p))) (put16 8 magicDa3Node b))))"

text \<open>The blocks in the order of their logical numbers.\<close>

definition dirNodeBuild :: "superblock \<Rightarrow> inode \<Rightarrow> u32 \<Rightarrow> nat \<Rightarrow> nat \<Rightarrow> leafEnt list \<Rightarrow> bytes list res" where
  "dirNodeBuild sb inode leafLog perLeaf K lents =
     bindR (buildLevels ((unat (blockSize sb) - 64) div 8) (leafPlans perLeaf K lents) [[0..<K]] [0..<K]) (\<lambda>(nodes, levels).
       let order = bfsOrder (length nodes) nodes [hd (last levels)]
       in Inr (map (nodeBlock sb inode leafLog nodes levels order) order))"

section \<open>Laying out a directory\<close>

definition dirFreeByteOffset :: u64 where
  "dirFreeByteOffset = 0x1000000000"

definition dirBlockLayout :: "('g, 'v) safeio \<Rightarrow> dev \<Rightarrow> int64 \<Rightarrow> superblock \<Rightarrow> inode \<Rightarrow> (u64 list \<times> bool) res" where
  "dirBlockLayout sio d partOff sb inode =
     (if iFormat inode = inodeFmtLocal then Inr ([], False)
      else bindR (dirExtents sio d partOff sb inode) (\<lambda>exts.
        Inr (dirDataBlocks sb exts, \<exists>e\<in>set exts. dirLeafByteOffset div ucast (blockSize sb) \<le> eStartOff e)))"

definition freeDirBlocks :: "('g, 'v) safeio \<Rightarrow> nat \<Rightarrow> int64 \<Rightarrow> superblock \<Rightarrow> inode \<Rightarrow> unit aio" where
  "freeDirBlocks sio fuel partOff sb inode =
     (if iFormat inode = inodeFmtLocal then retIO ()
      else bindIO (readIO (\<lambda>s. dirExtents sio (disk s) partOff sb inode)) (freeExtents sio fuel partOff sb))"

definition dirInode :: "inode \<Rightarrow> u64 \<Rightarrow> u64 \<Rightarrow> extent list \<Rightarrow> inode res" where
  "dirInode inode nBlocks sz exts =
     writeExtentList (setInodeSize (setInodeNExtents (setInodeNBlocks (setInodeFormat inode inodeFmtExtents) nBlocks)
       (of_nat (length exts))) sz) exts"

definition dataExt :: "u64 \<Rightarrow> u64 \<Rightarrow> nat \<Rightarrow> extent" where
  "dataExt off b n = \<lparr>eStartOff = off, eStartBlock = b, eCount = of_nat n, eUnwritten = False\<rparr>"

definition storeDirInode :: "int64 \<Rightarrow> superblock \<Rightarrow> inode \<Rightarrow> u64 \<Rightarrow> u64 \<Rightarrow> extent list \<Rightarrow> inode aio" where
  "storeDirInode partOff sb inode nBlocks sz exts = bindIO (liftIO (dirInode inode nBlocks sz exts)) (putInode partOff sb)"

definition writeDataRegion ::
  "int64 \<Rightarrow> superblock \<Rightarrow> inode \<Rightarrow> u64 \<Rightarrow> nat \<Rightarrow> placedEnt list \<Rightarrow> nat list \<Rightarrow> unit aio" where
  "writeDataRegion partOff sb inode dataStart D placed blockEnd =
     onDisk (writeBlocksData partOff sb dataStart (of_nat D) (dataRegion sb inode dataStart D placed blockEnd))"

definition writeLeaf1Index ::
  "('g, 'v) safeio \<Rightarrow> nat \<Rightarrow> int64 \<Rightarrow> superblock \<Rightarrow> inode \<Rightarrow> u64 \<Rightarrow> nat \<Rightarrow> nat list \<Rightarrow> leafEnt list \<Rightarrow> inode aio" where
  "writeLeaf1Index sio fuel partOff sb inode dataStart D blockEnd lents =
     bindIO (allocBlocks sio fuel partOff sb (inoAG sb (iNum inode)) 1) (\<lambda>leafBlock.
     bindIO (onDisk (writeBlocksData partOff sb leafBlock 1 (leaf1Block sb inode leafBlock D blockEnd lents))) (\<lambda>_.
       storeDirInode partOff sb inode (of_nat (D + 1)) (of_nat (D * unat (blockSize sb)))
         [dataExt 0 dataStart D, dataExt (dirLeafByteOffset div ucast (blockSize sb)) leafBlock 1]))"

text \<open>The index blocks with their own block number and checksum.\<close>

definition stampNodeBlock :: "superblock \<Rightarrow> u64 \<Rightarrow> nat \<Rightarrow> bytes \<Rightarrow> bytes" where
  "stampNodeBlock sb leafStart b buf =
     (let buf = put64 16 (fsbToPhysBlock sb (leafStart + of_nat b) * fmtDaddrPerBlock) buf
      in if hasCRC sb then updateCRC buf 12 (unat (blockSize sb)) else buf)"

definition dirWriteFreeIndex ::
  "int64 \<Rightarrow> superblock \<Rightarrow> inode \<Rightarrow> u64 \<Rightarrow> nat \<Rightarrow> nat \<Rightarrow> nat \<Rightarrow> nat list \<Rightarrow> unit aio" where
  "dirWriteFreeIndex partOff sb inode freeStart D F bestsPerFree blockEnd =
     onDisk (writeBlocksData partOff sb freeStart (of_nat F) (freeIndexRegion sb inode freeStart D F bestsPerFree blockEnd))"

definition writeNodeIndex ::
  "('g, 'v) safeio \<Rightarrow> nat \<Rightarrow> int64 \<Rightarrow> superblock \<Rightarrow> inode \<Rightarrow> u64 \<Rightarrow> nat \<Rightarrow> nat list \<Rightarrow> leafEnt list \<Rightarrow> inode aio" where
  "writeNodeIndex sio fuel partOff sb inode dataStart D blockEnd lents =
     (let blkSize = unat (blockSize sb);
          leafLog = ucast (dirLeafByteOffset div ucast (blockSize sb)) :: u32;
          perLeaf = (blkSize - 64) div 8;
          K = max 1 ((length lents + perLeaf - 1) div perLeaf);
          bestsPerFree = (blkSize - 64) div 2;
          F = max 1 ((D + bestsPerFree - 1) div bestsPerFree);
          ag = inoAG sb (iNum inode)
      in bindIO (liftIO (dirNodeBuild sb inode leafLog perLeaf K lents)) (\<lambda>region.
         let leafBlocks = length region in
         bindIO (allocBlocks sio fuel partOff sb ag (of_nat leafBlocks)) (\<lambda>leafStart.
         bindIO (allocBlocks sio fuel partOff sb ag (of_nat F)) (\<lambda>freeStart.
         bindIO (onDisk (writeBlocksData partOff sb leafStart (of_nat leafBlocks)
           (concat (map (\<lambda>b. stampNodeBlock sb leafStart b (region ! b)) [0..<leafBlocks])))) (\<lambda>_.
         bindIO (dirWriteFreeIndex partOff sb inode freeStart D F bestsPerFree blockEnd) (\<lambda>_.
           storeDirInode partOff sb inode (of_nat D + of_nat leafBlocks + of_nat F) (of_nat (D * blkSize))
             [dataExt 0 dataStart D, dataExt (ucast leafLog) leafStart leafBlocks,
              dataExt (dirFreeByteOffset div ucast (blockSize sb)) freeStart F]))))))"

definition buildLeafDir :: "('g, 'v) safeio \<Rightarrow> nat \<Rightarrow> int64 \<Rightarrow> superblock \<Rightarrow> inode \<Rightarrow> u64 \<Rightarrow> dirEnt list \<Rightarrow> inode aio" where
  "buildLeafDir sio fuel partOff sb inode parentIno entries =
     (let (placed, blockEnd, D) = packDirEntries sb inode parentIno entries;
          lents = leafEntries sb placed
      in bindIO (allocBlocks sio fuel partOff sb (inoAG sb (iNum inode)) (of_nat D)) (\<lambda>dataStart.
         bindIO (writeDataRegion partOff sb inode dataStart D placed blockEnd) (\<lambda>_.
           if dirDataHdrSize (hasCRC sb) + length lents * 8 + D * 2 + 4 \<le> unat (blockSize sb)
           then writeLeaf1Index sio fuel partOff sb inode dataStart D blockEnd lents
           else writeNodeIndex sio fuel partOff sb inode dataStart D blockEnd lents)))"

definition fitsOneBlock :: "superblock \<Rightarrow> dirEnt list \<Rightarrow> bool" where
  "fitsOneBlock sb entries \<longleftrightarrow>
     dirDataHdrSize (hasCRC sb) + (dirEntrySize 1 (hasFType sb) + dirEntrySize 2 (hasFType sb)
       + sum_list (map (\<lambda>e. dirEntrySize (length (entName e)) (hasFType sb)) entries))
       + (length entries + 2) * 8 + 8 \<le> unat (blockSize sb)"

definition writeWholeDir :: "('g, 'v) safeio \<Rightarrow> nat \<Rightarrow> int64 \<Rightarrow> superblock \<Rightarrow> inode \<Rightarrow> u64 \<Rightarrow> dirEnt list \<Rightarrow> inode aio" where
  "writeWholeDir sio fuel partOff sb inode parentIno entries =
     bindIO (readIO (\<lambda>s. dirBlockLayout sio (disk s) partOff sb inode)) (\<lambda>(dataBlocks, hasLeaf).
     if fitsOneBlock sb entries \<and> length dataBlocks = 1 \<and> \<not> hasLeaf
     then bindIO (liftIO (buildBlockDirBlock sb (unat (blockSize sb)) (hd dataBlocks) (iNum inode) parentIno entries)) (\<lambda>blk.
          bindIO (onDisk (writeRawBlock partOff sb (hd dataBlocks) blk)) (\<lambda>_. retIO inode))
     else bindIO (freeDirBlocks sio fuel partOff sb inode) (\<lambda>_.
       if fitsOneBlock sb entries
       then bindIO (allocBlocks sio fuel partOff sb (inoAG sb (iNum inode)) 1) (\<lambda>absBlock.
            bindIO (liftIO (buildBlockDirBlock sb (unat (blockSize sb)) absBlock (iNum inode) parentIno entries)) (\<lambda>blk.
            bindIO (onDisk (writeBlocksData partOff sb absBlock 1 blk)) (\<lambda>_.
              storeDirInode partOff sb inode 1 (ucast (blockSize sb)) [dataExt 0 absBlock 1])))
       else buildLeafDir sio fuel partOff sb inode parentIno entries))"

section \<open>Adding and removing an entry\<close>

definition dirParentIno :: "('g, 'v) safeio \<Rightarrow> dev \<Rightarrow> int64 \<Rightarrow> superblock \<Rightarrow> inode \<Rightarrow> u64 res" where
  "dirParentIno sio d partOff sb dirIn =
     bindR (dirExtents sio d partOff sb dirIn) (\<lambda>exts.
       case filter (\<lambda>e. eStartOff e = 0 \<and> eStartOff e < dirLeafByteOffset div ucast (blockSize sb)) exts of
         [] \<Rightarrow> Inl ErrFormat
       | e # _ \<Rightarrow> bindR (readRawBlock d partOff sb (eStartBlock e)) (\<lambda>blk. Inr (blockDirParent blk (hasFType sb) (hasCRC sb))))"

definition toDirEnt :: "DirEntry \<Rightarrow> dirEnt" where
  "toDirEnt e = \<lparr>entName = deName e, entIno = deInode e, entType = deType e\<rparr>"

definition sfParent :: "bytes \<Rightarrow> u64 res" where
  "sfParent fork =
     (if length fork < 2 then Inl Panic
      else if 0 < byte_at fork 1 then (if length fork < 10 then Inl Panic else Inr (be64 fork 2))
      else if length fork < 6 then Inl Panic else Inr (ucast (be32 fork 2)))"

definition convertSFToBlock ::
  "('g, 'v) safeio \<Rightarrow> nat \<Rightarrow> int64 \<Rightarrow> superblock \<Rightarrow> inode \<Rightarrow> u64 \<Rightarrow> bytes \<Rightarrow> byte \<Rightarrow> inode aio" where
  "convertSFToBlock sio fuel partOff sb dirIn newIno newName newFtype =
     (let fork = dataFork dirIn;
          existing = filter (\<lambda>e. deName e \<noteq> [46] \<and> deName e \<noteq> [46, 46]) (sfReadDir fork (hasFType sb))
      in bindIO (liftIO (sfParent fork)) (\<lambda>parentIno.
         writeWholeDir sio fuel partOff sb dirIn parentIno
           (map toDirEnt existing @ [\<lparr>entName = newName, entIno = newIno, entType = newFtype\<rparr>])))"

definition addEntryToBlockDir ::
  "('g, 'v) safeio \<Rightarrow> nat \<Rightarrow> int64 \<Rightarrow> superblock \<Rightarrow> inode \<Rightarrow> u64 \<Rightarrow> bytes \<Rightarrow> byte \<Rightarrow> inode aio" where
  "addEntryToBlockDir sio fuel partOff sb dirIn childIno name ftype =
     bindIO (readIO (\<lambda>s. dirParentIno sio (disk s) partOff sb dirIn)) (\<lambda>parentIno.
     bindIO (readIO (\<lambda>s. readDir sio (disk s) partOff sb dirIn)) (\<lambda>existing.
       if \<exists>e\<in>set existing. deName e = name then failIO ErrExists
       else writeWholeDir sio fuel partOff sb dirIn parentIno
              (map toDirEnt existing @ [\<lparr>entName = name, entIno = childIno, entType = ftype\<rparr>])))"

definition addDirEntry ::
  "('g, 'v) safeio \<Rightarrow> nat \<Rightarrow> int64 \<Rightarrow> superblock \<Rightarrow> inode \<Rightarrow> u64 \<Rightarrow> bytes \<Rightarrow> byte \<Rightarrow> inode aio" where
  "addDirEntry sio fuel partOff sb dirIn childIno name ftype =
     (if iFormat dirIn = inodeFmtLocal
      then case addEntryToSFDir dirIn childIno name ftype sb of
             Inr dirIn' \<Rightarrow> putInode partOff sb dirIn'
           | Inl e \<Rightarrow> if e = ErrDirOverflow then convertSFToBlock sio fuel partOff sb dirIn childIno name ftype else failIO e
      else if iFormat dirIn = inodeFmtExtents \<or> iFormat dirIn = inodeFmtBtree
        then addEntryToBlockDir sio fuel partOff sb dirIn childIno name ftype
      else failIO ErrFormat)"

definition removeBlockDirEntry :: "('g, 'v) safeio \<Rightarrow> nat \<Rightarrow> int64 \<Rightarrow> superblock \<Rightarrow> inode \<Rightarrow> bytes \<Rightarrow> inode aio" where
  "removeBlockDirEntry sio fuel partOff sb inode name =
     bindIO (readIO (\<lambda>s. dirParentIno sio (disk s) partOff sb inode)) (\<lambda>parentIno.
     bindIO (readIO (\<lambda>s. readDir sio (disk s) partOff sb inode)) (\<lambda>current.
       if \<forall>e\<in>set current. deName e \<noteq> name then failIO ErrNotFound
       else writeWholeDir sio fuel partOff sb inode parentIno (map toDirEnt (filter (\<lambda>e. deName e \<noteq> name) current))))"

definition removeDirEntry :: "('g, 'v) safeio \<Rightarrow> nat \<Rightarrow> int64 \<Rightarrow> superblock \<Rightarrow> inode \<Rightarrow> bytes \<Rightarrow> inode aio" where
  "removeDirEntry sio fuel partOff sb dirIn name =
     (if iFormat dirIn = inodeFmtLocal then bindIO (liftIO (removeSFEntry dirIn name sb)) (putInode partOff sb)
      else if iFormat dirIn = inodeFmtExtents \<or> iFormat dirIn = inodeFmtBtree
        then removeBlockDirEntry sio fuel partOff sb dirIn name
      else failIO ErrFormat)"

section \<open>Extent lists are read as they were written\<close>

lemma writeExtentList_inline:
  assumes "writeExtentList inode exts = Inr inode'" and "iNExts inode = of_nat (length exts)" and "length exts < 2 ^ 32"
    and "176 \<le> length (iRaw inode)" and "\<forall>e\<in>set exts. extent_ok e" and "validateExtents exts = Inr ()"
  shows "inlineExtents inode' = Inr exts" "inode' = inode\<lparr>iRaw := patch 176 (concat (map encodeExtent exts)) (iRaw inode)\<rparr>"
proof -
  let ?cs = "concat (map encodeExtent exts)"
  show i': "inode' = inode\<lparr>iRaw := patch 176 ?cs (iRaw inode)\<rparr>"
    using assms(1) by (auto simp: writeExtentList_def split: if_splits)
  have fit: "length exts * 16 \<le> length (dataFork inode)" using assms(1) by (auto simp: writeExtentList_def split: if_splits)
  have len: "length ?cs = length exts * 16" by (rule bmbt_rec.length_concat_enc)
  have fork: "dataFork inode' = ?cs @ drop (length ?cs) (dataFork inode)"
    using fit assms(4) len unfolding i' by (simp add: dataFork_def drop_patch_at patch_whole)
  have n: "unat (iNExts inode') = length exts" using assms(2,3) i' by (simp add: unat_of_nat)
  have flen: "length (dataFork inode') = length (dataFork inode)" using fork fit len by simp
  have "map (\<lambda>i. decodeExtent (drop (i * 16) (dataFork inode'))) [0..<length exts] = exts"
    unfolding fork using bmbt_rec.dec_array [OF assms(5), of "[]" "drop (length ?cs) (dataFork inode)"] by (simp del: drop_append)
  then show "inlineExtents inode' = Inr exts"
    using fit flen n assms(6) by (simp add: inlineExtents_def Let_def)
qed

lemma dirInode_spec:
  assumes "inode_wf sb inode" and "\<not> inodeNrext64 (iRaw inode)" and "dirInode inode nBlocks sz exts = Inr inode'"
    and "length exts < 2 ^ 32" and "\<forall>e\<in>set exts. extent_ok e" and "validateExtents exts = Inr ()"
  shows "inode_wf sb inode'" "inlineExtents inode' = Inr exts" "iFormat inode' = inodeFmtExtents" "iNum inode' = iNum inode"
    "iSize inode' = sz" "iNBlocks inode' = nBlocks" "iMode inode' = iMode inode"
proof -
  let ?i1 = "setInodeNBlocks (setInodeFormat inode inodeFmtExtents) nBlocks"
  let ?i2 = "setInodeSize (setInodeNExtents ?i1 (of_nat (length exts))) sz"
  have len: "176 \<le> length (iRaw inode)" using assms(1) by (simp add: inode_wf_def)
  then have "\<not> inodeNrext64 (iRaw ?i1)"
    using assms(2) by (simp add: setInodeFormat_def setInodeNBlocks_def inodeNrext64_frame)
  then have wf: "inode_wf sb ?i2" using inode_wf_setters assms(1) by blast
  have w: "writeExtentList ?i2 exts = Inr inode'" using assms(3) by (simp add: dirInode_def)
  note r = writeExtentList_inline [OF w _ assms(4) _ assms(5,6)]
  have e: "inode' = ?i2\<lparr>iRaw := patch 176 (concat (map encodeExtent exts)) (iRaw ?i2)\<rparr>" using r(2) len by simp
  show "inlineExtents inode' = Inr exts" using r(1) len by simp
  show "inode_wf sb inode'" unfolding e by (rule inode_wf_fork [OF wf]) simp
  show "iFormat inode' = inodeFmtExtents" "iNum inode' = iNum inode" "iSize inode' = sz" "iNBlocks inode' = nBlocks" "iMode inode' = iMode inode"
    unfolding e by simp_all
qed

section \<open>A directory that fits one block\<close>

text \<open>The internal error of \<^verbatim>\<open>buildBlockDirBlock\<close> cannot happen where \<^verbatim>\<open>writeWholeDir\<close> calls it.\<close>

lemma fitsOneBlock_builds:
  assumes "fitsOneBlock sb entries"
  shows "\<exists>blk. buildBlockDirBlock sb (unat (blockSize sb)) absBlock ownerIno parentIno entries = Inr blk"
proof (rule buildBlockDirBlock_total)
  have "entsSize ft entries = sum_list (map (\<lambda>e. dirEntrySize (length (entName e)) ft) entries)" for ft
    by (induction entries) (simp_all add: entSize_def)
  then show "dirDataHdrSize (hasCRC sb) + entsSize (hasFType sb) (dotEntries ownerIno parentIno @ entries)
      + 8 * length (dotEntries ownerIno parentIno @ entries) + 8 \<le> unat (blockSize sb)"
    using assms by (simp add: fitsOneBlock_def dotEntries_def entSize_def mult.commute numeral_2_eq_2 [symmetric])
qed

text \<open>What the entries of a directory must be for it to be read back.\<close>

definition good_entries :: "superblock \<Rightarrow> u64 \<Rightarrow> u64 \<Rightarrow> dirEnt list \<Rightarrow> bool" where
  "good_entries sb ownerIno parentIno entries \<longleftrightarrow> (\<forall>e\<in>set (dotEntries ownerIno parentIno @ entries). ent_ok e) \<and>
     (\<forall>e\<in>set entries. \<not> is_dot (entName e)) \<and> 8 dvd unat (blockSize sb) \<and> unat (blockSize sb) \<le> 65536"

text \<open>A directory whose only data block holds the given entries.\<close>

lemma dir_block_read:
  assumes good: "good_entries sb ownerIno parentIno entries"
    and blk: "buildBlockDirBlock sb (unat (blockSize sb)) absBlock ownerIno parentIno entries = Inr blk"
    and rd: "readRawBlock d partOff sb b = Inr blk" and fmt: "iFormat inode = inodeFmtExtents"
    and exts: "dirExtents sio d partOff sb inode = Inr exts" "dirDataBlocks sb exts = [b]"
  shows "readDir sio d partOff sb inode = Inr (map (listed (hasFType sb)) entries)"
    "find (\<lambda>e. entName e = name) entries = Some e \<Longrightarrow> \<not> is_dot name \<Longrightarrow> lookupInDir sio d partOff sb inode name = Inr (entIno e)"
proof -
  note p = block_dir_readback [OF blk]
  have "parseDirBlock blk (hasFType sb) (hasCRC sb) = map (listed (hasFType sb)) entries"
    using p good by (simp add: good_entries_def)
  then show "readDir sio d partOff sb inode = Inr (map (listed (hasFType sb)) entries)"
    using exts rd fmt by (simp add: readDir_def blockReadDir_def inodeFmtExtents_def inodeFmtLocal_def)
  assume "find (\<lambda>e. entName e = name) entries = Some e" and "\<not> is_dot name"
  then have "searchDirBlock blk name (hasFType sb) (hasCRC sb) = Some (entIno e)"
    using p good by (simp add: good_entries_def)
  then show "lookupInDir sio d partOff sb inode name = Inr (entIno e)"
    using exts rd fmt by (simp add: lookupInDir_def blockDirLookup_def inodeFmtExtents_def inodeFmtLocal_def)
qed

lemma onDisk_result: "onDisk m s = (r, s') \<longleftrightarrow> (\<exists>d. m (disk s) = (r, d) \<and> s' = s\<lparr>disk := d\<rparr>)"
  by (auto simp: onDisk_def split: prod.splits)

lemma one_block_layout:
  assumes "b < 2 ^ 52" and "dirLeafByteOffset div ucast (blockSize sb) \<noteq> 0"
  shows "dirDataBlocks sb [dataExt 0 b 1] = [b]" "extent_ok (dataExt 0 b 1)"
  using assms by (simp_all add: dirDataBlocks_def dataExt_def extentBlocks_def extent_ok_def word_neq_0_conv word_less_nat_alt)

text \<open>The directory lists exactly these entries, in order, and finds every name among them.\<close>

definition dir_lists :: "('g, 'v) safeio \<Rightarrow> dev \<Rightarrow> int64 \<Rightarrow> superblock \<Rightarrow> inode \<Rightarrow> dirEnt list \<Rightarrow> bool" where
  "dir_lists sio d partOff sb inode entries \<longleftrightarrow> readDir sio d partOff sb inode = Inr (map (listed (hasFType sb)) entries) \<and>
     (\<forall>name e. find (\<lambda>e. entName e = name) entries = Some e \<and> \<not> is_dot name \<longrightarrow> lookupInDir sio d partOff sb inode name = Inr (entIno e))"

lemma leafOffset_pos:
  assumes "0 < unat (blockSize sb)"
  shows "dirLeafByteOffset div ucast (blockSize sb) \<noteq> 0"
proof -
  have "unat (dirLeafByteOffset div ucast (blockSize sb)) = 34359738368 div unat (blockSize sb)" by (simp add: dirLeafByteOffset_def unat_div)
  moreover have "0 < 34359738368 div unat (blockSize sb)" using unat_lt(3) [of "blockSize sb"] assms by (simp add: div_greater_zero_iff)
  ultimately show ?thesis by (metis unat_0 less_numeral_extra(3))
qed

text \<open>A directory written to a new block.\<close>

lemma new_block_lists:
  assumes w: "writable partOff sb inode" and fits: "fitsOneBlock sb entries" and good: "good_entries sb (iNum inode) parentIno entries"
    and bs: "0 < unat (blockSize sb)" and run: "good_run partOff sb (iNum inode) b 1 (unat (blockSize sb))"
  shows "\<exists>inode' s'. bindIO (liftIO (buildBlockDirBlock sb (unat (blockSize sb)) b (iNum inode) parentIno entries)) (\<lambda>blk.
      bindIO (onDisk (writeBlocksData partOff sb b 1 blk)) (\<lambda>_.
        storeDirInode partOff sb inode 1 (ucast (blockSize sb)) [dataExt 0 b 1])) s = (Inr inode', s') \<and>
    readInode (disk s') partOff sb (iNum inode) = Inr inode' \<and> dir_lists sio (disk s') partOff sb inode' entries"
proof -
  let ?B = "unat (blockSize sb)"
  obtain blk where blk: "buildBlockDirBlock sb ?B b (iNum inode) parentIno entries = Inr blk" using fitsOneBlock_builds [OF fits] by blast
  have len: "length blk = ?B" using block_dir_readback [OF blk] good by (simp add: good_entries_def)
  have addr: "run_addressable partOff sb b (unat (1 :: u32))" using run by (simp add: good_run_def)
  obtain d1 where d1: "writeBlocksData partOff sb b 1 blk (disk s) = (Inr (), d1)"
    "ReadAt d1 (partOff + fsbToPhysBlock sb b * ucast (blockSize sb)) ?B = Inr blk"
    using writeBlocksData_spec [OF addr, of blk "disk s"] len by auto
  have wi: "inode_wf sb inode" "\<not> inodeNrext64 (iRaw inode)" "inodes_fit sb partOff" "ino_in_range sb (iNum inode)" "192 \<le> length (iRaw inode)"
    using w by (simp_all add: writable_def inode_wf_def)
  have "\<not> length (iRaw inode) - 176 < 16" using wi(5) by simp
  then obtain i1 where i1: "dirInode inode 1 (ucast (blockSize sb)) [dataExt 0 b 1] = Inr i1" by (simp add: dirInode_def writeExtentList_def dataFork_def)
  have b52: "b < 2 ^ 52" using run by (simp add: good_run_def word_less_nat_alt)
  note lay1 = one_block_layout [OF b52 leafOffset_pos [OF bs]]
  have d: "inode_wf sb i1" "inlineExtents i1 = Inr [dataExt 0 b 1]" "iFormat i1 = inodeFmtExtents" "iNum i1 = iNum inode"
    using dirInode_spec [OF wi(1,2) i1] lay1(2) by (simp_all add: validateExtents_def)
  obtain d2 where d2: "putInode partOff sb i1 (s\<lparr>disk := d1\<rparr>) = (Inr (stampInode sb i1), s\<lparr>disk := d2\<rparr>)"
    "readInode d2 partOff sb (iNum inode) = Inr (stampInode sb i1)"
    "WriteAt d1 (inodeByteOff sb partOff (iNum inode)) (iRaw (stampInode sb i1)) = Inr d2"
    using putInode_result [OF wi(3) _ d(1), of "s\<lparr>disk := d1\<rparr>"] wi(4) d(4) by auto
  have rl: "length (iRaw (stampInode sb i1)) = unat (inodeSize sb)" using stampInode_wf [OF d(1)] by (simp add: inode_wf_def)
  have "ReadAt d2 (partOff + fsbToPhysBlock sb b * ucast (blockSize sb)) ?B = Inr blk"
    using run_apart_slot [of sb partOff "iNum inode" "dataExt 0 b 1" d1, OF wi(3,4) _ _ d2(3) rl] addr run d1(2)
    by (simp add: ext_run_def dataExt_def ext_start_def good_run_def)
  then have "readRawBlock d2 partOff sb b = Inr blk" using readRawBlock_addressable [OF run_addressable_first [OF addr]] by simp
  moreover have "dirExtents sio d2 partOff sb (stampInode sb i1) = Inr [dataExt 0 b 1]" using d(2,3) by (simp add: dirExtents_def inlineExtents_def)
  moreover have "iFormat (stampInode sb i1) = inodeFmtExtents" using d(3) by simp
  ultimately have "dir_lists sio d2 partOff sb (stampInode sb i1) entries" using dir_block_read [OF good blk _ _ _ lay1(1)] unfolding dir_lists_def by blast
  then show ?thesis using blk d1(1) i1 d2(1,2) by (simp add: bindIO_def liftIO_def onDisk_def storeDirInode_def)
qed

text \<open>A directory written to the block it has; its inode is not touched.\<close>

lemma same_block_lists:
  assumes w: "writable partOff sb inode" and fits: "fitsOneBlock sb entries" and good: "good_entries sb (iNum inode) parentIno entries"
    and run: "good_run partOff sb (iNum inode) b 1 (unat (blockSize sb))"
    and f: "iFormat inode = inodeFmtExtents" and e: "inlineExtents inode = Inr exts" "dirDataBlocks sb exts = [b]"
  shows "\<exists>s'. bindIO (liftIO (buildBlockDirBlock sb (unat (blockSize sb)) b (iNum inode) parentIno entries)) (\<lambda>blk.
      bindIO (onDisk (writeRawBlock partOff sb b blk)) (\<lambda>_. retIO inode)) s = (Inr inode, s') \<and>
    (readInode (disk s) partOff sb (iNum inode) = Inr inode \<longrightarrow> readInode (disk s') partOff sb (iNum inode) = Inr inode) \<and>
    dir_lists sio (disk s') partOff sb inode entries"
proof -
  let ?B = "unat (blockSize sb)" and ?off = "partOff + fsbToPhysBlock sb b * ucast (blockSize sb)"
  obtain blk where blk: "buildBlockDirBlock sb ?B b (iNum inode) parentIno entries = Inr blk" using fitsOneBlock_builds [OF fits] by blast
  have len: "length blk = ?B" using block_dir_readback [OF blk] good by (simp add: good_entries_def)
  have addr: "run_addressable partOff sb b 1" using run by (simp add: good_run_def)
  have so: "sint ?off = int (unat partOff + unat (fsbToPhysBlock sb b) * ?B)" using sint_run_offset [OF addr, of 0] by simp
  then have "\<not> sint ?off < 0" by linarith
  then obtain d' where wr: "WriteAt (disk s) ?off blk = Inr d'" by (cases "blk = []") (auto simp: WriteAt_def Let_def)
  then have wb: "writeRawBlock partOff sb b blk (disk s) = (Inr (), d')" by (simp add: writeRawBlock_def writeIO_def)
  have rd: "readRawBlock d' partOff sb b = Inr blk" using read_written_block [OF run_addressable_first [OF addr] len wb] .
  moreover have "dirExtents sio d' partOff sb inode = Inr exts" using e(1) f by (simp add: dirExtents_def)
  ultimately have "dir_lists sio d' partOff sb inode entries" using dir_block_read [OF good blk _ f _ e(2)] unfolding dir_lists_def by blast
  moreover have "off_run partOff sb b 1 (inodeByteOff sb partOff (iNum inode)) (unat (inodeSize sb))"
    using w run slot_off_run [of sb partOff "iNum inode" b 1] by (simp add: writable_def good_run_def)
  then have "ReadAt d' (inodeByteOff sb partOff (iNum inode)) (unat (inodeSize sb)) = Inr xs"
    if "ReadAt (disk s) (inodeByteOff sb partOff (iNum inode)) (unat (inodeSize sb)) = Inr xs" for xs
    using file_store.rd_wr_frame [OF wr that] so len by (auto simp: off_run_def add_mult_distrib)
  then have "readInode (disk s) partOff sb (iNum inode) = Inr inode \<longrightarrow> readInode d' partOff sb (iNum inode) = Inr inode"
    by (auto simp: readInode_def readBytes_def bindR_eq_Inr)
  ultimately show ?thesis using blk wb by (simp add: bindIO_def liftIO_def onDisk_def retIO_def)
qed

text \<open>
  Where a directory is: in the inode, or in extents that the inode lists, in blocks of its group that are in use
  (\<open>rs\<close> are their runs; data, leaf and free-index blocks alike). A rebuild that cannot keep the block frees them all and
  takes one block.
\<close>

definition dir_at :: "superblock \<Rightarrow> inode \<Rightarrow> arec list \<Rightarrow> arec list \<Rightarrow> bool" where
  "dir_at sb inode bs rs \<longleftrightarrow> iFormat inode = inodeFmtLocal \<and> rs = [] \<or>
     iFormat inode = inodeFmtExtents \<and> (\<exists>exts. inlineExtents inode = Inr exts \<and> at_runs sb (inoAG sb (iNum inode)) rs exts) \<and>
     free_set rs \<inter> free_set bs = {} \<and> ino_block sb (iNum inode) \<notin> free_set rs"

definition dir_room :: "superblock \<Rightarrow> arec list \<Rightarrow> arec list \<Rightarrow> bool" where
  "dir_room sb bs rs \<longleftrightarrow> (\<exists>r\<in>set bs. 1 + 4 * length rs \<le> unat (snd r)) \<and> length bs + 3 * length rs \<le> leaf_slots sb"

lemma one_block_run:
  assumes "at_runs sb ag rs exts" and "concat (map extentBlocks exts) = [b]"
  shows "\<exists>r. rs = [r] \<and> snd r = 1 \<and> b = agAbsBlock sb ag (fst r)"
proof -
  have l: "length exts = length rs" by (rule at_runs_length [OF assms(1)])
  show ?thesis
  proof (cases rs)
    case Nil
    then show ?thesis using l assms(2) by simp
  next
    case (Cons r rs')
    then obtain e exts' where x: "exts = e # exts'" using l by (cases exts) simp_all
    have e: "eStartBlock e = agAbsBlock sb ag (fst r)" "eCount e = snd r" "0 < snd r" using assms(1) by (simp_all add: at_runs_def Cons x)
    then obtain n where n: "unat (eCount e) = Suc n" by (cases "unat (eCount e)") (simp_all add: word_less_nat_alt)
    then have h: "extentBlocks e = eStartBlock e # map (\<lambda>k. eStartBlock e + of_nat k) [1..<Suc n]" by (simp add: extentBlocks_def upt_rec)
    then have b: "b = eStartBlock e" "[1..<Suc n] = []" and rest: "concat (map extentBlocks exts') = []" using assms(2) by (simp_all add: x)
    have "snd r = 1" using n b(2) e(2) by (simp add: word_unat_eq_iff upt_eq_Nil_conv del: upt_Suc)
    moreover have "rs' = []"
    proof (cases rs')
      case c: (Cons r2 rs2)
      then obtain e2 exts2 where x2: "exts' = e2 # exts2" using l by (cases exts') (simp_all add: Cons x)
      have "eCount e2 = snd r2" "0 < snd r2" using assms(1) by (simp_all add: at_runs_def Cons x x2 c)
      then show ?thesis using rest by (simp add: x2 extentBlocks_def word_less_nat_alt)
    qed
    ultimately show ?thesis using b(1) e(1) Cons by simp
  qed
qed

text \<open>One block of the inode's group, after the blocks of the directory are freed.\<close>

lemma freed_then_one:
  assumes grp: "group_ok partOff sb (inoAG sb (iNum inode)) bnoRel cntRel (disk s) agf bs cs" and sio: "admits_first sio" and q: "quiet s"
    and w: "writable partOff sb inode" and dir: "dir_at sb inode bs rs" and room: "dir_room sb bs rs" and own: "ino_block sb (iNum inode) \<notin> free_set bs"
    and small: "(unat (inoAG sb (iNum inode)) + 1) * 2 ^ unat (agBlkLog sb) \<le> 2 ^ 52"
  shows "\<exists>s1 b s2. freeDirBlocks sio (Suc (Suc (Suc fuel))) partOff sb inode s = (Inr (), s1) \<and>
    allocBlocks sio (Suc (Suc (Suc fuel))) partOff sb (inoAG sb (iNum inode)) 1 s1 = (Inr b, s2) \<and> good_run partOff sb (iNum inode) b 1 (unat (blockSize sb))"
proof -
  let ?ag = "inoAG sb (iNum inode)" and ?data = "replicate (unat (blockSize sb)) (0 :: byte)" and ?B = "unat (blockSize sb)"
  have B: "512 \<le> ?B" using grp hdr_facts by (fastforce simp: group_ok_def grp_def)
  have "(?B + ?B - 1) div ?B = (?B - 1 + 1 * ?B) div ?B" using B by simp
  also have "\<dots> = 1" using B by (subst div_mult_self1) simp_all
  finally have one: "(length ?data + ?B - 1) div ?B = 1" by simp
  have "unat (blocksFor sb ?data) = 1" using blocksFor_unat [of ?data sb] one B unat_lt(3) [of "blockSize sb"] by simp
  then have n: "blocksFor sb ?data = 1" by (simp add: word_unat_eq_iff)
  have "\<exists>s1 agf1 bs1 cs1. freeDirBlocks sio (Suc (Suc (Suc fuel))) partOff sb inode s = (Inr (), s1) \<and>
    group_ok partOff sb ?ag bnoRel cntRel (disk s1) agf1 bs1 cs1 \<and> quiet s1 \<and> free_set bs1 = free_set bs \<union> free_set rs \<and> cut_by (4 * length rs) bs bs1"
  proof (cases "iFormat inode = inodeFmtLocal")
    case True
    then have "freeDirBlocks sio (Suc (Suc (Suc fuel))) partOff sb inode s = (Inr (), s)" "free_set bs = free_set bs \<union> free_set rs" "cut_by (4 * length rs) bs bs"
      using dir by (auto simp: freeDirBlocks_def retIO_def dir_at_def free_set_def cut_by_subset inodeFmtLocal_def inodeFmtExtents_def)
    with grp q show ?thesis by metis
  next
    case False
    then obtain exts where "iFormat inode = inodeFmtExtents" and e: "inlineExtents inode = Inr exts" "at_runs sb ?ag rs exts" "free_set rs \<inter> free_set bs = {}"
      using dir by (auto simp: dir_at_def)
    then have "freeDirBlocks sio fuel' partOff sb inode s = freeExtents sio fuel' partOff sb exts s" for fuel'
      using False by (simp add: freeDirBlocks_def dirExtents_def bindIO_def readIO_def)
    with free_extents [OF grp sio q e(2,3), of fuel] room show ?thesis by (simp add: dir_room_def)
  qed
  then obtain s1 agf1 bs1 cs1 where f: "freeDirBlocks sio (Suc (Suc (Suc fuel))) partOff sb inode s = (Inr (), s1)"
    "group_ok partOff sb ?ag bnoRel cntRel (disk s1) agf1 bs1 cs1" "quiet s1" "free_set bs1 = free_set bs \<union> free_set rs" "cut_by (4 * length rs) bs bs1"
    by (elim exE conjE)
  obtain r where r: "r \<in> set bs" "1 + 4 * length rs \<le> unat (snd r)" using room by (auto simp: dir_room_def)
  then obtain r' where "r' \<in> set bs1" "unat (snd r) \<le> unat (snd r') + 4 * length rs" using f(5) by (auto simp: cut_by_def)
  with r(2) have room1: "\<exists>r\<in>set bs1. blocksFor sb ?data \<le> snd r" unfolding n by (intro bexI [of _ r']) (simp_all add: word_le_nat_alt)
  have st: "mergedQ s1 = []" "ino_block sb (iNum inode) \<notin> free_set bs1"
    using f(3,4) own dir by (auto simp: quiet_def dir_at_def free_set_def)
  have "?data \<noteq> []" "(length ?data + ?B - 1) div ?B < 2 ^ 21" using B unfolding one by auto
  from promote_run [OF f(2) sio st(1) w this room1 st(2) small, of "Suc fuel"] f(1) show ?thesis unfolding n length_replicate by blast
qed

text \<open>
  C22. \<^verbatim>\<open>writeWholeDir\<close> with entries that fit one block succeeds, and the directory, read back from disk, lists exactly
  those entries, in order, and finds every name among them. The directory may have been short form, in one block (which is
  then rewritten and the inode left alone), or larger, in extents that the inode lists: then all its blocks are freed and it
  is moved to a new one. The blocks are in the inode's group, whose free-space trees are single leaves, and unless
  the block is reused the group has a free run that is long enough. Directories that do not fit one block (leaf and
  node form) are written by \<^verbatim>\<open>buildLeafDir\<close>, of which nothing is claimed here.
\<close>

theorem writeWholeDir_lists:
  assumes grp: "group_ok partOff sb (inoAG sb (iNum inode)) bnoRel cntRel (disk s) agf bs cs" and sio: "admits_first sio" and q: "quiet s"
    and w: "writable partOff sb inode" and fits: "fitsOneBlock sb entries" and good: "good_entries sb (iNum inode) parentIno entries"
    and dir: "dir_at sb inode bs rs"
    and place: "(\<exists>b. dirBlockLayout sio (disk s) partOff sb inode = Inr ([b], False)) \<or> dir_room sb bs rs"
    and own: "ino_block sb (iNum inode) \<notin> free_set bs" and small: "(unat (inoAG sb (iNum inode)) + 1) * 2 ^ unat (agBlkLog sb) \<le> 2 ^ 52"
  shows "\<exists>inode' s'. writeWholeDir sio (Suc (Suc (Suc fuel))) partOff sb inode parentIno entries s = (Inr inode', s') \<and>
    (readInode (disk s) partOff sb (iNum inode) = Inr inode \<longrightarrow> readInode (disk s') partOff sb (iNum inode) = Inr inode') \<and>
    readDir sio (disk s') partOff sb inode' = Inr (map (listed (hasFType sb)) entries) \<and>
    (\<forall>name e. find (\<lambda>e. entName e = name) entries = Some e \<and> \<not> is_dot name \<longrightarrow>
       lookupInDir sio (disk s') partOff sb inode' name = Inr (entIno e))"
proof -
  let ?B = "unat (blockSize sb)" and ?ag = "inoAG sb (iNum inode)"
  have fg: "group_fits partOff sb ?ag" using grp by (simp add: group_ok_def grp_def)
  then have B: "0 < ?B" using hdr_facts by fastforce
  show ?thesis
  proof (cases "\<exists>b. dirBlockLayout sio (disk s) partOff sb inode = Inr ([b], False)")
    case True
    then obtain b where lay: "dirBlockLayout sio (disk s) partOff sb inode = Inr ([b], False)" by blast
    then have f: "iFormat inode = inodeFmtExtents" using dir by (auto simp: dirBlockLayout_def dir_at_def)
    then obtain exts where e: "inlineExtents inode = Inr exts" and at: "at_runs sb ?ag rs exts" and out: "ino_block sb (iNum inode) \<notin> free_set rs"
      using dir by (auto simp: dir_at_def inodeFmtLocal_def inodeFmtExtents_def)
    have d: "dirDataBlocks sb exts = [b]" "\<forall>e\<in>set exts. eStartOff e < dirLeafByteOffset div ucast (blockSize sb)"
      using lay e f by (auto simp: dirBlockLayout_def dirExtents_def bindR_eq_Inr inodeFmtExtents_def inodeFmtLocal_def not_le)
    then have "concat (map extentBlocks exts) = [b]" by (simp add: dirDataBlocks_def)
    with one_block_run [OF at] obtain r where r: "rs = [r]" "snd r = 1" "b = agAbsBlock sb ?ag (fst r)" by blast
    have "unat (fst r) + unat (1 :: u32) \<le> unat (agBlocks sb)" "ino_block sb (iNum inode) \<notin> {unat (fst r)..<unat (fst r) + unat (1 :: u32)}"
      using at out r by (auto simp: at_runs_def free_set_def run_blocks_def)
    then have "good_run partOff sb (iNum inode) b 1 ?B"
      using free_run_good [OF fg _ _ refl _ _ _ small, of r 1 ?B] w r(3) by (simp add: writable_def)
    from same_block_lists [OF w fits good this f e d(1), of s sio] lay fits show ?thesis
      by (auto simp: writeWholeDir_def bindIO_def readIO_def dir_lists_def)
  next
    case False
    then have "dir_room sb bs rs" using place by blast
    from freed_then_one [OF grp sio q w dir this own small, of fuel] obtain s1 b s2 where
      a: "freeDirBlocks sio (Suc (Suc (Suc fuel))) partOff sb inode s = (Inr (), s1)" "allocBlocks sio (Suc (Suc (Suc fuel))) partOff sb ?ag 1 s1 = (Inr b, s2)"
      and run: "good_run partOff sb (iNum inode) b 1 ?B" by blast
    have "\<exists>x. dirBlockLayout sio (disk s) partOff sb inode = Inr x" using dir by (auto simp: dir_at_def dirBlockLayout_def dirExtents_def)
    then obtain bl hl where lay: "dirBlockLayout sio (disk s) partOff sb inode = Inr (bl, hl)" by auto
    then have c: "\<not> (length bl = 1 \<and> \<not> hl)" using False by (cases bl) auto
    from new_block_lists [OF w fits good B run, of s2 sio] obtain inode' s' where
      "bindIO (liftIO (buildBlockDirBlock sb ?B b (iNum inode) parentIno entries)) (\<lambda>blk.
        bindIO (onDisk (writeBlocksData partOff sb b 1 blk)) (\<lambda>_.
          storeDirInode partOff sb inode 1 (ucast (blockSize sb)) [dataExt 0 b 1])) s2 = (Inr inode', s')"
      and n: "readInode (disk s') partOff sb (iNum inode) = Inr inode'" "dir_lists sio (disk s') partOff sb inode' entries" by blast
    then have "writeWholeDir sio (Suc (Suc (Suc fuel))) partOff sb inode parentIno entries s = (Inr inode', s')"
      using lay c fits a unfolding writeWholeDir_def bindIO_def [of "readIO _"] bindIO_def [of "freeDirBlocks _ _ _ _ _"] bindIO_def [of "allocBlocks _ _ _ _ _ _"]
      by (auto simp: readIO_def)
    then show ?thesis using n by (simp add: dir_lists_def)
  qed
qed

text \<open>A short-form directory of the small image is moved to a block of its own, one with one block keeps it, one with two is moved.\<close>

lemma small_dir_fits: "fitsOneBlock sb_group two_entries" "good_entries sb_group 40 128 two_entries"
  by (simp_all add: fitsOneBlock_def good_entries_def two_entries_def dotEntries_def ent_ok_def is_dot_def
    dirEntrySize_def dirDataHdrSize_def sb_group_def)

theorem writeWholeDir_lists_witness:
  "(\<exists>inode' s'. writeWholeDir safeio_ref 3 0 sb_group inode_group 128 two_entries (freshAlloc small_dev) = (Inr inode', s') \<and>
      readDir safeio_ref (disk s') 0 sb_group inode' = Inr (map (listed (hasFType sb_group)) two_entries)) \<and>
   (\<exists>inode' s'. writeWholeDir safeio_ref 3 0 sb_group (inode_blocks 1) 128 two_entries (freshAlloc small_dev) = (Inr inode', s') \<and>
      readDir safeio_ref (disk s') 0 sb_group inode' = Inr (map (listed (hasFType sb_group)) two_entries)) \<and>
   (\<exists>inode' s'. writeWholeDir safeio_ref 3 0 sb_group (inode_blocks 2) 128 two_entries (freshAlloc small_dev) = (Inr inode', s') \<and>
      readDir safeio_ref (disk s') 0 sb_group inode' = Inr (map (listed (hasFType sb_group)) two_entries))"
proof (intro conjI)
  note i1 = inode_blocks_facts [of 1, simplified] and i2 = inode_blocks_facts [of 2, simplified] and num = inode_group_facts(3)
  have slots: "leaf_slots sb_group \<ge> 4" by (simp add: leaf_slots_def allocMaxLeaf_def agBTreeHdrSize_def btreeHdrSize_def allocRecSize_def)
  have at: "dir_at sb_group inode_group [(8, 8)] []" "dir_at sb_group (inode_blocks 1) [(8, 8)] [(24, 1)]" "dir_at sb_group (inode_blocks 2) [(8, 8)] [(24, 2)]"
    using inode_group_at inode_blocks_at [of 1] inode_blocks_at [of 2] i1(3) i2(3)
    by (auto simp: dir_at_def content_at_def inodeFmtLocal_def inodeFmtExtents_def)
  have room: "dir_room sb_group [(8, 8)] []" "dir_room sb_group [(8, 8)] [(24, 2)]" using slots by (simp_all add: dir_room_def)
  have same: "\<exists>b. dirBlockLayout safeio_ref (disk (freshAlloc small_dev)) 0 sb_group (inode_blocks 1) = Inr ([b], False)"
    using i1(3,5) by (simp add: dirBlockLayout_def dirExtents_def inodeFmtLocal_def inodeFmtExtents_def dirDataBlocks_def dirLeafByteOffset_def extentBlocks_def)
  note grp = inode_group_room(1,5,6) [unfolded num]
  show "\<exists>inode' s'. writeWholeDir safeio_ref 3 0 sb_group inode_group 128 two_entries (freshAlloc small_dev) = (Inr inode', s') \<and>
      readDir safeio_ref (disk s') 0 sb_group inode' = Inr (map (listed (hasFType sb_group)) two_entries)"
    using writeWholeDir_lists [OF _ safeio_ref_admits small_quiet inode_group_writable small_dir_fits(1) _ at(1), where fuel = 0, unfolded num Suc_numerals(2),
      OF grp(1) small_dir_fits(2) disjI2 [OF room(1)] grp(2,3)] by blast
  show "\<exists>inode' s'. writeWholeDir safeio_ref 3 0 sb_group (inode_blocks 1) 128 two_entries (freshAlloc small_dev) = (Inr inode', s') \<and>
      readDir safeio_ref (disk s') 0 sb_group inode' = Inr (map (listed (hasFType sb_group)) two_entries)"
    using writeWholeDir_lists [OF _ safeio_ref_admits small_quiet i1(1) small_dir_fits(1) _ at(2), where fuel = 0, unfolded i1(2) Suc_numerals(2),
      OF grp(1) small_dir_fits(2) disjI1 [OF same] grp(2,3)] by blast
  show "\<exists>inode' s'. writeWholeDir safeio_ref 3 0 sb_group (inode_blocks 2) 128 two_entries (freshAlloc small_dev) = (Inr inode', s') \<and>
      readDir safeio_ref (disk s') 0 sb_group inode' = Inr (map (listed (hasFType sb_group)) two_entries)"
    using writeWholeDir_lists [OF _ safeio_ref_admits small_quiet i2(1) small_dir_fits(1) _ at(3), where fuel = 0, unfolded i2(2) Suc_numerals(2),
      OF grp(1) small_dir_fits(2) disjI2 [OF room(2)] grp(2,3)] by blast
qed

end
