(* ===== verification/Refcount.thy ===== *)
theory Refcount
  imports Prelude
begin

text \<open>
  The reference-count algebra of reflink.go: records of shared block ranges, their merge,
  the clipping of a range, and raising and lowering the count of a range. A block in no record
  is owned by one inode (its count is an implicit 1); only counts of two and more are recorded.

  The abstract view is the function from block numbers to counts. Two additive measures connect
  records and counts: how many records cover a block, and the sum of the counts of those
  records. Both ignore the order of the records, so sorting never matters, and a list in which
  every block is covered at most once is a partial function from blocks to counts.
\<close>

record refcRec =
  rcStart :: u32
  rcCount :: u32
  rcRefcount :: u32

section \<open>The operations\<close>

definition max32 :: "u32 \<Rightarrow> u32 \<Rightarrow> u32" where
  "max32 a b = (if a > b then a else b)"

definition min32 :: "u32 \<Rightarrow> u32 \<Rightarrow> u32" where
  "min32 a b = (if a < b then a else b)"

text \<open>
  The coalescing loop of \<^verbatim>\<open>refcMerge\<close>; \<open>out\<close> holds the output so far, last record first.
  The output reuses the array of the sorted copy, but only positions the loop has already read.
\<close>

fun refcCoalesce :: "refcRec list \<Rightarrow> refcRec list \<Rightarrow> refcRec list" where
  "refcCoalesce out [] = rev out"
| "refcCoalesce [] (r # rs) = refcCoalesce [r] rs"
| "refcCoalesce (l # out) (r # rs) =
     (if rcStart l + rcCount l = rcStart r \<and> rcRefcount l = rcRefcount r
      then refcCoalesce (l\<lparr>rcCount := rcCount l + rcCount r\<rparr> # out) rs
      else refcCoalesce (r # l # out) rs)"

text \<open>
  \<^verbatim>\<open>sort.Slice\<close> is not stable; the records sorted here have distinct starts in every call
  (the invariant below), so the order is determined.
\<close>

definition refcMerge :: "refcRec list \<Rightarrow> refcRec list" where
  "refcMerge recs =
     refcCoalesce [] (sort_key rcStart (filter (\<lambda>r. \<not> (rcCount r = 0 \<or> rcRefcount r < 2)) recs))"

text \<open>One round of the first loop of \<^verbatim>\<open>refcClipInside\<close>: what a record leaves outside and inside.\<close>

definition clipOutside :: "u32 \<Rightarrow> u32 \<Rightarrow> refcRec \<Rightarrow> refcRec list" where
  "clipOutside s e r =
     (let rEnd = rcStart r + rcCount r in
      if rEnd \<le> s \<or> rcStart r \<ge> e then [r]
      else (if rcStart r < s then [\<lparr>rcStart = rcStart r, rcCount = s - rcStart r, rcRefcount = rcRefcount r\<rparr>] else [])
         @ (if rEnd > e then [\<lparr>rcStart = e, rcCount = rEnd - e, rcRefcount = rcRefcount r\<rparr>] else []))"

definition clipInside :: "u32 \<Rightarrow> u32 \<Rightarrow> refcRec \<Rightarrow> refcRec list" where
  "clipInside s e r =
     (let rEnd = rcStart r + rcCount r in
      if rEnd \<le> s \<or> rcStart r \<ge> e then []
      else let cs = max32 (rcStart r) s; ce = min32 rEnd e
           in [\<lparr>rcStart = cs, rcCount = ce - cs, rcRefcount = rcRefcount r\<rparr>])"

fun fillGaps :: "u32 \<Rightarrow> u32 \<Rightarrow> refcRec list \<Rightarrow> refcRec list" where
  "fillGaps e pos [] = (if pos < e then [\<lparr>rcStart = pos, rcCount = e - pos, rcRefcount = 0\<rparr>] else [])"
| "fillGaps e pos (seg # segs) =
     (if rcStart seg > pos then [\<lparr>rcStart = pos, rcCount = rcStart seg - pos, rcRefcount = 0\<rparr>] else [])
       @ seg # fillGaps e (rcStart seg + rcCount seg) segs"

definition refcClipInside :: "refcRec list \<Rightarrow> u32 \<Rightarrow> u32 \<Rightarrow> refcRec list \<times> refcRec list" where
  "refcClipInside recs s e =
     (let outside = concat (map (clipOutside s e) recs);
          inside = sort_key rcStart (concat (map (clipInside s e) recs))
      in (outside, fillGaps e s inside))"

definition incrSeg :: "refcRec \<Rightarrow> refcRec" where
  "incrSeg r = r\<lparr>rcRefcount := (let base = (if rcRefcount r = 0 then 1 else rcRefcount r) in base + 1)\<rparr>"

definition refcIncrRange :: "refcRec list \<Rightarrow> u32 \<Rightarrow> u32 \<Rightarrow> refcRec list" where
  "refcIncrRange recs s n =
     (let (outside, inside) = refcClipInside recs s (s + n)
      in refcMerge (outside @ map incrSeg inside))"

definition refcDecrRange :: "refcRec list \<Rightarrow> u32 \<Rightarrow> u32 \<Rightarrow> refcRec list \<times> refcRec list" where
  "refcDecrRange recs s n =
     (let (outside, inside) = refcClipInside recs s (s + n);
          free = map (\<lambda>seg. \<lparr>rcStart = rcStart seg, rcCount = rcCount seg, rcRefcount = 0\<rparr>)
                   (filter (\<lambda>seg. rcRefcount seg = 0) inside);
          kept = map (\<lambda>seg. \<lparr>rcStart = rcStart seg, rcCount = rcCount seg, rcRefcount = rcRefcount seg - 1\<rparr>)
                   (filter (\<lambda>seg. rcRefcount seg \<noteq> 0) inside)
      in (refcMerge (outside @ kept), free))"

section \<open>Records as functions of block numbers\<close>

definition covers :: "refcRec \<Rightarrow> nat \<Rightarrow> bool" where
  "covers r b \<longleftrightarrow> unat (rcStart r) \<le> b \<and> b < unat (rcStart r) + unat (rcCount r)"

definition coverage :: "refcRec list \<Rightarrow> nat \<Rightarrow> nat" where
  "coverage recs b = (\<Sum>r\<leftarrow>recs. if covers r b then 1 else 0)"

definition recorded :: "refcRec list \<Rightarrow> nat \<Rightarrow> nat" where
  "recorded recs b = (\<Sum>r\<leftarrow>recs. if covers r b then unat (rcRefcount r) else 0)"

text \<open>The number of owners of a block: the recorded count, or the implicit one.\<close>

definition owners :: "refcRec list \<Rightarrow> nat \<Rightarrow> nat" where
  "owners recs b = max 1 (recorded recs b)"

definition rec_end :: "refcRec \<Rightarrow> nat" where
  "rec_end r = unat (rcStart r) + unat (rcCount r)"

definition rec_fits :: "refcRec \<Rightarrow> bool" where
  "rec_fits r \<longleftrightarrow> rec_end r < 2 ^ 32 \<and> rcCount r \<noteq> 0"

text \<open>
  The invariant of a stored list: ranges without wrap-around, counts of two and more, each
  record ending before the next starts.
\<close>

definition refc_inv :: "refcRec list \<Rightarrow> bool" where
  "refc_inv recs \<longleftrightarrow> (\<forall>r\<in>set recs. rec_fits r \<and> 2 \<le> rcRefcount r) \<and>
     sorted_wrt (\<lambda>a b. rec_end a \<le> unat (rcStart b)) recs"

lemma unat_rec_end: "rec_fits r \<Longrightarrow> unat (rcStart r + rcCount r) = rec_end r"
  by (simp add: rec_fits_def rec_end_def unat_word_ariths)

lemma coverage_simps [simp]:
  "coverage [] b = 0" "coverage (r # rs) b = (if covers r b then 1 else 0) + coverage rs b"
  "coverage (xs @ ys) b = coverage xs b + coverage ys b" "coverage (rev xs) b = coverage xs b"
  by (simp_all add: coverage_def rev_map [symmetric])

lemma recorded_simps [simp]:
  "recorded [] b = 0" "recorded (r # rs) b = (if covers r b then unat (rcRefcount r) else 0) + recorded rs b"
  "recorded (xs @ ys) b = recorded xs b + recorded ys b" "recorded (rev xs) b = recorded xs b"
  by (simp_all add: recorded_def rev_map [symmetric])

lemma coverage_sort [simp]: "coverage (sort_key f xs) b = coverage xs b"
  and recorded_sort [simp]: "recorded (sort_key f xs) b = recorded xs b"
  by (simp_all add: coverage_def recorded_def flip: sum_mset_sum_list)

lemma coverage_0: "coverage xs b = 0 \<longleftrightarrow> (\<forall>r\<in>set xs. \<not> covers r b)"
  by (induction xs) auto

lemma recorded_coverage_0: "coverage xs b = 0 \<Longrightarrow> recorded xs b = 0"
  by (induction xs) (auto split: if_splits)

text \<open>A block covered once is described by one record, whatever is done to the counts.\<close>

lemma coverage_map:
  assumes "\<And>r. rcStart (f r) = rcStart r \<and> rcCount (f r) = rcCount r"
  shows "coverage (map f xs) b = coverage xs b"
  using assms by (induction xs) (auto simp: covers_def)

lemma coverage_1:
  assumes "coverage xs b = 1"
  obtains r where "r \<in> set xs" "covers r b"
    "\<And>f. (\<And>r. rcStart (f r) = rcStart r \<and> rcCount (f r) = rcCount r) \<Longrightarrow> recorded (map f xs) b = unat (rcRefcount (f r))"
proof -
  obtain l r m where xs: "xs = l @ r # m" and r: "covers r b"
    using assms coverage_0 [of xs b] by (metis split_list zero_neq_one)
  have out: "coverage l b = 0" "coverage m b = 0" using assms r unfolding xs by simp_all
  have "recorded (map f xs) b = unat (rcRefcount (f r))"
    if f: "\<And>r. rcStart (f r) = rcStart r \<and> rcCount (f r) = rcCount r" for f
    using out recorded_coverage_0 coverage_map [OF f] r unfolding xs by (simp add: covers_def f)
  with r xs show ?thesis by (intro that) auto
qed

lemma coverage_1_recorded:
  assumes "coverage xs b = 1"
  obtains r where "r \<in> set xs" "covers r b" "recorded xs b = unat (rcRefcount r)"
  using coverage_1 [OF assms] by (metis list.map_ident)

section \<open>Merging\<close>

lemma merge_step:
  assumes "rec_fits l" and "rec_fits r" and "rcStart l + rcCount l = rcStart r"
  shows "rec_end l = unat (rcStart r)" and "rec_end (l\<lparr>rcCount := rcCount l + rcCount r\<rparr>) = rec_end r"
    and "rec_fits (l\<lparr>rcCount := rcCount l + rcCount r\<rparr>)"
    and "covers (l\<lparr>rcCount := rcCount l + rcCount r\<rparr>) b \<longleftrightarrow> covers l b \<or> covers r b"
    and "\<not> (covers l b \<and> covers r b)"
proof -
  show l: "rec_end l = unat (rcStart r)" using assms unat_rec_end by metis
  have "unat (rcCount l) + unat (rcCount r) < 2 ^ 32"
    using l assms(2) by (simp add: rec_fits_def rec_end_def)
  then have c: "unat (rcCount l + rcCount r) = unat (rcCount l) + unat (rcCount r)"
    by (simp add: unat_word_ariths)
  show e: "rec_end (l\<lparr>rcCount := rcCount l + rcCount r\<rparr>) = rec_end r"
    using l by (simp add: rec_end_def c)
  have "rcCount l + rcCount r \<noteq> 0"
    using c assms(1) by (metis add_is_0 rec_fits_def unat_0 unat_eq_zero)
  then show "rec_fits (l\<lparr>rcCount := rcCount l + rcCount r\<rparr>)"
    using e assms(2) by (simp add: rec_fits_def)
  show "covers (l\<lparr>rcCount := rcCount l + rcCount r\<rparr>) b \<longleftrightarrow> covers l b \<or> covers r b"
    and "\<not> (covers l b \<and> covers r b)"
    using l by (auto simp: covers_def rec_end_def c)
qed

lemma refcCoalesce_measures:
  assumes "\<forall>r\<in>set out \<union> set rs. rec_fits r"
  shows "coverage (refcCoalesce out rs) b = coverage out b + coverage rs b \<and>
    recorded (refcCoalesce out rs) b = recorded out b + recorded rs b"
  using assms
proof (induction out rs rule: refcCoalesce.induct)
  case (3 l out r rs)
  show ?case
  proof (cases "rcStart l + rcCount l = rcStart r \<and> rcRefcount l = rcRefcount r")
    case True
    have "rec_fits l" "rec_fits r" using 3 by simp_all
    note m = merge_step [OF this]
    from True 3 m(3) show ?thesis using m(4,5) [of b] by auto
  qed (use 3 in auto)
qed auto

lemma refcCoalesce_inv:
  assumes "\<forall>r\<in>set out \<union> set rs. rec_fits r \<and> 2 \<le> rcRefcount r"
    and "sorted_wrt (\<lambda>a b. rec_end a \<le> unat (rcStart b)) (rev out @ rs)"
  shows "refc_inv (refcCoalesce out rs)"
  using assms
proof (induction out rs rule: refcCoalesce.induct)
  case (3 l out r rs)
  show ?case
  proof (cases "rcStart l + rcCount l = rcStart r \<and> rcRefcount l = rcRefcount r")
    case True
    have "rec_fits l" "rec_fits r" using 3 by simp_all
    note m = merge_step [OF this]
    show ?thesis
      using True 3 m by (auto simp: sorted_wrt_append)
  qed (use 3 in auto)
qed (auto simp: refc_inv_def)

lemma sorted_coverage_apart:
  assumes "sorted (map rcStart xs)" and "\<forall>r\<in>set xs. rec_fits r" and "\<And>b. coverage xs b \<le> 1"
  shows "sorted_wrt (\<lambda>a b. rec_end a \<le> unat (rcStart b)) xs"
  using assms
proof (induction xs)
  case Nil
  then show ?case by simp
next
  case (Cons a xs)
  have "rec_end a \<le> unat (rcStart r)" if r: "r \<in> set xs" for r
  proof (rule ccontr)
    assume "\<not> rec_end a \<le> unat (rcStart r)"
    moreover have "unat (rcStart a) \<le> unat (rcStart r)" using Cons.prems(1) r by (simp add: word_le_nat_alt)
    ultimately have "covers a (unat (rcStart r))" by (simp add: covers_def rec_end_def)
    moreover have "covers r (unat (rcStart r))"
      using Cons.prems(2) r by (simp add: covers_def rec_fits_def unat_gt_0)
    then have "0 < coverage xs (unat (rcStart r))" using r coverage_0 by (metis gr0I)
    ultimately show False using Cons.prems(3) [of "unat (rcStart r)"] by simp
  qed
  moreover have "coverage xs b \<le> 1" for b using Cons.prems(3) [of b] by (simp split: if_splits)
  ultimately show ?case using Cons by simp
qed

lemma coverage_filter: "coverage (filter P xs) b \<le> coverage xs b"
  by (induction xs) auto

lemma recorded_filter_owners:
  assumes "coverage xs b \<le> 1"
  shows "max 1 (recorded (filter (\<lambda>r. \<not> (rcCount r = 0 \<or> rcRefcount r < 2)) xs) b) = max 1 (recorded xs b)"
  using assms
proof (induction xs)
  case (Cons r xs)
  show ?case
  proof (cases "covers r b")
    case True
    with Cons.prems have "coverage xs b = 0" by simp
    then have "recorded xs b = 0" "coverage (filter (\<lambda>r. \<not> (rcCount r = 0 \<or> rcRefcount r < 2)) xs) b = 0"
      using coverage_filter [of "\<lambda>r. \<not> (rcCount r = 0 \<or> rcRefcount r < 2)" xs b]
      by (simp_all add: recorded_coverage_0)
    then have "recorded xs b = 0" "recorded (filter (\<lambda>r. \<not> (rcCount r = 0 \<or> rcRefcount r < 2)) xs) b = 0"
      by (simp_all add: recorded_coverage_0)
    moreover have "rcCount r \<noteq> 0" using True by (auto simp: covers_def)
    ultimately show ?thesis using True by (auto simp: word_less_nat_alt)
  next
    case False
    with Cons show ?thesis by simp
  qed
qed simp

lemma refcMerge_spec:
  assumes "\<forall>r\<in>set recs. rec_fits r" and "\<And>b. coverage recs b \<le> 1"
  shows "refc_inv (refcMerge recs)" and "owners (refcMerge recs) b = owners recs b"
proof -
  let ?kept = "filter (\<lambda>r. \<not> (rcCount r = 0 \<or> rcRefcount r < 2)) recs"
  let ?s = "sort_key rcStart ?kept"
  have "sorted_wrt (\<lambda>a b. rec_end a \<le> unat (rcStart b)) ?s"
  proof (rule sorted_coverage_apart)
    show "coverage ?s b \<le> 1" for b
      unfolding coverage_sort by (rule le_trans [OF coverage_filter assms(2)])
  qed (use assms(1) in auto)
  then show "refc_inv (refcMerge recs)"
    unfolding refcMerge_def using assms(1) by (intro refcCoalesce_inv) (auto simp: not_less)
  show "owners (refcMerge recs) b = owners recs b"
    using refcCoalesce_measures [of "[]" ?s b] assms(1) recorded_filter_owners [OF assms(2), of b]
    by (simp add: refcMerge_def owners_def)
qed

section \<open>Clipping a range\<close>

text \<open>A range \<open>[s, s + n)\<close> of group blocks, non-empty and without wrap-around.\<close>

definition range_ok :: "u32 \<Rightarrow> u32 \<Rightarrow> bool" where
  "range_ok s n \<longleftrightarrow> n \<noteq> 0 \<and> unat s + unat n < 2 ^ 32"

definition in_range :: "u32 \<Rightarrow> u32 \<Rightarrow> nat \<Rightarrow> bool" where
  "in_range s n b \<longleftrightarrow> unat s \<le> b \<and> b < unat s + unat n"

lemma range_end: "range_ok s n \<Longrightarrow> unat (s + n) = unat s + unat n"
  by (simp add: range_ok_def unat_word_ariths)

lemma clip_measures:
  assumes "rec_fits r" and "range_ok s n"
  shows "coverage (clipOutside s (s + n) r) b = (if in_range s n b then 0 else coverage [r] b)"
    and "recorded (clipOutside s (s + n) r) b = (if in_range s n b then 0 else recorded [r] b)"
    and "coverage (clipInside s (s + n) r) b = (if in_range s n b then coverage [r] b else 0)"
    and "recorded (clipInside s (s + n) r) b = (if in_range s n b then recorded [r] b else 0)"
  using unat_rec_end [OF assms(1)] range_end [OF assms(2)] assms
  by (auto simp: clipOutside_def clipInside_def Let_def in_range_def covers_def rec_end_def max32_def min32_def
      word_less_nat_alt word_le_nat_alt unat_sub_if' rec_fits_def)

lemma clip_fits:
  assumes "rec_fits r" and "range_ok s n"
  shows "x \<in> set (clipOutside s (s + n) r) \<Longrightarrow> rec_fits x \<and> rcRefcount x = rcRefcount r"
    and "x \<in> set (clipInside s (s + n) r) \<Longrightarrow> rec_fits x \<and> rcRefcount x = rcRefcount r \<and>
      unat s \<le> unat (rcStart x) \<and> rec_end x \<le> unat s + unat n"
  using unat_rec_end [OF assms(1)] range_end [OF assms(2)] assms
  by (auto simp: clipOutside_def clipInside_def Let_def rec_end_def max32_def min32_def range_ok_def
      word_less_nat_alt word_le_nat_alt unat_sub_if' rec_fits_def split: if_splits)

lemma clip_list_measures:
  assumes "\<forall>r\<in>set recs. rec_fits r" and "range_ok s n"
  shows "coverage (concat (map (clipOutside s (s + n)) recs)) b = (if in_range s n b then 0 else coverage recs b)"
    and "recorded (concat (map (clipOutside s (s + n)) recs)) b = (if in_range s n b then 0 else recorded recs b)"
    and "coverage (concat (map (clipInside s (s + n)) recs)) b = (if in_range s n b then coverage recs b else 0)"
    and "recorded (concat (map (clipInside s (s + n)) recs)) b = (if in_range s n b then recorded recs b else 0)"
  using assms by (induction recs) (auto simp: clip_measures)

lemma fillGaps_measures:
  assumes "\<forall>r\<in>set segs. rec_fits r \<and> rec_end r \<le> unat e" and "unat pos \<le> unat e"
    and "sorted_wrt (\<lambda>a b. rec_end a \<le> unat (rcStart b)) segs"
    and "\<forall>r\<in>set segs. unat pos \<le> unat (rcStart r)"
  shows "coverage (fillGaps e pos segs) b = (if unat pos \<le> b \<and> b < unat e then 1 else 0) \<and>
    recorded (fillGaps e pos segs) b = recorded segs b \<and> (\<forall>r\<in>set (fillGaps e pos segs). rec_fits r)"
  using assms
proof (induction segs arbitrary: pos)
  case Nil
  then show ?case
    using unat_lt(3) [of e]
    by (auto simp: covers_def rec_fits_def rec_end_def word_less_nat_alt unat_sub_if' unat_eq_zero [symmetric])
next
  case (Cons seg segs)
  let ?p = "rcStart seg + rcCount seg"
  have seg: "rec_fits seg" "rec_end seg \<le> unat e" "unat pos \<le> unat (rcStart seg)" using Cons.prems by simp_all
  have p: "unat ?p = rec_end seg" using seg(1) by (rule unat_rec_end)
  have IH: "coverage (fillGaps e ?p segs) b = (if rec_end seg \<le> b \<and> b < unat e then 1 else 0)"
    "recorded (fillGaps e ?p segs) b = recorded segs b" "\<forall>r\<in>set (fillGaps e ?p segs). rec_fits r"
    using Cons.IH [of ?p] Cons.prems seg by (auto simp: p)
  show ?case
  proof (cases "rcStart seg > pos")
    case False
    then have "unat (rcStart seg) = unat pos" using seg(3) by (simp add: word_less_nat_alt)
    with False IH seg show ?thesis by (auto simp: covers_def rec_end_def)
  next
    case True
    let ?g = "\<lparr>rcStart = pos, rcCount = rcStart seg - pos, rcRefcount = 0\<rparr>"
    have u: "unat (rcStart seg - pos) = unat (rcStart seg) - unat pos"
      using True by (simp add: word_less_nat_alt unat_sub_if')
    have "covers ?g b \<longleftrightarrow> unat pos \<le> b \<and> b < unat (rcStart seg)"
      using seg(3) by (auto simp: covers_def u)
    moreover have "rec_fits ?g"
      using True u seg unat_lt(3) [of "rcStart seg"] by (auto simp: rec_fits_def rec_end_def word_less_nat_alt)
    ultimately show ?thesis
      using True IH seg by (auto simp: covers_def rec_end_def)
  qed
qed

lemma fillGaps_refcount:
  "x \<in> set (fillGaps e pos segs) \<Longrightarrow> x \<in> set segs \<or> rcRefcount x = 0"
  by (induction segs arbitrary: pos) (auto split: if_splits)

lemma fillGaps_filter:
  assumes "\<forall>r\<in>set segs. rcRefcount r \<noteq> 0"
  shows "filter (\<lambda>r. rcRefcount r \<noteq> 0) (fillGaps e pos segs) = segs"
  using assms by (induction segs arbitrary: pos) auto

text \<open>
  What \<^verbatim>\<open>refcClipInside\<close> returns on a list that satisfies the invariant: the outside part
  keeps the records off the range, the inside part tiles the range.
\<close>

lemma refc_inv_coverage:
  assumes "refc_inv recs"
  shows "coverage recs b \<le> 1"
proof -
  have "coverage rs b \<le> 1" if "sorted_wrt (\<lambda>a b. rec_end a \<le> unat (rcStart b)) rs" for rs
    using that
  proof (induction rs)
    case (Cons a rs)
    have "coverage rs b = 0" if "covers a b"
      using that Cons.prems by (auto simp: coverage_0 covers_def rec_end_def dest!: bspec)
    with Cons show ?case by auto
  qed simp
  with assms show ?thesis by (simp add: refc_inv_def)
qed

lemma refcClipInside_spec:
  assumes "refc_inv recs" and "range_ok s n" and "refcClipInside recs s (s + n) = (outside, inside)"
  shows "coverage outside b = (if in_range s n b then 0 else coverage recs b)"
    and "recorded outside b = (if in_range s n b then 0 else recorded recs b)"
    and "coverage inside b = (if in_range s n b then 1 else 0)"
    and "recorded inside b = (if in_range s n b then recorded recs b else 0)"
    and "\<forall>r\<in>set outside. rec_fits r" and "\<forall>r\<in>set inside. rec_fits r"
    and "\<forall>r\<in>set inside. rcRefcount r = 0 \<or> 2 \<le> rcRefcount r"
    and "coverage (filter (\<lambda>r. rcRefcount r \<noteq> 0) inside) b = (if in_range s n b then coverage recs b else 0)"
proof -
  let ?in = "sort_key rcStart (concat (map (clipInside s (s + n)) recs))"
  have fits: "\<forall>r\<in>set recs. rec_fits r" using assms(1) by (simp add: refc_inv_def)
  have out: "outside = concat (map (clipOutside s (s + n)) recs)" and ins: "inside = fillGaps (s + n) s ?in"
    using assms(3) by (simp_all add: refcClipInside_def Let_def)
  have m: "coverage ?in b = (if in_range s n b then coverage recs b else 0)"
    "recorded ?in b = (if in_range s n b then recorded recs b else 0)" for b
    using clip_list_measures [OF fits assms(2)] by simp_all
  have i: "\<forall>r\<in>set ?in. rec_fits r \<and> rec_end r \<le> unat s + unat n \<and> unat s \<le> unat (rcStart r) \<and> 2 \<le> rcRefcount r"
    using clip_fits(2) [OF _ assms(2)] fits assms(1) by (fastforce simp: refc_inv_def)
  have srt: "sorted_wrt (\<lambda>a b. rec_end a \<le> unat (rcStart b)) ?in"
    by (rule sorted_coverage_apart) (use i m refc_inv_coverage [OF assms(1)] in auto)
  note fill = fillGaps_measures [of ?in "s + n" s b, unfolded range_end [OF assms(2)]]
  show "coverage outside b = (if in_range s n b then 0 else coverage recs b)"
    and "recorded outside b = (if in_range s n b then 0 else recorded recs b)"
    unfolding out by (rule clip_list_measures [OF fits assms(2)])+
  show "\<forall>r\<in>set outside. rec_fits r" unfolding out using clip_fits(1) [OF _ assms(2)] fits by auto
  show "coverage inside b = (if in_range s n b then 1 else 0)"
    and "recorded inside b = (if in_range s n b then recorded recs b else 0)"
    and "\<forall>r\<in>set inside. rec_fits r"
    unfolding ins using fill i srt m by (simp_all add: in_range_def)
  show "\<forall>r\<in>set inside. rcRefcount r = 0 \<or> 2 \<le> rcRefcount r"
    unfolding ins using i fillGaps_refcount by blast
  have "\<forall>r\<in>set ?in. rcRefcount r \<noteq> 0" using i by fastforce
  then show "coverage (filter (\<lambda>r. rcRefcount r \<noteq> 0) inside) b = (if in_range s n b then coverage recs b else 0)"
    unfolding ins by (simp only: fillGaps_filter m)
qed

section \<open>Raising and lowering the counts of a range\<close>

lemma inv_coverage_owners:
  assumes "refc_inv recs"
  shows "coverage recs b = 0 \<longleftrightarrow> owners recs b = 1" and "recorded recs b \<noteq> 1"
    and "coverage recs b = 0 \<Longrightarrow> recorded recs b = 0"
proof -
  have two: "2 \<le> recorded recs b" if one: "coverage recs b = 1"
  proof -
    obtain r where "r \<in> set recs" "recorded recs b = unat (rcRefcount r)"
      using coverage_1_recorded [OF one] by blast
    with assms show ?thesis by (simp add: refc_inv_def word_le_nat_alt)
  qed
  have "coverage recs b = 0 \<or> coverage recs b = 1" using refc_inv_coverage [OF assms, of b] by auto
  then show "coverage recs b = 0 \<longleftrightarrow> owners recs b = 1" and "recorded recs b \<noteq> 1"
    using two recorded_coverage_0 by (auto simp: owners_def max_def)
qed (rule recorded_coverage_0)

lemma refcIncrRange_spec:
  assumes inv: "refc_inv recs" and ok: "range_ok s n"
    and cap: "\<And>b. in_range s n b \<Longrightarrow> owners recs b < 2 ^ 32 - 1"
  shows "refc_inv (refcIncrRange recs s n)"
    and "owners (refcIncrRange recs s n) b = owners recs b + (if in_range s n b then 1 else 0)"
proof -
  obtain outside inside where c: "refcClipInside recs s (s + n) = (outside, inside)" by fastforce
  note clip = refcClipInside_spec [OF inv ok c]
  have incr: "rcStart (incrSeg r) = rcStart r \<and> rcCount (incrSeg r) = rcCount r" for r
    by (simp add: incrSeg_def)
  let ?X = "outside @ map incrSeg inside"
  have r: "refcIncrRange recs s n = refcMerge ?X" by (simp add: refcIncrRange_def c)
  have fits: "\<forall>r\<in>set ?X. rec_fits r"
    using clip(5,6) by (auto simp: rec_fits_def rec_end_def incr)
  have cov: "coverage ?X b \<le> 1" for b
    using clip(1,3) [of b] refc_inv_coverage [OF inv, of b] coverage_map [of incrSeg, OF incr] by auto
  show "refc_inv (refcIncrRange recs s n)" unfolding r by (rule refcMerge_spec(1) [OF fits cov])
  have "owners ?X b = owners recs b + (if in_range s n b then 1 else 0)"
  proof (cases "in_range s n b")
    case False
    have "coverage (map incrSeg inside) b = 0" using clip(3) [of b] False coverage_map [of incrSeg, OF incr] by simp
    then show ?thesis using False clip(2) [of b] by (simp add: owners_def recorded_coverage_0)
  next
    case True
    then have one: "coverage inside b = 1" using clip(3) by simp
    obtain q where q: "q \<in> set inside" and rec: "\<And>f. (\<And>r. rcStart (f r) = rcStart r \<and> rcCount (f r) = rcCount r) \<Longrightarrow>
        recorded (map f inside) b = unat (rcRefcount (f q))"
      using coverage_1 [OF one] by metis
    have old: "unat (rcRefcount q) = recorded recs b" using rec [of id] clip(4) [of b] True by simp
    have "unat (rcRefcount q) < 2 ^ 32 - 1" using cap [OF True] old by (simp add: owners_def)
    then have "unat (rcRefcount q + 1) = unat (rcRefcount q) + 1" by (simp add: unat_word_ariths)
    then have "unat (rcRefcount (incrSeg q)) = owners recs b + 1"
      using clip(7) q old by (auto simp: incrSeg_def Let_def owners_def max_def word_le_nat_alt)
    then show ?thesis using True clip(2) [of b] rec [of incrSeg, OF incr] by (simp add: owners_def)
  qed
  then show "owners (refcIncrRange recs s n) b = owners recs b + (if in_range s n b then 1 else 0)"
    unfolding r refcMerge_spec(2) [OF fits cov] .
qed

lemma filter_split_measures:
  "coverage xs b = coverage (filter P xs) b + coverage (filter (\<lambda>r. \<not> P r) xs) b"
  by (induction xs) auto

lemma recorded_filter_zero: "recorded (filter (\<lambda>r. rcRefcount r \<noteq> 0) xs) b = recorded xs b"
  by (induction xs) auto

lemma refcDecrRange_spec:
  assumes inv: "refc_inv recs" and ok: "range_ok s n" and d: "refcDecrRange recs s n = (out, free)"
  shows "refc_inv out"
    and "owners out b = (if in_range s n b \<and> 1 < owners recs b then owners recs b - 1 else owners recs b)"
    and "coverage free b = (if in_range s n b \<and> owners recs b = 1 then 1 else 0)"
    and "\<forall>r\<in>set free. rec_fits r"
proof -
  obtain outside inside where c: "refcClipInside recs s (s + n) = (outside, inside)" by fastforce
  note clip = refcClipInside_spec [OF inv ok c]
  let ?dec = "\<lambda>seg. \<lparr>rcStart = rcStart seg, rcCount = rcCount seg, rcRefcount = rcRefcount seg - 1\<rparr>"
  let ?gap = "\<lambda>seg. \<lparr>rcStart = rcStart seg, rcCount = rcCount seg, rcRefcount = 0\<rparr>"
  let ?in = "filter (\<lambda>seg. rcRefcount seg \<noteq> 0) inside"
  let ?X = "outside @ map ?dec ?in"
  have out: "out = refcMerge ?X" and free: "free = map ?gap (filter (\<lambda>seg. rcRefcount seg = 0) inside)"
    using d by (simp_all add: refcDecrRange_def c Let_def)
  have covdec: "coverage (map ?dec ?in) b = coverage ?in b" for b by (rule coverage_map) simp
  have fits: "\<forall>r\<in>set ?X. rec_fits r" using clip(5,6) by (auto simp: rec_fits_def rec_end_def)
  have cov: "coverage ?X b \<le> 1" for b
    using clip(1,8) [of b] refc_inv_coverage [OF inv, of b] covdec by simp
  show "refc_inv out" unfolding out by (rule refcMerge_spec(1) [OF fits cov])
  show "\<forall>r\<in>set free. rec_fits r" unfolding free using clip(6) by (auto simp: rec_fits_def rec_end_def)
  have "coverage free b = coverage (filter (\<lambda>seg. rcRefcount seg = 0) inside) b"
    unfolding free by (rule coverage_map) simp
  also have "\<dots> = (if in_range s n b then 1 - coverage recs b else 0)"
    using filter_split_measures [of inside b "\<lambda>r. rcRefcount r \<noteq> 0"] clip(3,8) [of b] by (simp split: if_splits)
  finally show "coverage free b = (if in_range s n b \<and> owners recs b = 1 then 1 else 0)"
    using inv_coverage_owners(1) [OF inv, of b] refc_inv_coverage [OF inv, of b] by (auto simp: le_Suc_eq)
  have "owners ?X b = (if in_range s n b \<and> 1 < owners recs b then owners recs b - 1 else owners recs b)"
  proof (cases "in_range s n b \<and> coverage recs b = 1")
    case True
    then have one: "coverage ?in b = 1" using clip(8) [of b] by simp
    obtain q where q: "q \<in> set ?in" and rec: "\<And>f. (\<And>r. rcStart (f r) = rcStart r \<and> rcCount (f r) = rcCount r) \<Longrightarrow>
        recorded (map f ?in) b = unat (rcRefcount (f q))"
      using coverage_1 [OF one] by metis
    have old: "unat (rcRefcount q) = recorded recs b"
      using rec [of id] clip(4) [of b] recorded_filter_zero [of inside b] True by simp
    have "2 \<le> rcRefcount q" using clip(7) q by auto
    then have "unat (rcRefcount (?dec q)) = recorded recs b - 1" "2 \<le> recorded recs b"
      using old by (auto simp: word_le_nat_alt unat_sub_if')
    then show ?thesis using True clip(2) [of b] rec [of ?dec] by (simp add: owners_def)
  next
    case False
    then have "coverage (map ?dec ?in) b = 0" using clip(8) [of b] refc_inv_coverage [OF inv, of b] covdec [of b] by auto
    then have "recorded ?X b = (if in_range s n b then 0 else recorded recs b)"
      using clip(2) [of b] recorded_coverage_0 by simp
    moreover have "recorded recs b = 0" if "in_range s n b"
      using False that refc_inv_coverage [OF inv, of b] recorded_coverage_0 by (auto simp: le_Suc_eq)
    ultimately show ?thesis by (auto simp: owners_def)
  qed
  then show "owners out b = (if in_range s n b \<and> 1 < owners recs b then owners recs b - 1 else owners recs b)"
    unfolding out refcMerge_spec(2) [OF fits cov] .
qed

section \<open>Canonical record lists\<close>

text \<open>
  \<^verbatim>\<open>refcMerge\<close> leaves no two neighbours that could be one record. Such a list is determined
  by the counts it describes.
\<close>

definition mergeable :: "refcRec \<Rightarrow> refcRec \<Rightarrow> bool" where
  "mergeable a b \<longleftrightarrow> rec_end a = unat (rcStart b) \<and> rcRefcount a = rcRefcount b"

definition canonical :: "refcRec list \<Rightarrow> bool" where
  "canonical recs \<longleftrightarrow> refc_inv recs \<and> successively (\<lambda>a b. \<not> mergeable a b) recs"

lemma refcCoalesce_successively:
  assumes "\<forall>r\<in>set out \<union> set rs. rec_fits r" and "successively (\<lambda>a b. \<not> mergeable a b) (rev out)"
  shows "successively (\<lambda>a b. \<not> mergeable a b) (refcCoalesce out rs)"
  using assms
proof (induction out rs rule: refcCoalesce.induct)
  case (3 l out r rs)
  show ?case
  proof (cases "rcStart l + rcCount l = rcStart r \<and> rcRefcount l = rcRefcount r")
    case True
    have "rec_fits l" "rec_fits r" using 3 by simp_all
    then show ?thesis
      using True 3 merge_step(3) by (auto simp: successively_append_iff mergeable_def)
  next
    case False
    then have "\<not> mergeable l r"
      using 3 unat_rec_end [of l] by (auto simp: mergeable_def word_unat_eq_iff)
    with False 3 show ?thesis by (auto simp: successively_append_iff)
  qed
qed simp_all

lemma refcMerge_canonical:
  assumes "\<forall>r\<in>set recs. rec_fits r" and "\<And>b. coverage recs b \<le> 1"
  shows "canonical (refcMerge recs)"
  unfolding canonical_def
  using refcMerge_spec(1) [OF assms] refcCoalesce_successively [of "[]"] assms(1) by (auto simp: refcMerge_def)

lemma canonical_first:
  assumes "canonical (a # xs)"
  shows "recorded (a # xs) (unat (rcStart a)) = unat (rcRefcount a)"
    and "\<And>b. b < unat (rcStart a) \<Longrightarrow> recorded (a # xs) b = 0"
    and "\<And>b. covers a b \<Longrightarrow> recorded (a # xs) b = unat (rcRefcount a)"
    and "recorded (a # xs) (rec_end a) \<noteq> unat (rcRefcount a)"
    and "canonical xs"
proof -
  have inv: "refc_inv (a # xs)" and suc: "successively (\<lambda>a b. \<not> mergeable a b) (a # xs)"
    using assms by (simp_all add: canonical_def)
  have a: "rec_fits a" "2 \<le> unat (rcRefcount a)" and after: "\<forall>r\<in>set xs. rec_end a \<le> unat (rcStart r)"
    using inv by (auto simp: refc_inv_def word_le_nat_alt)
  have none: "recorded xs b = 0" if "b < rec_end a" for b
    using that after by (intro recorded_coverage_0) (force simp: coverage_0 covers_def)
  show cov: "\<And>b. covers a b \<Longrightarrow> recorded (a # xs) b = unat (rcRefcount a)"
    using none by (simp add: covers_def rec_end_def)
  have "covers a (unat (rcStart a))" using a(1) by (simp add: covers_def rec_fits_def unat_gt_0)
  then show "recorded (a # xs) (unat (rcStart a)) = unat (rcRefcount a)" by (rule cov)
  show "recorded (a # xs) b = 0" if "b < unat (rcStart a)" for b
    using none [of b] that by (simp add: covers_def rec_end_def)
  show "canonical xs" using inv suc by (cases xs) (auto simp: canonical_def refc_inv_def)
  have off: "\<not> covers a (rec_end a)" by (simp add: covers_def rec_end_def)
  show "recorded (a # xs) (rec_end a) \<noteq> unat (rcRefcount a)"
  proof (cases xs)
    case Nil
    with off a(2) show ?thesis by simp
  next
    case (Cons c ys)
    have c: "rec_fits c" "\<forall>r\<in>set ys. rec_end c \<le> unat (rcStart r)" "rec_end a \<le> unat (rcStart c)"
      using inv Cons by (auto simp: refc_inv_def)
    have "0 < unat (rcCount c)" using c(1) by (simp add: rec_fits_def unat_gt_0)
    then have "rec_end a < rec_end c" using c(3) by (simp add: rec_end_def [of c])
    then have "coverage ys (rec_end a) = 0" using c(2) by (fastforce simp: coverage_0 covers_def)
    then have "recorded ys (rec_end a) = 0" by (rule recorded_coverage_0)
    moreover have "\<not> mergeable a c" using suc Cons by simp
    moreover have "covers c (rec_end a) \<Longrightarrow> rec_end a = unat (rcStart c)" using c(3) by (simp add: covers_def)
    ultimately show ?thesis using Cons off a(2) by (auto simp: mergeable_def word_unat_eq_iff)
  qed
qed

lemma canonical_unique:
  assumes "canonical xs" and "canonical ys" and "\<And>b. recorded xs b = recorded ys b"
  shows "xs = ys"
  using assms
proof (induction xs arbitrary: ys)
  case Nil
  then show ?case
  proof (cases ys)
    case (Cons c zs)
    then have "2 \<le> unat (rcRefcount c)" using Nil.prems(2) by (simp add: canonical_def refc_inv_def word_le_nat_alt)
    with Cons Nil.prems(3) [of "unat (rcStart c)"] canonical_first(1) [of c zs] Nil.prems(2) show ?thesis by simp
  qed simp
next
  case (Cons a xs)
  have a2: "2 \<le> unat (rcRefcount a)" using Cons.prems(1) by (simp add: canonical_def refc_inv_def word_le_nat_alt)
  note fa = canonical_first [OF Cons.prems(1)]
  obtain c zs where ys: "ys = c # zs"
    using Cons.prems(3) [of "unat (rcStart a)"] fa(1) a2 by (cases ys) auto
  have c2: "2 \<le> unat (rcRefcount c)" using Cons.prems(2) ys by (simp add: canonical_def refc_inv_def word_le_nat_alt)
  note fc = canonical_first [OF Cons.prems(2) [unfolded ys]]
  have same: "recorded (a # xs) b = recorded (c # zs) b" for b using Cons.prems(3) ys by simp
  have start: "unat (rcStart a) = unat (rcStart c)"
    using fa(1,2) fc(1,2) same a2 c2 by (metis linorder_neqE_nat not_numeral_le_zero)
  then have refc: "unat (rcRefcount a) = unat (rcRefcount c)" using fa(1) fc(1) same by simp
  have le: "\<not> rec_end x < rec_end y"
    if "unat (rcStart x) = unat (rcStart y)" "unat (rcRefcount x) = unat (rcRefcount y)"
      "recorded (x # u) (rec_end x) \<noteq> unat (rcRefcount x)" "\<And>b. covers y b \<Longrightarrow> recorded (y # v) b = unat (rcRefcount y)"
      "\<And>b. recorded (x # u) b = recorded (y # v) b" for x y u v
    using that(1,2,3) that(4) [of "rec_end x"] that(5) [of "rec_end x"] by (auto simp: covers_def rec_end_def)
  have "rec_end a = rec_end c"
    using le [of a c xs zs, OF start refc fa(4) fc(3)] le [of c a zs xs, OF start [symmetric] refc [symmetric] fc(4) fa(3)] same
    by (metis linorder_neqE_nat)
  then have ac: "a = c" using start refc by (intro refcRec.equality) (simp_all add: rec_end_def word_unat_eq_iff)
  then have "recorded xs b = recorded zs b" for b using same [of b] by simp
  with Cons.IH [OF fa(5) fc(5)] ac ys show ?case by simp
qed

lemma canonical_owners_unique:
  assumes "canonical xs" and "canonical ys" and "\<And>b. owners xs b = owners ys b"
  shows "xs = ys"
proof (rule canonical_unique [OF assms(1,2)])
  fix b
  have "recorded xs b \<noteq> 1" "recorded ys b \<noteq> 1"
    using assms(1,2) inv_coverage_owners(2) by (auto simp: canonical_def)
  then show "recorded xs b = recorded ys b" using assms(3) [of b] by (auto simp: owners_def max_def split: if_splits)
qed

section \<open>The contract of a share counter\<close>

text \<open>
  What copy-on-write needs of the counts: sharing adds one owner to every block of a range,
  releasing takes one away from the blocks with several owners and reports the blocks whose
  only owner has gone. The consequences below are proved for every such counter.
\<close>

locale share_counter =
  fixes inv :: "'m \<Rightarrow> bool" and own :: "'m \<Rightarrow> nat \<Rightarrow> nat" and ok :: "'r \<Rightarrow> bool" and mem :: "'r \<Rightarrow> nat \<Rightarrow> bool"
    and share :: "'m \<Rightarrow> 'r \<Rightarrow> 'm" and release :: "'m \<Rightarrow> 'r \<Rightarrow> 'm" and freed :: "'m \<Rightarrow> 'r \<Rightarrow> nat \<Rightarrow> bool"
    and cap :: nat
  assumes own_pos: "inv m \<Longrightarrow> 1 \<le> own m b"
    and share_inv: "inv m \<Longrightarrow> ok r \<Longrightarrow> (\<And>b. mem r b \<Longrightarrow> own m b < cap) \<Longrightarrow> inv (share m r)"
    and share_own: "inv m \<Longrightarrow> ok r \<Longrightarrow> (\<And>b. mem r b \<Longrightarrow> own m b < cap) \<Longrightarrow>
      own (share m r) b = own m b + (if mem r b then 1 else 0)"
    and release_inv: "inv m \<Longrightarrow> ok r \<Longrightarrow> inv (release m r)"
    and release_own: "inv m \<Longrightarrow> ok r \<Longrightarrow>
      own (release m r) b = (if mem r b \<and> 1 < own m b then own m b - 1 else own m b)"
    and release_freed: "inv m \<Longrightarrow> ok r \<Longrightarrow> freed m r b \<longleftrightarrow> mem r b \<and> own m b = 1"
begin

text \<open>A release that follows a share undoes it and frees nothing.\<close>

lemma release_after_share:
  assumes "inv m" and "ok r" and cap: "\<And>b. mem r b \<Longrightarrow> own m b < cap"
  shows "own (release (share m r) r) b = own m b" and "\<not> freed (share m r) r b"
proof -
  have i: "inv (share m r)" by (rule share_inv [OF assms])
  show "own (release (share m r) r) b = own m b"
    using release_own [OF i assms(2), of b] share_own [OF assms, of b] own_pos [OF assms(1), of b] by auto
  show "\<not> freed (share m r) r b"
    using release_freed [OF i assms(2), of b] share_own [OF assms, of b] own_pos [OF assms(1), of b] by auto
qed

text \<open>After \<open>k\<close> shares every block of the range has \<open>k\<close> more owners.\<close>

lemma share_many:
  assumes "inv m" and "ok r" and "\<And>b. mem r b \<Longrightarrow> own m b + k \<le> cap"
  shows "inv (((\<lambda>m. share m r) ^^ k) m)"
    and "own (((\<lambda>m. share m r) ^^ k) m) b = own m b + (if mem r b then k else 0)"
proof -
  have "inv (((\<lambda>m. share m r) ^^ k) m) \<and>
      (\<forall>b. own (((\<lambda>m. share m r) ^^ k) m) b = own m b + (if mem r b then k else 0))"
    using assms(3)
  proof (induction k)
    case 0
    then show ?case using assms(1) by simp
  next
    case (Suc k)
    let ?m = "((\<lambda>m. share m r) ^^ k) m"
    have IH: "inv ?m" "\<And>b. own ?m b = own m b + (if mem r b then k else 0)" using Suc by fastforce+
    have "own ?m b < cap" if "mem r b" for b using IH(2) [of b] Suc.prems [OF that] that by simp
    then show ?case using share_inv [OF IH(1) assms(2)] share_own [OF IH(1) assms(2)] IH(2) by auto
  qed
  then show "inv (((\<lambda>m. share m r) ^^ k) m)"
    "own (((\<lambda>m. share m r) ^^ k) m) b = own m b + (if mem r b then k else 0)" by simp_all
qed

lemma release_many:
  assumes "inv m" and "ok r"
  shows "inv (((\<lambda>m. release m r) ^^ k) m)"
    and "own (((\<lambda>m. release m r) ^^ k) m) b = (if mem r b then max 1 (own m b - k) else own m b)"
proof -
  have "inv (((\<lambda>m. release m r) ^^ k) m) \<and>
      (\<forall>b. own (((\<lambda>m. release m r) ^^ k) m) b = (if mem r b then max 1 (own m b - k) else own m b))"
  proof (induction k)
    case 0
    then show ?case using assms(1) own_pos by (auto simp: max_def)
  next
    case (Suc k)
    let ?m = "((\<lambda>m. release m r) ^^ k) m"
    have IH: "inv ?m" "\<And>b. own ?m b = (if mem r b then max 1 (own m b - k) else own m b)" using Suc by auto
    have "own (release ?m r) b = (if mem r b then max 1 (own m b - Suc k) else own m b)" for b
      using release_own [OF IH(1) assms(2), of b] IH(2) [of b] by (auto simp: max_def)
    then show ?case using release_inv [OF IH(1) assms(2)] by simp
  qed
  then show "inv (((\<lambda>m. release m r) ^^ k) m)"
    "own (((\<lambda>m. release m r) ^^ k) m) b = (if mem r b then max 1 (own m b - k) else own m b)" by simp_all
qed

text \<open>
  Clone a range \<open>k\<close> times and release it \<open>j\<close> times: a further release frees a block exactly
  when all but one of its owners have gone.
\<close>

lemma last_release_frees:
  assumes "inv m" and "ok r" and "\<And>b. mem r b \<Longrightarrow> own m b + k \<le> cap"
  shows "freed (((\<lambda>m. release m r) ^^ j) (((\<lambda>m. share m r) ^^ k) m)) r b \<longleftrightarrow> mem r b \<and> own m b + k \<le> j + 1"
proof -
  note s = share_many [OF assms]
  note rel = release_many [OF s(1) assms(2), of j]
  show ?thesis
    using release_freed [OF rel(1) assms(2), of b] rel(2) [of b] s(2) [of b]
    by (auto simp: max_def)
qed

end

interpretation refc: share_counter refc_inv owners "\<lambda>(s, n). range_ok s n" "\<lambda>(s, n). in_range s n"
  "\<lambda>m (s, n). refcIncrRange m s n" "\<lambda>m (s, n). fst (refcDecrRange m s n)"
  "\<lambda>m (s, n) b. 0 < coverage (snd (refcDecrRange m s n)) b" "2 ^ 32 - 1"
proof unfold_locales
  fix m b r assume "refc_inv m"
  show "1 \<le> owners m b" by (simp add: owners_def)
  assume "case r of (s, n) \<Rightarrow> range_ok s n"
  then obtain s n where r: "r = (s, n)" "range_ok s n" by (cases r) simp
  obtain out free where d: "refcDecrRange m s n = (out, free)" by fastforce
  note spec = refcDecrRange_spec [OF \<open>refc_inv m\<close> r(2) d]
  show "refc_inv (case r of (s, n) \<Rightarrow> fst (refcDecrRange m s n))" using r d spec by simp
  show "owners (case r of (s, n) \<Rightarrow> fst (refcDecrRange m s n)) b =
      (if (case r of (s, n) \<Rightarrow> in_range s n) b \<and> 1 < owners m b then owners m b - 1 else owners m b)"
    using r d spec(2) [of b] by simp
  show "(case r of (s, n) \<Rightarrow> \<lambda>b. 0 < coverage (snd (refcDecrRange m s n)) b) b \<longleftrightarrow>
      (case r of (s, n) \<Rightarrow> in_range s n) b \<and> owners m b = 1"
    using r d spec(3) [of b] by simp
  assume cap: "\<And>b. (case r of (s, n) \<Rightarrow> in_range s n) b \<Longrightarrow> owners m b < 2 ^ 32 - 1"
  then have cap': "\<And>b. in_range s n b \<Longrightarrow> owners m b < 2 ^ 32 - 1" using r by simp
  show "refc_inv (case r of (s, n) \<Rightarrow> refcIncrRange m s n)"
    using r refcIncrRange_spec(1) [OF \<open>refc_inv m\<close> r(2) cap'] by simp
  show "owners (case r of (s, n) \<Rightarrow> refcIncrRange m s n) b =
      owners m b + (if (case r of (s, n) \<Rightarrow> in_range s n) b then 1 else 0)"
    using r refcIncrRange_spec(2) [OF \<open>refc_inv m\<close> r(2) cap', of b] by simp
qed

section \<open>Properties of the refcount tree's records\<close>

lemma incr_canonical:
  assumes "refc_inv recs" and "range_ok s n"
  shows "canonical (refcIncrRange recs s n)"
proof -
  obtain outside inside where c: "refcClipInside recs s (s + n) = (outside, inside)" by fastforce
  note clip = refcClipInside_spec [OF assms c]
  have "coverage (map incrSeg inside) b = coverage inside b" for b
    by (rule coverage_map) (simp add: incrSeg_def)
  then have "coverage (outside @ map incrSeg inside) b \<le> 1" for b
    using clip(1,3) [of b] refc_inv_coverage [OF assms(1), of b] by simp
  moreover have "\<forall>r\<in>set (outside @ map incrSeg inside). rec_fits r"
    using clip(5,6) by (auto simp: rec_fits_def rec_end_def incrSeg_def)
  ultimately show ?thesis
    by (simp add: refcIncrRange_def c refcMerge_canonical)
qed

lemma decr_canonical:
  assumes "refc_inv recs" and "range_ok s n"
  shows "canonical (fst (refcDecrRange recs s n))"
proof -
  obtain outside inside where c: "refcClipInside recs s (s + n) = (outside, inside)" by fastforce
  note clip = refcClipInside_spec [OF assms c]
  let ?dec = "\<lambda>seg. \<lparr>rcStart = rcStart seg, rcCount = rcCount seg, rcRefcount = rcRefcount seg - 1\<rparr>"
  let ?in = "filter (\<lambda>seg. rcRefcount seg \<noteq> 0) inside"
  have "coverage (map ?dec ?in) b = coverage ?in b" for b by (rule coverage_map) simp
  then have "coverage (outside @ map ?dec ?in) b \<le> 1" for b
    using clip(1,8) [of b] refc_inv_coverage [OF assms(1), of b] by simp
  moreover have "\<forall>r\<in>set (outside @ map ?dec ?in). rec_fits r"
    using clip(5,6) by (auto simp: rec_fits_def rec_end_def)
  ultimately show ?thesis
    by (simp add: refcDecrRange_def c Let_def refcMerge_canonical)
qed

text \<open>
  C11. Sharing a range (\<^verbatim>\<open>refcIncrRange\<close>) refines the abstract counter: every block of the
  range gains exactly one owner, every other block keeps its count, and the records stay
  sorted, disjoint, free of counts below two and maximally merged.
\<close>

theorem refcIncrRange_refines:
  assumes "refc_inv recs" and "range_ok s n" and "\<forall>b. in_range s n b \<longrightarrow> owners recs b < 2 ^ 32 - 1"
  shows "canonical (refcIncrRange recs s n) \<and>
    (\<forall>b. owners (refcIncrRange recs s n) b = owners recs b + (if in_range s n b then 1 else 0))"
  using incr_canonical [OF assms(1,2)] refc.share_own [of recs "(s, n)"] assms by simp

definition refc_example :: "refcRec list" where
  "refc_example = [\<lparr>rcStart = 10, rcCount = 5, rcRefcount = 2\<rparr>, \<lparr>rcStart = 20, rcCount = 4, rcRefcount = 3\<rparr>]"

lemma refc_example_canonical: "canonical refc_example"
  by (simp add: refc_example_def canonical_def refc_inv_def rec_fits_def rec_end_def mergeable_def)

lemma refc_example_inv: "refc_inv refc_example"
  using refc_example_canonical by (simp add: canonical_def)

lemma refc_example_owners: "owners refc_example b \<le> 3"
  by (auto simp: refc_example_def owners_def covers_def)

theorem refcIncrRange_refines_witness:
  "canonical (refcIncrRange refc_example 12 10) \<and> owners (refcIncrRange refc_example 12 10) 13 = 3 \<and>
   owners (refcIncrRange refc_example 12 10) 17 = 2"
proof -
  have "range_ok 12 10" by (simp add: range_ok_def)
  moreover have "owners refc_example b < 2 ^ 32 - 1" for b using refc_example_owners [of b] by simp
  ultimately have "canonical (refcIncrRange refc_example 12 10) \<and>
      (\<forall>b. owners (refcIncrRange refc_example 12 10) b = owners refc_example b + (if in_range 12 10 b then 1 else 0))"
    by (intro refcIncrRange_refines) (simp_all add: refc_example_inv)
  then show ?thesis by (simp add: in_range_def owners_def refc_example_def covers_def)
qed

text \<open>
  C12. Releasing a range (\<^verbatim>\<open>refcDecrRange\<close>) takes one owner from every shared block of the
  range, leaves all other counts alone, and returns for freeing exactly the blocks of the
  range that had one owner, each of them once.
\<close>

theorem refcDecrRange_refines:
  assumes "refc_inv recs" and "range_ok s n"
  shows "canonical (fst (refcDecrRange recs s n)) \<and>
    (\<forall>b. owners (fst (refcDecrRange recs s n)) b =
       (if in_range s n b \<and> 1 < owners recs b then owners recs b - 1 else owners recs b)) \<and>
    (\<forall>b. coverage (snd (refcDecrRange recs s n)) b = (if in_range s n b \<and> owners recs b = 1 then 1 else 0))"
proof -
  obtain out free where d: "refcDecrRange recs s n = (out, free)" by fastforce
  show ?thesis using refcDecrRange_spec [OF assms d] decr_canonical [OF assms] d by simp
qed

theorem refcDecrRange_refines_witness:
  "owners (fst (refcDecrRange refc_example 12 10)) 13 = 1 \<and> owners (fst (refcDecrRange refc_example 12 10)) 21 = 2 \<and>
   coverage (snd (refcDecrRange refc_example 12 10)) 17 = 1 \<and> coverage (snd (refcDecrRange refc_example 12 10)) 13 = 0"
  using refcDecrRange_refines [OF refc_example_inv, of 12 10]
  by (simp add: range_ok_def in_range_def owners_def refc_example_def covers_def)

text \<open>Sharing a range and releasing it again restores the very same records and frees no block.\<close>

lemma refc_share_release_roundtrip:
  assumes "canonical recs" and "range_ok s n" and "\<forall>b. in_range s n b \<longrightarrow> owners recs b < 2 ^ 32 - 1"
  shows "refcDecrRange (refcIncrRange recs s n) s n = (recs, [])"
proof -
  have inv: "refc_inv recs" using assms(1) by (simp add: canonical_def)
  have cap: "(case (s, n) of (s, n) \<Rightarrow> in_range s n) b \<Longrightarrow> owners recs b < 2 ^ 32 - 1" for b using assms(3) by simp
  obtain out free where d: "refcDecrRange (refcIncrRange recs s n) s n = (out, free)" by fastforce
  note undo = refc.release_after_share [of recs "(s, n)", OF inv _ cap, simplified, OF assms(2), unfolded d, simplified]
  have inv': "refc_inv (refcIncrRange recs s n)" using incr_canonical [OF inv assms(2)] by (simp add: canonical_def)
  have "canonical out" using decr_canonical [OF inv' assms(2)] d by simp
  then have "out = recs" using canonical_owners_unique assms(1) undo(1) by blast
  moreover have "free = []"
  proof (rule ccontr)
    assume "free \<noteq> []"
    then obtain r where r: "r \<in> set free" by (meson list.set_sel(1))
    then have "rec_fits r" using refcDecrRange_spec(4) [OF inv' assms(2) d] by blast
    then have "covers r (unat (rcStart r))" by (simp add: covers_def rec_fits_def unat_gt_0)
    then have "0 < coverage free (unat (rcStart r))" using r coverage_0 by (metis gr0I)
    with undo(2) [of "unat (rcStart r)"] show False by simp
  qed
  ultimately show ?thesis using d by simp
qed

text \<open>
  C13. A range cloned \<open>k\<close> times and released \<open>j\<close> times gives up a block at the next release
  exactly when that release removes the block's last owner: no block is freed while an inode
  still references it, and none is leaked.
\<close>

theorem refc_no_early_free_no_leak:
  assumes "refc_inv recs" and "range_ok s n" and "\<forall>b. in_range s n b \<longrightarrow> owners recs b + k \<le> 2 ^ 32 - 1"
  shows "0 < coverage (snd (refcDecrRange (((\<lambda>m. fst (refcDecrRange m s n)) ^^ j) (((\<lambda>m. refcIncrRange m s n) ^^ k) recs)) s n)) b
    \<longleftrightarrow> in_range s n b \<and> owners recs b + k \<le> j + 1"
  using refc.last_release_frees [of recs "(s, n)" k j b] assms by simp

theorem refc_no_early_free_no_leak_witness:
  "0 < coverage (snd (refcDecrRange (((\<lambda>m. fst (refcDecrRange m 12 10)) ^^ 2) (((\<lambda>m. refcIncrRange m 12 10) ^^ 2) [])) 12 10)) 15 \<and>
   \<not> 0 < coverage (snd (refcDecrRange (((\<lambda>m. fst (refcDecrRange m 12 10)) ^^ 1) (((\<lambda>m. refcIncrRange m 12 10) ^^ 2) [])) 12 10)) 15"
  using refc_no_early_free_no_leak [of "[]" 12 10 2 2 15] refc_no_early_free_no_leak [of "[]" 12 10 2 1 15]
  by (simp add: refc_inv_def range_ok_def in_range_def owners_def)

end
