(* ===== verification/InodeGroup.thy ===== *)
theory InodeGroup
  imports LeafGroup InodeAlloc
begin

text \<open>
  Inode allocation in groups whose inode B-tree is a single leaf: the abstract state is the set
  of free inode numbers of the group. \<^verbatim>\<open>allocInode\<close> removes the lowest free inode of the first chunk
  that has one, \<^verbatim>\<open>freeInode\<close> puts an inode back, and the counters of record and AGI follow.
\<close>

section \<open>Bit masks\<close>

lemma bit_set_finite: "finite {b. bit (v :: u64) b}"
  by (rule finite_subset [of _ "{..<64}"]) (auto dest: bit_imp_le_length)

lemma bits64_card: "bits64 v = card {b. bit v b}"
proof (induction v rule: bits64.induct)
  case (1 v)
  show ?case
  proof (cases "v = 0")
    case False
    let ?S = "{b. bit (drop_bit 1 v) b}"
    have s: "{b. bit v b} = (if bit v 0 then {0} else {}) \<union> Suc ` ?S"
    proof (rule set_eqI)
      fix b show "b \<in> {b. bit v b} \<longleftrightarrow> b \<in> (if bit v 0 then {0} else {}) \<union> Suc ` ?S"
        by (cases b) (auto simp: bit_drop_bit_eq)
    qed
    have "unat (v AND 1) = (if bit v 0 then 1 else 0)" by (simp add: and_one_eq bit_0 odd_iff_mod_2_eq_one)
    moreover have "card {b. bit v b} = (if bit v 0 then 1 else 0) + card ?S"
      unfolding s using bit_set_finite [of "drop_bit 1 v"] by (auto simp: card_image card_insert_if)
    ultimately show ?thesis using 1 False by (subst bits64.simps) simp
  qed simp
qed

declare bits64.simps [simp del]

lemma bits64_le: "bits64 v \<le> 64"
proof -
  have "card {b. bit v b} \<le> card {..<64 :: nat}" by (rule card_mono) (auto dest: bit_imp_le_length)
  then show ?thesis by (simp add: bits64_card)
qed

lemma bits64_0: "bits64 v = 0 \<longleftrightarrow> v = 0"
proof -
  have "{b. bit v b} = {} \<longleftrightarrow> v = 0" using bit_imp_le_length [of v] by (auto simp: bit_eq_iff)
  then show ?thesis using bit_set_finite [of v] by (simp add: bits64_card)
qed

lemma drop_bit_odd: "drop_bit i (v :: u64) AND 1 = 1 \<longleftrightarrow> bit v i"
  by (simp add: bit_iff_odd_drop_bit and_one_eq odd_iff_mod_2_eq_one)

text \<open>The loop finds the lowest set bit.\<close>

lemma lowBit_spec:
  assumes "\<exists>b. i \<le> b \<and> b < i + k \<and> bit v b"
  shows "bit v (lowBit v i k) \<and> i \<le> lowBit v i k \<and> lowBit v i k < i + k \<and> (\<forall>b. i \<le> b \<longrightarrow> bit v b \<longrightarrow> lowBit v i k \<le> b)"
  using assms
proof (induction k arbitrary: i)
  case (Suc k)
  show ?case
  proof (cases "bit v i")
    case True
    then show ?thesis by (simp add: drop_bit_odd)
  next
    case False
    obtain b where b: "i \<le> b" "b < i + Suc k" "bit v b" using Suc.prems by blast
    then have "i + 1 \<le> b" using False by (cases "i = b") auto
    then have "\<exists>b. i + 1 \<le> b \<and> b < i + 1 + k \<and> bit v b" using b by auto
    note ih = Suc.IH [OF this]
    moreover have "lowBit v (i + 1) k \<le> b" if "i \<le> b" "bit v b" for b
      using ih that False by (cases "i = b") (simp_all add: Suc_le_eq)
    ultimately show ?thesis using False by (simp add: drop_bit_odd)
  qed
qed auto

lemma low_bit:
  assumes "v \<noteq> 0"
  shows "bit v (lowBit v 0 64)" "lowBit v 0 64 < 64" "\<forall>b. bit v b \<longrightarrow> lowBit v 0 64 \<le> b"
proof -
  obtain b where "bit v b" using assms by (auto simp: bit_eq_iff)
  then have "\<exists>b. 0 \<le> b \<and> b < 0 + 64 \<and> bit v b" using bit_imp_le_length [of v b] by auto
  from lowBit_spec [OF this] show "bit v (lowBit v 0 64)" "lowBit v 0 64 < 64" "\<forall>b. bit v b \<longrightarrow> lowBit v 0 64 \<le> b" by auto
qed

lemma bits_clear: "{b. bit (v AND NOT (push_bit k 1) :: u64) b} = {b. bit v b} - {k}"
  by (auto simp: bit_and_iff bit_not_iff bit_exp_iff dest: bit_imp_le_length)

lemma bits_set: "k < 64 \<Longrightarrow> {b. bit (v OR push_bit k 1 :: u64) b} = insert k {b. bit v b}"
  by (auto simp: bit_or_iff bit_exp_iff)

lemma bits64_clear: "bit v k \<Longrightarrow> bits64 (v AND NOT (push_bit k 1)) = bits64 v - 1"
  unfolding bits64_card bits_clear by (simp add: card_Diff_singleton)

lemma bits64_set: "k < 64 \<Longrightarrow> \<not> bit v k \<Longrightarrow> bits64 (v OR push_bit k 1) = bits64 v + 1"
  unfolding bits64_card by (subst bits_set) (use bit_set_finite [of v] in simp_all)

lemma set_clear: "bit (v :: u64) k \<Longrightarrow> (v AND NOT (push_bit k 1)) OR push_bit k 1 = v"
  by (rule bit_word_eqI) (auto simp: bit_or_iff bit_and_iff bit_not_iff bit_exp_iff)

section \<open>Records of a leaf\<close>

type_synonym irec = "u32 \<times> u32 \<times> u64"

definition irecAt :: "bytes \<Rightarrow> nat \<Rightarrow> irec" where
  "irecAt b off = (be32 b off, be32 b (off + 4), be64 b (off + 8))"

definition irecsOf :: "bytes \<Rightarrow> nat \<Rightarrow> nat \<Rightarrow> irec list" where
  "irecsOf b hdr n = map (\<lambda>i. irecAt b (hdr + i * 16)) [0..<n]"

lemma length_irecsOf [simp]: "length (irecsOf b hdr n) = n"
  and nth_irecsOf: "i < n \<Longrightarrow> irecsOf b hdr n ! i = irecAt b (hdr + i * 16)"
  by (simp_all add: irecsOf_def)

lemma irecsOf_edits:
  assumes "edits lo hi b b'" and "hi \<le> hdr"
  shows "irecsOf b' hdr n = irecsOf b hdr n"
  using assms(2) edits_window [OF assms(1)] by (simp add: irecsOf_def irecAt_def be32_def be64_def)

text \<open>Changing count and mask of one record.\<close>

lemma irecsOf_put:
  assumes "i < n" and "hdr + n * 16 \<le> length b" and "off = hdr + i * 16"
  shows "irecsOf (put32 (off + 4) c (put64 (off + 8) m b)) hdr n = (irecsOf b hdr n)[i := (be32 b off, c, m)]"
    (is "irecsOf ?b hdr n = _")
proof (rule nth_equalityI)
  fix j assume "j < length (irecsOf ?b hdr n)"
  then have j: "j < n" by simp
  have fit: "off + 16 \<le> length b" using assms by simp
  show "irecsOf ?b hdr n ! j = (irecsOf b hdr n)[i := (be32 b off, c, m)] ! j"
  proof (cases "j = i")
    case True
    then show ?thesis using j fit assms(3)
      by (simp add: nth_irecsOf irecAt_def be32_def be64_def window_put_frame put32_def put64_def window_patch_same)
  next
    case False
    then have "hdr + j * 16 + 16 \<le> off \<or> off + 16 \<le> hdr + j * 16" using assms(3) by auto
    then show ?thesis using j False by (auto simp: nth_irecsOf irecAt_def be32_def be64_def window_put_frame)
  qed
qed simp

section \<open>Groups with a single-leaf inode tree\<close>

definition ileaf_ok :: "superblock \<Rightarrow> bytes \<Rightarrow> irec list \<Rightarrow> bool" where
  "ileaf_ok sb blk rs \<longleftrightarrow> length blk = unat (blockSize sb) \<and> be16 blk 4 = 0 \<and> be32 blk 12 = nullAgBlock \<and>
     count_of blk = length rs \<and> agBTreeHdrSize sb + length rs * 16 \<le> length blk \<and> irecsOf blk (agBTreeHdrSize sb) (length rs) = rs"

definition igrp :: "int64 \<Rightarrow> superblock \<Rightarrow> u32 \<Rightarrow> u32 \<Rightarrow> dev \<Rightarrow> bytes \<Rightarrow> irec list \<Rightarrow> bool" where
  "igrp partOff sb ag inoRel d agi rs \<longleftrightarrow> group_fits partOff sb ag \<and> body_block sb inoRel \<and>
     agiBlock d partOff sb ag = Inr agi \<and> be32 agi agiOffRoot = inoRel \<and>
     (\<exists>b. readAGBlock d partOff sb ag inoRel = Inr b \<and> ileaf_ok sb b rs)"

text \<open>
  Counts and masks agree, chunks do not overlap and lie in the group.
\<close>

definition chunks_ok :: "superblock \<Rightarrow> irec list \<Rightarrow> bool" where
  "chunks_ok sb rs \<longleftrightarrow> sorted_wrt (\<lambda>a b. unat (fst a) + 64 \<le> unat (fst b)) rs \<and>
     (\<forall>(st, fc, m)\<in>set rs. fc = of_nat (bits64 m) \<and> unat st + 64 \<le> unat (agBlocks sb) * unat (inopBlock sb) \<and> unat st + 64 < 2 ^ 32)"

definition free_inodes :: "irec list \<Rightarrow> nat set" where
  "free_inodes rs = (\<Union>(st, fc, m)\<in>set rs. (\<lambda>b. unat st + b) ` {b. bit m b})"

lemma ileaf_ok_stamp:
  assumes "group_fits partOff sb ag" and "ileaf_ok sb blk rs"
  shows "ileaf_ok sb (stampBlock sb blk) rs"
proof (cases "hasCRC sb")
  case True
  have e: "edits 52 56 blk (stampBlock sb blk)"
    using edits_updateCRC [of 52 blk] True by (simp add: stampBlock_def btreeCRCOff_def)
  have "be16 (stampBlock sb blk) 4 = be16 blk 4" "be32 (stampBlock sb blk) 12 = be32 blk 12" "count_of (stampBlock sb blk) = count_of blk"
    using edits_window [OF e] by (simp_all add: be16_def be32_def count_of_def)
  moreover have "irecsOf (stampBlock sb blk) (agBTreeHdrSize sb) n = irecsOf blk (agBTreeHdrSize sb) n" for n
    by (rule irecsOf_edits [OF e]) (simp add: hdr_facts(3) [OF assms(1) True])
  ultimately show ?thesis using assms(2) by (simp add: ileaf_ok_def)
qed (use assms(2) in \<open>simp add: stampBlock_def\<close>)

lemma ileaf_ok_gets:
  assumes "group_fits partOff sb ag" and "ileaf_ok sb blk rs"
  shows "u16At blk 4 = Inr 0" "u16At blk 6 = Inr (of_nat (length rs))" "u32At blk 12 = Inr nullAgBlock"
    "unat (of_nat (length rs) :: u16) = length rs" "i < length rs \<Longrightarrow> agBTreeHdrSize sb + i * 16 + 16 \<le> length blk"
proof -
  have l: "512 \<le> length blk" using assms(2) hdr_facts(4) [OF assms(1)] by (simp add: ileaf_ok_def)
  have c: "length rs < 65536" using assms(2) count_of_less [of blk] by (simp add: ileaf_ok_def)
  then show u: "unat (of_nat (length rs) :: u16) = length rs" by (simp add: unat_of_nat)
  have "of_nat (unat (be16 blk 6)) = (of_nat (length rs) :: u16)" using assms(2) by (simp add: ileaf_ok_def count_of_def)
  then have "be16 blk 6 = of_nat (length rs)" by simp
  then show "u16At blk 4 = Inr 0" "u16At blk 6 = Inr (of_nat (length rs))" "u32At blk 12 = Inr nullAgBlock"
    using l assms(2) by (simp_all add: u16At_def u32At_def ileaf_ok_def)
  show "i < length rs \<Longrightarrow> agBTreeHdrSize sb + i * 16 + 16 \<le> length blk" using assms(2) by (simp add: ileaf_ok_def)
qed

text \<open>The searches on a leaf.\<close>

lemma freeRecPos_spec:
  assumes "hdr + (i + k) * 16 \<le> length b"
  shows "freeRecPos b hdr i k = Inr (let m = length (takeWhile (\<lambda>r. fst (snd r) = 0) (drop i (irecsOf b hdr (i + k))))
    in if m < k then Some (i + m) else None)"
  using assms
proof (induction k arbitrary: i)
  case (Suc k)
  have d: "drop i (irecsOf b hdr (i + Suc k)) = irecsOf b hdr (i + Suc k) ! i # drop (Suc i) (irecsOf b hdr (i + Suc k))"
    by (rule Cons_nth_drop_Suc [symmetric]) simp
  have u: "u32At b (hdr + i * inobtRecSize + 4) = Inr (be32 b (hdr + i * 16 + 4))"
    using Suc.prems by (simp add: u32At_def inobtRecSize_def)
  show ?case
    using Suc.IH [of "Suc i"] Suc.prems unfolding freeRecPos.simps u d
    by (auto simp: nth_irecsOf irecAt_def Let_def word_neq_0_conv)
qed simp

lemma coverRecPos_spec:
  assumes "hdr + (i + k) * 16 \<le> length b"
  shows "coverRecPos b hdr x i k = Inr (let m = length (takeWhile (\<lambda>r. \<not> (fst r \<le> x \<and> x < fst r + 64)) (drop i (irecsOf b hdr (i + k))))
    in if m < k then Some (i + m) else None)"
  using assms
proof (induction k arbitrary: i)
  case (Suc k)
  have d: "drop i (irecsOf b hdr (i + Suc k)) = irecsOf b hdr (i + Suc k) ! i # drop (Suc i) (irecsOf b hdr (i + Suc k))"
    by (rule Cons_nth_drop_Suc [symmetric]) simp
  have u: "u32At b (hdr + i * inobtRecSize) = Inr (be32 b (hdr + i * 16))"
    using Suc.prems by (simp add: u32At_def inobtRecSize_def)
  show ?case
    using Suc.IH [of "Suc i"] Suc.prems unfolding coverRecPos.simps u d
    by (auto simp: nth_irecsOf irecAt_def Let_def)
qed simp

section \<open>Writing leaf and AGI\<close>

text \<open>
  Bytes outside the part of a group behind its superblock; writes of tree blocks and of the AGI stay within that part.
\<close>

definition outside :: "int64 \<Rightarrow> superblock \<Rightarrow> u32 \<Rightarrow> int64 \<Rightarrow> nat \<Rightarrow> bool" where
  "outside partOff sb ag off n \<longleftrightarrow> sint off + int n \<le> int (group_base partOff sb ag + unat (sectSize sb)) \<or>
     int (group_base partOff sb ag + unat (agBlocks sb) * unat (blockSize sb)) \<le> sint off"

definition kept_outside :: "int64 \<Rightarrow> superblock \<Rightarrow> u32 \<Rightarrow> dev \<Rightarrow> dev \<Rightarrow> bool" where
  "kept_outside partOff sb ag d d' \<longleftrightarrow> (\<forall>off n xs. outside partOff sb ag off n \<longrightarrow> ReadAt d off n = Inr xs \<longrightarrow> ReadAt d' off n = Inr xs)"

lemma kept_outside_write:
  assumes "WriteAt d woff bs = Inr d'" and "int (group_base partOff sb ag + unat (sectSize sb)) \<le> sint woff"
    and "sint woff + int (length bs) \<le> int (group_base partOff sb ag + unat (agBlocks sb) * unat (blockSize sb))"
  shows "kept_outside partOff sb ag d d'"
  unfolding kept_outside_def
proof (intro allI impI)
  fix off n xs assume o: "outside partOff sb ag off n" and r: "ReadAt d off n = Inr xs"
  show "ReadAt d' off n = Inr xs"
    by (rule file_store.rd_wr_frame [OF assms(1) r]) (use o assms(2,3) in \<open>unfold outside_def, linarith\<close>)
qed

lemma block_within:
  assumes "rel < agBlocks sb"
  shows "unat rel * unat (blockSize sb) + unat (blockSize sb) \<le> unat (agBlocks sb) * unat (blockSize sb)"
  using mult_le_mono1 [of "Suc (unat rel)" "unat (agBlocks sb)" "unat (blockSize sb)"] assms by (simp add: word_less_nat_alt)

lemma agWrite_outside:
  assumes f: "group_fits partOff sb ag" "body_block sb rel" and len: "length blk = unat (blockSize sb)"
    and w: "agWrite partOff sb ag rel blk s = (Inr (), s\<lparr>disk := d'\<rparr>)"
  shows "kept_outside partOff sb ag (disk s) d'"
proof -
  have rel: "rel < agBlocks sb" "3 * unat (sectSize sb) \<le> unat rel * unat (blockSize sb)" using f(2) by (simp_all add: body_block_def)
  note pl = block_place(2) [OF f(1) rel(1)]
  have "disk (snd (agWrite partOff sb ag rel blk s)) = d'" "fst (agWrite partOff sb ag rel blk s) = Inr ()" using w by simp_all
  then have "writeRawBlock partOff sb (agAbsBlock sb ag rel) (stampBlock sb blk) (disk s) = (Inr (), d')"
    by (simp add: agWrite_def onDisk_def writeAGBTree_stamp prod_eq_iff split: prod.splits)
  from this [unfolded writeRawBlock_WriteAt] show ?thesis
  proof (rule kept_outside_write)
    show "int (group_base partOff sb ag + unat (sectSize sb)) \<le> sint (partOff + fsbToPhysBlock sb (agAbsBlock sb ag rel) * ucast (blockSize sb))"
      unfolding pl of_nat_le_iff using rel(2) by linarith
    show "sint (partOff + fsbToPhysBlock sb (agAbsBlock sb ag rel) * ucast (blockSize sb)) + int (length (stampBlock sb blk)) \<le>
        int (group_base partOff sb ag + unat (agBlocks sb) * unat (blockSize sb))"
      unfolding pl of_nat_add [symmetric] of_nat_le_iff using block_within [OF rel(1)] len by (simp add: stampBlock_def)
  qed
qed

lemma putAGI_outside:
  assumes f: "group_fits partOff sb ag" "body_block sb rel" and len: "length buf = unat (sectSize sb)"
    and w: "putAGI partOff sb ag buf s = (Inr (), s\<lparr>disk := d'\<rparr>)"
  shows "kept_outside partOff sb ag (disk s) d'"
proof -
  have sec: "sector_ok sb" using f(1) by (simp add: group_fits_def)
  note ho = header_offset(2) [OF f(1)]
  have "0 \<le> sint (agIByteOffset sb partOff ag)" unfolding ho by simp
  then obtain e where e: "writeHeader sb agiOffCRC (agIByteOffset sb partOff ag) buf (disk s) = (Inr (), e)"
    "WriteAt (disk s) (agIByteOffset sb partOff ag) (stampHeader sb agiOffCRC buf) = Inr e"
    by (rule writeHeader_Inr [OF sec len])
  have "disk (snd (putAGI partOff sb ag buf s)) = d'" using w by simp
  then have "e = d'" using e(1) by (simp add: putAGI_def onDisk_def writeAGI_def)
  have rel: "rel < agBlocks sb" "3 * unat (sectSize sb) \<le> unat rel * unat (blockSize sb)" using f(2) by (simp_all add: body_block_def)
  have le: "3 * unat (sectSize sb) \<le> unat (agBlocks sb) * unat (blockSize sb)" by (rule le_trans [OF rel(2) add_leD1 [OF block_within [OF rel(1)]]])
  show ?thesis
    by (rule kept_outside_write [OF e(2) [unfolded \<open>e = d'\<close>]])
      (unfold ho of_nat_add [symmetric] of_nat_le_iff length_stampHeader len, use le in \<open>linarith+\<close>)
qed

text \<open>Everything but the inode tree and the AGI of the group.\<close>

definition rest_kept :: "int64 \<Rightarrow> superblock \<Rightarrow> u32 \<Rightarrow> u32 \<Rightarrow> dev \<Rightarrow> dev \<Rightarrow> bool" where
  "rest_kept partOff sb ag inoRel d d' \<longleftrightarrow>
     (\<forall>agf. agfBlock d partOff sb ag = Inr agf \<longrightarrow> agfBlock d' partOff sb ag = Inr agf) \<and>
     (\<forall>c b. body_block sb c \<longrightarrow> c \<noteq> inoRel \<longrightarrow> readAGBlock d partOff sb ag c = Inr b \<longrightarrow> readAGBlock d' partOff sb ag c = Inr b) \<and>
     kept_outside partOff sb ag d d'"

lemma rest_kept_trans: "rest_kept p sb ag r d d1 \<Longrightarrow> rest_kept p sb ag r d1 d2 \<Longrightarrow> rest_kept p sb ag r d d2"
  by (simp add: rest_kept_def kept_outside_def)

lemma putAGI_Inr:
  assumes f: "group_fits partOff sb ag" and len: "length buf = unat (sectSize sb)" and mg: "be32 buf 0 = magicAGI"
  obtains d' where "putAGI partOff sb ag buf s = (Inr (), s\<lparr>disk := d'\<rparr>)"
    "agiBlock d' partOff sb ag = Inr (stampHeader sb agiOffCRC buf)"
    "\<forall>agf. agfBlock (disk s) partOff sb ag = Inr agf \<longrightarrow> agfBlock d' partOff sb ag = Inr agf"
    "\<forall>c old. body_block sb c \<longrightarrow> readAGBlock (disk s) partOff sb ag c = Inr old \<longrightarrow> readAGBlock d' partOff sb ag c = Inr old"
proof -
  note ho = header_offset [OF f]
  have sec: "sector_ok sb" using f by (simp add: group_fits_def)
  have "0 \<le> sint (agIByteOffset sb partOff ag)" unfolding ho by simp
  then obtain d' where w: "writeHeader sb agiOffCRC (agIByteOffset sb partOff ag) buf (disk s) = (Inr (), d')"
    "WriteAt (disk s) (agIByteOffset sb partOff ag) (stampHeader sb agiOffCRC buf) = Inr d'"
    by (rule writeHeader_Inr [OF sec len])
  have "putAGI partOff sb ag buf s = (Inr (), s\<lparr>disk := d'\<rparr>)"
    using w(1) by (simp add: putAGI_def onDisk_def writeAGI_def)
  moreover have "agiBlock d' partOff sb ag = Inr (stampHeader sb agiOffCRC buf)"
    unfolding agiBlock_def by (rule writeHeader_read [OF w(2) len _ sec mg]) (simp add: agiOffCRC_def)
  moreover have "agfBlock d' partOff sb ag = Inr agf" if "agfBlock (disk s) partOff sb ag = Inr agf" for agf
  proof -
    have r: "readBytes (disk s) (agFByteOffset sb partOff ag) (unat (sectSize sb)) = Inr agf" "4 \<le> length agf" "be32 agf 0 = magicAGF"
      using that by (simp_all add: agfBlock_def readHeader_Inr)
    have "ReadAt d' (agFByteOffset sb partOff ag) (unat (sectSize sb)) = Inr agf"
      by (rule file_store.rd_wr_frame [OF w(2) r(1) [unfolded readBytes_def]]) (simp add: ho)
    then show ?thesis using r by (simp add: agfBlock_def readHeader_Inr readBytes_def)
  qed
  moreover have "readAGBlock d' partOff sb ag c = Inr old"
    if c: "body_block sb c" and r: "readAGBlock (disk s) partOff sb ag c = Inr old" for c old
  proof -
    have cl: "c < agBlocks sb" using c by (simp add: body_block_def)
    note pl = block_place [OF f cl]
    have le: "group_base partOff sb ag + 2 * unat (sectSize sb) + length buf \<le> group_base partOff sb ag + unat c * unat (blockSize sb)"
      using c len by (simp add: body_block_def)
    have "ReadAt d' (partOff + fsbToPhysBlock sb (agAbsBlock sb ag c) * ucast (blockSize sb)) (unat (blockSize sb)) = Inr old"
    proof (rule file_store.rd_wr_frame [OF w(2)])
      show "ReadAt (disk s) (partOff + fsbToPhysBlock sb (agAbsBlock sb ag c) * ucast (blockSize sb)) (unat (blockSize sb)) = Inr old"
        using r by (simp add: readAGBlock_def readRawBlock_addressable [OF pl(1)])
    qed (unfold ho pl(2) length_stampHeader of_nat_add [symmetric] of_nat_le_iff, rule disjI2 [OF le])
    then show ?thesis by (simp add: readAGBlock_def readRawBlock_addressable [OF pl(1)])
  qed
  ultimately show ?thesis using that by blast
qed

lemma igrp_agi:
  assumes "igrp partOff sb ag inoRel d agi rs"
  shows "length agi = unat (sectSize sb)" "512 \<le> length agi" "be32 agi 0 = magicAGI"
    "readBytes d (agIByteOffset sb partOff ag) (unat (sectSize sb)) = Inr agi"
proof -
  have r: "agiBlock d partOff sb ag = Inr agi" and f: "group_fits partOff sb ag" using assms by (simp_all add: igrp_def)
  show l: "length agi = unat (sectSize sb)" "be32 agi 0 = magicAGI" "readBytes d (agIByteOffset sb partOff ag) (unat (sectSize sb)) = Inr agi"
    using r readBytes_length by (auto simp: agiBlock_def readHeader_Inr)
  show "512 \<le> length agi" unfolding l(1) using f by (intro sectSize_ge) (simp add: group_fits_def)
qed

lemma igrp_write_leaf:
  assumes g: "igrp partOff sb ag inoRel (disk s) agi rs" and l: "ileaf_ok sb blk rs'"
  obtains d' where "agWrite partOff sb ag inoRel blk s = (Inr (), s\<lparr>disk := d'\<rparr>)" "igrp partOff sb ag inoRel d' agi rs'"
    "rest_kept partOff sb ag inoRel (disk s) d'"
proof -
  have f: "group_fits partOff sb ag" "body_block sb inoRel" "inoRel < agBlocks sb" using g by (auto simp: igrp_def body_block_def)
  have len: "length blk = unat (blockSize sb)" using l by (simp add: ileaf_ok_def)
  obtain d' where w: "agWrite partOff sb ag inoRel blk s = (Inr (), s\<lparr>disk := d'\<rparr>)"
    "readAGBlock d' partOff sb ag inoRel = Inr (stampBlock sb blk)"
    "\<forall>c old. c < agBlocks sb \<longrightarrow> c \<noteq> inoRel \<longrightarrow> readAGBlock (disk s) partOff sb ag c = Inr old \<longrightarrow> readAGBlock d' partOff sb ag c = Inr old"
    "\<forall>off n xs. readBytes (disk s) off n = Inr xs \<longrightarrow>
       sint off + int n \<le> int (group_base partOff sb ag + unat inoRel * unat (blockSize sb)) \<longrightarrow> readBytes d' off n = Inr xs"
    by (rule agWrite_Inr [OF f(1,3) len, of s])
  note ho = header_offset [OF f(1)]
  have le: "3 * unat (sectSize sb) \<le> unat inoRel * unat (blockSize sb)" using f(2) by (simp add: body_block_def)
  have hdr: "readBytes d' off (unat (sectSize sb)) = Inr xs"
    if "readBytes (disk s) off (unat (sectSize sb)) = Inr xs" "sint off = int (group_base partOff sb ag + k * unat (sectSize sb))" "k \<le> 2" for off xs k
  proof (rule w(4) [rule_format, OF that(1)])
    have "k * unat (sectSize sb) \<le> 2 * unat (sectSize sb)" using that(3) by (rule mult_le_mono1)
    then show "sint off + int (unat (sectSize sb)) \<le> int (group_base partOff sb ag + unat inoRel * unat (blockSize sb))"
      unfolding that(2) of_nat_add [symmetric] of_nat_le_iff using le by linarith
  qed
  have "agiBlock d' partOff sb ag = Inr agi"
    using hdr [OF igrp_agi(4) [OF g], of 2] ho(2) igrp_agi(2,3) [OF g] by (simp add: agiBlock_def readHeader_Inr)
  moreover have "agfBlock d' partOff sb ag = Inr agf" if "agfBlock (disk s) partOff sb ag = Inr agf" for agf
    using that hdr [of "agFByteOffset sb partOff ag" agf 1] ho(1) by (simp add: agfBlock_def readHeader_Inr)
  ultimately show ?thesis
    using that [OF w(1)] w(2,3) g ileaf_ok_stamp [OF f(1) l] agWrite_outside [OF f(1,2) len w(1)] by (simp add: igrp_def rest_kept_def body_block_def)
qed

lemma igrp_put_agi:
  assumes g: "igrp partOff sb ag inoRel (disk s) agi rs" and e: "edits 28 36 agi agi'"
  obtains d' where "putAGI partOff sb ag agi' s = (Inr (), s\<lparr>disk := d'\<rparr>)" "igrp partOff sb ag inoRel d' (stampHeader sb agiOffCRC agi') rs"
    "rest_kept partOff sb ag inoRel (disk s) d'"
proof -
  have f: "group_fits partOff sb ag" "body_block sb inoRel" using g by (simp_all add: igrp_def)
  have b: "length agi' = unat (sectSize sb)" "be32 agi' 0 = magicAGI" "be32 agi' 20 = be32 agi 20"
    using igrp_agi [OF g] edits_length [OF e] edits_window [OF e] by (simp_all add: be32_def)
  obtain d' where w: "putAGI partOff sb ag agi' s = (Inr (), s\<lparr>disk := d'\<rparr>)"
    "agiBlock d' partOff sb ag = Inr (stampHeader sb agiOffCRC agi')"
    "\<forall>agf. agfBlock (disk s) partOff sb ag = Inr agf \<longrightarrow> agfBlock d' partOff sb ag = Inr agf"
    "\<forall>c old. body_block sb c \<longrightarrow> readAGBlock (disk s) partOff sb ag c = Inr old \<longrightarrow> readAGBlock d' partOff sb ag c = Inr old"
    by (rule putAGI_Inr [OF f(1) b(1,2), of s])
  have "be32 (stampHeader sb agiOffCRC agi') agiOffRoot = inoRel"
    using g b(3) by (simp add: be32_def window_stampHeader agiOffCRC_def agiOffRoot_def igrp_def)
  then show ?thesis using that [OF w(1)] w(2-4) g f(2) putAGI_outside [OF f b(1) w(1)] by (auto simp: igrp_def rest_kept_def)
qed

section \<open>One record changed\<close>

lemma irec_gets:
  assumes "group_fits partOff sb ag" and "ileaf_ok sb b (ys @ (st, fc, m) # zs)"
  defines "off \<equiv> agBTreeHdrSize sb + length ys * 16"
  shows "be32 b off = st" "be32 b (off + 4) = fc" "be64 b (off + 8) = m" "off + 16 \<le> length b"
proof -
  have "irecsOf b (agBTreeHdrSize sb) (length (ys @ (st, fc, m) # zs)) ! length ys = (st, fc, m)"
    using assms(2) by (simp add: ileaf_ok_def)
  then have "irecAt b off = (st, fc, m)" by (simp add: nth_irecsOf off_def)
  then show "be32 b off = st" "be32 b (off + 4) = fc" "be64 b (off + 8) = m" by (simp_all add: irecAt_def)
  show "off + 16 \<le> length b" using ileaf_ok_gets(5) [OF assms(1,2), of "length ys"] by (simp add: off_def)
qed

lemma put_irec_ok:
  assumes f: "group_fits partOff sb ag" and b: "ileaf_ok sb b (ys @ (st, fc, m) # zs)"
  defines "off \<equiv> agBTreeHdrSize sb + length ys * 16"
  shows "ileaf_ok sb (put32 (off + 4) c (put64 (off + 8) m' b)) (ys @ (st, c, m') # zs)"
proof -
  let ?b = "put32 (off + 4) c (put64 (off + 8) m' b)" and ?h = "agBTreeHdrSize sb"
  have e: "edits (off + 4) (off + 16) b ?b"
    by (rule edits_trans [OF edits_mono [OF edits_put(3)] edits_mono [OF edits_put(2)]]) simp_all
  have h: "16 \<le> off" using hdr_facts(1) [OF f] by (simp add: off_def)
  have "be16 ?b 4 = be16 b 4" "be32 ?b 12 = be32 b 12" "count_of ?b = count_of b"
    using edits_window [OF e] h by (simp_all add: be16_def be32_def count_of_def)
  moreover have "irecsOf ?b ?h (length (ys @ (st, fc, m) # zs)) = (ys @ (st, fc, m) # zs)[length ys := (st, c, m')]"
  proof -
    have r: "irecsOf b ?h (length (ys @ (st, fc, m) # zs)) = ys @ (st, fc, m) # zs" using b by (simp add: ileaf_ok_def)
    show ?thesis
      using irecsOf_put [of "length ys" "length (ys @ (st, fc, m) # zs)" ?h b off c m'] b irec_gets(1) [OF f b]
      unfolding r by (simp add: ileaf_ok_def off_def)
  qed
  ultimately show ?thesis using b by (simp add: ileaf_ok_def)
qed

lemma takeBit_ileaf:
  assumes f: "group_fits partOff sb ag" and b: "ileaf_ok sb b (ys @ (st, fc, m) # zs)" and m: "m \<noteq> 0"
  obtains b' where "takeBit (agBTreeHdrSize sb + length ys * inobtRecSize) b = Inr (b', st + of_nat (lowBit m 0 64))"
    "ileaf_ok sb b' (ys @ (st, fc - 1, m AND NOT (push_bit (lowBit m 0 64) 1)) # zs)"
proof -
  let ?off = "agBTreeHdrSize sb + length ys * 16" and ?m = "m AND NOT (push_bit (lowBit m 0 64) 1)"
  note g = irec_gets [OF f b]
  have "be32 (put64 (?off + 8) ?m b) (?off + 4) = fc" using g(2) by (simp add: be32_def window_put_frame)
  then have "takeBit (agBTreeHdrSize sb + length ys * inobtRecSize) b =
      Inr (put32 (?off + 4) (fc - 1) (put64 (?off + 8) ?m b), st + of_nat (lowBit m 0 64))"
    using g m by (simp add: takeBit_def inobtRecSize_def u32At_def u64At_def setU64_def setU32_def bits64_0 Let_def)
  then show ?thesis using put_irec_ok [OF f b] by (rule that)
qed

lemma giveBit_ileaf:
  assumes f: "group_fits partOff sb ag" and b: "ileaf_ok sb b (ys @ (st, fc, m) # zs)"
  obtains b' where "giveBit (agBTreeHdrSize sb + length ys * inobtRecSize) x b = Inr b'"
    "ileaf_ok sb b' (ys @ (st, fc + 1, m OR push_bit (unat (x - st)) 1) # zs)"
proof -
  let ?off = "agBTreeHdrSize sb + length ys * 16" and ?m = "m OR push_bit (unat (x - st)) 1"
  note g = irec_gets [OF f b]
  have "be32 (put64 (?off + 8) ?m b) (?off + 4) = fc" using g(2) by (simp add: be32_def window_put_frame)
  then have "giveBit (agBTreeHdrSize sb + length ys * inobtRecSize) x b = Inr (put32 (?off + 4) (fc + 1) (put64 (?off + 8) ?m b))"
    using g by (simp add: giveBit_def inobtRecSize_def u32At_def u64At_def setU64_def setU32_def)
  then show ?thesis using put_irec_ok [OF f b] by (rule that)
qed

section \<open>Chunks and free inodes\<close>

lemma free_inodes_split:
  "free_inodes (ys @ (st, fc, m) # zs) = free_inodes (ys @ zs) \<union> (\<lambda>b. unat st + b) ` {b. bit m b}"
  by (auto simp: free_inodes_def)

lemma chunk_alone:
  assumes "chunks_ok sb (ys @ (st, fc, m) # zs)" and "b < 64"
  shows "unat st + b \<notin> free_inodes (ys @ zs)"
proof
  assume "unat st + b \<in> free_inodes (ys @ zs)"
  then obtain r k where r: "r \<in> set (ys @ zs)" "bit (snd (snd r)) k" "unat st + b = unat (fst r) + k"
    unfolding free_inodes_def by fastforce
  have "k < 64" using bit_imp_le_length [OF r(2)] by simp
  then show False using r assms by (auto simp: chunks_ok_def sorted_wrt_append)
qed

lemma chunks_ok_update:
  assumes "chunks_ok sb (ys @ (st, fc, m) # zs)" and "fc' = of_nat (bits64 m')"
  shows "chunks_ok sb (ys @ (st, fc', m') # zs)"
  using assms by (auto simp: chunks_ok_def sorted_wrt_append)

lemma takeWhile_split:
  assumes "\<exists>x\<in>set xs. \<not> P x"
  obtains ys x zs where "xs = ys @ x # zs" "\<not> P x" "\<forall>y\<in>set ys. P y" "length (takeWhile P xs) = length ys"
proof -
  obtain ys x zs where s: "xs = ys @ x # zs" "\<not> P x" "\<forall>y\<in>set ys. P y" using split_list_first_prop [OF assms] by auto
  then have tw: "takeWhile P xs = ys" by (simp add: takeWhile_hit)
  show ?thesis by (rule that [OF s]) (simp only: tw)
qed

lemma alloc_inode:
  assumes g: "igrp partOff sb ag inoRel (disk s) agi rs" and ok: "chunks_ok sb rs" and ne: "free_inodes rs \<noteq> {}"
  shows "\<exists>i d' agi' rs'. allocInode af ff (Suc fuel) now partOff sb ag s = (Inr (inoFromAGRel sb ag i), s\<lparr>disk := d'\<rparr>) \<and>
    unat i \<in> free_inodes rs \<and> (\<forall>j\<in>free_inodes rs. unat i \<le> j) \<and>
    igrp partOff sb ag inoRel d' agi' rs' \<and> chunks_ok sb rs' \<and> free_inodes rs' = free_inodes rs - {unat i} \<and>
    be32 agi' 28 = be32 agi 28 - 1 \<and> be32 agi' 32 = i \<and> rest_kept partOff sb ag inoRel (disk s) d' \<and> map fst rs' = map fst rs"
proof -
  obtain b where f: "group_fits partOff sb ag" and b: "readAGBlock (disk s) partOff sb ag inoRel = Inr b" "ileaf_ok sb b rs"
    and ar: "agiBlock (disk s) partOff sb ag = Inr agi" "be32 agi agiOffRoot = inoRel" using g by (auto simp: igrp_def)
  have cnt: "fst (snd r) = 0 \<longleftrightarrow> snd (snd r) = 0" if "r \<in> set rs" for r
  proof -
    have "fst (snd r) = of_nat (bits64 (snd (snd r)))" using ok that by (auto simp: chunks_ok_def)
    then have "unat (fst (snd r)) = bits64 (snd (snd r))" using bits64_le [of "snd (snd r)"] by (simp add: unat_of_nat)
    then show ?thesis using bits64_0 [of "snd (snd r)"] by (metis unat_eq_zero)
  qed
  have "\<exists>r\<in>set rs. fst (snd r) \<noteq> 0" using ne cnt by (fastforce simp: free_inodes_def)
  then obtain ys r zs where rs: "rs = ys @ r # zs" "fst (snd r) \<noteq> 0" "length (takeWhile (\<lambda>r. fst (snd r) = 0) rs) = length ys"
    and full: "\<forall>y\<in>set ys. fst (snd y) = 0" using takeWhile_split [of rs "\<lambda>r. fst (snd r) = 0"] by blast
  obtain st fc m where r: "r = (st, fc, m)" by (cases r)
  have m: "m \<noteq> 0" using rs cnt [of r] r by simp
  let ?k = "lowBit m 0 64" and ?m = "m AND NOT (push_bit (lowBit m 0 64) 1)" and ?i = "st + of_nat (lowBit m 0 64)"
  note lb = low_bit [OF m]
  let ?rs = "ys @ (st, fc - 1, ?m) # zs"
  note gets = ileaf_ok_gets [OF f b(2)]
  have fnd: "inobtFindFree (Suc fuel) (disk s) partOff sb ag inoRel = Inr (inoRel, b, length ys)"
    using b gets freeRecPos_spec [of "agBTreeHdrSize sb" 0 "length rs" b] rs(1,3) by (simp add: ileaf_ok_def Let_def)
  obtain b' where t: "takeBit (agBTreeHdrSize sb + length ys * inobtRecSize) b = Inr (b', ?i)" "ileaf_ok sb b' ?rs"
    by (rule takeBit_ileaf [OF f b(2) [unfolded rs(1) r] m])
  obtain d1 where d1: "agWrite partOff sb ag inoRel b' s = (Inr (), s\<lparr>disk := d1\<rparr>)" "igrp partOff sb ag inoRel d1 agi ?rs"
    "rest_kept partOff sb ag inoRel (disk s) d1" by (rule igrp_write_leaf [OF g t(2)])
  let ?agi = "put32 32 ?i (put32 28 (be32 agi 28 - 1) agi)"
  have al: "512 \<le> length agi" by (rule igrp_agi(2) [OF g])
  have "edits 28 36 agi ?agi"
    by (rule edits_trans [OF edits_mono [OF edits_put(2)] edits_mono [OF edits_put(2)]]) simp_all
  then obtain d' where d': "putAGI partOff sb ag ?agi (s\<lparr>disk := d1\<rparr>) = (Inr (), s\<lparr>disk := d1\<rparr>\<lparr>disk := d'\<rparr>)"
    "igrp partOff sb ag inoRel d' (stampHeader sb agiOffCRC ?agi) ?rs" "rest_kept partOff sb ag inoRel d1 d'"
    using igrp_put_agi [of partOff sb ag inoRel "s\<lparr>disk := d1\<rparr>" agi ?rs ?agi] d1(2) by auto
  have "allocInode af ff (Suc fuel) now partOff sb ag s = (Inr (inoFromAGRel sb ag ?i), s\<lparr>disk := d'\<rparr>)"
    using ar fnd t(1) d1(1) d'(1) al
    by (simp add: allocInode_def bindIO_apply getAGI_def u32At_def setU32_def agi_offs Let_def del: inobtFindFree.simps)
  moreover have rng: "unat ?i = unat st + ?k"
  proof -
    have "unat st + 64 < 2 ^ 32" using ok rs(1) r by (auto simp: chunks_ok_def)
    then show ?thesis using lb(2) by (subst unat_add_lem [THEN iffD1]) (simp_all add: unat_of_nat)
  qed
  moreover have "unat ?i \<in> free_inodes rs" unfolding rs(1) r free_inodes_split rng using lb(1) by blast
  moreover have "\<forall>j\<in>free_inodes rs. unat ?i \<le> j"
  proof
    fix j assume "j \<in> free_inodes rs"
    then obtain x k where x: "x \<in> set rs" "bit (snd (snd x)) k" "j = unat (fst x) + k" unfolding free_inodes_def by fastforce
    have "x \<notin> set ys" using x(2) full cnt [of x] x(1) by (metis bit_0_eq bot_apply bot_bool_def)
    then consider "x = r" | "x \<in> set zs" using x(1) rs(1) by auto
    then show "unat ?i \<le> j"
    proof cases
      case 1
      then show ?thesis using x(2,3) lb(3) rng by (simp add: r)
    next
      case 2
      then have "unat st + 64 \<le> unat (fst x)" using ok rs(1) r by (auto simp: chunks_ok_def sorted_wrt_append)
      then show ?thesis using x(3) lb(2) rng by linarith
    qed
  qed
  moreover have "chunks_ok sb ?rs"
  proof (rule chunks_ok_update)
    show "chunks_ok sb (ys @ (st, fc, m) # zs)" using ok rs(1) r by simp
    have "fc = of_nat (bits64 m)" using ok rs(1) r by (auto simp: chunks_ok_def)
    moreover have "1 \<le> bits64 m" using bits64_0 [of m] m by simp
    ultimately show "fc - 1 = of_nat (bits64 ?m)" unfolding bits64_clear [OF lb(1)] by (simp add: of_nat_diff)
  qed
  moreover have "free_inodes ?rs = free_inodes rs - {unat ?i}"
    unfolding rs(1) r free_inodes_split rng bits_clear
    using chunk_alone [of sb ys st fc m zs, OF _ lb(2)] ok rs(1) r by auto
  moreover have "be32 (stampHeader sb agiOffCRC ?agi) 28 = be32 agi 28 - 1" "be32 (stampHeader sb agiOffCRC ?agi) 32 = ?i"
    using al by (simp_all add: be32_def window_stampHeader agiOffCRC_def window_put_frame put32_def window_patch_same)
  moreover have "map fst ?rs = map fst rs" by (simp add: rs(1) r)
  ultimately show ?thesis using d'(2) rest_kept_trans [OF d1(3) d'(3)] by blast
qed

text \<open>
  C9. \<^verbatim>\<open>allocInode\<close> in a group whose inode tree is one leaf with a free inode: the call returns an
  inode that was free, the lowest free one of the group; afterwards exactly it is no longer free, counts
  and masks still agree, \<^verbatim>\<open>agi_freecount\<close> has dropped by one, \<^verbatim>\<open>agi_newino\<close> names the inode,
  and neither the AGF nor any other block of the group nor anything outside the group has changed.
\<close>

theorem allocInode_single_leaf:
  assumes g: "igrp partOff sb ag inoRel (disk s) agi rs" and ok: "chunks_ok sb rs" and ne: "free_inodes rs \<noteq> {}"
  shows "\<exists>i d' agi' rs'. allocInode af ff (Suc fuel) now partOff sb ag s = (Inr (inoFromAGRel sb ag i), s\<lparr>disk := d'\<rparr>) \<and>
    unat i \<in> free_inodes rs \<and> (\<forall>j\<in>free_inodes rs. unat i \<le> j) \<and>
    igrp partOff sb ag inoRel d' agi' rs' \<and> chunks_ok sb rs' \<and> free_inodes rs' = free_inodes rs - {unat i} \<and>
    be32 agi' 28 = be32 agi 28 - 1 \<and> be32 agi' 32 = i \<and> rest_kept partOff sb ag inoRel (disk s) d' \<and> map fst rs' = map fst rs"
  using alloc_inode [OF assms] .

lemma ino_pack:
  assumes "inoShift sb \<le> 32" and "unat i < 2 ^ inoShift sb"
  shows "inoAG sb (inoFromAGRel sb ag i) = ag" "inoAGRel sb (inoFromAGRel sb ag i) = i"
  using pack_high [OF assms(2) disjI1 [OF assms(1)], of ag] pack_low [OF assms(2), of ag]
  by (simp_all add: inoAG_def inoAGRel_def inoFromAGRel_def low_mask)

lemma free_inode:
  assumes g: "igrp partOff sb ag inoRel (disk s) agi rs" and ok: "chunks_ok sb rs" and sh: "inoShift sb \<le> 32"
    and cov: "\<exists>r\<in>set rs. unat (fst r) \<le> unat i \<and> unat i < unat (fst r) + 64" and used: "unat i \<notin> free_inodes rs"
  shows "\<exists>d' agi' rs'. freeInode (Suc fuel) partOff sb (inoFromAGRel sb ag i) s = (Inr (), s\<lparr>disk := d'\<rparr>) \<and>
    igrp partOff sb ag inoRel d' agi' rs' \<and> chunks_ok sb rs' \<and> free_inodes rs' = insert (unat i) (free_inodes rs) \<and>
    be32 agi' 28 = be32 agi 28 + 1 \<and> be32 agi' 32 = be32 agi 32 \<and> rest_kept partOff sb ag inoRel (disk s) d'"
proof -
  obtain b where f: "group_fits partOff sb ag" and b: "readAGBlock (disk s) partOff sb ag inoRel = Inr b" "ileaf_ok sb b rs"
    and ar: "agiBlock (disk s) partOff sb ag = Inr agi" "be32 agi agiOffRoot = inoRel" using g by (auto simp: igrp_def)
  let ?P = "\<lambda>r :: irec. \<not> (fst r \<le> i \<and> i < fst r + 64)"
  have hit: "\<not> ?P r \<longleftrightarrow> unat (fst r) \<le> unat i \<and> unat i < unat (fst r) + 64" if "r \<in> set rs" for r
  proof -
    have "unat (fst r) + 64 < 2 ^ 32" using ok that by (auto simp: chunks_ok_def)
    then have "unat (fst r + 64) = unat (fst r) + 64" by (subst unat_add_lem [THEN iffD1]) simp_all
    then show ?thesis by (simp add: word_le_nat_alt word_less_nat_alt)
  qed
  have "\<exists>r\<in>set rs. \<not> ?P r" using cov hit by blast
  then obtain ys r zs where rs: "rs = ys @ r # zs" "\<not> ?P r" "length (takeWhile ?P rs) = length ys"
    using takeWhile_split [of rs ?P] by blast
  obtain st fc m where r: "r = (st, fc, m)" by (cases r)
  have rng: "unat st \<le> unat i" "unat i < unat st + 64" "unat st + 64 \<le> unat (agBlocks sb) * unat (inopBlock sb)" "fc = of_nat (bits64 m)"
    using hit [of r] rs(1,2) r ok by (auto simp: chunks_ok_def)
  have v: "validateGeometry sb = Inr ()" using f by (simp add: group_fits_def)
  have "unat (agBlocks sb) * unat (inopBlock sb) \<le> 2 ^ inoShift sb"
    using validated_geometry [OF v] by (simp add: inoShift_def power_add)
  then have "unat i < 2 ^ inoShift sb" using rng by linarith
  note pk = ino_pack [OF sh this]
  have k: "unat (i - st) = unat i - unat st" using rng(1) by (intro unat_sub) (simp add: word_le_nat_alt)
  let ?k = "unat i - unat st" and ?m = "m OR push_bit (unat (i - st)) 1"
  have k64: "?k < 64" using rng by linarith
  have nb: "\<not> bit m ?k"
  proof
    assume "bit m ?k"
    then have "unat st + ?k \<in> free_inodes rs" unfolding rs(1) r free_inodes_split by blast
    then show False using used rng(1) by simp
  qed
  let ?rs = "ys @ (st, fc + 1, ?m) # zs"
  note gets = ileaf_ok_gets [OF f b(2)]
  have fnd: "inobtFindRecord (Suc fuel) (disk s) partOff sb ag inoRel i = Inr (inoRel, b, length ys)"
    using b gets coverRecPos_spec [of "agBTreeHdrSize sb" 0 "length rs" b i] rs(1,3) by (simp add: ileaf_ok_def Let_def)
  obtain b' where t: "giveBit (agBTreeHdrSize sb + length ys * inobtRecSize) i b = Inr b'" "ileaf_ok sb b' ?rs"
    by (rule giveBit_ileaf [OF f b(2) [unfolded rs(1) r]])
  obtain d1 where d1: "agWrite partOff sb ag inoRel b' s = (Inr (), s\<lparr>disk := d1\<rparr>)" "igrp partOff sb ag inoRel d1 agi ?rs"
    "rest_kept partOff sb ag inoRel (disk s) d1" by (rule igrp_write_leaf [OF g t(2)])
  let ?agi = "put32 28 (be32 agi 28 + 1) agi"
  have al: "512 \<le> length agi" by (rule igrp_agi(2) [OF g])
  have "edits 28 36 agi ?agi" by (rule edits_mono [OF edits_put(2)]) simp_all
  then obtain d' where d': "putAGI partOff sb ag ?agi (s\<lparr>disk := d1\<rparr>) = (Inr (), s\<lparr>disk := d1\<rparr>\<lparr>disk := d'\<rparr>)"
    "igrp partOff sb ag inoRel d' (stampHeader sb agiOffCRC ?agi) ?rs" "rest_kept partOff sb ag inoRel d1 d'"
    using igrp_put_agi [of partOff sb ag inoRel "s\<lparr>disk := d1\<rparr>" agi ?rs ?agi] d1(2) by auto
  have "freeInode (Suc fuel) partOff sb (inoFromAGRel sb ag i) s = (Inr (), s\<lparr>disk := d'\<rparr>)"
    using ar fnd t(1) d1(1) d'(1) al
    by (simp add: freeInode_def bindIO_apply getAGI_def u32At_def setU32_def agi_offs Let_def pk del: inobtFindRecord.simps)
  moreover have "chunks_ok sb ?rs"
  proof (rule chunks_ok_update)
    show "chunks_ok sb (ys @ (st, fc, m) # zs)" using ok rs(1) r by simp
    show "fc + 1 = of_nat (bits64 ?m)" unfolding k bits64_set [OF k64 nb] using rng(4) by simp
  qed
  moreover have "free_inodes ?rs = insert (unat i) (free_inodes rs)"
    unfolding rs(1) r free_inodes_split k bits_set [OF k64] using rng(1) by auto
  moreover have "be32 (stampHeader sb agiOffCRC ?agi) 28 = be32 agi 28 + 1" "be32 (stampHeader sb agiOffCRC ?agi) 32 = be32 agi 32"
    using al by (simp_all add: be32_def window_stampHeader agiOffCRC_def window_put_frame put32_def window_patch_same)
  ultimately show ?thesis using d'(2) rest_kept_trans [OF d1(3) d'(3)] by blast
qed

text \<open>
  C10. \<^verbatim>\<open>freeInode\<close> in a group whose inode tree is one leaf, for an inode in use of one of its
  chunks: afterwards exactly it has become free, counts and masks still agree, \<^verbatim>\<open>agi_freecount\<close>
  has grown by one, and neither the AGF nor any other block of the group has changed. Together with
  the property of \<^verbatim>\<open>allocInode\<close> this means that freeing an inode undoes its allocation.
\<close>

theorem freeInode_single_leaf:
  assumes g: "igrp partOff sb ag inoRel (disk s) agi rs" and ok: "chunks_ok sb rs" and sh: "inoShift sb \<le> 32"
    and cov: "\<exists>r\<in>set rs. unat (fst r) \<le> unat i \<and> unat i < unat (fst r) + 64" and used: "unat i \<notin> free_inodes rs"
  shows "\<exists>d' agi' rs'. freeInode (Suc fuel) partOff sb (inoFromAGRel sb ag i) s = (Inr (), s\<lparr>disk := d'\<rparr>) \<and>
    igrp partOff sb ag inoRel d' agi' rs' \<and> chunks_ok sb rs' \<and> free_inodes rs' = insert (unat i) (free_inodes rs) \<and>
    be32 agi' 28 = be32 agi 28 + 1 \<and> be32 agi' 32 = be32 agi 32 \<and> rest_kept partOff sb ag inoRel (disk s) d'"
  by (rule free_inode [OF assms])

text \<open>
  The blocks of a new chunk come as a packed number, which \<^verbatim>\<open>growInobt\<close> multiplies with the block
  size as it is. In every group but the first of an image whose group size is no power of two the
  inodes are written away from the place where \<^verbatim>\<open>readInode\<close> will look for them.
\<close>

lemma growInobt_misplaces:
  "chunkSlotOff 0 sb_example (agAbsBlock sb_example 1 64) 0 = 8256 * 4096"
  "inodeByteOff sb_example 0 (inoFromAGRel sb_example 1 (64 * 8)) = 6464 * 4096"
  by code_simp+

section \<open>The small image\<close>

lemma small_inode_fields:
  "be32 (small_part 1024 512) 20 = 6" "be32 (small_part 3072 512) 12 = nullAgBlock" "be32 (small_part 3072 512) 16 = 64"
  "be32 (small_part 3072 512) 20 = 61"
  by (simp add: be32_small_part small_dev_def small_bytes_def be_word_def nullAgBlock_def, code_simp)+

lemma small_inode_counts: "be16 (small_part 3072 512) 4 = 0" "be16 (small_part 3072 512) 6 = 1"
  by (simp add: be16_small_part small_dev_def small_bytes_def be_word_def, code_simp)+

definition small_mask :: u64 where
  "small_mask = 0xFFFFFFFFFFFFFFF8"

lemma small_mask_bytes: "map (dbytes small_dev) [3096, 3097, 3098, 3099, 3100, 3101, 3102, 3103] = [255, 255, 255, 255, 255, 255, 255, 0xF8]"
  by (simp add: small_dev_def small_bytes_def)

lemma be64_small_part:
  "off + 8 \<le> n \<Longrightarrow> be64 (small_part a n) off = be_word (map (dbytes small_dev) (map (\<lambda>k. a + off + k) [0, 1, 2, 3, 4, 5, 6, 7]))"
proof -
  assume "off + 8 \<le> n"
  moreover have "[0..<8] = [0, 1, 2, 3, 4, 5, 6, 7 :: nat]" by code_simp
  moreover have "[a + off..<a + off + 8] = map (\<lambda>k. a + off + k) [0..<8]" by (rule nth_equalityI) simp_all
  ultimately show ?thesis unfolding be64_def by (subst window_small_part) (simp_all add: small_part_def)
qed

lemma small_mask_read: "be64 (small_part 3072 512) 24 = small_mask"
proof -
  have "map (\<lambda>k. 3072 + 24 + k) [0, 1, 2, 3, 4, 5, 6, 7 :: nat] = [3096, 3097, 3098, 3099, 3100, 3101, 3102, 3103]" by simp
  then have "be64 (small_part 3072 512) 24 = be_word [255, 255, 255, 255, 255, 255, 255, 0xF8]"
    using be64_small_part [of 24 512 3072] small_mask_bytes by (simp only:)
  also have "\<dots> = small_mask" unfolding small_mask_def by code_simp
  finally show ?thesis .
qed

lemma small_mask_bits: "bit small_mask b \<longleftrightarrow> 3 \<le> b \<and> b < 64"
proof -
  have m: "small_mask = NOT (mask 3)" by (simp add: small_mask_def mask_eq_exp_minus_1)
  show ?thesis unfolding m by (auto simp: bit_not_iff bit_mask_iff)
qed

lemma small_chunks: "chunks_ok sb_group [(64, 61, small_mask)]" "free_inodes [(64, 61, small_mask)] = {67..<128}"
proof -
  have "{b. bit small_mask b} = {3..<64}" by (auto simp: small_mask_bits)
  then have "bits64 small_mask = 61" "(\<lambda>b. 64 + b) ` {b. bit small_mask b} = {67..<128}" by (simp_all add: bits64_card)
  then show "chunks_ok sb_group [(64, 61, small_mask)]" "free_inodes [(64, 61, small_mask)] = {67..<128}"
    by (simp_all add: chunks_ok_def free_inodes_def)
qed

lemma small_igroup: "igrp 0 sb_group 0 6 (disk (freshAlloc small_dev)) (small_part 1024 512) [(64, 61, small_mask)]"
  using small_fits small_headers(2) small_block [of 6]
  by (simp add: igrp_def ileaf_ok_def body_block_def sectSize_def agi_offs freshAlloc_def small_inode_fields small_inode_counts count_of_def
      agBTreeHdrSize_def btreeHdrSize_def irecsOf_def irecAt_def small_mask_read)

theorem allocInode_single_leaf_witness:
  "\<exists>d' agi' rs'. allocInode (allocBlocks safeio_ref 9 0 sb_group) (freeBlocks safeio_ref 9 0 sb_group) 1 (\<lambda>_. (0, 0)) 0 sb_group 0 (freshAlloc small_dev)
       = (Inr (inoFromAGRel sb_group 0 67), (freshAlloc small_dev)\<lparr>disk := d'\<rparr>) \<and>
     igrp 0 sb_group 0 6 d' agi' rs' \<and> free_inodes rs' = {68..<128} \<and> be32 agi' 28 = 60"
proof -
  let ?al = "allocInode (allocBlocks safeio_ref 9 0 sb_group) (freeBlocks safeio_ref 9 0 sb_group) (Suc 0) (\<lambda>_. (0, 0)) 0 sb_group 0 (freshAlloc small_dev)"
  have ne: "free_inodes [(64, 61, small_mask)] \<noteq> {}" by (simp add: small_chunks)
  obtain i d' agi' rs' where a: "?al = (Inr (inoFromAGRel sb_group 0 i), (freshAlloc small_dev)\<lparr>disk := d'\<rparr>)"
    "unat i \<in> free_inodes [(64, 61, small_mask)]" "\<forall>j\<in>free_inodes [(64, 61, small_mask)]. unat i \<le> j"
    "igrp 0 sb_group 0 6 d' agi' rs'" "free_inodes rs' = free_inodes [(64, 61, small_mask)] - {unat i}" "be32 agi' 28 = be32 (small_part 1024 512) 28 - 1"
    using allocInode_single_leaf [OF small_igroup small_chunks(1) ne, where af = "allocBlocks safeio_ref 9 0 sb_group"
        and ff = "freeBlocks safeio_ref 9 0 sb_group" and fuel = 0 and now = "\<lambda>_. (0, 0)"] by auto
  have "unat i \<le> 67" by (rule a(3) [rule_format]) (simp add: small_chunks)
  then have "unat i = 67" using a(2) unfolding small_chunks(2) by simp
  then have "i = 67" by (simp add: word_unat_eq_iff)
  moreover have "{67..<128} - {67 :: nat} = {68..<128}" by auto
  ultimately show ?thesis using a small_chunks(2) small_counters(5) by auto
qed

theorem freeInode_single_leaf_witness:
  "\<exists>d' agi' rs'. freeInode 1 0 sb_group (inoFromAGRel sb_group 0 66) (freshAlloc small_dev) = (Inr (), (freshAlloc small_dev)\<lparr>disk := d'\<rparr>) \<and>
     igrp 0 sb_group 0 6 d' agi' rs' \<and> free_inodes rs' = {66..<128} \<and> be32 agi' 28 = 62"
proof -
  have "insert 66 {67..<128} = {66..<128 :: nat}" by auto
  then show ?thesis
    using freeInode_single_leaf [OF small_igroup small_chunks(1), of 66 0] small_chunks(2) small_counters(5)
    by (auto simp: inoShift_def)
qed

end
