(* ===== verification/Reflink.thy ===== *)
theory Reflink
  imports DirWrite Refcount InodeGroup
begin

text \<open>
  Shared extents on disk (reflink.go): the reference-count tree of a group, kept in a single root
  block, sharing and releasing an extent, the reflink flag of an inode, and
  \<^verbatim>\<open>reflinkBreakAndWrite\<close>, which replaces the content of a file that shares its blocks. The
  operations on record lists are those of \<^verbatim>\<open>Refcount\<close>. The superblock has passed
  \<^verbatim>\<open>validateGeometry\<close>, so every block has at least 512 bytes.
\<close>

section \<open>The reference-count tree\<close>

definition magicRefcnt :: u32 where "magicRefcnt = 0x52334643"
definition refcRecSize :: nat where "refcRecSize = 12"
definition refcStartMask :: u32 where "refcStartMask = 0x7FFFFFFF"

definition refcMaxRecs :: "superblock \<Rightarrow> nat" where
  "refcMaxRecs sb = (unat (blockSize sb) - btreeHdrSize (hasCRC sb)) div refcRecSize"

definition decRefc :: "bytes \<Rightarrow> refcRec" where
  "decRefc b = \<lparr>rcStart = be32 b 0 AND refcStartMask, rcCount = be32 b 4, rcRefcount = be32 b 8\<rparr>"

definition encRefc :: "refcRec \<Rightarrow> bytes" where
  "encRefc r = be_bytes 4 (rcStart r AND refcStartMask) @ be_bytes 4 (rcCount r) @ be_bytes 4 (rcRefcount r)"

definition parseRefc :: "superblock \<Rightarrow> bytes \<Rightarrow> refcRec list res" where
  "parseRefc sb blk =
     (if be32 blk 0 \<noteq> magicRefcnt then Inl ErrBadMagic
      else let hdr = btreeHdrSize (hasCRC sb); numrecs = unat (be16 blk 6) in
        if length blk < hdr + numrecs * refcRecSize then Inl ErrBtree
        else Inr (map (\<lambda>i. decRefc (drop (hdr + i * refcRecSize) blk)) [0..<numrecs]))"

definition refcountReadRecs :: "dev \<Rightarrow> int64 \<Rightarrow> superblock \<Rightarrow> u32 \<Rightarrow> refcRec list res" where
  "refcountReadRecs d partOff sb ag =
     bindR (agfBlock d partOff sb ag) (\<lambda>agf.
     bindR (u32At agf agfOffRefcntRoot) (\<lambda>root.
     bindR (u32At agf agfOffRefcntLevel) (\<lambda>level.
       if root = 0 \<or> level = 0 then Inr []
       else if level \<noteq> 1 then Inl ErrRefcountFull
       else bindR (readAGBlock d partOff sb ag root) (parseRefc sb))))"

definition refcLeaf :: "superblock \<Rightarrow> refcRec list \<Rightarrow> bytes \<Rightarrow> bytes" where
  "refcLeaf sb recs blk =
     (let hdr = btreeHdrSize (hasCRC sb);
          blk = put16 6 (of_nat (length recs)) (put16 4 0 blk)
      in patch hdr (concat (map encRefc recs)) (zero_range hdr (length blk - hdr) blk))"

definition refcountWriteRecs :: "int64 \<Rightarrow> superblock \<Rightarrow> u32 \<Rightarrow> refcRec list \<Rightarrow> unit aio" where
  "refcountWriteRecs partOff sb ag recs =
     (if refcMaxRecs sb < length recs then failIO ErrRefcountFull
      else bindIO (getAGF partOff sb ag) (\<lambda>agf.
        bindIO (liftIO (u32At agf agfOffRefcntRoot)) (\<lambda>root.
        bindIO (agRead partOff sb ag root) (\<lambda>blk. agWrite partOff sb ag root (refcLeaf sb recs blk)))))"

section \<open>Sharing and releasing an extent\<close>

definition refcountShareExtent :: "int64 \<Rightarrow> superblock \<Rightarrow> u64 \<Rightarrow> u32 \<Rightarrow> unit aio" where
  "refcountShareExtent partOff sb absBlock cnt =
     (case fsbToAgAgbno sb absBlock of (ag, agbno) \<Rightarrow>
        if unat (agBlocks sb) < unat agbno + unat cnt then failIO ErrCrossAG
        else bindIO (readIO (\<lambda>s. refcountReadRecs (disk s) partOff sb ag)) (\<lambda>recs.
          refcountWriteRecs partOff sb ag (refcIncrRange recs agbno cnt)))"

definition refcountFreeExtent :: "('g, 'v) safeio \<Rightarrow> nat \<Rightarrow> int64 \<Rightarrow> superblock \<Rightarrow> u64 \<Rightarrow> u32 \<Rightarrow> unit aio" where
  "refcountFreeExtent sio fuel partOff sb absBlock cnt =
     (case fsbToAgAgbno sb absBlock of (ag, agbno) \<Rightarrow>
        if unat (agBlocks sb) < unat agbno + unat cnt then failIO ErrCrossAG
        else bindIO (readIO (\<lambda>s. refcountReadRecs (disk s) partOff sb ag)) (\<lambda>recs.
          case refcDecrRange recs agbno cnt of (out, free) \<Rightarrow>
            bindIO (refcountWriteRecs partOff sb ag out) (\<lambda>_.
              forIO free (\<lambda>fr. freeBlocks sio fuel partOff sb (agAbsBlock sb ag (rcStart fr)) (rcCount fr)))))"

section \<open>The reflink flag\<close>

definition inodeIsReflinked :: "inode \<Rightarrow> bool" where
  "inodeIsReflinked inode \<longleftrightarrow> 3 \<le> byte_at (iRaw inode) 4 \<and> be64 (iRaw inode) 120 AND 2 \<noteq> 0"

definition setInodeReflinkFlag :: "inode \<Rightarrow> inode" where
  "setInodeReflinkFlag inode = inode\<lparr>iRaw := put64 120 (be64 (iRaw inode) 120 OR 2) (iRaw inode)\<rparr>"

definition clearReflinkFlag :: "inode \<Rightarrow> inode" where
  "clearReflinkFlag inode = inode\<lparr>iRaw := put64 120 (be64 (iRaw inode) 120 AND NOT 2) (iRaw inode)\<rparr>"

definition clearFork :: "inode \<Rightarrow> inode" where
  "clearFork inode = inode\<lparr>iRaw := zero_range 176 (length (dataFork inode)) (iRaw inode)\<rparr>"

definition resetFreedInodeFork :: "inode \<Rightarrow> inode" where
  "resetFreedInodeFork inode =
     (let inode = setInodeFormat (setInodeSize (setInodeNBlocks (setInodeNExtents inode 0) 0) 0) inodeFmtExtents;
          inode = clearReflinkFlag inode;
          inode = (if be64 (iRaw inode) 120 AND 0x10 \<noteq> 0 then inode\<lparr>iRaw := put64 24 0 (iRaw inode)\<rparr> else inode)
      in clearFork inode)"

section \<open>Replacing the content of a file that shares its blocks\<close>

definition sharedExtents :: "('g, 'v) safeio \<Rightarrow> dev \<Rightarrow> int64 \<Rightarrow> superblock \<Rightarrow> inode \<Rightarrow> extent list res" where
  "sharedExtents sio d partOff sb inode =
     (if iFormat inode = inodeFmtExtents then inlineExtents inode
      else if iFormat inode = inodeFmtBtree then returned (btreeExtents sio d partOff sb inode)
      else Inr [])"

definition privateRun :: "int64 \<Rightarrow> superblock \<Rightarrow> inode \<Rightarrow> u64 \<Rightarrow> u32 \<Rightarrow> bytes \<Rightarrow> inode aio" where
  "privateRun partOff sb inode absBlock nBlocks data =
     bindIO (liftIO (writeExtentList inode [\<lparr>eStartOff = 0, eStartBlock = absBlock, eCount = nBlocks, eUnwritten = False\<rparr>])) (\<lambda>inode.
     bindIO (putInode partOff sb (setInodeNExtents (setInodeNBlocks (setInodeSize inode (of_nat (length data))) (ucast nBlocks)) 1)) (\<lambda>inode.
     bindIO (onDisk (writeBlocksData partOff sb absBlock nBlocks data)) (\<lambda>_. retIO inode)))"

definition reflinkBreakAndWrite :: "('g, 'v) safeio \<Rightarrow> nat \<Rightarrow> int64 \<Rightarrow> superblock \<Rightarrow> inode \<Rightarrow> bytes \<Rightarrow> inode aio" where
  "reflinkBreakAndWrite sio fuel partOff sb inode data =
     bindIO (readIO (\<lambda>s. sharedExtents sio (disk s) partOff sb inode)) (\<lambda>oldExts.
     bindIO (forIO oldExts (\<lambda>e. refcountFreeExtent sio fuel partOff sb (eStartBlock e) (eCount e))) (\<lambda>_.
     let inode = setInodeFormat (clearFork (clearReflinkFlag inode)) inodeFmtExtents in
       if data = [] then putInode partOff sb (setInodeNExtents (setInodeNBlocks (setInodeSize inode 0) 0) 0)
       else let nBlocks = blocksFor sb data in
         bindIO (tryGroups sb (inoAG sb (iNum inode)) (\<lambda>a. allocBlocks sio fuel partOff sb a nBlocks)) (\<lambda>absBlock.
           privateRun partOff sb inode absBlock nBlocks data)))"

section \<open>The records are read as they were written\<close>

text \<open>Starts that leave the flag bit clear.\<close>

definition refc_storable :: "refcRec \<Rightarrow> bool" where
  "refc_storable r \<longleftrightarrow> unat (rcStart r) < 2 ^ 31"

lemma storable_mask: "refc_storable r \<Longrightarrow> rcStart r AND refcStartMask = rcStart r"
proof -
  assume "refc_storable r"
  then have "take_bit 31 (rcStart r) = rcStart r"
    by (intro word_unat_eq_iff [THEN iffD2]) (simp add: refc_storable_def unat_take_bit)
  moreover have "refcStartMask = mask 31" by (simp add: refcStartMask_def mask_eq_exp_minus_1)
  ultimately show ?thesis by (metis take_bit_eq_mask)
qed

interpretation refc_rec: record_codec encRefc decRefc 12 refc_storable
proof unfold_locales
  fix x rest assume "refc_storable x"
  then show "decRefc (encRefc x @ rest) = x"
    by (simp add: decRefc_def encRefc_def get_defs window_def storable_mask)
qed (simp_all add: encRefc_def)

lemma refcMaxRecs_room:
  assumes "512 \<le> unat (blockSize sb)" and "unat (blockSize sb) \<le> 65536" and "n \<le> refcMaxRecs sb"
  shows "btreeHdrSize (hasCRC sb) + n * 12 \<le> unat (blockSize sb)" "n < 65536"
proof -
  have "n * 12 \<le> unat (blockSize sb) - btreeHdrSize (hasCRC sb)"
    using assms(3) by (simp add: refcMaxRecs_def refcRecSize_def less_eq_div_iff_mult_less_eq)
  then show "btreeHdrSize (hasCRC sb) + n * 12 \<le> unat (blockSize sb)" "n < 65536"
    using assms(1,2) by (simp_all add: btreeHdrSize_def split: if_splits)
qed

lemma parse_refcLeaf:
  assumes "be32 blk 0 = magicRefcnt" and "length blk = unat (blockSize sb)" and "512 \<le> unat (blockSize sb)" "unat (blockSize sb) \<le> 65536"
    and "length recs \<le> refcMaxRecs sb" and "\<forall>r\<in>set recs. refc_storable r"
  shows "parseRefc sb (refcLeaf sb recs blk) = Inr recs" "length (refcLeaf sb recs blk) = length blk"
proof -
  let ?hdr = "btreeHdrSize (hasCRC sb)"
  let ?cs = "concat (map encRefc recs)"
  let ?b = "put16 6 (of_nat (length recs)) (put16 4 0 blk)"
  let ?z = "zero_range ?hdr (length ?b - ?hdr) ?b"
  note room = refcMaxRecs_room [OF assms(3-5)]
  have h: "16 \<le> ?hdr" by (simp add: btreeHdrSize_def)
  have l: "refcLeaf sb recs blk = patch ?hdr ?cs ?z" by (simp add: refcLeaf_def Let_def)
  show len: "length (refcLeaf sb recs blk) = length blk" unfolding l by simp
  have "be32 (refcLeaf sb recs blk) 0 = magicRefcnt" "be16 (refcLeaf sb recs blk) 6 = of_nat (length recs)"
    unfolding l zero_range_def using assms(1-3) h by (simp_all add: get_defs buf_simps) (simp add: put16_def buf_simps)
  moreover have "unat (of_nat (length recs) :: u16) = length recs" using room(2) by (simp add: unat_of_nat)
  moreover have "drop (?hdr + i * 12) (refcLeaf sb recs blk) = drop (i * 12) (?cs @ drop (length ?cs) (drop ?hdr ?z))" for i
    using room(1) assms(2) unfolding l
    by (subst patch_whole [symmetric]) (simp_all add: refc_rec.length_concat_enc drop_patch_at [symmetric] add.commute)
  moreover have "map (\<lambda>i. decRefc (drop (i * 12) (?cs @ drop (length ?cs) (drop ?hdr ?z)))) [0..<length recs] = recs"
    using refc_rec.dec_array [OF assms(6), of "[]"] by (simp del: drop_append)
  ultimately show "parseRefc sb (refcLeaf sb recs blk) = Inr recs"
    using room(1) assms(2) len by (simp add: parseRefc_def refcRecSize_def del: drop_append)
qed

lemma parse_stamp:
  assumes "parseRefc sb blk = Inr recs"
  shows "parseRefc sb (stampBlock sb blk) = Inr recs"
proof (cases "hasCRC sb")
  case True
  have e: "edits 52 56 blk (stampBlock sb blk)"
    using edits_updateCRC [of 52 blk] True by (simp add: stampBlock_def btreeCRCOff_def)
  have "be32 (stampBlock sb blk) 0 = be32 blk 0" "be16 (stampBlock sb blk) 6 = be16 blk 6"
    using edits_window [OF e] by (simp_all add: get_defs)
  moreover have "decRefc (drop (56 + i * 12) (stampBlock sb blk)) = decRefc (drop (56 + i * 12) blk)" for i
    using edits_window [OF e] by (simp add: decRefc_def get_defs window_drop)
  ultimately have "parseRefc sb (stampBlock sb blk) = parseRefc sb blk"
    unfolding parseRefc_def refcRecSize_def using True by (simp add: btreeHdrSize_def Let_def)
  then show ?thesis using assms by simp
qed (use assms in \<open>simp add: stampBlock_def\<close>)

section \<open>A group with a reference-count tree\<close>

definition refc_group :: "int64 \<Rightarrow> superblock \<Rightarrow> u32 \<Rightarrow> u32 \<Rightarrow> dev \<Rightarrow> refcRec list \<Rightarrow> bool" where
  "refc_group partOff sb ag root d recs \<longleftrightarrow> group_fits partOff sb ag \<and> body_block sb root \<and>
     (\<exists>agf. agfBlock d partOff sb ag = Inr agf \<and> be32 agf agfOffRefcntRoot = root \<and> be32 agf agfOffRefcntLevel = 1) \<and>
     (\<exists>blk. readAGBlock d partOff sb ag root = Inr blk \<and> parseRefc sb blk = Inr recs)"

lemma agf_long:
  assumes "group_fits partOff sb ag" and "agfBlock d partOff sb ag = Inr agf"
  shows "512 \<le> length agf"
  using assms readBytes_length sectSize_ge by (fastforce simp: group_fits_def agfBlock_def readHeader_Inr)

lemma refcountReadRecs_group:
  assumes "refc_group partOff sb ag root d recs"
  shows "refcountReadRecs d partOff sb ag = Inr recs"
proof -
  obtain agf blk where g: "group_fits partOff sb ag" "body_block sb root" "agfBlock d partOff sb ag = Inr agf"
    "be32 agf agfOffRefcntRoot = root" "be32 agf agfOffRefcntLevel = 1" "readAGBlock d partOff sb ag root = Inr blk" "parseRefc sb blk = Inr recs"
    using assms by (auto simp: refc_group_def)
  have "root \<noteq> 0" using g(1,2) sectSize_ge [of sb] by (auto simp: body_block_def group_fits_def)
  then show ?thesis using g agf_long [OF g(1,3)]
    by (simp add: refcountReadRecs_def u32At_def agfOffRefcntRoot_def agfOffRefcntLevel_def)
qed

text \<open>A tree block is written: the AGF, the AGI and all other blocks stay.\<close>

lemma agWrite_rest:
  assumes f: "group_fits partOff sb ag" "body_block sb rel" and len: "length blk = unat (blockSize sb)"
  obtains d' where "agWrite partOff sb ag rel blk s = (Inr (), s\<lparr>disk := d'\<rparr>)" "readAGBlock d' partOff sb ag rel = Inr (stampBlock sb blk)"
    "rest_kept partOff sb ag rel (disk s) d'"
    "\<forall>agi. agiBlock (disk s) partOff sb ag = Inr agi \<longrightarrow> agiBlock d' partOff sb ag = Inr agi"
proof -
  have fr: "rel < agBlocks sb" using f(2) by (simp add: body_block_def)
  obtain d' where w: "agWrite partOff sb ag rel blk s = (Inr (), s\<lparr>disk := d'\<rparr>)"
    "readAGBlock d' partOff sb ag rel = Inr (stampBlock sb blk)"
    "\<forall>c old. c < agBlocks sb \<longrightarrow> c \<noteq> rel \<longrightarrow> readAGBlock (disk s) partOff sb ag c = Inr old \<longrightarrow> readAGBlock d' partOff sb ag c = Inr old"
    "\<forall>off n xs. readBytes (disk s) off n = Inr xs \<longrightarrow>
       sint off + int n \<le> int (group_base partOff sb ag + unat rel * unat (blockSize sb)) \<longrightarrow> readBytes d' off n = Inr xs"
    by (rule agWrite_Inr [OF f(1) fr len, of s])
  note ho = header_offset [OF f(1)]
  have le: "3 * unat (sectSize sb) \<le> unat rel * unat (blockSize sb)" using f(2) by (simp add: body_block_def)
  have hdr: "readHeader d' sb off m = Inr xs"
    if "readHeader (disk s) sb off m = Inr xs" "sint off = int (group_base partOff sb ag + k * unat (sectSize sb))" "k \<le> 2" for off xs k m
  proof -
    have "k * unat (sectSize sb) \<le> 2 * unat (sectSize sb)" using that(3) by (rule mult_le_mono1)
    then have "sint off + int (unat (sectSize sb)) \<le> int (group_base partOff sb ag + unat rel * unat (blockSize sb))"
      unfolding that(2) of_nat_add [symmetric] of_nat_le_iff using le by linarith
    then show ?thesis using that(1) w(4) by (simp add: readHeader_Inr)
  qed
  show ?thesis
    by (rule that [OF w(1,2)])
      (use w(3) hdr [of "agFByteOffset sb partOff ag" _ _ 1] hdr [of "agIByteOffset sb partOff ag" _ _ 2] ho agWrite_outside [OF f len w(1)] in
        \<open>auto simp: rest_kept_def body_block_def agfBlock_def agiBlock_def\<close>)
qed

lemma refcountWriteRecs_group:
  assumes g: "refc_group partOff sb ag root (disk s) recs" and n: "length recs' \<le> refcMaxRecs sb" and st: "\<forall>r\<in>set recs'. refc_storable r"
  obtains d' where "refcountWriteRecs partOff sb ag recs' s = (Inr (), s\<lparr>disk := d'\<rparr>)" "refc_group partOff sb ag root d' recs'"
    "rest_kept partOff sb ag root (disk s) d'"
    "\<forall>agi. agiBlock (disk s) partOff sb ag = Inr agi \<longrightarrow> agiBlock d' partOff sb ag = Inr agi"
proof -
  obtain agf blk where f: "group_fits partOff sb ag" "body_block sb root" and a: "agfBlock (disk s) partOff sb ag = Inr agf"
    "be32 agf agfOffRefcntRoot = root" "be32 agf agfOffRefcntLevel = 1" and b: "readAGBlock (disk s) partOff sb ag root = Inr blk" "parseRefc sb blk = Inr recs"
    using g by (auto simp: refc_group_def)
  have fr: "root < agBlocks sb" using f(2) by (simp add: body_block_def)
  note hf = hdr_facts [OF f(1)]
  have len: "length blk = unat (blockSize sb)" by (rule readAGBlock_length [OF f(1) fr b(1)])
  have "be32 blk 0 = magicRefcnt" using b(2) by (simp add: parseRefc_def split: if_splits)
  note p = parse_refcLeaf [OF this len hf(4,5) n st]
  have len': "length (refcLeaf sb recs' blk) = unat (blockSize sb)" using p(2) len by simp
  obtain d' where w: "agWrite partOff sb ag root (refcLeaf sb recs' blk) s = (Inr (), s\<lparr>disk := d'\<rparr>)"
    "readAGBlock d' partOff sb ag root = Inr (stampBlock sb (refcLeaf sb recs' blk))" "rest_kept partOff sb ag root (disk s) d'"
    "\<forall>agi. agiBlock (disk s) partOff sb ag = Inr agi \<longrightarrow> agiBlock d' partOff sb ag = Inr agi"
    by (rule agWrite_rest [OF f len', of s])
  have "refcountWriteRecs partOff sb ag recs' s = (Inr (), s\<lparr>disk := d'\<rparr>)"
    using n a b(1) w(1) agf_long [OF f(1) a(1)]
    by (simp add: refcountWriteRecs_def getAGF_def agRead_def readIO_def u32At_def agfOffRefcntRoot_def liftIO_def bindIO_def)
  moreover have "refc_group partOff sb ag root d' recs'"
    using f a w(2,3) parse_stamp [OF p(1)] by (auto simp: refc_group_def rest_kept_def)
  ultimately show ?thesis using that w(3,4) by blast
qed

section \<open>Sharing refines the abstract counter on disk\<close>

text \<open>
  The records of a group lie inside it, and its blocks can be stored with the flag bit clear.
\<close>

definition refc_inside :: "superblock \<Rightarrow> refcRec list \<Rightarrow> bool" where
  "refc_inside sb recs \<longleftrightarrow> canonical recs \<and> (\<forall>r\<in>set recs. rec_end r \<le> unat (agBlocks sb)) \<and> unat (agBlocks sb) \<le> 2 ^ 31"

definition run_inside :: "superblock \<Rightarrow> u32 \<Rightarrow> u32 \<Rightarrow> bool" where
  "run_inside sb agbno n \<longleftrightarrow> n \<noteq> 0 \<and> unat agbno + unat n \<le> unat (agBlocks sb)"

lemma refc_inside_incr:
  assumes r: "refc_inside sb recs" and e: "run_inside sb s n" and cap: "\<forall>b. in_range s n b \<longrightarrow> owners recs b < 2 ^ 32 - 1"
  shows "range_ok s n" "refc_inside sb (refcIncrRange recs s n)" "\<forall>r\<in>set (refcIncrRange recs s n). refc_storable r"
    "owners (refcIncrRange recs s n) b = owners recs b + (if in_range s n b then 1 else 0)"
proof -
  let ?R = "refcIncrRange recs s n"
  show ok: "range_ok s n" using r e by (simp add: range_ok_def run_inside_def refc_inside_def)
  have inv: "refc_inv recs" using r by (simp add: refc_inside_def canonical_def)
  note inc = refcIncrRange_spec [OF inv ok, OF cap [rule_format]]
  show "owners ?R b = owners recs b + (if in_range s n b then 1 else 0)" by (rule inc(2)) assumption
  have covered: "b < unat (agBlocks sb)" if "0 < coverage ?R b" for b
  proof (cases "in_range s n b")
    case True
    then show ?thesis using e by (simp add: in_range_def run_inside_def)
  next
    case False
    have "owners ?R b \<noteq> 1" using that inv_coverage_owners(1) [OF inc(1), of b] by auto
    then have "coverage recs b \<noteq> 0" using inc(2) [of b] False inv_coverage_owners(1) [OF inv, of b] by simp
    then obtain x where x: "x \<in> set recs" "covers x b" by (auto simp: coverage_0)
    then have "rec_end x \<le> unat (agBlocks sb)" using r by (simp add: refc_inside_def)
    then show ?thesis using x(2) by (simp add: rec_end_def covers_def)
  qed
  have fits: "rec_fits x" if "x \<in> set ?R" for x using inc(1) that by (simp add: refc_inv_def)
  have inside: "rec_end x \<le> unat (agBlocks sb)" if x: "x \<in> set ?R" for x
  proof -
    have "0 < unat (rcCount x)" using fits [OF x] by (simp add: rec_fits_def unat_gt_0)
    then have "covers x (rec_end x - 1)" by (auto simp: covers_def rec_end_def)
    then have "0 < coverage ?R (rec_end x - 1)" using x coverage_0 by (metis gr0I)
    then have "rec_end x - 1 < unat (agBlocks sb)" by (rule covered)
    then show ?thesis by linarith
  qed
  show "refc_inside sb ?R" using inside r incr_canonical [OF inv ok] by (simp add: refc_inside_def)
  show "\<forall>x\<in>set ?R. refc_storable x"
  proof
    fix x assume x: "x \<in> set ?R"
    have "unat (rcStart x) < rec_end x" using fits [OF x] by (simp add: rec_end_def rec_fits_def unat_gt_0)
    then show "refc_storable x" using inside [OF x] r by (simp add: refc_storable_def refc_inside_def)
  qed
qed

lemma share_ready:
  assumes g: "refc_group partOff sb ag root d recs" and e: "run_inside sb s n"
  shows "fsbToAgAgbno sb (agAbsBlock sb ag s) = (ag, s)" "\<not> unat (agBlocks sb) < unat s + unat n"
proof -
  have "unat s < unat (agBlocks sb)" using e by (auto simp: run_inside_def unat_gt_0 [symmetric])
  then show "fsbToAgAgbno sb (agAbsBlock sb ag s) = (ag, s)"
    using g by (intro fsbToAgAgbno_pack) (simp_all add: refc_group_def group_fits_def word_less_nat_alt)
  show "\<not> unat (agBlocks sb) < unat s + unat n" using e by (simp add: run_inside_def)
qed

lemma share_extent:
  assumes g: "refc_group partOff sb ag root (disk st) recs" and r: "refc_inside sb recs" and e: "run_inside sb s n"
    and cap: "\<forall>b. in_range s n b \<longrightarrow> owners recs b < 2 ^ 32 - 1" and room: "length (refcIncrRange recs s n) \<le> refcMaxRecs sb"
  obtains d' where "refcountShareExtent partOff sb (agAbsBlock sb ag s) n st = (Inr (), st\<lparr>disk := d'\<rparr>)"
    "refc_group partOff sb ag root d' (refcIncrRange recs s n)" "rest_kept partOff sb ag root (disk st) d'"
    "\<forall>agi. agiBlock (disk st) partOff sb ag = Inr agi \<longrightarrow> agiBlock d' partOff sb ag = Inr agi"
proof -
  obtain d' where w: "refcountWriteRecs partOff sb ag (refcIncrRange recs s n) st = (Inr (), st\<lparr>disk := d'\<rparr>)"
    "refc_group partOff sb ag root d' (refcIncrRange recs s n)" "rest_kept partOff sb ag root (disk st) d'"
    "\<forall>agi. agiBlock (disk st) partOff sb ag = Inr agi \<longrightarrow> agiBlock d' partOff sb ag = Inr agi"
    by (rule refcountWriteRecs_group [OF g room refc_inside_incr(3) [OF r e cap]])
  have "refcountShareExtent partOff sb (agAbsBlock sb ag s) n st = (Inr (), st\<lparr>disk := d'\<rparr>)"
    using share_ready [OF g e] w(1) refcountReadRecs_group [OF g] by (simp add: refcountShareExtent_def readIO_def bindIO_def)
  then show ?thesis using that w(2-4) by blast
qed

text \<open>
  C18. \<^verbatim>\<open>refcountShareExtent\<close> on a group whose reference counts fit one block. If the new records
  fit as well, every block of the extent gains one owner on disk and no other block does, the
  records stay canonical and inside the group, and nothing else of the group is touched: not the
  headers, not the free-space and inode trees, not a data block. If they do not fit, the call fails
  with \<^verbatim>\<open>errRefcountFull\<close> and changes nothing.
\<close>

theorem refcountShareExtent_refines:
  assumes g: "refc_group partOff sb ag root (disk st) recs" and r: "refc_inside sb recs" and e: "run_inside sb s n"
    and cap: "\<forall>b. in_range s n b \<longrightarrow> owners recs b < 2 ^ 32 - 1"
  shows "if length (refcIncrRange recs s n) \<le> refcMaxRecs sb
    then \<exists>d' recs'. refcountShareExtent partOff sb (agAbsBlock sb ag s) n st = (Inr (), st\<lparr>disk := d'\<rparr>) \<and>
      refcountReadRecs d' partOff sb ag = Inr recs' \<and> refc_group partOff sb ag root d' recs' \<and> refc_inside sb recs' \<and>
      (\<forall>b. owners recs' b = owners recs b + (if in_range s n b then 1 else 0)) \<and>
      rest_kept partOff sb ag root (disk st) d' \<and> (\<forall>agi. agiBlock (disk st) partOff sb ag = Inr agi \<longrightarrow> agiBlock d' partOff sb ag = Inr agi)
    else refcountShareExtent partOff sb (agAbsBlock sb ag s) n st = (Inl ErrRefcountFull, st)"
proof (cases "length (refcIncrRange recs s n) \<le> refcMaxRecs sb")
  case True
  note inc = refc_inside_incr [OF r e cap]
  obtain d' where w: "refcountShareExtent partOff sb (agAbsBlock sb ag s) n st = (Inr (), st\<lparr>disk := d'\<rparr>)"
    "refc_group partOff sb ag root d' (refcIncrRange recs s n)" "rest_kept partOff sb ag root (disk st) d'"
    "\<forall>agi. agiBlock (disk st) partOff sb ag = Inr agi \<longrightarrow> agiBlock d' partOff sb ag = Inr agi"
    by (rule share_extent [OF g r e cap True])
  show ?thesis unfolding if_P [OF True]
    by (intro exI [of _ d'] exI [of _ "refcIncrRange recs s n"] conjI w refcountReadRecs_group [OF w(2)] inc allI)
next
  case False
  then show ?thesis using share_ready [OF g e] refcountReadRecs_group [OF g]
    by (simp add: refcountShareExtent_def refcountWriteRecs_def readIO_def failIO_def bindIO_def)
qed

text \<open>
  C19. Cloning an extent and giving the clone up again: \<^verbatim>\<open>refcountShareExtent\<close> followed by
  \<^verbatim>\<open>refcountFreeExtent\<close> on the same extent leaves exactly the reference counts there were, frees no
  block, and leaves the rest of the group untouched, so that the file that still owns the blocks
  keeps them.
\<close>

theorem share_then_free_restores:
  assumes g: "refc_group partOff sb ag root (disk st) recs" and r: "refc_inside sb recs" and e: "run_inside sb s n"
    and cap: "\<forall>b. in_range s n b \<longrightarrow> owners recs b < 2 ^ 32 - 1"
    and room: "length recs \<le> refcMaxRecs sb" "length (refcIncrRange recs s n) \<le> refcMaxRecs sb"
  shows "\<exists>d1 d2. refcountShareExtent partOff sb (agAbsBlock sb ag s) n st = (Inr (), st\<lparr>disk := d1\<rparr>) \<and>
    refcountFreeExtent sio fuel partOff sb (agAbsBlock sb ag s) n (st\<lparr>disk := d1\<rparr>) = (Inr (), st\<lparr>disk := d2\<rparr>) \<and>
    refcountReadRecs d2 partOff sb ag = Inr recs \<and> rest_kept partOff sb ag root (disk st) d2"
proof -
  obtain d1 where w: "refcountShareExtent partOff sb (agAbsBlock sb ag s) n st = (Inr (), st\<lparr>disk := d1\<rparr>)"
    "refc_group partOff sb ag root d1 (refcIncrRange recs s n)" "rest_kept partOff sb ag root (disk st) d1"
    by (rule share_extent [OF g r e cap room(2)])
  have can: "canonical recs" using r by (simp add: refc_inside_def)
  have dec: "refcDecrRange (refcIncrRange recs s n) s n = (recs, [])"
    by (rule refc_share_release_roundtrip [OF can refc_inside_incr(1) [OF r e cap] cap])
  have st: "\<forall>x\<in>set recs. refc_storable x"
  proof
    fix x assume x: "x \<in> set recs"
    then have "rec_fits x" "rec_end x \<le> 2 ^ 31" using r by (auto simp: refc_inside_def canonical_def refc_inv_def)
    then show "refc_storable x" by (simp add: refc_storable_def rec_end_def rec_fits_def unat_gt_0 [symmetric])
  qed
  have g1: "refc_group partOff sb ag root (disk (st\<lparr>disk := d1\<rparr>)) (refcIncrRange recs s n)" using w(2) by simp
  obtain d2 where w2: "refcountWriteRecs partOff sb ag recs (st\<lparr>disk := d1\<rparr>) = (Inr (), st\<lparr>disk := d2\<rparr>)"
    "refc_group partOff sb ag root d2 recs" "rest_kept partOff sb ag root d1 d2"
    by (rule refcountWriteRecs_group [OF g1 room(1) st]) simp
  have "refcountFreeExtent sio fuel partOff sb (agAbsBlock sb ag s) n (st\<lparr>disk := d1\<rparr>) = (Inr (), st\<lparr>disk := d2\<rparr>)"
    using share_ready [OF g e] w2(1) refcountReadRecs_group [OF w(2)] dec
    by (simp add: refcountFreeExtent_def readIO_def bindIO_def retIO_def)
  then show ?thesis
    using w(1) refcountReadRecs_group [OF w2(2)] rest_kept_trans [OF w(3) w2(3)] by blast
qed

section \<open>The small image\<close>

lemma small_refc_fields: "be32 (small_part 512 512) 88 = 7" "be32 (small_part 512 512) 92 = 1" "be32 (small_part 3584 512) 0 = magicRefcnt"
  by (simp add: be32_small_part small_dev_def small_bytes_def be_word_def magicRefcnt_def, code_simp)+

lemma small_refc_count: "be16 (small_part 3584 512) 6 = 0"
  by (simp add: be16_small_part small_dev_def small_bytes_def be_word_def, code_simp)

lemma small_refc: "refc_group 0 sb_group 0 7 (disk (freshAlloc small_dev)) []"
  using small_fits small_headers(1) small_block [of 7]
  by (simp add: refc_group_def body_block_def sectSize_def freshAlloc_def small_refc_fields small_refc_count parseRefc_def
    agfOffRefcntRoot_def agfOffRefcntLevel_def btreeHdrSize_def)

lemma small_refc_inside: "refc_inside sb_group []" "run_inside sb_group 20 4" "\<forall>b. in_range 20 4 b \<longrightarrow> owners [] b < 2 ^ 32 - 1"
  by (simp_all add: refc_inside_def canonical_def refc_inv_def run_inside_def owners_def)

lemma small_refc_room: "length (refcIncrRange [] 20 4) \<le> refcMaxRecs sb_group" "length [] \<le> refcMaxRecs sb_group"
proof -
  have "refcIncrRange [] 20 4 = [\<lparr>rcStart = 20, rcCount = 4, rcRefcount = 2\<rparr>]" by code_simp
  then show "length (refcIncrRange [] 20 4) \<le> refcMaxRecs sb_group" "length [] \<le> refcMaxRecs sb_group"
    by (simp_all add: refcMaxRecs_def btreeHdrSize_def refcRecSize_def)
qed

theorem refcountShareExtent_refines_witness:
  "\<exists>d' recs'. refcountShareExtent 0 sb_group (agAbsBlock sb_group 0 20) 4 (freshAlloc small_dev) = (Inr (), (freshAlloc small_dev)\<lparr>disk := d'\<rparr>) \<and>
     refcountReadRecs d' 0 sb_group 0 = Inr recs' \<and> owners recs' 22 = 2 \<and> owners recs' 24 = 1"
proof -
  obtain d' recs' where "refcountShareExtent 0 sb_group (agAbsBlock sb_group 0 20) 4 (freshAlloc small_dev) = (Inr (), (freshAlloc small_dev)\<lparr>disk := d'\<rparr>)"
    "refcountReadRecs d' 0 sb_group 0 = Inr recs'" "\<forall>b. owners recs' b = owners [] b + (if in_range 20 4 b then 1 else 0)"
    using refcountShareExtent_refines [OF small_refc small_refc_inside, unfolded if_P [OF small_refc_room(1)]] by blast
  moreover from this(3) have "owners recs' 22 = 2" "owners recs' 24 = 1" by (simp_all add: owners_def in_range_def)
  ultimately show ?thesis by blast
qed

theorem share_then_free_restores_witness:
  "\<exists>d1 d2. refcountShareExtent 0 sb_group (agAbsBlock sb_group 0 20) 4 (freshAlloc small_dev) = (Inr (), (freshAlloc small_dev)\<lparr>disk := d1\<rparr>) \<and>
     refcountFreeExtent safeio_ref 2 0 sb_group (agAbsBlock sb_group 0 20) 4 ((freshAlloc small_dev)\<lparr>disk := d1\<rparr>) = (Inr (), (freshAlloc small_dev)\<lparr>disk := d2\<rparr>) \<and>
     refcountReadRecs d2 0 sb_group 0 = Inr []"
  using share_then_free_restores [OF small_refc small_refc_inside small_refc_room(2,1), where sio = safeio_ref and fuel = 2] by blast

end
