(* ===== verification/FileOps.thy ===== *)
theory FileOps
  imports Reflink
begin

text \<open>
  The operations on files (write.go, mkdir.go, link.go, truncate.go, setattr.go and the handlers of
  reflink.go): whole handlers from path to disk. The clock is a parameter: \<open>clkNow\<close> is what the one
  reading of the handler itself gives, \<open>clkChunk a i\<close> what the reading for inode \<open>i\<close> of a chunk
  added in group \<open>a\<close> gives. A handler returns \<open>()\<close>; an inode that a step changes in memory is the
  result of that step.
\<close>

record clock =
  clkNow :: "u32 \<times> u32"
  clkChunk :: "u32 \<Rightarrow> nat \<Rightarrow> u32 \<times> u32"

section \<open>Common steps\<close>

definition isNotFound :: "error \<Rightarrow> bool" where
  "isNotFound e \<longleftrightarrow> e = ErrNotFound \<or> e = ErrNotExist"

definition lookupPath :: "('g, 'v) safeio \<Rightarrow> int64 \<Rightarrow> superblock \<Rightarrow> bytes \<Rightarrow> inode aio" where
  "lookupPath sio partOff sb p = readIO (\<lambda>s. pathLookup sio (disk s) partOff sb p)"

definition getInode :: "int64 \<Rightarrow> superblock \<Rightarrow> u64 \<Rightarrow> inode aio" where
  "getInode partOff sb ino = readIO (\<lambda>s. readInode (disk s) partOff sb ino)"

definition parentDir :: "('g, 'v) safeio \<Rightarrow> int64 \<Rightarrow> superblock \<Rightarrow> bytes \<Rightarrow> inode aio" where
  "parentDir sio partOff sb parentPath =
     bindIO (lookupPath sio partOff sb parentPath) (\<lambda>dirIn. if isDir dirIn then retIO dirIn else failIO ErrNotDir)"

text \<open>The check that a name is still free in a directory.\<close>

definition nameFree :: "('g, 'v) safeio \<Rightarrow> int64 \<Rightarrow> superblock \<Rightarrow> inode \<Rightarrow> bytes \<Rightarrow> unit aio" where
  "nameFree sio partOff sb dirIn name =
     (\<lambda>s. case lookupInDir sio (disk s) partOff sb dirIn name of
        Inr _ \<Rightarrow> (Inl ErrExists, s)
      | Inl e \<Rightarrow> if isNotFound e then (Inr (), s) else (Inl e, s))"

definition newIno :: "('g, 'v) safeio \<Rightarrow> nat \<Rightarrow> clock \<Rightarrow> int64 \<Rightarrow> superblock \<Rightarrow> u32 \<Rightarrow> u64 aio" where
  "newIno sio fuel clk partOff sb ag =
     tryGroups sb ag (\<lambda>a. allocInode (allocBlocks sio fuel partOff sb) (freeBlocks sio fuel partOff sb) fuel (clkChunk clk a) partOff sb a)"

definition newInode :: "superblock \<Rightarrow> clock \<Rightarrow> u64 \<Rightarrow> u16 \<Rightarrow> u32 \<Rightarrow> inode" where
  "newInode sb clk ino mode nlink =
     \<lparr>iNum = ino, iMode = mode, iFormat = 0, iSize = 0, iNBlocks = 0, iNExts = 0, iForkOff = 0,
      iRaw = initInodeV3 (replicate (unat (inodeSize sb)) 0) ino mode nlink (sbUuid sb) (clkNow clk)\<rparr>"

definition discardIO :: "'a aio \<Rightarrow> unit aio" where
  "discardIO m = bindIO m (\<lambda>_. retIO ())"

section \<open>Creating\<close>

definition extentsInode :: "inode \<Rightarrow> u64 \<Rightarrow> u32 \<Rightarrow> bytes \<Rightarrow> inode res" where
  "extentsInode inode absBlock nBlocks data =
     writeExtentList (setInodeNExtents (setInodeNBlocks (setInodeSize (setInodeFormat inode inodeFmtExtents) (of_nat (length data))) (ucast nBlocks)) 1)
       [\<lparr>eStartOff = 0, eStartBlock = absBlock, eCount = nBlocks, eUnwritten = False\<rparr>]"

definition createInodeWithData ::
  "('g, 'v) safeio \<Rightarrow> nat \<Rightarrow> clock \<Rightarrow> int64 \<Rightarrow> superblock \<Rightarrow> inode \<Rightarrow> bytes \<Rightarrow> bytes \<Rightarrow> u16 \<Rightarrow> byte \<Rightarrow> unit aio" where
  "createInodeWithData sio fuel clk partOff sb dirIn name data mode ftype =
     (let ag = inoAG sb (iNum dirIn) in
      bindIO (newIno sio fuel clk partOff sb ag) (\<lambda>ino.
      let nBlocks = blocksFor sb data; newIn = newInode sb clk ino mode 1 in
      bindIO (if data = [] then retIO (setInodeSize (setInodeFormat newIn inodeFmtLocal) 0)
        else bindIO (tryGroups sb ag (\<lambda>a. allocBlocks sio fuel partOff sb a nBlocks)) (\<lambda>absBlock.
             bindIO (liftIO (extentsInode newIn absBlock nBlocks data)) (\<lambda>newIn.
             bindIO (onDisk (writeBlocksData partOff sb absBlock nBlocks data)) (\<lambda>_. retIO newIn)))) (\<lambda>newIn.
      bindIO (putInode partOff sb newIn) (\<lambda>_.
        discardIO (addDirEntry sio fuel partOff sb dirIn ino name ftype)))))"

definition createFile ::
  "('g, 'v) safeio \<Rightarrow> nat \<Rightarrow> clock \<Rightarrow> int64 \<Rightarrow> superblock \<Rightarrow> inode \<Rightarrow> bytes \<Rightarrow> bytes \<Rightarrow> u32 \<Rightarrow> unit aio" where
  "createFile sio fuel clk partOff sb dirIn name data perm =
     createInodeWithData sio fuel clk partOff sb dirIn name data (ucast (perm AND 0x1FF) OR 0x8000) 1"

definition createSymlink ::
  "('g, 'v) safeio \<Rightarrow> nat \<Rightarrow> clock \<Rightarrow> int64 \<Rightarrow> superblock \<Rightarrow> inode \<Rightarrow> bytes \<Rightarrow> bytes \<Rightarrow> unit aio" where
  "createSymlink sio fuel clk partOff sb dirIn name target =
     createInodeWithData sio fuel clk partOff sb dirIn name target (0x1FF OR 0xA000) 7"

definition symlinkInode :: "('g, 'v) safeio \<Rightarrow> nat \<Rightarrow> clock \<Rightarrow> int64 \<Rightarrow> superblock \<Rightarrow> bytes \<Rightarrow> bytes \<Rightarrow> unit aio" where
  "symlinkInode sio fuel clk partOff sb target linkPath =
     (let (parentPath, name) = splitParent (pathClean linkPath) in
      if name = [] then failIO ErrInvalidPath
      else bindIO (parentDir sio partOff sb parentPath) (\<lambda>dirIn.
        bindIO (nameFree sio partOff sb dirIn name) (\<lambda>_. createSymlink sio fuel clk partOff sb dirIn name target)))"

section \<open>Writing a file\<close>

definition overwriteFile :: "('g, 'v) safeio \<Rightarrow> nat \<Rightarrow> int64 \<Rightarrow> superblock \<Rightarrow> u64 \<Rightarrow> bytes \<Rightarrow> unit aio" where
  "overwriteFile sio fuel partOff sb ino data =
     bindIO (getInode partOff sb ino) (\<lambda>inode.
       if \<not> isRegular inode then failIO ErrNotRegular
       else if inodeIsReflinked inode then discardIO (reflinkBreakAndWrite sio fuel partOff sb inode data)
       else discardIO (rewriteInode sio fuel partOff sb inode data))"

definition writeFile :: "('g, 'v) safeio \<Rightarrow> nat \<Rightarrow> clock \<Rightarrow> int64 \<Rightarrow> superblock \<Rightarrow> bytes \<Rightarrow> bytes \<Rightarrow> u32 \<Rightarrow> unit aio" where
  "writeFile sio fuel clk partOff sb p data perm =
     (let (parentPath, name) = splitParent (pathClean p) in
      if name = [] then failIO ErrInvalidPath
      else bindIO (parentDir sio partOff sb parentPath) (\<lambda>dirIn.
        (\<lambda>s. case lookupInDir sio (disk s) partOff sb dirIn name of
           Inr existIno \<Rightarrow>
             if existIno \<noteq> 0 then overwriteFile sio fuel partOff sb existIno data s
             else createFile sio fuel clk partOff sb dirIn name data perm s
         | Inl e \<Rightarrow>
             if isNotFound e then createFile sio fuel clk partOff sb dirIn name data perm s else (Inl e, s))))"

section \<open>Directories\<close>

definition setNLink :: "u32 \<Rightarrow> inode \<Rightarrow> inode" where
  "setNLink n inode = inode\<lparr>iRaw := put32 16 n (iRaw inode)\<rparr>"

definition emptyDirInode :: "superblock \<Rightarrow> clock \<Rightarrow> u64 \<Rightarrow> u16 \<Rightarrow> u64 \<Rightarrow> inode" where
  "emptyDirInode sb clk ino mode parentIno =
     (let newIn = (newInode sb clk ino mode 2)\<lparr>iFormat := inodeFmtLocal\<rparr>;
          newIn = newIn\<lparr>iRaw := put8 177 0 (put8 176 0 (iRaw newIn))\<rparr>;
          newIn = (if parentIno > 0xFFFFFFFF
                   then setInodeSize (newIn\<lparr>iRaw := put64 178 parentIno (iRaw newIn)\<rparr>) 10
                   else setInodeSize (newIn\<lparr>iRaw := put32 178 (ucast parentIno) (iRaw newIn)\<rparr>) 6)
      in setInodeFormat newIn inodeFmtLocal)"

definition makeDir :: "('g, 'v) safeio \<Rightarrow> nat \<Rightarrow> clock \<Rightarrow> int64 \<Rightarrow> superblock \<Rightarrow> bytes \<Rightarrow> u32 \<Rightarrow> unit aio" where
  "makeDir sio fuel clk partOff sb p perm =
     (let (parentPath, name) = splitParent (pathClean p) in
      if name = [] then failIO ErrInvalidPath
      else bindIO (parentDir sio partOff sb parentPath) (\<lambda>dirIn.
        bindIO (nameFree sio partOff sb dirIn name) (\<lambda>_.
        bindIO (newIno sio fuel clk partOff sb (inoAG sb (iNum dirIn))) (\<lambda>ino.
        bindIO (putInode partOff sb (emptyDirInode sb clk ino (ucast (perm AND 0x1FF) OR 0x4000) (iNum dirIn))) (\<lambda>_.
        bindIO (addDirEntry sio fuel partOff sb dirIn ino name 2) (\<lambda>dirIn.
          discardIO (putInode partOff sb (setNLink (be32 (iRaw dirIn) 16 + 1) dirIn))))))))"

section \<open>Links\<close>

definition bumpCTime :: "clock \<Rightarrow> inode \<Rightarrow> inode" where
  "bumpCTime clk inode = inode\<lparr>iRaw := stampLegacy 48 (clkNow clk) (iRaw inode)\<rparr>"

definition linkInode :: "('g, 'v) safeio \<Rightarrow> nat \<Rightarrow> clock \<Rightarrow> int64 \<Rightarrow> superblock \<Rightarrow> bytes \<Rightarrow> bytes \<Rightarrow> unit aio" where
  "linkInode sio fuel clk partOff sb oldPath newPath =
     bindIO (lookupPath sio partOff sb oldPath) (\<lambda>src.
       if isDir src then failIO ErrInvalidArg
       else let (parentPath, name) = splitParent (pathClean newPath) in
         if name = [] then failIO ErrInvalidPath
         else bindIO (parentDir sio partOff sb parentPath) (\<lambda>parentIn.
           bindIO (nameFree sio partOff sb parentIn name) (\<lambda>_.
           bindIO (putInode partOff sb (bumpCTime clk (setNLink (be32 (iRaw src) 16 + 1) src))) (\<lambda>src.
             discardIO (addDirEntry sio fuel partOff sb parentIn (iNum src) name (if isSymlink src then 7 else 1))))))"

section \<open>Cloning\<close>

definition reflinkCopyLocal ::
  "('g, 'v) safeio \<Rightarrow> nat \<Rightarrow> clock \<Rightarrow> int64 \<Rightarrow> superblock \<Rightarrow> inode \<Rightarrow> inode \<Rightarrow> bytes \<Rightarrow> unit aio" where
  "reflinkCopyLocal sio fuel clk partOff sb srcIn dirIn name =
     (if of_nat (length (dataFork srcIn)) < iSize srcIn then failIO ErrOutOfBounds
      else createFile sio fuel clk partOff sb dirIn name (take (unat (iSize srcIn)) (dataFork srcIn)) (ucast (iMode srcIn AND 0x1FF)))"

definition cloneInode :: "superblock \<Rightarrow> clock \<Rightarrow> u64 \<Rightarrow> inode \<Rightarrow> extent list \<Rightarrow> inode res" where
  "cloneInode sb clk dstIno srcIn exts =
     bindR (writeExtentList (setInodeNExtents (setInodeNBlocks (setInodeSize (setInodeFormat (newInode sb clk dstIno (iMode srcIn) 1)
       inodeFmtExtents) (iSize srcIn)) (iNBlocks srcIn)) (of_nat (length exts))) exts) (\<lambda>dstIn. Inr (setInodeReflinkFlag dstIn))"

definition shareExtents ::
  "('g, 'v) safeio \<Rightarrow> nat \<Rightarrow> clock \<Rightarrow> int64 \<Rightarrow> superblock \<Rightarrow> inode \<Rightarrow> inode \<Rightarrow> bytes \<Rightarrow> extent list \<Rightarrow> unit aio" where
  "shareExtents sio fuel clk partOff sb srcIn dirIn name exts =
     bindIO (newIno sio fuel clk partOff sb (inoAG sb (iNum dirIn))) (\<lambda>dstIno.
     bindIO (liftIO (cloneInode sb clk dstIno srcIn exts)) (\<lambda>dstIn.
     bindIO (putInode partOff sb dstIn) (\<lambda>_.
     bindIO (putInode partOff sb (setInodeReflinkFlag srcIn)) (\<lambda>_.
     bindIO (forIO exts (\<lambda>e. refcountShareExtent partOff sb (eStartBlock e) (eCount e))) (\<lambda>_.
       discardIO (addDirEntry sio fuel partOff sb dirIn dstIno name 1))))))"

definition reflinkFile :: "('g, 'v) safeio \<Rightarrow> nat \<Rightarrow> clock \<Rightarrow> int64 \<Rightarrow> superblock \<Rightarrow> bytes \<Rightarrow> bytes \<Rightarrow> unit aio" where
  "reflinkFile sio fuel clk partOff sb srcPath dstPath =
     (if \<not> hasReflink sb then failIO ErrNoReflink
      else bindIO (lookupPath sio partOff sb (pathClean srcPath)) (\<lambda>srcIn.
        if \<not> isRegular srcIn then failIO ErrNotRegular
        else let (parentPath, name) = splitParent (pathClean dstPath) in
          if name = [] then failIO ErrInvalidPath
          else bindIO (parentDir sio partOff sb parentPath) (\<lambda>dirIn.
            bindIO (nameFree sio partOff sb dirIn name) (\<lambda>_.
              if iFormat srcIn = inodeFmtExtents
              then bindIO (liftIO (inlineExtents srcIn)) (shareExtents sio fuel clk partOff sb srcIn dirIn name)
              else if iFormat srcIn = inodeFmtLocal then reflinkCopyLocal sio fuel clk partOff sb srcIn dirIn name
              else failIO ErrFormat))))"

section \<open>Truncating\<close>

definition bumpMTimeCTime :: "clock \<Rightarrow> inode \<Rightarrow> inode" where
  "bumpMTimeCTime clk inode = inode\<lparr>iRaw := stampLegacy 48 (clkNow clk) (stampLegacy 40 (clkNow clk) (iRaw inode))\<rparr>"

text \<open>The loop over the extents of a file that shrinks: what is kept, and how many blocks that is.\<close>

fun shrinkExtents ::
  "('g, 'v) safeio \<Rightarrow> nat \<Rightarrow> int64 \<Rightarrow> superblock \<Rightarrow> u64 \<Rightarrow> extent list \<Rightarrow> (extent list \<times> u64) aio" where
  "shrinkExtents sio fuel partOff sb newSize [] = retIO ([], 0)"
| "shrinkExtents sio fuel partOff sb newSize (e # es) =
     (let bs = ucast (blockSize sb) :: u64;
          extStart = eStartOff e * bs;
          extEnd = extStart + ucast (eCount e) * bs;
          rest = shrinkExtents sio fuel partOff sb newSize es;
          keep = (\<lambda>e. bindIO rest (\<lambda>(kept, totalBlocks). retIO (e # kept, ucast (eCount e) + totalBlocks)))
      in if extEnd \<le> newSize then keep e
         else if newSize \<le> extStart
           then bindIO (freeBlocks sio fuel partOff sb (eStartBlock e) (eCount e)) (\<lambda>_. rest)
         else let keepBlocks = ucast ((newSize - extStart + bs - 1) div bs) :: u32 in
           bindIO (if keepBlocks < eCount e
               then freeBlocks sio fuel partOff sb (eStartBlock e + ucast keepBlocks) (eCount e - keepBlocks) else retIO ()) (\<lambda>_.
             keep (e\<lparr>eCount := keepBlocks\<rparr>)))"

definition keptInode :: "inode \<Rightarrow> u64 \<Rightarrow> extent list \<Rightarrow> u64 \<Rightarrow> inode res" where
  "keptInode inode newSize kept totalBlocks =
     (let inode = setInodeNExtents (setInodeNBlocks (setInodeSize inode newSize) totalBlocks) (of_nat (length kept))
      in if kept = [] then Inr (setInodeFormat inode inodeFmtLocal) else writeExtentList inode kept)"

definition resizeInode :: "('g, 'v) safeio \<Rightarrow> nat \<Rightarrow> clock \<Rightarrow> int64 \<Rightarrow> superblock \<Rightarrow> inode \<Rightarrow> u64 \<Rightarrow> inode aio" where
  "resizeInode sio fuel clk partOff sb inode newSize =
     (if newSize = iSize inode then putInode partOff sb (bumpMTimeCTime clk inode)
      else if newSize > iSize inode \<or> iFormat inode = inodeFmtLocal
        then putInode partOff sb (bumpMTimeCTime clk (setInodeSize inode newSize))
      else if iFormat inode = inodeFmtExtents
        then bindIO (liftIO (inlineExtents inode)) (\<lambda>exts.
             bindIO (shrinkExtents sio fuel partOff sb newSize exts) (\<lambda>(kept, totalBlocks).
             bindIO (liftIO (keptInode inode newSize kept totalBlocks)) (\<lambda>inode. putInode partOff sb (bumpMTimeCTime clk inode))))
      else failIO ErrFormat)"

definition truncateInode :: "('g, 'v) safeio \<Rightarrow> nat \<Rightarrow> clock \<Rightarrow> int64 \<Rightarrow> superblock \<Rightarrow> bytes \<Rightarrow> u64 \<Rightarrow> unit aio" where
  "truncateInode sio fuel clk partOff sb p newSize =
     bindIO (lookupPath sio partOff sb p) (\<lambda>inode.
       if \<not> isRegular inode then failIO ErrNotRegular
       else discardIO (resizeInode sio fuel clk partOff sb inode newSize))"

section \<open>Attributes\<close>

definition writeXfsLegacyTimespec :: "nat \<Rightarrow> u32 \<times> u32 \<Rightarrow> inode \<Rightarrow> inode" where
  "writeXfsLegacyTimespec off t inode = inode\<lparr>iRaw := stampLegacy off t (iRaw inode)\<rparr>"

definition changeInode :: "('g, 'v) safeio \<Rightarrow> int64 \<Rightarrow> superblock \<Rightarrow> (inode \<Rightarrow> inode) \<Rightarrow> bytes \<Rightarrow> unit aio" where
  "changeInode sio partOff sb f p = bindIO (lookupPath sio partOff sb p) (\<lambda>inode. discardIO (putInode partOff sb (f inode)))"

definition setOwner :: "u32 \<Rightarrow> u32 \<Rightarrow> inode \<Rightarrow> inode" where
  "setOwner uid gid inode = inode\<lparr>iRaw := put32 12 gid (put32 8 uid (iRaw inode))\<rparr>"

definition setPerm :: "u32 \<Rightarrow> inode \<Rightarrow> inode" where
  "setPerm perm inode =
     (let newMode = (be16 (iRaw inode) 2 AND NOT 0xFFF) OR (ucast perm AND 0xFFF)
      in inode\<lparr>iRaw := put16 2 newMode (iRaw inode), iMode := newMode\<rparr>)"

definition chownInode :: "('g, 'v) safeio \<Rightarrow> clock \<Rightarrow> int64 \<Rightarrow> superblock \<Rightarrow> bytes \<Rightarrow> u32 \<Rightarrow> u32 \<Rightarrow> unit aio" where
  "chownInode sio clk partOff sb p uid gid = changeInode sio partOff sb (\<lambda>inode. bumpCTime clk (setOwner uid gid inode)) p"

definition chmodInode :: "('g, 'v) safeio \<Rightarrow> clock \<Rightarrow> int64 \<Rightarrow> superblock \<Rightarrow> bytes \<Rightarrow> u32 \<Rightarrow> unit aio" where
  "chmodInode sio clk partOff sb p perm = changeInode sio partOff sb (\<lambda>inode. bumpCTime clk (setPerm perm inode)) p"

definition chtimesInode ::
  "('g, 'v) safeio \<Rightarrow> clock \<Rightarrow> int64 \<Rightarrow> superblock \<Rightarrow> bytes \<Rightarrow> u32 \<times> u32 \<Rightarrow> u32 \<times> u32 \<Rightarrow> unit aio" where
  "chtimesInode sio clk partOff sb p atime mtime =
     changeInode sio partOff sb (\<lambda>inode. bumpCTime clk (writeXfsLegacyTimespec 40 mtime (writeXfsLegacyTimespec 32 atime inode))) p"

section \<open>A new inode\<close>

lemma fresh_ino:
  assumes "validateGeometry sb = Inr ()" and "chunks_ok sb rs" and "unat i \<in> free_inodes rs" and "inoShift sb \<le> 32" and "unat ag < unat (agCount sb)"
  shows "inoAG sb (inoFromAGRel sb ag i) = ag" "inoAGRel sb (inoFromAGRel sb ag i) = i" "ino_in_range sb (inoFromAGRel sb ag i)"
    "ino_block sb (inoFromAGRel sb ag i) = unat i div 2 ^ unat (inopBLog sb)"
proof -
  let ?ino = "inoFromAGRel sb ag i"
  note v = validated_geometry [OF assms(1)]
  have "unat i < unat (agBlocks sb) * unat (inopBlock sb)"
    using assms(2,3) bit_imp_le_length by (fastforce simp: chunks_ok_def free_inodes_def)
  then have lt: "unat i < unat (agBlocks sb) * 2 ^ unat (inopBLog sb)" using v by simp
  also have "\<dots> \<le> 2 ^ inoShift sb" unfolding inoShift_def power_add using v by (intro mult_le_mono1) simp
  finally have sh: "unat i < 2 ^ inoShift sb" .
  show "inoAG sb ?ino = ag" "inoAGRel sb ?ino = i" by (rule ino_pack [OF assms(4) sh])+
  have hi: "drop_bit (inoShift sb) ?ino = ucast ag" and lo: "take_bit (inoShift sb) ?ino = ucast i"
    unfolding inoFromAGRel_def by (rule pack_high [OF sh disjI1 [OF assms(4)]], rule pack_low [OF sh])
  have a: "unat ?ino div 2 ^ inoShift sb = unat ag" and m: "unat ?ino mod 2 ^ inoShift sb = unat i"
    using hi lo unat_drop_bit [of "inoShift sb" ?ino] unat_take_bit [of "inoShift sb" ?ino] by simp_all
  show b: "ino_block sb ?ino = unat i div 2 ^ unat (inopBLog sb)" by (simp add: ino_block_def m)
  show "ino_in_range sb ?ino"
    unfolding ino_in_range_def b ino_ag_def a using assms(5) lt by (simp add: less_mult_imp_div_less)
qed

lemma newInode_wf:
  fixes clk ino mode nlink
  assumes "176 \<le> unat (inodeSize sb)" and "length (sbUuid sb) = 16"
  defines "i \<equiv> (newInode sb clk ino mode nlink)\<lparr>iFormat := inodeFmtLocal\<rparr>"
  shows "inode_wf sb i" "\<not> inodeNrext64 (iRaw i)" "iNum i = ino" "iMode i = mode"
proof -
  note f = initInodeV3_fields [of "replicate (unat (inodeSize sb)) 0" "sbUuid sb" ino mode nlink "clkNow clk"]
  show "inode_wf sb i" "iNum i = ino" "iMode i = mode"
    using f assms(1,2) by (simp_all add: i_def newInode_def inode_wf_def)
  have z: "window o' n (replicate k (0 :: byte)) = replicate (min n (k - o')) 0" for o' n k by (simp add: window_def min_def)
  have "be_word (replicate 8 (0 :: byte)) = (0 :: u64)" by code_simp
  then show "\<not> inodeNrext64 (iRaw i)"
    using assms(1,2) by (simp add: i_def newInode_def initInodeV3_def Let_def stampLegacy_def field_frame buf_simps z)
qed

lemma extentsInode_spec:
  assumes "inode_wf sb inode" and "\<not> inodeNrext64 (iRaw inode)" and "192 \<le> unat (inodeSize sb)" and "unat b < 2 ^ 52" and "unat n < 2 ^ 21"
  obtains i1 where "extentsInode (inode\<lparr>iFormat := f\<rparr>) b n data = Inr i1" "inode_wf sb i1" "iNum i1 = iNum inode" "iMode i1 = iMode inode"
    "iFormat i1 = inodeFmtExtents" "iSize i1 = of_nat (length data)" "iNBlocks i1 = ucast n"
    "inlineExtents i1 = Inr [\<lparr>eStartOff = 0, eStartBlock = b, eCount = n, eUnwritten = False\<rparr>]"
proof -
  let ?e = "\<lparr>eStartOff = 0, eStartBlock = b, eCount = n, eUnwritten = False\<rparr>"
  let ?i1 = "setInodeNBlocks (setInodeSize (setInodeFormat inode inodeFmtExtents) (of_nat (length data))) (ucast n)"
  let ?i2 = "setInodeNExtents ?i1 1"
  have len: "length (iRaw inode) = unat (inodeSize sb)" "176 \<le> length (iRaw inode)" using assms(1,3) by (simp_all add: inode_wf_def)
  have "\<not> inodeNrext64 (iRaw ?i1)"
    using assms(2) len(2) by (simp add: setInodeFormat_def inodeNrext64_frame)
  then have wf: "inode_wf sb ?i2" using inode_wf_setters assms(1) by blast
  have eq: "extentsInode (inode\<lparr>iFormat := f\<rparr>) b n data = writeExtentList ?i2 [?e]"
    by (simp add: extentsInode_def setInodeFormat_def)
  have "\<not> length (dataFork inode) < 16" using len assms(3) by (simp add: dataFork_def)
  then obtain i1 where i1: "writeExtentList ?i2 [?e] = Inr i1" by (simp add: writeExtentList_def)
  have "inlineExtents i1 = Inr [?e]" "i1 = ?i2\<lparr>iRaw := patch 176 (concat (map encodeExtent [?e])) (iRaw ?i2)\<rparr>"
    using writeExtentList_inline [OF i1] len(2) assms(4,5) by (simp_all add: extent_ok_def validateExtents_def)
  moreover from this(2) have "inode_wf sb i1" using inode_wf_fork [OF wf, of 176] by simp
  ultimately show ?thesis using that [OF eq [unfolded i1]] by simp
qed

section \<open>A new entry\<close>

text \<open>A short-form directory with room for one more entry of that name.\<close>

definition sf_room :: "superblock \<Rightarrow> inode \<Rightarrow> bytes \<Rightarrow> bool" where
  "sf_room sb inode name \<longleftrightarrow>
     (let fork = dataFork inode; ft = hasFType sb;
          need = sfEnd fork ft False (unat (byte_at fork 0)) 6 + 7 + length name + (if ft then 1 else 0)
      in sf_wf fork ft \<and> unat (byte_at fork 0) < 255 \<and> length name < 256 \<and> need \<le> length fork \<and>
         need \<le> (if iForkOff inode \<noteq> 0 then unat (iForkOff inode) * 8 else unat (inodeSize sb) - 176))"

lemma sf_room_adds:
  assumes "sf_room sb inode name" and "ino \<le> 0xFFFFFFFF"
  shows "\<exists>inode'. addEntryToSFDir inode ino name ftype sb = Inr inode'"
proof -
  let ?fork = "dataFork inode" and ?ft = "hasFType sb"
  have w: "sf_wf ?fork ?ft" using assms(1) by (simp add: sf_room_def Let_def)
  obtain d where size: "sfSizeLoop ?fork ?ft False (unat (byte_at ?fork 0)) 6
      (dirDataHdrSize (hasCRC sb) + dir2DataEntSize 1 ?ft + dir2DataEntSize 2 ?ft) = Some (sfEnd ?fork ?ft False (unat (byte_at ?fork 0)) 6, d)"
    using sfSizeLoop_end [OF sf_wf_read(2) [OF w]] by blast
  have i8: "byte_at ?fork 1 = 0" "6 \<le> length ?fork" using w by (simp_all add: sf_wf_def)
  show ?thesis
    using assms size i8 unfolding addEntryToSFDir_def sf_room_def
    by (auto simp: Let_def sfParentSize_def not_less)
qed

lemma sf_add_wf:
  assumes "inode_wf sb inode" and "addEntryToSFDir inode ino name ftype sb = Inr inode'"
  shows "inode_wf sb inode'" "iNum inode' = iNum inode" "iFormat inode' = iFormat inode" "iMode inode' = iMode inode"
proof -
  have len: "176 \<le> length (iRaw inode)" using assms(1) by (simp add: inode_wf_def)
  obtain f v where f: "inode' = setInodeSize (inode\<lparr>iRaw := take 176 (iRaw inode) @ f\<rparr>) v" "length f = length (dataFork inode)"
    using assms(2) unfolding addEntryToSFDir_def by (auto simp: Let_def split: if_splits option.splits)
  have "take 176 (iRaw inode) @ f = patch 176 f (iRaw inode)"
    using f(2) len by (simp add: patch_def dataFork_def)
  then show "inode_wf sb inode'" "iNum inode' = iNum inode" "iFormat inode' = iFormat inode" "iMode inode' = iMode inode"
    using inode_wf_setters(1) [OF inode_wf_fork [OF assms(1), of 176 f]] f(1) by simp_all
qed

section \<open>Creating a file\<close>

lemma one_run_reads:
  assumes "makes_bytes sio" and "within_limits sb (length data)" and "good_run partOff sb ino b n (length data)"
    and "iFormat i1 = inodeFmtExtents" "iSize i1 = of_nat (length data)" "iNBlocks i1 = ucast n"
      "inlineExtents i1 = Inr [\<lparr>eStartOff = 0, eStartBlock = b, eCount = n, eUnwritten = False\<rparr>]"
    and "ReadAt d (partOff + fsbToPhysBlock sb b * ucast (blockSize sb)) (unat n * unat (blockSize sb)) =
      Inr (data @ replicate (unat n * unat (blockSize sb) - length data) 0)"
  shows "readFileData sio d partOff sb (stampInode sb i1) = Some (Inr data)"
proof -
  let ?i2 = "stampInode sb i1"
  have run: "run_addressable partOff sb b (unat n)" "length data \<le> unat n * unat (blockSize sb)" "unat n < 2 ^ 21"
    using assms(3) by (simp_all add: good_run_def)
  have "int (length data) \<le> sint (fileCeiling sb ?i2)"
    using fileCeiling_within [OF assms(2), of ?i2 n] assms(6) run by simp
  then have "readExtents sio d partOff sb [\<lparr>eStartOff = 0, eStartBlock = b, eCount = n, eUnwritten = False\<rparr>]
      (of_nat (length data)) ?i2 = Inr data"
    using readExtents_one [OF assms(1) _ run(2,1)] assms(8) by blast
  moreover have "inlineExtents ?i2 = inlineExtents i1" by (simp add: inlineExtents_def)
  ultimately show ?thesis using assms(4,5,7) by (simp add: readFileData_def inodeFmtExtents_def inodeFmtLocal_def)
qed

lemma group_ok_rest:
  assumes "group_ok partOff sb ag bnoRel cntRel d agf bs cs" and "rest_kept partOff sb ag rel d d'" and "rel \<noteq> bnoRel" "rel \<noteq> cntRel"
  shows "group_ok partOff sb ag bnoRel cntRel d' agf bs cs"
  using assms by (fastforce simp: group_ok_def grp_def rest_kept_def)

text \<open>
  A directory inode of a group from which files can be created: the inode can be written, its own
  block and those of the free inodes are not marked free, and its inode is not itself free.
\<close>

definition dir_in_use :: "int64 \<Rightarrow> superblock \<Rightarrow> inode \<Rightarrow> arec list \<Rightarrow> irec list \<Rightarrow> bool" where
  "dir_in_use partOff sb dirIn bs rs \<longleftrightarrow> writable partOff sb dirIn \<and> ino_block sb (iNum dirIn) \<notin> free_set bs \<and>
     (\<forall>i\<in>free_inodes rs. i div 2 ^ unat (inopBLog sb) \<notin> free_set bs) \<and> unat (inoAGRel sb (iNum dirIn)) \<notin> free_inodes rs"

lemma new_inode_number:
  assumes ig: "igrp partOff sb ag inoRel (disk s) agi rs" and ch: "chunks_ok sb rs" "free_inodes rs \<noteq> {}"
    and sh: "inoShift sb \<le> 32" "unat ag < unat (agCount sb)" and use: "dir_in_use partOff sb dirIn bs rs"
  obtains i d1 where "newIno sio (Suc fuel) clk partOff sb ag s = (Inr (inoFromAGRel sb ag i), s\<lparr>disk := d1\<rparr>)"
    "rest_kept partOff sb ag inoRel (disk s) d1" "inoAG sb (inoFromAGRel sb ag i) = ag" "ino_in_range sb (inoFromAGRel sb ag i)"
    "ino_block sb (inoFromAGRel sb ag i) \<notin> free_set bs" "inoFromAGRel sb ag i \<noteq> iNum dirIn" "unat i \<in> free_inodes rs" "inoAGRel sb (inoFromAGRel sb ag i) = i"
    "\<exists>agi' rs'. igrp partOff sb ag inoRel d1 agi' rs' \<and> chunks_ok sb rs' \<and> free_inodes rs' = free_inodes rs - {unat i} \<and> map fst rs' = map fst rs"
proof -
  have v: "validateGeometry sb = Inr ()" using ig by (simp add: igrp_def group_fits_def)
  obtain i d1 where i: "allocInode (allocBlocks sio (Suc fuel) partOff sb) (freeBlocks sio (Suc fuel) partOff sb) (Suc fuel) (clkChunk clk ag) partOff sb ag s
      = (Inr (inoFromAGRel sb ag i), s\<lparr>disk := d1\<rparr>)" "unat i \<in> free_inodes rs" "rest_kept partOff sb ag inoRel (disk s) d1" "\<exists>agi' rs'. igrp partOff sb ag inoRel d1 agi' rs' \<and> chunks_ok sb rs' \<and> free_inodes rs' = free_inodes rs - {unat i} \<and> map fst rs' = map fst rs"
    using alloc_inode [OF ig ch, where fuel = fuel and now = "clkChunk clk ag"] by blast
  note f = fresh_ino [OF v ch(1) i(2) sh]
  have "ino_block sb (inoFromAGRel sb ag i) \<notin> free_set bs" "inoFromAGRel sb ag i \<noteq> iNum dirIn"
    using use i(2) f(2,4) by (auto simp: dir_in_use_def)
  moreover have "newIno sio (Suc fuel) clk partOff sb ag s = (Inr (inoFromAGRel sb ag i), s\<lparr>disk := d1\<rparr>)"
    using i(1) by (simp add: newIno_def tryGroups_def)
  ultimately show ?thesis using that i(2,3,4) f(1,2,3) by blast
qed

lemma new_small:
  assumes "(unat ag + 1) * 2 ^ inoShift sb \<le> 2 ^ 32" and "inoAG sb ino = ag" and "ino_in_range sb ino"
  shows "ino \<le> 0xFFFFFFFF" "(unat ag + 1) * 2 ^ unat (agBlkLog sb) \<le> 2 ^ 52"
proof -
  have "ino_ag sb ino < 2 ^ 32" using assms(3) unat_lt(3) [of "agCount sb"] by (simp add: ino_in_range_def)
  then have "ino_ag sb ino = unat ag" using assms(2) unfolding inoAG_def ino_ag_def
    by (auto simp: unsigned_ucast_eq take_bit_nat_eq_self unat_drop_bit)
  then have "unat ino < (unat ag + 1) * 2 ^ inoShift sb"
    unfolding ino_ag_def by (metis Suc_eq_plus1 add.commute dividend_less_div_times mult.commute mult_Suc zero_less_power zero_less_numeral)
  then show "ino \<le> 0xFFFFFFFF" using assms(1) by (simp add: word_le_nat_alt)
  have "(2 :: nat) ^ unat (agBlkLog sb) \<le> 2 ^ inoShift sb" by (intro power_increasing) (simp_all add: inoShift_def)
  then have "(unat ag + 1) * 2 ^ unat (agBlkLog sb) \<le> (unat ag + 1) * 2 ^ inoShift sb" by (rule mult_le_mono2)
  then show "(unat ag + 1) * 2 ^ unat (agBlkLog sb) \<le> 2 ^ 52" using assms(1) by simp
qed

lemma find_last: "\<forall>y\<in>set xs. \<not> P y \<Longrightarrow> P x \<Longrightarrow> find P (xs @ [x]) = Some x"
  by (induction xs) auto

text \<open>Permission bits do not reach the type bits of a mode.\<close>

lemma perm_bits: "(ucast (perm AND 0x1FF :: u32) :: u16) AND 0xF000 = 0"
proof (rule bit_word_eqI)
  fix n
  have m: "(0x1FF :: u32) = mask 9" "(0xF000 :: u16) = push_bit 12 0xF" by (simp_all add: mask_eq_exp_minus_1 push_bit_eq_mult)
  have "bit (0xF000 :: u16) n \<Longrightarrow> 12 \<le> n" unfolding m(2) by (simp only: bit_push_bit_iff)
  moreover have "bit (ucast (perm AND 0x1FF) :: u16) n \<Longrightarrow> n < 9" unfolding m(1) by (simp add: bit_simps)
  ultimately show "bit ((ucast (perm AND 0x1FF) :: u16) AND 0xF000) n = bit (0 :: u16) n" by (auto simp: bit_and_iff)
qed

lemma file_mode: "((ucast (perm AND 0x1FF :: u32) :: u16) OR 0x8000) AND 0xF000 = 0x8000"
  using perm_bits [of perm] by (simp add: bit.conj_disj_distrib2)

lemma place_data:
  assumes grp: "group_ok partOff sb ag bnoRel cntRel (disk st) agf bs cs" and sio: "admits_first sio" and q: "mergedQ st = []"
    and w: "writable partOff sb i1" "writable partOff sb i2" and ag: "inoAG sb (iNum i1) = ag" "inoAG sb (iNum i2) = ag"
    and data: "data \<noteq> []" "(length data + unat (blockSize sb) - 1) div unat (blockSize sb) < 2 ^ 21"
    and room: "\<exists>r\<in>set bs. blocksFor sb data \<le> snd r" and own: "ino_block sb (iNum i1) \<notin> free_set bs" "ino_block sb (iNum i2) \<notin> free_set bs"
    and small: "(unat ag + 1) * 2 ^ unat (agBlkLog sb) \<le> 2 ^ 52"
  obtains b da d2 where "allocBlocks sio (Suc (Suc fuel)) partOff sb ag (blocksFor sb data) st = (Inr b, st\<lparr>disk := da\<rparr>)"
    "writeBlocksData partOff sb b (blocksFor sb data) data da = (Inr (), d2)"
    "ReadAt d2 (partOff + fsbToPhysBlock sb b * ucast (blockSize sb)) (unat (blocksFor sb data) * unat (blockSize sb)) =
      Inr (data @ replicate (unat (blocksFor sb data) * unat (blockSize sb) - length data) 0)"
    "good_run partOff sb (iNum i1) b (blocksFor sb data) (length data)" "good_run partOff sb (iNum i2) b (blocksFor sb data) (length data)"
proof -
  let ?n = "blocksFor sb data"
  note pr = promote_run [OF _ sio q _ data room, where fuel = fuel]
  obtain b da where b: "allocBlocks sio (Suc (Suc fuel)) partOff sb ag ?n st = (Inr b, st\<lparr>disk := da\<rparr>)" "good_run partOff sb (iNum i1) b ?n (length data)"
    using pr [where inode = i1] w(1) ag(1) grp own(1) small by blast
  obtain b' da' where "allocBlocks sio (Suc (Suc fuel)) partOff sb ag ?n st = (Inr b', st\<lparr>disk := da'\<rparr>)" "good_run partOff sb (iNum i2) b' ?n (length data)"
    using pr [where inode = i2] w(2) ag(2) grp own(2) small by blast
  with b(1) have b2: "good_run partOff sb (iNum i2) b ?n (length data)" by simp
  have run: "run_addressable partOff sb b (unat ?n)" "length data \<le> unat ?n * unat (blockSize sb)" using b(2) by (simp_all add: good_run_def)
  have "0 < ?n" using run(2) data(1) by (cases "?n = 0") (simp_all add: word_neq_0_conv)
  then obtain d2 where "writeBlocksData partOff sb b ?n data da = (Inr (), d2)"
    "ReadAt d2 (partOff + fsbToPhysBlock sb b * ucast (blockSize sb)) (unat ?n * unat (blockSize sb)) =
      Inr (data @ replicate (unat ?n * unat (blockSize sb) - length data) 0)"
    using writeBlocksData_spec [OF run, of da] by blast
  then show ?thesis using that b b2 by blast
qed

text \<open>Writing an inode slot keeps a run of blocks that is apart from it.\<close>

lemma slot_keeps_run:
  assumes "inodes_fit sb partOff" and "ino_in_range sb ino" and "good_run partOff sb ino b n len"
    and "WriteAt d (inodeByteOff sb partOff ino) raw = Inr d'" and "length raw = unat (inodeSize sb)"
    and "ReadAt d (partOff + fsbToPhysBlock sb b * ucast (blockSize sb)) (unat n * unat (blockSize sb)) = Inr xs"
  shows "ReadAt d' (partOff + fsbToPhysBlock sb b * ucast (blockSize sb)) (unat n * unat (blockSize sb)) = Inr xs"
  using run_apart_slot [OF assms(1,2) _ _ assms(4,5), of "\<lparr>eStartOff = 0, eStartBlock = b, eCount = n, eUnwritten = False\<rparr>" xs] assms(3,6)
  by (simp add: ext_run_def ext_start_def good_run_def)

text \<open>The inode of a stored file and its directory entry are written: both are found again.\<close>

definition slot_writes :: "int64 \<Rightarrow> superblock \<Rightarrow> u64 \<Rightarrow> u64 \<Rightarrow> dev \<Rightarrow> dev \<Rightarrow> bool" where
  "slot_writes partOff sb i j d d' \<longleftrightarrow> (\<exists>x y e. WriteAt d (inodeByteOff sb partOff i) x = Inr e \<and> WriteAt e (inodeByteOff sb partOff j) y = Inr d' \<and>
     length x = unat (inodeSize sb) \<and> length y = unat (inodeSize sb))"

lemma enter_file:
  assumes fit: "inodes_fit sb partOff" "ino_in_range sb (iNum dirIn)" "inode_wf sb dirIn" and new: "ino_in_range sb ino" "ino \<noteq> iNum dirIn" "ino \<le> 0xFFFFFFFF"
    and i1: "inode_wf sb i1" "iNum i1 = ino"
    and run: "good_run partOff sb (iNum dirIn) b n (length data)" "good_run partOff sb ino b n (length data)"
    and data: "ReadAt (disk st) (partOff + fsbToPhysBlock sb b * ucast (blockSize sb)) (unat n * unat (blockSize sb)) =
        Inr (data @ replicate (unat n * unat (blockSize sb) - length data) 0)"
    and dir: "iFormat dirIn = inodeFmtLocal" "sf_room sb dirIn name"
  obtains d dir1 where "bindIO (putInode partOff sb i1) (\<lambda>_. discardIO (addDirEntry sio fuel partOff sb dirIn ino name ftype)) st = (Inr (), st\<lparr>disk := d\<rparr>)"
    "readInode d partOff sb (iNum dirIn) = Inr dir1" "iFormat dir1 = inodeFmtLocal" "iMode dir1 = iMode dirIn"
    "sfReadDir (dataFork dir1) (hasFType sb) = sfReadDir (dataFork dirIn) (hasFType sb) @ [\<lparr>deInode = ino, deName = name, deType = (if hasFType sb then ftype else 0)\<rparr>]"
    "sf_wf (dataFork dir1) (hasFType sb)" "readInode d partOff sb ino = Inr (stampInode sb i1)"
    "ReadAt d (partOff + fsbToPhysBlock sb b * ucast (blockSize sb)) (unat n * unat (blockSize sb)) = Inr (data @ replicate (unat n * unat (blockSize sb) - length data) 0)"
    "slot_writes partOff sb ino (iNum dirIn) (disk st) d"
proof -
  let ?i = "stampInode sb i1"
  obtain d3 where d3: "putInode partOff sb i1 st = (Inr ?i, st\<lparr>disk := d3\<rparr>)"
    "readInode d3 partOff sb ino = Inr ?i" "WriteAt (disk st) (inodeByteOff sb partOff ino) (iRaw ?i) = Inr d3"
    using putInode_result [OF fit(1) _ i1(1), of st] new(1) i1(2) by auto
  obtain dir1 where dir1: "addEntryToSFDir dirIn ino name ftype sb = Inr dir1"
    using sf_room_adds [OF dir(2) new(3)] by blast
  note dw = sf_add_wf [OF fit(3) dir1]
  obtain d4 where d4: "putInode partOff sb dir1 (st\<lparr>disk := d3\<rparr>) = (Inr (stampInode sb dir1), st\<lparr>disk := d4\<rparr>)"
    "readInode d4 partOff sb (iNum dirIn) = Inr (stampInode sb dir1)" "WriteAt d3 (inodeByteOff sb partOff (iNum dirIn)) (iRaw (stampInode sb dir1)) = Inr d4"
    using putInode_result [OF fit(1) _ dw(1), of "st\<lparr>disk := d3\<rparr>"] fit(2) dw(2) by auto
  have len: "length (iRaw ?i) = unat (inodeSize sb)" "length (iRaw (stampInode sb dir1)) = unat (inodeSize sb)"
    using stampInode_wf [OF i1(1)] stampInode_wf [OF dw(1)] by (simp_all add: inode_wf_def)
  have "readInode d4 partOff sb ino = Inr ?i"
    using d3(2) read_other_inode [OF fit(1,2) new(1) new(2) [symmetric] d4(3) len(2)] by (auto simp: readInode_def readBytes_def bindR_eq_Inr)
  moreover have "ReadAt d4 (partOff + fsbToPhysBlock sb b * ucast (blockSize sb)) (unat n * unat (blockSize sb)) =
      Inr (data @ replicate (unat n * unat (blockSize sb) - length data) 0)"
    by (rule slot_keeps_run [OF fit(1,2) run(1) d4(3) len(2)], rule slot_keeps_run [OF fit(1) new(1) run(2) d3(3) len(1) data])
  moreover have "sfReadDir (dataFork (stampInode sb dir1)) (hasFType sb) = sfReadDir (dataFork dirIn) (hasFType sb) @
      [\<lparr>deInode = ino, deName = name, deType = (if hasFType sb then ftype else 0)\<rparr>]" "sf_wf (dataFork (stampInode sb dir1)) (hasFType sb)"
    using sf_append [OF _ _ _ _ dir1] dir(2) fit(3) by (simp_all add: sf_room_def Let_def inode_wf_def)
  moreover have "bindIO (putInode partOff sb i1) (\<lambda>_. discardIO (addDirEntry sio fuel partOff sb dirIn ino name ftype)) st = (Inr (), st\<lparr>disk := d4\<rparr>)"
    using d3(1) d4(1) dir1 dir(1) by (simp add: addDirEntry_def discardIO_def bindIO_def retIO_def)
  moreover have "slot_writes partOff sb ino (iNum dirIn) (disk st) d4" using d3(3) d4(3) len unfolding slot_writes_def by blast
  ultimately show ?thesis using that d4(2) dir(1) dw(3,4) by simp
qed

text \<open>
  The steps of a creation: the inode is taken from its tree, the run from the free space, the data is written, then the two inodes.
\<close>

definition create_steps ::
  "('g, 'v) safeio \<Rightarrow> nat \<Rightarrow> clock \<Rightarrow> int64 \<Rightarrow> superblock \<Rightarrow> u32 \<Rightarrow> u32 \<Rightarrow> irec list \<Rightarrow> inode \<Rightarrow> bytes \<Rightarrow> u16 \<Rightarrow> alloc \<Rightarrow> u32 \<Rightarrow> u64 \<Rightarrow> inode \<Rightarrow> dev \<Rightarrow> bool" where
  "create_steps sio fuel clk partOff sb ag inoRel rs dirIn data mode s i b f d \<longleftrightarrow> (\<exists>d1 da d2.
     rest_kept partOff sb ag inoRel (disk s) d1 \<and>
     (\<exists>agi' rs'. igrp partOff sb ag inoRel d1 agi' rs' \<and> chunks_ok sb rs' \<and> free_inodes rs' = free_inodes rs - {unat i} \<and> map fst rs' = map fst rs) \<and>
     allocBlocks sio fuel partOff sb ag (blocksFor sb data) (s\<lparr>disk := d1\<rparr>) = (Inr b, s\<lparr>disk := da\<rparr>) \<and>
     writeBlocksData partOff sb b (blocksFor sb data) data da = (Inr (), d2) \<and>
     extentsInode (newInode sb clk (inoFromAGRel sb ag i) mode 1) b (blocksFor sb data) data = Inr f \<and>
     slot_writes partOff sb (inoFromAGRel sb ag i) (iNum dirIn) d2 d)"

text \<open>What is on disk when a file has been created: its inode, its run with the data, and the directory with the new entry.\<close>

definition created ::
  "int64 \<Rightarrow> superblock \<Rightarrow> inode \<Rightarrow> bytes \<Rightarrow> bytes \<Rightarrow> u16 \<Rightarrow> dev \<Rightarrow> inode \<Rightarrow> u64 \<Rightarrow> inode \<Rightarrow> u64 \<Rightarrow> bool" where
  "created partOff sb dirIn name data mode d dirIn' newino f b \<longleftrightarrow>
     readInode d partOff sb (iNum dirIn) = Inr dirIn' \<and> iFormat dirIn' = inodeFmtLocal \<and> iMode dirIn' = iMode dirIn \<and>
     sfReadDir (dataFork dirIn') (hasFType sb) = sfReadDir (dataFork dirIn) (hasFType sb) @ [\<lparr>deInode = newino, deName = name, deType = (if hasFType sb then 1 else 0)\<rparr>] \<and>
     sf_wf (dataFork dirIn') (hasFType sb) \<and> readInode d partOff sb newino = Inr (stampInode sb f) \<and> iMode f = mode \<and> iFormat f = inodeFmtExtents \<and> iSize f = of_nat (length data) \<and>
     iNBlocks f = ucast (blocksFor sb data) \<and>
     inlineExtents f = Inr [\<lparr>eStartOff = 0, eStartBlock = b, eCount = blocksFor sb data, eUnwritten = False\<rparr>] \<and>
     good_run partOff sb newino b (blocksFor sb data) (length data) \<and>
     ReadAt d (partOff + fsbToPhysBlock sb b * ucast (blockSize sb)) (unat (blocksFor sb data) * unat (blockSize sb)) =
       Inr (data @ replicate (unat (blocksFor sb data) * unat (blockSize sb) - length data) 0)"

lemma created_reads:
  assumes "created partOff sb dirIn name data mode d dirIn' newino f b" and "makes_bytes sio" and "within_limits sb (length data)"
    and "\<forall>e\<in>set (sfReadDir (dataFork dirIn) (hasFType sb)). deName e \<noteq> name"
  shows "lookupInDir sio d partOff sb dirIn' name = Inr newino" "readFileData sio d partOff sb (stampInode sb f) = Some (Inr data)"
    "readDir sio d partOff sb dirIn' = Inr (sfReadDir (dataFork dirIn) (hasFType sb) @ [\<lparr>deInode = newino, deName = name, deType = (if hasFType sb then 1 else 0)\<rparr>])"
proof -
  show "lookupInDir sio d partOff sb dirIn' name = Inr newino"
    using assms(1,4) by (simp add: created_def lookupInDir_def sfLookup_find find_last)
  show "readFileData sio d partOff sb (stampInode sb f) = Some (Inr data)"
    using assms(1) one_run_reads [OF assms(2,3), of partOff newino b "blocksFor sb data" f d] by (simp add: created_def)
  show "readDir sio d partOff sb dirIn' = Inr (sfReadDir (dataFork dirIn) (hasFType sb) @ [\<lparr>deInode = newino, deName = name, deType = (if hasFType sb then 1 else 0)\<rparr>])"
    using assms(1) by (simp add: created_def readDir_def)
qed

lemma create_file:
  assumes ig: "igrp partOff sb ag inoRel (disk s) agi rs" and ch: "chunks_ok sb rs" "free_inodes rs \<noteq> {}"
    and grp: "group_ok partOff sb ag bnoRel cntRel (disk s) agf bs cs" "inoRel \<noteq> bnoRel" "inoRel \<noteq> cntRel"
    and geo: "ag = inoAG sb (iNum dirIn)" "unat ag < unat (agCount sb)" "(unat ag + 1) * 2 ^ inoShift sb \<le> 2 ^ 32" "length (sbUuid sb) = 16"
    and sio: "admits_first sio" and q: "mergedQ s = []"
    and dir: "dir_in_use partOff sb dirIn bs rs" "iFormat dirIn = inodeFmtLocal" "sf_room sb dirIn name"
    and data: "data \<noteq> []" "(length data + unat (blockSize sb) - 1) div unat (blockSize sb) < 2 ^ 21"
    and room: "\<exists>r\<in>set bs. blocksFor sb data \<le> snd r"
  obtains d dirIn' i f b where "createFile sio (Suc (Suc fuel)) clk partOff sb dirIn name data perm s = (Inr (), s\<lparr>disk := d\<rparr>)"
    "created partOff sb dirIn name data (ucast (perm AND 0x1FF) OR 0x8000) d dirIn' (inoFromAGRel sb ag i) f b"
    "create_steps sio (Suc (Suc fuel)) clk partOff sb ag inoRel rs dirIn data (ucast (perm AND 0x1FF) OR 0x8000) s i b f d"
    "ino_in_range sb (inoFromAGRel sb ag i)" "inoAG sb (inoFromAGRel sb ag i) = ag" "inoAGRel sb (inoFromAGRel sb ag i) = i" "unat i \<in> free_inodes rs"
    "inoFromAGRel sb ag i \<noteq> iNum dirIn"
proof -
  let ?n = "blocksFor sb data" and ?mode = "ucast (perm AND 0x1FF) OR 0x8000 :: u16" and ?B = "unat (blockSize sb)"
  have wd: "writable partOff sb dirIn" using dir(1) by (simp add: dir_in_use_def)
  then have fit: "inodes_fit sb partOff" "ino_in_range sb (iNum dirIn)" "inode_wf sb dirIn" "192 \<le> unat (inodeSize sb)"
    by (simp_all add: writable_def)
  have sh: "inoShift sb \<le> 32"
  proof (rule ccontr)
    assume "\<not> inoShift sb \<le> 32"
    then have "(2 :: nat) ^ 33 \<le> 2 ^ inoShift sb" by (intro power_increasing) simp_all
    then have "(2 :: nat) ^ 33 \<le> (unat ag + 1) * 2 ^ inoShift sb" by (simp add: trans_le_add1)
    with geo(3) show False by simp
  qed
  obtain i d1 where ni: "newIno sio (Suc (Suc fuel)) clk partOff sb ag s = (Inr (inoFromAGRel sb ag i), s\<lparr>disk := d1\<rparr>)"
    and rk: "rest_kept partOff sb ag inoRel (disk s) d1" and ino: "inoAG sb (inoFromAGRel sb ag i) = ag" "ino_in_range sb (inoFromAGRel sb ag i)"
      "ino_block sb (inoFromAGRel sb ag i) \<notin> free_set bs" "inoFromAGRel sb ag i \<noteq> iNum dirIn" "unat i \<in> free_inodes rs" "inoAGRel sb (inoFromAGRel sb ag i) = i" and ig1: "\<exists>agi' rs'. igrp partOff sb ag inoRel d1 agi' rs' \<and> chunks_ok sb rs' \<and> free_inodes rs' = free_inodes rs - {unat i} \<and> map fst rs' = map fst rs"
    by (rule new_inode_number [OF ig ch sh geo(2) dir(1)])
  define newino where "newino = inoFromAGRel sb ag i"
  note ino = ino [folded newino_def] and ni = ni [folded newino_def]
  have small: "newino \<le> 0xFFFFFFFF" "(unat ag + 1) * 2 ^ unat (agBlkLog sb) \<le> 2 ^ 52"
    using new_small [OF geo(3) ino(1,2)] by simp_all
  let ?nw = "newInode sb clk newino ?mode 1"
  let ?nwl = "?nw\<lparr>iFormat := inodeFmtLocal\<rparr>"
  have u176: "176 \<le> unat (inodeSize sb)" using fit(4) by simp
  note nw = newInode_wf [OF u176 geo(4), of clk newino ?mode 1]
  have wn: "writable partOff sb ?nwl" using fit(1,4) ino(2) nw by (simp add: writable_def)
  have grp1: "group_ok partOff sb ag bnoRel cntRel (disk (s\<lparr>disk := d1\<rparr>)) agf bs cs"
    using group_ok_rest [OF grp(1) rk grp(2,3)] by simp
  have own: "ino_block sb (iNum dirIn) \<notin> free_set bs" "ino_block sb (iNum ?nwl) \<notin> free_set bs"
    using dir(1) ino(3) nw(3) by (simp_all add: dir_in_use_def)
  obtain b da d2 where al: "allocBlocks sio (Suc (Suc fuel)) partOff sb ag ?n (s\<lparr>disk := d1\<rparr>) = (Inr b, s\<lparr>disk := d1\<rparr>\<lparr>disk := da\<rparr>)"
    and wrd: "writeBlocksData partOff sb b ?n data da = (Inr (), d2)"
    and rd2: "ReadAt d2 (partOff + fsbToPhysBlock sb b * ucast (blockSize sb)) (unat ?n * ?B) = Inr (data @ replicate (unat ?n * ?B - length data) 0)"
    and run: "good_run partOff sb (iNum dirIn) b ?n (length data)" "good_run partOff sb newino b ?n (length data)"
    by (rule place_data [OF grp1 sio _ wd wn _ _ data room own small(2), where fuel = fuel]) (use q geo(1) ino(1) nw(3) in simp_all)
  have rb: "unat b < 2 ^ 52" "unat ?n < 2 ^ 21" using run(2) by (simp_all add: good_run_def)
  obtain i1 where i1: "extentsInode ?nw b ?n data = Inr i1" "inode_wf sb i1" "iNum i1 = newino" "iMode i1 = ?mode"
    "iFormat i1 = inodeFmtExtents" "iSize i1 = of_nat (length data)" "iNBlocks i1 = ucast ?n"
    "inlineExtents i1 = Inr [\<lparr>eStartOff = 0, eStartBlock = b, eCount = ?n, eUnwritten = False\<rparr>]"
    by (rule extentsInode_spec [OF nw(1,2) fit(4) rb, of "iFormat ?nw" data]) (use nw(3,4) in simp_all)
  obtain d dir1 where d: "bindIO (putInode partOff sb i1) (\<lambda>_. discardIO (addDirEntry sio (Suc (Suc fuel)) partOff sb dirIn newino name 1)) (s\<lparr>disk := d2\<rparr>) = (Inr (), s\<lparr>disk := d2\<rparr>\<lparr>disk := d\<rparr>)"
    "readInode d partOff sb (iNum dirIn) = Inr dir1" "iFormat dir1 = inodeFmtLocal" "iMode dir1 = iMode dirIn"
    "sfReadDir (dataFork dir1) (hasFType sb) = sfReadDir (dataFork dirIn) (hasFType sb) @ [\<lparr>deInode = newino, deName = name, deType = (if hasFType sb then 1 else 0)\<rparr>]"
    "sf_wf (dataFork dir1) (hasFType sb)" "readInode d partOff sb newino = Inr (stampInode sb i1)"
    "ReadAt d (partOff + fsbToPhysBlock sb b * ucast (blockSize sb)) (unat ?n * ?B) = Inr (data @ replicate (unat ?n * ?B - length data) 0)"
    "slot_writes partOff sb newino (iNum dirIn) (disk (s\<lparr>disk := d2\<rparr>)) d"
    by (rule enter_file [OF fit(1-3) ino(2,4) small(1) i1(2,3) run _ dir(2,3), where st = "s\<lparr>disk := d2\<rparr>"]) (use rd2 in simp_all)
  show ?thesis
  proof (rule that [of d dir1 i i1 b, folded newino_def])
    show "createFile sio (Suc (Suc fuel)) clk partOff sb dirIn name data perm s = (Inr (), s\<lparr>disk := d\<rparr>)"
      using ni al wrd i1(1) d(1) data(1) geo(1)
      by (simp add: createFile_def createInodeWithData_def bindIO_apply liftIO_def onDisk_def retIO_def Let_def tryGroups_def)
    show "created partOff sb dirIn name data ?mode d dir1 newino i1 b"
      using d(2-8) i1(4-8) run(2) by (simp add: created_def)
    have "rest_kept partOff sb ag inoRel (disk s) d1 \<and>
        (\<exists>agi' rs'. igrp partOff sb ag inoRel d1 agi' rs' \<and> chunks_ok sb rs' \<and> free_inodes rs' = free_inodes rs - {unat i} \<and> map fst rs' = map fst rs) \<and>
        allocBlocks sio (Suc (Suc fuel)) partOff sb ag ?n (s\<lparr>disk := d1\<rparr>) = (Inr b, s\<lparr>disk := da\<rparr>) \<and>
        writeBlocksData partOff sb b ?n data da = (Inr (), d2) \<and> extentsInode ?nw b ?n data = Inr i1 \<and> slot_writes partOff sb newino (iNum dirIn) d2 d"
      using rk ig1 al wrd i1(1) d(9) by simp
    then show "create_steps sio (Suc (Suc fuel)) clk partOff sb ag inoRel rs dirIn data ?mode s i b i1 d"
      unfolding create_steps_def newino_def [symmetric] by blast
    show "ino_in_range sb newino" "inoAG sb newino = ag" "inoAGRel sb newino = i" "unat i \<in> free_inodes rs" "newino \<noteq> iNum dirIn" by (fact ino)+
  qed
qed

text \<open>
  C4. Creating a non-empty file in a short-form directory: whenever the directory's group has a free
  inode and a free run that is long enough and the entry fits the inode, \<^verbatim>\<open>createFile\<close> succeeds.
  Afterwards the directory, read from disk again, finds the name and still lists the old entries in
  front of it; the inode it names is a regular file with the permissions asked for; and reading that
  file gives exactly the data. The group has single-leaf trees; the run can be recorded (fewer than
  \<open>2 ^ 21\<close> blocks, block numbers below \<open>2 ^ 52\<close>) and the inode number fits a short-form entry.
\<close>

theorem createFile_readable:
  assumes ig: "igrp partOff sb ag inoRel (disk s) agi rs" and ch: "chunks_ok sb rs" "free_inodes rs \<noteq> {}"
    and grp: "group_ok partOff sb ag bnoRel cntRel (disk s) agf bs cs" "inoRel \<noteq> bnoRel" "inoRel \<noteq> cntRel"
    and geo: "ag = inoAG sb (iNum dirIn)" "unat ag < unat (agCount sb)" "(unat ag + 1) * 2 ^ inoShift sb \<le> 2 ^ 32" "length (sbUuid sb) = 16"
    and sio: "admits_first sio" "makes_bytes sio" and q: "mergedQ s = []"
    and dir: "dir_in_use partOff sb dirIn bs rs" "iFormat dirIn = inodeFmtLocal" "sf_room sb dirIn name"
      "\<forall>e\<in>set (sfReadDir (dataFork dirIn) (hasFType sb)). deName e \<noteq> name"
    and data: "data \<noteq> []" "within_limits sb (length data)" "(length data + unat (blockSize sb) - 1) div unat (blockSize sb) < 2 ^ 21"
    and room: "\<exists>r\<in>set bs. blocksFor sb data \<le> snd r"
  shows "\<exists>s' dirIn' ino f. createFile sio (Suc (Suc fuel)) clk partOff sb dirIn name data perm s = (Inr (), s') \<and>
    readInode (disk s') partOff sb (iNum dirIn) = Inr dirIn' \<and>
    lookupInDir sio (disk s') partOff sb dirIn' name = Inr ino \<and>
    (\<exists>e. readDir sio (disk s') partOff sb dirIn' = Inr (sfReadDir (dataFork dirIn) (hasFType sb) @ [e])) \<and>
    readInode (disk s') partOff sb ino = Inr f \<and> isRegular f \<and> iMode f = ucast (perm AND 0x1FF) OR 0x8000 \<and>
    readFileData sio (disk s') partOff sb f = Some (Inr data)"
proof -
  let ?mode = "ucast (perm AND 0x1FF) OR 0x8000 :: u16"
  obtain d dirIn' i f b where c: "createFile sio (Suc (Suc fuel)) clk partOff sb dirIn name data perm s = (Inr (), s\<lparr>disk := d\<rparr>)"
    "created partOff sb dirIn name data ?mode d dirIn' (inoFromAGRel sb ag i) f b"
    by (rule create_file [OF ig ch grp geo sio(1) q dir(1-3) data(1,3) room])
  note r = created_reads [OF c(2) sio(2) data(2) dir(4)]
  have "isRegular (stampInode sb f)" "iMode (stampInode sb f) = ?mode"
    using c(2) file_mode [of perm] by (simp_all add: created_def isRegular_def)
  then show ?thesis using c r unfolding created_def by (intro exI [of _ "s\<lparr>disk := d\<rparr>"]) auto
qed

text \<open>A directory of the small image in which a file is created.\<close>

definition clk0 :: clock where
  "clk0 = \<lparr>clkNow = (0, 0), clkChunk = (\<lambda>_ _. (0, 0))\<rparr>"

definition dir_group :: inode where
  "dir_group = emptyDirInode sb_group clk0 40 0x41ED 40"

lemma emptyDirInode_wf:
  fixes clk ino mode
  assumes "192 \<le> unat (inodeSize sb)" and "length (sbUuid sb) = 16" and "parentIno \<le> 0xFFFFFFFF"
  defines "i \<equiv> emptyDirInode sb clk ino mode parentIno"
  shows "inode_wf sb i" "iNum i = ino" "iMode i = mode" "iFormat i = inodeFmtLocal" "iForkOff i = 0" "\<not> inodeNrext64 (iRaw i)"
    "length (dataFork i) = unat (inodeSize sb) - 176" "byte_at (dataFork i) 0 = 0" "byte_at (dataFork i) 1 = 0"
proof -
  have "176 \<le> unat (inodeSize sb)" using assms(1) by simp
  note nw = newInode_wf [OF this assms(2), of clk ino mode 2]
  let ?n = "(newInode sb clk ino mode 2)\<lparr>iFormat := inodeFmtLocal\<rparr>"
  let ?raw = "put32 178 (ucast parentIno) (put8 177 0 (put8 176 0 (iRaw ?n)))"
  have i: "i = setInodeFormat (setInodeSize (?n\<lparr>iRaw := ?raw\<rparr>) 6) inodeFmtLocal"
    using assms(3) by (simp add: i_def emptyDirInode_def Let_def not_less)
  have "inode_wf sb (?n\<lparr>iRaw := ?raw\<rparr>)"
    using inode_wf_fork [OF inode_wf_fork [OF inode_wf_fork [OF nw(1), of 176], of 177], of 178] by (simp add: put_defs)
  then show "inode_wf sb i" unfolding i by (intro inode_wf_setters)
  have len: "length (iRaw ?n) = unat (inodeSize sb)" using nw(1) by (simp add: inode_wf_def)
  show "iNum i = ino" "iMode i = mode" "iFormat i = inodeFmtLocal" unfolding i using nw(3,4) by simp_all
  show "iForkOff i = 0" unfolding i by (simp add: newInode_def setInodeFormat_def setInodeSize_def)
  show "\<not> inodeNrext64 (iRaw i)"
    unfolding i using nw(2) len assms(1) by (simp add: setInodeFormat_def setInodeSize_def field_frame buf_simps)
  have f: "dataFork i = drop 176 ?raw" unfolding i dataFork_setters by (simp add: dataFork_def)
  show "length (dataFork i) = unat (inodeSize sb) - 176" unfolding f using len by simp
  show "byte_at (dataFork i) 0 = 0" "byte_at (dataFork i) 1 = 0"
    unfolding f using len assms(1) by (simp_all add: byte_at_window window_drop put_defs buf_simps)
qed

lemma small_dir: "dir_in_use 0 sb_group dir_group [(8, 8)] [(64, 61, small_mask)]" "iFormat dir_group = inodeFmtLocal" "iNum dir_group = 40"
  "sf_room sb_group dir_group [97]" "sfReadDir (dataFork dir_group) (hasFType sb_group) = []"
proof -
  have u: "length (sbUuid sb_group) = 16" by (simp add: sb_group_def)
  note e = emptyDirInode_wf [OF _ u, of 40 clk0 40 "0x41ED", folded dir_group_def, simplified]
  show d: "iFormat dir_group = inodeFmtLocal" "iNum dir_group = 40" by (simp_all add: e)
  have r: "inodes_fit sb_group 0" "ino_in_range sb_group 40" "inoAGRel sb_group 40 = 40" "ino_block sb_group 40 = 20"
    by (simp_all add: inodes_fit_def ino_in_range_def ino_ag_def ino_block_def inoShift_def inoAGRel_def)
  have "inode_wf sb_group dir_group" "\<not> inodeNrext64 (iRaw dir_group)" by (simp_all add: e)
  then show "dir_in_use 0 sb_group dir_group [(8, 8)] [(64, 61, small_mask)]"
    unfolding dir_in_use_def small_chunks(2) small_free d(2) using r d(2) by (auto simp: writable_def)
  show "sfReadDir (dataFork dir_group) (hasFType sb_group) = []" by (simp add: sfReadDir_def e)
  then show "sf_room sb_group dir_group [97]" by (simp add: sf_room_def Let_def sf_wf_def e sb_group_def)
qed

theorem createFile_readable_witness:
  "\<exists>s' dirIn' ino f. createFile safeio_ref 2 clk0 0 sb_group dir_group [97] data_group 0x1A4 (freshAlloc small_dev) = (Inr (), s') \<and>
     readInode (disk s') 0 sb_group 40 = Inr dirIn' \<and> lookupInDir safeio_ref (disk s') 0 sb_group dirIn' [97] = Inr ino \<and>
     readInode (disk s') 0 sb_group ino = Inr f \<and> iMode f = 0x81A4 \<and> readFileData safeio_ref (disk s') 0 sb_group f = Some (Inr data_group)"
proof -
  have g: "inoAG sb_group 40 = 0" "inoShift sb_group = 7" "length (sbUuid sb_group) = 16"
    by (simp_all add: inoAG_def inoShift_def) (simp add: sb_group_def)
  have "\<exists>s' dirIn' ino f. createFile safeio_ref (Suc (Suc 0)) clk0 0 sb_group dir_group [97] data_group 0x1A4 (freshAlloc small_dev) = (Inr (), s') \<and>
     readInode (disk s') 0 sb_group (iNum dir_group) = Inr dirIn' \<and> lookupInDir safeio_ref (disk s') 0 sb_group dirIn' [97] = Inr ino \<and>
     (\<exists>e. readDir safeio_ref (disk s') 0 sb_group dirIn' = Inr (sfReadDir (dataFork dir_group) (hasFType sb_group) @ [e])) \<and>
     readInode (disk s') 0 sb_group ino = Inr f \<and> isRegular f \<and> iMode f = ucast ((0x1A4 :: u32) AND 0x1FF) OR 0x8000 \<and>
     readFileData safeio_ref (disk s') 0 sb_group f = Some (Inr data_group)"
    by (rule createFile_readable [OF small_igroup small_chunks(1) _ small_group _ _ _ _ _ g(3) safeio_ref_admits safeio_ref_bytes
        inode_group_room(2) small_dir(1,2,4) _ inode_group_facts(6) data_group_limits inode_group_room(3,4)])
      (simp_all add: small_chunks(2) small_dir g)
  then show ?thesis unfolding Suc_numerals small_dir(3) by auto
qed

section \<open>What a path leads to was read from disk\<close>

lemma readInode_num: "readInode d partOff sb ino = Inr inode \<Longrightarrow> iNum inode = ino"
  by (auto simp: readInode_def bindR_eq_Inr parse_iNum)

lemma walkNames_read:
  assumes "walkNames sio d partOff sb resolve cur names = Inr inode" and "readInode d partOff sb (iNum cur) = Inr cur"
    and "\<And>t i. resolve t = Inr i \<Longrightarrow> readInode d partOff sb (iNum i) = Inr i"
  shows "readInode d partOff sb (iNum inode) = Inr inode"
  using assms(1,2)
proof (induction names arbitrary: cur)
  case (Cons name names)
  then show ?case
    using assms(3) readInode_num by (fastforce simp: bindR_eq_Inr split: sum.splits if_splits)
qed simp

lemma pathLookup_read:
  assumes "pathLookup sio d partOff sb p = Inr inode"
  shows "readInode d partOff sb (iNum inode) = Inr inode"
proof -
  have "readInode d partOff sb (iNum inode) = Inr inode" if "resolveWithin k sio d partOff sb p = Inr inode" for k p inode
    using that
  proof (induction k arbitrary: p inode)
    case (Suc k)
    obtain root where root: "readInode d partOff sb (rootIno sb) = Inr root"
      and w: "walkNames sio d partOff sb (resolveWithin k sio d partOff sb) root (components p) = Inr inode"
      using Suc.prems by (auto simp: resolveWithin_Suc bindR_eq_Inr)
    then have r: "readInode d partOff sb (iNum root) = Inr root" using readInode_num by auto
    show ?case by (rule walkNames_read [OF w r Suc.IH])
  qed simp
  then show ?thesis using assms by (simp add: pathLookup_def pathLookupResolve_def)
qed

lemma readInode_wf:
  assumes "readInode d partOff sb ino = Inr inode" and "176 \<le> unat (inodeSize sb)"
  shows "inode_wf sb inode"
proof -
  obtain raw where raw: "readBytes d (inodeByteOff sb partOff ino) (unat (inodeSize sb)) = Inr raw" "parseInode ino raw = Inr inode"
    using assms(1) by (auto simp: readInode_def bindR_eq_Inr)
  show ?thesis using raw parse_iNum [OF raw(2)] readBytes_length [OF raw(1)] assms(2) by (simp add: inode_wf_def)
qed

section \<open>Attributes\<close>

text \<open>What every change of attributes leaves: type, size, mapping and content of the inode.\<close>

definition same_content :: "inode \<Rightarrow> inode \<Rightarrow> bool" where
  "same_content i j \<longleftrightarrow> iNum j = iNum i \<and> iMode j AND 0xF000 = iMode i AND 0xF000 \<and> iFormat j = iFormat i \<and> iSize j = iSize i \<and>
     iNBlocks j = iNBlocks i \<and> iNExts j = iNExts i \<and> iForkOff j = iForkOff i \<and> dataFork j = dataFork i"

lemma parse_put_mode:
  "176 \<le> length raw \<Longrightarrow> parseInode i raw = Inr inode \<Longrightarrow>
    parseInode i (put16 2 v raw) = Inr (inode\<lparr>iRaw := put16 2 v raw, iMode := v\<rparr>)"
  by (auto simp: parseInode_def field_frame put_defs buf_simps split: if_splits)

lemma parse_put_owner:
  "176 \<le> length raw \<Longrightarrow> parseInode i raw = Inr inode \<Longrightarrow>
    parseInode i (put32 12 g (put32 8 u raw)) = Inr (inode\<lparr>iRaw := put32 12 g (put32 8 u raw)\<rparr>)"
  by (auto simp: parseInode_def field_frame buf_simps split: if_splits)

lemma parse_stamp_time:
  "176 \<le> length raw \<Longrightarrow> parseInode i raw = Inr inode \<Longrightarrow> off = 32 \<or> off = 40 \<or> off = 48 \<Longrightarrow>
    parseInode i (stampLegacy off t raw) = Inr (inode\<lparr>iRaw := stampLegacy off t raw\<rparr>)"
  by (auto simp: parseInode_def field_frame buf_simps split: if_splits)

lemma fork_put_core [simp]:
  "dataFork (inode\<lparr>iRaw := put16 2 v raw\<rparr>) = drop 176 raw" "dataFork (inode\<lparr>iRaw := put32 12 g (put32 8 u raw)\<rparr>) = drop 176 raw"
  "off + 8 \<le> 176 \<Longrightarrow> dataFork (inode\<lparr>iRaw := stampLegacy off t raw\<rparr>) = drop 176 raw"
  by (simp_all add: dataFork_def stampLegacy_def put_defs drop_patch_before)

definition attr_change :: "superblock \<Rightarrow> (inode \<Rightarrow> inode) \<Rightarrow> bool" where
  "attr_change sb f \<longleftrightarrow> (\<forall>i. inode_wf sb i \<longrightarrow> inode_wf sb (f i) \<and> same_content i (f i))"

lemma attr_change_comp: "attr_change sb f \<Longrightarrow> attr_change sb g \<Longrightarrow> attr_change sb (\<lambda>i. g (f i))"
  by (simp add: attr_change_def same_content_def)

lemma attr_change_time: "off = 32 \<or> off = 40 \<or> off = 48 \<Longrightarrow> attr_change sb (writeXfsLegacyTimespec off t)"
  by (auto simp: attr_change_def inode_wf_def writeXfsLegacyTimespec_def same_content_def parse_stamp_time dataFork_def [symmetric])

lemma attr_change_ctime: "attr_change sb (bumpCTime clk)"
  using attr_change_time [of 48 sb "clkNow clk"] by (simp add: bumpCTime_def [abs_def] writeXfsLegacyTimespec_def [abs_def])

lemma attr_change_owner: "attr_change sb (setOwner uid gid)"
  by (auto simp: attr_change_def inode_wf_def setOwner_def same_content_def parse_put_owner dataFork_def [symmetric])

lemma new_mode:
  "((m AND NOT 0xFFF) OR (x AND 0xFFF)) AND 0xF000 = m AND (0xF000 :: u16)" "((m AND NOT 0xFFF) OR (x AND 0xFFF)) AND 0xFFF = x AND (0xFFF :: u16)"
  by (simp_all add: bit.conj_disj_distrib2 and.assoc)

lemma parse_mode: "parseInode i raw = Inr inode \<Longrightarrow> be16 raw 2 = iMode inode"
  by (auto simp: parseInode_def split: if_splits)

lemma setPerm_spec:
  assumes "inode_wf sb inode"
  shows "inode_wf sb (setPerm perm inode)" "same_content inode (setPerm perm inode)" "iMode (setPerm perm inode) AND 0xFFF = ucast perm AND 0xFFF"
proof -
  have len: "176 \<le> length (iRaw inode)" and p: "parseInode (iNum inode) (iRaw inode) = Inr inode" using assms by (simp_all add: inode_wf_def)
  let ?m = "(iMode inode AND NOT 0xFFF) OR (ucast perm AND 0xFFF)"
  have e: "setPerm perm inode = inode\<lparr>iRaw := put16 2 ?m (iRaw inode), iMode := ?m\<rparr>"
    by (simp add: setPerm_def Let_def parse_mode [OF p])
  show "inode_wf sb (setPerm perm inode)" unfolding e using assms parse_put_mode [OF len p, of ?m] by (simp add: inode_wf_def)
  show "same_content inode (setPerm perm inode)" "iMode (setPerm perm inode) AND 0xFFF = ucast perm AND 0xFFF"
    unfolding e using new_mode by (simp_all add: same_content_def dataFork_def put16_def drop_patch_before)
qed

lemma attr_change_perm: "attr_change sb (setPerm perm)"
  using setPerm_spec by (simp add: attr_change_def)

lemma changeInode_spec:
  assumes f: "attr_change sb f" and p: "pathLookup sio (disk s) partOff sb p = Inr inode"
    and fit: "inodes_fit sb partOff" "ino_in_range sb (iNum inode)" "176 \<le> unat (inodeSize sb)"
  obtains d where "changeInode sio partOff sb f p s = (Inr (), s\<lparr>disk := d\<rparr>)"
    "readInode d partOff sb (iNum inode) = Inr (stampInode sb (f inode))"
    "\<forall>j x. ino_in_range sb j \<and> j \<noteq> iNum inode \<and> readInode (disk s) partOff sb j = Inr x \<longrightarrow> readInode d partOff sb j = Inr x"
proof -
  have wf: "inode_wf sb inode" by (rule readInode_wf [OF pathLookup_read [OF p] fit(3)])
  then have fi: "inode_wf sb (f inode)" "iNum (f inode) = iNum inode" using f by (auto simp: attr_change_def same_content_def)
  obtain d where d: "putInode partOff sb (f inode) s = (Inr (stampInode sb (f inode)), s\<lparr>disk := d\<rparr>)"
    "readInode d partOff sb (iNum inode) = Inr (stampInode sb (f inode))"
    "WriteAt (disk s) (inodeByteOff sb partOff (iNum inode)) (iRaw (stampInode sb (f inode))) = Inr d"
    using putInode_result [OF fit(1) _ fi(1), of s] fit(2) fi(2) by auto
  have len: "length (iRaw (stampInode sb (f inode))) = unat (inodeSize sb)" using stampInode_wf [OF fi(1)] by (simp add: inode_wf_def)
  have "readInode d partOff sb j = Inr x"
    if "ino_in_range sb j" "j \<noteq> iNum inode" "readInode (disk s) partOff sb j = Inr x" for j x
    using that(3) read_other_inode [OF fit(1,2) that(1) that(2) [symmetric] d(3) len] by (auto simp: readInode_def readBytes_def bindR_eq_Inr)
  moreover have "changeInode sio partOff sb f p s = (Inr (), s\<lparr>disk := d\<rparr>)"
    using p d(1) by (simp add: changeInode_def lookupPath_def discardIO_def bindIO_def readIO_def retIO_def)
  ultimately show ?thesis using that d(2) by blast
qed

lemma same_content_stamp: "same_content i (stampInode sb j) = same_content i j"
  by (simp add: same_content_def stampInode_def dataFork_stampInode [unfolded stampInode_def])

definition attrs_only :: "int64 \<Rightarrow> superblock \<Rightarrow> inode \<Rightarrow> dev \<Rightarrow> dev \<Rightarrow> (inode \<Rightarrow> bool) \<Rightarrow> bool" where
  "attrs_only partOff sb inode d d' Q \<longleftrightarrow>
     (\<exists>inode'. readInode d' partOff sb (iNum inode) = Inr inode' \<and> same_content inode inode' \<and> Q inode' \<and>
        isRegular inode' = isRegular inode \<and> isDir inode' = isDir inode \<and> isSymlink inode' = isSymlink inode) \<and>
     (\<forall>j x. ino_in_range sb j \<and> j \<noteq> iNum inode \<and> readInode d partOff sb j = Inr x \<longrightarrow> readInode d' partOff sb j = Inr x)"

lemma changeInode_attrs:
  assumes f: "attr_change sb f" and p: "pathLookup sio (disk s) partOff sb p = Inr inode"
    and fit: "inodes_fit sb partOff" "ino_in_range sb (iNum inode)" "176 \<le> unat (inodeSize sb)"
    and Q: "inode_wf sb inode \<Longrightarrow> Q (stampInode sb (f inode))"
  shows "\<exists>s'. changeInode sio partOff sb f p s = (Inr (), s') \<and> attrs_only partOff sb inode (disk s) (disk s') Q"
proof -
  have wf: "inode_wf sb inode" by (rule readInode_wf [OF pathLookup_read [OF p] fit(3)])
  obtain d where d: "changeInode sio partOff sb f p s = (Inr (), s\<lparr>disk := d\<rparr>)"
    "readInode d partOff sb (iNum inode) = Inr (stampInode sb (f inode))"
    "\<forall>j x. ino_in_range sb j \<and> j \<noteq> iNum inode \<and> readInode (disk s) partOff sb j = Inr x \<longrightarrow> readInode d partOff sb j = Inr x"
    by (rule changeInode_spec [OF f p fit])
  have sc: "same_content inode (stampInode sb (f inode))" using f wf by (simp add: attr_change_def same_content_stamp)
  then have t: "iMode (stampInode sb (f inode)) AND 0xF000 = iMode inode AND 0xF000" by (simp add: same_content_def)
  show ?thesis
    by (rule exI [of _ "s\<lparr>disk := d\<rparr>"]) (use d Q [OF wf] sc t in \<open>simp add: attrs_only_def isRegular_def isDir_def isSymlink_def\<close>)
qed

lemma owner_stamped:
  "176 \<le> length (iRaw i) \<Longrightarrow> be32 (iRaw (stampInode sb (bumpCTime clk (setOwner uid gid i)))) 8 = uid"
  "176 \<le> length (iRaw i) \<Longrightarrow> be32 (iRaw (stampInode sb (bumpCTime clk (setOwner uid gid i)))) 12 = gid"
  by (auto simp: stampInode_def bumpCTime_def setOwner_def get_defs buf_simps window_updateCRC put_defs)

text \<open>
  C27. \<^verbatim>\<open>Chmod\<close>, \<^verbatim>\<open>Chown\<close> and \<^verbatim>\<open>Chtimes\<close> on a path that resolves: each succeeds and the inode read
  back from disk keeps its file type (a regular file, directory or symlink stays one), its size, its
  format, its mapping and the whole of its fork, whatever bits are passed in; \<^verbatim>\<open>Chmod\<close> sets exactly
  the twelve permission bits and \<^verbatim>\<open>Chown\<close> the two owners; every other inode stays as it was.
\<close>

theorem setattr_keeps_type:
  assumes p: "pathLookup sio (disk s) partOff sb p = Inr inode"
    and fit: "inodes_fit sb partOff" "ino_in_range sb (iNum inode)" "176 \<le> unat (inodeSize sb)"
  shows "(\<exists>s'. chmodInode sio clk partOff sb p perm s = (Inr (), s') \<and>
      attrs_only partOff sb inode (disk s) (disk s') (\<lambda>i. iMode i AND 0xFFF = ucast perm AND 0xFFF)) \<and>
    (\<exists>s'. chownInode sio clk partOff sb p uid gid s = (Inr (), s') \<and>
      attrs_only partOff sb inode (disk s) (disk s') (\<lambda>i. iMode i = iMode inode \<and> be32 (iRaw i) 8 = uid \<and> be32 (iRaw i) 12 = gid)) \<and>
    (\<exists>s'. chtimesInode sio clk partOff sb p atime mtime s = (Inr (), s') \<and>
      attrs_only partOff sb inode (disk s) (disk s') (\<lambda>i. iMode i = iMode inode))"
proof (intro conjI)
  show "\<exists>s'. chmodInode sio clk partOff sb p perm s = (Inr (), s') \<and>
      attrs_only partOff sb inode (disk s) (disk s') (\<lambda>i. iMode i AND 0xFFF = ucast perm AND 0xFFF)"
    unfolding chmodInode_def
    by (rule changeInode_attrs [OF attr_change_comp [OF attr_change_perm attr_change_ctime] p fit]) (simp add: bumpCTime_def setPerm_spec(3))
  show "\<exists>s'. chownInode sio clk partOff sb p uid gid s = (Inr (), s') \<and>
      attrs_only partOff sb inode (disk s) (disk s') (\<lambda>i. iMode i = iMode inode \<and> be32 (iRaw i) 8 = uid \<and> be32 (iRaw i) 12 = gid)"
    unfolding chownInode_def
    by (rule changeInode_attrs [OF attr_change_comp [OF attr_change_owner attr_change_ctime] p fit])
      (simp add: owner_stamped inode_wf_def, simp add: bumpCTime_def setOwner_def)
  show "\<exists>s'. chtimesInode sio clk partOff sb p atime mtime s = (Inr (), s') \<and>
      attrs_only partOff sb inode (disk s) (disk s') (\<lambda>i. iMode i = iMode inode)"
    unfolding chtimesInode_def
    by (rule changeInode_attrs [OF attr_change_comp [OF attr_change_comp [OF attr_change_time attr_change_time] attr_change_ctime] p fit])
      (simp_all add: bumpCTime_def writeXfsLegacyTimespec_def)
qed

theorem setattr_keeps_type_witness:
  "\<exists>s' i. chmodInode safeio_ref clk0 0 sb_loop [47] 0x1C0 (freshAlloc loop_dev) = (Inr (), s') \<and>
     readInode (disk s') 0 sb_loop 0 = Inr i \<and> isDir i \<and> iMode i AND 0xFFF = 0x1C0"
proof -
  let ?r = "\<lparr>iNum = 0, iMode = 0x41ED, iFormat = 1, iSize = 0, iNBlocks = 0, iNExts = 0, iForkOff = 0, iRaw = loop_root\<rparr>"
  have p: "pathLookup safeio_ref (disk (freshAlloc loop_dev)) 0 sb_loop [47] = Inr ?r" using loop_path(1) by (simp add: freshAlloc_def)
  have "inodes_fit sb_loop 0" "ino_in_range sb_loop (iNum ?r)" "176 \<le> unat (inodeSize sb_loop)"
    by (simp_all add: inodes_fit_def ino_in_range_def ino_ag_def ino_block_def sb_loop_def)
  note a = setattr_keeps_type [OF p this, of clk0 "0x1C0", THEN conjunct1]
  have d: "isDir ?r" by (simp add: isDir_def)
  show ?thesis using a by (auto simp: attrs_only_def d)
qed

section \<open>Where truncation goes wrong\<close>

text \<open>
  A file kept in the inode that is extended past the fork can no longer be read: only the size is
  changed, and the reader refuses an inline size that the fork does not hold.
\<close>

lemma extended_local_unreadable:
  assumes "iFormat inode = inodeFmtLocal" and "iSize inode < newSize" and "length (dataFork inode) < unat newSize"
    and "176 \<le> length (iRaw inode)"
  shows "resizeInode sio fuel clk partOff sb inode newSize = putInode partOff sb (bumpMTimeCTime clk (setInodeSize inode newSize))"
    "readFileData sio d partOff sb (stampInode sb (bumpMTimeCTime clk (setInodeSize inode newSize))) = Some (Inl ErrInlineSize)"
proof -
  let ?i = "bumpMTimeCTime clk (setInodeSize inode newSize)"
  show "resizeInode sio fuel clk partOff sb inode newSize = putInode partOff sb ?i"
    using assms(2) by (auto simp: resizeInode_def)
  have "length (dataFork ?i) = length (dataFork inode)"
    by (simp add: dataFork_def bumpMTimeCTime_def setInodeSize_def stampLegacy_def put_defs)
  moreover have "iSize ?i = newSize" "iFormat ?i = inodeFmtLocal" using assms(1) by (simp_all add: bumpMTimeCTime_def setInodeSize_def)
  ultimately show "readFileData sio d partOff sb (stampInode sb ?i) = Some (Inl ErrInlineSize)"
    using assms(3) by (simp add: readFileData_def readInline_def)
qed

end
