(* ===== verification/Frame.thy ===== *)
theory Frame
  imports FileOps
begin

text \<open>
  What a write leaves alone: the slot of an inode lies inside one block of its group, so writing an
  inode keeps the headers, the trees and every other block of the group, and operations on the
  free-space trees keep every inode.
\<close>

section \<open>Inode slots\<close>

text \<open>Inode \<open>ino\<close> lies in a block of group \<open>ag\<close> behind the group's headers.\<close>

definition homed :: "superblock \<Rightarrow> u32 \<Rightarrow> u64 \<Rightarrow> bool" where
  "homed sb ag ino \<longleftrightarrow> ino_in_range sb ino \<and> ino_ag sb ino = unat ag \<and> 3 * unat (sectSize sb) \<le> ino_block sb ino * unat (blockSize sb)"

abbreviation slot_block :: "superblock \<Rightarrow> u64 \<Rightarrow> u32" where
  "slot_block sb ino \<equiv> of_nat (ino_block sb ino)"

lemma slot_block_facts:
  assumes "homed sb ag ino"
  shows "unat (slot_block sb ino) = ino_block sb ino" "slot_block sb ino < agBlocks sb" "body_block sb (slot_block sb ino)"
proof -
  have lt: "ino_block sb ino < unat (agBlocks sb)" using assms by (simp add: homed_def ino_in_range_def)
  then show u: "unat (slot_block sb ino) = ino_block sb ino" using unat_lt(3) [of "agBlocks sb"] by (simp add: unat_of_nat)
  then show "slot_block sb ino < agBlocks sb" using lt by (simp add: word_less_nat_alt)
  then show "body_block sb (slot_block sb ino)" using assms u by (simp add: body_block_def homed_def)
qed

lemma slot_in_block:
  assumes "inodes_fit sb partOff" and "homed sb ag ino"
  shows "group_base partOff sb ag + ino_block sb ino * unat (blockSize sb) \<le> unat partOff + ino_pos sb ino"
    "unat partOff + ino_pos sb ino + unat (inodeSize sb) \<le> group_base partOff sb ag + (ino_block sb ino + 1) * unat (blockSize sb)"
proof -
  have ag: "ino_ag sb ino = unat ag" using assms(2) by (simp add: homed_def)
  have "ino_slot sb ino < 2 ^ unat (inopBLog sb)" by (simp add: ino_slot_def)
  then have "(ino_slot sb ino + 1) * unat (inodeSize sb) \<le> 2 ^ unat (inopBLog sb) * unat (inodeSize sb)"
    by (intro mult_le_mono1) simp
  then have s: "ino_slot sb ino * unat (inodeSize sb) + unat (inodeSize sb) \<le> unat (blockSize sb)"
    using assms(1) by (simp add: inodes_fit_def)
  show "group_base partOff sb ag + ino_block sb ino * unat (blockSize sb) \<le> unat partOff + ino_pos sb ino"
    by (simp add: group_base_def ino_pos_def ag algebra_simps)
  show "unat partOff + ino_pos sb ino + unat (inodeSize sb) \<le> group_base partOff sb ag + (ino_block sb ino + 1) * unat (blockSize sb)"
    using s by (simp add: group_base_def ino_pos_def ag algebra_simps)
qed

text \<open>A read that a write to the slot cannot reach, and the other way round.\<close>

lemma slot_write_frame:
  assumes fit: "inodes_fit sb partOff" "homed sb ag ino" and w: "WriteAt d (inodeByteOff sb partOff ino) raw = Inr d'" "length raw = unat (inodeSize sb)"
    and r: "ReadAt d off n = Inr xs"
    and out: "sint off + int n \<le> int (group_base partOff sb ag + ino_block sb ino * unat (blockSize sb)) \<or>
      int (group_base partOff sb ag + (ino_block sb ino + 1) * unat (blockSize sb)) \<le> sint off"
  shows "ReadAt d' off n = Inr xs"
proof (rule file_store.rd_wr_frame [OF w(1) r])
  have "ino_in_range sb ino" using fit(2) by (simp add: homed_def)
  then show "sint off + int n \<le> sint (inodeByteOff sb partOff ino) \<or> sint (inodeByteOff sb partOff ino) + int (length raw) \<le> sint off"
    unfolding w(2) inodeByteOff_sint [OF fit(1) \<open>ino_in_range sb ino\<close>] using slot_in_block [OF fit] out by linarith
qed

lemma block_apart: "(a :: nat) \<noteq> c \<Longrightarrow> (a + 1) * B \<le> c * B \<or> (c + 1) * B \<le> a * B"
  by (cases a c rule: linorder_cases) (simp_all only: mult_le_mono1 Suc_eq_plus1 [symmetric] Suc_le_eq, simp_all)

lemma readAGBlock_ReadAt:
  assumes "group_fits partOff sb ag" and "c < agBlocks sb"
  shows "readAGBlock d partOff sb ag c = ReadAt d (partOff + fsbToPhysBlock sb (agAbsBlock sb ag c) * ucast (blockSize sb)) (unat (blockSize sb))"
  by (simp add: readAGBlock_def readRawBlock_addressable [OF block_place(1) [OF assms]])

lemma slot_keeps_block:
  assumes g: "group_fits partOff sb ag" and fit: "inodes_fit sb partOff" "homed sb ag ino"
    and w: "WriteAt d (inodeByteOff sb partOff ino) raw = Inr d'" "length raw = unat (inodeSize sb)"
    and c: "c < agBlocks sb" "unat c \<noteq> ino_block sb ino" and r: "readAGBlock d partOff sb ag c = Inr b"
  shows "readAGBlock d' partOff sb ag c = Inr b"
proof -
  let ?B = "unat (blockSize sb)"
  have "(unat c + 1) * ?B \<le> ino_block sb ino * ?B \<or> (ino_block sb ino + 1) * ?B \<le> unat c * ?B" by (rule block_apart [OF c(2)])
  then have "int (group_base partOff sb ag + unat c * ?B) + int ?B \<le> int (group_base partOff sb ag + ino_block sb ino * ?B) \<or>
      int (group_base partOff sb ag + (ino_block sb ino + 1) * ?B) \<le> int (group_base partOff sb ag + unat c * ?B)"
    unfolding of_nat_add [symmetric] of_nat_le_iff by (simp add: algebra_simps)
  then show ?thesis
    using slot_write_frame [OF fit w r [unfolded readAGBlock_ReadAt [OF g c(1)]]] unfolding readAGBlock_ReadAt [OF g c(1)] block_place(2) [OF g c(1)] by blast
qed

lemma slot_keeps_headers:
  assumes g: "group_fits partOff sb ag" and fit: "inodes_fit sb partOff" "homed sb ag ino"
    and w: "WriteAt d (inodeByteOff sb partOff ino) raw = Inr d'" "length raw = unat (inodeSize sb)"
  shows "agfBlock d partOff sb ag = Inr h \<Longrightarrow> agfBlock d' partOff sb ag = Inr h" "agiBlock d partOff sb ag = Inr h \<Longrightarrow> agiBlock d' partOff sb ag = Inr h"
proof -
  let ?S = "unat (sectSize sb)"
  have "3 * ?S \<le> ino_block sb ino * unat (blockSize sb)" using fit(2) by (simp add: homed_def)
  then have "sint (agFByteOffset sb partOff ag) + int ?S \<le> int (group_base partOff sb ag + ino_block sb ino * unat (blockSize sb))"
    "sint (agIByteOffset sb partOff ag) + int ?S \<le> int (group_base partOff sb ag + ino_block sb ino * unat (blockSize sb))"
    unfolding header_offset [OF g] by linarith+
  from disjI1 [OF this(1)] disjI1 [OF this(2)]
  show "agfBlock d partOff sb ag = Inr h \<Longrightarrow> agfBlock d' partOff sb ag = Inr h" "agiBlock d partOff sb ag = Inr h \<Longrightarrow> agiBlock d' partOff sb ag = Inr h"
    using slot_write_frame [OF fit w] by (auto simp: agfBlock_def agiBlock_def readHeader_Inr readBytes_def)
qed

lemma slot_keeps_group:
  assumes "group_ok partOff sb ag bnoRel cntRel d agf bs cs" and fit: "inodes_fit sb partOff" "homed sb ag ino"
    and w: "WriteAt d (inodeByteOff sb partOff ino) raw = Inr d'" "length raw = unat (inodeSize sb)"
    and c: "ino_block sb ino \<noteq> unat bnoRel" "ino_block sb ino \<noteq> unat cntRel"
  shows "group_ok partOff sb ag bnoRel cntRel d' agf bs cs"
proof -
  have g: "group_fits partOff sb ag" "body_block sb bnoRel" "body_block sb cntRel" using assms(1) by (auto simp: group_ok_def grp_def)
  have "bnoRel < agBlocks sb" "cntRel < agBlocks sb" using g by (auto simp: body_block_def)
  then show ?thesis
    using assms(1) c slot_keeps_block [OF g(1) fit w] slot_keeps_headers(1) [OF g(1) fit w] by (fastforce simp: group_ok_def grp_def)
qed

lemma slot_keeps_igrp:
  assumes "igrp partOff sb ag inoRel d agi rs" and fit: "inodes_fit sb partOff" "homed sb ag ino"
    and w: "WriteAt d (inodeByteOff sb partOff ino) raw = Inr d'" "length raw = unat (inodeSize sb)" and c: "ino_block sb ino \<noteq> unat inoRel"
  shows "igrp partOff sb ag inoRel d' agi rs"
proof -
  have g: "group_fits partOff sb ag" "body_block sb inoRel" using assms(1) by (auto simp: igrp_def)
  have "inoRel < agBlocks sb" using g by (auto simp: body_block_def)
  then show ?thesis
    using assms(1) c slot_keeps_block [OF g(1) fit w] slot_keeps_headers(2) [OF g(1) fit w] by (fastforce simp: igrp_def)
qed

section \<open>Conditions the free-space trees do not affect\<close>

lemma unaffected_read:
  assumes "\<And>off' n'. tree_write partOff sb ag bnoRel cntRel off' n' \<Longrightarrow> sint off + int n \<le> sint off' \<or> sint off' + int n' \<le> sint off"
  shows "unaffected partOff sb ag bnoRel cntRel (\<lambda>d. ReadAt d off n = Inr xs)"
  unfolding unaffected_def using assms file_store.rd_wr_frame by blast

lemma unaffected_block:
  assumes g: "group_fits partOff sb ag" "body_block sb c" "c \<noteq> bnoRel" "c \<noteq> cntRel"
  shows "unaffected partOff sb ag bnoRel cntRel (\<lambda>d. readAGBlock d partOff sb ag c = Inr b)"
proof -
  let ?B = "unat (blockSize sb)"
  have c: "c < agBlocks sb" "3 * unat (sectSize sb) \<le> unat c * ?B" using g(2) by (simp_all add: body_block_def)
  show ?thesis
    unfolding readAGBlock_ReadAt [OF g(1) c(1)]
  proof (rule unaffected_read)
    fix off' n' assume "tree_write partOff sb ag bnoRel cntRel off' n'"
    then consider rel where "rel = bnoRel \<or> rel = cntRel" "sint off' = int (group_base partOff sb ag + unat rel * ?B)" "n' = ?B"
      | "off' = agFByteOffset sb partOff ag" "n' = unat (sectSize sb)"
      unfolding tree_write_def by blast
    then show "sint (partOff + fsbToPhysBlock sb (agAbsBlock sb ag c) * ucast (blockSize sb)) + int ?B \<le> sint off' \<or>
        sint off' + int n' \<le> sint (partOff + fsbToPhysBlock sb (agAbsBlock sb ag c) * ucast (blockSize sb))"
    proof cases
      case 1
      have "(unat rel + 1) * ?B \<le> unat c * ?B \<or> (unat c + 1) * ?B \<le> unat rel * ?B" using 1(1) g(3,4) by (intro block_apart) (auto dest: word_unat_eq_iff [THEN iffD2])
      then have "group_base partOff sb ag + unat c * ?B + ?B \<le> group_base partOff sb ag + unat rel * ?B \<or>
          group_base partOff sb ag + unat rel * ?B + ?B \<le> group_base partOff sb ag + unat c * ?B" by (auto simp: algebra_simps)
      then show ?thesis unfolding 1(2,3) block_place(2) [OF g(1) c(1)] of_nat_add [symmetric] of_nat_le_iff .
    next
      case 2
      have "sint off' + int n' \<le> int (group_base partOff sb ag + unat c * ?B)"
        unfolding 2 header_offset(1) [OF g(1)] using c(2) by linarith
      then show ?thesis unfolding block_place(2) [OF g(1) c(1)] by blast
    qed
  qed
qed

lemma unaffected_ex: "(\<And>x. unaffected partOff sb ag bnoRel cntRel (K x)) \<Longrightarrow> unaffected partOff sb ag bnoRel cntRel (\<lambda>d. \<exists>x. K x d)"
  unfolding unaffected_def by blast

lemma unaffected_agi:
  assumes g: "group_fits partOff sb ag" "body_block sb bnoRel" "body_block sb cntRel"
  shows "unaffected partOff sb ag bnoRel cntRel (\<lambda>d. agiBlock d partOff sb ag = Inr agi)"
proof -
  have "unaffected partOff sb ag bnoRel cntRel (\<lambda>d. ReadAt d (agIByteOffset sb partOff ag) (unat (sectSize sb)) = Inr agi)"
  proof (rule unaffected_read)
    fix off' n' assume "tree_write partOff sb ag bnoRel cntRel off' n'"
    then consider rel where "rel = bnoRel \<or> rel = cntRel" "sint off' = int (group_base partOff sb ag + unat rel * unat (blockSize sb))"
      | "off' = agFByteOffset sb partOff ag" "n' = unat (sectSize sb)"
      unfolding tree_write_def by blast
    then show "sint (agIByteOffset sb partOff ag) + int (unat (sectSize sb)) \<le> sint off' \<or> sint off' + int n' \<le> sint (agIByteOffset sb partOff ag)"
    proof cases
      case 1
      then have "3 * unat (sectSize sb) \<le> unat rel * unat (blockSize sb)" using g(2,3) by (auto simp: body_block_def)
      then have "sint (agIByteOffset sb partOff ag) + int (unat (sectSize sb)) \<le> sint off'"
        unfolding 1(2) header_offset(2) [OF g(1)] by linarith
      then show ?thesis ..
    next
      case 2
      then have "sint off' + int n' \<le> sint (agIByteOffset sb partOff ag)"
        unfolding 2 header_offset [OF g(1)] by linarith
      then show ?thesis ..
    qed
  qed
  then show ?thesis
    unfolding agiBlock_def readHeader_Inr readBytes_def by (rule unaffected_conj) (simp add: unaffected_def)
qed

lemma unaffected_igrp:
  assumes g: "group_ok partOff sb ag bnoRel cntRel d agf bs cs" and i: "igrp partOff sb ag inoRel d' agi rs" and ne: "inoRel \<noteq> bnoRel" "inoRel \<noteq> cntRel"
  shows "unaffected partOff sb ag bnoRel cntRel (\<lambda>d. igrp partOff sb ag inoRel d agi rs)"
proof -
  have f: "group_fits partOff sb ag" "body_block sb bnoRel" "body_block sb cntRel" "body_block sb inoRel" "be32 agi agiOffRoot = inoRel"
    using g i by (auto simp: group_ok_def grp_def igrp_def)
  have "igrp partOff sb ag inoRel d agi rs \<longleftrightarrow> agiBlock d partOff sb ag = Inr agi \<and> (\<exists>b. readAGBlock d partOff sb ag inoRel = Inr b \<and> ileaf_ok sb b rs)" for d
    using f by (simp add: igrp_def)
  moreover have "unaffected partOff sb ag bnoRel cntRel (\<lambda>d. \<exists>b. readAGBlock d partOff sb ag inoRel = Inr b \<and> ileaf_ok sb b rs)"
    by (intro unaffected_ex unaffected_conj unaffected_block [OF f(1,4) ne]) (simp add: unaffected_def)
  ultimately show ?thesis using unaffected_conj [OF unaffected_agi [OF f(1-3)]] by simp
qed

section \<open>Reading an inode through its block\<close>

lemma block_stays:
  assumes "ReadAt d off n = Inr xs" and "WriteAt d off' ys = Inr d'"
  shows "\<exists>xs'. ReadAt d' off n = Inr xs'"
  using assms by (auto simp: ReadAt_def WriteAt_def Let_def split: if_splits)

lemma ReadAt_part:
  assumes "ReadAt d off m = Inr xs" and "sint off' = sint off + int k" and "k + n \<le> m"
  shows "ReadAt d off' n = Inr (take n (drop k xs))"
  using assms by (auto simp: ReadAt_def nat_add_distrib add.assoc intro!: nth_equalityI split: if_splits)

lemma readInode_block:
  assumes g: "group_fits partOff sb ag" and fit: "inodes_fit sb partOff" "homed sb ag ino"
    and b: "readAGBlock d partOff sb ag (slot_block sb ino) = Inr b" "readAGBlock d' partOff sb ag (slot_block sb ino) = Inr b"
  shows "readInode d' partOff sb ino = readInode d partOff sb ino"
proof -
  let ?B = "unat (blockSize sb)" and ?c = "slot_block sb ino"
  let ?o = "partOff + fsbToPhysBlock sb (agAbsBlock sb ag ?c) * ucast (blockSize sb)"
  note sb = slot_block_facts [OF fit(2)]
  have rng: "ino_in_range sb ino" using fit(2) by (simp add: homed_def)
  have o: "sint ?o = int (group_base partOff sb ag + ino_block sb ino * ?B)" using block_place(2) [OF g sb(2)] sb(1) by simp
  have le: "group_base partOff sb ag + ino_block sb ino * ?B \<le> unat partOff + ino_pos sb ino"
    "unat partOff + ino_pos sb ino + unat (inodeSize sb) \<le> group_base partOff sb ag + ino_block sb ino * ?B + ?B"
    using slot_in_block [OF fit] by (simp_all add: algebra_simps)
  have "ReadAt d'' (inodeByteOff sb partOff ino) (unat (inodeSize sb)) =
      Inr (take (unat (inodeSize sb)) (drop (unat partOff + ino_pos sb ino - (group_base partOff sb ag + ino_block sb ino * ?B)) b))"
    if r: "ReadAt d'' ?o ?B = Inr b" for d''
    by (rule ReadAt_part [OF r]) (unfold o inodeByteOff_sint [OF fit(1) rng], use le in linarith, use le in linarith)
  then show ?thesis using b unfolding readAGBlock_ReadAt [OF g sb(2)] by (simp add: readInode_def readBytes_def)
qed

section \<open>Writes to a group keep what is outside\<close>

lemma kept_outside_trans: "kept_outside partOff sb ag d d1 \<Longrightarrow> kept_outside partOff sb ag d1 d2 \<Longrightarrow> kept_outside partOff sb ag d d2"
  by (simp add: kept_outside_def)

lemma kept_outside_refl [simp]: "kept_outside partOff sb ag d d"
  by (simp add: kept_outside_def)

lemma body_within:
  assumes "body_block sb rel"
  shows "unat (sectSize sb) \<le> unat rel * unat (blockSize sb)" "3 * unat (sectSize sb) \<le> unat (agBlocks sb) * unat (blockSize sb)"
proof -
  have r: "rel < agBlocks sb" "3 * unat (sectSize sb) \<le> unat rel * unat (blockSize sb)" using assms by (simp_all add: body_block_def)
  then show "unat (sectSize sb) \<le> unat rel * unat (blockSize sb)" by linarith
  show "3 * unat (sectSize sb) \<le> unat (agBlocks sb) * unat (blockSize sb)" by (rule le_trans [OF r(2) add_leD1 [OF block_within [OF r(1)]]])
qed

lemma unaffected_outside:
  assumes g: "group_fits partOff sb ag" "body_block sb bnoRel" "body_block sb cntRel"
  shows "unaffected partOff sb ag bnoRel cntRel (kept_outside partOff sb ag d0)"
  unfolding unaffected_def
proof (intro allI impI)
  fix d off xs d' assume k: "kept_outside partOff sb ag d0 d" and w: "WriteAt d off xs = Inr d'" and t: "tree_write partOff sb ag bnoRel cntRel off (length xs)"
  let ?lo = "int (group_base partOff sb ag + unat (sectSize sb))" and ?hi = "int (group_base partOff sb ag + unat (agBlocks sb) * unat (blockSize sb))"
  consider rel where "body_block sb rel" "sint off = int (group_base partOff sb ag + unat rel * unat (blockSize sb))" "length xs = unat (blockSize sb)"
    | "sint off = int (group_base partOff sb ag + unat (sectSize sb))" "length xs = unat (sectSize sb)"
    using t g(2,3) header_offset(1) [OF g(1)] unfolding tree_write_def by metis
  then have "?lo \<le> sint off \<and> sint off + int (length xs) \<le> ?hi"
  proof cases
    case 1
    have "rel < agBlocks sb" using 1(1) by (simp add: body_block_def)
    then show ?thesis
      unfolding 1(2,3) of_nat_add [symmetric] of_nat_le_iff using body_within(1) [OF 1(1)] block_within by auto
  next
    case 2
    then show ?thesis
      unfolding 2 of_nat_add [symmetric] of_nat_le_iff using body_within(2) [OF g(2)] by linarith
  qed
  then have "kept_outside partOff sb ag d d'" using kept_outside_write [OF w] by blast
  with k show "kept_outside partOff sb ag d0 d'" by (rule kept_outside_trans)
qed

lemma slot_outside:
  assumes fit: "inodes_fit sb partOff" "homed sb ag ino" and w: "WriteAt d (inodeByteOff sb partOff ino) raw = Inr d'" "length raw = unat (inodeSize sb)"
  shows "kept_outside partOff sb ag d d'"
proof (rule kept_outside_write [OF w(1)])
  note b = slot_block_facts [OF fit(2)]
  note s = slot_in_block [OF fit]
  have r: "ino_in_range sb ino" using fit(2) by (simp add: homed_def)
  show "int (group_base partOff sb ag + unat (sectSize sb)) \<le> sint (inodeByteOff sb partOff ino)"
    unfolding inodeByteOff_sint [OF fit(1) r] of_nat_le_iff using s(1) body_within(1) [OF b(3)] b(1) by simp
  show "sint (inodeByteOff sb partOff ino) + int (length raw) \<le> int (group_base partOff sb ag + unat (agBlocks sb) * unat (blockSize sb))"
    unfolding inodeByteOff_sint [OF fit(1) r] w(2) of_nat_add [symmetric] of_nat_le_iff using s(2) block_within [OF b(2)] b(1) by simp
qed

text \<open>A run of blocks behind the headers of its group.\<close>

lemma run_outside:
  assumes f: "group_fits partOff sb ag" and run: "unat rel + unat n \<le> unat (agBlocks sb)" "0 < unat n" "3 * unat (sectSize sb) \<le> unat rel * unat (blockSize sb)"
    and w: "writeBlocksData partOff sb (agAbsBlock sb ag rel) n data d = (Inr (), d')" "length data \<le> unat n * unat (blockSize sb)"
      "run_addressable partOff sb (agAbsBlock sb ag rel) (unat n)"
  shows "kept_outside partOff sb ag d d'" "agfBlock d partOff sb ag = Inr h \<Longrightarrow> agfBlock d' partOff sb ag = Inr h" "agiBlock d partOff sb ag = Inr h \<Longrightarrow> agiBlock d' partOff sb ag = Inr h"
proof -
  let ?B = "unat (blockSize sb)" and ?A = "unat (agBlocks sb)" and ?S = "unat (sectSize sb)"
  have v: "validateGeometry sb = Inr ()" using f by (simp add: group_fits_def)
  have rel: "rel < agBlocks sb" using run by (simp add: word_less_nat_alt)
  have ph: "unat partOff + (unat (fsbToPhysBlock sb (agAbsBlock sb ag rel)) + k) * ?B = group_base partOff sb ag + (unat rel + k) * ?B" for k
    unfolding agAbsBlock_phys [OF v rel] by (simp add: group_base_def algebra_simps)
  have fr: "ReadAt d' off m = Inr xs" if "ReadAt d off m = Inr xs" "off_run partOff sb (agAbsBlock sb ag rel) (unat n) off m" for off m xs
    using writeBlocksData_spec [OF w(3,2), of d] w(1) that by auto
  have o: "off_run partOff sb (agAbsBlock sb ag rel) (unat n) off m"
    if "sint off + int m \<le> int (group_base partOff sb ag + 3 * ?S) \<or> int (group_base partOff sb ag + ?A * ?B) \<le> sint off" for off m
  proof -
    have "(unat rel + unat n) * ?B \<le> ?A * ?B" using run(1) by (rule mult_le_mono1)
    then have hi: "int (group_base partOff sb ag + (unat rel + unat n) * ?B) \<le> int (group_base partOff sb ag + ?A * ?B)" unfolding of_nat_le_iff by simp
    have lo: "int (group_base partOff sb ag + 3 * ?S) \<le> int (group_base partOff sb ag + unat rel * ?B)" unfolding of_nat_le_iff using run(3) by simp
    show ?thesis unfolding off_run_def ph ph [of 0, simplified] using that order_trans [OF _ lo] order_trans [OF hi] by blast
  qed
  have "int (group_base partOff sb ag + ?S) \<le> int (group_base partOff sb ag + 3 * ?S)" unfolding of_nat_le_iff by simp
  then show "kept_outside partOff sb ag d d'" unfolding kept_outside_def outside_def using fr o order_trans by blast
  have h: "readHeader d' sb off m = Inr xs" if "readHeader d sb off m = Inr xs" "sint off + int ?S \<le> int (group_base partOff sb ag + 3 * ?S)" for off m xs
    using that fr o by (simp add: readHeader_Inr readBytes_def)
  show "agfBlock d partOff sb ag = Inr h \<Longrightarrow> agfBlock d' partOff sb ag = Inr h" "agiBlock d partOff sb ag = Inr h \<Longrightarrow> agiBlock d' partOff sb ag = Inr h"
    unfolding agfBlock_def agiBlock_def by (rule h; simp add: header_offset [OF f])+
qed

end
