(* ===== verification/Remove.thy ===== *)
theory Remove
  imports Frame
begin

text \<open>
  Removing and renaming (delete.go, rename.go): \<^verbatim>\<open>deleteFile\<close>, the recursive \<^verbatim>\<open>deleteDir\<close>, and
  \<^verbatim>\<open>renameEntry\<close> with the update of the parent entry of a directory that moves. The recursion of
  \<^verbatim>\<open>deleteDir\<close> follows the directories on disk, which may form a cycle on a damaged image; its depth is
  a parameter, and a tree that is deeper answers \<open>OutOfFuel\<close>.
\<close>

section \<open>Deleting a file\<close>

text \<open>What is missing already counts as deleted.\<close>

definition ifFound :: "'a aio \<Rightarrow> ('a \<Rightarrow> unit aio) \<Rightarrow> unit aio" where
  "ifFound m f = (\<lambda>s. case m s of (Inr x, s') \<Rightarrow> f x s' | (Inl e, s') \<Rightarrow> if isNotFound e then (Inr (), s') else (Inl e, s'))"

definition lookupEntry :: "('g, 'v) safeio \<Rightarrow> int64 \<Rightarrow> superblock \<Rightarrow> inode \<Rightarrow> bytes \<Rightarrow> u64 aio" where
  "lookupEntry sio partOff sb dirIn name = readIO (\<lambda>s. lookupInDir sio (disk s) partOff sb dirIn name)"

text \<open>The data blocks of a file are freed; the extents of a reflinked one lose one owner each.\<close>

definition freeFileBlocks :: "('g, 'v) safeio \<Rightarrow> nat \<Rightarrow> int64 \<Rightarrow> superblock \<Rightarrow> inode \<Rightarrow> inode aio" where
  "freeFileBlocks sio fuel partOff sb inode =
     (if iFormat inode = inodeFmtExtents \<or> iFormat inode = inodeFmtBtree
      then bindIO (readIO (\<lambda>s. dirExtents sio (disk s) partOff sb inode)) (\<lambda>exts.
        if inodeIsReflinked inode
        then bindIO (forIO exts (\<lambda>e. refcountFreeExtent sio fuel partOff sb (eStartBlock e) (eCount e))) (\<lambda>_. retIO (resetFreedInodeFork inode))
        else bindIO (freeExtents sio fuel partOff sb exts) (\<lambda>_. retIO inode))
      else retIO inode)"

definition releaseInode :: "nat \<Rightarrow> int64 \<Rightarrow> superblock \<Rightarrow> inode \<Rightarrow> u64 \<Rightarrow> unit aio" where
  "releaseInode fuel partOff sb inode ino = bindIO (putInode partOff sb (zeroInode inode)) (\<lambda>_. freeInode fuel partOff sb ino)"

definition deleteFile :: "('g, 'v) safeio \<Rightarrow> nat \<Rightarrow> int64 \<Rightarrow> superblock \<Rightarrow> bytes \<Rightarrow> unit aio" where
  "deleteFile sio fuel partOff sb p =
     (let (parentPath, name) = splitParent (pathClean p) in
      ifFound (lookupPath sio partOff sb parentPath) (\<lambda>dirIn.
      ifFound (lookupEntry sio partOff sb dirIn name) (\<lambda>childIno.
      bindIO (getInode partOff sb childIno) (\<lambda>inode.
        if \<not> isRegular inode then failIO ErrNotRegular
        else bindIO (removeDirEntry sio fuel partOff sb dirIn name) (\<lambda>_.
             bindIO (freeFileBlocks sio fuel partOff sb inode) (\<lambda>inode. releaseInode fuel partOff sb inode childIno))))))"

section \<open>Deleting a directory\<close>

definition freeTreeBlocks :: "('g, 'v) safeio \<Rightarrow> nat \<Rightarrow> int64 \<Rightarrow> superblock \<Rightarrow> inode \<Rightarrow> unit aio" where
  "freeTreeBlocks sio fuel partOff sb inode =
     (if iFormat inode = inodeFmtExtents \<or> iFormat inode = inodeFmtBtree
      then bindIO (readIO (\<lambda>s. dirExtents sio (disk s) partOff sb inode)) (freeExtents sio fuel partOff sb)
      else retIO ())"

text \<open>The parent's link count goes down by one, unless it is zero.\<close>

definition dropParentLink :: "int64 \<Rightarrow> superblock \<Rightarrow> inode \<Rightarrow> unit aio" where
  "dropParentLink partOff sb dirIn =
     (let nl = be32 (iRaw dirIn) 16 in
      if nl > 0 then discardIO (putInode partOff sb (setNLink (nl - 1) dirIn)) else retIO ())"

text \<open>What is left to do once the children are gone.\<close>

definition removeEmptied :: "('g, 'v) safeio \<Rightarrow> nat \<Rightarrow> int64 \<Rightarrow> superblock \<Rightarrow> bytes \<Rightarrow> bytes \<Rightarrow> u64 \<Rightarrow> unit aio" where
  "removeEmptied sio fuel partOff sb parentPath name childIno =
     bindIO (lookupPath sio partOff sb parentPath) (\<lambda>dirIn.
     bindIO (removeDirEntry sio fuel partOff sb dirIn name) (\<lambda>dirIn.
     bindIO (dropParentLink partOff sb dirIn) (\<lambda>_.
     bindIO (getInode partOff sb childIno) (\<lambda>targetIn.
     bindIO (freeTreeBlocks sio fuel partOff sb targetIn) (\<lambda>_. releaseInode fuel partOff sb targetIn childIno)))))"

primrec deleteDir :: "nat \<Rightarrow> ('g, 'v) safeio \<Rightarrow> nat \<Rightarrow> int64 \<Rightarrow> superblock \<Rightarrow> bytes \<Rightarrow> unit aio" where
  "deleteDir 0 sio fuel partOff sb p = failIO OutOfFuel"
| "deleteDir (Suc depth) sio fuel partOff sb p =
     (let p = pathClean p; (parentPath, name) = splitParent p in
      ifFound (lookupPath sio partOff sb parentPath) (\<lambda>dirIn.
      ifFound (lookupEntry sio partOff sb dirIn name) (\<lambda>childIno.
      bindIO (getInode partOff sb childIno) (\<lambda>targetIn.
        if \<not> isDir targetIn then failIO ErrNotDir
        else bindIO (readIO (\<lambda>s. readDir sio (disk s) partOff sb targetIn)) (\<lambda>children.
             bindIO (forIO children (\<lambda>e.
               let childPath = p @ [47] @ deName e in
               if deType e = 2 then deleteDir depth sio fuel partOff sb childPath
               else deleteFile sio fuel partOff sb childPath)) (\<lambda>_.
             removeEmptied sio fuel partOff sb parentPath name childIno))))))"

section \<open>Renaming\<close>

text \<open>The search for the entry \<open>..\<close> is that of \<open>findEntryInBlock\<close>: the two loops have the same steps.\<close>

fun dotDotBlocks :: "int64 \<Rightarrow> superblock \<Rightarrow> u64 \<Rightarrow> u64 list \<Rightarrow> unit io" where
  "dotDotBlocks partOff sb newParentIno [] = retIO ()"
| "dotDotBlocks partOff sb newParentIno (b # bs) =
     bindIO (readIO (\<lambda>d. readRawBlock d partOff sb b)) (\<lambda>blk.
       case findEntryInBlock blk [46, 46] (hasFType sb) (hasCRC sb) of
         None \<Rightarrow> dotDotBlocks partOff sb newParentIno bs
       | Some (off, _) \<Rightarrow>
           let blk = put64 off newParentIno blk;
               blk = (if hasCRC sb \<and> 64 \<le> length blk then updateCRC blk 4 (length blk) else blk)
           in writeRawBlock partOff sb b blk)"

definition sfDotDot :: "u64 \<Rightarrow> inode \<Rightarrow> inode res" where
  "sfDotDot newParentIno dirIn =
     (let fork = dataFork dirIn in
      if length fork < 6 then Inl ErrForkTooSmall
      else if byte_at fork 1 > 0
        then if length fork < 10 then Inl ErrForkTooSmall
             else Inr (dirIn\<lparr>iRaw := put64 178 newParentIno (iRaw dirIn)\<rparr>)
      else Inr (dirIn\<lparr>iRaw := put32 178 (ucast newParentIno) (iRaw dirIn)\<rparr>))"

definition xfsUpdateDotDot :: "('g, 'v) safeio \<Rightarrow> int64 \<Rightarrow> superblock \<Rightarrow> inode \<Rightarrow> u64 \<Rightarrow> unit aio" where
  "xfsUpdateDotDot sio partOff sb dirIn newParentIno =
     (if iFormat dirIn = inodeFmtLocal then bindIO (liftIO (sfDotDot newParentIno dirIn)) (\<lambda>dirIn. discardIO (putInode partOff sb dirIn))
      else if iFormat dirIn = inodeFmtExtents \<or> iFormat dirIn = inodeFmtBtree
        then bindIO (readIO (\<lambda>s. dirExtents sio (disk s) partOff sb dirIn)) (\<lambda>exts.
             onDisk (dotDotBlocks partOff sb newParentIno (dirDataBlocks sb exts)))
      else failIO ErrFormat)"

text \<open>An entry that already has the new name is deleted, if its kind is that of the source.\<close>

definition replaceTarget :: "nat \<Rightarrow> ('g, 'v) safeio \<Rightarrow> nat \<Rightarrow> int64 \<Rightarrow> superblock \<Rightarrow> inode \<Rightarrow> inode \<Rightarrow> bytes \<Rightarrow> bytes \<Rightarrow> unit aio" where
  "replaceTarget depth sio fuel partOff sb srcIn newParIn newName newPath =
     ifFound (lookupEntry sio partOff sb newParIn newName) (\<lambda>dstIno.
     bindIO (getInode partOff sb dstIno) (\<lambda>dstIn.
       if isDir srcIn \<and> \<not> isDir dstIn then failIO ErrNotDir
       else if \<not> isDir srcIn \<and> isDir dstIn then failIO ErrNotRegular
       else if isDir dstIn then deleteDir depth sio fuel partOff sb newPath
       else deleteFile sio fuel partOff sb newPath))"

definition ftypeOf :: "inode \<Rightarrow> byte" where
  "ftypeOf inode = (if isDir inode then 2 else if isSymlink inode then 7 else 1)"

definition moveEntry :: "('g, 'v) safeio \<Rightarrow> nat \<Rightarrow> int64 \<Rightarrow> superblock \<Rightarrow> inode \<Rightarrow> u64 \<Rightarrow> bytes \<Rightarrow> bytes \<Rightarrow> bytes \<Rightarrow> bytes \<Rightarrow> unit aio" where
  "moveEntry sio fuel partOff sb srcIn srcIno oldParPath oldName newParPath newName =
     bindIO (lookupPath sio partOff sb oldParPath) (\<lambda>_.
     bindIO (lookupPath sio partOff sb newParPath) (\<lambda>newParIn.
     bindIO (addDirEntry sio fuel partOff sb newParIn srcIno newName (ftypeOf srcIn)) (\<lambda>newParIn.
     bindIO (lookupPath sio partOff sb oldParPath) (\<lambda>oldParIn.
     bindIO (removeDirEntry sio fuel partOff sb oldParIn oldName) (\<lambda>_.
       if isDir srcIn \<and> iNum oldParIn \<noteq> iNum newParIn
       then bindIO (getInode partOff sb srcIno) (\<lambda>srcIn. xfsUpdateDotDot sio partOff sb srcIn (iNum newParIn))
       else retIO ())))))"

definition renameEntry :: "nat \<Rightarrow> ('g, 'v) safeio \<Rightarrow> nat \<Rightarrow> int64 \<Rightarrow> superblock \<Rightarrow> bytes \<Rightarrow> bytes \<Rightarrow> unit aio" where
  "renameEntry depth sio fuel partOff sb oldPath newPath =
     (let (oldParPath, oldName) = splitParent (pathClean oldPath);
          (newParPath, newName) = splitParent (pathClean newPath) in
      bindIO (lookupPath sio partOff sb oldParPath) (\<lambda>oldParIn.
      bindIO (lookupPath sio partOff sb newParPath) (\<lambda>newParIn.
      bindIO (readIO (\<lambda>s. case lookupInDir sio (disk s) partOff sb oldParIn oldName of
          Inl e \<Rightarrow> Inl (notExistIfMissing e) | Inr ino \<Rightarrow> Inr ino)) (\<lambda>srcIno.
      bindIO (getInode partOff sb srcIno) (\<lambda>srcIn.
        if iNum oldParIn = iNum newParIn \<and> oldName = newName then retIO ()
        else bindIO (replaceTarget depth sio fuel partOff sb srcIn newParIn newName (pathClean newPath)) (\<lambda>_.
             moveEntry sio fuel partOff sb srcIn srcIno oldParPath oldName newParPath newName))))))"

section \<open>Deleting a file of a short-form directory\<close>

text \<open>Inode \<open>ino\<close> of the group: in a block that holds none of the three trees.\<close>

definition slot_free_of :: "superblock \<Rightarrow> u32 \<Rightarrow> u32 \<Rightarrow> u32 \<Rightarrow> u32 \<Rightarrow> u64 \<Rightarrow> bool" where
  "slot_free_of sb ag bnoRel cntRel inoRel ino \<longleftrightarrow> homed sb ag ino \<and>
     ino_block sb ino \<noteq> unat bnoRel \<and> ino_block sb ino \<noteq> unat cntRel \<and> ino_block sb ino \<noteq> unat inoRel"

text \<open>
  A group with all its parts: both free-space trees, the inode tree, and the block of inode
  \<open>keep\<close>, read whole.
\<close>

definition group_state :: "int64 \<Rightarrow> superblock \<Rightarrow> u32 \<Rightarrow> u32 \<Rightarrow> u32 \<Rightarrow> u32 \<Rightarrow> dev \<Rightarrow> bytes \<Rightarrow> arec list \<Rightarrow> arec list \<Rightarrow> bytes \<Rightarrow> irec list \<Rightarrow> u64 \<Rightarrow> bool" where
  "group_state partOff sb ag bnoRel cntRel inoRel d agf bs cs agi rs keep \<longleftrightarrow>
     group_ok partOff sb ag bnoRel cntRel d agf bs cs \<and> igrp partOff sb ag inoRel d agi rs \<and> chunks_ok sb rs \<and> inoRel \<noteq> bnoRel \<and> inoRel \<noteq> cntRel \<and>
     (\<exists>b. readAGBlock d partOff sb ag (slot_block sb keep) = Inr b)"

lemma group_state_fits: "group_state partOff sb ag bnoRel cntRel inoRel d agf bs cs agi rs keep \<Longrightarrow> group_fits partOff sb ag"
  by (simp add: group_state_def igrp_def)

lemma state_slot_write:
  assumes g: "group_state partOff sb ag bnoRel cntRel inoRel d agf bs cs agi rs keep" and fit: "inodes_fit sb partOff"
    and i: "slot_free_of sb ag bnoRel cntRel inoRel ino" "slot_free_of sb ag bnoRel cntRel inoRel keep"
    and w: "WriteAt d (inodeByteOff sb partOff ino) raw = Inr d'" "length raw = unat (inodeSize sb)"
  shows "group_state partOff sb ag bnoRel cntRel inoRel d' agf bs cs agi rs keep"
proof -
  have h: "homed sb ag ino" "homed sb ag keep" using i by (simp_all add: slot_free_of_def)
  note k = slot_block_facts(2) [OF h(2)]
  have "\<exists>b. readAGBlock d' partOff sb ag (slot_block sb keep) = Inr b"
    using g block_stays [OF _ w(1)] unfolding group_state_def readAGBlock_ReadAt [OF group_state_fits [OF g] k] by blast
  then show ?thesis
    using g i slot_keeps_group [OF _ fit h(1) w] slot_keeps_igrp [OF _ fit h(1) w] by (auto simp: group_state_def slot_free_of_def)
qed

lemma state_free_run:
  assumes g: "group_state partOff sb ag bnoRel cntRel inoRel (disk s) agf bs cs agi rs keep" and fit: "inodes_fit sb partOff"
    and i: "slot_free_of sb ag bnoRel cntRel inoRel keep" and sio: "admits_first sio" and q: "quiet s"
    and x: "0 < n" "unat st + unat n \<le> unat (agBlocks sb)" "run_blocks (st, n) \<inter> free_set bs = {}" and room: "length bs + 3 \<le> leaf_slots sb"
  obtains d' rv agf' bs' cs' where
    "freeBlocks sio (Suc (Suc (Suc fuel))) partOff sb (agAbsBlock sb ag st) n s = (Inr (), s\<lparr>disk := d', reserve := rv\<rparr>)"
    "group_state partOff sb ag bnoRel cntRel inoRel d' agf' bs' cs' agi rs keep" "free_set bs' = free_set bs \<union> run_blocks (st, n)" "agf_step n cs' agf agf'"
    "readInode d' partOff sb keep = readInode (disk s) partOff sb keep" "kept_outside partOff sb ag (disk s) d'"
proof -
  let ?c = "slot_block sb keep"
  have h: "homed sb ag keep" "?c \<noteq> bnoRel" "?c \<noteq> cntRel" using i slot_block_facts(1) [of sb ag keep] by (auto simp: slot_free_of_def)
  obtain b where b: "readAGBlock (disk s) partOff sb ag ?c = Inr b" using g by (auto simp: group_state_def)
  let ?K = "\<lambda>d. igrp partOff sb ag inoRel d agi rs \<and> readAGBlock d partOff sb ag ?c = Inr b \<and> kept_outside partOff sb ag (disk s) d"
  have f: "group_fits partOff sb ag" by (rule group_state_fits [OF g])
  have ok: "group_ok partOff sb ag bnoRel cntRel (disk s) agf bs cs" "igrp partOff sb ag inoRel (disk s) agi rs" "inoRel \<noteq> bnoRel" "inoRel \<noteq> cntRel"
    using g by (simp_all add: group_state_def)
  have bl: "body_block sb bnoRel" "body_block sb cntRel" using ok(1) by (auto simp: group_ok_def grp_def)
  have "unaffected partOff sb ag bnoRel cntRel ?K"
    by (rule unaffected_conj [OF unaffected_igrp [OF ok] unaffected_conj [OF unaffected_block [OF f slot_block_facts(3) [OF h(1)] h(2,3)] unaffected_outside [OF f bl]]])
  with ok(1,2) b have gw: "group_with ?K partOff sb ag bnoRel cntRel (disk s) agf bs cs" by (intro group_withI) simp_all
  obtain d' rv agf' bs' cs' where r: "freeBlocks sio (Suc (Suc (Suc fuel))) partOff sb (agAbsBlock sb ag st) n s = (Inr (), s\<lparr>disk := d', reserve := rv\<rparr>)"
    "group_with ?K partOff sb ag bnoRel cntRel d' agf' bs' cs'" "free_set bs' = free_set bs \<union> run_blocks (st, n)" "agf_step n cs' agf agf'"
    by (rule free_run [OF gw sio q x room])
  note k = group_withD [OF r(2)]
  have "readInode d' partOff sb keep = readInode (disk s) partOff sb keep"
    using readInode_block [OF f fit h(1) b] k(2) by blast
  moreover have "group_state partOff sb ag bnoRel cntRel inoRel d' agf' bs' cs' agi rs keep" using k g by (auto simp: group_state_def)
  ultimately show ?thesis using that r(1,3,4) k(2) by blast
qed

lemma state_free_inode:
  assumes g: "group_state partOff sb ag bnoRel cntRel inoRel (disk s) agf bs cs agi rs keep" and fit: "inodes_fit sb partOff" and sh: "inoShift sb \<le> 32"
    and i: "slot_free_of sb ag bnoRel cntRel inoRel keep"
    and cov: "\<exists>r\<in>set rs. unat (fst r) \<le> unat i \<and> unat i < unat (fst r) + 64" "unat i \<notin> free_inodes rs"
  obtains d' agi' rs' where "freeInode (Suc fuel) partOff sb (inoFromAGRel sb ag i) s = (Inr (), s\<lparr>disk := d'\<rparr>)"
    "group_state partOff sb ag bnoRel cntRel inoRel d' agf bs cs agi' rs' keep" "free_inodes rs' = insert (unat i) (free_inodes rs)"
    "readInode d' partOff sb keep = readInode (disk s) partOff sb keep" "kept_outside partOff sb ag (disk s) d'"
proof -
  let ?c = "slot_block sb keep"
  have h: "homed sb ag keep" "?c \<noteq> inoRel" using i slot_block_facts(1) [of sb ag keep] by (auto simp: slot_free_of_def)
  have ok: "group_ok partOff sb ag bnoRel cntRel (disk s) agf bs cs" "igrp partOff sb ag inoRel (disk s) agi rs" "chunks_ok sb rs" "inoRel \<noteq> bnoRel" "inoRel \<noteq> cntRel"
    using g by (simp_all add: group_state_def)
  obtain b where b: "readAGBlock (disk s) partOff sb ag ?c = Inr b" using g by (auto simp: group_state_def)
  obtain d' agi' rs' where r: "freeInode (Suc fuel) partOff sb (inoFromAGRel sb ag i) s = (Inr (), s\<lparr>disk := d'\<rparr>)"
    "igrp partOff sb ag inoRel d' agi' rs'" "chunks_ok sb rs'" "free_inodes rs' = insert (unat i) (free_inodes rs)" "rest_kept partOff sb ag inoRel (disk s) d'"
    using free_inode [OF ok(2,3) sh cov, of fuel] by blast
  have b': "readAGBlock d' partOff sb ag ?c = Inr b"
    using r(5) b h slot_block_facts(3) [OF h(1)] unfolding rest_kept_def by blast
  moreover have "readInode d' partOff sb keep = readInode (disk s) partOff sb keep"
    by (rule readInode_block [OF group_state_fits [OF g] fit h(1) b b'])
  moreover have "group_ok partOff sb ag bnoRel cntRel d' agf bs cs" by (rule group_ok_rest [OF ok(1) r(5) ok(4,5)])
  moreover have "kept_outside partOff sb ag (disk s) d'" using r(5) by (simp add: rest_kept_def)
  ultimately show ?thesis using that r(1-4) ok(4,5) unfolding group_state_def by blast
qed

lemma sf_remove_wf:
  assumes "inode_wf sb inode" and "removeSFEntry inode name sb = Inr inode'"
  shows "inode_wf sb inode'" "iNum inode' = iNum inode" "iFormat inode' = iFormat inode" "iMode inode' = iMode inode"
proof -
  have len: "176 \<le> length (iRaw inode)" using assms(1) by (simp add: inode_wf_def)
  obtain f v where f: "inode' = setInodeSize (inode\<lparr>iRaw := take 176 (iRaw inode) @ f\<rparr>) v" "length f = length (dataFork inode)"
    using assms(2) unfolding removeSFEntry_def by (auto simp: Let_def bindR_eq_Inr split: if_splits prod.splits)
  have "take 176 (iRaw inode) @ f = patch 176 f (iRaw inode)"
    using f(2) len by (simp add: patch_def dataFork_def)
  then show "inode_wf sb inode'" "iNum inode' = iNum inode" "iFormat inode' = iFormat inode" "iMode inode' = iMode inode"
    using inode_wf_setters(1) [OF inode_wf_fork [OF assms(1), of 176 f]] f(1) by simp_all
qed

text \<open>
  What \<^verbatim>\<open>deleteFile\<close> acts on: an entry of a short-form directory that names a regular file with
  one extent of its own, all in one group, the run and the inode in use.
\<close>

definition plain_file :: "superblock \<Rightarrow> u32 \<Rightarrow> inode \<Rightarrow> u32 \<Rightarrow> u32 \<Rightarrow> bool" where
  "plain_file sb ag inode st n \<longleftrightarrow> isRegular inode \<and> iFormat inode = inodeFmtExtents \<and> \<not> inodeIsReflinked inode \<and>
     (\<exists>e. inlineExtents inode = Inr [e] \<and> eStartBlock e = agAbsBlock sb ag st \<and> eCount e = n) \<and>
     0 < n \<and> unat st + unat n \<le> unat (agBlocks sb)"

definition sf_entry :: "superblock \<Rightarrow> inode \<Rightarrow> bytes \<Rightarrow> u64 \<Rightarrow> bool" where
  "sf_entry sb dirIn name ino \<longleftrightarrow> iFormat dirIn = inodeFmtLocal \<and> sf_wf (dataFork dirIn) (hasFType sb) \<and>
     sfLookup (dataFork dirIn) name (hasFType sb) = Inr ino"

definition entry_removed :: "('g, 'v) safeio \<Rightarrow> int64 \<Rightarrow> superblock \<Rightarrow> inode \<Rightarrow> bytes \<Rightarrow> dev \<Rightarrow> bool" where
  "entry_removed sio partOff sb dirIn name d \<longleftrightarrow>
     (\<exists>dir1 xs x ys. readInode d partOff sb (iNum dirIn) = Inr dir1 \<and> sfReadDir (dataFork dirIn) (hasFType sb) = xs @ x # ys \<and>
        deName x = name \<and> (\<forall>y\<in>set xs. deName y \<noteq> name) \<and> iFormat dir1 = inodeFmtLocal \<and> iMode dir1 = iMode dirIn \<and> readDir sio d partOff sb dir1 = Inr (xs @ ys))"

lemma remove_entry:
  assumes fit: "inodes_fit sb partOff" "ino_in_range sb (iNum dirIn)" "inode_wf sb dirIn" and e: "sf_entry sb dirIn name ino"
  obtains dir1 d where "removeDirEntry sio fuel partOff sb dirIn name s = (Inr dir1, s\<lparr>disk := d\<rparr>)"
    "WriteAt (disk s) (inodeByteOff sb partOff (iNum dirIn)) (iRaw dir1) = Inr d" "length (iRaw dir1) = unat (inodeSize sb)"
    "readInode d partOff sb (iNum dirIn) = Inr dir1"
    "\<forall>d'. readInode d' partOff sb (iNum dirIn) = Inr dir1 \<longrightarrow> entry_removed sio partOff sb dirIn name d'"
proof -
  have l: "iFormat dirIn = inodeFmtLocal" "sf_wf (dataFork dirIn) (hasFType sb)" "sfLookup (dataFork dirIn) name (hasFType sb) = Inr ino"
    using e by (simp_all add: sf_entry_def)
  have "176 \<le> length (iRaw dirIn)" using fit(3) by (simp add: inode_wf_def)
  note rm = sf_removed [OF l(2) this, of name]
  have "\<exists>x\<in>set (sfReadDir (dataFork dirIn) (hasFType sb)). deName x = name"
    using l(3) by (auto simp: sfLookup_find find_None_iff find_Some_iff split: option.splits)
  then obtain dir0 where dir0: "removeSFEntry dirIn name sb = Inr dir0" using rm by (cases "removeSFEntry dirIn name sb") auto
  note w = sf_remove_wf [OF fit(3) dir0]
  obtain d where d: "putInode partOff sb dir0 s = (Inr (stampInode sb dir0), s\<lparr>disk := d\<rparr>)"
    "readInode d partOff sb (iNum dirIn) = Inr (stampInode sb dir0)" "WriteAt (disk s) (inodeByteOff sb partOff (iNum dirIn)) (iRaw (stampInode sb dir0)) = Inr d"
    using putInode_result [OF fit(1) _ w(1), of s] fit(2) w(2) by auto
  have "entry_removed sio partOff sb dirIn name d'" if "readInode d' partOff sb (iNum dirIn) = Inr (stampInode sb dir0)" for d'
    using rm that w(3,4) l(1) unfolding dir0 entry_removed_def by (auto simp: readDir_def)
  moreover have "length (iRaw (stampInode sb dir0)) = unat (inodeSize sb)" using stampInode_wf [OF w(1)] by (simp add: inode_wf_def)
  moreover have "removeDirEntry sio fuel partOff sb dirIn name s = (Inr (stampInode sb dir0), s\<lparr>disk := d\<rparr>)"
    using d(1) dir0 l(1) by (simp add: removeDirEntry_def bindIO_def)
  ultimately show ?thesis using that d(2,3) by blast
qed

lemma length_zeroed: "length (iRaw (stampInode sb (zeroInode inode))) = length (iRaw inode)"
  by (simp add: stampInode_def zeroInode_def put_defs)

lemma delete_file:
  assumes g: "group_state partOff sb ag bnoRel cntRel inoRel (disk s) agf bs cs agi rs (iNum dirIn)" "length bs + 3 \<le> leaf_slots sb"
    and geo: "inodes_fit sb partOff" "inoShift sb \<le> 32" "176 \<le> unat (inodeSize sb)"
    and sio: "admits_first sio" and q: "quiet s"
    and path: "splitParent (pathClean p) = (parentPath, name)" "pathLookup sio (disk s) partOff sb parentPath = Inr dirIn"
    and dir: "sf_entry sb dirIn name (inoFromAGRel sb ag i)" "slot_free_of sb ag bnoRel cntRel inoRel (iNum dirIn)"
    and reg: "readInode (disk s) partOff sb (inoFromAGRel sb ag i) = Inr inode" "plain_file sb ag inode st n"
      "slot_free_of sb ag bnoRel cntRel inoRel (inoFromAGRel sb ag i)" "inoFromAGRel sb ag i \<noteq> iNum dirIn"
    and used: "{unat st..<unat st + unat n} \<inter> free_set bs = {}" "unat i \<notin> free_inodes rs" "\<exists>r\<in>set rs. unat (fst r) \<le> unat i \<and> unat i < unat (fst r) + 64"
  obtains s' agf' bs' cs' agi' rs' where "deleteFile sio (Suc (Suc (Suc fuel))) partOff sb p s = (Inr (), s')" "entry_removed sio partOff sb dirIn name (disk s')"
    "group_state partOff sb ag bnoRel cntRel inoRel (disk s') agf' bs' cs' agi' rs' (iNum dirIn)"
    "free_set bs' = free_set bs \<union> {unat st..<unat st + unat n}" "be32 agf' 52 = be32 agf 52 + n"
    "free_inodes rs' = insert (unat i) (free_inodes rs)" "quiet s'" "kept_outside partOff sb ag (disk s) (disk s')"
proof -
  let ?ino = "inoFromAGRel sb ag i" and ?F = "Suc (Suc (Suc fuel))"
  have rng: "ino_in_range sb (iNum dirIn)" "ino_in_range sb ?ino" using dir(2) reg(3) by (simp_all add: slot_free_of_def homed_def)
  have wf: "inode_wf sb dirIn" "inode_wf sb inode" by (rule readInode_wf [OF pathLookup_read [OF path(2)] geo(3)], rule readInode_wf [OF reg(1) geo(3)])
  have num: "iNum inode = ?ino" using reg(1) by (auto simp: readInode_def parseInode_def bindR_eq_Inr split: if_splits)
  obtain dir1 d1 where r1: "removeDirEntry sio ?F partOff sb dirIn name s = (Inr dir1, s\<lparr>disk := d1\<rparr>)"
    "WriteAt (disk s) (inodeByteOff sb partOff (iNum dirIn)) (iRaw dir1) = Inr d1" "length (iRaw dir1) = unat (inodeSize sb)"
    "readInode d1 partOff sb (iNum dirIn) = Inr dir1"
    "\<forall>d'. readInode d' partOff sb (iNum dirIn) = Inr dir1 \<longrightarrow> entry_removed sio partOff sb dirIn name d'"
    by (rule remove_entry [OF geo(1) rng(1) wf(1) dir(1)])
  have g1: "group_state partOff sb ag bnoRel cntRel inoRel (disk (s\<lparr>disk := d1\<rparr>)) agf bs cs agi rs (iNum dirIn)" "quiet (s\<lparr>disk := d1\<rparr>)"
    using state_slot_write [OF g(1) geo(1) dir(2) dir(2) r1(2,3)] q by (simp_all add: quiet_def)
  obtain e where e: "inlineExtents inode = Inr [e]" "eStartBlock e = agAbsBlock sb ag st" "eCount e = n" "0 < n" "unat st + unat n \<le> unat (agBlocks sb)"
    "isRegular inode" "iFormat inode = inodeFmtExtents" "\<not> inodeIsReflinked inode" using reg(2) by (auto simp: plain_file_def)
  have dis: "run_blocks (st, n) \<inter> free_set bs = {}" using used(1) by (simp add: run_blocks_def)
  obtain d2 rv agf2 bs2 cs2 where r2: "freeBlocks sio ?F partOff sb (agAbsBlock sb ag st) n (s\<lparr>disk := d1\<rparr>) = (Inr (), s\<lparr>disk := d1\<rparr>\<lparr>disk := d2, reserve := rv\<rparr>)"
    "group_state partOff sb ag bnoRel cntRel inoRel d2 agf2 bs2 cs2 agi rs (iNum dirIn)" "free_set bs2 = free_set bs \<union> run_blocks (st, n)" "agf_step n cs2 agf agf2"
    "readInode d2 partOff sb (iNum dirIn) = readInode (disk (s\<lparr>disk := d1\<rparr>)) partOff sb (iNum dirIn)" "kept_outside partOff sb ag (disk (s\<lparr>disk := d1\<rparr>)) d2"
    by (rule state_free_run [OF g1(1) geo(1) dir(2) sio g1(2) e(4,5) dis g(2)])
  let ?s2 = "s\<lparr>disk := d2, reserve := rv\<rparr>" and ?z = "stampInode sb (zeroInode inode)"
  obtain d3 where r3: "putInode partOff sb (zeroInode inode) ?s2 = (Inr ?z, ?s2\<lparr>disk := d3\<rparr>)" "WriteAt d2 (inodeByteOff sb partOff ?ino) (iRaw ?z) = Inr d3"
    using writeInode_result [OF geo(1), of "zeroInode inode" d2] rng(2) num by (auto simp: putInode_def onDisk_def zeroInode_def)
  have len: "length (iRaw ?z) = unat (inodeSize sb)" using wf(2) length_zeroed by (simp add: inode_wf_def)
  have g3: "group_state partOff sb ag bnoRel cntRel inoRel (disk (?s2\<lparr>disk := d3\<rparr>)) agf2 bs2 cs2 agi rs (iNum dirIn)"
    using state_slot_write [OF r2(2) geo(1) reg(3) dir(2) r3(2) len] by simp
  have k3: "readInode d3 partOff sb (iNum dirIn) = Inr dir1"
    using r1(4) r2(5) read_other_inode [OF geo(1) rng(2,1) reg(4) r3(2) len] by (auto simp: readInode_def readBytes_def bindR_eq_Inr)
  obtain d4 agi' rs' where r4: "freeInode ?F partOff sb ?ino (?s2\<lparr>disk := d3\<rparr>) = (Inr (), ?s2\<lparr>disk := d3\<rparr>\<lparr>disk := d4\<rparr>)"
    "group_state partOff sb ag bnoRel cntRel inoRel d4 agf2 bs2 cs2 agi' rs' (iNum dirIn)" "free_inodes rs' = insert (unat i) (free_inodes rs)"
    "readInode d4 partOff sb (iNum dirIn) = readInode (disk (?s2\<lparr>disk := d3\<rparr>)) partOff sb (iNum dirIn)" "kept_outside partOff sb ag (disk (?s2\<lparr>disk := d3\<rparr>)) d4"
    by (rule state_free_inode [OF g3 geo(1,2) dir(2) used(3,2)])
  have look: "lookupInDir sio (disk s) partOff sb dirIn name = Inr ?ino" using dir(1) by (simp add: sf_entry_def lookupInDir_def)
  have "deleteFile sio ?F partOff sb p s = (Inr (), ?s2\<lparr>disk := d4\<rparr>)"
    using path look reg(1) e r1(1) r2(1) r3(1) r4(1)
    by (simp add: deleteFile_def ifFound_def lookupPath_def lookupEntry_def getInode_def bindIO_apply freeFileBlocks_def dirExtents_def freeExtents_def releaseInode_def)
  moreover have "entry_removed sio partOff sb dirIn name d4" using r1(5) r4(4) k3 by simp
  moreover have "free_set bs2 = free_set bs \<union> {unat st..<unat st + unat n}" "be32 agf2 52 = be32 agf 52 + n"
    using r2(3,4) by (simp_all add: run_blocks_def agf_step_def)
  moreover have "quiet (?s2\<lparr>disk := d4\<rparr>)" using q by (simp add: quiet_def)
  moreover have "kept_outside partOff sb ag (disk s) d4"
  proof -
    have "homed sb ag (iNum dirIn)" "homed sb ag ?ino" using dir(2) reg(3) by (simp_all add: slot_free_of_def)
    from slot_outside [OF geo(1) this(1) r1(2,3)] slot_outside [OF geo(1) this(2) r3(2) len] show ?thesis
      using r2(6) r4(5) by (simp add: kept_outside_def)
  qed
  ultimately show ?thesis using that [of "?s2\<lparr>disk := d4\<rparr>" agf2 bs2 cs2 agi' rs'] r4(2,3) by simp
qed

text \<open>
  C5. Deleting a file: on a group with single-leaf trees, for an entry of a short-form directory that
  names a regular file with one extent of its own, \<^verbatim>\<open>deleteFile\<close> succeeds. Afterwards the directory,
  read from disk again, lists exactly its other entries; exactly the blocks of the file have become
  free, and exactly its inode; both free-space trees, the inode tree and the counters are in order.
\<close>

theorem deleteFile_frees:
  assumes g: "group_state partOff sb ag bnoRel cntRel inoRel (disk s) agf bs cs agi rs (iNum dirIn)" "length bs + 3 \<le> leaf_slots sb"
    and geo: "inodes_fit sb partOff" "inoShift sb \<le> 32" "176 \<le> unat (inodeSize sb)"
    and sio: "admits_first sio" and q: "quiet s"
    and path: "splitParent (pathClean p) = (parentPath, name)" "pathLookup sio (disk s) partOff sb parentPath = Inr dirIn"
    and dir: "sf_entry sb dirIn name (inoFromAGRel sb ag i)" "slot_free_of sb ag bnoRel cntRel inoRel (iNum dirIn)"
    and reg: "readInode (disk s) partOff sb (inoFromAGRel sb ag i) = Inr inode" "plain_file sb ag inode st n"
      "slot_free_of sb ag bnoRel cntRel inoRel (inoFromAGRel sb ag i)" "inoFromAGRel sb ag i \<noteq> iNum dirIn"
    and used: "{unat st..<unat st + unat n} \<inter> free_set bs = {}" "unat i \<notin> free_inodes rs" "\<exists>r\<in>set rs. unat (fst r) \<le> unat i \<and> unat i < unat (fst r) + 64"
  shows "\<exists>s' agf' bs' cs' agi' rs'. deleteFile sio (Suc (Suc (Suc fuel))) partOff sb p s = (Inr (), s') \<and>
    entry_removed sio partOff sb dirIn name (disk s') \<and>
    group_state partOff sb ag bnoRel cntRel inoRel (disk s') agf' bs' cs' agi' rs' (iNum dirIn) \<and>
    free_set bs' = free_set bs \<union> {unat st..<unat st + unat n} \<and> be32 agf' 52 = be32 agf 52 + n \<and>
    free_inodes rs' = insert (unat i) (free_inodes rs) \<and> quiet s'"
proof -
  obtain s' agf' bs' cs' agi' rs' where "deleteFile sio (Suc (Suc (Suc fuel))) partOff sb p s = (Inr (), s')" "entry_removed sio partOff sb dirIn name (disk s')"
    "group_state partOff sb ag bnoRel cntRel inoRel (disk s') agf' bs' cs' agi' rs' (iNum dirIn)"
    "free_set bs' = free_set bs \<union> {unat st..<unat st + unat n}" "be32 agf' 52 = be32 agf 52 + n" "free_inodes rs' = insert (unat i) (free_inodes rs)" "quiet s'"
    by (rule delete_file [OF assms])
  then show ?thesis by blast
qed

text \<open>The small image with a root directory (inode 64) that lists one file (inode 65, blocks 20 and 21).\<close>

definition root_dir :: inode where
  "root_dir = emptyDirInode sb_group clk0 64 0x41ED 64"

definition del_dir :: inode where
  "del_dir = (case addEntryToSFDir root_dir 65 [97] 1 sb_group of Inr i \<Rightarrow> i)"

definition del_file :: inode where
  "del_file = (case extentsInode (newInode sb_group clk0 65 0x81A4 1) (agAbsBlock sb_group 0 20) 2 (replicate 600 7) of Inr i \<Rightarrow> i)"

definition del_state :: alloc where
  "del_state = snd (bindIO (putInode 0 sb_group del_dir) (\<lambda>_. putInode 0 sb_group del_file) (freshAlloc small_dev))"

lemma group_geometry: "inodes_fit sb_group 0" "inoShift sb_group = 7" "length (sbUuid sb_group) = 16" "rootIno sb_group = 64" "hasFType sb_group = False"
  by (simp_all add: inodes_fit_def inoShift_def sb_group_def)

lemma del_dir_facts:
  "inode_wf sb_group del_dir" "iNum del_dir = 64" "iFormat del_dir = inodeFmtLocal" "sf_wf (dataFork del_dir) False" "sfLookup (dataFork del_dir) [97] False = Inr 65"
  "sfReadDir (dataFork del_dir) False = [\<lparr>deInode = 65, deName = [97], deType = 0\<rparr>]" "sf_room sb_group del_dir [98]"
proof -
  let ?e = root_dir
  note e = emptyDirInode_wf [OF _ group_geometry(3), of 64 clk0 64 "0x41ED", folded root_dir_def, simplified]
  have r: "sfReadDir (dataFork ?e) (hasFType sb_group) = []" by (simp add: sfReadDir_def e)
  have w: "sf_wf (dataFork ?e) (hasFType sb_group)" using r by (simp add: sf_wf_def e)
  then have "sf_room sb_group ?e [97]" by (simp add: sf_room_def Let_def e group_geometry)
  from sf_room_adds [OF this] obtain i where i: "addEntryToSFDir ?e 65 [97] 1 sb_group = Inr i" by fastforce
  then have d: "del_dir = i" by (simp add: del_dir_def)
  show "inode_wf sb_group del_dir" "iNum del_dir = 64" "iFormat del_dir = inodeFmtLocal" unfolding d using sf_add_wf [OF e(1) i] e by simp_all
  have a: "sfReadDir (dataFork i) (hasFType sb_group) = [] @ [\<lparr>deInode = 65, deName = [97], deType = (if hasFType sb_group then 1 else 0)\<rparr>] \<and> sf_wf (dataFork i) (hasFType sb_group)"
    using sf_append [OF w _ _ _ i] e r by (simp add: inode_wf_def)
  then have b: "sfReadDir (dataFork i) False = [\<lparr>deInode = 65, deName = [97], deType = 0\<rparr>]" "sf_wf (dataFork i) False" by (simp_all add: group_geometry)
  then have c: "unat (byte_at (dataFork i) 0) = 1" by (simp add: sf_wf_def)
  have v: "iForkOff i = 0" "length (dataFork i) = 80" "iSize i = 14"
    using i e sf_add_wf [OF e(1) i] by (auto simp: addEntryToSFDir_def Let_def sfParentSize_def dataFork_def inode_wf_def group_geometry setInodeSize_def split: if_splits)
  have "unat (iSize i) = sfEnd (dataFork i) (hasFType sb_group) False (unat (byte_at (dataFork i) 0)) 6"
    using sf_append [OF w _ _ _ i] e by (simp add: inode_wf_def)
  then have "sfEnd (dataFork i) False False 1 6 = 14" unfolding c v(3) group_geometry(5) by simp
  then show "sfReadDir (dataFork del_dir) False = [\<lparr>deInode = 65, deName = [97], deType = 0\<rparr>]" "sf_room sb_group del_dir [98]"
    unfolding d sf_room_def Let_def c group_geometry(5) using b v by simp_all
  from a show "sf_wf (dataFork del_dir) False" "sfLookup (dataFork del_dir) [97] False = Inr 65" unfolding d by (simp_all add: sfLookup_find group_geometry)
qed

lemma newInode_private:
  assumes "176 \<le> unat (inodeSize sb)" and "length (sbUuid sb) = 16"
  shows "\<not> inodeIsReflinked (newInode sb clk ino mode nlink)"
proof -
  have z: "window o' n (replicate k (0 :: byte)) = replicate (min n (k - o')) 0" for o' n k by (simp add: window_def min_def)
  have "be_word (replicate 8 (0 :: byte)) = (0 :: u64)" by code_simp
  then show ?thesis
    using assms by (simp add: inodeIsReflinked_def newInode_def initInodeV3_def Let_def stampLegacy_def field_frame buf_simps z)
qed

lemma extentsInode_private:
  assumes "extentsInode inode b n data = Inr i" and "176 \<le> length (iRaw inode)"
  shows "inodeIsReflinked (stampInode sb i) = inodeIsReflinked inode"
  using assms
  by (auto simp: extentsInode_def writeExtentList_def inodeIsReflinked_def stampInode_def setInodeFormat_def setInodeSize_def setInodeNBlocks_def
      setInodeNExtents_def field_frame buf_simps window_updateCRC put_defs split: if_splits)

lemma del_file_facts:
  "inode_wf sb_group del_file" "iNum del_file = 65" "plain_file sb_group 0 (stampInode sb_group del_file) 20 2"
proof -
  let ?nw = "(newInode sb_group clk0 65 0x81A4 1)\<lparr>iFormat := inodeFmtLocal\<rparr>"
  have n: "inode_wf sb_group ?nw" "\<not> inodeNrext64 (iRaw ?nw)" "iNum ?nw = 65" "iMode ?nw = 0x81A4"
    by (rule newInode_wf; simp add: group_geometry)+
  obtain i where i: "extentsInode (newInode sb_group clk0 65 0x81A4 1) (agAbsBlock sb_group 0 20) 2 (replicate 600 7) = Inr i"
    "inode_wf sb_group i" "iNum i = 65" "iMode i = 0x81A4" "iFormat i = inodeFmtExtents"
    "inlineExtents i = Inr [\<lparr>eStartOff = 0, eStartBlock = agAbsBlock sb_group 0 20, eCount = 2, eUnwritten = False\<rparr>]"
    by (rule extentsInode_spec [OF n(1,2), of "agAbsBlock sb_group 0 20" 2 "iFormat (newInode sb_group clk0 65 0x81A4 1)" "replicate 600 7"])
      (use n in \<open>simp_all add: agAbsBlock_def\<close>)
  have f: "del_file = i" using i(1) by (simp add: del_file_def)
  show "inode_wf sb_group del_file" "iNum del_file = 65" unfolding f using i by simp_all
  have "\<not> inodeIsReflinked (newInode sb_group clk0 65 0x81A4 1)" by (rule newInode_private) (simp_all add: group_geometry)
  then have "\<not> inodeIsReflinked (stampInode sb_group i)" using extentsInode_private [OF i(1)] n(1) by (simp add: inode_wf_def)
  then show "plain_file sb_group 0 (stampInode sb_group del_file) 20 2"
    unfolding f plain_file_def using i by (simp add: isRegular_def inlineExtents_def)
qed

lemma del_slots: "slot_free_of sb_group 0 4 5 6 64" "slot_free_of sb_group 0 4 5 6 65" "inoFromAGRel sb_group 0 65 = 65"
  by (simp_all add: slot_free_of_def homed_def ino_in_range_def ino_ag_def ino_block_def inoShift_def sectSize_def inoFromAGRel_def)

lemma del_state_facts:
  "group_state 0 sb_group 0 4 5 6 (disk del_state) (small_part 512 512) [(8, 8)] [(8, 8)] (small_part 1024 512) [(64, 61, small_mask)] 64"
  "readInode (disk del_state) 0 sb_group 64 = Inr (stampInode sb_group del_dir)"
  "readInode (disk del_state) 0 sb_group 65 = Inr (stampInode sb_group del_file)" "quiet del_state"
proof -
  let ?s = "freshAlloc small_dev"
  have rng: "ino_in_range sb_group 64" "ino_in_range sb_group 65" using del_slots by (simp_all add: slot_free_of_def homed_def)
  obtain d1 where d1: "putInode 0 sb_group del_dir ?s = (Inr (stampInode sb_group del_dir), ?s\<lparr>disk := d1\<rparr>)"
    "readInode d1 0 sb_group 64 = Inr (stampInode sb_group del_dir)" "WriteAt (disk ?s) (inodeByteOff sb_group 0 64) (iRaw (stampInode sb_group del_dir)) = Inr d1"
    using putInode_result [OF group_geometry(1) _ del_dir_facts(1), of ?s] rng(1) del_dir_facts(2) by auto
  obtain d2 where d2: "putInode 0 sb_group del_file (?s\<lparr>disk := d1\<rparr>) = (Inr (stampInode sb_group del_file), ?s\<lparr>disk := d2\<rparr>)"
    "readInode d2 0 sb_group 65 = Inr (stampInode sb_group del_file)" "WriteAt d1 (inodeByteOff sb_group 0 65) (iRaw (stampInode sb_group del_file)) = Inr d2"
    using putInode_result [OF group_geometry(1) _ del_file_facts(1), of "?s\<lparr>disk := d1\<rparr>"] rng(2) del_file_facts(2) by auto
  have s: "del_state = ?s\<lparr>disk := d2\<rparr>" using d1(1) d2(1) by (simp add: del_state_def bindIO_def)
  have len: "length (iRaw (stampInode sb_group del_dir)) = unat (inodeSize sb_group)" "length (iRaw (stampInode sb_group del_file)) = unat (inodeSize sb_group)"
    using stampInode_wf [OF del_dir_facts(1)] stampInode_wf [OF del_file_facts(1)] by (simp_all add: inode_wf_def)
  have "unat (slot_block sb_group 64) = 32" using slot_block_facts(1) [of sb_group 0 64] del_slots(1) by (simp add: slot_free_of_def ino_block_def inoShift_def)
  then have "slot_block sb_group 64 < (64 :: u32)" by (simp add: word_less_nat_alt)
  then have "\<exists>b. readAGBlock (disk ?s) 0 sb_group 0 (slot_block sb_group 64) = Inr b" using small_block by (simp add: freshAlloc_def)
  then have "group_state 0 sb_group 0 4 5 6 (disk ?s) (small_part 512 512) [(8, 8)] [(8, 8)] (small_part 1024 512) [(64, 61, small_mask)] 64"
    using small_group small_igroup small_chunks(1) by (simp add: group_state_def)
  from state_slot_write [OF state_slot_write [OF this group_geometry(1) del_slots(1,1) d1(3) len(1)] group_geometry(1) del_slots(2,1) d2(3) len(2)]
  show "group_state 0 sb_group 0 4 5 6 (disk del_state) (small_part 512 512) [(8, 8)] [(8, 8)] (small_part 1024 512) [(64, 61, small_mask)] 64"
    by (simp add: s)
  show "readInode (disk del_state) 0 sb_group 65 = Inr (stampInode sb_group del_file)" using d2(2) by (simp add: s)
  show "readInode (disk del_state) 0 sb_group 64 = Inr (stampInode sb_group del_dir)"
    using d1(2) read_other_inode [OF group_geometry(1) rng(2,1) _ d2(3) len(2)] by (auto simp: s readInode_def readBytes_def bindR_eq_Inr)
  show "quiet del_state" using small_quiet by (simp add: s quiet_def)
qed

lemma del_path: "splitParent (pathClean [47, 97]) = ([47], [97])" "components [47] = []"
  by code_simp+

theorem deleteFile_frees_witness:
  "\<exists>s' agf' bs' cs' agi' rs'. deleteFile safeio_ref 3 0 sb_group [47, 97] del_state = (Inr (), s') \<and>
     group_state 0 sb_group 0 4 5 6 (disk s') agf' bs' cs' agi' rs' 64 \<and> free_set bs' = {8..<16} \<union> {20..<22} \<and> be32 agf' 52 = 10 \<and>
     free_inodes rs' = {67..<128} \<union> {65}"
proof -
  let ?d = "stampInode sb_group del_dir" and ?f = "stampInode sb_group del_file"
  note f = del_state_facts
  have n: "iNum ?d = 64" by (simp add: del_dir_facts)
  have p: "pathLookup safeio_ref (disk del_state) 0 sb_group [47] = Inr ?d"
    using f(2) by (simp add: pathLookup_walk del_path(2) group_geometry)
  have e: "sf_entry sb_group ?d [97] (inoFromAGRel sb_group 0 65)"
    using del_dir_facts by (simp add: sf_entry_def group_geometry del_slots(3))
  have sl: "slot_free_of sb_group 0 4 5 6 (iNum ?d)" "slot_free_of sb_group 0 4 5 6 (inoFromAGRel sb_group 0 65)" "inoFromAGRel sb_group 0 65 \<noteq> iNum ?d"
    using del_slots n by simp_all
  have r: "readInode (disk del_state) 0 sb_group (inoFromAGRel sb_group 0 65) = Inr ?f" using f(3) del_slots(3) by simp
  have u: "{unat (20 :: u32)..<unat (20 :: u32) + unat (2 :: u32)} \<inter> free_set [(8, 8)] = {}" "unat (65 :: u32) \<notin> free_inodes [(64, 61, small_mask)]"
    unfolding small_free small_chunks(2) by auto
  have "length [(8 :: u32, 8 :: u32)] + 3 \<le> leaf_slots sb_group" "inoShift sb_group \<le> 32" "176 \<le> unat (inodeSize sb_group)"
    by (simp_all add: leaf_slots_def allocMaxLeaf_def agBTreeHdrSize_def btreeHdrSize_def allocRecSize_def group_geometry)
  note t = deleteFile_frees [OF f(1) [folded n] this(1) group_geometry(1) this(2,3) safeio_ref_admits f(4) del_path(1) p e sl(1) r del_file_facts(3) sl(2,3) u, of 0]
  then obtain s' agf' bs' cs' agi' rs' where t: "deleteFile safeio_ref (Suc (Suc (Suc 0))) 0 sb_group [47, 97] del_state = (Inr (), s')"
    "group_state 0 sb_group 0 4 5 6 (disk s') agf' bs' cs' agi' rs' (iNum ?d)" "free_set bs' = free_set [(8, 8)] \<union> {unat (20 :: u32)..<unat (20 :: u32) + unat (2 :: u32)}"
    "be32 agf' 52 = be32 (small_part 512 512) 52 + 2" "free_inodes rs' = insert (unat (65 :: u32)) (free_inodes [(64, 61, small_mask)])"
    by auto
  then show ?thesis unfolding small_free small_chunks(2) Suc_numerals n small_counters(1)
    by (intro exI [of _ s'] exI [of _ agf'] exI [of _ bs'] exI [of _ cs'] exI [of _ agi'] exI [of _ rs']) auto
qed

section \<open>Renaming in the root directory\<close>

lemma lookup_root: "readInode (disk s) partOff sb (rootIno sb) = Inr dirIn \<Longrightarrow> lookupPath sio partOff sb [47] s = (Inr dirIn, s)"
  by (simp add: lookupPath_def pathLookup_walk del_path(2))

lemma sf_not_found:
  "iFormat dirIn = inodeFmtLocal \<Longrightarrow> \<forall>e\<in>set (sfReadDir (dataFork dirIn) (hasFType sb)). deName e \<noteq> name \<Longrightarrow>
    lookupInDir sio d partOff sb dirIn name = Inl ErrNotFound"
  by (simp add: lookupInDir_def sfLookup_find find_None_iff split: option.splits)

lemma find_append_found: "find P xs = Some x \<Longrightarrow> find P (xs @ ys) = Some x"
  by (induction xs) auto

text \<open>Adding an entry to a short-form directory with room, as it is then found on disk.\<close>

lemma add_entry:
  assumes fit: "inodes_fit sb partOff" "ino_in_range sb (iNum dirIn)" "inode_wf sb dirIn"
    and l: "iFormat dirIn = inodeFmtLocal" "sf_room sb dirIn name" "ino \<le> 0xFFFFFFFF"
  obtains dir1 d where "addDirEntry sio fuel partOff sb dirIn ino name ftype s = (Inr dir1, s\<lparr>disk := d\<rparr>)"
    "readInode d partOff sb (iNum dirIn) = Inr dir1" "inode_wf sb dir1" "iNum dir1 = iNum dirIn" "iFormat dir1 = inodeFmtLocal" "sf_wf (dataFork dir1) (hasFType sb)"
    "sfReadDir (dataFork dir1) (hasFType sb) = sfReadDir (dataFork dirIn) (hasFType sb) @ [\<lparr>deInode = ino, deName = name, deType = (if hasFType sb then ftype else 0)\<rparr>]"
    "WriteAt (disk s) (inodeByteOff sb partOff (iNum dirIn)) (iRaw dir1) = Inr d"
proof -
  obtain dir0 where dir0: "addEntryToSFDir dirIn ino name ftype sb = Inr dir0" using sf_room_adds [OF l(2,3)] by blast
  note w = sf_add_wf [OF fit(3) dir0]
  obtain d where d: "putInode partOff sb dir0 s = (Inr (stampInode sb dir0), s\<lparr>disk := d\<rparr>)"
    "readInode d partOff sb (iNum dirIn) = Inr (stampInode sb dir0)" "WriteAt (disk s) (inodeByteOff sb partOff (iNum dirIn)) (iRaw (stampInode sb dir0)) = Inr d"
    using putInode_result [OF fit(1) _ w(1), of s] fit(2) w(2) by auto
  have "sfReadDir (dataFork dir0) (hasFType sb) = sfReadDir (dataFork dirIn) (hasFType sb) @ [\<lparr>deInode = ino, deName = name, deType = (if hasFType sb then ftype else 0)\<rparr>] \<and>
      sf_wf (dataFork dir0) (hasFType sb)"
    using sf_append [OF _ _ _ _ dir0] l(2) fit(3) by (simp add: sf_room_def Let_def inode_wf_def)
  moreover have "addDirEntry sio fuel partOff sb dirIn ino name ftype s = (Inr (stampInode sb dir0), s\<lparr>disk := d\<rparr>)"
    using d(1) dir0 l(1) by (simp add: addDirEntry_def)
  ultimately show ?thesis using that [of "stampInode sb dir0" d] d(2,3) stampInode_wf [OF w(1)] w(2,3) l(1) by simp
qed

definition other_inodes_kept :: "int64 \<Rightarrow> superblock \<Rightarrow> u64 \<Rightarrow> dev \<Rightarrow> dev \<Rightarrow> bool" where
  "other_inodes_kept partOff sb ino d d' \<longleftrightarrow>
     (\<forall>j x. ino_in_range sb j \<and> j \<noteq> ino \<and> readInode d partOff sb j = Inr x \<longrightarrow> readInode d' partOff sb j = Inr x)"

lemma slot_write_others:
  assumes "inodes_fit sb partOff" and "ino_in_range sb ino" and "WriteAt d (inodeByteOff sb partOff ino) raw = Inr d'" and "length raw = unat (inodeSize sb)"
  shows "other_inodes_kept partOff sb ino d d'"
  unfolding other_inodes_kept_def
  using read_other_inode [OF assms(1,2) _ _ assms(3,4)] by (auto simp: readInode_def readBytes_def bindR_eq_Inr)

text \<open>
  C28. Renaming an entry of the root directory, kept in short form, to a name that is not taken and
  for which there is room: \<^verbatim>\<open>renameEntry\<close> succeeds; the directory, read from disk again, lists the
  other entries in their order and then the new name for the same inode, which is found under it; the
  old name is no longer found, if it was listed once; and no other inode of the image has changed,
  the renamed one included.
\<close>

theorem renameEntry_in_root:
  assumes fit: "inodes_fit sb partOff" "176 \<le> unat (inodeSize sb)" "ino_in_range sb (rootIno sb)"
    and paths: "splitParent (pathClean oldPath) = ([47], oldName)" "splitParent (pathClean newPath) = ([47], newName)" "oldName \<noteq> newName"
    and root: "readInode (disk s) partOff sb (rootIno sb) = Inr dirIn" "sf_entry sb dirIn oldName ino"
    and new: "\<forall>e\<in>set (sfReadDir (dataFork dirIn) (hasFType sb)). deName e \<noteq> newName" "sf_room sb dirIn newName" "ino \<le> 0xFFFFFFFF"
    and src: "readInode (disk s) partOff sb ino = Inr srcIn"
  shows "\<exists>s' dir' xs x ys. renameEntry depth sio fuel partOff sb oldPath newPath s = (Inr (), s') \<and>
    readInode (disk s') partOff sb (rootIno sb) = Inr dir' \<and> sfReadDir (dataFork dirIn) (hasFType sb) = xs @ x # ys \<and> deName x = oldName \<and>
    readDir sio (disk s') partOff sb dir' = Inr (xs @ ys @ [\<lparr>deInode = ino, deName = newName, deType = (if hasFType sb then ftypeOf srcIn else 0)\<rparr>]) \<and>
    lookupInDir sio (disk s') partOff sb dir' newName = Inr ino \<and>
    ((\<forall>y\<in>set ys. deName y \<noteq> oldName) \<longrightarrow> lookupInDir sio (disk s') partOff sb dir' oldName = Inl ErrNotFound) \<and>
    other_inodes_kept partOff sb (rootIno sb) (disk s) (disk s')"
proof -
  have num: "iNum dirIn = rootIno sb" using root(1) by (auto simp: readInode_def parseInode_def bindR_eq_Inr split: if_splits)
  have wf: "inode_wf sb dirIn" by (rule readInode_wf [OF root(1) fit(2)])
  have l: "iFormat dirIn = inodeFmtLocal" "sfLookup (dataFork dirIn) oldName (hasFType sb) = Inr ino" using root(2) by (simp_all add: sf_entry_def)
  have look: "lookupInDir sio d partOff sb dirIn oldName = Inr ino" "lookupInDir sio d partOff sb dirIn newName = Inl ErrNotFound" for d
    using l sf_not_found [OF l(1) new(1)] by (simp_all add: lookupInDir_def)
  obtain dir1 d1 where a: "addDirEntry sio fuel partOff sb dirIn ino newName (ftypeOf srcIn) s = (Inr dir1, s\<lparr>disk := d1\<rparr>)"
    "readInode d1 partOff sb (rootIno sb) = Inr dir1" "inode_wf sb dir1" "iNum dir1 = rootIno sb" "iFormat dir1 = inodeFmtLocal" "sf_wf (dataFork dir1) (hasFType sb)"
    "sfReadDir (dataFork dir1) (hasFType sb) = sfReadDir (dataFork dirIn) (hasFType sb) @ [\<lparr>deInode = ino, deName = newName, deType = (if hasFType sb then ftypeOf srcIn else 0)\<rparr>]"
    "WriteAt (disk s) (inodeByteOff sb partOff (rootIno sb)) (iRaw dir1) = Inr d1"
    using add_entry [OF fit(1) _ wf l(1) new(2,3), where s = s] fit(3) num by metis
  define new where "new = \<lparr>deInode = ino, deName = newName, deType = (if hasFType sb then ftypeOf srcIn else 0)\<rparr>"
  note a7 = a(7) [folded new_def]
  have n: "deInode new = ino" "deName new = newName" by (simp_all add: new_def)
  have se: "sf_entry sb dir1 oldName ino"
    using l(2) a(5,6) a7 by (auto simp: sf_entry_def sfLookup_find find_append_found split: option.splits)
  obtain dir2 d2 where r: "removeDirEntry sio fuel partOff sb dir1 oldName (s\<lparr>disk := d1\<rparr>) = (Inr dir2, s\<lparr>disk := d1\<rparr>\<lparr>disk := d2\<rparr>)"
    "WriteAt (disk (s\<lparr>disk := d1\<rparr>)) (inodeByteOff sb partOff (rootIno sb)) (iRaw dir2) = Inr d2" "length (iRaw dir2) = unat (inodeSize sb)"
    "readInode d2 partOff sb (rootIno sb) = Inr dir2"
    "\<forall>d'. readInode d' partOff sb (rootIno sb) = Inr dir2 \<longrightarrow> entry_removed sio partOff sb dir1 oldName d'"
    by (rule remove_entry [OF fit(1) _ a(3) se, unfolded a(4), OF fit(3)])
  obtain xs' x ys' where f2: "iFormat dir2 = inodeFmtLocal" and e: "sfReadDir (dataFork dirIn) (hasFType sb) @ [new] = xs' @ x # ys'" "deName x = oldName" "\<forall>y\<in>set xs'. deName y \<noteq> oldName"
    "readDir sio d2 partOff sb dir2 = Inr (xs' @ ys')"
    using r(5) [rule_format, OF r(4)] r(4) a(4) a7 by (auto simp: entry_removed_def)
  have "ys' \<noteq> []" using e(1,2) paths(3) n by (cases ys') auto
  then obtain ys where ys: "ys' = ys @ [new]" "sfReadDir (dataFork dirIn) (hasFType sb) = xs' @ x # ys"
    using e(1) by (cases ys' rule: rev_cases) auto
  have s2: "sfReadDir (dataFork dir2) (hasFType sb) = xs' @ ys @ [new]" using e(4) f2 ys(1) by (simp add: readDir_def)
  have "\<forall>y\<in>set (xs' @ ys). deName y \<noteq> newName" using new(1) ys(2) by simp
  then have "lookupInDir sio d2 partOff sb dir2 newName = Inr ino"
    using f2 s2 n find_last [of "xs' @ ys" "\<lambda>e. deName e = newName" new] by (simp add: lookupInDir_def sfLookup_find)
  moreover have "(\<forall>y\<in>set ys. deName y \<noteq> oldName) \<longrightarrow> lookupInDir sio d2 partOff sb dir2 oldName = Inl ErrNotFound"
    by (intro impI sf_not_found [OF f2]) (use s2 e(3) n paths(3) in auto)
  moreover have "renameEntry depth sio fuel partOff sb oldPath newPath s = (Inr (), s\<lparr>disk := d2\<rparr>)"
    using paths a(1,2,4) r(1) src root(1) look num
    by (simp add: renameEntry_def bindIO_apply lookup_root getInode_def replaceTarget_def ifFound_def lookupEntry_def isNotFound_def moveEntry_def)
  moreover have "other_inodes_kept partOff sb (rootIno sb) (disk s) d2"
    using slot_write_others [OF fit(1,3) a(8)] slot_write_others [OF fit(1,3) r(2,3)] a(3) by (simp add: other_inodes_kept_def inode_wf_def)
  ultimately show ?thesis using r(4) e(2,4) ys unfolding new_def [symmetric] by (intro exI [of _ "s\<lparr>disk := d2\<rparr>"] exI) auto
qed

theorem renameEntry_in_root_witness:
  "\<exists>s' dir'. renameEntry 1 safeio_ref 3 0 sb_group [47, 97] [47, 98] del_state = (Inr (), s') \<and>
     readInode (disk s') 0 sb_group 64 = Inr dir' \<and> lookupInDir safeio_ref (disk s') 0 sb_group dir' [98] = Inr 65 \<and>
     readInode (disk s') 0 sb_group 65 = Inr (stampInode sb_group del_file)"
proof -
  let ?d = "stampInode sb_group del_dir"
  note f = del_state_facts
  have rng: "ino_in_range sb_group 64" "ino_in_range sb_group 65" using del_slots by (simp_all add: slot_free_of_def homed_def)
  have e: "sf_entry sb_group ?d [97] 65" using del_dir_facts by (simp add: sf_entry_def group_geometry)
  have ls: "sfReadDir (dataFork ?d) (hasFType sb_group) = [\<lparr>deInode = 65, deName = [97], deType = 0\<rparr>]" "sf_room sb_group ?d [98]"
    using del_dir_facts(6,7) by (simp_all add: group_geometry sf_room_def stampInode_def dataFork_stampInode [unfolded stampInode_def])
  have p: "splitParent (pathClean [47, 98]) = ([47], [98])" by code_simp
  have "readInode (disk del_state) 0 sb_group (rootIno sb_group) = Inr ?d" "ino_in_range sb_group (rootIno sb_group)" "176 \<le> unat (inodeSize sb_group)"
    using f(2) rng group_geometry(4) by simp_all
  note t = renameEntry_in_root [OF group_geometry(1) this(3,2) del_path(1) p _ this(1) e _ ls(2) _ f(3), of 1 safeio_ref 3]
  obtain s' dir' where t: "renameEntry 1 safeio_ref 3 0 sb_group [47, 97] [47, 98] del_state = (Inr (), s')"
    "readInode (disk s') 0 sb_group (rootIno sb_group) = Inr dir'" "lookupInDir safeio_ref (disk s') 0 sb_group dir' [98] = Inr 65"
    "other_inodes_kept 0 sb_group (rootIno sb_group) (disk del_state) (disk s')"
    using t ls(1) by auto
  have "readInode (disk s') 0 sb_group 65 = Inr (stampInode sb_group del_file)"
    using t(4) rng(2) f(3) group_geometry(4) by (simp add: other_inodes_kept_def)
  then show ?thesis using t(1-3) group_geometry(4) by auto
qed

end
