(* ===== verification/Format.thy ===== *)
theory Format
  imports Remove
begin

text \<open>
  Making a filesystem (format.go): the layout of a group, the images of the headers, trees, inodes,
  log and superblock, and \<^verbatim>\<open>Format\<close> up to the point where the new image is opened. Random bytes and
  the clock are parameters: \<open>rnd\<close> is what \<^verbatim>\<open>rand.Read\<close> gives, \<open>now slot\<close> the time at which an inode
  of the first chunk is made. The file is empty at the start.
\<close>

section \<open>Constants and the layout of a group\<close>

definition fmtBlockSize :: u32 where "fmtBlockSize = 4096"
definition fmtSectorSize :: nat where "fmtSectorSize = 512"
definition fmtInodeSize :: u16 where "fmtInodeSize = 512"
definition fmtInopBlock :: u16 where "fmtInopBlock = 8"
definition fmtAgBlocks :: u32 where "fmtAgBlocks = 16384"
definition fmtLogBlocks :: u32 where "fmtLogBlocks = 2560"
definition fmtBnoRoot :: u32 where "fmtBnoRoot = 1"
definition fmtCntRoot :: u32 where "fmtCntRoot = 2"
definition fmtInobtRoot :: u32 where "fmtInobtRoot = 3"
definition fmtFirstData :: u32 where "fmtFirstData = 4"
definition fmtAGFLCount :: u32 where "fmtAGFLCount = 4"
definition fmtInodesPerChunk :: u32 where "fmtInodesPerChunk = 64"
definition fmtChunkBlocks :: u32 where "fmtChunkBlocks = 8"
definition fmtInoAlignmt :: u32 where "fmtInoAlignmt = 4"
definition fmtMinSize :: int64 where "fmtMinSize = 67108864"

record agLayout =
  agflBlocks :: "u32 list"
  freeStart :: u32
  freeCount :: u32
  hasLog :: bool
  logStartRel :: u32
  hasInodeChunk :: bool
  inodeChunkBlock :: u32
  hasRefcount :: bool
  refcountRoot :: u32

definition fmtLogBlocksFor :: "bool \<Rightarrow> u32" where
  "fmtLogBlocksFor reflink = (if reflink then fmtLogBlocks + fmtInoAlignmt - 1 else fmtLogBlocks)"

definition fmtLogAG :: "u32 \<Rightarrow> u32" where
  "fmtLogAG agCnt = 0"

definition emptyLayout :: agLayout where
  "emptyLayout = \<lparr>agflBlocks = replicate 4 0, freeStart = 0, freeCount = 0, hasLog = False, logStartRel = 0,
     hasInodeChunk = False, inodeChunkBlock = 0, hasRefcount = False, refcountRoot = 0\<rparr>"

definition setAGFL :: "u32 \<Rightarrow> agLayout \<Rightarrow> agLayout" where
  "setAGFL first l = l\<lparr>agflBlocks := map (\<lambda>i. first + of_nat i) [0..<unat fmtAGFLCount]\<rparr>"

definition reserveRefcount :: "bool \<Rightarrow> agLayout \<Rightarrow> agLayout" where
  "reserveRefcount reflink l =
     (if reflink then l\<lparr>hasRefcount := True, refcountRoot := freeStart l, freeStart := freeStart l + 1\<rparr> else l)"

text \<open>The inode chunk at \<open>base\<close>, with the reference-count root in front of it if there is one.\<close>

definition placeChunk :: "bool \<Rightarrow> u32 \<Rightarrow> agLayout \<Rightarrow> agLayout" where
  "placeChunk reflink base l =
     (let l = (if reflink then l\<lparr>hasInodeChunk := True, hasRefcount := True, refcountRoot := base, inodeChunkBlock := base + 1\<rparr>
               else l\<lparr>hasInodeChunk := True, inodeChunkBlock := base\<rparr>)
      in l\<lparr>freeStart := inodeChunkBlock l + fmtChunkBlocks\<rparr>)"

definition fmtAGLayoutFor :: "u32 \<Rightarrow> u32 \<Rightarrow> bool \<Rightarrow> agLayout" where
  "fmtAGLayoutFor ag agCnt reflink =
     (let logAG = fmtLogAG agCnt; logBlocks = fmtLogBlocksFor reflink; l = emptyLayout;
          l = (if ag = 0 \<and> logAG = 0 then
                 let l = (setAGFL fmtFirstData l)\<lparr>hasLog := True, logStartRel := fmtFirstData + fmtAGFLCount\<rparr>
                 in placeChunk reflink (logStartRel l + logBlocks) l
               else if ag = 0 then placeChunk reflink (fmtFirstData + fmtAGFLCount) (setAGFL fmtFirstData l)
               else if ag = logAG then
                 reserveRefcount reflink ((setAGFL (fmtFirstData + logBlocks) l)\<lparr>hasLog := True, logStartRel := fmtFirstData,
                   freeStart := fmtFirstData + logBlocks + fmtAGFLCount\<rparr>)
               else reserveRefcount reflink ((setAGFL fmtFirstData l)\<lparr>freeStart := fmtFirstData + fmtAGFLCount\<rparr>))
      in l\<lparr>freeCount := fmtAgBlocks - freeStart l\<rparr>)"

definition fmtRootIno :: "u32 \<Rightarrow> bool \<Rightarrow> u64" where
  "fmtRootIno agCnt reflink = ucast (inodeChunkBlock (fmtAGLayoutFor 0 agCnt reflink)) * ucast fmtInopBlock"

definition fmtLogStartAbs :: "u32 \<Rightarrow> bool \<Rightarrow> u64" where
  "fmtLogStartAbs agCnt reflink =
     (let logAG = fmtLogAG agCnt in ucast logAG * ucast fmtAgBlocks + ucast (logStartRel (fmtAGLayoutFor logAG agCnt reflink)))"

definition fmtTotalFreeBlocks :: "u32 \<Rightarrow> bool \<Rightarrow> u64 \<Rightarrow> u64" where
  "fmtTotalFreeBlocks agCnt reflink dblocks =
     (let dblocks = (if dblocks = 0 then ucast agCnt * ucast fmtAgBlocks else dblocks);
          full = dblocks div ucast fmtAgBlocks
      in sum_list (map (\<lambda>ag. let agLen = (if full \<le> of_nat ag then dblocks - full * ucast fmtAgBlocks else ucast fmtAgBlocks) :: u64
           in agLen - ucast (freeStart (fmtAGLayoutFor (of_nat ag) agCnt reflink)) + ucast fmtAGFLCount) [0..<unat agCnt]))"

section \<open>The images of headers and tree roots\<close>

definition agfImage :: "agLayout \<Rightarrow> u32 \<Rightarrow> u32 \<Rightarrow> bytes \<Rightarrow> bytes" where
  "agfImage l ag agLen uuid =
     (let freeCnt = agLen - freeStart l;
          b = replicate fmtSectorSize 0;
          b = put32 0 magicAGF b; b = put32 4 1 b; b = put32 8 ag b; b = put32 12 agLen b;
          b = put32 16 fmtBnoRoot b; b = put32 20 fmtCntRoot b; b = put32 28 1 b; b = put32 32 1 b;
          b = put32 40 1 b; b = put32 44 fmtAGFLCount b; b = put32 48 fmtAGFLCount b;
          b = put32 52 freeCnt b; b = put32 56 freeCnt b; b = put32 60 0 b; b = patch 64 uuid b;
          b = (if hasRefcount l then put32 84 1 (put32 92 1 (put32 88 (refcountRoot l) b)) else b)
      in updateCRC b 216 fmtSectorSize)"

definition agiImage :: "superblock \<Rightarrow> agLayout \<Rightarrow> u32 \<Rightarrow> u32 \<Rightarrow> bytes \<Rightarrow> bytes" where
  "agiImage sb l ag agLen uuid =
     (let b = replicate fmtSectorSize 0;
          b = put32 0 magicAGI b; b = put32 4 1 b; b = put32 8 ag b; b = put32 12 agLen b;
          b = put32 20 fmtInobtRoot b; b = put32 24 1 b; b = put32 36 0xFFFFFFFF b;
          b = patch 40 (replicate 256 0xFF) b;
          b = (if hasInodeChunk l
               then put32 32 (ucast (fmtRootIno (agCount sb) (hasReflink sb))) (put32 28 (fmtInodesPerChunk - 3) (put32 16 fmtInodesPerChunk b))
               else put32 32 0xFFFFFFFF b);
          b = patch 296 uuid b
      in updateCRC b 312 fmtSectorSize)"

definition agflImage :: "agLayout \<Rightarrow> u32 \<Rightarrow> bytes \<Rightarrow> bytes" where
  "agflImage l ag uuid =
     (let b = replicate fmtSectorSize 0;
          b = put32 0 magicAGFL b; b = put32 4 ag b; b = patch 8 uuid b;
          b = patch 36 (replicate 476 0xFF) b;
          b = fold (\<lambda>i b. put32 (36 + (i + 1) * 4) (agflBlocks l ! i) b) [0..<unat fmtAGFLCount] b
      in updateCRC b 32 fmtSectorSize)"

definition magicABTB :: u32 where "magicABTB = 0x41423342"
definition magicABTC :: u32 where "magicABTC = 0x41423343"

definition fmtBtreeHeader :: "u64 \<Rightarrow> bytes \<Rightarrow> u32 \<Rightarrow> u32 \<Rightarrow> u32 \<Rightarrow> bytes" where
  "fmtBtreeHeader absBase uuid ag magic agRelBlock =
     (let b = replicate (unat fmtBlockSize) 0;
          b = put32 0 magic b; b = put16 4 0 b; b = put16 6 0 b; b = put32 8 0xFFFFFFFF b; b = put32 12 0xFFFFFFFF b;
          b = put64 16 ((absBase + ucast agRelBlock) * fmtDaddrPerBlock) b; b = patch 32 uuid b
      in put32 48 ag b)"

definition freeLeafImage :: "u64 \<Rightarrow> bytes \<Rightarrow> u32 \<Rightarrow> u32 \<Rightarrow> u32 \<Rightarrow> u32 \<Rightarrow> u32 \<Rightarrow> bytes" where
  "freeLeafImage absBase uuid ag magic agRelBlock start cnt =
     (let b = fmtBtreeHeader absBase uuid ag magic agRelBlock;
          b = put16 6 1 b; b = put32 56 start b; b = put32 60 cnt b
      in updateCRC b btreeCRCOff (unat fmtBlockSize))"

definition inobtImage :: "superblock \<Rightarrow> agLayout \<Rightarrow> u64 \<Rightarrow> bytes \<Rightarrow> u32 \<Rightarrow> bytes" where
  "inobtImage sb l absBase uuid ag =
     (let b = fmtBtreeHeader absBase uuid ag magicIAB3 fmtInobtRoot;
          b = (if hasInodeChunk l
               then put64 64 0xFFFFFFFFFFFFFFF8 (put32 60 (fmtInodesPerChunk - 3)
                 (put32 56 (ucast (fmtRootIno (agCount sb) (hasReflink sb))) (put16 6 1 b)))
               else b)
      in updateCRC b btreeCRCOff (unat fmtBlockSize))"

text \<open>The writes of \<^verbatim>\<open>fmtWriteAGLen\<close>, in their order, each at its byte offset.\<close>

definition groupWrites :: "superblock \<Rightarrow> u32 \<Rightarrow> u32 \<Rightarrow> bytes \<Rightarrow> (int64 \<times> bytes) list" where
  "groupWrites sb ag agLen uuid =
     (let agBase = ucast ag * ucast (agBlocks sb) * ucast (blockSize sb) :: int64;
          l = fmtAGLayoutFor ag (agCount sb) (hasReflink sb);
          absBase = ucast ag * ucast (agBlocks sb) :: u64;
          freeCnt = agLen - freeStart l;
          at = (\<lambda>rel :: u32. agBase + ucast rel * ucast (blockSize sb))
      in [(agFByteOffset sb 0 ag, agfImage l ag agLen uuid),
          (agIByteOffset sb 0 ag, agiImage sb l ag agLen uuid),
          (agFLByteOffset sb 0 ag, agflImage l ag uuid),
          (agBase + ucast fmtBnoRoot * ucast fmtBlockSize, freeLeafImage absBase uuid ag magicABTB fmtBnoRoot (freeStart l) freeCnt),
          (agBase + ucast fmtCntRoot * ucast fmtBlockSize, freeLeafImage absBase uuid ag magicABTC fmtCntRoot (freeStart l) freeCnt),
          (at fmtInobtRoot, inobtImage sb l absBase uuid ag)] @
         (if hasRefcount l
          then [(at (refcountRoot l), updateCRC (fmtBtreeHeader absBase uuid ag magicRefcnt (refcountRoot l)) btreeCRCOff (unat fmtBlockSize))]
          else []))"

definition writeAll :: "(int64 \<times> bytes) list \<Rightarrow> unit io" where
  "writeAll ws = forIO ws (\<lambda>(off, bs). writeIO off bs)"

definition fmtWriteAGLen :: "superblock \<Rightarrow> u32 \<Rightarrow> u32 \<Rightarrow> bytes \<Rightarrow> unit io" where
  "fmtWriteAGLen sb ag agLen uuid = writeAll (groupWrites sb ag agLen uuid)"

definition fmtWriteAG :: "superblock \<Rightarrow> bytes \<Rightarrow> u32 \<Rightarrow> unit io" where
  "fmtWriteAG sb uuid ag = fmtWriteAGLen sb ag (agLength sb ag) uuid"

section \<open>The first inodes, the log and the superblock\<close>

definition fmtBuildRootInode :: "u64 \<Rightarrow> bytes \<Rightarrow> u32 \<times> u32 \<Rightarrow> bytes" where
  "fmtBuildRootInode ino uuid now =
     (let b = initInodeV3 (replicate (unat fmtInodeSize) 0) ino 0x41ED 2 uuid now;
          b = put8 5 inodeFmtLocal b; b = put8 176 0 b; b = put8 177 0 b; b = put32 178 (ucast ino) b
      in put64 56 6 b)"

definition fmtBuildEmptyReg :: "u64 \<Rightarrow> bytes \<Rightarrow> u32 \<times> u32 \<Rightarrow> bytes" where
  "fmtBuildEmptyReg ino uuid now =
     put64 56 0 (put8 5 inodeFmtExtents (initInodeV3 (replicate (unat fmtInodeSize) 0) ino 0x8000 1 uuid now))"

definition slotImage :: "u64 \<Rightarrow> bytes \<Rightarrow> (nat \<Rightarrow> u32 \<times> u32) \<Rightarrow> nat \<Rightarrow> bytes" where
  "slotImage ino uuid now slot =
     updateCRC (if slot = 0 then fmtBuildRootInode ino uuid (now slot)
        else if slot = 1 \<or> slot = 2 then fmtBuildEmptyReg ino uuid (now slot)
        else put8 5 inodeFmtExtents (initInodeV3 (replicate (unat fmtInodeSize) 0) ino 0 0 uuid (now slot))) 100 (unat fmtInodeSize)"

definition chunkWrites :: "superblock \<Rightarrow> bytes \<Rightarrow> (nat \<Rightarrow> u32 \<times> u32) \<Rightarrow> (int64 \<times> bytes) list" where
  "chunkWrites sb uuid now =
     map (\<lambda>slot. let ino = rootIno sb + of_nat slot in (inodeByteOff sb 0 ino, slotImage ino uuid now slot)) [0..<unat fmtInodesPerChunk]"

definition fmtWriteInodeChunk :: "superblock \<Rightarrow> bytes \<Rightarrow> (nat \<Rightarrow> u32 \<times> u32) \<Rightarrow> unit io" where
  "fmtWriteInodeChunk sb uuid now = writeAll (chunkWrites sb uuid now)"

definition logHeader :: bytes where
  "logHeader =
     (let b = replicate fmtSectorSize 0;
          b = put32 0 0xFEEDBABE b; b = put32 4 1 b; b = put32 8 2 b; b = put32 12 (of_nat fmtSectorSize) b;
          b = put64 16 (push_bit 32 1) b; b = put64 24 (push_bit 32 1) b; b = put32 36 0xFFFFFFFF b; b = put32 40 1 b
      in put32 44 0xB0C0D0D0 b)"

definition logUnmount :: bytes where
  "logUnmount =
     (let b = replicate fmtSectorSize 0;
          b = put32 0 1 b; b = put32 4 8 b; b = put8 8 0xAA b; b = put8 9 0x20 b; b = put8 12 0x6E b
      in put8 13 0x55 b)"

definition logWrites :: "superblock \<Rightarrow> u32 \<Rightarrow> (int64 \<times> bytes) list" where
  "logWrites sb agCnt =
     (let logByte = fmtLogStartAbs agCnt (hasReflink sb) * ucast (blockSize sb) :: int64
      in [(logByte, logHeader), (logByte + of_nat fmtSectorSize, logUnmount)])"

definition fmtWriteLog :: "superblock \<Rightarrow> u32 \<Rightarrow> unit io" where
  "fmtWriteLog sb agCnt = writeAll (logWrites sb agCnt)"

definition buildSuperblockBuffer :: "superblock \<Rightarrow> u32 \<Rightarrow> bytes \<Rightarrow> bytes \<Rightarrow> bytes" where
  "buildSuperblockBuffer sb agCnt uuid label =
     (let root = fmtRootIno agCnt (hasReflink sb);
          dblocks = (if dBlocks sb = 0 then ucast agCnt * ucast (agBlocks sb) else dBlocks sb);
          b = replicate 512 0;
          b = put32 0 magicSB b; b = put32 4 (blockSize sb) b; b = put64 56 root b; b = put64 64 (root + 1) b; b = put64 72 (root + 2) b;
          b = put32 84 (agBlocks sb) b; b = put32 88 agCnt b;
          b = put16 100 (if quotaFlags sb \<noteq> 0 then 0xB4A5 OR 0x40 else 0xB4A5) b;
          b = put16 102 (of_nat fmtSectorSize) b; b = put16 104 (inodeSize sb) b; b = put16 106 (inopBlock sb) b;
          b = put8 121 9 b; b = put8 120 12 b; b = put8 122 9 b; b = put8 123 (inopBLog sb) b; b = put8 124 (agBlkLog sb) b; b = put8 192 0 b;
          b = put32 216 1 b; b = put32 200 0x18A b; b = put32 204 0x18A b;
          b = (if hasReflink sb then put32 212 4 b else b);
          b = put32 180 fmtInoAlignmt b; b = put8 127 25 b;
          b = put16 176 (quotaFlags sb) b; b = put64 160 (uQuotino sb) b; b = put64 168 (gQuotino sb) b; b = put64 232 (pQuotino sb) b;
          b = put64 8 dblocks b; b = put64 128 (ucast fmtInodesPerChunk) b; b = put64 136 (ucast (fmtInodesPerChunk - 3)) b;
          b = put64 144 (fmtTotalFreeBlocks agCnt (hasReflink sb) dblocks) b;
          b = put64 48 (fmtLogStartAbs agCnt (hasReflink sb)) b; b = put32 96 (fmtLogBlocksFor (hasReflink sb)) b;
          b = put32 80 1 b; b = patch 32 uuid b; b = patch 108 label b
      in updateCRC b 224 512)"

definition sbWrites :: "superblock \<Rightarrow> u32 \<Rightarrow> bytes \<Rightarrow> bytes \<Rightarrow> (int64 \<times> bytes) list" where
  "sbWrites sb agCnt uuid label =
     map (\<lambda>ag. (of_nat ag * ucast (agBlocks sb) * ucast (blockSize sb), buildSuperblockBuffer sb agCnt uuid label)) [0..<unat agCnt]"

definition fmtWriteSuperblock :: "superblock \<Rightarrow> u32 \<Rightarrow> bytes \<Rightarrow> bytes \<Rightarrow> unit io" where
  "fmtWriteSuperblock sb agCnt uuid label = writeAll (sbWrites sb agCnt uuid label)"

definition fmtWriteSecondarySB :: "int64 \<Rightarrow> superblock \<Rightarrow> u32 \<Rightarrow> u32 \<Rightarrow> bytes \<Rightarrow> bytes \<Rightarrow> unit io" where
  "fmtWriteSecondarySB partOff sb ag agCnt uuid label =
     (if ag = 0 then retIO ()
      else writeIO (partOff + ucast ag * ucast (agBlocks sb) * ucast (blockSize sb)) (buildSuperblockBuffer sb agCnt uuid label))"

section \<open>Format\<close>

record FormatConfig =
  cfgUUID :: bytes
  cfgLabel :: bytes
  cfgReflink :: bool

definition formatSb :: "u32 \<Rightarrow> bool \<Rightarrow> bytes \<Rightarrow> bytes \<Rightarrow> superblock" where
  "formatSb agCnt reflink uuid label =
     \<lparr>blockSize = fmtBlockSize, sectorSize = of_nat fmtSectorSize, agBlocks = fmtAgBlocks, agCount = agCnt,
      dBlocks = ucast agCnt * ucast fmtAgBlocks, rootIno = fmtRootIno agCnt reflink, inodeSize = fmtInodeSize,
      inopBlock = fmtInopBlock, inopBLog = 3, agBlkLog = 14, dirBlkLog = 0, hasCRC = True, hasFType = True, hasReflink = reflink,
      features2 = 0, quotaFlags = 0, uQuotino = 0, gQuotino = 0, pQuotino = 0, sbUuid = uuid, sbLabel = label, maxRead = 0\<rparr>"

definition truncateIO :: "int64 \<Rightarrow> unit io" where
  "truncateIO n = (\<lambda>d. case Truncate d n of Inl e \<Rightarrow> (Inl e, d) | Inr d' \<Rightarrow> (Inr (), d'))"

definition formatImage :: "bytes res \<Rightarrow> (nat \<Rightarrow> u32 \<times> u32) \<Rightarrow> int64 \<Rightarrow> FormatConfig \<Rightarrow> unit io" where
  "formatImage rnd now sizeBytes cfg =
     (if sint sizeBytes mod 4096 \<noteq> 0 then failIO ErrUnaligned
      else if sint sizeBytes < sint fmtMinSize then failIO ErrTooSmall
      else let agCnt = of_int (sint sizeBytes div sint fmtMinSize) :: u32 in
        bindIO (liftIO (if cfgUUID cfg = replicate 16 0 then rnd else Inr (cfgUUID cfg))) (\<lambda>uuid.
        let label = take 12 (cfgLabel cfg); sb = formatSb agCnt (cfgReflink cfg) uuid label in
        bindIO (truncateIO sizeBytes) (\<lambda>_.
        bindIO (forIO (map of_nat [0..<unat agCnt]) (fmtWriteAG sb uuid)) (\<lambda>_.
        bindIO (fmtWriteInodeChunk sb uuid now) (\<lambda>_.
        bindIO (fmtWriteLog sb agCnt) (\<lambda>_.
          fmtWriteSuperblock sb agCnt uuid label))))))"


section \<open>Writing disjoint pieces\<close>

text \<open>Two pieces of the device that do not overlap.\<close>

definition apart_writes :: "int64 \<times> bytes \<Rightarrow> int64 \<times> bytes \<Rightarrow> bool" where
  "apart_writes w w' \<longleftrightarrow> sint (fst w) + int (length (snd w)) \<le> sint (fst w') \<or> sint (fst w') + int (length (snd w')) \<le> sint (fst w)"

lemma apart_writes_sym: "apart_writes w w' \<Longrightarrow> apart_writes w' w"
  by (auto simp: apart_writes_def)

lemma writeAll_simps [simp]:
  "writeAll [] d = (Inr (), d)"
  "writeAll (w # ws) d = bindIO (writeIO (fst w) (snd w)) (\<lambda>_. writeAll ws) d"
  by (simp_all add: writeAll_def case_prod_unfold)

lemma bindIO_assoc: "bindIO (bindIO m f) g = bindIO m (\<lambda>x. bindIO (f x) g)"
  by (rule ext) (simp add: bindIO_def split: prod.splits sum.splits)

lemma writeAll_append: "writeAll (ws @ vs) = bindIO (writeAll ws) (\<lambda>_. writeAll vs)"
proof (induction ws)
  case Nil
  show ?case by (rule ext) (simp add: bindIO_apply)
next
  case (Cons w ws)
  show ?case
    by (rule ext) (simp add: Cons.IH bindIO_assoc [symmetric] fun_cong [OF bindIO_assoc] bindIO_apply split: prod.splits sum.splits)
qed

lemma writeAll_concat: "forIO xs (\<lambda>x. writeAll (f x)) = writeAll (concat (map f xs))"
proof (induction xs)
  case Nil
  show ?case by (simp add: writeAll_def)
next
  case (Cons x xs)
  then show ?case by (simp add: writeAll_append)
qed

text \<open>
  A batch of pairwise disjoint pieces is written, every piece is there at the end, and what lies
  apart from all of them has stayed.
\<close>

definition clear_of :: "(int64 \<times> bytes) list \<Rightarrow> int64 \<Rightarrow> nat \<Rightarrow> bool" where
  "clear_of ws off n \<longleftrightarrow> (\<forall>w\<in>set ws. sint off + int n \<le> sint (fst w) \<or> sint (fst w) + int (length (snd w)) \<le> sint off)"

definition written :: "(int64 \<times> bytes) list \<Rightarrow> dev \<Rightarrow> dev \<Rightarrow> bool" where
  "written ws d d' \<longleftrightarrow> (\<forall>w\<in>set ws. ReadAt d' (fst w) (length (snd w)) = Inr (snd w)) \<and>
     (\<forall>off n xs. ReadAt d off n = Inr xs \<longrightarrow> clear_of ws off n \<longrightarrow> ReadAt d' off n = Inr xs)"

lemma written_Cons:
  assumes w: "WriteAt d (fst w) (snd w) = Inr d1" and d': "written ws d1 d'" and ap: "\<forall>v\<in>set ws. apart_writes w v"
  shows "written (w # ws) d d'"
proof -
  have "clear_of ws (fst w) (length (snd w))"
    unfolding clear_of_def using ap by (simp add: apart_writes_def)
  then have same: "ReadAt d' (fst w) (length (snd w)) = Inr (snd w)"
    using d' file_store.rd_wr_same [OF w] by (simp add: written_def)
  have frame: "ReadAt d' off n = Inr xs" if "ReadAt d off n = Inr xs" and c: "clear_of (w # ws) off n" for off n xs
  proof -
    have "ReadAt d1 off n = Inr xs"
      using file_store.rd_wr_frame [OF w that(1)] c by (simp add: clear_of_def)
    moreover have "clear_of ws off n" using c by (simp add: clear_of_def)
    ultimately show ?thesis using d' by (simp add: written_def)
  qed
  have "\<forall>v\<in>set ws. ReadAt d' (fst v) (length (snd v)) = Inr (snd v)" using d' by (simp add: written_def)
  then show ?thesis unfolding written_def using same frame by simp
qed

lemma writeAll_spec:
  assumes "\<forall>w\<in>set ws. 0 \<le> sint (fst w)" and "sorted_wrt apart_writes ws"
  shows "\<exists>d'. writeAll ws d = (Inr (), d') \<and> written ws d d'"
  using assms
proof (induction ws arbitrary: d)
  case Nil
  show ?case by (simp add: written_def)
next
  case (Cons w ws)
  obtain d1 where w: "WriteAt d (fst w) (snd w) = Inr d1"
    using file_store.wr_ok [of "fst w" d "snd w"] Cons.prems(1) by auto
  obtain d' where d': "writeAll ws d1 = (Inr (), d')" "written ws d1 d'"
    using Cons.IH [of d1] Cons.prems by auto
  have "writeAll (w # ws) d = (Inr (), d')" using w d'(1) by (simp add: bindIO_apply writeIO_def)
  moreover have "written (w # ws) d d'" by (rule written_Cons [OF w d'(2)]) (use Cons.prems(2) in simp)
  ultimately show ?case by blast
qed

lemma writeAll_size:
  assumes "writeAll ws d = (Inr (), d')" and "\<forall>w\<in>set ws. 0 \<le> sint (fst w) \<and> sint (fst w) + int (length (snd w)) \<le> int (dsize d)"
  shows "dsize d' = dsize d"
  using assms
proof (induction ws arbitrary: d)
  case (Cons w ws)
  obtain d1 where w: "WriteAt d (fst w) (snd w) = Inr d1"
    using file_store.wr_ok [of "fst w" d "snd w"] Cons.prems(2) by auto
  have "dsize d1 = dsize d" using w Cons.prems(2) by (auto simp: WriteAt_def Let_def split: if_splits)
  moreover have "writeAll ws d1 = (Inr (), d')" using Cons.prems(1) w by (simp add: bindIO_apply writeIO_def)
  ultimately show ?case using Cons.IH [of d1] Cons.prems(2) by simp
qed simp

section \<open>The geometry of a formatted filesystem\<close>

definition fmt_sb :: "superblock \<Rightarrow> u32 \<Rightarrow> bool \<Rightarrow> bool" where
  "fmt_sb sb n reflink \<longleftrightarrow> blockSize sb = 4096 \<and> sectorSize sb = 512 \<and> agBlocks sb = 16384 \<and> agCount sb = n \<and>
     dBlocks sb = ucast n * 16384 \<and> rootIno sb = fmtRootIno n reflink \<and> inodeSize sb = 512 \<and> inopBlock sb = 8 \<and> inopBLog sb = 3 \<and>
     agBlkLog sb = 14 \<and> dirBlkLog sb = 0 \<and> hasCRC sb \<and> hasFType sb \<and> hasReflink sb = reflink \<and> 0 < n"

lemmas fmt_consts = fmtBlockSize_def fmtSectorSize_def fmtInodeSize_def fmtInopBlock_def fmtAgBlocks_def fmtLogBlocks_def
  fmtBnoRoot_def fmtCntRoot_def fmtInobtRoot_def fmtFirstData_def fmtAGFLCount_def fmtInodesPerChunk_def fmtChunkBlocks_def
  fmtInoAlignmt_def fmtMinSize_def

lemma formatSb_fmt: "0 < n \<Longrightarrow> fmt_sb (formatSb n reflink uuid label) n reflink"
  by (simp add: fmt_sb_def formatSb_def fmt_consts)

lemma fmt_valid:
  assumes "fmt_sb sb n reflink"
  shows "validateGeometry sb = Inr ()"
proof -
  have "onesCount (4096 :: u32) = 1" "onesCount (512 :: u16) = 1" "onesCount (8 :: u16) = 1" "bitLen (16383 :: u32) = 14"
    by code_simp+
  then show ?thesis using assms by (auto simp: fmt_sb_def validateGeometry_def)
qed

lemma fmt_sect: "fmt_sb sb n reflink \<Longrightarrow> sectSize sb = 512"
  by (simp add: fmt_sb_def sectSize_def)

lemma fmt_fits:
  assumes "fmt_sb sb n reflink"
  shows "group_fits 0 sb ag" "group_base 0 sb ag = unat ag * 67108864"
proof -
  have "unat ag < 4294967296" by (rule unat_lt)
  then show "group_fits 0 sb ag" "group_base 0 sb ag = unat ag * 67108864"
    using assms fmt_valid [OF assms] fmt_sect [OF assms] by (simp_all add: group_fits_def group_base_def sector_ok_def fmt_sb_def)
qed

text \<open>The three shapes of a group: the first one (log and inode chunk), and the others.\<close>

lemma layout_values:
  "freeStart (fmtAGLayoutFor ag n reflink) = (if ag = 0 then if reflink then 2580 else 2576 else if reflink then 9 else 8)"
  "hasInodeChunk (fmtAGLayoutFor ag n reflink) = (ag = 0)"
  "hasRefcount (fmtAGLayoutFor ag n reflink) = reflink"
  "reflink \<Longrightarrow> refcountRoot (fmtAGLayoutFor ag n reflink) = (if ag = 0 then 2571 else 8)"
  "inodeChunkBlock (fmtAGLayoutFor 0 n reflink) = (if reflink then 2572 else 2568)"
  "logStartRel (fmtAGLayoutFor 0 n reflink) = 8"
  by (simp_all add: fmtAGLayoutFor_def fmtLogAG_def Let_def emptyLayout_def setAGFL_def placeChunk_def reserveRefcount_def fmtLogBlocksFor_def fmt_consts)

lemma fmtRootIno_value: "fmtRootIno n reflink = (if reflink then 20576 else 20544)"
  by (simp add: fmtRootIno_def layout_values fmt_consts)

lemma forIO_map: "forIO (map g xs) f = forIO xs (\<lambda>x. f (g x))"
  by (induction xs) simp_all

lemma forIO_cong: "xs = ys \<Longrightarrow> (\<And>x. x \<in> set ys \<Longrightarrow> f x = g x) \<Longrightarrow> forIO xs f = forIO ys g"
  by (induction xs arbitrary: ys) auto

section \<open>Where the pieces of a new image lie\<close>

definition pos :: "int64 \<times> bytes \<Rightarrow> int \<times> int" where
  "pos w = (sint (fst w), int (length (snd w)))"

definition apart_pos :: "int \<times> int \<Rightarrow> int \<times> int \<Rightarrow> bool" where
  "apart_pos p q \<longleftrightarrow> fst p + snd p \<le> fst q \<or> fst q + snd q \<le> fst p"

lemma apart_writes_pos: "apart_writes w w' = apart_pos (pos w) (pos w')"
  by (simp add: apart_writes_def apart_pos_def pos_def)

lemma sorted_apart_pos: "sorted_wrt apart_writes ws = sorted_wrt apart_pos (map pos ws)"
  by (simp add: sorted_wrt_map apart_writes_pos [abs_def])

definition group_places :: "bool \<Rightarrow> nat \<Rightarrow> (int \<times> int) list" where
  "group_places reflink ag = map (\<lambda>(x, n). (int ag * 67108864 + x, n))
     ([(512, 512), (1024, 512), (1536, 512), (4096, 4096), (8192, 4096), (12288, 4096)] @
      (if reflink then [((if ag = 0 then 2571 else 8) * 4096, 4096)] else []))"

definition chunk_places :: "bool \<Rightarrow> (int \<times> int) list" where
  "chunk_places reflink = map (\<lambda>slot. ((if reflink then 2572 else 2568) * 4096 + 512 * int slot, 512)) [0..<64]"

definition log_places :: "(int \<times> int) list" where
  "log_places = [(32768, 512), (33280, 512)]"

definition sb_places :: "nat \<Rightarrow> (int \<times> int) list" where
  "sb_places n = map (\<lambda>ag. (int ag * 67108864, 512)) [0..<n]"

lemma block_at:
  assumes "x < 67108864"
  shows "sint (ucast (ag :: u32) * 16384 * 4096 + of_nat x :: int64) = int (unat ag) * 67108864 + int x"
proof -
  have a: "unat ag < 4294967296" by (rule unat_lt)
  have "unat (ucast ag * 67108864 :: int64) = unat ag * 67108864"
    using a by (simp add: unat_word_ariths unat_ucast_up)
  moreover have "unat (of_nat x :: int64) = x" using assms by (intro unat_of_nat_small) simp
  ultimately have "unat (ucast ag * 67108864 + of_nat x :: int64) = unat ag * 67108864 + x"
    using a assms by (subst unat_add_small) simp_all
  then have u: "unat (ucast ag * 67108864 + of_nat x :: int64) = unat ag * 67108864 + x" .
  have "sint (ucast ag * 67108864 + of_nat x :: int64) = int (unat ag * 67108864 + x)"
    using sint_unat [of "ucast ag * 67108864 + of_nat x :: int64"] a assms unfolding u by simp
  moreover have "ucast ag * 16384 * 4096 + of_nat x = (ucast ag * 67108864 + of_nat x :: int64)" by (simp add: mult.assoc)
  ultimately show ?thesis by (simp only: of_nat_add of_nat_mult of_nat_numeral)
qed

lemma length_images:
  "length (agfImage l ag agLen uuid) = 512" "length (agiImage sb l ag agLen uuid) = 512"
  "length (fmtBtreeHeader absBase uuid ag magic rel) = 4096" "length (freeLeafImage absBase uuid ag magic rel s c) = 4096"
  "length (inobtImage sb l absBase uuid ag) = 4096" "length (buildSuperblockBuffer sb agCnt uuid label) = 512"
  "length logHeader = 512" "length logUnmount = 512"
  by (simp_all add: agfImage_def agiImage_def fmtBtreeHeader_def freeLeafImage_def inobtImage_def buildSuperblockBuffer_def
    logHeader_def logUnmount_def Let_def fmt_consts)

lemma length_agflImage: "length (agflImage l ag uuid) = 512"
proof -
  have "length (fold (\<lambda>i b. put32 (f i) (v i) b) xs b) = length b" for xs :: "nat list" and f v b
    by (induction xs arbitrary: b) simp_all
  then show ?thesis by (simp add: agflImage_def Let_def fmt_consts)
qed

lemma group_pos:
  assumes "fmt_sb sb n reflink"
  shows "map pos (groupWrites sb ag len uuid) = group_places reflink (unat ag)"
proof -
  have ag: "(ag = 0) = (unat ag = 0)" by (simp add: unat_eq_zero)
  have hd: "sint (agFByteOffset sb 0 ag) = int (unat ag) * 67108864 + 512"
    "sint (agIByteOffset sb 0 ag) = int (unat ag) * 67108864 + 1024"
    "sint (agFLByteOffset sb 0 ag) = int (unat ag) * 67108864 + 1536"
    using block_at [of 512 ag] block_at [of 1024 ag] block_at [of 1536 ag] assms fmt_sect [OF assms]
    by (simp_all add: agFByteOffset_def agIByteOffset_def agFLByteOffset_def agByteOffset_def fmt_sb_def)
  show ?thesis
    using assms hd block_at [of 4096 ag] block_at [of 8192 ag] block_at [of 12288 ag] block_at [of "2571 * 4096" ag] block_at [of "8 * 4096" ag] ag
    by (simp add: groupWrites_def Let_def pos_def group_places_def layout_values length_images length_agflImage fmt_consts fmt_sb_def)
qed

lemma chunk_pos:
  assumes "fmt_sb sb n reflink" and "length uuid = 16"
  shows "map pos (chunkWrites sb uuid now) = chunk_places reflink"
proof -
  have slot: "sint (inodeByteOff sb 0 (rootIno sb + of_nat s)) = (if reflink then 2572 else 2568) * 4096 + 512 * int s" if "s < 64" for s
  proof -
    define i :: u64 where "i = rootIno sb + of_nat s"
    have r: "unat (rootIno sb) = (if reflink then 20576 else 20544)"
      using assms(1) by (simp add: fmt_sb_def fmtRootIno_value)
    have "unat i = unat (rootIno sb) + s"
      unfolding i_def using that r by (subst unat_add_small) (simp_all add: unat_of_nat_small)
    then have i: "unat i = (if reflink then 20576 else 20544) + s" using r by simp
    have x: "x div 8 * 4096 + x mod 8 * 512 = x * 512" "x < 131072 \<Longrightarrow> x div 8 < 16384" for x :: nat
      using div_mult_mod_eq [of x 8] by linarith (simp add: less_mult_imp_div_less)
    have "ino_pos sb i = (if reflink then 2572 else 2568) * 4096 + 512 * s" and "ino_in_range sb i" and "inodes_fit sb 0"
      using assms(1) i that fmt_valid [OF assms(1)] unat_lt(3) [of "agCount sb"]
      by (simp_all add: ino_pos_def ino_ag_def ino_block_def ino_slot_def ino_in_range_def inodes_fit_def inoShift_def fmt_sb_def word_less_nat_alt x)
    then show ?thesis using inodeByteOff_sint [of sb 0 i] unfolding i_def by simp
  qed
  have len: "length (slotImage ino uuid now s) = 512" for ino s
    using initInodeV3_fields(1) [of "replicate 512 0" uuid] assms(2)
    by (simp add: slotImage_def fmtBuildRootInode_def fmtBuildEmptyReg_def Let_def fmt_consts)
  show ?thesis
    unfolding chunkWrites_def chunk_places_def by (simp add: Let_def pos_def len slot fmt_consts)
qed

lemma log_pos:
  assumes "fmt_sb sb n reflink"
  shows "map pos (logWrites sb n) = log_places"
proof -
  have "sint (32768 :: int64) = 32768" "sint (33280 :: int64) = 33280" by simp_all
  then show ?thesis using assms
    by (simp add: logWrites_def fmtLogStartAbs_def fmtLogAG_def layout_values Let_def pos_def log_places_def length_images fmt_consts fmt_sb_def)
qed

lemma sb_pos:
  assumes "fmt_sb sb n reflink"
  shows "map pos (sbWrites sb n uuid label) = sb_places (unat n)"
proof -
  have "sint (of_nat ag * 16384 * 4096 :: int64) = int ag * 67108864" if "ag < unat n" for ag
  proof -
    have a: "unat (of_nat ag :: u32) = ag" using that unat_lt(3) [of n] by (simp add: unat_of_nat)
    have "ucast (of_nat ag :: u32) = (of_nat ag :: int64)"
      by (rule word_unat_eq_iff [THEN iffD2]) (use that unat_lt(3) [of n] a in \<open>simp add: unat_ucast_up unat_of_nat_small\<close>)
    then show ?thesis using block_at [of 0 "of_nat ag"] a by simp
  qed
  then show ?thesis using assms
    by (simp add: sbWrites_def sb_places_def pos_def length_images fmt_sb_def)
qed

lemma sorted_wrt_concat:
  assumes "\<forall>xs\<in>set xss. sorted_wrt R xs" and "sorted_wrt (\<lambda>xs ys. \<forall>x\<in>set xs. \<forall>y\<in>set ys. R x y) xss"
  shows "sorted_wrt R (concat xss)"
  using assms by (induction xss) (auto simp: sorted_wrt_append)

lemma places_of_group: "p \<in> set (group_places reflink ag) \<Longrightarrow>
    int ag * 67108864 + 512 \<le> fst p \<and> fst p + snd p \<le> int ag * 67108864 + 2572 * 4096 \<and>
    (fst p + snd p \<le> int ag * 67108864 + 16384 \<or> ag \<noteq> 0 \<or> fst p = 2571 * 4096)"
  by (auto simp: group_places_def split: if_splits)

lemma image_apart: "sorted_wrt apart_pos (concat (map (group_places reflink) [0..<n]) @ chunk_places reflink @ log_places @ sb_places n)"
proof -
  have one: "sorted_wrt apart_pos (group_places reflink ag)" for ag
    by (simp add: group_places_def apart_pos_def)
  have "sorted_wrt (\<lambda>i j. \<forall>p\<in>set (group_places reflink i). \<forall>q\<in>set (group_places reflink j). apart_pos p q) [0..<n]"
  proof (rule sorted_wrt_mono_rel [of _ "(<)"])
    fix i j :: nat assume "i < j"
    then have "int i * 67108864 + 67108864 \<le> int j * 67108864" by simp
    then show "\<forall>p\<in>set (group_places reflink i). \<forall>q\<in>set (group_places reflink j). apart_pos p q"
      by (auto simp: apart_pos_def dest!: places_of_group)
  qed simp
  then have groups: "sorted_wrt apart_pos (concat (map (group_places reflink) [0..<n]))"
    using one by (intro sorted_wrt_concat) (simp_all add: sorted_wrt_map)
  have chunk: "sorted_wrt apart_pos (chunk_places reflink)"
    unfolding chunk_places_def sorted_wrt_map by (rule sorted_wrt_mono_rel [of _ "(<)"]) (auto simp: apart_pos_def)
  have sbs: "sorted_wrt apart_pos (sb_places n)"
    unfolding sb_places_def sorted_wrt_map by (rule sorted_wrt_mono_rel [of _ "(<)"]) (auto simp: apart_pos_def)
  have gc: "apart_pos p q" if "p \<in> set (group_places reflink ag)" "q \<in> set (chunk_places reflink @ log_places)" for p q ag
  proof (cases "ag = 0")
    case True
    then show ?thesis using that by (auto simp: apart_pos_def group_places_def chunk_places_def log_places_def split: if_splits)
  next
    case False
    then have "67108864 \<le> int ag * 67108864" by simp
    then show ?thesis using that(2) places_of_group [OF that(1)] by (auto simp: apart_pos_def chunk_places_def log_places_def)
  qed
  have gs: "apart_pos p q" if p: "p \<in> set (group_places reflink ag)" and qs: "q \<in> set (sb_places n)" for p q ag
  proof -
    obtain b where q: "q = (int b * 67108864, 512)" using qs by (auto simp: sb_places_def)
    show ?thesis using places_of_group [OF p] unfolding q apart_pos_def fst_conv snd_conv by (cases ag b rule: linorder_cases) auto
  qed
  have cl: "apart_pos p q" if "p \<in> set (chunk_places reflink)" "q \<in> set log_places" for p q
    using that by (auto simp: apart_pos_def chunk_places_def log_places_def split: if_splits)
  have cs: "apart_pos p q" if p: "p \<in> set (chunk_places reflink @ log_places)" and qs: "q \<in> set (sb_places n)" for p q
  proof -
    obtain b where q: "q = (int b * 67108864, 512)" using qs by (auto simp: sb_places_def)
    show ?thesis using p unfolding q by (cases b) (auto simp: apart_pos_def chunk_places_def log_places_def split: if_splits)
  qed
  have lg: "sorted_wrt apart_pos log_places" by (simp add: log_places_def apart_pos_def)
  show ?thesis
    unfolding sorted_wrt_append using groups chunk sbs lg gc gs cl cs by auto
qed

section \<open>The fields of the images\<close>

lemma window_zeros: "window off n (replicate k (0 :: byte)) = replicate (min n (k - off)) 0"
  by (simp add: window_def min_def)

lemma be_word_zeros: "be_word (replicate 2 (0 :: byte)) = (0 :: u16)" "be_word (replicate 4 (0 :: byte)) = (0 :: u32)"
  "be_word (replicate 8 (0 :: byte)) = (0 :: u64)"
  by code_simp+

lemmas image_simps = get_defs byte_at_window buf_simps window_zeros be_word_zeros Let_def fmt_consts

lemma agf_fields:
  assumes "length uuid = 16"
  shows "be32 (agfImage l ag agLen uuid) 0 = magicAGF" "be32 (agfImage l ag agLen uuid) agfOffBnoRoot = 1"
    "be32 (agfImage l ag agLen uuid) agfOffCntRoot = 2" "be32 (agfImage l ag agLen uuid) agfOffBnoLevel = 1"
    "be32 (agfImage l ag agLen uuid) agfOffCntLevel = 1" "be32 (agfImage l ag agLen uuid) agfOffFreeBlks = agLen - freeStart l"
    "be32 (agfImage l ag agLen uuid) agfOffFLCount = 4" "be32 (agfImage l ag agLen uuid) agfOffBtreeBlks = 0"
    "hasRefcount l \<Longrightarrow> be32 (agfImage l ag agLen uuid) agfOffRefcntRoot = refcountRoot l"
    "hasRefcount l \<Longrightarrow> be32 (agfImage l ag agLen uuid) agfOffRefcntLevel = 1"
  using assms by (simp_all add: agfImage_def image_simps agf_offs put_defs)

lemma agi_fields:
  assumes "length uuid = 16"
  shows "be32 (agiImage sb l ag agLen uuid) 0 = magicAGI" "be32 (agiImage sb l ag agLen uuid) agiOffRoot = 3"
    "be32 (agiImage sb l ag agLen uuid) agiOffCount = (if hasInodeChunk l then 64 else 0)"
    "be32 (agiImage sb l ag agLen uuid) agiOffFreeCount = (if hasInodeChunk l then 61 else 0)"
  using assms by (simp_all add: agiImage_def image_simps agi_offs put_defs)

lemma free_leaf_fields:
  assumes "length uuid = 16"
  shows "be16 (freeLeafImage absBase uuid ag magic rel s c) 4 = 0" "be32 (freeLeafImage absBase uuid ag magic rel s c) 12 = 0xFFFFFFFF"
    "be16 (freeLeafImage absBase uuid ag magic rel s c) 6 = 1" "be32 (freeLeafImage absBase uuid ag magic rel s c) 56 = s"
    "be32 (freeLeafImage absBase uuid ag magic rel s c) 60 = c"
  using assms by (simp_all add: freeLeafImage_def fmtBtreeHeader_def image_simps btreeCRCOff_def put_defs)

lemma inobt_fields:
  assumes "length uuid = 16"
  shows "be16 (inobtImage sb l absBase uuid ag) 4 = 0" "be32 (inobtImage sb l absBase uuid ag) 12 = 0xFFFFFFFF"
    "be16 (inobtImage sb l absBase uuid ag) 6 = (if hasInodeChunk l then 1 else 0)"
    "hasInodeChunk l \<Longrightarrow> be32 (inobtImage sb l absBase uuid ag) 56 = ucast (fmtRootIno (agCount sb) (hasReflink sb))"
    "hasInodeChunk l \<Longrightarrow> be32 (inobtImage sb l absBase uuid ag) 60 = 61"
    "hasInodeChunk l \<Longrightarrow> be64 (inobtImage sb l absBase uuid ag) 64 = 0xFFFFFFFFFFFFFFF8"
  using assms by (simp_all add: inobtImage_def fmtBtreeHeader_def image_simps btreeCRCOff_def put_defs)

lemma refc_fields:
  assumes "length uuid = 16"
  shows "be32 (updateCRC (fmtBtreeHeader absBase uuid ag magicRefcnt rel) btreeCRCOff (unat fmtBlockSize)) 0 = magicRefcnt"
    "be16 (updateCRC (fmtBtreeHeader absBase uuid ag magicRefcnt rel) btreeCRCOff (unat fmtBlockSize)) 6 = 0"
  using assms by (simp_all add: fmtBtreeHeader_def image_simps btreeCRCOff_def put_defs)

text \<open>What the superblock of a new image says when it is read.\<close>

definition formatted_sb :: "u32 \<Rightarrow> bool \<Rightarrow> bytes \<Rightarrow> bytes \<Rightarrow> superblock" where
  "formatted_sb n reflink uuid label =
     (formatSb n reflink uuid label)\<lparr>features2 := 0x18A, sbLabel := trimLabel (patch 0 label (replicate 12 0))\<rparr>"

lemma formatted_fmt: "0 < n \<Longrightarrow> fmt_sb (formatted_sb n reflink uuid label) n reflink"
  by (simp add: fmt_sb_def formatted_sb_def formatSb_def fmt_consts)

lemma window_patch_cut:
  assumes "off + m \<le> length buf"
  shows "window off m (patch off bs buf) = patch 0 bs (window off m buf)"
proof (rule nth_equalityI)
  show "length (window off m (patch off bs buf)) = length (patch 0 bs (window off m buf))" by simp
next
  fix i assume "i < length (window off m (patch off bs buf))"
  then have "i < m" "off + i < length buf" using assms by simp_all
  then show "window off m (patch off bs buf) ! i = patch 0 bs (window off m buf) ! i"
    by (simp add: nth_window nth_patch)
qed

lemma sb_image:
  assumes "fmt_sb sb n reflink" and "length uuid = 16" and "length label \<le> 12" and "quotaFlags sb = 0" and "uQuotino sb = 0" and "gQuotino sb = 0" and "pQuotino sb = 0"
  shows "be32 (buildSuperblockBuffer sb n uuid label) 0 = magicSB"
    "parseSuperblock (buildSuperblockBuffer sb n uuid label) = formatted_sb n reflink uuid label"
    "be64 (buildSuperblockBuffer sb n uuid label) 128 = 64" "be64 (buildSuperblockBuffer sb n uuid label) 136 = 61"
    "be64 (buildSuperblockBuffer sb n uuid label) 144 = fmtTotalFreeBlocks n reflink (ucast n * 16384)"
proof -
  let ?b = "buildSuperblockBuffer sb n uuid label"
  have nz: "ucast n * 16384 \<noteq> (0 :: u64)"
  proof -
    have "unat (ucast n * 16384 :: u64) = unat n * 16384" using unat_lt(3) [of n] by (simp add: unat_word_ariths unat_ucast_up)
    moreover have "0 < unat n" using assms(1) by (simp add: fmt_sb_def word_less_nat_alt)
    ultimately show ?thesis by (metis mult_is_0 not_gr_zero numeral_neq_zero unat_0)
  qed
  show "be32 ?b 0 = magicSB" "be64 ?b 128 = 64" "be64 ?b 136 = 61" "be64 ?b 144 = fmtTotalFreeBlocks n reflink (ucast n * 16384)"
    using assms nz by (simp_all add: buildSuperblockBuffer_def image_simps put_defs fmt_sb_def)
  have w: "window 32 16 ?b = uuid"
    using assms(2,3) by (simp add: buildSuperblockBuffer_def image_simps put_defs window_patch_before window_patch_after)
  have lb: "window 108 12 ?b = patch 0 label (replicate 12 0)"
    using assms(2,3) by (simp add: buildSuperblockBuffer_def Let_def window_updateCRC window_patch_cut image_simps put_defs)
  have f: "be32 ?b 4 = 4096" "be16 ?b 102 = 512" "be32 ?b 84 = 16384" "be32 ?b 88 = n" "be64 ?b 8 = ucast n * 16384" "be64 ?b 56 = fmtRootIno n reflink"
    "be16 ?b 104 = 512" "be16 ?b 106 = 8" "byte_at ?b 123 = 3" "byte_at ?b 124 = 14" "byte_at ?b 192 = 0" "be16 ?b 100 = 0xB4A5" "be32 ?b 216 = 1"
    "be32 ?b 212 = (if reflink then 4 else 0)" "be32 ?b 200 = 0x18A" "be16 ?b 176 = 0" "be64 ?b 160 = 0" "be64 ?b 168 = 0" "be64 ?b 232 = 0"
    using assms nz by (simp_all add: buildSuperblockBuffer_def image_simps put_defs fmt_sb_def)
  show "parseSuperblock ?b = formatted_sb n reflink uuid label"
    by (simp add: parseSuperblock_def f w lb formatted_sb_def formatSb_def Let_def fmt_consts)
qed

section \<open>A new group\<close>

text \<open>
  A group as it is after formatting: one free run from the first block that is not in use to the end
  of the group, in both trees and in the header; one inode chunk with three inodes in use in the first group and none in the
  others; an empty reference-count tree if the filesystem has them.
\<close>

definition fresh_chunks :: "superblock \<Rightarrow> u32 \<Rightarrow> irec list" where
  "fresh_chunks sb ag = (if ag = 0 then [(ucast (rootIno sb), 61, 0xFFFFFFFFFFFFFFF8)] else [])"

definition fresh_group :: "dev \<Rightarrow> superblock \<Rightarrow> u32 \<Rightarrow> bool" where
  "fresh_group d sb ag \<longleftrightarrow>
     (let l = fmtAGLayoutFor ag (agCount sb) (hasReflink sb); run = (freeStart l, agBlocks sb - freeStart l) in
      \<exists>agf agi. group_ok 0 sb ag 1 2 d agf [run] [run] \<and> be32 agf agfOffFreeBlks = snd run \<and> be32 agf agfOffFLCount = 4 \<and> be32 agf agfOffBtreeBlks = 0 \<and>
        igrp 0 sb ag 3 d agi (fresh_chunks sb ag) \<and> chunks_ok sb (fresh_chunks sb ag) \<and>
        be32 agi agiOffCount = (if ag = 0 then 64 else 0) \<and> be32 agi agiOffFreeCount = (if ag = 0 then 61 else 0) \<and>
        (hasReflink sb \<longrightarrow> refc_group 0 sb ag (refcountRoot l) d []))"

lemma fmt_offsets:
  assumes "fmt_sb sb n reflink" and "fmt_sb sb' n reflink"
  shows "agFByteOffset sb 0 ag = agFByteOffset sb' 0 ag" "agIByteOffset sb 0 ag = agIByteOffset sb' 0 ag"
    "inodeByteOff sb 0 ino = inodeByteOff sb' 0 ino"
  using assms by (simp_all add: fmt_sb_def agFByteOffset_def agIByteOffset_def agByteOffset_def sectSize_def inodeByteOff_def inoShift_def)

lemma fmt_block:
  assumes "fmt_sb sb n reflink" and "unat rel < 16384"
  shows "readAGBlock d 0 sb ag rel = ReadAt d (ucast ag * 16384 * 4096 + ucast rel * 4096) 4096"
proof -
  have b: "blockSize sb = 4096" "agBlocks sb = 16384" using assms(1) by (simp_all add: fmt_sb_def)
  have rel: "rel < agBlocks sb" using assms(2) by (simp add: b word_less_nat_alt)
  note g = fmt_fits [OF assms(1), of ag]
  have "of_nat (unat rel * 4096) = (ucast rel * 4096 :: int64)"
    by (rule word_unat_eq_iff [THEN iffD2]) (use assms(2) in \<open>simp add: unat_word_ariths unat_ucast_up unat_of_nat\<close>)
  then have "sint (ucast ag * 16384 * 4096 + ucast rel * 4096 :: int64) = int (unat ag) * 67108864 + int (unat rel * 4096)"
    using block_at [of "unat rel * 4096" ag] assms(2) by simp
  moreover have "sint (0 + fsbToPhysBlock sb (agAbsBlock sb ag rel) * ucast (blockSize sb)) = int (unat ag) * 67108864 + int (unat rel * 4096)"
    using block_place(2) [OF g(1) rel] unfolding g(2) b by simp
  ultimately have e: "sint (0 + fsbToPhysBlock sb (agAbsBlock sb ag rel) * ucast (blockSize sb)) = sint (ucast ag * 16384 * 4096 + ucast rel * 4096 :: int64)"
    by (simp only:)
  from signed_word_eqI [OF e] show ?thesis unfolding readAGBlock_ReadAt [OF g(1) rel] by (simp add: b)
qed

lemma new_group:
  assumes sbw: "fmt_sb sbw n reflink" and sb: "fmt_sb sb n reflink" and uuid: "length uuid = 16"
    and rd: "\<forall>w\<in>set (groupWrites sbw ag 16384 uuid). ReadAt d (fst w) (length (snd w)) = Inr (snd w)"
  shows "fresh_group d sb ag"
proof -
  let ?l = "fmtAGLayoutFor ag n reflink" and ?abs = "ucast ag * ucast (agBlocks sbw) :: u64"
  let ?run = "(freeStart ?l, 16384 - freeStart ?l)"
  have f: "blockSize sb = 4096" "agBlocks sb = 16384" "agCount sb = n" "hasReflink sb = reflink" "hasCRC sb" "sectSize sb = 512" "inopBlock sb = 8"
    "rootIno sb = fmtRootIno n reflink"
    using sb fmt_sect [OF sb] by (simp_all add: fmt_sb_def)
  have fw: "blockSize sbw = 4096" "agBlocks sbw = 16384" "agCount sbw = n" "hasReflink sbw = reflink" using sbw by (simp_all add: fmt_sb_def)
  note fits = fmt_fits(1) [OF sb, of ag]
  have fs: "unat (freeStart ?l) < 16384" "0 < unat (freeStart ?l)" by (simp_all add: layout_values)
  have agf: "agfBlock d 0 sb ag = Inr (agfImage ?l ag 16384 uuid)"
    using rd uuid by (simp add: groupWrites_def Let_def fw agfBlock_def readHeader_Inr readBytes_def f fmt_offsets [OF sb sbw] length_images agf_fields)
  have agi: "agiBlock d 0 sb ag = Inr (agiImage sbw ?l ag 16384 uuid)"
    using rd uuid by (simp add: groupWrites_def Let_def fw agiBlock_def readHeader_Inr readBytes_def f fmt_offsets [OF sb sbw] length_images agi_fields)
  have leaf: "leaf_ok sb (freeLeafImage ?abs uuid ag magic rel (freeStart ?l) (16384 - freeStart ?l)) [?run]" for magic rel
    using uuid by (simp add: leaf_ok_def length_images free_leaf_fields nullAgBlock_def count_of_def f agBTreeHdrSize_def btreeHdrSize_def allocMaxLeaf_def allocRecSize_def recsOf_1)
  have bno: "readAGBlock d 0 sb ag 1 = Inr (freeLeafImage ?abs uuid ag magicABTB 1 (freeStart ?l) (16384 - freeStart ?l))"
    and cnt: "readAGBlock d 0 sb ag 2 = Inr (freeLeafImage ?abs uuid ag magicABTC 2 (freeStart ?l) (16384 - freeStart ?l))"
    and ino: "readAGBlock d 0 sb ag 3 = Inr (inobtImage sbw ?l ?abs uuid ag)"
    using rd by (simp_all add: fmt_block [OF sb] groupWrites_def Let_def fw length_images fmt_consts)
  have body: "body_block sb 1" "body_block sb 2" "body_block sb 3" by (simp_all add: body_block_def f)
  have "runs_ok 16384 [?run]"
    using fs by (simp add: runs_ok_def layout_values)
  then have g: "group_ok 0 sb ag 1 2 d (agfImage ?l ag 16384 uuid) [?run] [?run]"
    using fits agf bno cnt leaf body uuid by (simp add: group_ok_def grp_def leaves_ok_def f agf_fields)
  have b61: "bits64 0xFFFFFFFFFFFFFFF8 = 61" by code_simp
  have r: "unat (ucast (fmtRootIno n reflink) :: u32) = (if reflink then 20576 else 20544)" by (simp add: fmtRootIno_value)
  have ch: "chunks_ok sb (fresh_chunks sb ag)"
    using r by (simp add: chunks_ok_def fresh_chunks_def b61 f)
  have "ileaf_ok sb (inobtImage sbw ?l ?abs uuid ag) (fresh_chunks sb ag)"
    using uuid by (simp add: ileaf_ok_def length_images inobt_fields nullAgBlock_def count_of_def f fw fresh_chunks_def layout_values agBTreeHdrSize_def btreeHdrSize_def irecsOf_def irecAt_def)
  then have i: "igrp 0 sb ag 3 d (agiImage sbw ?l ag 16384 uuid) (fresh_chunks sb ag)"
    using fits body agi ino uuid by (simp add: igrp_def agi_fields)
  have rf: "refc_group 0 sb ag (refcountRoot ?l) d []" if reflink
  proof -
    have "unat (refcountRoot ?l) < 16384" using that by (simp add: layout_values)
    then have "readAGBlock d 0 sb ag (refcountRoot ?l) = Inr (updateCRC (fmtBtreeHeader ?abs uuid ag magicRefcnt (refcountRoot ?l)) btreeCRCOff (unat fmtBlockSize))"
      using rd that by (simp add: fmt_block [OF sb] groupWrites_def Let_def fw length_images layout_values)
    moreover have "body_block sb (refcountRoot ?l)" using that by (simp add: body_block_def f layout_values)
    ultimately show ?thesis
      using that fits agf uuid refc_fields [OF uuid]
      by (simp add: refc_group_def agf_fields layout_values(3) parseRefc_def Let_def length_images btreeHdrSize_def)
  qed
  show ?thesis
    unfolding fresh_group_def Let_def f
    by (rule exI [of _ "agfImage ?l ag 16384 uuid"], rule exI [of _ "agiImage sbw ?l ag 16384 uuid"])
      (use g i ch rf uuid in \<open>simp add: agf_fields agi_fields layout_values(2)\<close>)
qed

section \<open>The counters and the root directory\<close>

lemma sumCounts_all:
  assumes "\<forall>j\<in>{ag..<ag + k}. groupCounts d partOff sb (of_nat j) = Inr (c j, f j, b j)"
  shows "sumCounts d partOff sb ag k (x, y, z) =
    Inr (x + sum_list (map c [ag..<ag + k]), y + sum_list (map f [ag..<ag + k]), z + sum_list (map b [ag..<ag + k]))"
  using assms
proof (induction k arbitrary: ag x y z)
  case 0
  show ?case by simp
next
  case (Suc k)
  have "[ag..<ag + Suc k] = ag # [Suc ag..<Suc ag + k]" by (simp add: upt_conv_Cons)
  moreover have "groupCounts d partOff sb (of_nat ag) = Inr (c ag, f ag, b ag)" using Suc.prems by simp
  moreover have "\<forall>j\<in>{Suc ag..<Suc ag + k}. groupCounts d partOff sb (of_nat j) = Inr (c j, f j, b j)" using Suc.prems by simp
  ultimately show ?case using Suc.IH [of "Suc ag"] by (simp add: add.assoc)
qed

lemma fresh_counts:
  assumes "fresh_group d sb ag" and "agBlocks sb = 16384"
  shows "groupCounts d 0 sb ag = Inr (if ag = 0 then 64 else 0, if ag = 0 then 61 else 0,
    16384 - ucast (freeStart (fmtAGLayoutFor ag (agCount sb) (hasReflink sb))) + 4)"
proof -
  let ?s = "freeStart (fmtAGLayoutFor ag (agCount sb) (hasReflink sb))"
  obtain agf agi where a: "agfBlock d 0 sb ag = Inr agf" "agiBlock d 0 sb ag = Inr agi" "be32 agf agfOffFreeBlks = 16384 - ?s" "be32 agf agfOffFLCount = 4"
    "be32 agf agfOffBtreeBlks = 0" "be32 agi agiOffCount = (if ag = 0 then 64 else 0)" "be32 agi agiOffFreeCount = (if ag = 0 then 61 else 0)" "group_fits 0 sb ag"
    using assms by (auto simp: fresh_group_def Let_def group_ok_def grp_def igrp_def)
  have "512 \<le> length agf" "512 \<le> length agi"
    using a(1,2,8) readBytes_length sectSize_ge by (fastforce simp: group_fits_def agfBlock_def agiBlock_def readHeader_Inr)+
  moreover have "ucast (16384 - ?s) = (16384 - ucast ?s :: u64)" by (simp add: layout_values)
  ultimately show ?thesis using a(1-7) by (simp add: groupCounts_def u32At_def agf_offs agi_offs)
qed

lemma sum_list_first: "0 < n \<Longrightarrow> sum_list (map (\<lambda>j. if j = 0 then a else 0) [0..<n]) = (a :: u64)"
proof -
  assume "0 < n"
  then have "[0..<n] = 0 # [1..<n]" by (simp add: upt_conv_Cons)
  moreover have "map (\<lambda>j. if j = 0 then a else 0) [1..<n] = map (\<lambda>j. 0) [1..<n]" by simp
  then have "sum_list (map (\<lambda>j. if j = 0 then a else 0) [1..<n]) = 0" by (simp only: sum_list_0)
  ultimately show ?thesis by simp
qed

lemma new_counters:
  assumes sb: "fmt_sb sb n reflink" and g: "\<forall>ag < n. fresh_group d sb ag"
  shows "sumCounts d 0 sb 0 (unat n) (0, 0, 0) = Inr (64, 61, fmtTotalFreeBlocks n reflink (ucast n * 16384))"
proof -
  have f: "agBlocks sb = 16384" "agCount sb = n" "hasReflink sb = reflink" "0 < unat n" using sb by (simp_all add: fmt_sb_def word_less_nat_alt)
  have nat: "unat (of_nat j :: u32) = j" "unat (of_nat j :: u64) = j" if "j < unat n" for j
    using that unat_lt(3) [of n] by (simp_all add: unat_of_nat)
  let ?b = "\<lambda>j. 16384 - ucast (freeStart (fmtAGLayoutFor (of_nat j) n reflink)) + 4 :: u64"
  have c: "groupCounts d 0 sb (of_nat j) = Inr (if j = 0 then 64 else 0, if j = 0 then 61 else 0, ?b j)" if j: "j < unat n" for j
  proof -
    have "of_nat j < n" using nat(1) [OF j] j by (simp add: word_less_nat_alt)
    moreover have "(of_nat j = (0 :: u32)) = (j = 0)" unfolding unat_eq_zero [symmetric] nat(1) [OF j] ..
    ultimately show ?thesis using fresh_counts [of d sb "of_nat j"] g f by simp
  qed
  have D: "unat (ucast n * 16384 :: u64) = unat n * 16384" using unat_lt(3) [of n] by (simp add: unat_word_ariths unat_ucast_up)
  have nz: "ucast n * 16384 \<noteq> (0 :: u64)" using D f(4) by (metis mult_is_0 not_gr_zero numeral_neq_zero unat_0)
  have full: "unat (ucast n * 16384 div 16384 :: u64) = unat n" using D by (simp add: unat_div)
  have e: "(if (ucast n * 16384 div ucast (16384 :: u32) :: u64) \<le> of_nat j then x else ucast (16384 :: u32)) - u + ucast (4 :: u32) = (16384 - u + 4 :: u64)"
    if "j < unat n" for j x u
    using full nat(2) [OF that] that by (simp add: word_le_nat_alt)
  have "fmtTotalFreeBlocks n reflink (ucast n * 16384) = sum_list (map ?b [0..<unat n])"
    unfolding fmtTotalFreeBlocks_def Let_def fmtAgBlocks_def fmtAGFLCount_def if_not_P [OF nz]
    by (rule arg_cong [where f = sum_list], rule map_cong [OF refl]) (simp only: set_upt atLeastLessThan_iff e)
  moreover have "sumCounts d 0 sb 0 (unat n) (0, 0, 0) =
      Inr (sum_list (map (\<lambda>j. if j = 0 then 64 else 0) [0..<unat n]), sum_list (map (\<lambda>j. if j = 0 then 61 else 0) [0..<unat n]), sum_list (map ?b [0..<unat n]))"
    using sumCounts_all [of 0 "unat n" d 0 sb "\<lambda>j. if j = 0 then 64 else 0" "\<lambda>j. if j = 0 then 61 else 0" ?b 0 0 0] c by simp
  ultimately show ?thesis using sum_list_first [OF f(4)] by simp
qed

text \<open>The root inode of a new filesystem: a directory in short form without entries, its whole literal area free.\<close>

definition empty_root :: "inode \<Rightarrow> bool" where
  "empty_root root \<longleftrightarrow> isDir root \<and> iFormat root = inodeFmtLocal \<and> iForkOff root = 0 \<and> \<not> inodeNrext64 (iRaw root) \<and>
     length (dataFork root) = 336 \<and> byte_at (dataFork root) 0 = 0 \<and> byte_at (dataFork root) 1 = 0"

lemma empty_root_lists: "empty_root root \<Longrightarrow> sfReadDir (dataFork root) ft = []"
  by (simp add: empty_root_def sfReadDir_def)

lemma root_image:
  assumes "length uuid = 16"
  shows "\<exists>root. parseInode ino (slotImage ino uuid now 0) = Inr root \<and> empty_root root \<and> length (iRaw root) = 512"
proof -
  let ?b = "slotImage ino uuid now 0"
  have len: "length ?b = 512"
    using initInodeV3_fields(1) [of "replicate 512 0" uuid] assms by (simp add: slotImage_def fmtBuildRootInode_def Let_def fmt_consts)
  have f: "be16 ?b 0 = magicInode" "be16 ?b 2 = 0x41ED" "byte_at ?b 5 = inodeFmtLocal" "byte_at ?b 82 = 0" "be64 ?b 120 = 0" "byte_at ?b 176 = 0" "byte_at ?b 177 = 0"
    using assms initInodeV3_fields(1) [of "replicate 512 0" uuid]
    by (simp_all add: slotImage_def fmtBuildRootInode_def initInodeV3_def stampLegacy_def image_simps put_defs)
  have "byte_at (drop 176 ?b) 0 = 0" "byte_at (drop 176 ?b) 1 = 0"
    using f(6,7) len by (simp_all add: byte_at_def)
  moreover have "(0x41ED :: u16) AND 0xF000 = 0x4000" by simp
  ultimately show ?thesis using f(1-5) len by (simp add: parseInode_def isDir_def dataFork_def empty_root_def inodeNrext64_def)
qed

section \<open>A formatted image\<close>

definition imageWrites :: "superblock \<Rightarrow> u32 \<Rightarrow> bytes \<Rightarrow> bytes \<Rightarrow> (nat \<Rightarrow> u32 \<times> u32) \<Rightarrow> (int64 \<times> bytes) list" where
  "imageWrites sb n uuid label now =
     concat (map (\<lambda>j. groupWrites sb (of_nat j) 16384 uuid) [0..<unat n]) @ chunkWrites sb uuid now @ logWrites sb n @ sbWrites sb n uuid label"

lemma image_places:
  assumes sb: "fmt_sb sb n reflink" and uuid: "length uuid = 16"
  shows "map pos (imageWrites sb n uuid label now) = concat (map (group_places reflink) [0..<unat n]) @ chunk_places reflink @ log_places @ sb_places (unat n)"
proof -
  have m: "map (\<lambda>j. group_places reflink (unat (of_nat j :: u32))) [0..<unat n] = map (group_places reflink) [0..<unat n]"
    by (rule map_cong [OF refl]) (use unat_lt(3) [of n] in \<open>simp add: unat_of_nat\<close>)
  show ?thesis
    by (simp only: imageWrites_def map_append map_concat map_map comp_def group_pos [OF sb] m chunk_pos [OF sb uuid] log_pos [OF sb] sb_pos [OF sb])
qed

lemma image_within:
  assumes sb: "fmt_sb sb n reflink" and uuid: "length uuid = 16" and w: "w \<in> set (imageWrites sb n uuid label now)"
  shows "0 \<le> sint (fst w) \<and> sint (fst w) + int (length (snd w)) \<le> int (unat n) * 67108864"
proof -
  define N where "N = unat n"
  have "0 < N" using sb by (simp add: N_def fmt_sb_def word_less_nat_alt)
  then have n: "67108864 \<le> int N * 67108864" by simp
  have g: "int j * 67108864 + 67108864 \<le> int N * 67108864" if "j < N" for j using that by simp
  have "\<forall>q\<in>set (map pos (imageWrites sb n uuid label now)). 0 \<le> fst q \<and> fst q + snd q \<le> int N * 67108864"
    unfolding image_places [OF sb uuid] N_def [symmetric] using n
    by (fastforce simp: chunk_places_def log_places_def sb_places_def dest!: places_of_group dest: g)
  then show ?thesis using w unfolding N_def by (auto simp: pos_def)
qed

lemma image_written:
  assumes sb: "fmt_sb sb n reflink" and uuid: "length uuid = 16"
  shows "\<exists>d'. writeAll (imageWrites sb n uuid label now) d = (Inr (), d') \<and> written (imageWrites sb n uuid label now) d d'"
proof (rule writeAll_spec)
  show "sorted_wrt apart_writes (imageWrites sb n uuid label now)"
    using image_apart image_places [OF assms, of label now] by (simp add: sorted_apart_pos)
  show "\<forall>w\<in>set (imageWrites sb n uuid label now). 0 \<le> sint (fst w)" using image_within [OF assms] by blast
qed

lemma formatImage_writes:
  assumes "sint sizeBytes mod 4096 = 0" and "67108864 \<le> sint sizeBytes" and "sint sizeBytes < 2 ^ 58"
    and "(if cfgUUID cfg = replicate 16 0 then rnd else Inr (cfgUUID cfg)) = Inr uuid"
  defines "n \<equiv> of_int (sint sizeBytes div 67108864) :: u32"
  defines "sb \<equiv> formatSb n (cfgReflink cfg) uuid (take 12 (cfgLabel cfg))"
  shows "0 < n" "int (unat n) * 67108864 \<le> sint sizeBytes"
    "\<exists>d1. formatImage rnd now sizeBytes cfg d = writeAll (imageWrites sb n uuid (take 12 (cfgLabel cfg)) now) d1 \<and> int (dsize d1) = sint sizeBytes"
proof -
  let ?q = "sint sizeBytes div 67108864"
  have q: "0 < ?q" "?q < 2 ^ 32" using assms(2,3) by auto
  then have u: "uint n = ?q" unfolding n_def by (simp add: uint_word_of_int)
  then show n: "0 < n" using q(1) by (simp add: word_less_def)
  have "int (unat n) = ?q" using u by simp
  then show "int (unat n) * 67108864 \<le> sint sizeBytes" using div_mult_mod_eq [of "sint sizeBytes" 67108864] pos_mod_sign [of 67108864 "sint sizeBytes"] by linarith
  have len: "agLength sb (of_nat j) = 16384" if "j < unat n" for j
  proof -
    have "unat (ucast n * 16384 :: u64) = unat n * 16384" using unat_lt(3) [of n] by (simp add: unat_word_ariths unat_ucast_up)
    moreover have "ucast n * 16384 \<noteq> (0 :: u64)" using calculation that by (metis mult_is_0 not_less_zero numeral_neq_zero unat_0)
    moreover have "unat (of_nat j :: u32) = j" using that unat_lt(3) [of n] by (simp add: unat_of_nat)
    ultimately have "unat (agLength sb (of_nat j)) = 16384"
      using unat_agLength [of sb "of_nat j"] that by (simp add: sb_def formatSb_def fmt_consts)
    then show ?thesis by (intro word_unat_eq_iff [THEN iffD2]) simp
  qed
  obtain d1 where t: "truncateIO sizeBytes d = (Inr (), d1)" "int (dsize d1) = sint sizeBytes" using assms(2) by (simp add: truncateIO_def Truncate_def)
  have g: "forIO (map of_nat [0..<unat n]) (fmtWriteAG sb uuid) = writeAll (concat (map (\<lambda>j. groupWrites sb (of_nat j) 16384 uuid) [0..<unat n]))"
    unfolding writeAll_concat [symmetric] forIO_map by (rule forIO_cong [OF refl]) (simp add: fmtWriteAG_def fmtWriteAGLen_def len)
  have "formatImage rnd now sizeBytes cfg d = bindIO (truncateIO sizeBytes) (\<lambda>_.
      bindIO (forIO (map of_nat [0..<unat n]) (fmtWriteAG sb uuid)) (\<lambda>_. bindIO (fmtWriteInodeChunk sb uuid now) (\<lambda>_.
      bindIO (fmtWriteLog sb n) (\<lambda>_. fmtWriteSuperblock sb n uuid (take 12 (cfgLabel cfg)))))) d"
    using assms(1,2,4) by (simp add: formatImage_def fmtMinSize_def bindIO_apply n_def [symmetric] sb_def [symmetric] Let_def)
  also have "\<dots> = writeAll (imageWrites sb n uuid (take 12 (cfgLabel cfg)) now) d1"
    unfolding bindIO_Inr [of "truncateIO sizeBytes", OF t(1)] imageWrites_def writeAll_append g fmtWriteInodeChunk_def fmtWriteLog_def fmtWriteSuperblock_def ..
  finally show "\<exists>d1. formatImage rnd now sizeBytes cfg d = writeAll (imageWrites sb n uuid (take 12 (cfgLabel cfg)) now) d1 \<and> int (dsize d1) = sint sizeBytes"
    using t(2) by blast
qed

lemma image_ready:
  assumes sb: "fmt_sb sb n reflink" "quotaFlags sb = 0" "uQuotino sb = 0" "gQuotino sb = 0" "pQuotino sb = 0"
    and uuid: "length uuid = 16" and label: "length label \<le> 12" and w: "written (imageWrites sb n uuid label now) d d'"
  defines "sb' \<equiv> formatted_sb n reflink uuid label"
  shows "readSuperblock d' 0 = Inr sb'" "ag < n \<Longrightarrow> fresh_group d' sb' ag"
    "\<exists>root. readInode d' 0 sb' (rootIno sb') = Inr root \<and> empty_root root"
    "readBytes d' 0 512 = Inr (buildSuperblockBuffer sb n uuid label)"
proof -
  have rd: "\<forall>w\<in>set (imageWrites sb n uuid label now). ReadAt d' (fst w) (length (snd w)) = Inr (snd w)" using w by (simp add: written_def)
  have n: "0 < unat n" "0 < n" using sb(1) by (simp_all add: fmt_sb_def word_less_nat_alt)
  note sb' = formatted_fmt [OF n(2), of reflink uuid label, folded sb'_def]
  note img = sb_image [OF sb(1) uuid label sb(2-5)]
  have "(0, buildSuperblockBuffer sb n uuid label) \<in> set (sbWrites sb n uuid label)"
    using n(1) by (force simp: sbWrites_def)
  then show r: "readBytes d' 0 512 = Inr (buildSuperblockBuffer sb n uuid label)"
    using rd by (fastforce simp: imageWrites_def readBytes_def length_images dest: bspec [of _ _ "(0, buildSuperblockBuffer sb n uuid label)"])
  show "readSuperblock d' 0 = Inr sb'"
    using r img(1,2) fmt_valid [OF sb'] by (simp add: readSuperblock_def sb'_def)
  show "fresh_group d' sb' ag" if "ag < n"
  proof (rule new_group [OF sb(1) sb' uuid])
    have "ag = of_nat (unat ag)" "unat ag < unat n" using that by (simp_all add: word_less_nat_alt)
    then have "set (groupWrites sb ag 16384 uuid) \<subseteq> set (imageWrites sb n uuid label now)"
      unfolding imageWrites_def set_append set_concat set_map set_upt by (metis (no_types, lifting) UN_upper Un_upper1 atLeastLessThan_iff imageI image_image le0 subset_trans Union_upper)
    then show "\<forall>w\<in>set (groupWrites sb ag 16384 uuid). ReadAt d' (fst w) (length (snd w)) = Inr (snd w)"
      using rd by blast
  qed
  let ?w = "(inodeByteOff sb 0 (rootIno sb), slotImage (rootIno sb) uuid now 0)"
  obtain root where root: "parseInode (rootIno sb) (slotImage (rootIno sb) uuid now 0) = Inr root" "empty_root root" "length (iRaw root) = 512"
    using root_image [OF uuid, of "rootIno sb" now] by blast
  have raw: "iRaw root = slotImage (rootIno sb) uuid now 0" using root(1) by (auto simp: parseInode_def split: if_splits)
  have "?w \<in> set (chunkWrites sb uuid now)"
    unfolding chunkWrites_def Let_def set_map by (rule image_eqI [of _ _ "0 :: nat"]) (simp_all add: fmt_consts)
  then have "ReadAt d' (inodeByteOff sb 0 (rootIno sb)) 512 = Inr (slotImage (rootIno sb) uuid now 0)"
    using rd root(3) raw by (fastforce simp: imageWrites_def dest: bspec [of _ _ ?w])
  moreover have "rootIno sb' = rootIno sb" "inodeSize sb' = 512" using sb(1) sb' by (simp_all add: fmt_sb_def)
  ultimately have "readInode d' 0 sb' (rootIno sb') = Inr root"
    using root(1) by (simp add: readInode_def readBytes_def fmt_offsets(3) [OF sb' sb(1)])
  then show "\<exists>root. readInode d' 0 sb' (rootIno sb') = Inr root \<and> empty_root root"
    using root(2) by blast
qed

lemma format_image:
  assumes "sint sizeBytes mod 4096 = 0" and "67108864 \<le> sint sizeBytes" and "sint sizeBytes < 2 ^ 58"
    and "(if cfgUUID cfg = replicate 16 0 then rnd else Inr (cfgUUID cfg)) = Inr uuid" and "length uuid = 16"
  defines "n \<equiv> of_int (sint sizeBytes div 67108864) :: u32" and "label \<equiv> take 12 (cfgLabel cfg)"
  defines "sb \<equiv> formatted_sb n (cfgReflink cfg) uuid label"
  obtains d' root where "formatImage rnd now sizeBytes cfg d = (Inr (), d')" "int (dsize d') = sint sizeBytes"
    "int (unat n) * 67108864 \<le> sint sizeBytes" "fmt_sb sb n (cfgReflink cfg)" "readSuperblock d' 0 = Inr sb" "\<forall>ag < n. fresh_group d' sb ag"
    "readInode d' 0 sb (rootIno sb) = Inr root" "empty_root root"
    "readBytes d' 0 512 = Inr (buildSuperblockBuffer (formatSb n (cfgReflink cfg) uuid label) n uuid label)"
proof -
  let ?r = "cfgReflink cfg" and ?sbw = "formatSb n (cfgReflink cfg) uuid label"
  note fw = formatImage_writes [OF assms(1-4), folded n_def label_def]
  obtain d1 where d1: "formatImage rnd now sizeBytes cfg d = writeAll (imageWrites ?sbw n uuid label now) d1" "int (dsize d1) = sint sizeBytes" using fw(3) by blast
  have sbw: "fmt_sb ?sbw n ?r" by (rule formatSb_fmt [OF fw(1)])
  have q: "quotaFlags ?sbw = 0" "uQuotino ?sbw = 0" "gQuotino ?sbw = 0" "pQuotino ?sbw = 0" by (simp_all add: formatSb_def)
  obtain d' where d': "writeAll (imageWrites ?sbw n uuid label now) d1 = (Inr (), d')" and w: "written (imageWrites ?sbw n uuid label now) d1 d'"
    using image_written [OF sbw assms(5), of label now d1] by auto
  have "dsize d' = dsize d1"
    by (rule writeAll_size [OF d']) (use image_within [OF sbw assms(5)] fw(2) d1(2) in fastforce)
  moreover have lab: "length label \<le> 12" by (simp add: label_def)
  note rdy = image_ready [OF sbw q assms(5) lab w, folded sb_def]
  moreover have "fmt_sb sb n ?r" unfolding sb_def by (rule formatted_fmt [OF fw(1)])
  ultimately show ?thesis using that d1 d' fw(2) by auto
qed

text \<open>
  C3. Formatting makes a filesystem that can be used: for every size that is a multiple of the block size, of at
  least one group and below \<open>2 ^ 58\<close> bytes (where the number of groups fits its 32 bits), it
  succeeds; the superblock then reads back with the geometry and the UUID; every group is fresh, that is, both
  free-space trees, the inode tree and the headers describe one free run and the first chunk of inodes as the allocators expect them;
  the root directory is there, and it is empty; and the totals of the superblock are the sums over the groups.
\<close>

theorem formatImage_ready:
  assumes "sint sizeBytes mod 4096 = 0" and "67108864 \<le> sint sizeBytes" and "sint sizeBytes < 2 ^ 58"
    and "(if cfgUUID cfg = replicate 16 0 then rnd else Inr (cfgUUID cfg)) = Inr uuid" and "length uuid = 16"
  shows "\<exists>d' sb root buf. formatImage rnd now sizeBytes cfg d = (Inr (), d') \<and>
    readSuperblock d' 0 = Inr sb \<and> fmt_sb sb (of_int (sint sizeBytes div 67108864)) (cfgReflink cfg) \<and> sbUuid sb = uuid \<and>
    (\<forall>ag < agCount sb. fresh_group d' sb ag) \<and>
    pathLookup sio d' 0 sb [47] = Inr root \<and> isDir root \<and> readDir sio d' 0 sb root = Inr [] \<and>
    readBytes d' 0 512 = Inr buf \<and> sumCounts d' 0 sb 0 (unat (agCount sb)) (0, 0, 0) = Inr (be64 buf sbOffIcount, be64 buf sbOffIfree, be64 buf sbOffFdblocks)"
proof -
  define n :: u32 where "n = of_int (sint sizeBytes div 67108864)"
  define label where "label = take 12 (cfgLabel cfg)"
  let ?r = "cfgReflink cfg" and ?sbw = "formatSb n (cfgReflink cfg) uuid label"
  let ?sb = "formatted_sb n ?r uuid label"
  obtain d' root where d': "formatImage rnd now sizeBytes cfg d = (Inr (), d')" "fmt_sb ?sb n ?r" "readSuperblock d' 0 = Inr ?sb" "\<forall>ag < n. fresh_group d' ?sb ag"
    and root: "readInode d' 0 ?sb (rootIno ?sb) = Inr root" "empty_root root" and buf: "readBytes d' 0 512 = Inr (buildSuperblockBuffer ?sbw n uuid label)"
    unfolding n_def label_def by (rule format_image [OF assms])
  have f: "agCount ?sb = n" "hasFType ?sb" "sbUuid ?sb = uuid" "0 < n" using d'(2) by (simp_all add: fmt_sb_def formatted_sb_def formatSb_def)
  have q: "quotaFlags ?sbw = 0" "uQuotino ?sbw = 0" "gQuotino ?sbw = 0" "pQuotino ?sbw = 0" by (simp_all add: formatSb_def)
  have lab: "length label \<le> 12" by (simp add: label_def)
  have "pathLookup sio d' 0 ?sb [47] = Inr root" using root(1) by (simp add: pathLookup_walk del_path(2))
  moreover have "isDir root" "readDir sio d' 0 ?sb root = Inr []" using root(2) empty_root_lists by (simp_all add: readDir_def empty_root_def)
  moreover have "sumCounts d' 0 ?sb 0 (unat n) (0, 0, 0) = Inr (64, 61, fmtTotalFreeBlocks n ?r (ucast n * 16384))"
    by (rule new_counters [OF d'(2,4)])
  ultimately show ?thesis
    using d' f buf sb_image(3-5) [OF formatSb_fmt [OF f(4)] assms(5) lab q] unfolding n_def [symmetric]
    by (intro exI [of _ d'] exI [of _ ?sb] exI [of _ root] exI [of _ "buildSuperblockBuffer ?sbw n uuid label"]) (simp add: sb_offs)
qed

theorem formatImage_ready_witness:
  "\<exists>d' sb root buf. formatImage (Inl ErrIO) (\<lambda>_. (1700000000, 0)) 134217728 \<lparr>cfgUUID = replicate 16 7, cfgLabel = [120, 102, 115], cfgReflink = True\<rparr> \<lparr>dsize = 0, dbytes = (\<lambda>_. 0)\<rparr> = (Inr (), d') \<and>
    readSuperblock d' 0 = Inr sb \<and> fmt_sb sb 2 True \<and> sbUuid sb = replicate 16 7 \<and> (\<forall>ag < agCount sb. fresh_group d' sb ag) \<and>
    pathLookup safeio_ref d' 0 sb [47] = Inr root \<and> isDir root \<and> readDir safeio_ref d' 0 sb root = Inr [] \<and>
    readBytes d' 0 512 = Inr buf \<and> sumCounts d' 0 sb 0 (unat (agCount sb)) (0, 0, 0) = Inr (be64 buf sbOffIcount, be64 buf sbOffIfree, be64 buf sbOffFdblocks)"
proof -
  have s: "sint (134217728 :: int64) = 134217728" by simp
  have u: "replicate 16 (7 :: byte) \<noteq> replicate 16 0" by simp
  show ?thesis
    using formatImage_ready [of 134217728 "\<lparr>cfgUUID = replicate 16 7, cfgLabel = [120, 102, 115], cfgReflink = True\<rparr>" "Inl ErrIO" "replicate 16 7"] s u
    by simp
qed

end
