(* ===== verification/Quota.thy ===== *)
theory Quota
  imports Format "HOL-Library.AList"
begin

text \<open>
  Quota accounting (quota.go, quota_setup.go, quotacheck.go): the flags of a configuration, the
  on-disk quota records, the scan that charges every inode in use to its owners, the rewriting of the records,
  and the set-up of the quota inodes on a new filesystem. Go's maps from identities to usage are
  association lists.
\<close>

section \<open>Configuration\<close>

record QuotaConfig =
  qUser :: bool
  qGroup :: bool
  qProject :: bool
  qEnforce :: bool

definition isZero :: "QuotaConfig \<Rightarrow> bool" where
  "isZero q \<longleftrightarrow> \<not> qUser q \<and> \<not> qGroup q \<and> \<not> qProject q"

definition qflags :: "QuotaConfig \<Rightarrow> u16" where
  "qflags q =
     (let f = 0 :: u16;
          f = (if qUser q then let f = f OR (0x1 OR 0x4) in if qEnforce q then f OR 0x2 else f else f);
          f = (if qGroup q then let f = f OR (0x40 OR 0x100) in if qEnforce q then f OR 0x80 else f else f)
      in if qProject q then let f = f OR (0x8 OR 0x400) in if qEnforce q then f OR 0x200 else f else f)"

section \<open>Quota records\<close>

definition dqTypeUser :: byte where "dqTypeUser = 1"
definition dqTypeProj :: byte where "dqTypeProj = 2"
definition dqTypeGroup :: byte where "dqTypeGroup = 4"
definition dqBlkSize :: nat where "dqBlkSize = 136"

definition buildDquot :: "superblock \<Rightarrow> byte \<Rightarrow> u32 \<Rightarrow> u64 \<Rightarrow> u64 \<Rightarrow> bytes" where
  "buildDquot sb dqType did bc ic =
     (let b = replicate dqBlkSize 0;
          b = put16 0 0x4451 b; b = put8 2 1 b; b = put8 3 dqType b; b = put32 4 did b; b = put64 40 bc b; b = put64 48 ic b
      in if hasCRC sb then updateCRC (patch 120 (take 16 (sbUuid sb)) b) 108 dqBlkSize else b)"

definition dquotsPerBlock :: "superblock \<Rightarrow> nat" where
  "dquotsPerBlock sb = unat (blockSize sb) div dqBlkSize"

text \<open>A block of records for the identities \<open>0, 1, \<dots>\<close> with the given usage (blocks, inodes).\<close>

definition dquotCluster :: "superblock \<Rightarrow> byte \<Rightarrow> (u32 \<Rightarrow> u64 \<times> u64) \<Rightarrow> bytes \<Rightarrow> bytes" where
  "dquotCluster sb dqType usage block =
     fold (\<lambda>i b. patch (i * dqBlkSize) (buildDquot sb dqType (of_nat i) (fst (usage (of_nat i))) (snd (usage (of_nat i)))) b) [0..<dquotsPerBlock sb] block"

definition buildDquotBlock :: "superblock \<Rightarrow> byte \<Rightarrow> bytes \<Rightarrow> bytes" where
  "buildDquotBlock sb dqType block = dquotCluster sb dqType (\<lambda>_. (0, 0)) block"

section \<open>Walking the inode tree of a group\<close>

text \<open>A loop over a list whose body may fail.\<close>

fun foldR :: "('a \<Rightarrow> 'b \<Rightarrow> 'b res) \<Rightarrow> 'a list \<Rightarrow> 'b \<Rightarrow> 'b res" where
  "foldR f [] acc = Inr acc"
| "foldR f (x # xs) acc = bindR (f x acc) (foldR f xs)"

text \<open>The number of steps left stands for the step counter of the code.\<close>

primrec leftmostLeaf :: "nat \<Rightarrow> dev \<Rightarrow> int64 \<Rightarrow> superblock \<Rightarrow> u32 \<Rightarrow> u32 \<Rightarrow> u32 res" where
  "leftmostLeaf 0 d partOff sb ag agRel = Inl ErrBtree"
| "leftmostLeaf (Suc k) d partOff sb ag agRel =
     (let hdrSize = agBTreeHdrSize sb in
      bindR (readAGBlock d partOff sb ag agRel) (\<lambda>blk.
      bindR (u16At blk 4) (\<lambda>lvl.
        if lvl = 0 then Inr agRel
        else bindR (u32At blk (hdrSize + inobtMaxInternal (length blk) hdrSize * inobtKeySize)) (leftmostLeaf k d partOff sb ag))))"

definition leafRecs :: "superblock \<Rightarrow> bytes \<Rightarrow> (u32 \<times> u64) list res" where
  "leafRecs sb blk =
     (let hdrSize = agBTreeHdrSize sb in
      bindR (u16At blk 6) (\<lambda>numrecs.
        if length blk < hdrSize + unat numrecs * inobtRecSize then Inl ErrBtree
        else Inr (map (\<lambda>i. (be32 blk (hdrSize + i * inobtRecSize), be64 blk (hdrSize + i * inobtRecSize + 8))) [0..<unat numrecs])))"

primrec leafChain :: "nat \<Rightarrow> dev \<Rightarrow> int64 \<Rightarrow> superblock \<Rightarrow> u32 \<Rightarrow> (u32 \<times> u64 \<Rightarrow> 'b \<Rightarrow> 'b res) \<Rightarrow> u32 \<Rightarrow> 'b \<Rightarrow> 'b res" where
  "leafChain 0 d partOff sb ag fn agRel acc = (if agRel = nullAgBlock then Inr acc else Inl ErrBtree)"
| "leafChain (Suc k) d partOff sb ag fn agRel acc =
     (if agRel = nullAgBlock then Inr acc
      else bindR (readAGBlock d partOff sb ag agRel) (\<lambda>blk.
           bindR (leafRecs sb blk) (\<lambda>recs.
           bindR (foldR fn recs acc) (\<lambda>acc.
           bindR (u32At blk 12) (\<lambda>rsib. leafChain k d partOff sb ag fn rsib acc)))))"

definition inobtEnumerate :: "dev \<Rightarrow> int64 \<Rightarrow> superblock \<Rightarrow> u32 \<Rightarrow> (u32 \<times> u64 \<Rightarrow> 'b \<Rightarrow> 'b res) \<Rightarrow> 'b \<Rightarrow> 'b res" where
  "inobtEnumerate d partOff sb ag fn acc =
     bindR (agiBlock d partOff sb ag) (\<lambda>agi.
     bindR (u32At agi agiOffRoot) (\<lambda>root.
     bindR (leftmostLeaf (Suc allocBTreeMaxSteps) d partOff sb ag root) (\<lambda>leaf.
       leafChain (Suc allocBTreeMaxSteps) d partOff sb ag fn leaf acc)))"

section \<open>Charging inodes\<close>

record quotaAcct =
  qaBlocks :: u64
  qaInodes :: u64

type_synonym acct = "(u32 \<times> quotaAcct) list"

definition inodeProjid :: "bytes \<Rightarrow> u32" where
  "inodeProjid raw = push_bit 16 (ucast (be16 raw 24)) OR ucast (be16 raw 20)"

definition quotaAdd :: "u32 \<Rightarrow> u64 \<Rightarrow> acct \<Rightarrow> acct" where
  "quotaAdd did blocks m =
     (let a = (case map_of m did of None \<Rightarrow> \<lparr>qaBlocks = 0, qaInodes = 0\<rparr> | Some a \<Rightarrow> a)
      in AList.update did \<lparr>qaBlocks = qaBlocks a + blocks, qaInodes = qaInodes a + 1\<rparr> m)"

definition exempt :: "superblock \<Rightarrow> u64 \<Rightarrow> bool" where
  "exempt sb ino \<longleftrightarrow> ino = uQuotino sb \<or> ino = gQuotino sb \<or> ino = pQuotino sb"

definition chargeInode :: "inode \<Rightarrow> acct \<times> acct \<times> acct \<Rightarrow> acct \<times> acct \<times> acct" where
  "chargeInode inode = (\<lambda>(u, g, p). (quotaAdd (be32 (iRaw inode) 8) (iNBlocks inode) u,
     quotaAdd (be32 (iRaw inode) 12) (iNBlocks inode) g, quotaAdd (inodeProjid (iRaw inode)) (iNBlocks inode) p))"

definition chargeSlot :: "dev \<Rightarrow> int64 \<Rightarrow> superblock \<Rightarrow> u32 \<Rightarrow> u32 \<Rightarrow> u64 \<Rightarrow> nat \<Rightarrow> acct \<times> acct \<times> acct \<Rightarrow> (acct \<times> acct \<times> acct) res" where
  "chargeSlot d partOff sb ag startIno irFree b acc =
     (if bit irFree b then Inr acc
      else let ino = inoFromAGRel sb ag (startIno + of_nat b) in
        if exempt sb ino then Inr acc
        else bindR (readInode d partOff sb ino) (\<lambda>inode.
          if iMode inode = 0 then Inr acc else Inr (chargeInode inode acc)))"

definition quotaScan :: "dev \<Rightarrow> int64 \<Rightarrow> superblock \<Rightarrow> (acct \<times> acct \<times> acct) res" where
  "quotaScan d partOff sb =
     foldR (\<lambda>ag. inobtEnumerate d partOff sb (of_nat ag) (\<lambda>(startIno, irFree).
       foldR (chargeSlot d partOff sb (of_nat ag) startIno irFree) [0..<64])) [0..<unat (agCount sb)] ([], [], [])"

section \<open>Writing the records\<close>

definition usageOf :: "acct \<Rightarrow> u32 \<Rightarrow> u64 \<times> u64" where
  "usageOf m did = (case map_of m did of None \<Rightarrow> (0, 0) | Some a \<Rightarrow> (qaBlocks a, qaInodes a))"

definition quotaWriteDquots :: "int64 \<Rightarrow> superblock \<Rightarrow> u64 \<Rightarrow> byte \<Rightarrow> acct \<Rightarrow> unit io" where
  "quotaWriteDquots partOff sb qino dqType m =
     (if \<exists>did \<in> set (map fst m). unat did \<ge> dquotsPerBlock sb then failIO ErrQuotaIDRange
      else bindIO (readIO (\<lambda>d. readInode d partOff sb qino)) (\<lambda>inode.
      bindIO (liftIO (inlineExtents inode)) (\<lambda>exts.
        case exts of [] \<Rightarrow> failIO ErrFormat
        | e # _ \<Rightarrow> writeBlocksData partOff sb (eStartBlock e) 1 (dquotCluster sb dqType (usageOf m) (replicate (unat (blockSize sb)) 0)))))"

definition writeIf :: "bool \<Rightarrow> unit io \<Rightarrow> unit io" where
  "writeIf c m = (if c then m else retIO ())"

definition quotaRecompute :: "int64 \<Rightarrow> superblock \<Rightarrow> unit io" where
  "quotaRecompute partOff sb =
     (if quotaFlags sb = 0 then retIO ()
      else bindIO (readIO (\<lambda>d. quotaScan d partOff sb)) (\<lambda>(u, g, p).
        bindIO (writeIf (uQuotino sb \<noteq> 0) (quotaWriteDquots partOff sb (uQuotino sb) dqTypeUser u)) (\<lambda>_.
        bindIO (writeIf (gQuotino sb \<noteq> 0) (quotaWriteDquots partOff sb (gQuotino sb) dqTypeGroup g)) (\<lambda>_.
          writeIf (pQuotino sb \<noteq> 0) (quotaWriteDquots partOff sb (pQuotino sb) dqTypeProj p)))))"

section \<open>Setting quotas up\<close>

definition mkQuotaInode :: "('g, 'v) safeio \<Rightarrow> nat \<Rightarrow> clock \<Rightarrow> int64 \<Rightarrow> superblock \<Rightarrow> byte \<Rightarrow> u64 aio" where
  "mkQuotaInode sio fuel clk partOff sb dqType =
     bindIO (allocInode (allocBlocks sio fuel partOff sb) (freeBlocks sio fuel partOff sb) fuel (clkChunk clk 0) partOff sb 0) (\<lambda>ino.
     bindIO (allocBlocks sio fuel partOff sb 0 1) (\<lambda>blk.
     bindIO (liftIO (extentsInode (newInode sb clk ino 0x8000 1) blk 1 [])) (\<lambda>inode.
     bindIO (putInode partOff sb inode) (\<lambda>_.
     bindIO (onDisk (writeBlocksData partOff sb blk 1 (buildDquotBlock sb dqType (replicate (unat (blockSize sb)) 0)))) (\<lambda>_.
       retIO ino)))))"

definition addQuotaInode ::
  "('g, 'v) safeio \<Rightarrow> nat \<Rightarrow> clock \<Rightarrow> int64 \<Rightarrow> bool \<Rightarrow> byte \<Rightarrow> (u64 \<Rightarrow> superblock \<Rightarrow> superblock) \<Rightarrow> superblock \<Rightarrow> superblock aio" where
  "addQuotaInode sio fuel clk partOff wanted dqType upd sb =
     (if wanted then bindIO (mkQuotaInode sio fuel clk partOff sb dqType) (\<lambda>ino. retIO (upd ino sb)) else retIO sb)"

text \<open>The result is the superblock of the handle with its quota fields set.\<close>

definition setupQuota :: "('g, 'v) safeio \<Rightarrow> nat \<Rightarrow> clock \<Rightarrow> int64 \<Rightarrow> superblock \<Rightarrow> QuotaConfig \<Rightarrow> superblock aio" where
  "setupQuota sio fuel clk partOff sb cfg =
     bindIO (addQuotaInode sio fuel clk partOff (qUser cfg) dqTypeUser (\<lambda>i sb. sb\<lparr>uQuotino := i\<rparr>) sb) (\<lambda>sb.
     bindIO (addQuotaInode sio fuel clk partOff (qGroup cfg) dqTypeGroup (\<lambda>i sb. sb\<lparr>gQuotino := i\<rparr>) sb) (\<lambda>sb.
     bindIO (addQuotaInode sio fuel clk partOff (qProject cfg) dqTypeProj (\<lambda>i sb. sb\<lparr>pQuotino := i\<rparr>) sb) (\<lambda>sb.
     let sb = sb\<lparr>quotaFlags := qflags cfg\<rparr> in
     bindIO (onDisk (writeIO partOff (buildSuperblockBuffer sb (agCount sb) (sbUuid sb) (sbLabel sb)))) (\<lambda>_.
     bindIO (onDisk (syncSuperblockCounts partOff sb)) (\<lambda>_.
     bindIO (onDisk (quotaRecompute partOff sb)) (\<lambda>_. retIO sb))))))"

section \<open>The scan charges every inode in use\<close>

lemma foldR_pure: "(\<And>x acc. x \<in> set xs \<Longrightarrow> f x acc = Inr (g x acc)) \<Longrightarrow> foldR f xs acc = Inr (fold g xs acc)"
  by (induction xs arbitrary: acc) simp_all

lemma fold_skip: "fold (\<lambda>x. if P x then h (k x) else (\<lambda>acc. acc)) xs = fold h (map k (filter P xs))"
  by (induction xs) (simp_all add: fun_eq_iff)

lemma fold_lists: "fold f (concat xss) = fold (fold f) xss"
  by (induction xss) simp_all

lemma leafChain_end: "leafChain k d partOff sb ag fn nullAgBlock acc = Inr acc"
  by (cases k) simp_all

lemma leafRecs_ileaf:
  assumes "ileaf_ok sb blk rs" and "8 \<le> length blk"
  shows "leafRecs sb blk = Inr (map (\<lambda>(st, fc, m). (st, m)) rs)"
proof -
  have n: "unat (be16 blk 6) = length rs" and fits: "agBTreeHdrSize sb + length rs * 16 \<le> length blk" and rs: "irecsOf blk (agBTreeHdrSize sb) (length rs) = rs"
    using assms by (simp_all add: ileaf_ok_def count_of_def)
  have "map (\<lambda>i. (be32 blk (agBTreeHdrSize sb + i * 16), be64 blk (agBTreeHdrSize sb + i * 16 + 8))) [0..<length rs] =
      map (\<lambda>(st, fc, m). (st, m)) (irecsOf blk (agBTreeHdrSize sb) (length rs))"
    by (simp add: irecsOf_def irecAt_def)
  then show ?thesis using n fits rs assms(2) by (simp add: leafRecs_def Let_def u16At_def inobtRecSize_def)
qed

lemma inobtEnumerate_leaf:
  assumes "igrp partOff sb ag rel d agi rs"
  shows "inobtEnumerate d partOff sb ag fn acc = foldR fn (map (\<lambda>(st, fc, m). (st, m)) rs) acc"
proof -
  obtain blk where g: "group_fits partOff sb ag" "body_block sb rel" "agiBlock d partOff sb ag = Inr agi" "be32 agi agiOffRoot = rel"
    "readAGBlock d partOff sb ag rel = Inr blk" "ileaf_ok sb blk rs"
    using assms by (auto simp: igrp_def)
  have "512 \<le> length agi"
    using g(1,3) readBytes_length sectSize_ge by (fastforce simp: group_fits_def agiBlock_def readHeader_Inr)
  moreover have "512 \<le> length blk"
    using g(6) hdr_facts(4) [OF g(1)] by (simp add: ileaf_ok_def)
  moreover have "rel \<noteq> nullAgBlock"
    using g(2) by (auto simp: body_block_def nullAgBlock_def word_less_nat_alt) (use unat_lt(3) [of "agBlocks sb"] in linarith)
  moreover have "be16 blk 4 = 0" "be32 blk 12 = nullAgBlock" using g(6) by (simp_all add: ileaf_ok_def)
  ultimately show ?thesis
    using g leafRecs_ileaf [OF g(6)]
    by (simp add: inobtEnumerate_def u32At_def u16At_def agi_offs leafChain_end bindR_def split: sum.splits)
qed

text \<open>The inodes that a list of chunks marks as in use.\<close>

definition in_use :: "superblock \<Rightarrow> u32 \<Rightarrow> irec list \<Rightarrow> u64 list" where
  "in_use sb ag rs = concat (map (\<lambda>(st, fc, m). map (\<lambda>b. inoFromAGRel sb ag (st + of_nat b)) (filter (\<lambda>b. \<not> bit m b) [0..<64])) rs)"

text \<open>
  The inodes to be charged: those in use in some group, without the quota inodes themselves, whose
  mode is not zero.
\<close>

definition to_charge :: "superblock \<Rightarrow> (u32 \<Rightarrow> irec list) \<Rightarrow> u64 list" where
  "to_charge sb rss = filter (\<lambda>ino. \<not> exempt sb ino) (concat (map (\<lambda>j. in_use sb (of_nat j) (rss (of_nat j))) [0..<unat (agCount sb)]))"

definition charged :: "dev \<Rightarrow> int64 \<Rightarrow> superblock \<Rightarrow> (u32 \<Rightarrow> irec list) \<Rightarrow> inode list" where
  "charged d partOff sb rss = filter (\<lambda>i. iMode i \<noteq> 0) (map (\<lambda>ino. projr (readInode d partOff sb ino)) (to_charge sb rss))"

text \<open>What an owner has to be charged with: the blocks of its inodes and their number.\<close>

definition usage_of :: "(inode \<Rightarrow> u32) \<Rightarrow> inode list \<Rightarrow> u32 \<Rightarrow> u64 \<times> u64" where
  "usage_of owner ins i =
     (sum_list (map iNBlocks (filter (\<lambda>n. owner n = i) ins)), of_nat (length (filter (\<lambda>n. owner n = i) ins)))"

lemma usageOf_add:
  "usageOf (quotaAdd j b m) i = (if i = j then (fst (usageOf m i) + b, snd (usageOf m i) + 1) else usageOf m i)"
  by (simp add: usageOf_def quotaAdd_def Let_def update_conv' split: option.splits)

lemma usageOf_fold:
  "usageOf (fold (\<lambda>n. quotaAdd (owner n) (iNBlocks n)) ins m) i =
    (fst (usageOf m i) + fst (usage_of owner ins i), snd (usageOf m i) + snd (usage_of owner ins i))"
  by (induction ins arbitrary: m) (simp_all add: usage_of_def usageOf_add add_ac)

lemma fold_chargeInode:
  "fold chargeInode ins (u, g, p) = (fold (\<lambda>n. quotaAdd (be32 (iRaw n) 8) (iNBlocks n)) ins u,
     fold (\<lambda>n. quotaAdd (be32 (iRaw n) 12) (iNBlocks n)) ins g, fold (\<lambda>n. quotaAdd (inodeProjid (iRaw n)) (iNBlocks n)) ins p)"
  by (induction ins arbitrary: u g p) (simp_all add: chargeInode_def)

definition charge_ino :: "dev \<Rightarrow> int64 \<Rightarrow> superblock \<Rightarrow> u64 \<Rightarrow> acct \<times> acct \<times> acct \<Rightarrow> acct \<times> acct \<times> acct" where
  "charge_ino d partOff sb ino = (if exempt sb ino then (\<lambda>acc. acc)
     else if iMode (projr (readInode d partOff sb ino)) = 0 then (\<lambda>acc. acc) else chargeInode (projr (readInode d partOff sb ino)))"

lemma fold_charge_ino:
  "fold (charge_ino d partOff sb) inos acc =
    fold chargeInode (filter (\<lambda>i. iMode i \<noteq> 0) (map (\<lambda>ino. projr (readInode d partOff sb ino)) (filter (\<lambda>ino. \<not> exempt sb ino) inos))) acc"
  by (induction inos arbitrary: acc) (simp_all add: charge_ino_def)

lemma chargeSlots:
  assumes "\<forall>ino\<in>set (in_use sb ag [(st, fc, m)]). \<not> exempt sb ino \<longrightarrow> (\<exists>i. readInode d partOff sb ino = Inr i)"
  shows "foldR (chargeSlot d partOff sb ag st m) [0..<64] acc = Inr (fold (charge_ino d partOff sb) (in_use sb ag [(st, fc, m)]) acc)"
proof -
  let ?g = "\<lambda>b. if \<not> bit m b then charge_ino d partOff sb (inoFromAGRel sb ag (st + of_nat b)) else (\<lambda>acc. acc)"
  have "foldR (chargeSlot d partOff sb ag st m) [0..<64] acc = Inr (fold ?g [0..<64] acc)"
  proof (rule foldR_pure)
    fix b acc assume b: "b \<in> set [0..<64]"
    show "chargeSlot d partOff sb ag st m b acc = Inr (?g b acc)"
    proof (cases "bit m b \<or> exempt sb (inoFromAGRel sb ag (st + of_nat b))")
      case True
      then show ?thesis by (auto simp: chargeSlot_def charge_ino_def Let_def)
    next
      case False
      then obtain i where "readInode d partOff sb (inoFromAGRel sb ag (st + of_nat b)) = Inr i"
        using assms b by (auto simp: in_use_def)
      then show ?thesis using False by (simp add: chargeSlot_def charge_ino_def Let_def)
    qed
  qed
  moreover have "fold ?g [0..<64] = fold (charge_ino d partOff sb) (in_use sb ag [(st, fc, m)])"
    using fold_skip [of "\<lambda>b. \<not> bit m b" "charge_ino d partOff sb" "\<lambda>b. inoFromAGRel sb ag (st + of_nat b)"] by (simp add: in_use_def)
  ultimately show ?thesis by simp
qed

lemma group_charges:
  assumes "igrp partOff sb ag rel d agi rs" and "\<forall>ino\<in>set (in_use sb ag rs). \<not> exempt sb ino \<longrightarrow> (\<exists>i. readInode d partOff sb ino = Inr i)"
  shows "inobtEnumerate d partOff sb ag (\<lambda>(st, m). foldR (chargeSlot d partOff sb ag st m) [0..<64]) acc =
    Inr (fold (charge_ino d partOff sb) (in_use sb ag rs) acc)"
proof -
  have "foldR (\<lambda>(st, m). foldR (chargeSlot d partOff sb ag st m) [0..<64]) (map (\<lambda>(st, fc, m). (st, m)) rs) acc =
      Inr (fold (charge_ino d partOff sb) (in_use sb ag rs) acc)"
    using assms(2)
  proof (induction rs arbitrary: acc)
    case Nil
    show ?case by (simp add: in_use_def)
  next
    case (Cons r rs)
    obtain st fc m where r: "r = (st, fc, m)" by (cases r)
    have u: "in_use sb ag (r # rs) = in_use sb ag [(st, fc, m)] @ in_use sb ag rs" by (simp add: in_use_def r)
    have "\<forall>ino\<in>set (in_use sb ag [(st, fc, m)]). \<not> exempt sb ino \<longrightarrow> (\<exists>i. readInode d partOff sb ino = Inr i)"
      and rest: "\<forall>ino\<in>set (in_use sb ag rs). \<not> exempt sb ino \<longrightarrow> (\<exists>i. readInode d partOff sb ino = Inr i)"
      using Cons.prems unfolding u by simp_all
    from chargeSlots [OF this(1)] show ?case unfolding u by (simp add: r Cons.IH [OF rest])
  qed
  then show ?thesis unfolding inobtEnumerate_leaf [OF assms(1)] .
qed

lemma scan_lists:
  assumes trees: "\<forall>j < unat (agCount sb). igrp partOff sb (of_nat j) (rel (of_nat j)) d (agi (of_nat j)) (rss (of_nat j))"
    and readable: "\<forall>ino\<in>set (to_charge sb rss). \<exists>i. readInode d partOff sb ino = Inr i"
  shows "\<exists>u g p. quotaScan d partOff sb = Inr (u, g, p) \<and>
    (\<forall>i. usageOf u i = usage_of (\<lambda>n. be32 (iRaw n) 8) (charged d partOff sb rss) i \<and>
         usageOf g i = usage_of (\<lambda>n. be32 (iRaw n) 12) (charged d partOff sb rss) i \<and>
         usageOf p i = usage_of (\<lambda>n. inodeProjid (iRaw n)) (charged d partOff sb rss) i)"
proof -
  let ?ags = "[0..<unat (agCount sb)]"
  let ?f = "\<lambda>j. fold (charge_ino d partOff sb) (in_use sb (of_nat j) (rss (of_nat j)))"
  have "quotaScan d partOff sb = Inr (fold ?f ?ags ([], [], []))"
    unfolding quotaScan_def
  proof (rule foldR_pure)
    fix j acc assume j: "j \<in> set ?ags"
    show "inobtEnumerate d partOff sb (of_nat j) (\<lambda>(startIno, irFree). foldR (chargeSlot d partOff sb (of_nat j) startIno irFree) [0..<64]) acc = Inr (?f j acc)"
    proof (rule group_charges)
      show "igrp partOff sb (of_nat j) (rel (of_nat j)) d (agi (of_nat j)) (rss (of_nat j))" using trees j by simp
      show "\<forall>ino\<in>set (in_use sb (of_nat j) (rss (of_nat j))). \<not> exempt sb ino \<longrightarrow> (\<exists>i. readInode d partOff sb ino = Inr i)"
      proof (intro ballI impI)
        fix ino assume "ino \<in> set (in_use sb (of_nat j) (rss (of_nat j)))" "\<not> exempt sb ino"
        then have "ino \<in> set (to_charge sb rss)" using j by (auto simp: to_charge_def intro!: bexI [of _ j])
        then show "\<exists>i. readInode d partOff sb ino = Inr i" using readable by blast
      qed
    qed
  qed
  also have "fold ?f ?ags ([], [], []) = fold (charge_ino d partOff sb) (concat (map (\<lambda>j. in_use sb (of_nat j) (rss (of_nat j))) ?ags)) ([], [], [])"
    by (simp add: fold_lists fold_map comp_def)
  also have "\<dots> = fold chargeInode (charged d partOff sb rss) ([], [], [])"
    by (simp only: fold_charge_ino charged_def to_charge_def)
  finally have "quotaScan d partOff sb = Inr (fold chargeInode (charged d partOff sb rss) ([], [], []))" .
  moreover have "usageOf [] i = (0, 0)" for i by (simp add: usageOf_def)
  ultimately show ?thesis by (simp add: fold_chargeInode usageOf_fold)
qed


text \<open>
  What has to be charged, as sets. The inodes in use are those of a chunk of some group that are not marked free.
  An owner is charged with those of them that belong to it, are no quota inodes and have a mode.
\<close>

definition used_inos :: "superblock \<Rightarrow> (u32 \<Rightarrow> irec list) \<Rightarrow> u64 set" where
  "used_inos sb rss = {inoFromAGRel sb (of_nat j) (of_nat i) | j i. j < unat (agCount sb) \<and>
     (\<exists>r\<in>set (rss (of_nat j)). i \<in> {unat (fst r)..<unat (fst r) + 64}) \<and> i \<notin> free_inodes (rss (of_nat j))}"

definition owned_inos :: "dev \<Rightarrow> int64 \<Rightarrow> superblock \<Rightarrow> (u32 \<Rightarrow> irec list) \<Rightarrow> (bytes \<Rightarrow> u32) \<Rightarrow> u32 \<Rightarrow> u64 set" where
  "owned_inos d partOff sb rss owner did = {ino\<in>used_inos sb rss. \<not> exempt sb ino \<and>
     (\<exists>n. readInode d partOff sb ino = Inr n \<and> iMode n \<noteq> 0 \<and> owner (iRaw n) = did)}"

definition due :: "dev \<Rightarrow> int64 \<Rightarrow> superblock \<Rightarrow> (u32 \<Rightarrow> irec list) \<Rightarrow> (bytes \<Rightarrow> u32) \<Rightarrow> u32 \<Rightarrow> u64 \<times> u64" where
  "due d partOff sb rss owner did =
     (\<Sum>ino\<in>owned_inos d partOff sb rss owner did. iNBlocks (projr (readInode d partOff sb ino)), of_nat (card (owned_inos d partOff sb rss owner did)))"

text \<open>
  The project of an inode on disk: \<^verbatim>\<open>di_projid_lo\<close> at 20 and \<^verbatim>\<open>di_projid_hi\<close> at 22, the two bytes
  in front of offset 24 (inode.go: \<^verbatim>\<open>di_big_nextents\<close> at 24 comes right after \<^verbatim>\<open>di_projid_hi\<close>).
\<close>

definition di_projid :: "bytes \<Rightarrow> u32" where
  "di_projid raw = push_bit 16 (ucast (be16 raw 22)) OR ucast (be16 raw 20)"

text \<open>The code takes the high half from offset 24: an inode of project \<open>2 ^ 16\<close> is charged to project 0.\<close>

lemma projid_misread: "di_projid (replicate 22 0 @ [0, 1] @ replicate 152 0) = 0x10000" "inodeProjid (replicate 22 0 @ [0, 1] @ replicate 152 0) = 0"
  by code_simp+

text \<open>The inodes in use of a group, by their numbers in it; with the chunks in order each of them is there once.\<close>

definition used_rels :: "irec list \<Rightarrow> nat list" where
  "used_rels rs = concat (map (\<lambda>(st, fc, m). map (\<lambda>b. unat st + b) (filter (\<lambda>b. \<not> bit m b) [0..<64])) rs)"

lemma used_rels_Cons: "used_rels ((st, fc, m) # rs) = map (\<lambda>b. unat st + b) (filter (\<lambda>b. \<not> bit m b) [0..<64]) @ used_rels rs"
  by (simp add: used_rels_def)

lemma in_use_rels: "in_use sb ag rs = map (\<lambda>i. inoFromAGRel sb ag (of_nat i)) (used_rels rs)"
  by (auto simp: in_use_def used_rels_def map_concat intro!: arg_cong [where f = concat] map_cong)

lemma used_rels_lower: "\<forall>r\<in>set rs. k \<le> unat (fst r) \<Longrightarrow> i \<in> set (used_rels rs) \<Longrightarrow> k \<le> i"
  by (fastforce simp: used_rels_def)

lemma free_inodes_lower: "\<forall>r\<in>set rs. k \<le> unat (fst r) \<Longrightarrow> i \<in> free_inodes rs \<Longrightarrow> k \<le> i"
  by (fastforce simp: free_inodes_def)

lemma used_rels_spec:
  assumes "sorted_wrt (\<lambda>a b. unat (fst a) + 64 \<le> unat (fst b)) rs"
  shows "distinct (used_rels rs)" "set (used_rels rs) = (\<Union>r\<in>set rs. {unat (fst r)..<unat (fst r) + 64}) - free_inodes rs"
proof -
  have "distinct (used_rels rs) \<and> set (used_rels rs) = (\<Union>r\<in>set rs. {unat (fst r)..<unat (fst r) + 64}) - free_inodes rs"
    using assms
  proof (induction rs)
    case Nil
    show ?case by (simp add: used_rels_def)
  next
    case (Cons r rs)
    obtain st fc m where r: "r = (st, fc, m)" by (cases r)
    have low: "\<forall>x\<in>set rs. unat st + 64 \<le> unat (fst x)" using Cons.prems r by simp
    have IH: "distinct (used_rels rs)" "set (used_rels rs) = (\<Union>r\<in>set rs. {unat (fst r)..<unat (fst r) + 64}) - free_inodes rs"
      using Cons by simp_all
    let ?here = "(\<lambda>b. unat st + b) ` {b. b < 64 \<and> \<not> bit m b}" and ?free = "(\<lambda>b. unat st + b) ` {b. bit m b}"
    have fr: "free_inodes (r # rs) = ?free \<union> free_inodes rs" by (simp add: r free_inodes_def)
    have b64: "bit m b \<Longrightarrow> b < 64" for b using bit_imp_le_length [of m b] by simp
    have here: "?here = {unat st..<unat st + 64} - ?free"
    proof (intro set_eqI iffI)
      fix x assume "x \<in> {unat st..<unat st + 64} - ?free"
      then show "x \<in> ?here" by (auto intro!: image_eqI [of x _ "x - unat st"])
    qed auto
    have sep: "{unat st..<unat st + 64} \<inter> free_inodes rs = {}" "{unat st..<unat st + 64} \<inter> (\<Union>r\<in>set rs. {unat (fst r)..<unat (fst r) + 64}) = {}"
      using free_inodes_lower [OF low] low by fastforce+
    have free: "?free \<subseteq> {unat st..<unat st + 64}" using b64 by auto
    have s: "set (used_rels (r # rs)) = ?here \<union> set (used_rels rs)" unfolding r used_rels_Cons by auto
    have "set (used_rels (r # rs)) = (\<Union>r\<in>set (r # rs). {unat (fst r)..<unat (fst r) + 64}) - free_inodes (r # rs)"
      unfolding s here IH(2) fr using sep free by (auto simp: r)
    moreover have "distinct (used_rels (r # rs))"
      unfolding r used_rels_Cons using IH(1) used_rels_lower [OF low] by (fastforce simp: distinct_map inj_on_def)
    ultimately show ?case by blast
  qed
  then show "distinct (used_rels rs)" "set (used_rels rs) = (\<Union>r\<in>set rs. {unat (fst r)..<unat (fst r) + 64}) - free_inodes rs" by blast+
qed

lemma distinct_groups:
  assumes "\<forall>j<N. distinct (L j)" and "inj_on f {(j, i). j < N \<and> i \<in> set (L j)}"
  shows "distinct (concat (map (\<lambda>j. map (\<lambda>i. f (j, i)) (L j)) [0..<N]))"
  using assms
proof (induction N)
  case (Suc N)
  have "inj_on f {(j, i). j < N \<and> i \<in> set (L j)}" by (rule inj_on_subset [OF Suc.prems(2)]) auto
  moreover have "inj_on (\<lambda>i. f (N, i)) (set (L N))" using Suc.prems(2) by (fastforce simp: inj_on_def)
  moreover have "f (j, i) \<noteq> f (N, i')" if "j < N" "i \<in> set (L j)" "i' \<in> set (L N)" for j i i'
    using inj_onD [OF Suc.prems(2), of "(j, i)" "(N, i')"] that by auto
  ultimately show ?case using Suc by (fastforce simp: distinct_map)
qed simp

lemma to_charge_spec:
  assumes g: "\<forall>j < unat (agCount sb). igrp partOff sb (of_nat j) (rel (of_nat j)) d (agi (of_nat j)) (rss (of_nat j)) \<and> chunks_ok sb (rss (of_nat j))"
    and sh: "inoShift sb \<le> 32"
  shows "distinct (to_charge sb rss)" "set (to_charge sb rss) = {ino\<in>used_inos sb rss. \<not> exempt sb ino}"
proof -
  let ?N = "unat (agCount sb)" and ?L = "\<lambda>j. used_rels (rss (of_nat j))" and ?f = "\<lambda>(j, i). inoFromAGRel sb (of_nat j) (of_nat i)"
  have so: "sorted_wrt (\<lambda>a b. unat (fst a) + 64 \<le> unat (fst b)) (rss (of_nat j))" if "j < ?N" for j
    using g that by (simp add: chunks_ok_def)
  have lt: "i < 2 ^ inoShift sb" "i < 2 ^ 32" if "j < ?N" "i \<in> set (?L j)" for j i
  proof -
    have "validateGeometry sb = Inr ()" using g that(1) by (auto simp: igrp_def group_fits_def)
    then have cap: "unat (agBlocks sb) * unat (inopBlock sb) \<le> 2 ^ inoShift sb" using validated_geometry by (simp add: inoShift_def power_add)
    have "\<exists>r\<in>set (rss (of_nat j)). i < unat (fst r) + 64" using that(2) used_rels_spec(2) [OF so [OF that(1)]] by auto
    then obtain r where "r \<in> set (rss (of_nat j))" "i < unat (fst r) + 64" by blast
    moreover from this(1) have "unat (fst r) + 64 \<le> unat (agBlocks sb) * unat (inopBlock sb)" "unat (fst r) + 64 < 2 ^ 32"
      using g that(1) by (fastforce simp: chunks_ok_def)+
    ultimately show "i < 2 ^ inoShift sb" "i < 2 ^ 32" using cap by linarith+
  qed
  have "inj_on ?f {(j, i). j < ?N \<and> i \<in> set (?L j)}"
  proof (rule inj_onI, clarify)
    fix j i j' i' assume m: "j < ?N" "i \<in> set (?L j)" "j' < ?N" "i' \<in> set (?L j')" and eq: "inoFromAGRel sb (of_nat j) (of_nat i) = inoFromAGRel sb (of_nat j') (of_nat i')"
    have u: "unat (of_nat i :: u32) = i" "unat (of_nat i' :: u32) = i'" "unat (of_nat j :: u32) = j" "unat (of_nat j' :: u32) = j'"
      using lt(2) [OF m(1,2)] lt(2) [OF m(3,4)] m(1,3) unat_lt(3) [of "agCount sb"] by (simp_all add: unat_of_nat)
    note k = ino_pack [OF sh, of "of_nat i" "of_nat j"] ino_pack [OF sh, of "of_nat i'" "of_nat j'"]
    have "(of_nat j :: u32) = of_nat j'" "(of_nat i :: u32) = of_nat i'"
      using k(1,3) k(2,4) eq u lt(1) [OF m(1,2)] lt(1) [OF m(3,4)] by metis+
    then show "j = j' \<and> i = i'" using u by metis
  qed
  then have "distinct (concat (map (\<lambda>j. map (\<lambda>i. ?f (j, i)) (?L j)) [0..<?N]))"
    by (rule distinct_groups [rotated]) (use used_rels_spec(1) [OF so] in simp)
  then show "distinct (to_charge sb rss)" by (simp add: to_charge_def in_use_rels)
  have "set (to_charge sb rss) = {ino. (\<exists>j<?N. \<exists>i\<in>set (?L j). ino = inoFromAGRel sb (of_nat j) (of_nat i)) \<and> \<not> exempt sb ino}"
    by (auto simp: to_charge_def in_use_rels)
  also have "\<dots> = {ino\<in>used_inos sb rss. \<not> exempt sb ino}"
  proof -
    have "i \<in> set (?L j) \<longleftrightarrow> (\<exists>r\<in>set (rss (of_nat j)). i \<in> {unat (fst r)..<unat (fst r) + 64}) \<and> i \<notin> free_inodes (rss (of_nat j))" if "j < ?N" for j i
      unfolding used_rels_spec(2) [OF so [OF that]] by blast
    then show ?thesis unfolding used_inos_def by blast
  qed
  finally show "set (to_charge sb rss) = {ino\<in>used_inos sb rss. \<not> exempt sb ino}" .
qed

lemma usage_due:
  assumes t: "distinct (to_charge sb rss)" "set (to_charge sb rss) = {ino\<in>used_inos sb rss. \<not> exempt sb ino}"
    and readable: "\<forall>ino\<in>used_inos sb rss. \<not> exempt sb ino \<longrightarrow> (\<exists>n. readInode d partOff sb ino = Inr n)"
  shows "usage_of (\<lambda>n. owner (iRaw n)) (charged d partOff sb rss) did = due d partOff sb rss owner did"
proof -
  let ?rd = "\<lambda>ino. projr (readInode d partOff sb ino)"
  let ?xs = "filter (\<lambda>ino. iMode (?rd ino) \<noteq> 0 \<and> owner (iRaw (?rd ino)) = did) (to_charge sb rss)"
  have f: "filter (\<lambda>n. owner (iRaw n) = did) (charged d partOff sb rss) = map ?rd ?xs"
    by (simp add: charged_def filter_map comp_def conj_commute)
  have st: "set ?xs = owned_inos d partOff sb rss owner did" using readable unfolding set_filter t(2) owned_inos_def by auto
  have "length ?xs = card (owned_inos d partOff sb rss owner did)" using distinct_card [of ?xs] t(1) unfolding st by simp
  moreover have "sum_list (map (\<lambda>ino. iNBlocks (?rd ino)) ?xs) = (\<Sum>ino\<in>owned_inos d partOff sb rss owner did. iNBlocks (?rd ino))"
    using sum_list_distinct_conv_sum_set [of ?xs "\<lambda>ino. iNBlocks (?rd ino)"] t(1) unfolding st by simp
  ultimately show ?thesis unfolding usage_of_def f due_def by (simp add: comp_def)
qed

text \<open>
  C14. The quota scan charges what is due. On a filesystem whose inode trees have one leaf each with the chunks in
  order, and whose inodes in use can be read, it succeeds, and for every user and every group the usage it finds is the sum of the blocks and the
  number of the inodes that belong to it: each inode in use counts exactly once, except the quota inodes and inodes without a mode, which
  are not charged. The owner is read from the on-disk fields (\<^verbatim>\<open>di_uid\<close> at 8, \<^verbatim>\<open>di_gid\<close> at 12). For projects the same holds
  as long as the two bytes at 24 agree with \<^verbatim>\<open>di_projid_hi\<close> at 22; the code reads the high half at 24, so other inodes are charged
  to a wrong project (\<open>projid_misread\<close>).
\<close>

theorem quotaScan_charges:
  assumes "\<forall>j < unat (agCount sb). igrp partOff sb (of_nat j) (rel (of_nat j)) d (agi (of_nat j)) (rss (of_nat j)) \<and> chunks_ok sb (rss (of_nat j))"
    and "inoShift sb \<le> 32" and "\<forall>ino\<in>used_inos sb rss. \<not> exempt sb ino \<longrightarrow> (\<exists>n. readInode d partOff sb ino = Inr n)"
  shows "\<exists>u g p. quotaScan d partOff sb = Inr (u, g, p) \<and>
    (\<forall>did. usageOf u did = due d partOff sb rss (\<lambda>raw. be32 raw 8) did \<and> usageOf g did = due d partOff sb rss (\<lambda>raw. be32 raw 12) did) \<and>
    ((\<forall>ino\<in>used_inos sb rss. \<forall>n. readInode d partOff sb ino = Inr n \<longrightarrow> be16 (iRaw n) 24 = be16 (iRaw n) 22) \<longrightarrow>
      (\<forall>did. usageOf p did = due d partOff sb rss di_projid did))"
proof -
  note t = to_charge_spec [OF assms(1,2)]
  have tr: "\<forall>j < unat (agCount sb). igrp partOff sb (of_nat j) (rel (of_nat j)) d (agi (of_nat j)) (rss (of_nat j))" using assms(1) by blast
  have rd: "\<forall>ino\<in>set (to_charge sb rss). \<exists>i. readInode d partOff sb ino = Inr i" using assms(3) unfolding t(2) by blast
  note due = usage_due [OF t assms(3)]
  have "due d partOff sb rss inodeProjid did = due d partOff sb rss di_projid did"
    if "\<forall>ino\<in>used_inos sb rss. \<forall>n. readInode d partOff sb ino = Inr n \<longrightarrow> be16 (iRaw n) 24 = be16 (iRaw n) 22" for did
  proof -
    have "owned_inos d partOff sb rss inodeProjid did = owned_inos d partOff sb rss di_projid did"
      unfolding owned_inos_def inodeProjid_def di_projid_def using that by (intro Collect_cong) auto
    then show ?thesis by (simp add: due_def)
  qed
  moreover obtain u g p where "quotaScan d partOff sb = Inr (u, g, p)" "\<forall>did. usageOf u did = due d partOff sb rss (\<lambda>raw. be32 raw 8) did \<and>
      usageOf g did = due d partOff sb rss (\<lambda>raw. be32 raw 12) did \<and> usageOf p did = due d partOff sb rss inodeProjid did"
    using scan_lists [OF tr rd] due [of "\<lambda>raw. be32 raw 8"] due [of "\<lambda>raw. be32 raw 12"] due [of inodeProjid] by auto
  ultimately show ?thesis by (intro exI [of _ u] exI [of _ g] exI [of _ p]) simp
qed

section \<open>The records on disk\<close>

lemma fold_patches:
  assumes "\<forall>i. length (f i) = k" and "n * k \<le> length b" and "i < n"
  shows "window (i * k) k (fold (\<lambda>i b. patch (i * k) (f i) b) [0..<n] b) = f i"
  using assms(2,3)
proof (induction n)
  case (Suc n)
  let ?b = "fold (\<lambda>i b. patch (i * k) (f i) b) [0..<n] b"
  have len: "length (fold (\<lambda>i b. patch (i * k) (f i) b) xs b) = length b" for xs by (induction xs arbitrary: b) simp_all
  show ?case
  proof (cases "i = n")
    case True
    then show ?thesis using Suc.prems assms(1) by (simp add: window_patch_same len)
  next
    case False
    then have "i * k + k \<le> n * k" using Suc.prems(2) mult_le_mono1 [of "Suc i" n k] by simp
    then show ?thesis using Suc False by (simp add: window_patch_before)
  qed
qed simp

lemma length_buildDquot [simp]: "length (buildDquot sb ty did bc ic) = 136"
  by (simp add: buildDquot_def Let_def dqBlkSize_def)

lemma dquot_fields:
  assumes "length (sbUuid sb) = 16"
  shows "be16 (buildDquot sb ty did bc ic) 0 = 0x4451" "byte_at (buildDquot sb ty did bc ic) 3 = ty" "be32 (buildDquot sb ty did bc ic) 4 = did"
    "be64 (buildDquot sb ty did bc ic) 40 = bc" "be64 (buildDquot sb ty did bc ic) 48 = ic"
    "hasCRC sb \<Longrightarrow> verifyCRC (buildDquot sb ty did bc ic) 108 136"
  using assms by (simp_all add: buildDquot_def image_simps dqBlkSize_def put_defs updateCRC_stamped)

lemma length_cluster [simp]: "length (dquotCluster sb ty us block) = length block"
proof -
  have "length (fold (\<lambda>i b. patch (i * dqBlkSize) (f i) b) xs block) = length block" for xs f by (induction xs arbitrary: block) simp_all
  then show ?thesis by (simp add: dquotCluster_def)
qed

definition dquot_at :: "superblock \<Rightarrow> bytes \<Rightarrow> nat \<Rightarrow> byte \<Rightarrow> u64 \<times> u64 \<Rightarrow> bool" where
  "dquot_at sb blk i ty us \<longleftrightarrow> (let r = window (i * 136) 136 blk in
     be16 r 0 = 0x4451 \<and> byte_at r 3 = ty \<and> be32 r 4 = of_nat i \<and> be64 r 40 = fst us \<and> be64 r 48 = snd us \<and> (hasCRC sb \<longrightarrow> verifyCRC r 108 136))"

lemma cluster_records:
  assumes "length (sbUuid sb) = 16" and "i < dquotsPerBlock sb" and "length block = unat (blockSize sb)"
  shows "dquot_at sb (dquotCluster sb ty us block) i ty (us (of_nat i))"
proof -
  have "dquotsPerBlock sb * 136 \<le> length block"
    using assms(3) by (simp add: dquotsPerBlock_def dqBlkSize_def)
  then have "window (i * 136) 136 (dquotCluster sb ty us block) = buildDquot sb ty (of_nat i) (fst (us (of_nat i))) (snd (us (of_nat i)))"
    using fold_patches [of "\<lambda>i. buildDquot sb ty (of_nat i) (fst (us (of_nat i))) (snd (us (of_nat i)))" 136 "dquotsPerBlock sb" block i] assms(2)
    by (simp add: dquotCluster_def dqBlkSize_def)
  then show ?thesis using dquot_fields [OF assms(1)] by (simp add: dquot_at_def Let_def)
qed

text \<open>
  C15. Writing quota records: with an identity beyond the one block of records, it fails and
  writes nothing. Otherwise, for a quota inode with a data block, it succeeds; afterwards that block
  holds for every identity a record of the right type with the usage found and, where the filesystem
  has checksums, a correct one; and everything outside the block reads as before.
\<close>

theorem quotaWriteDquots_stores:
  assumes q: "readInode d partOff sb qino = Inr inode" "inlineExtents inode = Inr (e # es)"
    and run: "run_addressable partOff sb (eStartBlock e) 1" and uuid: "length (sbUuid sb) = 16"
  shows "((\<exists>did\<in>set (map fst m). dquotsPerBlock sb \<le> unat did) \<longrightarrow> quotaWriteDquots partOff sb qino ty m d = (Inl ErrQuotaIDRange, d)) \<and>
    ((\<forall>did\<in>set (map fst m). unat did < dquotsPerBlock sb) \<longrightarrow> (\<exists>d' blk. quotaWriteDquots partOff sb qino ty m d = (Inr (), d') \<and>
      readRawBlock d' partOff sb (eStartBlock e) = Inr blk \<and> (\<forall>i < dquotsPerBlock sb. dquot_at sb blk i ty (usageOf m (of_nat i))) \<and>
      (\<forall>off n xs. ReadAt d off n = Inr xs \<and> off_run partOff sb (eStartBlock e) 1 off n \<longrightarrow> ReadAt d' off n = Inr xs)))"
proof (rule conjI)
  show "(\<exists>did\<in>set (map fst m). dquotsPerBlock sb \<le> unat did) \<longrightarrow> quotaWriteDquots partOff sb qino ty m d = (Inl ErrQuotaIDRange, d)"
    by (simp add: quotaWriteDquots_def)
  let ?blk = "dquotCluster sb ty (usageOf m) (replicate (unat (blockSize sb)) 0)"
  show "(\<forall>did\<in>set (map fst m). unat did < dquotsPerBlock sb) \<longrightarrow> (\<exists>d' blk. quotaWriteDquots partOff sb qino ty m d = (Inr (), d') \<and>
      readRawBlock d' partOff sb (eStartBlock e) = Inr blk \<and> (\<forall>i < dquotsPerBlock sb. dquot_at sb blk i ty (usageOf m (of_nat i))) \<and>
      (\<forall>off n xs. ReadAt d off n = Inr xs \<and> off_run partOff sb (eStartBlock e) 1 off n \<longrightarrow> ReadAt d' off n = Inr xs))"
  proof
    assume "\<forall>did\<in>set (map fst m). unat did < dquotsPerBlock sb"
    then have nr: "\<not> (\<exists>did\<in>set (map fst m). unat did \<ge> dquotsPerBlock sb)" by (simp add: not_le)
    obtain d' where d': "writeBlocksData partOff sb (eStartBlock e) 1 ?blk d = (Inr (), d')"
      "ReadAt d' (partOff + fsbToPhysBlock sb (eStartBlock e) * ucast (blockSize sb)) (unat (blockSize sb)) = Inr ?blk"
      "\<forall>off n xs. ReadAt d off n = Inr xs \<and> off_run partOff sb (eStartBlock e) 1 off n \<longrightarrow> ReadAt d' off n = Inr xs"
      using writeBlocksData_spec [of partOff sb "eStartBlock e" 1 ?blk d] run by auto
    have "quotaWriteDquots partOff sb qino ty m d = (Inr (), d')"
      using nr q d'(1) by (simp add: quotaWriteDquots_def bindIO_apply)
    moreover have "readRawBlock d' partOff sb (eStartBlock e) = Inr ?blk"
      using d'(2) readRawBlock_addressable [OF run_addressable_first [OF run]] by simp
    ultimately show "\<exists>d' blk. quotaWriteDquots partOff sb qino ty m d = (Inr (), d') \<and>
      readRawBlock d' partOff sb (eStartBlock e) = Inr blk \<and> (\<forall>i < dquotsPerBlock sb. dquot_at sb blk i ty (usageOf m (of_nat i))) \<and>
      (\<forall>off n xs. ReadAt d off n = Inr xs \<and> off_run partOff sb (eStartBlock e) 1 off n \<longrightarrow> ReadAt d' off n = Inr xs)"
      using d'(3) cluster_records [OF uuid, of _ "replicate (unat (blockSize sb)) 0" ty "usageOf m"] by auto
  qed
qed

section \<open>Examples\<close>

text \<open>The small image with inode 66 as its user quota inode.\<close>

definition sb_quota :: superblock where
  "sb_quota = sb_group\<lparr>uQuotino := 66, quotaFlags := 5\<rparr>"

lemma sb_quota_same:
  "igrp 0 sb_quota ag rel d agi rs = igrp 0 sb_group ag rel d agi rs" "readInode d 0 sb_quota ino = readInode d 0 sb_group ino"
  "inoFromAGRel sb_quota = inoFromAGRel sb_group" "agCount sb_quota = 1" "uQuotino sb_quota = 66" "gQuotino sb_quota = 0" "pQuotino sb_quota = 0"
  "length (sbUuid sb_quota) = 16" "dquotsPerBlock sb_quota = 3" "run_addressable 0 sb_quota b n = run_addressable 0 sb_group b n"
proof -
  show "igrp 0 sb_quota ag rel d agi rs = igrp 0 sb_group ag rel d agi rs"
    by (simp add: sb_quota_def igrp_def group_fits_def validateGeometry_def sector_ok_def sectSize_def body_block_def agiBlock_def readHeader_def
      agIByteOffset_def agByteOffset_def readAGBlock_def readRawBlock_def blockByteOffset_def agAbsBlock_def fsbToPhysBlock_def ileaf_ok_def agBTreeHdrSize_def)
  show "readInode d 0 sb_quota ino = readInode d 0 sb_group ino"
    by (simp add: sb_quota_def readInode_def inodeByteOff_def inoShift_def)
  show "inoFromAGRel sb_quota = inoFromAGRel sb_group" by (simp add: fun_eq_iff sb_quota_def inoFromAGRel_def inoShift_def)
  show "agCount sb_quota = 1" "uQuotino sb_quota = 66" "gQuotino sb_quota = 0" "pQuotino sb_quota = 0" "length (sbUuid sb_quota) = 16" "dquotsPerBlock sb_quota = 3"
    by (simp_all add: sb_quota_def sb_group_def sb_example_def dquotsPerBlock_def dqBlkSize_def)
  show "run_addressable 0 sb_quota b n = run_addressable 0 sb_group b n" by (simp add: sb_quota_def run_addressable_def fsbToPhysBlock_def)
qed

lemma quota_in_use: "to_charge sb_quota (\<lambda>_. [(64, 61, small_mask)]) = [64, 65]"
proof -
  have f: "filter (\<lambda>b. \<not> bit small_mask b) [0..<64] = [0, 1, 2]"
    unfolding small_mask_def by code_simp
  show ?thesis
    by (simp add: to_charge_def in_use_def f sb_quota_same exempt_def inoFromAGRel_def inoShift_def)
qed

theorem quotaScan_charges_witness:
  "\<exists>u g p. quotaScan (disk del_state) 0 sb_quota = Inr (u, g, p) \<and> {ino\<in>used_inos sb_quota (\<lambda>_. [(64, 61, small_mask)]). \<not> exempt sb_quota ino} = {64, 65} \<and>
    (\<forall>did. usageOf u did = due (disk del_state) 0 sb_quota (\<lambda>_. [(64, 61, small_mask)]) (\<lambda>raw. be32 raw 8) did)"
proof -
  let ?rss = "\<lambda>_. [(64, 61, small_mask)] :: irec list"
  have g: "igrp 0 sb_group 0 6 (disk del_state) (small_part 1024 512) [(64, 61, small_mask)]"
    using del_state_facts(1) by (simp add: group_state_def)
  have ok: "chunks_ok sb_quota [(64, 61, small_mask)]" using small_chunks(1) by (simp add: chunks_ok_def sb_quota_def)
  have t: "\<forall>j < unat (agCount sb_quota). igrp 0 sb_quota (of_nat j) 6 (disk del_state) (small_part 1024 512) [(64, 61, small_mask)] \<and> chunks_ok sb_quota [(64, 61, small_mask)]"
    using g ok by (simp add: sb_quota_same)
  have sh: "inoShift sb_quota \<le> 32" using group_geometry(2) by (simp add: sb_quota_def inoShift_def)
  have u: "{ino\<in>used_inos sb_quota ?rss. \<not> exempt sb_quota ino} = {64, 65}"
    using to_charge_spec(2) [of sb_quota 0 "\<lambda>_. 6" "disk del_state" "\<lambda>_. small_part 1024 512" ?rss, OF t sh] unfolding quota_in_use by simp
  have r: "\<forall>ino\<in>used_inos sb_quota ?rss. \<not> exempt sb_quota ino \<longrightarrow> (\<exists>n. readInode (disk del_state) 0 sb_quota ino = Inr n)"
  proof (intro ballI impI)
    fix ino assume "ino \<in> used_inos sb_quota ?rss" "\<not> exempt sb_quota ino"
    then have "ino \<in> {64, 65}" using u by blast
    then show "\<exists>n. readInode (disk del_state) 0 sb_quota ino = Inr n" by (auto simp: sb_quota_same del_state_facts)
  qed
  show ?thesis
    using quotaScan_charges [of sb_quota 0 "\<lambda>_. 6" "disk del_state" "\<lambda>_. small_part 1024 512" ?rss, OF t sh r] unfolding u by blast
qed

text \<open>A quota file in blocks 20 and 21 of the small image.\<close>

theorem quotaWriteDquots_stores_witness:
  "quotaWriteDquots 0 sb_quota 65 dqTypeUser [(3, \<lparr>qaBlocks = 1, qaInodes = 1\<rparr>)] (disk del_state) = (Inl ErrQuotaIDRange, disk del_state) \<and>
   (\<exists>d' blk. quotaWriteDquots 0 sb_quota 65 dqTypeUser [(1, \<lparr>qaBlocks = 9, qaInodes = 4\<rparr>)] (disk del_state) = (Inr (), d') \<and>
     readRawBlock d' 0 sb_quota (agAbsBlock sb_group 0 20) = Inr blk \<and> dquot_at sb_quota blk 1 dqTypeUser (9, 4) \<and> dquot_at sb_quota blk 2 dqTypeUser (0, 0))"
proof -
  have r: "readInode (disk del_state) 0 sb_quota 65 = Inr (stampInode sb_group del_file)" by (simp add: sb_quota_same del_state_facts)
  obtain e where e: "inlineExtents (stampInode sb_group del_file) = Inr [e]" "eStartBlock e = agAbsBlock sb_group 0 20"
    using del_file_facts(3) by (auto simp: plain_file_def)
  have run: "run_addressable 0 sb_quota (agAbsBlock sb_group 0 20) 1"
    unfolding sb_quota_same(10) by (simp add: run_addressable_def agAbsBlock_def fsbToPhysBlock_def)
  note t = quotaWriteDquots_stores [OF r e(1) _ sb_quota_same(8), unfolded e(2), OF run, of _ dqTypeUser]
  have u: "usageOf [(1, \<lparr>qaBlocks = 9, qaInodes = 4\<rparr>)] 1 = (9, 4)" "usageOf [(1, \<lparr>qaBlocks = 9, qaInodes = 4\<rparr>)] 2 = (0, 0)" by (simp_all add: usageOf_def)
  have first: "quotaWriteDquots 0 sb_quota 65 dqTypeUser [(3, \<lparr>qaBlocks = 1, qaInodes = 1\<rparr>)] (disk del_state) = (Inl ErrQuotaIDRange, disk del_state)"
    using t [of "[(3, \<lparr>qaBlocks = 1, qaInodes = 1\<rparr>)]"] by (simp add: sb_quota_same)
  obtain d' blk where w: "quotaWriteDquots 0 sb_quota 65 dqTypeUser [(1, \<lparr>qaBlocks = 9, qaInodes = 4\<rparr>)] (disk del_state) = (Inr (), d')"
    "readRawBlock d' 0 sb_quota (agAbsBlock sb_group 0 20) = Inr blk" "\<forall>i < 3. dquot_at sb_quota blk i dqTypeUser (usageOf [(1, \<lparr>qaBlocks = 9, qaInodes = 4\<rparr>)] (of_nat i))"
    using t [of "[(1, \<lparr>qaBlocks = 9, qaInodes = 4\<rparr>)]"] by (auto simp: sb_quota_same)
  have "dquot_at sb_quota blk 1 dqTypeUser (9, 4)" "dquot_at sb_quota blk 2 dqTypeUser (0, 0)"
    using spec [OF w(3), of 1] spec [OF w(3), of 2] u by simp_all
  then show ?thesis using first w(1,2) by blast
qed

end
