(* ===== verification/Fs.thy ===== *)
theory Fs
  imports Quota
begin

text \<open>
  The handle of an open filesystem (fs.go, label.go, partition.go, extended_stat.go): finding the
  partition, opening, the operations of the public interface with the bookkeeping after every
  change, growing, and the volume label. What the code takes from the package \<^verbatim>\<open>gpt\<close> is a
  parameter. The lock of the handle and \<^verbatim>\<open>Sync\<close> are left out: operations run one at a time and every
  write is on the device when it returns.
\<close>

section \<open>Partitions\<close>

datatype gptError = GptNotFound | GptNoTable | GptOther

record gptPartition =
  StartOffset :: int64
  isMBR :: bool
  MBRType :: byte

record gpt =
  gptByIndex :: "dev \<Rightarrow> int64 \<Rightarrow> int \<Rightarrow> gptError + gptPartition"
  gptByType :: "dev \<Rightarrow> int64 \<Rightarrow> gptError + gptPartition"
  gptList :: "dev \<Rightarrow> int64 \<Rightarrow> gptError + gptPartition list"

definition gptFirstLinux :: "gpt \<Rightarrow> dev \<Rightarrow> int64 \<Rightarrow> gptError + gptPartition" where
  "gptFirstLinux G r deviceSize =
     (case gptList G r deviceSize of Inl e \<Rightarrow> Inl e
      | Inr parts \<Rightarrow>
          (case find (\<lambda>p. isMBR p \<and> MBRType p = 0x83) parts of Some p \<Rightarrow> Inr p
           | None \<Rightarrow> (case parts of p # _ \<Rightarrow> Inr p | [] \<Rightarrow> Inl GptNotFound)))"

definition partitionOffset :: "gpt \<Rightarrow> dev \<Rightarrow> int64 \<Rightarrow> int \<Rightarrow> int64 res" where
  "partitionOffset G r deviceSize partIndex =
     (if sint deviceSize \<le> 0 then Inr 0
      else let p = (if partIndex \<ge> 0 then gptByIndex G r deviceSize partIndex
                    else case gptByType G r deviceSize of Inl GptNotFound \<Rightarrow> gptFirstLinux G r deviceSize | q \<Rightarrow> q)
        in case p of Inl GptNoTable \<Rightarrow> Inr 0 | Inl _ \<Rightarrow> Inl ErrPartTable | Inr p \<Rightarrow> Inr (StartOffset p))"

section \<open>The handle\<close>

record xfsFS =
  partOffset :: int64
  fsSb :: superblock
  fsAlloc :: alloc

type_synonym 'a fio = "(xfsFS, 'a) st"

abbreviation fsDev :: "xfsFS \<Rightarrow> dev" where "fsDev fs \<equiv> disk (fsAlloc fs)"

definition OpenFromDevice :: "gpt \<Rightarrow> dev \<Rightarrow> int \<Rightarrow> xfsFS res" where
  "OpenFromDevice G d partIndex =
     (let devSize = of_nat (dsize d) in
      bindR (partitionOffset G d devSize partIndex) (\<lambda>off.
      bindR (readSuperblock d off) (\<lambda>sb.
      bindR (checkGeometryFitsDevice sb (devSize - off)) (\<lambda>_.
        Inr \<lparr>partOffset = off, fsSb = sb, fsAlloc = freshAlloc d\<rparr>))))"

text \<open>\<^verbatim>\<open>Format\<close> as a whole: the image is made, opened and, if asked for, given its quota inodes.\<close>

definition Format ::
  "gpt \<Rightarrow> ('g, 'v) safeio \<Rightarrow> nat \<Rightarrow> bytes res \<Rightarrow> (nat \<Rightarrow> u32 \<times> u32) \<Rightarrow> clock \<Rightarrow> int64 \<Rightarrow> FormatConfig \<Rightarrow> QuotaConfig \<Rightarrow> xfsFS io" where
  "Format G sio fuel rnd now clk sizeBytes cfg quota =
     bindIO (formatImage rnd now sizeBytes cfg) (\<lambda>_.
     bindIO (readIO (\<lambda>d. OpenFromDevice G d (- 1))) (\<lambda>fs.
       if isZero quota then retIO fs
       else (\<lambda>d. case setupQuota sio fuel clk (partOffset fs) (fsSb fs) quota (fsAlloc fs) of
          (Inl e, a) \<Rightarrow> (Inl e, disk a) | (Inr sb, a) \<Rightarrow> (Inr (fs\<lparr>fsSb := sb, fsAlloc := a\<rparr>), disk a))))"

section \<open>Reading\<close>

definition ReadFile :: "('g, 'v) safeio \<Rightarrow> xfsFS \<Rightarrow> bytes \<Rightarrow> bytes res" where
  "ReadFile sio fs p =
     bindR (pathLookup sio (fsDev fs) (partOffset fs) (fsSb fs) p) (\<lambda>inode.
       if \<not> isRegular inode then Inl ErrNotRegular
       else returned (readFileData sio (fsDev fs) (partOffset fs) (fsSb fs) inode))"

definition ListDir :: "('g, 'v) safeio \<Rightarrow> xfsFS \<Rightarrow> bytes \<Rightarrow> DirEntry list res" where
  "ListDir sio fs p =
     bindR (pathLookup sio (fsDev fs) (partOffset fs) (fsSb fs) p) (\<lambda>inode.
       if \<not> isDir inode then Inl ErrNotDir else readDir sio (fsDev fs) (partOffset fs) (fsSb fs) inode)"

definition Stat :: "('g, 'v) safeio \<Rightarrow> xfsFS \<Rightarrow> bytes \<Rightarrow> (u16 \<times> u64 \<times> u64) res" where
  "Stat sio fs p =
     bindR (pathLookup sio (fsDev fs) (partOffset fs) (fsSb fs) p) (\<lambda>inode. Inr (iMode inode, iSize inode, iNum inode))"

definition HasReflink :: "xfsFS \<Rightarrow> bool" where
  "HasReflink fs = hasReflink (fsSb fs)"

text \<open>The part of a path before its last slash and the part after it, as \<^verbatim>\<open>ReadLink\<close> takes them.\<close>

definition splitLast :: "bytes \<Rightarrow> bytes \<times> bytes" where
  "splitLast p =
     (if 47 \<in> set p then (rev (tl (dropWhile (\<lambda>c. c \<noteq> 47) (rev p))), rev (takeWhile (\<lambda>c. c \<noteq> 47) (rev p))) else ([], []))"

definition ReadLink :: "('g, 'v) safeio \<Rightarrow> xfsFS \<Rightarrow> bytes \<Rightarrow> bytes res" where
  "ReadLink sio fs p =
     (if p = [47] then Inl ErrNotSymlink
      else let (parentPath, name) = splitLast p; parentPath = (if parentPath = [] then [47] else parentPath);
               d = fsDev fs; off = partOffset fs; sb = fsSb fs in
        bindR (pathLookup sio d off sb parentPath) (\<lambda>parentIn.
        bindR (case lookupInDir sio d off sb parentIn name of Inl e \<Rightarrow> Inl (notExistIfMissing e) | Inr ino \<Rightarrow> Inr ino) (\<lambda>ino.
        bindR (readInode d off sb ino) (\<lambda>inode.
          if \<not> isSymlink inode then Inl ErrNotSymlink else returned (readSymlinkTarget sio d off sb inode)))))"

record InodeStat =
  sInode :: u64
  sMode :: u16
  sSize :: u64
  sNBlocks :: u64
  sNLink :: u32
  sUID :: u32
  sGID :: u32
  sGeneration :: u32
  sATime :: int
  sCTime :: int
  sMTime :: int
  sCRTime :: "int option"

definition IsRegular :: "InodeStat \<Rightarrow> bool" where
  "IsRegular s \<longleftrightarrow> sMode s AND 0xF000 = 0x8000"

definition IsDir :: "InodeStat \<Rightarrow> bool" where
  "IsDir s \<longleftrightarrow> sMode s AND 0xF000 = 0x4000"

definition IsSymlink :: "InodeStat \<Rightarrow> bool" where
  "IsSymlink s \<longleftrightarrow> sMode s AND 0xF000 = 0xA000"

definition ExtendedStat :: "('g, 'v) safeio \<Rightarrow> xfsFS \<Rightarrow> bytes \<Rightarrow> InodeStat res" where
  "ExtendedStat sio fs p =
     bindR (lstatLookup sio (fsDev fs) (partOffset fs) (fsSb fs) p) (\<lambda>inode.
       let raw = iRaw inode; readT = (\<lambda>off. decodeInodeTime raw off (inodeHasBigtime raw)) in
       Inr \<lparr>sInode = iNum inode, sMode = iMode inode, sSize = iSize inode, sNBlocks = iNBlocks inode, sNLink = be32 raw 16, sUID = be32 raw 8,
         sGID = be32 raw 12, sGeneration = be32 raw 92, sATime = readT 32, sCTime = readT 48, sMTime = readT 40,
         sCRTime = (if hasCRC (fsSb fs) then Some (readT 144) else None)\<rparr>)"

section \<open>Changes\<close>

definition onFS :: "(int64 \<Rightarrow> superblock \<Rightarrow> 'a aio) \<Rightarrow> 'a fio" where
  "onFS m = (\<lambda>fs. case m (partOffset fs) (fsSb fs) (fsAlloc fs) of (r, a) \<Rightarrow> (r, fs\<lparr>fsAlloc := a\<rparr>))"

definition afterMutation :: "(int64 \<Rightarrow> superblock \<Rightarrow> unit aio) \<Rightarrow> unit fio" where
  "afterMutation m = onFS (\<lambda>off sb. bindIO (m off sb) (\<lambda>_.
     bindIO (onDisk (syncSuperblockCounts off sb)) (\<lambda>_. onDisk (quotaRecompute off sb))))"

definition WriteFile :: "('g, 'v) safeio \<Rightarrow> nat \<Rightarrow> clock \<Rightarrow> bytes \<Rightarrow> bytes \<Rightarrow> u32 \<Rightarrow> unit fio" where
  "WriteFile sio fuel clk p data perm = afterMutation (\<lambda>off sb. writeFile sio fuel clk off sb p data perm)"

definition DeleteFile :: "('g, 'v) safeio \<Rightarrow> nat \<Rightarrow> bytes \<Rightarrow> unit fio" where
  "DeleteFile sio fuel p = afterMutation (\<lambda>off sb. deleteFile sio fuel off sb p)"

definition ReflinkFS :: "('g, 'v) safeio \<Rightarrow> nat \<Rightarrow> clock \<Rightarrow> bytes \<Rightarrow> bytes \<Rightarrow> unit fio" where
  "ReflinkFS sio fuel clk srcPath dstPath = afterMutation (\<lambda>off sb. reflinkFile sio fuel clk off sb srcPath dstPath)"

definition Link :: "('g, 'v) safeio \<Rightarrow> nat \<Rightarrow> clock \<Rightarrow> bytes \<Rightarrow> bytes \<Rightarrow> unit fio" where
  "Link sio fuel clk oldPath newPath = afterMutation (\<lambda>off sb. linkInode sio fuel clk off sb oldPath newPath)"

definition TruncateFS :: "('g, 'v) safeio \<Rightarrow> nat \<Rightarrow> clock \<Rightarrow> bytes \<Rightarrow> int64 \<Rightarrow> unit fio" where
  "TruncateFS sio fuel clk p newSize =
     (if sint newSize < 0 then failIO ErrInvalidArg else afterMutation (\<lambda>off sb. truncateInode sio fuel clk off sb p newSize))"

definition Symlink :: "('g, 'v) safeio \<Rightarrow> nat \<Rightarrow> clock \<Rightarrow> bytes \<Rightarrow> bytes \<Rightarrow> unit fio" where
  "Symlink sio fuel clk target linkPath = afterMutation (\<lambda>off sb. symlinkInode sio fuel clk off sb target linkPath)"

definition MkDir :: "('g, 'v) safeio \<Rightarrow> nat \<Rightarrow> clock \<Rightarrow> bytes \<Rightarrow> u32 \<Rightarrow> unit fio" where
  "MkDir sio fuel clk p perm = afterMutation (\<lambda>off sb. makeDir sio fuel clk off sb p perm)"

definition DeleteDir :: "nat \<Rightarrow> ('g, 'v) safeio \<Rightarrow> nat \<Rightarrow> bytes \<Rightarrow> unit fio" where
  "DeleteDir depth sio fuel p = afterMutation (\<lambda>off sb. deleteDir depth sio fuel off sb p)"

definition Rename :: "nat \<Rightarrow> ('g, 'v) safeio \<Rightarrow> nat \<Rightarrow> bytes \<Rightarrow> bytes \<Rightarrow> unit fio" where
  "Rename depth sio fuel oldPath newPath = afterMutation (\<lambda>off sb. renameEntry depth sio fuel off sb oldPath newPath)"

definition Chown :: "('g, 'v) safeio \<Rightarrow> clock \<Rightarrow> bytes \<Rightarrow> u32 \<Rightarrow> u32 \<Rightarrow> unit fio" where
  "Chown sio clk p uid gid = afterMutation (\<lambda>off sb. chownInode sio clk off sb p uid gid)"

definition Chmod :: "('g, 'v) safeio \<Rightarrow> clock \<Rightarrow> bytes \<Rightarrow> u32 \<Rightarrow> unit fio" where
  "Chmod sio clk p perm = onFS (\<lambda>off sb. chmodInode sio clk off sb p perm)"

definition Chtimes :: "('g, 'v) safeio \<Rightarrow> clock \<Rightarrow> bytes \<Rightarrow> u32 \<times> u32 \<Rightarrow> u32 \<times> u32 \<Rightarrow> unit fio" where
  "Chtimes sio clk p atime mtime = onFS (\<lambda>off sb. chtimesInode sio clk off sb p atime mtime)"

section \<open>The label\<close>

definition Label :: "xfsFS \<Rightarrow> bytes" where
  "Label fs = sbLabel (fsSb fs)"

definition relabel :: "superblock \<Rightarrow> bytes \<Rightarrow> bytes \<Rightarrow> bytes" where
  "relabel sb b buf = (let buf = patch 108 b (zero_range 108 12 buf) in if hasCRC sb then updateCRC buf 224 512 else buf)"

definition relabelGroup :: "int64 \<Rightarrow> superblock \<Rightarrow> bytes \<Rightarrow> u32 \<Rightarrow> unit io" where
  "relabelGroup partOff sb b ag =
     (let sbOff = partOff + agByteOffset sb ag in
      bindIO (readIO (\<lambda>d. ReadAt d sbOff 512)) (\<lambda>buf.
        if be32 buf 0 \<noteq> magicSB then failIO ErrBadMagic else writeIO sbOff (relabel sb b buf)))"

definition SetLabel :: "bytes \<Rightarrow> unit fio" where
  "SetLabel b =
     (if length b > 12 then failIO ErrLabelTooLong
      else bindIO (onFS (\<lambda>off sb. onDisk (forIO (map of_nat [0..<unat (agCount sb)]) (relabelGroup off sb b))))
        (\<lambda>_ fs. (Inr (), fs\<lparr>fsSb := (fsSb fs)\<lparr>sbLabel := trimLabel b\<rparr>\<rparr>)))"

section \<open>Growing\<close>

definition growMinAGBlocks :: int where "growMinAGBlocks = 256"

definition curBlocks :: "superblock \<Rightarrow> int64" where
  "curBlocks sb = (if dBlocks sb = 0 then ucast (agCount sb) * ucast (agBlocks sb) else dBlocks sb)"

definition growGroups :: "int64 \<Rightarrow> superblock \<Rightarrow> int64 \<Rightarrow> unit io" where
  "growGroups partOff sb curDBlocks =
     forIO (filter (\<lambda>ag. \<not> sint (ucast ag * ucast (agBlocks sb) :: int64) < sint curDBlocks) (map of_nat [0..<unat (agCount sb)])) (\<lambda>ag.
       bindIO (fmtWriteAG sb (sbUuid sb) ag) (\<lambda>_. fmtWriteSecondarySB partOff sb ag (agCount sb) (sbUuid sb) (sbLabel sb)))"

definition Grow :: "int64 \<Rightarrow> unit fio" where
  "Grow newSizeBytes = (\<lambda>fs.
     let sb = fsSb fs; curDBlocks = curBlocks sb; newDBlocks = of_int (sint newSizeBytes div int (unat (blockSize sb))) :: int64;
         agB = int (unat (agBlocks sb)); newAgCount = of_int ((sint newDBlocks + agB - 1) div agB) :: u32 in
     if sint newSizeBytes mod int (unat (blockSize sb)) \<noteq> 0 then (Inl ErrUnaligned, fs)
     else if newDBlocks = curDBlocks then (Inr (), fs)
     else if sint newDBlocks < sint curDBlocks then (Inl ErrShrink, fs)
     else if sint curDBlocks mod agB \<noteq> 0 then (Inl ErrPartialAG, fs)
     else if sint (newDBlocks - ucast (newAgCount - 1) * ucast (agBlocks sb)) < growMinAGBlocks then (Inl ErrPartialAG, fs)
     else bindIO (onFS (\<lambda>off sb. onDisk (truncateIO (off + newSizeBytes)))) (\<lambda>_ fs.
       let sb' = sb\<lparr>dBlocks := newDBlocks, agCount := newAgCount\<rparr> in
       onFS (\<lambda>off sb. onDisk (bindIO (growGroups off sb curDBlocks) (\<lambda>_. fmtWriteSuperblock sb newAgCount (sbUuid sb) (sbLabel sb))))
         (fs\<lparr>fsSb := sb'\<rparr>)) fs)"

definition GrowTo :: "int64 \<Rightarrow> unit fio" where
  "GrowTo newSizeBytes = Grow newSizeBytes"

definition Resize :: "int64 \<Rightarrow> unit fio" where
  "Resize newSizeBytes = (\<lambda>fs.
     if sint newSizeBytes < sint (curBlocks (fsSb fs) * ucast (blockSize (fsSb fs))) then (Inl ErrShrink, fs) else Grow newSizeBytes fs)"

section \<open>Growing adds fresh groups and keeps the old ones\<close>

lemma onDisk_apply: "onDisk m a = (fst (m (disk a)), a\<lparr>disk := snd (m (disk a))\<rparr>)"
  by (simp add: onDisk_def split: prod.splits)

definition secondary :: "superblock \<Rightarrow> bytes \<Rightarrow> nat \<Rightarrow> int64 \<times> bytes" where
  "secondary sb buf j = (of_nat j * ucast (agBlocks sb) * ucast (blockSize sb), buf)"

definition newGroupWrites :: "superblock \<Rightarrow> bytes \<Rightarrow> nat \<Rightarrow> (int64 \<times> bytes) list" where
  "newGroupWrites sb buf j = groupWrites sb (of_nat j) 16384 (sbUuid sb) @ [secondary sb buf j]"

lemma upt_from: "n \<le> k \<Longrightarrow> [0..<k] = [0..<n] @ [n..<k]" for n k :: nat
  using upt_add_eq_append [of 0 n "k - n"] by simp

lemma of_nat_u32: "j < unat (n :: u32) \<Longrightarrow> unat (of_nat j :: u32) = j \<and> ucast (of_nat j :: u32) = (of_nat j :: int64)"
proof -
  assume j: "j < unat n"
  then have a: "unat (of_nat j :: u32) = j" using unat_lt(3) [of n] by (simp add: unat_of_nat)
  have "ucast (of_nat j :: u32) = (of_nat j :: int64)"
    by (rule word_unat_eq_iff [THEN iffD2]) (use j unat_lt(3) [of n] a in \<open>simp add: unat_ucast_up unat_of_nat\<close>)
  with a show ?thesis by simp
qed

lemma uint_le_int: "(uint (n :: u32) \<le> int j) = (unat n \<le> j)"
proof -
  have "uint n = int (unat n)" by simp
  then show ?thesis by (simp only: of_nat_le_iff)
qed

lemma fmt_agLength:
  assumes "fmt_sb sb n reflink" and "j < unat n"
  shows "agLength sb (of_nat j) = 16384"
proof -
  have "unat (ucast n * 16384 :: u64) = unat n * 16384" using unat_lt(3) [of n] by (simp add: unat_word_ariths unat_ucast_up)
  moreover have "ucast n * 16384 \<noteq> (0 :: u64)" using calculation assms(2) by (metis mult_is_0 not_less_zero numeral_neq_zero unat_0)
  ultimately have "unat (agLength sb (of_nat j)) = 16384"
    using unat_agLength [of sb "of_nat j"] assms of_nat_u32 [OF assms(2)] by (simp add: fmt_sb_def)
  then show ?thesis by (intro word_unat_eq_iff [THEN iffD2]) simp
qed

lemma writeAll_single: "writeAll [w] = writeIO (fst w) (snd w)"
  by (rule ext) (simp add: bindIO_def split: prod.splits sum.splits)

lemma growGroups_writes:
  fixes n :: u32
  assumes sb: "fmt_sb sb k reflink" and n: "0 < unat n" "unat n \<le> unat k"
  shows "growGroups 0 sb (ucast n * 16384) = writeAll (concat (map (newGroupWrites sb (buildSuperblockBuffer sb k (sbUuid sb) (sbLabel sb))) [unat n..<unat k]))"
proof -
  have b: "agBlocks sb = 16384" "agCount sb = k" "blockSize sb = 4096" using sb by (simp_all add: fmt_sb_def)
  have s: "sint (ucast m * 16384 :: int64) = int (unat m) * 16384" for m :: u32
  proof -
    have u: "unat (ucast m * 16384 :: int64) = unat m * 16384" using unat_lt(3) [of m] by (simp add: unat_word_ariths unat_ucast_up)
    then show ?thesis using sint_unat [of "ucast m * 16384 :: int64"] unat_lt(3) [of m] by simp
  qed
  have P: "(\<not> sint (ucast (of_nat j :: u32) * ucast (agBlocks sb) :: int64) < sint (ucast n * 16384 :: int64)) = (unat n \<le> j)" if "j < unat k" for j
    using of_nat_u32 [OF that] s [of "of_nat j"] s [of n] by (simp add: b not_less uint_le_int)
  have "filter (\<lambda>ag :: u32. \<not> sint (ucast ag * ucast (agBlocks sb) :: int64) < sint (ucast n * 16384 :: int64)) (map of_nat [0..<unat k]) =
      map of_nat (filter (\<lambda>j. unat n \<le> j) [0..<unat k])"
    unfolding filter_map by (rule arg_cong [where f = "map of_nat"], rule filter_cong [OF refl]) (simp add: P)
  also have "filter (\<lambda>j. unat n \<le> j) [0..<unat k] = [unat n..<unat k]"
    unfolding upt_from [OF n(2)] by simp
  finally have f: "filter (\<lambda>ag :: u32. \<not> sint (ucast ag * ucast (agBlocks sb) :: int64) < sint (ucast n * 16384 :: int64)) (map of_nat [0..<unat k]) = map of_nat [unat n..<unat k]" .
  show ?thesis
    unfolding growGroups_def b(2) f forIO_map writeAll_concat [symmetric]
  proof (rule forIO_cong [OF refl])
    fix j assume "j \<in> set [unat n..<unat k]"
    then have j: "unat n \<le> j" "j < unat k" by simp_all
    then have "(of_nat j :: u32) \<noteq> 0" using of_nat_u32 [OF j(2)] n(1) by (metis not_le unat_0)
    then show "bindIO (fmtWriteAG sb (sbUuid sb) (of_nat j)) (\<lambda>_. fmtWriteSecondarySB 0 sb (of_nat j) k (sbUuid sb) (sbLabel sb)) =
        writeAll (newGroupWrites sb (buildSuperblockBuffer sb k (sbUuid sb) (sbLabel sb)) j)"
      using of_nat_u32 [OF j(2)] fmt_agLength [OF sb j(2)]
      by (simp add: newGroupWrites_def writeAll_append fmtWriteAG_def fmtWriteAGLen_def fmtWriteSecondarySB_def secondary_def b writeAll_single)
  qed
qed

lemma new_pos:
  assumes sb: "fmt_sb sb k reflink" and j: "j < unat k" and b: "length buf = 512"
  shows "map pos (newGroupWrites sb buf j) = group_places reflink j @ [(int j * 67108864, 512)]"
proof -
  have "sint (of_nat j * 16384 * 4096 :: int64) = int j * 67108864"
    using block_at [of 0 "of_nat j"] of_nat_u32 [OF j] by simp
  then show ?thesis
    using group_pos [OF sb, of "of_nat j"] of_nat_u32 [OF j] b sb by (simp add: newGroupWrites_def secondary_def pos_def fmt_sb_def)
qed

definition new_places :: "bool \<Rightarrow> nat \<Rightarrow> (int \<times> int) list" where
  "new_places reflink j = group_places reflink j @ [(int j * 67108864, 512)]"

lemma places_of_new: "p \<in> set (new_places reflink j) \<Longrightarrow> int j * 67108864 \<le> fst p \<and> fst p + snd p \<le> int j * 67108864 + 2572 * 4096"
  by (auto simp: new_places_def dest!: places_of_group)

lemma new_apart: "sorted_wrt apart_pos (concat (map (new_places reflink) [n..<k]))"
proof -
  have one: "sorted_wrt apart_pos (new_places reflink j)" for j
    unfolding new_places_def sorted_wrt_append by (auto simp: apart_pos_def group_places_def dest!: places_of_group)
  have "sorted_wrt (\<lambda>i j. \<forall>p\<in>set (new_places reflink i). \<forall>q\<in>set (new_places reflink j). apart_pos p q) [n..<k]"
  proof (rule sorted_wrt_mono_rel [of _ "(<)"])
    fix i j :: nat assume "i < j"
    then have "int i * 67108864 + 67108864 \<le> int j * 67108864" by simp
    then show "\<forall>p\<in>set (new_places reflink i). \<forall>q\<in>set (new_places reflink j). apart_pos p q"
      by (auto simp: apart_pos_def dest!: places_of_new)
  qed simp
  then show ?thesis using one by (intro sorted_wrt_concat) (simp_all add: sorted_wrt_map)
qed

text \<open>A range of the old image that no superblock lies in.\<close>

definition old_range :: "u32 \<Rightarrow> int64 \<Rightarrow> nat \<Rightarrow> bool" where
  "old_range n off m \<longleftrightarrow> sint off + int m \<le> int (unat n) * 67108864 \<and>
     (\<forall>j < unat n. sint off + int m \<le> int j * 67108864 \<or> int j * 67108864 + 512 \<le> sint off)"

lemma grow_written:
  fixes n k :: u32
  assumes sb: "fmt_sb sb k reflink" and n: "unat n \<le> unat k" and uuid: "length (sbUuid sb) = 16"
  defines "buf \<equiv> buildSuperblockBuffer sb k (sbUuid sb) (sbLabel sb)"
  shows "\<exists>d1 d2. writeAll (concat (map (newGroupWrites sb buf) [unat n..<unat k])) d = (Inr (), d1) \<and> writeAll (sbWrites sb k (sbUuid sb) (sbLabel sb)) d1 = (Inr (), d2) \<and>
    readBytes d2 0 512 = Inr buf \<and> (\<forall>ag. n \<le> ag \<and> ag < k \<longrightarrow> fresh_group d2 sb ag) \<and>
    (\<forall>off m xs. ReadAt d off m = Inr xs \<and> old_range n off m \<longrightarrow> ReadAt d2 off m = Inr xs)"
proof -
  let ?W = "concat (map (newGroupWrites sb buf) [unat n..<unat k])" and ?V = "sbWrites sb k (sbUuid sb) (sbLabel sb)"
  have lb: "length buf = 512" by (simp add: buf_def length_images)
  have k: "0 < unat k" using sb by (simp add: fmt_sb_def word_less_nat_alt)
  have m: "map (\<lambda>j. map pos (newGroupWrites sb buf j)) [unat n..<unat k] = map (new_places reflink) [unat n..<unat k]"
    by (rule map_cong [OF refl]) (simp add: new_pos [OF sb _ lb] new_places_def)
  have pW: "map pos ?W = concat (map (new_places reflink) [unat n..<unat k])"
    by (simp only: map_concat map_map comp_def m)
  have pV: "map pos ?V = sb_places (unat k)" by (rule sb_pos [OF sb])
  have inW: "0 \<le> fst p \<and> int (unat n) * 67108864 \<le> fst p" if "p \<in> set (map pos ?W)" for p
  proof -
    obtain j where j: "unat n \<le> j" "p \<in> set (new_places reflink j)" using \<open>p \<in> _\<close> unfolding pW by auto
    then have "int (unat n) * 67108864 \<le> int j * 67108864" by (simp add: uint_le_int)
    then show ?thesis using places_of_new [OF j(2)] by simp
  qed
  have "\<forall>w\<in>set ?W. 0 \<le> sint (fst w)" using inW by (fastforce simp: pos_def)
  moreover have "sorted_wrt apart_writes ?W" unfolding sorted_apart_pos pW by (rule new_apart)
  ultimately obtain d1 where d1: "writeAll ?W d = (Inr (), d1)" "written ?W d d1" using writeAll_spec by blast
  have "\<forall>p\<in>set (map pos ?V). 0 \<le> fst p" unfolding pV by (auto simp: sb_places_def)
  then have "\<forall>w\<in>set ?V. 0 \<le> sint (fst w)" by (simp add: pos_def)
  moreover have "sorted_wrt apart_pos (sb_places (unat k))"
    unfolding sb_places_def sorted_wrt_map by (rule sorted_wrt_mono_rel [of _ "(<)"]) (auto simp: apart_pos_def)
  then have "sorted_wrt apart_writes ?V" unfolding sorted_apart_pos pV .
  ultimately obtain d2 where d2: "writeAll ?V d1 = (Inr (), d2)" "written ?V d1 d2" using writeAll_spec by blast
  have clearV: "clear_of ?V off m" if "\<forall>q\<in>set (sb_places (unat k)). sint off + int m \<le> fst q \<or> fst q + snd q \<le> sint off" for off m
    using that unfolding pV [symmetric] by (auto simp: clear_of_def pos_def)
  have "(0, buf) \<in> set ?V" using k unfolding buf_def by (force simp: sbWrites_def)
  then have "ReadAt d2 0 512 = Inr buf" using d2(2) lb by (fastforce simp: written_def)
  then have r: "readBytes d2 0 512 = Inr buf" by (simp add: readBytes_def)
  have fresh: "fresh_group d2 sb ag" if ag: "n \<le> ag" "ag < k" for ag
  proof (rule new_group [OF sb sb uuid], rule ballI)
    fix w assume w: "w \<in> set (groupWrites sb ag 16384 (sbUuid sb))"
    have "unat ag \<in> set [unat n..<unat k]" using ag by (simp add: word_le_nat_alt word_less_nat_alt)
    moreover have "w \<in> set (newGroupWrites sb buf (unat ag))" using w by (simp add: newGroupWrites_def)
    ultimately have "w \<in> set ?W" by auto
    then have "ReadAt d1 (fst w) (length (snd w)) = Inr (snd w)" using d1(2) unfolding written_def by blast
    moreover have "pos w \<in> set (group_places reflink (unat ag))" using w group_pos [OF sb, of ag 16384 "sbUuid sb"] by (metis image_eqI set_map)
    note pl = places_of_group [OF this]
    obtain a where a: "unat ag = a" by blast
    have "clear_of ?V (fst w) (length (snd w))"
    proof (rule clearV, rule ballI)
      fix q assume "q \<in> set (sb_places (unat k))"
      then obtain b where q: "q = (int b * 67108864, 512)" by (auto simp: sb_places_def)
      show "sint (fst w) + int (length (snd w)) \<le> fst q \<or> fst q + snd q \<le> sint (fst w)"
        using pl [unfolded a pos_def] unfolding q fst_conv snd_conv by (cases a b rule: linorder_cases) auto
    qed
    ultimately show "ReadAt d2 (fst w) (length (snd w)) = Inr (snd w)" using d2(2) by (simp add: written_def)
  qed
  have old: "ReadAt d2 off m = Inr xs" if "ReadAt d off m = Inr xs" and o: "old_range n off m" for off m xs
  proof -
    have "clear_of ?W off m" using inW o by (force simp: clear_of_def old_range_def pos_def)
    then have "ReadAt d1 off m = Inr xs" using d1(2) that(1) by (simp add: written_def)
    moreover have "clear_of ?V off m"
    proof (rule clearV, rule ballI)
      fix q assume "q \<in> set (sb_places (unat k))"
      then obtain b where q: "q = (int b * 67108864, 512)" by (auto simp: sb_places_def)
      show "sint off + int m \<le> fst q \<or> fst q + snd q \<le> sint off"
      proof (cases "b < unat n")
        case True
        then show ?thesis using o by (auto simp: old_range_def q)
      next
        case False
        then have "int (unat n) * 67108864 \<le> int b * 67108864" by (simp add: uint_le_int)
        then show ?thesis using o by (simp add: old_range_def q)
      qed
    qed
    ultimately show ?thesis using d2(2) by (simp add: written_def)
  qed
  show ?thesis using d1(1) d2(1) r fresh old by blast
qed

lemma truncate_keeps:
  assumes "Truncate d n = Inr d'" and "ReadAt d off m = Inr xs" and "sint off + int m \<le> sint n"
  shows "ReadAt d' off m = Inr xs"
  using assms by (auto simp: Truncate_def ReadAt_def split: if_splits)

lemma sint_blocks: "sint (ucast (m :: u32) * 16384 :: int64) = int (unat m) * 16384"
proof -
  have u: "unat (ucast m * 16384 :: int64) = unat m * 16384" using unat_lt(3) [of m] by (simp add: unat_word_ariths unat_ucast_up)
  then show ?thesis using sint_unat [of "ucast m * 16384 :: int64"] unat_lt(3) [of m] by simp
qed

lemma sint_groups: "sint (ucast (m :: u32) * 67108864 :: int64) = int (unat m) * 67108864"
  using block_at [of 0 m] by (simp add: mult.assoc)

lemma grow_blocks:
  fixes k :: u32
  shows "(int (unat k) * 67108864) mod 4096 = 0" "of_int (int (unat k) * 67108864 div 4096) = (ucast k * 16384 :: int64)"
    "of_int ((int (unat k) * 16384 + 16384 - 1) div 16384) = k"
proof -
  have "(int (unat k) * 67108864) = 4096 * (int (unat k) * 16384)" by simp
  then show "(int (unat k) * 67108864) mod 4096 = 0" by (simp only: mod_mult_self1_is_0)
  have "int (unat k) * 67108864 div 4096 = int (unat k) * 16384" by linarith
  then have "of_int (int (unat k) * 67108864 div 4096) = (of_nat (unat k) * 16384 :: int64)" by (simp only: of_int_mult of_int_numeral of_int_of_nat_eq)
  moreover have "of_nat (unat k) = (ucast k :: int64)" by (rule word_unat_eq_iff [THEN iffD2]) (use unat_lt(3) [of k] in \<open>simp add: unat_of_nat unat_ucast_up\<close>)
  ultimately show "of_int (int (unat k) * 67108864 div 4096) = (ucast k * 16384 :: int64)" by (simp only:)
  have "(int (unat k) * 16384 + 16384 - 1) div 16384 = int (unat k)" by linarith
  then show "of_int ((int (unat k) * 16384 + 16384 - 1) div 16384) = k" by (simp only:) simp
qed

lemma grow_last:
  fixes k :: u32
  assumes "0 < k"
  shows "sint (ucast k * 16384 - ucast (k - 1) * 16384 :: int64) = 16384"
proof -
  have "unat (k - 1) = unat k - 1" using assms by (simp add: unat_minus_one)
  moreover have "1 \<le> unat k" using assms by (simp add: word_less_nat_alt)
  ultimately have "unat (ucast (k - 1) + 1 :: int64) = unat (ucast k :: int64)"
    using unat_lt(3) [of k] unat_add_small [of "ucast (k - 1) :: int64" 1] by (simp add: unat_ucast_up)
  then have "ucast (k - 1) + 1 = (ucast k :: int64)" by (simp only: word_unat_eq_iff)
  then have e: "ucast k * 16384 = (ucast (k - 1) + 1) * (16384 :: int64)" by (simp only:)
  have "ucast k * 16384 - ucast (k - 1) * 16384 = (16384 :: int64)" unfolding e by (simp add: distrib_right)
  then show ?thesis by simp
qed

text \<open>
  C16. Growing a filesystem with the geometry of \<^verbatim>\<open>Format\<close> that starts the image, from \<open>n\<close> to \<open>k\<close> whole
  groups: it succeeds, the handle and the superblock on disk have the new geometry, every added
  group is fresh, and every byte of the old groups outside their superblock sectors is as it was.
  The totals written to the superblock are those of an empty filesystem of the new size,
  whatever it holds.
\<close>

theorem Grow_adds_groups:
  fixes k n :: u32
  assumes sb: "fmt_sb (fsSb fs) n reflink" and off: "partOffset fs = 0" and k: "n < k"
    and q: "quotaFlags (fsSb fs) = 0" "uQuotino (fsSb fs) = 0" "gQuotino (fsSb fs) = 0" "pQuotino (fsSb fs) = 0"
    and uuid: "length (sbUuid (fsSb fs)) = 16" and label: "length (sbLabel (fsSb fs)) \<le> 12"
  shows "\<exists>fs' sb' buf. Grow (ucast k * 67108864) fs = (Inr (), fs') \<and> fmt_sb (fsSb fs') k reflink \<and> partOffset fs' = 0 \<and>
    readSuperblock (fsDev fs') 0 = Inr sb' \<and> fmt_sb sb' k reflink \<and> sbUuid sb' = sbUuid (fsSb fs) \<and>
    (\<forall>ag. n \<le> ag \<and> ag < k \<longrightarrow> fresh_group (fsDev fs') (fsSb fs') ag) \<and>
    (\<forall>off m xs. ReadAt (fsDev fs) off m = Inr xs \<and> old_range n off m \<longrightarrow> ReadAt (fsDev fs') off m = Inr xs) \<and>
    readBytes (fsDev fs') 0 512 = Inr buf \<and> be64 buf sbOffIcount = 64 \<and> be64 buf sbOffIfree = 61 \<and> be64 buf sbOffFdblocks = fmtTotalFreeBlocks k reflink (ucast k * 16384)"
proof -
  let ?sb = "fsSb fs" and ?size = "ucast k * 67108864 :: int64"
  define sb1 where "sb1 = ?sb\<lparr>dBlocks := ucast k * 16384, agCount := k\<rparr>"
  have nk: "0 < n" "0 < k" "unat n \<le> unat k" "0 < unat n" using k sb by (simp_all add: fmt_sb_def word_less_nat_alt)
  have b: "blockSize ?sb = 4096" "agBlocks ?sb = 16384" "dBlocks ?sb = ucast n * 16384" using sb by (simp_all add: fmt_sb_def)
  have sb1: "fmt_sb sb1 k reflink" using sb nk(2) by (simp add: sb1_def fmt_sb_def fmtRootIno_value)
  have f1: "sbUuid sb1 = sbUuid ?sb" "sbLabel sb1 = sbLabel ?sb" "quotaFlags sb1 = 0" "uQuotino sb1 = 0" "gQuotino sb1 = 0" "pQuotino sb1 = 0"
    using q by (simp_all add: sb1_def)
  have nz: "ucast n * 16384 \<noteq> (0 :: int64)"
  proof
    assume "ucast n * 16384 = (0 :: int64)"
    then have "int (unat n) * 16384 = 0" using sint_blocks [of n] by (metis sint_0)
    then show False using nk(4) by linarith
  qed
  have cur: "curBlocks ?sb = ucast n * 16384" using nz by (simp add: curBlocks_def b)
  have size: "0 \<le> sint ?size" "sint (ucast n * 67108864 :: int64) \<le> sint ?size"
    unfolding sint_groups using nk(3) by (simp, linarith)
  obtain d0 where d0: "Truncate (fsDev fs) ?size = Inr d0" using size(1) by (auto simp: Truncate_def)
  obtain d1 d2 where w: "writeAll (concat (map (newGroupWrites sb1 (buildSuperblockBuffer sb1 k (sbUuid sb1) (sbLabel sb1))) [unat n..<unat k])) d0 = (Inr (), d1)"
    "writeAll (sbWrites sb1 k (sbUuid sb1) (sbLabel sb1)) d1 = (Inr (), d2)" "readBytes d2 0 512 = Inr (buildSuperblockBuffer sb1 k (sbUuid sb1) (sbLabel sb1))"
    "\<forall>ag. n \<le> ag \<and> ag < k \<longrightarrow> fresh_group d2 sb1 ag" "\<forall>off m xs. ReadAt d0 off m = Inr xs \<and> old_range n off m \<longrightarrow> ReadAt d2 off m = Inr xs"
    using grow_written [OF sb1 nk(3), of d0] uuid f1(1) by metis
  let ?fs = "fs\<lparr>fsAlloc := (fsAlloc fs)\<lparr>disk := d2\<rparr>, fsSb := sb1\<rparr>"
  have lt: "\<not> sint (ucast k * 16384 :: int64) < sint (ucast n * 16384 :: int64)" "ucast k * 16384 \<noteq> (ucast n * 16384 :: int64)"
  proof -
    have l: "unat n < unat k" using k by (simp add: word_less_nat_alt)
    show "\<not> sint (ucast k * 16384 :: int64) < sint (ucast n * 16384 :: int64)" unfolding sint_blocks using l by linarith
    have "sint (ucast k * 16384 :: int64) \<noteq> sint (ucast n * 16384 :: int64)" unfolding sint_blocks using l by linarith
    then show "ucast k * 16384 \<noteq> (ucast n * 16384 :: int64)" by metis
  qed
  have md: "sint (ucast n * 16384 :: int64) mod int (unat (agBlocks ?sb)) = 0" unfolding sint_blocks b by simp
  have u: "int (unat (blockSize ?sb)) = 4096" "int (unat (agBlocks ?sb)) = 16384" by (simp_all add: b)
  note g = Grow_def [of ?size, unfolded Let_def, THEN fun_cong, of fs, unfolded cur u sint_groups grow_blocks sint_blocks b(2)]
  have "Grow ?size fs = (Inr (), ?fs)"
    using lt md d0 off w(1,2) growGroups_writes [OF sb1 nk(4,3)] grow_last [OF nk(2)] k [unfolded word_less_def]
    by (simp add: g growMinAGBlocks_def bindIO_apply onFS_def onDisk_apply truncateIO_def sb1_def [symmetric] fmtWriteSuperblock_def)
  moreover note img = sb_image [OF sb1 uuid label, folded f1(1,2), OF f1(3-6)]
  have "readSuperblock d2 0 = Inr (formatted_sb k reflink (sbUuid sb1) (sbLabel sb1))"
    using w(3) img(1,2) fmt_valid [OF formatted_fmt [OF nk(2)]] f1(1,2) by (simp add: readSuperblock_def)
  moreover have "fmt_sb (formatted_sb k reflink (sbUuid sb1) (sbLabel sb1)) k reflink" by (rule formatted_fmt [OF nk(2)])
  moreover have "ReadAt d2 off m = Inr xs" if "ReadAt (fsDev fs) off m = Inr xs" "old_range n off m" for off m xs
    using truncate_keeps [OF d0 that(1)] that(2) size(2) w(5) sint_groups [of n] by (auto simp: old_range_def)
  ultimately show ?thesis
    using sb1 w(3,4) img(3-5) off f1 by (intro exI [of _ ?fs] exI [of _ "formatted_sb k reflink (sbUuid sb1) (sbLabel sb1)"]
      exI [of _ "buildSuperblockBuffer sb1 k (sbUuid sb1) (sbLabel sb1)"]) (simp add: sb_offs formatted_sb_def formatSb_def)
qed

theorem Grow_adds_groups_witness:
  "\<exists>fs' sb' buf. Grow 134217728 \<lparr>partOffset = 0, fsSb = formatSb 1 True (replicate 16 7) [120], fsAlloc = freshAlloc \<lparr>dsize = 0, dbytes = (\<lambda>_. 0)\<rparr>\<rparr> = (Inr (), fs') \<and>
    fmt_sb (fsSb fs') 2 True \<and> readSuperblock (fsDev fs') 0 = Inr sb' \<and> fmt_sb sb' 2 True \<and> fresh_group (fsDev fs') (fsSb fs') 1 \<and>
    readBytes (fsDev fs') 0 512 = Inr buf \<and> be64 buf sbOffIcount = 64"
proof -
  let ?fs = "\<lparr>partOffset = 0, fsSb = formatSb 1 True (replicate 16 7) [120], fsAlloc = freshAlloc \<lparr>dsize = 0, dbytes = (\<lambda>_. 0)\<rparr>\<rparr>"
  have f: "fmt_sb (fsSb ?fs) 1 True" using formatSb_fmt [of 1 True "replicate 16 7" "[120]"] by simp
  have q: "quotaFlags (fsSb ?fs) = 0" "uQuotino (fsSb ?fs) = 0" "gQuotino (fsSb ?fs) = 0" "pQuotino (fsSb ?fs) = 0" "length (sbUuid (fsSb ?fs)) = 16" "length (sbLabel (fsSb ?fs)) \<le> 12"
    by (simp_all add: formatSb_def)
  have e: "ucast (2 :: u32) * 67108864 = (134217728 :: int64)" by simp
  obtain fs' sb' buf where "Grow (ucast (2 :: u32) * 67108864) ?fs = (Inr (), fs')" "fmt_sb (fsSb fs') 2 True" "readSuperblock (fsDev fs') 0 = Inr sb'"
    "fmt_sb sb' 2 True" "\<forall>ag. 1 \<le> ag \<and> ag < 2 \<longrightarrow> fresh_group (fsDev fs') (fsSb fs') ag" "readBytes (fsDev fs') 0 512 = Inr buf" "be64 buf sbOffIcount = 64"
    using Grow_adds_groups [of ?fs 1 True 2, OF f _ _ q] by auto
  then show ?thesis unfolding e by fastforce
qed

section \<open>The label is stored in every superblock\<close>

lemma length_relabel [simp]: "length (relabel sb b buf) = length buf"
  by (simp add: relabel_def Let_def)

lemma relabel_fields:
  assumes "length buf = 512" and "length b \<le> 12"
  shows "window 108 12 (relabel sb b buf) = b @ replicate (12 - length b) 0" "hasCRC sb \<Longrightarrow> verifyCRC (relabel sb b buf) 224 512"
    "off + n \<le> 108 \<or> 120 \<le> off \<and> off + n \<le> 224 \<or> 228 \<le> off \<Longrightarrow> window off n (relabel sb b buf) = window off n buf"
proof -
  let ?z = "patch 108 b (zero_range 108 12 buf)"
  have z: "window 108 12 (zero_range 108 12 buf) = replicate 12 0" using assms(1) by (simp add: zero_range_def window_patch_same)
  have "window 108 12 ?z = patch 0 b (replicate 12 0)" using assms z by (simp add: window_patch_cut)
  also have "\<dots> = b @ replicate (12 - length b) 0" using assms(2) by (simp add: patch_whole)
  finally have w: "window 108 12 ?z = b @ replicate (12 - length b) 0" .
  show "window 108 12 (relabel sb b buf) = b @ replicate (12 - length b) 0"
    unfolding relabel_def Let_def using w by (simp add: window_updateCRC)
  show "hasCRC sb \<Longrightarrow> verifyCRC (relabel sb b buf) 224 512" unfolding relabel_def Let_def using assms(1) by (simp add: updateCRC_stamped)
  assume o: "off + n \<le> 108 \<or> 120 \<le> off \<and> off + n \<le> 224 \<or> 228 \<le> off"
  have "window off n ?z = window off n buf" using o assms(2) by (auto simp: zero_range_def window_put_frame)
  then show "window off n (relabel sb b buf) = window off n buf" unfolding relabel_def Let_def using o by (auto simp: window_updateCRC)
qed

lemma trimLabel_zeros: "trimLabel (b @ replicate n 0) = trimLabel b"
proof -
  have "dropWhile P (replicate n x @ ys) = dropWhile P ys" if "P x" for P and x :: byte and ys using that by (induction n) simp_all
  then show ?thesis by (simp add: trimLabel_def)
qed

lemma parse_relabel:
  assumes "length buf = 512" and "length b \<le> 12"
  shows "parseSuperblock (relabel sb b buf) = (parseSuperblock buf)\<lparr>sbLabel := trimLabel b\<rparr>" "be32 (relabel sb b buf) 0 = be32 buf 0"
proof -
  let ?r = "relabel sb b buf"
  note w = relabel_fields(3) [OF assms, of _ _ sb]
  show "be32 ?r 0 = be32 buf 0" by (simp add: be32_def w)
  have "sbLabel (parseSuperblock ?r) = trimLabel b"
    using relabel_fields(1) [OF assms, of sb] by (simp add: parseSuperblock_def Let_def trimLabel_zeros)
  moreover have "parseSuperblock ?r = (parseSuperblock buf)\<lparr>sbLabel := sbLabel (parseSuperblock ?r)\<rparr>"
    by (simp add: parseSuperblock_def Let_def get_defs byte_at_window w)
  ultimately show "parseSuperblock ?r = (parseSuperblock buf)\<lparr>sbLabel := trimLabel b\<rparr>" by simp
qed

definition apart_at :: "int64 \<Rightarrow> int64 \<Rightarrow> bool" where
  "apart_at x y \<longleftrightarrow> sint x + 512 \<le> sint y \<or> sint y + 512 \<le> sint x"

lemma relabel_all:
  assumes "distinct ags" and "\<forall>ag\<in>set ags. ReadAt d (partOff + agByteOffset sb ag) 512 = Inr (B ag) \<and> be32 (B ag) 0 = magicSB \<and> 0 \<le> sint (partOff + agByteOffset sb ag)"
    and "\<forall>a\<in>set ags. \<forall>c\<in>set ags. a \<noteq> c \<longrightarrow> apart_at (partOff + agByteOffset sb a) (partOff + agByteOffset sb c)"
  shows "\<exists>d'. forIO ags (relabelGroup partOff sb b) d = (Inr (), d') \<and> (\<forall>ag\<in>set ags. ReadAt d' (partOff + agByteOffset sb ag) 512 = Inr (relabel sb b (B ag))) \<and>
    (\<forall>x xs. ReadAt d x 512 = Inr xs \<and> (\<forall>ag\<in>set ags. apart_at x (partOff + agByteOffset sb ag)) \<longrightarrow> ReadAt d' x 512 = Inr xs)"
  using assms
proof (induction ags arbitrary: d)
  case Nil
  show ?case by simp
next
  case (Cons ag ags)
  let ?o = "\<lambda>ag. partOff + agByteOffset sb ag"
  have r: "ReadAt d (?o ag) 512 = Inr (B ag)" "be32 (B ag) 0 = magicSB" "0 \<le> sint (?o ag)" using Cons.prems(2) by simp_all
  have len: "length (relabel sb b (B ag)) = 512" using file_store.rd_length [OF r(1)] by simp
  obtain d1 where w: "WriteAt d (?o ag) (relabel sb b (B ag)) = Inr d1" using file_store.wr_ok [OF r(3)] by blast
  have frame: "ReadAt d1 x 512 = Inr xs" if "ReadAt d x 512 = Inr xs" "apart_at x (?o ag)" for x xs
    using file_store.rd_wr_frame [OF w that(1)] that(2) len by (auto simp: apart_at_def)
  have "\<forall>c\<in>set ags. ReadAt d1 (?o c) 512 = Inr (B c) \<and> be32 (B c) 0 = magicSB \<and> 0 \<le> sint (?o c)"
    using Cons.prems frame by auto
  then obtain d' where d': "forIO ags (relabelGroup partOff sb b) d1 = (Inr (), d')" "\<forall>c\<in>set ags. ReadAt d' (?o c) 512 = Inr (relabel sb b (B c))"
    "\<forall>x xs. ReadAt d1 x 512 = Inr xs \<and> (\<forall>c\<in>set ags. apart_at x (?o c)) \<longrightarrow> ReadAt d' x 512 = Inr xs"
    using Cons.IH [of d1] Cons.prems(1,3) by auto
  have go: "forIO (ag # ags) (relabelGroup partOff sb b) d = (Inr (), d')"
    using r(1,2) w d'(1) by (simp add: relabelGroup_def Let_def bindIO_apply writeIO_def)
  have "ReadAt d1 (?o ag) 512 = Inr (relabel sb b (B ag))" using file_store.rd_wr_same [OF w] len by simp
  moreover have "\<forall>c\<in>set ags. apart_at (?o ag) (?o c)" using Cons.prems(1,3) by (metis distinct.simps(2) list.set_intros)
  ultimately have "ReadAt d' (?o ag) 512 = Inr (relabel sb b (B ag))" using d'(3) by blast
  moreover have "\<forall>x xs. ReadAt d x 512 = Inr xs \<and> (\<forall>c\<in>set (ag # ags). apart_at x (?o c)) \<longrightarrow> ReadAt d' x 512 = Inr xs"
    using d'(3) frame by simp
  ultimately show ?case using go d'(2) by (intro exI [of _ d']) simp
qed

lemma superblock_places:
  assumes "group_fits partOff sb ag"
  shows "sint (partOff + agByteOffset sb ag) = int (group_base partOff sb ag)"
  using unat_agByteOffset [OF assms] group_base_bound [OF assms] by (subst sint_unat) simp_all

lemma superblocks_apart:
  assumes "group_fits partOff sb a" and "group_fits partOff sb c" and "a \<noteq> c"
  shows "apart_at (partOff + agByteOffset sb a) (partOff + agByteOffset sb c)"
proof -
  let ?L = "unat (agBlocks sb) * unat (blockSize sb)"
  have "512 \<le> unat (blockSize sb)" "1 \<le> unat (agBlocks sb)"
    using hdr_facts(4) [OF assms(1)] validated_geometry [of sb] assms(1) by (simp_all add: group_fits_def)
  then have L: "512 \<le> ?L" using mult_le_mono [of 1 "unat (agBlocks sb)" 512 "unat (blockSize sb)"] by simp
  have lt: "group_base partOff sb x + 512 \<le> group_base partOff sb y" if "unat x < unat y" for x y
  proof -
    have "(unat x + 1) * ?L \<le> unat y * ?L" using that by (intro mult_le_mono1) simp
    then show ?thesis using L by (simp add: group_base_def algebra_simps)
  qed
  have "unat a \<noteq> unat c" using assms(3) by (simp add: word_unat_eq_iff)
  then consider "unat a < unat c" | "unat c < unat a" by linarith
  then have "group_base partOff sb a + 512 \<le> group_base partOff sb c \<or> group_base partOff sb c + 512 \<le> group_base partOff sb a"
    by cases (use lt in blast)+
  then show ?thesis unfolding apart_at_def superblock_places [OF assms(1)] superblock_places [OF assms(2)] by linarith
qed

text \<open>
  C17. Setting the label: more than twelve bytes are refused and nothing changes. Otherwise, on an image whose groups
  all have a superblock, it succeeds; the handle shows the label, the superblock of the
  filesystem reads back as before but with the new label (trailing blanks do not count), and the copies
  in all groups hold the label with a correct checksum.
\<close>

theorem SetLabel_roundtrip:
  assumes fits: "\<forall>ag < agCount (fsSb fs). group_fits (partOffset fs) (fsSb fs) ag" and n: "0 < agCount (fsSb fs)"
    and copies: "\<forall>ag < agCount (fsSb fs). \<exists>buf. ReadAt (fsDev fs) (partOffset fs + agByteOffset (fsSb fs) ag) 512 = Inr buf \<and> be32 buf 0 = magicSB"
    and sb0: "readSuperblock (fsDev fs) (partOffset fs) = Inr sb0"
  shows "(12 < length b \<longrightarrow> SetLabel b fs = (Inl ErrLabelTooLong, fs)) \<and>
    (length b \<le> 12 \<longrightarrow> (\<exists>fs'. SetLabel b fs = (Inr (), fs') \<and> Label fs' = trimLabel b \<and>
       readSuperblock (fsDev fs') (partOffset fs) = Inr (sb0\<lparr>sbLabel := trimLabel b\<rparr>) \<and>
       (\<forall>ag < agCount (fsSb fs). \<exists>buf. ReadAt (fsDev fs') (partOffset fs + agByteOffset (fsSb fs) ag) 512 = Inr buf \<and>
          window 108 12 buf = b @ replicate (12 - length b) 0 \<and> (hasCRC (fsSb fs) \<longrightarrow> verifyCRC buf 224 512))))"
proof (intro conjI impI)
  show "12 < length b \<Longrightarrow> SetLabel b fs = (Inl ErrLabelTooLong, fs)" by (simp add: SetLabel_def)
next
  assume len: "length b \<le> 12"
  let ?sb = "fsSb fs" and ?off = "partOffset fs" and ?ags = "map of_nat [0..<unat (agCount (fsSb fs))] :: u32 list"
  let ?o = "\<lambda>ag. ?off + agByteOffset ?sb ag"
  have ags: "set ?ags = {ag. ag < agCount ?sb}"
  proof (intro equalityI subsetI)
    fix ag assume "ag \<in> {ag. ag < agCount ?sb}"
    then have "ag = of_nat (unat ag)" "unat ag < unat (agCount ?sb)" by (simp_all add: word_less_nat_alt)
    then show "ag \<in> set ?ags" by (metis atLeastLessThan_iff image_eqI le0 set_map set_upt)
  qed (auto simp: word_less_nat_alt of_nat_u32)
  have "distinct ?ags" by (simp add: distinct_map inj_on_def) (metis atLeastLessThan_iff of_nat_u32)
  moreover obtain B where B: "\<forall>ag < agCount ?sb. ReadAt (fsDev fs) (?o ag) 512 = Inr (B ag) \<and> be32 (B ag) 0 = magicSB"
    using copies by metis
  moreover have "0 \<le> sint (?o ag)" if "ag < agCount ?sb" for ag using superblock_places fits that by simp
  ultimately obtain d' where d': "forIO ?ags (relabelGroup ?off ?sb b) (fsDev fs) = (Inr (), d')" "\<forall>ag < agCount ?sb. ReadAt d' (?o ag) 512 = Inr (relabel ?sb b (B ag))"
    using relabel_all [of ?ags "fsDev fs" ?off ?sb B b] superblocks_apart fits unfolding ags by auto
  let ?fs = "fs\<lparr>fsAlloc := (fsAlloc fs)\<lparr>disk := d'\<rparr>, fsSb := ?sb\<lparr>sbLabel := trimLabel b\<rparr>\<rparr>"
  have go: "SetLabel b fs = (Inr (), ?fs)"
    using len d'(1) by (simp add: SetLabel_def bindIO_apply onFS_def onDisk_apply)
  have o0: "?o 0 = ?off" by (simp add: agByteOffset_def)
  have l: "length (B ag) = 512" if "ag < agCount ?sb" for ag using B that file_store.rd_length by blast
  have r0: "ReadAt (fsDev fs) ?off 512 = Inr (B 0)" "ReadAt d' ?off 512 = Inr (relabel ?sb b (B 0))" using B d'(2) n o0 by metis+
  have s: "parseSuperblock (B 0) = sb0" "validateGeometry sb0 = Inr ()" "be32 (B 0) 0 = magicSB"
    using sb0 r0(1) by (auto simp: readSuperblock_def readBytes_def bindR_eq_Inr Let_def split: if_splits)
  have "validateGeometry (sb0\<lparr>sbLabel := trimLabel b\<rparr>) = validateGeometry sb0"
    by (cases sb0) (simp only: validateGeometry_def superblock.simps)
  then have "validateGeometry (sb0\<lparr>sbLabel := trimLabel b\<rparr>) = Inr ()" using s(2) by (rule trans)
  then have "readSuperblock d' ?off = Inr (sb0\<lparr>sbLabel := trimLabel b\<rparr>)"
    using r0(2) s parse_relabel [OF l [OF n] len, of ?sb] by (simp add: readSuperblock_def readBytes_def)
  moreover have "\<forall>ag < agCount ?sb. \<exists>buf. ReadAt d' (?o ag) 512 = Inr buf \<and> window 108 12 buf = b @ replicate (12 - length b) 0 \<and> (hasCRC ?sb \<longrightarrow> verifyCRC buf 224 512)"
    using d'(2) relabel_fields(1,2) [OF l len] by blast
  ultimately show "\<exists>fs'. SetLabel b fs = (Inr (), fs') \<and> Label fs' = trimLabel b \<and> readSuperblock (fsDev fs') ?off = Inr (sb0\<lparr>sbLabel := trimLabel b\<rparr>) \<and>
      (\<forall>ag < agCount ?sb. \<exists>buf. ReadAt (fsDev fs') (?o ag) 512 = Inr buf \<and> window 108 12 buf = b @ replicate (12 - length b) 0 \<and> (hasCRC ?sb \<longrightarrow> verifyCRC buf 224 512))"
    using go by (intro exI [of _ ?fs]) (simp add: Label_def)
qed

definition label_fs :: xfsFS where
  "label_fs = \<lparr>partOffset = 0, fsSb = formatted_sb 1 False (replicate 16 7) [120],
     fsAlloc = freshAlloc \<lparr>dsize = 512, dbytes = nth (buildSuperblockBuffer (formatSb 1 False (replicate 16 7) [120]) 1 (replicate 16 7) [120])\<rparr>\<rparr>"

theorem SetLabel_roundtrip_witness:
  "SetLabel (replicate 13 97) label_fs = (Inl ErrLabelTooLong, label_fs) \<and>
   (\<exists>fs' sb. SetLabel [100, 97, 116, 97, 32] label_fs = (Inr (), fs') \<and> Label fs' = [100, 97, 116, 97] \<and>
     readSuperblock (fsDev fs') 0 = Inr sb \<and> sbLabel sb = [100, 97, 116, 97])"
proof -
  let ?sb = "formatSb 1 False (replicate 16 7) [120]" and ?f = "formatted_sb 1 False (replicate 16 7) [120]"
  let ?buf = "buildSuperblockBuffer ?sb 1 (replicate 16 7) [120]"
  have sb: "fmt_sb ?sb 1 False" by (rule formatSb_fmt) simp
  have f: "fmt_sb ?f 1 False" by (rule formatted_fmt) simp
  have img: "be32 ?buf 0 = magicSB" "parseSuperblock ?buf = ?f" by (rule sb_image [OF sb]; simp add: formatSb_def)+
  have rd: "ReadAt (fsDev label_fs) 0 512 = Inr ?buf"
    using map_nth [of ?buf] by (simp add: label_fs_def freshAlloc_def ReadAt_def length_images)
  have r: "readSuperblock (fsDev label_fs) 0 = Inr ?f"
    using rd img fmt_valid [OF f] by (simp add: readSuperblock_def readBytes_def)
  have l: "partOffset label_fs = 0" "fsSb label_fs = ?f" "agCount ?f = 1" using f by (simp_all add: label_fs_def fmt_sb_def)
  have ag: "ag < 1 \<longleftrightarrow> ag = 0" for ag :: u32 by (simp add: word_less_nat_alt unat_eq_zero)
  have c: "\<forall>ag < agCount (fsSb label_fs). \<exists>buf. ReadAt (fsDev label_fs) (partOffset label_fs + agByteOffset (fsSb label_fs) ag) 512 = Inr buf \<and> be32 buf 0 = magicSB"
    using rd img(1) by (simp add: l ag agByteOffset_def)
  have t: "trimLabel [100, 97, 116, 97, 32] = [100, 97, 116, 97]" by code_simp
  note s = SetLabel_roundtrip [of label_fs ?f, OF _ _ c]
  show ?thesis using s [of "replicate 13 97"] s [of "[100, 97, 116, 97, 32]"] fmt_fits(1) [OF f] r by (fastforce simp: l t)
qed

end
