(* ===== verification/Session.thy ===== *)
theory Session
  imports Fs
begin

text \<open>
  From formatting to reading back and deleting: what the creation of a file does to its group and
  leaves alone elsewhere, the bookkeeping after a change, and the life of a file on a freshly
  formatted filesystem through the methods of the handle.
\<close>

section \<open>The state of a group under a creation\<close>

lemma group_state_cong:
  assumes "group_state partOff sb ag bnoRel cntRel inoRel d agf bs cs agi rs keep"
    and "\<And>h. agfBlock d partOff sb ag = Inr h \<Longrightarrow> agfBlock d' partOff sb ag = Inr h" "\<And>h. agiBlock d partOff sb ag = Inr h \<Longrightarrow> agiBlock d' partOff sb ag = Inr h"
    and "\<And>c b. c \<in> {bnoRel, cntRel, inoRel, slot_block sb keep} \<Longrightarrow> readAGBlock d partOff sb ag c = Inr b \<Longrightarrow> readAGBlock d' partOff sb ag c = Inr b"
  shows "group_state partOff sb ag bnoRel cntRel inoRel d' agf bs cs agi rs keep"
proof -
  have "group_ok partOff sb ag bnoRel cntRel d agf bs cs" "igrp partOff sb ag inoRel d agi rs" using assms(1) by (simp_all add: group_state_def)
  then have "group_ok partOff sb ag bnoRel cntRel d' agf bs cs" "igrp partOff sb ag inoRel d' agi rs"
    using assms(2-4) unfolding group_ok_def grp_def igrp_def by fastforce+
  then show ?thesis using assms(1,4) unfolding group_state_def by blast
qed

lemma state_new_inode:
  assumes g: "group_state partOff sb ag bnoRel cntRel inoRel d agf bs cs agi rs keep" and i: "slot_free_of sb ag bnoRel cntRel inoRel keep"
    and k: "rest_kept partOff sb ag inoRel d d'" "igrp partOff sb ag inoRel d' agi' rs'" "chunks_ok sb rs'"
  shows "group_state partOff sb ag bnoRel cntRel inoRel d' agf bs cs agi' rs' keep"
proof -
  have h: "homed sb ag keep" "slot_block sb keep \<noteq> inoRel" using i slot_block_facts(1) [of sb ag keep] by (auto simp: slot_free_of_def)
  have ok: "group_ok partOff sb ag bnoRel cntRel d agf bs cs" "inoRel \<noteq> bnoRel" "inoRel \<noteq> cntRel" using g by (simp_all add: group_state_def)
  have "group_ok partOff sb ag bnoRel cntRel d' agf bs cs" by (rule group_ok_rest [OF ok(1) k(1) ok(2,3)])
  moreover have "\<exists>b. readAGBlock d' partOff sb ag (slot_block sb keep) = Inr b"
    using g k(1) h slot_block_facts(3) [OF h(1)] unfolding group_state_def rest_kept_def by blast
  ultimately show ?thesis using k(2,3) ok unfolding group_state_def by blast
qed

lemma state_alloc_run:
  assumes g: "group_state partOff sb ag bnoRel cntRel inoRel (disk s) agf bs cs agi rs keep" and i: "slot_free_of sb ag bnoRel cntRel inoRel keep"
    and sio: "admits_first sio" and q: "mergedQ s = []" and n: "0 < n" "r0 \<in> set bs" "n \<le> snd r0"
  obtains st d' agf' bs' cs' where "allocBlocks sio (Suc (Suc fuel)) partOff sb ag n s = (Inr (agAbsBlock sb ag st), s\<lparr>disk := d'\<rparr>)"
    "group_state partOff sb ag bnoRel cntRel inoRel d' agf' bs' cs' agi rs keep" "free_set bs' = free_set bs - {unat st..<unat st + unat n}"
    "{unat st..<unat st + unat n} \<subseteq> free_set bs" "unat st + unat n \<le> unat (agBlocks sb)" "length bs' \<le> length bs" "be32 agf' 52 = be32 agf 52 - n"
    "kept_outside partOff sb ag (disk s) d'"
proof -
  let ?c = "slot_block sb keep"
  have h: "homed sb ag keep" "?c \<noteq> bnoRel" "?c \<noteq> cntRel" using i slot_block_facts(1) [of sb ag keep] by (auto simp: slot_free_of_def)
  obtain b where b: "readAGBlock (disk s) partOff sb ag ?c = Inr b" using g by (auto simp: group_state_def)
  have ok: "group_ok partOff sb ag bnoRel cntRel (disk s) agf bs cs" "igrp partOff sb ag inoRel (disk s) agi rs" "inoRel \<noteq> bnoRel" "inoRel \<noteq> cntRel"
    using g by (simp_all add: group_state_def)
  have f: "group_fits partOff sb ag" "body_block sb bnoRel" "body_block sb cntRel" and lv: "leaves_ok sb bs cs" "set bs \<subseteq> set cs"
    using ok(1) by (auto simp: group_ok_def grp_def)
  define K where "K = (\<lambda>d. igrp partOff sb ag inoRel d agi rs \<and> readAGBlock d partOff sb ag ?c = Inr b \<and> kept_outside partOff sb ag (disk s) d)"
  have "unaffected partOff sb ag bnoRel cntRel K"
    unfolding K_def by (rule unaffected_conj [OF unaffected_igrp [OF ok] unaffected_conj [OF unaffected_block [OF f(1) slot_block_facts(3) [OF h(1)] h(2,3)] unaffected_outside [OF f]]])
  then have gK: "grp K partOff sb ag bnoRel cntRel (disk s) agf bs cs" using ok(1,2) b by (simp add: group_ok_def grp_def K_def)
  obtain r d' agf' bs' cs' where r: "best_fit cs n r" "fst (allocOps (Suc (Suc fuel)) sio partOff sb) ag n s = (Inr (agAbsBlock sb ag (fst r)), s\<lparr>disk := d'\<rparr>)"
    "grp K partOff sb ag bnoRel cntRel d' agf' bs' cs'" "leaves_ok sb bs' cs'" "took n r bs bs'" "took n r cs cs'"
    "free_set bs' = free_set bs - {unat (fst r)..<unat (fst r) + unat n}" "agf_step (- n) cs' agf agf'"
    by (rule alloc_run [OF gK lv(1) sio q n(1), of r0]) (use n lv(2) in auto)
  have rin: "r \<in> set bs" "unat n \<le> unat (snd r)" using r(1) lv(1) by (auto simp: best_fit_def leaves_ok_def word_le_nat_alt)
  have "unat (fst r) + unat n \<le> unat (agBlocks sb)" using rin lv(1) by (fastforce simp: leaves_ok_def runs_ok_def)
  moreover have "{unat (fst r)..<unat (fst r) + unat n} \<subseteq> free_set bs" using rin by (fastforce simp: free_set_def run_blocks_def)
  moreover have "set bs' \<subseteq> set cs'" using r(5,6) lv(2) by (auto simp: took_def)
  then have "group_state partOff sb ag bnoRel cntRel inoRel d' agf' bs' cs' agi rs keep"
    using r(3,4) g by (auto simp: group_state_def group_ok_def grp_def K_def)
  moreover have "kept_outside partOff sb ag (disk s) d'" using r(3) by (simp add: grp_def K_def)
  ultimately show ?thesis using that [of "fst r" d' agf' bs' cs'] r(2,5,7,8) by (simp add: allocBlocks_def took_def agf_step_def del: allocOps.simps)
qed

lemma state_run_write:
  assumes g: "group_state partOff sb ag bnoRel cntRel inoRel d agf bs cs agi rs keep"
    and run: "unat rel + unat n \<le> unat (agBlocks sb)" "0 < unat n" "3 * unat (sectSize sb) \<le> unat rel * unat (blockSize sb)"
    and w: "writeBlocksData partOff sb (agAbsBlock sb ag rel) n data d = (Inr (), d')" "length data \<le> unat n * unat (blockSize sb)"
      "run_addressable partOff sb (agAbsBlock sb ag rel) (unat n)"
    and free: "\<forall>c\<in>{bnoRel, cntRel, inoRel, slot_block sb keep}. c < agBlocks sb \<and> unat c \<notin> {unat rel..<unat rel + unat n}"
  shows "group_state partOff sb ag bnoRel cntRel inoRel d' agf bs cs agi rs keep"
proof -
  have f: "group_fits partOff sb ag" by (rule group_state_fits [OF g])
  have v: "validateGeometry sb = Inr ()" using f by (simp add: group_fits_def)
  have rel: "rel < agBlocks sb" using run by (simp add: word_less_nat_alt)
  let ?B = "unat (blockSize sb)"
  have ph: "unat partOff + (unat (fsbToPhysBlock sb (agAbsBlock sb ag rel)) + k) * ?B = group_base partOff sb ag + (unat rel + k) * ?B" for k
    unfolding agAbsBlock_phys [OF v rel] by (simp add: group_base_def algebra_simps)
  note ro = run_outside [OF f run w]
  show ?thesis
  proof (rule group_state_cong [OF g ro(2,3)])
    fix c b assume c: "c \<in> {bnoRel, cntRel, inoRel, slot_block sb keep}" and r: "readAGBlock d partOff sb ag c = Inr b"
    have cb: "c < agBlocks sb" "unat c \<notin> {unat rel..<unat rel + unat n}" using free c by blast+
    have "(unat c + 1) * ?B \<le> unat rel * ?B \<or> (unat rel + unat n) * ?B \<le> unat c * ?B"
      using cb(2) mult_le_mono1 [of "unat c + 1" "unat rel" ?B] mult_le_mono1 [of "unat rel + unat n" "unat c" ?B] by (auto simp: not_less)
    then have "int (group_base partOff sb ag + unat c * ?B) + int ?B \<le> int (group_base partOff sb ag + unat rel * ?B) \<or>
        int (group_base partOff sb ag + (unat rel + unat n) * ?B) \<le> int (group_base partOff sb ag + unat c * ?B)"
      unfolding of_nat_add [symmetric] of_nat_le_iff by (simp add: algebra_simps)
    then have "off_run partOff sb (agAbsBlock sb ag rel) (unat n) (partOff + fsbToPhysBlock sb (agAbsBlock sb ag c) * ucast (blockSize sb)) ?B"
      unfolding off_run_def ph ph [of 0, simplified] block_place(2) [OF f cb(1)] .
    then show "readAGBlock d' partOff sb ag c = Inr b"
      using writeBlocksData_spec [OF w(3,2), of d] w(1) r unfolding readAGBlock_ReadAt [OF f cb(1)] by auto
  qed
qed

text \<open>
  A creation takes one run and one inode out of its group and changes the group only behind its
  superblock; the trees and the headers stay in order.
\<close>

lemma create_state:
  assumes st: "create_steps sio (Suc (Suc fuel)) clk partOff sb ag inoRel rs dirIn data mode s i b f d"
    and g: "group_state partOff sb ag bnoRel cntRel inoRel (disk s) agf bs cs agi rs (iNum dirIn)"
    and sio: "admits_first sio" and q: "mergedQ s = []"
    and room: "r0 \<in> set bs" "blocksFor sb data \<le> snd r0" and run: "good_run partOff sb ino b (blocksFor sb data) (length data)" "0 < blocksFor sb data"
    and body: "\<forall>x\<in>free_set bs. 3 * unat (sectSize sb) \<le> x * unat (blockSize sb)"
      "{unat bnoRel, unat cntRel, unat inoRel, ino_block sb (iNum dirIn)} \<inter> free_set bs = {}"
    and slots: "inodes_fit sb partOff" "slot_free_of sb ag bnoRel cntRel inoRel (inoFromAGRel sb ag i)" "slot_free_of sb ag bnoRel cntRel inoRel (iNum dirIn)"
  obtains rel agf' bs' cs' agi' rs' where "b = agAbsBlock sb ag rel"
    "group_state partOff sb ag bnoRel cntRel inoRel d agf' bs' cs' agi' rs' (iNum dirIn)"
    "free_set bs' = free_set bs - {unat rel..<unat rel + unat (blocksFor sb data)}" "{unat rel..<unat rel + unat (blocksFor sb data)} \<subseteq> free_set bs"
    "unat rel + unat (blocksFor sb data) \<le> unat (agBlocks sb)" "length bs' \<le> length bs" "be32 agf' 52 = be32 agf 52 - blocksFor sb data"
    "free_inodes rs' = free_inodes rs - {unat i}" "map fst rs' = map fst rs" "kept_outside partOff sb ag (disk s) d"
    "int (group_base partOff sb ag + 3 * unat (sectSize sb)) \<le> sint (partOff + fsbToPhysBlock sb b * ucast (blockSize sb))"
proof -
  let ?n = "blocksFor sb data" and ?S = "\<lambda>d agf bs cs agi rs. group_state partOff sb ag bnoRel cntRel inoRel d agf bs cs agi rs (iNum dirIn)"
  obtain d1 da d2 agi' rs' where k1: "rest_kept partOff sb ag inoRel (disk s) d1"
    and ig: "igrp partOff sb ag inoRel d1 agi' rs'" "chunks_ok sb rs'" "free_inodes rs' = free_inodes rs - {unat i}" "map fst rs' = map fst rs"
    and al: "allocBlocks sio (Suc (Suc fuel)) partOff sb ag ?n (s\<lparr>disk := d1\<rparr>) = (Inr b, s\<lparr>disk := da\<rparr>)"
    and wr: "writeBlocksData partOff sb b ?n data da = (Inr (), d2)" and sl: "slot_writes partOff sb (inoFromAGRel sb ag i) (iNum dirIn) d2 d"
    using st unfolding create_steps_def by blast
  have g1: "?S (disk (s\<lparr>disk := d1\<rparr>)) agf bs cs agi' rs'" using state_new_inode [OF g slots(3) k1 ig(1,2)] by simp
  have q1: "mergedQ (s\<lparr>disk := d1\<rparr>) = []" using q by simp
  obtain rel d' agf' bs' cs' where r: "allocBlocks sio (Suc (Suc fuel)) partOff sb ag ?n (s\<lparr>disk := d1\<rparr>) = (Inr (agAbsBlock sb ag rel), s\<lparr>disk := d1\<rparr>\<lparr>disk := d'\<rparr>)"
    "?S d' agf' bs' cs' agi' rs'" "free_set bs' = free_set bs - {unat rel..<unat rel + unat ?n}"
    "{unat rel..<unat rel + unat ?n} \<subseteq> free_set bs" "unat rel + unat ?n \<le> unat (agBlocks sb)" "length bs' \<le> length bs" "be32 agf' 52 = be32 agf 52 - ?n"
    "kept_outside partOff sb ag (disk (s\<lparr>disk := d1\<rparr>)) d'"
    by (rule state_alloc_run [OF g1 slots(3) sio q1 run(2) room])
  have b: "b = agAbsBlock sb ag rel" and "d' = da" using r(1) al by (auto dest: arg_cong [where f = disk])
  note r = r [unfolded \<open>d' = da\<close>]
  have n0: "0 < unat ?n" using run(2) by (simp add: word_less_nat_alt)
  then have "unat rel \<in> free_set bs" using r(4) by force
  then have lo: "3 * unat (sectSize sb) \<le> unat rel * unat (blockSize sb)" using body(1) by blast
  have run': "length data \<le> unat ?n * unat (blockSize sb)" "run_addressable partOff sb (agAbsBlock sb ag rel) (unat ?n)"
    using run(1) by (simp_all add: good_run_def b)
  have f: "group_fits partOff sb ag" by (rule group_state_fits [OF g])
  have h: "homed sb ag (inoFromAGRel sb ag i)" "homed sb ag (iNum dirIn)" using slots by (simp_all add: slot_free_of_def)
  have "\<forall>c\<in>{bnoRel, cntRel, inoRel, slot_block sb (iNum dirIn)}. c < agBlocks sb \<and> unat c \<notin> {unat rel..<unat rel + unat ?n}"
    using g r(4) body(2) slot_block_facts(1,2) [OF h(2)] by (fastforce simp: group_state_def group_ok_def grp_def igrp_def body_block_def)
  note g2 = state_run_write [OF r(2,5) n0 lo wr [unfolded b] run' this]
  obtain x y e where w: "WriteAt d2 (inodeByteOff sb partOff (inoFromAGRel sb ag i)) x = Inr e" "WriteAt e (inodeByteOff sb partOff (iNum dirIn)) y = Inr d"
    "length x = unat (inodeSize sb)" "length y = unat (inodeSize sb)" using sl unfolding slot_writes_def by blast
  have g4: "?S d agf' bs' cs' agi' rs'"
    using state_slot_write [OF state_slot_write [OF g2 slots w(1,3)] slots(1,3,3) w(2,4)] .
  have "kept_outside partOff sb ag d2 e" "kept_outside partOff sb ag e d" "kept_outside partOff sb ag da d2"
    by (rule slot_outside [OF slots(1) h(1) w(1,3)], rule slot_outside [OF slots(1) h(2) w(2,4)], rule run_outside(1) [OF f r(5) n0 lo wr [unfolded b] run'])
  then have k: "kept_outside partOff sb ag (disk s) d" using k1 r(8) by (simp add: rest_kept_def kept_outside_def)
  have rel: "rel < agBlocks sb" using r(5) n0 by (simp add: word_less_nat_alt)
  have "int (group_base partOff sb ag + 3 * unat (sectSize sb)) \<le> sint (partOff + fsbToPhysBlock sb b * ucast (blockSize sb))"
    unfolding b block_place(2) [OF f rel] of_nat_le_iff using lo by simp
  then show ?thesis using that [OF b g4 r(3-7) ig(3,4) k] by blast
qed

section \<open>The bookkeeping after a change\<close>

text \<open>
  Where the headers of all groups can be read, the counters are written: one write of the primary
  superblock, which then parses as before.
\<close>

lemma groupCounts_readable:
  assumes "group_fits partOff sb ag" and "agfBlock d partOff sb ag = Inr agf" and "agiBlock d partOff sb ag = Inr agi"
  shows "\<exists>c f b. groupCounts d partOff sb ag = Inr (c, f, b)"
proof -
  have "512 \<le> length agf" "512 \<le> length agi"
    using assms readBytes_length sectSize_ge by (fastforce simp: group_fits_def agfBlock_def agiBlock_def readHeader_Inr)+
  then show ?thesis using assms(2,3) by (simp add: groupCounts_def u32At_def agf_offs agi_offs)
qed

lemma sumCounts_readable:
  assumes "\<forall>j\<in>{ag..<ag + k}. \<exists>c f b. groupCounts d partOff sb (of_nat j) = Inr (c, f, b)"
  shows "\<exists>x. sumCounts d partOff sb ag k acc = Inr x"
  using assms
proof (induction k arbitrary: ag acc)
  case 0
  show ?case by (cases acc rule: prod_cases3) simp
next
  case (Suc k)
  obtain c f b where "groupCounts d partOff sb (of_nat ag) = Inr (c, f, b)" using Suc.prems by force
  moreover have "\<exists>x. sumCounts d partOff sb (ag + 1) k a = Inr x" for a by (rule Suc.IH) (use Suc.prems in auto)
  ultimately show ?case by (cases acc rule: prod_cases3) simp
qed

lemma parse_frame:
  assumes "\<And>o' n. o' + n \<le> 128 \<or> 152 \<le> o' \<and> o' + n \<le> 224 \<or> 228 \<le> o' \<Longrightarrow> window o' n buf = window o' n old"
  shows "parseSuperblock buf = parseSuperblock old" "be32 buf 0 = be32 old 0"
  by (simp_all add: parseSuperblock_def Let_def get_defs byte_at_window assms)

lemma sync_counts:
  assumes fits: "\<forall>ag < agCount sb. group_fits partOff sb ag \<and> (\<exists>agf. agfBlock d partOff sb ag = Inr agf) \<and> (\<exists>agi. agiBlock d partOff sb ag = Inr agi)"
    and old: "readBytes d partOff 512 = Inr old" and off: "0 \<le> sint partOff"
  obtains d' buf where "syncSuperblockCounts partOff sb d = (Inr (), d')" "WriteAt d partOff buf = Inr d'" "length buf = 512"
    "parseSuperblock buf = parseSuperblock old" "be32 buf 0 = be32 old 0"
proof -
  have "\<forall>j\<in>{0..<0 + unat (agCount sb)}. \<exists>c f b. groupCounts d partOff sb (of_nat j) = Inr (c, f, b)"
  proof
    fix j assume "j \<in> {0..<0 + unat (agCount sb)}"
    then have "(of_nat j :: u32) < agCount sb" using of_nat_u32 [of j "agCount sb"] by (simp add: word_less_nat_alt)
    then show "\<exists>c f b. groupCounts d partOff sb (of_nat j) = Inr (c, f, b)" using fits groupCounts_readable by blast
  qed
  then obtain c f b where s: "sumCounts d partOff sb 0 (unat (agCount sb)) (0, 0, 0) = Inr (c, f, b)"
    using sumCounts_readable [of 0 "unat (agCount sb)" d partOff sb "(0, 0, 0)"] by auto
  let ?b = "put64 sbOffFdblocks b (put64 sbOffIfree f (put64 sbOffIcount c old))"
  let ?buf = "if hasCRC sb then updateCRC ?b sbOffCRC sbCRCLen else ?b"
  obtain d' where d': "WriteAt d partOff ?buf = Inr d'" using file_store.wr_ok [OF off] by blast
  have len: "length ?buf = 512" using readBytes_length [OF old] by simp
  have w: "window o' n ?buf = window o' n old" if "o' + n \<le> 128 \<or> 152 \<le> o' \<and> o' + n \<le> 224 \<or> 228 \<le> o'" for o' n
    using that by (auto simp: window_updateCRC window_put_frame sb_offs)
  have "syncSuperblockCounts partOff sb d = (Inr (), d')"
    using s old d' by (simp add: syncSuperblockCounts_def bindIO_apply writeIO_def Let_def)
  moreover have "parseSuperblock ?buf = parseSuperblock old" "be32 ?buf 0 = be32 old 0" by (rule parse_frame, rule w, assumption)+
  ultimately show ?thesis using that d' len by blast
qed

text \<open>
  A filesystem in order: the superblock on the device is the one of the handle, the first group has
  all its parts, and the headers of every group can be read.
\<close>

definition in_order :: "dev \<Rightarrow> superblock \<Rightarrow> bytes \<Rightarrow> arec list \<Rightarrow> arec list \<Rightarrow> bytes \<Rightarrow> irec list \<Rightarrow> bool" where
  "in_order d sb agf bs cs agi rs \<longleftrightarrow> readSuperblock d 0 = Inr sb \<and> group_state 0 sb 0 1 2 3 d agf bs cs agi rs (rootIno sb) \<and>
     (\<forall>ag < agCount sb. (\<exists>h. agfBlock d 0 sb ag = Inr h) \<and> (\<exists>h. agiBlock d 0 sb ag = Inr h))"

lemma fmt_headers_apart:
  assumes "fmt_sb sb n reflink" and "ag \<noteq> 0"
  shows "outside 0 sb 0 (agFByteOffset sb 0 ag) 512" "outside 0 sb 0 (agIByteOffset sb 0 ag) 512"
proof -
  note f = fmt_fits [OF assms(1)]
  have b: "unat (agBlocks sb) * unat (blockSize sb) = 67108864" "sectSize sb = 512" using assms(1) fmt_sect [OF assms(1)] by (simp_all add: fmt_sb_def)
  have "unat ag \<noteq> 0" using assms(2) by (simp add: unat_eq_zero)
  then have "67108864 \<le> unat ag * 67108864" by simp
  then have "int (group_base 0 sb 0 + unat (agBlocks sb) * unat (blockSize sb)) \<le> int (group_base 0 sb ag + 512)"
    "int (group_base 0 sb 0 + unat (agBlocks sb) * unat (blockSize sb)) \<le> int (group_base 0 sb ag + 2 * 512)"
    unfolding f(2) b of_nat_le_iff by simp_all
  then show "outside 0 sb 0 (agFByteOffset sb 0 ag) 512" "outside 0 sb 0 (agIByteOffset sb 0 ag) 512"
    unfolding outside_def header_offset [OF f(1)] b by simp_all
qed

text \<open>A change of the first group keeps the filesystem in order if it keeps the group in order and everything outside it.\<close>

lemma in_order_change:
  assumes sb: "fmt_sb sb n reflink" and o: "in_order d sb agf bs cs agi rs"
    and k: "kept_outside 0 sb 0 d d'" "group_state 0 sb 0 1 2 3 d' agf' bs' cs' agi' rs' (rootIno sb)"
  shows "in_order d' sb agf' bs' cs' agi' rs'"
proof -
  have s: "sectSize sb = 512" by (rule fmt_sect [OF sb])
  have "outside 0 sb 0 0 512" using s by (simp add: outside_def)
  moreover obtain buf where b: "ReadAt d 0 512 = Inr buf" using o by (auto simp: in_order_def readSuperblock_def readBytes_def bindR_eq_Inr)
  ultimately have "ReadAt d' 0 512 = Inr buf" using k(1) unfolding kept_outside_def by blast
  then have "readSuperblock d' 0 = Inr sb" using o b by (simp add: in_order_def readSuperblock_def readBytes_def)
  moreover have "(\<exists>h. agfBlock d' 0 sb ag = Inr h) \<and> (\<exists>h. agiBlock d' 0 sb ag = Inr h)" if "ag < agCount sb" for ag
  proof (cases "ag = 0")
    case True
    then show ?thesis using k(2) by (auto simp: group_state_def group_ok_def grp_def igrp_def)
  next
    case False
    obtain g i where "agfBlock d 0 sb ag = Inr g" "agiBlock d 0 sb ag = Inr i" using o \<open>ag < agCount sb\<close> by (auto simp: in_order_def)
    then have "agfBlock d' 0 sb ag = Inr g" "agiBlock d' 0 sb ag = Inr i"
      using k(1) fmt_headers_apart [OF sb False] s by (auto simp: kept_outside_def agfBlock_def agiBlock_def readHeader_Inr readBytes_def)
    then show ?thesis by blast
  qed
  ultimately show ?thesis using k(2) by (simp add: in_order_def)
qed

text \<open>The counters are written, and nothing behind the primary superblock changes.\<close>

lemma in_order_sync:
  assumes sb: "fmt_sb sb n reflink" and o: "in_order d sb agf bs cs agi rs" and root: "homed sb 0 (rootIno sb)"
  obtains d' where "syncSuperblockCounts 0 sb d = (Inr (), d')" "in_order d' sb agf bs cs agi rs"
    "\<forall>off m xs. 512 \<le> sint off \<longrightarrow> ReadAt d off m = Inr xs \<longrightarrow> ReadAt d' off m = Inr xs"
proof -
  have sec: "sectSize sb = 512" by (rule fmt_sect [OF sb])
  note fit = fmt_fits [OF sb]
  obtain old where old: "readBytes d 0 512 = Inr old" "parseSuperblock old = sb" "be32 old 0 = magicSB" "validateGeometry sb = Inr ()"
    using o by (auto simp: in_order_def readSuperblock_def bindR_eq_Inr Let_def split: if_splits)
  have hd: "\<forall>ag < agCount sb. group_fits 0 sb ag \<and> (\<exists>agf. agfBlock d 0 sb ag = Inr agf) \<and> (\<exists>agi. agiBlock d 0 sb ag = Inr agi)"
    using o fit(1) by (simp add: in_order_def)
  obtain d' buf where s: "syncSuperblockCounts 0 sb d = (Inr (), d')" "WriteAt d 0 buf = Inr d'" "length buf = 512"
    "parseSuperblock buf = parseSuperblock old" "be32 buf 0 = be32 old 0"
    by (rule sync_counts [OF hd old(1)]) simp
  have k: "ReadAt d' off m = Inr xs" if "512 \<le> sint off" "ReadAt d off m = Inr xs" for off m xs
    by (rule file_store.rd_wr_frame [OF s(2) that(2)]) (use that(1) s(3) in simp)
  have "readBytes d' 0 512 = Inr buf" using file_store.rd_wr_same [OF s(2)] s(3) by (simp add: readBytes_def)
  then have rs': "readSuperblock d' 0 = Inr sb" using s(4,5) old(2-4) by (simp add: readSuperblock_def)
  have hk: "readHeader d' sb off mg = Inr h" if "readHeader d sb off mg = Inr h" "512 \<le> sint off" for off mg h
    using that k by (simp add: readHeader_Inr readBytes_def)
  have ho: "512 \<le> sint (agFByteOffset sb 0 ag)" "512 \<le> sint (agIByteOffset sb 0 ag)" for ag
    unfolding header_offset [OF fit(1)] sec by simp_all
  have g: "group_state 0 sb 0 1 2 3 d agf bs cs agi rs (rootIno sb)" using o by (simp add: in_order_def)
  have "group_state 0 sb 0 1 2 3 d' agf bs cs agi rs (rootIno sb)"
  proof (rule group_state_cong [OF g])
    fix c b assume c: "c \<in> {1, 2, 3, slot_block sb (rootIno sb)}" and r: "readAGBlock d 0 sb 0 c = Inr b"
    have cb: "body_block sb c" using c g slot_block_facts(3) [OF root] by (auto simp: group_state_def group_ok_def grp_def igrp_def)
    then have lt: "c < agBlocks sb" by (simp add: body_block_def)
    have "int (unat (sectSize sb)) \<le> int (group_base 0 sb 0 + unat c * unat (blockSize sb))"
      unfolding of_nat_le_iff using body_within(1) [OF cb] by simp
    then have "512 \<le> sint (0 + fsbToPhysBlock sb (agAbsBlock sb 0 c) * ucast (blockSize sb))"
      unfolding block_place(2) [OF fit(1) lt] sec by simp
    then show "readAGBlock d' 0 sb 0 c = Inr b" using k r unfolding readAGBlock_ReadAt [OF fit(1) lt] by blast
  qed (unfold agfBlock_def agiBlock_def, erule hk [OF _ ho(1)], erule hk [OF _ ho(2)])
  moreover have "\<forall>ag < agCount sb. (\<exists>h. agfBlock d' 0 sb ag = Inr h) \<and> (\<exists>h. agiBlock d' 0 sb ag = Inr h)"
    using o hk [OF _ ho(1)] hk [OF _ ho(2)] unfolding in_order_def agfBlock_def agiBlock_def by metis
  ultimately have "in_order d' sb agf bs cs agi rs" using rs' by (simp add: in_order_def)
  then show ?thesis using that s(1) k by blast
qed

lemma afterMutation_sync:
  assumes "m 0 sb a = (Inr (), a')" and "syncSuperblockCounts 0 sb (disk a') = (Inr (), d')" and "quotaFlags sb = 0"
  shows "afterMutation m \<lparr>partOffset = 0, fsSb = sb, fsAlloc = a\<rparr> = (Inr (), \<lparr>partOffset = 0, fsSb = sb, fsAlloc = a'\<lparr>disk := d'\<rparr>\<rparr>)"
  using assms by (simp add: afterMutation_def onFS_def bindIO_apply onDisk_apply quotaRecompute_def retIO_def)

section \<open>A path of one name\<close>

text \<open>The names a file can have.\<close>

definition proper_name :: "bytes \<Rightarrow> bool" where
  "proper_name name \<longleftrightarrow> name \<noteq> [] \<and> 47 \<notin> set name \<and> name \<noteq> [46] \<and> name \<noteq> [46, 46] \<and> length name < 256"

lemma proper_components: "proper_name name \<Longrightarrow> components (47 # name) = [name]"
  using splitSlash_word [of name] by (simp add: components_def proper_name_def)

lemma proper_split:
  assumes "proper_name name"
  shows "splitParent (pathClean (47 # name)) = ([47], name)"
proof -
  have "takeWhile (\<lambda>c. c \<noteq> 47) (rev name @ [47]) = rev name"
    using assms by (subst takeWhile_append2) (auto simp: proper_name_def)
  then show ?thesis
    using proper_components [OF assms] unfolding pathClean_components by (simp add: splitParent_def pathSplit_def trimSuffix_def)
qed

section \<open>The root directory of a new filesystem\<close>

lemma fmt_root:
  assumes "fmt_sb sb n reflink"
  defines "r \<equiv> if reflink then 20576 else 20544 :: nat"
  shows "unat (rootIno sb) = r" "inoShift sb = 17" "inoAG sb (rootIno sb) = 0" "inoAGRel sb (rootIno sb) = of_nat r" "inodes_fit sb 0"
    "unat (freeStart (fmtAGLayoutFor 0 (agCount sb) (hasReflink sb))) = r div 8 + 8"
proof -
  show r: "unat (rootIno sb) = r" using assms by (simp add: fmt_sb_def fmtRootIno_value)
  have i: "rootIno sb = of_nat r" by (rule word_unat_eq_iff [THEN iffD2]) (simp add: r r_def unat_of_nat)
  show "inoShift sb = 17" using assms by (simp add: fmt_sb_def inoShift_def)
  then show "inoAG sb (rootIno sb) = 0" "inoAGRel sb (rootIno sb) = of_nat r"
    unfolding i by (simp_all add: inoAG_def inoAGRel_def r_def)
  show "inodes_fit sb 0" using assms unat_lt(3) [of "agCount sb"] by (simp add: fmt_sb_def inodes_fit_def)
  show "unat (freeStart (fmtAGLayoutFor 0 (agCount sb) (hasReflink sb))) = r div 8 + 8" using assms by (simp add: fmt_sb_def layout_values)
qed

lemma first_chunk_bits: "Collect (bit (0xFFFFFFFFFFFFFFF8 :: u64)) = {3..<64}"
proof -
  have e: "(0xFFFFFFFFFFFFFFF8 :: u64) = NOT (mask 3)" by (simp add: mask_eq_exp_minus_1)
  show ?thesis unfolding e set_eq_iff mem_Collect_eq bit_not_iff bit_mask_iff by (auto simp: possible_bit_word)
qed

lemma fresh_free_inodes:
  assumes "fmt_sb sb n reflink"
  defines "r \<equiv> if reflink then 20576 else 20544 :: nat"
  shows "free_inodes (fresh_chunks sb 0) = {r + 3..<r + 64}"
proof -
  have "unat (ucast (rootIno sb) :: u32) = r"
    using fmt_root(1) [OF assms(1), folded r_def] by (simp add: unsigned_ucast_eq take_bit_nat_eq_self r_def)
  then have "free_inodes (fresh_chunks sb 0) = (\<lambda>b. r + b) ` {3..<64}"
    by (simp add: free_inodes_def fresh_chunks_def first_chunk_bits)
  then show ?thesis by (simp add: image_add_atLeastLessThan add.commute)
qed

definition first_run :: "superblock \<Rightarrow> arec" where
  "first_run sb = (freeStart (fmtAGLayoutFor 0 (agCount sb) (hasReflink sb)), agBlocks sb - freeStart (fmtAGLayoutFor 0 (agCount sb) (hasReflink sb)))"

lemma first_run_facts:
  assumes "fmt_sb sb n reflink"
  defines "r \<equiv> if reflink then 20576 else 20544 :: nat"
  shows "free_set [first_run sb] = {r div 8 + 8..<16384}" "unat (snd (first_run sb)) = 16384 - (r div 8 + 8)"
proof -
  have s: "unat (freeStart (fmtAGLayoutFor 0 (agCount sb) (hasReflink sb))) = r div 8 + 8" by (rule fmt_root(6) [OF assms(1), folded r_def])
  have a: "agBlocks sb = 16384" using assms(1) by (simp add: fmt_sb_def)
  show l: "unat (snd (first_run sb)) = 16384 - (r div 8 + 8)"
    unfolding first_run_def snd_conv a by (subst unat_sub) (simp_all add: word_le_nat_alt s r_def)
  then show "free_set [first_run sb] = {r div 8 + 8..<16384}"
    using s by (simp add: free_set_def run_blocks_def first_run_def r_def)
qed

text \<open>The inodes of the first group, by their number within the group.\<close>

lemma fmt_homed:
  assumes sb: "fmt_sb sb n reflink" and ino: "inoAG sb ino = 0" "unat (inoAGRel sb ino) < 131072" "8 \<le> unat (inoAGRel sb ino)" "unat ino < 2 ^ 32"
  shows "homed sb 0 ino" "ino_block sb ino = unat (inoAGRel sb ino) div 8"
proof -
  have sh: "inoShift sb = 17" by (rule fmt_root(2) [OF sb])
  have f: "agCount sb = n" "0 < unat n" "agBlocks sb = 16384" "blockSize sb = 4096" "inopBLog sb = 3" "sectSize sb = 512"
    using sb fmt_sect [OF sb] by (simp_all add: fmt_sb_def word_less_nat_alt)
  have m: "unat (inoAGRel sb ino) = unat ino mod 131072"
    unfolding inoAGRel_def low_mask sh by (simp add: unsigned_ucast_eq take_bit_eq_mod unat_mod)
  have "unat (ucast (drop_bit 17 ino) :: u32) = 0" using ino(1) by (simp add: inoAG_def sh)
  then have ag: "ino_ag sb ino = 0" using ino(4) by (simp add: ino_ag_def sh unsigned_ucast_eq unat_drop_bit take_bit_nat_eq_self)
  show b: "ino_block sb ino = unat (inoAGRel sb ino) div 8" unfolding m by (simp add: ino_block_def sh f)
  have "1 \<le> unat (inoAGRel sb ino) div 8" using div_le_mono [OF ino(3), of 8] by simp
  then show "homed sb 0 ino" unfolding homed_def ino_in_range_def ag b using ino(2) f by (simp add: less_mult_imp_div_less)
qed

lemma new_root:
  assumes sb: "fmt_sb sb n reflink" "length (sbUuid sb) = 16" and root: "readInode d 0 sb (rootIno sb) = Inr root" "empty_root root"
  shows "iNum root = rootIno sb" "homed sb 0 (rootIno sb)" "dir_in_use 0 sb root [first_run sb] (fresh_chunks sb 0)"
    "proper_name name \<Longrightarrow> sf_room sb root name"
proof -
  let ?r = "if reflink then 20576 else 20544 :: nat"
  note fr = fmt_root [OF sb(1)]
  have f: "inodeSize sb = 512" "inopBLog sb = 3" "hasFType sb" using sb(1) by (simp_all add: fmt_sb_def)
  show num: "iNum root = rootIno sb" by (rule readInode_num [OF root(1)])
  have rel: "unat (inoAGRel sb (rootIno sb)) = ?r" unfolding fr(4) by (simp add: unat_of_nat)
  have h: "homed sb 0 (rootIno sb)" "ino_block sb (rootIno sb) = ?r div 8"
    using fmt_homed [OF sb(1) fr(3)] rel fr(1) by simp_all
  then show "homed sb 0 (rootIno sb)" by simp
  have "inode_wf sb root" by (rule readInode_wf [OF root(1)]) (simp add: f)
  then have "writable 0 sb root" using fr(5) h(1) num root(2) f by (simp add: writable_def homed_def empty_root_def)
  moreover have "i div 8 \<notin> {?r div 8 + 8..<16384}" if "i \<in> {?r + 3..<?r + 64}" for i
  proof -
    have "i div 8 \<le> (?r + 63) div 8" using that by (intro div_le_mono) simp
    then show ?thesis by (auto split: if_splits)
  qed
  ultimately show "dir_in_use 0 sb root [first_run sb] (fresh_chunks sb 0)"
    unfolding dir_in_use_def num h(2) first_run_facts(1) [OF sb(1)] fresh_free_inodes [OF sb(1)] rel f(2) by simp
  show "sf_room sb root name" if "proper_name name"
    using that root(2) empty_root_lists [OF root(2), of True] f by (simp add: sf_room_def Let_def sf_wf_def empty_root_def proper_name_def)
qed

section \<open>A file on a new filesystem\<close>

lemma fmt_limits:
  assumes "fmt_sb sb n reflink" and "maxRead sb = 0" and "len \<le> 67108864"
  shows "within_limits sb len"
proof -
  have f: "dBlocks sb = ucast n * 16384" "blockSize sb = 4096" "0 < unat n" using assms(1) by (simp_all add: fmt_sb_def word_less_nat_alt)
  have u: "unat (ucast n * 16384 :: u64) = unat n * 16384" using unat_lt(3) [of n] by (simp add: unat_word_ariths unat_ucast_up)
  have p: "unat (ucast n * 16384 * 4096 :: u64) = unat n * 67108864" using unat_lt(3) [of n] by (simp add: unat_word_ariths unat_ucast_up)
  have le: "\<not> (0x7FFFFFFFFFFFFFFF :: u64) div 4096 < ucast n * 16384" using u unat_lt(3) [of n] by (simp add: word_less_nat_alt unat_div)
  have nz: "dBlocks sb \<noteq> 0" using u f(1,3) by (metis mult_is_0 not_gr_zero numeral_neq_zero unat_0)
  have d: "declaredBytes sb = (ucast n * 16384 * 4096, True)" using nz le f by (simp add: declaredBytes_def)
  have "sint (ucast n * 16384 * 4096 :: int64) = int (unat n * 67108864)"
    using sint_unat [of "ucast n * 16384 * 4096 :: int64"] unat_lt(3) [of n] unfolding p by simp
  moreover have "int len \<le> int (unat n * 67108864)" unfolding of_nat_le_iff using assms(3) f(3) mult_le_mono1 [of 1 "unat n" 67108864] by simp
  ultimately have "int len \<le> sint (fst (declaredBytes sb))" unfolding d by simp
  moreover have "int len \<le> sint DefaultMaxReadSize" using assms(3) by (simp add: DefaultMaxReadSize_def)
  ultimately show ?thesis using assms(2) unfolding within_limits_def maxReadLimit_def by simp
qed

text \<open>What has been created is still there when nothing behind the primary superblock has changed.\<close>

lemma created_frame:
  assumes c: "created partOff sb dirIn name data mode d dirIn' newino f b"
    and k: "\<And>off n xs. lo \<le> sint off \<Longrightarrow> ReadAt d off n = Inr xs \<Longrightarrow> ReadAt d' off n = Inr xs"
    and lo: "lo \<le> sint (inodeByteOff sb partOff (iNum dirIn))" "lo \<le> sint (inodeByteOff sb partOff newino)"
      "lo \<le> sint (partOff + fsbToPhysBlock sb b * ucast (blockSize sb))"
  shows "created partOff sb dirIn name data mode d' dirIn' newino f b"
proof -
  have "readInode d' partOff sb ino = Inr i" if "readInode d partOff sb ino = Inr i" "lo \<le> sint (inodeByteOff sb partOff ino)" for ino i
    using that k by (auto simp: readInode_def readBytes_def bindR_eq_Inr)
  then show ?thesis using c lo k [OF lo(3)] by (simp add: created_def)
qed

lemma created_at_path:
  fixes perm :: u32
  assumes c: "created 0 sb root name data (ucast (perm AND 0x1FF) OR 0x8000) d root' newino f b" "iNum root = rootIno sb" "isDir root" "proper_name name"
    and sio: "makes_bytes sio" and lim: "within_limits sb (length data)" and e: "sfReadDir (dataFork root) (hasFType sb) = []"
  shows "pathLookup sio d 0 sb (47 # name) = Inr (stampInode sb f)" "pathLookup sio d 0 sb [47] = Inr root'" "isDir root'" "isRegular (stampInode sb f)"
    "iNum (stampInode sb f) = newino" "iSize (stampInode sb f) = of_nat (length data)" "iMode (stampInode sb f) = ucast (perm AND 0x1FF) OR 0x8000"
    "readFileData sio d 0 sb (stampInode sb f) = Some (Inr data)"
    "readDir sio d 0 sb root' = Inr [\<lparr>deInode = newino, deName = name, deType = (if hasFType sb then 1 else 0)\<rparr>]"
proof -
  note r = created_reads [OF c(1) sio lim]
  have k: "readInode d 0 sb (rootIno sb) = Inr root'" "readInode d 0 sb newino = Inr (stampInode sb f)" "iMode root' = iMode root" "iMode f = ucast (perm AND 0x1FF) OR 0x8000" "iSize f = of_nat (length data)"
    using c(1,2) by (simp_all add: created_def)
  have "lookupInDir sio d 0 sb root' name = Inr newino" using r(1) e by simp
  moreover show reg: "isRegular (stampInode sb f)" using k(4) file_mode [of perm] by (simp add: isRegular_def)
  moreover have "\<not> isSymlink (stampInode sb f)" using reg by (auto simp: isRegular_def isSymlink_def)
  moreover have "name \<noteq> []" using c(4) by (simp add: proper_name_def)
  ultimately show "pathLookup sio d 0 sb (47 # name) = Inr (stampInode sb f)"
    using k(1,2) proper_components [OF c(4)] by (simp add: pathLookup_walk)
  show "pathLookup sio d 0 sb [47] = Inr root'" using k(1) by (simp add: pathLookup_walk del_path(2))
  show "isDir root'" using c(3) k(3) by (simp add: isDir_def)
  show "iNum (stampInode sb f) = newino" by (rule readInode_num [OF k(2)])
  show "iSize (stampInode sb f) = of_nat (length data)" "iMode (stampInode sb f) = ucast (perm AND 0x1FF) OR 0x8000" using k(4,5) by simp_all
  show "readFileData sio d 0 sb (stampInode sb f) = Some (Inr data)" "readDir sio d 0 sb root' = Inr [\<lparr>deInode = newino, deName = name, deType = (if hasFType sb then 1 else 0)\<rparr>]"
    using r(2,3) e by simp_all
qed

lemma new_root_lists:
  assumes "readInode d 0 sb (rootIno sb) = Inr root" and "empty_root root"
  shows "pathLookup sio d 0 sb [47] = Inr root" "isDir root" "readDir sio d 0 sb root = Inr []"
  using assms empty_root_lists [OF assms(2)] by (simp_all add: pathLookup_walk del_path(2) readDir_def empty_root_def)

section \<open>Creating a file on a new filesystem\<close>

text \<open>The first run has room for the data, and the inode that is taken lies in the first chunk.\<close>

lemma fresh_room:
  assumes sb: "fmt_sb sb n reflink" and data: "data \<noteq> []" "length data \<le> 13804 * 4096"
  shows "blocksFor sb data \<le> snd (first_run sb)" "0 < blocksFor sb data" "(length data + unat (blockSize sb) - 1) div unat (blockSize sb) < 2 ^ 21"
proof -
  have f: "blockSize sb = 4096" using sb by (simp add: fmt_sb_def)
  have le: "(length data + 4095) div 4096 \<le> 13804"
    using div_le_mono [of "length data + 4095" "13804 * 4096 + 4095" 4096] data(2) by simp
  have len: "1 \<le> (length data + 4095) div 4096"
    using div_le_mono [of 4096 "length data + 4095" 4096] data(1) by (cases data) simp_all
  have B: "unat (blocksFor sb data) = (length data + 4095) div 4096" using blocksFor_unat [of data sb] data(2) f by simp
  show "blocksFor sb data \<le> snd (first_run sb)" "0 < blocksFor sb data"
    using le len first_run_facts(2) [OF sb] by (simp_all add: word_le_nat_alt word_less_nat_alt B split: if_splits)
  show "(length data + unat (blockSize sb) - 1) div unat (blockSize sb) < 2 ^ 21" using le f by simp
qed

lemma first_chunk_slot:
  assumes sb: "fmt_sb sb n reflink" and ino: "inoAG sb ino = 0" "unat (inoAGRel sb ino) < 131072" "20544 \<le> unat (inoAGRel sb ino)" "unat ino < 2 ^ 32"
  shows "slot_free_of sb 0 1 2 3 ino"
proof -
  have h: "homed sb 0 ino" "ino_block sb ino = unat (inoAGRel sb ino) div 8" using fmt_homed [OF sb ino(1,2)] ino(3,4) by simp_all
  have "20544 div 8 \<le> unat (inoAGRel sb ino) div 8" using ino(3) by (rule div_le_mono)
  then show ?thesis using h by (simp add: slot_free_of_def)
qed

lemma fresh_slot:
  assumes sb: "fmt_sb sb n reflink" and ino: "ino_in_range sb ino" "inoAG sb ino = 0" "unat (inoAGRel sb ino) \<in> free_inodes (fresh_chunks sb 0)"
  shows "slot_free_of sb 0 1 2 3 ino"
proof (rule first_chunk_slot [OF sb ino(2)])
  show "unat (inoAGRel sb ino) < 131072" "20544 \<le> unat (inoAGRel sb ino)" using ino(3) unfolding fresh_free_inodes [OF sb] by (auto split: if_splits)
  show "unat ino < 2 ^ 32" using new_small(1) [of "0 :: u32" sb ino] fmt_root(2) [OF sb] ino(1,2) by (simp add: word_le_nat_alt)
qed

lemma root_slot: "fmt_sb sb n reflink \<Longrightarrow> slot_free_of sb 0 1 2 3 (rootIno sb)"
  using first_chunk_slot [of sb n reflink "rootIno sb"] fmt_root(1,3,4) [of sb n reflink] by (simp add: unat_of_nat)

text \<open>A new filesystem is in order.\<close>

lemma fresh_in_order:
  assumes sb: "fmt_sb sb n reflink" "readSuperblock d 0 = Inr sb" and g: "\<forall>ag < n. fresh_group d sb ag" and size: "67108864 \<le> dsize d"
  obtains agf agi where "in_order d sb agf [first_run sb] [first_run sb] agi (fresh_chunks sb 0)" "be32 agf 52 = snd (first_run sb)"
proof -
  have f: "agCount sb = n" "0 < n" "blockSize sb = 4096" "agBlocks sb = 16384" using sb(1) by (simp_all add: fmt_sb_def)
  have "fresh_group d sb 0" using g f(2) by blast
  then obtain agf agi where grp: "group_ok 0 sb 0 1 2 d agf [first_run sb] [first_run sb]" "be32 agf agfOffFreeBlks = snd (first_run sb)"
    and ig: "igrp 0 sb 0 3 d agi (fresh_chunks sb 0)" "chunks_ok sb (fresh_chunks sb 0)"
    unfolding fresh_group_def first_run_def [symmetric] Let_def by blast
  have h: "homed sb 0 (rootIno sb)" using root_slot [OF sb(1)] by (simp add: slot_free_of_def)
  let ?c = "slot_block sb (rootIno sb)"
  have c: "?c < agBlocks sb" by (rule slot_block_facts(2) [OF h])
  have "unat ?c * 4096 + 4096 \<le> 67108864" using block_within [OF c] f by simp
  then have "nat (int (unat ?c * 4096)) + 4096 \<le> dsize d" unfolding nat_int using size by linarith
  moreover have "sint (0 + fsbToPhysBlock sb (agAbsBlock sb 0 ?c) * ucast (blockSize sb)) = int (unat ?c * 4096)"
    unfolding block_place(2) [OF fmt_fits(1) [OF sb(1)] c] by (simp add: fmt_fits(2) [OF sb(1)] f)
  ultimately have "\<exists>b. readAGBlock d 0 sb 0 ?c = Inr b"
    unfolding readAGBlock_ReadAt [OF fmt_fits(1) [OF sb(1)] c] ReadAt_def by (auto simp: f)
  moreover have "\<forall>ag < agCount sb. (\<exists>h. agfBlock d 0 sb ag = Inr h) \<and> (\<exists>h. agiBlock d 0 sb ag = Inr h)"
    using g f(1) by (auto simp: fresh_group_def Let_def group_ok_def grp_def igrp_def)
  ultimately have "in_order d sb agf [first_run sb] [first_run sb] agi (fresh_chunks sb 0)"
    using grp(1) ig sb(2) by (simp add: in_order_def group_state_def)
  then show ?thesis using that grp(2) by (simp add: agf_offs)
qed

text \<open>What the file has taken from the first group: a run of \<open>n\<close> blocks from \<open>rel\<close> on and the inode \<open>i\<close>.\<close>

definition taken :: "superblock \<Rightarrow> u32 \<Rightarrow> u32 \<Rightarrow> u32 \<Rightarrow> bytes \<Rightarrow> arec list \<Rightarrow> irec list \<Rightarrow> bool" where
  "taken sb n rel i agf bs rs \<longleftrightarrow> free_set bs = free_set [first_run sb] - {unat rel..<unat rel + unat n} \<and>
     {unat rel..<unat rel + unat n} \<subseteq> free_set [first_run sb] \<and> unat rel + unat n \<le> unat (agBlocks sb) \<and> length bs \<le> 1 \<and>
     be32 agf 52 = snd (first_run sb) - n \<and> unat i \<in> free_inodes (fresh_chunks sb 0) \<and>
     free_inodes rs = free_inodes (fresh_chunks sb 0) - {unat i} \<and> map fst rs = map fst (fresh_chunks sb 0)"

lemma fresh_create:
  assumes sb: "fmt_sb sb n reflink" "length (sbUuid sb) = 16" and o: "in_order d sb agf [first_run sb] [first_run sb] agi (fresh_chunks sb 0)" "be32 agf 52 = snd (first_run sb)"
    and root: "readInode d 0 sb (rootIno sb) = Inr root" "empty_root root"
    and sio: "admits_first sio" and nm: "proper_name name" and data: "data \<noteq> []" "length data \<le> 13804 * 4096"
  obtains d' root' i f rel agf' bs' cs' agi' rs' where "writeFile sio (Suc (Suc fuel)) clk 0 sb (47 # name) data perm (freshAlloc d) = (Inr (), (freshAlloc d)\<lparr>disk := d'\<rparr>)"
    "created 0 sb root name data (ucast (perm AND 0x1FF) OR 0x8000) d' root' (inoFromAGRel sb 0 i) f (agAbsBlock sb 0 rel)"
    "in_order d' sb agf' bs' cs' agi' rs'" "taken sb (blocksFor sb data) rel i agf' bs' rs'" "slot_free_of sb 0 1 2 3 (inoFromAGRel sb 0 i)"
    "inoFromAGRel sb 0 i \<noteq> rootIno sb" "1536 \<le> sint (0 + fsbToPhysBlock sb (agAbsBlock sb 0 rel) * ucast (blockSize sb))" "\<not> inodeIsReflinked (stampInode sb f)"
proof -
  let ?s = "freshAlloc d" and ?rs = "fresh_chunks sb 0" and ?n = "blocksFor sb data" and ?mode = "ucast (perm AND 0x1FF) OR 0x8000 :: u16"
  note fr = fmt_root [OF sb(1)] and nr = new_root [OF sb root]
  have f: "agCount sb = n" "agBlocks sb = 16384" "blockSize sb = 4096" "sectSize sb = 512" "inodeSize sb = 512" "0 < unat n"
    using sb(1) fmt_sect [OF sb(1)] by (simp_all add: fmt_sb_def word_less_nat_alt)
  note fit = fresh_room [OF sb(1) data]
  have g: "group_state 0 sb 0 1 2 3 (disk ?s) agf [first_run sb] [first_run sb] agi ?rs (iNum root)" and q: "mergedQ ?s = []"
    using o(1) nr(1) by (simp_all add: in_order_def freshAlloc_def)
  then have grp: "igrp 0 sb 0 3 (disk ?s) agi ?rs" "chunks_ok sb ?rs" "group_ok 0 sb 0 1 2 (disk ?s) agf [first_run sb] [first_run sb]"
    by (simp_all add: group_state_def)
  have ne: "free_inodes ?rs \<noteq> {}" unfolding fresh_free_inodes [OF sb(1)] by simp
  have rels: "3 \<noteq> (1 :: u32)" "3 \<noteq> (2 :: u32)" by simp_all
  have geo: "0 = inoAG sb (iNum root)" "unat (0 :: u32) < unat (agCount sb)" "(unat (0 :: u32) + 1) * 2 ^ inoShift sb \<le> 2 ^ 32"
    using fr(2,3) nr(1) f(1,6) by simp_all
  have loc: "iFormat root = inodeFmtLocal" "isDir root" "name \<noteq> []" using root(2) nm by (simp_all add: empty_root_def proper_name_def)
  have room: "\<exists>r\<in>set [first_run sb]. ?n \<le> snd r" using fit(1) by simp
  obtain d' root' i nf b where c: "createFile sio (Suc (Suc fuel)) clk 0 sb root name data perm ?s = (Inr (), ?s\<lparr>disk := d'\<rparr>)"
    "created 0 sb root name data ?mode d' root' (inoFromAGRel sb 0 i) nf b"
    "create_steps sio (Suc (Suc fuel)) clk 0 sb 0 3 ?rs root data ?mode ?s i b nf d'" "ino_in_range sb (inoFromAGRel sb 0 i)" "inoAG sb (inoFromAGRel sb 0 i) = 0"
    "inoAGRel sb (inoFromAGRel sb 0 i) = i" "unat i \<in> free_inodes ?rs" "inoFromAGRel sb 0 i \<noteq> iNum root"
    by (rule create_file [OF grp(1,2) ne grp(3) rels geo sb(2) sio q nr(3) loc(1) nr(4) [OF nm] data(1) fit(3) room])
  have slot: "slot_free_of sb 0 1 2 3 (inoFromAGRel sb 0 i)" by (rule fresh_slot [OF sb(1) c(4,5)]) (simp add: c(6,7))
  have slots: "inodes_fit sb 0" "slot_free_of sb 0 1 2 3 (inoFromAGRel sb 0 i)" "slot_free_of sb 0 1 2 3 (iNum root)"
    using fr(5) slot root_slot [OF sb(1)] nr(1) by simp_all
  have "good_run 0 sb (inoFromAGRel sb 0 i) b ?n (length data)" using c(2) by (simp add: created_def)
  moreover have "\<forall>x\<in>free_set [first_run sb]. 3 * unat (sectSize sb) \<le> x * unat (blockSize sb)"
    "{unat (1 :: u32), unat (2 :: u32), unat (3 :: u32), ino_block sb (iNum root)} \<inter> free_set [first_run sb] = {}"
    using nr(3) unfolding dir_in_use_def first_run_facts(1) [OF sb(1)] by (auto simp: f split: if_splits)
  moreover have "first_run sb \<in> set [first_run sb]" by simp
  ultimately obtain rel agf' bs' cs' agi' rs' where s: "b = agAbsBlock sb 0 rel" "group_state 0 sb 0 1 2 3 d' agf' bs' cs' agi' rs' (iNum root)"
    "free_set bs' = free_set [first_run sb] - {unat rel..<unat rel + unat ?n}" "{unat rel..<unat rel + unat ?n} \<subseteq> free_set [first_run sb]"
    "unat rel + unat ?n \<le> unat (agBlocks sb)" "length bs' \<le> length [first_run sb]" "be32 agf' 52 = be32 agf 52 - ?n"
    "free_inodes rs' = free_inodes ?rs - {unat i}" "map fst rs' = map fst ?rs" "kept_outside 0 sb 0 (disk ?s) d'"
    "int (group_base 0 sb 0 + 3 * unat (sectSize sb)) \<le> sint (0 + fsbToPhysBlock sb b * ucast (blockSize sb))"
    using create_state [OF c(3) g sio q _ fit(1) _ fit(2) _ _ slots] by metis
  have "in_order d' sb agf' bs' cs' agi' rs'"
    by (rule in_order_change [OF sb(1) o(1)]) (use s(2,10) nr(1) in \<open>simp_all add: freshAlloc_def\<close>)
  moreover have "taken sb ?n rel i agf' bs' rs'" using s(3-9) c(7) o(2) by (simp add: taken_def)
  moreover have "1536 \<le> sint (0 + fsbToPhysBlock sb (agAbsBlock sb 0 rel) * ucast (blockSize sb))"
    using s(11) fmt_fits(2) [OF sb(1), of 0] f(4) unfolding s(1) by simp
  moreover have "\<not> inodeIsReflinked (stampInode sb nf)"
    using extentsInode_private [of "newInode sb clk (inoFromAGRel sb 0 i) ?mode 1" b ?n data nf sb] newInode_private [OF _ sb(2)] newInode_wf(1) [OF _ sb(2)] c(3) f(5)
    by (auto simp: create_steps_def inode_wf_def)
  moreover have "writeFile sio (Suc (Suc fuel)) clk 0 sb (47 # name) data perm ?s = (Inr (), ?s\<lparr>disk := d'\<rparr>)"
    using proper_split [OF nm] new_root_lists(1) [OF root, of sio] sf_not_found [OF loc(1), of sb name sio d 0] empty_root_lists [OF root(2)] c(1) loc(2,3)
    by (simp add: writeFile_def parentDir_def lookupPath_def bindIO_apply isNotFound_def freshAlloc_def)
  ultimately show ?thesis using that c(2,8) slot nr(1) unfolding s(1) by metis
qed

text \<open>A filesystem whose only file is \<open>name\<close>: what is on the device, and what the file holds of the first group.\<close>

definition only_file :: "superblock \<Rightarrow> inode \<Rightarrow> bytes \<Rightarrow> bytes \<Rightarrow> u16 \<Rightarrow> dev \<Rightarrow> inode \<Rightarrow> u32 \<Rightarrow> inode \<Rightarrow> u32 \<Rightarrow> bytes \<Rightarrow> arec list \<Rightarrow> irec list \<Rightarrow> bool" where
  "only_file sb root name data mode d root' i f rel agf bs rs \<longleftrightarrow>
     created 0 sb root name data mode d root' (inoFromAGRel sb 0 i) f (agAbsBlock sb 0 rel) \<and> taken sb (blocksFor sb data) rel i agf bs rs \<and>
     slot_free_of sb 0 1 2 3 (inoFromAGRel sb 0 i) \<and> inoFromAGRel sb 0 i \<noteq> rootIno sb \<and> \<not> inodeIsReflinked (stampInode sb f)"

lemma write_new:
  assumes sb: "fmt_sb sb n reflink" "length (sbUuid sb) = 16" "quotaFlags sb = 0"
    and o: "in_order d sb agf [first_run sb] [first_run sb] agi (fresh_chunks sb 0)" "be32 agf 52 = snd (first_run sb)"
    and root: "readInode d 0 sb (rootIno sb) = Inr root" "empty_root root"
    and sio: "admits_first sio" and nm: "proper_name name" and data: "data \<noteq> []" "length data \<le> 13804 * 4096"
  obtains d' root' i f rel agf' bs' cs' agi' rs' where
    "WriteFile sio (Suc (Suc fuel)) clk (47 # name) data perm \<lparr>partOffset = 0, fsSb = sb, fsAlloc = freshAlloc d\<rparr> =
       (Inr (), \<lparr>partOffset = 0, fsSb = sb, fsAlloc = freshAlloc d'\<rparr>)"
    "only_file sb root name data (ucast (perm AND 0x1FF) OR 0x8000) d' root' i f rel agf' bs' rs'" "in_order d' sb agf' bs' cs' agi' rs'"
proof -
  let ?mode = "ucast (perm AND 0x1FF) OR 0x8000 :: u16"
  obtain d1 root' i f rel agf' bs' cs' agi' rs' where c: "writeFile sio (Suc (Suc fuel)) clk 0 sb (47 # name) data perm (freshAlloc d) = (Inr (), (freshAlloc d)\<lparr>disk := d1\<rparr>)"
    "created 0 sb root name data ?mode d1 root' (inoFromAGRel sb 0 i) f (agAbsBlock sb 0 rel)"
    "in_order d1 sb agf' bs' cs' agi' rs'" "taken sb (blocksFor sb data) rel i agf' bs' rs'" "slot_free_of sb 0 1 2 3 (inoFromAGRel sb 0 i)"
    "inoFromAGRel sb 0 i \<noteq> rootIno sb" "1536 \<le> sint (0 + fsbToPhysBlock sb (agAbsBlock sb 0 rel) * ucast (blockSize sb))" "\<not> inodeIsReflinked (stampInode sb f)"
    by (rule fresh_create [OF sb(1,2) o root sio nm data])
  have h: "homed sb 0 (rootIno sb)" "homed sb 0 (inoFromAGRel sb 0 i)" using root_slot [OF sb(1)] c(5) by (simp_all add: slot_free_of_def)
  obtain d2 where s: "syncSuperblockCounts 0 sb d1 = (Inr (), d2)" "in_order d2 sb agf' bs' cs' agi' rs'"
    "\<forall>off m xs. 512 \<le> sint off \<longrightarrow> ReadAt d1 off m = Inr xs \<longrightarrow> ReadAt d2 off m = Inr xs"
    by (rule in_order_sync [OF sb(1) c(3) h(1)])
  have slot: "512 \<le> sint (inodeByteOff sb 0 ino)" if "homed sb 0 ino" for ino
    using slot_in_block(1) [OF fmt_root(5) [OF sb(1)] that] inodeByteOff_sint [OF fmt_root(5) [OF sb(1)], of ino] that fmt_sect [OF sb(1)] by (simp add: homed_def)
  have "created 0 sb root name data ?mode d2 root' (inoFromAGRel sb 0 i) f (agAbsBlock sb 0 rel)"
    by (rule created_frame [where lo = 512, OF c(2) s(3) [rule_format]]) (use slot h c(7) readInode_num [OF root(1)] in simp_all)
  then have "only_file sb root name data ?mode d2 root' i f rel agf' bs' rs'" using c(4-6,8) by (simp add: only_file_def)
  moreover have "WriteFile sio (Suc (Suc fuel)) clk (47 # name) data perm \<lparr>partOffset = 0, fsSb = sb, fsAlloc = freshAlloc d\<rparr> =
      (Inr (), \<lparr>partOffset = 0, fsSb = sb, fsAlloc = freshAlloc d2\<rparr>)"
    using afterMutation_sync [of "\<lambda>off sb. writeFile sio (Suc (Suc fuel)) clk off sb (47 # name) data perm" sb "freshAlloc d" "(freshAlloc d)\<lparr>disk := d1\<rparr>" d2] c(1) s(1) sb(3)
    by (simp add: WriteFile_def freshAlloc_def)
  ultimately show ?thesis using that s(2) by blast
qed

lemma only_file_reads:
  assumes sb: "fmt_sb sb n reflink" "maxRead sb = 0" and root: "iNum root = rootIno sb" "empty_root root"
    and c: "only_file sb root name data (ucast (perm AND (0x1FF :: u32)) OR 0x8000) d root' i f rel agf bs rs" "proper_name name" "length data \<le> 13804 * 4096"
    and sio: "makes_bytes sio"
  defines "fs \<equiv> \<lparr>partOffset = 0, fsSb = sb, fsAlloc = freshAlloc d\<rparr>"
  shows "ReadFile sio fs (47 # name) = Inr data" "Stat sio fs (47 # name) = Inr (ucast (perm AND 0x1FF) OR 0x8000, of_nat (length data), inoFromAGRel sb 0 i)"
    "ListDir sio fs [47] = Inr [\<lparr>deInode = inoFromAGRel sb 0 i, deName = name, deType = 1\<rparr>]"
    "pathLookup sio d 0 sb [47] = Inr root'" "iNum root' = rootIno sb" "isRegular (stampInode sb f)"
proof -
  have lim: "within_limits sb (length data)" by (rule fmt_limits [OF sb]) (use c(3) in simp)
  have e: "sfReadDir (dataFork root) (hasFType sb) = []" "isDir root" using empty_root_lists [OF root(2)] root(2) by (simp_all add: empty_root_def)
  have cr: "created 0 sb root name data (ucast (perm AND 0x1FF) OR 0x8000) d root' (inoFromAGRel sb 0 i) f (agAbsBlock sb 0 rel)" using c(1) by (simp add: only_file_def)
  note p = created_at_path [OF cr root(1) e(2) c(2) sio lim e(1)]
  have "hasFType sb" using sb(1) by (simp add: fmt_sb_def)
  then show "ReadFile sio fs (47 # name) = Inr data" "Stat sio fs (47 # name) = Inr (ucast (perm AND 0x1FF) OR 0x8000, of_nat (length data), inoFromAGRel sb 0 i)"
    "ListDir sio fs [47] = Inr [\<lparr>deInode = inoFromAGRel sb 0 i, deName = name, deType = 1\<rparr>]"
    using p by (simp_all add: fs_def ReadFile_def Stat_def ListDir_def returned_def freshAlloc_def)
  show "pathLookup sio d 0 sb [47] = Inr root'" "isRegular (stampInode sb f)" by (rule p(2), rule p(4))
  show "iNum root' = rootIno sb" using cr root(1) readInode_num by (auto simp: created_def)
qed

lemma fmt_leaf_slots: "fmt_sb sb n reflink \<Longrightarrow> leaf_slots sb = 505"
  by (simp add: fmt_sb_def leaf_slots_def allocMaxLeaf_def agBTreeHdrSize_def btreeHdrSize_def allocRecSize_def)

lemma taken_cover:
  assumes "fmt_sb sb n reflink" and "taken sb m rel i agf bs rs"
  shows "\<exists>r\<in>set rs. unat (fst r) \<le> unat i \<and> unat i < unat (fst r) + 64"
proof -
  have "unat (ucast (rootIno sb) :: u32) = unat (rootIno sb)"
    using fmt_root(1) [OF assms(1)] by (simp add: unsigned_ucast_eq take_bit_nat_eq_self)
  moreover have "map fst rs = [ucast (rootIno sb)]" and i: "unat i \<in> free_inodes (fresh_chunks sb 0)" using assms(2) by (simp_all add: taken_def fresh_chunks_def)
  then obtain r where "rs = [r]" "fst r = ucast (rootIno sb)" by (auto simp: map_eq_Cons_conv)
  moreover have "unat (rootIno sb) \<le> unat i" "unat i < unat (rootIno sb) + 64"
    using i unfolding fresh_free_inodes [OF assms(1)] fmt_root(1) [OF assms(1)] by (simp_all split: if_splits)
  ultimately show ?thesis by simp
qed

text \<open>Deleting the only file gives back all it had taken.\<close>

lemma delete_only_file:
  assumes sb: "fmt_sb sb n reflink" "maxRead sb = 0" "quotaFlags sb = 0" and root: "iNum root = rootIno sb" "empty_root root"
    and c: "only_file sb root name data (ucast (perm AND (0x1FF :: u32)) OR 0x8000) d root' i f rel agf bs rs" "in_order d sb agf bs cs agi rs"
    and nm: "proper_name name" "data \<noteq> []" "length data \<le> 13804 * 4096" and sio: "admits_first sio" "makes_bytes sio"
  obtains fs' agf' bs' cs' agi' rs' where
    "DeleteFile sio (Suc (Suc (Suc fuel))) (47 # name) \<lparr>partOffset = 0, fsSb = sb, fsAlloc = freshAlloc d\<rparr> = (Inr (), fs')"
    "in_order (fsDev fs') sb agf' bs' cs' agi' rs'" "fsSb fs' = sb" "partOffset fs' = 0"
    "free_set bs' = free_set [first_run sb]" "free_inodes rs' = free_inodes (fresh_chunks sb 0)" "be32 agf' 52 = snd (first_run sb)"
    "ListDir sio fs' [47] = Inr []" "ReadFile sio fs' (47 # name) = Inl ErrNotExist"
proof -
  let ?s = "freshAlloc d" and ?ino = "inoFromAGRel sb 0 i" and ?n = "blocksFor sb data"
  note p = only_file_reads [OF sb(1,2) root c(1) nm(1,3) sio(2)]
  have cr: "created 0 sb root name data (ucast (perm AND 0x1FF) OR 0x8000) d root' ?ino f (agAbsBlock sb 0 rel)"
    and tk: "taken sb ?n rel i agf bs rs" and sl: "slot_free_of sb 0 1 2 3 ?ino" "?ino \<noteq> iNum root'" and pr: "\<not> inodeIsReflinked (stampInode sb f)"
    using c(1) p(5) by (simp_all add: only_file_def)
  have ls: "sfReadDir (dataFork root') (hasFType sb) = [\<lparr>deInode = ?ino, deName = name, deType = (if hasFType sb then 1 else 0)\<rparr>]"
    and loc: "iFormat root' = inodeFmtLocal" "sf_wf (dataFork root') (hasFType sb)" "isDir root'"
    using cr root(2) empty_root_lists [OF root(2)] by (simp_all add: created_def isDir_def empty_root_def)
  have e: "sf_entry sb root' name ?ino" using ls loc by (simp add: sf_entry_def sfLookup_find)
  have g: "group_state 0 sb 0 1 2 3 (disk ?s) agf bs cs agi rs (iNum root')" "quiet ?s" "length bs + 3 \<le> leaf_slots sb"
    using c(2) p(5) tk fmt_leaf_slots [OF sb(1)] by (simp_all add: in_order_def freshAlloc_def quiet_def taken_def)
  have geo: "inodes_fit sb 0" "inoShift sb \<le> 32" "176 \<le> unat (inodeSize sb)" using fmt_root(2,5) [OF sb(1)] sb(1) by (simp_all add: fmt_sb_def)
  have rf: "readInode (disk ?s) 0 sb ?ino = Inr (stampInode sb f)" "pathLookup sio (disk ?s) 0 sb [47] = Inr root'" "slot_free_of sb 0 1 2 3 (iNum root')"
    using cr p(4,5) root_slot [OF sb(1)] by (simp_all add: created_def freshAlloc_def)
  have "inlineExtents (stampInode sb f) = inlineExtents f" by (simp add: inlineExtents_def)
  then have pl: "plain_file sb 0 (stampInode sb f) rel ?n"
    using cr p(6) pr tk fresh_room(2) [OF sb(1) nm(2,3)] by (simp add: plain_file_def created_def taken_def)
  have used: "{unat rel..<unat rel + unat ?n} \<inter> free_set bs = {}" "unat i \<notin> free_inodes rs" "\<exists>r\<in>set rs. unat (fst r) \<le> unat i \<and> unat i < unat (fst r) + 64"
    using tk taken_cover [OF sb(1) tk] by (auto simp: taken_def)
  obtain s' agf' bs' cs' agi' rs' where r: "deleteFile sio (Suc (Suc (Suc fuel))) 0 sb (47 # name) ?s = (Inr (), s')" "entry_removed sio 0 sb root' name (disk s')"
    "group_state 0 sb 0 1 2 3 (disk s') agf' bs' cs' agi' rs' (iNum root')"
    "free_set bs' = free_set bs \<union> {unat rel..<unat rel + unat ?n}" "be32 agf' 52 = be32 agf 52 + ?n"
    "free_inodes rs' = insert (unat i) (free_inodes rs)" "quiet s'" "kept_outside 0 sb 0 (disk ?s) (disk s')"
    by (rule delete_file [OF g(1,3) geo sio(1) g(2) proper_split [OF nm(1)] rf(2) e rf(3,1) pl sl used])
  have o1: "in_order (disk s') sb agf' bs' cs' agi' rs'"
    by (rule in_order_change [OF sb(1) c(2)]) (use r(3,8) p(5) in \<open>simp_all add: freshAlloc_def\<close>)
  have h: "homed sb 0 (rootIno sb)" using root_slot [OF sb(1)] by (simp add: slot_free_of_def)
  obtain d2 where s: "syncSuperblockCounts 0 sb (disk s') = (Inr (), d2)" "in_order d2 sb agf' bs' cs' agi' rs'"
    "\<forall>off m xs. 512 \<le> sint off \<longrightarrow> ReadAt (disk s') off m = Inr xs \<longrightarrow> ReadAt d2 off m = Inr xs"
    by (rule in_order_sync [OF sb(1) o1 h])
  obtain dir1 where d1: "readInode (disk s') 0 sb (rootIno sb) = Inr dir1" "iFormat dir1 = inodeFmtLocal" "isDir dir1" "sfReadDir (dataFork dir1) (hasFType sb) = []"
    using r(2) ls loc(3) p(5) by (auto simp: entry_removed_def readDir_def isDir_def Cons_eq_append_conv)
  have "512 \<le> sint (inodeByteOff sb 0 (rootIno sb))"
    using slot_in_block(1) [OF geo(1) h] inodeByteOff_sint [OF geo(1), of "rootIno sb"] h fmt_sect [OF sb(1)] by (simp add: homed_def)
  then have r2: "readInode d2 0 sb (rootIno sb) = Inr dir1" using d1(1) s(3) by (auto simp: readInode_def readBytes_def bindR_eq_Inr)
  let ?fs = "\<lparr>partOffset = 0, fsSb = sb, fsAlloc = s'\<lparr>disk := d2\<rparr>\<rparr>"
  have "name \<noteq> []" using nm(1) by (simp add: proper_name_def)
  moreover have "lookupInDir sio d2 0 sb dir1 name = Inl ErrNotFound" by (rule sf_not_found [OF d1(2)]) (simp add: d1(4))
  ultimately have "ReadFile sio ?fs (47 # name) = Inl ErrNotExist"
    using r2 d1(3) proper_components [OF nm(1)] by (simp add: ReadFile_def pathLookup_walk notExistIfMissing_def)
  moreover have "ListDir sio ?fs [47] = Inr []" using r2 d1 by (simp add: ListDir_def pathLookup_walk del_path(2) readDir_def)
  moreover have "DeleteFile sio (Suc (Suc (Suc fuel))) (47 # name) \<lparr>partOffset = 0, fsSb = sb, fsAlloc = freshAlloc d\<rparr> = (Inr (), ?fs)"
    unfolding DeleteFile_def by (rule afterMutation_sync) (use r(1) s(1) sb(3) in simp_all)
  moreover have "free_set bs' = free_set [first_run sb]" "free_inodes rs' = free_inodes (fresh_chunks sb 0)" "be32 agf' 52 = snd (first_run sb)"
    using r(4-6) tk by (auto simp: taken_def)
  ultimately show ?thesis using that [of ?fs agf' bs' cs' agi' rs'] s(2) by simp
qed

section \<open>From formatting to reading back\<close>

text \<open>
  What opening relies on from the partition parser: a device without a boot signature in its first
  sector and without a table header in its second has no partition table.
\<close>

definition finds_no_table :: "gpt \<Rightarrow> bool" where
  "finds_no_table G \<longleftrightarrow> (\<forall>d n b. ReadAt d 0 1024 = Inr b \<longrightarrow> window 510 2 b \<noteq> [0x55, 0xAA] \<longrightarrow>
     window 512 8 b \<noteq> [0x45, 0x46, 0x49, 0x20, 0x50, 0x41, 0x52, 0x54] \<longrightarrow> gptByType G d n = Inl GptNoTable)"

lemma image_no_signature: "length uuid = 16 \<Longrightarrow> length label \<le> 12 \<Longrightarrow> byte_at (buildSuperblockBuffer sb n uuid label) 510 = 0"
  by (simp add: buildSuperblockBuffer_def image_simps put_defs)

lemma no_table_in_image:
  assumes G: "finds_no_table G" and sb: "readBytes d 0 512 = Inr buf" "byte_at buf 510 = 0" and agf: "ReadAt d 512 512 = Inr agf" "be32 agf 0 = magicAGF"
  shows "gptByType G d n = Inl GptNoTable"
proof -
  have len: "length buf = 512" "length agf = 512" using readBytes_length [OF sb(1)] file_store.rd_length [OF agf(1)] by simp_all
  have "ReadAt d 0 (512 + 512) = Inr (buf @ agf)"
    by (rule file_store.rd_append [OF sb(1) [unfolded readBytes_def] agf(1)]) simp
  moreover have "window 510 2 (buf @ agf) \<noteq> [0x55, 0xAA]"
  proof
    assume "window 510 2 (buf @ agf) = [0x55, 0xAA]"
    then have "hd (window 510 2 (buf @ agf)) = 0x55" by simp
    then show False using sb(2) len by (simp add: window_def byte_at_def hd_drop_conv_nth)
  qed
  moreover have "window 512 8 (buf @ agf) \<noteq> [0x45, 0x46, 0x49, 0x20, 0x50, 0x41, 0x52, 0x54]"
  proof
    assume "window 512 8 (buf @ agf) = [0x45, 0x46, 0x49, 0x20, 0x50, 0x41, 0x52, 0x54]"
    then have "take 4 (take 8 agf) = [0x45, 0x46, 0x49, 0x20]" using len by (simp add: window_def)
    then have "window 0 4 agf = [0x45, 0x46, 0x49, 0x20]" by (simp add: window_def)
    moreover have "(be_word [0x45, 0x46, 0x49, 0x20] :: u32) \<noteq> magicAGF" by code_simp
    ultimately show False using agf(2) by (simp add: be32_def)
  qed
  ultimately show ?thesis using G unfolding finds_no_table_def by simp
qed

lemma format_opens:
  assumes "sint sizeBytes mod 4096 = 0" and "67108864 \<le> sint sizeBytes" and "sint sizeBytes < 2 ^ 58"
    and "(if cfgUUID cfg = replicate 16 0 then rnd else Inr (cfgUUID cfg)) = Inr uuid" and "length uuid = 16"
    and G: "finds_no_table G" and q: "isZero quota"
  defines "n \<equiv> of_int (sint sizeBytes div 67108864) :: u32" and "label \<equiv> take 12 (cfgLabel cfg)"
  defines "sb \<equiv> formatted_sb n (cfgReflink cfg) uuid label"
  obtains d' root where "Format G sio fuel rnd now clk sizeBytes cfg quota d = (Inr \<lparr>partOffset = 0, fsSb = sb, fsAlloc = freshAlloc d'\<rparr>, d')"
    "fmt_sb sb n (cfgReflink cfg)" "readSuperblock d' 0 = Inr sb" "\<forall>ag < n. fresh_group d' sb ag" "readInode d' 0 sb (rootIno sb) = Inr root" "empty_root root"
    "67108864 \<le> dsize d'"
proof -
  obtain d' root where d': "formatImage rnd now sizeBytes cfg d = (Inr (), d')" "int (dsize d') = sint sizeBytes" "int (unat n) * 67108864 \<le> sint sizeBytes"
    and sb: "fmt_sb sb n (cfgReflink cfg)" "readSuperblock d' 0 = Inr sb" and g: "\<forall>ag < n. fresh_group d' sb ag"
    and root: "readInode d' 0 sb (rootIno sb) = Inr root" "empty_root root"
    and buf: "readBytes d' 0 512 = Inr (buildSuperblockBuffer (formatSb n (cfgReflink cfg) uuid label) n uuid label)"
    unfolding sb_def n_def label_def by (rule format_image [OF assms(1-5)])
  have f: "agCount sb = n" "agBlocks sb = 16384" "blockSize sb = 4096" "sectSize sb = 512" "0 < n" "0 < unat n"
    using sb(1) fmt_sect [OF sb(1)] by (simp_all add: fmt_sb_def word_less_nat_alt)
  obtain agf where "agfBlock d' 0 sb 0 = Inr agf" using g f(5) by (auto simp: fresh_group_def Let_def group_ok_def grp_def)
  moreover have "agFByteOffset sb 0 0 = 512" using f(4) by (simp add: agFByteOffset_def agByteOffset_def)
  ultimately have agf: "ReadAt d' 512 512 = Inr agf" "be32 agf 0 = magicAGF" using f(4) by (simp_all add: agfBlock_def readHeader_Inr readBytes_def)
  have lab: "length label \<le> 12" by (simp add: label_def)
  have "gptByType G d' m = Inl GptNoTable" for m
    by (rule no_table_in_image [OF G buf image_no_signature [OF assms(5) lab] agf])
  then have off: "partitionOffset G d' m (- 1) = Inr 0" for m by (simp add: partitionOffset_def)
  have "(of_nat (dsize d') :: int64) = of_int (sint sizeBytes)" unfolding d'(2) [symmetric] by simp
  then have sz: "(of_nat (dsize d') :: int64) = sizeBytes" by simp
  have "int (dsize d') < 2 ^ 58" using d'(2) assms(3) by simp
  then have u: "unat sizeBytes = dsize d'" unfolding sz [symmetric] by (intro unat_of_nat_small) simp
  have fits: "checkGeometryFitsDevice sb sizeBytes = Inr ()"
  proof -
    have "unat (n - 1) = unat n - 1" using f(6) by (simp add: unat_sub word_le_nat_alt)
    then have l: "unat (ucast (n - 1) * 16384 :: u64) = (unat n - 1) * 16384" using unat_lt(3) [of n] by (simp add: unat_word_ariths unat_ucast_up)
    have "int (unat n * 67108864) \<le> int (dsize d')" using d'(2,3) by simp
    then have "unat n * 67108864 \<le> unat sizeBytes" unfolding of_nat_le_iff u .
    then have "(unat n - 1) * 16384 \<le> unat sizeBytes div 4096" by simp
    then show ?thesis using l f by (simp add: checkGeometryFitsDevice_def word_less_nat_alt unat_div)
  qed
  have "OpenFromDevice G d' (- 1) = Inr \<lparr>partOffset = 0, fsSb = sb, fsAlloc = freshAlloc d'\<rparr>"
    using off sb(2) fits by (simp add: OpenFromDevice_def sz)
  then have "Format G sio fuel rnd now clk sizeBytes cfg quota d = (Inr \<lparr>partOffset = 0, fsSb = sb, fsAlloc = freshAlloc d'\<rparr>, d')"
    using d'(1) q by (simp add: Format_def bindIO_apply retIO_def)
  moreover have "67108864 \<le> dsize d'" using d'(2) assms(2) by linarith
  ultimately show ?thesis using that sb g root by blast
qed

text \<open>A new filesystem with one file written to it.\<close>

lemma format_write:
  assumes size: "sint sizeBytes mod 4096 = 0" "67108864 \<le> sint sizeBytes" "sint sizeBytes < 2 ^ 58"
    and uuid: "(if cfgUUID cfg = replicate 16 0 then rnd else Inr (cfgUUID cfg)) = Inr uuid" "length uuid = 16"
    and ext: "finds_no_table G" "admits_first sio" and quota: "isZero quota"
    and new: "proper_name name" "data \<noteq> []" "length data \<le> 13804 * 4096"
  obtains sb n d1 root agf1 agi1 d2 root' i f rel agf bs cs agi rs where
    "Format G sio fuel rnd now clk sizeBytes cfg quota d = (Inr \<lparr>partOffset = 0, fsSb = sb, fsAlloc = freshAlloc d1\<rparr>, d1)"
    "fmt_sb sb n (cfgReflink cfg)" "maxRead sb = 0" "quotaFlags sb = 0" "readInode d1 0 sb (rootIno sb) = Inr root" "empty_root root" "iNum root = rootIno sb"
    "in_order d1 sb agf1 [first_run sb] [first_run sb] agi1 (fresh_chunks sb 0)" "be32 agf1 52 = snd (first_run sb)"
    "WriteFile sio (Suc (Suc fuel')) clk' (47 # name) data perm \<lparr>partOffset = 0, fsSb = sb, fsAlloc = freshAlloc d1\<rparr> =
       (Inr (), \<lparr>partOffset = 0, fsSb = sb, fsAlloc = freshAlloc d2\<rparr>)"
    "only_file sb root name data (ucast (perm AND 0x1FF) OR 0x8000) d2 root' i f rel agf bs rs" "in_order d2 sb agf bs cs agi rs"
proof -
  let ?n = "of_int (sint sizeBytes div 67108864) :: u32"
  let ?sb = "formatted_sb ?n (cfgReflink cfg) uuid (take 12 (cfgLabel cfg))"
  obtain d1 root where o: "Format G sio fuel rnd now clk sizeBytes cfg quota d = (Inr \<lparr>partOffset = 0, fsSb = ?sb, fsAlloc = freshAlloc d1\<rparr>, d1)"
    "fmt_sb ?sb ?n (cfgReflink cfg)" "readSuperblock d1 0 = Inr ?sb" "\<forall>ag < ?n. fresh_group d1 ?sb ag"
    "readInode d1 0 ?sb (rootIno ?sb) = Inr root" "empty_root root" "67108864 \<le> dsize d1"
    by (rule format_opens [OF size uuid ext(1) quota])
  have f: "length (sbUuid ?sb) = 16" "quotaFlags ?sb = 0" "maxRead ?sb = 0" using uuid(2) by (simp_all add: formatted_sb_def formatSb_def)
  obtain agf1 agi1 where i: "in_order d1 ?sb agf1 [first_run ?sb] [first_run ?sb] agi1 (fresh_chunks ?sb 0)" "be32 agf1 52 = snd (first_run ?sb)"
    by (rule fresh_in_order [OF o(2-4,7)])
  show ?thesis
    by (rule write_new [OF o(2) f(1,2) i o(5,6) ext(2) new]) (rule that [OF o(1,2) f(3,2) o(5,6) readInode_num [OF o(5)] i])
qed

end
