(* ===== verification/Spec2Isabelle.thy ===== *)
theory Spec2Isabelle
  imports Session
begin

text \<open>
  This library verifies a user-space implementation of the XFS filesystem in Go (package
  \<^verbatim>\<open>filesystem_xfs\<close>, the files directly under \<^verbatim>\<open>src/\<close>). The program opens an image, reads and
  writes files and directories in it, and formats new images; it works directly on the on-disk
  format, without a cache and without a journal.

  \<^bold>\<open>How the program is put together.\<close> A handle (fs.go) holds the backing device, the offset of the
  partition and the parsed superblock. Every operation is a function of these and of a path. Path
  lookup (dir.go) walks from the root inode through directories, which are kept in the inode
  (short form), in one block, or in data, leaf and free-index blocks (leafdir.go). File data is
  inline or in extents, listed in the inode or in a B-tree (extent.go, read.go, write.go). Each
  allocation group has a header sector (AGF) with two B-trees of free runs, by block and by size
  (alloc.go, alloc_btree.go, alloc_btree_delete.go), and one (AGI) with a B-tree of inode chunks.
  Files can share extents, counted in a further tree of the group (reflink.go).

  \<^bold>\<open>Theories and what they model\<close>, in the order of their imports:
  \<^item> Prelude: Go's slices, big-endian fields and error values; the locales of record codecs and
    record orders. Device: the file as a sized array of bytes (locale \<open>byte_store\<close>, interpreted on
    \<open>ReadAt\<close> and \<open>WriteAt\<close>), and the state monad of operations that fail half-way and keep what they
    wrote. Crc: crc.go.
  \<^item> Superblock (superblock.go), Extent (extent.go), Blocks (block access of superblock.go and write.go),
    Inode (inode.go), Read (read.go, limits.go, openfile.go). What the code takes from the package
    \<^verbatim>\<open>safeio\<close> (loop guards, bounded buffers) is a parameter; a concrete instance serves the witnesses.
  \<^item> SfDir, BlockDir, Lookup: directories and paths (dir.go, delete.go); DirWrite: leafdir.go.
  \<^item> ShortBTree, AgHeader, FreeTree, FreeDelete, FreeSpace: the free-space trees with splits, borrowing, merging
    and root changes, and \<^verbatim>\<open>allocBlocks\<close> and \<^verbatim>\<open>freeBlocks\<close> with their reserve. The state of these
    operations is the record \<open>alloc\<close>: the device and the package variables of alloc.go.
    LeafGroup and GroupAlloc hold the proofs about groups whose trees have one leaf.
  \<^item> InodeAlloc (alloc.go, the inode tree) with its proofs in InodeGroup.
  \<^item> Refcount (the pure part of reflink.go; locale \<open>share_counter\<close>), Reflink (the tree on disk, cloning).
  \<^item> Content (write.go), FileOps (write.go, mkdir.go, link.go, truncate.go, setattr.go,
    reflink.go), Frame (which writes leave which structures alone), Remove (delete.go, rename.go).
  \<^item> Format (format.go: the layout of a group, the images of all metadata, the making of an image), Quota
    (quota.go, quota_setup.go, quotacheck.go), Fs (fs.go, label.go, partition.go, extended_stat.go: the
    handle with all methods of the public interface, growing and the label). The partition parser of
    the package \<^verbatim>\<open>gpt\<close> is a parameter. Session composes them: a filesystem \<open>in_order\<close>, which changes
    of a group and the bookkeeping keep so, what a creation takes, and the opening of a formatted image.

  \<^bold>\<open>What is proved.\<close>
  \<^item> Data formats: encoding and decoding agree for extent records, inodes, directory blocks and
    checksums; block offsets and group lengths are exact; a validated geometry is sound.
  \<^item> Allocation: the operations on a group refine sets. A free set loses exactly the run handed out and
    regains exactly the run given back, in both trees and in the counters, and no history of
    operations loses a block or hands it out twice. The same for inodes in their chunks and for the owners of
    shared blocks, where a block is freed when its last owner goes and not before.
  \<^item> Files: content that is inline or in extents without holes that the inode lists can be overwritten, and reads back; a created file is found and readable, a
    deleted one gives back its blocks and its inode and leaves the directory without its entry; a
    renamed one is found under its new name only. A directory rebuilt in one block lists its entries and finds them; of
    directories that need several blocks (leaf and node form) the writing is modelled, without a theorem that they are read back.
  \<^item> Paths: the recursive lookup finds exactly the inodes at which a machine that rewrites the path ends
    (relation \<open>namei\<close>); its errors are classified by where that machine stops; cycles of links are refused.
  \<^item> Reads end, stay within their limits (inline files, which ignore the configured one, within the inode) and return the
    mapped blocks, unwritten ones included.
  \<^item> Formatting succeeds for every admissible size and gives an image whose groups are ready for the
    allocators, so that the theorems on allocation and files apply to it; growing adds further such groups and keeps the old
    ones; a label is stored in all copies of the superblock.
  \<^item> Composition (this theory): on a filesystem that \<^verbatim>\<open>Format\<close> has made, a file written through the
    handle is read back, with its attributes and its entry in the root directory, and deleting it again
    restores the free blocks, the free inodes and the counters.
  \<^item> Quotas: the scan charges each inode in use, but for the quota inodes, to its user and its group once (to its project where
    the bytes the code reads agree with the format), and the records on disk hold these sums.

  \<^bold>\<open>Bounds and fuel.\<close> Words keep their width, so every overflow of the code is in the model. Loops over
  B-tree levels and siblings, which the code does not bound, take fuel; the statements about them
  hold for every positive amount, since a tree of one leaf is walked in one step. Symbolic links
  are bounded by the code's own depth. Walks under a loop guard are total: the guard refuses a block that was
  seen before. Deleting a directory recurses on a depth, which stands for Go's call stack.

  \<^bold>\<open>Scope of the statements about groups.\<close> The operations are modelled for trees of any height; the
  refinement theorems are proved for groups in which each tree is a single leaf (up to 505 runs or 252 chunks in a
  4 KiB block), where no split or merge takes place.

  \<^bold>\<open>Not modelled.\<close> The text of error messages (an error is a value of \<open>error\<close>, wrapping included where it
  matters for \<^verbatim>\<open>errors.Is\<close>), hardware faults and full disks, opening, closing and syncing
  host files, the locking of the handle, and two functions of alloc.go that only tests call
  (\<^verbatim>\<open>btreeDeleteRecord\<close>, \<^verbatim>\<open>allocBTreeInsert\<close>).
\<close>

text \<open>
  C1. The life of a file from formatting on, through the methods of the handle. For every admissible size and
  configuration without quotas, \<^verbatim>\<open>Format\<close> succeeds, and the root directory of the handle it returns lists
  nothing. Writing a non-empty file of up to 13804 blocks under a proper name in the root then succeeds,
  with all bookkeeping; reading the path gives exactly the data; \<^verbatim>\<open>Stat\<close> gives the permissions
  asked for on a regular file and its size; the root lists exactly this file; and the superblock on the
  device still is the one of the handle, so that opening it again reads the same. The partition parser is assumed to find
  no table where there is no signature of one, and the \<^verbatim>\<open>safeio\<close> package to make buffers and to admit first steps.
\<close>

theorem format_write_read:
  assumes size: "sint sizeBytes mod 4096 = 0" "67108864 \<le> sint sizeBytes" "sint sizeBytes < 2 ^ 58"
    and uuid: "(if cfgUUID cfg = replicate 16 0 then rnd else Inr (cfgUUID cfg)) = Inr uuid" "length uuid = 16"
    and ext: "finds_no_table G" "admits_first sio" "makes_bytes sio" and quota: "isZero quota"
    and new: "proper_name name" "data \<noteq> []" "length data \<le> 13804 * 4096"
  shows "\<exists>fs d' fs' ino. Format G sio fuel rnd now clk sizeBytes cfg quota d = (Inr fs, d') \<and> ListDir sio fs [47] = Inr [] \<and>
    WriteFile sio (Suc (Suc fuel')) clk' (47 # name) data perm fs = (Inr (), fs') \<and>
    ReadFile sio fs' (47 # name) = Inr data \<and>
    Stat sio fs' (47 # name) = Inr (ucast (perm AND 0x1FF) OR 0x8000, of_nat (length data), ino) \<and>
    ListDir sio fs' [47] = Inr [\<lparr>deInode = ino, deName = name, deType = 1\<rparr>] \<and>
    readSuperblock (fsDev fs') 0 = Inr (fsSb fs')"
proof -
  obtain sb n d1 root agf1 agi1 d2 root' i f rel agf bs cs agi rs where
    w: "Format G sio fuel rnd now clk sizeBytes cfg quota d = (Inr \<lparr>partOffset = 0, fsSb = sb, fsAlloc = freshAlloc d1\<rparr>, d1)"
    "fmt_sb sb n (cfgReflink cfg)" "maxRead sb = 0" "quotaFlags sb = 0" "readInode d1 0 sb (rootIno sb) = Inr root" "empty_root root" "iNum root = rootIno sb"
    "in_order d1 sb agf1 [first_run sb] [first_run sb] agi1 (fresh_chunks sb 0)" "be32 agf1 52 = snd (first_run sb)"
    "WriteFile sio (Suc (Suc fuel')) clk' (47 # name) data perm \<lparr>partOffset = 0, fsSb = sb, fsAlloc = freshAlloc d1\<rparr> =
       (Inr (), \<lparr>partOffset = 0, fsSb = sb, fsAlloc = freshAlloc d2\<rparr>)"
    "only_file sb root name data (ucast (perm AND 0x1FF) OR 0x8000) d2 root' i f rel agf bs rs" "in_order d2 sb agf bs cs agi rs"
    by (rule format_write [OF size uuid ext(1,2) quota new])
  have l: "ListDir sio \<lparr>partOffset = 0, fsSb = sb, fsAlloc = freshAlloc d1\<rparr> [47] = Inr []"
    by (simp add: ListDir_def freshAlloc_def new_root_lists [OF w(5,6)])
  have s: "readSuperblock (fsDev \<lparr>partOffset = 0, fsSb = sb, fsAlloc = freshAlloc d2\<rparr>) 0 = Inr (fsSb \<lparr>partOffset = 0, fsSb = sb, fsAlloc = freshAlloc d2\<rparr>)"
    using w(12) by (simp add: in_order_def freshAlloc_def)
  note r = only_file_reads [OF w(2,3,7,6,11) new(1,3) ext(3)]
  show ?thesis by (intro exI conjI, rule w(1), rule l, rule w(10), rule r(1), rule r(2), rule r(3), rule s)
qed

theorem format_write_read_witness:
  "\<exists>fs d' fs' ino. Format \<lparr>gptByIndex = \<lambda>_ _ _. Inl GptNoTable, gptByType = \<lambda>_ _. Inl GptNoTable, gptList = \<lambda>_ _. Inl GptNoTable\<rparr> safeio_ref 3 (Inl ErrIO) (\<lambda>_. (1700000000, 0)) clk0 134217728
      \<lparr>cfgUUID = replicate 16 7, cfgLabel = [120, 102, 115], cfgReflink = True\<rparr> \<lparr>qUser = False, qGroup = False, qProject = False, qEnforce = False\<rparr> \<lparr>dsize = 0, dbytes = (\<lambda>_. 0)\<rparr> = (Inr fs, d') \<and>
    ListDir safeio_ref fs [47] = Inr [] \<and> WriteFile safeio_ref 2 clk0 [47, 97, 46, 116] [1, 2, 3] 0x1A4 fs = (Inr (), fs') \<and>
    ReadFile safeio_ref fs' [47, 97, 46, 116] = Inr [1, 2, 3] \<and> Stat safeio_ref fs' [47, 97, 46, 116] = Inr (0x81A4, 3, ino) \<and>
    ListDir safeio_ref fs' [47] = Inr [\<lparr>deInode = ino, deName = [97, 46, 116], deType = 1\<rparr>]"
proof -
  let ?G = "\<lparr>gptByIndex = \<lambda>_ _ _. Inl GptNoTable, gptByType = \<lambda>_ _. Inl GptNoTable, gptList = \<lambda>_ _. Inl GptNoTable\<rparr>"
  let ?cfg = "\<lparr>cfgUUID = replicate 16 7, cfgLabel = [120, 102, 115], cfgReflink = True\<rparr>"
  have s: "sint (134217728 :: int64) = 134217728" by simp
  have u: "(if cfgUUID ?cfg = replicate 16 0 then Inl ErrIO else Inr (cfgUUID ?cfg)) = Inr (replicate 16 7)" by simp
  have G: "finds_no_table ?G" by (simp add: finds_no_table_def)
  have q: "isZero \<lparr>qUser = False, qGroup = False, qProject = False, qEnforce = False\<rparr>" by (simp add: isZero_def)
  have nm: "proper_name [97, 46, 116]" by (simp add: proper_name_def)
  have m: "ucast ((0x1A4 :: u32) AND 0x1FF) OR 0x8000 = (0x81A4 :: u16)" by simp
  note t = format_write_read [OF _ _ _ u _ G safeio_ref_admits safeio_ref_bytes q nm, of 134217728 "[1, 2, 3]" 3 "\<lambda>_. (1700000000, 0)" clk0 "\<lparr>dsize = 0, dbytes = (\<lambda>_. 0)\<rparr>" 0 clk0 "0x1A4", unfolded m s Suc_numerals]
  show ?thesis using t by simp blast
qed

text \<open>
  C2. Deleting undoes writing. On a filesystem that \<^verbatim>\<open>Format\<close> has made, writing a file in the root and
  deleting it again, both through the handle and with all bookkeeping, succeeds; the root then lists
  nothing and the path no longer exists. The free blocks, the free inodes and the free count of
  the first group are what they were after formatting, in trees and headers that are in order,
  under the same superblock: no block and no inode is lost.
\<close>

theorem write_delete_restores:
  assumes size: "sint sizeBytes mod 4096 = 0" "67108864 \<le> sint sizeBytes" "sint sizeBytes < 2 ^ 58"
    and uuid: "(if cfgUUID cfg = replicate 16 0 then rnd else Inr (cfgUUID cfg)) = Inr uuid" "length uuid = 16"
    and ext: "finds_no_table G" "admits_first sio" "makes_bytes sio" and quota: "isZero quota"
    and new: "proper_name name" "data \<noteq> []" "length data \<le> 13804 * 4096"
  shows "\<exists>fs d' fs1 fs2 agf bs cs agi rs agf' bs' cs' agi' rs'. Format G sio fuel rnd now clk sizeBytes cfg quota d = (Inr fs, d') \<and>
    WriteFile sio (Suc (Suc fuel')) clk' (47 # name) data perm fs = (Inr (), fs1) \<and>
    DeleteFile sio (Suc (Suc (Suc fuel''))) (47 # name) fs1 = (Inr (), fs2) \<and>
    ListDir sio fs2 [47] = Inr [] \<and> ReadFile sio fs2 (47 # name) = Inl ErrNotExist \<and> fsSb fs2 = fsSb fs \<and>
    in_order d' (fsSb fs) agf bs cs agi rs \<and> in_order (fsDev fs2) (fsSb fs) agf' bs' cs' agi' rs' \<and>
    free_set bs' = free_set bs \<and> free_inodes rs' = free_inodes rs \<and> be32 agf' agfOffFreeBlks = be32 agf agfOffFreeBlks"
proof -
  obtain sb n d1 root agf1 agi1 d2 root' i f rel agf bs cs agi rs where
    w: "Format G sio fuel rnd now clk sizeBytes cfg quota d = (Inr \<lparr>partOffset = 0, fsSb = sb, fsAlloc = freshAlloc d1\<rparr>, d1)"
    "fmt_sb sb n (cfgReflink cfg)" "maxRead sb = 0" "quotaFlags sb = 0" "readInode d1 0 sb (rootIno sb) = Inr root" "empty_root root" "iNum root = rootIno sb"
    "in_order d1 sb agf1 [first_run sb] [first_run sb] agi1 (fresh_chunks sb 0)" "be32 agf1 52 = snd (first_run sb)"
    "WriteFile sio (Suc (Suc fuel')) clk' (47 # name) data perm \<lparr>partOffset = 0, fsSb = sb, fsAlloc = freshAlloc d1\<rparr> =
       (Inr (), \<lparr>partOffset = 0, fsSb = sb, fsAlloc = freshAlloc d2\<rparr>)"
    "only_file sb root name data (ucast (perm AND 0x1FF) OR 0x8000) d2 root' i f rel agf bs rs" "in_order d2 sb agf bs cs agi rs"
    by (rule format_write [OF size uuid ext(1,2) quota new])
  obtain fs2 agf' bs' cs' agi' rs' where
    r: "DeleteFile sio (Suc (Suc (Suc fuel''))) (47 # name) \<lparr>partOffset = 0, fsSb = sb, fsAlloc = freshAlloc d2\<rparr> = (Inr (), fs2)"
    "in_order (fsDev fs2) sb agf' bs' cs' agi' rs'" "fsSb fs2 = sb" "partOffset fs2 = 0"
    "free_set bs' = free_set [first_run sb]" "free_inodes rs' = free_inodes (fresh_chunks sb 0)" "be32 agf' 52 = snd (first_run sb)"
    "ListDir sio fs2 [47] = Inr []" "ReadFile sio fs2 (47 # name) = Inl ErrNotExist"
    by (rule delete_only_file [OF w(2-4,7,6,11,12) new ext(2,3)])
  have k: "be32 agf' agfOffFreeBlks = be32 agf1 agfOffFreeBlks" using r(7) w(9) by (simp add: agf_offs)
  have o: "fsSb fs2 = fsSb \<lparr>partOffset = 0, fsSb = sb, fsAlloc = freshAlloc d1\<rparr>"
    "in_order d1 (fsSb \<lparr>partOffset = 0, fsSb = sb, fsAlloc = freshAlloc d1\<rparr>) agf1 [first_run sb] [first_run sb] agi1 (fresh_chunks sb 0)"
    "in_order (fsDev fs2) (fsSb \<lparr>partOffset = 0, fsSb = sb, fsAlloc = freshAlloc d1\<rparr>) agf' bs' cs' agi' rs'" using r(2,3) w(8) by simp_all
  show ?thesis
    by (intro exI conjI, rule w(1), rule w(10), rule r(1), rule r(8), rule r(9), rule o(1), rule o(2), rule o(3), rule r(5), rule r(6), rule k)
qed

theorem write_delete_restores_witness:
  "\<exists>fs d' fs1 fs2 agf bs cs agi rs agf' bs' cs' agi' rs'.
    Format \<lparr>gptByIndex = \<lambda>_ _ _. Inl GptNoTable, gptByType = \<lambda>_ _. Inl GptNoTable, gptList = \<lambda>_ _. Inl GptNoTable\<rparr> safeio_ref 3 (Inl ErrIO) (\<lambda>_. (1700000000, 0)) clk0 67108864
      \<lparr>cfgUUID = replicate 16 7, cfgLabel = [], cfgReflink = False\<rparr> \<lparr>qUser = False, qGroup = False, qProject = False, qEnforce = False\<rparr> \<lparr>dsize = 0, dbytes = (\<lambda>_. 0)\<rparr> = (Inr fs, d') \<and>
    WriteFile safeio_ref 2 clk0 [47, 98] [9] 0x180 fs = (Inr (), fs1) \<and> DeleteFile safeio_ref 3 [47, 98] fs1 = (Inr (), fs2) \<and>
    ListDir safeio_ref fs2 [47] = Inr [] \<and> ReadFile safeio_ref fs2 [47, 98] = Inl ErrNotExist \<and> fsSb fs2 = fsSb fs \<and>
    in_order d' (fsSb fs) agf bs cs agi rs \<and> in_order (fsDev fs2) (fsSb fs) agf' bs' cs' agi' rs' \<and>
    free_set bs' = free_set bs \<and> free_inodes rs' = free_inodes rs \<and> be32 agf' agfOffFreeBlks = be32 agf agfOffFreeBlks"
proof -
  let ?G = "\<lparr>gptByIndex = \<lambda>_ _ _. Inl GptNoTable, gptByType = \<lambda>_ _. Inl GptNoTable, gptList = \<lambda>_ _. Inl GptNoTable\<rparr>"
  let ?cfg = "\<lparr>cfgUUID = replicate 16 7, cfgLabel = [], cfgReflink = False\<rparr>"
  have u: "(if cfgUUID ?cfg = replicate 16 0 then Inl ErrIO else Inr (cfgUUID ?cfg)) = Inr (replicate 16 7)" by simp
  have G: "finds_no_table ?G" by (simp add: finds_no_table_def)
  have q: "isZero \<lparr>qUser = False, qGroup = False, qProject = False, qEnforce = False\<rparr>" by (simp add: isZero_def)
  have nm: "proper_name [98]" by (simp add: proper_name_def)
  note t = write_delete_restores [OF _ _ _ u _ G safeio_ref_admits safeio_ref_bytes q nm, of 67108864 "[9]", where fuel = 3 and fuel' = 0 and fuel'' = 0
      and now = "\<lambda>_. (1700000000, 0)" and clk = clk0 and clk' = clk0 and d = "\<lparr>dsize = 0, dbytes = (\<lambda>_. 0)\<rparr>" and perm = "0x180", unfolded Suc_numerals]
  show ?thesis using t by simp
qed
end
